(* ===== verification/Prelude.thy ===== *)
theory Prelude
  imports Main
begin

text \<open>
  Shared vocabulary of the development: fixed-width Go integers, results of fallible
  operations, and the generic list and map facts the component theories rely on.
  Go's \<open>int\<close>, \<open>int64\<close> and \<open>int32\<close> values are mathematical integers normalised by
  \<open>i64\<close> and \<open>i32\<close> after every arithmetic step, so that wrap-around is visible wherever
  the code adds; Go strings and byte slices are \<^typ>\<open>string\<close>, one \<^typ>\<open>char\<close> per byte.
\<close>

named_theorems go_defs \<open>definitions the evaluation of a concrete run unfolds\<close>
named_theorems inv_intros \<open>introduction rules for component invariants\<close>

section \<open>Fixed-width integers\<close>

definition i64 :: "int \<Rightarrow> int" where
  "i64 x = (x + 2 ^ 63) mod 2 ^ 64 - 2 ^ 63"

definition i32 :: "int \<Rightarrow> int" where
  "i32 x = (x + 2 ^ 31) mod 2 ^ 32 - 2 ^ 31"

lemma i64_id: "- (2 ^ 63) \<le> x \<Longrightarrow> x < 2 ^ 63 \<Longrightarrow> i64 x = x"
  by (simp add: i64_def)

lemma i32_id: "- (2 ^ 31) \<le> x \<Longrightarrow> x < 2 ^ 31 \<Longrightarrow> i32 x = x"
  by (simp add: i32_def)

lemma i64_bounds: "- (2 ^ 63) \<le> i64 x" "i64 x < 2 ^ 63"
  by (simp_all add: i64_def)

lemma i32_bounds: "- (2 ^ 31) \<le> i32 x" "i32 x < 2 ^ 31"
  by (simp_all add: i32_def)

lemma i64_wraps: "i64 (2 ^ 63) = - (2 ^ 63)"
  by (simp add: i64_def)

section \<open>Lists\<close>

lemma take_eq_iff_append: "take (length p) s = p \<longleftrightarrow> (\<exists>t. s = p @ t)"
  by (metis append_eq_conv_conj append_take_drop_id)

lemma list_all2_nth_conv:
  "list_all2 P xs ys \<longleftrightarrow> length xs = length ys \<and> (\<forall>i<length xs. P (xs ! i) (ys ! i))"
  by (rule list_all2_conv_all_nth)

text \<open>The first occurrence of a value is removed by the copy-on-write loops of the code.\<close>

lemma remove1_distinct_set: "distinct xs \<Longrightarrow> set (remove1 x xs) = set xs - {x}"
  by simp

lemma remove1_Nil_set: "distinct xs \<Longrightarrow> remove1 x xs = [] \<Longrightarrow> y \<in> set xs \<Longrightarrow> y = x"
  using remove1_distinct_set [of xs x] by auto

lemma card_Un_le_new:
  assumes "finite A" and "\<And>x. x \<in> set xs \<Longrightarrow> x \<notin> A \<Longrightarrow> x \<in> set ys"
  shows "card (A \<union> set xs) \<le> card A + length ys"
proof -
  have "A \<union> set xs \<subseteq> A \<union> set ys"
    using assms(2) by blast
  then have "card (A \<union> set xs) \<le> card (A \<union> set ys)"
    using assms(1) by (intro card_mono) auto
  also have "\<dots> \<le> card A + card (set ys)"
    by (rule card_Un_le)
  also have "\<dots> \<le> card A + length ys"
    using card_length by simp
  finally show ?thesis .
qed

section \<open>Sums as results\<close>

text \<open>A fallible operation returns \<open>Inl\<close> of its error or \<open>Inr\<close> of its result.\<close>

fun is_ok :: "'e + 'a \<Rightarrow> bool" where
  "is_ok (Inl _) = False"
| "is_ok (Inr _) = True"

lemma is_ok_iff: "is_ok r \<longleftrightarrow> (\<exists>x. r = Inr x)"
  by (cases r) auto

text \<open>The first error of a list of checks, in the order the code makes them.\<close>

fun first_error :: "('a \<Rightarrow> 'e option) \<Rightarrow> 'a list \<Rightarrow> 'e option" where
  "first_error f [] = None"
| "first_error f (x # xs) = (case f x of Some e \<Rightarrow> Some e | None \<Rightarrow> first_error f xs)"

lemma first_error_None [simp]: "first_error f xs = None \<longleftrightarrow> (\<forall>x\<in>set xs. f x = None)"
  by (induction xs) (auto split: option.splits)

lemma orElse_None [simp]:
  "(case x of None \<Rightarrow> y | Some e \<Rightarrow> Some e) = None \<longleftrightarrow> x = None \<and> y = None"
  by (cases x) auto

lemma first_error_Some:
  "first_error f xs = Some e \<longleftrightarrow>
     (\<exists>as x bs. xs = as @ x # bs \<and> f x = Some e \<and> (\<forall>a\<in>set as. f a = None))"
proof (induction xs)
  case Nil
  then show ?case by simp
next
  case (Cons y ys)
  show ?case
  proof (cases "f y")
    case None
    have "(\<exists>as x bs. y # ys = as @ x # bs \<and> f x = Some e \<and> (\<forall>a\<in>set as. f a = None)) \<longleftrightarrow>
          (\<exists>as x bs. ys = as @ x # bs \<and> f x = Some e \<and> (\<forall>a\<in>set as. f a = None))"
      (is "?l \<longleftrightarrow> ?r")
    proof
      assume ?l
      then obtain as x bs where h: "y # ys = as @ x # bs" "f x = Some e" "\<forall>a\<in>set as. f a = None"
        by blast
      with None obtain as' where "as = y # as'" by (cases as) auto
      with h show ?r by auto
    next
      assume ?r
      then obtain as x bs where "ys = as @ x # bs" "f x = Some e" "\<forall>a\<in>set as. f a = None"
        by blast
      with None have "y # ys = (y # as) @ x # bs \<and> f x = Some e \<and> (\<forall>a\<in>set (y # as). f a = None)"
        by simp
      then show ?l by blast
    qed
    with None Cons.IH show ?thesis by simp
  next
    case (Some e')
    have "\<exists>as x bs. y # ys = as @ x # bs \<and> f x = Some e' \<and> (\<forall>a\<in>set as. f a = None)"
      by (rule exI [of _ "[]"], rule exI [of _ y]) (simp add: Some)
    moreover have "e' = e" if "y # ys = as @ x # bs" "f x = Some e" "\<forall>a\<in>set as. f a = None" for as x bs
      using that Some by (cases as) auto
    ultimately show ?thesis using Some by auto
  qed
qed

end
