(* ===== verification/GoStrings.thy ===== *)
theory GoStrings
  imports Prelude
begin

text \<open>
  The functions of Go's \<open>strings\<close> package the program uses, on byte strings:
  \<open>HasPrefix\<close>, \<open>HasSuffix\<close>, \<open>CutPrefix\<close>, \<open>CutSuffix\<close>, \<open>TrimPrefix\<close>, \<open>Cut\<close>, \<open>Split\<close>,
  \<open>Join\<close>, \<open>Count\<close> and \<open>Contains\<close>, with the facts about separators that channel names,
  topics and positions need: splitting and joining are inverse to each other, and no
  piece of a split contains its (one byte) separator.
\<close>

section \<open>Prefixes and suffixes\<close>

definition HasPrefix :: "string \<Rightarrow> string \<Rightarrow> bool" where
  "HasPrefix s p \<longleftrightarrow> take (length p) s = p"

definition HasSuffix :: "string \<Rightarrow> string \<Rightarrow> bool" where
  "HasSuffix s p \<longleftrightarrow> length p \<le> length s \<and> drop (length s - length p) s = p"

definition CutPrefix :: "string \<Rightarrow> string \<Rightarrow> string option" where
  "CutPrefix s p = (if HasPrefix s p then Some (drop (length p) s) else None)"

definition CutSuffix :: "string \<Rightarrow> string \<Rightarrow> string option" where
  "CutSuffix s p = (if HasSuffix s p then Some (take (length s - length p) s) else None)"

definition TrimPrefix :: "string \<Rightarrow> string \<Rightarrow> string" where
  "TrimPrefix s p = (if HasPrefix s p then drop (length p) s else s)"

declare HasPrefix_def [go_defs] HasSuffix_def [go_defs] CutPrefix_def [go_defs]
  CutSuffix_def [go_defs] TrimPrefix_def [go_defs]

lemma HasPrefix_iff: "HasPrefix s p \<longleftrightarrow> (\<exists>t. s = p @ t)"
  by (simp add: HasPrefix_def take_eq_iff_append)

lemma HasPrefix_append [simp]: "HasPrefix (p @ t) p"
  by (auto simp: HasPrefix_iff)

lemma HasPrefix_Nil [simp]: "HasPrefix s []"
  by (simp add: HasPrefix_def)

lemma HasSuffix_iff: "HasSuffix s p \<longleftrightarrow> (\<exists>t. s = t @ p)"
proof
  assume "HasSuffix s p"
  then have "s = take (length s - length p) s @ p"
    unfolding HasSuffix_def by (metis append_take_drop_id)
  then show "\<exists>t. s = t @ p" by blast
next
  assume "\<exists>t. s = t @ p"
  then show "HasSuffix s p" by (auto simp: HasSuffix_def)
qed

lemma CutPrefix_Some [simp]: "CutPrefix s p = Some t \<longleftrightarrow> s = p @ t"
  by (auto simp: CutPrefix_def HasPrefix_iff)

lemma CutPrefix_None [simp]: "CutPrefix s p = None \<longleftrightarrow> \<not> HasPrefix s p"
  by (simp add: CutPrefix_def)

lemma CutSuffix_Some [simp]: "CutSuffix s p = Some t \<longleftrightarrow> s = t @ p"
  by (auto simp: CutSuffix_def HasSuffix_iff)

lemma CutSuffix_None [simp]: "CutSuffix s p = None \<longleftrightarrow> \<not> HasSuffix s p"
  by (simp add: CutSuffix_def)

lemma TrimPrefix_append [simp]: "TrimPrefix (p @ t) p = t"
  by (simp add: TrimPrefix_def)

lemma TrimPrefix_append_prefix: "HasPrefix s p \<Longrightarrow> p @ TrimPrefix s p = s"
  by (auto simp: HasPrefix_iff)

section \<open>Cutting, splitting and joining\<close>

fun Cut :: "string \<Rightarrow> string \<Rightarrow> (string \<times> string) option" where
  "Cut [] sep = (if sep = [] then Some ([], []) else None)"
| "Cut (c # s) sep =
     (if HasPrefix (c # s) sep then Some ([], drop (length sep) (c # s))
      else map_option (\<lambda>(b, a). (c # b, a)) (Cut s sep))"

lemma Cut_Some: "Cut s sep = Some (b, a) \<Longrightarrow> s = b @ sep @ a"
proof (induction s sep arbitrary: b rule: Cut.induct)
  case (1 sep)
  then show ?case by (simp split: if_splits)
next
  case (2 c s sep)
  show ?case
  proof (cases "HasPrefix (c # s) sep")
    case True
    with "2.prems" have "b = []" and "a = drop (length sep) (c # s)" by auto
    with True show ?thesis by (metis HasPrefix_def append_Nil append_take_drop_id)
  next
    case False
    with "2.prems" obtain b' where "Cut s sep = Some (b', a)" and "b = c # b'" by auto
    with "2.IH" [OF False] show ?thesis by simp
  qed
qed

lemma Cut_shorter: "sep \<noteq> [] \<Longrightarrow> Cut s sep = Some (b, a) \<Longrightarrow> length a < length s"
  by (drule Cut_Some) simp

function Split :: "string \<Rightarrow> string \<Rightarrow> string list" where
  "Split s sep =
     (if sep = [] then map (\<lambda>c. [c]) s
      else case Cut s sep of None \<Rightarrow> [s] | Some (b, a) \<Rightarrow> b # Split a sep)"
  by pat_completeness auto
termination
  by (relation "measure (\<lambda>(s, sep). length s)") (auto dest: Cut_shorter)

declare Split.simps [simp del]

fun Join :: "string list \<Rightarrow> string \<Rightarrow> string" where
  "Join [] sep = []"
| "Join [x] sep = x"
| "Join (x # y # zs) sep = x @ sep @ Join (y # zs) sep"

definition Contains :: "string \<Rightarrow> string \<Rightarrow> bool" where
  "Contains s sub \<longleftrightarrow> Cut s sub \<noteq> None"

text \<open>\<open>strings.Count\<close> with a one-byte separator.\<close>

definition Count :: "string \<Rightarrow> char \<Rightarrow> nat" where
  "Count s c = length (filter (\<lambda>x. x = c) s)"

declare Contains_def [go_defs] Count_def [go_defs]

lemma Join_Cons: "xs \<noteq> [] \<Longrightarrow> Join (x # xs) sep = x @ sep @ Join xs sep"
  by (cases xs) auto

lemma Split_not_Nil: "sep \<noteq> [] \<Longrightarrow> Split s sep \<noteq> []"
  by (subst Split.simps) (auto split: option.splits)

lemma Join_Split: "sep \<noteq> [] \<Longrightarrow> Join (Split s sep) sep = s"
proof (induction s sep rule: Split.induct)
  case (1 s sep)
  show ?case
  proof (cases "Cut s sep")
    case None
    with "1.prems" show ?thesis by (subst Split.simps) simp
  next
    case (Some ba)
    then obtain b a where c: "Cut s sep = Some (b, a)" by (cases ba) auto
    with "1.IH" "1.prems" have "Join (Split a sep) sep = a" by (metis prod.collapse)
    with c "1.prems" show ?thesis
      by (subst Split.simps) (simp add: Join_Cons Split_not_Nil Cut_Some [symmetric])
  qed
qed

section \<open>One-byte separators\<close>

lemma Cut_char: "Cut s [c] = Some (b, a) \<longleftrightarrow> s = b @ c # a \<and> c \<notin> set b"
proof
  assume h: "Cut s [c] = Some (b, a)"
  have "c \<notin> set b" using h
    by (induction s "[c]" arbitrary: b rule: Cut.induct)
       (auto simp: HasPrefix_def split: if_splits)
  with h show "s = b @ c # a \<and> c \<notin> set b" by (auto dest: Cut_Some)
next
  assume "s = b @ c # a \<and> c \<notin> set b"
  then show "Cut s [c] = Some (b, a)"
    by (induction b arbitrary: s) (auto simp: HasPrefix_def)
qed

lemma Cut_char_None: "Cut s [c] = None \<longleftrightarrow> c \<notin> set s"
proof
  assume h: "Cut s [c] = None"
  show "c \<notin> set s"
  proof
    assume "c \<in> set s"
    then obtain b a where "s = b @ c # a" "c \<notin> set b" by (meson split_list_first)
    then have "Cut s [c] = Some (b, a)" by (simp add: Cut_char)
    with h show False by simp
  qed
next
  assume "c \<notin> set s"
  then show "Cut s [c] = None" using Cut_char [of s c] by (cases "Cut s [c]") force+
qed

lemma Split_char_None: "c \<notin> set s \<Longrightarrow> Split s [c] = [s]"
  by (subst Split.simps) (simp add: Cut_char_None [THEN iffD2])

lemma Split_char_Cons: "c \<notin> set b \<Longrightarrow> Split (b @ c # a) [c] = b # Split a [c]"
  by (subst Split.simps) (simp add: Cut_char [THEN iffD2])

lemma Split_char_induct [case_names none cut]:
  assumes "\<And>s. c \<notin> set s \<Longrightarrow> P s"
    and "\<And>b a. c \<notin> set b \<Longrightarrow> P a \<Longrightarrow> P (b @ c # a)"
  shows "P s"
proof (induction s rule: measure_induct_rule [of length])
  case (less s)
  show ?case
  proof (cases "c \<in> set s")
    case True
    then obtain b a where s: "s = b @ c # a" "c \<notin> set b" by (meson split_list_first)
    then have "P a" by (intro less.IH) simp
    with s show ?thesis by (simp add: assms(2))
  qed (simp add: assms(1))
qed

lemma Split_segment_no_sep: "p \<in> set (Split s [c]) \<Longrightarrow> c \<notin> set p"
  by (induction s rule: Split_char_induct [where c = c]) (auto simp: Split_char_None Split_char_Cons)

lemma Split_Join:
  assumes "xs \<noteq> []" and "\<forall>x\<in>set xs. c \<notin> set x"
  shows "Split (Join xs [c]) [c] = xs"
  using assms
proof (induction xs rule: list_nonempty_induct)
  case (single x)
  then show ?case by (simp add: Split_char_None)
next
  case (cons x xs)
  then show ?case by (simp add: Join_Cons Split_char_Cons)
qed

lemma length_Split_Count: "length (Split s [c]) = Count s c + 1"
proof (induction s rule: Split_char_induct [where c = c])
  case (none s)
  then have "filter (\<lambda>x. x = c) s = []" by (auto simp: filter_empty_conv)
  with none show ?case by (simp add: Split_char_None Count_def)
next
  case (cut b a)
  then have "filter (\<lambda>x. x = c) b = []" by (auto simp: filter_empty_conv)
  with cut show ?case by (simp add: Split_char_Cons Count_def)
qed

lemma hd_Split: "Split s [c] = x # xs \<Longrightarrow> xs \<noteq> [] \<Longrightarrow> \<exists>a. s = x @ c # a \<and> c \<notin> set x \<and> Split a [c] = xs"
proof (cases "c \<in> set s")
  case True
  assume h: "Split s [c] = x # xs"
  obtain b a where s: "s = b @ c # a" "c \<notin> set b" using True by (meson split_list_first)
  with h have "b = x" "Split a [c] = xs" by (simp_all add: Split_char_Cons)
  with s show ?thesis by blast
next
  case False
  assume "Split s [c] = x # xs" "xs \<noteq> []"
  with False show ?thesis by (simp add: Split_char_None)
qed

lemma Split_inj: "Split s [c] = Split t [c] \<Longrightarrow> s = t"
  by (metis Join_Split not_Cons_self2)

end
