(* ===== verification/Channels.thy ===== *)
theory Channels
  imports GoStrings
begin

text \<open>
  Channel names: the wildcard matcher of \<open>shared/auth/pattern.go\<close>, the channel format
  checks of \<open>shared/auth/channel.go\<close> and the tenant-prefix check of
  \<open>shared/auth/channel_tenant.go\<close>. A channel is \<open>{tenant}.{suffix}\<close>, dot-separated.
\<close>

section \<open>Wildcard patterns\<close>

definition MatchWildcard :: "string \<Rightarrow> string \<Rightarrow> bool" where
  "MatchWildcard pattern v =
     (if pattern = v then True
      else if pattern = ''*'' then True
      else case CutPrefix pattern ''*'' of
        Some after \<Rightarrow> HasSuffix v after
      | None \<Rightarrow>
          (case CutSuffix pattern ''*'' of
             Some before \<Rightarrow> HasPrefix v before
           | None \<Rightarrow>
               (case Cut pattern ''*'' of
                  Some (prefix, suffix) \<Rightarrow>
                    (if prefix \<noteq> [] then HasPrefix v prefix \<and> HasSuffix v suffix else False)
                | None \<Rightarrow> False)))"

fun MatchAnyWildcard :: "string list \<Rightarrow> string \<Rightarrow> bool" where
  "MatchAnyWildcard [] v = False"
| "MatchAnyWildcard (p # ps) v = (if MatchWildcard p v then True else MatchAnyWildcard ps v)"

declare MatchWildcard_def [go_defs]

lemma MatchAnyWildcard_iff: "MatchAnyWildcard ps v \<longleftrightarrow> (\<exists>p\<in>set ps. MatchWildcard p v)"
  by (induction ps) auto

lemma MatchWildcard_refl [simp]: "MatchWildcard p p"
  by (simp add: MatchWildcard_def)

lemma MatchWildcard_star [simp]: "MatchWildcard ''*'' v"
  by (simp add: MatchWildcard_def)

lemma MatchWildcard_literal:
  assumes "CHR ''*'' \<notin> set p"
  shows "MatchWildcard p v \<longleftrightarrow> p = v"
proof -
  have "\<not> HasPrefix p ''*''" "\<not> HasSuffix p ''*''" "p \<noteq> ''*''"
    using assms by (auto simp: HasPrefix_iff HasSuffix_iff)
  moreover have "Cut p ''*'' = None" using assms by (simp add: Cut_char_None)
  ultimately show ?thesis by (simp add: MatchWildcard_def CutPrefix_def CutSuffix_def)
qed

text \<open>A pattern with one wildcard compares the two ends of the value.\<close>

lemma MatchWildcard_one_star:
  assumes "CHR ''*'' \<notin> set pre" and "CHR ''*'' \<notin> set suf"
  shows "MatchWildcard (pre @ ''*'' @ suf) v \<longleftrightarrow> HasPrefix v pre \<and> HasSuffix v suf"
proof (cases "v = pre @ ''*'' @ suf")
  case True
  have "HasPrefix v pre" "HasSuffix v suf" using True by (auto simp: HasSuffix_iff)
  with True show ?thesis by simp
next
  case False
  show ?thesis
  proof (cases "pre = []")
    case True
    with False show ?thesis
      by (cases "suf = []") (auto simp: MatchWildcard_def CutPrefix_def HasPrefix_def HasSuffix_def)
  next
    case pre: False
    then have np: "\<not> HasPrefix (pre @ ''*'' @ suf) ''*''"
      using assms(1) by (cases pre) (auto simp: HasPrefix_def)
    show ?thesis
    proof (cases "suf = []")
      case True
      have cut: "CutSuffix (pre @ ''*'') ''*'' = Some pre" by simp
      from True False np pre show ?thesis
        by (auto simp add: MatchWildcard_def CutPrefix_def HasSuffix_def cut)
    next
      case suf: False
      then have "\<not> HasSuffix (pre @ ''*'' @ suf) ''*''"
        using assms(2) by (cases suf rule: rev_cases) (auto simp: HasSuffix_iff)
      moreover have "Cut (pre @ ''*'' @ suf) ''*'' = Some (pre, suf)"
        using assms(1) by (simp add: Cut_char)
      moreover have "pre @ ''*'' @ suf \<noteq> ''*''" using pre by (cases pre) auto
      ultimately show ?thesis using False np pre
        by (simp add: MatchWildcard_def CutPrefix_def CutSuffix_def)
    qed
  qed
qed

text \<open>What the documentation promises for one wildcard: any text may stand for it.\<close>

definition glob_one :: "string \<Rightarrow> string \<Rightarrow> string \<Rightarrow> bool" where
  "glob_one pre suf v \<longleftrightarrow> HasPrefix v pre \<and> HasSuffix (drop (length pre) v) suf"

lemma glob_one_iff: "glob_one pre suf v \<longleftrightarrow> (\<exists>m. v = pre @ m @ suf)"
  by (auto simp: glob_one_def HasPrefix_iff HasSuffix_iff)

section \<open>Channel format\<close>

datatype channel_error =
    ErrEmptyChannel
  | ErrEmptyChannelSegment nat
  | ErrInsufficientChannelParts nat

definition MinInternalChannelParts :: nat where
  "MinInternalChannelParts = 2"

definition extractChannelTenant :: "string \<Rightarrow> string \<Rightarrow> string" where
  "extractChannelTenant channel separator =
     (case Cut channel separator of None \<Rightarrow> [] | Some (before, _) \<Rightarrow> before)"

definition IsSharedChannel :: "string \<Rightarrow> string list \<Rightarrow> bool" where
  "IsSharedChannel channel sharedPatterns = MatchAnyWildcard sharedPatterns channel"

fun check_segments :: "nat \<Rightarrow> string list \<Rightarrow> channel_error option" where
  "check_segments i [] = None"
| "check_segments i (part # parts) =
     (if part = [] then Some (ErrEmptyChannelSegment i) else check_segments (Suc i) parts)"

definition ValidateChannelSegments :: "string \<Rightarrow> channel_error option" where
  "ValidateChannelSegments channel =
     (if channel = [] then Some ErrEmptyChannel
      else check_segments 0 (Split channel ''.''))"

definition ValidateInternalChannel :: "string \<Rightarrow> channel_error option" where
  "ValidateInternalChannel channel =
     (case ValidateChannelSegments channel of
        Some e \<Rightarrow> Some e
      | None \<Rightarrow>
          (let parts = Count channel (CHR ''.'') + 1
           in if parts < MinInternalChannelParts
              then Some (ErrInsufficientChannelParts parts) else None))"

definition IsValidInternalChannel :: "string \<Rightarrow> bool" where
  "IsValidInternalChannel channel \<longleftrightarrow> ValidateInternalChannel channel = None"

definition ValidateChannelTenant :: "string \<Rightarrow> string \<Rightarrow> bool" where
  "ValidateChannelTenant channel tenantID =
     (if channel = [] \<or> tenantID = [] then False else HasPrefix channel (tenantID @ ''.''))"

declare MinInternalChannelParts_def [go_defs] extractChannelTenant_def [go_defs]
  IsSharedChannel_def [go_defs] ValidateChannelSegments_def [go_defs]
  ValidateInternalChannel_def [go_defs] IsValidInternalChannel_def [go_defs]
  ValidateChannelTenant_def [go_defs]

lemma check_segments_None [simp]: "check_segments i ps = None \<longleftrightarrow> [] \<notin> set ps"
  by (induction ps arbitrary: i) auto

lemma check_segments_first:
  "check_segments i ps = Some e \<longleftrightarrow>
     (\<exists>as bs. ps = as @ [] # bs \<and> [] \<notin> set as \<and> e = ErrEmptyChannelSegment (i + length as))"
proof (induction ps arbitrary: i)
  case Nil
  then show ?case by simp
next
  case (Cons p ps)
  show ?case
  proof (cases "p = []")
    case True
    have "as = []" if "p # ps = as @ [] # bs" "[] \<notin> set as" for as bs :: "string list"
      using that True by (cases as) auto
    with True show ?thesis by (auto intro: exI [of _ "[]"])
  next
    case False
    have "(\<exists>as bs. p # ps = as @ [] # bs \<and> [] \<notin> set as \<and> e = ErrEmptyChannelSegment (i + length as))
      \<longleftrightarrow> (\<exists>as bs. ps = as @ [] # bs \<and> [] \<notin> set as \<and> e = ErrEmptyChannelSegment (Suc i + length as))"
      (is "?l \<longleftrightarrow> ?r")
    proof
      assume ?l
      then obtain as bs where h: "p # ps = as @ [] # bs" "[] \<notin> set as"
        "e = ErrEmptyChannelSegment (i + length as)" by blast
      with False obtain as' where "as = p # as'" by (cases as) auto
      with h show ?r by auto
    next
      assume ?r
      then obtain as bs where "ps = as @ [] # bs" "[] \<notin> set as"
        "e = ErrEmptyChannelSegment (Suc i + length as)" by blast
      with False have "p # ps = (p # as) @ [] # bs \<and> [] \<notin> set (p # as)
        \<and> e = ErrEmptyChannelSegment (i + length (p # as))" by simp
      then show ?l by blast
    qed
    with False Cons.IH show ?thesis by simp
  qed
qed

lemma Nil_not_in_Split: "[] \<notin> set (Split s [c]) \<Longrightarrow> s \<noteq> []"
  by (auto simp: Split_char_None)

lemma ValidateInternalChannel_None:
  "ValidateInternalChannel ch = None \<longleftrightarrow>
     [] \<notin> set (Split ch ''.'') \<and> 2 \<le> length (Split ch ''.'')"
proof (cases "[] \<in> set (Split ch ''.'')")
  case True
  then obtain e where "check_segments 0 (Split ch ''.'') = Some e"
    by (metis check_segments_None not_Some_eq)
  with True show ?thesis
    by (auto simp: ValidateInternalChannel_def ValidateChannelSegments_def)
next
  case False
  then have "ValidateChannelSegments ch = None"
    using Nil_not_in_Split by (simp add: ValidateChannelSegments_def)
  with False show ?thesis
    by (auto simp: ValidateInternalChannel_def Let_def length_Split_Count MinInternalChannelParts_def)
qed

lemma ValidateChannelTenant_iff:
  "ValidateChannelTenant ch t \<longleftrightarrow> t \<noteq> [] \<and> (\<exists>suffix. ch = t @ ''.'' @ suffix)"
  by (auto simp: ValidateChannelTenant_def HasPrefix_iff)

lemma ValidateChannelTenant_extract:
  assumes "CHR ''.'' \<notin> set t"
  shows "ValidateChannelTenant ch t \<longleftrightarrow> t \<noteq> [] \<and> extractChannelTenant ch ''.'' = t"
proof
  assume "ValidateChannelTenant ch t"
  then obtain s where "t \<noteq> []" "ch = t @ CHR ''.'' # s" by (auto simp: ValidateChannelTenant_iff)
  with assms show "t \<noteq> [] \<and> extractChannelTenant ch ''.'' = t"
    using Cut_char [of ch "CHR ''.''" t s] by (simp add: extractChannelTenant_def)
next
  assume h: "t \<noteq> [] \<and> extractChannelTenant ch ''.'' = t"
  then obtain a where "Cut ch ''.'' = Some (t, a)"
    by (cases "Cut ch ''.''") (auto simp: extractChannelTenant_def)
  then have "ch = t @ ''.'' @ a" by (rule Cut_Some)
  with h show "ValidateChannelTenant ch t" by (auto simp: ValidateChannelTenant_iff)
qed

lemma TrimPrefix_tenant:
  "ValidateChannelTenant ch t \<Longrightarrow> (t @ ''.'') @ TrimPrefix ch (t @ ''.'') = ch"
  by (rule TrimPrefix_append_prefix) (auto simp: ValidateChannelTenant_def split: if_splits)

section \<open>Properties\<close>

text \<open>\<open>MatchWildcard\<close> implements the documented meaning of a pattern with one wildcard,
  for every value at least as long as the pattern's fixed text: it accepts exactly the
  values obtained by putting some text for the wildcard.\<close>

theorem wildcard_one_star_exact:
  assumes "CHR ''*'' \<notin> set pre" and "CHR ''*'' \<notin> set suf"
    and "length pre + length suf \<le> length v"
  shows "MatchWildcard (pre @ ''*'' @ suf) v \<longleftrightarrow> glob_one pre suf v"
proof -
  have "HasSuffix v suf \<longleftrightarrow> HasSuffix (drop (length pre) v) suf"
    using assms(3) by (auto simp: HasSuffix_def)
  then show ?thesis by (simp only: MatchWildcard_one_star [OF assms(1,2)] glob_one_def)
qed

theorem wildcard_one_star_exact_witness:
  "MatchWildcard (''acme.'' @ ''*'' @ ''.trade'') ''acme.BTC.trade''
     \<longleftrightarrow> glob_one ''acme.'' ''.trade'' ''acme.BTC.trade''"
  by (rule wildcard_one_star_exact) simp_all

text \<open>On shorter values the two ends may overlap, and \<open>MatchWildcard\<close> then accepts values
  that no text for the wildcard produces: \<open>ab*ba\<close> accepts \<open>aba\<close>. The prefix and suffix are
  tested on the whole value, not on disjoint parts of it.\<close>

theorem wildcard_overlap_accepts:
  assumes "CHR ''*'' \<notin> set a" and "CHR ''*'' \<notin> set x" and "CHR ''*'' \<notin> set b" and "x \<noteq> []"
  shows "MatchWildcard ((a @ x) @ ''*'' @ (x @ b)) (a @ x @ b)
    \<and> \<not> glob_one (a @ x) (x @ b) (a @ x @ b)"
proof
  have "HasPrefix (a @ x @ b) (a @ x)" "HasSuffix (a @ x @ b) (x @ b)"
    by (auto simp: HasPrefix_iff HasSuffix_iff)
  then show "MatchWildcard ((a @ x) @ ''*'' @ (x @ b)) (a @ x @ b)"
    using assms by (subst MatchWildcard_one_star) auto
  show "\<not> glob_one (a @ x) (x @ b) (a @ x @ b)"
    using assms(4) by (auto simp: glob_one_iff)
qed

theorem wildcard_overlap_accepts_witness:
  "MatchWildcard ((''a'' @ ''b'') @ ''*'' @ (''b'' @ ''a'')) (''a'' @ ''b'' @ ''a'')
    \<and> \<not> glob_one (''a'' @ ''b'') (''b'' @ ''a'') (''a'' @ ''b'' @ ''a'')"
  by (rule wildcard_overlap_accepts) simp_all

text \<open>A channel belongs to at most one tenant. Tenant slugs hold no dot, so two slugs that
  both pass the prefix check on the same channel are equal, and the owner is the text
  before the first dot.\<close>

theorem channel_has_one_owner:
  assumes "CHR ''.'' \<notin> set t" and "CHR ''.'' \<notin> set u"
    and "ValidateChannelTenant ch t" and "ValidateChannelTenant ch u"
  shows "t = u \<and> extractChannelTenant ch ''.'' = t"
  using assms by (simp add: ValidateChannelTenant_extract)

theorem channel_has_one_owner_witness:
  "''acme'' = ''acme'' \<and> extractChannelTenant ''acme.BTC.trade'' ''.'' = ''acme''"
  by (rule channel_has_one_owner [where u = "''acme''"]) (simp_all add: ValidateChannelTenant_def HasPrefix_def)

text \<open>\<open>ValidateInternalChannel\<close> accepts exactly the names made of two or more non-empty,
  dot-free segments joined by dots.\<close>

theorem internal_channel_format:
  "IsValidInternalChannel ch \<longleftrightarrow>
     (\<exists>segs. 2 \<le> length segs \<and> [] \<notin> set segs \<and> list_all (\<lambda>s. CHR ''.'' \<notin> set s) segs
        \<and> ch = Join segs ''.'')"
proof
  assume "IsValidInternalChannel ch"
  then have "[] \<notin> set (Split ch ''.'')" "2 \<le> length (Split ch ''.'')"
    by (simp_all add: IsValidInternalChannel_def ValidateInternalChannel_None)
  moreover have "list_all (\<lambda>s. CHR ''.'' \<notin> set s) (Split ch ''.'')"
    by (auto simp: list_all_iff dest: Split_segment_no_sep)
  ultimately show "\<exists>segs. 2 \<le> length segs \<and> [] \<notin> set segs
      \<and> list_all (\<lambda>s. CHR ''.'' \<notin> set s) segs \<and> ch = Join segs ''.''"
    by (intro exI [of _ "Split ch ''.''"]) (simp add: Join_Split)
next
  assume "\<exists>segs. 2 \<le> length segs \<and> [] \<notin> set segs
      \<and> list_all (\<lambda>s. CHR ''.'' \<notin> set s) segs \<and> ch = Join segs ''.''"
  then obtain segs where h: "2 \<le> length segs" "[] \<notin> set segs"
    "\<forall>s\<in>set segs. CHR ''.'' \<notin> set s" "ch = Join segs ''.''" by (auto simp: list_all_iff)
  from h(1) have "segs \<noteq> []" by auto
  with h(3,4) have "Split ch ''.'' = segs" by (simp add: Split_Join)
  with h show "IsValidInternalChannel ch"
    by (simp add: IsValidInternalChannel_def ValidateInternalChannel_None)
qed

end
