(* ===== verification/ChannelRules.thy ===== *)
theory ChannelRules
  imports Channels
begin

text \<open>
  Per-tenant channel access rules, \<open>shared/types/channel_rules.go\<close>: the rule record, its
  validation, the patterns a user's groups give access to, and the placeholder-name
  check. A Go map is an association list in some iteration order; every theorem holds
  for every order.
\<close>

section \<open>Data\<close>

type_synonym group_mapping = "(string \<times> string list) list"

record channel_rules =
  Public :: "string list"
  GroupMappings :: group_mapping
  DefaultPatterns :: "string list"
  PublishPublic :: "string list"
  PublishGroupMappings :: group_mapping
  PublishDefault :: "string list"

datatype rules_error =
    ErrInvalidChannelPattern string
  | ErrEmptyGroupName
  | ErrGroupNameTooLong string
  | ErrTooManyGroups nat
  | ErrTooManyPatterns nat
  | ErrTooManyPublicPatterns nat
  | UnknownPlaceholder string string

definition MaxGroupNameLength :: nat where "MaxGroupNameLength = 128"
definition MaxChannelPatternLength :: nat where "MaxChannelPatternLength = 256"
definition MaxGroupsPerMapping :: nat where "MaxGroupsPerMapping = 100"
definition MaxPatternsPerGroup :: nat where "MaxPatternsPerGroup = 50"
definition MaxPublicPatterns :: nat where "MaxPublicPatterns = 50"

lemmas rules_limits [go_defs] = MaxGroupNameLength_def MaxChannelPatternLength_def
  MaxGroupsPerMapping_def MaxPatternsPerGroup_def MaxPublicPatterns_def

definition NewChannelRules :: channel_rules where
  "NewChannelRules = \<lparr>Public = [], GroupMappings = [], DefaultPatterns = [],
     PublishPublic = [], PublishGroupMappings = [], PublishDefault = []\<rparr>"

section \<open>Character classes of the regular expressions\<close>

definition is_letter :: "char \<Rightarrow> bool" where
  "is_letter c \<longleftrightarrow> (let n = (of_char c :: nat) in (97 \<le> n \<and> n \<le> 122) \<or> (65 \<le> n \<and> n \<le> 90))"

definition is_digit :: "char \<Rightarrow> bool" where
  "is_digit c \<longleftrightarrow> (let n = (of_char c :: nat) in 48 \<le> n \<and> n \<le> 57)"

text \<open>The class \<open>[-a-zA-Z0-9.*_{}]\<close> of \<open>channelPatternRegex\<close>.\<close>

definition channel_pattern_char :: "char \<Rightarrow> bool" where
  "channel_pattern_char c \<longleftrightarrow> is_letter c \<or> is_digit c \<or> c \<in> set ''-.*_{}''"

declare is_letter_def [go_defs] is_digit_def [go_defs] channel_pattern_char_def [go_defs]

definition IsValidChannelPattern :: "string \<Rightarrow> bool" where
  "IsValidChannelPattern pattern =
     (if pattern = [] \<or> length pattern > MaxChannelPatternLength then False
      else list_all channel_pattern_char pattern)"

section \<open>Validation\<close>

definition check_patterns :: "string list \<Rightarrow> rules_error option" where
  "check_patterns ps =
     first_error (\<lambda>p. if IsValidChannelPattern p then None else Some (ErrInvalidChannelPattern p)) ps"

definition check_group :: "string \<times> string list \<Rightarrow> rules_error option" where
  "check_group = (\<lambda>(group, patterns).
     if group = [] then Some ErrEmptyGroupName
     else if length group > MaxGroupNameLength then Some (ErrGroupNameTooLong group)
     else if length patterns > MaxPatternsPerGroup then Some (ErrTooManyPatterns (length patterns))
     else check_patterns patterns)"

definition check_public :: "string list \<Rightarrow> rules_error option" where
  "check_public ps =
     (if length ps > MaxPublicPatterns then Some (ErrTooManyPublicPatterns (length ps))
      else check_patterns ps)"

definition check_mapping :: "group_mapping \<Rightarrow> rules_error option" where
  "check_mapping m =
     (if length m > MaxGroupsPerMapping then Some (ErrTooManyGroups (length m))
      else first_error check_group m)"

definition check_default :: "string list \<Rightarrow> rules_error option" where
  "check_default ps =
     (if length ps > MaxPatternsPerGroup then Some (ErrTooManyPatterns (length ps))
      else check_patterns ps)"

text \<open>The six checks of \<open>Validate\<close>, in the order of the code; the first failure is returned.\<close>

definition ValidateRules :: "channel_rules \<Rightarrow> rules_error option" where
  "ValidateRules r =
     (case check_public (Public r) of Some e \<Rightarrow> Some e | None \<Rightarrow>
     (case check_mapping (GroupMappings r) of Some e \<Rightarrow> Some e | None \<Rightarrow>
     (case check_default (DefaultPatterns r) of Some e \<Rightarrow> Some e | None \<Rightarrow>
     (case check_public (PublishPublic r) of Some e \<Rightarrow> Some e | None \<Rightarrow>
     (case check_mapping (PublishGroupMappings r) of Some e \<Rightarrow> Some e | None \<Rightarrow>
      check_default (PublishDefault r))))))"

lemmas validate_defs = ValidateRules_def check_public_def check_mapping_def check_default_def
  check_group_def check_patterns_def

section \<open>Allowed patterns\<close>

fun dedup_loop :: "string set \<Rightarrow> string list \<Rightarrow> string list" where
  "dedup_loop seen [] = []"
| "dedup_loop seen (v # vs) =
     (if v \<in> seen then dedup_loop seen vs else v # dedup_loop (insert v seen) vs)"

definition deduplicate :: "string list \<Rightarrow> string list" where
  "deduplicate s = (if length s \<le> 1 then s else dedup_loop {} s)"

text \<open>The loop over the user's groups collects patterns and whether any group is mapped.\<close>

fun collect_groups :: "group_mapping \<Rightarrow> string list \<Rightarrow> string list \<times> bool \<Rightarrow> string list \<times> bool" where
  "collect_groups m [] acc = acc"
| "collect_groups m (g # gs) (allowed, matched) =
     (case map_of m g of
        Some patterns \<Rightarrow> collect_groups m gs (allowed @ patterns, True)
      | None \<Rightarrow> collect_groups m gs (allowed, matched))"

definition ComputeAllowedPatterns :: "channel_rules \<Rightarrow> string list \<Rightarrow> string list" where
  "ComputeAllowedPatterns r groups =
     (let (allowed, matched) = collect_groups (GroupMappings r) groups (Public r, False);
          allowed = (if \<not> matched \<and> length (DefaultPatterns r) > 0
                     then allowed @ DefaultPatterns r else allowed)
      in deduplicate allowed)"

definition ComputeAllowedPublishPatterns :: "channel_rules \<Rightarrow> string list \<Rightarrow> string list" where
  "ComputeAllowedPublishPatterns r groups =
     (let (allowed, matched) = collect_groups (PublishGroupMappings r) groups (PublishPublic r, False);
          allowed = (if \<not> matched \<and> length (PublishDefault r) > 0
                     then allowed @ PublishDefault r else allowed)
      in deduplicate allowed)"

definition HasPublishRules :: "channel_rules \<Rightarrow> bool" where
  "HasPublishRules r \<longleftrightarrow>
     length (PublishPublic r) > 0 \<or> length (PublishGroupMappings r) > 0 \<or> length (PublishDefault r) > 0"

declare deduplicate_def [go_defs] ComputeAllowedPatterns_def [go_defs]
  ComputeAllowedPublishPatterns_def [go_defs]

section \<open>Placeholder names in patterns\<close>

lemma dropWhile_shorter: "length (tl (dropWhile P s)) < Suc (length s)"
  by (metis diff_le_self le_imp_less_Suc length_dropWhile_le length_tl order_trans)

text \<open>Successive matches of \<open>\{([^}]+)\}\<close>: the bodies of the braced tokens of a pattern.\<close>

function brace_tokens :: "string \<Rightarrow> string list" where
  "brace_tokens [] = []"
| "brace_tokens (c # s) =
     (if c = CHR ''{'' \<and> takeWhile (\<lambda>x. x \<noteq> CHR ''}'') s \<noteq> []
         \<and> dropWhile (\<lambda>x. x \<noteq> CHR ''}'') s \<noteq> []
      then takeWhile (\<lambda>x. x \<noteq> CHR ''}'') s # brace_tokens (tl (dropWhile (\<lambda>x. x \<noteq> CHR ''}'') s))
      else brace_tokens s)"
  by pat_completeness auto

termination
  by (relation "measure length") (auto simp: dropWhile_shorter simp del: length_tl)

definition all_patterns :: "channel_rules \<Rightarrow> string list" where
  "all_patterns r = Public r @ DefaultPatterns r @ PublishPublic r @ PublishDefault r
     @ concat (map snd (GroupMappings r)) @ concat (map snd (PublishGroupMappings r))"

definition check_tokens :: "string list \<Rightarrow> string \<Rightarrow> rules_error option" where
  "check_tokens validNames pattern =
     first_error (\<lambda>name. if name \<in> set validNames then None else Some (UnknownPlaceholder name pattern))
       (brace_tokens pattern)"

definition ValidateWithPlaceholders :: "channel_rules \<Rightarrow> string list \<Rightarrow> rules_error option" where
  "ValidateWithPlaceholders r validNames = first_error (check_tokens validNames) (all_patterns r)"

section \<open>Deduplication\<close>

lemma dedup_loop_set: "set (dedup_loop seen s) = set s - seen"
  by (induction s arbitrary: seen) auto

lemma dedup_loop_distinct: "distinct (dedup_loop seen s)"
  by (induction s arbitrary: seen) (auto simp: dedup_loop_set)

lemma dedup_loop_id: "distinct s \<Longrightarrow> set s \<inter> seen = {} \<Longrightarrow> dedup_loop seen s = s"
  by (induction s arbitrary: seen) auto

lemma deduplicate_set [simp]: "set (deduplicate s) = set s"
  by (simp add: deduplicate_def dedup_loop_set)

lemma deduplicate_distinct [simp]: "distinct (deduplicate s)"
proof (cases "length s \<le> 1")
  case True
  then show ?thesis by (cases s) (auto simp: deduplicate_def)
next
  case False
  then show ?thesis by (simp add: deduplicate_def dedup_loop_distinct del: dedup_loop.simps)
qed

lemma deduplicate_id: "distinct s \<Longrightarrow> deduplicate s = s"
  by (simp add: deduplicate_def dedup_loop_id)

section \<open>One contract for subscribe and publish rules\<close>

text \<open>
  \<open>ComputeAllowedPatterns\<close> and \<open>ComputeAllowedPublishPatterns\<close> are the same computation on
  different fields. The locale names the three fields and the computation; its lemmas
  are proved once and hold for both.
\<close>

lemma collect_groups_allowed:
  "set (fst (collect_groups m gs (al, b))) = set al \<union> (\<Union>g\<in>set gs. case map_of m g of None \<Rightarrow> {} | Some ps \<Rightarrow> set ps)"
  by (induction gs arbitrary: al b) (auto split: option.splits)

lemma collect_empty [simp]: "collect_groups [] gs acc = acc"
  by (induction gs arbitrary: acc) auto

lemma collect_groups_matched:
  "snd (collect_groups m gs (al, b)) \<longleftrightarrow> b \<or> (\<exists>g\<in>set gs. map_of m g \<noteq> None)"
  by (induction gs arbitrary: al b) (auto split: option.splits)

locale allowed_patterns =
  fixes public :: "channel_rules \<Rightarrow> string list"
    and mapping :: "channel_rules \<Rightarrow> group_mapping"
    and fallback :: "channel_rules \<Rightarrow> string list"
    and compute :: "channel_rules \<Rightarrow> string list \<Rightarrow> string list"
  assumes compute_eq: "compute r gs =
    (let (allowed, matched) = collect_groups (mapping r) gs (public r, False)
     in deduplicate (if \<not> matched \<and> length (fallback r) > 0 then allowed @ fallback r else allowed))"
begin

lemma compute_member:
  "p \<in> set (compute r gs) \<longleftrightarrow>
     p \<in> set (public r)
     \<or> (\<exists>g\<in>set gs. \<exists>ps. map_of (mapping r) g = Some ps \<and> p \<in> set ps)
     \<or> ((\<forall>g\<in>set gs. map_of (mapping r) g = None) \<and> p \<in> set (fallback r))"
proof -
  obtain al m where c: "collect_groups (mapping r) gs (public r, False) = (al, m)" by fastforce
  have "set al = set (public r) \<union> (\<Union>g\<in>set gs. case map_of (mapping r) g of None \<Rightarrow> {} | Some ps \<Rightarrow> set ps)"
    using collect_groups_allowed [of "mapping r" gs "public r" False] c by simp
  moreover have "m \<longleftrightarrow> (\<exists>g\<in>set gs. map_of (mapping r) g \<noteq> None)"
    using collect_groups_matched [of "mapping r" gs "public r" False] c by simp
  ultimately show ?thesis
    by (auto simp: compute_eq c split: option.splits)
qed

lemma compute_distinct: "distinct (compute r gs)"
  by (simp add: compute_eq split: prod.splits)

lemma compute_public: "set (public r) \<subseteq> set (compute r gs)"
  by (auto simp: compute_member)

end

interpretation sub: allowed_patterns Public GroupMappings DefaultPatterns ComputeAllowedPatterns
  by unfold_locales (simp add: ComputeAllowedPatterns_def Let_def split: prod.splits)

interpretation pub: allowed_patterns PublishPublic PublishGroupMappings PublishDefault ComputeAllowedPublishPatterns
  by unfold_locales (simp add: ComputeAllowedPublishPatterns_def Let_def split: prod.splits)

section \<open>Validation accepts exactly the well-formed rules\<close>

definition mapping_ok :: "group_mapping \<Rightarrow> bool" where
  "mapping_ok m \<longleftrightarrow> length m \<le> 100 \<and>
     list_all (\<lambda>(g, ps). g \<noteq> [] \<and> length g \<le> 128 \<and> length ps \<le> 50 \<and> list_all IsValidChannelPattern ps) m"

definition rules_ok :: "channel_rules \<Rightarrow> bool" where
  "rules_ok r \<longleftrightarrow>
     length (Public r) \<le> 50 \<and> list_all IsValidChannelPattern (Public r)
     \<and> mapping_ok (GroupMappings r)
     \<and> length (DefaultPatterns r) \<le> 50 \<and> list_all IsValidChannelPattern (DefaultPatterns r)
     \<and> length (PublishPublic r) \<le> 50 \<and> list_all IsValidChannelPattern (PublishPublic r)
     \<and> mapping_ok (PublishGroupMappings r)
     \<and> length (PublishDefault r) \<le> 50 \<and> list_all IsValidChannelPattern (PublishDefault r)"

lemma check_patterns_None: "check_patterns ps = None \<longleftrightarrow> list_all IsValidChannelPattern ps"
  by (simp add: check_patterns_def list_all_iff)

lemma check_public_None:
  "check_public ps = None \<longleftrightarrow> length ps \<le> 50 \<and> list_all IsValidChannelPattern ps"
  by (simp add: check_public_def check_patterns_None MaxPublicPatterns_def not_less)

lemma check_default_None:
  "check_default ps = None \<longleftrightarrow> length ps \<le> 50 \<and> list_all IsValidChannelPattern ps"
  by (simp add: check_default_def check_patterns_None MaxPatternsPerGroup_def not_less)

lemma check_group_None:
  "check_group (g, ps) = None \<longleftrightarrow>
     g \<noteq> [] \<and> length g \<le> 128 \<and> length ps \<le> 50 \<and> list_all IsValidChannelPattern ps"
  by (simp add: check_group_def check_patterns_None rules_limits not_less)

lemma check_mapping_None: "check_mapping m = None \<longleftrightarrow> mapping_ok m"
  by (auto simp: check_mapping_def mapping_ok_def list_all_iff check_group_None rules_limits not_less)

section \<open>Properties\<close>

text \<open>\<open>ChannelRules.Validate\<close> accepts a rule set exactly when every count is within its
  limit, every group name is non-empty and short enough, and every pattern is 1 to 256
  characters of the permitted alphabet, on the subscribe and on the publish side.\<close>

theorem rules_validate_exact: "ValidateRules r = None \<longleftrightarrow> rules_ok r"
  by (simp add: ValidateRules_def rules_ok_def check_public_None check_mapping_None check_default_None)

text \<open>The subscribe patterns of a user are, without duplicates, the tenant's public patterns,
  those of every mapped group the user is in, and the default patterns only when none of
  the user's groups is mapped.\<close>

theorem allowed_subscribe_patterns:
  "distinct (ComputeAllowedPatterns r gs) \<and>
   set (ComputeAllowedPatterns r gs) =
     set (Public r)
     \<union> {p. \<exists>g ps. g \<in> set gs \<and> map_of (GroupMappings r) g = Some ps \<and> p \<in> set ps}
     \<union> (if \<exists>g. g \<in> set gs \<and> map_of (GroupMappings r) g \<noteq> None then {} else set (DefaultPatterns r))"
proof (rule conjI [OF sub.compute_distinct], rule set_eqI)
  fix p
  show "p \<in> set (ComputeAllowedPatterns r gs) \<longleftrightarrow> p \<in> set (Public r)
     \<union> {p. \<exists>g ps. g \<in> set gs \<and> map_of (GroupMappings r) g = Some ps \<and> p \<in> set ps}
     \<union> (if \<exists>g. g \<in> set gs \<and> map_of (GroupMappings r) g \<noteq> None then {} else set (DefaultPatterns r))"
    unfolding sub.compute_member by (simp only: Un_iff mem_Collect_eq) auto
qed

text \<open>Client publishing is denied by default: a rule set without publish rules gives no user
  any publish pattern, whatever the groups.\<close>

theorem publish_denied_without_rules:
  assumes "\<not> HasPublishRules r"
  shows "ComputeAllowedPublishPatterns r gs = []"
proof -
  have "p \<notin> set (ComputeAllowedPublishPatterns r gs)" for p
    using assms unfolding pub.compute_member by (simp add: HasPublishRules_def)
  then show ?thesis by (metis all_not_in_conv set_empty)
qed

theorem publish_denied_without_rules_witness:
  "ComputeAllowedPublishPatterns (NewChannelRules\<lparr>Public := [''*'']\<rparr>) [''traders''] = []"
  by (rule publish_denied_without_rules) (simp add: HasPublishRules_def NewChannelRules_def)

end
