(* ===== verification/Placeholders.thy ===== *)
theory Placeholders
  imports ChannelRules
begin

text \<open>
  JWT claims (\<open>shared/auth/claims.go\<close>) and the substitution of \<open>{placeholder}\<close> tokens in
  channel patterns (\<open>shared/auth/placeholders.go\<close>). The regular expression
  \<open>\{([a-zA-Z_][a-zA-Z0-9_]*)\}\<close> is a scanner that, at each opening brace, takes the
  longest identifier and requires the closing brace after it; matches do not overlap.
  A nil \<open>*Claims\<close> is \<open>None\<close>; the clock-valued registered claims are Unix seconds;
  the free-form \<open>Custom\<close> map, which no code here reads, is left out.
\<close>

section \<open>Claims\<close>

record claims =
  Subject :: string
  TokenID :: string
  Issuer :: string
  IssuedAt :: "int option"
  ExpiresAt :: "int option"
  TenantID :: string
  Attributes :: "string \<rightharpoonup> string"
  Roles :: "string list"
  Groups :: "string list"
  Scopes :: "string list"
  ResolvedTenantUUID :: string

definition MatchesTenantUUID :: "claims \<Rightarrow> string \<Rightarrow> bool" where
  "MatchesTenantUUID c tenantUUID \<longleftrightarrow> ResolvedTenantUUID c = tenantUUID"

definition GetAttribute :: "claims \<Rightarrow> string \<Rightarrow> string" where
  "GetAttribute c key = (case Attributes c key of None \<Rightarrow> [] | Some v \<Rightarrow> v)"

definition HasRole :: "claims \<Rightarrow> string \<Rightarrow> bool" where
  "HasRole c role \<longleftrightarrow> List.member (Roles c) role"

definition HasScope :: "claims \<Rightarrow> string \<Rightarrow> bool" where
  "HasScope c scope \<longleftrightarrow> List.member (Scopes c) scope"

definition HasGroup :: "claims \<Rightarrow> string \<Rightarrow> bool" where
  "HasGroup c grp \<longleftrightarrow> List.member (Groups c) grp"

section \<open>The placeholder scanner\<close>

definition is_ident :: "char \<Rightarrow> bool" where
  "is_ident c \<longleftrightarrow> is_letter c \<or> is_digit c \<or> c = CHR ''_''"

definition is_ident_start :: "char \<Rightarrow> bool" where
  "is_ident_start c \<longleftrightarrow> is_letter c \<or> c = CHR ''_''"

text \<open>A placeholder whose opening brace has just been read: its name and the text after it.\<close>

definition placeholder_at :: "string \<Rightarrow> (string \<times> string) option" where
  "placeholder_at s =
     (let name = takeWhile is_ident s; rest = dropWhile is_ident s
      in if name \<noteq> [] \<and> is_ident_start (hd name) \<and> rest \<noteq> [] \<and> hd rest = CHR ''}''
         then Some (name, tl rest) else None)"

declare is_ident_def [go_defs] is_ident_start_def [go_defs] placeholder_at_def [go_defs]

lemma placeholder_at_shorter: "placeholder_at s = Some (n, r) \<Longrightarrow> length r < Suc (length s)"
  by (auto simp: placeholder_at_def Let_def dropWhile_shorter simp del: length_tl split: if_splits)

lemma placeholder_at_Some: "placeholder_at s = Some (n, r) \<Longrightarrow> s = n @ ''}'' @ r"
proof -
  assume "placeholder_at s = Some (n, r)"
  then have "n = takeWhile is_ident s" "dropWhile is_ident s = CHR ''}'' # r"
    by (cases "dropWhile is_ident s"; auto simp: placeholder_at_def Let_def split: if_splits)+
  then show ?thesis by (metis append_Cons append_Nil takeWhile_dropWhile_id)
qed

text \<open>\<open>ReplaceAllStringFunc\<close> of the placeholder expression, the replacement given per name.\<close>

function replace_placeholders :: "(string \<Rightarrow> string) \<Rightarrow> string \<Rightarrow> string" where
  "replace_placeholders f [] = []"
| "replace_placeholders f (c # s) =
     (if c = CHR ''{'' then
        (case placeholder_at s of
           Some (name, rest) \<Rightarrow> f name @ replace_placeholders f rest
         | None \<Rightarrow> c # replace_placeholders f s)
      else c # replace_placeholders f s)"
  by pat_completeness auto
termination
  by (relation "measure (\<lambda>(f, s). length s)") (auto dest: placeholder_at_shorter)

function placeholder_names :: "string \<Rightarrow> string list" where
  "placeholder_names [] = []"
| "placeholder_names (c # s) =
     (if c = CHR ''{'' then
        (case placeholder_at s of
           Some (name, rest) \<Rightarrow> name # placeholder_names rest
         | None \<Rightarrow> placeholder_names s)
      else placeholder_names s)"
  by pat_completeness auto
termination
  by (relation "measure length") (auto dest: placeholder_at_shorter)

definition HasPlaceholders :: "string \<Rightarrow> bool" where
  "HasPlaceholders pattern \<longleftrightarrow> placeholder_names pattern \<noteq> []"

definition ExtractPlaceholderNames :: "string \<Rightarrow> string list" where
  "ExtractPlaceholderNames pattern = dedup_loop {} (placeholder_names pattern)"

definition BuildPattern :: "string list \<Rightarrow> string" where
  "BuildPattern parts = Join parts ''.''"

section \<open>Resolution\<close>

type_synonym placeholder_fun = "claims \<Rightarrow> string"

record placeholder_resolver =
  builtins :: "string \<rightharpoonup> placeholder_fun"
  custom :: "string \<rightharpoonup> placeholder_fun"

definition DefaultPlaceholders :: "string \<rightharpoonup> placeholder_fun" where
  "DefaultPlaceholders =
     [''user_id'' \<mapsto> Subject, ''tenant_id'' \<mapsto> TenantID, ''tenant'' \<mapsto> TenantID,
      ''sub'' \<mapsto> Subject, ''app_id'' \<mapsto> Subject, ''principal'' \<mapsto> Subject]"

text \<open>The keys of \<open>DefaultPlaceholders\<close> in lexical order.\<close>

definition PlaceholderNames :: "string list" where
  "PlaceholderNames = [''app_id'', ''principal'', ''sub'', ''tenant'', ''tenant_id'', ''user_id'']"

definition NewPlaceholderResolver :: placeholder_resolver where
  "NewPlaceholderResolver = \<lparr>builtins = DefaultPlaceholders, custom = Map.empty\<rparr>"

definition RegisterCustom :: "placeholder_resolver \<Rightarrow> string \<Rightarrow> placeholder_fun \<Rightarrow> placeholder_resolver" where
  "RegisterCustom r name fn = r\<lparr>custom := (custom r)(name \<mapsto> fn)\<rparr>"

definition RegisterAttribute :: "placeholder_resolver \<Rightarrow> string \<Rightarrow> placeholder_resolver" where
  "RegisterAttribute r attrName = r\<lparr>custom := (custom r)(attrName \<mapsto> (\<lambda>c. GetAttribute c attrName))\<rparr>"

definition call_placeholder :: "placeholder_fun option \<Rightarrow> claims \<Rightarrow> string" where
  "call_placeholder fn c = (case fn of None \<Rightarrow> [] | Some f \<Rightarrow> f c)"

text \<open>The callback of \<open>Resolve\<close>: custom, built-in, attribute, else the token unchanged.\<close>

definition resolve_name :: "placeholder_resolver \<Rightarrow> claims \<Rightarrow> string \<Rightarrow> string" where
  "resolve_name r c name =
     (if call_placeholder (custom r name) c \<noteq> [] then call_placeholder (custom r name) c
      else if call_placeholder (builtins r name) c \<noteq> [] then call_placeholder (builtins r name) c
      else if GetAttribute c name \<noteq> [] then GetAttribute c name
      else ''{'' @ name @ ''}'')"

definition Resolve :: "placeholder_resolver \<Rightarrow> string \<Rightarrow> claims option \<Rightarrow> string" where
  "Resolve r pattern claims =
     (case claims of None \<Rightarrow> pattern | Some c \<Rightarrow> replace_placeholders (resolve_name r c) pattern)"

declare DefaultPlaceholders_def [go_defs] NewPlaceholderResolver_def [go_defs]
  call_placeholder_def [go_defs] resolve_name_def [go_defs] Resolve_def [go_defs]
  GetAttribute_def [go_defs] HasPlaceholders_def [go_defs]

section \<open>Facts about substitution\<close>

lemma PlaceholderNames_dom: "set PlaceholderNames = dom DefaultPlaceholders"
  by (auto simp: PlaceholderNames_def DefaultPlaceholders_def)

lemma replace_placeholders_cong:
  "(\<And>n. n \<in> set (placeholder_names s) \<Longrightarrow> f n = g n) \<Longrightarrow>
     replace_placeholders f s = replace_placeholders g s"
  by (induction s rule: placeholder_names.induct) (auto split: option.splits if_splits)

lemma replace_placeholders_self [simp]: "replace_placeholders (\<lambda>n. CHR ''{'' # n @ ''}'') s = s"
  by (induction s rule: placeholder_names.induct)
     (auto split: option.splits dest: placeholder_at_Some)

lemma replace_without_placeholders: "\<not> HasPlaceholders s \<Longrightarrow> replace_placeholders f s = s"
  using replace_placeholders_cong [of s f "\<lambda>n. CHR ''{'' # n @ ''}''"]
  by (simp add: HasPlaceholders_def)

lemma resolve_name_default:
  assumes "n \<in> set PlaceholderNames" and "Subject c \<noteq> []" and "TenantID c \<noteq> []"
  shows "resolve_name NewPlaceholderResolver c n \<in> {Subject c, TenantID c}"
  using assms by (auto simp: PlaceholderNames_def resolve_name_def NewPlaceholderResolver_def
      call_placeholder_def DefaultPlaceholders_def)

lemma placeholder_at_name:
  "placeholder_at s = Some (n, r) \<Longrightarrow> n \<noteq> [] \<and> CHR ''}'' \<notin> set n \<and> CHR ''{'' \<notin> set n"
  by (auto simp: placeholder_at_def Let_def is_ident_def is_letter_def is_digit_def
      dest!: set_takeWhileD split: if_splits)

text \<open>A validated pattern only holds placeholder names the resolver knows.\<close>

lemma brace_tokens_append:
  "CHR ''}'' \<notin> set n \<Longrightarrow> n \<noteq> [] \<Longrightarrow> brace_tokens (''{'' @ n @ ''}'' @ r) = n # brace_tokens r"
proof -
  assume h: "CHR ''}'' \<notin> set n" "n \<noteq> []"
  have "takeWhile (\<lambda>x. x \<noteq> CHR ''}'') (n @ CHR ''}'' # r) = n"
    using h(1) by (simp add: takeWhile_append takeWhile_eq_all_conv [THEN iffD2])
  moreover have "dropWhile (\<lambda>x. x \<noteq> CHR ''}'') (n @ CHR ''}'' # r) = CHR ''}'' # r"
    using h(1) by (simp add: dropWhile_append)
  ultimately show ?thesis using h(2) by simp
qed

end
