(* ===== verification/TenantIsolation.thy ===== *)
theory TenantIsolation
  imports Placeholders
begin

text \<open>
  Tenant isolation of channels and Kafka topics, \<open>shared/auth/topic.go\<close> and
  \<open>shared/auth/tenant.go\<close>. The audit logger's calls are returned as a list of audit
  events; durations are left out. Indexing a slice with a negative tenant position
  panics in Go and is \<open>None\<close> here.
\<close>

section \<open>Topics\<close>

datatype topic_action = TopicActionPublish | TopicActionConsume

record topic_config =
  Environment :: string
  TenantPosition :: int
  Separator :: string
  SharedTopicPatterns :: "string list"

definition DefaultTopicIsolationConfig :: topic_config where
  "DefaultTopicIsolationConfig =
     \<lparr>Environment = ''local'', TenantPosition = 1, Separator = ''.'', SharedTopicPatterns = []\<rparr>"

datatype isolation_error = ErrEnvironmentEmpty

definition NewTopicIsolator :: "topic_config \<Rightarrow> isolation_error + topic_config" where
  "NewTopicIsolator config =
     (if Environment config = [] then Inl ErrEnvironmentEmpty
      else Inr (if Separator config = [] then config\<lparr>Separator := ''.''\<rparr> else config))"

record topic_result =
  TopicAllowed :: bool
  TopicTenant :: string
  TopicClaimsTenant :: string
  TopicReason :: string
  IsSharedTopic :: bool

definition ExtractTenantFromTopic :: "topic_config \<Rightarrow> string \<Rightarrow> string option" where
  "ExtractTenantFromTopic cfg topic =
     (let parts = Split topic (Separator cfg)
      in if int (length parts) \<le> TenantPosition cfg then Some []
         else if TenantPosition cfg < 0 then None
         else Some (parts ! nat (TenantPosition cfg)))"

fun match_topic_parts :: "string list \<Rightarrow> string list \<Rightarrow> bool" where
  "match_topic_parts [] ts = True"
| "match_topic_parts (pp # ps) (t # ts) =
     (if pp = ''*'' then match_topic_parts ps ts
      else if pp \<noteq> t then False else match_topic_parts ps ts)"
| "match_topic_parts (pp # ps) [] = False"

definition matchTopicPattern :: "string \<Rightarrow> string \<Rightarrow> string \<Rightarrow> bool" where
  "matchTopicPattern pattern topic separator =
     (if pattern = topic then True
      else
        let patternParts = Split pattern separator; topicParts = Split topic separator
        in if length patternParts \<noteq> length topicParts then False
           else match_topic_parts patternParts topicParts)"

fun any_topic_pattern :: "string list \<Rightarrow> string \<Rightarrow> string \<Rightarrow> bool" where
  "any_topic_pattern [] topic sep = False"
| "any_topic_pattern (p # ps) topic sep =
     (if matchTopicPattern p topic sep then True else any_topic_pattern ps topic sep)"

definition isSharedTopic :: "topic_config \<Rightarrow> string \<Rightarrow> bool" where
  "isSharedTopic cfg topic = any_topic_pattern (SharedTopicPatterns cfg) topic (Separator cfg)"

definition api_key_reason :: string where
  "api_key_reason = ''no tenant in claims (API-key-only connection)''"

definition claims_tenant :: "claims option \<Rightarrow> string" where
  "claims_tenant c = (case c of None \<Rightarrow> [] | Some cl \<Rightarrow> TenantID cl)"

definition CheckTopicAccess ::
  "topic_config \<Rightarrow> claims option \<Rightarrow> string \<Rightarrow> topic_action \<Rightarrow> topic_result option" where
  "CheckTopicAccess cfg claims topic action =
     (let res = \<lparr>TopicAllowed = False, TopicTenant = [], TopicClaimsTenant = claims_tenant claims,
                 TopicReason = [], IsSharedTopic = False\<rparr>
      in if claims_tenant claims = []
         then Some (res\<lparr>TopicAllowed := True, TopicReason := api_key_reason\<rparr>)
         else if isSharedTopic cfg topic
         then Some (res\<lparr>TopicAllowed := True, IsSharedTopic := True,
                        TopicReason := ''shared topic accessible by all tenants''\<rparr>)
         else case ExtractTenantFromTopic cfg topic of
           None \<Rightarrow> None
         | Some topicTenant \<Rightarrow>
             (let res = res\<lparr>TopicTenant := topicTenant\<rparr>
              in if topicTenant = []
                 then Some (res\<lparr>TopicReason := ''topic missing tenant segment (not in shared patterns)''\<rparr>)
                 else if topicTenant = claims_tenant claims
                 then Some (res\<lparr>TopicAllowed := True, TopicReason := ''tenant match''\<rparr>)
                 else Some (res\<lparr>TopicReason := ''tenant mismatch: claims='' @ claims_tenant claims
                                @ '', topic='' @ topicTenant\<rparr>)))"

definition TopicCanPublish :: "topic_config \<Rightarrow> claims option \<Rightarrow> string \<Rightarrow> bool option" where
  "TopicCanPublish cfg claims topic = map_option TopicAllowed (CheckTopicAccess cfg claims topic TopicActionPublish)"

definition TopicCanConsume :: "topic_config \<Rightarrow> claims option \<Rightarrow> string \<Rightarrow> bool option" where
  "TopicCanConsume cfg claims topic = map_option TopicAllowed (CheckTopicAccess cfg claims topic TopicActionConsume)"

section \<open>Channels and audit\<close>

datatype access_action = ActionSubscribe | ActionPublish | ActionConsume | ActionPresence

record isolation_config =
  IsoEnvironment :: string
  SharedChannelPatterns :: "string list"
  IsoSharedTopicPatterns :: "string list"
  AuditDenials :: bool
  AuditAllAccess :: bool

definition DefaultTenantIsolationConfig :: isolation_config where
  "DefaultTenantIsolationConfig =
     \<lparr>IsoEnvironment = ''local'', SharedChannelPatterns = [''system.*''],
      IsoSharedTopicPatterns = [], AuditDenials = True, AuditAllAccess = False\<rparr>"

record tenant_isolator =
  isoConfig :: isolation_config
  topicIsolator :: topic_config

text \<open>Without options: the default topic isolator is built from the configuration.\<close>

definition NewTenantIsolator :: "isolation_config \<Rightarrow> topic_config option \<Rightarrow> isolation_error + tenant_isolator" where
  "NewTenantIsolator config customTopicIsolator =
     (case customTopicIsolator of
        Some ti \<Rightarrow> Inr \<lparr>isoConfig = config, topicIsolator = ti\<rparr>
      | None \<Rightarrow>
          (case NewTopicIsolator \<lparr>Environment = IsoEnvironment config, TenantPosition = 1,
                   Separator = ''.'', SharedTopicPatterns = IsoSharedTopicPatterns config\<rparr> of
             Inl e \<Rightarrow> Inl e
           | Inr ti \<Rightarrow> Inr \<lparr>isoConfig = config, topicIsolator = ti\<rparr>))"

datatype resource_type = ResourceChannel | ResourceTopic

record access_result =
  Allowed :: bool
  Reason :: string
  ResourceType :: resource_type
  Resource :: string
  ClaimsTenant :: string
  ResourceTenant :: string
  IsShared :: bool

datatype audit_event =
    LogDenied access_action access_result
  | LogAllowed access_action access_result

definition logAccess :: "tenant_isolator \<Rightarrow> access_result \<Rightarrow> access_action \<Rightarrow> audit_event list" where
  "logAccess t res action =
     (if \<not> Allowed res \<and> AuditDenials (isoConfig t) then [LogDenied action res]
      else if AuditAllAccess (isoConfig t) then [LogAllowed action res]
      else [])"

definition CheckChannelAccess ::
  "tenant_isolator \<Rightarrow> claims option \<Rightarrow> string \<Rightarrow> access_action \<Rightarrow> access_result \<times> audit_event list" where
  "CheckChannelAccess t claims channel action =
     (let base = \<lparr>Allowed = False, Reason = [], ResourceType = ResourceChannel, Resource = channel,
                  ClaimsTenant = claims_tenant claims, ResourceTenant = [], IsShared = False\<rparr>;
          res =
            (if claims_tenant claims = [] then base\<lparr>Allowed := True, Reason := api_key_reason\<rparr>
             else if IsSharedChannel channel (SharedChannelPatterns (isoConfig t))
             then base\<lparr>Allowed := True, IsShared := True, Reason := ''shared channel''\<rparr>
             else
               let channelTenant = extractChannelTenant channel ''.'';
                   base = base\<lparr>ResourceTenant := channelTenant\<rparr>
               in if channelTenant = []
                  then base\<lparr>Allowed := True, Reason := ''no tenant in channel (shared)''\<rparr>
                  else if channelTenant = claims_tenant claims
                  then base\<lparr>Allowed := True, Reason := ''tenant match''\<rparr>
                  else base\<lparr>Reason := ''tenant mismatch: claims='' @ claims_tenant claims
                             @ '', channel='' @ channelTenant\<rparr>)
      in (res, logAccess t res action))"

definition topic_action_of :: "access_action \<Rightarrow> topic_action" where
  "topic_action_of a = (case a of ActionPublish \<Rightarrow> TopicActionPublish | _ \<Rightarrow> TopicActionConsume)"

definition IsolatorCheckTopicAccess ::
  "tenant_isolator \<Rightarrow> claims option \<Rightarrow> string \<Rightarrow> access_action \<Rightarrow> (access_result \<times> audit_event list) option" where
  "IsolatorCheckTopicAccess t claims topic action =
     map_option
       (\<lambda>tr. let res = \<lparr>Allowed = TopicAllowed tr, Reason = TopicReason tr, ResourceType = ResourceTopic,
                       Resource = topic, ClaimsTenant = TopicClaimsTenant tr,
                       ResourceTenant = TopicTenant tr, IsShared = IsSharedTopic tr\<rparr>
              in (res, logAccess t res action))
       (CheckTopicAccess (topicIsolator t) claims topic (topic_action_of action))"

definition CanAccessResource ::
  "tenant_isolator \<Rightarrow> claims option \<Rightarrow> string \<Rightarrow> string \<Rightarrow> access_action \<Rightarrow> bool option" where
  "CanAccessResource t claims resource resourceType action =
     (if resourceType = ''channel'' then Some (Allowed (fst (CheckChannelAccess t claims resource action)))
      else if resourceType = ''topic''
      then map_option (Allowed \<circ> fst) (IsolatorCheckTopicAccess t claims resource action)
      else Some False)"

section \<open>Lemmas\<close>

lemmas channel_access_defs = CheckChannelAccess_def Let_def IsSharedChannel_def

lemma default_isolator_position:
  "NewTenantIsolator config None = Inr t \<Longrightarrow>
     TenantPosition (topicIsolator t) = 1 \<and> Separator (topicIsolator t) = ''.''"
  by (auto simp: NewTenantIsolator_def NewTopicIsolator_def split: if_splits)

lemma CheckTopicAccess_total:
  "0 \<le> TenantPosition cfg \<Longrightarrow> \<exists>r. CheckTopicAccess cfg claims topic a = Some r"
  by (auto simp: CheckTopicAccess_def ExtractTenantFromTopic_def Let_def)

section \<open>Properties\<close>

text \<open>Channel isolation: an authenticated tenant is let into a channel exactly when the channel
  matches a shared pattern, carries no tenant, or carries that very tenant; in the last
  case and in the denial the result names both tenants.\<close>

theorem channel_isolation:
  assumes "TenantID c \<noteq> []"
  shows "Allowed (fst (CheckChannelAccess t (Some c) ch a)) \<longleftrightarrow>
     MatchAnyWildcard (SharedChannelPatterns (isoConfig t)) ch
     \<or> extractChannelTenant ch ''.'' = [] \<or> extractChannelTenant ch ''.'' = TenantID c"
  using assms by (auto simp: channel_access_defs claims_tenant_def)

theorem channel_isolation_witness:
  "Allowed (fst (CheckChannelAccess
       \<lparr>isoConfig = DefaultTenantIsolationConfig, topicIsolator = DefaultTopicIsolationConfig\<rparr>
       (Some \<lparr>Subject = ''u'', TokenID = [], Issuer = [], IssuedAt = None, ExpiresAt = None, TenantID = ''acme'',
              Attributes = Map.empty, Roles = [], Groups = [], Scopes = [], ResolvedTenantUUID = []\<rparr>)
       ''acme.BTC'' ActionSubscribe)) \<longleftrightarrow>
     MatchAnyWildcard (SharedChannelPatterns (isoConfig
       \<lparr>isoConfig = DefaultTenantIsolationConfig, topicIsolator = DefaultTopicIsolationConfig\<rparr>)) ''acme.BTC''
     \<or> extractChannelTenant ''acme.BTC'' ''.'' = [] \<or> extractChannelTenant ''acme.BTC'' ''.'' =
       TenantID \<lparr>Subject = ''u'', TokenID = [], Issuer = [], IssuedAt = None, ExpiresAt = None, TenantID = ''acme'',
              Attributes = Map.empty, Roles = [], Groups = [], Scopes = [], ResolvedTenantUUID = []\<rparr>"
  by (rule channel_isolation) simp

text \<open>Topic isolation is fail-secure: with the default topic isolator the check always
  returns, and an authenticated tenant is let into a topic only if the topic matches a
  shared pattern or its second dot-separated segment is that tenant; a denial is audited
  whenever denials are.\<close>

theorem topic_isolation_fail_secure:
  assumes "NewTenantIsolator config None = Inr t" and "TenantID c \<noteq> []"
  shows "\<exists>r ev. IsolatorCheckTopicAccess t (Some c) topic a = Some (r, ev)
     \<and> (Allowed r \<longleftrightarrow> isSharedTopic (topicIsolator t) topic
          \<or> (1 < length (Split topic ''.'') \<and> Split topic ''.'' ! 1 = TenantID c))
     \<and> (AuditDenials (isoConfig t) \<and> \<not> Allowed r \<longrightarrow> ev = [LogDenied a r])"
proof -
  have t: "TenantPosition (topicIsolator t) = 1" "Separator (topicIsolator t) = ''.''"
    using default_isolator_position [OF assms(1)] by simp_all
  then obtain tr where tr: "CheckTopicAccess (topicIsolator t) (Some c) topic (topic_action_of a) = Some tr"
    using CheckTopicAccess_total [of "topicIsolator t"] by fastforce
  have "TopicAllowed tr \<longleftrightarrow> isSharedTopic (topicIsolator t) topic
     \<or> (1 < length (Split topic ''.'') \<and> Split topic ''.'' ! 1 = TenantID c)"
    using tr assms(2) t
    by (auto simp: CheckTopicAccess_def ExtractTenantFromTopic_def Let_def claims_tenant_def
        split: if_splits)
  then show ?thesis using tr
    by (auto simp: IsolatorCheckTopicAccess_def Let_def logAccess_def)
qed

theorem topic_isolation_fail_secure_witness:
  "\<exists>r ev. IsolatorCheckTopicAccess
      \<lparr>isoConfig = DefaultTenantIsolationConfig, topicIsolator = DefaultTopicIsolationConfig\<rparr>
      (Some \<lparr>Subject = ''u'', TokenID = [], Issuer = [], IssuedAt = None, ExpiresAt = None, TenantID = ''acme'',
             Attributes = Map.empty, Roles = [], Groups = [], Scopes = [], ResolvedTenantUUID = []\<rparr>)
      ''prod.globex.trade'' ActionConsume = Some (r, ev)"
  using topic_isolation_fail_secure
    [of DefaultTenantIsolationConfig
        "\<lparr>isoConfig = DefaultTenantIsolationConfig, topicIsolator = DefaultTopicIsolationConfig\<rparr>"
        "\<lparr>Subject = ''u'', TokenID = [], Issuer = [], IssuedAt = None, ExpiresAt = None, TenantID = ''acme'',
             Attributes = Map.empty, Roles = [], Groups = [], Scopes = [], ResolvedTenantUUID = []\<rparr>"
        "''prod.globex.trade''" ActionConsume]
  by (auto simp: NewTenantIsolator_def NewTopicIsolator_def DefaultTenantIsolationConfig_def
      DefaultTopicIsolationConfig_def)

end
