(* ===== verification/TenantConnections.thy ===== *)
theory TenantConnections
  imports Prelude
begin

text \<open>
  Per-tenant connection limits, \<open>gateway/tenant_connections.go\<close>. The sequential operations
  are functions on the tracker; the compare-and-swap loop of \<open>TryAcquire\<close> and the two
  atomic writes of \<open>Release\<close> are also given as a step relation in which any number of
  connection handlers interleave with each other and with changes of the limits.
\<close>

section \<open>The tracker\<close>

record tracker =
  connections :: "string \<rightharpoonup> int"
  limits :: "string \<rightharpoonup> int"
  defaultLimit :: int

definition NewTenantConnectionTracker :: "int \<Rightarrow> tracker" where
  "NewTenantConnectionTracker dl = \<lparr>connections = Map.empty, limits = Map.empty, defaultLimit = dl\<rparr>"

definition SetLimit :: "tracker \<Rightarrow> string \<Rightarrow> int \<Rightarrow> tracker" where
  "SetLimit t tenantID limit =
     (if limit \<le> 0 then t\<lparr>limits := (limits t)(tenantID := None)\<rparr>
      else t\<lparr>limits := (limits t)(tenantID \<mapsto> limit)\<rparr>)"

definition GetLimit :: "tracker \<Rightarrow> string \<Rightarrow> int" where
  "GetLimit t tenantID =
     (case limits t tenantID of
        Some limit \<Rightarrow> if limit > 0 then limit else defaultLimit t
      | None \<Rightarrow> defaultLimit t)"

definition SetDefaultLimit :: "tracker \<Rightarrow> int \<Rightarrow> tracker" where
  "SetDefaultLimit t limit = (if limit > 0 then t\<lparr>defaultLimit := limit\<rparr> else t)"

definition GetConnectionCount :: "tracker \<Rightarrow> string \<Rightarrow> int" where
  "GetConnectionCount t tenantID = (case connections t tenantID of None \<Rightarrow> 0 | Some n \<Rightarrow> n)"

definition GetAllCounts :: "tracker \<Rightarrow> string \<rightharpoonup> int" where
  "GetAllCounts t = connections t"

text \<open>The counter is created on first use; the second result is the limit in force.\<close>

definition getOrCreateCounter :: "tracker \<Rightarrow> string \<Rightarrow> tracker \<times> int" where
  "getOrCreateCounter t tenantID =
     (let t = (case connections t tenantID of
                 None \<Rightarrow> t\<lparr>connections := (connections t)(tenantID \<mapsto> 0)\<rparr>
               | Some _ \<Rightarrow> t);
          limit = (case limits t tenantID of
                     Some l \<Rightarrow> if l > 0 then l else defaultLimit t
                   | None \<Rightarrow> defaultLimit t)
      in (t, limit))"

text \<open>Without interference the compare-and-swap succeeds at the first attempt.\<close>

definition TryAcquire :: "tracker \<Rightarrow> string \<Rightarrow> tracker \<times> bool" where
  "TryAcquire t tenantID =
     (let (t, limit) = getOrCreateCounter t tenantID;
          current = GetConnectionCount t tenantID
      in if current \<ge> limit then (t, False)
         else (t\<lparr>connections := (connections t)(tenantID \<mapsto> i64 (current + 1))\<rparr>, True))"

definition Release :: "tracker \<Rightarrow> string \<Rightarrow> tracker" where
  "Release t tenantID =
     (case connections t tenantID of
        None \<Rightarrow> t
      | Some n \<Rightarrow>
          (let newVal = i64 (n - 1)
           in t\<lparr>connections := (connections t)(tenantID \<mapsto> (if newVal < 0 then 0 else newVal))\<rparr>))"

section \<open>Interleaved handlers\<close>

datatype handler =
    Idle
  | HaveLimit string int
  | Loaded string int int
  | Holding string
  | Clamping string

record conn_sys =
  tr :: tracker
  hs :: "nat \<Rightarrow> handler"

text \<open>
  One atomic action of one handler, or one change of a limit. A handler releases only the
  slot it holds, as the deferred call of the connection handler does.
\<close>

inductive conn_step :: "conn_sys \<Rightarrow> conn_sys \<Rightarrow> bool" where
  get_counter: "hs s h = Idle \<Longrightarrow> getOrCreateCounter (tr s) t = (tr', limit) \<Longrightarrow>
     conn_step s \<lparr>tr = tr', hs = (hs s)(h := HaveLimit t limit)\<rparr>"
| limit_reached: "hs s h = HaveLimit t limit \<Longrightarrow> limit \<le> GetConnectionCount (tr s) t \<Longrightarrow>
     conn_step s (s\<lparr>hs := (hs s)(h := Idle)\<rparr>)"
| load: "hs s h = HaveLimit t limit \<Longrightarrow> GetConnectionCount (tr s) t < limit \<Longrightarrow>
     conn_step s (s\<lparr>hs := (hs s)(h := Loaded t limit (GetConnectionCount (tr s) t))\<rparr>)"
| cas_ok: "hs s h = Loaded t limit current \<Longrightarrow> connections (tr s) t = Some current \<Longrightarrow>
     conn_step s \<lparr>tr = (tr s)\<lparr>connections := (connections (tr s))(t \<mapsto> i64 (current + 1))\<rparr>,
                  hs = (hs s)(h := Holding t)\<rparr>"
| cas_fail: "hs s h = Loaded t limit current \<Longrightarrow> connections (tr s) t \<noteq> Some current \<Longrightarrow>
     conn_step s (s\<lparr>hs := (hs s)(h := HaveLimit t limit)\<rparr>)"
| release: "hs s h = Holding t \<Longrightarrow> connections (tr s) t = Some n \<Longrightarrow>
     conn_step s \<lparr>tr = (tr s)\<lparr>connections := (connections (tr s))(t \<mapsto> i64 (n - 1))\<rparr>,
                  hs = (hs s)(h := (if i64 (n - 1) < 0 then Clamping t else Idle))\<rparr>"
| release_clamp: "hs s h = Clamping t \<Longrightarrow>
     conn_step s \<lparr>tr = (tr s)\<lparr>connections := (connections (tr s))(t \<mapsto> 0)\<rparr>, hs = (hs s)(h := Idle)\<rparr>"
| release_unknown: "hs s h = Holding t \<Longrightarrow> connections (tr s) t = None \<Longrightarrow>
     conn_step s (s\<lparr>hs := (hs s)(h := Idle)\<rparr>)"
| set_limit: "conn_step s (s\<lparr>tr := SetLimit (tr s) t l\<rparr>)"
| set_default: "conn_step s (s\<lparr>tr := SetDefaultLimit (tr s) l\<rparr>)"

text \<open>The runs in which the limit in force for tenant \<open>t\<close> never exceeds \<open>M\<close>.\<close>

inductive conn_run :: "string \<Rightarrow> int \<Rightarrow> conn_sys \<Rightarrow> bool" for t M where
  run_init: "dl \<le> M \<Longrightarrow> conn_run t M \<lparr>tr = NewTenantConnectionTracker dl, hs = (\<lambda>_. Idle)\<rparr>"
| run_step: "conn_run t M s \<Longrightarrow> conn_step s s' \<Longrightarrow> GetLimit (tr s') t \<le> M \<Longrightarrow> conn_run t M s'"

definition holders :: "string \<Rightarrow> conn_sys \<Rightarrow> nat set" where
  "holders t s = {h. hs s h = Holding t}"

section \<open>Lemmas\<close>

lemma getOrCreateCounter_limit: "snd (getOrCreateCounter t tid) = GetLimit t tid"
  by (auto simp: getOrCreateCounter_def GetLimit_def Let_def split: option.splits)

lemma getOrCreateCounter_count:
  "GetConnectionCount (fst (getOrCreateCounter t tid)) tid' = GetConnectionCount t tid'"
  by (auto simp: getOrCreateCounter_def GetConnectionCount_def Let_def split: option.splits)

lemma getOrCreateCounter_conn:
  "connections (fst (getOrCreateCounter t tid)) = (case connections t tid of None \<Rightarrow> (connections t)(tid \<mapsto> 0) | Some _ \<Rightarrow> connections t)"
  by (auto simp: getOrCreateCounter_def Let_def split: option.splits)

lemma GetLimit_connections [simp]: "GetLimit (t\<lparr>connections := c\<rparr>) tid = GetLimit t tid"
  by (simp add: GetLimit_def split: option.splits)

lemma SetLimit_connections [simp]: "connections (SetLimit t tid l) = connections t"
  by (simp add: SetLimit_def)

lemma SetDefaultLimit_connections [simp]: "connections (SetDefaultLimit t l) = connections t"
  by (simp add: SetDefaultLimit_def)

text \<open>
  The invariant for a tenant: the counter is the number of handlers that hold a slot, is
  between 0 and \<open>M\<close>, every limit a handler has read is at most \<open>M\<close>, and no release has
  gone below zero.
\<close>

definition conn_inv :: "string \<Rightarrow> int \<Rightarrow> conn_sys \<Rightarrow> bool" where
  "conn_inv t M s \<longleftrightarrow>
     finite (holders t s)
     \<and> GetConnectionCount (tr s) t = int (card (holders t s))
     \<and> GetConnectionCount (tr s) t \<le> max 0 M
     \<and> GetLimit (tr s) t \<le> M
     \<and> (\<forall>h l. hs s h = HaveLimit t l \<longrightarrow> l \<le> M \<and> connections (tr s) t \<noteq> None)
     \<and> (\<forall>h l c. hs s h = Loaded t l c \<longrightarrow> l \<le> M \<and> c < l \<and> connections (tr s) t \<noteq> None)
     \<and> (\<forall>h. hs s h \<noteq> Clamping t)"

lemma holders_upd:
  "holders t \<lparr>tr = x, hs = f(h := p)\<rparr> =
     (if p = Holding t then insert h (holders t \<lparr>tr = x, hs = f\<rparr>) else holders t \<lparr>tr = x, hs = f\<rparr> - {h})"
  by (auto simp: holders_def)

lemma holders_tr: "holders t \<lparr>tr = x, hs = hs s\<rparr> = holders t s"
  by (simp add: holders_def)

lemma holders_hs: "holders t (s\<lparr>hs := (hs s)(h := p)\<rparr>) =
     (if p = Holding t then insert h (holders t s) else holders t s - {h})"
  by (auto simp: holders_def)

lemmas holders_simps = holders_upd holders_tr holders_hs

lemma card_holder_pos: "finite (holders t s) \<Longrightarrow> hs s h = Holding t \<Longrightarrow> 0 < card (holders t s)"
  by (auto simp: card_gt_0_iff holders_def)

lemma conn_inv_init: "dl \<le> M \<Longrightarrow> conn_inv t M \<lparr>tr = NewTenantConnectionTracker dl, hs = (\<lambda>_. Idle)\<rparr>"
  by (simp add: conn_inv_def holders_def NewTenantConnectionTracker_def GetConnectionCount_def GetLimit_def)

lemma conn_inv_acquire:
  assumes inv: "conn_inv t M s" and h: "hs s h = Loaded t limit current"
    and c: "connections (tr s) t = Some current" and M: "M < 2 ^ 63"
  shows "conn_inv t M \<lparr>tr = (tr s)\<lparr>connections := (connections (tr s))(t \<mapsto> i64 (current + 1))\<rparr>,
                  hs = (hs s)(h := Holding t)\<rparr>"
proof -
  have "limit \<le> M" "current < limit" "current = int (card (holders t s))" "finite (holders t s)" "h \<notin> holders t s"
    using inv h c by (auto simp: conn_inv_def GetConnectionCount_def holders_def)
  moreover from this have "i64 (current + 1) = current + 1" using M by (intro i64_id) auto
  ultimately show ?thesis using inv
    by (auto simp: conn_inv_def holders_simps GetConnectionCount_def)
qed

lemma conn_inv_release:
  assumes inv: "conn_inv t M s" and h: "hs s h = Holding t"
    and c: "connections (tr s) t = Some n" and M: "M < 2 ^ 63"
  shows "conn_inv t M \<lparr>tr = (tr s)\<lparr>connections := (connections (tr s))(t \<mapsto> i64 (n - 1))\<rparr>,
                  hs = (hs s)(h := (if i64 (n - 1) < 0 then Clamping t else Idle))\<rparr>"
proof -
  have n: "n = int (card (holders t s))" "finite (holders t s)" "n \<le> max 0 M"
    using inv c by (auto simp: conn_inv_def GetConnectionCount_def)
  with h have pos: "0 < n" using card_holder_pos [of t s h] by simp
  then have w: "i64 (n - 1) = n - 1" using n M by (intro i64_id) auto
  have "h \<in> holders t s" using h by (simp add: holders_def)
  then have "int (card (holders t s - {h})) = n - 1"
    using n pos by (simp add: of_nat_diff)
  then show ?thesis using inv w pos n
    by (auto simp: conn_inv_def holders_simps GetConnectionCount_def)
qed

lemma conn_inv_get_counter:
  assumes inv: "conn_inv t M s" and h: "hs s h = Idle" and g: "getOrCreateCounter (tr s) u = (tr', limit)"
  shows "conn_inv t M \<lparr>tr = tr', hs = (hs s)(h := HaveLimit u limit)\<rparr>"
proof -
  have "limit = GetLimit (tr s) u" "GetConnectionCount tr' t = GetConnectionCount (tr s) t"
    "connections tr' = (case connections (tr s) u of None \<Rightarrow> (connections (tr s))(u \<mapsto> 0) | Some _ \<Rightarrow> connections (tr s))"
    using getOrCreateCounter_limit [of "tr s" u] getOrCreateCounter_count [of "tr s" u t]
      getOrCreateCounter_conn [of "tr s" u] g by simp_all
  moreover have "GetLimit tr' t = GetLimit (tr s) t"
    using g by (auto simp: getOrCreateCounter_def Let_def split: option.splits)
  moreover have "h \<notin> holders t s" using h by (simp add: holders_def)
  ultimately show ?thesis using inv h
    by (auto simp: conn_inv_def holders_simps split: option.splits)
qed

lemma conn_inv_step:
  assumes "conn_step s s'" and "conn_inv t M s" and "GetLimit (tr s') t \<le> M" and "M < 2 ^ 63"
  shows "conn_inv t M s'"
  using assms
proof (cases rule: conn_step.cases)
  case (get_counter h u tr' limit)
  with assms(2) show ?thesis by (simp add: conn_inv_get_counter)
next
  case (cas_ok h u limit current)
  show ?thesis
  proof (cases "u = t")
    case True
    with cas_ok assms show ?thesis by (simp add: conn_inv_acquire)
  next
    case False
    with cas_ok assms(2) have "h \<notin> holders t s" by (simp add: holders_def)
    with False cas_ok assms(2) show ?thesis
      by (auto simp: conn_inv_def holders_simps GetConnectionCount_def)
  qed
next
  case (release h u n)
  show ?thesis
  proof (cases "u = t")
    case True
    show ?thesis unfolding release(1) True
      by (rule conn_inv_release) (use release assms True in auto)
  next
    case False
    with release assms(2) have "h \<notin> holders t s" by (simp add: holders_def)
    with False release assms(2) show ?thesis
      by (auto simp: conn_inv_def holders_simps GetConnectionCount_def)
  qed
next
  case (release_clamp h u)
  moreover from this assms(2) have "u \<noteq> t" "h \<notin> holders t s" by (auto simp: conn_inv_def holders_def)
  ultimately show ?thesis using assms(2)
    by (auto simp: conn_inv_def holders_simps GetConnectionCount_def)
next
  case (release_unknown h u)
  have "u \<noteq> t"
  proof
    assume "u = t"
    then have "0 < card (holders t s)" using release_unknown assms(2) card_holder_pos
      by (simp add: conn_inv_def)
    with \<open>u = t\<close> release_unknown assms(2) show False by (simp add: conn_inv_def GetConnectionCount_def)
  qed
  with release_unknown have "h \<notin> holders t s" by (simp add: holders_def)
  with release_unknown assms(2) show ?thesis by (auto simp: conn_inv_def holders_simps)
next
  case (set_limit u l)
  with assms(2,3) show ?thesis by (auto simp: conn_inv_def holders_def GetConnectionCount_def)
next
  case (set_default l)
  with assms(2,3) show ?thesis by (auto simp: conn_inv_def holders_def GetConnectionCount_def)
next
  case (limit_reached h u limit)
  then have "h \<notin> holders t s" by (simp add: holders_def)
  with limit_reached assms(2) show ?thesis by (auto simp: conn_inv_def holders_simps)
next
  case (load h u limit)
  then have "h \<notin> holders t s" by (simp add: holders_def)
  with load assms(2) show ?thesis by (auto simp: conn_inv_def holders_simps)
next
  case (cas_fail h u limit current)
  then have "h \<notin> holders t s" by (simp add: holders_def)
  with cas_fail assms(2) show ?thesis by (auto simp: conn_inv_def holders_simps)
qed

lemma conn_run_inv: "conn_run t M s \<Longrightarrow> M < 2 ^ 63 \<Longrightarrow> conn_inv t M s"
  by (induction rule: conn_run.induct) (auto intro: conn_inv_init conn_inv_step)

section \<open>Properties\<close>

text \<open>C36: However connection handlers, releases and limit changes interleave, the tenant's counter
  is the number of connections that hold a slot, and that number never exceeds the
  largest limit that was in force; the underflow guard of \<open>Release\<close> never fires.\<close>

theorem tenant_connection_limit:
  assumes "conn_run t M s" and "0 \<le> M" and "M < 2 ^ 63"
  shows "GetConnectionCount (tr s) t = int (card (holders t s)) \<and> int (card (holders t s)) \<le> M
     \<and> (\<nexists>h. hs s h = Clamping t)"
  using conn_run_inv [OF assms(1,3)] assms(2) by (auto simp: conn_inv_def)

theorem tenant_connection_limit_witness:
  "GetConnectionCount (tr \<lparr>tr = NewTenantConnectionTracker 5, hs = (\<lambda>_. Idle)\<rparr>) ''acme''
       = int (card (holders ''acme'' \<lparr>tr = NewTenantConnectionTracker 5, hs = (\<lambda>_. Idle)\<rparr>))
     \<and> int (card (holders ''acme'' \<lparr>tr = NewTenantConnectionTracker 5, hs = (\<lambda>_. Idle)\<rparr>)) \<le> 5
     \<and> (\<nexists>h. hs \<lparr>tr = NewTenantConnectionTracker 5, hs = (\<lambda>_. Idle)\<rparr> h = Clamping ''acme'')"
  by (rule tenant_connection_limit) (simp_all add: conn_run.run_init)

text \<open>A slot is never refused while one is free: from any state in which the count is below the
  limit, an idle handler left to run reaches the state in which it holds a slot and the
  counter is one higher.\<close>

theorem acquire_progress:
  assumes "hs s h = Idle" and "GetConnectionCount (tr s) t < GetLimit (tr s) t"
  shows "\<exists>s'. conn_step\<^sup>*\<^sup>* s s' \<and> hs s' h = Holding t
     \<and> GetConnectionCount (tr s') t = i64 (GetConnectionCount (tr s) t + 1)"
proof -
  define n where "n = GetConnectionCount (tr s) t"
  define l where "l = GetLimit (tr s) t"
  define tr1 where "tr1 = fst (getOrCreateCounter (tr s) t)"
  let ?s1 = "\<lparr>tr = tr1, hs = (hs s)(h := HaveLimit t l)\<rparr>"
  let ?s2 = "?s1\<lparr>hs := (hs ?s1)(h := Loaded t l n)\<rparr>"
  let ?s3 = "\<lparr>tr = tr1\<lparr>connections := (connections tr1)(t \<mapsto> i64 (n + 1))\<rparr>, hs = (hs ?s2)(h := Holding t)\<rparr>"
  have g: "getOrCreateCounter (tr s) t = (tr1, l)"
    using getOrCreateCounter_limit [of "tr s" t] by (simp add: tr1_def l_def prod_eq_iff)
  have n1: "GetConnectionCount tr1 t = n" by (simp add: tr1_def n_def getOrCreateCounter_count)
  have c1: "connections tr1 t = Some n"
    using n1 by (auto simp: tr1_def getOrCreateCounter_conn GetConnectionCount_def split: option.splits)
  have "conn_step s ?s1" using assms(1) g by (rule conn_step.get_counter)
  moreover have "conn_step ?s1 ?s2"
    using conn_step.load [of ?s1 h t l] assms(2) n1 by (simp add: n_def l_def)
  moreover have "conn_step ?s2 ?s3"
    using conn_step.cas_ok [of ?s2 h t l n] c1 by simp
  ultimately have "conn_step\<^sup>*\<^sup>* s ?s3"
    by (meson converse_rtranclp_into_rtranclp rtranclp.rtrancl_refl)
  then show ?thesis by (intro exI [of _ ?s3]) (simp add: GetConnectionCount_def n_def)
qed

theorem acquire_progress_witness:
  "\<exists>s'. conn_step\<^sup>*\<^sup>* \<lparr>tr = NewTenantConnectionTracker 5, hs = (\<lambda>_. Idle)\<rparr> s' \<and> hs s' 7 = Holding ''acme''
     \<and> GetConnectionCount (tr s') ''acme'' =
         i64 (GetConnectionCount (tr \<lparr>tr = NewTenantConnectionTracker 5, hs = (\<lambda>_. Idle)\<rparr>) ''acme'' + 1)"
  by (rule acquire_progress) (simp_all add: NewTenantConnectionTracker_def GetConnectionCount_def GetLimit_def)

end
