(* ===== verification/Decimal.thy ===== *)
theory Decimal
  imports ChannelRules
begin

text \<open>
  Decimal integers of Go's \<open>strconv\<close> as the program uses them: \<open>AppendInt\<close> and \<open>ParseInt\<close> in
  base 10 and 64 bits, with the encoding of Kafka positions of \<open>server/history/codec.go\<close>
  built on them. \<open>ParseInt\<close> accepts one leading sign, at least one digit, and nothing
  outside the range of \<open>int64\<close>.
\<close>

section \<open>Printing and parsing\<close>

definition digit_char :: "nat \<Rightarrow> char" where
  "digit_char d = char_of (48 + d)"

fun nat_dec :: "nat \<Rightarrow> string" where
  "nat_dec n = (if n < 10 then [digit_char n] else nat_dec (n div 10) @ [digit_char (n mod 10)])"

declare nat_dec.simps [simp del]

definition FormatInt :: "int \<Rightarrow> string" where
  "FormatInt x = (if x < 0 then ''-'' @ nat_dec (nat (- x)) else nat_dec (nat x))"

definition AppendInt :: "string \<Rightarrow> int \<Rightarrow> string" where
  "AppendInt dst x = dst @ FormatInt x"

fun parse_digits :: "nat \<Rightarrow> string \<Rightarrow> nat option" where
  "parse_digits acc [] = Some acc"
| "parse_digits acc (c # s) =
     (if is_digit c then parse_digits (10 * acc + (of_char c - 48)) s else None)"

definition ParseInt :: "string \<Rightarrow> int option" where
  "ParseInt s =
     (let neg = (s \<noteq> [] \<and> hd s = CHR ''-'');
          ds = (if s \<noteq> [] \<and> (hd s = CHR ''+'' \<or> hd s = CHR ''-'') then tl s else s)
      in if ds = [] then None
         else case parse_digits 0 ds of
           None \<Rightarrow> None
         | Some n \<Rightarrow>
             (if neg then (if n \<le> 2 ^ 63 then Some (- int n) else None)
              else (if n < 2 ^ 63 then Some (int n) else None)))"

section \<open>Kafka positions\<close>

definition posMaxPartitionPlusOne :: int where
  "posMaxPartitionPlusOne = 1000000"

definition EncodePos :: "int \<Rightarrow> int \<Rightarrow> string" where
  "EncodePos part offset =
     (let b = AppendInt [] (i64 (part + 1));
          b = b @ ''-''
      in AppendInt b offset)"

definition DecodePos :: "string \<Rightarrow> (int \<times> int) option" where
  "DecodePos s =
     (case Cut s ''-'' of
        None \<Rightarrow> None
      | Some (left, right) \<Rightarrow>
          (case ParseInt left of
             None \<Rightarrow> None
           | Some ms \<Rightarrow>
               if ms \<le> 0 \<or> ms \<ge> posMaxPartitionPlusOne then None
               else case ParseInt right of
                 None \<Rightarrow> None
               | Some seq \<Rightarrow> if seq < 0 then None else Some (i32 (ms - 1), seq)))"

section \<open>Lemmas\<close>

lemma of_char_digit: "d < 10 \<Longrightarrow> (of_char (digit_char d) :: nat) = 48 + d"
  by (simp add: digit_char_def)

lemma is_digit_digit_char: "d < 10 \<Longrightarrow> is_digit (digit_char d)"
  by (simp add: is_digit_def of_char_digit)

lemma parse_digits_append:
  "parse_digits acc (s @ t) = (case parse_digits acc s of None \<Rightarrow> None | Some n \<Rightarrow> parse_digits n t)"
  by (induction s arbitrary: acc) auto

lemma nat_dec_digits: "list_all is_digit (nat_dec n)"
  by (induction n rule: nat_dec.induct) (subst nat_dec.simps, auto simp: is_digit_digit_char)

lemma nat_dec_not_Nil [simp]: "nat_dec n \<noteq> []"
  by (subst nat_dec.simps) simp

lemma parse_nat_dec: "parse_digits 0 (nat_dec n) = Some n"
proof (induction n rule: nat_dec.induct)
  case (1 n)
  show ?case
  proof (cases "n < 10")
    case True
    then show ?thesis by (subst nat_dec.simps) (simp add: is_digit_digit_char of_char_digit)
  next
    case False
    with 1 have "parse_digits 0 (nat_dec (n div 10)) = Some (n div 10)" by simp
    with False show ?thesis
      by (subst nat_dec.simps) (simp add: parse_digits_append is_digit_digit_char of_char_digit)
  qed
qed

lemma digit_not_sign: "is_digit c \<Longrightarrow> c \<noteq> CHR ''-'' \<and> c \<noteq> CHR ''+''"
  by (auto simp: is_digit_def)

lemma hd_nat_dec: "hd (nat_dec n) \<noteq> CHR ''-''" "hd (nat_dec n) \<noteq> CHR ''+''"
  using nat_dec_digits [of n] digit_not_sign [of "hd (nat_dec n)"]
  by (cases "nat_dec n"; auto)+

lemma ParseInt_FormatInt:
  assumes "- (2 ^ 63) \<le> x" and "x < 2 ^ 63"
  shows "ParseInt (FormatInt x) = Some x"
  using assms by (auto simp: ParseInt_def FormatInt_def Let_def hd_nat_dec parse_nat_dec)

lemma FormatInt_no_dash: "0 \<le> x \<Longrightarrow> CHR ''-'' \<notin> set (FormatInt x)"
  using nat_dec_digits [of "nat x"] digit_not_sign by (fastforce simp: FormatInt_def list_all_iff)

lemma ParseInt_bounds: "ParseInt s = Some x \<Longrightarrow> - (2 ^ 63) \<le> x \<and> x < 2 ^ 63"
  by (auto simp: ParseInt_def Let_def split: if_splits option.splits)

lemma DecodePos_EncodePos:
  assumes "0 \<le> p" and "p + 1 < 1000000" and "0 \<le> o'" and "o' < 2 ^ 63"
  shows "DecodePos (EncodePos p o') = Some (p, o')"
proof -
  have w: "i64 (p + 1) = p + 1" and w2: "i32 p = p" using assms by (simp_all add: i64_id i32_id)
  have "EncodePos p o' = FormatInt (p + 1) @ CHR ''-'' # FormatInt o'"
    by (simp add: EncodePos_def AppendInt_def w)
  moreover have "Cut (FormatInt (p + 1) @ CHR ''-'' # FormatInt o') ''-'' = Some (FormatInt (p + 1), FormatInt o')"
    using assms by (simp add: Cut_char FormatInt_no_dash)
  moreover have "ParseInt (FormatInt (p + 1)) = Some (p + 1)" "ParseInt (FormatInt o') = Some o'"
    using assms by (simp_all add: ParseInt_FormatInt)
  ultimately show ?thesis using assms w2 by (simp add: DecodePos_def posMaxPartitionPlusOne_def)
qed

section \<open>Properties\<close>

text \<open>C38: A Kafka position survives its encoding as a stream identifier: for every partition below
  999,999 and every non-negative offset, decoding the encoded position returns both.\<close>

theorem pos_roundtrip:
  assumes "0 \<le> part" and "part < 999999" and "0 \<le> offset" and "offset < 2 ^ 63"
  shows "DecodePos (EncodePos part offset) = Some (part, offset)"
  using assms by (intro DecodePos_EncodePos) auto

theorem pos_roundtrip_witness: "DecodePos (EncodePos 3 1200) = Some (3, 1200)"
  by (rule pos_roundtrip) simp_all

text \<open>Whatever text a client sends as a position, decoding it either fails or yields a partition
  and an offset in the valid range, and re-encoding that result names the same position.\<close>

theorem pos_decode_sound:
  assumes "DecodePos s = Some (part, offset)"
  shows "0 \<le> part \<and> part < 999999 \<and> 0 \<le> offset \<and> offset < 2 ^ 63
     \<and> DecodePos (EncodePos part offset) = DecodePos s"
proof -
  from assms obtain l r ms where h: "Cut s ''-'' = Some (l, r)" "ParseInt l = Some ms" "0 < ms" "ms < 1000000"
      "ParseInt r = Some offset" "0 \<le> offset" "part = i32 (ms - 1)"
    by (auto simp: DecodePos_def posMaxPartitionPlusOne_def split: option.splits if_splits)
  then have "part = ms - 1" by (simp add: i32_id)
  with h ParseInt_bounds [OF h(5)] show ?thesis using assms by (simp add: DecodePos_EncodePos)
qed

theorem pos_decode_sound_witness:
  "0 \<le> (3::int) \<and> (3::int) < 999999 \<and> 0 \<le> (1200::int) \<and> (1200::int) < 2 ^ 63
     \<and> DecodePos (EncodePos 3 1200) = DecodePos ''+4-01200''"
  by (rule pos_decode_sound) (simp add: go_defs DecodePos_def ParseInt_def posMaxPartitionPlusOne_def i32_def HasPrefix_def)

end
