(* ===== verification/Messaging.thy ===== *)
theory Messaging
  imports Decimal
begin

text \<open>
  Message envelopes, \<open>server/messaging/message.go\<close> and
  \<open>server/messaging/broadcast_envelope.go\<close>: the per-connection sequence generator and the
  byte assembly of broadcast messages. \<open>json.Marshal\<close> of a string is modelled byte by byte
  (Go's default, which also escapes the HTML characters, U+2028, U+2029 and invalid
  UTF-8). A nil payload is \<open>None\<close>. The serialisation of a whole envelope by
  \<open>json.Marshal\<close>, which validates and compacts the payload, is not modelled.
\<close>

section \<open>Sequence numbers\<close>

record sequence_generator =
  counter :: int

definition NewSequenceGenerator :: sequence_generator where
  "NewSequenceGenerator = \<lparr>counter = 0\<rparr>"

definition seq_Next :: "sequence_generator \<Rightarrow> sequence_generator \<times> int" where
  "seq_Next s = (let n = i64 (counter s + 1) in (s\<lparr>counter := n\<rparr>, n))"

definition seq_Current :: "sequence_generator \<Rightarrow> int" where
  "seq_Current s = counter s"

definition seq_Reset :: "sequence_generator \<Rightarrow> sequence_generator" where
  "seq_Reset s = s\<lparr>counter := 0\<rparr>"

declare seq_Next_def [go_defs] NewSequenceGenerator_def [go_defs]

text \<open>The numbers of \<open>n\<close> successive calls.\<close>

fun take_seqs :: "nat \<Rightarrow> sequence_generator \<Rightarrow> sequence_generator \<times> int list" where
  "take_seqs 0 s = (s, [])"
| "take_seqs (Suc n) s =
     (let (s1, x) = seq_Next s; (s2, xs) = take_seqs n s1 in (s2, x # xs))"

section \<open>JSON strings\<close>

definition hex_digit :: "nat \<Rightarrow> char" where
  "hex_digit d = (if d < 10 then char_of (48 + d) else char_of (87 + d))"

definition u_escape :: "nat \<Rightarrow> string" where
  "u_escape b = CHR 0x5C # ''u00'' @ [hex_digit (b div 16), hex_digit (b mod 16)]"

definition byte :: "char \<Rightarrow> nat" where
  "byte c = of_char c"

definition escape_ascii :: "char \<Rightarrow> string" where
  "escape_ascii c =
     (if c = CHR 0x22 \<or> c = CHR 0x5C then [CHR 0x5C, c]
      else if byte c = 8 then [CHR 0x5C, CHR ''b'']
      else if byte c = 12 then [CHR 0x5C, CHR ''f'']
      else if byte c = 10 then [CHR 0x5C, CHR ''n'']
      else if byte c = 13 then [CHR 0x5C, CHR ''r'']
      else if byte c = 9 then [CHR 0x5C, CHR ''t'']
      else if byte c < 32 \<or> c \<in> set ''<>&'' then u_escape (byte c)
      else [c])"

definition cont :: "char \<Rightarrow> bool" where
  "cont c \<longleftrightarrow> 128 \<le> byte c \<and> byte c \<le> 191"

text \<open>The length of the UTF-8 sequence at the head of a text that starts with a non-ASCII byte, 0 if invalid.\<close>

fun utf8_len :: "string \<Rightarrow> nat" where
  "utf8_len (a # b # c # d # _) =
     (if 194 \<le> byte a \<and> byte a \<le> 223 \<and> cont b then 2
      else if 224 \<le> byte a \<and> byte a \<le> 239 \<and> cont b \<and> cont c
           \<and> (byte a = 224 \<longrightarrow> 160 \<le> byte b) \<and> (byte a = 237 \<longrightarrow> byte b \<le> 159) then 3
      else if 240 \<le> byte a \<and> byte a \<le> 244 \<and> cont b \<and> cont c \<and> cont d
           \<and> (byte a = 240 \<longrightarrow> 144 \<le> byte b) \<and> (byte a = 244 \<longrightarrow> byte b \<le> 143) then 4
      else 0)"
| "utf8_len [a, b, c] =
     (if 194 \<le> byte a \<and> byte a \<le> 223 \<and> cont b then 2
      else if 224 \<le> byte a \<and> byte a \<le> 239 \<and> cont b \<and> cont c
           \<and> (byte a = 224 \<longrightarrow> 160 \<le> byte b) \<and> (byte a = 237 \<longrightarrow> byte b \<le> 159) then 3
      else 0)"
| "utf8_len [a, b] = (if 194 \<le> byte a \<and> byte a \<le> 223 \<and> cont b then 2 else 0)"
| "utf8_len [a] = 0"
| "utf8_len [] = 0"

definition line_separator :: "string \<Rightarrow> bool" where
  "line_separator r \<longleftrightarrow> r \<in> {[CHR 0xE2, CHR 0x80, CHR 0xA8], [CHR 0xE2, CHR 0x80, CHR 0xA9]}"

function json_body :: "string \<Rightarrow> string" where
  "json_body [] = []"
| "json_body (c # s) =
     (if byte c < 128 then escape_ascii c @ json_body s
      else
        let n = utf8_len (c # s)
        in if n = 0 then CHR 0x5C # ''ufffd'' @ json_body s
           else (if line_separator (take n (c # s))
                 then CHR 0x5C # ''u202'' @ [hex_digit (byte ((c # s) ! 2) mod 16)]
                 else take n (c # s))
                @ json_body (drop n (c # s)))"
  by pat_completeness auto
termination by (relation "measure length") auto

definition json_string :: "string \<Rightarrow> string" where
  "json_string s = [CHR 0x22] @ json_body s @ [CHR 0x22]"

section \<open>Broadcast envelopes\<close>

text \<open>A JSON key with its quotes and colon.\<close>

definition json_key :: "string \<Rightarrow> string" where
  "json_key k = [CHR 0x22] @ k @ [CHR 0x22, CHR '':'']"

definition broadcastPrefix :: string where
  "broadcastPrefix = ''{'' @ json_key ''type'' @ [CHR 0x22] @ ''message'' @ [CHR 0x22] @ '','' @ json_key ''seq''"

record broadcast_envelope =
  prefix :: string
  sharedSuffix :: string

definition NewBroadcastEnvelope ::
  "string \<Rightarrow> int \<Rightarrow> string option \<Rightarrow> string \<Rightarrow> string \<Rightarrow> broadcast_envelope" where
  "NewBroadcastEnvelope channel timestamp payload pos mid =
     (let payload = (case payload of None \<Rightarrow> ''null'' | Some p \<Rightarrow> p);
          channelJSON = json_string channel;
          suffix = '','' @ json_key ''ts'';
          suffix = AppendInt suffix timestamp;
          suffix = suffix @ '','' @ json_key ''channel'';
          suffix = suffix @ channelJSON;
          suffix = suffix @ '','' @ json_key ''data'';
          suffix = suffix @ payload;
          suffix = (if pos \<noteq> [] then suffix @ '','' @ json_key ''pos'' @ [CHR 0x22] @ pos @ [CHR 0x22] else suffix);
          suffix = (if mid \<noteq> [] then suffix @ '','' @ json_key ''mid'' @ [CHR 0x22] @ mid @ [CHR 0x22] else suffix);
          suffix = suffix @ ''}''
      in \<lparr>prefix = broadcastPrefix, sharedSuffix = suffix\<rparr>)"

definition AppendTo :: "broadcast_envelope \<Rightarrow> string \<Rightarrow> int \<Rightarrow> string" where
  "AppendTo e dst seq = AppendInt (dst @ prefix e) seq @ sharedSuffix e"

definition Build :: "broadcast_envelope \<Rightarrow> int \<Rightarrow> string" where
  "Build e seq = AppendTo e [] seq"

section \<open>Message envelopes\<close>

text \<open>
  The reference form of a message: the struct that \<open>encoding/json\<close> renders field by field, \<open>pos\<close>
  and \<open>mid\<close> only when set. \<open>compact\<close> stands for the validation and compaction the encoder applies
  to a raw message; it fails on invalid JSON. \<open>Priority\<close> is not rendered.
\<close>

datatype priority = PriorityCritical | PriorityHigh | PriorityNormal

record message_envelope =
  EnvType :: string
  EnvSeq :: int
  EnvTs :: int
  EnvChannel :: string
  EnvPriority :: priority
  EnvData :: "string option"
  EnvPos :: string
  EnvMid :: string

definition Serialize :: "(string \<Rightarrow> string option) \<Rightarrow> message_envelope \<Rightarrow> string option" where
  "Serialize compact m =
     (case (case EnvData m of None \<Rightarrow> Some ''null'' | Some d \<Rightarrow> compact d) of
        None \<Rightarrow> None
      | Some d \<Rightarrow>
          Some (''{'' @ json_key ''type'' @ json_string (EnvType m) @ '','' @ json_key ''seq'' @ FormatInt (EnvSeq m)
            @ '','' @ json_key ''ts'' @ FormatInt (EnvTs m) @ '','' @ json_key ''channel'' @ json_string (EnvChannel m)
            @ '','' @ json_key ''data'' @ d
            @ (if EnvPos m \<noteq> [] then '','' @ json_key ''pos'' @ json_string (EnvPos m) else [])
            @ (if EnvMid m \<noteq> [] then '','' @ json_key ''mid'' @ json_string (EnvMid m) else [])
            @ ''}''))"

definition WrapMessage ::
  "int \<Rightarrow> string option \<Rightarrow> string \<Rightarrow> priority \<Rightarrow> sequence_generator \<Rightarrow> sequence_generator \<times> message_envelope" where
  "WrapMessage now data channel p g =
     (let (g, seq) = seq_Next g
      in (g, \<lparr>EnvType = ''message'', EnvSeq = seq, EnvTs = now, EnvChannel = channel, EnvPriority = p, EnvData = data,
              EnvPos = [], EnvMid = []\<rparr>))"

text \<open>Characters the encoder copies unchanged.\<close>

definition json_plain :: "char \<Rightarrow> bool" where
  "json_plain c \<longleftrightarrow> byte c < 128 \<and> escape_ascii c = [c]"

section \<open>Lemmas\<close>

text \<open>A reader of a JSON string: the text after its closing quote.\<close>

fun after_string :: "string \<Rightarrow> string option" where
  "after_string [] = None"
| "after_string (c # s) =
     (if c = CHR 0x22 then Some s
      else if c = CHR 0x5C then (case s of [] \<Rightarrow> None | _ # s' \<Rightarrow> after_string s')
      else after_string s)"

text \<open>Text that never closes a string it is read in.\<close>

inductive closed_text :: "string \<Rightarrow> bool" where
  closed_nil: "closed_text []"
| closed_plain: "c \<noteq> CHR 0x22 \<Longrightarrow> c \<noteq> CHR 0x5C \<Longrightarrow> closed_text s \<Longrightarrow> closed_text (c # s)"
| closed_esc: "closed_text s \<Longrightarrow> closed_text (CHR 0x5C # c # s)"

lemma closed_append: "closed_text a \<Longrightarrow> closed_text b \<Longrightarrow> closed_text (a @ b)"
  by (induction rule: closed_text.induct) (auto intro: closed_text.intros)

lemma closed_plain_list: "CHR 0x22 \<notin> set s \<Longrightarrow> CHR 0x5C \<notin> set s \<Longrightarrow> closed_text s"
  by (induction s) (auto intro: closed_text.intros)

lemma after_closed: "closed_text s \<Longrightarrow> after_string (s @ CHR 0x22 # rest) = Some rest"
  by (induction rule: closed_text.induct) auto

lemma hex_digit_plain: "d < 16 \<Longrightarrow> hex_digit d \<noteq> CHR 0x22 \<and> hex_digit d \<noteq> CHR 0x5C"
proof -
  assume "d < 16"
  then have "(of_char (hex_digit d) :: nat) = (if d < 10 then 48 + d else 87 + d)"
    by (simp add: hex_digit_def)
  then show ?thesis using \<open>d < 16\<close> by (auto split: if_splits)
qed

lemma u_escape_closed: "b < 256 \<Longrightarrow> closed_text (u_escape b)"
proof -
  assume "b < 256"
  then have "b div 16 < 16" "b mod 16 < 16" by simp_all
  then show ?thesis using hex_digit_plain by (auto simp: u_escape_def intro!: closed_text.intros)
qed

lemma byte_bound [simp]: "byte c < 256"
  using range_nat_of_char rangeI [of "of_char :: char \<Rightarrow> nat" c] by (simp add: byte_def)

lemma escape_ascii_closed: "closed_text (escape_ascii c)"
  by (auto simp: escape_ascii_def intro!: closed_text.intros u_escape_closed)

lemma utf8_high:
  "utf8_len s \<noteq> 0 \<Longrightarrow> x \<in> set (take (utf8_len s) s) \<Longrightarrow> 128 \<le> byte x"
  by (induction s rule: utf8_len.induct) (auto simp: cont_def split: if_splits)

lemma high_not_ascii: "128 \<le> byte x \<Longrightarrow> x \<noteq> CHR 0x22 \<and> x \<noteq> CHR 0x5C"
  by (auto simp: byte_def)

lemma json_body_closed: "closed_text (json_body s)"
proof (induction s rule: json_body.induct)
  case 1
  then show ?case by (simp add: closed_nil)
next
  case (2 c s)
  show ?case
  proof (cases "byte c < 128")
    case True
    with 2 show ?thesis by (simp add: closed_append escape_ascii_closed)
  next
    case high: False
    show ?thesis
    proof (cases "utf8_len (c # s) = 0")
      case True
      with high 2 show ?thesis by (auto intro!: closed_text.intros simp: numeral_eq_Suc)
    next
      case False
      let ?r = "take (utf8_len (c # s)) (c # s)"
      have "closed_text ?r"
        using utf8_high [OF False] high_not_ascii by (intro closed_plain_list) blast+
      moreover have "closed_text (CHR 0x5C # ''u202'' @ [hex_digit (byte ((c # s) ! 2) mod 16)])"
        using hex_digit_plain [of "byte ((c # s) ! 2) mod 16"] by (auto intro!: closed_text.intros)
      ultimately show ?thesis using high False 2(3)
        by (simp add: Let_def closed_append del: utf8_len.simps)
    qed
  qed
qed

lemma after_json_string: "after_string (tl (json_string s @ rest)) = Some rest"
  by (simp add: json_string_def after_closed json_body_closed)

lemma sharedSuffix_eq:
  "sharedSuffix (NewBroadcastEnvelope channel ts payload pos mid) =
     '','' @ json_key ''ts'' @ FormatInt ts @ '','' @ json_key ''channel'' @ json_string channel
     @ '','' @ json_key ''data'' @ (case payload of None \<Rightarrow> ''null'' | Some p \<Rightarrow> p)
     @ (if pos = [] then [] else '','' @ json_key ''pos'' @ [CHR 0x22] @ pos @ [CHR 0x22])
     @ (if mid = [] then [] else '','' @ json_key ''mid'' @ [CHR 0x22] @ mid @ [CHR 0x22]) @ ''}''"
  by (simp add: NewBroadcastEnvelope_def Let_def AppendInt_def)

section \<open>Properties\<close>

text \<open>A fresh connection's sequence numbers are 1, 2, 3, \<open>\<dots>\<close> without gap or repetition for
  as long as the 64-bit counter lasts.\<close>

theorem sequence_numbers_consecutive:
  assumes "int n < 2 ^ 63"
  shows "snd (take_seqs n NewSequenceGenerator) = map int [1..<n+1]"
proof -
  have "take_seqs n \<lparr>counter = int k\<rparr> = (\<lparr>counter = int (k + n)\<rparr>, map int [k+1..<k+n+1])"
    if "int (k + n) < 2 ^ 63" for k
    using that
  proof (induction n arbitrary: k)
    case 0
    then show ?case by simp
  next
    case (Suc n)
    have "i64 (int k + 1) = int (k + 1)" using Suc.prems by (subst i64_id) auto
    then show ?case using Suc.IH [of "k + 1"] Suc.prems
      by (simp add: seq_Next_def Let_def upt_conv_Cons del: upt_Suc)
  qed
  from this [of 0] assms show ?thesis by (simp add: NewSequenceGenerator_def)
qed

theorem sequence_numbers_consecutive_witness: "snd (take_seqs 3 NewSequenceGenerator) = map int [1..<3+1]"
  by (rule sequence_numbers_consecutive) simp

text \<open>The wire form of a broadcast message is the shared envelope with the client's sequence
  number put in: after the fixed prefix, the text up to the next comma parses back to the
  sequence number, and what follows is the same for every client.\<close>

theorem envelope_seq_recoverable:
  assumes "- (2 ^ 63) \<le> seq" and "seq < 2 ^ 63"
  shows "\<exists>rest. CutPrefix (AppendTo (NewBroadcastEnvelope channel ts payload pos mid) [] seq) broadcastPrefix = Some rest
     \<and> (\<exists>after. Cut rest '','' = Some (FormatInt seq, after) \<and> ParseInt (FormatInt seq) = Some seq
          \<and> '','' @ after = sharedSuffix (NewBroadcastEnvelope channel ts payload pos mid))"
proof -
  let ?e = "NewBroadcastEnvelope channel ts payload pos mid"
  obtain t where t: "sharedSuffix ?e = CHR '','' # t"
    by (simp add: sharedSuffix_eq)
  have "list_all (\<lambda>c. c \<noteq> CHR '','') (FormatInt seq)"
    using nat_dec_digits [of "nat seq"] nat_dec_digits [of "nat (- seq)"]
    by (auto simp: FormatInt_def list_all_iff is_digit_def)
  then have "Cut (FormatInt seq @ CHR '','' # t) '','' = Some (FormatInt seq, t)"
    by (auto simp: Cut_char list_all_iff)
  moreover have "CutPrefix (AppendTo ?e [] seq) broadcastPrefix = Some (FormatInt seq @ CHR '','' # t)"
    using t by (simp add: AppendTo_def AppendInt_def NewBroadcastEnvelope_def Let_def)
  ultimately show ?thesis using t assms by (auto simp: ParseInt_FormatInt)
qed

theorem envelope_seq_recoverable_witness:
  "\<exists>rest. CutPrefix (AppendTo (NewBroadcastEnvelope ''acme.BTC'' 1700 None [] []) [] 42) broadcastPrefix = Some rest
     \<and> (\<exists>after. Cut rest '','' = Some (FormatInt 42, after) \<and> ParseInt (FormatInt 42) = Some 42
          \<and> '','' @ after = sharedSuffix (NewBroadcastEnvelope ''acme.BTC'' 1700 None [] []))"
  by (rule envelope_seq_recoverable) simp_all

text \<open>Channel names cannot break out of the envelope: whatever bytes a channel holds, a reader of
  the JSON string that starts at its opening quote stops exactly where the encoder ended,
  so the data field that follows is the payload as given.\<close>

theorem envelope_channel_contained:
  "\<exists>rest. sharedSuffix (NewBroadcastEnvelope channel ts payload pos mid) =
        '','' @ json_key ''ts'' @ FormatInt ts @ '','' @ json_key ''channel'' @ [CHR 0x22] @ rest
     \<and> after_string rest = Some ('','' @ json_key ''data'' @ (case payload of None \<Rightarrow> ''null'' | Some p \<Rightarrow> p)
          @ (if pos = [] then [] else '','' @ json_key ''pos'' @ [CHR 0x22] @ pos @ [CHR 0x22])
          @ (if mid = [] then [] else '','' @ json_key ''mid'' @ [CHR 0x22] @ mid @ [CHR 0x22]) @ ''}'')"
  by (rule exI, rule conjI [OF _ after_closed [OF json_body_closed [of channel]]])
     (simp add: sharedSuffix_eq json_string_def)

lemma json_body_plain: "list_all json_plain s \<Longrightarrow> json_body s = s"
  by (induction s rule: json_body.induct) (auto simp: json_plain_def)

text \<open>The reflective encoder renders, for positions and identities without characters that need escaping, the pre-serialised envelope of the
  compacted payload.\<close>

lemma Serialize_envelope:
  assumes "list_all json_plain pos" and "list_all json_plain mid"
  shows "Serialize compact \<lparr>EnvType = ''message'', EnvSeq = seq, EnvTs = ts, EnvChannel = channel, EnvPriority = p,
            EnvData = payload, EnvPos = pos, EnvMid = mid\<rparr>
       = (case payload of None \<Rightarrow> Some (Build (NewBroadcastEnvelope channel ts None pos mid) seq)
          | Some d \<Rightarrow> map_option (\<lambda>d'. Build (NewBroadcastEnvelope channel ts (Some d') pos mid) seq) (compact d))"
proof -
  have "json_string pos = [CHR 0x22] @ pos @ [CHR 0x22]" "json_string mid = [CHR 0x22] @ mid @ [CHR 0x22]"
    using assms by (simp_all add: json_string_def json_body_plain)
  moreover have "json_string ''message'' = [CHR 0x22] @ ''message'' @ [CHR 0x22]"
  proof -
    have "json_body ''message'' = ''message''" by (rule json_body_plain) (simp add: json_plain_def byte_def escape_ascii_def)
    then show ?thesis by (simp only: json_string_def)
  qed
  ultimately show ?thesis
    by (auto simp: Serialize_def Build_def AppendTo_def NewBroadcastEnvelope_def broadcastPrefix_def AppendInt_def Let_def split: option.splits)
qed

lemma envelope_payload_inj:
  "Build (NewBroadcastEnvelope channel ts (Some d) pos mid) seq = Build (NewBroadcastEnvelope channel ts (Some d') pos mid) seq \<longleftrightarrow> d = d'"
  by (simp add: Build_def AppendTo_def NewBroadcastEnvelope_def Let_def)

end
