(* ===== verification/Subscriptions.thy ===== *)
theory Subscriptions
  imports Messaging
begin

text \<open>
  Connections of the message server, \<open>server/connection.go\<close>: outgoing messages, the client
  struct with its pooled reset, subscription sets and the copy-on-write subscription index.
  Clients are references into a heap of client structs, because the pool hands the same
  struct to one connection after another. A Go channel is the list of its buffered values;
  an \<open>atomic.Value\<close> that was never stored is \<open>None\<close>.
\<close>

section \<open>Outgoing messages\<close>

record outgoing_msg =
  raw :: "string option"
  envelope :: "broadcast_envelope option"
  mseq :: int

definition Bytes :: "outgoing_msg \<Rightarrow> string option" where
  "Bytes m =
     (case raw m of
        Some b \<Rightarrow> Some b
      | None \<Rightarrow> (case envelope m of None \<Rightarrow> None | Some e \<Rightarrow> Some (Build e (mseq m))))"

definition IsRaw :: "outgoing_msg \<Rightarrow> bool" where
  "IsRaw m \<longleftrightarrow> raw m \<noteq> None"

definition msg_AppendTo :: "outgoing_msg \<Rightarrow> string \<Rightarrow> string option" where
  "msg_AppendTo m dst = (case envelope m of None \<Rightarrow> None | Some e \<Rightarrow> Some (AppendTo e dst (mseq m)))"

definition RawMsg :: "string \<Rightarrow> outgoing_msg" where
  "RawMsg data = \<lparr>raw = Some data, envelope = None, mseq = 0\<rparr>"

record gap_notification =
  GapChannel :: string
  FromSeq :: int
  ToSeq :: int
  LastPos :: string
  GapTs :: int

section \<open>Subscription sets\<close>

type_synonym subscription_set = "string set"

definition NewSubscriptionSet :: subscription_set where
  "NewSubscriptionSet = {}"

definition set_Add :: "subscription_set \<Rightarrow> string \<Rightarrow> subscription_set" where
  "set_Add s channel = insert channel s"

fun set_AddMultiple :: "subscription_set \<Rightarrow> string list \<Rightarrow> subscription_set" where
  "set_AddMultiple s [] = s"
| "set_AddMultiple s (ch # chs) = set_AddMultiple (insert ch s) chs"

definition set_Remove :: "subscription_set \<Rightarrow> string \<Rightarrow> subscription_set" where
  "set_Remove s channel = s - {channel}"

fun set_RemoveMultiple :: "subscription_set \<Rightarrow> string list \<Rightarrow> subscription_set" where
  "set_RemoveMultiple s [] = s"
| "set_RemoveMultiple s (ch # chs) = set_RemoveMultiple (s - {ch}) chs"

definition set_Has :: "subscription_set \<Rightarrow> string \<Rightarrow> bool" where
  "set_Has s channel \<longleftrightarrow> channel \<in> s"

definition set_Count :: "subscription_set \<Rightarrow> nat" where
  "set_Count s = card s"

definition set_Clear :: "subscription_set \<Rightarrow> subscription_set" where
  "set_Clear s = {}"

lemma set_AddMultiple_eq [simp]: "set_AddMultiple s chs = s \<union> set chs"
  by (induction s chs rule: set_AddMultiple.induct) auto

lemma set_RemoveMultiple_eq [simp]: "set_RemoveMultiple s chs = s - set chs"
  by (induction s chs rule: set_RemoveMultiple.induct) auto

section \<open>The client struct and its pool\<close>

datatype transport_type = TransportWebSocket | TransportGRPCStream

record client =
  cl_id :: int
  transport :: "transport_type option"
  transportClosed :: bool
  send :: "outgoing_msg list"
  sendCap :: nat
  sendClosed :: bool
  control :: "string list"
  closeOnceDone :: bool
  seqGen :: sequence_generator
  sendAttempts :: int
  slowClientWarned :: bool
  subscriptions :: subscription_set
  historyInProgress :: "string set"
  gapChan :: "gap_notification list"
  gapCap :: nat
  replayInProgress :: "string set"
  replayLastAt :: "string \<rightharpoonup> int"
  remoteAddr :: string
  cl_tenantID :: string
  connID :: string
  apiKeyID :: string
  cl_userID :: string

record connection_pool =
  bufferSize :: nat
  gapNotifyBufferSize :: nat

definition controlChannelSize :: nat where
  "controlChannelSize = 2"

text \<open>The \<open>New\<close> function of the pool.\<close>

definition pool_New :: "connection_pool \<Rightarrow> client" where
  "pool_New p =
     \<lparr>cl_id = 0, transport = None, transportClosed = False, send = [], sendCap = bufferSize p, sendClosed = False,
      control = [], closeOnceDone = False, seqGen = NewSequenceGenerator, sendAttempts = 0, slowClientWarned = False,
      subscriptions = {}, historyInProgress = {}, gapChan = [], gapCap = 0, replayInProgress = {},
      replayLastAt = Map.empty, remoteAddr = [], cl_tenantID = [], connID = [], apiKeyID = [], cl_userID = []\<rparr>"

text \<open>The reset of a struct taken from the pool.\<close>

definition pool_Get :: "connection_pool \<Rightarrow> client \<Rightarrow> client" where
  "pool_Get p c =
     (let c = (if sendClosed c then c\<lparr>send := [], sendCap := bufferSize p, sendClosed := False\<rparr>
               else c\<lparr>send := []\<rparr>)
      in c\<lparr>control := [], seqGen := seq_Reset (seqGen c), closeOnceDone := False,
           sendAttempts := 0, slowClientWarned := False, subscriptions := set_Clear (subscriptions c),
           remoteAddr := [], historyInProgress := {}, gapChan := [], gapCap := gapNotifyBufferSize p,
           replayInProgress := {}, replayLastAt := Map.empty\<rparr>)"

definition pool_Put :: "client \<Rightarrow> client" where
  "pool_Put c =
     c\<lparr>transport := None, cl_id := 0, subscriptions := set_Clear (subscriptions c), remoteAddr := [],
       cl_tenantID := [], connID := [], apiKeyID := [], cl_userID := [], historyInProgress := {},
       replayInProgress := {}, replayLastAt := Map.empty\<rparr>"

definition closeSend :: "client \<Rightarrow> client" where
  "closeSend c = (if \<not> sendClosed c then c\<lparr>sendClosed := True\<rparr> else c)"

definition TransportType :: "client \<Rightarrow> transport_type option" where
  "TransportType c = transport c"

text \<open>Closing the transport happens under \<open>closeOnce\<close>.\<close>

definition close_once :: "client \<Rightarrow> client" where
  "close_once c =
     (if closeOnceDone c then c
      else c\<lparr>closeOnceDone := True, transportClosed := (transport c \<noteq> None \<or> transportClosed c)\<rparr>)"

definition ForceDisconnect :: "client \<Rightarrow> client" where
  "ForceDisconnect c = close_once c"

text \<open>A non-blocking send on the bounded buffer; sending on a closed channel panics.\<close>

datatype send_result = SendPanic | SendFull | SendOK client

definition try_send :: "outgoing_msg \<Rightarrow> client \<Rightarrow> send_result" where
  "try_send m c =
     (if sendClosed c then SendPanic
      else if length (send c) < sendCap c then SendOK (c\<lparr>send := send c @ [m]\<rparr>)
      else SendFull)"

section \<open>The subscription index\<close>

type_synonym cref = nat
type_synonym subscription_index = "string \<rightharpoonup> cref list option"

definition NewSubscriptionIndex :: subscription_index where
  "NewSubscriptionIndex = Map.empty"

definition load_slice :: "cref list option \<Rightarrow> cref list" where
  "load_slice v = (case v of None \<Rightarrow> [] | Some cs \<Rightarrow> cs)"

definition idx_Add :: "subscription_index \<Rightarrow> string \<Rightarrow> cref \<Rightarrow> subscription_index" where
  "idx_Add idx channel c =
     (let idx = (case idx channel of None \<Rightarrow> idx(channel \<mapsto> None) | Some _ \<Rightarrow> idx);
          currentSlice = load_slice (the (idx channel))
      in if List.member currentSlice c then idx
         else idx(channel \<mapsto> Some (currentSlice @ [c])))"

fun idx_AddMultiple :: "subscription_index \<Rightarrow> string list \<Rightarrow> cref \<Rightarrow> subscription_index" where
  "idx_AddMultiple idx [] c = idx"
| "idx_AddMultiple idx (channel # chs) c =
     (let idx = (case idx channel of None \<Rightarrow> idx(channel \<mapsto> None) | Some _ \<Rightarrow> idx);
          currentSlice = load_slice (the (idx channel));
          alreadySubscribed = List.member currentSlice c
      in idx_AddMultiple
           (if \<not> alreadySubscribed then idx(channel \<mapsto> Some (currentSlice @ [c])) else idx) chs c)"

definition idx_Remove :: "subscription_index \<Rightarrow> string \<Rightarrow> cref \<Rightarrow> subscription_index" where
  "idx_Remove idx channel c =
     (case idx channel of
        None \<Rightarrow> idx
      | Some None \<Rightarrow> idx
      | Some (Some currentSlice) \<Rightarrow>
          (if c \<in> set currentSlice
           then let newSlice = remove1 c currentSlice
                in if length newSlice = 0 then idx(channel := None) else idx(channel \<mapsto> Some newSlice)
           else idx))"

fun idx_RemoveMultiple :: "subscription_index \<Rightarrow> string list \<Rightarrow> cref \<Rightarrow> subscription_index" where
  "idx_RemoveMultiple idx [] c = idx"
| "idx_RemoveMultiple idx (channel # chs) c =
     idx_RemoveMultiple
       (case idx channel of
          None \<Rightarrow> idx
        | Some None \<Rightarrow> idx
        | Some (Some currentSlice) \<Rightarrow>
            (if c \<in> set currentSlice
             then let newSlice = remove1 c currentSlice
                  in if length newSlice = 0 then idx(channel := None) else idx(channel \<mapsto> Some newSlice)
             else idx)) chs c"

definition idx_Get :: "subscription_index \<Rightarrow> string \<Rightarrow> cref list" where
  "idx_Get idx channel = (case idx channel of None \<Rightarrow> [] | Some v \<Rightarrow> load_slice v)"

definition idx_Count :: "subscription_index \<Rightarrow> string \<Rightarrow> nat" where
  "idx_Count idx channel =
     (case idx channel of None \<Rightarrow> 0 | Some None \<Rightarrow> 0 | Some (Some cs) \<Rightarrow> length cs)"

section \<open>The contract of the index\<close>

text \<open>
  What the server relies on: a reverse index gives, per channel, the distinct clients added
  and not removed. The effect of the batched operations follows for every such index.
\<close>

locale channel_index =
  fixes add :: "'i \<Rightarrow> string \<Rightarrow> cref \<Rightarrow> 'i"
    and remove :: "'i \<Rightarrow> string \<Rightarrow> cref \<Rightarrow> 'i"
    and subs :: "'i \<Rightarrow> string \<Rightarrow> cref list"
    and inv :: "'i \<Rightarrow> bool"
  assumes inv_add: "inv i \<Longrightarrow> inv (add i ch c)"
    and inv_remove: "inv i \<Longrightarrow> inv (remove i ch c)"
    and subs_distinct: "inv i \<Longrightarrow> distinct (subs i ch)"
    and subs_add: "inv i \<Longrightarrow> set (subs (add i ch c) ch') = (if ch' = ch then insert c (set (subs i ch')) else set (subs i ch'))"
    and subs_remove: "inv i \<Longrightarrow> set (subs (remove i ch c) ch') = (if ch' = ch then set (subs i ch') - {c} else set (subs i ch'))"
begin

lemma inv_adds: "inv i \<Longrightarrow> inv (foldl (\<lambda>i ch. add i ch c) i chs)"
  by (induction chs arbitrary: i) (auto intro: inv_add)

lemma inv_removes: "inv i \<Longrightarrow> inv (foldl (\<lambda>i ch. remove i ch c) i chs)"
  by (induction chs arbitrary: i) (auto intro: inv_remove)

lemma subs_adds:
  "inv i \<Longrightarrow> set (subs (foldl (\<lambda>i ch. add i ch c) i chs) ch')
     = (if ch' \<in> set chs then insert c (set (subs i ch')) else set (subs i ch'))"
  by (induction chs arbitrary: i) (auto simp: subs_add inv_add)

lemma subs_removes:
  "inv i \<Longrightarrow> set (subs (foldl (\<lambda>i ch. remove i ch c) i chs) ch')
     = (if ch' \<in> set chs then set (subs i ch') - {c} else set (subs i ch'))"
  by (induction chs arbitrary: i) (auto simp: subs_remove inv_remove)

end

definition idx_inv :: "subscription_index \<Rightarrow> bool" where
  "idx_inv idx \<longleftrightarrow> (\<forall>ch cs. idx ch = Some (Some cs) \<longrightarrow> distinct cs \<and> cs \<noteq> []) \<and> (\<forall>ch. idx ch \<noteq> Some None)"

lemmas idx_defs = idx_Add_def idx_Remove_def idx_Get_def load_slice_def Let_def

interpretation idx: channel_index idx_Add idx_Remove idx_Get idx_inv
proof unfold_locales
  fix i ch c assume "idx_inv i"
  then show "idx_inv (idx_Add i ch c)"
    by (auto simp: idx_inv_def idx_defs split: option.splits)
next
  fix i ch c assume "idx_inv i"
  then show "idx_inv (idx_Remove i ch c)"
    by (auto simp: idx_inv_def idx_defs split: option.splits if_splits)
next
  fix i ch assume "idx_inv i"
  then show "distinct (idx_Get i ch)"
    by (auto simp: idx_inv_def idx_defs split: option.splits)
next
  fix i ch c ch' assume "idx_inv i"
  then show "set (idx_Get (idx_Add i ch c) ch') = (if ch' = ch then insert c (set (idx_Get i ch')) else set (idx_Get i ch'))"
    by (auto simp: idx_inv_def idx_defs split: option.splits)
next
  fix i ch c ch' assume "idx_inv i"
  then show "set (idx_Get (idx_Remove i ch c) ch') = (if ch' = ch then set (idx_Get i ch') - {c} else set (idx_Get i ch'))"
    by (auto simp: idx_inv_def idx_defs split: option.splits if_splits dest: remove1_Nil_set)
qed

lemma idx_AddMultiple_Cons: "idx_AddMultiple i (ch # chs) c = idx_AddMultiple (idx_Add i ch c) chs c"
  by (simp add: idx_Add_def Let_def)

lemma idx_RemoveMultiple_Cons: "idx_RemoveMultiple i (ch # chs) c = idx_RemoveMultiple (idx_Remove i ch c) chs c"
  by (simp add: idx_Remove_def)

lemma idx_AddMultiple_fold: "idx_AddMultiple i chs c = foldl (\<lambda>i ch. idx_Add i ch c) i chs"
  by (induction chs arbitrary: i) (simp_all add: idx_AddMultiple_Cons del: idx_AddMultiple.simps(2))

lemma idx_RemoveMultiple_fold: "idx_RemoveMultiple i chs c = foldl (\<lambda>i ch. idx_Remove i ch c) i chs"
  by (induction chs arbitrary: i) (simp_all add: idx_RemoveMultiple_Cons del: idx_RemoveMultiple.simps(2))

lemmas idx_multiple = idx_AddMultiple_fold idx_RemoveMultiple_fold

lemma idx_inv_new: "idx_inv NewSubscriptionIndex"
  by (simp add: idx_inv_def NewSubscriptionIndex_def)

section \<open>Properties\<close>

text \<open>The batched index operations of subscribe and unsubscribe have exactly their set meaning on
  every channel, keep each channel's snapshot free of duplicates, and the count reported for a
  channel is the number of its subscribers.\<close>

theorem subscription_index_exact:
  assumes "idx_inv i"
  shows "set (idx_Get (idx_AddMultiple i chs c) ch) = set (idx_Get i ch) \<union> (if ch \<in> set chs then {c} else {})
     \<and> set (idx_Get (idx_RemoveMultiple i chs c) ch) = set (idx_Get i ch) - (if ch \<in> set chs then {c} else {})
     \<and> distinct (idx_Get (idx_AddMultiple i chs c) ch) \<and> distinct (idx_Get (idx_RemoveMultiple i chs c) ch)
     \<and> idx_Count i ch = card (set (idx_Get i ch))"
proof -
  have "idx_Count i ch = length (idx_Get i ch)"
    by (auto simp: idx_Count_def idx_Get_def load_slice_def split: option.splits)
  then show ?thesis using assms
    by (auto simp: idx_multiple idx.subs_adds idx.subs_removes idx.subs_distinct idx.inv_adds idx.inv_removes
        distinct_card)
qed

theorem subscription_index_exact_witness:
  "set (idx_Get (idx_AddMultiple NewSubscriptionIndex [''acme.a'', ''acme.b''] 7) ''acme.b'')
       = set (idx_Get NewSubscriptionIndex ''acme.b'') \<union> (if ''acme.b'' \<in> set [''acme.a'', ''acme.b''] then {7} else {})
     \<and> set (idx_Get (idx_RemoveMultiple NewSubscriptionIndex [''acme.a'', ''acme.b''] 7) ''acme.b'')
       = set (idx_Get NewSubscriptionIndex ''acme.b'') - (if ''acme.b'' \<in> set [''acme.a'', ''acme.b''] then {7} else {})
     \<and> distinct (idx_Get (idx_AddMultiple NewSubscriptionIndex [''acme.a'', ''acme.b''] 7) ''acme.b'')
     \<and> distinct (idx_Get (idx_RemoveMultiple NewSubscriptionIndex [''acme.a'', ''acme.b''] 7) ''acme.b'')
     \<and> idx_Count NewSubscriptionIndex ''acme.b'' = card (set (idx_Get NewSubscriptionIndex ''acme.b''))"
  by (rule subscription_index_exact [OF idx_inv_new])

text \<open>A client struct leaves no trace of its previous connection: whatever state a struct is
  returned to the pool in, the next connection starts with an open, empty send buffer, sequence
  numbers from 1, no subscriptions, no pending gap or replay state, no failure count and no
  identity of the previous tenant.\<close>

theorem pooled_client_is_fresh:
  "let c' = pool_Get p (pool_Put (closeSend c))
   in send c' = [] \<and> \<not> sendClosed c' \<and> sendCap c' = bufferSize p \<and> control c' = []
      \<and> snd (seq_Next (seqGen c')) = 1 \<and> subscriptions c' = {} \<and> gapChan c' = [] \<and> gapCap c' = gapNotifyBufferSize p
      \<and> historyInProgress c' = {} \<and> replayInProgress c' = {} \<and> replayLastAt c' = Map.empty
      \<and> sendAttempts c' = 0 \<and> \<not> slowClientWarned c' \<and> \<not> closeOnceDone c'
      \<and> transport c' = None \<and> cl_tenantID c' = [] \<and> connID c' = [] \<and> apiKeyID c' = [] \<and> cl_userID c' = []"
  by (simp add: pool_Get_def pool_Put_def closeSend_def seq_Reset_def seq_Next_def set_Clear_def i64_id Let_def)

end
