(* ===== verification/Pump.thy ===== *)
theory Pump
  imports Subscriptions
begin

text \<open>
  The read and write pumps of a connection, \<open>server/pump.go\<close>. The network is the input: the
  read loop consumes the frames it will see, and each write of the write loop is told whether
  the transport accepts it. One iteration of the write loop is one step; producers and the
  other goroutines act between iterations. The text of the rate-limit error, which prints a
  floating-point rate, is a parameter.
\<close>

section \<open>Configuration\<close>

record pump_config =
  PongWait :: int
  WriteWait :: int
  PingPeriod :: int

definition go_quot :: "int \<Rightarrow> int \<Rightarrow> int" where
  "go_quot a b = (if (a < 0) = (b < 0) then \<bar>a\<bar> div \<bar>b\<bar> else - (\<bar>a\<bar> div \<bar>b\<bar>))"

definition NewPumpConfig :: "int \<Rightarrow> int \<Rightarrow> int \<Rightarrow> pump_config" where
  "NewPumpConfig pongWait pingPeriod writeWait =
     (let pingPeriod = (if pingPeriod \<ge> pongWait then go_quot (i64 (pongWait * 3)) 4 else pingPeriod)
      in \<lparr>PongWait = pongWait, WriteWait = writeWait, PingPeriod = pingPeriod\<rparr>)"

section \<open>Reading\<close>

datatype disconnect_reason = DisconnectReadError | DisconnectServerShutdown
datatype initiated_by = InitiatedByClient | InitiatedByServer

text \<open>What the connection yields next; the flag of a failed read is whether the server is shutting down.\<close>

datatype frame =
    CtxDone
  | FrameError bool
  | PingFrame string
  | PingTruncated
  | CloseFrame
  | PongFrame
  | OtherControl
  | TextFrame string
  | BinaryFrame string
  | DataError

record read_result =
  handled :: "string list"
  rd_client :: client
  rateLimited :: nat
  disconnect :: "disconnect_reason \<times> initiated_by"

definition queue_pong :: "string \<Rightarrow> client \<Rightarrow> client" where
  "queue_pong payload c =
     (if length (control c) < controlChannelSize then c\<lparr>control := control c @ [payload]\<rparr> else c)"

text \<open>The error reply is sent without blocking; a full buffer drops it.\<close>

definition handleRateLimitExceeded :: "string \<Rightarrow> client \<Rightarrow> client" where
  "handleRateLimitExceeded errorMsg c =
     (case try_send (RawMsg errorMsg) c of SendOK c' \<Rightarrow> c' | _ \<Rightarrow> c)"

text \<open>
  The loop, its deferred call of the disconnect function included: an unset reason becomes a
  read error by the client. The limiter is a state and a check.
\<close>

fun ReadLoop :: "('l \<Rightarrow> bool \<times> 'l) \<Rightarrow> string \<Rightarrow> 'l \<Rightarrow> frame list \<Rightarrow> read_result \<Rightarrow> read_result" where
  "ReadLoop check errorMsg l [] r = r\<lparr>disconnect := (DisconnectReadError, InitiatedByClient)\<rparr>"
| "ReadLoop check errorMsg l (CtxDone # fs) r = r\<lparr>disconnect := (DisconnectServerShutdown, InitiatedByServer)\<rparr>"
| "ReadLoop check errorMsg l (FrameError shutdown # fs) r =
     r\<lparr>disconnect := (if shutdown then (DisconnectServerShutdown, InitiatedByServer)
                      else (DisconnectReadError, InitiatedByClient))\<rparr>"
| "ReadLoop check errorMsg l (PingFrame payload # fs) r =
     ReadLoop check errorMsg l fs (r\<lparr>rd_client := queue_pong payload (rd_client r)\<rparr>)"
| "ReadLoop check errorMsg l (PingTruncated # fs) r = r\<lparr>disconnect := (DisconnectReadError, InitiatedByClient)\<rparr>"
| "ReadLoop check errorMsg l (CloseFrame # fs) r = r\<lparr>disconnect := (DisconnectReadError, InitiatedByClient)\<rparr>"
| "ReadLoop check errorMsg l (PongFrame # fs) r = ReadLoop check errorMsg l fs r"
| "ReadLoop check errorMsg l (OtherControl # fs) r = ReadLoop check errorMsg l fs r"
| "ReadLoop check errorMsg l (TextFrame msg # fs) r =
     (let (ok, l') = check l
      in if \<not> ok
         then ReadLoop check errorMsg l' fs
                (r\<lparr>rd_client := handleRateLimitExceeded errorMsg (rd_client r), rateLimited := rateLimited r + 1\<rparr>)
         else ReadLoop check errorMsg l' fs (r\<lparr>handled := handled r @ [msg]\<rparr>))"
| "ReadLoop check errorMsg l (BinaryFrame msg # fs) r = ReadLoop check errorMsg l fs r"
| "ReadLoop check errorMsg l (DataError # fs) r = r\<lparr>disconnect := (DisconnectReadError, InitiatedByClient)\<rparr>"

section \<open>Gap notifications\<close>

text \<open>The merged notification, the item of another channel taken out on the way, and what is left in the channel.\<close>

fun coalesceGapNotifications ::
  "gap_notification \<Rightarrow> gap_notification list \<Rightarrow> gap_notification \<times> gap_notification option \<times> gap_notification list" where
  "coalesceGapNotifications merged [] = (merged, None, [])"
| "coalesceGapNotifications merged (gap # ch) =
     (if GapChannel gap \<noteq> GapChannel merged then (merged, Some gap, ch)
      else
        let merged = (if FromSeq gap < FromSeq merged then merged\<lparr>FromSeq := FromSeq gap\<rparr> else merged);
            merged = (if ToSeq gap > ToSeq merged then merged\<lparr>ToSeq := ToSeq gap\<rparr> else merged)
        in coalesceGapNotifications merged ch)"

definition gap_json :: "gap_notification \<Rightarrow> string" where
  "gap_json g =
     ''{'' @ json_key ''type'' @ json_string ''gap'' @ '','' @ json_key ''channel'' @ json_string (GapChannel g)
     @ '','' @ json_key ''from_seq'' @ FormatInt (FromSeq g) @ '','' @ json_key ''to_seq'' @ FormatInt (ToSeq g)
     @ '','' @ json_key ''last_pos'' @ json_string (LastPos g) @ '','' @ json_key ''ts'' @ FormatInt (GapTs g) @ ''}''"

text \<open>The gap case of the write loop, after the first notification was received.\<close>

definition handle_gap :: "gap_notification \<Rightarrow> client \<Rightarrow> client" where
  "handle_gap gap c =
     (let (merged, lost, rest) = coalesceGapNotifications gap (gapChan c);
          c = c\<lparr>gapChan := rest\<rparr>;
          c = (case lost of
                 None \<Rightarrow> c
               | Some g \<Rightarrow> if length (gapChan c) < gapCap c then c\<lparr>gapChan := gapChan c @ [g]\<rparr> else c)
      in case try_send (RawMsg (gap_json merged)) c of SendOK c' \<Rightarrow> c' | _ \<Rightarrow> c)"

section \<open>Writing\<close>

datatype wire = WireMsgs "outgoing_msg list" | WirePong string | WirePing

record writer =
  wr_client :: client
  wire_out :: "wire list"
  dropped :: nat
  exited :: bool

text \<open>The exit runs the deferred close of the transport.\<close>

definition write_exit :: "writer \<Rightarrow> writer" where
  "write_exit w = w\<lparr>exited := True, wr_client := close_once (wr_client w)\<rparr>"

definition recordSendTimeoutDrops :: "nat \<Rightarrow> writer \<Rightarrow> writer" where
  "recordSendTimeoutDrops failedCount w =
     (let remainingCount = length (send (wr_client w))
      in w\<lparr>dropped := dropped w + failedCount + remainingCount, wr_client := (wr_client w)\<lparr>send := []\<rparr>\<rparr>)"

definition handlePong :: "bool \<Rightarrow> string \<Rightarrow> writer \<Rightarrow> writer" where
  "handlePong ioOK payload w =
     (if ioOK then w\<lparr>wire_out := wire_out w @ [WirePong payload]\<rparr> else write_exit w)"

text \<open>The message received from \<open>send\<close>, with everything else in the buffer as one batch.\<close>

definition handleSendMsg :: "bool \<Rightarrow> outgoing_msg \<Rightarrow> writer \<Rightarrow> writer" where
  "handleSendMsg ioOK msg w =
     (if transport (wr_client w) = None then write_exit w
      else if send (wr_client w) = [] then
        (if ioOK then w\<lparr>wire_out := wire_out w @ [WireMsgs [msg]]\<rparr>
         else write_exit (recordSendTimeoutDrops 1 w))
      else
        let batch = msg # send (wr_client w);
            w' = w\<lparr>wr_client := (wr_client w)\<lparr>send := []\<rparr>\<rparr>
        in if ioOK then w'\<lparr>wire_out := wire_out w' @ [WireMsgs batch]\<rparr>
           else write_exit (recordSendTimeoutDrops (length batch) w'))"

text \<open>
  One iteration: pongs first, then messages, and only then shutdown, ticker and gap
  notifications, in any order. A closed send channel is noticed when its buffer is empty.
\<close>

inductive write_step :: "writer \<Rightarrow> writer \<Rightarrow> bool" where
  ws_pong: "\<not> exited w \<Longrightarrow> control (wr_client w) = p # ps \<Longrightarrow>
     write_step w (handlePong ioOK p (w\<lparr>wr_client := (wr_client w)\<lparr>control := ps\<rparr>\<rparr>))"
| ws_send: "\<not> exited w \<Longrightarrow> control (wr_client w) = [] \<Longrightarrow> send (wr_client w) = m # ms \<Longrightarrow>
     write_step w (handleSendMsg ioOK m (w\<lparr>wr_client := (wr_client w)\<lparr>send := ms\<rparr>\<rparr>))"
| ws_closed: "\<not> exited w \<Longrightarrow> control (wr_client w) = [] \<Longrightarrow> send (wr_client w) = [] \<Longrightarrow>
     sendClosed (wr_client w) \<Longrightarrow> write_step w (write_exit w)"
| ws_ctx: "\<not> exited w \<Longrightarrow> control (wr_client w) = [] \<Longrightarrow> send (wr_client w) = [] \<Longrightarrow> write_step w (write_exit w)"
| ws_tick: "\<not> exited w \<Longrightarrow> control (wr_client w) = [] \<Longrightarrow> send (wr_client w) = [] \<Longrightarrow>
     write_step w (if transport (wr_client w) = None then write_exit w
                   else if ioOK then w\<lparr>wire_out := wire_out w @ [WirePing]\<rparr> else write_exit w)"
| ws_gap: "\<not> exited w \<Longrightarrow> control (wr_client w) = [] \<Longrightarrow> send (wr_client w) = [] \<Longrightarrow>
     gapChan (wr_client w) = g # gs \<Longrightarrow>
     write_step w (w\<lparr>wr_client := handle_gap g ((wr_client w)\<lparr>gapChan := gs\<rparr>)\<rparr>)"

text \<open>The messages on the wire, in order.\<close>

fun wire_msgs :: "wire list \<Rightarrow> outgoing_msg list" where
  "wire_msgs [] = []"
| "wire_msgs (WireMsgs ms # ws) = ms @ wire_msgs ws"
| "wire_msgs (WirePong p # ws) = wire_msgs ws"
| "wire_msgs (WirePing # ws) = wire_msgs ws"

text \<open>
  A connection's outgoing side: producers append messages while the loop runs. The last
  component is everything ever put into the send buffer.
\<close>

inductive pump_run :: "client \<Rightarrow> writer \<Rightarrow> outgoing_msg list \<Rightarrow> bool" for c0 where
  pr_init: "send c0 = [] \<Longrightarrow> pump_run c0 \<lparr>wr_client = c0, wire_out = [], dropped = 0, exited = False\<rparr> []"
| pr_enqueue: "pump_run c0 w q \<Longrightarrow> try_send m (wr_client w) = SendOK c' \<Longrightarrow>
     pump_run c0 (w\<lparr>wr_client := c'\<rparr>) (q @ [m])"
| pr_other: "pump_run c0 w q \<Longrightarrow> send c' = send (wr_client w) \<Longrightarrow> pump_run c0 (w\<lparr>wr_client := c'\<rparr>) q"
| pr_step: "pump_run c0 w q \<Longrightarrow> write_step w w' \<Longrightarrow>
     pump_run c0 w' (q @ drop (length (send (wr_client w))) (send (wr_client w')))"

section \<open>Lemmas\<close>

lemma wire_msgs_append [simp]: "wire_msgs (a @ b) = wire_msgs a @ wire_msgs b"
  by (induction a rule: wire_msgs.induct) auto

lemma try_send_OK:
  "try_send m c = SendOK c' \<longleftrightarrow> \<not> sendClosed c \<and> length (send c) < sendCap c \<and> c' = c\<lparr>send := send c @ [m]\<rparr>"
  by (auto simp: try_send_def)

lemma handle_gap_send:
  "send (handle_gap g c) = send c \<or> (\<exists>m. send (handle_gap g c) = send c @ [m])"
  by (auto simp: handle_gap_def Let_def try_send_def split: prod.splits option.splits)

lemma close_once_send [simp]: "send (close_once c) = send c" "control (close_once c) = control c"
  by (simp_all add: close_once_def)

text \<open>What one iteration does to the order of messages.\<close>

lemma write_step_order:
  assumes "write_step w w'"
  shows "\<not> exited w' \<Longrightarrow> dropped w' = dropped w \<and>
       wire_msgs (wire_out w') @ send (wr_client w') =
       wire_msgs (wire_out w) @ send (wr_client w) @ drop (length (send (wr_client w))) (send (wr_client w'))"
    and "exited w' \<Longrightarrow> \<exists>lost. wire_msgs (wire_out w) @ send (wr_client w)
           = wire_msgs (wire_out w') @ lost @ send (wr_client w') \<and> dropped w' \<le> dropped w + length lost
           \<and> length (send (wr_client w')) \<le> length (send (wr_client w))"
  using assms
proof (atomize (full), induction rule: write_step.induct)
  case (ws_gap w g gs)
  then show ?case using handle_gap_send [of g "(wr_client w)\<lparr>gapChan := gs\<rparr>"] by auto
qed (auto simp: handlePong_def handleSendMsg_def recordSendTimeoutDrops_def write_exit_def Let_def
       split: if_splits)

lemma pump_run_prefix:
  "pump_run c0 w q \<Longrightarrow> (\<exists>rest. q = wire_msgs (wire_out w) @ rest
     \<and> (\<not> exited w \<longrightarrow> rest = send (wr_client w) \<and> dropped w = 0))"
proof (induction rule: pump_run.induct)
  case (pr_enqueue w q m c')
  then show ?case by (auto simp: try_send_OK)
next
  case (pr_step w q w')
  have "\<not> exited w" using pr_step(2) by (cases rule: write_step.cases) auto
  with pr_step(3) have q: "q = wire_msgs (wire_out w) @ send (wr_client w)" "dropped w = 0" by auto
  show ?case
  proof (cases "exited w'")
    case True
    with write_step_order(2) [OF pr_step(2)] q show ?thesis by fastforce
  next
    case False
    with write_step_order(1) [OF pr_step(2)] q show ?thesis by auto
  qed
qed auto

text \<open>The frames before the one that ends the read loop, and the texts the limiter lets through.\<close>

fun ends_read :: "frame \<Rightarrow> bool" where
  "ends_read CtxDone = True"
| "ends_read (FrameError b) = True"
| "ends_read PingTruncated = True"
| "ends_read CloseFrame = True"
| "ends_read DataError = True"
| "ends_read _ = False"

fun texts :: "frame list \<Rightarrow> string list" where
  "texts [] = []"
| "texts (TextFrame m # fs) = m # texts fs"
| "texts (_ # fs) = texts fs"

fun admitted :: "('l \<Rightarrow> bool \<times> 'l) \<Rightarrow> 'l \<Rightarrow> string list \<Rightarrow> string list" where
  "admitted check l [] = []"
| "admitted check l (m # ms) = (let (ok, l') = check l in if ok then m # admitted check l' ms else admitted check l' ms)"

fun end_reason :: "frame list \<Rightarrow> disconnect_reason \<times> initiated_by" where
  "end_reason (CtxDone # _) = (DisconnectServerShutdown, InitiatedByServer)"
| "end_reason (FrameError True # _) = (DisconnectServerShutdown, InitiatedByServer)"
| "end_reason _ = (DisconnectReadError, InitiatedByClient)"

lemma ReadLoop_spec:
  "handled (ReadLoop check e l fs r) = handled r @ admitted check l (texts (takeWhile (\<lambda>f. \<not> ends_read f) fs))
   \<and> disconnect (ReadLoop check e l fs r) = end_reason (dropWhile (\<lambda>f. \<not> ends_read f) fs)
   \<and> rateLimited (ReadLoop check e l fs r) + length (admitted check l (texts (takeWhile (\<lambda>f. \<not> ends_read f) fs)))
      = rateLimited r + length (texts (takeWhile (\<lambda>f. \<not> ends_read f) fs))"
proof (induction check e l fs r rule: ReadLoop.induct)
  case (3 check e l shutdown fs r)
  then show ?case by (cases shutdown) auto
qed (auto split: prod.splits)

lemma coalesce_spec:
  "coalesceGapNotifications m ch =
     (m\<lparr>FromSeq := Min (set (map FromSeq (m # takeWhile (\<lambda>g. GapChannel g = GapChannel m) ch))),
        ToSeq := Max (set (map ToSeq (m # takeWhile (\<lambda>g. GapChannel g = GapChannel m) ch)))\<rparr>,
      (case dropWhile (\<lambda>g. GapChannel g = GapChannel m) ch of [] \<Rightarrow> None | g # _ \<Rightarrow> Some g),
      tl (dropWhile (\<lambda>g. GapChannel g = GapChannel m) ch))"
proof (induction ch arbitrary: m)
  case Nil
  then show ?case by simp
next
  case (Cons g ch)
  define m' where "m' = m\<lparr>FromSeq := min (FromSeq m) (FromSeq g), ToSeq := max (ToSeq m) (ToSeq g)\<rparr>"
  show ?case
  proof (cases "GapChannel g = GapChannel m")
    case True
    have step: "coalesceGapNotifications m (g # ch) = coalesceGapNotifications m' ch"
      using True by (cases "FromSeq g < FromSeq m"; cases "ToSeq m < ToSeq g") (simp_all add: m'_def min_def max_def)
    show ?thesis unfolding step Cons.IH [of m'] using True
      by (cases "takeWhile (\<lambda>g. GapChannel g = GapChannel m) ch = []")
         (auto simp: m'_def Min_insert Max_insert min.assoc max.assoc min.left_commute max.left_commute)
  next
    case False
    then show ?thesis by simp
  qed
qed

section \<open>Properties\<close>

text \<open>Ordered delivery: whatever the producers, the network and the other goroutines do, the
  messages written to the client are a prefix of the messages put into its send buffer, in that
  order, each once; as long as the write loop runs, the rest is still in the buffer and nothing
  was dropped.\<close>

theorem write_loop_fifo:
  assumes "pump_run c0 w q"
  shows "\<exists>rest. q = wire_msgs (wire_out w) @ rest \<and> (exited w \<or> (rest = send (wr_client w) \<and> dropped w = 0))"
  using pump_run_prefix [OF assms] by blast

theorem write_loop_fifo_witness:
  "\<exists>rest. [RawMsg ''a''] = wire_msgs (wire_out \<lparr>wr_client = (pool_New \<lparr>bufferSize = 2, gapNotifyBufferSize = 1\<rparr>)\<lparr>send := [RawMsg ''a'']\<rparr>,
        wire_out = [], dropped = 0, exited = False\<rparr>) @ rest
     \<and> (exited \<lparr>wr_client = (pool_New \<lparr>bufferSize = 2, gapNotifyBufferSize = 1\<rparr>)\<lparr>send := [RawMsg ''a'']\<rparr>,
        wire_out = [], dropped = 0, exited = False\<rparr>
        \<or> (rest = send (wr_client \<lparr>wr_client = (pool_New \<lparr>bufferSize = 2, gapNotifyBufferSize = 1\<rparr>)\<lparr>send := [RawMsg ''a'']\<rparr>,
              wire_out = [], dropped = 0, exited = False\<rparr>)
            \<and> dropped \<lparr>wr_client = (pool_New \<lparr>bufferSize = 2, gapNotifyBufferSize = 1\<rparr>)\<lparr>send := [RawMsg ''a'']\<rparr>,
              wire_out = [], dropped = 0, exited = False\<rparr> = 0))"
proof (rule write_loop_fifo)
  let ?c = "pool_New \<lparr>bufferSize = 2, gapNotifyBufferSize = 1\<rparr>"
  have "pump_run ?c \<lparr>wr_client = ?c, wire_out = [], dropped = 0, exited = False\<rparr> []"
    by (rule pump_run.pr_init) (simp add: pool_New_def)
  from pump_run.pr_enqueue [OF this, of "RawMsg ''a''" "?c\<lparr>send := [RawMsg ''a'']\<rparr>"]
  show "pump_run ?c \<lparr>wr_client = ?c\<lparr>send := [RawMsg ''a'']\<rparr>, wire_out = [], dropped = 0, exited = False\<rparr> [RawMsg ''a'']"
    by (simp add: try_send_def pool_New_def)
qed

text \<open>The read loop hands exactly the text messages that the rate limiter admits to the handler,
  in order, up to the first frame that ends the connection, counts every other text message as
  rate-limited, and reports a server shutdown only if the server is shutting down.\<close>

theorem read_loop_exact:
  "let seen = takeWhile (\<lambda>f. \<not> ends_read f) fs;
       r = ReadLoop check errorMsg l fs \<lparr>handled = [], rd_client = c, rateLimited = 0, disconnect = d\<rparr>
   in handled r = admitted check l (texts seen)
      \<and> rateLimited r = length (texts seen) - length (admitted check l (texts seen))
      \<and> disconnect r = end_reason (dropWhile (\<lambda>f. \<not> ends_read f) fs)"
  using ReadLoop_spec [of check errorMsg l fs "\<lparr>handled = [], rd_client = c, rateLimited = 0, disconnect = d\<rparr>"]
  unfolding Let_def by (auto simp del: ReadLoop.simps)

text \<open>Coalescing takes the maximal run of notifications for the first one's channel, covers
  their whole sequence range, keeps the first one's replay position, and takes exactly the next
  notification of another channel out of the buffer.\<close>

theorem coalesce_exact:
  "let run = takeWhile (\<lambda>g. GapChannel g = GapChannel m) ch; rest = dropWhile (\<lambda>g. GapChannel g = GapChannel m) ch
   in coalesceGapNotifications m ch =
        (m\<lparr>FromSeq := Min (set (map FromSeq (m # run))), ToSeq := Max (set (map ToSeq (m # run)))\<rparr>,
         (case rest of [] \<Rightarrow> None | g # _ \<Rightarrow> Some g), tl rest)
      \<and> LastPos (fst (coalesceGapNotifications m ch)) = LastPos m"
  unfolding Let_def coalesce_spec by simp

text \<open>Re-queueing the notification taken out puts it behind later ones of its own channel, so the
  replay position sent to the client can lie after the start of the range it is to recover: with
  one notification for channel \<open>a\<close> followed by two for channel \<open>b\<close>, the merged notification for
  \<open>b\<close> starts at the first dropped message but carries the position of the second.\<close>

theorem gap_anchor_after_range_start:
  assumes "GapChannel b1 \<noteq> GapChannel a" and "GapChannel b2 = GapChannel b1" and "FromSeq b1 < FromSeq b2"
    and "ToSeq b1 < ToSeq b2" and "2 \<le> gapCap c"
  shows "gapChan (handle_gap a (c\<lparr>gapChan := [b1, b2]\<rparr>)) = [b2, b1]
    \<and> fst (coalesceGapNotifications b2 [b1]) = b2\<lparr>FromSeq := FromSeq b1\<rparr>
    \<and> LastPos (fst (coalesceGapNotifications b2 [b1])) = LastPos b2"
  using assms by (auto simp: handle_gap_def Let_def try_send_def)

theorem gap_anchor_after_range_start_witness:
  "gapChan (handle_gap \<lparr>GapChannel = ''acme.a'', FromSeq = 1, ToSeq = 1, LastPos = ''1-10'', GapTs = 0\<rparr>
      ((pool_New \<lparr>bufferSize = 2, gapNotifyBufferSize = 1\<rparr>)\<lparr>gapCap := 8\<rparr>\<lparr>gapChan :=
         [\<lparr>GapChannel = ''acme.b'', FromSeq = 2, ToSeq = 2, LastPos = ''2-20'', GapTs = 0\<rparr>,
          \<lparr>GapChannel = ''acme.b'', FromSeq = 3, ToSeq = 3, LastPos = ''2-21'', GapTs = 0\<rparr>]\<rparr>))
     = [\<lparr>GapChannel = ''acme.b'', FromSeq = 3, ToSeq = 3, LastPos = ''2-21'', GapTs = 0\<rparr>,
        \<lparr>GapChannel = ''acme.b'', FromSeq = 2, ToSeq = 2, LastPos = ''2-20'', GapTs = 0\<rparr>]
   \<and> fst (coalesceGapNotifications \<lparr>GapChannel = ''acme.b'', FromSeq = 3, ToSeq = 3, LastPos = ''2-21'', GapTs = 0\<rparr>
        [\<lparr>GapChannel = ''acme.b'', FromSeq = 2, ToSeq = 2, LastPos = ''2-20'', GapTs = 0\<rparr>])
     = \<lparr>GapChannel = ''acme.b'', FromSeq = 3, ToSeq = 3, LastPos = ''2-21'', GapTs = 0\<rparr>\<lparr>FromSeq :=
         FromSeq \<lparr>GapChannel = ''acme.b'', FromSeq = 2, ToSeq = 2, LastPos = ''2-20'', GapTs = 0\<rparr>\<rparr>
   \<and> LastPos (fst (coalesceGapNotifications \<lparr>GapChannel = ''acme.b'', FromSeq = 3, ToSeq = 3, LastPos = ''2-21'', GapTs = 0\<rparr>
        [\<lparr>GapChannel = ''acme.b'', FromSeq = 2, ToSeq = 2, LastPos = ''2-20'', GapTs = 0\<rparr>]))
     = LastPos \<lparr>GapChannel = ''acme.b'', FromSeq = 3, ToSeq = 3, LastPos = ''2-21'', GapTs = 0\<rparr>"
  by (rule gap_anchor_after_range_start) (simp_all add: pool_New_def)

text \<open>The keepalive configuration is always usable: for a positive pong wait below a third of the
  64-bit range, the ping period in force is below the pong wait, and a valid configured one is
  kept.\<close>

theorem ping_period_below_pong_wait:
  assumes "0 < pongWait" and "3 * pongWait < 2 ^ 63"
  shows "PingPeriod (NewPumpConfig pongWait pingPeriod writeWait) < pongWait
    \<and> PingPeriod (NewPumpConfig pongWait pingPeriod writeWait)
        = (if pingPeriod < pongWait then pingPeriod else pongWait * 3 div 4)"
proof -
  have "i64 (pongWait * 3) = pongWait * 3" using assms by (intro i64_id) auto
  then show ?thesis using assms by (auto simp: NewPumpConfig_def go_quot_def Let_def)
qed

theorem ping_period_below_pong_wait_witness:
  "PingPeriod (NewPumpConfig 60 90 5) < 60 \<and> PingPeriod (NewPumpConfig 60 90 5) = (if (90::int) < 60 then 90 else 60 * 3 div 4)"
  by (rule ping_period_below_pong_wait) simp_all

end
