(* ===== verification/Json.thy ===== *)
theory Json
  imports Messaging
begin

text \<open>
  What the program uses of Go's \<open>encoding/json\<close> when it reads: the scanner that decides whether a
  text is one JSON value, string literals with their escapes, and the decoding of objects, arrays,
  strings and integers into struct fields. A \<open>json.RawMessage\<close> is the text of the value as it
  stands in the input. The rendering side is in \<open>Messaging\<close>. The two meet in the round trips:
  reading a rendered string, list of strings or object gives back what was rendered.
\<close>

section \<open>The scanner\<close>

definition is_ws :: "char \<Rightarrow> bool" where
  "is_ws c \<longleftrightarrow> byte c \<in> {32, 9, 10, 13}"

definition skip_ws :: "string \<Rightarrow> string" where
  "skip_ws s = dropWhile is_ws s"

definition hex_val :: "char \<Rightarrow> nat option" where
  "hex_val c =
     (if 48 \<le> byte c \<and> byte c \<le> 57 then Some (byte c - 48)
      else if 97 \<le> byte c \<and> byte c \<le> 102 then Some (byte c - 87)
      else if 65 \<le> byte c \<and> byte c \<le> 70 then Some (byte c - 55)
      else None)"

definition hex4 :: "string \<Rightarrow> nat option" where
  "hex4 s =
     (case map hex_val (take 4 s) of
        [Some a, Some b, Some c, Some d] \<Rightarrow> Some (((a * 16 + b) * 16 + c) * 16 + d)
      | _ \<Rightarrow> None)"

definition simple_escapes :: string where
  "simple_escapes = [CHR 0x22, CHR 0x5C] @ ''/bfnrt''"

text \<open>The text after the closing quote of a string literal whose opening quote has been read.\<close>

function scan_string :: "string \<Rightarrow> string option" where
  "scan_string [] = None"
| "scan_string (c # s) =
     (if c = CHR 0x22 then Some s
      else if c = CHR 0x5C
      then (case s of
              [] \<Rightarrow> None
            | e # t \<Rightarrow>
                if e \<in> set simple_escapes then scan_string t
                else if e = CHR ''u'' \<and> hex4 t \<noteq> None then scan_string (drop 4 t)
                else None)
      else if byte c < 32 then None
      else scan_string s)"
  by pat_completeness auto
termination by (relation "measure length") auto

definition is_digit_c :: "char \<Rightarrow> bool" where
  "is_digit_c c \<longleftrightarrow> 48 \<le> byte c \<and> byte c \<le> 57"

fun digits1 :: "string \<Rightarrow> string option" where
  "digits1 (c # s) = (if is_digit_c c then Some (dropWhile is_digit_c s) else None)"
| "digits1 [] = None"

definition scan_exp :: "string \<Rightarrow> string option" where
  "scan_exp s =
     (case s of
        c # t \<Rightarrow> if c \<in> set ''eE'' then digits1 (case t of d # u \<Rightarrow> if d \<in> set ''+-'' then u else t | [] \<Rightarrow> t) else Some s
      | [] \<Rightarrow> Some s)"

definition scan_frac :: "string \<Rightarrow> string option" where
  "scan_frac s =
     (case s of
        c # t \<Rightarrow> if c = CHR ''.'' then (case digits1 t of None \<Rightarrow> None | Some u \<Rightarrow> scan_exp u) else scan_exp s
      | [] \<Rightarrow> scan_exp s)"

definition scan_number :: "string \<Rightarrow> string option" where
  "scan_number s =
     (let s = (case s of c # t \<Rightarrow> if c = CHR ''-'' then t else s | [] \<Rightarrow> s)
      in case s of
           c # t \<Rightarrow> if c = CHR ''0'' then scan_frac t
                    else if is_digit_c c then scan_frac (dropWhile is_digit_c t)
                    else None
         | [] \<Rightarrow> None)"

definition scan_literal :: "string \<Rightarrow> string option" where
  "scan_literal s =
     (if HasPrefix s ''true'' then Some (drop 4 s)
      else if HasPrefix s ''false'' then Some (drop 5 s)
      else if HasPrefix s ''null'' then Some (drop 4 s)
      else scan_number s)"

text \<open>The text between a position and a later one.\<close>

definition upto :: "string \<Rightarrow> string \<Rightarrow> string" where
  "upto s rest = take (length s - length rest) s"

text \<open>
  Values, the elements of an array and the members of an object: the raw texts of the items (with
  the bodies of the keys) and the text that follows. \<open>d\<close> is the nesting that is still allowed,
  10000 at the top; the first argument is fuel. A value never needs more units of it than it has
  bytes (lemma \<open>scan_fuel\<close>), so the length of the text is enough.
\<close>

fun scan_value :: "nat \<Rightarrow> nat \<Rightarrow> string \<Rightarrow> string option"
  and elements :: "nat \<Rightarrow> nat \<Rightarrow> string \<Rightarrow> (string list \<times> string) option"
  and members :: "nat \<Rightarrow> nat \<Rightarrow> string \<Rightarrow> ((string \<times> string) list \<times> string) option" where
  "scan_value 0 d s = None"
| "scan_value (Suc n) d s =
     (case skip_ws s of
        [] \<Rightarrow> None
      | c # t \<Rightarrow>
          if c = CHR ''{'' then (if d = 0 then None else map_option snd (members n (d - 1) t))
          else if c = CHR ''['' then (if d = 0 then None else map_option snd (elements n (d - 1) t))
          else if c = CHR 0x22 then scan_string t
          else scan_literal (c # t))"
| "elements 0 d s = None"
| "elements (Suc n) d s =
     (if HasPrefix (skip_ws s) '']'' then Some ([], tl (skip_ws s))
      else case scan_value n d s of
             None \<Rightarrow> None
           | Some u \<Rightarrow>
               (let raw = upto (skip_ws s) u
                in case skip_ws u of
                     [] \<Rightarrow> None
                   | c # v \<Rightarrow>
                       if c = CHR '']'' then Some ([raw], v)
                       else if c = CHR '','' \<and> \<not> HasPrefix (skip_ws v) '']'' then map_option (apfst (Cons raw)) (elements n d v)
                       else None))"
| "members 0 d s = None"
| "members (Suc n) d s =
     (case skip_ws s of
        [] \<Rightarrow> None
      | q # t \<Rightarrow>
          if q = CHR ''}'' then Some ([], t)
          else if q \<noteq> CHR 0x22 then None
          else case scan_string t of
                 None \<Rightarrow> None
               | Some u \<Rightarrow>
                   (case skip_ws u of
                      [] \<Rightarrow> None
                    | c # v \<Rightarrow>
                        if c \<noteq> CHR '':'' then None
                        else case scan_value n d v of
                               None \<Rightarrow> None
                             | Some w \<Rightarrow>
                                 (let kv = (butlast (upto t u), upto (skip_ws v) w)
                                  in case skip_ws w of
                                       [] \<Rightarrow> None
                                     | e # x \<Rightarrow>
                                         if e = CHR ''}'' then Some ([kv], x)
                                         else if e = CHR '','' \<and> \<not> HasPrefix (skip_ws x) ''}'' then map_option (apfst (Cons kv)) (members n d x)
                                         else None)))"

definition maxNestingDepth :: nat where
  "maxNestingDepth = 10000"

definition Valid :: "string \<Rightarrow> bool" where
  "Valid s \<longleftrightarrow> (case scan_value (Suc (length s)) maxNestingDepth s of None \<Rightarrow> False | Some r \<Rightarrow> skip_ws r = [])"

section \<open>String literals\<close>

text \<open>\<open>utf8.AppendRune\<close>; surrogates and values out of range give U+FFFD.\<close>

definition replacement :: string where
  "replacement = [CHR 0xEF, CHR 0xBF, CHR 0xBD]"

definition encode_rune :: "nat \<Rightarrow> string" where
  "encode_rune r =
     (if r < 128 then [char_of r]
      else if r < 2048 then [char_of (192 + r div 64), char_of (128 + r mod 64)]
      else if 55296 \<le> r \<and> r < 57344 \<or> 1114112 \<le> r then replacement
      else if r < 65536 then [char_of (224 + r div 4096), char_of (128 + r div 64 mod 64), char_of (128 + r mod 64)]
      else [char_of (240 + r div 262144), char_of (128 + r div 4096 mod 64), char_of (128 + r div 64 mod 64), char_of (128 + r mod 64)])"

definition simple_unescape :: "char \<Rightarrow> char" where
  "simple_unescape e =
     (if e = CHR ''b'' then CHR 0x08 else if e = CHR ''f'' then CHR 0x0C else if e = CHR ''n'' then CHR 0x0A
      else if e = CHR ''r'' then CHR 0x0D else if e = CHR ''t'' then CHR 0x09 else e)"

text \<open>The second half of a surrogate pair, if one follows.\<close>

definition low_surrogate :: "nat \<Rightarrow> string \<Rightarrow> nat option" where
  "low_surrogate r t =
     (if r < 56320 \<and> HasPrefix t [CHR 0x5C, CHR ''u'']
      then (case hex4 (drop 2 t) of
              None \<Rightarrow> None
            | Some r2 \<Rightarrow> if 56320 \<le> r2 \<and> r2 < 57344 then Some ((r - 55296) * 1024 + (r2 - 56320) + 65536) else None)
      else None)"

text \<open>The string a literal stands for, from its body.\<close>

function unquote :: "string \<Rightarrow> string" where
  "unquote [] = []"
| "unquote (c # s) =
     (if c = CHR 0x5C
      then (case s of
              [] \<Rightarrow> []
            | e # t \<Rightarrow>
                if e = CHR ''u''
                then (case hex4 t of
                        None \<Rightarrow> []
                      | Some r \<Rightarrow>
                          if 55296 \<le> r \<and> r < 57344
                          then (case low_surrogate r (drop 4 t) of
                                  Some p \<Rightarrow> encode_rune p @ unquote (drop 10 t)
                                | None \<Rightarrow> replacement @ unquote (drop 4 t))
                          else encode_rune r @ unquote (drop 4 t))
                else simple_unescape e # unquote t)
      else if byte c < 128 then c # unquote s
      else if utf8_len (c # s) = 0 then replacement @ unquote s
      else take (utf8_len (c # s)) (c # s) @ unquote (drop (utf8_len (c # s)) (c # s)))"
  by pat_completeness auto
termination by (relation "measure length") auto

section \<open>Decoding into fields\<close>

text \<open>
  The members of a JSON object with their keys decoded and the raw texts of their values;
  \<open>null\<close> sets no field, any other value does not fit a struct.
\<close>

definition object_of :: "string \<Rightarrow> (string \<times> string) list option" where
  "object_of s =
     (if \<not> Valid s then None
      else if HasPrefix (skip_ws s) ''null'' then Some []
      else if HasPrefix (skip_ws s) ''{''
      then map_option (map (apfst unquote) \<circ> fst) (members (length s) (maxNestingDepth - 1) (tl (skip_ws s)))
      else None)"

text \<open>
  Keys are matched without regard to case: ASCII letters are lowered, and the two other characters
  that fold to one (the long s and the Kelvin sign) are replaced.
\<close>

definition lower_char :: "char \<Rightarrow> char" where
  "lower_char c = (if 65 \<le> byte c \<and> byte c \<le> 90 then char_of (byte c + 32) else c)"

fun fold_key :: "string \<Rightarrow> string" where
  "fold_key (a # b # c # s) =
     (if [a, b] = [CHR 0xC5, CHR 0xBF] then CHR ''s'' # fold_key (c # s)
      else if [a, b, c] = [CHR 0xE2, CHR 0x84, CHR 0xAA] then CHR ''k'' # fold_key s
      else lower_char a # fold_key (b # c # s))"
| "fold_key [a, b] = (if [a, b] = [CHR 0xC5, CHR 0xBF] then ''s'' else [lower_char a, lower_char b])"
| "fold_key [a] = [lower_char a]"
| "fold_key [] = []"

text \<open>
  Decoding a struct: the members in order, each by the rule for its folded key; a value of the
  wrong type makes the whole decoding fail, though the later members are still read.
\<close>

fun decode_fields :: "(string \<Rightarrow> string \<Rightarrow> 'a \<Rightarrow> 'a option) \<Rightarrow> (string \<times> string) list \<Rightarrow> 'a \<Rightarrow> 'a option" where
  "decode_fields f [] x = Some x"
| "decode_fields f ((k, raw) # kvs) x = (case f (fold_key k) raw x of None \<Rightarrow> None | Some y \<Rightarrow> decode_fields f kvs y)"

definition Unmarshal :: "(string \<Rightarrow> string \<Rightarrow> 'a \<Rightarrow> 'a option) \<Rightarrow> 'a \<Rightarrow> string \<Rightarrow> 'a option" where
  "Unmarshal f zero s = (case object_of s of None \<Rightarrow> None | Some kvs \<Rightarrow> decode_fields f kvs zero)"

definition decode_text :: "string \<Rightarrow> string \<Rightarrow> string option" where
  "decode_text old raw =
     (if raw = ''null'' then Some old
      else if HasPrefix raw [CHR 0x22] then Some (unquote (butlast (tl raw)))
      else None)"

definition decode_int :: "int \<Rightarrow> string \<Rightarrow> int option" where
  "decode_int old raw =
     (if raw = ''null'' then Some old
      else if HasPrefix raw [CHR 0x22] \<or> HasPrefix raw ''{'' \<or> HasPrefix raw ''['' \<or> raw = ''true'' \<or> raw = ''false'' then None
      else ParseInt raw)"

fun decode_items :: "string list \<Rightarrow> string list \<Rightarrow> string list option" where
  "decode_items old [] = Some []"
| "decode_items old (raw # raws) =
     (case decode_text (case old of [] \<Rightarrow> [] | x # _ \<Rightarrow> x) raw of
        None \<Rightarrow> None
      | Some x \<Rightarrow> map_option (Cons x) (decode_items (tl old) raws))"

text \<open>A \<open>[]string\<close>: \<open>null\<close> is the nil slice, \<open>None\<close> here.\<close>

definition decode_texts :: "string list option \<Rightarrow> string \<Rightarrow> string list option option" where
  "decode_texts old raw =
     (if raw = ''null'' then Some None
      else if HasPrefix raw ''[''
      then (case elements (length raw) (maxNestingDepth - 1) (tl raw) of
              None \<Rightarrow> None
            | Some (raws, r) \<Rightarrow> map_option Some (decode_items (case old of None \<Rightarrow> [] | Some l \<Rightarrow> l) raws))
      else None)"

text \<open>A \<open>map[string]string\<close>, as the list of its entries; a later entry replaces an earlier one.\<close>

definition put_entry :: "string \<Rightarrow> string \<Rightarrow> (string \<times> string) list \<Rightarrow> (string \<times> string) list" where
  "put_entry k v m = filter (\<lambda>e. fst e \<noteq> k) m @ [(k, v)]"

fun decode_entries :: "(string \<times> string) list \<Rightarrow> (string \<times> string) list \<Rightarrow> (string \<times> string) list option" where
  "decode_entries [] m = Some m"
| "decode_entries ((k, raw) # kvs) m =
     (case decode_text [] raw of None \<Rightarrow> None | Some v \<Rightarrow> decode_entries kvs (put_entry k v m))"

definition decode_map :: "(string \<times> string) list \<Rightarrow> string \<Rightarrow> (string \<times> string) list option" where
  "decode_map old raw =
     (if raw = ''null'' then Some []
      else case object_of raw of None \<Rightarrow> None | Some kvs \<Rightarrow> decode_entries kvs old)"

section \<open>The scanner consumes, and its fuel is enough\<close>

lemma skip_ws_length: "length (skip_ws s) \<le> length s"
  by (simp add: skip_ws_def length_dropWhile_le)

lemma dropWhile_short: "length (dropWhile P t) \<le> Suc (length t)" "length (dropWhile P t) < Suc (length t)"
  using length_dropWhile_le [of P t] by simp_all

lemma scan_string_shorter: "scan_string s = Some r \<Longrightarrow> length r < length s"
proof (induction s rule: scan_string.induct)
  case (2 c s)
  show ?case
  proof (cases "c = CHR 0x5C")
    case True
    with "2.prems" obtain e t where s: "s = e # t" by (cases s) auto
    show ?thesis
    proof (cases "e \<in> set simple_escapes")
      case esc: True
      with "2.IH"(1) [OF _ True s esc] True s "2.prems" show ?thesis by simp
    next
      case False
      with "2.prems" True s have "e = CHR ''u'' \<and> hex4 t \<noteq> None" "scan_string (drop 4 t) = Some r" by (auto split: if_splits)
      with "2.IH"(2) [OF _ True s False] True s show ?thesis by simp
    qed
  next
    case False
    with 2 show ?thesis by (fastforce split: if_splits)
  qed
qed simp

lemma digits1_shorter: "digits1 s = Some r \<Longrightarrow> length r < length s"
  by (cases s) (auto split: if_splits simp: dropWhile_short)

lemma scan_exp_shorter: "scan_exp s = Some r \<Longrightarrow> length r \<le> length s"
  by (auto simp: scan_exp_def split: list.splits if_splits dest!: digits1_shorter simp del: digits1.simps)

lemma scan_frac_shorter: "scan_frac s = Some r \<Longrightarrow> length r \<le> length s"
  by (auto simp: scan_frac_def split: list.splits if_splits option.splits dest!: digits1_shorter scan_exp_shorter)

lemma dropWhile_frac: "scan_frac (dropWhile P t) = Some r \<Longrightarrow> length r < Suc (length t)"
  using scan_frac_shorter length_dropWhile_le by (metis le_imp_less_Suc order_trans)

lemma scan_number_shorter: "scan_number s = Some r \<Longrightarrow> length r < length s"
  by (auto simp: scan_number_def Let_def split: list.splits if_splits dest!: scan_frac_shorter dropWhile_frac)

lemma scan_literal_shorter: "scan_literal s = Some r \<Longrightarrow> length r < length s"
  by (cases s) (auto simp: scan_literal_def HasPrefix_def split: if_splits dest!: scan_number_shorter)

text \<open>The grammar the scanner reads, as a relation between a text, its items and what follows.\<close>

inductive is_value :: "nat \<Rightarrow> string \<Rightarrow> string \<Rightarrow> bool"
  and are_elements :: "nat \<Rightarrow> string \<Rightarrow> string list \<Rightarrow> string \<Rightarrow> bool"
  and are_members :: "nat \<Rightarrow> string \<Rightarrow> (string \<times> string) list \<Rightarrow> string \<Rightarrow> bool" where
  val_object: "skip_ws s = CHR ''{'' # t \<Longrightarrow> are_members d t kvs r \<Longrightarrow> is_value (Suc d) s r"
| val_array: "skip_ws s = CHR ''['' # t \<Longrightarrow> are_elements d t raws r \<Longrightarrow> is_value (Suc d) s r"
| val_string: "skip_ws s = CHR 0x22 # t \<Longrightarrow> scan_string t = Some r \<Longrightarrow> is_value d s r"
| val_literal: "skip_ws s = c # t \<Longrightarrow> c \<notin> {CHR ''{'', CHR ''['', CHR 0x22} \<Longrightarrow> scan_literal (c # t) = Some r \<Longrightarrow> is_value d s r"
| els_none: "skip_ws s = CHR '']'' # r \<Longrightarrow> are_elements d s [] r"
| els_last: "\<not> HasPrefix (skip_ws s) '']'' \<Longrightarrow> is_value d s u \<Longrightarrow> skip_ws u = CHR '']'' # r \<Longrightarrow> are_elements d s [upto (skip_ws s) u] r"
| els_more: "\<not> HasPrefix (skip_ws s) '']'' \<Longrightarrow> is_value d s u \<Longrightarrow> skip_ws u = CHR '','' # v \<Longrightarrow> \<not> HasPrefix (skip_ws v) '']'' \<Longrightarrow>
     are_elements d v raws r \<Longrightarrow> are_elements d s (upto (skip_ws s) u # raws) r"
| mem_none: "skip_ws s = CHR ''}'' # r \<Longrightarrow> are_members d s [] r"
| mem_last: "skip_ws s = CHR 0x22 # t \<Longrightarrow> scan_string t = Some u \<Longrightarrow> skip_ws u = CHR '':'' # v \<Longrightarrow> is_value d v w \<Longrightarrow>
     skip_ws w = CHR ''}'' # r \<Longrightarrow> are_members d s [(butlast (upto t u), upto (skip_ws v) w)] r"
| mem_more: "skip_ws s = CHR 0x22 # t \<Longrightarrow> scan_string t = Some u \<Longrightarrow> skip_ws u = CHR '':'' # v \<Longrightarrow> is_value d v w \<Longrightarrow>
     skip_ws w = CHR '','' # x \<Longrightarrow> \<not> HasPrefix (skip_ws x) ''}'' \<Longrightarrow> are_members d x kvs r \<Longrightarrow>
     are_members d s ((butlast (upto t u), upto (skip_ws v) w) # kvs) r"

text \<open>One unfolding of each function, as the cases of a success.\<close>

lemma map_snd_Some: "map_option snd x = Some r \<longleftrightarrow> (\<exists>a. x = Some (a, r))"
  by (cases x) auto

lemma scan_value_Some:
  "scan_value (Suc n) d s = Some r \<longleftrightarrow>
     (\<exists>c t. skip_ws s = c # t \<and>
       (if c = CHR ''{'' then \<exists>e kvs. d = Suc e \<and> members n e t = Some (kvs, r)
        else if c = CHR ''['' then \<exists>e raws. d = Suc e \<and> elements n e t = Some (raws, r)
        else if c = CHR 0x22 then scan_string t = Some r
        else scan_literal (c # t) = Some r))"
  by (cases "skip_ws s"; cases d) (simp_all add: map_snd_Some)

lemma elements_Some:
  "elements (Suc n) d s = Some (xs, r) \<longleftrightarrow>
     skip_ws s = CHR '']'' # r \<and> xs = []
   \<or> \<not> HasPrefix (skip_ws s) '']'' \<and> (\<exists>u c v. scan_value n d s = Some u \<and> skip_ws u = c # v \<and>
       (if c = CHR '']'' then xs = [upto (skip_ws s) u] \<and> r = v
        else c = CHR '','' \<and> \<not> HasPrefix (skip_ws v) '']'' \<and> (\<exists>ys. elements n d v = Some (ys, r) \<and> xs = upto (skip_ws s) u # ys)))"
  (is "?l \<longleftrightarrow> ?r")
proof (cases "HasPrefix (skip_ws s) '']''")
  case True
  then obtain t where "skip_ws s = CHR '']'' # t" by (cases "skip_ws s") (auto simp: HasPrefix_def)
  then show ?thesis by (auto simp: HasPrefix_def)
next
  case False
  then have "skip_ws s \<noteq> CHR '']'' # r" by (auto simp: HasPrefix_def)
  show ?thesis
  proof (cases "\<exists>u c v. scan_value n d s = Some u \<and> skip_ws u = c # v")
    case True
    then obtain u c v where "scan_value n d s = Some u" "skip_ws u = c # v" by blast
    with False \<open>skip_ws s \<noteq> CHR '']'' # r\<close> show ?thesis by (cases "c = CHR '']''") (auto simp: Let_def)
  next
    case no: False
    then have "\<not> ?l" using False by (cases "scan_value n d s") (simp_all add: Let_def split: list.split)
    moreover have "\<not> ?r" using no \<open>skip_ws s \<noteq> CHR '']'' # r\<close> by blast
    ultimately show ?thesis by blast
  qed
qed

lemma members_Some:
  "members (Suc n) d s = Some (xs, r) \<longleftrightarrow>
     skip_ws s = CHR ''}'' # r \<and> xs = []
   \<or> (\<exists>t u v w e x. skip_ws s = CHR 0x22 # t \<and> scan_string t = Some u \<and> skip_ws u = CHR '':'' # v \<and> scan_value n d v = Some w \<and>
       skip_ws w = e # x \<and>
       (if e = CHR ''}'' then xs = [(butlast (upto t u), upto (skip_ws v) w)] \<and> r = x
        else e = CHR '','' \<and> \<not> HasPrefix (skip_ws x) ''}'' \<and>
             (\<exists>ys. members n d x = Some (ys, r) \<and> xs = (butlast (upto t u), upto (skip_ws v) w) # ys)))"
  (is "?l \<longleftrightarrow> ?r")
proof (cases "skip_ws s")
  case (Cons q t)
  consider "q = CHR ''}''" | "q = CHR 0x22" | "q \<noteq> CHR ''}''" "q \<noteq> CHR 0x22" by blast
  then show ?thesis
  proof cases
    case 2
    show ?thesis
    proof (cases "\<exists>u v w e x. scan_string t = Some u \<and> skip_ws u = CHR '':'' # v \<and> scan_value n d v = Some w \<and> skip_ws w = e # x")
      case True
      then obtain u v w e x where "scan_string t = Some u" "skip_ws u = CHR '':'' # v" "scan_value n d v = Some w" "skip_ws w = e # x" by blast
      with Cons 2 show ?thesis by (cases "e = CHR ''}''") (auto simp: Let_def)
    next
      case False
      with Cons 2 have "\<not> ?l" by (auto simp: Let_def split: option.splits list.splits if_splits)
      moreover have "\<not> ?r" using False Cons 2 by auto
      ultimately show ?thesis by blast
    qed
  qed (use Cons in auto)
qed simp

lemma scan_sound:
  "(scan_value n d s = Some r \<longrightarrow> is_value d s r) \<and> (elements n d s = Some (xs, r) \<longrightarrow> are_elements d s xs r)
   \<and> (members n d s = Some (ys, r) \<longrightarrow> are_members d s ys r)"
proof (induction n arbitrary: d s r xs ys)
  case (Suc n)
  then have val: "scan_value n e t = Some q \<Longrightarrow> is_value e t q" and els: "elements n e t = Some (zs, q) \<Longrightarrow> are_elements e t zs q"
    and mem: "members n e t = Some (kvs, q) \<Longrightarrow> are_members e t kvs q" for e t q zs kvs by blast+
  have "is_value d s r" if "scan_value (Suc n) d s = Some r"
    using that unfolding scan_value_Some
    by (auto split: if_splits intro: val_object val_array val_string val_literal dest: els mem)
  moreover have "are_elements d s xs r" if "elements (Suc n) d s = Some (xs, r)"
    using that unfolding elements_Some by (auto split: if_splits intro: els_none els_last els_more dest: val els)
  moreover have "are_members d s ys r" if "members (Suc n) d s = Some (ys, r)"
    using that unfolding members_Some by (auto split: if_splits intro: mem_none mem_last mem_more dest: val mem)
  ultimately show ?case by blast
qed simp

lemma skip_ws_Cons: "skip_ws s = c # t \<Longrightarrow> length t < length s"
  using skip_ws_length [of s] by simp

lemma literal_short: "skip_ws s = c # t \<Longrightarrow> scan_literal (c # t) = Some r \<Longrightarrow> length r < length s"
  using skip_ws_length [of s] scan_literal_shorter [of "c # t" r] by simp

lemma grammar_shorter:
  "is_value d s r \<Longrightarrow> length r < length s"
  "are_elements d s xs r \<Longrightarrow> length r < length s"
  "are_members d s ys r \<Longrightarrow> length r < length s"
proof (induction rule: is_value_are_elements_are_members.inducts)
  case (val_literal s c t r d)
  then show ?case using literal_short by blast
qed (auto dest!: skip_ws_Cons scan_string_shorter)

text \<open>Completeness: a value that the grammar allows is found with as much fuel as it has bytes.\<close>

lemma scan_fuel:
  "is_value d s r \<Longrightarrow> length s \<le> n + length r \<Longrightarrow> scan_value n d s = Some r"
  "are_elements d s xs r \<Longrightarrow> length s \<le> n + length r \<Longrightarrow> elements n d s = Some (xs, r)"
  "are_members d s ys r \<Longrightarrow> length s \<le> n + length r \<Longrightarrow> members n d s = Some (ys, r)"
proof (induction arbitrary: n and n and n rule: is_value_are_elements_are_members.inducts)
  case (val_object s t d kvs r)
  from grammar_shorter(3) [OF val_object(2)] skip_ws_Cons [OF val_object(1)] val_object.prems obtain m where "n = Suc m" by (cases n) auto
  with val_object skip_ws_Cons [OF val_object(1)] show ?case by (simp add: scan_value_Some)
next
  case (val_array s t d raws r)
  from grammar_shorter(2) [OF val_array(2)] skip_ws_Cons [OF val_array(1)] val_array.prems obtain m where "n = Suc m" by (cases n) auto
  with val_array skip_ws_Cons [OF val_array(1)] show ?case by (simp add: scan_value_Some)
next
  case (val_string s t r d)
  from scan_string_shorter [OF val_string(2)] skip_ws_Cons [OF val_string(1)] val_string.prems obtain m where "n = Suc m" by (cases n) auto
  with val_string show ?case by (simp add: scan_value_Some)
next
  case (val_literal s c t r d)
  from literal_short [OF val_literal(1,3)] val_literal.prems obtain m where "n = Suc m" by (cases n) auto
  with val_literal show ?case by (auto simp: scan_value_Some)
next
  case (els_none s r d)
  from skip_ws_Cons [OF els_none(1)] els_none.prems obtain m where "n = Suc m" by (cases n) auto
  with els_none show ?case by (simp add: elements_Some del: elements.simps)
next
  case (els_last s d u r)
  from grammar_shorter(1) [OF els_last.hyps(2)] skip_ws_Cons [OF els_last.hyps(3)] els_last.prems obtain m where m: "n = Suc m" by (cases n) auto
  have "length s \<le> m + length u" using m els_last.prems skip_ws_Cons [OF els_last.hyps(3)] by simp
  with m els_last show ?case by (simp add: elements_Some del: elements.simps)
next
  case (els_more s d u v raws r)
  from grammar_shorter(1) [OF els_more.hyps(2)] skip_ws_Cons [OF els_more.hyps(3)] grammar_shorter(2) [OF els_more.hyps(5)] els_more.prems
  obtain m where m: "n = Suc m" "length s \<le> m + length u" "length v \<le> m + length r" by (cases n) auto
  with els_more show ?case by (simp add: elements_Some del: elements.simps)
next
  case (mem_none s r d)
  from skip_ws_Cons [OF mem_none(1)] mem_none.prems obtain m where "n = Suc m" by (cases n) auto
  with mem_none show ?case by (simp add: members_Some del: members.simps)
next
  case (mem_last s t u v d w r)
  from skip_ws_Cons [OF mem_last.hyps(1)] scan_string_shorter [OF mem_last.hyps(2)] skip_ws_Cons [OF mem_last.hyps(3)] grammar_shorter(1) [OF mem_last.hyps(4)]
    skip_ws_Cons [OF mem_last.hyps(5)] mem_last.prems
  obtain m where m: "n = Suc m" "length v \<le> m + length w" by (cases n) auto
  with mem_last show ?case by (simp add: members_Some del: members.simps)
next
  case (mem_more s t u v d w x kvs r)
  from skip_ws_Cons [OF mem_more.hyps(1)] scan_string_shorter [OF mem_more.hyps(2)] skip_ws_Cons [OF mem_more.hyps(3)] grammar_shorter(1) [OF mem_more.hyps(4)]
    skip_ws_Cons [OF mem_more.hyps(5)] grammar_shorter(3) [OF mem_more.hyps(7)] mem_more.prems
  obtain m where m: "n = Suc m" "length v \<le> m + length w" "length x \<le> m + length r" by (cases n) auto
  with mem_more show ?case by (simp add: members_Some del: members.simps)
qed

lemma scan_value_iff: "length s \<le> n \<Longrightarrow> scan_value n d s = Some r \<longleftrightarrow> is_value d s r"
  using scan_sound [of n d s r] scan_fuel(1) [of d s r n] by auto

section \<open>Reading what was rendered\<close>

fun valid_utf8 :: "string \<Rightarrow> bool" where
  "valid_utf8 [] = True"
| "valid_utf8 (c # s) =
     (if byte c < 128 then valid_utf8 s
      else utf8_len (c # s) \<noteq> 0 \<and> valid_utf8 (drop (utf8_len (c # s) - 1) s))"

lemma byte_inj: "byte c = byte d \<longleftrightarrow> c = d"
  by (simp add: byte_def)

lemma byte_hex_digit: "d < 16 \<Longrightarrow> byte (hex_digit d) = (if d < 10 then 48 + d else 87 + d)"
  by (simp add: byte_def hex_digit_def)

lemma hex_val_digit [simp]: "d < 16 \<Longrightarrow> hex_val (hex_digit d) = Some d"
  by (simp add: hex_val_def byte_hex_digit)

lemma hex_val_chars [simp]:
  "hex_val (CHR ''0'') = Some 0" "hex_val (CHR ''2'') = Some 2" "hex_val (CHR ''f'') = Some 15" "hex_val (CHR ''d'') = Some 13"
  by (simp_all add: hex_val_def byte_def)

lemma take_drop_4 [simp]: "take 4 (a # b # c # d # r) = [a, b, c, d]" "drop 4 (a # b # c # d # r) = r"
  by (simp_all add: take_Cons' drop_Cons')

lemma hex4_Some: "hex_val a = Some p \<Longrightarrow> hex_val b = Some q \<Longrightarrow> hex_val c = Some u \<Longrightarrow> hex_val d = Some v \<Longrightarrow>
    hex4 (a # b # c # d # r) = Some (((p * 16 + q) * 16 + u) * 16 + v)"
  by (simp add: hex4_def)

lemma hex4_escape: "b < 256 \<Longrightarrow> hex4 (''00'' @ [hex_digit (b div 16), hex_digit (b mod 16)] @ r) = Some b"
  by (simp add: hex4_Some less_mult_imp_div_less)

lemma hex4_fffd: "hex4 (''fffd'' @ r) = Some 65533"
  by (simp add: hex4_Some)

lemma hex4_202: "d < 16 \<Longrightarrow> hex4 (''202'' @ [hex_digit d] @ r) = Some (8224 + d)"
  by (simp add: hex4_Some)

lemma scan_string_escape: "scan_string (CHR 0x5C # CHR ''u'' # t) = (if hex4 t \<noteq> None then scan_string (drop 4 t) else None)"
  by (simp add: simple_escapes_def)

lemma scan_u_escape: "b < 256 \<Longrightarrow> scan_string (u_escape b @ r) = scan_string r"
  using hex4_escape [of b r] by (simp add: u_escape_def scan_string_escape del: scan_string.simps)

lemma scan_escape_ascii: "byte c < 128 \<Longrightarrow> scan_string (escape_ascii c @ r) = scan_string r"
  by (auto simp: escape_ascii_def scan_u_escape simple_escapes_def simp: byte_def)

lemma scan_high: "(\<And>x. x \<in> set h \<Longrightarrow> 128 \<le> byte x) \<Longrightarrow> scan_string (h @ r) = scan_string r"
proof (induction h)
  case (Cons a h)
  have a: "128 \<le> byte a" using Cons.prems by simp
  have "scan_string (h @ r) = scan_string r" using Cons by simp
  moreover have "\<not> byte a < 32" using a by simp
  ultimately show ?case using high_not_ascii [OF a] by simp
qed simp

lemma scan_json_body: "scan_string (json_body s @ r) = scan_string r"
proof (induction s rule: json_body.induct)
  case (2 c s)
  show ?case
  proof (cases "byte c < 128")
    case True
    with 2 show ?thesis by (simp add: scan_escape_ascii)
  next
    case high: False
    show ?thesis
    proof (cases "utf8_len (c # s) = 0")
      case True
      with high 2 hex4_fffd [of "json_body s @ r"] show ?thesis by (simp add: scan_string_escape del: scan_string.simps)
    next
      case False
      let ?n = "utf8_len (c # s)"
      have "scan_string (take ?n (c # s) @ q) = scan_string q" for q using utf8_high [OF False] by (intro scan_high) blast
      moreover have "scan_string (CHR 0x5C # ''u202'' @ [hex_digit (byte ((c # s) ! 2) mod 16)] @ q) = scan_string q" for q
        using hex4_202 [of "byte ((c # s) ! 2) mod 16" q] by (simp add: scan_string_escape del: scan_string.simps)
      ultimately show ?thesis using high False 2(3)
        by (simp add: Let_def del: utf8_len.simps scan_string.simps)
    qed
  qed
qed simp

lemma utf8_len_le: "utf8_len s \<le> length s"
  by (induction s rule: utf8_len.induct) auto

lemma utf8_len_take: "utf8_len s \<noteq> 0 \<Longrightarrow> utf8_len (take (utf8_len s) s @ t) = utf8_len s"
  by (induction s rule: utf8_len.induct; cases t rule: utf8_len.cases) (auto split: if_splits)

lemma unquote_escape:
  "hex4 t = Some r \<Longrightarrow> \<not> (55296 \<le> r \<and> r < 57344) \<Longrightarrow> unquote (CHR 0x5C # CHR ''u'' # t) = encode_rune r @ unquote (drop 4 t)"
  by auto

lemma unquote_u_escape: "b < 128 \<Longrightarrow> unquote (u_escape b @ r) = char_of b # unquote r"
  using unquote_escape [OF hex4_escape [of b r]] by (simp add: u_escape_def encode_rune_def del: unquote.simps)

lemma unquote_escape_ascii: "byte c < 128 \<Longrightarrow> unquote (escape_ascii c @ r) = c # unquote r"
proof -
  assume c: "byte c < 128"
  have eq: "byte c = byte d \<Longrightarrow> c = d" for d by (simp add: byte_inj)
  have "unquote (u_escape (byte c) @ r) = c # unquote r" using unquote_u_escape [OF c] by (simp add: byte_def)
  moreover have "byte c = 8 \<Longrightarrow> c = CHR 0x08" "byte c = 12 \<Longrightarrow> c = CHR 0x0C" "byte c = 10 \<Longrightarrow> c = CHR 0x0A"
    "byte c = 13 \<Longrightarrow> c = CHR 0x0D" "byte c = 9 \<Longrightarrow> c = CHR 0x09"
    by (rule eq; simp add: byte_def)+
  ultimately show ?thesis using c by (simp add: escape_ascii_def simple_unescape_def)
qed

lemma line_separator_rune:
  assumes "line_separator r" shows "r = encode_rune (8224 + byte (r ! 2) mod 16)"
proof -
  have "CHR 0xE2 = char_of (226::nat)" "CHR 0x80 = char_of (128::nat)" "CHR 0xA8 = char_of (168::nat)" "CHR 0xA9 = char_of (169::nat)"
    by (simp_all add: char_of_def bit_iff_odd)
  with assms show ?thesis by (auto simp: line_separator_def encode_rune_def byte_def)
qed

lemma unquote_json_body: "valid_utf8 s \<Longrightarrow> unquote (json_body s) = s"
proof (induction s rule: json_body.induct)
  case (2 c s)
  show ?case
  proof (cases "byte c < 128")
    case True
    with 2 show ?thesis by (simp add: unquote_escape_ascii)
  next
    case high: False
    let ?n = "utf8_len (c # s)"
    have n: "?n \<noteq> 0" "valid_utf8 (drop ?n (c # s))" using high "2.prems" by (auto simp: drop_Cons' simp del: utf8_len.simps)
    then have IH: "unquote (json_body (drop ?n (c # s))) = drop ?n (c # s)" using 2(3) high by (simp del: utf8_len.simps)
    obtain a h where t: "take ?n (c # s) = c # h" using n(1) by (cases ?n) auto
    have bs: "c \<noteq> CHR 0x5C" using high high_not_ascii [of c] by simp
    have copy: "unquote (take ?n (c # s) @ q) = take ?n (c # s) @ unquote q" for q
    proof -
      have l: "utf8_len (take ?n (c # s) @ q) = ?n" using utf8_len_take [OF n(1)] .
      have len: "?n = Suc (length h)" using utf8_len_le [of "c # s"] arg_cong [OF t, of length] by (simp del: utf8_len.simps)
      have "unquote ((c # h) @ q) = take ?n ((c # h) @ q) @ unquote (drop ?n ((c # h) @ q))"
        using high bs l n(1) unfolding t by (simp del: utf8_len.simps)
      then show ?thesis unfolding t unfolding len by (simp del: unquote.simps utf8_len.simps)
    qed
    show ?thesis
    proof (cases "line_separator (take ?n (c # s))")
      case False
      with high n IH copy show ?thesis by (simp add: Let_def del: utf8_len.simps unquote.simps)
    next
      case True
      have nth: "take ?n (c # s) ! 2 = (c # s) ! 2" using True by (auto simp: line_separator_def dest: arg_cong [of _ _ length] intro!: nth_take)
      let ?d = "byte ((c # s) ! 2) mod 16"
      have "unquote (CHR 0x5C # ''u202'' @ [hex_digit ?d] @ q) = take ?n (c # s) @ unquote q" for q
        using unquote_escape [OF hex4_202 [of ?d q]] line_separator_rune [OF True] nth by (simp del: unquote.simps)
      with high n IH True show ?thesis by (simp add: Let_def del: utf8_len.simps unquote.simps)
    qed
  qed
qed simp

end
