(* ===== verification/BroadcastBus.thy ===== *)
theory BroadcastBus
  imports GoStrings
begin

text \<open>
  The broadcast bus between instances (\<open>server/broadcast/valkey.go\<close>): the registry of local
  subscribers, the reference counts that declare which Valkey subscriptions are wanted, the
  management loop that makes the confirmed subscriptions match them, and publishing with the
  hold window after a disruption. The Valkey server is a parameter: the outcome of each command
  and the reply to \<open>PUBLISH\<close>. Go channels are numbers; their contents are in the bus state. The
  generation counters are unbounded here (64 bits in the code, one step per change of the
  wanted set). Metrics, logging and the health ping are left out.
\<close>

section \<open>Data\<close>

type_synonym chan_id = nat

datatype bus_error = ErrEmptyTenantID | ErrInvalidTenantID | ErrSubscriberNotFound | ErrPublishUnavailable

record bus_message =
  Subject :: string
  Payload :: string
  MsgTenantID :: string
  MsgPos :: string
  MsgMid :: string
  MsgChannel :: string

text \<open>
  A tenant without subscribers has no entry in \<open>tenantSubscribers\<close>, which reads as the empty
  slice; \<open>subRefCounts\<close> distinguishes absence, its keys are the wanted subscriptions.
\<close>

record bus =
  channelPrefix :: string
  busBufferSize :: nat
  tenantSubscribers :: "string \<Rightarrow> chan_id list"
  allSubscribers :: "chan_id list"
  chan_buf :: "chan_id \<Rightarrow> bus_message list"
  chan_cap :: "chan_id \<Rightarrow> nat"
  subRefCounts :: "string \<rightharpoonup> int"
  subscribeAllRefCount :: int
  desiredGen :: nat
  subWakeCh :: bool
  confirmedTenants :: "string set"
  confirmedAll :: bool
  confirmedGen :: nat
  establishedCount :: int
  publishHealthy :: bool
  lastPublish :: int
  disruptedSince :: int
  heldSince :: int
  zeroSubscriberWindow :: int

definition valkeyChannelSeparator :: string where
  "valkeyChannelSeparator = '':''"

definition tenantChannel :: "string \<Rightarrow> string \<Rightarrow> string" where
  "tenantChannel prefix t = prefix @ valkeyChannelSeparator @ t"

section \<open>Subscribing\<close>

definition noteDesiredChangedLocked :: "bus \<Rightarrow> bus" where
  "noteDesiredChangedLocked b = b\<lparr>desiredGen := desiredGen b + 1\<rparr>"

definition signalSubscriptionChange :: "bus \<Rightarrow> bus" where
  "signalSubscriptionChange b = b\<lparr>subWakeCh := True\<rparr>"

text \<open>
  Each operation is the section under \<open>subMu\<close>, then the section under \<open>subRefMu\<close>, then the
  signal; other goroutines run between them. The fresh Go channel is an argument.
\<close>

definition sub_append :: "string \<Rightarrow> chan_id \<Rightarrow> bus \<Rightarrow> bus" where
  "sub_append t ch b = b\<lparr>tenantSubscribers := (tenantSubscribers b)(t := tenantSubscribers b t @ [ch]),
     chan_buf := (chan_buf b)(ch := []), chan_cap := (chan_cap b)(ch := busBufferSize b)\<rparr>"

definition sub_count :: "string \<Rightarrow> bus \<Rightarrow> bus \<times> bool" where
  "sub_count t b =
     (let n = (case subRefCounts b t of None \<Rightarrow> 0 | Some n \<Rightarrow> n) + 1;
          b = b\<lparr>subRefCounts := (subRefCounts b)(t \<mapsto> n)\<rparr>
      in if n = 1 then (noteDesiredChangedLocked b, True) else (b, False))"

definition Subscribe :: "string \<Rightarrow> chan_id \<Rightarrow> bus \<Rightarrow> bus_error + (bus \<times> chan_id)" where
  "Subscribe t ch b =
     (if t = [] then Inl ErrEmptyTenantID
      else if Contains t valkeyChannelSeparator then Inl ErrInvalidTenantID
      else let (b, isFirst) = sub_count t (sub_append t ch b)
           in Inr (if isFirst then signalSubscriptionChange b else b, ch))"

definition unsub_remove :: "string \<Rightarrow> chan_id \<Rightarrow> bus \<Rightarrow> bus \<times> bool" where
  "unsub_remove t ch b =
     (if ch \<in> set (tenantSubscribers b t)
      then (b\<lparr>tenantSubscribers := (tenantSubscribers b)(t := remove1 ch (tenantSubscribers b t))\<rparr>, True)
      else (b, False))"

definition unsub_count :: "string \<Rightarrow> bus \<Rightarrow> bus \<times> bool" where
  "unsub_count t b =
     (let n = (case subRefCounts b t of None \<Rightarrow> 0 | Some n \<Rightarrow> n) - 1
      in if n = 0 then (noteDesiredChangedLocked (b\<lparr>subRefCounts := (subRefCounts b)(t := None)\<rparr>), True)
         else (b\<lparr>subRefCounts := (subRefCounts b)(t \<mapsto> n)\<rparr>, False))"

definition Unsubscribe :: "string \<Rightarrow> chan_id \<Rightarrow> bus \<Rightarrow> bus \<times> bus_error option" where
  "Unsubscribe t ch b =
     (let (b, found) = unsub_remove t ch b
      in if \<not> found then (b, Some ErrSubscriberNotFound)
         else let (b, isLast) = unsub_count t b
              in (if isLast then signalSubscriptionChange b else b, None))"

text \<open>\<open>bufSize\<close> is the capacity \<open>SubscribeAll\<close> computes from the licence limits.\<close>

definition suball_append :: "nat \<Rightarrow> chan_id \<Rightarrow> bus \<Rightarrow> bus" where
  "suball_append bufSize ch b = b\<lparr>allSubscribers := allSubscribers b @ [ch],
     chan_buf := (chan_buf b)(ch := []), chan_cap := (chan_cap b)(ch := bufSize)\<rparr>"

definition suball_count :: "bus \<Rightarrow> bus \<times> bool" where
  "suball_count b =
     (let n = subscribeAllRefCount b + 1; b = b\<lparr>subscribeAllRefCount := n\<rparr>
      in if n = 1 then (noteDesiredChangedLocked b, True) else (b, False))"

definition all_buf_size :: "nat \<Rightarrow> nat \<Rightarrow> nat option \<Rightarrow> nat" where
  "all_buf_size bufferMax perTenant maxTenants =
     max perTenant (case maxTenants of None \<Rightarrow> bufferMax
       | Some n \<Rightarrow> if n = 0 then bufferMax else min (perTenant * n) bufferMax)"

definition SubscribeAll :: "nat \<Rightarrow> nat option \<Rightarrow> chan_id \<Rightarrow> bus \<Rightarrow> bus \<times> chan_id" where
  "SubscribeAll bufferMax maxTenants ch b =
     (let (b, isFirst) = suball_count (suball_append (all_buf_size bufferMax (busBufferSize b) maxTenants) ch b)
      in (if isFirst then signalSubscriptionChange b else b, ch))"

definition unsuball_remove :: "chan_id \<Rightarrow> bus \<Rightarrow> bus \<times> bool" where
  "unsuball_remove ch b =
     (if ch \<in> set (allSubscribers b)
      then (b\<lparr>allSubscribers := remove1 ch (allSubscribers b)\<rparr>, True) else (b, False))"

definition unsuball_count :: "bus \<Rightarrow> bus \<times> bool" where
  "unsuball_count b =
     (let n = subscribeAllRefCount b - 1; b = b\<lparr>subscribeAllRefCount := n\<rparr>
      in if n = 0 then (noteDesiredChangedLocked b, True) else (b, False))"

definition UnsubscribeAll :: "chan_id \<Rightarrow> bus \<Rightarrow> bus \<times> bus_error option" where
  "UnsubscribeAll ch b =
     (let (b, found) = unsuball_remove ch b
      in if \<not> found then (b, Some ErrSubscriberNotFound)
         else let (b, isLast) = unsuball_count b
              in (if isLast then signalSubscriptionChange b else b, None))"

section \<open>Fan-out\<close>

fun offer_all :: "bus_message \<Rightarrow> chan_id list \<Rightarrow> bus \<Rightarrow> bus" where
  "offer_all msg [] b = b"
| "offer_all msg (ch # chs) b =
     offer_all msg chs
       (if length (chan_buf b ch) < chan_cap b ch
        then b\<lparr>chan_buf := (chan_buf b)(ch := chan_buf b ch @ [msg])\<rparr> else b)"

definition fanOutTenant :: "bus_message \<Rightarrow> bus \<Rightarrow> bus" where
  "fanOutTenant msg b = offer_all msg (tenantSubscribers b (MsgTenantID msg)) b"

definition fanOutAll :: "bus_message \<Rightarrow> bus \<Rightarrow> bus" where
  "fanOutAll msg b = offer_all msg (allSubscribers b) b"

text \<open>
  The pub/sub hook: \<open>decoded\<close> is the decoded message or its decoding failure. The tenant is
  taken from the name of the Valkey channel, never from the message.
\<close>

definition OnMessage :: "bus_message option \<Rightarrow> string \<Rightarrow> string \<Rightarrow> bus \<Rightarrow> bus" where
  "OnMessage decoded channel pattern b =
     (case decoded of
        None \<Rightarrow> b
      | Some msg \<Rightarrow>
          (case CutPrefix channel (channelPrefix b @ valkeyChannelSeparator) of
             None \<Rightarrow> b
           | Some t \<Rightarrow>
               if t = [] then b
               else if pattern \<noteq> [] then fanOutAll (msg\<lparr>MsgTenantID := t\<rparr>) b
               else fanOutTenant (msg\<lparr>MsgTenantID := t\<rparr>) b))"

section \<open>Publishing\<close>

datatype publish_reply = PubFailed | PubReached int | PubUnreadable

definition inRecoveryEpisode :: "int \<Rightarrow> bus \<Rightarrow> bus \<times> bool" where
  "inRecoveryEpisode now b =
     (if disruptedSince b = 0 then (b, False)
      else if heldSince b = 0 then (b\<lparr>heldSince := now\<rparr>, True)
      else (b, now - heldSince b < zeroSubscriberWindow b))"

definition armDisruptionEpisode :: "int \<Rightarrow> bus \<Rightarrow> bus" where
  "armDisruptionEpisode start b =
     (let b = (if disruptedSince b = 0 then b\<lparr>heldSince := 0\<rparr> else b) in b\<lparr>disruptedSince := start\<rparr>)"

definition clearDisruptionEpisode :: "bus \<Rightarrow> bus" where
  "clearDisruptionEpisode b = b\<lparr>disruptedSince := 0, heldSince := 0\<rparr>"

definition Publish :: "int \<Rightarrow> bus_message \<Rightarrow> publish_reply \<Rightarrow> bus \<Rightarrow> bus \<times> bus_error option" where
  "Publish now msg reply b =
     (if MsgTenantID msg = [] then (b, Some ErrEmptyTenantID)
      else if Contains (MsgTenantID msg) valkeyChannelSeparator then (b, Some ErrInvalidTenantID)
      else case reply of
             PubFailed \<Rightarrow> (b\<lparr>publishHealthy := False\<rparr>, Some ErrPublishUnavailable)
           | PubUnreadable \<Rightarrow> (b\<lparr>lastPublish := now div 1000000000, publishHealthy := True\<rparr>, None)
           | PubReached n \<Rightarrow>
               (let b = b\<lparr>lastPublish := now div 1000000000, publishHealthy := True\<rparr>
                in if n = 0
                   then (let (b, held) = inRecoveryEpisode now b
                         in (b, if held then Some ErrPublishUnavailable else None))
                   else (b, None)))"

section \<open>Converging\<close>

datatype sub_command = SUBSCRIBE string | UNSUBSCRIBE string | PSUBSCRIBE | PUNSUBSCRIBE

text \<open>
  The outcome of a command: success, an error reply of the server, a broken connection, or the
  context of the bus found cancelled before the command.
\<close>

datatype cmd_outcome = CmdOK | ServerError | TransportError | CtxDone

record pass =
  conf :: "string set"
  conf_all :: bool
  pass_ok :: bool
  pass_abort :: bool
  pass_cancelled :: bool

definition handleFailure :: "cmd_outcome \<Rightarrow> pass \<Rightarrow> pass" where
  "handleFailure r p =
     (case r of
        ServerError \<Rightarrow> p\<lparr>pass_ok := False\<rparr>
      | TransportError \<Rightarrow> p\<lparr>pass_ok := False, pass_abort := True\<rparr>
      | CtxDone \<Rightarrow> p\<lparr>pass_cancelled := True\<rparr>
      | CmdOK \<Rightarrow> p)"

text \<open>The two loops range over Go maps: the order of the keys is the list given.\<close>

fun subscribe_missing :: "(sub_command \<Rightarrow> cmd_outcome) \<Rightarrow> string list \<Rightarrow> pass \<Rightarrow> pass" where
  "subscribe_missing exec [] p = p"
| "subscribe_missing exec (t # ts) p =
     (if pass_abort p \<or> pass_cancelled p then p
      else if t \<in> conf p then subscribe_missing exec ts p
      else case exec (SUBSCRIBE t) of
             CmdOK \<Rightarrow> subscribe_missing exec ts (p\<lparr>conf := insert t (conf p)\<rparr>)
           | r \<Rightarrow> subscribe_missing exec ts (handleFailure r p))"

fun unsubscribe_stale :: "(sub_command \<Rightarrow> cmd_outcome) \<Rightarrow> string list \<Rightarrow> string list \<Rightarrow> pass \<Rightarrow> pass" where
  "unsubscribe_stale exec desired [] p = p"
| "unsubscribe_stale exec desired (t # ts) p =
     (if pass_abort p \<or> pass_cancelled p then p
      else if t \<notin> conf p \<or> t \<in> set desired then unsubscribe_stale exec desired ts p
      else case exec (UNSUBSCRIBE t) of
             CmdOK \<Rightarrow> unsubscribe_stale exec desired ts (p\<lparr>conf := conf p - {t}\<rparr>)
           | r \<Rightarrow> unsubscribe_stale exec desired ts (handleFailure r p))"

definition subscribe_pattern :: "(sub_command \<Rightarrow> cmd_outcome) \<Rightarrow> bool \<Rightarrow> pass \<Rightarrow> pass" where
  "subscribe_pattern exec wantAll p =
     (if pass_abort p \<or> pass_cancelled p \<or> wantAll = conf_all p then p
      else if wantAll
      then (case exec PSUBSCRIBE of CmdOK \<Rightarrow> p\<lparr>conf_all := True\<rparr> | r \<Rightarrow> handleFailure r p)
      else (case exec PUNSUBSCRIBE of CmdOK \<Rightarrow> p\<lparr>conf_all := False\<rparr> | r \<Rightarrow> handleFailure r p))"

definition converge_commands ::
  "(sub_command \<Rightarrow> cmd_outcome) \<Rightarrow> string list \<Rightarrow> string list \<Rightarrow> bool \<Rightarrow> bus \<Rightarrow> pass" where
  "converge_commands exec desired keys wantAll b =
     subscribe_pattern exec wantAll (unsubscribe_stale exec desired keys (subscribe_missing exec desired
       \<lparr>conf = confirmedTenants b, conf_all = confirmedAll b, pass_ok = True, pass_abort = False, pass_cancelled = False\<rparr>))"

definition updateEstablished :: "bus \<Rightarrow> bus" where
  "updateEstablished b = b\<lparr>establishedCount := int (card (confirmedTenants b)) + (if confirmedAll b then 1 else 0)\<rparr>"

text \<open>
  The pass after the snapshot of generation and wanted set: \<open>keys\<close> lists the confirmed tenants
  of the second loop, \<open>ended\<close> is the state of the context at the end.
\<close>

definition converge_apply :: "pass \<Rightarrow> bus \<Rightarrow> bus" where
  "converge_apply p b = b\<lparr>confirmedTenants := conf p, confirmedAll := conf_all p\<rparr>"

definition converge_finish :: "nat \<Rightarrow> bool \<Rightarrow> bus \<Rightarrow> bus" where
  "converge_finish gen ok b =
     (let b = updateEstablished b
      in if ok then clearDisruptionEpisode (b\<lparr>confirmedGen := gen\<rparr>) else b)"

definition converge ::
  "(sub_command \<Rightarrow> cmd_outcome) \<Rightarrow> string list \<Rightarrow> bool \<Rightarrow> nat \<Rightarrow> string list \<Rightarrow> bool \<Rightarrow> bus \<Rightarrow> bus \<times> bool" where
  "converge exec keys ended gen desired wantAll b =
     (let p = converge_commands exec desired keys wantAll b; b = converge_apply p b
      in if pass_cancelled p \<or> ended then (b, False) else (converge_finish gen (pass_ok p) b, pass_ok p))"

text \<open>\<open>reinitDedicatedClient\<close>: the confirmed state is wiped, then the generation moves on.\<close>

definition reinit_wipe :: "bus \<Rightarrow> bus" where
  "reinit_wipe b = updateEstablished (b\<lparr>confirmedTenants := {}, confirmedAll := False\<rparr>)"

definition reinit_bump :: "int \<Rightarrow> bus \<Rightarrow> bus" where
  "reinit_bump now b = armDisruptionEpisode now (b\<lparr>desiredGen := desiredGen b + 1\<rparr>)"

definition reinitDedicatedClient :: "int \<Rightarrow> bus \<Rightarrow> bus" where
  "reinitDedicatedClient now b = reinit_bump now (reinit_wipe b)"

definition subscriptionsConverged :: "bus \<Rightarrow> bool" where
  "subscriptionsConverged b \<longleftrightarrow> confirmedGen b = desiredGen b"

definition IsHealthy :: "bus \<Rightarrow> bool" where
  "IsHealthy b \<longleftrightarrow> publishHealthy b \<and> subscriptionsConverged b"

text \<open>The constructor.\<close>

definition newValkeyBus :: "string \<Rightarrow> nat \<Rightarrow> int \<Rightarrow> int \<Rightarrow> bus" where
  "newValkeyBus prefix bufSize window now =
     \<lparr>channelPrefix = prefix, busBufferSize = bufSize, tenantSubscribers = (\<lambda>_. []), allSubscribers = [],
      chan_buf = (\<lambda>_. []), chan_cap = (\<lambda>_. 0), subRefCounts = (\<lambda>_. None), subscribeAllRefCount = 0, desiredGen = 0, subWakeCh = False,
      confirmedTenants = {}, confirmedAll = False, confirmedGen = 0, establishedCount = 0,
      publishHealthy = True, lastPublish = now, disruptedSince = 0, heldSince = 0, zeroSubscriberWindow = window\<rparr>"

section \<open>The running bus\<close>

text \<open>
  The management loop waits, has wiped the confirmed state after a lost connection, is about to
  take the snapshot, works on a snapshot, or has issued its commands. Only the loop reads the
  confirmed state, so a pass may run in two steps. The other goroutines are between the two
  sections of an operation (\<open>inSub\<close>, \<open>inUnsub\<close> and their variants for all tenants) or about to
  signal (\<open>toSignal\<close>).
\<close>

datatype loop_phase =
  Waiting | Wiped | Ready
| Passing (snap_gen: nat) (snap_desired: "string list") (snap_all: bool)
| Issued (iss_gen: nat) (iss_ok: bool)

record bus_sys =
  bus_of :: bus
  loop :: loop_phase
  retryArmed :: bool
  inSub :: "(string \<times> chan_id) set"
  inUnsub :: "string \<Rightarrow> nat"
  inSubAll :: "chan_id set"
  inUnsubAll :: nat
  toSignal :: nat

definition bus_start :: "bus \<Rightarrow> bus_sys" where
  "bus_start b = \<lparr>bus_of = b, loop = Waiting, retryArmed = False, inSub = {}, inUnsub = (\<lambda>_. 0),
     inSubAll = {}, inUnsubAll = 0, toSignal = 0\<rparr>"

definition fresh_chan :: "chan_id \<Rightarrow> bus \<Rightarrow> bool" where
  "fresh_chan ch b \<longleftrightarrow> (\<forall>t. ch \<notin> set (tenantSubscribers b t)) \<and> ch \<notin> set (allSubscribers b)"

definition signals :: "bool \<Rightarrow> nat" where
  "signals first = (if first then 1 else 0)"

inductive bus_step :: "bus_sys \<Rightarrow> bus_sys \<Rightarrow> bool" where
  sub_enter: "t \<noteq> [] \<Longrightarrow> \<not> Contains t valkeyChannelSeparator \<Longrightarrow> fresh_chan ch (bus_of s) \<Longrightarrow>
     bus_step s (s\<lparr>bus_of := sub_append t ch (bus_of s), inSub := insert (t, ch) (inSub s)\<rparr>)"
| sub_ref: "(t, ch) \<in> inSub s \<Longrightarrow> sub_count t (bus_of s) = (b', first) \<Longrightarrow>
     bus_step s (s\<lparr>bus_of := b', inSub := inSub s - {(t, ch)}, toSignal := toSignal s + signals first\<rparr>)"
| unsub_enter: "(t, ch) \<notin> inSub s \<Longrightarrow> unsub_remove t ch (bus_of s) = (b', True) \<Longrightarrow>
     bus_step s (s\<lparr>bus_of := b', inUnsub := (inUnsub s)(t := inUnsub s t + 1)\<rparr>)"
| unsub_ref: "0 < inUnsub s t \<Longrightarrow> unsub_count t (bus_of s) = (b', isLast) \<Longrightarrow>
     bus_step s (s\<lparr>bus_of := b', inUnsub := (inUnsub s)(t := inUnsub s t - 1), toSignal := toSignal s + signals isLast\<rparr>)"
| suball_enter: "fresh_chan ch (bus_of s) \<Longrightarrow>
     bus_step s (s\<lparr>bus_of := suball_append n ch (bus_of s), inSubAll := insert ch (inSubAll s)\<rparr>)"
| suball_ref: "ch \<in> inSubAll s \<Longrightarrow> suball_count (bus_of s) = (b', first) \<Longrightarrow>
     bus_step s (s\<lparr>bus_of := b', inSubAll := inSubAll s - {ch}, toSignal := toSignal s + signals first\<rparr>)"
| unsuball_enter: "ch \<notin> inSubAll s \<Longrightarrow> unsuball_remove ch (bus_of s) = (b', True) \<Longrightarrow>
     bus_step s (s\<lparr>bus_of := b', inUnsubAll := inUnsubAll s + 1\<rparr>)"
| unsuball_ref: "0 < inUnsubAll s \<Longrightarrow> unsuball_count (bus_of s) = (b', isLast) \<Longrightarrow>
     bus_step s (s\<lparr>bus_of := b', inUnsubAll := inUnsubAll s - 1, toSignal := toSignal s + signals isLast\<rparr>)"
| signal: "0 < toSignal s \<Longrightarrow>
     bus_step s (s\<lparr>bus_of := signalSubscriptionChange (bus_of s), toSignal := toSignal s - 1\<rparr>)"
| publish: "bus_step s (s\<lparr>bus_of := fst (Publish now msg reply (bus_of s))\<rparr>)"
| message: "bus_step s (s\<lparr>bus_of := OnMessage msg channel pattern (bus_of s)\<rparr>)"
| disconnected: "loop s = Waiting \<Longrightarrow> bus_step s (s\<lparr>bus_of := reinit_wipe (bus_of s), loop := Wiped\<rparr>)"
| reinitialised: "loop s = Wiped \<Longrightarrow> bus_step s (s\<lparr>bus_of := reinit_bump now (bus_of s), loop := Ready\<rparr>)"
| woken: "loop s = Waiting \<Longrightarrow> subWakeCh (bus_of s) \<Longrightarrow>
     bus_step s (s\<lparr>bus_of := (bus_of s)\<lparr>subWakeCh := False\<rparr>, loop := Ready\<rparr>)"
| retry: "loop s = Waiting \<Longrightarrow> retryArmed s \<Longrightarrow> bus_step s (s\<lparr>retryArmed := False, loop := Ready\<rparr>)"
| tick: "loop s = Waiting \<Longrightarrow> bus_step s (s\<lparr>loop := Ready\<rparr>)"
| snapshot: "loop s = Ready \<Longrightarrow> set desired = dom (subRefCounts (bus_of s)) \<Longrightarrow> distinct desired \<Longrightarrow>
     bus_step s (s\<lparr>loop := Passing (desiredGen (bus_of s)) desired (subscribeAllRefCount (bus_of s) > 0)\<rparr>)"
| issue: "loop s = Passing gen desired wantAll \<Longrightarrow> (\<And>c. exec c \<noteq> CtxDone) \<Longrightarrow>
     confirmedTenants (bus_of s) \<union> set desired \<subseteq> set keys \<Longrightarrow>
     p = converge_commands exec desired keys wantAll (bus_of s) \<Longrightarrow>
     bus_step s (s\<lparr>bus_of := converge_apply p (bus_of s), loop := Issued gen (pass_ok p)\<rparr>)"
| finish: "loop s = Issued gen ok \<Longrightarrow>
     bus_step s (s\<lparr>bus_of := converge_finish gen ok (bus_of s), loop := Waiting, retryArmed := \<not> ok\<rparr>)"

inductive bus_reachable :: "bus_sys \<Rightarrow> bool" where
  start: "bus_reachable (bus_start (newValkeyBus prefix bufSize window now))"
| step: "bus_reachable s \<Longrightarrow> bus_step s s' \<Longrightarrow> bus_reachable s'"

section \<open>What a pass achieves\<close>

lemma subscribe_missing_ok:
  assumes "\<And>c. exec c \<noteq> CtxDone" and "pass_ok p \<longrightarrow> \<not> pass_abort p" and "\<not> pass_cancelled p"
    and "p' = subscribe_missing exec ts p"
  shows "\<not> pass_cancelled p' \<and> conf_all p' = conf_all p \<and> (pass_ok p' \<longrightarrow> pass_ok p \<and> \<not> pass_abort p')
     \<and> conf p \<subseteq> conf p' \<and> conf p' \<subseteq> conf p \<union> set ts \<and> (pass_ok p' \<longrightarrow> set ts \<subseteq> conf p')"
  using assms
proof (induction ts arbitrary: p p')
  case Nil
  then show ?case by simp
next
  case (Cons t ts)
  consider "pass_abort p" | "\<not> pass_abort p" "t \<in> conf p"
    | "\<not> pass_abort p" "t \<notin> conf p" "exec (SUBSCRIBE t) = CmdOK"
    | r where "\<not> pass_abort p" "t \<notin> conf p" "exec (SUBSCRIBE t) = r" "r = ServerError \<or> r = TransportError"
    using Cons.prems(1) by (metis cmd_outcome.exhaust)
  then show ?case
  proof cases
    case 1
    with Cons.prems show ?thesis by auto
  next
    case 2
    with Cons.IH [of p p'] Cons.prems show ?thesis by auto
  next
    case 3
    with Cons.IH [of "p\<lparr>conf := insert t (conf p)\<rparr>" p'] Cons.prems show ?thesis by auto
  next
    case 4
    with Cons.IH [of "handleFailure r p" p'] Cons.prems show ?thesis
      by (auto simp: handleFailure_def)
  qed
qed

lemma unsubscribe_stale_ok:
  assumes "\<And>c. exec c \<noteq> CtxDone" and "pass_ok p \<longrightarrow> \<not> pass_abort p" and "\<not> pass_cancelled p"
    and "p' = unsubscribe_stale exec d ts p"
  shows "\<not> pass_cancelled p' \<and> conf_all p' = conf_all p \<and> (pass_ok p' \<longrightarrow> pass_ok p \<and> \<not> pass_abort p')
     \<and> conf p' \<subseteq> conf p \<and> conf p \<inter> set d \<subseteq> conf p' \<and> (pass_ok p' \<longrightarrow> conf p' \<inter> set ts \<subseteq> set d)"
  using assms
proof (induction ts arbitrary: p p')
  case Nil
  then show ?case by simp
next
  case (Cons t ts)
  consider "pass_abort p" | "\<not> pass_abort p" "t \<notin> conf p \<or> t \<in> set d"
    | "\<not> pass_abort p" "t \<in> conf p" "t \<notin> set d" "exec (UNSUBSCRIBE t) = CmdOK"
    | r where "\<not> pass_abort p" "t \<in> conf p" "t \<notin> set d" "exec (UNSUBSCRIBE t) = r" "r = ServerError \<or> r = TransportError"
    using Cons.prems(1) by (metis cmd_outcome.exhaust)
  then show ?case
  proof cases
    case 1
    with Cons.prems show ?thesis by auto
  next
    case 2
    with Cons.IH [of p p'] Cons.prems show ?thesis by auto
  next
    case 3
    with Cons.IH [of "p\<lparr>conf := conf p - {t}\<rparr>" p'] Cons.prems show ?thesis by auto
  next
    case 4
    with Cons.IH [of "handleFailure r p" p'] Cons.prems show ?thesis
      by (auto simp: handleFailure_def)
  qed
qed

lemma converge_commands_ok:
  assumes "\<And>c. exec c \<noteq> CtxDone" and "confirmedTenants b \<union> set d \<subseteq> set keys"
    and "p = converge_commands exec d keys w b" and "pass_ok p"
  shows "conf p = set d \<and> conf_all p = w"
proof -
  let ?p0 = "\<lparr>conf = confirmedTenants b, conf_all = confirmedAll b, pass_ok = True, pass_abort = False, pass_cancelled = False\<rparr>"
  let ?p1 = "subscribe_missing exec d ?p0"
  let ?p2 = "unsubscribe_stale exec d keys ?p1"
  have p: "p = subscribe_pattern exec w ?p2" using assms(3) by (simp add: converge_commands_def)
  have 1: "\<not> pass_cancelled ?p1 \<and> conf_all ?p1 = confirmedAll b \<and> (pass_ok ?p1 \<longrightarrow> \<not> pass_abort ?p1)
     \<and> conf ?p1 \<subseteq> confirmedTenants b \<union> set d \<and> (pass_ok ?p1 \<longrightarrow> set d \<subseteq> conf ?p1)"
    using subscribe_missing_ok [of exec ?p0 ?p1 d] assms(1) by simp
  have 2: "\<not> pass_cancelled ?p2 \<and> conf_all ?p2 = conf_all ?p1 \<and> (pass_ok ?p2 \<longrightarrow> pass_ok ?p1 \<and> \<not> pass_abort ?p2)
     \<and> conf ?p2 \<subseteq> conf ?p1 \<and> conf ?p1 \<inter> set d \<subseteq> conf ?p2 \<and> (pass_ok ?p2 \<longrightarrow> conf ?p2 \<inter> set keys \<subseteq> set d)"
    using unsubscribe_stale_ok [of exec ?p1 ?p2 d keys] assms(1) 1 by blast
  have 3: "pass_ok ?p2 \<and> conf p = conf ?p2 \<and> conf_all p = w"
    using assms(1) [of PSUBSCRIBE] assms(1) [of PUNSUBSCRIBE] assms(4) 2
    by (auto simp: p subscribe_pattern_def handleFailure_def split: if_splits cmd_outcome.splits)
  then have "conf ?p2 = set d" using 1 2 assms(2) by blast
  with 3 show ?thesis by simp
qed

lemma subscribe_missing_nop: "set ts \<subseteq> conf p \<Longrightarrow> subscribe_missing exec ts p = p"
  by (induction ts) auto

lemma unsubscribe_stale_nop: "conf p \<subseteq> set d \<Longrightarrow> unsubscribe_stale exec d ts p = p"
  by (induction ts) auto

lemma converge_commands_nop:
  "confirmedTenants b = set d \<Longrightarrow> confirmedAll b = w \<Longrightarrow> converge_apply (converge_commands exec d keys w b) b = b"
  by (simp add: converge_commands_def subscribe_missing_nop unsubscribe_stale_nop subscribe_pattern_def converge_apply_def)

section \<open>The invariant\<close>

text \<open>
  Counting: references taken plus those about to be taken are the subscribers plus the
  references about to be dropped.
\<close>

definition ref_count :: "bus \<Rightarrow> string \<Rightarrow> int" where
  "ref_count b t = (case subRefCounts b t of None \<Rightarrow> 0 | Some n \<Rightarrow> n)"

definition count_inv :: "bus_sys \<Rightarrow> bool" where
  "count_inv s \<longleftrightarrow> finite (inSub s) \<and>
     (\<forall>t. int (card {ch. (t, ch) \<in> inSub s}) + ref_count (bus_of s) t
            = int (length (tenantSubscribers (bus_of s) t)) + int (inUnsub s t)
          \<and> distinct (tenantSubscribers (bus_of s) t)
          \<and> (\<forall>ch. (t, ch) \<in> inSub s \<longrightarrow> ch \<in> set (tenantSubscribers (bus_of s) t))
          \<and> (\<forall>n. subRefCounts (bus_of s) t = Some n \<longrightarrow> 0 < n))"

definition count_all_inv :: "bus_sys \<Rightarrow> bool" where
  "count_all_inv s \<longleftrightarrow> distinct (allSubscribers (bus_of s)) \<and> inSubAll s \<subseteq> set (allSubscribers (bus_of s))
     \<and> int (card (inSubAll s)) + subscribeAllRefCount (bus_of s)
         = int (length (allSubscribers (bus_of s))) + int (inUnsubAll s)"

text \<open>The confirmed subscriptions are the wanted ones.\<close>

definition matching :: "bus \<Rightarrow> bool" where
  "matching b \<longleftrightarrow> confirmedTenants b = dom (subRefCounts b) \<and> confirmedAll b = (subscribeAllRefCount b > 0)"

text \<open>
  Generations: a snapshot of the current generation is the wanted set, and equal generations
  mean a matching state except right after the wipe.
\<close>

definition gen_inv :: "bus_sys \<Rightarrow> bool" where
  "gen_inv s \<longleftrightarrow>
     (let b = bus_of s
      in confirmedGen b \<le> desiredGen b \<and> (loop s \<noteq> Wiped \<longrightarrow> confirmedGen b = desiredGen b \<longrightarrow> matching b)
         \<and> (case loop s of
              Passing gen d w \<Rightarrow> confirmedGen b \<le> gen \<and> gen \<le> desiredGen b
                \<and> (gen = desiredGen b \<longrightarrow> set d = dom (subRefCounts b) \<and> w = (subscribeAllRefCount b > 0))
            | Issued gen ok \<Rightarrow> confirmedGen b \<le> gen \<and> gen \<le> desiredGen b \<and> (ok \<longrightarrow> gen = desiredGen b \<longrightarrow> matching b)
            | _ \<Rightarrow> True))"

text \<open>Every change still unseen by the loop has a wake-up, a signal or a retry on its way.\<close>

definition wake_inv :: "bus_sys \<Rightarrow> bool" where
  "wake_inv s \<longleftrightarrow>
     (let b = bus_of s; coming = subWakeCh b \<or> 0 < toSignal s
      in case loop s of
           Waiting \<Rightarrow> confirmedGen b = desiredGen b \<or> coming \<or> retryArmed s
         | Passing gen _ _ \<Rightarrow> gen = desiredGen b \<or> coming
         | Issued gen _ \<Rightarrow> gen = desiredGen b \<or> coming
         | _ \<Rightarrow> True)"

lemma offer_all_frame [simp]:
  "tenantSubscribers (offer_all m chs b) = tenantSubscribers b" "allSubscribers (offer_all m chs b) = allSubscribers b"
  "subRefCounts (offer_all m chs b) = subRefCounts b" "subscribeAllRefCount (offer_all m chs b) = subscribeAllRefCount b"
  "desiredGen (offer_all m chs b) = desiredGen b" "confirmedGen (offer_all m chs b) = confirmedGen b"
  "confirmedTenants (offer_all m chs b) = confirmedTenants b" "confirmedAll (offer_all m chs b) = confirmedAll b"
  "subWakeCh (offer_all m chs b) = subWakeCh b"
  by (induction m chs b rule: offer_all.induct) simp_all

text \<open>The operations that leave the wanted, confirmed and subscriber state alone.\<close>

definition same_books :: "bus \<Rightarrow> bus \<Rightarrow> bool" where
  "same_books b b' \<longleftrightarrow> tenantSubscribers b' = tenantSubscribers b \<and> allSubscribers b' = allSubscribers b
     \<and> subRefCounts b' = subRefCounts b \<and> subscribeAllRefCount b' = subscribeAllRefCount b
     \<and> desiredGen b' = desiredGen b \<and> confirmedGen b' = confirmedGen b \<and> confirmedTenants b' = confirmedTenants b
     \<and> confirmedAll b' = confirmedAll b \<and> subWakeCh b' = subWakeCh b"

lemma same_books_OnMessage: "same_books b (OnMessage m ch p b)"
  by (auto simp: same_books_def OnMessage_def fanOutAll_def fanOutTenant_def split: option.splits)

lemma same_books_Publish: "same_books b (fst (Publish now m r b))"
  by (auto simp: same_books_def Publish_def inRecoveryEpisode_def Let_def split: publish_reply.splits)

lemma same_books_inv:
  assumes "same_books (bus_of s) b'"
  shows "count_inv (s\<lparr>bus_of := b'\<rparr>) = count_inv s" "count_all_inv (s\<lparr>bus_of := b'\<rparr>) = count_all_inv s"
    "gen_inv (s\<lparr>bus_of := b'\<rparr>) = gen_inv s" "wake_inv (s\<lparr>bus_of := b'\<rparr>) = wake_inv s"
  using assms
  by (auto simp: same_books_def count_inv_def count_all_inv_def gen_inv_def wake_inv_def ref_count_def matching_def Let_def
      split: loop_phase.splits)

lemmas bus_op_defs = sub_append_def sub_count_def unsub_remove_def unsub_count_def suball_append_def suball_count_def
  unsuball_remove_def unsuball_count_def signalSubscriptionChange_def noteDesiredChangedLocked_def signals_def Let_def

lemma count_inv_slice: "count_inv s \<Longrightarrow> finite {c. (u, c) \<in> inSub s}"
  by (rule finite_surj [of "inSub s" _ snd]) (auto simp: count_inv_def intro: rev_image_eqI)

lemma count_inv_nonneg: "count_inv s \<Longrightarrow> 0 \<le> ref_count (bus_of s) t"
  by (cases "subRefCounts (bus_of s) t") (auto simp: count_inv_def ref_count_def less_imp_le)

lemma count_inv_sub_enter:
  assumes "count_inv s" and "fresh_chan ch (bus_of s)"
  shows "count_inv (s\<lparr>bus_of := sub_append t ch (bus_of s), inSub := insert (t, ch) (inSub s)\<rparr>)"
proof -
  have new: "(t, ch) \<notin> inSub s" using assms by (auto simp: count_inv_def fresh_chan_def)
  note fin = count_inv_slice [OF assms(1)]
  have c: "{c. u = t \<and> c = ch \<or> (u, c) \<in> inSub s}
      = (if u = t then insert ch {c. (t, c) \<in> inSub s} else {c. (u, c) \<in> inSub s})" for u by auto
  show ?thesis using assms new fin
    by (auto simp: count_inv_def c ref_count_def sub_append_def fresh_chan_def)
qed

lemma count_inv_sub_ref:
  assumes "count_inv s" and "(t, ch) \<in> inSub s" and "sub_count t (bus_of s) = (b', first)"
  shows "count_inv (s\<lparr>bus_of := b', inSub := inSub s - {(t, ch)}, toSignal := n\<rparr>)"
proof -
  note fin = count_inv_slice [OF assms(1)]
  have c: "{c. (u, c) \<in> inSub s \<and> (u = t \<longrightarrow> c \<noteq> ch)}
      = (if u = t then {c. (t, c) \<in> inSub s} - {ch} else {c. (u, c) \<in> inSub s})" for u by auto
  have "card ({c. (t, c) \<in> inSub s} - {ch}) = card {c. (t, c) \<in> inSub s} - 1"
    "0 < card {c. (t, c) \<in> inSub s}"
    using assms(2) fin [of t] by (auto simp: card_gt_0_iff)
  moreover have "subRefCounts b' = (subRefCounts (bus_of s))(t \<mapsto> ref_count (bus_of s) t + 1)"
    "tenantSubscribers b' = tenantSubscribers (bus_of s)"
    using assms(3) by (auto simp: bus_op_defs ref_count_def split: if_splits)
  moreover note count_inv_nonneg [OF assms(1), of t]
  ultimately show ?thesis using assms(1)
    by (auto simp: count_inv_def c ref_count_def)
qed

lemma count_inv_unsub_enter:
  assumes "count_inv s" and "(t, ch) \<notin> inSub s" and "unsub_remove t ch (bus_of s) = (b', True)"
  shows "count_inv (s\<lparr>bus_of := b', inUnsub := (inUnsub s)(t := inUnsub s t + 1)\<rparr>)"
proof -
  have b': "b' = (bus_of s)\<lparr>tenantSubscribers := (tenantSubscribers (bus_of s))(t := remove1 ch (tenantSubscribers (bus_of s) t))\<rparr>"
    and m: "ch \<in> set (tenantSubscribers (bus_of s) t)"
    using assms(3) by (auto simp: unsub_remove_def split: if_splits)
  from m have "int (length (remove1 ch (tenantSubscribers (bus_of s) t))) = int (length (tenantSubscribers (bus_of s) t)) - 1"
    using length_pos_if_in_set [OF m] by (simp add: length_remove1 of_nat_diff Suc_leI del: length_greater_0_conv)
  then show ?thesis using assms(1,2) by (auto simp: count_inv_def ref_count_def b')
qed

lemma count_inv_unsub_ref:
  assumes "count_inv s" and "0 < inUnsub s t" and "unsub_count t (bus_of s) = (b', isLast)"
  shows "count_inv (s\<lparr>bus_of := b', inUnsub := (inUnsub s)(t := inUnsub s t - 1), toSignal := n\<rparr>)"
proof -
  have "card {ch. (t, ch) \<in> inSub s} \<le> card (set (tenantSubscribers (bus_of s) t))"
    using assms(1) by (intro card_mono) (auto simp: count_inv_def)
  moreover have "card (set (tenantSubscribers (bus_of s) t)) = length (tenantSubscribers (bus_of s) t)"
    using assms(1) by (auto simp: count_inv_def distinct_card)
  moreover have eq: "int (card {ch. (t, ch) \<in> inSub s}) + ref_count (bus_of s) t
            = int (length (tenantSubscribers (bus_of s) t)) + int (inUnsub s t)"
    using assms(1) by (simp add: count_inv_def)
  ultimately have pos: "0 < ref_count (bus_of s) t" using assms(2) by linarith
  have b': "subRefCounts b' = (subRefCounts (bus_of s))(t := if ref_count (bus_of s) t = 1 then None else Some (ref_count (bus_of s) t - 1))"
    "tenantSubscribers b' = tenantSubscribers (bus_of s)"
    using assms(3) by (auto simp: bus_op_defs ref_count_def split: if_splits)
  then have r: "ref_count b' u = (if u = t then ref_count (bus_of s) t - 1 else ref_count (bus_of s) u)" for u
    by (simp add: ref_count_def)
  have "int (card {ch. (u, ch) \<in> inSub s}) + ref_count b' u
      = int (length (tenantSubscribers b' u)) + int (((inUnsub s)(t := inUnsub s t - 1)) u)" for u
    using assms(1,2) eq by (cases "u = t") (simp_all add: r b'(2) count_inv_def of_nat_diff Suc_leI)
  moreover have "0 < m" if "subRefCounts b' u = Some m" for u m
    using that assms(1) pos by (auto simp: b'(1) count_inv_def split: if_splits)
  ultimately show ?thesis using assms(1) b'(2) by (simp add: count_inv_def)
qed

lemma count_all_suball_enter:
  assumes "count_all_inv s" and "fresh_chan ch (bus_of s)"
  shows "count_all_inv (s\<lparr>bus_of := suball_append n ch (bus_of s), inSubAll := insert ch (inSubAll s)\<rparr>)"
proof -
  have "finite (inSubAll s)" "ch \<notin> inSubAll s" using assms
    by (auto simp: count_all_inv_def fresh_chan_def intro: finite_subset)
  with assms show ?thesis by (auto simp: count_all_inv_def fresh_chan_def suball_append_def)
qed

lemma count_all_suball_ref:
  assumes "count_all_inv s" and "ch \<in> inSubAll s" and "suball_count (bus_of s) = (b', first)"
  shows "count_all_inv (s\<lparr>bus_of := b', inSubAll := inSubAll s - {ch}, toSignal := n\<rparr>)"
proof -
  have fin: "finite (inSubAll s)" using assms by (auto simp: count_all_inv_def intro: finite_subset)
  then have "int (card (inSubAll s - {ch})) = int (card (inSubAll s)) - 1"
    using assms(2) card_Suc_Diff1 [OF fin assms(2)] by linarith
  with assms show ?thesis by (auto simp: count_all_inv_def bus_op_defs split: if_splits)
qed

lemma count_all_unsuball_enter:
  assumes "count_all_inv s" and "ch \<notin> inSubAll s" and "unsuball_remove ch (bus_of s) = (b', True)"
  shows "count_all_inv (s\<lparr>bus_of := b', inUnsubAll := inUnsubAll s + 1\<rparr>)"
proof -
  have m: "ch \<in> set (allSubscribers (bus_of s))" and b': "b' = (bus_of s)\<lparr>allSubscribers := remove1 ch (allSubscribers (bus_of s))\<rparr>"
    using assms(3) by (auto simp: unsuball_remove_def split: if_splits)
  have "int (length (remove1 ch (allSubscribers (bus_of s)))) = int (length (allSubscribers (bus_of s))) - 1"
    using length_pos_if_in_set [OF m] m by (simp add: length_remove1 of_nat_diff Suc_leI del: length_greater_0_conv)
  with assms b' show ?thesis by (auto simp: count_all_inv_def)
qed

lemma count_all_unsuball_ref:
  assumes "count_all_inv s" and "0 < inUnsubAll s" and "unsuball_count (bus_of s) = (b', isLast)"
  shows "count_all_inv (s\<lparr>bus_of := b', inUnsubAll := inUnsubAll s - 1, toSignal := n\<rparr>)"
  using assms by (auto simp: count_all_inv_def bus_op_defs of_nat_diff Suc_leI split: if_splits)

lemma count_all_nonneg:
  assumes "count_all_inv s" shows "int (inUnsubAll s) \<le> subscribeAllRefCount (bus_of s)"
proof -
  have "card (inSubAll s) \<le> card (set (allSubscribers (bus_of s)))"
    using assms by (intro card_mono) (auto simp: count_all_inv_def)
  with assms show ?thesis by (auto simp: count_all_inv_def distinct_card)
qed

definition bus_inv :: "bus_sys \<Rightarrow> bool" where
  "bus_inv s \<longleftrightarrow> count_inv s \<and> count_all_inv s \<and> gen_inv s \<and> wake_inv s"

lemma bus_inv_start: "bus_inv (bus_start (newValkeyBus prefix n w now))"
  by (simp add: bus_inv_def bus_start_def newValkeyBus_def count_inv_def count_all_inv_def gen_inv_def wake_inv_def
      ref_count_def matching_def)

text \<open>The changes of the wanted set, each with its generation and its signal.\<close>

definition wanted_change :: "bus \<Rightarrow> bus \<Rightarrow> bool \<Rightarrow> bool" where
  "wanted_change b b' sig \<longleftrightarrow> confirmedGen b' = confirmedGen b \<and> confirmedTenants b' = confirmedTenants b
     \<and> confirmedAll b' = confirmedAll b \<and> subWakeCh b' = subWakeCh b
     \<and> (if sig then desiredGen b' = desiredGen b + 1
        else desiredGen b' = desiredGen b \<and> dom (subRefCounts b') = dom (subRefCounts b)
             \<and> (subscribeAllRefCount b' > 0) = (subscribeAllRefCount b > 0))"

lemma gen_inv_wanted:
  assumes "gen_inv s" and "wanted_change (bus_of s) (bus_of s') sig" and "loop s' = loop s"
  shows "gen_inv s'"
proof (cases sig)
  case True
  with assms show ?thesis
    by (cases "loop s") (simp_all add: gen_inv_def wanted_change_def Let_def)
next
  case False
  then have "matching (bus_of s') = matching (bus_of s)" using assms(2) by (simp add: wanted_change_def matching_def)
  with False assms show ?thesis
    by (cases "loop s") (simp_all add: gen_inv_def wanted_change_def Let_def)
qed

lemma wake_inv_wanted:
  assumes "wake_inv s" and "wanted_change (bus_of s) (bus_of s') sig" and "loop s' = loop s"
    and "toSignal s' = toSignal s + signals sig" and "retryArmed s' = retryArmed s"
  shows "wake_inv s'"
proof (cases sig)
  case True
  with assms show ?thesis by (cases "loop s") (simp_all add: wake_inv_def signals_def Let_def)
next
  case False
  with assms show ?thesis
    by (cases "loop s") (simp_all add: wake_inv_def wanted_change_def signals_def Let_def)
qed

lemma wanted_sub_count:
  assumes "sub_count t b = (b', first)" and "\<forall>n. subRefCounts b t = Some n \<longrightarrow> 0 < n"
  shows "wanted_change b b' first"
proof (cases "subRefCounts b t")
  case None
  with assms(1) show ?thesis by (auto simp: wanted_change_def bus_op_defs)
next
  case (Some n)
  with assms show ?thesis by (auto simp: wanted_change_def bus_op_defs split: if_splits)
qed

lemma wanted_unsub_count:
  assumes "unsub_count t b = (b', isLast)" and "0 < ref_count b t"
  shows "wanted_change b b' isLast"
proof (cases "subRefCounts b t")
  case None
  with assms(2) show ?thesis by (simp add: ref_count_def)
next
  case (Some n)
  with assms show ?thesis by (auto simp: wanted_change_def bus_op_defs split: if_splits)
qed

lemma wanted_all_count:
  "suball_count b = (b', first) \<Longrightarrow> 0 \<le> subscribeAllRefCount b \<Longrightarrow> wanted_change b b' first"
  "unsuball_count b = (b', isLast) \<Longrightarrow> 0 < subscribeAllRefCount b \<Longrightarrow> wanted_change b b' isLast"
  by (auto simp: wanted_change_def bus_op_defs split: if_splits)

lemma wanted_none:
  "wanted_change b (sub_append t ch b) False" "wanted_change b (suball_append n ch b) False"
  "unsub_remove t ch b = (b', f) \<Longrightarrow> wanted_change b b' False"
  "unsuball_remove ch b = (b', f) \<Longrightarrow> wanted_change b b' False"
  by (auto simp: wanted_change_def bus_op_defs split: if_splits)

lemma gen_inv_issue:
  assumes "gen_inv s" and "loop s = Passing gen d w" and "\<And>c. exec c \<noteq> CtxDone"
    and "confirmedTenants (bus_of s) \<union> set d \<subseteq> set keys"
    and "p = converge_commands exec d keys w (bus_of s)"
  shows "gen_inv (s\<lparr>bus_of := converge_apply p (bus_of s), loop := Issued gen (pass_ok p)\<rparr>)"
proof -
  have ok: "pass_ok p \<Longrightarrow> conf p = set d \<and> conf_all p = w"
    using converge_commands_ok [OF assms(3,4,5)] by simp
  have g: "confirmedGen (bus_of s) \<le> gen" "gen \<le> desiredGen (bus_of s)"
     "gen = desiredGen (bus_of s) \<Longrightarrow> set d = dom (subRefCounts (bus_of s)) \<and> w = (subscribeAllRefCount (bus_of s) > 0)"
     "confirmedGen (bus_of s) = desiredGen (bus_of s) \<Longrightarrow> matching (bus_of s)"
    using assms(1,2) by (auto simp: gen_inv_def Let_def)
  have nop: "converge_apply p (bus_of s) = bus_of s" if "confirmedGen (bus_of s) = desiredGen (bus_of s)"
    using g that converge_commands_nop [of "bus_of s" d w] by (auto simp: assms(5) matching_def)
  have "matching (converge_apply p (bus_of s))" if "confirmedGen (bus_of s) = desiredGen (bus_of s)"
    using nop g(4) that by simp
  moreover have "matching (converge_apply p (bus_of s))" if "pass_ok p" "gen = desiredGen (bus_of s)"
    using ok g(3) that by (simp add: matching_def converge_apply_def)
  ultimately show ?thesis using g(1,2) by (simp add: gen_inv_def Let_def converge_apply_def)
qed

text \<open>The steps of the loop.\<close>

lemma bus_inv_loop:
  assumes "bus_inv s"
  shows "loop s = Waiting \<Longrightarrow> bus_inv (s\<lparr>bus_of := reinit_wipe (bus_of s), loop := Wiped\<rparr>)"
    and "loop s = Wiped \<Longrightarrow> bus_inv (s\<lparr>bus_of := reinit_bump now (bus_of s), loop := Ready\<rparr>)"
    and "loop s = Waiting \<Longrightarrow> bus_inv (s\<lparr>bus_of := (bus_of s)\<lparr>subWakeCh := False\<rparr>, loop := Ready\<rparr>)"
    and "loop s = Waiting \<Longrightarrow> bus_inv (s\<lparr>retryArmed := False, loop := Ready\<rparr>)"
    and "loop s = Waiting \<Longrightarrow> bus_inv (s\<lparr>loop := Ready\<rparr>)"
    and "loop s = Ready \<Longrightarrow> set d = dom (subRefCounts (bus_of s)) \<Longrightarrow>
       bus_inv (s\<lparr>loop := Passing (desiredGen (bus_of s)) d (subscribeAllRefCount (bus_of s) > 0)\<rparr>)"
    and "loop s = Issued gen ok \<Longrightarrow>
       bus_inv (s\<lparr>bus_of := converge_finish gen ok (bus_of s), loop := Waiting, retryArmed := \<not> ok\<rparr>)"
  using assms
  by (simp_all add: bus_inv_def count_inv_def count_all_inv_def gen_inv_def wake_inv_def ref_count_def matching_def Let_def
      reinit_wipe_def reinit_bump_def updateEstablished_def armDisruptionEpisode_def converge_finish_def clearDisruptionEpisode_def)

lemma bus_inv_issue:
  assumes "bus_inv s" and "loop s = Passing gen d w" and "\<And>c. exec c \<noteq> CtxDone"
    and "confirmedTenants (bus_of s) \<union> set d \<subseteq> set keys"
    and "p = converge_commands exec d keys w (bus_of s)"
  shows "bus_inv (s\<lparr>bus_of := converge_apply p (bus_of s), loop := Issued gen (pass_ok p)\<rparr>)"
  using gen_inv_issue [OF _ assms(2-5)] assms(1,2)
  by (simp add: bus_inv_def count_inv_def count_all_inv_def wake_inv_def ref_count_def converge_apply_def Let_def)

lemma count_frame:
  "suball_count b = (b', f) \<Longrightarrow> tenantSubscribers b' = tenantSubscribers b \<and> subRefCounts b' = subRefCounts b"
  "unsuball_count b = (b', f) \<Longrightarrow> tenantSubscribers b' = tenantSubscribers b \<and> subRefCounts b' = subRefCounts b"
  "unsuball_remove ch b = (b', f) \<Longrightarrow> tenantSubscribers b' = tenantSubscribers b \<and> subRefCounts b' = subRefCounts b"
  "sub_count t b = (b', f) \<Longrightarrow> allSubscribers b' = allSubscribers b \<and> subscribeAllRefCount b' = subscribeAllRefCount b"
  "unsub_count t b = (b', f) \<Longrightarrow> allSubscribers b' = allSubscribers b \<and> subscribeAllRefCount b' = subscribeAllRefCount b"
  "unsub_remove t ch b = (b', f) \<Longrightarrow> allSubscribers b' = allSubscribers b \<and> subscribeAllRefCount b' = subscribeAllRefCount b"
  by (auto simp: bus_op_defs split: if_splits)

lemma count_inv_ref_pos:
  assumes "count_inv s" and "0 < inUnsub s t"
  shows "0 < ref_count (bus_of s) t"
proof -
  have "card {ch. (t, ch) \<in> inSub s} \<le> card (set (tenantSubscribers (bus_of s) t))"
    using assms(1) by (intro card_mono) (auto simp: count_inv_def)
  moreover have "card (set (tenantSubscribers (bus_of s) t)) = length (tenantSubscribers (bus_of s) t)"
    using assms(1) by (auto simp: count_inv_def distinct_card)
  moreover have "int (card {ch. (t, ch) \<in> inSub s}) + ref_count (bus_of s) t
            = int (length (tenantSubscribers (bus_of s) t)) + int (inUnsub s t)"
    using assms(1) by (simp add: count_inv_def)
  ultimately show ?thesis using assms(2) by linarith
qed

lemma bus_inv_wanted:
  assumes "bus_inv s" and "wanted_change (bus_of s) (bus_of s') sig" and "loop s' = loop s"
    and "toSignal s' = toSignal s + signals sig" and "retryArmed s' = retryArmed s" and "count_inv s'" and "count_all_inv s'"
  shows "bus_inv s'"
  using assms gen_inv_wanted [OF _ assms(2,3)] wake_inv_wanted [OF _ assms(2-5)] by (simp add: bus_inv_def)

lemma bus_inv_clients:
  assumes inv: "bus_inv s"
  shows "fresh_chan ch (bus_of s) \<Longrightarrow>
      bus_inv (s\<lparr>bus_of := sub_append t ch (bus_of s), inSub := insert (t, ch) (inSub s)\<rparr>)"
    and "(t, ch) \<in> inSub s \<Longrightarrow> sub_count t (bus_of s) = (b', f) \<Longrightarrow>
      bus_inv (s\<lparr>bus_of := b', inSub := inSub s - {(t, ch)}, toSignal := toSignal s + signals f\<rparr>)"
    and "(t, ch) \<notin> inSub s \<Longrightarrow> unsub_remove t ch (bus_of s) = (b', True) \<Longrightarrow>
      bus_inv (s\<lparr>bus_of := b', inUnsub := (inUnsub s)(t := inUnsub s t + 1)\<rparr>)"
    and "0 < inUnsub s t \<Longrightarrow> unsub_count t (bus_of s) = (b', f) \<Longrightarrow>
      bus_inv (s\<lparr>bus_of := b', inUnsub := (inUnsub s)(t := inUnsub s t - 1), toSignal := toSignal s + signals f\<rparr>)"
proof -
  have c: "count_inv s" "count_all_inv s" using inv by (simp_all add: bus_inv_def)
  then have pos: "\<forall>n. subRefCounts (bus_of s) u = Some n \<longrightarrow> 0 < n" for u by (simp add: count_inv_def)
  show "bus_inv (s\<lparr>bus_of := sub_append t ch (bus_of s), inSub := insert (t, ch) (inSub s)\<rparr>)" if "fresh_chan ch (bus_of s)"
    by (rule bus_inv_wanted [OF inv, where sig = False])
       (use c that in \<open>simp_all add: count_inv_sub_enter wanted_none signals_def, simp add: count_all_inv_def sub_append_def\<close>)
  show "bus_inv (s\<lparr>bus_of := b', inSub := inSub s - {(t, ch)}, toSignal := toSignal s + signals f\<rparr>)"
    if "(t, ch) \<in> inSub s" "sub_count t (bus_of s) = (b', f)"
    by (rule bus_inv_wanted [OF inv, where sig = f])
       (use c that pos count_frame(4) [OF that(2)] in
         \<open>simp_all add: count_inv_sub_ref wanted_sub_count, simp add: count_all_inv_def\<close>)
  show "bus_inv (s\<lparr>bus_of := b', inUnsub := (inUnsub s)(t := inUnsub s t + 1)\<rparr>)"
    if "(t, ch) \<notin> inSub s" "unsub_remove t ch (bus_of s) = (b', True)"
    by (rule bus_inv_wanted [OF inv, where sig = False])
       (use c that count_inv_unsub_enter [OF c(1) that] count_frame(6) [OF that(2)] wanted_none(3) [OF that(2)] in
         \<open>simp_all add: signals_def count_all_inv_def\<close>)
  show "bus_inv (s\<lparr>bus_of := b', inUnsub := (inUnsub s)(t := inUnsub s t - 1), toSignal := toSignal s + signals f\<rparr>)"
    if "0 < inUnsub s t" "unsub_count t (bus_of s) = (b', f)"
    by (rule bus_inv_wanted [OF inv, where sig = f])
       (use c that count_inv_unsub_ref [OF c(1) that] count_frame(5) [OF that(2)]
          wanted_unsub_count [OF that(2) count_inv_ref_pos [OF c(1) that(1)]] in \<open>simp_all add: count_all_inv_def\<close>)
qed

lemma bus_inv_clients_all:
  assumes inv: "bus_inv s"
  shows "fresh_chan ch (bus_of s) \<Longrightarrow>
      bus_inv (s\<lparr>bus_of := suball_append n ch (bus_of s), inSubAll := insert ch (inSubAll s)\<rparr>)"
    and "ch \<in> inSubAll s \<Longrightarrow> suball_count (bus_of s) = (b', f) \<Longrightarrow>
      bus_inv (s\<lparr>bus_of := b', inSubAll := inSubAll s - {ch}, toSignal := toSignal s + signals f\<rparr>)"
    and "ch \<notin> inSubAll s \<Longrightarrow> unsuball_remove ch (bus_of s) = (b', True) \<Longrightarrow>
      bus_inv (s\<lparr>bus_of := b', inUnsubAll := inUnsubAll s + 1\<rparr>)"
    and "0 < inUnsubAll s \<Longrightarrow> unsuball_count (bus_of s) = (b', f) \<Longrightarrow>
      bus_inv (s\<lparr>bus_of := b', inUnsubAll := inUnsubAll s - 1, toSignal := toSignal s + signals f\<rparr>)"
proof -
  have c: "count_inv s" "count_all_inv s" using inv by (simp_all add: bus_inv_def)
  note nn = count_all_nonneg [OF c(2)]
  show "bus_inv (s\<lparr>bus_of := suball_append n ch (bus_of s), inSubAll := insert ch (inSubAll s)\<rparr>)" if "fresh_chan ch (bus_of s)"
    by (rule bus_inv_wanted [OF inv, where sig = False])
       (use c that in \<open>simp_all add: count_all_suball_enter wanted_none signals_def,
          simp add: count_inv_def ref_count_def suball_append_def\<close>)
  show "bus_inv (s\<lparr>bus_of := b', inSubAll := inSubAll s - {ch}, toSignal := toSignal s + signals f\<rparr>)"
    if "ch \<in> inSubAll s" "suball_count (bus_of s) = (b', f)"
    by (rule bus_inv_wanted [OF inv, where sig = f])
       (use c that nn count_frame(1) [OF that(2)] count_all_suball_ref [OF c(2) that] wanted_all_count(1) [OF that(2)] in
         \<open>simp_all add: count_inv_def ref_count_def\<close>)
  show "bus_inv (s\<lparr>bus_of := b', inUnsubAll := inUnsubAll s + 1\<rparr>)"
    if "ch \<notin> inSubAll s" "unsuball_remove ch (bus_of s) = (b', True)"
    by (rule bus_inv_wanted [OF inv, where sig = False])
       (use c that count_all_unsuball_enter [OF c(2) that] count_frame(3) [OF that(2)] wanted_none(4) [OF that(2)] in
         \<open>simp_all add: signals_def count_inv_def ref_count_def\<close>)
  show "bus_inv (s\<lparr>bus_of := b', inUnsubAll := inUnsubAll s - 1, toSignal := toSignal s + signals f\<rparr>)"
    if "0 < inUnsubAll s" "unsuball_count (bus_of s) = (b', f)"
    by (rule bus_inv_wanted [OF inv, where sig = f])
       (use c that nn count_all_unsuball_ref [OF c(2) that] count_frame(2) [OF that(2)] wanted_all_count(2) [OF that(2)] in
         \<open>simp_all add: count_inv_def ref_count_def\<close>)
qed

lemma bus_inv_signal:
  "bus_inv s \<Longrightarrow> bus_inv (s\<lparr>bus_of := signalSubscriptionChange (bus_of s), toSignal := toSignal s - 1\<rparr>)"
  by (cases "loop s") (simp_all add: bus_inv_def count_inv_def count_all_inv_def gen_inv_def wake_inv_def ref_count_def
      matching_def signalSubscriptionChange_def Let_def)

lemma bus_inv_same: "bus_inv s \<Longrightarrow> same_books (bus_of s) b' \<Longrightarrow> bus_inv (s\<lparr>bus_of := b'\<rparr>)"
  by (simp add: bus_inv_def same_books_inv)

lemma bus_inv_step: "bus_step s s' \<Longrightarrow> bus_inv s \<Longrightarrow> bus_inv s'"
  by (induction rule: bus_step.induct)
     (rule bus_inv_clients bus_inv_clients_all bus_inv_signal bus_inv_loop bus_inv_issue
        bus_inv_same [OF _ same_books_OnMessage] bus_inv_same [OF _ same_books_Publish]; assumption)+

lemma bus_reachable_inv: "bus_reachable s \<Longrightarrow> bus_inv s"
  by (induction rule: bus_reachable.induct) (auto intro: bus_inv_start bus_inv_step)

section \<open>Properties\<close>

text \<open>C33: No subscription is lost: whatever subscribers came and went, whatever commands failed and
  connections dropped in the meantime, once nothing is in flight (no operation half done, no
  wake-up pending, no retry armed, the loop waiting) the Valkey subscriptions of the instance are
  exactly those of the tenants that have a subscriber, and the pattern subscription exists
  exactly when it has one.\<close>

theorem bus_no_lost_subscription:
  assumes "bus_reachable s" and "loop s = Waiting" and "\<not> subWakeCh (bus_of s)" and "toSignal s = 0"
    and "\<not> retryArmed s" and "inSub s = {}" and "\<And>t. inUnsub s t = 0" and "inSubAll s = {}" and "inUnsubAll s = 0"
  shows "confirmedTenants (bus_of s) = {t. tenantSubscribers (bus_of s) t \<noteq> []}
     \<and> confirmedAll (bus_of s) = (allSubscribers (bus_of s) \<noteq> [])"
proof -
  have inv: "count_inv s" "count_all_inv s" "gen_inv s" "wake_inv s"
    using bus_reachable_inv [OF assms(1)] by (simp_all add: bus_inv_def)
  have "confirmedGen (bus_of s) = desiredGen (bus_of s)" using inv(4) assms by (simp add: wake_inv_def Let_def)
  then have m: "matching (bus_of s)" using inv(3) assms(2) by (simp add: gen_inv_def Let_def)
  have "ref_count (bus_of s) t = int (length (tenantSubscribers (bus_of s) t))" for t
    using inv(1) assms(6,7) by (simp add: count_inv_def)
  moreover have "t \<in> dom (subRefCounts (bus_of s)) \<longleftrightarrow> 0 < ref_count (bus_of s) t" for t
    using inv(1) by (auto simp: count_inv_def ref_count_def split: option.splits)
  moreover have "subscribeAllRefCount (bus_of s) = int (length (allSubscribers (bus_of s)))"
    using inv(2) assms(8,9) by (simp add: count_all_inv_def)
  ultimately show ?thesis using m by (auto simp: matching_def)
qed

text \<open>The health signal is sound while the loop is not re-initialising: if the generations agree,
  the confirmed subscriptions are the wanted ones, also in the middle of a pass.\<close>

theorem bus_converged_sound:
  assumes "bus_reachable s" and "loop s \<noteq> Wiped" and "subscriptionsConverged (bus_of s)"
  shows "confirmedTenants (bus_of s) = dom (subRefCounts (bus_of s))
     \<and> confirmedAll (bus_of s) = (subscribeAllRefCount (bus_of s) > 0)"
  using bus_reachable_inv [OF assms(1)] assms(2,3)
  by (simp add: bus_inv_def gen_inv_def subscriptionsConverged_def matching_def Let_def)

definition demo_bus :: bus where
  "demo_bus = newValkeyBus ''ws'' 8 1000 0"

text \<open>One tenant subscribed and confirmed.\<close>

definition demo_entered :: bus where
  "demo_entered = sub_append ''acme'' 1 demo_bus"

definition demo_counted :: bus where
  "demo_counted = fst (sub_count ''acme'' demo_entered)"

definition demo_issued :: bus where
  "demo_issued = demo_counted\<lparr>subWakeCh := False, confirmedTenants := {''acme''}\<rparr>"

definition demo_settled :: bus where
  "demo_settled = converge_finish 1 True demo_issued"

lemmas demo_bus_defs = demo_settled_def demo_issued_def demo_counted_def demo_entered_def demo_bus_def
  newValkeyBus_def bus_start_def bus_op_defs converge_finish_def updateEstablished_def clearDisruptionEpisode_def

lemma demo_reachable: "bus_reachable (bus_start demo_settled)"
proof -
  let ?s = "\<lambda>b l i k. (bus_start b)\<lparr>loop := l, inSub := i, toSignal := k\<rparr>"
  have sep: "\<not> Contains ''acme'' valkeyChannelSeparator"
    by (simp add: Contains_def valkeyChannelSeparator_def Cut.simps HasPrefix_def)
  have 0: "bus_reachable (bus_start demo_bus)" unfolding demo_bus_def by (rule bus_reachable.start)
  have "bus_step (bus_start demo_bus) (?s demo_entered Waiting {(''acme'', 1)} 0)"
    using sub_enter [of "''acme''" 1 "bus_start demo_bus"] sep
    by (simp add: fresh_chan_def demo_bus_defs)
  with 0 have 1: "bus_reachable (?s demo_entered Waiting {(''acme'', 1)} 0)" by (rule bus_reachable.step)
  have "bus_step (?s demo_entered Waiting {(''acme'', 1)} 0) (?s demo_counted Waiting {} 1)"
    using sub_ref [of "''acme''" 1 "?s demo_entered Waiting {(''acme'', 1)} 0" demo_counted True]
    by (simp add: demo_bus_defs)
  with 1 have 2: "bus_reachable (?s demo_counted Waiting {} 1)" by (rule bus_reachable.step)
  have "bus_step (?s demo_counted Waiting {} 1) (?s (demo_counted\<lparr>subWakeCh := True\<rparr>) Waiting {} 0)"
    using signal [of "?s demo_counted Waiting {} 1"] by (simp add: bus_start_def signalSubscriptionChange_def)
  with 2 have 3: "bus_reachable (?s (demo_counted\<lparr>subWakeCh := True\<rparr>) Waiting {} 0)" by (rule bus_reachable.step)
  have "bus_step (?s (demo_counted\<lparr>subWakeCh := True\<rparr>) Waiting {} 0) (?s (demo_counted\<lparr>subWakeCh := False\<rparr>) Ready {} 0)"
    using woken [of "?s (demo_counted\<lparr>subWakeCh := True\<rparr>) Waiting {} 0"] by (simp add: bus_start_def)
  with 3 have 4: "bus_reachable (?s (demo_counted\<lparr>subWakeCh := False\<rparr>) Ready {} 0)" by (rule bus_reachable.step)
  have "bus_step (?s (demo_counted\<lparr>subWakeCh := False\<rparr>) Ready {} 0)
      (?s (demo_counted\<lparr>subWakeCh := False\<rparr>) (Passing 1 [''acme''] False) {} 0)"
    using snapshot [of "?s (demo_counted\<lparr>subWakeCh := False\<rparr>) Ready {} 0" "[''acme'']"] by (simp add: demo_bus_defs)
  with 4 have 5: "bus_reachable (?s (demo_counted\<lparr>subWakeCh := False\<rparr>) (Passing 1 [''acme''] False) {} 0)"
    by (rule bus_reachable.step)
  have "bus_step (?s (demo_counted\<lparr>subWakeCh := False\<rparr>) (Passing 1 [''acme''] False) {} 0) (?s demo_issued (Issued 1 True) {} 0)"
    using issue [of "?s (demo_counted\<lparr>subWakeCh := False\<rparr>) (Passing 1 [''acme''] False) {} 0" 1 "[''acme'']" False
        "\<lambda>_. CmdOK" "[''acme'']", OF _ _ _ refl]
    by (simp add: demo_bus_defs converge_apply_def converge_commands_def subscribe_pattern_def)
  with 5 have 6: "bus_reachable (?s demo_issued (Issued 1 True) {} 0)" by (rule bus_reachable.step)
  have "bus_step (?s demo_issued (Issued 1 True) {} 0) (bus_start demo_settled)"
    using finish [of "?s demo_issued (Issued 1 True) {} 0" 1 True] by (simp add: demo_settled_def bus_start_def)
  with 6 show ?thesis by (rule bus_reachable.step)
qed

theorem bus_no_lost_subscription_witness:
  "confirmedTenants demo_settled = {t. tenantSubscribers demo_settled t \<noteq> []}
     \<and> confirmedAll demo_settled = (allSubscribers demo_settled \<noteq> [])"
proof -
  have "\<not> subWakeCh demo_settled" by (simp add: demo_bus_defs)
  then show ?thesis using bus_no_lost_subscription [OF demo_reachable] by (simp add: bus_start_def)
qed

theorem bus_converged_sound_witness:
  "subscriptionsConverged demo_settled \<and> confirmedTenants demo_settled = dom (subRefCounts demo_settled)
     \<and> confirmedAll demo_settled = (subscribeAllRefCount demo_settled > 0)"
  using bus_converged_sound [OF demo_reachable]
  by (simp add: bus_start_def) (simp add: subscriptionsConverged_def demo_bus_defs)

text \<open>The signal is unsound for a moment: after a lost connection the confirmed state is wiped
  before the generation moves, and in between the bus reports convergence although no wanted
  subscription exists.\<close>

theorem bus_converged_window:
  "\<exists>s. bus_reachable s \<and> IsHealthy (bus_of s) \<and> confirmedTenants (bus_of s) = {}
     \<and> dom (subRefCounts (bus_of s)) = {''acme''}"
proof -
  let ?s = "(bus_start demo_settled)\<lparr>bus_of := reinit_wipe demo_settled, loop := Wiped\<rparr>"
  have "bus_step (bus_start demo_settled) ?s"
    using disconnected [of "bus_start demo_settled"] by (simp add: bus_start_def)
  with demo_reachable have "bus_reachable ?s" by (rule bus_reachable.step)
  moreover have "IsHealthy (bus_of ?s) \<and> confirmedTenants (bus_of ?s) = {} \<and> dom (subRefCounts (bus_of ?s)) = {''acme''}"
    by (simp add: IsHealthy_def subscriptionsConverged_def reinit_wipe_def demo_bus_defs)
  ultimately show ?thesis by blast
qed

lemma offer_all_buf:
  "distinct chs \<Longrightarrow> chan_cap (offer_all m chs b) = chan_cap b \<and>
     chan_buf (offer_all m chs b) ch =
       (if ch \<in> set chs \<and> length (chan_buf b ch) < chan_cap b ch then chan_buf b ch @ [m] else chan_buf b ch)"
  by (induction m chs b rule: offer_all.induct) auto

text \<open>A message that arrives on the Valkey channel of a tenant is put into the buffers of that
  tenant's subscribers that have room and into no other buffer, under the tenant of the channel
  whatever tenant the message claims.\<close>

theorem bus_delivery_isolated:
  assumes "distinct (tenantSubscribers b t)" and "t \<noteq> []"
  shows "chan_buf (OnMessage (Some msg) (tenantChannel (channelPrefix b) t) [] b) ch =
     (if ch \<in> set (tenantSubscribers b t) \<and> length (chan_buf b ch) < chan_cap b ch
      then chan_buf b ch @ [msg\<lparr>MsgTenantID := t\<rparr>] else chan_buf b ch)"
proof -
  have c: "CutPrefix (tenantChannel (channelPrefix b) t) (channelPrefix b @ valkeyChannelSeparator) = Some t"
    by (simp add: tenantChannel_def)
  have "OnMessage (Some msg) (tenantChannel (channelPrefix b) t) [] b = fanOutTenant (msg\<lparr>MsgTenantID := t\<rparr>) b"
    unfolding OnMessage_def option.case c using assms(2) by simp
  then show ?thesis using assms(1) by (simp add: fanOutTenant_def offer_all_buf)
qed

theorem bus_delivery_isolated_witness:
  "chan_buf (OnMessage (Some \<lparr>Subject = ''acme.BTC'', Payload = ''1'', MsgTenantID = ''globex'', MsgPos = [], MsgMid = [], MsgChannel = []\<rparr>)
       (tenantChannel (channelPrefix demo_settled) ''acme'') [] demo_settled) 1
   = [\<lparr>Subject = ''acme.BTC'', Payload = ''1'', MsgTenantID = ''acme'', MsgPos = [], MsgMid = [], MsgChannel = []\<rparr>]"
proof -
  have "tenantSubscribers demo_settled ''acme'' = [1]" "chan_buf demo_settled 1 = []" "chan_cap demo_settled 1 = 8"
    by (simp_all add: demo_bus_defs)
  then show ?thesis by (subst bus_delivery_isolated) simp_all
qed

section \<open>The hold window\<close>

text \<open>
  What the management loop and the publishers do to the episode: the loop opens it when it finds the connection replaced and closes it after a complete
  convergence, and any number of publishes go on meanwhile.
\<close>

datatype episode_op = Arm int | Clear | Pub int bus_message publish_reply

fun episode_run :: "episode_op list \<Rightarrow> bus \<Rightarrow> bus" where
  "episode_run [] b = b"
| "episode_run (Arm start # ops) b = episode_run ops (armDisruptionEpisode start b)"
| "episode_run (Clear # ops) b = episode_run ops (clearDisruptionEpisode b)"
| "episode_run (Pub now m r # ops) b = episode_run ops (fst (Publish now m r b))"

text \<open>Clock readings are not zero.\<close>

fun clock_read :: "episode_op \<Rightarrow> bool" where
  "clock_read (Arm start) = (start \<noteq> 0)"
| "clock_read Clear = True"
| "clock_read (Pub now m r) = (now \<noteq> 0)"

definition accepted_tenant :: "bus_message \<Rightarrow> bool" where
  "accepted_tenant m \<longleftrightarrow> MsgTenantID m \<noteq> [] \<and> \<not> Contains (MsgTenantID m) valkeyChannelSeparator"

text \<open>
  The history of the window, independent of the bus: no episode is open (\<open>None\<close>), one is open and nothing was held in it yet
  (\<open>Some None\<close>), or its first publish to an empty channel came at \<open>h\<close> (\<open>Some (Some h)\<close>). Opening an open episode changes nothing.
\<close>

fun hold_window :: "int option option \<Rightarrow> episode_op list \<Rightarrow> int option option" where
  "hold_window w [] = w"
| "hold_window w (Arm start # ops) = hold_window (if w = None then Some None else w) ops"
| "hold_window w (Clear # ops) = hold_window None ops"
| "hold_window w (Pub now m r # ops) = hold_window (if w = Some None \<and> r = PubReached 0 \<and> accepted_tenant m then Some (Some now) else w) ops"

definition window_refines :: "bus \<Rightarrow> int option option \<Rightarrow> bool" where
  "window_refines b w \<longleftrightarrow> (w = None \<longleftrightarrow> disruptedSince b = 0) \<and> (\<forall>h. w = Some h \<longrightarrow> heldSince b = (case h of None \<Rightarrow> 0 | Some t \<Rightarrow> t) \<and> h \<noteq> Some 0)"

lemma window_refines_publish:
  assumes "window_refines b w" and "now \<noteq> 0"
  shows "window_refines (fst (Publish now m r b)) (if w = Some None \<and> r = PubReached 0 \<and> accepted_tenant m then Some (Some now) else w)"
  using assms by (cases w; cases "the w") (auto simp: window_refines_def Publish_def inRecoveryEpisode_def accepted_tenant_def Let_def split: publish_reply.splits)

lemma publish_window [simp]: "zeroSubscriberWindow (fst (Publish now m r b)) = zeroSubscriberWindow b"
  by (auto simp: Publish_def inRecoveryEpisode_def Let_def split: publish_reply.splits)

lemma episode_refines:
  assumes "window_refines b w" and "list_all clock_read ops"
  shows "window_refines (episode_run ops b) (hold_window w ops) \<and> zeroSubscriberWindow (episode_run ops b) = zeroSubscriberWindow b"
  using assms
proof (induction ops arbitrary: b w)
  case (Cons op ops)
  show ?case
  proof (cases op)
    case (Arm start)
    have "window_refines (armDisruptionEpisode start b) (if w = None then Some None else w)"
      using Cons.prems Arm by (auto simp: window_refines_def armDisruptionEpisode_def Let_def)
    from Cons.IH [OF this] Cons.prems show ?thesis by (simp add: Arm armDisruptionEpisode_def Let_def)
  next
    case Clear
    have "window_refines (clearDisruptionEpisode b) None" by (simp add: window_refines_def clearDisruptionEpisode_def)
    from Cons.IH [OF this] Cons.prems show ?thesis by (simp add: Clear clearDisruptionEpisode_def)
  next
    case (Pub now m r)
    from Cons.IH [OF window_refines_publish [OF Cons.prems(1)], of now m r] Cons.prems show ?thesis by (simp add: Pub)
  qed
qed simp

text \<open>C35: A publish that reaches nobody is held back for at most the window: after any sequence of reconnects, convergences and publishes of a bus that
  starts outside an episode, a publish to an empty channel is accepted when no episode is open, is refused when it is the first such publish of the
  open episode, and is otherwise refused exactly while less than the window has passed since that first one; a reconnect within the
  episode does not restart the window.\<close>

theorem hold_window_bounded:
  assumes "disruptedSince b = 0" and "list_all clock_read ops"
    and "MsgTenantID msg \<noteq> []" and "\<not> Contains (MsgTenantID msg) valkeyChannelSeparator"
  shows "snd (Publish now msg (PubReached 0) (episode_run ops b)) =
     (case hold_window None ops of None \<Rightarrow> None
      | Some None \<Rightarrow> Some ErrPublishUnavailable
      | Some (Some h) \<Rightarrow> if now - h < zeroSubscriberWindow b then Some ErrPublishUnavailable else None)"
proof -
  have "window_refines b None" using assms(1) by (simp add: window_refines_def)
  from episode_refines [OF this assms(2)] show ?thesis using assms(3,4)
    by (auto simp: window_refines_def Publish_def inRecoveryEpisode_def Let_def split: option.splits)
qed

text \<open>An episode opens at 100, a publish is held at 200, the connection flaps at 300: with the window of 1000 a publish is still held at 1199 and no more at 1200.\<close>

definition demo_empty_publish :: bus_message where
  "demo_empty_publish = \<lparr>Subject = [], Payload = [], MsgTenantID = ''acme'', MsgPos = [], MsgMid = [], MsgChannel = []\<rparr>"

theorem hold_window_bounded_witness:
  "snd (Publish 200 demo_empty_publish (PubReached 0) (episode_run [Arm 100] demo_bus)) = Some ErrPublishUnavailable \<and>
   snd (Publish 1199 demo_empty_publish (PubReached 0) (episode_run [Arm 100, Pub 200 demo_empty_publish (PubReached 0), Arm 300] demo_bus)) = Some ErrPublishUnavailable \<and>
   snd (Publish 1200 demo_empty_publish (PubReached 0) (episode_run [Arm 100, Pub 200 demo_empty_publish (PubReached 0), Arm 300] demo_bus)) = None"
proof -
  have t: "MsgTenantID demo_empty_publish \<noteq> []" "\<not> Contains (MsgTenantID demo_empty_publish) valkeyChannelSeparator" "disruptedSince demo_bus = 0" "zeroSubscriberWindow demo_bus = 1000"
    by (simp_all add: demo_empty_publish_def demo_bus_def newValkeyBus_def Contains_def valkeyChannelSeparator_def Cut.simps HasPrefix_def)
  have a: "accepted_tenant demo_empty_publish" using t(1,2) by (simp add: accepted_tenant_def)
  show ?thesis using hold_window_bounded [OF t(3) _ t(1,2), of "[Arm 100]" 200] t(4) a
    hold_window_bounded [OF t(3) _ t(1,2), of "[Arm 100, Pub 200 demo_empty_publish (PubReached 0), Arm 300]" 1199]
    hold_window_bounded [OF t(3) _ t(1,2), of "[Arm 100, Pub 200 demo_empty_publish (PubReached 0), Arm 300]" 1200]
    by (simp del: episode_run.simps)
qed

end
