(* ===== verification/Shard.thy ===== *)
theory Shard
  imports BroadcastBus
begin

text \<open>
  A shard's per-tenant subscriptions to the bus (\<open>server/orchestration/shard.go\<close>): the hooks the
  server calls when a client of a tenant connects or disconnects keep one bus subscription and
  one forwarder goroutine per tenant with clients. The hooks release the lock around the bus
  calls, so their sections interleave. The forwarder and the listener move messages and are
  modelled in the broadcast theory from the point where the listener calls the server.
\<close>

section \<open>What the shard needs from the bus\<close>

text \<open>
  \<open>subs b\<close> is the set of (tenant, channel) pairs the bus delivers to. Subscribing with a fresh
  channel adds a pair, unsubscribing a present one removes it and succeeds.
\<close>

locale tenant_bus =
  fixes subscribe :: "string \<Rightarrow> chan_id \<Rightarrow> 'b \<Rightarrow> 'e + ('b \<times> chan_id)"
    and unsubscribe :: "string \<Rightarrow> chan_id \<Rightarrow> 'b \<Rightarrow> 'b \<times> 'e option"
    and subs :: "'b \<Rightarrow> (string \<times> chan_id) set"
    and binv :: "'b \<Rightarrow> bool"
  assumes subscribe_adds: "binv b \<Longrightarrow> (\<And>u. (u, ch) \<notin> subs b) \<Longrightarrow> subscribe t ch b = Inr (b', ch') \<Longrightarrow>
      ch' = ch \<and> binv b' \<and> subs b' = insert (t, ch) (subs b)"
    and unsubscribe_removes: "binv b \<Longrightarrow> (t, ch) \<in> subs b \<Longrightarrow>
      \<exists>b'. unsubscribe t ch b = (b', None) \<and> binv b' \<and> subs b' = subs b - {(t, ch)}"
begin

lemma unsubscribe_fst:
  assumes "binv b" and "(t, ch) \<in> subs b"
  shows "binv (fst (unsubscribe t ch b))" and "subs (fst (unsubscribe t ch b)) = subs b - {(t, ch)}"
proof -
  obtain b' where "unsubscribe t ch b = (b', None)" "binv b'" "subs b' = subs b - {(t, ch)}"
    using unsubscribe_removes [OF assms] by blast
  then show "binv (fst (unsubscribe t ch b))" "subs (fst (unsubscribe t ch b)) = subs b - {(t, ch)}" by simp_all
qed

end

definition bus_subs :: "bus \<Rightarrow> (string \<times> chan_id) set" where
  "bus_subs b = {(t, ch). ch \<in> set (tenantSubscribers b t)}"

definition bus_distinct :: "bus \<Rightarrow> bool" where
  "bus_distinct b \<longleftrightarrow> (\<forall>t. distinct (tenantSubscribers b t))"

lemma tenantSubscribers_counts:
  "tenantSubscribers (fst (sub_count t b)) = tenantSubscribers b"
  "tenantSubscribers (fst (unsub_count t b)) = tenantSubscribers b"
  by (auto simp: bus_op_defs)

lemma tenantSubscribers_Subscribe:
  assumes "Subscribe t ch b = Inr (b', ch')"
  shows "ch' = ch" and "tenantSubscribers b' = (tenantSubscribers b)(t := tenantSubscribers b t @ [ch])"
  using assms tenantSubscribers_counts(1) [of t "sub_append t ch b"]
  by (auto simp: Subscribe_def sub_append_def signalSubscriptionChange_def Let_def split: if_splits prod.splits)

lemma tenantSubscribers_Unsubscribe:
  assumes "ch \<in> set (tenantSubscribers b t)"
  shows "snd (Unsubscribe t ch b) = None"
    and "tenantSubscribers (fst (Unsubscribe t ch b)) = (tenantSubscribers b)(t := remove1 ch (tenantSubscribers b t))"
  using assms tenantSubscribers_counts(2) [of t "fst (unsub_remove t ch b)"]
  by (auto simp: Unsubscribe_def unsub_remove_def signalSubscriptionChange_def Let_def split: prod.splits)

interpretation vb: tenant_bus Subscribe Unsubscribe bus_subs bus_distinct
proof
  fix b ch t b' ch'
  assume "bus_distinct b" "\<And>u. (u, ch) \<notin> bus_subs b" "Subscribe t ch b = Inr (b', ch')"
  then show "ch' = ch \<and> bus_distinct b' \<and> bus_subs b' = insert (t, ch) (bus_subs b)"
    using tenantSubscribers_Subscribe [of t ch b b' ch'] by (auto simp: bus_distinct_def bus_subs_def split: if_splits)
next
  fix b t ch
  assume "bus_distinct b" "(t, ch) \<in> bus_subs b"
  then show "\<exists>b'. Unsubscribe t ch b = (b', None) \<and> bus_distinct b' \<and> bus_subs b' = bus_subs b - {(t, ch)}"
    using tenantSubscribers_Unsubscribe [of ch b t]
    by (intro exI [of _ "fst (Unsubscribe t ch b)"])
       (auto simp: bus_distinct_def bus_subs_def prod_eq_iff split: if_splits)
qed

section \<open>The shard\<close>

record tenant_entry =
  te_ch :: chan_id
  refCount :: int

text \<open>
  A forwarder is identified by its channel: \<open>started\<close> holds those launched, \<open>cancelled\<close> those
  whose context has been cancelled, which makes them drain and return.
\<close>

record shard =
  tenantEntries :: "string \<rightharpoonup> tenant_entry"
  started :: "chan_id set"
  cancelled :: "chan_id set"

definition NewShard :: shard where
  "NewShard = \<lparr>tenantEntries = (\<lambda>_. None), started = {}, cancelled = {}\<rparr>"

text \<open>The fast path under the lock, then the section after the bus call, then the launch.\<close>

definition connect_fast :: "string \<Rightarrow> shard \<Rightarrow> shard option" where
  "connect_fast t sh =
     (case tenantEntries sh t of
        Some e \<Rightarrow> Some (sh\<lparr>tenantEntries := (tenantEntries sh)(t \<mapsto> e\<lparr>refCount := refCount e + 1\<rparr>)\<rparr>)
      | None \<Rightarrow> None)"

datatype committed = RollBack | Launch

definition connect_commit :: "string \<Rightarrow> chan_id \<Rightarrow> shard \<Rightarrow> shard \<times> committed" where
  "connect_commit t ch sh =
     (case tenantEntries sh t of
        Some e \<Rightarrow> (sh\<lparr>tenantEntries := (tenantEntries sh)(t \<mapsto> e\<lparr>refCount := refCount e + 1\<rparr>)\<rparr>, RollBack)
      | None \<Rightarrow> (sh\<lparr>tenantEntries := (tenantEntries sh)(t \<mapsto> \<lparr>te_ch = ch, refCount = 1\<rparr>)\<rparr>, Launch))"

definition launch_forwarder :: "chan_id \<Rightarrow> shard \<Rightarrow> shard" where
  "launch_forwarder ch sh = sh\<lparr>started := insert ch (started sh)\<rparr>"

definition OnTenantClientConnect :: "string \<Rightarrow> chan_id \<Rightarrow> shard \<Rightarrow> bus \<Rightarrow> bus_error + (shard \<times> bus)" where
  "OnTenantClientConnect t ch sh b =
     (case connect_fast t sh of
        Some sh' \<Rightarrow> Inr (sh', b)
      | None \<Rightarrow>
          (case Subscribe t ch b of
             Inl e \<Rightarrow> Inl e
           | Inr (b', ch') \<Rightarrow>
               (case connect_commit t ch' sh of
                  (sh', RollBack) \<Rightarrow> Inr (sh', fst (Unsubscribe t ch' b'))
                | (sh', Launch) \<Rightarrow> Inr (launch_forwarder ch' sh', b'))))"

text \<open>The section under the lock: the channel to unsubscribe when the last client left.\<close>

definition disconnect_locked :: "string \<Rightarrow> shard \<Rightarrow> shard \<times> chan_id option" where
  "disconnect_locked t sh =
     (case tenantEntries sh t of
        None \<Rightarrow> (sh, None)
      | Some e \<Rightarrow>
          (let n = refCount e - 1
           in if n > 0 then (sh\<lparr>tenantEntries := (tenantEntries sh)(t \<mapsto> e\<lparr>refCount := n\<rparr>)\<rparr>, None)
              else (sh\<lparr>tenantEntries := (tenantEntries sh)(t := None), cancelled := insert (te_ch e) (cancelled sh)\<rparr>,
                    Some (te_ch e))))"

definition OnTenantClientDisconnect :: "string \<Rightarrow> shard \<Rightarrow> bus \<Rightarrow> shard \<times> bus" where
  "OnTenantClientDisconnect t sh b =
     (case disconnect_locked t sh of
        (sh', None) \<Rightarrow> (sh', b)
      | (sh', Some ch) \<Rightarrow> (sh', fst (Unsubscribe t ch b)))"

section \<open>Interleaved hooks\<close>

text \<open>
  One handler per client connection: between its sections a handler has found no entry, holds a
  bus channel not yet committed, has to give it back, has to launch the forwarder, is connected,
  or has to unsubscribe the channel of the entry it removed.
\<close>

datatype hook = HIdle | HSlow string | HSub string chan_id | HBack string chan_id | HLaunch string chan_id
  | HConn string | HUnsub string chan_id

record shard_sys =
  sh :: shard
  sbus :: bus
  hk :: "nat \<Rightarrow> hook"

definition new_chan :: "chan_id \<Rightarrow> shard_sys \<Rightarrow> bool" where
  "new_chan ch s \<longleftrightarrow> (\<forall>u. (u, ch) \<notin> bus_subs (sbus s)) \<and> ch \<notin> started (sh s) \<and> ch \<notin> cancelled (sh s)"

inductive shard_step :: "shard_sys \<Rightarrow> shard_sys \<Rightarrow> bool" where
  fast: "hk s h = HIdle \<Longrightarrow> connect_fast t (sh s) = Some sh' \<Longrightarrow>
     shard_step s (s\<lparr>sh := sh', hk := (hk s)(h := HConn t)\<rparr>)"
| slow: "hk s h = HIdle \<Longrightarrow> connect_fast t (sh s) = None \<Longrightarrow> shard_step s (s\<lparr>hk := (hk s)(h := HSlow t)\<rparr>)"
| sub_fails: "hk s h = HSlow t \<Longrightarrow> Subscribe t ch (sbus s) = Inl e \<Longrightarrow> shard_step s (s\<lparr>hk := (hk s)(h := HIdle)\<rparr>)"
| subscribes: "hk s h = HSlow t \<Longrightarrow> new_chan ch s \<Longrightarrow> Subscribe t ch (sbus s) = Inr (b', ch') \<Longrightarrow>
     shard_step s (s\<lparr>sbus := b', hk := (hk s)(h := HSub t ch')\<rparr>)"
| commit_late: "hk s h = HSub t ch \<Longrightarrow> connect_commit t ch (sh s) = (sh', RollBack) \<Longrightarrow>
     shard_step s (s\<lparr>sh := sh', hk := (hk s)(h := HBack t ch)\<rparr>)"
| commit_first: "hk s h = HSub t ch \<Longrightarrow> connect_commit t ch (sh s) = (sh', Launch) \<Longrightarrow>
     shard_step s (s\<lparr>sh := sh', hk := (hk s)(h := HLaunch t ch)\<rparr>)"
| gives_back: "hk s h = HBack t ch \<Longrightarrow>
     shard_step s (s\<lparr>sbus := fst (Unsubscribe t ch (sbus s)), hk := (hk s)(h := HConn t)\<rparr>)"
| launches: "hk s h = HLaunch t ch \<Longrightarrow>
     shard_step s (s\<lparr>sh := launch_forwarder ch (sh s), hk := (hk s)(h := HConn t)\<rparr>)"
| leaves: "hk s h = HConn t \<Longrightarrow> disconnect_locked t (sh s) = (sh', None) \<Longrightarrow>
     shard_step s (s\<lparr>sh := sh', hk := (hk s)(h := HIdle)\<rparr>)"
| leaves_last: "hk s h = HConn t \<Longrightarrow> disconnect_locked t (sh s) = (sh', Some ch) \<Longrightarrow>
     shard_step s (s\<lparr>sh := sh', hk := (hk s)(h := HUnsub t ch)\<rparr>)"
| unsubscribes: "hk s h = HUnsub t ch \<Longrightarrow>
     shard_step s (s\<lparr>sbus := fst (Unsubscribe t ch (sbus s)), hk := (hk s)(h := HIdle)\<rparr>)"

inductive shard_reachable :: "shard_sys \<Rightarrow> bool" where
  start: "shard_reachable \<lparr>sh = NewShard, sbus = newValkeyBus prefix n w now, hk = (\<lambda>_. HIdle)\<rparr>"
| step: "shard_reachable s \<Longrightarrow> shard_step s s' \<Longrightarrow> shard_reachable s'"

section \<open>The invariant\<close>

fun holds :: "string \<Rightarrow> hook \<Rightarrow> bool" where
  "holds t (HBack u ch) = (u = t)"
| "holds t (HLaunch u ch) = (u = t)"
| "holds t (HConn u) = (u = t)"
| "holds t _ = False"

fun flying :: "hook \<Rightarrow> (string \<times> chan_id) set" where
  "flying (HSub t ch) = {(t, ch)}"
| "flying (HBack t ch) = {(t, ch)}"
| "flying (HUnsub t ch) = {(t, ch)}"
| "flying _ = {}"

text \<open>Where a bus channel is: in the entry of a tenant or in the hands of a handler.\<close>

datatype place = Entry string | Hand nat

fun at_place :: "shard_sys \<Rightarrow> place \<Rightarrow> (string \<times> chan_id) set" where
  "at_place s (Entry t) = (case tenantEntries (sh s) t of None \<Rightarrow> {} | Some e \<Rightarrow> {(t, te_ch e)})"
| "at_place s (Hand h) = flying (hk s h)"

definition exclusive :: "('p \<Rightarrow> ('t \<times> 'c) set) \<Rightarrow> bool" where
  "exclusive A \<longleftrightarrow> (\<forall>p q t u ch. (t, ch) \<in> A p \<longrightarrow> (u, ch) \<in> A q \<longrightarrow> p = q)"

lemma exclusive_move:
  assumes "exclusive A" and "A p = {x}" and "A q = {}" and "p \<noteq> q"
  shows "exclusive (A(p := {}, q := {x}))" and "(\<Union>r. (A(p := {}, q := {x})) r) = (\<Union>r. A r)"
proof -
  show "exclusive (A(p := {}, q := {x}))"
    using assms unfolding exclusive_def fun_upd_apply by (metis empty_iff singletonD)
  show "(\<Union>r. (A(p := {}, q := {x})) r) = (\<Union>r. A r)"
    using assms(2-4) by (auto split: if_splits)
qed

lemma exclusive_add:
  assumes "exclusive A" and "A q = {}" and "\<And>u r. (u, ch) \<notin> A r"
  shows "exclusive (A(q := {(t, ch)}))" and "(\<Union>r. (A(q := {(t, ch)})) r) = insert (t, ch) (\<Union>r. A r)"
proof -
  show "exclusive (A(q := {(t, ch)}))" using assms by (auto simp: exclusive_def)
  have "(\<Union>r. (A(q := {(t, ch)})) r) = {(t, ch)} \<union> (\<Union>r\<in>-{q}. A r)" by (auto split: if_splits)
  also have "(\<Union>r\<in>-{q}. A r) = (\<Union>r. A r)" using assms(2) by auto
  finally show "(\<Union>r. (A(q := {(t, ch)})) r) = insert (t, ch) (\<Union>r. A r)" by simp
qed

lemma exclusive_remove:
  assumes "exclusive A" and "A p = {(t, ch)}"
  shows "exclusive (A(p := {}))" and "(\<Union>r. (A(p := {})) r) = (\<Union>r. A r) - {(t, ch)}"
proof -
  show "exclusive (A(p := {}))" using assms(1) by (auto simp: exclusive_def)
  have "r = p" if "(t, ch) \<in> A r" for r using assms that by (auto simp: exclusive_def)
  then show "(\<Union>r. (A(p := {})) r) = (\<Union>r. A r) - {(t, ch)}"
    using assms(2) by (auto split: if_splits) (metis prod.inject singletonD)+
qed

definition holders :: "string \<Rightarrow> (nat \<Rightarrow> hook) \<Rightarrow> nat set" where
  "holders t f = {h. holds t (f h)}"

text \<open>The count of an entry is the number of handlers that hold a reference.\<close>

fun entry_ok :: "tenant_entry option \<Rightarrow> nat set \<Rightarrow> bool" where
  "entry_ok None H \<longleftrightarrow> H = {}"
| "entry_ok (Some e) H \<longleftrightarrow> finite H \<and> H \<noteq> {} \<and> refCount e = int (card H)"

definition entry_inv :: "shard_sys \<Rightarrow> bool" where
  "entry_inv s \<longleftrightarrow> (\<forall>t. entry_ok (tenantEntries (sh s) t) (holders t (hk s)))"

text \<open>Every bus subscription is in exactly one place.\<close>

definition chan_inv :: "shard_sys \<Rightarrow> bool" where
  "chan_inv s \<longleftrightarrow> bus_distinct (sbus s) \<and> bus_subs (sbus s) = (\<Union>p. at_place s p) \<and> exclusive (at_place s)"

text \<open>The forwarder of an entry runs or is about to be launched, and no other one runs.\<close>

definition fwd_inv :: "shard_sys \<Rightarrow> bool" where
  "fwd_inv s \<longleftrightarrow>
     (\<forall>t ch. (t, ch) \<in> at_place s (Entry t) \<longrightarrow> ch \<notin> cancelled (sh s) \<and> (ch \<in> started (sh s) \<or> (\<exists>h. hk s h = HLaunch t ch)))
     \<and> (\<forall>ch. ch \<in> started (sh s) \<longrightarrow> ch \<in> cancelled (sh s) \<or> (\<exists>t. (t, ch) \<in> at_place s (Entry t)))
     \<and> (\<forall>h t ch. hk s h = HLaunch t ch \<longrightarrow> (t, ch) \<in> at_place s (Entry t))
     \<and> (\<forall>h t ch. hk s h = HSub t ch \<longrightarrow> ch \<notin> started (sh s) \<and> ch \<notin> cancelled (sh s))"

definition shard_inv :: "shard_sys \<Rightarrow> bool" where
  "shard_inv s \<longleftrightarrow> entry_inv s \<and> chan_inv s \<and> fwd_inv s"

lemma hook_holders_upd: "holders t (f(h := p)) = (if holds t p then insert h (holders t f) else holders t f - {h})"
  by (auto simp: holders_def)

lemma entry_inv_upd:
  assumes "entry_inv s" and "hk s' = (hk s)(h := p)" and "tenantEntries (sh s') = (tenantEntries (sh s))(t := x)"
    and "\<And>u. u \<noteq> t \<Longrightarrow> holds u p = holds u (hk s h)"
    and "entry_ok x (if holds t p then insert h (holders t (hk s)) else holders t (hk s) - {h})"
  shows "entry_inv s'"
  unfolding entry_inv_def
proof
  fix u
  show "entry_ok (tenantEntries (sh s') u) (holders u (hk s'))"
  proof (cases "u = t")
    case True
    with assms(2,3,5) show ?thesis by (simp add: hook_holders_upd)
  next
    case False
    then have "holders u ((hk s)(h := p)) = holders u (hk s)"
      using assms(4) [of u] by (auto simp: hook_holders_upd) (auto simp: holders_def)
    with False assms(1-3) show ?thesis by (simp add: entry_inv_def)
  qed
qed

lemma entry_inv_keep:
  assumes "entry_inv s" and "hk s' = (hk s)(h := p)" and "tenantEntries (sh s') = tenantEntries (sh s)"
    and "\<And>u. holds u p = holds u (hk s h)"
  shows "entry_inv s'"
proof -
  have "holders u (hk s') = holders u (hk s)" for u using assms(2,4) by (auto simp: holders_def)
  with assms(1,3) show ?thesis by (simp add: entry_inv_def)
qed

lemma entry_okD: "entry_inv s \<Longrightarrow> entry_ok (tenantEntries (sh s) t) (holders t (hk s))"
  by (simp add: entry_inv_def)

lemma entry_take:
  assumes "entry_inv s" and "tenantEntries (sh s) t = Some e" and "\<not> holds t (hk s h)"
  shows "entry_ok (Some (e\<lparr>refCount := refCount e + 1\<rparr>)) (insert h (holders t (hk s)))"
  using entry_okD [OF assms(1), of t] assms(2,3) by (auto simp: holders_def)

lemma entry_drop:
  assumes "entry_inv s" and "tenantEntries (sh s) t = Some e" and "holds t (hk s h)"
  shows "entry_ok (if refCount e - 1 > 0 then Some (e\<lparr>refCount := refCount e - 1\<rparr>) else None) (holders t (hk s) - {h})"
proof -
  have H: "finite (holders t (hk s))" "refCount e = int (card (holders t (hk s)))" "h \<in> holders t (hk s)"
    using entry_okD [OF assms(1), of t] assms(2,3) by (auto simp: holders_def)
  define R where "R = holders t (hk s) - {h}"
  have "finite R" "int (card R) = refCount e - 1"
    using H card_Suc_Diff1 [OF H(1,3)] by (auto simp: R_def simp del: card_Diff_singleton_if)
  moreover from this have "R \<noteq> {} \<longleftrightarrow> refCount e - 1 > 0" using card_gt_0_iff [of R] by linarith
  ultimately show ?thesis unfolding R_def [symmetric] by (cases "R = {}") simp_all
qed

lemma shard_inv_start: "shard_inv \<lparr>sh = NewShard, sbus = newValkeyBus prefix n w now, hk = (\<lambda>_. HIdle)\<rparr>"
proof -
  have "at_place \<lparr>sh = NewShard, sbus = newValkeyBus prefix n w now, hk = (\<lambda>_. HIdle)\<rparr> p = {}" for p
    by (cases p) (simp_all add: NewShard_def)
  then show ?thesis
    by (simp add: shard_inv_def entry_inv_def chan_inv_def fwd_inv_def NewShard_def newValkeyBus_def
      holders_def bus_subs_def bus_distinct_def exclusive_def)
qed

text \<open>The places after each kind of step.\<close>

lemma at_place_upd:
  assumes "hk s' = (hk s)(h := p)" and "\<And>u. u \<noteq> t \<Longrightarrow> tenantEntries (sh s') u = tenantEntries (sh s) u"
  shows "at_place s' = (at_place s)(Hand h := flying p, Entry t := at_place s' (Entry t))"
proof
  fix q
  show "at_place s' q = ((at_place s)(Hand h := flying p, Entry t := at_place s' (Entry t))) q"
    using assms by (cases q) auto
qed

lemma at_place_keep:
  assumes "hk s' = (hk s)(h := p)" and "\<And>u. at_place s' (Entry u) = at_place s (Entry u)"
  shows "at_place s' = (at_place s)(Hand h := flying p)"
proof
  fix q
  show "at_place s' q = ((at_place s)(Hand h := flying p)) q"
    using assms by (cases q) auto
qed

lemma chan_invD:
  "chan_inv s \<Longrightarrow> bus_distinct (sbus s)" "chan_inv s \<Longrightarrow> bus_subs (sbus s) = (\<Union>q. at_place s q)"
  "chan_inv s \<Longrightarrow> exclusive (at_place s)"
  by (simp_all add: chan_inv_def)

lemma chan_inv_same:
  assumes "chan_inv s" and "hk s' = (hk s)(h := p)" and "\<And>u. at_place s' (Entry u) = at_place s (Entry u)"
    and "sbus s' = sbus s" and "flying p = flying (hk s h)"
  shows "chan_inv s'"
proof -
  have "at_place s' = at_place s" using at_place_keep [OF assms(2,3)] assms(5) by (simp add: fun_upd_idem)
  with assms(1,4) show ?thesis by (simp add: chan_inv_def)
qed

lemma chan_inv_unsubscribe:
  assumes "chan_inv s" and "hk s' = (hk s)(h := p)" and "sh s' = sh s" and "sbus s' = fst (Unsubscribe t ch (sbus s))"
    and "flying (hk s h) = {(t, ch)}" and "flying p = {}"
  shows "chan_inv s'"
proof -
  note c = chan_invD [OF assms(1)]
  have here: "at_place s (Hand h) = {(t, ch)}" using assms(5) by simp
  have at: "at_place s' = (at_place s)(Hand h := {})" using at_place_keep [OF assms(2)] assms(3,6) by simp
  have mem: "(t, ch) \<in> bus_subs (sbus s)" using c(2) here by blast
  note x = exclusive_remove [OF c(3) here] vb.unsubscribe_fst [OF c(1) mem]
  show ?thesis unfolding chan_inv_def at assms(4) using x c(2) by simp
qed

lemma chan_inv_subscribe:
  assumes "chan_inv s" and "hk s' = (hk s)(h := HSub t ch')" and "sh s' = sh s" and "sbus s' = b'"
    and "flying (hk s h) = {}" and "new_chan ch s" and "Subscribe t ch (sbus s) = Inr (b', ch')"
  shows "ch' = ch" and "chan_inv s'"
proof -
  note c = chan_invD [OF assms(1)]
  have new: "\<And>u. (u, ch) \<notin> bus_subs (sbus s)" using assms(6) by (simp add: new_chan_def)
  note b = vb.subscribe_adds [OF c(1) new assms(7)]
  then show "ch' = ch" by simp
  then have at: "at_place s' = (at_place s)(Hand h := {(t, ch)})" using at_place_keep [OF assms(2)] assms(3) by simp
  have "\<And>u r. (u, ch) \<notin> at_place s r" using new c(2) by blast
  note x = exclusive_add [OF c(3) _ this, of "Hand h" t]
  show "chan_inv s'" unfolding chan_inv_def at assms(4) using x b c(2) assms(5) by simp
qed

lemma chan_inv_commit:
  assumes "chan_inv s" and "hk s' = (hk s)(h := HLaunch t ch)" and "sbus s' = sbus s" and "hk s h = HSub t ch"
    and "tenantEntries (sh s) t = None" and "tenantEntries (sh s') = (tenantEntries (sh s))(t \<mapsto> e)" and "te_ch e = ch"
  shows "chan_inv s'"
proof -
  note c = chan_invD [OF assms(1)]
  have at: "at_place s' = (at_place s)(Hand h := {}, Entry t := {(t, ch)})"
    using at_place_upd [OF assms(2), of t] assms(6,7) by simp
  have "at_place s (Hand h) = {(t, ch)}" "at_place s (Entry t) = {}" using assms(4,5) by simp_all
  note x = exclusive_move [OF c(3) this]
  show ?thesis unfolding chan_inv_def at assms(3) using x c(1,2) by simp
qed

lemma chan_inv_leave_last:
  assumes "chan_inv s" and "hk s' = (hk s)(h := HUnsub t (te_ch e))" and "sbus s' = sbus s" and "hk s h = HConn t"
    and "tenantEntries (sh s) t = Some e" and "tenantEntries (sh s') = (tenantEntries (sh s))(t := None)"
  shows "chan_inv s'"
proof -
  note c = chan_invD [OF assms(1)]
  have "at_place s' = (at_place s)(Hand h := {(t, te_ch e)}, Entry t := {})"
    using at_place_upd [OF assms(2), of t] assms(6) by simp
  then have at: "at_place s' = (at_place s)(Entry t := {}, Hand h := {(t, te_ch e)})" by (simp add: fun_upd_twist)
  have "at_place s (Entry t) = {(t, te_ch e)}" "at_place s (Hand h) = {}" using assms(4,5) by simp_all
  note x = exclusive_move [OF c(3) this]
  show ?thesis unfolding chan_inv_def at assms(3) using x c(1,2) by simp
qed

text \<open>The forwarders after each kind of step.\<close>

lemma exclusiveD: "chan_inv s \<Longrightarrow> (t, ch) \<in> at_place s p \<Longrightarrow> (u, ch) \<in> at_place s q \<Longrightarrow> p = q"
  by (auto simp: chan_inv_def exclusive_def)

lemma fwd_invD:
  assumes "fwd_inv s"
  shows "(t, ch) \<in> at_place s (Entry t) \<Longrightarrow> ch \<notin> cancelled (sh s)"
    and "(t, ch) \<in> at_place s (Entry t) \<Longrightarrow> ch \<in> started (sh s) \<or> (\<exists>h. hk s h = HLaunch t ch)"
    and "ch \<in> started (sh s) \<Longrightarrow> ch \<in> cancelled (sh s) \<or> (\<exists>t. (t, ch) \<in> at_place s (Entry t))"
    and "hk s h = HLaunch t ch \<Longrightarrow> (t, ch) \<in> at_place s (Entry t)"
    and "hk s h = HSub t ch \<Longrightarrow> ch \<notin> started (sh s) \<and> ch \<notin> cancelled (sh s)"
  using assms unfolding fwd_inv_def by blast+

lemma fwd_invI:
  assumes "\<And>t ch. (t, ch) \<in> at_place s (Entry t) \<Longrightarrow> ch \<notin> cancelled (sh s)"
    and "\<And>t ch. (t, ch) \<in> at_place s (Entry t) \<Longrightarrow> ch \<notin> started (sh s) \<Longrightarrow> \<exists>h. hk s h = HLaunch t ch"
    and "\<And>ch. ch \<in> started (sh s) \<Longrightarrow> ch \<notin> cancelled (sh s) \<Longrightarrow> \<exists>t. (t, ch) \<in> at_place s (Entry t)"
    and "\<And>h t ch. hk s h = HLaunch t ch \<Longrightarrow> (t, ch) \<in> at_place s (Entry t)"
    and "\<And>h t ch. hk s h = HSub t ch \<Longrightarrow> ch \<notin> started (sh s) \<and> ch \<notin> cancelled (sh s)"
  shows "fwd_inv s"
  using assms unfolding fwd_inv_def by blast

lemma fwd_inv_same:
  assumes "fwd_inv s" and "hk s' = (hk s)(h := p)" and "\<And>u. at_place s' (Entry u) = at_place s (Entry u)"
    and "started (sh s') = started (sh s)" and "cancelled (sh s') = cancelled (sh s)"
    and "\<And>t ch. hk s h \<noteq> HLaunch t ch" and "\<And>t ch. p \<noteq> HLaunch t ch"
    and "\<And>t ch. p = HSub t ch \<Longrightarrow> ch \<notin> started (sh s) \<and> ch \<notin> cancelled (sh s)"
  shows "fwd_inv s'"
proof -
  have l: "hk s' h' = HLaunch t ch \<longleftrightarrow> hk s h' = HLaunch t ch" for h' t ch using assms(2,6,7) by auto
  have sub: "ch \<notin> started (sh s) \<and> ch \<notin> cancelled (sh s)" if "hk s' h' = HSub t ch" for h' t ch
    using that assms(2,8) fwd_invD(5) [OF assms(1), of h' t ch] by (cases "h' = h") auto
  show ?thesis unfolding fwd_inv_def assms(3-5) l using fwd_invD(1-4) [OF assms(1)] sub by blast
qed

lemma fwd_inv_commit:
  assumes "fwd_inv s" and "hk s' = (hk s)(h := HLaunch t ch)" and "hk s h = HSub t ch"
    and "started (sh s') = started (sh s)" and "cancelled (sh s') = cancelled (sh s)"
    and "tenantEntries (sh s) t = None" and "tenantEntries (sh s') = (tenantEntries (sh s))(t \<mapsto> e)" and "te_ch e = ch"
  shows "fwd_inv s'"
proof -
  note d = fwd_invD [OF assms(1)]
  have at: "at_place s' (Entry u) = (if u = t then {(t, ch)} else at_place s (Entry u))" for u using assms(7,8) by simp
  have none: "at_place s (Entry t) = {}" using assms(6) by simp
  have fresh: "ch \<notin> cancelled (sh s)" using d(5) [OF assms(3)] by simp
  show ?thesis
  proof (rule fwd_invI; unfold at assms(4,5))
    fix u c
    assume u: "(u, c) \<in> (if u = t then {(t, ch)} else at_place s (Entry u))"
    then show "c \<notin> cancelled (sh s)" using d(1) [of u c] fresh by (auto split: if_splits)
    show "\<exists>h'. hk s' h' = HLaunch u c" if "c \<notin> started (sh s)"
    proof (cases "u = t")
      case True
      with u assms(2) show ?thesis by auto
    next
      case False
      with u that d(2) [of u c] obtain h' where "hk s h' = HLaunch u c" by auto
      then have "hk s' h' = HLaunch u c" using assms(2,3) by auto
      then show ?thesis ..
    qed
  next
    fix c assume "c \<in> started (sh s)" "c \<notin> cancelled (sh s)"
    with d(3) [of c] obtain u where "(u, c) \<in> at_place s (Entry u)" by auto
    moreover from this none have "u \<noteq> t" by auto
    ultimately show "\<exists>u. (u, c) \<in> (if u = t then {(t, ch)} else at_place s (Entry u))" by auto
  next
    fix h' u c assume l: "hk s' h' = HLaunch u c"
    show "(u, c) \<in> (if u = t then {(t, ch)} else at_place s (Entry u))"
    proof (cases "h' = h")
      case True
      with l assms(2) show ?thesis by auto
    next
      case False
      with l assms(2) d(4) [of h' u c] have "(u, c) \<in> at_place s (Entry u)" by simp
      with none show ?thesis by auto
    qed
  next
    fix h' u c assume "hk s' h' = HSub u c"
    with assms(2) d(5) [of h' u c] show "c \<notin> started (sh s) \<and> c \<notin> cancelled (sh s)" by (auto split: if_splits)
  qed
qed

lemma fwd_inv_launch:
  assumes "fwd_inv s" and "chan_inv s" and "hk s' = (hk s)(h := HConn t)" and "hk s h = HLaunch t ch"
    and "sh s' = launch_forwarder ch (sh s)"
  shows "fwd_inv s'"
proof -
  note d = fwd_invD [OF assms(1)]
  have at: "at_place s' (Entry u) = at_place s (Entry u)" for u using assms(5) by (simp add: launch_forwarder_def)
  have own: "(t, ch) \<in> at_place s (Entry t)" using d(4) [OF assms(4)] .
  have sub: "c \<noteq> ch" if "hk s h' = HSub u c" for h' u c
    using exclusiveD [OF assms(2) _ own, of u "Hand h'"] that by auto
  have st: "started (sh s') = insert ch (started (sh s))" "cancelled (sh s') = cancelled (sh s)"
    using assms(5) by (simp_all add: launch_forwarder_def)
  show ?thesis
  proof (rule fwd_invI; unfold at st)
    fix u c
    assume u: "(u, c) \<in> at_place s (Entry u)"
    then show "c \<notin> cancelled (sh s)" by (rule d(1))
    show "\<exists>h'. hk s' h' = HLaunch u c" if "c \<notin> insert ch (started (sh s))"
    proof -
      from u that d(2) [of u c] obtain h' where "hk s h' = HLaunch u c" by auto
      moreover from this that assms(4) have "h' \<noteq> h" by auto
      ultimately have "hk s' h' = HLaunch u c" using assms(3) by simp
      then show ?thesis ..
    qed
  next
    fix c assume "c \<in> insert ch (started (sh s))" "c \<notin> cancelled (sh s)"
    with d(3) [of c] own show "\<exists>u. (u, c) \<in> at_place s (Entry u)" by auto
  next
    fix h' u c assume "hk s' h' = HLaunch u c"
    with assms(3) d(4) [of h' u c] show "(u, c) \<in> at_place s (Entry u)" by (auto split: if_splits)
  next
    fix h' u c assume "hk s' h' = HSub u c"
    with assms(3) have "hk s h' = HSub u c" by (auto split: if_splits)
    with sub d(5) [of h' u c] show "c \<notin> insert ch (started (sh s)) \<and> c \<notin> cancelled (sh s)" by auto
  qed
qed

lemma fwd_inv_leave_last:
  assumes "fwd_inv s" and "chan_inv s" and "entry_inv s" and "hk s' = (hk s)(h := HUnsub t (te_ch e))" and "hk s h = HConn t"
    and "tenantEntries (sh s) t = Some e" and "refCount e \<le> 1"
    and "tenantEntries (sh s') = (tenantEntries (sh s))(t := None)"
    and "started (sh s') = started (sh s)" and "cancelled (sh s') = insert (te_ch e) (cancelled (sh s))"
  shows "fwd_inv s'"
proof -
  note d = fwd_invD [OF assms(1)]
  have at: "at_place s' (Entry u) = (if u = t then {} else at_place s (Entry u))" for u using assms(8) by simp
  have own: "at_place s (Entry t) = {(t, te_ch e)}" using assms(6) by simp
  have "holders t (hk s) = {h}"
  proof -
    have "finite (holders t (hk s))" "card (holders t (hk s)) \<le> 1" "h \<in> holders t (hk s)"
      using entry_okD [OF assms(3), of t] assms(5-7) by (auto simp: holders_def)
    then show ?thesis using card_le_Suc0_iff_eq [of "holders t (hk s)"] by auto
  qed
  then have only: "h' = h" if "holds t (hk s h')" for h' using that by (auto simp: holders_def)
  have launch: "u \<noteq> t" if "hk s h' = HLaunch u c" for h' u c
    using only [of h'] that assms(5) by auto
  have other: "c \<noteq> te_ch e" if "(u, c) \<in> at_place s (Entry u)" "u \<noteq> t" for u c
    using exclusiveD [OF assms(2) that(1), of t "Entry t"] own that(2) by auto
  have sub: "c \<noteq> te_ch e" if "hk s h' = HSub u c" for h' u c
    using exclusiveD [OF assms(2), of u c "Hand h'" t "Entry t"] own that by auto
  have l: "hk s' h' = HLaunch u c \<longleftrightarrow> hk s h' = HLaunch u c" "hk s' h' = HSub u c \<longleftrightarrow> hk s h' = HSub u c" for h' u c
    using assms(4,5) by auto
  show ?thesis
  proof (rule fwd_invI; unfold at l assms(9,10))
    fix u c
    assume u: "(u, c) \<in> (if u = t then {} else at_place s (Entry u))"
    then show "c \<notin> insert (te_ch e) (cancelled (sh s))" using d(1) [of u c] other [of u c] by (auto split: if_splits)
    show "\<exists>h'. hk s h' = HLaunch u c" if "c \<notin> started (sh s)"
      using u that d(2) [of u c] by (auto split: if_splits)
  next
    fix c assume c: "c \<in> started (sh s)" "c \<notin> insert (te_ch e) (cancelled (sh s))"
    with d(3) [of c] obtain u where "(u, c) \<in> at_place s (Entry u)" by auto
    moreover from this c own have "u \<noteq> t" by auto
    ultimately show "\<exists>u. (u, c) \<in> (if u = t then {} else at_place s (Entry u))" by auto
  next
    fix h' u c assume "hk s h' = HLaunch u c"
    then show "(u, c) \<in> (if u = t then {} else at_place s (Entry u))" using d(4) [of h' u c] launch [of h' u c] by simp
  next
    fix h' u c assume "hk s h' = HSub u c"
    then show "c \<notin> started (sh s) \<and> c \<notin> insert (te_ch e) (cancelled (sh s))" using d(5) [of h' u c] sub [of h' u c] by simp
  qed
qed

lemma connect_fast_Some:
  assumes "connect_fast t x = Some x'"
  obtains e where "tenantEntries x t = Some e" "x' = x\<lparr>tenantEntries := (tenantEntries x)(t \<mapsto> e\<lparr>refCount := refCount e + 1\<rparr>)\<rparr>"
  using assms by (auto simp: connect_fast_def split: option.splits)

lemma connect_commit_late:
  assumes "connect_commit t ch x = (x', RollBack)"
  obtains e where "tenantEntries x t = Some e" "x' = x\<lparr>tenantEntries := (tenantEntries x)(t \<mapsto> e\<lparr>refCount := refCount e + 1\<rparr>)\<rparr>"
  using assms by (auto simp: connect_commit_def split: option.splits)

lemma connect_commit_first:
  assumes "connect_commit t ch x = (x', Launch)"
  shows "tenantEntries x t = None" and "x' = x\<lparr>tenantEntries := (tenantEntries x)(t \<mapsto> \<lparr>te_ch = ch, refCount = 1\<rparr>)\<rparr>"
  using assms by (auto simp: connect_commit_def split: option.splits)

lemma entry_present:
  assumes "entry_inv s" and "holds t (hk s h)"
  obtains e where "tenantEntries (sh s) t = Some e"
  using entry_okD [OF assms(1), of t] assms(2) by (cases "tenantEntries (sh s) t") (auto simp: holders_def)

text \<open>A reference taken by a handler that holds none.\<close>

lemma shard_inv_take:
  assumes "shard_inv s" and "tenantEntries (sh s) t = Some e"
    and "sh s' = (sh s)\<lparr>tenantEntries := (tenantEntries (sh s))(t \<mapsto> e\<lparr>refCount := refCount e + 1\<rparr>)\<rparr>"
    and "hk s' = (hk s)(h := p)" and "sbus s' = sbus s" and "\<And>u. \<not> holds u (hk s h)" and "\<And>u. holds u p = (u = t)"
    and "flying p = flying (hk s h)" and "\<And>t ch. hk s h \<noteq> HLaunch t ch" and "\<And>t ch. p \<noteq> HLaunch t ch"
    and "\<And>t ch. p \<noteq> HSub t ch"
  shows "shard_inv s'"
proof -
  have i: "entry_inv s" "chan_inv s" "fwd_inv s" using assms(1) by (simp_all add: shard_inv_def)
  have at: "at_place s' (Entry u) = at_place s (Entry u)" for u using assms(2,3) by simp
  have "entry_inv s'"
    by (rule entry_inv_upd [OF i(1) assms(4), of t "Some (e\<lparr>refCount := refCount e + 1\<rparr>)"])
       (use assms(3,6,7) entry_take [OF i(1) assms(2) assms(6)] in auto)
  moreover have "chan_inv s'" by (rule chan_inv_same [OF i(2) assms(4) at assms(5,8)])
  moreover have "fwd_inv s'" by (rule fwd_inv_same [OF i(3) assms(4) at]) (use assms(3,9-11) in auto)
  ultimately show ?thesis by (simp add: shard_inv_def)
qed

text \<open>A step that changes only where a handler is.\<close>

lemma shard_inv_pass:
  assumes "shard_inv s" and "sh s' = sh s" and "hk s' = (hk s)(h := p)" and "\<And>u. holds u p = holds u (hk s h)"
    and "chan_inv s'" and "\<And>t ch. hk s h \<noteq> HLaunch t ch" and "\<And>t ch. p \<noteq> HLaunch t ch"
    and "\<And>t ch. p = HSub t ch \<Longrightarrow> ch \<notin> started (sh s) \<and> ch \<notin> cancelled (sh s)"
  shows "shard_inv s'"
proof -
  have i: "entry_inv s" "fwd_inv s" using assms(1) by (simp_all add: shard_inv_def)
  have "entry_inv s'" by (rule entry_inv_keep [OF i(1) assms(3)]) (use assms in auto)
  moreover have "fwd_inv s'" by (rule fwd_inv_same [OF i(2) assms(3)]) (use assms in auto)
  ultimately show ?thesis using assms(5) by (simp add: shard_inv_def)
qed

lemma shard_inv_leaves:
  assumes "shard_inv s" and "hk s h = HConn t" and "disconnect_locked t (sh s) = (x', r)"
    and "sh s' = x'" and "sbus s' = sbus s" and "hk s' = (hk s)(h := case r of None \<Rightarrow> HIdle | Some ch \<Rightarrow> HUnsub t ch)"
  shows "shard_inv s'"
proof -
  have i: "entry_inv s" "chan_inv s" "fwd_inv s" using assms(1) by (simp_all add: shard_inv_def)
  have h: "holds t (hk s h)" using assms(2) by simp
  then obtain e where e: "tenantEntries (sh s) t = Some e" using entry_present [OF i(1)] by blast
  note ok = entry_drop [OF i(1) e h]
  let ?p = "case r of None \<Rightarrow> HIdle | Some ch \<Rightarrow> HUnsub t ch"
  have np: "\<not> holds u ?p" for u by (cases r) simp_all
  show ?thesis
  proof (cases "refCount e - 1 > 0")
    case True
    then have r: "r = None" and x': "x' = (sh s)\<lparr>tenantEntries := (tenantEntries (sh s))(t \<mapsto> e\<lparr>refCount := refCount e - 1\<rparr>)\<rparr>"
      using assms(3) e by (auto simp: disconnect_locked_def Let_def)
    have at: "at_place s' (Entry u) = at_place s (Entry u)" for u using assms(4) x' e by simp
    have "entry_inv s'" by (rule entry_inv_upd [OF i(1) assms(6), of t "Some (e\<lparr>refCount := refCount e - 1\<rparr>)"])
        (use assms(2,4) x' ok True np in auto)
    moreover have "chan_inv s'" by (rule chan_inv_same [OF i(2) assms(6) at assms(5)]) (use r assms(2) in simp)
    moreover have "fwd_inv s'" by (rule fwd_inv_same [OF i(3) assms(6) at]) (use r x' assms(2,4) in auto)
    ultimately show ?thesis by (simp add: shard_inv_def)
  next
    case False
    then have r: "r = Some (te_ch e)" and x': "x' = (sh s)\<lparr>tenantEntries := (tenantEntries (sh s))(t := None),
        cancelled := insert (te_ch e) (cancelled (sh s))\<rparr>"
      using assms(3) e by (auto simp: disconnect_locked_def Let_def)
    have hk': "hk s' = (hk s)(h := HUnsub t (te_ch e))" using assms(6) r by simp
    have "entry_inv s'" by (rule entry_inv_upd [OF i(1) assms(6), of t None])
        (use assms(2,4) x' ok False np in auto)
    moreover have "chan_inv s'" by (rule chan_inv_leave_last [OF i(2) hk' assms(5,2) e]) (use assms(4) x' in simp)
    moreover have "fwd_inv s'" by (rule fwd_inv_leave_last [OF i(3,2,1) hk' assms(2) e]) (use assms(4) x' False in simp_all)
    ultimately show ?thesis by (simp add: shard_inv_def)
  qed
qed

lemma shard_inv_step:
  assumes "shard_step s s'" and "shard_inv s"
  shows "shard_inv s'"
  using assms(1)
proof (cases rule: shard_step.cases)
  case (fast h t sh')
  then obtain e where "tenantEntries (sh s) t = Some e"
    "sh' = (sh s)\<lparr>tenantEntries := (tenantEntries (sh s))(t \<mapsto> e\<lparr>refCount := refCount e + 1\<rparr>)\<rparr>"
    by (blast elim: connect_fast_Some)
  with fast show ?thesis by (intro shard_inv_take [OF assms(2), of t e _ h "HConn t"]) auto
next
  case (slow h t)
  then have "chan_inv s'" using assms(2)
    by (intro chan_inv_same [of s s' h "HSlow t"]) (auto simp: shard_inv_def)
  with slow show ?thesis by (intro shard_inv_pass [OF assms(2), of _ h "HSlow t"]) auto
next
  case (sub_fails h t ch e)
  then have "chan_inv s'" using assms(2)
    by (intro chan_inv_same [of s s' h HIdle]) (auto simp: shard_inv_def)
  with sub_fails show ?thesis by (intro shard_inv_pass [OF assms(2), of _ h HIdle]) auto
next
  case (subscribes h t ch b' ch')
  have "chan_inv s" using assms(2) by (simp add: shard_inv_def)
  note c = chan_inv_subscribe [OF this, of s' h t ch' b' ch]
  have "ch' = ch" "chan_inv s'" using c subscribes by simp_all
  with subscribes show ?thesis
    by (intro shard_inv_pass [OF assms(2), of _ h "HSub t ch"]) (auto simp: new_chan_def)
next
  case (commit_late h t ch sh')
  then obtain e where "tenantEntries (sh s) t = Some e"
    "sh' = (sh s)\<lparr>tenantEntries := (tenantEntries (sh s))(t \<mapsto> e\<lparr>refCount := refCount e + 1\<rparr>)\<rparr>"
    by (blast elim: connect_commit_late)
  with commit_late show ?thesis by (intro shard_inv_take [OF assms(2), of t e _ h "HBack t ch"]) auto
next
  case (commit_first h t ch sh')
  note x = connect_commit_first [OF commit_first(3)]
  have i: "entry_inv s" "chan_inv s" "fwd_inv s" using assms(2) by (simp_all add: shard_inv_def)
  have hk: "hk s' = (hk s)(h := HLaunch t ch)" using commit_first by simp
  have none: "holders t (hk s) = {}" using entry_okD [OF i(1), of t] x(1) by simp
  have "entry_inv s'" by (rule entry_inv_upd [OF i(1) hk, of t "Some \<lparr>te_ch = ch, refCount = 1\<rparr>"])
      (use commit_first x none in auto)
  moreover have "chan_inv s'"
    by (rule chan_inv_commit [OF i(2) hk _ commit_first(2) x(1), of "\<lparr>te_ch = ch, refCount = 1\<rparr>"]) (use commit_first x in auto)
  moreover have "fwd_inv s'"
    by (rule fwd_inv_commit [OF i(3) hk commit_first(2) _ _ x(1), of "\<lparr>te_ch = ch, refCount = 1\<rparr>"]) (use commit_first x in auto)
  ultimately show ?thesis by (simp add: shard_inv_def)
next
  case (gives_back h t ch)
  then have "chan_inv s'" using assms(2)
    by (intro chan_inv_unsubscribe [of s s' h "HConn t" t ch]) (auto simp: shard_inv_def)
  with gives_back show ?thesis by (intro shard_inv_pass [OF assms(2), of _ h "HConn t"]) auto
next
  case (launches h t ch)
  have i: "entry_inv s" "chan_inv s" "fwd_inv s" using assms(2) by (simp_all add: shard_inv_def)
  have hk: "hk s' = (hk s)(h := HConn t)" using launches by simp
  have "entry_inv s'" by (rule entry_inv_keep [OF i(1) hk]) (use launches in \<open>auto simp: launch_forwarder_def\<close>)
  moreover have "chan_inv s'" by (rule chan_inv_same [OF i(2) hk]) (use launches in \<open>auto simp: launch_forwarder_def\<close>)
  moreover have "fwd_inv s'" by (rule fwd_inv_launch [OF i(3,2) hk]) (use launches in auto)
  ultimately show ?thesis by (simp add: shard_inv_def)
next
  case (leaves h t sh')
  then show ?thesis by (intro shard_inv_leaves [OF assms(2), of h t sh' None]) auto
next
  case (leaves_last h t sh' ch)
  then show ?thesis by (intro shard_inv_leaves [OF assms(2), of h t sh' "Some ch"]) auto
next
  case (unsubscribes h t ch)
  then have "chan_inv s'" using assms(2)
    by (intro chan_inv_unsubscribe [of s s' h HIdle t ch]) (auto simp: shard_inv_def)
  with unsubscribes show ?thesis by (intro shard_inv_pass [OF assms(2), of _ h HIdle]) auto
qed

lemma shard_reachable_inv: "shard_reachable s \<Longrightarrow> shard_inv s"
  by (induction rule: shard_reachable.induct) (auto intro: shard_inv_start shard_inv_step)

section \<open>Properties\<close>

text \<open>However the hooks of connecting and disconnecting clients interleave, once none is in
  progress every tenant with a connected client has exactly one bus subscription, whose
  forwarder runs, a tenant without clients has none, and no other forwarder runs.\<close>

theorem shard_one_subscription:
  assumes "shard_reachable s" and "\<And>h. hk s h = HIdle \<or> (\<exists>t. hk s h = HConn t)"
  shows "(if \<exists>h. hk s h = HConn t
          then \<exists>ch. {c. (t, c) \<in> bus_subs (sbus s)} = {ch} \<and> ch \<in> started (sh s) \<and> ch \<notin> cancelled (sh s)
          else {c. (t, c) \<in> bus_subs (sbus s)} = {})
     \<and> started (sh s) - cancelled (sh s) = snd ` bus_subs (sbus s)"
proof -
  have i: "entry_inv s" "chan_inv s" "fwd_inv s" using shard_reachable_inv [OF assms(1)] by (simp_all add: shard_inv_def)
  note d = fwd_invD [OF i(3)]
  have "flying (hk s h) = {}" for h using assms(2) [of h] by auto
  then have hand: "at_place s (Hand h) = {}" for h by simp
  have b: "(u, c) \<in> bus_subs (sbus s) \<longleftrightarrow> (u, c) \<in> at_place s (Entry u)" for u c
  proof
    assume "(u, c) \<in> bus_subs (sbus s)"
    then obtain q where q: "(u, c) \<in> at_place s q" unfolding chan_invD(2) [OF i(2)] by blast
    then obtain v where "q = Entry v" using hand by (cases q) auto
    with q show "(u, c) \<in> at_place s (Entry u)" by (auto split: option.splits)
  next
    assume "(u, c) \<in> at_place s (Entry u)"
    then show "(u, c) \<in> bus_subs (sbus s)" unfolding chan_invD(2) [OF i(2)] by blast
  qed
  have run: "c \<in> started (sh s)" if "(u, c) \<in> at_place s (Entry u)" for u c
    using d(2) [OF that] assms(2) by (metis hook.distinct(7) hook.distinct(37))
  have entry: "(\<exists>h. hk s h = HConn u) \<longleftrightarrow> tenantEntries (sh s) u \<noteq> None" for u
  proof -
    have "holds u (hk s h) \<longleftrightarrow> hk s h = HConn u" for h using assms(2) [of h] by auto
    then show ?thesis using entry_okD [OF i(1), of u]
      by (cases "tenantEntries (sh s) u") (auto simp: holders_def)
  qed
  have "started (sh s) - cancelled (sh s) = snd ` bus_subs (sbus s)"
  proof (intro set_eqI iffI)
    fix c assume "c \<in> started (sh s) - cancelled (sh s)"
    then obtain u where "(u, c) \<in> bus_subs (sbus s)" using d(3) [of c] b by blast
    then show "c \<in> snd ` bus_subs (sbus s)" by force
  next
    fix c assume "c \<in> snd ` bus_subs (sbus s)"
    then obtain u where "(u, c) \<in> at_place s (Entry u)" using b by auto
    then show "c \<in> started (sh s) - cancelled (sh s)" using d(1) run by blast
  qed
  moreover have "if \<exists>h. hk s h = HConn t
      then \<exists>ch. {c. (t, c) \<in> bus_subs (sbus s)} = {ch} \<and> ch \<in> started (sh s) \<and> ch \<notin> cancelled (sh s)
      else {c. (t, c) \<in> bus_subs (sbus s)} = {}"
    unfolding entry b using d(1) [of t] run [of t] by (cases "tenantEntries (sh s) t") auto
  ultimately show ?thesis by blast
qed

definition demo_shard :: shard_sys where
  "demo_shard = \<lparr>sh = \<lparr>tenantEntries = [''acme'' \<mapsto> \<lparr>te_ch = 1, refCount = 1\<rparr>], started = {1}, cancelled = {}\<rparr>,
     sbus = signalSubscriptionChange (fst (sub_count ''acme'' (sub_append ''acme'' 1 demo_bus))),
     hk = (\<lambda>_. HIdle)(0 := HConn ''acme'')\<rparr>"

lemma demo_subscribes:
  "Subscribe ''acme'' 1 demo_bus = Inr (signalSubscriptionChange (fst (sub_count ''acme'' (sub_append ''acme'' 1 demo_bus))), 1)"
proof -
  have "\<not> Contains ''acme'' valkeyChannelSeparator"
    by (simp add: Contains_def valkeyChannelSeparator_def Cut.simps HasPrefix_def)
  then show ?thesis by (simp add: Subscribe_def demo_bus_def newValkeyBus_def bus_op_defs)
qed

lemma demo_shard_reachable: "shard_reachable demo_shard"
proof -
  let ?b = "signalSubscriptionChange (fst (sub_count ''acme'' (sub_append ''acme'' 1 demo_bus)))"
  let ?s = "\<lambda>x b p. \<lparr>sh = x, sbus = b, hk = (\<lambda>_. HIdle)(0 := p)\<rparr>"
  let ?x = "\<lparr>tenantEntries = [''acme'' \<mapsto> \<lparr>te_ch = 1, refCount = 1\<rparr>], started = {}, cancelled = {}\<rparr>"
  have 0: "shard_reachable \<lparr>sh = NewShard, sbus = demo_bus, hk = (\<lambda>_. HIdle)\<rparr>"
    unfolding demo_bus_def by (rule shard_reachable.start)
  have "shard_step \<lparr>sh = NewShard, sbus = demo_bus, hk = (\<lambda>_. HIdle)\<rparr> (?s NewShard demo_bus (HSlow ''acme''))"
    using slow [of "\<lparr>sh = NewShard, sbus = demo_bus, hk = (\<lambda>_. HIdle)\<rparr>" 0 "''acme''"]
    by (simp add: connect_fast_def NewShard_def)
  with 0 have 1: "shard_reachable (?s NewShard demo_bus (HSlow ''acme''))" by (rule shard_reachable.step)
  have new: "new_chan 1 (?s NewShard demo_bus (HSlow ''acme''))"
    by (simp add: new_chan_def NewShard_def demo_bus_def newValkeyBus_def bus_subs_def)
  have "shard_step (?s NewShard demo_bus (HSlow ''acme'')) (?s NewShard ?b (HSub ''acme'' 1))"
    using subscribes [OF _ new, of 0 "''acme''"] demo_subscribes by simp
  with 1 have 2: "shard_reachable (?s NewShard ?b (HSub ''acme'' 1))" by (rule shard_reachable.step)
  have "shard_step (?s NewShard ?b (HSub ''acme'' 1)) (?s ?x ?b (HLaunch ''acme'' 1))"
    using commit_first [of "?s NewShard ?b (HSub ''acme'' 1)" 0 "''acme''" 1 ?x]
    by (simp add: connect_commit_def NewShard_def)
  with 2 have 3: "shard_reachable (?s ?x ?b (HLaunch ''acme'' 1))" by (rule shard_reachable.step)
  have "shard_step (?s ?x ?b (HLaunch ''acme'' 1)) demo_shard"
    using launches [of "?s ?x ?b (HLaunch ''acme'' 1)" 0 "''acme''" 1] by (simp add: demo_shard_def launch_forwarder_def)
  with 3 show ?thesis by (rule shard_reachable.step)
qed

theorem shard_one_subscription_witness:
  "\<exists>ch. {c. (''acme'', c) \<in> bus_subs (sbus demo_shard)} = {ch} \<and> ch \<in> started (sh demo_shard) \<and> ch \<notin> cancelled (sh demo_shard)"
proof -
  have "hk demo_shard 0 = HConn ''acme''" "\<And>h. hk demo_shard h = HIdle \<or> (\<exists>t. hk demo_shard h = HConn t)"
    by (simp_all add: demo_shard_def)
  with shard_one_subscription [OF demo_shard_reachable, of "''acme''"] show ?thesis by (auto split: if_splits)
qed

end
