(* ===== verification/Broadcast.thy ===== *)
theory Broadcast
  imports Subscriptions Shard
begin

text \<open>
  Fan-out in the message server: \<open>server/broadcast.go\<close>, the connection set-up of
  \<open>server/handlers_ws.go\<close> and \<open>server/grpc_service.go\<close> from the acquisition of the connection
  slot on, and their teardown (\<open>server/client_lifecycle.go\<close> and the end of the gRPC stream
  handler), with the tenant hooks of the shard, the connection slots, the registry events and the
  rate limiter's table. A send on a closed Go channel panics; the panic ends the broadcast, and
  with it the shard's listener loop (\<open>orchestration/shard.go\<close>), so it is an error value here.
  Wall-clock values, generated ids and the struct the pool hands out are parameters. Each operation
  is defined here as it runs by itself; \<open>FanoutRun\<close> cuts them at every access to shared state and
  interleaves them.
\<close>

section \<open>Data\<close>

text \<open>
  Registry events, by the identifiers of connection, tenant, API key and user they carry; the pod,
  shard, address and time of a connect event are constants of the connection.
\<close>

datatype registry_event =
  RegConnect string string string string
| RegDisconnect string string string
| RegSubscribe string "string set" bool
| RegUnsubscribe string "string set" bool

text \<open>
  \<open>connectionsSem\<close> is the number of slots taken; \<open>hooks\<close> is the shard with the bus behind it;
  \<open>rateBuckets\<close> are the client ids that have a token bucket; \<open>registryLog\<close> records the events
  pushed to the registry writer, if there is one.
\<close>

record server =
  heap :: "cref \<Rightarrow> client"
  index :: subscription_index
  clients :: "cref set"
  TotalConnections :: int
  CurrentConnections :: int
  clientCount :: int
  SlowClientMaxAttempts :: int
  pool :: connection_pool
  connectionsSem :: int
  maxConns :: int
  hooks :: "(shard \<times> bus) option"
  rateBuckets :: "int set"
  registryEnabled :: bool
  registryLog :: "registry_event list option"

datatype panic = SendOnClosedChannel

section \<open>Broadcast\<close>

definition extractChannel :: "string \<Rightarrow> string" where
  "extractChannel subject =
     (let parts = Split subject ''.''
      in if length parts < 2 then []
         else if List.member parts [] then []
         else subject)"

text \<open>The loop body for one subscriber.\<close>

definition deliver_one ::
  "int \<Rightarrow> string \<Rightarrow> string \<Rightarrow> int \<Rightarrow> broadcast_envelope \<Rightarrow> client \<Rightarrow> panic + client" where
  "deliver_one maxAttempts channel pos now env c =
     (if transport c = None then Inr c
      else
        let (g, seq) = seq_Next (seqGen c); c = c\<lparr>seqGen := g\<rparr>
        in case try_send \<lparr>raw = None, envelope = Some env, mseq = seq\<rparr> c of
             SendPanic \<Rightarrow> Inl SendOnClosedChannel
           | SendOK c' \<Rightarrow> Inr (c'\<lparr>sendAttempts := 0\<rparr>)
           | SendFull \<Rightarrow>
               (let attempts = i32 (sendAttempts c + 1);
                    c = c\<lparr>sendAttempts := attempts\<rparr>;
                    gap = \<lparr>GapChannel = channel, FromSeq = seq, ToSeq = seq, LastPos = pos, GapTs = now\<rparr>;
                    c = (if length (gapChan c) < gapCap c then c\<lparr>gapChan := gapChan c @ [gap]\<rparr> else c);
                    c = (if attempts = 1 \<and> \<not> slowClientWarned c then c\<lparr>slowClientWarned := True\<rparr> else c)
                in if attempts \<ge> maxAttempts then Inr (c\<lparr>transportClosed := True\<rparr>) else Inr c))"

fun broadcast_loop ::
  "string \<Rightarrow> string \<Rightarrow> int \<Rightarrow> broadcast_envelope \<Rightarrow> cref list \<Rightarrow> server \<Rightarrow> panic + server" where
  "broadcast_loop channel pos now env [] s = Inr s"
| "broadcast_loop channel pos now env (c # cs) s =
     (case deliver_one (SlowClientMaxAttempts s) channel pos now env (heap s c) of
        Inl e \<Rightarrow> Inl e
      | Inr c' \<Rightarrow> broadcast_loop channel pos now env cs (s\<lparr>heap := (heap s)(c := c')\<rparr>))"

definition Broadcast :: "int \<Rightarrow> server \<Rightarrow> string \<Rightarrow> string option \<Rightarrow> string \<Rightarrow> string \<Rightarrow> panic + server" where
  "Broadcast now s subject message pos mid =
     (let channel = extractChannel subject
      in if channel = [] then Inr s
         else
           let subscribers = idx_Get (index s) channel
           in if length subscribers = 0 then Inr s
              else broadcast_loop channel pos now (NewBroadcastEnvelope channel now message pos mid) subscribers s)"

section \<open>Connecting and disconnecting\<close>

definition acquire_slot :: "server \<Rightarrow> server option" where
  "acquire_slot s = (if connectionsSem s < maxConns s then Some (s\<lparr>connectionsSem := connectionsSem s + 1\<rparr>) else None)"

definition release_slot :: "server \<Rightarrow> server" where
  "release_slot s = s\<lparr>connectionsSem := connectionsSem s - 1\<rparr>"

definition push_registry :: "string \<Rightarrow> registry_event \<Rightarrow> server \<Rightarrow> server" where
  "push_registry conn e s =
     (if registryEnabled s \<and> conn \<noteq> [] then s\<lparr>registryLog := map_option (\<lambda>l. l @ [e]) (registryLog s)\<rparr> else s)"

definition tenant_connect :: "string \<Rightarrow> chan_id \<Rightarrow> server \<Rightarrow> server option" where
  "tenant_connect t ch s =
     (case hooks s of
        None \<Rightarrow> Some s
      | Some (shd, b) \<Rightarrow>
          if t = [] then Some s
          else (case OnTenantClientConnect t ch shd b of
                  Inl _ \<Rightarrow> None
                | Inr hb \<Rightarrow> Some (s\<lparr>hooks := Some hb\<rparr>)))"

definition tenant_disconnect :: "string \<Rightarrow> server \<Rightarrow> server" where
  "tenant_disconnect t s =
     (case hooks s of
        None \<Rightarrow> s
      | Some (shd, b) \<Rightarrow> if t = [] then s else s\<lparr>hooks := Some (OnTenantClientDisconnect t shd b)\<rparr>)"

text \<open>\<open>RateLimiter.CheckLimit\<close> creates the client's bucket, \<open>RemoveClient\<close> deletes it.\<close>

definition CheckLimit_bucket :: "int \<Rightarrow> server \<Rightarrow> server" where
  "CheckLimit_bucket i s = s\<lparr>rateBuckets := insert i (rateBuckets s)\<rparr>"

definition RemoveClient :: "int \<Rightarrow> server \<Rightarrow> server" where
  "RemoveClient i s = s\<lparr>rateBuckets := rateBuckets s - {i}\<rparr>"

definition put_client :: "server \<Rightarrow> cref \<Rightarrow> server" where
  "put_client s c = s\<lparr>heap := (heap s)(c := pool_Put (heap s c))\<rparr>"

definition close_send_of :: "server \<Rightarrow> cref \<Rightarrow> server" where
  "close_send_of s c = s\<lparr>heap := (heap s)(c := closeSend (heap s c))\<rparr>"

text \<open>
  The WebSocket handler from the slot on: \<open>upgraded\<close> tells whether the upgrade succeeded, \<open>c\<close> is
  the struct the pool returns, \<open>ch\<close> the Go channel a first bus subscription would make.
\<close>

datatype connect_outcome = Connected | AtCapacity | UpgradeFailed | TenantChannelFailed

definition take_client :: "server \<Rightarrow> cref \<Rightarrow> (client \<Rightarrow> client) \<Rightarrow> server" where
  "take_client s c setup =
     (let n = i64 (clientCount s + 1)
      in s\<lparr>heap := (heap s)(c := setup ((pool_Get (pool s) (heap s c))\<lparr>transportClosed := False, cl_id := n\<rparr>)), clientCount := n\<rparr>)"

definition store_client :: "server \<Rightarrow> cref \<Rightarrow> server" where
  "store_client s c = s\<lparr>clients := insert c (clients s), TotalConnections := i64 (TotalConnections s + 1),
     CurrentConnections := i64 (CurrentConnections s + 1)\<rparr>"

definition connect_ws ::
  "server \<Rightarrow> cref \<Rightarrow> chan_id \<Rightarrow> bool \<Rightarrow> string \<Rightarrow> string \<Rightarrow> string \<Rightarrow> string \<Rightarrow> string \<Rightarrow> server \<times> connect_outcome" where
  "connect_ws s0 c ch upgraded clientIP tenant apiKey user connUUID =
     (case acquire_slot s0 of
        None \<Rightarrow> (s0, AtCapacity)
      | Some s \<Rightarrow>
          if \<not> upgraded then (release_slot s, UpgradeFailed)
          else
            let conn = (if registryEnabled s then connUUID else []);
                s = take_client s c (\<lambda>cl. cl\<lparr>transport := Some TransportWebSocket, remoteAddr := clientIP,
                      cl_tenantID := tenant, apiKeyID := apiKey, cl_userID := user, connID := conn\<rparr>)
            in case tenant_connect tenant ch s of
                 None \<Rightarrow> (release_slot (put_client (s\<lparr>heap := (heap s)(c := (heap s c)\<lparr>transportClosed := True\<rparr>)\<rparr>) c), TenantChannelFailed)
               | Some s \<Rightarrow> (push_registry conn (RegConnect conn tenant apiKey user) (store_client s c), Connected))"

text \<open>Subscribing: the client's set and the index, as every handler does it.\<close>

definition subscribe_client :: "server \<Rightarrow> cref \<Rightarrow> string list \<Rightarrow> server" where
  "subscribe_client s c chs =
     s\<lparr>heap := (heap s)(c := (heap s c)\<lparr>subscriptions := set_AddMultiple (subscriptions (heap s c)) chs\<rparr>),
       index := idx_AddMultiple (index s) chs c\<rparr>"

definition unsubscribe_client :: "server \<Rightarrow> cref \<Rightarrow> string list \<Rightarrow> server" where
  "unsubscribe_client s c chs =
     s\<lparr>heap := (heap s)(c := (heap s c)\<lparr>subscriptions := set_RemoveMultiple (subscriptions (heap s c)) chs\<rparr>),
       index := idx_RemoveMultiple (index s) chs c\<rparr>"

definition delete_client :: "server \<Rightarrow> cref \<Rightarrow> string list \<Rightarrow> server" where
  "delete_client s c chs =
     s\<lparr>clients := clients s - {c}, CurrentConnections := i64 (CurrentConnections s - 1),
       index := idx_RemoveMultiple (index s) chs c\<rparr>"

text \<open>
  \<open>disconnectClient\<close>: \<open>chs\<close> is the list that \<open>subscriptions.List()\<close> returns, in the order of the
  map. The struct is back in the pool, its id reset, when the rate limiter is told.
\<close>

definition close_transport :: "server \<Rightarrow> cref \<Rightarrow> server" where
  "close_transport s c = s\<lparr>heap := (heap s)(c := close_once (heap s c))\<rparr>"

definition disconnect_unindex :: "server \<Rightarrow> cref \<Rightarrow> string list \<Rightarrow> server" where
  "disconnect_unindex s c chs =
     (let cl = heap s c;
          s = close_transport s c;
          s = push_registry (connID cl) (RegDisconnect (connID cl) (cl_tenantID cl) (apiKeyID cl)) s;
          s = tenant_disconnect (cl_tenantID cl) s
      in delete_client s c chs)"

definition disconnectClient :: "server \<Rightarrow> cref \<Rightarrow> string list \<Rightarrow> server" where
  "disconnectClient s c chs =
     (let s = release_slot (put_client (close_send_of (disconnect_unindex s c chs) c) c)
      in RemoveClient (cl_id (heap s c)) s)"

text \<open>
  The gRPC \<open>Subscribe\<close> handler: the channels are registered before the tenant hook runs; a
  failing hook undoes everything. At its end the send channel is closed first.
\<close>

definition sse_close :: "server \<Rightarrow> cref \<Rightarrow> server" where
  "sse_close s c = close_send_of (close_transport s c) c"

definition sse_connect ::
  "server \<Rightarrow> cref \<Rightarrow> chan_id \<Rightarrow> string \<Rightarrow> string \<Rightarrow> string list \<Rightarrow> string list \<Rightarrow> server \<times> connect_outcome" where
  "sse_connect s0 c ch remote tenant channels order =
     (case acquire_slot s0 of
        None \<Rightarrow> (s0, AtCapacity)
      | Some s \<Rightarrow>
          let s = take_client s c (\<lambda>cl. cl\<lparr>transport := Some TransportGRPCStream, remoteAddr := remote, cl_tenantID := tenant\<rparr>);
              s = subscribe_client (store_client s c) c channels
          in case tenant_connect tenant ch s of
               None \<Rightarrow>
                 (let s = delete_client (sse_close s c) c order
                  in (release_slot (put_client (s\<lparr>TotalConnections := i64 (TotalConnections s - 1)\<rparr>) c), TenantChannelFailed))
             | Some s \<Rightarrow> (s, Connected))"

definition sse_cleanup :: "server \<Rightarrow> cref \<Rightarrow> string list \<Rightarrow> server" where
  "sse_cleanup s c chs =
     (let s = tenant_disconnect (cl_tenantID (heap s c)) (sse_close s c)
      in release_slot (put_client (delete_client s c chs) c))"

section \<open>The invariant\<close>

text \<open>
  The index lists, for every channel, exactly the connected clients subscribed to it; every
  connected client has a transport and an open send channel.
\<close>

definition srv_inv :: "server \<Rightarrow> bool" where
  "srv_inv s \<longleftrightarrow> idx_inv (index s)
     \<and> (\<forall>ch c. c \<in> set (idx_Get (index s) ch) \<longleftrightarrow> c \<in> clients s \<and> ch \<in> subscriptions (heap s c))
     \<and> (\<forall>c. c \<in> clients s \<longrightarrow> transport (heap s c) \<noteq> None \<and> \<not> sendClosed (heap s c))"

lemma srv_inv_subscribe [inv_intros]: "srv_inv s \<Longrightarrow> c \<in> clients s \<Longrightarrow> srv_inv (subscribe_client s c chs)"
  by (auto simp: srv_inv_def subscribe_client_def idx_multiple idx.subs_adds idx.inv_adds)

lemma srv_inv_unsubscribe [inv_intros]: "srv_inv s \<Longrightarrow> srv_inv (unsubscribe_client s c chs)"
  by (auto simp: srv_inv_def unsubscribe_client_def idx_multiple idx.subs_removes idx.inv_removes)

text \<open>The operations around the connection that leave clients, heap and index alone.\<close>

lemma frame_simps [simp]:
  "heap (release_slot s) = heap s" "index (release_slot s) = index s" "clients (release_slot s) = clients s"
  "heap (push_registry i e s) = heap s" "index (push_registry i e s) = index s" "clients (push_registry i e s) = clients s"
  "heap (tenant_disconnect t s) = heap s" "index (tenant_disconnect t s) = index s" "clients (tenant_disconnect t s) = clients s"
  "heap (RemoveClient n s) = heap s" "index (RemoveClient n s) = index s" "clients (RemoveClient n s) = clients s"
  "heap (CheckLimit_bucket n s) = heap s" "index (CheckLimit_bucket n s) = index s" "clients (CheckLimit_bucket n s) = clients s"
  by (simp_all add: release_slot_def push_registry_def tenant_disconnect_def RemoveClient_def CheckLimit_bucket_def split: option.splits)

lemma frame_more [simp]:
  "pool (release_slot s) = pool s" "pool (push_registry i e s) = pool s" "pool (tenant_disconnect t s) = pool s"
  "pool (RemoveClient n s) = pool s"
  "connectionsSem (push_registry i e s) = connectionsSem s" "connectionsSem (tenant_disconnect t s) = connectionsSem s"
  "connectionsSem (RemoveClient n s) = connectionsSem s" "connectionsSem (release_slot s) = connectionsSem s - 1"
  "maxConns (release_slot s) = maxConns s" "maxConns (push_registry i e s) = maxConns s"
  "maxConns (tenant_disconnect t s) = maxConns s" "maxConns (RemoveClient n s) = maxConns s"
  "rateBuckets (release_slot s) = rateBuckets s" "rateBuckets (push_registry i e s) = rateBuckets s"
  "rateBuckets (tenant_disconnect t s) = rateBuckets s" "rateBuckets (RemoveClient n s) = rateBuckets s - {n}"
  by (simp_all add: release_slot_def push_registry_def tenant_disconnect_def RemoveClient_def split: option.splits)

lemma tenant_connect_frame:
  assumes "tenant_connect t ch s = Some s'"
  shows "heap s' = heap s" "index s' = index s" "clients s' = clients s" "pool s' = pool s"
    "connectionsSem s' = connectionsSem s" "maxConns s' = maxConns s"
  using assms by (auto simp: tenant_connect_def split: option.splits prod.splits if_splits sum.splits)

lemma srv_inv_cong:
  "heap s' = heap s \<Longrightarrow> index s' = index s \<Longrightarrow> clients s' = clients s \<Longrightarrow> srv_inv s' = srv_inv s"
  by (simp add: srv_inv_def)

lemma srv_inv_connect [inv_intros]:
  assumes "srv_inv s" and "c \<notin> clients s"
  shows "srv_inv (fst (connect_ws s c ch up ip t k u i))"
proof (cases "acquire_slot s")
  case None
  with assms show ?thesis by (simp add: connect_ws_def)
next
  case (Some s1)
  then have s1: "heap s1 = heap s" "index s1 = index s" "clients s1 = clients s" "pool s1 = pool s"
    by (auto simp: acquire_slot_def split: if_splits)
  define conn where "conn = (if registryEnabled s1 then i else [])"
  define s2 where "s2 = take_client s1 c (\<lambda>cl. cl\<lparr>transport := Some TransportWebSocket, remoteAddr := ip,
                      cl_tenantID := t, apiKeyID := k, cl_userID := u, connID := conn\<rparr>)"
  have s2: "index s2 = index s" "clients s2 = clients s" "\<And>d. d \<noteq> c \<Longrightarrow> heap s2 d = heap s d"
    "transport (heap s2 c) \<noteq> None" "\<not> sendClosed (heap s2 c)" "subscriptions (heap s2 c) = {}"
    using s1 by (simp_all add: s2_def take_client_def Let_def pool_Get_def set_Clear_def)
  have keep: "srv_inv s'" if "index s' = index s" "clients s' = clients s" "\<And>d. d \<noteq> c \<Longrightarrow> heap s' d = heap s d" for s'
    using assms that unfolding srv_inv_def by metis
  have join: "srv_inv (store_client s3 c)" if "heap s3 = heap s2" "index s3 = index s2" "clients s3 = clients s2" for s3
  proof -
    have "d \<in> set (idx_Get (index s) x) \<longleftrightarrow> d \<in> insert c (clients s) \<and> x \<in> subscriptions (heap s2 d)" for x d
      using assms s2 by (cases "d = c") (simp_all add: srv_inv_def)
    moreover have "transport (heap s2 d) \<noteq> None \<and> \<not> sendClosed (heap s2 d)" if "d \<in> insert c (clients s)" for d
      using assms s2 that by (cases "d = c") (simp_all add: srv_inv_def)
    ultimately show ?thesis using assms(1) s2(1,2) that by (simp add: srv_inv_def store_client_def)
  qed
  show ?thesis
  proof (cases "up \<and> (\<exists>s3. tenant_connect t ch s2 = Some s3)")
    case True
    then obtain s3 where s3: "up" "tenant_connect t ch s2 = Some s3" by blast
    have "fst (connect_ws s c ch up ip t k u i) = push_registry conn (RegConnect conn t k u) (store_client s3 c)"
      using Some s3 by (simp add: connect_ws_def Let_def flip: conn_def s2_def)
    moreover have "srv_inv (push_registry conn (RegConnect conn t k u) (store_client s3 c)) = srv_inv (store_client s3 c)"
      by (rule srv_inv_cong) simp_all
    ultimately show ?thesis using join [OF tenant_connect_frame(1-3) [OF s3(2)]] by simp
  next
    case False
    then have "fst (connect_ws s c ch up ip t k u i) =
        (if \<not> up then release_slot s1
         else release_slot (put_client (s2\<lparr>heap := (heap s2)(c := (heap s2 c)\<lparr>transportClosed := True\<rparr>)\<rparr>) c))"
      using Some by (auto simp: connect_ws_def Let_def simp flip: conn_def s2_def)
    then show ?thesis using s1 s2 by (intro keep) (auto simp: put_client_def)
  qed
qed

lemma close_once_simps [simp]:
  "subscriptions (close_once c) = subscriptions c" "transport (close_once c) = transport c"
  "sendClosed (close_once c) = sendClosed c" "send (close_once c) = send c"
  by (simp_all add: close_once_def)

lemma closeSend_simps [simp]:
  "sendClosed (closeSend c)" "subscriptions (closeSend c) = subscriptions c" "transport (closeSend c) = transport c"
  by (simp_all add: closeSend_def)

text \<open>What the two teardowns do to clients, heap and index.\<close>

lemma disconnect_parts:
  "clients (disconnectClient s c chs) = clients s - {c}" "clients (sse_cleanup s c chs) = clients s - {c}"
  "index (disconnectClient s c chs) = idx_RemoveMultiple (index s) chs c"
  "index (sse_cleanup s c chs) = idx_RemoveMultiple (index s) chs c"
  "d \<noteq> c \<Longrightarrow> heap (disconnectClient s c chs) d = heap s d" "d \<noteq> c \<Longrightarrow> heap (sse_cleanup s c chs) d = heap s d"
  "pool (disconnectClient s c chs) = pool s"
  "heap (disconnectClient s c chs) c = pool_Put (closeSend (close_once (heap s c)))"
  by (simp_all add: disconnectClient_def sse_cleanup_def disconnect_unindex_def delete_client_def put_client_def
      close_send_of_def close_transport_def sse_close_def Let_def)

lemma srv_inv_remove:
  assumes "srv_inv s" and "set chs = subscriptions (heap s c)" and "clients s' = clients s - {c}"
    and "index s' = idx_RemoveMultiple (index s) chs c" and "\<And>d. d \<noteq> c \<Longrightarrow> heap s' d = heap s d"
  shows "srv_inv s'"
proof -
  have "d \<in> set (idx_Get (index s') x) \<longleftrightarrow> d \<in> clients s' \<and> x \<in> subscriptions (heap s' d)" for x d
    using assms by (cases "d = c") (auto simp: srv_inv_def idx_multiple idx.subs_removes)
  moreover have "transport (heap s' d) \<noteq> None \<and> \<not> sendClosed (heap s' d)" if "d \<in> clients s'" for d
    using assms that by (cases "d = c") (simp_all add: srv_inv_def)
  moreover have "idx_inv (index s')" using assms(1,4) by (simp add: srv_inv_def idx_multiple idx.inv_removes)
  ultimately show ?thesis by (simp add: srv_inv_def)
qed

lemma disconnect_inv:
  assumes "srv_inv s" and "set chs = subscriptions (heap s c)"
  shows "srv_inv (disconnectClient s c chs)" and "srv_inv (sse_cleanup s c chs)"
  using srv_inv_remove [OF assms] by (simp_all add: disconnect_parts)

lemma disconnect_gone:
  assumes "srv_inv s" and "set chs = subscriptions (heap s c)"
  shows "c \<notin> set (idx_Get (index (disconnectClient s c chs)) ch)"
  using disconnect_inv(1) [OF assms] by (auto simp: srv_inv_def disconnect_parts)

section \<open>Connection slots\<close>

lemma connect_ws_slots:
  assumes "connect_ws s c ch up ip t k u i = (s', r)"
  shows "maxConns s' = maxConns s"
    and "r = Connected \<Longrightarrow> connectionsSem s' = connectionsSem s + 1 \<and> connectionsSem s < maxConns s \<and> clients s' = insert c (clients s)"
    and "r \<noteq> Connected \<Longrightarrow> connectionsSem s' = connectionsSem s \<and> clients s' = clients s"
  using assms tenant_connect_frame(3,5,6)
  by (auto simp: connect_ws_def acquire_slot_def take_client_def store_client_def put_client_def Let_def
      split: if_splits option.splits)

lemma disconnect_slots:
  "connectionsSem (disconnectClient s c chs) = connectionsSem s - 1" "maxConns (disconnectClient s c chs) = maxConns s"
  "connectionsSem (sse_cleanup s c chs) = connectionsSem s - 1" "maxConns (sse_cleanup s c chs) = maxConns s"
  by (simp_all add: disconnectClient_def sse_cleanup_def disconnect_unindex_def delete_client_def put_client_def
      close_send_of_def close_transport_def sse_close_def Let_def)

section \<open>What one broadcast does\<close>

lemma deliver_one_live:
  assumes "transport c \<noteq> None" and "\<not> sendClosed c"
  shows "\<exists>c'. deliver_one mx ch pos now env c = Inr c' \<and> transport c' = transport c \<and> \<not> sendClosed c'
     \<and> subscriptions c' = subscriptions c"
  using assms by (auto simp: deliver_one_def Let_def try_send_def split: prod.splits)

lemma broadcast_loop_heap:
  assumes "distinct cs" and "\<And>c. c \<in> set cs \<Longrightarrow> transport (heap s c) \<noteq> None \<and> \<not> sendClosed (heap s c)"
  shows "\<exists>s'. broadcast_loop ch pos now env cs s = Inr s'
     \<and> (\<forall>c. if c \<in> set cs then deliver_one (SlowClientMaxAttempts s) ch pos now env (heap s c) = Inr (heap s' c)
            else heap s' c = heap s c)
     \<and> index s' = index s \<and> clients s' = clients s \<and> SlowClientMaxAttempts s' = SlowClientMaxAttempts s"
  using assms
proof (induction cs arbitrary: s)
  case Nil
  then show ?case by simp
next
  case (Cons c cs)
  obtain c' where c': "deliver_one (SlowClientMaxAttempts s) ch pos now env (heap s c) = Inr c'"
    using Cons.prems(2) deliver_one_live [of "heap s c"] by fastforce
  define s1 where "s1 = s\<lparr>heap := (heap s)(c := c')\<rparr>"
  have "\<And>d. d \<in> set cs \<Longrightarrow> transport (heap s1 d) \<noteq> None \<and> \<not> sendClosed (heap s1 d)"
    using Cons.prems by (auto simp: s1_def)
  with Cons.IH [of s1] Cons.prems obtain s' where s': "broadcast_loop ch pos now env cs s1 = Inr s'"
     "\<forall>d. if d \<in> set cs then deliver_one (SlowClientMaxAttempts s1) ch pos now env (heap s1 d) = Inr (heap s' d)
            else heap s' d = heap s1 d"
     "index s' = index s1" "clients s' = clients s1" "SlowClientMaxAttempts s' = SlowClientMaxAttempts s1"
    by auto
  have "broadcast_loop ch pos now env (c # cs) s = Inr s'" using c' s'(1) by (simp add: s1_def)
  moreover have "\<forall>d. if d \<in> set (c # cs) then deliver_one (SlowClientMaxAttempts s) ch pos now env (heap s d) = Inr (heap s' d)
            else heap s' d = heap s d"
    using s'(2) c' Cons.prems(1) by (auto simp: s1_def split: if_splits)
  ultimately show ?case using s'(3-) by (auto simp: s1_def)
qed

lemma Broadcast_heap:
  assumes "srv_inv s" and "extractChannel subject \<noteq> []"
  shows "\<exists>s'. Broadcast now s subject msg pos mid = Inr s'
     \<and> (\<forall>c. if c \<in> clients s \<and> extractChannel subject \<in> subscriptions (heap s c)
            then deliver_one (SlowClientMaxAttempts s) (extractChannel subject) pos now
                   (NewBroadcastEnvelope (extractChannel subject) now msg pos mid) (heap s c) = Inr (heap s' c)
            else heap s' c = heap s c)
     \<and> index s' = index s \<and> clients s' = clients s"
proof -
  let ?cs = "idx_Get (index s) (extractChannel subject)"
  have d: "distinct ?cs" "\<And>c. c \<in> set ?cs \<longleftrightarrow> c \<in> clients s \<and> extractChannel subject \<in> subscriptions (heap s c)"
    using assms(1) idx.subs_distinct by (auto simp: srv_inv_def)
  have "\<And>c. c \<in> set ?cs \<Longrightarrow> transport (heap s c) \<noteq> None \<and> \<not> sendClosed (heap s c)"
    using assms(1) by (auto simp: srv_inv_def)
  from broadcast_loop_heap [OF d(1) this, of "extractChannel subject" pos now
      "NewBroadcastEnvelope (extractChannel subject) now msg pos mid"]
  show ?thesis using assms(2) d(2)
    by (cases "?cs = []") (auto simp: Broadcast_def Let_def)
qed

lemma broadcast_loop_panics:
  assumes "c \<in> set cs" and "distinct cs" and "transport (heap s c) \<noteq> None" and "sendClosed (heap s c)"
  shows "broadcast_loop ch pos now env cs s = Inl SendOnClosedChannel"
  using assms
proof (induction cs arbitrary: s)
  case Nil
  then show ?case by simp
next
  case (Cons d cs)
  show ?case
  proof (cases "d = c")
    case True
    with Cons.prems show ?thesis
      by (auto simp: deliver_one_def Let_def try_send_def seq_Next_def)
  next
    case False
    show ?thesis
    proof (cases "deliver_one (SlowClientMaxAttempts s) ch pos now env (heap s d)")
      case (Inl e)
      then show ?thesis by (cases e) simp
    next
      case (Inr d')
      then show ?thesis using Cons False by auto
    qed
  qed
qed

lemma extractChannel_id: "extractChannel ch \<noteq> [] \<Longrightarrow> extractChannel ch = ch"
  by (auto simp: extractChannel_def Let_def split: if_splits)

lemma deliver_one_room:
  assumes "transport c \<noteq> None" and "\<not> sendClosed c" and "length (send c) < sendCap c"
  shows "deliver_one mx ch pos now env c =
     Inr (c\<lparr>seqGen := \<lparr>counter = i64 (counter (seqGen c) + 1)\<rparr>,
            send := send c @ [\<lparr>raw = None, envelope = Some env, mseq = i64 (counter (seqGen c) + 1)\<rparr>],
            sendAttempts := 0\<rparr>)"
  using assms by (auto simp: deliver_one_def Let_def try_send_def seq_Next_def)

lemma deliver_one_full:
  assumes "transport c \<noteq> None" and "\<not> sendClosed c" and "\<not> length (send c) < sendCap c"
    and "deliver_one mx ch pos now env c = Inr c'"
  shows "send c' = send c \<and> counter (seqGen c') = i64 (counter (seqGen c) + 1)
     \<and> sendAttempts c' = i32 (sendAttempts c + 1)
     \<and> gapChan c' = (if length (gapChan c) < gapCap c
         then gapChan c @ [\<lparr>GapChannel = ch, FromSeq = i64 (counter (seqGen c) + 1), ToSeq = i64 (counter (seqGen c) + 1),
                            LastPos = pos, GapTs = now\<rparr>] else gapChan c)
     \<and> transportClosed c' = (transportClosed c \<or> mx \<le> i32 (sendAttempts c + 1))"
  using assms by (auto simp: deliver_one_def Let_def try_send_def seq_Next_def split: if_splits)

section \<open>Properties\<close>

text \<open>A broadcast that runs alone reaches exactly the subscribers: it never panics, leaves every other client
  untouched, and gives each connected subscriber the message under the client's next sequence
  number; a subscriber whose buffer is full loses the message but consumes the number, is told
  of the gap while its gap buffer has room, and is closed exactly when its consecutive failures
  reach the limit.\<close>

theorem broadcast_alone:
  assumes "srv_inv s" and "extractChannel ch \<noteq> []"
  shows "\<exists>s'. Broadcast now s ch msg pos mid = Inr s' \<and> srv_inv s' \<and> clients s' = clients s \<and>
    (\<forall>c. let n = i64 (counter (seqGen (heap s c)) + 1)
         in if c \<in> clients s \<and> ch \<in> subscriptions (heap s c)
            then (if length (send (heap s c)) < sendCap (heap s c)
                  then send (heap s' c) = send (heap s c)
                         @ [\<lparr>raw = None, envelope = Some (NewBroadcastEnvelope ch now msg pos mid), mseq = n\<rparr>]
                       \<and> counter (seqGen (heap s' c)) = n \<and> sendAttempts (heap s' c) = 0
                  else send (heap s' c) = send (heap s c) \<and> counter (seqGen (heap s' c)) = n
                       \<and> sendAttempts (heap s' c) = i32 (sendAttempts (heap s c) + 1)
                       \<and> gapChan (heap s' c) = (if length (gapChan (heap s c)) < gapCap (heap s c)
                            then gapChan (heap s c) @ [\<lparr>GapChannel = ch, FromSeq = n, ToSeq = n, LastPos = pos, GapTs = now\<rparr>]
                            else gapChan (heap s c))
                       \<and> transportClosed (heap s' c) =
                           (transportClosed (heap s c) \<or> SlowClientMaxAttempts s \<le> i32 (sendAttempts (heap s c) + 1)))
            else heap s' c = heap s c)"
proof -
  note ex = extractChannel_id [OF assms(2)]
  let ?env = "NewBroadcastEnvelope ch now msg pos mid"
  obtain s' where s': "Broadcast now s ch msg pos mid = Inr s'"
    and h: "\<And>c. if c \<in> clients s \<and> ch \<in> subscriptions (heap s c)
            then deliver_one (SlowClientMaxAttempts s) ch pos now ?env (heap s c) = Inr (heap s' c)
            else heap s' c = heap s c"
    and i: "index s' = index s" "clients s' = clients s"
    using Broadcast_heap [OF assms, of now msg pos mid] unfolding ex by blast
  have live: "transport (heap s c) \<noteq> None \<and> \<not> sendClosed (heap s c)" if "c \<in> clients s" for c
    using assms(1) that by (auto simp: srv_inv_def)
  have keep: "subscriptions (heap s' c) = subscriptions (heap s c)
      \<and> (c \<in> clients s \<longrightarrow> transport (heap s' c) \<noteq> None \<and> \<not> sendClosed (heap s' c))" for c
    using h [of c] live [of c]
      deliver_one_live [of "heap s c" "SlowClientMaxAttempts s" ch pos now ?env]
    by (auto split: if_splits)
  have "srv_inv s'" using assms(1) keep i by (auto simp: srv_inv_def)
  moreover have "let n = i64 (counter (seqGen (heap s c)) + 1)
         in if c \<in> clients s \<and> ch \<in> subscriptions (heap s c)
            then (if length (send (heap s c)) < sendCap (heap s c)
                  then send (heap s' c) = send (heap s c) @ [\<lparr>raw = None, envelope = Some ?env, mseq = n\<rparr>]
                       \<and> counter (seqGen (heap s' c)) = n \<and> sendAttempts (heap s' c) = 0
                  else send (heap s' c) = send (heap s c) \<and> counter (seqGen (heap s' c)) = n
                       \<and> sendAttempts (heap s' c) = i32 (sendAttempts (heap s c) + 1)
                       \<and> gapChan (heap s' c) = (if length (gapChan (heap s c)) < gapCap (heap s c)
                            then gapChan (heap s c) @ [\<lparr>GapChannel = ch, FromSeq = n, ToSeq = n, LastPos = pos, GapTs = now\<rparr>]
                            else gapChan (heap s c))
                       \<and> transportClosed (heap s' c) =
                           (transportClosed (heap s c) \<or> SlowClientMaxAttempts s \<le> i32 (sendAttempts (heap s c) + 1)))
            else heap s' c = heap s c" for c
    using h [of c] live [of c] deliver_one_room [of "heap s c" "SlowClientMaxAttempts s" ch pos now ?env]
      deliver_one_full [of "heap s c" "SlowClientMaxAttempts s" ch pos now ?env "heap s' c"]
    unfolding Let_def by (auto split: if_splits)
  ultimately show ?thesis using s' i by blast
qed

definition idle_server :: server where
  "idle_server = \<lparr>heap = (\<lambda>_. pool_New \<lparr>bufferSize = 2, gapNotifyBufferSize = 1\<rparr>), index = NewSubscriptionIndex,
     clients = {}, TotalConnections = 0, CurrentConnections = 0, clientCount = 0, SlowClientMaxAttempts = 3,
     pool = \<lparr>bufferSize = 2, gapNotifyBufferSize = 1\<rparr>, connectionsSem = 0, maxConns = 10,
     hooks = Some (NewShard, newValkeyBus ''ws'' 8 1000 0), rateBuckets = {}, registryEnabled = False, registryLog = None\<rparr>"

definition one_connected :: server where
  "one_connected = fst (connect_ws idle_server 0 1 True ''10.0.0.1'' ''acme'' [] ''alice'' [])"

definition one_subscriber :: server where
  "one_subscriber = subscribe_client one_connected 0 [''acme.BTC'']"

lemma idle_server_inv: "srv_inv idle_server"
  by (simp add: srv_inv_def idle_server_def idx_inv_new) (simp add: NewSubscriptionIndex_def idx_Get_def)

lemma one_connected_clients: "clients one_connected = {0}" "subscriptions (heap one_connected 0) = {}"
    "bufferSize (pool one_connected) = 2"
proof -
  obtain s' where "tenant_connect ''acme'' 1 (take_client (idle_server\<lparr>connectionsSem := 1\<rparr>) 0
      (\<lambda>cl. cl\<lparr>transport := Some TransportWebSocket, remoteAddr := ''10.0.0.1'', cl_tenantID := ''acme'', apiKeyID := [],
         cl_userID := ''alice'', connID := []\<rparr>)) = Some s'"
    using demo_subscribes
    by (auto simp: tenant_connect_def OnTenantClientConnect_def connect_fast_def connect_commit_def NewShard_def idle_server_def
        take_client_def Let_def demo_bus_def)
  with tenant_connect_frame [OF this] show "clients one_connected = {0}" "subscriptions (heap one_connected 0) = {}"
    "bufferSize (pool one_connected) = 2"
    by (simp_all add: one_connected_def connect_ws_def acquire_slot_def Let_def idle_server_def take_client_def store_client_def
        pool_Get_def set_Clear_def push_registry_def)
qed

lemma one_connected_inv: "srv_inv one_connected"
  unfolding one_connected_def by (rule srv_inv_connect [OF idle_server_inv]) (simp add: idle_server_def)

lemma one_subscriber_inv: "srv_inv one_subscriber"
  unfolding one_subscriber_def
  by (rule srv_inv_subscribe) (simp_all add: one_connected_inv one_connected_clients)

lemma one_subscriber_slots: "connectionsSem one_subscriber = 1" "maxConns one_subscriber = 10"
proof -
  obtain s' r where c: "connect_ws idle_server 0 1 True ''10.0.0.1'' ''acme'' [] ''alice'' [] = (s', r)" by fastforce
  then have "s' = one_connected" by (simp add: one_connected_def)
  moreover have "clients idle_server = {}" "connectionsSem idle_server = 0" "maxConns idle_server = 10" by (simp_all add: idle_server_def)
  ultimately have "connectionsSem one_connected = 1" "maxConns one_connected = 10"
    using connect_ws_slots [OF c] one_connected_clients(1) by (cases "r = Connected"; simp)+
  then show "connectionsSem one_subscriber = 1" "maxConns one_subscriber = 10"
    by (simp_all add: one_subscriber_def subscribe_client_def)
qed

lemma extract_acme: "extractChannel ''acme.BTC'' = ''acme.BTC''"
  by (simp add: extractChannel_def Let_def Split.simps HasPrefix_def)

theorem broadcast_alone_witness:
  "\<exists>s'. Broadcast 1700 one_subscriber ''acme.BTC'' (Some ''1'') [] [] = Inr s' \<and> srv_inv s'
     \<and> clients s' = clients one_subscriber"
  using broadcast_alone [OF one_subscriber_inv, of "''acme.BTC''" 1700 "Some ''1''" "[]" "[]"] extract_acme by auto

text \<open>Disconnecting a WebSocket client keeps the index consistent and removes the client from
  every channel, so no broadcast that starts afterwards touches the struct, whichever order the
  map lists the subscriptions in.\<close>

theorem disconnect_removes_everywhere:
  assumes "srv_inv s" and "set chs = subscriptions (heap s c)"
  shows "srv_inv (disconnectClient s c chs) \<and> (\<forall>ch. c \<notin> set (idx_Get (index (disconnectClient s c chs)) ch))
     \<and> (\<forall>now subject msg pos mid. \<exists>s'. Broadcast now (disconnectClient s c chs) subject msg pos mid = Inr s'
          \<and> heap s' c = heap (disconnectClient s c chs) c)"
proof (intro conjI allI)
  let ?s = "disconnectClient s c chs"
  show inv: "srv_inv ?s" using assms by (rule disconnect_inv(1))
  show "c \<notin> set (idx_Get (index ?s) ch)" for ch using assms by (rule disconnect_gone)
  have gone: "c \<notin> clients ?s" by (simp add: disconnect_parts)
  show "\<exists>s'. Broadcast now ?s subject msg pos mid = Inr s' \<and> heap s' c = heap ?s c" for now subject msg pos mid
  proof (cases "extractChannel subject = []")
    case True
    then show ?thesis by (simp add: Broadcast_def Let_def)
  next
    case False
    from Broadcast_heap [OF inv this, of now msg pos mid] gone show ?thesis by metis
  qed
qed

theorem disconnect_removes_everywhere_witness:
  "srv_inv (disconnectClient one_subscriber 0 [''acme.BTC''])
     \<and> (\<forall>ch. 0 \<notin> set (idx_Get (index (disconnectClient one_subscriber 0 [''acme.BTC''])) ch))
     \<and> (\<forall>now subject msg pos mid. \<exists>s'. Broadcast now (disconnectClient one_subscriber 0 [''acme.BTC'']) subject msg pos mid = Inr s'
          \<and> heap s' 0 = heap (disconnectClient one_subscriber 0 [''acme.BTC'']) 0)"
  by (rule disconnect_removes_everywhere [OF one_subscriber_inv]) (simp add: one_subscriber_def subscribe_client_def one_connected_clients)

text \<open>The gRPC stream handler tears down in the other order: after it closed the send channel of
  a subscribed client and before it removed the client from the index, a broadcast to one of the
  client's channels panics.\<close>

theorem sse_teardown_panics_broadcast:
  assumes "srv_inv s" and "c \<in> clients s" and "ch \<in> subscriptions (heap s c)" and "extractChannel ch \<noteq> []"
  shows "Broadcast now (sse_close s c) ch msg pos mid = Inl SendOnClosedChannel"
proof -
  have c: "c \<in> set (idx_Get (index s) ch)" and d: "distinct (idx_Get (index s) ch)"
    using assms idx.subs_distinct by (auto simp: srv_inv_def)
  have "transport (heap s c) \<noteq> None" using assms by (auto simp: srv_inv_def)
  then have "broadcast_loop ch pos now (NewBroadcastEnvelope ch now msg pos mid) (idx_Get (index s) ch) (sse_close s c)
      = Inl SendOnClosedChannel"
    by (intro broadcast_loop_panics [OF c d]) (simp_all add: sse_close_def close_send_of_def close_transport_def)
  moreover have "index (sse_close s c) = index s" by (simp add: sse_close_def close_send_of_def close_transport_def)
  ultimately show ?thesis using c extractChannel_id [OF assms(4)] assms(4)
    by (auto simp: Broadcast_def Let_def)
qed

theorem sse_teardown_panics_broadcast_witness:
  "Broadcast 1700 (sse_close one_subscriber 0) ''acme.BTC'' (Some ''1'') [] [] = Inl SendOnClosedChannel"
  by (rule sse_teardown_panics_broadcast [OF one_subscriber_inv])
     (simp_all add: extract_acme, simp_all add: one_subscriber_def subscribe_client_def one_connected_clients)

text \<open>A broadcast that took its snapshot of subscribers before a client disconnected, and whose
  loop reaches the client after the pooled struct was given to another connection, delivers the
  message to that connection, which has not subscribed to anything.\<close>

theorem stale_snapshot_reaches_next_connection:
  assumes "c \<in> set (idx_Get (index s) ch)" and "0 < bufferSize (pool s)"
    and "connect_ws (disconnectClient s c chs) c g True ip tenant2 key user conn = (s1, Connected)"
  shows "subscriptions (heap s1 c) = {} \<and> cl_tenantID (heap s1 c) = tenant2 \<and>
    (\<exists>s2. broadcast_loop ch pos now env [c] s1 = Inr s2
       \<and> send (heap s2 c) = [\<lparr>raw = None, envelope = Some env, mseq = 1\<rparr>])"
proof -
  let ?d = "disconnectClient s c chs"
  obtain k where h: "heap s1 c = (pool_Get (pool s) (pool_Put (closeSend (close_once (heap s c)))))
      \<lparr>transportClosed := False, cl_id := i64 (clientCount ?d + 1), transport := Some TransportWebSocket,
       remoteAddr := ip, cl_tenantID := tenant2, apiKeyID := key, cl_userID := user, connID := k\<rparr>"
    using assms(3) tenant_connect_frame(1)
    by (auto simp: connect_ws_def acquire_slot_def take_client_def store_client_def Let_def disconnect_parts(7,8)
        split: if_splits option.splits)
  have "transport (heap s1 c) \<noteq> None" "\<not> sendClosed (heap s1 c)" "send (heap s1 c) = []" "sendCap (heap s1 c) = bufferSize (pool s)"
    "counter (seqGen (heap s1 c)) = 0" "subscriptions (heap s1 c) = {}" "cl_tenantID (heap s1 c) = tenant2"
    by (simp_all add: h pool_Get_def pool_Put_def set_Clear_def seq_Reset_def Let_def)
  then show ?thesis using assms(2) deliver_one_room [of "heap s1 c"] by (simp add: i64_id)
qed

lemma one_subscriber_replaced:
  "\<exists>s1. connect_ws (disconnectClient one_subscriber 0 [''acme.BTC'']) 0 2 True ''10.0.0.2'' [] [] ''bob'' [] = (s1, Connected)"
proof -
  have "connectionsSem (disconnectClient one_subscriber 0 [''acme.BTC'']) < maxConns (disconnectClient one_subscriber 0 [''acme.BTC''])"
    using one_subscriber_slots disconnect_slots(1,2) [of one_subscriber 0] by simp
  then show ?thesis
    by (simp add: connect_ws_def acquire_slot_def Let_def tenant_connect_def split: option.splits)
qed

theorem stale_snapshot_reaches_next_connection_witness:
  "\<exists>s1 s2. connect_ws (disconnectClient one_subscriber 0 [''acme.BTC'']) 0 2 True ''10.0.0.2'' [] [] ''bob'' [] = (s1, Connected)
     \<and> subscriptions (heap s1 0) = {}
     \<and> broadcast_loop ''acme.BTC'' [] 1700 (NewBroadcastEnvelope ''acme.BTC'' 1700 (Some ''1'') [] []) [0] s1 = Inr s2
     \<and> send (heap s2 0) = [\<lparr>raw = None, envelope = Some (NewBroadcastEnvelope ''acme.BTC'' 1700 (Some ''1'') [] []), mseq = 1\<rparr>]"
proof -
  have "0 \<in> set (idx_Get (index one_subscriber) ''acme.BTC'')"
    using one_subscriber_inv
    by (simp add: srv_inv_def) (simp add: one_subscriber_def subscribe_client_def one_connected_clients)
  moreover have b: "0 < bufferSize (pool one_subscriber)" by (simp add: one_subscriber_def subscribe_client_def one_connected_clients)
  moreover obtain s1 where s1:
    "connect_ws (disconnectClient one_subscriber 0 [''acme.BTC'']) 0 2 True ''10.0.0.2'' [] [] ''bob'' [] = (s1, Connected)"
    using one_subscriber_replaced by blast
  ultimately show ?thesis
    using stale_snapshot_reaches_next_connection [of 0 one_subscriber "''acme.BTC''" "[''acme.BTC'']" 2 "''10.0.0.2''" "[]" "[]" "''bob''" "[]" s1]
    by blast
qed

section \<open>Sequences of operations\<close>

lemma srv_inv_sse_connect [inv_intros]:
  assumes "srv_inv s" and "c \<notin> clients s" and "set ord = set chs"
  shows "srv_inv (fst (sse_connect s c ch remote t chs ord))"
proof (cases "acquire_slot s")
  case None
  with assms show ?thesis by (simp add: sse_connect_def)
next
  case (Some s1)
  then have s1: "heap s1 = heap s" "index s1 = index s" "clients s1 = clients s" "pool s1 = pool s"
    by (auto simp: acquire_slot_def split: if_splits)
  define s2 where "s2 = store_client (take_client s1 c
     (\<lambda>cl. cl\<lparr>transport := Some TransportGRPCStream, remoteAddr := remote, cl_tenantID := t\<rparr>)) c"
  have s2: "index s2 = index s" "clients s2 = insert c (clients s)" "\<And>d. d \<noteq> c \<Longrightarrow> heap s2 d = heap s d"
    "transport (heap s2 c) \<noteq> None" "\<not> sendClosed (heap s2 c)" "subscriptions (heap s2 c) = {}"
    using s1 by (simp_all add: s2_def store_client_def take_client_def Let_def pool_Get_def set_Clear_def)
  have "d \<in> set (idx_Get (index s) x) \<longleftrightarrow> d \<in> insert c (clients s) \<and> x \<in> subscriptions (heap s2 d)" for x d
    using assms s2 by (cases "d = c") (simp_all add: srv_inv_def)
  moreover have "transport (heap s2 d) \<noteq> None \<and> \<not> sendClosed (heap s2 d)" if "d \<in> insert c (clients s)" for d
    using assms s2 that by (cases "d = c") (simp_all add: srv_inv_def)
  ultimately have i2: "srv_inv s2" using assms(1) s2(1,2) by (simp add: srv_inv_def)
  define s3 where "s3 = subscribe_client s2 c chs"
  have i3: "srv_inv s3" unfolding s3_def by (rule srv_inv_subscribe [OF i2]) (simp add: s2)
  have subs3: "set ord = subscriptions (heap s3 c)" using s2(6) assms(3) by (simp add: s3_def subscribe_client_def)
  show ?thesis
  proof (cases "tenant_connect t ch s3")
    case None
    define s4 where "s4 = fst (sse_connect s c ch remote t chs ord)"
    have "clients s4 = clients s3 - {c}" "index s4 = idx_RemoveMultiple (index s3) ord c" "\<And>d. d \<noteq> c \<Longrightarrow> heap s4 d = heap s3 d"
      using Some None
      by (simp_all add: s4_def sse_connect_def Let_def delete_client_def put_client_def sse_close_def close_send_of_def
          close_transport_def flip: s2_def s3_def)
    then show ?thesis using srv_inv_remove [OF i3 subs3] by (simp add: s4_def)
  next
    case s4: (Some s4)
    then have "fst (sse_connect s c ch remote t chs ord) = s4"
      using Some by (simp add: sse_connect_def Let_def flip: s2_def s3_def)
    moreover have "srv_inv s4 = srv_inv s3" using tenant_connect_frame [OF s4] by (intro srv_inv_cong)
    ultimately show ?thesis using i3 by simp
  qed
qed

lemma srv_inv_fresh: "clients s = {} \<Longrightarrow> index s = NewSubscriptionIndex \<Longrightarrow> srv_inv s"
  by (simp add: srv_inv_def idx_inv_new) (simp add: NewSubscriptionIndex_def idx_Get_def)

lemma broadcast_loop_slots:
  "broadcast_loop channel pos now env cs s = Inr s' \<Longrightarrow>
     clients s' = clients s \<and> connectionsSem s' = connectionsSem s \<and> maxConns s' = maxConns s"
proof (induction cs arbitrary: s)
  case (Cons c cs)
  then show ?case by (auto split: sum.splits)
qed simp

lemma Broadcast_slots:
  "Broadcast now s subject msg pos mid = Inr s' \<Longrightarrow>
     clients s' = clients s \<and> connectionsSem s' = connectionsSem s \<and> maxConns s' = maxConns s"
  by (auto simp: Broadcast_def Let_def split: if_splits dest: broadcast_loop_slots)

lemma srv_inv_Broadcast:
  assumes "srv_inv s" and "Broadcast now s subject msg pos mid = Inr s'"
  shows "srv_inv s'"
proof (cases "extractChannel subject = []")
  case True
  with assms show ?thesis by (simp add: Broadcast_def Let_def)
next
  case False
  let ?ch = "extractChannel subject"
  let ?env = "NewBroadcastEnvelope ?ch now msg pos mid"
  have h: "if c \<in> clients s \<and> ?ch \<in> subscriptions (heap s c)
      then deliver_one (SlowClientMaxAttempts s) ?ch pos now ?env (heap s c) = Inr (heap s' c) else heap s' c = heap s c" for c
    using Broadcast_heap [OF assms(1) False, of now msg pos mid] assms(2) by auto
  have i: "index s' = index s" "clients s' = clients s"
    using Broadcast_heap [OF assms(1) False, of now msg pos mid] assms(2) by auto
  have "subscriptions (heap s' c) = subscriptions (heap s c)
      \<and> (c \<in> clients s \<longrightarrow> transport (heap s' c) \<noteq> None \<and> \<not> sendClosed (heap s' c))" for c
    using h [of c] assms(1) deliver_one_live [of "heap s c" "SlowClientMaxAttempts s" ?ch pos now ?env]
    by (auto simp: srv_inv_def split: if_splits)
  with assms(1) i show ?thesis by (auto simp: srv_inv_def)
qed

text \<open>Disconnecting gives the slot back but not the rate limiter's bucket: the struct's id is
  already reset when the limiter is told, so the bucket of the disconnected client stays.\<close>

theorem disconnect_leaks_rate_bucket:
  assumes "cl_id (heap s c) \<in> rateBuckets s" and "cl_id (heap s c) \<noteq> 0"
  shows "connectionsSem (disconnectClient s c chs) = connectionsSem s - 1
     \<and> cl_id (heap s c) \<in> rateBuckets (disconnectClient s c chs)"
proof -
  have "rateBuckets (disconnectClient s c chs) = rateBuckets s - {0}"
    by (simp add: disconnectClient_def disconnect_unindex_def delete_client_def put_client_def close_send_of_def
        close_transport_def pool_Put_def Let_def)
  with assms show ?thesis by (simp add: disconnect_slots)
qed

theorem disconnect_leaks_rate_bucket_witness:
  "1 \<in> rateBuckets (disconnectClient (idle_server\<lparr>heap := \<lambda>_. (heap idle_server 0)\<lparr>cl_id := 1\<rparr>, rateBuckets := {1}\<rparr>) 0 [])"
  using disconnect_leaks_rate_bucket [of "idle_server\<lparr>heap := \<lambda>_. (heap idle_server 0)\<lparr>cl_id := 1\<rparr>, rateBuckets := {1}\<rparr>" 0 "[]"]
  by simp

end
