(* ===== verification/Replay.thy ===== *)
theory Replay
  imports Broadcast Decimal Channels
begin

text \<open>
  Recovery of missed messages in the message server: \<open>server/replay_shared.go\<close> and the reconnect
  handler of \<open>server/handlers_message.go\<close>. The message backend is the interface of
  \<open>server/backend/backend.go\<close>, a record of the functions the handlers call; a Go map a loop ranges
  over is the list of its entries in the order of the iteration. JSON objects built from Go maps
  are rendered with their keys in sorted order, as the encoder does.
\<close>

section \<open>The backend\<close>

record replay_message =
  rm_Subject :: string
  rm_Data :: "string option"
  rm_Pos :: string
  rm_Mid :: string

record replay_request =
  Positions :: "string \<rightharpoonup> (int \<rightharpoonup> int)"
  MaxMessages :: int
  ReplaySubscriptions :: "string list"

datatype publish_error =
  ErrNoMatchingRoute | ErrPublishNotRoutable | ErrInvalidChannel | ErrTopicNotProvisioned
| ErrServiceUnavailable | ErrBusUnavailable | ErrOtherPublish

datatype replay_error = OffsetOutOfRange | ErrOtherReplay

record backend =
  ChannelTopic :: "string \<Rightarrow> string option"
  be_Replay :: "replay_request \<Rightarrow> replay_error + replay_message list"
  be_Publish :: "int \<Rightarrow> string \<Rightarrow> string \<Rightarrow> string \<Rightarrow> publish_error + string"

record handler_config =
  MaxChannelsPerClient :: int
  MaxReplayMessages :: int
  HistoryEnabled :: bool
  HistoryMaxLimit :: int
  ReplayRateLimitInterval :: int

section \<open>Authorising a cursor\<close>

record cursor_state =
  cs_positions :: "string \<rightharpoonup> (int \<rightharpoonup> int)"
  cs_authorized :: "string list"
  cs_new :: int

text \<open>The earliest offset per topic and partition is kept.\<close>

definition lower_position :: "string \<Rightarrow> int \<Rightarrow> int \<Rightarrow> (string \<rightharpoonup> (int \<rightharpoonup> int)) \<Rightarrow> (string \<rightharpoonup> (int \<rightharpoonup> int))" where
  "lower_position topic part nextOffset ps =
     (let inner = (case ps topic of None \<Rightarrow> Map.empty | Some m \<Rightarrow> m)
      in ps(topic \<mapsto> (case inner part of
                        None \<Rightarrow> inner(part \<mapsto> nextOffset)
                      | Some existing \<Rightarrow> if nextOffset < existing then inner(part \<mapsto> nextOffset) else inner)))"

definition authorize_one ::
  "handler_config \<Rightarrow> backend \<Rightarrow> client \<Rightarrow> string \<Rightarrow> string \<Rightarrow> cursor_state \<Rightarrow> cursor_state" where
  "authorize_one cfg be c channel posStr cs =
     (if \<not> ValidateChannelTenant channel (cl_tenantID c) then cs
      else case DecodePos posStr of
             None \<Rightarrow> cs
           | Some (part, offset) \<Rightarrow>
               (case ChannelTopic be channel of
                  None \<Rightarrow> cs
                | Some topic \<Rightarrow>
                    if \<not> set_Has (subscriptions c) channel
                       \<and> int (set_Count (subscriptions c)) + cs_new cs \<ge> MaxChannelsPerClient cfg then cs
                    else cs\<lparr>cs_positions := lower_position topic part (i64 (offset + 1)) (cs_positions cs),
                            cs_authorized := cs_authorized cs @ [channel],
                            cs_new := (if set_Has (subscriptions c) channel then cs_new cs else cs_new cs + 1)\<rparr>))"

fun authorize_loop ::
  "handler_config \<Rightarrow> backend \<Rightarrow> client \<Rightarrow> (string \<times> string) list \<Rightarrow> cursor_state \<Rightarrow> cursor_state" where
  "authorize_loop cfg be c [] cs = cs"
| "authorize_loop cfg be c ((channel, posStr) # rest) cs =
     authorize_loop cfg be c rest (authorize_one cfg be c channel posStr cs)"

definition authorizeLastPos ::
  "handler_config \<Rightarrow> backend \<Rightarrow> client \<Rightarrow> (string \<times> string) list \<Rightarrow> (string \<rightharpoonup> (int \<rightharpoonup> int)) \<times> string list" where
  "authorizeLastPos cfg be c lastPos =
     (let cs = authorize_loop cfg be c lastPos \<lparr>cs_positions = Map.empty, cs_authorized = [], cs_new = 0\<rparr>
      in (cs_positions cs, cs_authorized cs))"

section \<open>Replaying to a client\<close>

text \<open>
  The forwarding loop: the client, the number forwarded, whether a record could not be
  serialised, and whether the buffer filled. The handlers run before the client's send channel
  is closed.
\<close>

fun forward_loop ::
  "(string \<Rightarrow> string option) \<Rightarrow> int \<Rightarrow> replay_message list \<Rightarrow> client \<Rightarrow> int \<Rightarrow> bool \<Rightarrow> client \<times> int \<times> bool \<times> bool" where
  "forward_loop compact now [] c n failed = (c, n, failed, False)"
| "forward_loop compact now (m # ms) c n failed =
     (let (g, seq) = seq_Next (seqGen c); c = c\<lparr>seqGen := g\<rparr>
      in case Serialize compact \<lparr>EnvType = ''message'', EnvSeq = seq, EnvTs = now, EnvChannel = rm_Subject m,
                EnvPriority = PriorityNormal, EnvData = rm_Data m, EnvPos = rm_Pos m, EnvMid = rm_Mid m\<rparr> of
           None \<Rightarrow> forward_loop compact now ms c n True
         | Some data \<Rightarrow>
             (case try_send (RawMsg data) c of
                SendOK c' \<Rightarrow> forward_loop compact now ms c' (n + 1) failed
              | _ \<Rightarrow> (c, n, failed, True)))"

text \<open>\<open>expired\<close> tells whether the replay context has expired at the end.\<close>

definition replayAuthorizedToClient ::
  "(string \<Rightarrow> string option) \<Rightarrow> handler_config \<Rightarrow> backend \<Rightarrow> int \<Rightarrow> bool \<Rightarrow> client \<Rightarrow> (string \<rightharpoonup> (int \<rightharpoonup> int)) \<Rightarrow> string list
     \<Rightarrow> replay_error + (client \<times> int \<times> bool)" where
  "replayAuthorizedToClient compact cfg be now expired c positions authorized =
     (case be_Replay be \<lparr>Positions = positions, MaxMessages = MaxReplayMessages cfg, ReplaySubscriptions = authorized\<rparr> of
        Inl e \<Rightarrow> Inl e
      | Inr msgs \<Rightarrow>
          (case forward_loop compact now msgs c 0 False of
             (c', n, failed, full) \<Rightarrow>
               Inr (c', n, full \<or> int (length msgs) \<ge> MaxReplayMessages cfg \<or> expired \<or> failed)))"

section \<open>The recovery verdict\<close>

fun gap_loop :: "string set \<Rightarrow> string list \<Rightarrow> string set \<Rightarrow> string list \<Rightarrow> string list" where
  "gap_loop recovered [] seen acc = acc"
| "gap_loop recovered (ch # chs) seen acc =
     (if ch \<in> recovered then gap_loop recovered chs seen acc
      else if ch \<in> seen then gap_loop recovered chs seen acc
      else gap_loop recovered chs (insert ch seen) (acc @ [ch]))"

text \<open>\<open>slices.Sort\<close> on strings: the byte-wise order is total, so any sort gives the same list.\<close>

fun str_le :: "string \<Rightarrow> string \<Rightarrow> bool" where
  "str_le [] _ = True"
| "str_le (a # s) [] = False"
| "str_le (a # s) (b # t) = (if byte a = byte b then str_le s t else byte a < byte b)"

fun insert_str :: "string \<Rightarrow> string list \<Rightarrow> string list" where
  "insert_str x [] = [x]"
| "insert_str x (y # ys) = (if str_le x y then x # y # ys else y # insert_str x ys)"

fun sort_strings :: "string list \<Rightarrow> string list" where
  "sort_strings [] = []"
| "sort_strings (x # xs) = insert_str x (sort_strings xs)"

definition recoveryOutcome :: "string list \<Rightarrow> string list \<Rightarrow> bool \<Rightarrow> replay_error option \<Rightarrow> string list \<times> bool" where
  "recoveryOutcome requested authorized truncated0 replayErr =
     (let truncated = (if replayErr \<noteq> None then False else truncated0);
          recovered = (if replayErr = None \<and> \<not> truncated then set authorized else {})
      in (sort_strings (gap_loop recovered requested {} []), truncated))"

section \<open>Replies\<close>

definition json_obj :: "(string \<times> string) list \<Rightarrow> string" where
  "json_obj kvs = ''{'' @ Join (map (\<lambda>(k, v). json_key k @ v) kvs) '','' @ ''}''"

definition json_strings :: "string list \<Rightarrow> string" where
  "json_strings xs = ''['' @ Join (map json_string xs) '','' @ '']''"

definition upd_client :: "server \<Rightarrow> cref \<Rightarrow> (client \<Rightarrow> client) \<Rightarrow> server" where
  "upd_client s c f = s\<lparr>heap := (heap s)(c := f (heap s c))\<rparr>"

text \<open>Replies are sent without blocking; a full buffer drops them.\<close>

definition send_raw :: "string \<Rightarrow> client \<Rightarrow> client" where
  "send_raw data c = (case try_send (RawMsg data) c of SendOK c' \<Rightarrow> c' | _ \<Rightarrow> c)"

definition sendErrorToClient :: "string \<Rightarrow> string \<Rightarrow> string \<Rightarrow> client \<Rightarrow> client" where
  "sendErrorToClient errType code msg =
     send_raw (json_obj [(''code'', json_string code), (''message'', json_string msg), (''type'', json_string errType)])"

definition reconnect_ack :: "int \<Rightarrow> string \<Rightarrow> client \<Rightarrow> client" where
  "reconnect_ack n msg =
     send_raw (json_obj [(''message'', json_string msg), (''messages_replayed'', FormatInt n),
                         (''status'', json_string ''completed''), (''type'', json_string ''reconnect_ack'')])"

definition push_subscriptions ::
  "(string \<Rightarrow> string set \<Rightarrow> bool \<Rightarrow> registry_event) \<Rightarrow> handler_config \<Rightarrow> cref \<Rightarrow> server \<Rightarrow> server" where
  "push_subscriptions ev cfg c s =
     (let cl = heap s c
      in push_registry (connID cl) (ev (connID cl) (subscriptions cl) (int (set_Count (subscriptions cl)) \<ge> MaxChannelsPerClient cfg)) s)"

text \<open>The request is the decoded \<open>last_pos\<close>, or a decoding failure.\<close>

definition handleReconnect ::
  "(string \<Rightarrow> string option) \<Rightarrow> handler_config \<Rightarrow> backend option \<Rightarrow> int \<Rightarrow> bool \<Rightarrow> (string \<times> string) list option
     \<Rightarrow> cref \<Rightarrow> server \<Rightarrow> server" where
  "handleReconnect compact cfg be now expired req c s0 =
     (case req of
        None \<Rightarrow> upd_client s0 c (sendErrorToClient ''reconnect_error'' ''invalid_request'' ''Invalid reconnect request format'')
      | Some lastPos \<Rightarrow>
          (case be of
             None \<Rightarrow> upd_client s0 c (sendErrorToClient ''reconnect_error'' ''not_available''
                       ''Message replay not available (no backend configured)'')
           | Some be \<Rightarrow>
               (case authorizeLastPos cfg be (heap s0 c) lastPos of
                  (positions, authorized) \<Rightarrow>
                    if dom positions = {} then upd_client s0 c (reconnect_ack 0 ''No replayable channels'')
                    else
                      let s = push_subscriptions RegSubscribe cfg c (subscribe_client s0 c authorized)
                      in case replayAuthorizedToClient compact cfg be now expired (heap s c) positions authorized of
                           Inl e \<Rightarrow> upd_client s c (sendErrorToClient ''reconnect_error'' ''replay_failed'' ''Message replay failed'')
                         | Inr (cl, n, truncated) \<Rightarrow>
                             upd_client s c (\<lambda>_. reconnect_ack n (''Replayed '' @ FormatInt n @ '' missed messages'') cl))))"

section \<open>Lemmas on the cursor\<close>

definition cursor_ok :: "handler_config \<Rightarrow> client \<Rightarrow> cursor_state \<Rightarrow> bool" where
  "cursor_ok cfg c cs \<longleftrightarrow> distinct (cs_authorized cs) \<and> list_all (\<lambda>ch. ValidateChannelTenant ch (cl_tenantID c)) (cs_authorized cs)
     \<and> cs_new cs = int (card (set (cs_authorized cs) - subscriptions c))
     \<and> (int (card (subscriptions c)) \<le> MaxChannelsPerClient cfg \<longrightarrow> int (card (subscriptions c)) + cs_new cs \<le> MaxChannelsPerClient cfg)"

lemma authorize_one_ok:
  assumes "cursor_ok cfg c cs" and "ch \<notin> set (cs_authorized cs)"
  shows "cursor_ok cfg c (authorize_one cfg be c ch pos cs)"
    and "set (cs_authorized (authorize_one cfg be c ch pos cs)) \<subseteq> insert ch (set (cs_authorized cs))"
  using assms
  by (auto simp: cursor_ok_def authorize_one_def set_Has_def set_Count_def insert_Diff_if split: option.splits)

lemma authorize_loop_ok:
  assumes "cursor_ok cfg c cs" and "distinct (map fst lp)" and "set (map fst lp) \<inter> set (cs_authorized cs) = {}"
  shows "cursor_ok cfg c (authorize_loop cfg be c lp cs)
     \<and> set (cs_authorized (authorize_loop cfg be c lp cs)) \<subseteq> set (map fst lp) \<union> set (cs_authorized cs)"
  using assms
proof (induction cfg be c lp cs rule: authorize_loop.induct)
  case (2 cfg be c ch pos rest cs)
  let ?cs = "authorize_one cfg be c ch pos cs"
  have new: "ch \<notin> set (cs_authorized cs)" using "2.prems"(3) by auto
  have "set (map fst rest) \<inter> set (cs_authorized ?cs) = {}"
    using authorize_one_ok(2) [OF "2.prems"(1) new, of be pos] "2.prems"(2,3) by auto
  with "2.IH" authorize_one_ok [OF "2.prems"(1) new, of be pos] "2.prems"(2) show ?case by auto
qed simp

lemma cursor_ok_init: "cursor_ok cfg c \<lparr>cs_positions = Map.empty, cs_authorized = [], cs_new = 0\<rparr>"
  by (simp add: cursor_ok_def)

lemma authorized_ok:
  assumes "authorizeLastPos cfg be c lp = (ps, auth)" and "distinct (map fst lp)"
  shows "distinct auth" and "list_all (\<lambda>ch. ValidateChannelTenant ch (cl_tenantID c)) auth" and "set auth \<subseteq> set (map fst lp)"
    and "finite (subscriptions c) \<Longrightarrow> int (card (subscriptions c)) \<le> MaxChannelsPerClient cfg \<Longrightarrow>
      int (card (subscriptions c \<union> set auth)) \<le> MaxChannelsPerClient cfg"
proof -
  let ?cs = "authorize_loop cfg be c lp \<lparr>cs_positions = Map.empty, cs_authorized = [], cs_new = 0\<rparr>"
  have a: "auth = cs_authorized ?cs" using assms(1) by (auto simp: authorizeLastPos_def Let_def)
  have ok: "cursor_ok cfg c ?cs" "set auth \<subseteq> set (map fst lp)"
    using authorize_loop_ok [OF cursor_ok_init assms(2)] by (simp_all add: a)
  then show "distinct auth" "list_all (\<lambda>ch. ValidateChannelTenant ch (cl_tenantID c)) auth" "set auth \<subseteq> set (map fst lp)"
    by (simp_all add: cursor_ok_def a)
  show "int (card (subscriptions c \<union> set auth)) \<le> MaxChannelsPerClient cfg"
    if "finite (subscriptions c)" "int (card (subscriptions c)) \<le> MaxChannelsPerClient cfg"
  proof -
    have "subscriptions c \<union> set auth = subscriptions c \<union> (set auth - subscriptions c)" by auto
    then have "card (subscriptions c \<union> set auth) \<le> card (subscriptions c) + card (set auth - subscriptions c)"
      using card_Un_le by metis
    with ok(1) that show ?thesis by (auto simp: cursor_ok_def a)
  qed
qed

text \<open>The start offset kept for a topic and partition, if any.\<close>

definition start_of :: "(string \<rightharpoonup> (int \<rightharpoonup> int)) \<Rightarrow> string \<Rightarrow> int \<Rightarrow> int option" where
  "start_of ps topic part = (case ps topic of None \<Rightarrow> None | Some m \<Rightarrow> m part)"

lemma start_of_lower:
  "start_of (lower_position t p o' ps) t' p' =
     (if t' = t \<and> p' = p then Some (case start_of ps t p of None \<Rightarrow> o' | Some x \<Rightarrow> min o' x) else start_of ps t' p')"
  by (auto simp: start_of_def lower_position_def Let_def min_def split: option.splits)

definition covered :: "backend \<Rightarrow> cursor_state \<Rightarrow> string \<Rightarrow> string \<Rightarrow> bool" where
  "covered be cs ch pos \<longleftrightarrow> (\<exists>topic part offset start. ChannelTopic be ch = Some topic \<and> DecodePos pos = Some (part, offset)
     \<and> start_of (cs_positions cs) topic part = Some start \<and> start \<le> i64 (offset + 1))"

lemma authorize_one_covers:
  "ch \<in> set (cs_authorized (authorize_one cfg be c ch pos cs)) \<Longrightarrow> ch \<notin> set (cs_authorized cs) \<Longrightarrow>
     covered be (authorize_one cfg be c ch pos cs) ch pos"
  by (auto simp: authorize_one_def covered_def start_of_lower split: option.splits if_splits)

lemma start_of_lower_le:
  "start_of ps t p = Some x \<Longrightarrow> \<exists>y. y \<le> x \<and> start_of (lower_position t' p' o' ps) t p = Some y"
  by (auto simp: start_of_lower)

lemma authorize_one_positions:
  "cs_positions (authorize_one cfg be c ch pos cs) = cs_positions cs
   \<or> (\<exists>t p o'. cs_positions (authorize_one cfg be c ch pos cs) = lower_position t p o' (cs_positions cs))"
  by (auto simp: authorize_one_def split: option.splits)

lemma authorize_one_keeps:
  assumes "covered be cs ch' pos'" shows "covered be (authorize_one cfg be c ch pos cs) ch' pos'"
proof -
  obtain topic part offset start where h: "ChannelTopic be ch' = Some topic" "DecodePos pos' = Some (part, offset)"
    "start_of (cs_positions cs) topic part = Some start" "start \<le> i64 (offset + 1)"
    using assms by (auto simp: covered_def)
  obtain y where "y \<le> start" "start_of (cs_positions (authorize_one cfg be c ch pos cs)) topic part = Some y"
    using authorize_one_positions [of cfg be c ch pos cs] start_of_lower_le [OF h(3)] h(3) by (metis order.refl)
  with h show ?thesis by (auto simp: covered_def)
qed

lemma authorize_loop_keeps: "covered be cs ch' pos' \<Longrightarrow> covered be (authorize_loop cfg be c lp cs) ch' pos'"
  by (induction cfg be c lp cs rule: authorize_loop.induct) (auto intro: authorize_one_keeps)

lemma authorize_loop_covers:
  assumes "distinct (map fst lp)" and "(ch, pos) \<in> set lp" and "ch \<notin> set (cs_authorized cs)"
    and "ch \<in> set (cs_authorized (authorize_loop cfg be c lp cs))"
  shows "covered be (authorize_loop cfg be c lp cs) ch pos"
  using assms
proof (induction cfg be c lp cs rule: authorize_loop.induct)
  case (2 cfg be c ch0 pos0 rest cs)
  let ?cs = "authorize_one cfg be c ch0 pos0 cs"
  have grow: "set (cs_authorized (authorize_one cfg be c a b x)) \<subseteq> insert a (set (cs_authorized x))" for a b x
    by (auto simp: authorize_one_def split: option.splits)
  have stay: "y \<in> set (map fst l) \<union> set (cs_authorized x)" if "y \<in> set (cs_authorized (authorize_loop cfg be c l x))" for y l x
    using that
  proof (induction cfg be c l x rule: authorize_loop.induct)
    case (2 cfg be c a b l x)
    from "2.IH" [OF "2.prems" [simplified]] show ?case
      by (auto simp: authorize_one_def split: option.splits if_splits)
  qed simp
  show ?case
  proof (cases "(ch, pos) = (ch0, pos0)")
    case True
    then have "ch \<notin> set (map fst rest)" using "2.prems"(1) by auto
    with stay [of ch rest ?cs] "2.prems"(4) have "ch \<in> set (cs_authorized ?cs)" by auto
    with True "2.prems"(3) have "covered be ?cs ch pos" using authorize_one_covers by blast
    then show ?thesis using authorize_loop_keeps by simp
  next
    case False
    with "2.prems"(1,2) have "(ch, pos) \<in> set rest" "ch \<noteq> ch0" by force+
    with "2.IH" "2.prems" grow [of ch0 pos0 cs] show ?thesis by auto
  qed
qed simp

section \<open>Properties\<close>

text \<open>A cursor sent by a client authorises only channels of the client's own tenant that the
  cursor names, each once, and never so many that the client's channels exceed the limit;
  for every authorised channel the replay starts no later than the message after the one the
  client has, on the partition its position names.\<close>

theorem reconnect_cursor_safe:
  assumes "authorizeLastPos cfg be c lp = (ps, auth)" and "distinct (map fst lp)" and "finite (subscriptions c)"
    and "int (card (subscriptions c)) \<le> MaxChannelsPerClient cfg"
  shows "list_all (\<lambda>ch. ValidateChannelTenant ch (cl_tenantID c)) auth \<and> distinct auth \<and> set auth \<subseteq> set (map fst lp)
     \<and> int (card (subscriptions c \<union> set auth)) \<le> MaxChannelsPerClient cfg
     \<and> list_all (\<lambda>(ch, pos). ch \<in> set auth \<longrightarrow>
         (\<exists>topic part offset start. ChannelTopic be ch = Some topic \<and> DecodePos pos = Some (part, offset)
            \<and> start_of ps topic part = Some start \<and> start \<le> i64 (offset + 1))) lp"
proof -
  let ?cs = "authorize_loop cfg be c lp \<lparr>cs_positions = Map.empty, cs_authorized = [], cs_new = 0\<rparr>"
  have a: "auth = cs_authorized ?cs" "ps = cs_positions ?cs" using assms(1) by (auto simp: authorizeLastPos_def Let_def)
  have "covered be ?cs ch pos" if "(ch, pos) \<in> set lp" "ch \<in> set auth" for ch pos
    using authorize_loop_covers [OF assms(2) that(1)] that(2) by (simp add: a)
  then have "list_all (\<lambda>(ch, pos). ch \<in> set auth \<longrightarrow> covered be ?cs ch pos) lp" by (auto simp: list_all_iff)
  then show ?thesis using authorized_ok [OF assms(1,2)] assms(3,4) by (simp add: covered_def a(2))
qed

definition demo_backend :: backend where
  "demo_backend = \<lparr>ChannelTopic = (\<lambda>_. Some ''prod.acme.default''), be_Replay = (\<lambda>_. Inr []), be_Publish = (\<lambda>_ _ _ _. Inr ''m'')\<rparr>"

definition demo_config :: handler_config where
  "demo_config = \<lparr>MaxChannelsPerClient = 2, MaxReplayMessages = 100, HistoryEnabled = True, HistoryMaxLimit = 50, ReplayRateLimitInterval = 1000\<rparr>"

definition demo_client :: client where
  "demo_client = (pool_New \<lparr>bufferSize = 4, gapNotifyBufferSize = 1\<rparr>)\<lparr>cl_tenantID := ''acme'', subscriptions := {}\<rparr>"

lemma demo_cursor:
  "authorizeLastPos demo_config demo_backend demo_client [(''acme.BTC'', ''4-1200''), (''globex.BTC'', ''4-1200'')]
   = ([''prod.acme.default'' \<mapsto> [3 \<mapsto> 1201]], [''acme.BTC''])"
proof -
  have "DecodePos ''4-1200'' = Some (3, 1200)"
    by (simp add: go_defs DecodePos_def ParseInt_def posMaxPartitionPlusOne_def i32_def HasPrefix_def)
  then show ?thesis
    by (simp add: authorizeLastPos_def authorize_one_def lower_position_def demo_config_def demo_backend_def demo_client_def
        ValidateChannelTenant_def HasPrefix_def set_Has_def set_Count_def i64_id Let_def)
qed

theorem reconnect_cursor_safe_witness:
  "list_all (\<lambda>ch. ValidateChannelTenant ch ''acme'') [''acme.BTC'']
   \<and> int (card (subscriptions demo_client \<union> set [''acme.BTC''])) \<le> MaxChannelsPerClient demo_config"
  using reconnect_cursor_safe [OF demo_cursor] by (simp add: demo_client_def demo_config_def)

lemma gap_loop_spec:
  assumes "distinct acc" and "set acc = seen" and "seen \<inter> recovered = {}"
  shows "set (gap_loop recovered xs seen acc) = seen \<union> (set xs - recovered) \<and> distinct (gap_loop recovered xs seen acc)"
  using assms by (induction recovered xs seen acc rule: gap_loop.induct) auto

lemma insert_str_set [simp]: "set (insert_str x ys) = insert x (set ys)"
  by (induction ys) auto

lemma insert_str_length [simp]: "length (insert_str x ys) = Suc (length ys)"
  by (induction ys) auto

lemma sort_strings_set [simp]: "set (sort_strings xs) = set xs"
  by (induction xs) auto

lemma sort_strings_length [simp]: "length (sort_strings xs) = length xs"
  by (induction xs) auto

lemma sort_strings_distinct: "distinct xs \<Longrightarrow> distinct (sort_strings xs)"
  by (metis card_distinct distinct_card sort_strings_length sort_strings_set)

lemma str_le_total: "str_le a b \<or> str_le b a"
  by (induction a b rule: str_le.induct) auto

lemma str_le_trans: "str_le a b \<Longrightarrow> str_le b c \<Longrightarrow> str_le a c"
proof (induction a b arbitrary: c rule: str_le.induct)
  case (3 a s b t)
  then show ?case by (cases c) (auto split: if_splits)
qed auto

lemma sorted_insert_str: "sorted_wrt str_le ys \<Longrightarrow> sorted_wrt str_le (insert_str x ys)"
proof (induction ys)
  case (Cons y ys)
  then show ?case using str_le_total [of x y] str_le_trans [of x y] by auto
qed simp

lemma sorted_sort_strings: "sorted_wrt str_le (sort_strings xs)"
  by (induction xs) (auto intro: sorted_insert_str)

text \<open>The recovery verdict names, sorted and without repetition, exactly the requested channels
  that may have a gap: those not authorised for replay, and all of them when the replay failed
  or was cut short; a failed replay is never reported as truncated.\<close>

theorem recovery_outcome_exact:
  "set (fst (recoveryOutcome requested authorized truncated err)) =
     (if err = None \<and> \<not> truncated then set requested - set authorized else set requested)
   \<and> distinct (fst (recoveryOutcome requested authorized truncated err))
   \<and> sorted_wrt str_le (fst (recoveryOutcome requested authorized truncated err))
   \<and> snd (recoveryOutcome requested authorized truncated err) = (err = None \<and> truncated)"
proof -
  have "set (gap_loop r requested {} []) = set requested - r \<and> distinct (gap_loop r requested {} [])" for r
    using gap_loop_spec [of "[]" "{}" r requested] by simp
  then show ?thesis by (auto simp: recoveryOutcome_def Let_def sort_strings_distinct sorted_sort_strings)
qed

end
