(* ===== verification/JsonRoundTrip.thy ===== *)
theory JsonRoundTrip
  imports Json Replay
begin

text \<open>
  The rendering of \<open>Messaging\<close> and \<open>Replay\<close> (\<open>json_string\<close>, \<open>json_strings\<close>,
  \<open>json_obj\<close>) against the reading of \<open>Json\<close>: what was rendered is read back, and the compaction
  that \<open>json.Marshal\<close> applies to a \<open>json.RawMessage\<close> changes nothing a reader sees.
\<close>

section \<open>Tokens\<close>

text \<open>
  A token is the text of one value: wherever it stands before the end of the text, white space or
  a delimiter, the grammar reads exactly it.
\<close>

definition ends :: "string \<Rightarrow> bool" where
  "ends r \<longleftrightarrow> r = [] \<or> is_ws (hd r) \<or> hd r \<in> set '',}]''"

definition token :: "nat \<Rightarrow> string \<Rightarrow> bool" where
  "token d v \<longleftrightarrow> v \<noteq> [] \<and> \<not> is_ws (hd v) \<and> hd v \<noteq> CHR '']'' \<and> (\<forall>r. ends r \<longrightarrow> is_value d (v @ r) r)"

lemma not_ws [simp]: "\<not> is_ws (CHR 0x22)" "\<not> is_ws (CHR ''{'')" "\<not> is_ws (CHR ''}'')" "\<not> is_ws (CHR ''['')" "\<not> is_ws (CHR '']'')"
  "\<not> is_ws (CHR '','')" "\<not> is_ws (CHR '':'')" "\<not> is_ws (CHR ''-'')" "\<not> is_ws (CHR ''n'')"
  by (simp_all add: is_ws_def byte_def)

lemma skip_ws_id: "s = [] \<or> \<not> is_ws (hd s) \<Longrightarrow> skip_ws s = s"
  by (cases s) (auto simp: skip_ws_def)

lemma skip_ws_nws [simp]: "\<not> is_ws c \<Longrightarrow> skip_ws (c # s) = c # s" "skip_ws [] = []"
  by (simp_all add: skip_ws_def)

lemma skip_token: "token d v \<Longrightarrow> skip_ws (v @ r) = v @ r"
  by (cases v) (simp_all add: token_def)

lemma upto_append [simp]: "upto (a @ b) b = a" "upto (c # a @ b) b = c # a"
  by (simp_all add: upto_def Suc_diff_le)

lemma HasPrefix_Cons1 [simp]: "HasPrefix (c # s) [d] \<longleftrightarrow> c = d" "\<not> HasPrefix [] [d]"
  by (auto simp: HasPrefix_def)

lemma token_value: "token d v \<Longrightarrow> ends r \<Longrightarrow> is_value d (v @ r) r"
  by (simp add: token_def)

lemma ends_delims [simp]: "ends (CHR '','' # r)" "ends (CHR '']'' # r)" "ends (CHR ''}'' # r)" "ends []"
  by (simp_all add: ends_def)

lemma string_token: "token d (json_string s)"
  using scan_json_body [of s "CHR 0x22 # r" for r]
  by (auto simp: token_def json_string_def intro: val_string)

lemma token_no_close: "token d v \<Longrightarrow> \<not> HasPrefix (v @ r) '']''"
  by (cases v) (auto simp: token_def)

section \<open>Lists and objects\<close>

lemma value_array: "are_elements d t raws r \<Longrightarrow> is_value (Suc d) (CHR ''['' # t) r"
  by (rule val_array) simp_all

lemma value_object: "are_members d t kvs r \<Longrightarrow> is_value (Suc d) (CHR ''{'' # t) r"
  by (rule val_object) simp_all

lemma are_elements_Join:
  "list_all (token d) vs \<Longrightarrow> are_elements d (Join vs '','' @ CHR '']'' # r) vs r"
proof (induction vs)
  case Nil
  show ?case by (simp add: els_none)
next
  case (Cons v vs)
  then have v: "token d v" and IH: "are_elements d (Join vs '','' @ CHR '']'' # r) vs r" by simp_all
  show ?case
  proof (cases vs)
    case Nil
    have "are_elements d (v @ CHR '']'' # r) [upto (skip_ws (v @ CHR '']'' # r)) (CHR '']'' # r)] r"
      using v by (intro els_last) (simp_all add: skip_token token_no_close token_value)
    with Nil v show ?thesis by (simp add: skip_token)
  next
    case (Cons w ws)
    let ?q = "Join vs '','' @ CHR '']'' # r"
    have w: "token d w" using \<open>list_all (token d) (v # vs)\<close> Cons by simp
    have q: "\<exists>t. ?q = w @ t" using Cons by (cases ws) auto
    have "are_elements d (v @ CHR '','' # ?q) (upto (skip_ws (v @ CHR '','' # ?q)) (CHR '','' # ?q) # vs) r"
      using v w q IH by (intro els_more [of _ _ "CHR '','' # ?q" ?q]) (auto simp: skip_token token_no_close token_value)
    then show ?thesis using v Cons by (simp add: skip_token)
  qed
qed

lemma strings_token: "token (Suc d) (json_strings xs)"
proof -
  have "are_elements d (Join (map json_string xs) '','' @ CHR '']'' # r) (map json_string xs) r" for r
    by (intro are_elements_Join) (simp add: list_all_iff string_token)
  then show ?thesis by (auto simp: token_def json_strings_def intro: value_array)
qed

text \<open>Bodies of string literals, and keys of characters the encoder copies unchanged.\<close>

definition literal_body :: "string \<Rightarrow> bool" where
  "literal_body k \<longleftrightarrow> (\<forall>r. scan_string (k @ r) = scan_string r)"

abbreviation good_keys :: "(string \<times> string) list \<Rightarrow> bool" where
  "good_keys kvs \<equiv> list_all (\<lambda>(k, v). literal_body k) kvs"

abbreviation plain_keys :: "(string \<times> string) list \<Rightarrow> bool" where
  "plain_keys kvs \<equiv> list_all (\<lambda>(k, v). list_all json_plain k) kvs"

lemma plain_body: "list_all json_plain k \<Longrightarrow> scan_string (k @ r) = scan_string r" "list_all json_plain k \<Longrightarrow> unquote k = k"
proof -
  assume k: "list_all json_plain k"
  then show "scan_string (k @ r) = scan_string r" using scan_json_body [of k r] by (simp add: json_body_plain)
  have "valid_utf8 k" using k by (induction k) (simp_all add: json_plain_def)
  then show "unquote k = k" using unquote_json_body [of k] k by (simp add: json_body_plain)
qed

lemma plain_good: "plain_keys kvs \<Longrightarrow> good_keys kvs"
  by (auto simp: list_all_iff literal_body_def plain_body)

lemma are_members_Join:
  "list_all (\<lambda>(k, v). token d v) kvs \<Longrightarrow> good_keys kvs \<Longrightarrow>
     are_members d (Join (map (\<lambda>(k, v). json_key k @ v) kvs) '','' @ CHR ''}'' # r) kvs r"
proof (induction kvs)
  case Nil
  show ?case by (simp add: mem_none)
next
  case (Cons kv kvs)
  obtain k v where kv: "kv = (k, v)" by (cases kv)
  let ?q = "Join (map (\<lambda>(k, v). json_key k @ v) kvs) '','' @ CHR ''}'' # r"
  have v: "token d v" and k: "literal_body k" and IH: "are_members d ?q kvs r" using Cons kv by auto
  have key: "scan_string (k @ CHR 0x22 # t) = Some t" for t using k by (simp add: literal_body_def)
  have raw: "butlast (upto (k @ CHR 0x22 # t) t) = k" for t using upto_append(1) [of "k @ [CHR 0x22]" t] by simp
  show ?case
  proof (cases kvs)
    case Nil
    let ?w = "CHR ''}'' # r" and ?c = "CHR '':''"
    have "are_members d (json_key k @ v @ ?w) [(butlast (upto (k @ CHR 0x22 # ?c # v @ ?w) (?c # v @ ?w)), upto (skip_ws (v @ ?w)) ?w)] r"
      using v key by (intro mem_last [of _ _ "?c # v @ ?w" "v @ ?w"]) (simp_all add: json_key_def token_value)
    with Nil v kv show ?thesis by (simp add: skip_token raw)
  next
    case (Cons kv' kvs')
    let ?w = "CHR '','' # ?q" and ?c = "CHR '':''"
    have q: "\<exists>t. ?q = CHR 0x22 # t" using Cons by (cases kvs') (auto simp: json_key_def split: prod.splits)
    have "are_members d (json_key k @ v @ ?w) ((butlast (upto (k @ CHR 0x22 # ?c # v @ ?w) (?c # v @ ?w)), upto (skip_ws (v @ ?w)) ?w) # kvs) r"
      using v key IH q by (intro mem_more [of _ _ "?c # v @ ?w" "v @ ?w" _ ?w ?q]) (auto simp: json_key_def token_value)
    then show ?thesis using v kv Cons by (simp add: skip_token raw)
  qed
qed

lemma obj_token: "list_all (\<lambda>(k, v). token d v) kvs \<Longrightarrow> good_keys kvs \<Longrightarrow> token (Suc d) (json_obj kvs)"
  using are_members_Join [of d kvs, THEN value_object] by (simp add: token_def [of "Suc d"] json_obj_def)

text \<open>A token is valid, and its members are found.\<close>

lemma token_valid: "token maxNestingDepth v \<Longrightarrow> Valid v"
  using token_value [of maxNestingDepth v "[]"] scan_value_iff [of v "Suc (length v)" maxNestingDepth "[]"]
  by (simp add: Valid_def del: scan_value.simps)

lemma object_of_good:
  assumes v: "list_all (\<lambda>(k, v). token (maxNestingDepth - 1) v) kvs" and k: "good_keys kvs"
  shows "object_of (json_obj kvs) = Some (map (apfst unquote) kvs)"
proof -
  let ?t = "Join (map (\<lambda>(k, v). json_key k @ v) kvs) '','' @ ''}''"
  have obj: "json_obj kvs = CHR ''{'' # ?t" by (simp add: json_obj_def)
  have "Suc (maxNestingDepth - 1) = maxNestingDepth" by (simp add: maxNestingDepth_def)
  then have "Valid (json_obj kvs)" using obj_token [OF v k] by (auto intro: token_valid)
  moreover have "members (length (json_obj kvs)) (maxNestingDepth - 1) ?t = Some (kvs, [])"
    using are_members_Join [OF v k, of "[]"] by (intro scan_fuel(3)) (simp_all add: obj)
  ultimately show ?thesis by (simp add: object_of_def obj HasPrefix_def del: members.simps)
qed

lemma object_of_obj:
  assumes "list_all (\<lambda>(k, v). token (maxNestingDepth - 1) v) kvs" and k: "plain_keys kvs"
  shows "object_of (json_obj kvs) = Some kvs"
proof -
  have "map (apfst unquote) kvs = kvs"
    using k by (intro map_idI) (auto simp: list_all_iff plain_body(2))
  then show ?thesis using object_of_good [OF assms(1) plain_good [OF k]] by simp
qed

text \<open>White space before a text makes no difference to a reader.\<close>

lemma skip_ws_append: "list_all is_ws w \<Longrightarrow> skip_ws (w @ s) = skip_ws s"
  by (induction w) (simp_all add: skip_ws_def)

lemma members_iff: "length s \<le> n \<Longrightarrow> members n d s = Some (xs, r) \<longleftrightarrow> are_members d s xs r"
  using scan_sound [of n d s r _ xs] scan_fuel(3) [of d s xs r n] by auto

lemma elements_iff: "length s \<le> n \<Longrightarrow> elements n d s = Some (xs, r) \<longleftrightarrow> are_elements d s xs r"
  using scan_sound [of n d s r xs] scan_fuel(2) [of d s xs r n] by auto

lemma option_pair_eq: "(\<And>a b. x = Some (a, b) \<longleftrightarrow> y = Some (a, b)) \<Longrightarrow> x = y"
  by (cases x; cases y) auto

lemma members_fuel: "length s \<le> n \<Longrightarrow> length s \<le> m \<Longrightarrow> members n d s = members m d s"
  by (intro option_pair_eq) (simp add: members_iff)

lemma elements_fuel: "length s \<le> n \<Longrightarrow> length s \<le> m \<Longrightarrow> elements n d s = elements m d s"
  by (intro option_pair_eq) (simp add: elements_iff)

lemma is_value_ws: "skip_ws s' = skip_ws s \<Longrightarrow> is_value d s r \<Longrightarrow> is_value d s' r"
  by (erule is_value.cases) (simp_all add: val_object val_array val_string val_literal)

lemma Valid_iff: "Valid s \<longleftrightarrow> (\<exists>r. is_value maxNestingDepth s r \<and> skip_ws r = [])"
proof -
  have "is_value maxNestingDepth s r \<longleftrightarrow> scan_value (Suc (length s)) maxNestingDepth s = Some r" for r by (simp add: scan_value_iff del: scan_value.simps)
  then show ?thesis by (simp add: Valid_def del: scan_value.simps split: option.split)
qed

lemma Valid_ws: "skip_ws s' = skip_ws s \<Longrightarrow> Valid s \<Longrightarrow> Valid s'"
  by (auto simp: Valid_iff dest: is_value_ws)

theorem object_of_ws: "list_all is_ws w \<Longrightarrow> object_of (w @ s) = object_of s"
proof -
  assume "list_all is_ws w"
  then have ws: "skip_ws (w @ s) = skip_ws s" by (rule skip_ws_append)
  have "length (tl (skip_ws s)) \<le> length s" using skip_ws_length [of s] by simp
  then have "members (length (w @ s)) d (tl (skip_ws s)) = members (length s) d (tl (skip_ws s))" for d by (intro members_fuel) simp_all
  moreover have "Valid (w @ s) \<longleftrightarrow> Valid s" using ws by (metis Valid_ws)
  ultimately show ?thesis by (simp add: object_of_def ws)
qed

section \<open>Strings and lists of strings\<close>

theorem decode_text_string: "valid_utf8 s \<Longrightarrow> decode_text old (json_string s) = Some s"
  using unquote_json_body [of s] by (simp add: decode_text_def json_string_def)

lemma decode_items_strings: "list_all valid_utf8 xs \<Longrightarrow> decode_items old (map json_string xs) = Some xs"
  by (induction xs arbitrary: old) (simp_all add: decode_text_string)

theorem decode_texts_strings:
  assumes "list_all valid_utf8 xs" shows "decode_texts old (json_strings xs) = Some (Some xs)"
proof -
  let ?t = "Join (map json_string xs) '','' @ CHR '']'' # []"
  have "are_elements (maxNestingDepth - 1) ?t (map json_string xs) []"
    by (intro are_elements_Join) (simp add: list_all_iff string_token)
  then have "elements (length (json_strings xs)) (maxNestingDepth - 1) ?t = Some (map json_string xs, [])"
    by (intro scan_fuel(2)) (simp_all add: json_strings_def)
  then show ?thesis using decode_items_strings [OF assms] by (simp add: decode_texts_def json_strings_def)
qed

end
