(* ===== verification/JsonCompact.thy ===== *)
theory JsonCompact
  imports JsonRoundTrip
begin

text \<open>
  The compaction that \<open>json.Marshal\<close> applies to a \<open>json.RawMessage\<close>, and that it changes nothing a
  reader sees: a compacted object has the same members, each with its value compacted.
\<close>

section \<open>Compaction\<close>

text \<open>
  \<open>json.Marshal\<close> of a \<open>json.RawMessage\<close>: white space between tokens is dropped, and inside strings
  the characters that HTML treats specially and the line separators are escaped. The first
  argument says whether the position is inside a string.
\<close>

definition html_char :: "char \<Rightarrow> bool" where
  "html_char c \<longleftrightarrow> c \<in> set ''<>&''"

function compact_text :: "bool \<Rightarrow> string \<Rightarrow> string" where
  "compact_text q [] = []"
| "compact_text False (c # s) =
     (if is_ws c then compact_text False s
      else c # compact_text (c = CHR 0x22) s)"
| "compact_text True (c # s) =
     (if c = CHR 0x22 then c # compact_text False s
      else if c = CHR 0x5C then (case s of [] \<Rightarrow> [c] | e # t \<Rightarrow> c # e # compact_text True t)
      else if html_char c then u_escape (byte c) @ compact_text True s
      else if line_separator (take 3 (c # s))
      then CHR 0x5C # ''u202'' @ [hex_digit (byte ((c # s) ! 2) mod 16)] @ compact_text True (drop 2 s)
      else c # compact_text True s)"
  by pat_completeness auto
termination by (relation "measure (length \<circ> snd)") auto

definition Compact :: "string \<Rightarrow> string option" where
  "Compact s = (if Valid s then Some (compact_text False s) else None)"

lemma compact_closed: "list_all (\<lambda>c. \<not> is_ws c \<and> c \<noteq> CHR 0x22) v \<Longrightarrow> compact_text False (v @ r) = v @ compact_text False r"
  by (induction v) auto

section \<open>Inside strings\<close>

lemma cont_plain: "cont c \<Longrightarrow> c \<noteq> CHR 0x22 \<and> c \<noteq> CHR 0x5C \<and> \<not> html_char c \<and> c \<noteq> CHR 0xE2"
  by (auto simp: cont_def html_char_def byte_def)

lemma line_separator_head: "line_separator (c # s) \<Longrightarrow> c = CHR 0xE2"
  by (auto simp: line_separator_def)

lemma compact_cont: "list_all cont h \<Longrightarrow> compact_text True (h @ r) = h @ compact_text True r"
proof (induction h)
  case (Cons c h)
  then have "\<not> line_separator (c # x)" for x using cont_plain [of c] line_separator_head by auto
  with Cons cont_plain [of c] show ?case by simp
qed simp

lemma compact_head: "\<not> cont c \<Longrightarrow> compact_text True (c # s) \<noteq> [] \<and> \<not> cont (hd (compact_text True (c # s)))"
  by (auto simp: u_escape_def cont_def byte_def split: list.splits)

lemma utf8_len_stop:
  "\<not> cont b \<Longrightarrow> utf8_len (c # b # r) = 0" "\<not> cont b \<Longrightarrow> utf8_len (c # x # b # r) = utf8_len [c, x]"
  by (cases r; cases "tl r"; simp)+

lemma utf8_len_cont:
  assumes "r = [] \<or> \<not> cont (hd r)" shows "utf8_len (c # h @ r) = utf8_len (c # h)"
proof (cases r)
  case (Cons b t)
  then have b: "\<not> cont b" using assms by simp
  consider "h = []" | x where "h = [x]" | x y where "h = [x, y]" | x y z w where "h = x # y # z # w"
    by (metis list.exhaust)
  then show ?thesis
  proof cases
    case 1 with Cons b show ?thesis by (simp add: utf8_len_stop)
  next
    case 2 with Cons b show ?thesis by (simp add: utf8_len_stop(2) del: utf8_len.simps)
  next
    case 3 with Cons b show ?thesis by simp
  next
    case 4 then show ?thesis by simp
  qed
qed simp

lemma utf8_len_compact: "utf8_len (c # compact_text True s) = utf8_len (c # s)"
proof -
  let ?h = "takeWhile cont s" and ?r = "dropWhile cont s"
  have "list_all cont ?h" by (metis list_all_iff set_takeWhileD)
  from compact_cont [OF this, of ?r] have s: "compact_text True s = ?h @ compact_text True ?r" by simp
  have r: "?r = [] \<or> \<not> cont (hd ?r)" using hd_dropWhile [of cont s] by blast
  then have "compact_text True ?r = [] \<or> \<not> cont (hd (compact_text True ?r))"
  proof (cases ?r)
    case (Cons b t)
    with r show ?thesis using compact_head [of b t] by (simp del: compact_text.simps)
  next
    case Nil
    show ?thesis unfolding Nil by simp
  qed
  then have "utf8_len (c # compact_text True s) = utf8_len (c # ?h)" unfolding s by (rule utf8_len_cont)
  moreover have "utf8_len (c # s) = utf8_len (c # ?h)" using utf8_len_cont [OF r, of c ?h] by simp
  ultimately show ?thesis by simp
qed

lemma utf8_len_tail: "utf8_len (c # s) = Suc n \<Longrightarrow> n \<le> length s \<and> list_all cont (take n s)"
  by (cases "c # s" rule: utf8_len.cases) (auto split: if_splits)

text \<open>The body of a literal, by the pieces that the scanner reads.\<close>

inductive pieces :: "string \<Rightarrow> bool" where
  piece_nil: "pieces []"
| piece_simple: "e \<in> set simple_escapes \<Longrightarrow> pieces b \<Longrightarrow> pieces (CHR 0x5C # e # b)"
| piece_u: "hex4 u \<noteq> None \<Longrightarrow> length u = 4 \<Longrightarrow> pieces b \<Longrightarrow> pieces (CHR 0x5C # CHR ''u'' # u @ b)"
| piece_char: "c \<noteq> CHR 0x22 \<Longrightarrow> c \<noteq> CHR 0x5C \<Longrightarrow> 32 \<le> byte c \<Longrightarrow> pieces b \<Longrightarrow> pieces (c # b)"

lemma hex4_take: "hex4 t = Some x \<Longrightarrow> length (take 4 t) = 4 \<and> hex4 (take 4 t) = Some x"
proof -
  assume h: "hex4 t = Some x"
  then have "length (map hex_val (take 4 t)) = 4" unfolding hex4_def by (auto simp del: length_map length_take split: list.splits option.splits)
  with h show ?thesis by (simp add: hex4_def)
qed

lemma scan_pieces: "scan_string t = Some u \<Longrightarrow> \<exists>b. pieces b \<and> t = b @ CHR 0x22 # u"
proof (induction t rule: scan_string.induct)
  case (2 c s)
  consider "c = CHR 0x22" | "c = CHR 0x5C" | "c \<noteq> CHR 0x22" "c \<noteq> CHR 0x5C" by blast
  then show ?case
  proof cases
    case 1
    with "2.prems" show ?thesis using piece_nil by auto
  next
    case esc: 2
    with "2.prems" obtain e t where s: "s = e # t" by (cases s) auto
    show ?thesis
    proof (cases "e \<in> set simple_escapes")
      case True
      with "2.IH"(1) [OF _ esc s True] esc s "2.prems" obtain b where "pieces b" "t = b @ CHR 0x22 # u" by auto
      then have "pieces (c # e # b)" "c # s = (c # e # b) @ CHR 0x22 # u" using True esc s by (auto intro: piece_simple)
      then show ?thesis by blast
    next
      case False
      with "2.prems" esc s have e: "e = CHR ''u'' \<and> hex4 t \<noteq> None" and sc: "scan_string (drop 4 t) = Some u" by (auto split: if_splits)
      with "2.IH"(2) [OF _ esc s False] esc obtain b where b: "pieces b" "drop 4 t = b @ CHR 0x22 # u" by auto
      from e hex4_take obtain x where "length (take 4 t) = 4" "hex4 (take 4 t) = Some x" by blast
      then have "pieces (c # e # take 4 t @ b)" using e esc b by (auto intro: piece_u)
      moreover have "c # s = (c # e # take 4 t @ b) @ CHR 0x22 # u" using s b by (metis append.assoc append_Cons append_take_drop_id)
      ultimately show ?thesis by blast
    qed
  next
    case 3
    with 2 obtain b where b: "pieces b" "s = b @ CHR 0x22 # u" and "32 \<le> byte c" by (auto split: if_splits)
    with 3 have "pieces (c # b)" "c # s = (c # b) @ CHR 0x22 # u" by (auto intro: piece_char)
    then show ?thesis by blast
  qed
qed simp

lemma pieces_high: "pieces (c # b) \<Longrightarrow> 128 \<le> byte c \<Longrightarrow> pieces b"
  by (erule pieces.cases) (auto simp: byte_def)

lemma pieces_body: "pieces b \<Longrightarrow> literal_body b"
  unfolding literal_body_def
proof (induction rule: pieces.induct)
  case (piece_u u b)
  have "hex4 (u @ x) = hex4 u" "drop 4 (u @ x) = x" for x using piece_u.hyps(2) by (simp_all add: hex4_def)
  with piece_u show ?case by (simp add: scan_string_escape del: scan_string.simps)
qed (simp_all add: not_less)

lemma compact_escape: "compact_text True (CHR 0x5C # CHR ''u'' # u @ x) = CHR 0x5C # CHR ''u'' # compact_text True (u @ x)"
  by simp

lemma hex_plain: "hex_val c = Some n \<Longrightarrow> c \<noteq> CHR 0x22 \<and> c \<noteq> CHR 0x5C \<and> \<not> html_char c \<and> c \<noteq> CHR 0xE2"
  by (auto simp: hex_val_def html_char_def byte_def split: if_splits)

lemma compact_copy:
  assumes "c \<noteq> CHR 0x22" "c \<noteq> CHR 0x5C" "\<not> html_char c" "c \<noteq> CHR 0xE2"
  shows "compact_text True (c # x) = c # compact_text True x"
  using assms line_separator_head by auto

lemma compact_hex: "hex4 u \<noteq> None \<Longrightarrow> length u = 4 \<Longrightarrow> compact_text True (u @ x) = u @ compact_text True x"
proof -
  assume "hex4 u \<noteq> None" "length u = 4"
  then obtain a b c d where u: "u = [a, b, c, d]" and "hex_val a \<noteq> None" "hex_val b \<noteq> None" "hex_val c \<noteq> None" "hex_val d \<noteq> None"
    by (auto simp: hex4_def length_Suc_conv numeral_eq_Suc split: option.splits)
  then show ?thesis using hex_plain by (auto simp: compact_copy simp del: compact_text.simps)
qed

lemma sep_closed: "line_separator (take 3 (c # b @ CHR 0x22 # q)) \<longleftrightarrow> line_separator (take 3 (c # b))"
  by (cases b; cases "tl b") (auto simp: line_separator_def)

text \<open>A literal ends where it ended, and the compaction of its body is a body.\<close>

lemma compact_pieces:
  "pieces b \<Longrightarrow> compact_text True (b @ CHR 0x22 # q) = compact_text True b @ CHR 0x22 # compact_text False q"
proof (induction "length b" arbitrary: b rule: less_induct)
  case less
  from less.prems show ?case
  proof cases
    case (piece_simple e t)
    with less show ?thesis by simp
  next
    case (piece_u u t)
    with less have "compact_text True (t @ CHR 0x22 # q) = compact_text True t @ CHR 0x22 # compact_text False q" by simp
    with piece_u show ?thesis using compact_hex [of u] by (simp add: compact_escape del: compact_text.simps)
  next
    case (piece_char c t)
    then have IH: "compact_text True (t @ CHR 0x22 # q) = compact_text True t @ CHR 0x22 # compact_text False q" using less by simp
    show ?thesis
    proof (cases "line_separator (take 3 (c # t))")
      case True
      then obtain y z where t: "c = CHR 0xE2" "t = CHR 0x80 # y # z" "128 \<le> byte y"
        by (cases t; cases "tl t") (auto simp: line_separator_def byte_def)
      have "pieces z" using piece_char(5) t by (auto simp: byte_def dest!: pieces_high)
      then have "compact_text True (z @ CHR 0x22 # q) = compact_text True z @ CHR 0x22 # compact_text False q" using less piece_char t by simp
      with True piece_char t sep_closed [of c t q] show ?thesis by (simp add: html_char_def)
    next
      case False
      with IH piece_char sep_closed [of c t q] show ?thesis by simp
    qed
  qed simp
qed

lemma pieces_u: "hex4 u \<noteq> None \<Longrightarrow> length u = 4 \<Longrightarrow> pieces b \<Longrightarrow> pieces (CHR 0x5C # CHR ''u'' # u @ b)"
  by (rule piece_u)

lemma html_escape: "html_char c \<Longrightarrow> byte c < 128 \<and> hex4 (''00'' @ [hex_digit (byte c div 16), hex_digit (byte c mod 16)]) \<noteq> None"
  using hex4_escape [of "byte c" "[]"] by (auto simp: html_char_def byte_def)

lemma pieces_html: "html_char c \<Longrightarrow> pieces b \<Longrightarrow> pieces (u_escape (byte c) @ b)"
  using html_escape [of c] pieces_u [of "''00'' @ [hex_digit (byte c div 16), hex_digit (byte c mod 16)]" b] by (simp add: u_escape_def)

lemma pieces_sep: "pieces b \<Longrightarrow> d < 16 \<Longrightarrow> pieces (CHR 0x5C # ''u202'' @ [hex_digit d] @ b)"
  using hex4_202 [of d "[]"] pieces_u [of "''202'' @ [hex_digit d]" b] by simp

lemma separator_parts:
  assumes "line_separator (take 3 (c # t))"
  obtains y z where "c = CHR 0xE2" "t = CHR 0x80 # y # z" "128 \<le> byte y" "take 3 (c # t) = [c, CHR 0x80, y]" "utf8_len (c # t) = 3"
proof (cases t)
  case (Cons x u)
  with assms obtain y z where "u = y # z" by (cases u) (auto simp: line_separator_def)
  with Cons assms have "c = CHR 0xE2" "x = CHR 0x80" "y \<in> {CHR 0xA8, CHR 0xA9}" by (auto simp: line_separator_def)
  moreover have "utf8_len (CHR 0xE2 # CHR 0x80 # y # z) = 3" if "y \<in> {CHR 0xA8, CHR 0xA9}"
    using that by (cases z) (auto simp: byte_def cont_def)
  ultimately show thesis using that [of y z] Cons \<open>u = y # z\<close> by (auto simp: byte_def)
qed (use assms in \<open>auto simp: line_separator_def\<close>)

lemma unquote_separator:
  assumes "line_separator (take 3 (c # t))"
  shows "unquote (CHR 0x5C # ''u202'' @ [hex_digit (byte ((c # t) ! 2) mod 16)] @ x) = take 3 (c # t) @ unquote x"
proof -
  have "take 3 (c # t) ! 2 = (c # t) ! 2" by simp
  then show ?thesis
    using unquote_escape [OF hex4_202 [of "byte ((c # t) ! 2) mod 16" x]] line_separator_rune [OF assms] by (simp del: unquote.simps)
qed

lemma unquote_chunk: "128 \<le> byte c \<Longrightarrow> utf8_len (c # s) = Suc n \<Longrightarrow> unquote (c # s) = c # take n s @ unquote (drop n s)"
  using high_not_ascii [of c] by (simp del: utf8_len.simps)

lemma unquote_bad: "128 \<le> byte c \<Longrightarrow> utf8_len (c # s) = 0 \<Longrightarrow> unquote (c # s) = replacement @ unquote s"
  using high_not_ascii [of c] by (simp del: utf8_len.simps)

lemma pieces_drop: "list_all (\<lambda>c. 128 \<le> byte c) h \<Longrightarrow> pieces (h @ b) \<Longrightarrow> pieces b"
  by (induction h) (auto dest: pieces_high)

lemma compact_sep:
  "line_separator (take 3 (c # s)) \<Longrightarrow>
     compact_text True (c # s) = CHR 0x5C # ''u202'' @ [hex_digit (byte ((c # s) ! 2) mod 16)] @ compact_text True (drop 2 s)"
proof -
  assume l: "line_separator (take 3 (c # s))"
  then have "c = CHR 0xE2" by (rule separator_parts)
  with l show ?thesis by (simp add: html_char_def)
qed

lemma compact_html: "html_char c \<Longrightarrow> compact_text True (c # s) = u_escape (byte c) @ compact_text True s"
  by (auto simp: html_char_def)

lemma compact_other:
  "c \<noteq> CHR 0x22 \<Longrightarrow> c \<noteq> CHR 0x5C \<Longrightarrow> \<not> html_char c \<Longrightarrow> \<not> line_separator (take 3 (c # s)) \<Longrightarrow>
     compact_text True (c # s) = c # compact_text True s"
  by simp

lemma low_surrogate_none: "hex4 t = Some x \<Longrightarrow> x < 56320 \<Longrightarrow> low_surrogate r (CHR 0x5C # CHR ''u'' # t) = None"
  by (simp add: low_surrogate_def HasPrefix_def)

lemma low_surrogate_compact:
  assumes "pieces b" shows "low_surrogate r (compact_text True b) = low_surrogate r b"
  using assms
proof cases
  case (piece_char c t)
  have plain: "low_surrogate r (c # x) = None" for x using piece_char by (simp add: low_surrogate_def HasPrefix_def)
  have sep: "low_surrogate r (CHR 0x5C # ''u202'' @ [hex_digit (d mod 16)] @ x) = None" for d x
    using low_surrogate_none [OF hex4_202 [of "d mod 16" x]] by simp
  have html: "low_surrogate r (u_escape (byte c) @ x) = None" if "html_char c" for x
    using low_surrogate_none [OF hex4_escape [of "byte c" x]] html_escape [OF that] by (simp add: u_escape_def)
  show ?thesis unfolding piece_char(1) plain
    using piece_char plain sep [of "byte ((c # t) ! 2)"] html compact_sep [of c t] compact_html [of c t] compact_other [of c t]
    by (cases "html_char c"; cases "line_separator (take 3 (c # t))") (simp_all del: compact_text.simps)
next
  case (piece_simple e t)
  then show ?thesis by (auto simp: low_surrogate_def HasPrefix_def simple_escapes_def)
next
  case (piece_u u t)
  have "hex4 (u @ x) = hex4 u" for x using piece_u by (simp add: hex4_def)
  with piece_u show ?thesis by (simp add: low_surrogate_def HasPrefix_def compact_escape compact_hex del: compact_text.simps)
qed simp_all

lemma pieces_compact: "pieces b \<Longrightarrow> pieces (compact_text True b)"
proof (induction "length b" arbitrary: b rule: less_induct)
  case less
  from less.prems show ?case
  proof cases
    case (piece_u u t)
    with less show ?thesis by (simp add: compact_escape compact_hex pieces_u del: compact_text.simps)
  next
    case (piece_char c t)
    then have IH: "pieces (compact_text True t)" using less by simp
    consider "html_char c" | "line_separator (take 3 (c # t))" | "\<not> html_char c" "\<not> line_separator (take 3 (c # t))" by blast
    then show ?thesis
    proof cases
      case 1
      with piece_char IH show ?thesis by (simp add: compact_html pieces_html del: compact_text.simps)
    next
      case 2
      then obtain y z where t: "t = CHR 0x80 # y # z" "128 \<le> byte y" by (rule separator_parts)
      then have "pieces z" using piece_char(5) by (auto simp: byte_def dest!: pieces_high)
      then have "pieces (compact_text True z)" using less piece_char t by simp
      then have "pieces (compact_text True (c # t))"
        unfolding compact_sep [OF 2] using t by (simp add: pieces_sep [simplified] del: compact_text.simps)
      with piece_char show ?thesis by (simp del: compact_text.simps)
    next
      case 3
      with piece_char IH show ?thesis by (simp add: compact_other pieces.piece_char del: compact_text.simps)
    qed
  qed (use less in \<open>auto intro: pieces.intros\<close>)
qed

lemma unquote_u:
  assumes "hex4 u = Some r" "length u = 4"
  shows "unquote (CHR 0x5C # CHR ''u'' # u @ b) =
     (if 55296 \<le> r \<and> r < 57344
      then (case low_surrogate r b of Some p \<Rightarrow> encode_rune p @ unquote (drop 6 b) | None \<Rightarrow> replacement @ unquote b)
      else encode_rune r @ unquote b)"
proof -
  have "hex4 (u @ b) = Some r" "drop 4 (u @ b) = b" "drop 10 (u @ b) = drop 6 b" using assms by (simp_all add: hex4_def)
  then show ?thesis by (simp del: drop_append split: option.split)
qed

lemma low_surrogate_pieces:
  assumes "low_surrogate r b = Some p" "pieces b"
  obtains u t where "b = CHR 0x5C # CHR ''u'' # u @ t" "length u = 4" "hex4 u \<noteq> None" "pieces t"
  using assms(2)
proof cases
  case (piece_u u t)
  with that show thesis by blast
qed (use assms(1) in \<open>auto simp: low_surrogate_def HasPrefix_def simple_escapes_def split: if_splits\<close>)

lemma unquote_compact: "pieces b \<Longrightarrow> unquote (compact_text True b) = unquote b"
proof (induction "length b" arbitrary: b rule: less_induct)
  case less
  from less.prems show ?case
  proof cases
    case (piece_simple e t)
    then have "e \<noteq> CHR ''u''" by (auto simp: simple_escapes_def)
    with less piece_simple show ?thesis by simp
  next
    case (piece_u u t)
    then obtain r where r: "hex4 u = Some r" by blast
    have IH: "unquote (compact_text True t) = unquote t" using less piece_u by simp
    have pair: "unquote (drop 6 (compact_text True t)) = unquote (drop 6 t)" if "low_surrogate r t = Some p" for p
      using low_surrogate_pieces [OF that piece_u(4)]
    proof cases
      case (1 v w)
      then have "unquote (compact_text True w) = unquote w" using less piece_u by simp
      with 1 show ?thesis by (simp add: compact_escape compact_hex del: compact_text.simps unquote.simps)
    qed
    have "unquote (compact_text True b) = unquote (CHR 0x5C # CHR ''u'' # u @ compact_text True t)"
      using piece_u by (simp add: compact_escape compact_hex del: compact_text.simps unquote.simps)
    also have "\<dots> = unquote b"
      unfolding piece_u(1) unquote_u [OF r piece_u(3)] low_surrogate_compact [OF piece_u(4)] IH
      using pair by (simp del: compact_text.simps unquote.simps split: option.split)
    finally show ?thesis .
  next
    case (piece_char c t)
    then have IH: "unquote (compact_text True t) = unquote t" using less by simp
    consider "html_char c" | "line_separator (take 3 (c # t))"
      | "byte c < 128" "\<not> html_char c" "\<not> line_separator (take 3 (c # t))" | "128 \<le> byte c" "\<not> line_separator (take 3 (c # t))"
      using not_less by blast
    then show ?thesis
    proof cases
      case 1
      then have "unquote (compact_text True b) = c # unquote t"
        using piece_char(1) html_escape [OF 1] unquote_u_escape [of "byte c"] IH
        by (simp add: compact_html byte_def del: compact_text.simps unquote.simps)
      with piece_char html_escape [OF 1] show ?thesis by simp
    next
      case 2
      then obtain y z where t: "t = CHR 0x80 # y # z" "128 \<le> byte y" and c: "c = CHR 0xE2" and len: "utf8_len (c # t) = 3" and tk: "take 3 (c # t) = [c, CHR 0x80, y]"
        by (rule separator_parts)
      then have "pieces z" using piece_char(5) by (auto simp: byte_def dest!: pieces_high)
      then have z: "unquote (compact_text True z) = unquote z" using less piece_char t by simp
      have "unquote (c # t) = [c, CHR 0x80, y] @ unquote z"
        using unquote_chunk [of c t 2] c len t by (simp add: byte_def numeral_2_eq_2 del: unquote.simps utf8_len.simps)
      then show ?thesis unfolding piece_char(1) compact_sep [OF 2] unquote_separator [OF 2] tk
        using z t by (simp del: compact_text.simps unquote.simps)
    next
      case 3
      with piece_char IH show ?thesis by (simp add: compact_other del: compact_text.simps)
    next
      case 4
      then have copy: "compact_text True (c # t) = c # compact_text True t"
        using high_not_ascii [of c] by (intro compact_other) (auto simp: html_char_def byte_def)
      show ?thesis
      proof (cases "utf8_len (c # t)")
        case 0
        then show ?thesis using 4 unquote_bad [of c] IH piece_char(1) copy by (simp add: utf8_len_compact del: compact_text.simps unquote.simps)
      next
        case (Suc n)
        let ?h = "take n t" and ?r = "drop n t"
        have h: "n \<le> length t" "list_all cont ?h" using utf8_len_tail [OF Suc] by auto
        then have "list_all (\<lambda>c. 128 \<le> byte c) ?h" by (auto simp: list_all_iff cont_def)
        then have "pieces ?r" using pieces_drop [of ?h ?r] piece_char(5) by simp
        then have r: "unquote (compact_text True ?r) = unquote ?r" using less piece_char by simp
        have "compact_text True t = ?h @ compact_text True ?r" using compact_cont [OF h(2), of ?r] by simp
        then have "take n (compact_text True t) = ?h" "drop n (compact_text True t) = compact_text True ?r" using h(1) by simp_all
        then show ?thesis
          using 4(1) Suc r piece_char(1) unquote_chunk [of c t n] unquote_chunk [of c "compact_text True t" n] copy
          by (simp add: utf8_len_compact del: compact_text.simps unquote.simps)
      qed
    qed
  qed simp
qed

section \<open>Numbers and literals\<close>

lemma ends_stop: "ends q \<Longrightarrow> q = [] \<or> \<not> is_digit_c (hd q) \<and> hd q \<notin> set ''eE.''"
  by (auto simp: ends_def is_digit_c_def is_ws_def byte_def)

text \<open>What a scanner has read, it reads again before the end or a delimiter.\<close>

definition rereads :: "(string \<Rightarrow> string option) \<Rightarrow> string \<Rightarrow> bool" where
  "rereads f p \<longleftrightarrow> (\<forall>q. ends q \<longrightarrow> f (p @ q) = Some q) \<and> list_all (\<lambda>c. \<not> is_ws c \<and> c \<noteq> CHR 0x22) p"

lemma dropWhile_digits: "ends q \<Longrightarrow> list_all is_digit_c p \<Longrightarrow> dropWhile is_digit_c (p @ q) = q"
proof (induction p)
  case Nil
  then show ?case using ends_stop [of q] by (cases q) auto
qed simp

lemma digit_plain: "is_digit_c c \<Longrightarrow> \<not> is_ws c \<and> c \<noteq> CHR 0x22"
  by (auto simp: is_digit_c_def is_ws_def byte_def)

lemma digits_plain: "list_all is_digit_c p \<Longrightarrow> list_all (\<lambda>c. \<not> is_ws c \<and> c \<noteq> CHR 0x22) p"
  by (auto simp: list_all_iff dest: digit_plain)

lemma digits_split: "\<exists>p. s = p @ dropWhile is_digit_c s \<and> list_all is_digit_c p"
  by (metis list_all_iff set_takeWhileD takeWhile_dropWhile_id)

lemma digits1_rereads: "digits1 s = Some r \<Longrightarrow> \<exists>p. s = p @ r \<and> p \<noteq> [] \<and> rereads digits1 p"
proof (cases s)
  case (Cons c t)
  moreover assume "digits1 s = Some r"
  ultimately have c: "is_digit_c c" and r: "r = dropWhile is_digit_c t" by (auto split: if_splits)
  obtain p where p: "t = p @ r" "list_all is_digit_c p" using digits_split [of t] r by blast
  then have "rereads digits1 (c # p)" using c by (auto simp: rereads_def dropWhile_digits digit_plain digits_plain)
  with p Cons show ?thesis by (metis append_Cons list.discI)
qed simp

lemma exp_none: "ends q \<Longrightarrow> scan_exp q = Some q"
  using ends_stop [of q] by (cases q) (auto simp: scan_exp_def)

lemma exp_plain: "c \<in> set ''eE'' \<Longrightarrow> \<not> is_ws c \<and> c \<noteq> CHR 0x22" "c \<in> set ''+-'' \<Longrightarrow> \<not> is_ws c \<and> c \<noteq> CHR 0x22"
  by (auto simp: is_ws_def byte_def)

lemma scan_exp_rereads: "scan_exp s = Some r \<Longrightarrow> \<exists>p. s = p @ r \<and> rereads scan_exp p"
proof (cases "\<exists>c t. s = c # t \<and> c \<in> set ''eE''")
  case True
  then obtain c t where s: "s = c # t" and c: "c \<in> set ''eE''" by blast
  define sg where "sg = (if \<exists>d u. t = d # u \<and> d \<in> set ''+-'' then [hd t] else [])"
  have sg: "t = sg @ (case t of d # u \<Rightarrow> if d \<in> set ''+-'' then u else t | [] \<Rightarrow> t)" by (cases t) (auto simp: sg_def)
  assume "scan_exp s = Some r"
  with s c have "digits1 (case t of d # u \<Rightarrow> if d \<in> set ''+-'' then u else t | [] \<Rightarrow> t) = Some r" by (simp add: scan_exp_def)
  from digits1_rereads [OF this] obtain p where p: "(case t of d # u \<Rightarrow> if d \<in> set ''+-'' then u else t | [] \<Rightarrow> t) = p @ r" "p \<noteq> []" "rereads digits1 p" by blast
  have hd: "is_digit_c (hd p)" using p(2,3) by (cases p) (auto simp: rereads_def split: if_splits dest!: spec [of _ "[]"])
  have "scan_exp ((c # sg @ p) @ q) = Some q" if "ends q" for q
  proof -
    have "digits1 (p @ q) = Some q" using p(3) that by (simp add: rereads_def)
    moreover have "hd p \<notin> set ''+-''" using hd by (auto simp: is_digit_c_def byte_def)
    ultimately show ?thesis using c p(2) unfolding sg_def by (cases p) (auto simp: scan_exp_def)
  qed
  moreover have "list_all (\<lambda>c. \<not> is_ws c \<and> c \<noteq> CHR 0x22) sg" by (auto simp: sg_def is_ws_def byte_def)
  ultimately have "rereads scan_exp (c # sg @ p)" using p(3) exp_plain(1) [OF c] by (simp add: rereads_def)
  moreover have "s = (c # sg @ p) @ r" using sg unfolding p(1) s by (simp only: append_Cons append_assoc)
  ultimately show ?thesis by blast
next
  case False
  assume "scan_exp s = Some r"
  with False have "r = s" by (cases s) (auto simp: scan_exp_def)
  then show ?thesis using exp_none by (auto simp: rereads_def)
qed

lemma scan_frac_rereads: "scan_frac s = Some r \<Longrightarrow> \<exists>p. s = p @ r \<and> rereads scan_frac p"
proof (cases "\<exists>t. s = CHR ''.'' # t")
  case True
  then obtain t where s: "s = CHR ''.'' # t" by blast
  assume "scan_frac s = Some r"
  with s obtain u where u: "digits1 t = Some u" "scan_exp u = Some r" by (auto simp: scan_frac_def split: option.splits)
  from digits1_rereads [OF u(1)] obtain p where p: "t = p @ u" "rereads digits1 p" by blast
  from scan_exp_rereads [OF u(2)] obtain e where e: "u = e @ r" "rereads scan_exp e" by blast
  from u(1) obtain c x where x: "t = c # x" "is_digit_c c" "u = dropWhile is_digit_c x" by (cases t) (auto split: if_splits)
  have stop: "digits1 (p @ e @ q) = Some (e @ q)" if q: "ends q" for q
  proof (cases e)
    case Nil
    then show ?thesis using p(2) q by (simp add: rereads_def)
  next
    case (Cons a b)
    obtain y where y: "p = c # y" "list_all is_digit_c y" "x = y @ u"
    proof -
      obtain y where y: "x = y @ u" "list_all is_digit_c y" using digits_split [of x] x(3) by blast
      then have "p = c # y" using p(1) x(1) by (metis append_Cons append_same_eq)
      with y that show ?thesis by blast
    qed
    have "\<not> is_digit_c a" using x(3) e(1) Cons by (metis append_Cons dropWhile_eq_Cons_conv)
    with y(1,2) x(2) Cons show ?thesis by (simp add: dropWhile_append3 list_all_iff)
  qed
  have "rereads scan_frac (CHR ''.'' # p @ e)"
    using p(2) e(2) stop by (auto simp: rereads_def scan_frac_def is_ws_def byte_def)
  with s p(1) e(1) show ?thesis by (metis append.assoc append_Cons)
next
  case False
  assume "scan_frac s = Some r"
  with False have "scan_exp s = Some r" by (cases s) (auto simp: scan_frac_def)
  from scan_exp_rereads [OF this] obtain p where p: "s = p @ r" "rereads scan_exp p" by blast
  have "scan_frac (p @ q) = Some q" if "ends q" for q
  proof (cases "p @ q")
    case (Cons c t)
    then have "c \<noteq> CHR ''.''" using False p(1) that ends_stop [of q] by (cases p) auto
    moreover have "scan_exp (p @ q) = Some q" using p(2) that by (simp add: rereads_def)
    ultimately show ?thesis unfolding Cons by (simp add: scan_frac_def)
  qed (use p(2) that in \<open>auto simp: rereads_def scan_frac_def\<close>)
  with p show ?thesis by (auto simp: rereads_def)
qed

lemma after_digits_rereads:
  "scan_frac (dropWhile is_digit_c t) = Some r \<Longrightarrow> \<exists>p. t = p @ r \<and> rereads (\<lambda>t. scan_frac (dropWhile is_digit_c t)) p"
proof -
  assume "scan_frac (dropWhile is_digit_c t) = Some r"
  from scan_frac_rereads [OF this] obtain f where f: "dropWhile is_digit_c t = f @ r" "rereads scan_frac f" by blast
  obtain y where y: "t = y @ dropWhile is_digit_c t" "list_all is_digit_c y" using digits_split by blast
  have "dropWhile is_digit_c (y @ f @ q) = f @ q" if "ends q" for q
  proof (cases f)
    case Nil
    then show ?thesis using dropWhile_digits [OF that y(2)] by simp
  next
    case (Cons a b)
    then have "\<not> is_digit_c a" using f(1) by (metis append_Cons dropWhile_eq_Cons_conv)
    with y(2) Cons show ?thesis by (simp add: dropWhile_append3 list_all_iff)
  qed
  then have "rereads (\<lambda>t. scan_frac (dropWhile is_digit_c t)) (y @ f)"
    using f(2) digits_plain [OF y(2)] by (simp add: rereads_def)
  moreover have "t = (y @ f) @ r" using y(1) unfolding f(1) by simp
  ultimately show ?thesis by blast
qed

definition scan_unsigned :: "string \<Rightarrow> string option" where
  "scan_unsigned s =
     (case s of
        c # t \<Rightarrow> if c = CHR ''0'' then scan_frac t
                 else if is_digit_c c then scan_frac (dropWhile is_digit_c t)
                 else None
      | [] \<Rightarrow> None)"

lemma scan_number_eq: "scan_number s = scan_unsigned (case s of c # t \<Rightarrow> if c = CHR ''-'' then t else s | [] \<Rightarrow> s)"
  by (simp add: scan_number_def scan_unsigned_def Let_def)

lemma scan_unsigned_rereads: "scan_unsigned s = Some r \<Longrightarrow> \<exists>p. s = p @ r \<and> p \<noteq> [] \<and> is_digit_c (hd p) \<and> rereads scan_unsigned p"
proof -
  assume u: "scan_unsigned s = Some r"
  have zero: "is_digit_c (CHR ''0'')" by (simp add: is_digit_c_def byte_def)
  from u obtain c t where s: "s = c # t" "is_digit_c c" "if c = CHR ''0'' then scan_frac t = Some r else scan_frac (dropWhile is_digit_c t) = Some r"
    using zero by (cases s) (auto simp: scan_unsigned_def split: if_splits)
  have "\<exists>p. t = p @ r \<and> rereads (if c = CHR ''0'' then scan_frac else (\<lambda>t. scan_frac (dropWhile is_digit_c t))) p"
  proof (cases "c = CHR ''0''")
    case True
    with s(3) scan_frac_rereads [of t r] show ?thesis by simp
  next
    case False
    with s(3) after_digits_rereads [of t r] show ?thesis by simp
  qed
  then obtain p where p: "t = p @ r" "rereads (if c = CHR ''0'' then scan_frac else (\<lambda>t. scan_frac (dropWhile is_digit_c t))) p" by blast
  have "rereads scan_unsigned (c # p)"
    using p(2) s(2) digit_plain [of c] by (cases "c = CHR ''0''") (simp_all add: rereads_def scan_unsigned_def)
  with s p(1) show ?thesis by (intro exI [of _ "c # p"]) simp
qed

lemma scan_number_rereads: "scan_number s = Some r \<Longrightarrow> \<exists>p. s = p @ r \<and> p \<noteq> [] \<and> rereads scan_number p \<and> (hd p = CHR ''-'' \<or> is_digit_c (hd p))"
proof (cases "\<exists>t. s = CHR ''-'' # t")
  case True
  then obtain t where s: "s = CHR ''-'' # t" by blast
  moreover assume "scan_number s = Some r"
  ultimately have "scan_unsigned t = Some r" by (simp add: scan_number_eq)
  from scan_unsigned_rereads [OF this] obtain p where p: "t = p @ r" "rereads scan_unsigned p" by blast
  then have "rereads scan_number (CHR ''-'' # p)" by (simp add: rereads_def scan_number_eq)
  with s p show ?thesis by (intro exI [of _ "CHR ''-'' # p"]) simp
next
  case False
  assume "scan_number s = Some r"
  with False have "scan_unsigned s = Some r" by (cases s) (auto simp: scan_number_eq)
  from scan_unsigned_rereads [OF this] obtain p where p: "s = p @ r" "p \<noteq> []" "is_digit_c (hd p)" "rereads scan_unsigned p" by blast
  then have "rereads scan_number p" using False by (cases p) (auto simp: rereads_def scan_number_eq)
  with p show ?thesis by blast
qed

lemma scan_literal_rereads:
  "scan_literal s = Some r \<Longrightarrow> \<exists>p. s = p @ r \<and> p \<noteq> [] \<and> hd p \<notin> {CHR ''{'', CHR ''['', CHR '']'', CHR 0x22} \<and> rereads scan_literal p"
proof -
  assume l: "scan_literal s = Some r"
  have word: "s = w @ drop n s" if "HasPrefix s w" "length w = n" for w n
    using that by (metis HasPrefix_def append_take_drop_id)
  have re: "rereads scan_literal ''true''" "rereads scan_literal ''false''" "rereads scan_literal ''null''"
    by (simp_all add: rereads_def scan_literal_def HasPrefix_def is_ws_def byte_def)
  consider "HasPrefix s ''true''" | "HasPrefix s ''false''" | "HasPrefix s ''null''"
    | "\<not> HasPrefix s ''true''" "\<not> HasPrefix s ''false''" "\<not> HasPrefix s ''null''" by blast
  then show ?thesis
  proof cases
    case 1
    then have "r = drop 4 s" using l by (simp add: scan_literal_def)
    then have "s = ''true'' @ r" using word [OF 1, of 4] by simp
    with re show ?thesis by (intro exI [of _ "''true''"]) simp
  next
    case 2
    then have "r = drop 5 s" using l by (auto simp: scan_literal_def HasPrefix_iff)
    then have "s = ''false'' @ r" using word [OF 2, of 5] by simp
    with re show ?thesis by (intro exI [of _ "''false''"]) simp
  next
    case 3
    then have "r = drop 4 s" using l by (auto simp: scan_literal_def HasPrefix_iff)
    then have "s = ''null'' @ r" using word [OF 3, of 4] by simp
    with re show ?thesis by (intro exI [of _ "''null''"]) simp
  next
    case 4
    then have "scan_number s = Some r" using l by (simp add: scan_literal_def)
    from scan_number_rereads [OF this] obtain p where p: "s = p @ r" "p \<noteq> []" "rereads scan_number p" "hd p = CHR ''-'' \<or> is_digit_c (hd p)" by blast
    have head: "hd p \<notin> {CHR ''{'', CHR ''['', CHR '']'', CHR 0x22, CHR ''t'', CHR ''f'', CHR ''n''}"
      using p(4) by (auto simp: is_digit_c_def byte_def)
    then have "scan_literal (p @ q) = scan_number (p @ q)" for q
      using p(2) by (cases p) (auto simp: scan_literal_def HasPrefix_def)
    then have "rereads scan_literal p" using p(3) by (simp add: rereads_def)
    with p head show ?thesis by blast
  qed
qed

section \<open>Compaction keeps the structure\<close>

text \<open>The raw text of a value: it and its compaction are tokens, and compaction passes over it.\<close>

definition value_text :: "nat \<Rightarrow> string \<Rightarrow> bool" where
  "value_text d p \<longleftrightarrow> p \<noteq> [] \<and> token d p \<and> token d (compact_text False p)
     \<and> (hd p = CHR 0x22 \<longrightarrow> (\<exists>b. pieces b \<and> p = CHR 0x22 # b @ [CHR 0x22]))
     \<and> (hd p \<notin> {CHR ''{'', CHR ''['', CHR 0x22} \<longrightarrow> compact_text False p = p)
     \<and> (\<forall>q. compact_text False (p @ q) = compact_text False p @ compact_text False q)"

lemma compact_skip: "compact_text False (skip_ws s) = compact_text False s"
  by (induction s) (simp_all add: skip_ws_def)

lemma skip_split: "skip_ws s = t \<Longrightarrow> \<exists>w. s = w @ t \<and> list_all is_ws w"
  by (metis list_all_iff set_takeWhileD skip_ws_def takeWhile_dropWhile_id)

lemma compact_ws: "list_all is_ws w \<Longrightarrow> compact_text False (w @ s) = compact_text False s"
  by (induction w) simp_all

lemma literal_value_text:
  assumes "scan_literal s = Some r" shows "\<exists>p. s = p @ r \<and> value_text d p"
proof -
  from scan_literal_rereads [OF assms] obtain p where p: "s = p @ r" "p \<noteq> []"
    "hd p \<notin> {CHR ''{'', CHR ''['', CHR '']'', CHR 0x22}" "rereads scan_literal p" by blast
  then have c: "compact_text False (p @ q) = p @ compact_text False q" for q by (simp add: rereads_def compact_closed)
  have ws: "\<not> is_ws (hd p)" using p(2,4) by (cases p) (simp_all add: rereads_def)
  have "is_value d (p @ q) q" if "ends q" for q
    using p that ws by (cases p) (auto simp: rereads_def intro!: val_literal)
  then have "token d p" using p ws by (auto simp: token_def)
  then have "value_text d p" using p(2,3) ws c [of "[]"] c by (simp add: value_text_def)
  with p(1) show ?thesis by blast
qed

lemma string_value_text:
  assumes "scan_string t = Some r" shows "\<exists>b. CHR 0x22 # t = (CHR 0x22 # b @ [CHR 0x22]) @ r \<and> pieces b \<and> value_text d (CHR 0x22 # b @ [CHR 0x22])"
proof -
  from scan_pieces [OF assms] obtain b where b: "pieces b" "t = b @ CHR 0x22 # r" by blast
  have c: "compact_text False (CHR 0x22 # b @ CHR 0x22 # q) = CHR 0x22 # compact_text True b @ CHR 0x22 # compact_text False q" for q
    using compact_pieces [OF b(1)] by simp
  have body: "literal_body (compact_text True b)" "literal_body b" using b(1) by (auto intro: pieces_body pieces_compact)
  have tok: "literal_body x \<Longrightarrow> token d (CHR 0x22 # x @ [CHR 0x22])" for x
    by (auto simp: token_def literal_body_def intro: val_string)
  from tok [OF body(1)] tok [OF body(2)] have "value_text d (CHR 0x22 # b @ [CHR 0x22])" using b(1) c c [of "[]"] by (auto simp: value_text_def simp del: compact_text.simps(2,3))
  with b show ?thesis by auto
qed

abbreviation compact_members :: "(string \<times> string) list \<Rightarrow> (string \<times> string) list" where
  "compact_members kvs \<equiv> map (map_prod (compact_text True) (compact_text False)) kvs"

abbreviation elements_text :: "nat \<Rightarrow> string list \<Rightarrow> string \<Rightarrow> bool" where
  "elements_text d xs p \<equiv> list_all (value_text d) xs \<and> (\<forall>q. are_elements d (p @ q) xs q) \<and>
     (\<forall>q. compact_text False (p @ q) = Join (map (compact_text False) xs) '','' @ CHR '']'' # compact_text False q)"

abbreviation members_text :: "nat \<Rightarrow> (string \<times> string) list \<Rightarrow> string \<Rightarrow> bool" where
  "members_text d kvs p \<equiv> list_all (\<lambda>(k, v). pieces k \<and> value_text d v) kvs \<and> (\<forall>q. are_members d (p @ q) kvs q) \<and>
     (\<forall>q. compact_text False (p @ q) = Join (map (\<lambda>(k, v). json_key k @ v) (compact_members kvs)) '','' @ CHR ''}'' # compact_text False q)"

lemma value_textD: "value_text d p \<Longrightarrow> compact_text False (p @ q) = compact_text False p @ compact_text False q"
  "value_text d p \<Longrightarrow> token d (compact_text False p)" "value_text d p \<Longrightarrow> token d p"
  by (simp_all add: value_text_def)

lemma array_compact: "elements_text d xs p \<Longrightarrow>
    compact_text False (CHR ''['' # p @ q) = CHR ''['' # Join (map (compact_text False) xs) '','' @ CHR '']'' # compact_text False q"
  by simp

lemma array_value_text: "elements_text d xs p \<Longrightarrow> value_text (Suc d) (CHR ''['' # p)"
proof -
  assume a: "elements_text d xs p"
  note c = array_compact [OF a]
  have "list_all (token d) (map (compact_text False) xs)" using a by (auto simp: list_all_iff value_textD)
  from value_array [OF are_elements_Join [OF this]] have "token (Suc d) (compact_text False (CHR ''['' # p))"
    using c [of "[]"] by (simp add: token_def del: compact_text.simps(2))
  moreover have "token (Suc d) (CHR ''['' # p)" using a value_array [of d "p @ q" xs q for q] by (simp add: token_def)
  ultimately show ?thesis using c c [of "[]"] by (simp add: value_text_def del: compact_text.simps(2))
qed

lemma compact_members_good: "list_all (\<lambda>(k, v). pieces k \<and> value_text d v) kvs \<Longrightarrow>
    good_keys (compact_members kvs) \<and> list_all (\<lambda>(k, v). token d v) (compact_members kvs)"
  by (induction kvs) (auto simp: value_textD pieces_body pieces_compact)

lemma object_compact: "members_text d kvs p \<Longrightarrow> compact_text False (CHR ''{'' # p @ q) = json_obj (compact_members kvs) @ compact_text False q"
  by (simp add: json_obj_def)

lemma object_value_text: "members_text d kvs p \<Longrightarrow> value_text (Suc d) (CHR ''{'' # p)"
proof -
  assume m: "members_text d kvs p"
  have "token (Suc d) (json_obj (compact_members kvs))" using m compact_members_good [of d kvs] by (intro obj_token) blast+
  moreover have "token (Suc d) (CHR ''{'' # p)" using m value_object [of d "p @ q" kvs q for q] by (simp add: token_def)
  ultimately show ?thesis using object_compact [OF m] object_compact [OF m, of "[]"] by (simp add: value_text_def del: compact_text.simps(2))
qed

lemma skip_Cons_nws: "skip_ws s = c # r \<Longrightarrow> \<not> is_ws c"
  by (metis dropWhile_eq_Cons_conv skip_ws_def)

lemma before_delim:
  assumes "skip_ws s = p @ u" "skip_ws u = c # r"
  obtains a b where "s = a @ p @ b @ c # r" "list_all is_ws a" "list_all is_ws b" "\<not> is_ws c" "upto (skip_ws s) u = p"
proof -
  obtain a where a: "s = a @ p @ u" "list_all is_ws a" using skip_split [OF assms(1)] by blast
  obtain b where b: "u = b @ c # r" "list_all is_ws b" using skip_split [OF assms(2)] by blast
  show thesis using that [of a b] a b skip_Cons_nws [OF assms(2)] assms(1) by simp
qed

lemma ends_ws: "list_all is_ws b \<Longrightarrow> ends (CHR '','' # q) \<Longrightarrow> c \<in> set '',}]'' \<Longrightarrow> ends (b @ c # q)"
  by (cases b) (auto simp: ends_def)

lemma spaced_value:
  assumes "list_all is_ws a" "list_all is_ws b" "token d p" "c \<in> set '',}]''"
  shows "is_value d (a @ p @ b @ c # q) (b @ c # q)" "skip_ws (b @ c # q) = c # q"
    "upto (skip_ws (a @ p @ b @ c # q)) (b @ c # q) = p" "\<not> HasPrefix (skip_ws (a @ p @ x)) '']''"
proof -
  have "is_value d (p @ b @ c # q) (b @ c # q)" using assms by (intro token_value ends_ws) simp_all
  then show "is_value d (a @ p @ b @ c # q) (b @ c # q)"
    by (rule is_value_ws [rotated]) (simp add: skip_ws_append assms(1) skip_token [OF assms(3)])
  show "skip_ws (b @ c # q) = c # q" using assms(2,4) by (auto simp: skip_ws_append)
  show "upto (skip_ws (a @ p @ b @ c # q)) (b @ c # q) = p" using assms(1,3) by (simp add: skip_ws_append skip_token)
  show "\<not> HasPrefix (skip_ws (a @ p @ x)) '']''" using assms(1,3) by (simp add: skip_ws_append skip_token token_no_close)
qed

lemma none_text:
  assumes "list_all is_ws w" shows "elements_text d [] (w @ '']'')" "members_text d [] (w @ ''}'')"
  using assms els_none [of "w @ CHR '']'' # q" q d for q] mem_none [of "w @ CHR ''}'' # q" q d for q]
  by (simp_all add: compact_ws skip_ws_append)

lemma elements_last_text:
  assumes "list_all is_ws a" "list_all is_ws b" "value_text d p"
  shows "elements_text d [p] (a @ p @ b @ '']'')"
proof -
  note sp = spaced_value [OF assms(1,2) value_textD(3) [OF assms(3)], of "CHR '']''"]
  have "are_elements d (a @ p @ b @ CHR '']'' # q) [upto (skip_ws (a @ p @ b @ CHR '']'' # q)) (b @ CHR '']'' # q)] q" for q
    by (rule els_last) (use sp in simp_all)
  then show ?thesis using assms sp(3) by (simp add: compact_ws value_textD)
qed

lemma elements_more_text:
  assumes "list_all is_ws a" "list_all is_ws b" "value_text d p" "elements_text d xs x" "xs \<noteq> []"
    and no: "\<And>q. \<not> HasPrefix (skip_ws (x @ q)) '']''"
  shows "elements_text d (p # xs) (a @ p @ b @ '','' @ x)"
proof -
  note sp = spaced_value [OF assms(1,2) value_textD(3) [OF assms(3)], of "CHR '',''"]
  have el: "are_elements d (x @ q) xs q" for q using assms(4) by blast
  have "are_elements d (a @ p @ b @ CHR '','' # x @ q) (upto (skip_ws (a @ p @ b @ CHR '','' # x @ q)) (b @ CHR '','' # x @ q) # xs) q" for q
    by (rule els_more) (use sp no el in simp_all)
  then show ?thesis using assms sp(3) by (simp add: compact_ws value_textD Join_Cons)
qed

lemma before_member:
  assumes "skip_ws s = CHR 0x22 # t" "scan_string t = Some u" "skip_ws u = CHR '':'' # v"
  obtains a k b where "pieces k" "butlast (upto t u) = k" "list_all is_ws a" "list_all is_ws b"
    "s = a @ CHR 0x22 # k @ CHR 0x22 # b @ CHR '':'' # v"
proof -
  obtain a where a: "s = a @ CHR 0x22 # t" "list_all is_ws a" using skip_split [OF assms(1)] by blast
  obtain b where b: "u = b @ CHR '':'' # v" "list_all is_ws b" using skip_split [OF assms(3)] by blast
  obtain k where k: "pieces k" "t = k @ CHR 0x22 # u" using scan_pieces [OF assms(2)] by blast
  moreover have "butlast (upto t u) = k" using upto_append(1) [of "k @ [CHR 0x22]" u] k(2) by simp
  ultimately show thesis using that [of k a b] a b by simp
qed

lemma spaced_key:
  assumes "pieces k" "list_all is_ws a" "list_all is_ws b"
  shows "skip_ws (a @ CHR 0x22 # x) = CHR 0x22 # x" "scan_string (k @ CHR 0x22 # x) = Some x"
    "skip_ws (b @ CHR '':'' # x) = CHR '':'' # x" "butlast (upto (k @ CHR 0x22 # x) x) = k"
    "compact_text False (a @ CHR 0x22 # k @ CHR 0x22 # b @ CHR '':'' # x) = json_key (compact_text True k) @ compact_text False x"
  using assms pieces_body [OF assms(1)] upto_append(1) [of "k @ [CHR 0x22]" x] compact_pieces [OF assms(1)]
  by (simp_all add: skip_ws_append literal_body_def compact_ws json_key_def)

lemma members_last_text:
  assumes "pieces k" "list_all is_ws a" "list_all is_ws b" "list_all is_ws e" "list_all is_ws f" "value_text d p"
  shows "members_text d [(k, p)] (a @ CHR 0x22 # k @ CHR 0x22 # b @ CHR '':'' # e @ p @ f @ ''}'')"
proof -
  note sp = spaced_value [OF assms(4,5) value_textD(3) [OF assms(6)], of "CHR ''}''"] and sk = spaced_key [OF assms(1-3)]
  let ?v = "\<lambda>q. e @ p @ f @ CHR ''}'' # q" and ?w = "\<lambda>q. f @ CHR ''}'' # q"
  have "are_members d (a @ CHR 0x22 # k @ CHR 0x22 # b @ CHR '':'' # ?v q)
      [(butlast (upto (k @ CHR 0x22 # b @ CHR '':'' # ?v q) (b @ CHR '':'' # ?v q)), upto (skip_ws (?v q)) (?w q))] q" for q
    by (rule mem_last) (use sp sk in simp_all)
  then show ?thesis using assms sp(3) sk(4,5) by (simp add: compact_ws value_textD)
qed

lemma members_more_text:
  assumes "pieces k" "list_all is_ws a" "list_all is_ws b" "list_all is_ws e" "list_all is_ws f" "value_text d p"
    and "members_text d kvs x" "kvs \<noteq> []" and no: "\<And>q. \<not> HasPrefix (skip_ws (x @ q)) ''}''"
  shows "members_text d ((k, p) # kvs) (a @ CHR 0x22 # k @ CHR 0x22 # b @ CHR '':'' # e @ p @ f @ '','' @ x)"
proof -
  note sp = spaced_value [OF assms(4,5) value_textD(3) [OF assms(6)], of "CHR '',''"] and sk = spaced_key [OF assms(1-3)]
  have el: "are_members d (x @ q) kvs q" for q using assms(7) by blast
  let ?v = "\<lambda>q. e @ p @ f @ CHR '','' # x @ q" and ?w = "\<lambda>q. f @ CHR '','' # x @ q"
  have "are_members d (a @ CHR 0x22 # k @ CHR 0x22 # b @ CHR '':'' # ?v q)
      ((butlast (upto (k @ CHR 0x22 # b @ CHR '':'' # ?v q) (b @ CHR '':'' # ?v q)), upto (skip_ws (?v q)) (?w q)) # kvs) q" for q
    by (rule mem_more) (use sp sk no el in simp_all)
  then show ?thesis using assms sp(3) sk(4,5) by (simp add: compact_ws value_textD Join_Cons)
qed

text \<open>What follows a comma is an item, whatever comes after.\<close>

lemma no_close: "\<not> HasPrefix (skip_ws (x @ r)) [c] \<Longrightarrow> (\<exists>y z. skip_ws x = y # z) \<Longrightarrow> \<not> HasPrefix (skip_ws (x @ q)) [c]"
proof -
  assume "\<not> HasPrefix (skip_ws (x @ r)) [c]" and "\<exists>y z. skip_ws x = y # z"
  then obtain y z w where x: "skip_ws x = y # z" "x = w @ y # z" "list_all is_ws w" using skip_split by blast
  then have "skip_ws (x @ s) = y # z @ s" for s using skip_Cons_nws [OF x(1)] by (simp add: skip_ws_append)
  with \<open>\<not> HasPrefix (skip_ws (x @ r)) [c]\<close> show ?thesis by simp
qed

lemma nonblank:
  "(\<And>q. are_elements d (p @ q) xs q) \<Longrightarrow> \<exists>y z. skip_ws p = y # z" "(\<And>q. are_members d (p @ q) kvs q) \<Longrightarrow> \<exists>y z. skip_ws p = y # z"
proof -
  assume "\<And>q. are_elements d (p @ q) xs q"
  then have "are_elements d p xs []" by (metis append_Nil2)
  then show "\<exists>y z. skip_ws p = y # z" by cases (auto elim: is_value.cases)
next
  assume "\<And>q. are_members d (p @ q) kvs q"
  then have "are_members d p kvs []" by (metis append_Nil2)
  then show "\<exists>y z. skip_ws p = y # z" by cases auto
qed

lemma compact_grammar:
  "is_value d s r \<Longrightarrow> \<exists>p. skip_ws s = p @ r \<and> value_text d p"
  "are_elements d s xs r \<Longrightarrow> \<exists>p. s = p @ r \<and> elements_text d xs p"
  "are_members d s kvs r \<Longrightarrow> \<exists>p. s = p @ r \<and> members_text d kvs p"
proof (induction rule: is_value_are_elements_are_members.inducts)
  case (val_object s t d kvs r)
  then show ?case using object_value_text by (metis append_Cons)
next
  case (val_array s t d raws r)
  then show ?case using array_value_text by (metis append_Cons)
next
  case (val_string s t r d)
  then show ?case using string_value_text by metis
next
  case (val_literal s c t r d)
  then show ?case using literal_value_text by metis
next
  case (els_none s r d)
  then obtain w where w: "s = w @ CHR '']'' # r" "list_all is_ws w" using skip_split by blast
  with none_text(1) [OF w(2)] show ?case by (intro exI [of _ "w @ '']''"]) simp
next
  case (els_last s d u r)
  then obtain p where p: "skip_ws s = p @ u" "value_text d p" by blast
  from p(1) els_last.hyps(3) obtain a b where "s = (a @ p @ b @ '']'') @ r" "list_all is_ws a" "list_all is_ws b" "upto (skip_ws s) u = p"
    by (auto elim: before_delim)
  then show ?case using elements_last_text [OF _ _ p(2)] by metis
next
  case (els_more s d u v raws r)
  then obtain p x where p: "skip_ws s = p @ u" "value_text d p" and x: "v = x @ r" "elements_text d raws x" by blast
  have no: "\<not> HasPrefix (skip_ws (x @ q)) '']''" for q
    using no_close [of x r] els_more.hyps(4) x nonblank(1) [of d x raws] by blast
  have ne: "raws \<noteq> []" using els_more.hyps(4,5) by (auto elim: are_elements.cases)
  from p(1) els_more.hyps(3) obtain a b where "s = (a @ p @ b @ '','' @ x) @ r" "list_all is_ws a" "list_all is_ws b" "upto (skip_ws s) u = p"
    by (rule before_delim) (simp add: x(1))
  then show ?case using elements_more_text [OF _ _ p(2) x(2) ne no] by metis
next
  case (mem_none s r d)
  then obtain w where w: "s = w @ CHR ''}'' # r" "list_all is_ws w" using skip_split by blast
  with none_text(2) [OF w(2)] show ?case by (intro exI [of _ "w @ ''}''"]) simp
next
  case (mem_last s t u v d w r)
  then obtain p where p: "skip_ws v = p @ w" "value_text d p" by blast
  from p(1) mem_last.hyps(5) obtain e f where v: "v = e @ p @ f @ CHR ''}'' # r" "list_all is_ws e" "list_all is_ws f" "upto (skip_ws v) w = p"
    by (rule before_delim)
  from mem_last.hyps(1-3) obtain a k b where k: "pieces k" "butlast (upto t u) = k" "list_all is_ws a" "list_all is_ws b"
    "s = a @ CHR 0x22 # k @ CHR 0x22 # b @ CHR '':'' # v" by (rule before_member)
  have "s = (a @ CHR 0x22 # k @ CHR 0x22 # b @ CHR '':'' # e @ p @ f @ ''}'') @ r" using k(5) v(1) by simp
  then show ?case unfolding v(4) k(2) using members_last_text [OF k(1,3,4) v(2,3) p(2)] by blast
next
  case (mem_more s t u v d w x kvs r)
  then obtain p z where p: "skip_ws v = p @ w" "value_text d p" and z: "x = z @ r" "members_text d kvs z" by blast
  have no: "\<not> HasPrefix (skip_ws (z @ q)) ''}''" for q
    using no_close [of z r] mem_more.hyps(6) z nonblank(2) [of d z kvs] by blast
  have ne: "kvs \<noteq> []" using mem_more.hyps(6,7) by (auto elim: are_members.cases)
  from p(1) mem_more.hyps(5) obtain e f where v: "v = e @ p @ f @ CHR '','' # x" "list_all is_ws e" "list_all is_ws f" "upto (skip_ws v) w = p"
    by (rule before_delim)
  from mem_more.hyps(1-3) obtain a k b where k: "pieces k" "butlast (upto t u) = k" "list_all is_ws a" "list_all is_ws b"
    "s = a @ CHR 0x22 # k @ CHR 0x22 # b @ CHR '':'' # v" by (rule before_member)
  have "s = (a @ CHR 0x22 # k @ CHR 0x22 # b @ CHR '':'' # e @ p @ f @ '','' @ z) @ r" using k(5) v(1) z(1) by simp
  then show ?case unfolding v(4) k(2) using members_more_text [OF k(1,3,4) v(2,3) p(2) z(2) ne no] by blast
qed

section \<open>What a reader sees of a compacted object\<close>

lemma is_value_fun: "is_value d s r \<Longrightarrow> is_value d s r' \<Longrightarrow> r = r'"
  using scan_fuel(1) [of d s r "length s"] scan_fuel(1) [of d s r' "length s"] by simp

lemma compact_blank: "skip_ws r = [] \<Longrightarrow> compact_text False r = []"
  using compact_skip [of r] by simp

lemma null_value: "skip_ws s = ''null'' @ x \<Longrightarrow> is_value d s x"
  by (rule val_literal [of _ "CHR ''n''" "''ull'' @ x"]) (simp_all add: scan_literal_def HasPrefix_def)

lemma object_of_Some:
  assumes "object_of s = Some kvs"
  obtains r where "skip_ws s = ''null'' @ r" "skip_ws r = []" "kvs = []"
    | t raws r where "skip_ws s = CHR ''{'' # t" "are_members (maxNestingDepth - 1) t raws r" "skip_ws r = []" "kvs = map (apfst unquote) raws"
proof -
  have "Valid s" using assms by (simp add: object_of_def split: if_splits)
  then obtain r where r: "is_value maxNestingDepth s r" "skip_ws r = []" by (auto simp: Valid_iff)
  show thesis
  proof (cases "HasPrefix (skip_ws s) ''null''")
    case True
    then obtain x where x: "skip_ws s = ''null'' @ x" by (auto simp: HasPrefix_iff)
    then have "is_value maxNestingDepth s x" by (rule null_value)
    with r x assms True \<open>Valid s\<close> that(1) show thesis by (auto simp: object_of_def dest: is_value_fun)
  next
    case False
    with assms \<open>Valid s\<close> obtain t raws q where t: "skip_ws s = CHR ''{'' # t" and m: "members (length s) (maxNestingDepth - 1) t = Some (raws, q)"
      and kvs: "kvs = map (apfst unquote) raws"
      by (cases "skip_ws s") (auto simp: object_of_def simp del: members.simps split: if_splits)
    have "length t \<le> length s" using skip_ws_Cons [OF t] by simp
    then have q: "are_members (maxNestingDepth - 1) t raws q" using m members_iff by blast
    have "is_value maxNestingDepth s q" using val_object [OF t q] by (simp add: maxNestingDepth_def)
    with r have "skip_ws q = []" by (auto dest: is_value_fun)
    with t q kvs that(2) show thesis by blast
  qed
qed

lemma object_of_null: "object_of ''null'' = Some []"
proof -
  have "is_value maxNestingDepth ''null'' []" by (rule null_value) simp
  then have "Valid ''null''" by (auto simp: Valid_iff)
  then show ?thesis by (simp add: object_of_def HasPrefix_def)
qed

theorem object_of_compact:
  assumes "object_of s = Some kvs"
  shows "object_of (compact_text False s) = Some (map (apsnd (compact_text False)) kvs)"
  using assms
proof (cases rule: object_of_Some)
  case (1 r)
  then have "compact_text False s = ''null''"
    using compact_skip [of s] compact_closed [of "''null''" r] compact_blank [of r] by (simp add: is_ws_def byte_def)
  with 1 object_of_null show ?thesis by simp
next
  case (2 t raws r)
  from compact_grammar(3) [OF 2(2)] obtain p where p: "t = p @ r" "members_text (maxNestingDepth - 1) raws p" by blast
  have "compact_text False s = json_obj (compact_members raws)"
    using object_compact [OF p(2), of r] compact_skip [of s] 2(1,3) p(1) compact_blank [of r] by simp
  moreover have "object_of (json_obj (compact_members raws)) = Some (map (apfst unquote) (compact_members raws))"
    using compact_members_good p(2) by (intro object_of_good) blast+
  moreover have "map (apfst unquote) (compact_members raws) = map (apsnd (compact_text False)) kvs"
    using p(2) unfolding 2(4) by (auto simp: list_all_iff unquote_compact)
  ultimately show ?thesis by simp
qed

text \<open>Decoding a string or a struct of strings is not changed by compaction.\<close>

lemma raw_values:
  assumes "object_of s = Some kvs" shows "list_all (\<lambda>(k, v). value_text (maxNestingDepth - 1) v) kvs"
  using assms
proof (cases rule: object_of_Some)
  case (2 t raws r)
  from compact_grammar(3) [OF 2(2)] show ?thesis unfolding 2(4) by (auto simp: list_all_iff)
qed auto

lemma compact_hd: "value_text d p \<Longrightarrow> \<exists>t. compact_text False p = hd p # t"
proof -
  assume "value_text d p"
  then have "p \<noteq> []" "\<not> is_ws (hd p)" by (simp_all add: value_text_def token_def)
  then show ?thesis by (cases p) simp_all
qed

lemma decode_text_compact: "value_text d p \<Longrightarrow> decode_text old (compact_text False p) = decode_text old p"
proof -
  assume v: "value_text d p"
  then obtain t where t: "compact_text False p = hd p # t" using compact_hd by blast
  obtain c x where p: "p = c # x" using v by (auto simp: value_text_def neq_Nil_conv)
  consider "c = CHR 0x22" | "c = CHR ''{'' \<or> c = CHR ''[''" | "c \<notin> {CHR ''{'', CHR ''['', CHR 0x22}" by blast
  then show ?thesis
  proof cases
    case 1
    then obtain b where b: "pieces b" "p = CHR 0x22 # b @ [CHR 0x22]" using v p by (auto simp: value_text_def)
    have "compact_text False p = CHR 0x22 # compact_text True b @ [CHR 0x22]" using compact_pieces [OF b(1), of "[]"] b(2) by simp
    with b unquote_compact [OF b(1)] show ?thesis by (simp add: decode_text_def del: compact_text.simps)
  next
    case 2
    with t p show ?thesis by (auto simp: decode_text_def simp del: compact_text.simps)
  next
    case 3
    with v p show ?thesis by (simp add: value_text_def del: compact_text.simps)
  qed
qed

section \<open>Integers\<close>

lemma is_digit_c_iff: "is_digit_c c \<longleftrightarrow> is_digit c"
  by (simp add: is_digit_c_def is_digit_def byte_def Let_def)

lemma nat_dec_head: "10 \<le> n \<Longrightarrow> hd (nat_dec n) \<noteq> CHR ''0''"
proof (induction n rule: nat_dec.induct)
  case (1 n)
  then have "nat_dec n = nat_dec (n div 10) @ [digit_char (n mod 10)]" by (subst nat_dec.simps) simp
  moreover have "hd (nat_dec (n div 10)) \<noteq> CHR ''0''"
  proof (cases "10 \<le> n div 10")
    case False
    then have "nat_dec (n div 10) = [digit_char (n div 10)]" by (subst nat_dec.simps) simp
    moreover have "(of_char (digit_char (n div 10)) :: nat) \<noteq> of_char (CHR ''0'')" using False 1(2) of_char_digit [of "n div 10"] by simp
    ultimately show ?thesis by auto
  qed (use 1 in simp)
  ultimately show ?case by simp
qed

lemma scan_nat_dec: "ends q \<Longrightarrow> scan_unsigned (nat_dec n @ q) = Some q"
proof -
  assume q: "ends q"
  obtain c ds where d: "nat_dec n = c # ds" by (cases "nat_dec n") (use nat_dec_not_Nil in auto)
  have dig: "is_digit_c c" "list_all is_digit_c ds" using nat_dec_digits [of n] unfolding d by (simp_all add: is_digit_c_iff list_all_iff)
  have frac: "scan_frac q = Some q"
    using ends_stop [OF q] exp_none [OF q] by (cases q) (auto simp: scan_frac_def)
  have "c = CHR ''0'' \<Longrightarrow> ds = []"
  proof -
    assume "c = CHR ''0''"
    then have "n < 10" using nat_dec_head [of n] d by fastforce
    then have "nat_dec n = [digit_char n]" by (subst nat_dec.simps) simp
    with d show "ds = []" by simp
  qed
  then show ?thesis using dig frac dropWhile_digits [OF q dig(2)] unfolding d by (auto simp: scan_unsigned_def)
qed

lemma int_token: "token d (FormatInt x)"
proof -
  have head: "\<exists>c ds. nat_dec n = c # ds \<and> is_digit_c c" for n
    using nat_dec_digits [of n] nat_dec_not_Nil [of n] by (cases "nat_dec n") (simp_all add: is_digit_c_iff)
  then obtain c ds where c: "FormatInt x = c # ds" "c = CHR ''-'' \<or> is_digit_c c" by (metis FormatInt_def append_Cons append_Nil)
  have nc: "c \<notin> {CHR ''{'', CHR ''['', CHR '']'', CHR 0x22, CHR ''t'', CHR ''f'', CHR ''n''}" "\<not> is_ws c"
    using c(2) by (auto simp: is_digit_c_def is_ws_def byte_def)
  have "scan_number (FormatInt x @ q) = Some q" if "ends q" for q
  proof (cases "x < 0")
    case True
    then show ?thesis using scan_nat_dec [OF that] by (simp add: scan_number_eq FormatInt_def)
  next
    case False
    obtain c ds where "nat_dec (nat x) = c # ds" "is_digit_c c" using head by blast
    then show ?thesis using scan_nat_dec [OF that, of "nat x"] False
      by (auto simp: scan_number_eq FormatInt_def is_digit_c_def byte_def)
  qed
  then have "scan_literal (FormatInt x @ q) = Some q" if "ends q" for q
    using that nc unfolding c(1) by (auto simp: scan_literal_def HasPrefix_def)
  then have "is_value d (FormatInt x @ q) q" if "ends q" for q
    using that nc val_literal [of "FormatInt x @ q" c "ds @ q" q d] unfolding c(1) by simp
  then show ?thesis using nc c(1) by (auto simp: token_def)
qed

lemma decode_int_format: "- (2 ^ 63) \<le> x \<Longrightarrow> x < 2 ^ 63 \<Longrightarrow> decode_int old (FormatInt x) = Some x"
proof -
  assume "- (2 ^ 63) \<le> x" "x < 2 ^ 63"
  then have p: "ParseInt (FormatInt x) = Some x" by (rule ParseInt_FormatInt)
  have "ParseInt ''null'' = None" "ParseInt ''true'' = None" "ParseInt ''false'' = None" "ParseInt (CHR 0x22 # t) = None" "ParseInt (CHR ''{'' # t) = None"
    "ParseInt (CHR ''['' # t) = None" for t by (simp_all add: ParseInt_def is_digit_def)
  then have "FormatInt x \<noteq> ''null''" "FormatInt x \<noteq> ''true''" "FormatInt x \<noteq> ''false''" "FormatInt x \<noteq> CHR 0x22 # t" "FormatInt x \<noteq> CHR ''{'' # t"
    "FormatInt x \<noteq> CHR ''['' # t" for t using p by (metis option.distinct(1))+
  then show ?thesis using p by (auto simp: decode_int_def HasPrefix_iff)
qed

text \<open>A value within some nesting is one within more.\<close>

lemma deeper:
  "is_value d s r \<Longrightarrow> is_value (Suc d) s r" "are_elements d s xs r \<Longrightarrow> are_elements (Suc d) s xs r" "are_members d s kvs r \<Longrightarrow> are_members (Suc d) s kvs r"
  by (induction rule: is_value_are_elements_are_members.inducts)
     (auto intro: val_object val_array val_string val_literal els_none els_last els_more mem_none mem_last mem_more)

lemma value_text_valid: "value_text (maxNestingDepth - 1) v \<Longrightarrow> Valid v"
proof -
  assume "value_text (maxNestingDepth - 1) v"
  then have "is_value (maxNestingDepth - 1) v []" using token_value [of _ v "[]"] value_textD(3) by fastforce
  from deeper(1) [OF this] have "is_value maxNestingDepth v []" by (simp add: maxNestingDepth_def)
  then show ?thesis by (auto simp: Valid_iff)
qed

section \<open>The broadcast envelope\<close>

text \<open>C37: For positions and identities without characters that need escaping, the reflective encoder renders of a message exactly the pre-serialised
  broadcast envelope of its compacted payload, completed with the same sequence number, and fails when the payload is not JSON; so the two encodings of a
  message agree byte for byte exactly when its payload is absent or already compact.\<close>

theorem envelope_equals_serialize:
  assumes "list_all json_plain pos" and "list_all json_plain mid"
    and "m = \<lparr>EnvType = ''message'', EnvSeq = seq, EnvTs = ts, EnvChannel = channel, EnvPriority = p, EnvData = payload, EnvPos = pos, EnvMid = mid\<rparr>"
  shows "Serialize Compact m = (case payload of None \<Rightarrow> Some (Build (NewBroadcastEnvelope channel ts None pos mid) seq)
        | Some d \<Rightarrow> if Valid d then Some (Build (NewBroadcastEnvelope channel ts (Some (compact_text False d)) pos mid) seq) else None) \<and>
     (Serialize Compact m = Some (Build (NewBroadcastEnvelope channel ts payload pos mid) seq) \<longleftrightarrow>
        (case payload of None \<Rightarrow> True | Some d \<Rightarrow> Valid d \<and> compact_text False d = d))"
  unfolding assms(3) Serialize_envelope [OF assms(1,2)] by (auto simp: Compact_def envelope_payload_inj split: option.splits)

theorem envelope_equals_serialize_witness:
  "Serialize Compact \<lparr>EnvType = ''message'', EnvSeq = 7, EnvTs = 1700, EnvChannel = ''acme.BTC'', EnvPriority = PriorityNormal,
      EnvData = Some ''[1,2]'', EnvPos = ''4-1200'', EnvMid = []\<rparr>
     = Some (Build (NewBroadcastEnvelope ''acme.BTC'' 1700 (Some ''[1,2]'') ''4-1200'' []) 7) \<and>
   Serialize Compact \<lparr>EnvType = ''message'', EnvSeq = 7, EnvTs = 1700, EnvChannel = ''acme.BTC'', EnvPriority = PriorityNormal,
      EnvData = Some ''[1, 2]'', EnvPos = ''4-1200'', EnvMid = []\<rparr>
     = Some (Build (NewBroadcastEnvelope ''acme.BTC'' 1700 (Some ''[1,2]'') ''4-1200'' []) 7)"
proof -
  have v: "Valid ''[1,2]''" "Valid ''[1, 2]''" "compact_text False ''[1,2]'' = ''[1,2]''" "compact_text False ''[1, 2]'' = ''[1,2]''" by code_simp+
  have p: "list_all json_plain ''4-1200''" "list_all json_plain []" by (simp_all add: json_plain_def byte_def escape_ascii_def)
  show ?thesis
    using envelope_equals_serialize [OF p refl, of 7 1700 "''acme.BTC''" PriorityNormal "Some ''[1,2]''"]
      envelope_equals_serialize [OF p refl, of 7 1700 "''acme.BTC''" PriorityNormal "Some ''[1, 2]''"] v by simp
qed

end
