(* ===== verification/JsonText.thy ===== *)
theory JsonText
  imports JsonCompact
begin

text \<open>
  What decoding makes of a string literal is valid UTF-8: escapes stand for whole characters, and
  bytes that are not part of one are replaced. So a decoded text can be rendered and read again
  without loss.
\<close>

lemma byte_char_of: "n < 256 \<Longrightarrow> byte (char_of n) = n"
  by (simp add: byte_def)

lemma valid_chunk: "128 \<le> byte c \<Longrightarrow> utf8_len (c # h) = Suc (length h) \<Longrightarrow> valid_utf8 s \<Longrightarrow> valid_utf8 (c # h @ s)"
proof -
  assume c: "128 \<le> byte c" and l: "utf8_len (c # h) = Suc (length h)" and s: "valid_utf8 s"
  have "utf8_len ((c # h) @ s) = Suc (length h)"
    using utf8_len_take [of "c # h" s] l by (simp del: utf8_len.simps)
  with c s show ?thesis by (simp del: utf8_len.simps)
qed

lemma valid_replacement: "valid_utf8 s \<Longrightarrow> valid_utf8 (replacement @ s)"
  unfolding replacement_def using valid_chunk [of "CHR 0xEF" "[CHR 0xBF, CHR 0xBD]" s] by (simp add: byte_def cont_def)

lemma valid_runes:
  fixes a :: nat
  assumes s: "valid_utf8 s" and x: "x < (64::nat)" "y < (64::nat)" "z < (64::nat)"
  shows "2 \<le> a \<Longrightarrow> a < 32 \<Longrightarrow> valid_utf8 (char_of (192 + a) # char_of (128 + x) # s)"
    "a < 16 \<Longrightarrow> (a = 0 \<longrightarrow> 32 \<le> x) \<Longrightarrow> (a = 13 \<longrightarrow> x \<le> 31) \<Longrightarrow> valid_utf8 (char_of (224 + a) # char_of (128 + x) # char_of (128 + y) # s)"
    "a \<le> 4 \<Longrightarrow> (a = 0 \<longrightarrow> 16 \<le> x) \<Longrightarrow> (a = 4 \<longrightarrow> x \<le> 15) \<Longrightarrow>
       valid_utf8 (char_of (240 + a) # char_of (128 + x) # char_of (128 + y) # char_of (128 + z) # s)"
proof -
  have b: "byte (char_of (128 + x)) = 128 + x" "byte (char_of (128 + y)) = 128 + y" "byte (char_of (128 + z)) = 128 + z"
    using x by (simp_all add: byte_char_of)
  show "valid_utf8 (char_of (192 + a) # char_of (128 + x) # s)" if "2 \<le> a" "a < 32"
    using that x b valid_chunk [OF _ _ s, of "char_of (192 + a)" "[char_of (128 + x)]"] byte_char_of [of "192 + a"]
    by (simp add: cont_def del: valid_utf8.simps)
  show "valid_utf8 (char_of (224 + a) # char_of (128 + x) # char_of (128 + y) # s)" if "a < 16" "a = 0 \<longrightarrow> 32 \<le> x" "a = 13 \<longrightarrow> x \<le> 31"
    using that x b valid_chunk [OF _ _ s, of "char_of (224 + a)" "[char_of (128 + x), char_of (128 + y)]"] byte_char_of [of "224 + a"]
    by (simp add: cont_def del: valid_utf8.simps)
  show "valid_utf8 (char_of (240 + a) # char_of (128 + x) # char_of (128 + y) # char_of (128 + z) # s)" if "a \<le> 4" "a = 0 \<longrightarrow> 16 \<le> x" "a = 4 \<longrightarrow> x \<le> 15"
    using that x b valid_chunk [OF _ _ s, of "char_of (240 + a)" "[char_of (128 + x), char_of (128 + y), char_of (128 + z)]"] byte_char_of [of "240 + a"]
    by (simp add: cont_def del: valid_utf8.simps)
qed

lemma valid_encode_rune:
  assumes s: "valid_utf8 s" shows "valid_utf8 (encode_rune r @ s)"
proof -
  consider "r < 128" | "128 \<le> r" "r < 2048" | "2048 \<le> r" "r < 65536" "\<not> (55296 \<le> r \<and> r < 57344)" | "65536 \<le> r" "r < 1114112"
    | "55296 \<le> r \<and> r < 57344 \<or> 1114112 \<le> r" by linarith
  then show ?thesis
  proof cases
    case 1
    with s show ?thesis by (simp add: encode_rune_def byte_char_of)
  next
    case 2
    have "valid_utf8 (char_of (192 + r div 64) # char_of (128 + r mod 64) # s)" using 2 by (intro valid_runes(1) [OF s, of _ 0 0]) simp_all
    moreover have "encode_rune r = [char_of (192 + r div 64), char_of (128 + r mod 64)]" using 2 by (simp add: encode_rune_def)
    ultimately show ?thesis by (simp del: valid_utf8.simps)
  next
    case 3
    have "r div 64 = 64 * (r div 4096) + r div 64 mod 64" using div_mult2_eq [of r 64 64] by simp
    then have "r div 4096 = 0 \<longrightarrow> 32 \<le> r div 64 mod 64" "r div 4096 = 13 \<longrightarrow> r div 64 mod 64 \<le> 31" using 3 by linarith+
    then have "valid_utf8 (char_of (224 + r div 4096) # char_of (128 + r div 64 mod 64) # char_of (128 + r mod 64) # s)"
      using 3 by (intro valid_runes(2) [OF s, of _ _ 0]) simp_all
    moreover have "encode_rune r = [char_of (224 + r div 4096), char_of (128 + r div 64 mod 64), char_of (128 + r mod 64)]"
      using 3 by (auto simp: encode_rune_def)
    ultimately show ?thesis by (simp del: valid_utf8.simps)
  next
    case 4
    have "r div 4096 = 64 * (r div 262144) + r div 4096 mod 64" using div_mult2_eq [of r 4096 64] by simp
    then have "r div 262144 = 0 \<longrightarrow> 16 \<le> r div 4096 mod 64" "r div 262144 = 4 \<longrightarrow> r div 4096 mod 64 \<le> 15" using 4 by linarith+
    then have "valid_utf8 (char_of (240 + r div 262144) # char_of (128 + r div 4096 mod 64) # char_of (128 + r div 64 mod 64) # char_of (128 + r mod 64) # s)"
      using 4 by (intro valid_runes(3) [OF s]) simp_all
    moreover have "encode_rune r = [char_of (240 + r div 262144), char_of (128 + r div 4096 mod 64), char_of (128 + r div 64 mod 64), char_of (128 + r mod 64)]"
      using 4 by (simp add: encode_rune_def)
    ultimately show ?thesis by (simp del: valid_utf8.simps)
  next
    case 5
    with valid_replacement [OF s] show ?thesis by (auto simp: encode_rune_def)
  qed
qed

lemma simple_escape_ascii: "e \<in> set simple_escapes \<Longrightarrow> e \<noteq> CHR ''u'' \<and> byte (simple_unescape e) < 128"
  unfolding simple_escapes_def by (simp, elim disjE) (simp_all add: simple_unescape_def byte_def)

lemma unquote_valid: "pieces b \<Longrightarrow> valid_utf8 (unquote b)"
proof (induction "length b" arbitrary: b rule: less_induct)
  case less
  from less.prems show ?case
  proof cases
    case (piece_simple e t)
    then have "valid_utf8 (unquote t)" using less by simp
    with simple_escape_ascii [OF piece_simple(2)] piece_simple(1) show ?thesis by simp
  next
    case (piece_u u t)
    then obtain r where r: "hex4 u = Some r" by blast
    have IH: "valid_utf8 (unquote t)" using less piece_u by simp
    have pair: "valid_utf8 (unquote (drop 6 t))" if "low_surrogate r t = Some p" for p
      using low_surrogate_pieces [OF that piece_u(4)]
    proof cases
      case (1 v w)
      with less piece_u show ?thesis by simp
    qed
    show ?thesis unfolding piece_u(1) unquote_u [OF r piece_u(3)]
      using IH pair by (auto simp: valid_encode_rune valid_replacement simp del: unquote.simps split: option.split)
  next
    case (piece_char c t)
    then have IH: "valid_utf8 (unquote t)" using less by simp
    show ?thesis
    proof (cases "byte c < 128")
      case True
      with piece_char IH show ?thesis by simp
    next
      case False
      then have c: "128 \<le> byte c" by simp
      show ?thesis
      proof (cases "utf8_len (c # t)")
        case 0
        show ?thesis unfolding piece_char(1) unquote_bad [OF c 0] using IH by (rule valid_replacement)
      next
        case (Suc n)
        let ?h = "take n t" and ?r = "drop n t"
        have h: "n \<le> length t" "list_all cont ?h" using utf8_len_tail [OF Suc] by auto
        then have "list_all (\<lambda>c. 128 \<le> byte c) ?h" by (auto simp: list_all_iff cont_def)
        then have "pieces ?r" using pieces_drop [of ?h ?r] piece_char(5) by simp
        then have r: "valid_utf8 (unquote ?r)" using less piece_char by simp
        have "utf8_len (c # ?h) = Suc (length ?h)"
          using utf8_len_take [of "c # t" "[]"] Suc h(1) by (simp del: utf8_len.simps)
        from valid_chunk [OF c this r] show ?thesis unfolding piece_char(1) unquote_chunk [OF c Suc] by simp
      qed
    qed
  qed simp
qed

lemma decode_text_valid:
  assumes "value_text d v" "valid_utf8 old" "decode_text old v = Some x" shows "valid_utf8 x"
proof (cases "v = ''null''")
  case True
  with assms show ?thesis by (simp add: decode_text_def)
next
  case False
  with assms(3) have h: "HasPrefix v [CHR 0x22]" "x = unquote (butlast (tl v))" by (auto simp: decode_text_def simp del: unquote.simps split: if_splits)
  then have "hd v = CHR 0x22" by (auto simp: HasPrefix_iff)
  with assms(1) obtain b where "pieces b" "v = CHR 0x22 # b @ [CHR 0x22]" unfolding value_text_def by blast
  with h(2) show ?thesis by (simp add: unquote_valid del: unquote.simps)
qed

lemma decode_items_valid:
  "decode_items old raws = Some xs \<Longrightarrow> list_all (value_text d) raws \<Longrightarrow> list_all valid_utf8 old \<Longrightarrow> list_all valid_utf8 xs"
proof (induction old raws arbitrary: xs rule: decode_items.induct)
  case (2 old v vs)
  then obtain x ys where x: "decode_text (case old of [] \<Rightarrow> [] | x # _ \<Rightarrow> x) v = Some x" and ys: "decode_items (tl old) vs = Some ys" "xs = x # ys"
    by (auto split: option.splits)
  have "valid_utf8 (case old of [] \<Rightarrow> [] | x # _ \<Rightarrow> x)" "list_all valid_utf8 (tl old)" using 2(4) by (cases old; simp)+
  with 2 x ys show ?case by (auto intro: decode_text_valid)
qed simp

lemma decode_texts_valid:
  assumes "decode_texts old v = Some (Some xs)" "case old of None \<Rightarrow> True | Some l \<Rightarrow> list_all valid_utf8 l"
  shows "list_all valid_utf8 xs"
proof -
  from assms(1) obtain raws r where e: "elements (length v) (maxNestingDepth - 1) (tl v) = Some (raws, r)"
    and d: "decode_items (case old of None \<Rightarrow> [] | Some l \<Rightarrow> l) raws = Some xs"
    by (auto simp: decode_texts_def simp del: elements.simps split: if_splits option.splits)
  from e have "are_elements (maxNestingDepth - 1) (tl v) raws r" using scan_sound by blast
  from compact_grammar(2) [OF this] have "list_all (value_text (maxNestingDepth - 1)) raws" by blast
  with d assms(2) show ?thesis by (auto intro: decode_items_valid split: option.splits)
qed

section \<open>Decoding after compaction\<close>

lemma decode_int_compact: "value_text d v \<Longrightarrow> decode_int old (compact_text False v) = decode_int old v"
proof -
  assume v: "value_text d v"
  then obtain t where t: "compact_text False v = hd v # t" using compact_hd by blast
  obtain c x where c: "v = c # x" using v by (auto simp: value_text_def neq_Nil_conv)
  show ?thesis
  proof (cases "c \<in> {CHR ''{'', CHR ''['', CHR 0x22}")
    case True
    with t c show ?thesis by (auto simp: decode_int_def HasPrefix_iff simp del: compact_text.simps)
  next
    case False
    with v c show ?thesis by (simp add: value_text_def del: compact_text.simps)
  qed
qed

lemma decode_items_compact: "list_all (value_text d) vs \<Longrightarrow> decode_items old (map (compact_text False) vs) = decode_items old vs"
  by (induction old vs rule: decode_items.induct) (simp_all add: decode_text_compact [of d] del: compact_text.simps split: option.split)

lemma decode_array:
  assumes "are_elements (maxNestingDepth - 1) t vs []"
  shows "decode_texts old (CHR ''['' # t) = map_option Some (decode_items (case old of None \<Rightarrow> [] | Some l \<Rightarrow> l) vs)"
proof -
  have "elements (Suc (length t)) (maxNestingDepth - 1) t = Some (vs, [])" using assms by (intro scan_fuel(2)) simp_all
  then show ?thesis by (simp add: decode_texts_def del: elements.simps)
qed

lemma decode_texts_compact:
  assumes v: "value_text (maxNestingDepth - 1) v" shows "decode_texts old (compact_text False v) = decode_texts old v"
proof -
  obtain t where t: "compact_text False v = hd v # t" using compact_hd [OF v] by blast
  obtain c x where c: "v = c # x" using v by (auto simp: value_text_def neq_Nil_conv)
  show ?thesis
  proof (cases "c = CHR ''[''")
    case True
    have "is_value (maxNestingDepth - 1) v []" using token_value [OF value_textD(3) [OF v], of "[]"] by simp
    then obtain vs where vs: "are_elements (maxNestingDepth - 1) x vs []"
      using c True by cases (auto intro: deeper)
    from compact_grammar(2) [OF vs] obtain p where p: "x = p" "elements_text (maxNestingDepth - 1) vs p" by auto
    then have cx: "compact_text False v = CHR ''['' # Join (map (compact_text False) vs) '','' @ '']''"
      using c True by (simp add: p(1) del: compact_text.simps) (use array_compact [OF p(2), of "[]"] in simp)
    have "are_elements (maxNestingDepth - 1) (Join (map (compact_text False) vs) '','' @ CHR '']'' # []) (map (compact_text False) vs) []"
      using p(2) by (intro are_elements_Join) (auto simp: list_all_iff value_textD)
    moreover have "list_all (value_text (maxNestingDepth - 1)) vs" using p(2) by blast
    ultimately show ?thesis unfolding cx unfolding c True
      using decode_array [OF vs] decode_array [of "Join (map (compact_text False) vs) '','' @ '']''" "map (compact_text False) vs"]
      by (simp add: decode_items_compact [of "maxNestingDepth - Suc 0"] del: compact_text.simps)
  next
    case False
    show ?thesis
    proof (cases "c = CHR ''{'' \<or> c = CHR 0x22")
      case True
      with t c show ?thesis by (auto simp: decode_texts_def simp del: compact_text.simps)
    next
      case no: False
      with v c False show ?thesis by (simp add: value_text_def del: compact_text.simps)
    qed
  qed
qed

lemma decode_fields_compact:
  assumes f: "\<And>k v x. value_text d v \<Longrightarrow> f k (compact_text False v) x = f k v x"
  shows "list_all (\<lambda>(k, v). value_text d v) kvs \<Longrightarrow> decode_fields f (map (apsnd (compact_text False)) kvs) x = decode_fields f kvs x"
  by (induction kvs arbitrary: x) (auto simp: f simp del: compact_text.simps split: option.split)

text \<open>A raw value is an object when its compaction is.\<close>

lemma object_of_compact_None:
  assumes v: "value_text (maxNestingDepth - 1) v" and n: "object_of v = None" shows "object_of (compact_text False v) = None"
proof -
  obtain t where t: "compact_text False v = hd v # t" using compact_hd [OF v] by blast
  obtain c x where c: "v = c # x" using v by (auto simp: value_text_def neq_Nil_conv)
  have nws: "\<not> is_ws c" using value_textD(3) [OF v] c by (simp add: token_def)
  have "Valid v" using v by (rule value_text_valid)
  have "c \<noteq> CHR ''{''"
  proof
    assume b: "c = CHR ''{''"
    have "is_value (maxNestingDepth - 1) v []" using token_value [OF value_textD(3) [OF v], of "[]"] by simp
    from deeper(1) [OF this] have "is_value maxNestingDepth v []" by (simp add: maxNestingDepth_def)
    then obtain d kvs where "maxNestingDepth = Suc d" "are_members d x kvs []" using c b by cases auto
    then have "are_members (maxNestingDepth - 1) x kvs []" by (metis diff_Suc_1)
    then have "members (length v) (maxNestingDepth - 1) x = Some (kvs, [])" using c by (intro scan_fuel(3)) simp_all
    with n \<open>Valid v\<close> b c show False by (simp add: object_of_def HasPrefix_def del: members.simps)
  qed
  show ?thesis
  proof (cases "c \<in> {CHR ''['', CHR 0x22}")
    case True
    with t c show ?thesis by (auto simp: object_of_def HasPrefix_def simp del: compact_text.simps members.simps)
  next
    case False
    with \<open>c \<noteq> CHR ''{''\<close> v c n show ?thesis by (simp add: value_text_def del: compact_text.simps)
  qed
qed

lemma Unmarshal_compact:
  assumes v: "value_text (maxNestingDepth - 1) v"
    and f: "\<And>k w x. value_text (maxNestingDepth - 1) w \<Longrightarrow> f k (compact_text False w) x = f k w x"
  shows "Unmarshal f z (compact_text False v) = Unmarshal f z v"
proof (cases "object_of v")
  case None
  with object_of_compact_None [OF v None] show ?thesis by (simp add: Unmarshal_def)
next
  case (Some kvs)
  with object_of_compact [OF Some] decode_fields_compact [of "maxNestingDepth - 1" f, OF f raw_values [OF Some]] show ?thesis
    by (simp add: Unmarshal_def)
qed

end
