(* ===== verification/ServerHandlers.thy ===== *)
theory ServerHandlers
  imports Replay
begin

text \<open>
  The request handlers of the message server: \<open>handleClientMessage\<close> with its subscribe,
  unsubscribe, heartbeat and publish branches (\<open>server/handlers_message.go\<close>,
  \<open>server/handlers_publish.go\<close>), live gap replay (\<open>server/handler_replay.go\<close>), message history
  (\<open>server/handler_history.go\<close>) and the recovery of an SSE stream (\<open>server/grpc_service.go\<close>).

  A request is the JSON document after decoding, with the failures of the decoder as values. The
  replay and history handlers start a goroutine that delivers to the client while broadcasts and
  the write pump use the same send buffer; such a delivery is a value of its own that is run step
  by step, so that every interleaving is a sequence of steps.
\<close>

section \<open>Requests\<close>

record subscribe_data =
  sd_Channels :: "string list"
  sd_Channel :: string
  sd_History :: "int option"

text \<open>
  \<open>None\<close> in a request is a failed decoding of its data; a history request that fails to decode
  still carries the channel the second, partial decoding found. \<open>unsubscribe\<close> distinguishes an
  absent channel list, which the acknowledgement renders as \<open>null\<close>.
\<close>

datatype client_request =
  ReqReconnect "(string \<times> string) list option"
| ReqHeartbeat
| ReqSubscribe "subscribe_data option"
| ReqUnsubscribe "string list option option"
| ReqReplay "(string \<times> string) option"
| ReqHistory "string + (string \<times> int)"
| ReqPublish "(string \<times> string) option"
| ReqUnknown

section \<open>Publishing\<close>

definition DefaultMaxPublishSize :: nat where
  "DefaultMaxPublishSize = 64 * 1024"

definition publishErrorToClientCode :: "publish_error \<Rightarrow> string \<times> bool" where
  "publishErrorToClientCode err =
     (case err of
        ErrNoMatchingRoute \<Rightarrow> (''no_matching_route'', True)
      | ErrPublishNotRoutable \<Rightarrow> (''no_routing_rules'', True)
      | ErrInvalidChannel \<Rightarrow> (''invalid_channel'', True)
      | ErrTopicNotProvisioned \<Rightarrow> (''topic_not_provisioned'', False)
      | ErrServiceUnavailable \<Rightarrow> (''service_unavailable'', True)
      | ErrBusUnavailable \<Rightarrow> (''service_unavailable'', True)
      | ErrOtherPublish \<Rightarrow> (''publish_failed'', False))"

definition publishErrorMessages :: "(string \<times> string) list" where
  "publishErrorMessages =
     [(''not_available'', ''Publishing is not enabled on this server''),
      (''invalid_request'', ''Invalid publish request format''),
      (''invalid_channel'', ''Channel must have format: {tenant_id}.{suffix}''),
      (''message_too_large'', ''Message exceeds maximum size limit''),
      (''rate_limited'', ''Publish rate limit exceeded''),
      (''publish_failed'', ''Failed to publish message''),
      (''forbidden'', ''Not authorized to publish to this channel''),
      (''topic_not_provisioned'', ''Topic is not provisioned for your tenant''),
      (''service_unavailable'', ''Service temporarily unavailable, please retry''),
      (''no_routing_rules'', ''No topic routing rules configured for tenant''),
      (''no_matching_route'', ''No matching topic routing rule for channel'')]"

definition PublishErrorMessage :: "string \<Rightarrow> string" where
  "PublishErrorMessage code = (case map_of publishErrorMessages code of None \<Rightarrow> [] | Some m \<Rightarrow> m)"

definition sendPublishError :: "string \<Rightarrow> client \<Rightarrow> client" where
  "sendPublishError code = sendErrorToClient ''publish_error'' code (PublishErrorMessage code)"

definition sendPublishAck :: "string \<Rightarrow> string \<Rightarrow> client \<Rightarrow> client" where
  "sendPublishAck channel mid =
     send_raw (json_obj ([(''channel'', json_string channel)]
       @ (if mid \<noteq> [] then [(''mid'', json_string mid)] else [])
       @ [(''status'', json_string ''accepted''), (''type'', json_string ''publish_ack'')]))"

text \<open>
  \<open>allowed\<close> is the answer of the rate limiter. The second result is the call of the backend the
  handler makes: client id, tenant, channel and data.
\<close>

definition handleClientPublish ::
  "backend option \<Rightarrow> bool \<Rightarrow> (string \<times> string) option \<Rightarrow> cref \<Rightarrow> server \<Rightarrow> server \<times> (int \<times> string \<times> string \<times> string) option" where
  "handleClientPublish be allowed req c s =
     (case be of
        None \<Rightarrow> (upd_client s c (sendPublishError ''not_available''), None)
      | Some be \<Rightarrow>
          (case req of
             None \<Rightarrow> (upd_client s c (sendPublishError ''invalid_request''), None)
           | Some (channel, data) \<Rightarrow>
               if \<not> IsValidInternalChannel channel then (upd_client s c (sendPublishError ''invalid_channel''), None)
               else if DefaultMaxPublishSize < length data then (upd_client s c (sendPublishError ''message_too_large''), None)
               else
                 let s = CheckLimit_bucket (cl_id (heap s c)) s
                 in if \<not> allowed then (upd_client s c (sendPublishError ''rate_limited''), None)
                    else
                      let call = (cl_id (heap s c), cl_tenantID (heap s c), channel, data)
                      in case be_Publish be (cl_id (heap s c)) (cl_tenantID (heap s c)) channel data of
                           Inl err \<Rightarrow> (upd_client s c (sendPublishError (fst (publishErrorToClientCode err))), Some call)
                         | Inr mid \<Rightarrow> (upd_client s c (sendPublishAck channel mid), Some call)))"

section \<open>Live replay\<close>

text \<open>
  A running delivery: about to fetch, with messages left, holding a rendered message while the
  send buffer is full. Each carries the channel whose in-progress mark it holds; the number is the
  count of messages delivered so far.
\<close>

record history_entry =
  he_payload :: string
  he_coord :: string
  he_mid :: string

datatype delivery =
  ReplayFetch string string int int
| ReplaySend string "replay_message list" int
| ReplayOffer string string "replay_message list" int
| HistoryFetch string string int
| HistorySend string "history_entry list" int

definition bool_field :: "string \<Rightarrow> bool \<Rightarrow> (string \<times> string) list" where
  "bool_field k b = (if b then [(k, ''true'')] else [])"

definition text_field :: "string \<Rightarrow> string \<Rightarrow> (string \<times> string) list" where
  "text_field k v = (if v \<noteq> [] then [(k, json_string v)] else [])"

definition sendReplayComplete :: "string \<Rightarrow> int \<Rightarrow> bool \<Rightarrow> client \<Rightarrow> client" where
  "sendReplayComplete channel n truncated =
     send_raw (json_obj ([(''type'', json_string ''replay_complete''), (''channel'', json_string channel),
                          (''messages_replayed'', FormatInt n)] @ bool_field ''truncated'' truncated))"

definition sendReplayError :: "string \<Rightarrow> string \<Rightarrow> string \<Rightarrow> client \<Rightarrow> client" where
  "sendReplayError channel code msg =
     send_raw (json_obj [(''type'', json_string ''error''), (''channel'', json_string channel),
                         (''code'', json_string code), (''message'', json_string msg)])"

definition clearReplayInProgress :: "string \<Rightarrow> client \<Rightarrow> client" where
  "clearReplayInProgress channel c = c\<lparr>replayInProgress := replayInProgress c - {channel}\<rparr>"

definition handleReplayRequest ::
  "handler_config \<Rightarrow> backend option \<Rightarrow> int \<Rightarrow> (string \<times> string) option \<Rightarrow> client \<Rightarrow> client \<times> delivery option" where
  "handleReplayRequest cfg be now req c =
     (case req of
        None \<Rightarrow> (sendErrorToClient ''error'' ''invalid_request'' ''invalid replay request'' c, None)
      | Some (channel, from_pos) \<Rightarrow>
          if \<not> set_Has (subscriptions c) channel
          then (sendReplayError channel ''not_subscribed'' ''subscribe before replaying'' c, None)
          else
            (case DecodePos from_pos of
               None \<Rightarrow> (sendReplayError channel ''invalid_request'' ''invalid from_pos format; expected (partition+1)-offset'' c, None)
             | Some (part, offset) \<Rightarrow>
                 if channel \<in> replayInProgress c
                 then (sendReplayError channel ''replay_in_progress'' ''replay already in progress for this channel'' c, None)
                 else if (case replayLastAt c channel of None \<Rightarrow> False | Some l \<Rightarrow> now - l < ReplayRateLimitInterval cfg)
                 then (sendReplayError channel ''replay_rate_limited'' ''replay rate limit exceeded; please wait before retrying'' c, None)
                 else
                   let c = c\<lparr>replayInProgress := insert channel (replayInProgress c)\<rparr>
                   in case be of
                        None \<Rightarrow> (sendReplayError channel ''not_available'' ''replay not available (no backend configured)''
                                  (clearReplayInProgress channel c), None)
                      | Some be \<Rightarrow>
                          (case ChannelTopic be channel of
                             None \<Rightarrow> (sendReplayError channel ''not_available'' ''channel not available for replay''
                                       (clearReplayInProgress channel c), None)
                           | Some topic \<Rightarrow> (c, Some (ReplayFetch channel topic part offset)))))"

section \<open>History\<close>

text \<open>
  The history store: the id of the newest entry of a stream, and up to a number of entries at or
  before an id, newest first. \<open>None\<close> is a failed command.
\<close>

record history_store =
  hs_env :: string
  hs_head :: "string \<Rightarrow> string option"
  hs_range :: "string \<Rightarrow> string \<Rightarrow> int \<Rightarrow> history_entry list option"

definition StreamKey :: "string \<Rightarrow> string \<Rightarrow> string \<Rightarrow> string" where
  "StreamKey env tenantID channel = ''history:'' @ env @ '':'' @ tenantID @ '':'' @ channel"

definition HistoryCoordAuto :: string where
  "HistoryCoordAuto = ''auto''"

definition sendHistoryError :: "string \<Rightarrow> string \<Rightarrow> string \<Rightarrow> client \<Rightarrow> client" where
  "sendHistoryError channel code msg =
     send_raw (json_obj [(''type'', json_string ''history_error''), (''code'', json_string code),
                         (''channel'', json_string channel), (''message'', json_string msg)])"

definition sendHistoryComplete :: "string \<Rightarrow> int \<Rightarrow> bool \<Rightarrow> client \<Rightarrow> client" where
  "sendHistoryComplete channel n truncated =
     send_raw (json_obj ([(''type'', json_string ''history_complete''), (''channel'', json_string channel),
                          (''count'', FormatInt n), (''source'', json_string ''cache'')] @ bool_field ''truncated'' truncated))"

definition clearInProgress :: "string \<Rightarrow> client \<Rightarrow> client" where
  "clearInProgress channel c = c\<lparr>historyInProgress := historyInProgress c - {channel}\<rparr>"

definition handleHistoryRequest ::
  "handler_config \<Rightarrow> history_store option \<Rightarrow> string \<Rightarrow> int \<Rightarrow> client \<Rightarrow> client \<times> delivery option" where
  "handleHistoryRequest cfg hist channel limit c =
     (case (if HistoryEnabled cfg then hist else None) of
        None \<Rightarrow> (sendHistoryError channel ''history_disabled'' ''message history is not enabled'' c, None)
      | Some st \<Rightarrow>
          if \<not> set_Has (subscriptions c) channel
          then (sendHistoryError channel ''history_not_subscribed'' ''subscribe to channel before requesting history'' c, None)
          else if limit < 1 \<or> limit > HistoryMaxLimit cfg
          then (sendHistoryError channel ''history_invalid_limit''
                  (''limit must be between 1 and '' @ FormatInt (HistoryMaxLimit cfg)) c, None)
          else
            (case Cut channel ''.'' of
               None \<Rightarrow> (sendHistoryError channel ''history_invalid_channel'' ''channel must be in {tenant}.{suffix} format'' c, None)
             | Some (tenantID, bare) \<Rightarrow>
                 if bare = []
                 then (sendHistoryError channel ''history_invalid_channel'' ''channel must be in {tenant}.{suffix} format'' c, None)
                 else if channel \<in> historyInProgress c
                 then (sendHistoryError channel ''history_in_progress'' ''history delivery already in progress for this channel'' c, None)
                 else (c\<lparr>historyInProgress := insert channel (historyInProgress c)\<rparr>,
                       Some (HistoryFetch channel (StreamKey (hs_env st) tenantID bare) limit))))"

section \<open>Running a delivery\<close>

text \<open>
  The result of a step: the delivery goes on, has sent its completion frame with a count and the
  truncation mark, or has reported an error. The marks are released by a deferred call on every
  way out.
\<close>

datatype delivery_result = Continue delivery | Completed int bool | Failed

record handler_env =
  env_compact :: "string \<Rightarrow> string option"
  env_cfg :: handler_config
  env_be :: "backend option"
  env_hist :: "history_store option"

definition replay_frame :: "int \<Rightarrow> int \<Rightarrow> string \<Rightarrow> replay_message \<Rightarrow> string" where
  "replay_frame seq now data m =
     json_obj ([(''type'', json_string ''replay_message''), (''seq'', FormatInt seq), (''channel'', json_string (rm_Subject m)),
                (''ts'', FormatInt now), (''data'', data)] @ text_field ''pos'' (rm_Pos m) @ text_field ''mid'' (rm_Mid m))"

definition history_frame :: "int \<Rightarrow> int \<Rightarrow> string \<Rightarrow> string \<Rightarrow> history_entry \<Rightarrow> string" where
  "history_frame seq now channel data e =
     json_obj ([(''type'', json_string ''message''), (''seq'', FormatInt seq), (''ts'', FormatInt now),
                (''channel'', json_string channel), (''data'', data), (''history'', ''true'')]
               @ text_field ''pos'' (if he_coord e \<noteq> HistoryCoordAuto then he_coord e else [])
               @ text_field ''mid'' (he_mid e))"

definition valid_payload :: "(string \<Rightarrow> string option) \<Rightarrow> replay_message \<Rightarrow> string option" where
  "valid_payload compact m = (case rm_Data m of None \<Rightarrow> None | Some d \<Rightarrow> compact d)"

definition next_seq :: "client \<Rightarrow> client \<times> int" where
  "next_seq c = (let (g, n) = seq_Next (seqGen c) in (c\<lparr>seqGen := g\<rparr>, n))"

definition replay_fetch :: "handler_env \<Rightarrow> string \<Rightarrow> string \<Rightarrow> int \<Rightarrow> int \<Rightarrow> client \<Rightarrow> client \<times> delivery_result" where
  "replay_fetch env channel topic part offset c =
     (case env_be env of
        None \<Rightarrow> (clearReplayInProgress channel c, Failed)
      | Some be \<Rightarrow>
          (case be_Replay be \<lparr>Positions = [topic \<mapsto> [part \<mapsto> offset]], MaxMessages = MaxReplayMessages (env_cfg env),
                             ReplaySubscriptions = [channel]\<rparr> of
             Inl OffsetOutOfRange \<Rightarrow>
               (clearReplayInProgress channel (sendReplayError channel ''offset_out_of_range'' ''position is outside available history'' c), Failed)
           | Inl ErrOtherReplay \<Rightarrow>
               (clearReplayInProgress channel (sendReplayError channel ''replay_failed'' ''replay failed'' c), Failed)
           | Inr msgs \<Rightarrow>
               if length msgs = 0 then (clearReplayInProgress channel (sendReplayComplete channel 0 False c), Completed 0 False)
               else (c, Continue (ReplaySend channel msgs 0))))"

definition history_fetch :: "handler_env \<Rightarrow> string \<Rightarrow> string \<Rightarrow> int \<Rightarrow> client \<Rightarrow> client \<times> delivery_result" where
  "history_fetch env channel key limit c =
     (case env_hist env of
        None \<Rightarrow> (clearInProgress channel c, Failed)
      | Some st \<Rightarrow>
          (let streamHeadID = (case hs_head st key of None \<Rightarrow> [] | Some i \<Rightarrow> i);
               endID = (if streamHeadID \<noteq> [] then streamHeadID else ''+'')
           in case hs_range st key endID limit of
                None \<Rightarrow> (clearInProgress channel (sendHistoryError channel ''history_storage_unavailable''
                           ''history storage temporarily unavailable'' c), Failed)
              | Some entries \<Rightarrow> (c, Continue (HistorySend channel (rev entries) 0))))"

text \<open>
  One step of a delivery at time \<open>now\<close>; \<open>expired\<close> tells whether its context has ended. When the
  buffer has room and the context has ended too, the select statement takes either branch:
  \<open>pick\<close> decides. \<open>None\<close> is a delivery that blocks. The last component is the frame put into the
  send buffer, if any.
\<close>

fun deliver_step ::
  "handler_env \<Rightarrow> int \<Rightarrow> bool \<Rightarrow> bool \<Rightarrow> delivery \<Rightarrow> client \<Rightarrow> (client \<times> delivery_result \<times> string option) option" where
  "deliver_step env now expired pick (ReplayFetch channel topic part offset) c =
     (let (c, r) = replay_fetch env channel topic part offset c in Some (c, r, None))"
| "deliver_step env now expired pick (ReplaySend channel [] n) c =
     (let c = c\<lparr>replayLastAt := (replayLastAt c)(channel \<mapsto> now)\<rparr>
      in Some (clearReplayInProgress channel (sendReplayComplete channel n False c), Completed n False, None))"
| "deliver_step env now expired pick (ReplaySend channel (m # ms) n) c =
     (case valid_payload (env_compact env) m of
        None \<Rightarrow> Some (c, Continue (ReplaySend channel ms n), None)
      | Some data \<Rightarrow>
          (let (c, seq) = next_seq c
           in Some (c, Continue (ReplayOffer channel (replay_frame seq now data m) ms n), None)))"
| "deliver_step env now expired pick (ReplayOffer channel data ms n) c =
     (case (if expired \<and> \<not> pick then SendFull else try_send (RawMsg data) c) of
        SendOK c \<Rightarrow> Some (c, Continue (ReplaySend channel ms (n + 1)), Some data)
      | _ \<Rightarrow> if expired then Some (clearReplayInProgress channel (sendReplayComplete channel n True c), Completed n True, None)
             else None)"
| "deliver_step env now expired pick (HistoryFetch channel key limit) c =
     (let (c, r) = history_fetch env channel key limit c in Some (c, r, None))"
| "deliver_step env now expired pick (HistorySend channel [] n) c =
     Some (clearInProgress channel (sendHistoryComplete channel n False c), Completed n False, None)"
| "deliver_step env now expired pick (HistorySend channel (e # es) n) c =
     (if expired then Some (clearInProgress channel (sendHistoryComplete channel n True c), Completed n True, None)
      else if length (he_payload e) = 0 then Some (c, Continue (HistorySend channel es n), None)
      else
        let (c, seq) = next_seq c
        in case env_compact env (he_payload e) of
             None \<Rightarrow> Some (c, Continue (HistorySend channel es n), None)
           | Some d \<Rightarrow>
               (let data = history_frame seq now channel d e
                in case try_send (RawMsg data) c of
                     SendOK c \<Rightarrow> Some (c, Continue (HistorySend channel es (n + 1)), Some data)
                   | _ \<Rightarrow> Some (c, Continue (HistorySend channel es n), None)))"

section \<open>The dispatcher\<close>

definition count_new :: "client \<Rightarrow> string list \<Rightarrow> int" where
  "count_new c channels = int (length (filter (\<lambda>ch. \<not> set_Has (subscriptions c) ch) channels))"

definition handle_subscribe ::
  "handler_env \<Rightarrow> subscribe_data option \<Rightarrow> cref \<Rightarrow> server \<Rightarrow> server \<times> delivery option" where
  "handle_subscribe env req c s =
     (case req of
        None \<Rightarrow> (upd_client s c (sendErrorToClient ''subscribe_error'' ''invalid_request'' ''Invalid subscribe request format''), None)
      | Some d \<Rightarrow>
          if sd_History d \<noteq> None \<and> sd_Channel d = []
          then (upd_client s c (sendErrorToClient ''subscribe_error'' ''invalid_request'' ''channel is required for subscribe-with-history''), None)
          else if sd_History d \<noteq> None \<and> (\<not> HistoryEnabled (env_cfg env) \<or> env_hist env = None)
          then (upd_client s c (sendHistoryError (sd_Channel d) ''history_disabled'' ''message history is not enabled''), None)
          else
            let channels = (if sd_History d \<noteq> None then [sd_Channel d] else sd_Channels d);
                cl = heap s c
            in if length channels = 0
               then (upd_client s c (sendErrorToClient ''subscribe_error'' ''invalid_request'' ''no channels specified''), None)
               else if int (set_Count (subscriptions cl)) + count_new cl channels > MaxChannelsPerClient (env_cfg env)
               then (upd_client s c (sendErrorToClient ''subscribe_error'' ''subscribe_limit_exceeded'' ''channel subscription limit reached''), None)
               else
                 let s = push_subscriptions RegSubscribe (env_cfg env) c (subscribe_client s c channels);
                     n = set_Count (subscriptions (heap s c));
                     s = upd_client s c (send_raw (json_obj [(''count'', FormatInt (int n)), (''subscribed'', json_strings channels),
                                                             (''type'', json_string ''subscription_ack'')]))
                 in case sd_History d of
                      None \<Rightarrow> (s, None)
                    | Some limit \<Rightarrow>
                        (let (cl, d') = handleHistoryRequest (env_cfg env) (env_hist env) (sd_Channel d) limit (heap s c)
                         in (upd_client s c (\<lambda>_. cl), d')))"

definition handle_unsubscribe :: "handler_env \<Rightarrow> string list option option \<Rightarrow> cref \<Rightarrow> server \<Rightarrow> server" where
  "handle_unsubscribe env req c s =
     (case req of
        None \<Rightarrow> upd_client s c (sendErrorToClient ''unsubscribe_error'' ''invalid_request'' ''Invalid unsubscribe request format'')
      | Some chs \<Rightarrow>
          (let channels = (case chs of None \<Rightarrow> [] | Some l \<Rightarrow> l);
               s = push_subscriptions RegUnsubscribe (env_cfg env) c (unsubscribe_client s c channels);
               n = set_Count (subscriptions (heap s c))
           in upd_client s c (send_raw (json_obj [(''count'', FormatInt (int n)), (''type'', json_string ''unsubscription_ack''),
                (''unsubscribed'', (case chs of None \<Rightarrow> ''null'' | Some l \<Rightarrow> json_strings l))]))))"

definition handleClientMessage ::
  "handler_env \<Rightarrow> int \<Rightarrow> bool \<Rightarrow> bool \<Rightarrow> client_request option \<Rightarrow> cref \<Rightarrow> server \<Rightarrow> server \<times> delivery option" where
  "handleClientMessage env now allowed expired req c s =
     (case req of
        None \<Rightarrow> (upd_client s c (sendErrorToClient ''error'' ''invalid_json'' ''Message is not valid JSON''), None)
      | Some (ReqReconnect lp) \<Rightarrow> (handleReconnect (env_compact env) (env_cfg env) (env_be env) now expired lp c s, None)
      | Some ReqHeartbeat \<Rightarrow>
          (upd_client s c (send_raw (json_obj [(''ts'', FormatInt now), (''type'', json_string ''pong'')])), None)
      | Some (ReqSubscribe d) \<Rightarrow> handle_subscribe env d c s
      | Some (ReqUnsubscribe d) \<Rightarrow> (handle_unsubscribe env d c s, None)
      | Some (ReqReplay d) \<Rightarrow>
          (let (cl, dl) = handleReplayRequest (env_cfg env) (env_be env) now d (heap s c) in (upd_client s c (\<lambda>_. cl), dl))
      | Some (ReqHistory (Inl partial)) \<Rightarrow>
          (upd_client s c (sendHistoryError partial ''history_invalid_request'' ''invalid history request format''), None)
      | Some (ReqHistory (Inr (channel, limit))) \<Rightarrow>
          (let (cl, dl) = handleHistoryRequest (env_cfg env) (env_hist env) channel limit (heap s c) in (upd_client s c (\<lambda>_. cl), dl))
      | Some (ReqPublish d) \<Rightarrow> (fst (handleClientPublish (env_be env) allowed d c s), None)
      | Some ReqUnknown \<Rightarrow> (s, None))"

section \<open>Marks and limits\<close>

text \<open>A mark is a kind of delivery (live replay or not) with its channel.\<close>

definition marks :: "client \<Rightarrow> (bool \<times> string) set" where
  "marks c = Pair True ` replayInProgress c \<union> Pair False ` historyInProgress c"

fun mark_of :: "delivery \<Rightarrow> bool \<times> string" where
  "mark_of (ReplayFetch ch t p n) = (True, ch)"
| "mark_of (ReplaySend ch ms n) = (True, ch)"
| "mark_of (ReplayOffer ch d ms n) = (True, ch)"
| "mark_of (HistoryFetch ch k l) = (False, ch)"
| "mark_of (HistorySend ch es n) = (False, ch)"

text \<open>The channels of a client are within its limit; the keys of a decoded map are distinct.\<close>

definition capped :: "handler_env \<Rightarrow> client \<Rightarrow> bool" where
  "capped env c \<longleftrightarrow> finite (subscriptions c) \<and> int (card (subscriptions c)) \<le> MaxChannelsPerClient (env_cfg env)"

fun request_ok :: "client_request option \<Rightarrow> bool" where
  "request_ok (Some (ReqReconnect (Some lp))) = distinct (map fst lp)"
| "request_ok _ = True"

section \<open>What the handlers change\<close>

lemma send_raw_keeps [simp]:
  "subscriptions (send_raw d c) = subscriptions c" "transport (send_raw d c) = transport c"
  "sendClosed (send_raw d c) = sendClosed c" "replayInProgress (send_raw d c) = replayInProgress c"
  "historyInProgress (send_raw d c) = historyInProgress c" "cl_tenantID (send_raw d c) = cl_tenantID c"
  "marks (send_raw d c) = marks c"
  by (auto simp: send_raw_def try_send_def marks_def split: send_result.splits if_splits)

lemmas reply_defs = sendErrorToClient_def sendPublishError_def sendPublishAck_def sendReplayError_def sendReplayComplete_def
  sendHistoryError_def sendHistoryComplete_def reconnect_ack_def

lemma reply_keeps [simp]:
  "subscriptions (sendErrorToClient a b m c) = subscriptions c" "transport (sendErrorToClient a b m c) = transport c" "sendClosed (sendErrorToClient a b m c) = sendClosed c" "marks (sendErrorToClient a b m c) = marks c"
  "subscriptions (sendReplayError a b m c) = subscriptions c" "transport (sendReplayError a b m c) = transport c" "sendClosed (sendReplayError a b m c) = sendClosed c" "marks (sendReplayError a b m c) = marks c"
  "subscriptions (sendReplayComplete a n t c) = subscriptions c" "transport (sendReplayComplete a n t c) = transport c" "sendClosed (sendReplayComplete a n t c) = sendClosed c" "marks (sendReplayComplete a n t c) = marks c"
  "subscriptions (sendHistoryError a b m c) = subscriptions c" "transport (sendHistoryError a b m c) = transport c" "sendClosed (sendHistoryError a b m c) = sendClosed c" "marks (sendHistoryError a b m c) = marks c"
  "subscriptions (sendHistoryComplete a n t c) = subscriptions c" "transport (sendHistoryComplete a n t c) = transport c" "sendClosed (sendHistoryComplete a n t c) = sendClosed c" "marks (sendHistoryComplete a n t c) = marks c"
  by (simp_all add: reply_defs)

lemma clear_marks [simp]:
  "marks (clearReplayInProgress ch c) = marks c - {(True, ch)}" "marks (clearInProgress ch c) = marks c - {(False, ch)}"
  "subscriptions (clearReplayInProgress ch c) = subscriptions c" "subscriptions (clearInProgress ch c) = subscriptions c"
  "transport (clearReplayInProgress ch c) = transport c" "transport (clearInProgress ch c) = transport c"
  "sendClosed (clearReplayInProgress ch c) = sendClosed c" "sendClosed (clearInProgress ch c) = sendClosed c"
  by (auto simp: marks_def clearReplayInProgress_def clearInProgress_def)

definition keeps :: "client \<Rightarrow> client \<Rightarrow> bool" where
  "keeps c c' \<longleftrightarrow> subscriptions c' = subscriptions c \<and> transport c' = transport c \<and> sendClosed c' = sendClosed c \<and> marks c' = marks c"

lemma keeps_trans: "keeps a b \<Longrightarrow> keeps b c \<Longrightarrow> keeps a c"
  by (simp add: keeps_def)

lemma keeps_simps [simp]:
  "keeps c c" "keeps c (send_raw d c)" "keeps c (c\<lparr>seqGen := g\<rparr>)" "keeps c (c\<lparr>send := l\<rparr>)" "keeps c (c\<lparr>replayLastAt := m\<rparr>)"
  by (simp_all add: keeps_def marks_def)

lemma try_send_keeps: "try_send m c = SendOK c' \<Longrightarrow> keeps c c'"
  by (auto simp: try_send_def split: if_splits)

lemma forward_loop_keeps: "forward_loop compact now ms c n f = (c', n', f', full) \<Longrightarrow> keeps c c'"
proof (induction ms arbitrary: c n f)
  case (Cons m ms)
  let ?c = "c\<lparr>seqGen := fst (seq_Next (seqGen c))\<rparr>"
  let ?e = "Serialize compact \<lparr>EnvType = ''message'', EnvSeq = snd (seq_Next (seqGen c)), EnvTs = now, EnvChannel = rm_Subject m,
                EnvPriority = PriorityNormal, EnvData = rm_Data m, EnvPos = rm_Pos m, EnvMid = rm_Mid m\<rparr>"
  have k: "keeps c ?c" by simp
  show ?case
  proof (cases ?e)
    case None
    with Cons have "keeps ?c c'" by (simp add: case_prod_unfold Let_def)
    with k show ?thesis by (rule keeps_trans)
  next
    case (Some d)
    show ?thesis
    proof (cases "try_send (RawMsg d) ?c")
      case (SendOK c1)
      with Some Cons have "keeps c1 c'" by (simp add: case_prod_unfold Let_def)
      with k try_send_keeps [OF SendOK] show ?thesis using keeps_trans by blast
    qed (use Some Cons.prems k in \<open>simp_all add: case_prod_unfold Let_def\<close>)
  qed
qed simp

text \<open>What handling a request of \<open>c\<close> guarantees, with the delivery it starts.\<close>

definition handled :: "handler_env \<Rightarrow> cref \<Rightarrow> server \<Rightarrow> server \<times> delivery option \<Rightarrow> bool" where
  "handled env c s r \<longleftrightarrow>
     clients (fst r) = clients s \<and> (\<forall>d. d \<noteq> c \<longrightarrow> heap (fst r) d = heap s d) \<and> srv_inv (fst r)
     \<and> capped env (heap (fst r) c)
     \<and> (case snd r of
          None \<Rightarrow> marks (heap (fst r) c) = marks (heap s c)
        | Some d \<Rightarrow> mark_of d \<notin> marks (heap s c) \<and> marks (heap (fst r) c) = insert (mark_of d) (marks (heap s c)))"

lemma srv_inv_upd:
  assumes "srv_inv s" and "subscriptions cl = subscriptions (heap s c)" and "transport cl = transport (heap s c)"
    and "sendClosed cl = sendClosed (heap s c)"
  shows "srv_inv (upd_client s c (\<lambda>_. cl))"
  using assms by (simp add: srv_inv_def upd_client_def)

lemma handled_upd:
  assumes "srv_inv s" and "capped env (heap s c)"
    and "subscriptions cl = subscriptions (heap s c)" "transport cl = transport (heap s c)" "sendClosed cl = sendClosed (heap s c)"
    and "case dl of None \<Rightarrow> marks cl = marks (heap s c)
         | Some d \<Rightarrow> mark_of d \<notin> marks (heap s c) \<and> marks cl = insert (mark_of d) (marks (heap s c))"
  shows "handled env c s (upd_client s c (\<lambda>_. cl), dl)"
  using srv_inv_upd [OF assms(1,3-5)] assms(2,3,6) by (simp add: handled_def capped_def upd_client_def split: option.splits)

lemma upd_client_const: "upd_client s c f = upd_client s c (\<lambda>_. f (heap s c))"
  by (simp add: upd_client_def)

lemma handled_reply:
  assumes "srv_inv s" and "capped env (heap s c)" shows "handled env c s (upd_client s c (send_raw d), None)"
  by (subst upd_client_const) (rule handled_upd [OF assms], simp_all)

lemma handled_trans:
  assumes "handled env c s (s1, None)" and "handled env c s1 r" shows "handled env c s r"
  using assms by (auto simp: handled_def split: option.splits)

lemma push_frame [simp]:
  "heap (push_subscriptions ev cfg c s) = heap s" "index (push_subscriptions ev cfg c s) = index s"
  "clients (push_subscriptions ev cfg c s) = clients s"
  by (simp_all add: push_subscriptions_def Let_def)

lemma handled_subs:
  assumes "srv_inv s" and "c \<in> clients s" and "capped env ((heap s c)\<lparr>subscriptions := subscriptions (heap s c) \<union> set chs\<rparr>)"
  shows "handled env c s (push_subscriptions ev cfg c (subscribe_client s c chs), None)"
proof -
  have "srv_inv (push_subscriptions ev cfg c (subscribe_client s c chs)) = srv_inv (subscribe_client s c chs)"
    by (rule srv_inv_cong) simp_all
  with srv_inv_subscribe [OF assms(1,2)] assms(3) show ?thesis
    by (simp add: handled_def subscribe_client_def capped_def marks_def)
qed

lemma handled_unsubs:
  assumes "srv_inv s" and "capped env (heap s c)"
  shows "handled env c s (push_subscriptions ev cfg c (unsubscribe_client s c chs), None)"
proof -
  have "srv_inv (push_subscriptions ev cfg c (unsubscribe_client s c chs)) = srv_inv (unsubscribe_client s c chs)"
    by (rule srv_inv_cong) simp_all
  moreover have "card (subscriptions (heap s c) - set chs) \<le> card (subscriptions (heap s c))"
    using assms(2) by (intro card_mono) (auto simp: capped_def)
  ultimately show ?thesis using srv_inv_unsubscribe [OF assms(1)] assms(2)
    by (simp add: handled_def unsubscribe_client_def capped_def marks_def)
qed

lemma handled_inv:
  assumes "handled env c s (s1, None)" shows "srv_inv s1" and "capped env (heap s1 c)"
  using assms by (simp_all add: handled_def)

lemma handled_then_reply: "handled env c s (s1, None) \<Longrightarrow> handled env c s (upd_client s1 c (send_raw d), None)"
  by (rule handled_trans, assumption, rule handled_reply) (simp_all add: handled_inv)

lemma handled_replay_request:
  assumes "srv_inv s" and "capped env (heap s c)" and "handleReplayRequest cfg be now req (heap s c) = (cl, dl)"
  shows "handled env c s (upd_client s c (\<lambda>_. cl), dl)"
proof (rule handled_upd [OF assms(1,2)])
  show "subscriptions cl = subscriptions (heap s c)" "transport cl = transport (heap s c)" "sendClosed cl = sendClosed (heap s c)"
    using assms(3) unfolding handleReplayRequest_def reply_defs
    by (auto simp: Let_def split: option.splits prod.splits if_splits)
  show "case dl of None \<Rightarrow> marks cl = marks (heap s c)
         | Some d \<Rightarrow> mark_of d \<notin> marks (heap s c) \<and> marks cl = insert (mark_of d) (marks (heap s c))"
    using assms(3) unfolding handleReplayRequest_def reply_defs
    by (auto simp: Let_def marks_def clearReplayInProgress_def split: option.splits prod.splits if_splits)
qed

lemma handled_history_request:
  assumes "srv_inv s" and "capped env (heap s c)" and "handleHistoryRequest cfg hist ch limit (heap s c) = (cl, dl)"
  shows "handled env c s (upd_client s c (\<lambda>_. cl), dl)"
proof (rule handled_upd [OF assms(1,2)])
  show "subscriptions cl = subscriptions (heap s c)" "transport cl = transport (heap s c)" "sendClosed cl = sendClosed (heap s c)"
    using assms(3) unfolding handleHistoryRequest_def reply_defs
    by (auto split: option.splits prod.splits if_splits)
  show "case dl of None \<Rightarrow> marks cl = marks (heap s c)
         | Some d \<Rightarrow> mark_of d \<notin> marks (heap s c) \<and> marks cl = insert (mark_of d) (marks (heap s c))"
    using assms(3) unfolding handleHistoryRequest_def reply_defs
    by (auto simp: marks_def split: option.splits prod.splits if_splits)
qed

lemma handled_subscribe:
  assumes "srv_inv s" and "c \<in> clients s" and "capped env (heap s c)"
  shows "handled env c s (handle_subscribe env req c s)"
proof (cases req)
  case None
  then show ?thesis using handled_reply [OF assms(1,3)] by (simp add: handle_subscribe_def reply_defs)
next
  case (Some d)
  define chs where "chs = (if sd_History d \<noteq> None then [sd_Channel d] else sd_Channels d)"
  define s1 where "s1 = push_subscriptions RegSubscribe (env_cfg env) c (subscribe_client s c chs)"
  define ack where "ack = json_obj [(''count'', FormatInt (int (set_Count (subscriptions (heap s1 c))))),
      (''subscribed'', json_strings chs), (''type'', json_string ''subscription_ack'')]"
  define s2 where "s2 = upd_client s1 c (send_raw ack)"
  define full where "full \<longleftrightarrow> int (set_Count (subscriptions (heap s c))) + count_new (heap s c) chs > MaxChannelsPerClient (env_cfg env)"
  define early where "early \<longleftrightarrow> sd_History d \<noteq> None \<and> (sd_Channel d = [] \<or> \<not> HistoryEnabled (env_cfg env) \<or> env_hist env = None)
      \<or> length chs = 0 \<or> full"
  show ?thesis
  proof (cases early)
    case True
    then have "\<exists>r. handle_subscribe env req c s = (upd_client s c (send_raw r), None)"
      unfolding early_def handle_subscribe_def Some reply_defs full_def chs_def by (auto simp: Let_def)
    then show ?thesis using handled_reply [OF assms(1,3)] by auto
  next
    case False
    have "card (subscriptions (heap s c) \<union> set chs) \<le> card (subscriptions (heap s c)) + length (filter (\<lambda>ch. \<not> set_Has (subscriptions (heap s c)) ch) chs)"
      using assms(3) by (intro card_Un_le_new) (auto simp: capped_def set_Has_def)
    then have "capped env ((heap s c)\<lparr>subscriptions := subscriptions (heap s c) \<union> set chs\<rparr>)"
      using False assms(3) by (simp add: early_def full_def capped_def count_new_def set_Count_def)
    then have h2: "handled env c s (s2, None)"
      unfolding s2_def s1_def by (intro handled_then_reply handled_subs assms(1,2))
    have e: "handle_subscribe env req c s =
        (case sd_History d of None \<Rightarrow> (s2, None)
         | Some limit \<Rightarrow> (let (cl, dl) = handleHistoryRequest (env_cfg env) (env_hist env) (sd_Channel d) limit (heap s2 c)
                          in (upd_client s2 c (\<lambda>_. cl), dl)))"
      using False unfolding early_def full_def s2_def ack_def s1_def chs_def handle_subscribe_def Some
      by (cases "sd_History d"; cases "env_hist env"; simp add: Let_def)
    show ?thesis
    proof (cases "sd_History d")
      case None
      with e h2 show ?thesis by simp
    next
      case (Some limit)
      obtain cl dl where r: "handleHistoryRequest (env_cfg env) (env_hist env) (sd_Channel d) limit (heap s2 c) = (cl, dl)" by fastforce
      with e Some have "handle_subscribe env req c s = (upd_client s2 c (\<lambda>_. cl), dl)" by simp
      moreover have "handled env c s2 (upd_client s2 c (\<lambda>_. cl), dl)"
        by (rule handled_history_request [OF _ _ r]) (use handled_inv [OF h2] in simp_all)
      ultimately show ?thesis using handled_trans [OF h2] by simp
    qed
  qed
qed

lemma handled_reconnect:
  assumes "srv_inv s" and "c \<in> clients s" and "capped env (heap s c)" and "case req of None \<Rightarrow> True | Some lp \<Rightarrow> distinct (map fst lp)"
  shows "handled env c s (handleReconnect (env_compact env) (env_cfg env) (env_be env) now expired req c s, None)"
proof (cases "\<exists>lp be. req = Some lp \<and> env_be env = Some be \<and> dom (fst (authorizeLastPos (env_cfg env) be (heap s c) lp)) \<noteq> {}")
  case False
  then have "\<exists>r. handleReconnect (env_compact env) (env_cfg env) (env_be env) now expired req c s = upd_client s c (send_raw r)"
    unfolding handleReconnect_def reply_defs by (auto split: option.splits prod.splits)
  then show ?thesis using handled_reply [OF assms(1,3)] by auto
next
  case True
  then obtain lp be ps auth where h: "req = Some lp" "env_be env = Some be"
    "authorizeLastPos (env_cfg env) be (heap s c) lp = (ps, auth)" "dom ps \<noteq> {}"
    by (metis fst_conv prod.collapse)
  define s1 where "s1 = push_subscriptions RegSubscribe (env_cfg env) c (subscribe_client s c auth)"
  have "capped env ((heap s c)\<lparr>subscriptions := subscriptions (heap s c) \<union> set auth\<rparr>)"
    using authorized_ok(4) [OF h(3)] assms(3,4) h(1) by (simp add: capped_def)
  then have h1: "handled env c s (s1, None)" unfolding s1_def by (rule handled_subs [OF assms(1,2)])
  show ?thesis
  proof (cases "replayAuthorizedToClient (env_compact env) (env_cfg env) be now expired (heap s1 c) ps auth")
    case (Inl e)
    then show ?thesis using h handled_then_reply [OF h1]
      by (simp add: handleReconnect_def reply_defs del: push_frame flip: s1_def)
  next
    case (Inr x)
    obtain cl n tr where x: "x = (cl, n, tr)" by (cases x) auto
    have "keeps (heap s1 c) cl"
      using Inr x by (auto simp: replayAuthorizedToClient_def split: sum.splits prod.splits dest: forward_loop_keeps)
    moreover have "\<exists>r. handleReconnect (env_compact env) (env_cfg env) (env_be env) now expired req c s = upd_client s1 c (\<lambda>_. send_raw r cl)"
      using h Inr x by (auto simp: handleReconnect_def reply_defs simp del: push_frame simp flip: s1_def)
    moreover have "handled env c s1 (upd_client s1 c (\<lambda>_. send_raw r cl), None)" for r
      using handled_inv [OF h1] calculation(1) by (intro handled_upd) (simp_all add: keeps_def)
    ultimately show ?thesis using handled_trans [OF h1] by metis
  qed
qed

lemma handled_publish:
  assumes "srv_inv s" and "c \<in> clients s" and "capped env (heap s c)"
  shows "handled env c s (fst (handleClientPublish be allowed req c s), None)"
proof -
  let ?s = "CheckLimit_bucket (cl_id (heap s c)) s"
  have "srv_inv ?s = srv_inv s" by (rule srv_inv_cong) simp_all
  with assms have "handled env c s (?s, None)" by (simp add: handled_def)
  then have "handled env c s (upd_client ?s c (send_raw r), None)" for r by (rule handled_then_reply)
  moreover have "handled env c s (upd_client s c (send_raw r), None)" for r by (rule handled_reply [OF assms(1,3)])
  moreover have "(\<exists>r. fst (handleClientPublish be allowed req c s) = upd_client s c (send_raw r))
      \<or> (\<exists>r. fst (handleClientPublish be allowed req c s) = upd_client ?s c (send_raw r))"
    unfolding handleClientPublish_def reply_defs by (auto simp: Let_def split: option.splits sum.splits)
  ultimately show ?thesis by auto
qed

lemma handled_message:
  assumes "srv_inv s" and "c \<in> clients s" and "capped env (heap s c)" and "request_ok req"
  shows "handled env c s (handleClientMessage env now allowed expired req c s)"
proof (cases req)
  case None
  then show ?thesis using handled_reply [OF assms(1,3)] by (simp add: handleClientMessage_def reply_defs)
next
  case (Some q)
  show ?thesis
  proof (cases q)
    case (ReqReconnect lp)
    have "case lp of None \<Rightarrow> True | Some lp \<Rightarrow> distinct (map fst lp)" using assms(4) Some ReqReconnect by (cases lp) simp_all
    then show ?thesis using Some ReqReconnect handled_reconnect [OF assms(1-3)] by (simp add: handleClientMessage_def)
  next
    case ReqHeartbeat
    then show ?thesis using Some handled_reply [OF assms(1,3)] by (simp add: handleClientMessage_def)
  next
    case (ReqSubscribe d)
    then show ?thesis using Some handled_subscribe [OF assms(1-3)] by (simp add: handleClientMessage_def)
  next
    case (ReqUnsubscribe d)
    have "handled env c s (handle_unsubscribe env d c s, None)"
    proof (cases d)
      case None
      then show ?thesis using handled_reply [OF assms(1,3)] by (simp add: handle_unsubscribe_def reply_defs)
    next
      case (Some chs)
      then show ?thesis using handled_then_reply [OF handled_unsubs [OF assms(1,3)]]
        by (simp add: handle_unsubscribe_def Let_def)
    qed
    then show ?thesis using Some ReqUnsubscribe by (simp add: handleClientMessage_def)
  next
    case (ReqReplay d)
    then show ?thesis using Some handled_replay_request [OF assms(1,3)] by (simp add: handleClientMessage_def split: prod.splits)
  next
    case (ReqHistory d)
    show ?thesis
    proof (cases d)
      case (Inl partial)
      then show ?thesis using Some ReqHistory handled_reply [OF assms(1,3)] by (simp add: handleClientMessage_def reply_defs)
    next
      case (Inr x)
      then show ?thesis using Some ReqHistory handled_history_request [OF assms(1,3)]
        by (simp add: handleClientMessage_def split: prod.splits)
    qed
  next
    case (ReqPublish d)
    then show ?thesis using Some handled_publish [OF assms(1-3)] by (simp add: handleClientMessage_def)
  next
    case ReqUnknown
    then show ?thesis using Some assms by (simp add: handleClientMessage_def handled_def)
  qed
qed

end
