(* ===== verification/Deliveries.thy ===== *)
theory Deliveries
  imports ServerHandlers
begin

text \<open>
  The message server as a system of interleaved steps: requests of the clients, the goroutines
  that deliver replays and history (\<open>server/handler_replay.go\<close>, \<open>server/handler_history.go\<close>),
  broadcasts, the draining write pumps and the two phases of a disconnect
  (\<open>server/client_lifecycle.go\<close>), with the invariant of all of them; and a delivery on its own:
  what it has sent when it completes, and that it ends once its deadline has passed.
\<close>

section \<open>Requests, deliveries and broadcasts together\<close>

text \<open>
  The running system: the server, the goroutines that deliver (by number), and the clients that
  are leaving: out of the client table, waiting for their deliveries to end before the struct goes
  back to the pool. Requests of a client are handled by its read loop, one after another.
\<close>

record handler_sys =
  hsrv :: server
  running :: "nat \<rightharpoonup> cref \<times> delivery"
  leaving :: "cref set"

definition disconnect_rest :: "server \<Rightarrow> cref \<Rightarrow> server" where
  "disconnect_rest s c =
     (let s = release_slot (put_client (close_send_of s c) c) in RemoveClient (cl_id (heap s c)) s)"

fun next_task :: "cref \<Rightarrow> delivery_result \<Rightarrow> (cref \<times> delivery) option" where
  "next_task c (Continue d) = Some (c, d)"
| "next_task c (Completed n t) = None"
| "next_task c Failed = None"

inductive handler_step :: "handler_env \<Rightarrow> handler_sys \<Rightarrow> handler_sys \<Rightarrow> bool" for env where
  h_connect: "c \<notin> clients (hsrv y) \<union> leaving y \<Longrightarrow>
     handler_step env y (y\<lparr>hsrv := fst (connect_ws (hsrv y) c ch up ip t k u i)\<rparr>)"
| h_request: "c \<in> clients (hsrv y) \<Longrightarrow> request_ok req \<Longrightarrow> running y n = None \<Longrightarrow>
     handleClientMessage env now allowed expired req c (hsrv y) = (s', dl) \<Longrightarrow>
     handler_step env y (y\<lparr>hsrv := s', running := (running y)(n := map_option (Pair c) dl)\<rparr>)"
| h_deliver: "running y n = Some (c, d) \<Longrightarrow> deliver_step env now expired pick d (heap (hsrv y) c) = Some (cl, r, out) \<Longrightarrow>
     handler_step env y (y\<lparr>hsrv := upd_client (hsrv y) c (\<lambda>_. cl), running := (running y)(n := next_task c r)\<rparr>)"
| h_broadcast: "Broadcast now (hsrv y) subject msg pos mid = Inr s' \<Longrightarrow> handler_step env y (y\<lparr>hsrv := s'\<rparr>)"
| h_drain: "handler_step env y (y\<lparr>hsrv := upd_client (hsrv y) c (\<lambda>cl. cl\<lparr>send := drop k (send cl)\<rparr>)\<rparr>)"
| h_leave: "c \<in> clients (hsrv y) \<Longrightarrow> set chs = subscriptions (heap (hsrv y) c) \<Longrightarrow>
     handler_step env y (y\<lparr>hsrv := disconnect_unindex (hsrv y) c chs, leaving := insert c (leaving y)\<rparr>)"
| h_left: "c \<in> leaving y \<Longrightarrow> (\<And>n d. running y n \<noteq> Some (c, d)) \<Longrightarrow>
     handler_step env y (y\<lparr>hsrv := disconnect_rest (hsrv y) c, leaving := leaving y - {c}\<rparr>)"

inductive handler_reachable :: "handler_env \<Rightarrow> handler_sys \<Rightarrow> bool" for env where
  h_start: "clients s = {} \<Longrightarrow> index s = NewSubscriptionIndex \<Longrightarrow>
     handler_reachable env \<lparr>hsrv = s, running = Map.empty, leaving = {}\<rparr>"
| h_next: "handler_reachable env y \<Longrightarrow> handler_step env y z \<Longrightarrow> handler_reachable env z"

text \<open>The two phases of a disconnect are the whole operation.\<close>

lemma disconnect_phases: "disconnect_rest (disconnect_unindex s c chs) c = disconnectClient s c chs"
  by (simp add: disconnect_rest_def disconnectClient_def Let_def)

section \<open>The invariant\<close>

definition tasks :: "(nat \<rightharpoonup> cref \<times> delivery) \<Rightarrow> cref \<Rightarrow> (bool \<times> string) set" where
  "tasks r c = {mark_of d | n d. r n = Some (c, d)}"

definition task_inv :: "handler_sys \<Rightarrow> bool" where
  "task_inv y \<longleftrightarrow>
     (\<forall>n c d. running y n = Some (c, d) \<longrightarrow> c \<in> clients (hsrv y) \<union> leaving y)
   \<and> (\<forall>n m c d e. running y n = Some (c, d) \<longrightarrow> running y m = Some (c, e) \<longrightarrow> mark_of d = mark_of e \<longrightarrow> n = m)
   \<and> (\<forall>c. c \<in> clients (hsrv y) \<union> leaving y \<longrightarrow> marks (heap (hsrv y) c) = tasks (running y) c \<and> \<not> sendClosed (heap (hsrv y) c))"

definition handler_inv :: "handler_env \<Rightarrow> handler_sys \<Rightarrow> bool" where
  "handler_inv env y \<longleftrightarrow> srv_inv (hsrv y) \<and> clients (hsrv y) \<inter> leaving y = {} \<and> task_inv y
     \<and> (\<forall>c. c \<in> clients (hsrv y) \<longrightarrow> capped env (heap (hsrv y) c))"

text \<open>What a step of a delivery changes.\<close>

fun stepped :: "delivery \<Rightarrow> client \<Rightarrow> client \<times> delivery_result \<Rightarrow> bool" where
  "stepped d c (c', Continue d') \<longleftrightarrow> mark_of d' = mark_of d \<and> keeps c c'"
| "stepped d c (c', r) \<longleftrightarrow> subscriptions c' = subscriptions c \<and> transport c' = transport c \<and> sendClosed c' = sendClosed c
     \<and> marks c' = marks c - {mark_of d}"

lemma marks_replayLastAt [simp]: "marks (c\<lparr>replayLastAt := m\<rparr>) = marks c" "marks (c\<lparr>seqGen := g\<rparr>) = marks c"
  by (simp_all add: marks_def)

lemma next_seq_keeps: "next_seq c = (c', n) \<Longrightarrow> keeps c c'"
  by (auto simp: next_seq_def split: prod.splits)

lemma deliver_stepped:
  assumes "deliver_step env now expired pick d c = Some (c', r, out)" shows "stepped d c (c', r)"
proof (cases "(env, now, expired, pick, d, c)" rule: deliver_step.cases)
  case (1 env' now' ex' pick' ch topic part offset c0)
  with assms show ?thesis
    by (auto simp: replay_fetch_def split: option.splits sum.splits replay_error.splits if_splits prod.splits)
next
  case (2 env' now' ex' pick' ch n c0)
  with assms show ?thesis by (auto simp: Let_def)
next
  case (3 env' now' ex' pick' ch m ms n c0)
  with assms show ?thesis by (auto split: option.splits prod.splits dest: next_seq_keeps)
next
  case (4 env' now' ex' pick' ch data ms n c0)
  with assms show ?thesis by (auto split: send_result.splits if_splits dest: try_send_keeps)
next
  case (5 env' now' ex' pick' ch key limit c0)
  with assms show ?thesis
    by (auto simp: history_fetch_def Let_def split: option.splits if_splits prod.splits)
next
  case (6 env' now' ex' pick' ch n c0)
  with assms show ?thesis by auto
next
  case (7 env' now' ex' pick' ch e es n c0)
  obtain c1 seq where n: "next_seq c = (c1, seq)" by fastforce
  have t: "keeps c c2" if "try_send m c1 = SendOK c2" for m c2
    using keeps_trans [OF next_seq_keeps [OF n] try_send_keeps [OF that]] .
  from 7 assms n show ?thesis
    by (auto simp: Let_def split: option.splits send_result.splits if_splits dest: t intro: next_seq_keeps)
qed

section \<open>Every reachable state\<close>

lemma deliver_one_marks: "deliver_one mx ch pos now env c = Inr c' \<Longrightarrow> marks c' = marks c \<and> sendClosed c' = sendClosed c \<and> subscriptions c' = subscriptions c"
  by (auto simp: deliver_one_def Let_def try_send_def marks_def split: if_splits prod.splits)

lemma Broadcast_keeps:
  assumes "Broadcast now s subject msg pos mid = Inr s'"
  shows "marks (heap s' c) = marks (heap s c) \<and> sendClosed (heap s' c) = sendClosed (heap s c) \<and> subscriptions (heap s' c) = subscriptions (heap s c)"
proof -
  have l: "marks (heap s' c) = marks (heap s c) \<and> sendClosed (heap s' c) = sendClosed (heap s c) \<and> subscriptions (heap s' c) = subscriptions (heap s c)"
    if "broadcast_loop ch pos now env cs s = Inr s'" for ch env cs s
    using that
  proof (induction cs arbitrary: s)
    case (Cons d cs)
    then obtain d' where d': "deliver_one (SlowClientMaxAttempts s) ch pos now env (heap s d) = Inr d'"
      by (auto split: sum.splits)
    with Cons.prems have "broadcast_loop ch pos now env cs (s\<lparr>heap := (heap s)(d := d')\<rparr>) = Inr s'" by simp
    from Cons.IH [OF this] deliver_one_marks [OF d'] show ?case by (simp split: if_splits)
  qed simp
  from assms show ?thesis by (auto simp: Broadcast_def Let_def split: if_splits dest: l)
qed

text \<open>The marks of a client's deliveries, split at one goroutine.\<close>

fun own :: "cref \<Rightarrow> (cref \<times> delivery) option \<Rightarrow> (bool \<times> string) set" where
  "own c None = {}"
| "own c (Some (c', d)) = (if c' = c then {mark_of d} else {})"

definition others :: "(nat \<rightharpoonup> cref \<times> delivery) \<Rightarrow> nat \<Rightarrow> cref \<Rightarrow> (bool \<times> string) set" where
  "others r n c = {mark_of d | m d. m \<noteq> n \<and> r m = Some (c, d)}"

lemma tasks_upd: "tasks (r(n := v)) c = own c v \<union> others r n c"
  by (cases "(c, v)" rule: own.cases) (auto simp: tasks_def others_def)

lemma tasks_at: "tasks r c = own c (r n) \<union> others r n c"
  using tasks_upd [of r n "r n"] by simp

lemma task_invD:
  assumes "task_inv y"
  shows "running y n = Some (c, d) \<Longrightarrow> c \<in> clients (hsrv y) \<union> leaving y"
    and "running y n = Some (c, d) \<Longrightarrow> mark_of d \<notin> others (running y) n c"
    and "c \<in> clients (hsrv y) \<union> leaving y \<Longrightarrow> marks (heap (hsrv y) c) = tasks (running y) c"
    and "c \<in> clients (hsrv y) \<union> leaving y \<Longrightarrow> \<not> sendClosed (heap (hsrv y) c)"
  using assms unfolding task_inv_def others_def by (blast, fastforce, blast, blast)

text \<open>Introduction: only goroutine \<open>n\<close>, which works for \<open>c\<close>, may have changed.\<close>

lemma task_invI:
  assumes "task_inv y" and "running z = (running y)(n := v)" and "own c v \<inter> others (running y) n c = {}"
    and "\<And>c' d. v = Some (c', d) \<Longrightarrow> c' = c" and "\<And>c' d. running y n = Some (c', d) \<Longrightarrow> c' = c"
    and "v \<noteq> None \<Longrightarrow> c \<in> clients (hsrv y) \<union> leaving y"
    and "clients (hsrv z) \<union> leaving z = clients (hsrv y) \<union> leaving y"
    and "c \<in> clients (hsrv y) \<union> leaving y \<Longrightarrow> marks (heap (hsrv z) c) = own c v \<union> others (running y) n c \<and> \<not> sendClosed (heap (hsrv z) c)"
    and "\<And>d. d \<noteq> c \<Longrightarrow> heap (hsrv z) d = heap (hsrv y) d"
  shows "task_inv z"
  unfolding task_inv_def
proof (intro conjI allI impI)
  fix m c1 d assume "running z m = Some (c1, d)"
  then show "c1 \<in> clients (hsrv z) \<union> leaving z"
    using assms(2,4,6,7) task_invD(1) [OF assms(1), of m] by (cases "m = n") auto
next
  fix m1 m2 c1 d e
  assume h: "running z m1 = Some (c1, d)" "running z m2 = Some (c1, e)" "mark_of d = mark_of e"
  have clash: False if "m \<noteq> n" "v = Some (c1, a)" "running y m = Some (c1, b)" "mark_of a = mark_of b" for m a b
  proof -
    have "c1 = c" using assms(4) that(2) by blast
    then have "mark_of a \<in> own c v \<inter> others (running y) n c" using that by (auto simp: others_def)
    then show False using assms(3) by simp
  qed
  have at: "running z n = v" "\<And>m. m \<noteq> n \<Longrightarrow> running z m = running y m" using assms(2) by simp_all
  consider "m1 = m2" | "m1 = n" "m2 \<noteq> n" | "m2 = n" "m1 \<noteq> n" | "m1 \<noteq> n" "m2 \<noteq> n" by blast
  then show "m1 = m2"
  proof cases
    case 2
    then show ?thesis using clash [of m2 d e] h at by simp
  next
    case 3
    then show ?thesis using clash [of m1 e d] h at by simp
  next
    case 4
    then have "running y m1 = Some (c1, d)" "running y m2 = Some (c1, e)" using h at by simp_all
    with h(3) assms(1) show ?thesis unfolding task_inv_def by blast
  qed
next
  fix c1 assume "c1 \<in> clients (hsrv z) \<union> leaving z"
  then have m: "c1 \<in> clients (hsrv y) \<union> leaving y" using assms(7) by simp
  have "own c1 v = own c1 (running y n)" if "c1 \<noteq> c"
    using that assms(4,5) by (cases v; cases "running y n") auto
  then have t: "tasks (running z) c1 = tasks (running y) c1" if "c1 \<noteq> c"
    using that assms(2) tasks_upd [of "running y" n v c1] tasks_at [of "running y" c1 n] by simp
  show "marks (heap (hsrv z) c1) = tasks (running z) c1" "\<not> sendClosed (heap (hsrv z) c1)"
    using assms(2,8,9) m t task_invD(3,4) [OF assms(1) m] by (cases "c1 = c"; simp add: tasks_upd)+
qed

text \<open>The steps, one by one.\<close>

lemma task_inv_same:
  assumes "task_inv y" and "running z = running y" and "clients (hsrv z) \<union> leaving z = clients (hsrv y) \<union> leaving y"
    and "\<And>c. c \<in> clients (hsrv y) \<union> leaving y \<Longrightarrow> marks (heap (hsrv z) c) = marks (heap (hsrv y) c) \<and> sendClosed (heap (hsrv z) c) = sendClosed (heap (hsrv y) c)"
  shows "task_inv z"
  using assms unfolding task_inv_def by metis

lemma handler_inv_request:
  assumes "handler_inv env y" and "c \<in> clients (hsrv y)" and "running y n = None" and "handled env c (hsrv y) (s', dl)"
  shows "handler_inv env (y\<lparr>hsrv := s', running := (running y)(n := map_option (Pair c) dl)\<rparr>)"
proof -
  let ?z = "y\<lparr>hsrv := s', running := (running y)(n := map_option (Pair c) dl)\<rparr>"
  have i: "srv_inv (hsrv y)" "clients (hsrv y) \<inter> leaving y = {}" "task_inv y" "\<And>d. d \<in> clients (hsrv y) \<Longrightarrow> capped env (heap (hsrv y) d)"
    using assms(1) by (auto simp: handler_inv_def)
  have h: "clients s' = clients (hsrv y)" "\<And>d. d \<noteq> c \<Longrightarrow> heap s' d = heap (hsrv y) d" "srv_inv s'" "capped env (heap s' c)"
    using assms(4) by (simp_all add: handled_def)
  have m: "marks (heap (hsrv y) c) = others (running y) n c"
    using task_invD(3) [OF i(3)] assms(2,3) tasks_at [of "running y" c n] by simp
  have "task_inv ?z"
  proof (rule task_invI [OF i(3)])
    show "own c (map_option (Pair c) dl) \<inter> others (running y) n c = {}"
      using assms(4) m by (cases dl) (simp_all add: handled_def)
    show "marks (heap (hsrv ?z) c) = own c (map_option (Pair c) dl) \<union> others (running y) n c \<and> \<not> sendClosed (heap (hsrv ?z) c)"
      using assms(2,4) m h(1,3) by (cases dl) (simp_all add: handled_def srv_inv_def)
  qed (use assms(2,3) h in auto)
  moreover have "capped env (heap s' d)" if "d \<in> clients s'" for d using i(4) h that by (cases "d = c") simp_all
  ultimately show ?thesis using i h by (simp add: handler_inv_def)
qed

lemma handler_inv_deliver:
  assumes "handler_inv env y" and "running y n = Some (c, d)" and "stepped d (heap (hsrv y) c) (cl, r)"
  shows "handler_inv env (y\<lparr>hsrv := upd_client (hsrv y) c (\<lambda>_. cl), running := (running y)(n := next_task c r)\<rparr>)"
proof -
  let ?z = "y\<lparr>hsrv := upd_client (hsrv y) c (\<lambda>_. cl), running := (running y)(n := next_task c r)\<rparr>"
  have i: "srv_inv (hsrv y)" "clients (hsrv y) \<inter> leaving y = {}" "task_inv y" "\<And>d. d \<in> clients (hsrv y) \<Longrightarrow> capped env (heap (hsrv y) d)"
    using assms(1) by (auto simp: handler_inv_def)
  have c: "c \<in> clients (hsrv y) \<union> leaving y" "mark_of d \<notin> others (running y) n c" "\<not> sendClosed (heap (hsrv y) c)"
    "marks (heap (hsrv y) c) = insert (mark_of d) (others (running y) n c)"
    using task_invD [OF i(3)] assms(2) tasks_at [of "running y" c n] by auto
  have k: "subscriptions cl = subscriptions (heap (hsrv y) c)" "transport cl = transport (heap (hsrv y) c)" "sendClosed cl = sendClosed (heap (hsrv y) c)"
    using assms(3) by (cases r; simp add: keeps_def)+
  have m: "own c (next_task c r) \<inter> others (running y) n c = {}" "marks cl = own c (next_task c r) \<union> others (running y) n c"
    using assms(3) c(2,4) by (cases r; simp add: keeps_def)+
  have t: "next_task c r = Some (c', e) \<Longrightarrow> c' = c" for c' e by (cases r) simp_all
  have "task_inv ?z"
    by (rule task_invI [OF i(3), where n = n and v = "next_task c r" and c = c])
       (use assms(2) c k m t in \<open>auto simp: upd_client_def\<close>)
  moreover have "srv_inv (hsrv ?z)" using srv_inv_upd [OF i(1) k] by simp
  ultimately show ?thesis using i(2,4) k by (simp add: handler_inv_def capped_def upd_client_def)
qed

lemma tenant_connect_keeps: "tenant_connect t ch s = Some s' \<Longrightarrow> heap s' = heap s \<and> clients s' = clients s"
  using tenant_connect_frame(1,3) by blast

lemma connect_ws_effect:
  fixes s c ch up ip t k u i
  defines "s' \<equiv> fst (connect_ws s c ch up ip t k u i)"
  shows "clients s' \<subseteq> insert c (clients s)" and "clients s \<subseteq> clients s'" and "d \<noteq> c \<Longrightarrow> heap s' d = heap s d"
    and "c \<in> clients s' \<Longrightarrow> c \<notin> clients s \<Longrightarrow> subscriptions (heap s' c) = {} \<and> marks (heap s' c) = {} \<and> \<not> sendClosed (heap s' c)"
proof -
  have "clients s' \<subseteq> insert c (clients s) \<and> clients s \<subseteq> clients s' \<and> (\<forall>d. d \<noteq> c \<longrightarrow> heap s' d = heap s d)
     \<and> (c \<in> clients s' \<longrightarrow> c \<notin> clients s \<longrightarrow> subscriptions (heap s' c) = {} \<and> marks (heap s' c) = {} \<and> \<not> sendClosed (heap s' c))"
  proof (cases "acquire_slot s")
    case None
    then show ?thesis by (auto simp: s'_def connect_ws_def)
  next
    case (Some s1)
    then have s1: "heap s1 = heap s" "clients s1 = clients s" by (auto simp: acquire_slot_def split: if_splits)
    define conn where "conn = (if registryEnabled s1 then i else [])"
    define s2 where "s2 = take_client s1 c (\<lambda>cl. cl\<lparr>transport := Some TransportWebSocket, remoteAddr := ip,
                      cl_tenantID := t, apiKeyID := k, cl_userID := u, connID := conn\<rparr>)"
    have s2: "clients s2 = clients s" "\<And>d. d \<noteq> c \<Longrightarrow> heap s2 d = heap s d"
      "subscriptions (heap s2 c) = {}" "marks (heap s2 c) = {}" "\<not> sendClosed (heap s2 c)"
      using s1 by (simp_all add: s2_def take_client_def Let_def pool_Get_def set_Clear_def marks_def)
    have "s' = (if \<not> up then release_slot s1
                else case tenant_connect t ch s2 of
                   None \<Rightarrow> release_slot (put_client (s2\<lparr>heap := (heap s2)(c := (heap s2 c)\<lparr>transportClosed := True\<rparr>)\<rparr>) c)
                 | Some s3 \<Rightarrow> push_registry conn (RegConnect conn t k u) (store_client s3 c))"
      using Some by (auto simp: s'_def connect_ws_def Let_def split: option.split simp flip: conn_def s2_def)
    then show ?thesis using s1 s2
      by (auto simp: put_client_def store_client_def split: if_splits option.splits dest!: tenant_connect_keeps)
  qed
  then show "clients s' \<subseteq> insert c (clients s)" "clients s \<subseteq> clients s'" "d \<noteq> c \<Longrightarrow> heap s' d = heap s d"
    "c \<in> clients s' \<Longrightarrow> c \<notin> clients s \<Longrightarrow> subscriptions (heap s' c) = {} \<and> marks (heap s' c) = {} \<and> \<not> sendClosed (heap s' c)"
    by blast+
qed

lemma handler_inv_connect:
  assumes "handler_inv env y" and "c \<notin> clients (hsrv y) \<union> leaving y" and "0 \<le> MaxChannelsPerClient (env_cfg env)"
  shows "handler_inv env (y\<lparr>hsrv := fst (connect_ws (hsrv y) c ch up ip t k u i)\<rparr>)"
proof -
  let ?s = "fst (connect_ws (hsrv y) c ch up ip t k u i)"
  note e = connect_ws_effect [where s = "hsrv y" and c = c and ch = ch and up = up and ip = ip and t = t and k = k and u = u and i = i]
  have i: "srv_inv (hsrv y)" "clients (hsrv y) \<inter> leaving y = {}" "task_inv y" "\<And>d. d \<in> clients (hsrv y) \<Longrightarrow> capped env (heap (hsrv y) d)"
    using assms(1) by (auto simp: handler_inv_def)
  have none: "tasks (running y) c = {}" using task_invD(1) [OF i(3)] assms(2) by (auto simp: tasks_def)
  have d: "marks (heap ?s d) = tasks (running y) d \<and> \<not> sendClosed (heap ?s d)" if "d \<in> clients ?s \<union> leaving y" for d
  proof (cases "d = c")
    case True
    then show ?thesis using that assms(2) e(4) none by auto
  next
    case False
    then show ?thesis using that e(1,3) task_invD(3,4) [OF i(3), of d] by auto
  qed
  have "c' \<in> clients ?s \<union> leaving y" if "running y n = Some (c', a)" for n c' a
    using task_invD(1) [OF i(3) that] e(2) by blast
  moreover have "n = m" if "running y n = Some (c', a)" "running y m = Some (c', b)" "mark_of a = mark_of b" for n m c' a b
    using that i(3) unfolding task_inv_def by blast
  ultimately have "task_inv (y\<lparr>hsrv := ?s\<rparr>)" using d by (simp add: task_inv_def)
  moreover have "capped env (heap ?s d)" if "d \<in> clients ?s" for d
    using that i(4) [of d] e assms(2,3) by (cases "d = c") (auto simp: capped_def)
  moreover have "srv_inv ?s" using assms(2) by (intro srv_inv_connect i(1)) simp
  ultimately show ?thesis using i(2) e(1) assms(2) by (auto simp: handler_inv_def)
qed

lemma unindex_effect:
  "clients (disconnect_unindex s c chs) = clients s - {c}" "index (disconnect_unindex s c chs) = idx_RemoveMultiple (index s) chs c"
  "d \<noteq> c \<Longrightarrow> heap (disconnect_unindex s c chs) d = heap s d" "marks (heap (disconnect_unindex s c chs) d) = marks (heap s d)"
  "sendClosed (heap (disconnect_unindex s c chs) d) = sendClosed (heap s d)"
  by (auto simp: disconnect_unindex_def delete_client_def close_transport_def close_once_def marks_def Let_def)

lemma handler_inv_leave:
  assumes "handler_inv env y" and "c \<in> clients (hsrv y)" and "set chs = subscriptions (heap (hsrv y) c)"
  shows "handler_inv env (y\<lparr>hsrv := disconnect_unindex (hsrv y) c chs, leaving := insert c (leaving y)\<rparr>)" (is "handler_inv env ?z")
proof -
  have i: "srv_inv (hsrv y)" "clients (hsrv y) \<inter> leaving y = {}" "task_inv y" "\<And>d. d \<in> clients (hsrv y) \<Longrightarrow> capped env (heap (hsrv y) d)"
    using assms(1) by (auto simp: handler_inv_def)
  have "task_inv ?z" by (rule task_inv_same [OF i(3)]) (use assms(2) in \<open>auto simp: unindex_effect\<close>)
  moreover have "srv_inv (hsrv ?z)" using srv_inv_remove [OF i(1) assms(3)] by (simp add: unindex_effect)
  ultimately show ?thesis using i(2,4) by (auto simp: handler_inv_def unindex_effect)
qed

lemma rest_effect:
  "clients (disconnect_rest s c) = clients s" "index (disconnect_rest s c) = index s" "d \<noteq> c \<Longrightarrow> heap (disconnect_rest s c) d = heap s d"
  by (simp_all add: disconnect_rest_def put_client_def close_send_of_def Let_def)

lemma handler_inv_left:
  assumes "handler_inv env y" and "c \<in> leaving y" and "\<And>n d. running y n \<noteq> Some (c, d)"
  shows "handler_inv env (y\<lparr>hsrv := disconnect_rest (hsrv y) c, leaving := leaving y - {c}\<rparr>)" (is "handler_inv env ?z")
proof -
  have i: "srv_inv (hsrv y)" "clients (hsrv y) \<inter> leaving y = {}" "task_inv y" "\<And>d. d \<in> clients (hsrv y) \<Longrightarrow> capped env (heap (hsrv y) d)"
    using assms(1) by (auto simp: handler_inv_def)
  have c: "c \<notin> clients (hsrv y)" using i(2) assms(2) by auto
  then have h: "heap (disconnect_rest (hsrv y) c) d = heap (hsrv y) d" if "d \<in> clients (hsrv y) \<union> (leaving y - {c})" for d
    using that by (intro rest_effect(3)) auto
  have "task_inv ?z"
    unfolding task_inv_def
  proof (intro conjI allI impI)
    fix n d e assume "running ?z n = Some (d, e)"
    then show "d \<in> clients (hsrv ?z) \<union> leaving ?z"
      using task_invD(1) [OF i(3), of n d e] assms(3) [of n e] by (cases "d = c") (auto simp: rest_effect(1))
  next
    fix n m d e f assume "running ?z n = Some (d, e)" "running ?z m = Some (d, f)" "mark_of e = mark_of f"
    then show "n = m" using i(3) by (auto simp: task_inv_def)
  next
    fix d assume "d \<in> clients (hsrv ?z) \<union> leaving ?z"
    then have "d \<in> clients (hsrv y) \<union> leaving y" "heap (hsrv ?z) d = heap (hsrv y) d" using h by (auto simp: rest_effect(1))
    then show "marks (heap (hsrv ?z) d) = tasks (running ?z) d" "\<not> sendClosed (heap (hsrv ?z) d)"
      using task_invD(3,4) [OF i(3), of d] by simp_all
  qed
  moreover have "srv_inv (hsrv ?z)" using i(1) h by (auto simp: srv_inv_def rest_effect(1,2))
  ultimately show ?thesis using i(2,4) h by (auto simp: handler_inv_def rest_effect(1))
qed

lemma handler_inv_plain:
  assumes "handler_inv env y" and "srv_inv s'" and "clients s' = clients (hsrv y)"
    and "\<And>c. marks (heap s' c) = marks (heap (hsrv y) c) \<and> sendClosed (heap s' c) = sendClosed (heap (hsrv y) c)
           \<and> subscriptions (heap s' c) = subscriptions (heap (hsrv y) c)"
  shows "handler_inv env (y\<lparr>hsrv := s'\<rparr>)"
proof -
  have "task_inv (y\<lparr>hsrv := s'\<rparr>)"
    by (rule task_inv_same [of y]) (use assms in \<open>simp_all add: handler_inv_def\<close>)
  with assms show ?thesis by (simp add: handler_inv_def capped_def)
qed

lemma handler_inv_step:
  assumes "handler_step env y z" and "handler_inv env y" and "0 \<le> MaxChannelsPerClient (env_cfg env)"
  shows "handler_inv env z"
  using assms(1)
proof cases
  case (h_connect c ch up ip t k u i)
  then show ?thesis using handler_inv_connect [OF assms(2) _ assms(3)] by simp
next
  case (h_request c req n now allowed expired s' dl)
  then have "handled env c (hsrv y) (s', dl)"
    using handled_message [of "hsrv y" c env req now allowed expired] assms(2) by (simp add: handler_inv_def)
  with h_request show ?thesis using handler_inv_request [OF assms(2)] by simp
next
  case (h_deliver n c d now expired pick cl r out)
  then show ?thesis using handler_inv_deliver [OF assms(2) _ deliver_stepped] by simp
next
  case (h_broadcast now subject msg pos mid s')
  then show ?thesis
    using assms(2) srv_inv_Broadcast Broadcast_slots Broadcast_keeps
    by (auto simp: handler_inv_def[of _ y] intro!: handler_inv_plain [OF assms(2)])
next
  case (h_drain c k)
  have "srv_inv (upd_client (hsrv y) c (\<lambda>cl. cl\<lparr>send := drop k (send cl)\<rparr>))"
    by (subst upd_client_const) (rule srv_inv_upd, use assms(2) in \<open>simp_all add: handler_inv_def\<close>)
  moreover have "keeps (heap (hsrv y) d) (heap (upd_client (hsrv y) c (\<lambda>cl. cl\<lparr>send := drop k (send cl)\<rparr>)) d)" for d
    by (cases "d = c") (simp_all add: upd_client_def)
  ultimately show ?thesis unfolding h_drain
    by (intro handler_inv_plain [OF assms(2)]) (simp_all add: keeps_def, simp add: upd_client_def)
next
  case (h_leave c chs)
  then show ?thesis using handler_inv_leave [OF assms(2)] by simp
next
  case (h_left c)
  then show ?thesis using handler_inv_left [OF assms(2)] by simp
qed

lemma handler_reachable_inv:
  assumes "handler_reachable env y" and "0 \<le> MaxChannelsPerClient (env_cfg env)" shows "handler_inv env y"
  using assms(1)
proof induction
  case (h_start s)
  then show ?case by (simp add: handler_inv_def task_inv_def srv_inv_fresh)
next
  case (h_next y z)
  then show ?case using handler_inv_step assms(2) by blast
qed

section \<open>A delivery on its own\<close>

text \<open>
  The runs of one delivery with the frames it has put into the send buffer. Between two steps the
  write pump, broadcasts and other deliveries may do anything to the client, so every step starts
  from an arbitrary client state.
\<close>

inductive delivery_run :: "handler_env \<Rightarrow> delivery \<Rightarrow> delivery_result \<Rightarrow> string list \<Rightarrow> bool" for env d0 where
  run_start: "delivery_run env d0 (Continue d0) []"
| run_step: "delivery_run env d0 (Continue d) out \<Longrightarrow> deliver_step env now expired pick d c = Some (c', r, sent) \<Longrightarrow>
     delivery_run env d0 r (out @ (case sent of None \<Rightarrow> [] | Some f \<Rightarrow> [f]))"

definition renders :: "handler_env \<Rightarrow> replay_message \<Rightarrow> string \<Rightarrow> bool" where
  "renders env m frame \<longleftrightarrow> (\<exists>seq now data. valid_payload (env_compact env) m = Some data \<and> frame = replay_frame seq now data m)"

abbreviation valid_msgs :: "handler_env \<Rightarrow> replay_message list \<Rightarrow> replay_message list" where
  "valid_msgs env ms \<equiv> filter (\<lambda>m. valid_payload (env_compact env) m \<noteq> None) ms"

fun replay_inv :: "handler_env \<Rightarrow> replay_message list \<Rightarrow> delivery \<Rightarrow> delivery_result \<Rightarrow> string list \<Rightarrow> bool" where
  "replay_inv env vs d0 (Continue (ReplaySend ch ms n)) out \<longleftrightarrow>
     n = int (length out) \<and> (\<exists>pre. vs = pre @ valid_msgs env ms \<and> list_all2 (renders env) pre out)"
| "replay_inv env vs d0 (Continue (ReplayOffer ch frame ms n)) out \<longleftrightarrow>
     n = int (length out) \<and> (\<exists>pre m. vs = pre @ m # valid_msgs env ms \<and> renders env m frame \<and> list_all2 (renders env) pre out)"
| "replay_inv env vs d0 (Continue d) out \<longleftrightarrow> d = d0 \<and> out = []"
| "replay_inv env vs d0 (Completed n truncated) out \<longleftrightarrow>
     n = int (length out) \<and> (\<exists>pre suf. vs = pre @ suf \<and> list_all2 (renders env) pre out \<and> (truncated \<or> suf = []))"
| "replay_inv env vs d0 Failed out \<longleftrightarrow> True"

lemma replay_inv_step:
  assumes "replay_inv env (valid_msgs env msgs) (ReplayFetch ch topic part offset) (Continue d) out"
    and "deliver_step env now expired pick d c = Some (c', r, sent)" and "env_be env = Some be"
    and "be_Replay be \<lparr>Positions = [topic \<mapsto> [part \<mapsto> offset]], MaxMessages = MaxReplayMessages (env_cfg env),
           ReplaySubscriptions = [ch]\<rparr> = Inr msgs"
  shows "replay_inv env (valid_msgs env msgs) (ReplayFetch ch topic part offset) r (out @ (case sent of None \<Rightarrow> [] | Some f \<Rightarrow> [f]))"
proof (cases "(env, now, expired, pick, d, c)" rule: deliver_step.cases)
  case (1 env' now' ex' pick' ch' topic' part' offset' c0)
  with assms show ?thesis by (auto simp: replay_fetch_def split: if_splits)
next
  case (2 env' now' ex' pick' ch' n c0)
  with assms show ?thesis by (auto simp: Let_def)
next
  case (3 env' now' ex' pick' ch' m ms n c0)
  then obtain pre where pre: "n = int (length out)" "valid_msgs env msgs = pre @ valid_msgs env (m # ms)" "list_all2 (renders env) pre out"
    using assms(1) by auto
  show ?thesis
  proof (cases "valid_payload (env_compact env) m")
    case None
    with 3 pre assms(2) show ?thesis by auto
  next
    case (Some data)
    obtain c1 q where n: "next_seq c = (c1, q)" by fastforce
    have "renders env m (replay_frame q now data m)" using Some by (auto simp: renders_def)
    with 3 Some n pre assms(2) show ?thesis by auto
  qed
next
  case (4 env' now' ex' pick' ch' frame ms n c0)
  then obtain pre m where pre: "n = int (length out)" "valid_msgs env msgs = pre @ m # valid_msgs env ms" "renders env m frame"
      "list_all2 (renders env) pre out"
    using assms(1) by auto
  have ext: "list_all2 (renders env) (pre @ [m]) (out @ [frame])" using pre(3,4) by (simp add: list_all2_appendI)
  consider (sent) "r = Continue (ReplaySend ch' ms (n + 1))" "sent = Some frame"
    | (cut) "r = Completed n True" "sent = None"
    using 4 assms(2) by (auto split: send_result.splits if_splits)
  then show ?thesis
  proof cases
    case sent
    have "valid_msgs env msgs = (pre @ [m]) @ valid_msgs env ms" using pre(2) by simp
    with sent ext pre(1) show ?thesis by auto
  next
    case cut
    with pre show ?thesis by auto
  qed
qed (use assms(1) in auto)

section \<open>Once the deadline has passed\<close>

text \<open>
  The steps of a delivery whose context has ended, with any interference in between and either
  choice where the select statement has one.
\<close>

fun finish :: "nat \<Rightarrow> handler_env \<Rightarrow> int \<Rightarrow> (nat \<Rightarrow> bool) \<Rightarrow> (nat \<Rightarrow> client \<Rightarrow> client) \<Rightarrow> delivery \<Rightarrow> client \<Rightarrow> client \<times> delivery_result" where
  "finish 0 env now pick meddle d c = (c, Continue d)"
| "finish (Suc k) env now pick meddle d c =
     (case deliver_step env now True (pick k) d (meddle k c) of
        None \<Rightarrow> (c, Continue d)
      | Some (c', Continue d', sent) \<Rightarrow> finish k env now pick meddle d' c'
      | Some (c', r, sent) \<Rightarrow> (c', r))"

fun ended :: "bool \<times> string \<Rightarrow> client \<times> delivery_result \<Rightarrow> bool" where
  "ended m (c, Continue d) = False"
| "ended m (c, r) = (m \<notin> marks c)"

lemma ended_stepped: "stepped d c (c', r) \<Longrightarrow> ended (mark_of d) (c', r) \<or> (\<exists>d'. r = Continue d')"
  by (cases r) simp_all

text \<open>
  A bound on the steps: two per message left, with what the backend or the store will return for
  a delivery that has not fetched yet.
\<close>

definition fetched_replay :: "handler_env \<Rightarrow> string \<Rightarrow> string \<Rightarrow> int \<Rightarrow> int \<Rightarrow> replay_message list" where
  "fetched_replay env ch topic part offset =
     (case env_be env of None \<Rightarrow> []
      | Some be \<Rightarrow> (case be_Replay be \<lparr>Positions = [topic \<mapsto> [part \<mapsto> offset]], MaxMessages = MaxReplayMessages (env_cfg env),
                                     ReplaySubscriptions = [ch]\<rparr> of Inl e \<Rightarrow> [] | Inr msgs \<Rightarrow> msgs))"

definition fetched_history :: "handler_env \<Rightarrow> string \<Rightarrow> int \<Rightarrow> history_entry list" where
  "fetched_history env key limit =
     (case env_hist env of None \<Rightarrow> []
      | Some st \<Rightarrow>
          (case hs_range st key (case hs_head st key of None \<Rightarrow> ''+'' | Some i \<Rightarrow> if i \<noteq> [] then i else ''+'') limit of
             None \<Rightarrow> [] | Some es \<Rightarrow> es))"

fun steps_left :: "handler_env \<Rightarrow> delivery \<Rightarrow> nat" where
  "steps_left env (ReplayFetch ch topic part offset) = 2 * length (fetched_replay env ch topic part offset) + 2"
| "steps_left env (ReplaySend ch ms n) = 2 * length ms + 1"
| "steps_left env (ReplayOffer ch f ms n) = 2 * length ms + 2"
| "steps_left env (HistoryFetch ch key limit) = length (fetched_history env key limit) + 2"
| "steps_left env (HistorySend ch es n) = length es + 1"

lemma expired_step:
  "\<exists>c' r sent. deliver_step env now True pick d c = Some (c', r, sent) \<and> (\<forall>d'. r = Continue d' \<longrightarrow> steps_left env d' < steps_left env d)"
  by (cases "(env, now, True, pick, d, c)" rule: deliver_step.cases)
     (auto simp: replay_fetch_def history_fetch_def fetched_replay_def fetched_history_def Let_def
       split: option.splits sum.splits prod.splits send_result.splits replay_error.splits)

lemma finish_one:
  assumes "deliver_step env now True (pick k) d (meddle k c) = Some (c', r, sent)"
  shows "ended (mark_of d) (finish (Suc k) env now pick meddle d c)
     \<or> (\<exists>d'. r = Continue d' \<and> mark_of d' = mark_of d \<and> finish (Suc k) env now pick meddle d c = finish k env now pick meddle d' c')"
  using assms ended_stepped [OF deliver_stepped [OF assms]] deliver_stepped [OF assms] by (cases r) simp_all

lemma finish_ends: "steps_left env d \<le> k \<Longrightarrow> ended (mark_of d) (finish k env now pick meddle d c)"
proof (induction k arbitrary: d c)
  case 0
  then show ?case by (cases d) simp_all
next
  case (Suc k)
  obtain c' r sent where st: "deliver_step env now True (pick k) d (meddle k c) = Some (c', r, sent)"
      "\<And>d'. r = Continue d' \<Longrightarrow> steps_left env d' < steps_left env d"
    using expired_step [of env now "pick k" d "meddle k c"] by blast
  from finish_one [where pick = pick and k = k and meddle = meddle and c = c, OF st(1)] show ?case
  proof
    assume "\<exists>d'. r = Continue d' \<and> mark_of d' = mark_of d \<and> finish (Suc k) env now pick meddle d c = finish k env now pick meddle d' c'"
    then obtain d' where d': "r = Continue d'" "mark_of d' = mark_of d"
      "finish (Suc k) env now pick meddle d c = finish k env now pick meddle d' c'" by blast
    have "steps_left env d' \<le> k" using st(2) [OF d'(1)] Suc.prems by simp
    then show ?thesis using Suc.IH [of d' c'] d'(2,3) by simp
  qed
qed

section \<open>Properties\<close>

text \<open>However requests, deliveries, broadcasts, draining write pumps, connects and disconnects
  interleave: every connected client holds at most the configured number of channels and the index
  lists it for exactly these; at most one replay and one history delivery runs per client and
  channel, the in-progress marks are exactly those of the running deliveries, and no delivery
  ever sends on a closed channel.\<close>

theorem handlers_keep_invariant:
  assumes "handler_reachable env y" and "0 \<le> MaxChannelsPerClient (env_cfg env)"
  shows "(c \<in> clients (hsrv y) \<longrightarrow> int (card (subscriptions (heap (hsrv y) c))) \<le> MaxChannelsPerClient (env_cfg env))
     \<and> (c \<in> set (idx_Get (index (hsrv y)) ch) \<longleftrightarrow> c \<in> clients (hsrv y) \<and> ch \<in> subscriptions (heap (hsrv y) c))
     \<and> (c \<in> clients (hsrv y) \<longrightarrow> (ch \<in> replayInProgress (heap (hsrv y) c) \<longleftrightarrow> (\<exists>n d. running y n = Some (c, d) \<and> mark_of d = (True, ch)))
          \<and> (ch \<in> historyInProgress (heap (hsrv y) c) \<longleftrightarrow> (\<exists>n d. running y n = Some (c, d) \<and> mark_of d = (False, ch))))
     \<and> (running y n = Some (c, d) \<and> running y m = Some (c, e) \<and> mark_of d = mark_of e \<longrightarrow> n = m)
     \<and> (running y n = Some (c, d) \<longrightarrow> \<not> sendClosed (heap (hsrv y) c))"
proof -
  have i: "handler_inv env y" using handler_reachable_inv [OF assms] .
  then have t: "task_inv y" and s: "srv_inv (hsrv y)" by (simp_all add: handler_inv_def)
  have "ch \<in> replayInProgress (heap (hsrv y) c) \<longleftrightarrow> (True, ch) \<in> tasks (running y) c"
    "ch \<in> historyInProgress (heap (hsrv y) c) \<longleftrightarrow> (False, ch) \<in> tasks (running y) c" if "c \<in> clients (hsrv y)"
    using task_invD(3) [OF t, of c] that by (auto simp: marks_def)
  moreover have "x \<in> tasks (running y) c \<longleftrightarrow> (\<exists>n d. running y n = Some (c, d) \<and> mark_of d = x)" for x by (auto simp: tasks_def)
  moreover have "running y n = Some (c, d) \<and> running y m = Some (c, e) \<and> mark_of d = mark_of e \<longrightarrow> n = m"
    using t unfolding task_inv_def by blast
  moreover have "running y n = Some (c, d) \<longrightarrow> \<not> sendClosed (heap (hsrv y) c)" using task_invD(1,4) [OF t] by blast
  ultimately show ?thesis using i s by (auto simp: handler_inv_def capped_def srv_inv_def)
qed

definition demo_env :: handler_env where
  "demo_env = \<lparr>env_compact = Some, env_cfg = demo_config, env_be = Some demo_backend, env_hist = None\<rparr>"

definition demo_request :: "server \<times> delivery option" where
  "demo_request = handleClientMessage demo_env 1700 True False
     (Some (ReqSubscribe (Some \<lparr>sd_Channels = [''acme.BTC''], sd_Channel = [], sd_History = None\<rparr>))) 0 one_connected"

definition demo_sys :: handler_sys where
  "demo_sys = \<lparr>hsrv = fst demo_request, running = Map.empty(0 := map_option (Pair 0) (snd demo_request)), leaving = {}\<rparr>"

lemma demo_sys_reachable: "handler_reachable demo_env demo_sys"
proof -
  let ?y = "\<lparr>hsrv = idle_server, running = Map.empty, leaving = {}\<rparr>"
  have "handler_reachable demo_env ?y" by (rule h_start) (simp_all add: idle_server_def)
  moreover have "handler_step demo_env ?y (?y\<lparr>hsrv := one_connected\<rparr>)"
    using h_connect [of 0 ?y demo_env] unfolding one_connected_def by (simp add: idle_server_def)
  ultimately have "handler_reachable demo_env (?y\<lparr>hsrv := one_connected\<rparr>)" by (rule h_next)
  then show ?thesis
  proof (rule h_next)
    show "handler_step demo_env (?y\<lparr>hsrv := one_connected\<rparr>) demo_sys"
      using h_request [of 0 "?y\<lparr>hsrv := one_connected\<rparr>" "Some (ReqSubscribe (Some \<lparr>sd_Channels = [''acme.BTC''], sd_Channel = [], sd_History = None\<rparr>))"
          0 demo_env 1700 True False "fst demo_request" "snd demo_request"]
      by (simp add: demo_sys_def demo_request_def one_connected_clients)
  qed
qed

lemma demo_sys_client: "0 \<in> clients (hsrv demo_sys)"
proof -
  have "capped demo_env (heap one_connected 0)"
    by (simp add: capped_def one_connected_clients demo_env_def demo_config_def)
  then have "handled demo_env 0 one_connected demo_request"
    unfolding demo_request_def by (intro handled_message one_connected_inv) (simp_all add: one_connected_clients)
  then show ?thesis by (simp add: handled_def demo_sys_def one_connected_clients)
qed

theorem handlers_keep_invariant_witness:
  "0 \<in> clients (hsrv demo_sys) \<and> int (card (subscriptions (heap (hsrv demo_sys) 0))) \<le> 2
   \<and> (0 \<in> set (idx_Get (index (hsrv demo_sys)) ''acme.BTC'') \<longleftrightarrow> ''acme.BTC'' \<in> subscriptions (heap (hsrv demo_sys) 0))"
  using handlers_keep_invariant [OF demo_sys_reachable, of 0 "''acme.BTC''"] demo_sys_client by (simp add: demo_env_def demo_config_def)

text \<open>A live replay that completes has put into the send buffer one frame for each message the
  backend returned whose payload is valid JSON, in the order of the backend, none twice; when it
  was cut short, a frame for each message of a prefix. The count it reports is the number of these
  frames. This holds whatever the pump, broadcasts and other deliveries do to the client meanwhile.\<close>

theorem replay_delivery_exact:
  assumes "delivery_run env (ReplayFetch ch topic part offset) (Completed n truncated) out" and "env_be env = Some be"
    and "be_Replay be \<lparr>Positions = [topic \<mapsto> [part \<mapsto> offset]], MaxMessages = MaxReplayMessages (env_cfg env),
           ReplaySubscriptions = [ch]\<rparr> = Inr msgs"
  shows "n = int (length out) \<and> list_all2 (renders env) (take (length out) (valid_msgs env msgs)) out
     \<and> (truncated \<or> length out = length (valid_msgs env msgs))"
proof -
  have "replay_inv env (valid_msgs env msgs) (ReplayFetch ch topic part offset) r out"
    if "delivery_run env (ReplayFetch ch topic part offset) r out" for r out
    using that
  proof induction
    case (run_step d out now expired pick c c' r sent)
    then show ?case using replay_inv_step [OF _ _ assms(2,3)] by blast
  qed simp
  from this [OF assms(1)] obtain pre suf where h: "n = int (length out)" "valid_msgs env msgs = pre @ suf"
      "list_all2 (renders env) pre out" "truncated \<or> suf = []" by auto
  have "length pre = length out" using h(3) by (rule list_all2_lengthD)
  with h show ?thesis unfolding h(2) by auto
qed

definition demo_missed :: "replay_message list" where
  "demo_missed = [\<lparr>rm_Subject = ''acme.BTC'', rm_Data = Some ''1'', rm_Pos = ''1-7'', rm_Mid = []\<rparr>]"

definition missed_env :: handler_env where
  "missed_env = demo_env\<lparr>env_be := Some (demo_backend\<lparr>be_Replay := (\<lambda>_. Inr demo_missed)\<rparr>)\<rparr>"

lemma missed_run:
  "delivery_run missed_env (ReplayFetch ''acme.BTC'' ''t'' 0 7) (Completed 1 False) [replay_frame 1 1700 ''1'' (hd demo_missed)]"
proof -
  let ?d = "ReplayFetch ''acme.BTC'' ''t'' 0 7" and ?f = "replay_frame 1 1700 ''1'' (hd demo_missed)"
  have "delivery_run missed_env ?d (Continue (ReplaySend ''acme.BTC'' demo_missed 0)) []"
    using run_step [OF run_start, of missed_env 1700 False False ?d demo_client]
    by (simp add: replay_fetch_def missed_env_def demo_missed_def)
  then have "delivery_run missed_env ?d (Continue (ReplayOffer ''acme.BTC'' ?f [] 0)) []"
    using run_step [of missed_env ?d "ReplaySend ''acme.BTC'' demo_missed 0" "[]" 1700 False False demo_client]
    by (simp add: demo_missed_def valid_payload_def missed_env_def demo_env_def next_seq_def seq_Next_def demo_client_def
        pool_New_def NewSequenceGenerator_def i64_id)
  then have "delivery_run missed_env ?d (Continue (ReplaySend ''acme.BTC'' [] 1)) [?f]"
    using run_step [of missed_env ?d "ReplayOffer ''acme.BTC'' ?f [] 0" "[]" 1700 False False demo_client]
    by (simp add: try_send_def demo_client_def pool_New_def)
  then show ?thesis
    using run_step [of missed_env ?d "ReplaySend ''acme.BTC'' [] 1" "[?f]" 1700 False False demo_client] by (simp add: Let_def)
qed

theorem replay_delivery_exact_witness:
  "length [replay_frame 1 1700 ''1'' (hd demo_missed)] = length (valid_msgs missed_env demo_missed)"
  using replay_delivery_exact [OF missed_run] by (simp add: missed_env_def)

text \<open>Once its context has ended, every delivery ends after at most two steps per message left
  and two more, whatever happens to the client in between and however the select statement
  chooses, and its in-progress mark is gone then.\<close>

theorem delivery_terminates:
  "ended (mark_of d) (finish (steps_left env d) env now pick meddle d c)"
  by (rule finish_ends) simp

end
