(* ===== verification/Protocol.thy ===== *)
theory Protocol
  imports JsonText Deliveries
begin

text \<open>
  The messages a client sends, from the bytes of a text frame to the requests that
  \<open>ServerHandlers\<close> acts on: the envelope and payload types of \<open>shared/protocol/types.go\<close>,
  \<open>server/protocol.go\<close>, \<open>server/replay_protocol.go\<close> and \<open>server/history_protocol.go\<close>, decoded as
  \<open>encoding/json\<close> does (\<open>Json\<close>), and the encoding of those the gateway builds itself.
\<close>

section \<open>The envelope\<close>

text \<open>An absent \<open>data\<close> is the nil \<open>json.RawMessage\<close>, the empty text.\<close>

record ClientMessage =
  cm_Type :: string
  cm_Data :: string

definition client_message_field :: "string \<Rightarrow> string \<Rightarrow> ClientMessage \<Rightarrow> ClientMessage option" where
  "client_message_field k txt m =
     (if k = ''type'' then map_option (\<lambda>t. m\<lparr>cm_Type := t\<rparr>) (decode_text (cm_Type m) txt)
      else if k = ''data'' then Some (m\<lparr>cm_Data := txt\<rparr>)
      else Some m)"

definition decode_client_message :: "string \<Rightarrow> ClientMessage option" where
  "decode_client_message = Unmarshal client_message_field \<lparr>cm_Type = [], cm_Data = []\<rparr>"

text \<open>\<open>json.Marshal\<close> fails when the raw data is not one JSON value.\<close>

definition marshal_client_message :: "ClientMessage \<Rightarrow> string option" where
  "marshal_client_message m =
     (if cm_Data m = [] then Some (json_obj [(''type'', json_string (cm_Type m))])
      else map_option (\<lambda>d. json_obj [(''type'', json_string (cm_Type m)), (''data'', d)]) (Compact (cm_Data m)))"

section \<open>Payloads\<close>

definition history_options_field :: "string \<Rightarrow> string \<Rightarrow> int \<Rightarrow> int option" where
  "history_options_field k txt n = (if k = ''limit'' then decode_int n txt else Some n)"

text \<open>A pointer field: \<open>null\<close> clears it, an object is decoded into the struct it already points to.\<close>

definition decode_history_options :: "int option \<Rightarrow> string \<Rightarrow> int option option" where
  "decode_history_options old txt =
     (if txt = ''null'' then Some None
      else map_option Some (Unmarshal history_options_field (case old of None \<Rightarrow> 0 | Some n \<Rightarrow> n) txt))"

definition subscribe_field :: "string \<Rightarrow> string \<Rightarrow> subscribe_data \<Rightarrow> subscribe_data option" where
  "subscribe_field k txt d =
     (if k = ''channels''
      then map_option (\<lambda>l. d\<lparr>sd_Channels := case l of None \<Rightarrow> [] | Some l \<Rightarrow> l\<rparr>) (decode_texts (Some (sd_Channels d)) txt)
      else if k = ''channel'' then map_option (\<lambda>c. d\<lparr>sd_Channel := c\<rparr>) (decode_text (sd_Channel d) txt)
      else if k = ''history'' then map_option (\<lambda>h. d\<lparr>sd_History := h\<rparr>) (decode_history_options (sd_History d) txt)
      else Some d)"

definition no_subscribe :: subscribe_data where
  "no_subscribe = \<lparr>sd_Channels = [], sd_Channel = [], sd_History = None\<rparr>"

definition decode_subscribe :: "string \<Rightarrow> subscribe_data option" where
  "decode_subscribe = Unmarshal subscribe_field no_subscribe"

text \<open>Every field is omitted when empty.\<close>

definition marshal_subscribe :: "subscribe_data \<Rightarrow> string" where
  "marshal_subscribe d =
     json_obj ((if sd_Channels d = [] then [] else [(''channels'', json_strings (sd_Channels d))])
       @ (if sd_Channel d = [] then [] else [(''channel'', json_string (sd_Channel d))])
       @ (case sd_History d of None \<Rightarrow> [] | Some n \<Rightarrow> [(''history'', json_obj [(''limit'', FormatInt n)])]))"

definition unsubscribe_field :: "string \<Rightarrow> string \<Rightarrow> string list option \<Rightarrow> string list option option" where
  "unsubscribe_field k txt chs = (if k = ''channels'' then decode_texts chs txt else Some chs)"

definition decode_unsubscribe :: "string \<Rightarrow> string list option option" where
  "decode_unsubscribe = Unmarshal unsubscribe_field None"

definition publish_field :: "string \<Rightarrow> string \<Rightarrow> string \<times> string \<Rightarrow> (string \<times> string) option" where
  "publish_field k txt p =
     (if k = ''channel'' then map_option (\<lambda>c. (c, snd p)) (decode_text (fst p) txt)
      else if k = ''data'' then Some (fst p, txt)
      else Some p)"

definition decode_publish :: "string \<Rightarrow> (string \<times> string) option" where
  "decode_publish = Unmarshal publish_field ([], [])"

definition replay_field :: "string \<Rightarrow> string \<Rightarrow> string \<times> string \<Rightarrow> (string \<times> string) option" where
  "replay_field k txt p =
     (if k = ''channel'' then map_option (\<lambda>c. (c, snd p)) (decode_text (fst p) txt)
      else if k = ''from_pos'' then map_option (Pair (fst p)) (decode_text (snd p) txt)
      else Some p)"

definition decode_replay :: "string \<Rightarrow> (string \<times> string) option" where
  "decode_replay = Unmarshal replay_field ([], [])"

definition history_field :: "string \<Rightarrow> string \<Rightarrow> string \<times> int \<Rightarrow> (string \<times> int) option" where
  "history_field k txt h =
     (if k = ''channel'' then map_option (\<lambda>c. (c, snd h)) (decode_text (fst h) txt)
      else if k = ''limit'' then map_option (Pair (fst h)) (decode_int (snd h) txt)
      else Some h)"

text \<open>
  The second decoding of a history request that failed, for its channel only: its error is
  ignored, and a member of the wrong type leaves the field as it was.
\<close>

fun last_channel :: "(string \<times> string) list \<Rightarrow> string \<Rightarrow> string" where
  "last_channel [] ch = ch"
| "last_channel ((k, txt) # kvs) ch =
     last_channel kvs (if fold_key k = ''channel'' then (case decode_text ch txt of None \<Rightarrow> ch | Some c \<Rightarrow> c) else ch)"

definition partial_channel :: "string \<Rightarrow> string" where
  "partial_channel s = (case object_of s of None \<Rightarrow> [] | Some kvs \<Rightarrow> last_channel kvs [])"

definition decode_history :: "string \<Rightarrow> string + (string \<times> int)" where
  "decode_history s = (case Unmarshal history_field ([], 0) s of None \<Rightarrow> Inl (partial_channel s) | Some h \<Rightarrow> Inr h)"

text \<open>The client identifier is only logged, but a wrong type for it fails the decoding.\<close>

definition reconnect_field ::
  "string \<Rightarrow> string \<Rightarrow> string \<times> (string \<times> string) list \<Rightarrow> (string \<times> (string \<times> string) list) option" where
  "reconnect_field k txt r =
     (if k = ''client_id'' then map_option (\<lambda>c. (c, snd r)) (decode_text (fst r) txt)
      else if k = ''last_pos'' then map_option (Pair (fst r)) (decode_map (snd r) txt)
      else Some r)"

definition decode_reconnect :: "string \<Rightarrow> (string \<times> string) list option" where
  "decode_reconnect s = map_option snd (Unmarshal reconnect_field ([], []) s)"

section \<open>Requests\<close>

definition request_of :: "ClientMessage \<Rightarrow> client_request" where
  "request_of m =
     (if cm_Type m = ''reconnect'' then ReqReconnect (decode_reconnect (cm_Data m))
      else if cm_Type m = ''heartbeat'' then ReqHeartbeat
      else if cm_Type m = ''subscribe'' then ReqSubscribe (decode_subscribe (cm_Data m))
      else if cm_Type m = ''unsubscribe'' then ReqUnsubscribe (decode_unsubscribe (cm_Data m))
      else if cm_Type m = ''replay'' then ReqReplay (decode_replay (cm_Data m))
      else if cm_Type m = ''history'' then ReqHistory (decode_history (cm_Data m))
      else if cm_Type m = ''publish'' then ReqPublish (decode_publish (cm_Data m))
      else ReqUnknown)"

definition decode_request :: "string \<Rightarrow> client_request option" where
  "decode_request s = map_option request_of (decode_client_message s)"

text \<open>The handler from the bytes of the frame.\<close>

definition handle_frame ::
  "handler_env \<Rightarrow> int \<Rightarrow> bool \<Rightarrow> bool \<Rightarrow> string \<Rightarrow> cref \<Rightarrow> server \<Rightarrow> server \<times> delivery option" where
  "handle_frame env now allowed expired data = handleClientMessage env now allowed expired (decode_request data)"

section \<open>Lemmas\<close>

lemma Unmarshal_ws: "list_all is_ws w \<Longrightarrow> Unmarshal f z (w @ s) = Unmarshal f z s"
  by (simp add: Unmarshal_def object_of_ws)

lemma decode_request_ws: "list_all is_ws w \<Longrightarrow> decode_request (w @ s) = decode_request s"
  by (simp add: decode_request_def decode_client_message_def Unmarshal_ws)

text \<open>A decoded map has distinct keys, which is what the handlers rely on.\<close>

lemma put_entry_distinct: "distinct (map fst m) \<Longrightarrow> distinct (map fst (put_entry k v m))"
  by (auto simp: put_entry_def distinct_map inj_on_def)

lemma decode_entries_distinct: "decode_entries kvs m = Some m' \<Longrightarrow> distinct (map fst m) \<Longrightarrow> distinct (map fst m')"
  by (induction kvs m rule: decode_entries.induct) (auto split: option.splits intro: put_entry_distinct)

lemma decode_fields_inv:
  "decode_fields f kvs x = Some y \<Longrightarrow> P x \<Longrightarrow> (\<And>k txt a b. f k txt a = Some b \<Longrightarrow> P a \<Longrightarrow> P b) \<Longrightarrow> P y"
  by (induction f kvs x rule: decode_fields.induct) (auto split: option.splits)

lemma decode_fields_all:
  "decode_fields f kvs x = Some y \<Longrightarrow> list_all (\<lambda>(k, v). Q v) kvs \<Longrightarrow> P x \<Longrightarrow>
     (\<And>k v a b. f k v a = Some b \<Longrightarrow> Q v \<Longrightarrow> P a \<Longrightarrow> P b) \<Longrightarrow> P y"
  by (induction f kvs x rule: decode_fields.induct) (auto split: option.splits)

lemma Unmarshal_inv:
  "Unmarshal f z s = Some y \<Longrightarrow> P z \<Longrightarrow> (\<And>k txt a b. f k txt a = Some b \<Longrightarrow> P a \<Longrightarrow> P b) \<Longrightarrow> P y"
  by (auto simp: Unmarshal_def split: option.splits intro: decode_fields_inv)

lemma decode_reconnect_distinct: "decode_reconnect s = Some lp \<Longrightarrow> distinct (map fst lp)"
proof -
  assume "decode_reconnect s = Some lp"
  then obtain r where r: "Unmarshal reconnect_field ([], []) s = Some r" "lp = snd r" by (auto simp: decode_reconnect_def)
  have "distinct (map fst (snd r))"
    by (rule Unmarshal_inv [OF r(1), where P = "\<lambda>r. distinct (map fst (snd r))"])
       (auto simp: reconnect_field_def decode_map_def split: if_splits option.splits dest: decode_entries_distinct)
  with r(2) show ?thesis by simp
qed

lemma decode_request_ok: "request_ok (decode_request s)"
proof -
  have "request_ok (Some (request_of m))" for m
    by (cases "decode_reconnect (cm_Data m)") (auto simp: request_of_def dest: decode_reconnect_distinct)
  then show ?thesis by (cases "decode_client_message s") (auto simp: decode_request_def)
qed

section \<open>Round trips\<close>

lemma plain_chars [simp]:
  "json_plain CHR ''a''" "json_plain CHR ''c''" "json_plain CHR ''d''" "json_plain CHR ''e''" "json_plain CHR ''h''" "json_plain CHR ''i''"
  "json_plain CHR ''l''" "json_plain CHR ''m''" "json_plain CHR ''n''" "json_plain CHR ''o''" "json_plain CHR ''p''" "json_plain CHR ''r''"
  "json_plain CHR ''s''" "json_plain CHR ''t''" "json_plain CHR ''y''" "json_plain CHR ''u''" "json_plain CHR ''b''"
  by (simp_all add: json_plain_def byte_def escape_ascii_def)

lemma lower_chars [simp]:
  "lower_char CHR ''a'' = CHR ''a''" "lower_char CHR ''c'' = CHR ''c''" "lower_char CHR ''d'' = CHR ''d''" "lower_char CHR ''e'' = CHR ''e''" "lower_char CHR ''h'' = CHR ''h''" "lower_char CHR ''i'' = CHR ''i''"
  "lower_char CHR ''l'' = CHR ''l''" "lower_char CHR ''m'' = CHR ''m''" "lower_char CHR ''n'' = CHR ''n''" "lower_char CHR ''o'' = CHR ''o''" "lower_char CHR ''p'' = CHR ''p''" "lower_char CHR ''r'' = CHR ''r''"
  "lower_char CHR ''s'' = CHR ''s''" "lower_char CHR ''t'' = CHR ''t''" "lower_char CHR ''y'' = CHR ''y''" "lower_char CHR ''u'' = CHR ''u''" "lower_char CHR ''b'' = CHR ''b''"
  by (simp_all add: lower_char_def byte_def)

lemma depth_Suc: "\<exists>d. maxNestingDepth - Suc 0 = Suc d" "\<exists>d. maxNestingDepth - Suc 0 = Suc (Suc d)"
  by (simp_all add: maxNestingDepth_def numeral_eq_Suc)

lemma strings_token_max: "token (maxNestingDepth - 1) (json_strings xs)"
  using depth_Suc(1) strings_token by (metis One_nat_def)

lemma limit_token: "token (maxNestingDepth - 1) (json_obj [(''limit'', FormatInt n)])"
proof -
  obtain d where d: "maxNestingDepth - 1 = Suc d" using depth_Suc(1) by auto
  show ?thesis unfolding d by (rule obj_token [OF _ plain_good]) (simp_all add: int_token)
qed

lemma decode_limit: "- (2 ^ 63) \<le> n \<Longrightarrow> n < 2 ^ 63 \<Longrightarrow> decode_history_options old (json_obj [(''limit'', FormatInt n)]) = Some (Some n)"
proof -
  assume n: "- (2 ^ 63) \<le> n" "n < 2 ^ 63"
  have "object_of (json_obj [(''limit'', FormatInt n)]) = Some [(''limit'', FormatInt n)]"
    by (rule object_of_obj) (auto simp: int_token)
  moreover have "json_obj [(''limit'', FormatInt n)] \<noteq> ''null''" by (simp add: json_obj_def)
  ultimately show ?thesis using decode_int_format [OF n]
    by (simp add: decode_history_options_def Unmarshal_def history_options_field_def)
qed

definition subscribe_ok :: "subscribe_data \<Rightarrow> bool" where
  "subscribe_ok d \<longleftrightarrow> list_all valid_utf8 (sd_Channels d) \<and> valid_utf8 (sd_Channel d)
     \<and> (case sd_History d of None \<Rightarrow> True | Some n \<Rightarrow> - (2 ^ 63) \<le> n \<and> n < 2 ^ 63)"

lemma decode_marshal_subscribe: "subscribe_ok d \<Longrightarrow> decode_subscribe (marshal_subscribe d) = Some d"
proof -
  assume ok: "subscribe_ok d"
  let ?kvs = "(if sd_Channels d = [] then [] else [(''channels'', json_strings (sd_Channels d))])
       @ (if sd_Channel d = [] then [] else [(''channel'', json_string (sd_Channel d))])
       @ (case sd_History d of None \<Rightarrow> [] | Some n \<Rightarrow> [(''history'', json_obj [(''limit'', FormatInt n)])])"
  have "object_of (json_obj ?kvs) = Some ?kvs"
    by (rule object_of_obj) (use strings_token_max string_token limit_token in \<open>auto split: option.split\<close>)
  moreover have "decode_fields subscribe_field ?kvs no_subscribe = Some d"
    using ok by (cases d; cases "sd_History d")
      (auto simp: subscribe_ok_def subscribe_field_def no_subscribe_def decode_texts_strings decode_text_string decode_limit)
  ultimately show ?thesis by (simp add: decode_subscribe_def Unmarshal_def marshal_subscribe_def)
qed

text \<open>The data of a decoded message is the raw text of a value.\<close>

definition data_ok :: "ClientMessage \<Rightarrow> bool" where
  "data_ok m \<longleftrightarrow> cm_Data m = [] \<or> value_text (maxNestingDepth - 1) (cm_Data m)"

lemma decode_data_ok: "decode_client_message s = Some m \<Longrightarrow> data_ok m"
proof -
  assume "decode_client_message s = Some m"
  then obtain kvs where o: "object_of s = Some kvs" and d: "decode_fields client_message_field kvs \<lparr>cm_Type = [], cm_Data = []\<rparr> = Some m"
    by (auto simp: decode_client_message_def Unmarshal_def split: option.splits)
  have "list_all (\<lambda>(k, v). value_text (maxNestingDepth - 1) v) kvs" using raw_values [OF o] .
  with d show ?thesis
    by (rule decode_fields_all [where P = data_ok]) (auto simp: client_message_field_def data_ok_def split: if_splits)
qed

lemma decode_marshal_message:
  assumes "valid_utf8 (cm_Type m)" "data_ok m"
  shows "\<exists>s. marshal_client_message m = Some s \<and> decode_client_message s = Some (m\<lparr>cm_Data := compact_text False (cm_Data m)\<rparr>)"
proof (cases "cm_Data m = []")
  case True
  have "object_of (json_obj [(''type'', json_string (cm_Type m))]) = Some [(''type'', json_string (cm_Type m))]"
    by (rule object_of_obj) (auto simp: string_token)
  with True assms(1) show ?thesis
    by (cases m) (simp add: marshal_client_message_def decode_client_message_def Unmarshal_def client_message_field_def decode_text_string)
next
  case False
  then have v: "value_text (maxNestingDepth - 1) (cm_Data m)" using assms(2) by (simp add: data_ok_def)
  let ?kvs = "[(''type'', json_string (cm_Type m)), (''data'', compact_text False (cm_Data m))]"
  have "object_of (json_obj ?kvs) = Some ?kvs"
    by (rule object_of_obj) (use value_textD(2) [OF v] in \<open>auto simp: string_token\<close>)
  with False assms(1) value_text_valid [OF v] show ?thesis
    by (cases m) (simp add: marshal_client_message_def Compact_def decode_client_message_def Unmarshal_def client_message_field_def
        decode_text_string)
qed

text \<open>Publishing: the channel is not changed by compaction.\<close>

lemma decode_publish_compact: "decode_publish s = Some (ch, x) \<Longrightarrow> \<exists>y. decode_publish (compact_text False s) = Some (ch, y)"
proof -
  assume "decode_publish s = Some (ch, x)"
  then obtain kvs where o: "object_of s = Some kvs" and d: "decode_fields publish_field kvs ([], []) = Some (ch, x)"
    by (auto simp: decode_publish_def Unmarshal_def split: option.splits)
  have "list_all (\<lambda>(k, v). value_text (maxNestingDepth - 1) v) kvs" using raw_values [OF o] .
  then have "decode_fields publish_field kvs (a, b) = Some (ch, x) \<Longrightarrow>
      decode_fields publish_field (map (apsnd (compact_text False)) kvs) (a, compact_text False b) = Some (ch, compact_text False x)" for a b
    by (induction kvs arbitrary: a b)
       (auto simp: publish_field_def decode_text_compact split: option.splits if_splits)
  from this [OF d] object_of_compact [OF o] show ?thesis by (simp add: decode_publish_def Unmarshal_def)
qed

text \<open>Decoded texts are valid UTF-8, so a decoded payload survives another round.\<close>

lemma decode_subscribe_valid: "decode_subscribe s = Some d \<Longrightarrow> list_all valid_utf8 (sd_Channels d)"
proof -
  assume "decode_subscribe s = Some d"
  then have u: "Unmarshal subscribe_field no_subscribe s = Some d" by (simp add: decode_subscribe_def)
  show ?thesis
  proof (rule Unmarshal_inv [OF u, where P = "\<lambda>d. list_all valid_utf8 (sd_Channels d)"])
    fix k v a b
    assume f: "subscribe_field k v a = Some b" and a: "list_all valid_utf8 (sd_Channels a)"
    show "list_all valid_utf8 (sd_Channels b)"
    proof (cases "k = ''channels''")
      case True
      with f obtain l where l: "decode_texts (Some (sd_Channels a)) v = Some l" "sd_Channels b = (case l of None \<Rightarrow> [] | Some l \<Rightarrow> l)"
        by (auto simp: subscribe_field_def)
      with a show ?thesis by (cases l) (auto dest: decode_texts_valid)
    qed (use f a in \<open>auto simp: subscribe_field_def split: if_splits\<close>)
  qed (simp add: no_subscribe_def)
qed

lemma decode_limit_compact:
  assumes v: "value_text (maxNestingDepth - 1) v" shows "decode_history_options old (compact_text False v) = decode_history_options old v"
proof -
  have "compact_text False v = ''null'' \<longleftrightarrow> v = ''null''"
  proof
    assume n: "compact_text False v = ''null''"
    then have "hd v = CHR ''n''" using compact_hd [OF v] by auto
    with v n show "v = ''null''" by (auto simp: value_text_def)
  qed (simp add: is_ws_def byte_def)
  moreover have "Unmarshal history_options_field n (compact_text False v) = Unmarshal history_options_field n v" for n
    by (rule Unmarshal_compact [OF v]) (auto simp: history_options_field_def decode_int_compact [of "maxNestingDepth - 1"] simp del: compact_text.simps)
  ultimately show ?thesis by (simp add: decode_history_options_def)
qed

lemma decode_subscribe_compact:
  "value_text (maxNestingDepth - 1) v \<Longrightarrow> decode_subscribe (compact_text False v) = decode_subscribe v"
  unfolding decode_subscribe_def
  by (erule Unmarshal_compact) (simp add: subscribe_field_def decode_texts_compact decode_text_compact [of "maxNestingDepth - 1"] decode_limit_compact del: compact_text.simps)

end
