(* ===== verification/RoutingPatterns.thy ===== *)
theory RoutingPatterns
  imports GoStrings
begin

text \<open>
  Topic routing patterns, \<open>shared/routing/constants.go\<close>: normalisation of stored
  patterns and the segment matcher with one-segment (\<open>*\<close>) and many-segment (\<open>**\<close>)
  wildcards, with an independent inductive specification of when a pattern routes a
  channel.
\<close>

section \<open>The code\<close>

datatype routing_error = ErrMultipleDoubleWildcard

fun normalize_segs :: "string list \<Rightarrow> string list" where
  "normalize_segs [] = []"
| "normalize_segs (s # segs) = (if s = ''*'' then ''**'' else s) # normalize_segs segs"

definition NormalizePattern :: "string \<Rightarrow> string" where
  "NormalizePattern pattern =
     (if pattern = [] then pattern else Join (normalize_segs (Split pattern ''.'')) ''.'')"

text \<open>The counting loop: how many \<open>**\<close> tokens, and the index of the last one (\<open>-1\<close> if none).\<close>

fun count_double :: "nat \<Rightarrow> string list \<Rightarrow> nat \<times> int \<Rightarrow> nat \<times> int" where
  "count_double i [] acc = acc"
| "count_double i (s # segs) (doubleCount, doubleIdx) =
     (if s = ''**'' then count_double (Suc i) segs (doubleCount + 1, int i)
      else count_double (Suc i) segs (doubleCount, doubleIdx))"

text \<open>The comparison loops stop at the first segment that differs.\<close>

fun match_segs :: "string list \<Rightarrow> string list \<Rightarrow> bool" where
  "match_segs [] cs = True"
| "match_segs (p # ps) (c # cs) = (if p \<noteq> ''*'' \<and> p \<noteq> c then False else match_segs ps cs)"
| "match_segs (p # ps) [] = False"

definition MatchRoutingPattern :: "string \<Rightarrow> string \<Rightarrow> routing_error + bool" where
  "MatchRoutingPattern pattern channel =
     (if channel = [] then Inr False
      else
        let pSegs = Split pattern ''.'';
            cSegs = Split channel ''.'';
            (doubleCount, doubleIdx) = count_double 0 pSegs (0, -1)
        in if doubleCount > 1 then Inl ErrMultipleDoubleWildcard
           else if doubleCount = 0 then
             (if length pSegs \<noteq> length cSegs then Inr False else Inr (match_segs pSegs cSegs))
           else
             let prefix = take (nat doubleIdx) pSegs;
                 suffix = drop (nat doubleIdx + 1) pSegs;
                 minLen = length prefix + 1 + length suffix
             in if length cSegs < minLen then Inr False
                else if \<not> match_segs prefix cSegs then Inr False
                else if \<not> match_segs suffix (drop (length cSegs - length suffix) cSegs) then Inr False
                else Inr True)"

declare NormalizePattern_def [go_defs] MatchRoutingPattern_def [go_defs]

section \<open>The specification\<close>

inductive routes :: "string list \<Rightarrow> string list \<Rightarrow> bool" where
  routes_nil: "routes [] []"
| routes_lit: "p \<noteq> ''**'' \<Longrightarrow> routes ps cs \<Longrightarrow> routes (p # ps) (p # cs)"
| routes_one: "routes ps cs \<Longrightarrow> routes (''*'' # ps) (c # cs)"
| routes_many: "ms \<noteq> [] \<Longrightarrow> routes ps cs \<Longrightarrow> routes (''**'' # ps) (ms @ cs)"

inductive_cases routes_NilE [elim!]: "routes [] cs"
inductive_cases routes_ConsE: "routes (p # ps) cs"

section \<open>Correctness of the matcher\<close>

lemma match_segs_zip:
  "match_segs ps cs \<longleftrightarrow>
     length ps \<le> length cs \<and> list_all2 (\<lambda>p c. p = ''*'' \<or> p = c) ps (take (length ps) cs)"
  by (induction ps cs rule: match_segs.induct) auto

lemma count_double_count:
  "fst (count_double i ps (n, j)) = n + count_list ps ''**''"
  by (induction ps arbitrary: i n j) auto

lemma count_double_none: "''**'' \<notin> set ps \<Longrightarrow> count_double i ps (n, j) = (n, j)"
  by (induction ps arbitrary: i n j) auto

lemma count_double_one:
  assumes "''**'' \<notin> set pre" and "''**'' \<notin> set suf"
  shows "count_double i (pre @ ''**'' # suf) (n, j) = (n + 1, int (i + length pre))"
  using assms by (induction pre arbitrary: i n j) (auto simp: count_double_none)

lemma routes_no_double:
  assumes "''**'' \<notin> set ps"
  shows "routes ps cs \<longleftrightarrow> list_all2 (\<lambda>p c. p = ''*'' \<or> p = c) ps cs"
  using assms
proof (induction ps arbitrary: cs)
  case Nil
  then show ?case by (auto intro: routes_nil)
next
  case (Cons p ps)
  show ?case
  proof
    assume "routes (p # ps) cs"
    then show "list_all2 (\<lambda>p c. p = ''*'' \<or> p = c) (p # ps) cs"
      by (rule routes_ConsE) (use Cons in auto)
  next
    assume "list_all2 (\<lambda>p c. p = ''*'' \<or> p = c) (p # ps) cs"
    then obtain c cs' where cs: "cs = c # cs'" "p = ''*'' \<or> p = c"
      "list_all2 (\<lambda>p c. p = ''*'' \<or> p = c) ps cs'" by (auto simp: list_all2_Cons1)
    with Cons have r: "routes ps cs'" by simp
    show "routes (p # ps) cs"
    proof (cases "p = ''*''")
      case True
      with r cs show ?thesis by (simp add: routes_one)
    next
      case False
      with cs Cons.prems r show ?thesis by (auto intro: routes_lit)
    qed
  qed
qed

lemma routes_one_double:
  assumes "''**'' \<notin> set pre"
  shows "routes (pre @ ''**'' # suf) cs \<longleftrightarrow>
     (\<exists>as ms bs. cs = as @ ms @ bs \<and> list_all2 (\<lambda>p c. p = ''*'' \<or> p = c) pre as
        \<and> ms \<noteq> [] \<and> routes suf bs)"
  using assms
proof (induction pre arbitrary: cs)
  case Nil
  show ?case
  proof
    assume "routes ([] @ ''**'' # suf) cs"
    then have "routes (''**'' # suf) cs" by simp
    then show "\<exists>as ms bs. cs = as @ ms @ bs \<and> list_all2 (\<lambda>p c. p = ''*'' \<or> p = c) [] as
        \<and> ms \<noteq> [] \<and> routes suf bs"
      by (rule routes_ConsE) auto
  qed (auto intro: routes_many)
next
  case (Cons p pre)
  show ?case (is "?l \<longleftrightarrow> ?r")
  proof
    assume "?l"
    then have "routes (p # (pre @ ''**'' # suf)) cs" by simp
    then show ?r
    proof (rule routes_ConsE)
      fix cs' assume c: "cs = p # cs'" and r: "routes (pre @ ''**'' # suf) cs'"
      from r Cons obtain as ms bs where "cs' = as @ ms @ bs"
        "list_all2 (\<lambda>p c. p = ''*'' \<or> p = c) pre as" "ms \<noteq> []" "routes suf bs" by auto
      with c show ?r by (intro exI [of _ "p # as"] exI [of _ ms] exI [of _ bs]) simp
    next
      fix cs' c assume c: "p = ''*''" "cs = c # cs'" and r: "routes (pre @ ''**'' # suf) cs'"
      from r Cons obtain as ms bs where "cs' = as @ ms @ bs"
        "list_all2 (\<lambda>p c. p = ''*'' \<or> p = c) pre as" "ms \<noteq> []" "routes suf bs" by auto
      with c show ?r by (intro exI [of _ "c # as"] exI [of _ ms] exI [of _ bs]) simp
    next
      fix ms cs' assume "p = ''**''"
      with Cons.prems show ?r by simp
    qed
  next
    assume ?r
    then obtain as ms bs where h: "cs = as @ ms @ bs"
      "list_all2 (\<lambda>p c. p = ''*'' \<or> p = c) (p # pre) as" "ms \<noteq> []" "routes suf bs" by blast
    then obtain a as' where a: "as = a # as'" "p = ''*'' \<or> p = a"
      "list_all2 (\<lambda>p c. p = ''*'' \<or> p = c) pre as'" by (auto simp: list_all2_Cons1)
    with h Cons have r: "routes (pre @ ''**'' # suf) (as' @ ms @ bs)" by auto
    show ?l
    proof (cases "p = ''*''")
      case True
      with r h a show ?thesis by (simp add: routes_one)
    next
      case False
      with a Cons.prems r h show ?thesis by (auto intro: routes_lit)
    qed
  qed
qed

lemma single_occurrence:
  assumes "count_list ps x = 1"
  obtains pre suf where "ps = pre @ x # suf" "x \<notin> set pre" "x \<notin> set suf"
proof -
  from assms have "x \<in> set ps" by (metis count_list_0_iff zero_neq_one)
  then obtain pre suf where "ps = pre @ x # suf" "x \<notin> set pre" by (meson split_list_first)
  moreover from this assms have "x \<notin> set suf" by (simp add: count_list_0_iff)
  ultimately show ?thesis using that by blast
qed

lemma middle_segments:
  assumes "length pre + 1 + length suf \<le> length cs"
  shows "(\<exists>as ms bs. cs = as @ ms @ bs \<and> list_all2 Q pre as \<and> ms \<noteq> [] \<and> list_all2 R suf bs) \<longleftrightarrow>
     list_all2 Q pre (take (length pre) cs) \<and> list_all2 R suf (drop (length cs - length suf) cs)"
  (is "?l \<longleftrightarrow> ?r")
proof
  assume ?l
  then obtain as ms bs where h: "cs = as @ ms @ bs" "list_all2 Q pre as" "list_all2 R suf bs" by blast
  then have "length pre = length as" "length suf = length bs" by (auto dest: list_all2_lengthD)
  with h show ?r by simp
next
  assume r: ?r
  let ?ms = "drop (length pre) (take (length cs - length suf) cs)"
  have "cs = take (length pre) cs @ ?ms @ drop (length cs - length suf) cs"
    using assms by (metis append.assoc append_take_drop_id take_add le_add_diff_inverse
        add_leD1 take_take min_def add_le_imp_le_diff add.assoc)
  moreover have "?ms \<noteq> []" using assms by simp
  ultimately show ?l using r by blast
qed

lemma length_segs_list_all2:
  "length ps = length cs \<Longrightarrow> match_segs ps cs \<longleftrightarrow> list_all2 (\<lambda>p c. p = ''*'' \<or> p = c) ps cs"
  by (simp add: match_segs_zip)

text \<open>Routing decisions on patterns with at most one \<open>**\<close> token follow the specification.\<close>

lemma MatchRoutingPattern_zero:
  assumes "''**'' \<notin> set (Split p ''.'')" and "ch \<noteq> []"
  shows "MatchRoutingPattern p ch = Inr (routes (Split p ''.'') (Split ch ''.''))"
  using assms
  by (auto simp: MatchRoutingPattern_def Let_def count_double_none routes_no_double
      length_segs_list_all2 dest: list_all2_lengthD)

lemma MatchRoutingPattern_one:
  assumes ps: "Split p ''.'' = pre @ ''**'' # suf"
    and pre: "''**'' \<notin> set pre" and suf: "''**'' \<notin> set suf" and ch: "ch \<noteq> []"
  shows "MatchRoutingPattern p ch = Inr (routes (Split p ''.'') (Split ch ''.''))"
proof -
  let ?cs = "Split ch ''.''"
  let ?m = "\<lambda>p c. p = ''*'' \<or> p = (c::string)"
  have spec: "routes (Split p ''.'') ?cs \<longleftrightarrow>
     (\<exists>as ms bs. ?cs = as @ ms @ bs \<and> list_all2 ?m pre as \<and> ms \<noteq> [] \<and> list_all2 ?m suf bs)"
    using pre suf by (simp add: ps routes_one_double routes_no_double)
  show ?thesis
  proof (cases "length ?cs < length pre + 1 + length suf")
    case True
    have "\<not> routes (Split p ''.'') ?cs"
    proof
      assume "routes (Split p ''.'') ?cs"
      then obtain as ms bs where h: "?cs = as @ ms @ bs" "list_all2 ?m pre as" "ms \<noteq> []"
        "list_all2 ?m suf bs" using spec by blast
      from h(2,4) have "length as = length pre" "length bs = length suf"
        by (auto dest: list_all2_lengthD)
      moreover from h(1) have "length ?cs = length as + length ms + length bs" by simp
      moreover from h(3) have "0 < length ms" by simp
      ultimately show False using True by linarith
    qed
    with True ps pre suf ch show ?thesis
      by (simp add: MatchRoutingPattern_def Let_def count_double_one)
  next
    case False
    then have "routes (Split p ''.'') ?cs \<longleftrightarrow> list_all2 ?m pre (take (length pre) ?cs)
        \<and> list_all2 ?m suf (drop (length ?cs - length suf) ?cs)"
      unfolding spec by (intro middle_segments) simp
    with False ps pre suf ch show ?thesis
      by (simp add: MatchRoutingPattern_def Let_def count_double_one match_segs_zip)
  qed
qed

lemma MatchRoutingPattern_correct:
  assumes "ch \<noteq> []" and "count_list (Split p ''.'') ''**'' \<le> 1"
  shows "MatchRoutingPattern p ch = Inr (routes (Split p ''.'') (Split ch ''.''))"
proof (cases "count_list (Split p ''.'') ''**'' = 0")
  case True
  with assms show ?thesis by (intro MatchRoutingPattern_zero) (auto simp: count_list_0_iff)
next
  case False
  with assms have "count_list (Split p ''.'') ''**'' = 1" by simp
  then obtain pre suf where "Split p ''.'' = pre @ ''**'' # suf" "''**'' \<notin> set pre" "''**'' \<notin> set suf"
    by (rule single_occurrence)
  with assms(1) show ?thesis by (intro MatchRoutingPattern_one)
qed

lemma MatchRoutingPattern_error:
  "MatchRoutingPattern p ch = Inl e \<longleftrightarrow> ch \<noteq> [] \<and> 1 < count_list (Split p ''.'') ''**''"
proof (cases "1 < count_list (Split p ''.'') ''**''")
  case True
  then show ?thesis
    using count_double_count [of 0 "Split p ''.''" 0 "-1"]
    by (cases e) (auto simp: MatchRoutingPattern_def Let_def split: prod.splits)
next
  case False
  then show ?thesis
    using MatchRoutingPattern_correct [of ch p] by (cases "ch = []") (auto simp: MatchRoutingPattern_def)
qed

lemma MatchRoutingPattern_ok:
  "is_ok (MatchRoutingPattern p ch) \<longleftrightarrow> ch = [] \<or> count_list (Split p ''.'') ''**'' \<le> 1"
  using MatchRoutingPattern_error [of p ch ErrMultipleDoubleWildcard]
  by (cases "MatchRoutingPattern p ch"; cases "projl (MatchRoutingPattern p ch)") auto

section \<open>Normalisation\<close>

lemma normalize_segs_map: "normalize_segs segs = map (\<lambda>s. if s = ''*'' then ''**'' else s) segs"
  by (induction segs) auto

lemma Split_NormalizePattern:
  assumes "p \<noteq> []"
  shows "Split (NormalizePattern p) ''.'' = normalize_segs (Split p ''.'')"
proof -
  have "\<forall>x\<in>set (normalize_segs (Split p ''.'')). CHR ''.'' \<notin> set x"
    by (auto simp: normalize_segs_map dest: Split_segment_no_sep)
  moreover have "normalize_segs (Split p ''.'') \<noteq> []"
    by (simp add: normalize_segs_map Split_not_Nil)
  ultimately show ?thesis using assms by (simp add: NormalizePattern_def Split_Join)
qed

lemma normalize_segs_idem: "normalize_segs (normalize_segs segs) = normalize_segs segs"
  by (simp add: normalize_segs_map)

lemma NormalizePattern_eq_Nil: "NormalizePattern p = [] \<longleftrightarrow> p = []"
proof
  assume h: "NormalizePattern p = []"
  show "p = []"
  proof (rule ccontr)
    assume "p \<noteq> []"
    with h have s: "normalize_segs (Split p ''.'') = [[]]"
      using Split_NormalizePattern [of p] by (simp add: Split_char_None)
    then have "Split p ''.'' = [[]]"
      by (auto simp: normalize_segs_map split: if_splits)
    then show False using \<open>p \<noteq> []\<close> Join_Split [of "''.''" p] by simp
  qed
qed (simp add: NormalizePattern_def)

lemma NormalizePattern_idem: "NormalizePattern (NormalizePattern p) = NormalizePattern p"
proof (cases "p = []")
  case False
  then show ?thesis
    by (simp add: NormalizePattern_def [of "NormalizePattern p"] NormalizePattern_eq_Nil
        Split_NormalizePattern normalize_segs_idem) (simp add: NormalizePattern_def)
qed (simp add: NormalizePattern_def)

lemma count_normalize:
  "count_list (normalize_segs segs) ''**'' = count_list segs ''*'' + count_list segs ''**''"
  by (induction segs) auto

lemma routes_normalize: "routes segs cs \<Longrightarrow> routes (normalize_segs segs) cs"
proof (induction rule: routes.induct)
  case (routes_one ps cs c)
  then show ?case using routes_many [of "[c]" "normalize_segs ps" cs] by simp
next
  case (routes_lit p ps cs)
  then show ?case
    using routes_many [of "[p]" "normalize_segs ps" cs] by (auto intro: routes.intros)
qed (auto intro: routes.intros)

section \<open>Properties\<close>

text \<open>C39: \<open>MatchRoutingPattern\<close> decides the routing specification: \<open>*\<close> stands for one segment,
  \<open>**\<close> for one or more, an empty channel is never routed, and a pattern with more than one
  \<open>**\<close> is reported as an error.\<close>

theorem routing_matches_spec:
  "MatchRoutingPattern p ch =
     (if ch = [] then Inr False
      else if 1 < count_list (Split p ''.'') ''**'' then Inl ErrMultipleDoubleWildcard
      else Inr (routes (Split p ''.'') (Split ch ''.'')))"
  using MatchRoutingPattern_error [of p ch ErrMultipleDoubleWildcard]
    MatchRoutingPattern_correct [of ch p]
  by (cases "ch = []") (auto simp: MatchRoutingPattern_def)

text \<open>\<open>NormalizePattern\<close> is idempotent, leaves no one-segment wildcard behind, and its result
  is rejected exactly when the original has more than one wildcard token of either kind.\<close>

theorem normalize_pattern_canonical:
  "NormalizePattern (NormalizePattern p) = NormalizePattern p
    \<and> ''*'' \<notin> set (Split (NormalizePattern p) ''.'')
    \<and> (MatchRoutingPattern (NormalizePattern p) ''probe'' = Inl ErrMultipleDoubleWildcard
        \<longleftrightarrow> 1 < count_list (Split p ''.'') ''*'' + count_list (Split p ''.'') ''**'')"
proof (cases "p = []")
  case True
  then show ?thesis
    by (simp add: NormalizePattern_def MatchRoutingPattern_error Split_char_None)
next
  case False
  then have s: "Split (NormalizePattern p) ''.'' = normalize_segs (Split p ''.'')"
    by (simp add: Split_NormalizePattern)
  have "''*'' \<notin> set (normalize_segs (Split p ''.''))"
    by (auto simp: normalize_segs_map)
  then show ?thesis
    by (simp add: s MatchRoutingPattern_error count_normalize NormalizePattern_idem)
qed

text \<open>Normalising a stored pattern only widens it: every channel the pattern as written
  routes is still routed by the normalised pattern, provided that one is accepted.\<close>

theorem normalize_pattern_widens:
  assumes "MatchRoutingPattern p ch = Inr True"
    and "count_list (Split p ''.'') ''*'' + count_list (Split p ''.'') ''**'' \<le> 1"
  shows "MatchRoutingPattern (NormalizePattern p) ch = Inr True"
proof -
  have ch: "ch \<noteq> []" using assms(1) by (auto simp: MatchRoutingPattern_def)
  have r: "routes (Split p ''.'') (Split ch ''.'')"
    using assms ch MatchRoutingPattern_correct [of ch p] by auto
  show ?thesis
  proof (cases "p = []")
    case True
    with assms(1) show ?thesis by (simp add: NormalizePattern_def)
  next
    case False
    with ch assms(2) r show ?thesis
      by (simp add: MatchRoutingPattern_correct Split_NormalizePattern count_normalize routes_normalize)
  qed
qed

theorem normalize_pattern_widens_witness:
  "MatchRoutingPattern (NormalizePattern ''trade.*'') ''trade.BTC'' = Inr True"
  by (rule normalize_pattern_widens)
    (simp_all add: MatchRoutingPattern_def Split.simps HasPrefix_def)

end
