(* ===== verification/ConfigStream.thy ===== *)
theory ConfigStream
  imports ChannelRules RoutingPatterns
begin

text \<open>
  The gateway's view of provisioning: the caches that
  \<open>shared/provapi/channel_rules_provider.go\<close> and \<open>shared/provapi/api_key_registry.go\<close> keep up
  to date from the gRPC streams. A response is the value its generated getters return;
  the mutexes make each update one step. Reconnection and metrics are left out.
\<close>

section \<open>Stream responses\<close>

record routing_rule =
  RulePattern :: string
  IngressTopic :: string
  EgressTopics :: "string list"
  Priority :: int

record proto_channel_rules =
  PublicChannels :: "string list"
  ProtoGroupMappings :: group_mapping
  DefaultChannels :: "string list"
  PublishPublicChannels :: "string list"
  ProtoPublishGroupMappings :: group_mapping
  PublishDefaultChannels :: "string list"

record tenant_config =
  TenantSlug :: string
  TenantUuid :: string
  PreviousSlug :: string
  ProtoChannelRules :: "proto_channel_rules option"
  RoutingRules :: "routing_rule list"

record tenant_config_response =
  IsSnapshot :: bool
  RemovedTenantSlugs :: "string list"
  Tenants :: "tenant_config list"

section \<open>The channel rules provider\<close>

record rules_provider =
  channelRules :: "string \<rightharpoonup> channel_rules"
  tenantUUIDBySlug :: "string \<rightharpoonup> string"
  slugByUUID :: "string \<rightharpoonup> string"
  routingSnapshots :: "string \<rightharpoonup> routing_rule list"
  snapshotReceived :: bool
  tenantUUIDsPresent :: bool
  streamConnected :: bool

definition NewStreamChannelRulesProvider :: rules_provider where
  "NewStreamChannelRulesProvider =
     \<lparr>channelRules = Map.empty, tenantUUIDBySlug = Map.empty, slugByUUID = Map.empty,
      routingSnapshots = Map.empty, snapshotReceived = False, tenantUUIDsPresent = False,
      streamConnected = False\<rparr>"

datatype lookup_error = ErrChannelRulesNotFound | ErrTenantNotResolvable

definition GetChannelRules :: "rules_provider \<Rightarrow> string \<Rightarrow> lookup_error + channel_rules" where
  "GetChannelRules r tenantID =
     (case channelRules r tenantID of None \<Rightarrow> Inl ErrChannelRulesNotFound | Some rules \<Rightarrow> Inr rules)"

definition GetRoutingSnapshot :: "rules_provider \<Rightarrow> string \<Rightarrow> routing_rule list option" where
  "GetRoutingSnapshot r tenantID = routingSnapshots r tenantID"

definition ResolveTenantUUID :: "rules_provider \<Rightarrow> string \<Rightarrow> lookup_error + string" where
  "ResolveTenantUUID r slug =
     (case tenantUUIDBySlug r slug of
        None \<Rightarrow> Inl ErrTenantNotResolvable
      | Some uuid \<Rightarrow> if uuid = [] then Inl ErrTenantNotResolvable else Inr uuid)"

definition ResolveTenantSlug :: "rules_provider \<Rightarrow> string \<Rightarrow> lookup_error + string" where
  "ResolveTenantSlug r uuid =
     (case slugByUUID r uuid of
        None \<Rightarrow> Inl ErrTenantNotResolvable
      | Some slug \<Rightarrow> if slug = [] then Inl ErrTenantNotResolvable else Inr slug)"

definition protoToChannelRules :: "proto_channel_rules \<Rightarrow> channel_rules" where
  "protoToChannelRules cr =
     \<lparr>Public = PublicChannels cr,
      GroupMappings = (if length (ProtoGroupMappings cr) > 0 then ProtoGroupMappings cr else []),
      DefaultPatterns = DefaultChannels cr,
      PublishPublic = PublishPublicChannels cr,
      PublishGroupMappings =
        (if length (ProtoPublishGroupMappings cr) > 0 then ProtoPublishGroupMappings cr else []),
      PublishDefault = PublishDefaultChannels cr\<rparr>"

subsection \<open>The update\<close>

text \<open>The removal loop under the mutex.\<close>

fun remove_slugs :: "string list \<Rightarrow> rules_provider \<Rightarrow> rules_provider" where
  "remove_slugs [] r = r"
| "remove_slugs (slug # slugs) r =
     (let r = r\<lparr>channelRules := (channelRules r)(slug := None)\<rparr>;
          r = (case tenantUUIDBySlug r slug of
                 Some uuid \<Rightarrow> r\<lparr>slugByUUID := (slugByUUID r)(uuid := None)\<rparr>
               | None \<Rightarrow> r)
      in remove_slugs slugs (r\<lparr>tenantUUIDBySlug := (tenantUUIDBySlug r)(slug := None)\<rparr>))"

text \<open>The insertion loop; the flag is \<open>sawUUID\<close>.\<close>

fun add_tenants :: "tenant_config list \<Rightarrow> rules_provider \<times> bool \<Rightarrow> rules_provider \<times> bool" where
  "add_tenants [] acc = acc"
| "add_tenants (tc # tcs) (r, sawUUID) =
     (let r = (case ProtoChannelRules tc of
                 None \<Rightarrow> r
               | Some cr \<Rightarrow> r\<lparr>channelRules := (channelRules r)(TenantSlug tc \<mapsto> protoToChannelRules cr)\<rparr>);
          uuid = TenantUuid tc
      in if uuid = [] then add_tenants tcs (r, sawUUID)
         else
           let r = r\<lparr>tenantUUIDBySlug := (tenantUUIDBySlug r)(TenantSlug tc \<mapsto> uuid),
                     slugByUUID := (slugByUUID r)(uuid \<mapsto> TenantSlug tc)\<rparr>;
               r = (if PreviousSlug tc = [] then r
                    else r\<lparr>tenantUUIDBySlug := (tenantUUIDBySlug r)(PreviousSlug tc \<mapsto> uuid)\<rparr>)
           in add_tenants tcs (r, True))"

text \<open>The routing rules that survive: normalised, matchable and with an ingress topic.\<close>

fun convert_rules :: "routing_rule list \<Rightarrow> routing_rule list" where
  "convert_rules [] = []"
| "convert_rules (pr # prs) =
     (let pattern = NormalizePattern (RulePattern pr)
      in if \<not> is_ok (MatchRoutingPattern pattern ''x'') then convert_rules prs
         else if IngressTopic pr = [] then convert_rules prs
         else pr\<lparr>RulePattern := pattern\<rparr> # convert_rules prs)"

fun set_snapshots :: "tenant_config list \<Rightarrow> (string \<rightharpoonup> routing_rule list) \<Rightarrow> string \<rightharpoonup> routing_rule list" where
  "set_snapshots [] m = m"
| "set_snapshots (tc # tcs) m = set_snapshots tcs (m(TenantSlug tc \<mapsto> convert_rules (RoutingRules tc)))"

fun delete_keys :: "string list \<Rightarrow> (string \<rightharpoonup> 'v) \<Rightarrow> string \<rightharpoonup> 'v" where
  "delete_keys [] m = m"
| "delete_keys (k # ks) m = delete_keys ks (m(k := None))"

definition updateTenantConfigs :: "rules_provider \<Rightarrow> tenant_config_response \<Rightarrow> rules_provider" where
  "updateTenantConfigs r resp =
     (let isSnapshot = IsSnapshot resp; removedIDs = RemovedTenantSlugs resp; tenants = Tenants resp;
          r = (if isSnapshot
               then r\<lparr>channelRules := Map.empty, tenantUUIDBySlug := Map.empty, slugByUUID := Map.empty\<rparr>
               else r);
          (r, sawUUID) = add_tenants tenants (remove_slugs removedIDs r, False);
          r = (if sawUUID then r\<lparr>tenantUUIDsPresent := True\<rparr>
               else if isSnapshot \<and> length tenants = 0 then r\<lparr>tenantUUIDsPresent := True\<rparr>
               else if isSnapshot then r\<lparr>tenantUUIDsPresent := False\<rparr>
               else r);
          next = (if isSnapshot then Map.empty else routingSnapshots r);
          r = r\<lparr>routingSnapshots := set_snapshots tenants (delete_keys removedIDs next)\<rparr>
      in if isSnapshot then r\<lparr>snapshotReceived := True\<rparr> else r)"

section \<open>The API key registry\<close>

record api_key_info =
  KeyID :: string
  KeyTenantID :: string
  KeyName :: string
  IsActive :: bool

record api_keys_response =
  KeysIsSnapshot :: bool
  RemovedKeyIds :: "string list"
  ApiKeys :: "api_key_info list"

fun add_keys :: "api_key_info list \<Rightarrow> (string \<rightharpoonup> api_key_info) \<Rightarrow> string \<rightharpoonup> api_key_info" where
  "add_keys [] m = m"
| "add_keys (ki # kis) m = add_keys kis (m(KeyID ki \<mapsto> ki))"

definition updateKeys :: "(string \<rightharpoonup> api_key_info) \<Rightarrow> api_keys_response \<Rightarrow> string \<rightharpoonup> api_key_info" where
  "updateKeys keysByID resp =
     add_keys (ApiKeys resp)
       (delete_keys (RemovedKeyIds resp) (if KeysIsSnapshot resp then Map.empty else keysByID))"

definition Lookup :: "(string \<rightharpoonup> api_key_info) \<Rightarrow> string \<Rightarrow> api_key_info option" where
  "Lookup keysByID apiKey =
     (case keysByID apiKey of None \<Rightarrow> None | Some info \<Rightarrow> if IsActive info then Some info else None)"

section \<open>Lemmas\<close>

lemma delete_keys_apply [simp]: "delete_keys ks m k = (if k \<in> set ks then None else m k)"
  by (induction ks arbitrary: m) auto

lemma remove_slugs_rules [simp]:
  "channelRules (remove_slugs ss r) s = (if s \<in> set ss then None else channelRules r s)"
  by (induction ss r rule: remove_slugs.induct) (auto simp: Let_def split: option.splits)

lemma remove_slugs_uuid [simp]:
  "tenantUUIDBySlug (remove_slugs ss r) s = (if s \<in> set ss then None else tenantUUIDBySlug r s)"
  by (induction ss r rule: remove_slugs.induct) (auto simp: Let_def split: option.splits)

lemma remove_slugs_snapshots [simp]: "routingSnapshots (remove_slugs ss r) = routingSnapshots r"
  by (induction ss r rule: remove_slugs.induct) (auto simp: Let_def split: option.splits)

lemma add_tenants_snapshots [simp]: "routingSnapshots (fst (add_tenants tcs (r, b))) = routingSnapshots r"
  by (induction tcs arbitrary: r b) (auto simp: Let_def split: option.splits)

text \<open>The rules the last entry for a slug carries.\<close>

definition last_rules :: "string \<Rightarrow> tenant_config list \<Rightarrow> proto_channel_rules option" where
  "last_rules s tcs =
     (case filter (\<lambda>tc. TenantSlug tc = s \<and> ProtoChannelRules tc \<noteq> None) (rev tcs) of
        [] \<Rightarrow> None | tc # _ \<Rightarrow> ProtoChannelRules tc)"

lemma last_rules_Nil [simp]: "last_rules s [] = None"
  by (simp add: last_rules_def)

lemma last_rules_Cons:
  "last_rules s (tc # tcs) =
     (case last_rules s tcs of
        Some cr \<Rightarrow> Some cr
      | None \<Rightarrow> if TenantSlug tc = s then ProtoChannelRules tc else None)"
proof (cases "filter (\<lambda>tc. TenantSlug tc = s \<and> ProtoChannelRules tc \<noteq> None) (rev tcs)")
  case Nil
  then show ?thesis by (auto simp: last_rules_def)
next
  case (Cons t ts)
  then have "ProtoChannelRules t \<noteq> None"
    by (metis (mono_tags, lifting) filter_eq_ConsD)
  with Cons show ?thesis by (auto simp: last_rules_def)
qed

lemma add_tenants_rules:
  "channelRules (fst (add_tenants tcs (r, b))) s =
     (case last_rules s tcs of Some cr \<Rightarrow> Some (protoToChannelRules cr) | None \<Rightarrow> channelRules r s)"
proof (induction tcs arbitrary: r b)
  case Nil
  then show ?case by (simp add: last_rules_def)
next
  case (Cons tc tcs)
  then show ?case by (auto simp: Let_def last_rules_Cons split: option.splits)
qed

lemma updateTenantConfigs_channelRules:
  "channelRules (updateTenantConfigs r resp) s =
     (case last_rules s (Tenants resp) of
        Some cr \<Rightarrow> Some (protoToChannelRules cr)
      | None \<Rightarrow> if IsSnapshot resp \<or> s \<in> set (RemovedTenantSlugs resp) then None else channelRules r s)"
  by (auto simp: updateTenantConfigs_def Let_def add_tenants_rules split: prod.splits option.splits
      dest!: arg_cong [where f = fst])

lemma updateTenantConfigs_snapshots:
  "routingSnapshots (updateTenantConfigs r resp) =
     set_snapshots (Tenants resp)
       (delete_keys (RemovedTenantSlugs resp) (if IsSnapshot resp then Map.empty else routingSnapshots r))"
  by (auto simp: updateTenantConfigs_def Let_def split: prod.splits dest!: arg_cong [where f = fst])

text \<open>What every cached routing rule satisfies: it can route and its pattern always matches or not.\<close>

definition routable :: "routing_rule \<Rightarrow> bool" where
  "routable ru \<longleftrightarrow> IngressTopic ru \<noteq> [] \<and> NormalizePattern (RulePattern ru) = RulePattern ru
     \<and> count_list (Split (RulePattern ru) ''.'') ''**'' \<le> 1"

lemma convert_rules_routable: "list_all routable (convert_rules prs)"
  by (induction prs)
     (auto simp: Let_def routable_def MatchRoutingPattern_ok NormalizePattern_idem)

definition snapshots_routable :: "rules_provider \<Rightarrow> bool" where
  "snapshots_routable r \<longleftrightarrow> (\<forall>t rules. routingSnapshots r t = Some rules \<longrightarrow> list_all routable rules)"

lemma set_snapshots_range:
  "set_snapshots tcs m t = Some rules \<Longrightarrow> m t = Some rules \<or> (\<exists>prs. rules = convert_rules prs)"
  by (induction tcs arbitrary: m) (force split: if_splits)+

lemma updateTenantConfigs_routable [inv_intros]:
  "snapshots_routable r \<Longrightarrow> snapshots_routable (updateTenantConfigs r resp)"
  unfolding snapshots_routable_def updateTenantConfigs_snapshots
  by (auto dest!: set_snapshots_range simp: convert_rules_routable split: if_splits)

lemma stream_routable:
  "snapshots_routable r \<Longrightarrow> snapshots_routable (foldl updateTenantConfigs r resps)"
  by (induction resps arbitrary: r) (auto intro: inv_intros)

subsection \<open>Tenant resolution\<close>

lemma add_tenants_slug_other:
  "u \<notin> set (map TenantUuid tcs) \<Longrightarrow> slugByUUID (fst (add_tenants tcs (r, b))) u = slugByUUID r u"
  by (induction tcs arbitrary: r b) (auto simp: Let_def split: option.splits)

lemma add_tenants_uuid_other:
  "s \<notin> set (map TenantSlug tcs) \<Longrightarrow> s \<notin> set (map PreviousSlug tcs) \<Longrightarrow>
     tenantUUIDBySlug (fst (add_tenants tcs (r, b))) s = tenantUUIDBySlug r s"
  by (induction tcs arbitrary: r b) (auto simp: Let_def split: option.splits)

text \<open>A snapshot that names every tenant once and does not reuse a held slug.\<close>

definition tenants_wf :: "tenant_config list \<Rightarrow> bool" where
  "tenants_wf tcs \<longleftrightarrow> distinct (map TenantSlug tcs) \<and> distinct (map TenantUuid tcs)
     \<and> [] \<notin> set (map TenantSlug tcs) \<and> [] \<notin> set (map TenantUuid tcs)
     \<and> set (map PreviousSlug tcs) \<inter> set (map TenantSlug tcs) = {}"

lemma add_tenants_slug:
  "distinct (map TenantUuid tcs) \<Longrightarrow> [] \<notin> set (map TenantUuid tcs) \<Longrightarrow> tc \<in> set tcs \<Longrightarrow>
     slugByUUID (fst (add_tenants tcs (r, b))) (TenantUuid tc) = Some (TenantSlug tc)"
  by (induction tcs arbitrary: r b) (auto simp: Let_def add_tenants_slug_other split: option.splits)

lemma add_tenants_uuid:
  "distinct (map TenantSlug tcs) \<Longrightarrow> [] \<notin> set (map TenantUuid tcs) \<Longrightarrow>
     set (map PreviousSlug tcs) \<inter> set (map TenantSlug tcs) = {} \<Longrightarrow> tc \<in> set tcs \<Longrightarrow>
     tenantUUIDBySlug (fst (add_tenants tcs (r, b))) (TenantSlug tc) = Some (TenantUuid tc)"
proof (induction tcs arbitrary: r b)
  case Nil
  then show ?case by simp
next
  case (Cons t ts)
  have d: "set (map PreviousSlug ts) \<inter> set (map TenantSlug ts) = {}" using Cons.prems by auto
  show ?case
  proof (cases "tc \<in> set ts")
    case True
    then show ?thesis using Cons d by (auto simp: Let_def split: option.splits)
  next
    case False
    then have t: "tc = t" using Cons.prems by simp
    have "TenantSlug t \<notin> set (map TenantSlug ts)" "TenantSlug t \<notin> set (map PreviousSlug (t # ts))"
      using Cons.prems by auto
    then show ?thesis using Cons.prems t
      by (auto simp: Let_def add_tenants_uuid_other split: option.splits)
  qed
qed

lemma update_slug:
  "slugByUUID (updateTenantConfigs r resp) = slugByUUID (fst (add_tenants (Tenants resp)
     (remove_slugs (RemovedTenantSlugs resp)
        (if IsSnapshot resp then r\<lparr>channelRules := Map.empty, tenantUUIDBySlug := Map.empty, slugByUUID := Map.empty\<rparr>
         else r), False)))"
  "tenantUUIDBySlug (updateTenantConfigs r resp) = tenantUUIDBySlug (fst (add_tenants (Tenants resp)
     (remove_slugs (RemovedTenantSlugs resp)
        (if IsSnapshot resp then r\<lparr>channelRules := Map.empty, tenantUUIDBySlug := Map.empty, slugByUUID := Map.empty\<rparr>
         else r), False)))"
  by (simp_all add: updateTenantConfigs_def Let_def split: prod.splits)

subsection \<open>API keys\<close>

lemma add_keys_apply:
  "add_keys kis m k = (case find (\<lambda>ki. KeyID ki = k) (rev kis) of Some ki \<Rightarrow> Some ki | None \<Rightarrow> m k)"
proof (induction kis arbitrary: m)
  case Nil
  then show ?case by simp
next
  case (Cons ki kis)
  have "find P (xs @ [y]) = (case find P xs of Some x \<Rightarrow> Some x | None \<Rightarrow> if P y then Some y else None)"
    for P :: "api_key_info \<Rightarrow> bool" and xs y by (induction xs) auto
  then show ?case by (simp add: Cons.IH split: option.splits)
qed

section \<open>Properties\<close>

text \<open>The rules the gateway uses for a tenant after an update are those of the tenant's last
  entry in the response; without one, a snapshot or a removal makes them unknown
  (\<open>ErrChannelRulesNotFound\<close>) and a delta keeps what was cached.\<close>

theorem config_update_exact:
  "GetChannelRules (updateTenantConfigs r resp) t =
     (case last_rules t (Tenants resp) of
        Some cr \<Rightarrow> Inr (protoToChannelRules cr)
      | None \<Rightarrow>
          if IsSnapshot resp \<or> t \<in> set (RemovedTenantSlugs resp) then Inl ErrChannelRulesNotFound
          else GetChannelRules r t)"
  by (simp add: GetChannelRules_def updateTenantConfigs_channelRules split: option.splits)

text \<open>Whatever the stream delivers, every routing rule the provider hands out has an ingress
  topic and a normalised pattern, and matching it against any channel succeeds without
  a pattern error.\<close>

theorem routing_rules_always_routable:
  assumes "GetRoutingSnapshot (foldl updateTenantConfigs NewStreamChannelRulesProvider resps) t = Some rules"
    and "ru \<in> set rules"
  shows "IngressTopic ru \<noteq> [] \<and> NormalizePattern (RulePattern ru) = RulePattern ru
     \<and> (\<exists>b. MatchRoutingPattern (RulePattern ru) ch = Inr b)"
proof -
  have "snapshots_routable NewStreamChannelRulesProvider"
    by (simp add: snapshots_routable_def NewStreamChannelRulesProvider_def)
  from stream_routable [OF this, of resps] have "routable ru"
    using assms by (auto simp: snapshots_routable_def GetRoutingSnapshot_def list_all_iff)
  then show ?thesis
    by (cases "MatchRoutingPattern (RulePattern ru) ch") (auto simp: routable_def MatchRoutingPattern_error)
qed

lemma convert_orders:
  "convert_rules [\<lparr>RulePattern = ''orders.*'', IngressTopic = ''t'', EgressTopics = [], Priority = 1\<rparr>] =
     [\<lparr>RulePattern = ''orders.**'', IngressTopic = ''t'', EgressTopics = [], Priority = 1\<rparr>]"
proof -
  have "Split ''orders.*'' ''.'' = [''orders'', ''*'']" "Split ''orders.**'' ''.'' = [''orders'', ''**'']"
    by (simp_all add: Split.simps HasPrefix_def)
  then show ?thesis by (simp add: Let_def MatchRoutingPattern_ok NormalizePattern_def)
qed

theorem routing_rules_always_routable_witness:
  "IngressTopic \<lparr>RulePattern = ''orders.**'', IngressTopic = ''t'', EgressTopics = [], Priority = 1\<rparr> \<noteq> []
     \<and> NormalizePattern (RulePattern \<lparr>RulePattern = ''orders.**'', IngressTopic = ''t'', EgressTopics = [], Priority = 1\<rparr>)
         = RulePattern \<lparr>RulePattern = ''orders.**'', IngressTopic = ''t'', EgressTopics = [], Priority = 1\<rparr>
     \<and> (\<exists>b. MatchRoutingPattern
           (RulePattern \<lparr>RulePattern = ''orders.**'', IngressTopic = ''t'', EgressTopics = [], Priority = 1\<rparr>)
           ''orders.eu'' = Inr b)"
proof (rule routing_rules_always_routable)
  show "GetRoutingSnapshot (foldl updateTenantConfigs NewStreamChannelRulesProvider
      [\<lparr>IsSnapshot = True, RemovedTenantSlugs = [], Tenants =
         [\<lparr>TenantSlug = ''acme'', TenantUuid = ''u1'', PreviousSlug = [], ProtoChannelRules = None,
           RoutingRules = [\<lparr>RulePattern = ''orders.*'', IngressTopic = ''t'', EgressTopics = [], Priority = 1\<rparr>]\<rparr>]\<rparr>])
      ''acme'' = Some [\<lparr>RulePattern = ''orders.**'', IngressTopic = ''t'', EgressTopics = [], Priority = 1\<rparr>]"
    unfolding foldl_Cons foldl_Nil GetRoutingSnapshot_def updateTenantConfigs_snapshots
    by (simp add: convert_orders del: convert_rules.simps)
qed simp

text \<open>After a snapshot that lists every tenant once, the tenant binding of JWTs and that of API
  keys agree: a tenant's UUID resolves to its current slug and that slug back to the UUID.\<close>

theorem tenant_binding_roundtrip:
  assumes "IsSnapshot resp" and "tenants_wf (Tenants resp)" and "tc \<in> set (Tenants resp)"
  shows "ResolveTenantSlug (updateTenantConfigs r resp) (TenantUuid tc) = Inr (TenantSlug tc)
     \<and> ResolveTenantUUID (updateTenantConfigs r resp) (TenantSlug tc) = Inr (TenantUuid tc)"
proof -
  have "TenantSlug tc \<noteq> []" "TenantUuid tc \<noteq> []"
    using assms unfolding tenants_wf_def set_map by (metis image_eqI)+
  then show ?thesis using assms
    by (simp add: ResolveTenantSlug_def ResolveTenantUUID_def update_slug add_tenants_slug
        add_tenants_uuid tenants_wf_def)
qed

theorem tenant_binding_roundtrip_witness:
  "ResolveTenantSlug (updateTenantConfigs NewStreamChannelRulesProvider
      \<lparr>IsSnapshot = True, RemovedTenantSlugs = [], Tenants =
        [\<lparr>TenantSlug = ''acme'', TenantUuid = ''u1'', PreviousSlug = ''old'', ProtoChannelRules = None, RoutingRules = []\<rparr>]\<rparr>)
      (TenantUuid \<lparr>TenantSlug = ''acme'', TenantUuid = ''u1'', PreviousSlug = ''old'', ProtoChannelRules = None, RoutingRules = []\<rparr>)
    = Inr (TenantSlug \<lparr>TenantSlug = ''acme'', TenantUuid = ''u1'', PreviousSlug = ''old'', ProtoChannelRules = None, RoutingRules = []\<rparr>)
   \<and> ResolveTenantUUID (updateTenantConfigs NewStreamChannelRulesProvider
      \<lparr>IsSnapshot = True, RemovedTenantSlugs = [], Tenants =
        [\<lparr>TenantSlug = ''acme'', TenantUuid = ''u1'', PreviousSlug = ''old'', ProtoChannelRules = None, RoutingRules = []\<rparr>]\<rparr>)
      (TenantSlug \<lparr>TenantSlug = ''acme'', TenantUuid = ''u1'', PreviousSlug = ''old'', ProtoChannelRules = None, RoutingRules = []\<rparr>)
    = Inr (TenantUuid \<lparr>TenantSlug = ''acme'', TenantUuid = ''u1'', PreviousSlug = ''old'', ProtoChannelRules = None, RoutingRules = []\<rparr>)"
  by (rule tenant_binding_roundtrip) (simp_all add: tenants_wf_def)

text \<open>API keys: after an update a key is accepted exactly when its last delivered entry is
  active; without an entry, a snapshot or a removal rejects it and a delta keeps the
  cached answer.\<close>

theorem api_key_update_exact:
  "Lookup (updateKeys m resp) k =
     (case find (\<lambda>ki. KeyID ki = k) (rev (ApiKeys resp)) of
        Some ki \<Rightarrow> if IsActive ki then Some ki else None
      | None \<Rightarrow> if KeysIsSnapshot resp \<or> k \<in> set (RemovedKeyIds resp) then None else Lookup m k)"
  by (auto simp: Lookup_def updateKeys_def add_keys_apply split: option.splits)

end
