(* ===== verification/GatewayPermissions.thy ===== *)
theory GatewayPermissions
  imports Placeholders ConfigStream
begin

text \<open>
  Channel authorization in the gateway: \<open>gateway/permissions_tenant.go\<close> and
  \<open>gateway/channel_filter.go\<close>. The Go interface \<open>ChannelRulesProvider\<close> is the record
  \<open>rules_source\<close>; its two implementations, the gRPC stream cache and the no-op provider of
  \<open>gateway/channel_rules_noop.go\<close>, are values of it. The per-channel decision metrics are
  returned; log lines are left out.
\<close>

section \<open>The provider interface\<close>

record rules_source =
  SrcGetChannelRules :: "string \<Rightarrow> lookup_error + channel_rules"
  SrcSnapshotReceived :: bool
  SrcConnected :: bool

definition stream_source :: "rules_provider \<Rightarrow> rules_source" where
  "stream_source r = \<lparr>SrcGetChannelRules = GetChannelRules r,
     SrcSnapshotReceived = snapshotReceived r, SrcConnected = streamConnected r\<rparr>"

definition NoopChannelRulesProvider :: rules_source where
  "NoopChannelRulesProvider = \<lparr>SrcGetChannelRules = (\<lambda>_. Inl ErrChannelRulesNotFound),
     SrcSnapshotReceived = True, SrcConnected = True\<rparr>"

section \<open>The permission checker\<close>

datatype lookup_metric = LookupOK | LookupSourceFallback | LookupSourceErrorFallback

definition getRulesForTenant :: "rules_source \<Rightarrow> string \<Rightarrow> channel_rules \<times> lookup_metric" where
  "getRulesForTenant src tenantID =
     (case SrcGetChannelRules src tenantID of
        Inr rules \<Rightarrow> (rules, LookupOK)
      | Inl err \<Rightarrow>
          (let rulesUnknown = \<not> SrcSnapshotReceived src \<or> \<not> SrcConnected src
           in (NewChannelRules,
               if err = ErrChannelRulesNotFound \<and> \<not> rulesUnknown then LookupSourceFallback
               else LookupSourceErrorFallback)))"

fun substitutePlaceholders :: "string list \<Rightarrow> claims option \<Rightarrow> string list" where
  "substitutePlaceholders [] claims = []"
| "substitutePlaceholders (p # ps) claims =
     (let p = (case claims of None \<Rightarrow> p | Some c \<Rightarrow> Resolve NewPlaceholderResolver p claims)
      in if HasPlaceholders p then substitutePlaceholders ps claims
         else p # substitutePlaceholders ps claims)"

definition subscribePatterns :: "channel_rules \<Rightarrow> claims option \<Rightarrow> string list" where
  "subscribePatterns rules claims =
     (case claims of
        None \<Rightarrow> substitutePlaceholders (Public rules) None
      | Some c \<Rightarrow> substitutePlaceholders (ComputeAllowedPatterns rules (Groups c)) claims)"

definition CanSubscribe :: "rules_source \<Rightarrow> string \<Rightarrow> claims option \<Rightarrow> string \<Rightarrow> bool" where
  "CanSubscribe src tenantID claims channel =
     MatchAnyWildcard (subscribePatterns (fst (getRulesForTenant src tenantID)) claims) channel"

fun filter_loop :: "string list \<Rightarrow> string list \<Rightarrow> string list" where
  "filter_loop patterns [] = []"
| "filter_loop patterns (ch # chs) =
     (if MatchAnyWildcard patterns ch then ch # filter_loop patterns chs else filter_loop patterns chs)"

definition FilterChannels :: "rules_source \<Rightarrow> string \<Rightarrow> claims option \<Rightarrow> string list \<Rightarrow> string list" where
  "FilterChannels src tenantID claims channels =
     filter_loop (subscribePatterns (fst (getRulesForTenant src tenantID)) claims) channels"

definition CanPublish :: "rules_source \<Rightarrow> string \<Rightarrow> claims option \<Rightarrow> string \<Rightarrow> bool" where
  "CanPublish src tenantID claims channel =
     (case claims of
        None \<Rightarrow> False
      | Some c \<Rightarrow>
          MatchAnyWildcard
            (substitutePlaceholders
               (ComputeAllowedPublishPatterns (fst (getRulesForTenant src tenantID)) (Groups c)) claims)
            channel)"

section \<open>The gateway's filters\<close>

datatype denial_reason = WrongTenant | InvalidFormat | Unauthorized

datatype channel_check =
    ChannelCheckAllowed string
  | ChannelCheckDenied string denial_reason

text \<open>Steps 1 and 2: the tenant prefix and the format.\<close>

fun valid_channels :: "string \<Rightarrow> string list \<Rightarrow> string list \<times> channel_check list" where
  "valid_channels tenantID [] = ([], [])"
| "valid_channels tenantID (ch # chs) =
     (let (valid, checks) = valid_channels tenantID chs
      in if \<not> ValidateChannelTenant ch tenantID then (valid, ChannelCheckDenied ch WrongTenant # checks)
         else if Count ch (CHR ''.'') + 1 < MinInternalChannelParts
         then (valid, ChannelCheckDenied ch InvalidFormat # checks)
         else (ch # valid, checks))"

definition filterSubscribeChannels ::
  "rules_source option \<Rightarrow> string list \<Rightarrow> string \<Rightarrow> claims option \<Rightarrow> string list \<times> channel_check list" where
  "filterSubscribeChannels checker channels tenantID claims =
     (let (valid, checks) = valid_channels tenantID channels;
          tenantPrefix = tenantID @ ''.'';
          stripped = map (\<lambda>ch. TrimPrefix ch tenantPrefix) valid
      in case checker of
           None \<Rightarrow> ([], checks)
         | Some src \<Rightarrow>
             (let allowed = map (\<lambda>s. tenantPrefix @ s) (FilterChannels src tenantID claims stripped)
              in (allowed, checks @
                    map (\<lambda>ch. if \<not> List.member allowed ch then ChannelCheckDenied ch Unauthorized
                              else ChannelCheckAllowed ch) valid)))"

definition checkPublishAllowed :: "rules_source option \<Rightarrow> string \<Rightarrow> claims option \<Rightarrow> string \<Rightarrow> bool" where
  "checkPublishAllowed checker tenantID claims channel =
     (case checker of
        None \<Rightarrow> False
      | Some src \<Rightarrow> CanPublish src tenantID claims (TrimPrefix channel (tenantID @ ''.'')))"

section \<open>Lemmas\<close>

lemma substitutePlaceholders_resolved:
  "p \<in> set (substitutePlaceholders ps claims) \<Longrightarrow> \<not> HasPlaceholders p"
  by (induction ps) (auto simp: Let_def split: if_splits)

lemma substitutePlaceholders_None: "substitutePlaceholders ps None = filter (\<lambda>p. \<not> HasPlaceholders p) ps"
  by (induction ps) (auto simp: Let_def)

lemma substitutePlaceholders_Some:
  "substitutePlaceholders ps (Some c) =
     filter (\<lambda>p. \<not> HasPlaceholders p) (map (\<lambda>p. Resolve NewPlaceholderResolver p (Some c)) ps)"
  by (induction ps) (auto simp: Let_def)

lemma filter_loop_eq: "filter_loop ps chs = filter (MatchAnyWildcard ps) chs"
  by (induction chs) auto

lemma valid_channels_eq:
  "fst (valid_channels t chs) = filter (\<lambda>ch. ValidateChannelTenant ch t \<and> MinInternalChannelParts \<le> Count ch (CHR ''.'') + 1) chs"
  by (induction chs) (auto simp: Let_def not_less split: prod.splits)

text \<open>The admission test of one channel.\<close>

definition subscribe_admits :: "rules_source \<Rightarrow> string \<Rightarrow> claims option \<Rightarrow> string \<Rightarrow> bool" where
  "subscribe_admits src t claims ch \<longleftrightarrow>
     ValidateChannelTenant ch t \<and> MinInternalChannelParts \<le> Count ch (CHR ''.'') + 1
     \<and> CanSubscribe src t claims (TrimPrefix ch (t @ ''.''))"

lemma filterSubscribe_eq:
  "fst (filterSubscribeChannels (Some src) chs t claims) = filter (subscribe_admits src t claims) chs"
proof -
  let ?v = "filter (\<lambda>ch. ValidateChannelTenant ch t \<and> MinInternalChannelParts \<le> Count ch (CHR ''.'') + 1) chs"
  let ?P = "\<lambda>s. CanSubscribe src t claims s"
  define px where "px = t @ ''.''"
  have "map (\<lambda>s. px @ s) (filter ?P (map (\<lambda>ch. TrimPrefix ch px) ?v))
      = map (\<lambda>ch. px @ TrimPrefix ch px) (filter (?P \<circ> (\<lambda>ch. TrimPrefix ch px)) ?v)"
    by (simp add: filter_map)
  also have "\<dots> = filter (?P \<circ> (\<lambda>ch. TrimPrefix ch px)) ?v"
    by (rule map_idI) (use TrimPrefix_tenant in \<open>auto simp: px_def\<close>)
  also have "\<dots> = filter (subscribe_admits src t claims) chs"
    by (auto simp: subscribe_admits_def px_def intro: filter_cong)
  finally show ?thesis
    unfolding filterSubscribeChannels_def Let_def px_def [symmetric]
    by (simp add: FilterChannels_def filter_loop_eq CanSubscribe_def valid_channels_eq case_prod_unfold)
qed

lemma subscribe_admits_iff:
  "subscribe_admits src t claims ch \<longleftrightarrow> (\<exists>name p. t \<noteq> [] \<and> ch = t @ ''.'' @ name \<and>
     p \<in> set (subscribePatterns (fst (getRulesForTenant src t)) claims) \<and> MatchWildcard p name)"
proof -
  have "MinInternalChannelParts \<le> Count ch (CHR ''.'') + 1 \<and> TrimPrefix ch (t @ ''.'') = name" if "ch = t @ ''.'' @ name" for name
    using that TrimPrefix_tenant [of ch t] by (cases "t = []") (auto simp: MinInternalChannelParts_def Count_def TrimPrefix_def HasPrefix_def ValidateChannelTenant_def)
  then show ?thesis by (auto simp: subscribe_admits_def ValidateChannelTenant_iff CanSubscribe_def MatchAnyWildcard_iff)
qed

lemma replace_principal:
  assumes "CHR ''{'' \<notin> set pre"
  shows "replace_placeholders f (pre @ ''{principal}'') = pre @ f ''principal''"
proof -
  have "placeholder_at ''principal}'' = Some (''principal'', [])"
    by (simp add: go_defs)
  with assms show ?thesis by (induction pre) auto
qed

lemma resolve_principal: "Subject c \<noteq> [] \<Longrightarrow> resolve_name NewPlaceholderResolver c ''principal'' = Subject c"
  by (simp add: go_defs)

subsection \<open>What the checker may rely on\<close>

text \<open>
  The contract of a rules provider: the only error it reports is that the tenant has no
  rules. Under it, a tenant whose rules cannot be found is denied everything.
\<close>

locale rules_contract =
  fixes src :: rules_source
  assumes only_not_found: "SrcGetChannelRules src t = Inl e \<Longrightarrow> e = ErrChannelRulesNotFound"
begin

lemma unknown_denies_subscribe: "SrcGetChannelRules src t = Inl e \<Longrightarrow> \<not> CanSubscribe src t claims ch"
  by (auto simp: CanSubscribe_def getRulesForTenant_def subscribePatterns_def NewChannelRules_def
      ComputeAllowedPatterns_def deduplicate_def collect_empty substitutePlaceholders_None
      split: option.splits prod.splits)

lemma unknown_denies_publish: "SrcGetChannelRules src t = Inl e \<Longrightarrow> \<not> CanPublish src t claims ch"
  by (auto simp: CanPublish_def getRulesForTenant_def NewChannelRules_def
      ComputeAllowedPublishPatterns_def deduplicate_def collect_empty
      split: option.splits prod.splits)

lemma degraded_iff:
  "SrcGetChannelRules src t = Inl e \<Longrightarrow>
     snd (getRulesForTenant src t) = LookupSourceErrorFallback \<longleftrightarrow> \<not> (SrcSnapshotReceived src \<and> SrcConnected src)"
  using only_not_found by (auto simp: getRulesForTenant_def Let_def)

end

interpretation stream_rules: rules_contract "stream_source r" for r
  by unfold_locales (auto simp: stream_source_def GetChannelRules_def split: option.splits)

interpretation noop_rules: rules_contract NoopChannelRulesProvider
  by unfold_locales (auto simp: NoopChannelRulesProvider_def)

section \<open>Properties\<close>

text \<open>C1: What the gateway lets a client subscribe to is exactly, in the order of the request and nothing else, the requested channels that
  consist of the tenant of the connection, a dot and a name that matches one of the subscribe patterns the tenant's rules give to the claims; without a
  rules checker or a tenant it is nothing.\<close>

theorem subscribe_filter_isolates:
  "fst (filterSubscribeChannels checker requested t claims) =
     filter (\<lambda>ch. \<exists>src name p. checker = Some src \<and> t \<noteq> [] \<and> ch = t @ ''.'' @ name \<and>
        p \<in> set (subscribePatterns (fst (getRulesForTenant src t)) claims) \<and> MatchWildcard p name) requested"
proof (cases checker)
  case None
  then show ?thesis by (simp add: filterSubscribeChannels_def case_prod_unfold)
next
  case (Some src)
  show ?thesis unfolding Some filterSubscribe_eq by (rule filter_cong [OF refl], subst subscribe_admits_iff) auto
qed

text \<open>So no channel is ever granted to connections of two different tenants, whatever rules they configure.\<close>

lemma grants_of_tenants_disjoint:
  assumes "CHR ''.'' \<notin> set t1" and "CHR ''.'' \<notin> set t2" and "t1 \<noteq> t2"
  shows "set (fst (filterSubscribeChannels (Some src1) chs1 t1 cl1)) \<inter> set (fst (filterSubscribeChannels (Some src2) chs2 t2 cl2)) = {}"
  using assms ValidateChannelTenant_extract by (fastforce simp: filterSubscribe_eq subscribe_admits_def)

text \<open>Authorization fails closed: without a checker, or when the streamed configuration has no
  rules for the tenant, no channel is granted and no publish is allowed; the lookup
  counts as degraded exactly when the snapshot is missing or the stream is down.\<close>

theorem authorization_fails_closed:
  assumes "GetChannelRules r t = Inl e"
  shows "fst (filterSubscribeChannels (Some (stream_source r)) chs t claims) = []
     \<and> \<not> checkPublishAllowed (Some (stream_source r)) t claims ch
     \<and> fst (filterSubscribeChannels None chs t claims) = [] \<and> \<not> checkPublishAllowed None t claims ch
     \<and> (snd (getRulesForTenant (stream_source r) t) = LookupSourceErrorFallback
          \<longleftrightarrow> \<not> (snapshotReceived r \<and> streamConnected r))"
proof -
  have e: "SrcGetChannelRules (stream_source r) t = Inl e" using assms by (simp add: stream_source_def)
  show ?thesis
    using stream_rules.unknown_denies_subscribe [OF e] stream_rules.unknown_denies_publish [OF e]
      stream_rules.degraded_iff [OF e]
    by (simp add: filterSubscribe_eq subscribe_admits_def checkPublishAllowed_def stream_source_def)
      (simp add: filterSubscribeChannels_def case_prod_unfold)
qed

theorem authorization_fails_closed_witness:
  "fst (filterSubscribeChannels (Some (stream_source NewStreamChannelRulesProvider)) [''acme.BTC''] ''acme'' None) = []
     \<and> \<not> checkPublishAllowed (Some (stream_source NewStreamChannelRulesProvider)) ''acme'' None ''acme.BTC''
     \<and> fst (filterSubscribeChannels None [''acme.BTC''] ''acme'' None) = [] \<and> \<not> checkPublishAllowed None ''acme'' None ''acme.BTC''
     \<and> (snd (getRulesForTenant (stream_source NewStreamChannelRulesProvider) ''acme'') = LookupSourceErrorFallback
          \<longleftrightarrow> \<not> (snapshotReceived NewStreamChannelRulesProvider \<and> streamConnected NewStreamChannelRulesProvider))"
  by (rule authorization_fails_closed [of _ _ ErrChannelRulesNotFound])
     (simp add: GetChannelRules_def NewStreamChannelRulesProvider_def)

text \<open>A connection without claims (API key only) can never publish, and it is granted a channel
  only through one of the tenant's public patterns that has no placeholder.\<close>

theorem anonymous_public_only:
  "\<not> checkPublishAllowed ck t None ch \<and>
   (ch \<in> set (fst (filterSubscribeChannels (Some src) chs t None)) \<longleftrightarrow>
      ch \<in> set chs \<and> ValidateChannelTenant ch t \<and> 2 \<le> Count ch (CHR ''.'') + 1
      \<and> (\<exists>p. p \<in> set (Public (fst (getRulesForTenant src t))) \<and> \<not> HasPlaceholders p
             \<and> MatchWildcard p (TrimPrefix ch (t @ ''.''))))"
  by (auto simp: checkPublishAllowed_def CanPublish_def filterSubscribe_eq subscribe_admits_def CanSubscribe_def
      subscribePatterns_def substitutePlaceholders_None MatchAnyWildcard_iff MinInternalChannelParts_def
      split: option.splits)

text \<open>A per-user pattern \<open>prefix{principal}\<close> is private to the user: for a subject without
  \<open>*\<close> it grants exactly the channel \<open>prefix<subject>\<close>, or nothing if that name itself still
  holds a placeholder token.\<close>

theorem principal_pattern_private:
  assumes "Subject c \<noteq> []" and "CHR ''*'' \<notin> set (Subject c)"
    and "CHR ''{'' \<notin> set pre" and "CHR ''*'' \<notin> set pre"
  shows "MatchAnyWildcard (substitutePlaceholders [pre @ ''{principal}''] (Some c)) ch \<longleftrightarrow>
     ch = pre @ Subject c \<and> \<not> HasPlaceholders (pre @ Subject c)"
proof -
  have "Resolve NewPlaceholderResolver (pre @ ''{principal}'') (Some c) = pre @ Subject c"
    using assms by (simp add: Resolve_def replace_principal resolve_principal)
  then show ?thesis using assms
    by (auto simp: substitutePlaceholders_Some MatchWildcard_literal)
qed

theorem principal_pattern_private_witness:
  "MatchAnyWildcard (substitutePlaceholders [''user.'' @ ''{principal}'']
      (Some \<lparr>Subject = ''alice'', TokenID = [], Issuer = [], IssuedAt = None, ExpiresAt = None, TenantID = ''acme'',
             Attributes = Map.empty, Roles = [], Groups = [], Scopes = [], ResolvedTenantUUID = []\<rparr>)) ''user.bob'' \<longleftrightarrow>
     ''user.bob'' = ''user.'' @ Subject \<lparr>Subject = ''alice'', TokenID = [], Issuer = [], IssuedAt = None, ExpiresAt = None,
             TenantID = ''acme'', Attributes = Map.empty, Roles = [], Groups = [], Scopes = [], ResolvedTenantUUID = []\<rparr>
     \<and> \<not> HasPlaceholders (''user.'' @ Subject \<lparr>Subject = ''alice'', TokenID = [], Issuer = [], IssuedAt = None, ExpiresAt = None,
             TenantID = ''acme'', Attributes = Map.empty, Roles = [], Groups = [], Scopes = [], ResolvedTenantUUID = []\<rparr>)"
  by (rule principal_pattern_private) simp_all

text \<open>The converse case: the substitution does not escape the subject, so the pattern
  \<open>user.{principal}\<close> of a token whose subject is \<open>*\<close> becomes \<open>user.*\<close> and grants every
  user's channel of the tenant.\<close>

theorem principal_wildcard_injection:
  assumes "Subject c = ''*''" and "t \<noteq> []"
    and "fst (getRulesForTenant src t) = NewChannelRules\<lparr>Public := [''user.{principal}'']\<rparr>"
  shows "fst (filterSubscribeChannels (Some src) [t @ ''.user.'' @ victim] t (Some c)) = [t @ ''.user.'' @ victim]"
proof -
  have "replace_placeholders (resolve_name NewPlaceholderResolver c) (''user.'' @ ''{principal}'') = ''user.*''"
    using assms by (subst replace_principal) (simp_all add: resolve_principal)
  moreover have "\<not> HasPlaceholders ''user.*''" by (simp add: HasPlaceholders_def)
  ultimately have "subscribePatterns (fst (getRulesForTenant src t)) (Some c) = [''user.*'']"
    by (simp add: assms(3) subscribePatterns_def ComputeAllowedPatterns_def NewChannelRules_def
        collect_empty deduplicate_def Resolve_def del: replace_placeholders.simps)
  moreover have "MatchWildcard ''user.*'' (''user.'' @ victim)"
    using MatchWildcard_one_star [of "''user.''" "[]" "''user.'' @ victim"] by (simp add: HasPrefix_def HasSuffix_iff)
  ultimately show ?thesis using assms(2) TrimPrefix_append [of "t @ ''.''" "''user.'' @ victim"]
    by (simp add: filterSubscribe_eq subscribe_admits_def CanSubscribe_def ValidateChannelTenant_iff
        MinInternalChannelParts_def Count_def)
qed

theorem principal_wildcard_injection_witness:
  "fst (filterSubscribeChannels
      (Some \<lparr>SrcGetChannelRules = (\<lambda>_. Inr (NewChannelRules\<lparr>Public := [''user.{principal}'']\<rparr>)),
             SrcSnapshotReceived = True, SrcConnected = True\<rparr>)
      [''acme'' @ ''.user.'' @ ''bob''] ''acme''
      (Some \<lparr>Subject = ''*'', TokenID = [], Issuer = [], IssuedAt = None, ExpiresAt = None, TenantID = ''acme'',
             Attributes = Map.empty, Roles = [], Groups = [], Scopes = [], ResolvedTenantUUID = []\<rparr>))
    = [''acme'' @ ''.user.'' @ ''bob'']"
  by (rule principal_wildcard_injection) (simp_all add: getRulesForTenant_def)

end
