(* ===== verification/Revocation.thy ===== *)
theory Revocation
  imports Prelude
begin

text \<open>
  Token revocation: the revocation snapshot of \<open>shared/provapi/revocation_stream.go\<close>, the
  connection registry of \<open>gateway/connection_registry.go\<close>, and the fan-out and
  post-registration re-check of \<open>gateway/gateway.go\<close>. A connection is a number; its claims
  (\<open>ConnectionClaims\<close>) are part of the state, since a token refresh (\<open>gateway/proxy.go\<close>)
  replaces them. The wall clock is a parameter of each stream update. The last section
  interleaves the stream, its fan-out connection by connection, the connection handlers and
  the refreshes.
\<close>

section \<open>The revocation snapshot\<close>

record token_revocation =
  RevTenantSlug :: string
  RevType :: string
  RevSub :: string
  RevJti :: string
  RevokedAt :: int
  RevExpiresAt :: int
  Removed :: bool

definition RevocationTypeToken :: string where "RevocationTypeToken = ''token''"
definition RevocationTypeUser :: string where "RevocationTypeUser = ''user''"

lemmas rev_types [simp] = RevocationTypeToken_def RevocationTypeUser_def

record jti_entry =
  JtiTenantID :: string
  JtiExpiresAt :: int

record sub_entry =
  SubRevokedAt :: int
  SubExpiresAt :: int

record revocation_snapshot =
  JTIRevocations :: "string \<rightharpoonup> jti_entry"
  SubRevocations :: "string \<rightharpoonup> sub_entry"

definition empty_snapshot :: revocation_snapshot where
  "empty_snapshot = \<lparr>JTIRevocations = Map.empty, SubRevocations = Map.empty\<rparr>"

definition sub_key :: "string \<Rightarrow> string \<Rightarrow> string" where
  "sub_key tenantID sub = tenantID @ '':'' @ sub"

definition IsRevoked :: "revocation_snapshot \<Rightarrow> string \<Rightarrow> string \<Rightarrow> string \<Rightarrow> int \<Rightarrow> bool" where
  "IsRevoked snap jti sub tenantID iat =
     (if jti \<noteq> [] \<and> (case JTIRevocations snap jti of None \<Rightarrow> False | Some e \<Rightarrow> JtiTenantID e = tenantID)
      then True
      else if sub \<noteq> [] \<and> (case SubRevocations snap (sub_key tenantID sub) of
                              None \<Rightarrow> False | Some e \<Rightarrow> iat < SubRevokedAt e)
      then True
      else False)"

definition rev_jti_entry :: "token_revocation \<Rightarrow> jti_entry" where
  "rev_jti_entry rv = \<lparr>JtiTenantID = RevTenantSlug rv, JtiExpiresAt = RevExpiresAt rv\<rparr>"

definition rev_sub_entry :: "token_revocation \<Rightarrow> sub_entry" where
  "rev_sub_entry rv = \<lparr>SubRevokedAt = RevokedAt rv, SubExpiresAt = RevExpiresAt rv\<rparr>"

text \<open>The loop of \<open>applySnapshot\<close>.\<close>

fun snapshot_loop :: "int \<Rightarrow> token_revocation list \<Rightarrow> revocation_snapshot \<Rightarrow> revocation_snapshot" where
  "snapshot_loop now [] m = m"
| "snapshot_loop now (rv # revs) m =
     (if RevExpiresAt rv \<le> now then snapshot_loop now revs m
      else if RevType rv = RevocationTypeToken
      then snapshot_loop now revs (m\<lparr>JTIRevocations := (JTIRevocations m)(RevJti rv \<mapsto> rev_jti_entry rv)\<rparr>)
      else if RevType rv = RevocationTypeUser
      then snapshot_loop now revs
        (m\<lparr>SubRevocations := (SubRevocations m)(sub_key (RevTenantSlug rv) (RevSub rv) \<mapsto> rev_sub_entry rv)\<rparr>)
      else snapshot_loop now revs m)"

text \<open>The result is the stored snapshot and the callbacks, which run after the store.\<close>

definition applySnapshot :: "int \<Rightarrow> token_revocation list \<Rightarrow> revocation_snapshot \<times> token_revocation list" where
  "applySnapshot now revs =
     (snapshot_loop now revs empty_snapshot, filter (\<lambda>rv. RevExpiresAt rv > now) revs)"

text \<open>The loop of \<open>applyDelta\<close>.\<close>

fun delta_loop :: "int \<Rightarrow> token_revocation list \<Rightarrow> revocation_snapshot \<Rightarrow> revocation_snapshot" where
  "delta_loop now [] m = m"
| "delta_loop now (rv # revs) m =
     delta_loop now revs
       (if RevType rv = RevocationTypeToken
        then (if Removed rv then m\<lparr>JTIRevocations := (JTIRevocations m)(RevJti rv := None)\<rparr>
              else if RevExpiresAt rv > now
              then m\<lparr>JTIRevocations := (JTIRevocations m)(RevJti rv \<mapsto> rev_jti_entry rv)\<rparr>
              else m)
        else if RevType rv = RevocationTypeUser
        then (let key = sub_key (RevTenantSlug rv) (RevSub rv)
              in if Removed rv then m\<lparr>SubRevocations := (SubRevocations m)(key := None)\<rparr>
                 else if RevExpiresAt rv > now
                 then m\<lparr>SubRevocations := (SubRevocations m)(key \<mapsto> rev_sub_entry rv)\<rparr>
                 else m)
        else m)"

text \<open>The copies keep only the entries that have not expired.\<close>

definition drop_expired :: "int \<Rightarrow> revocation_snapshot \<Rightarrow> revocation_snapshot" where
  "drop_expired now old =
     \<lparr>JTIRevocations = (\<lambda>k. case JTIRevocations old k of None \<Rightarrow> None
                            | Some e \<Rightarrow> if JtiExpiresAt e > now then Some e else None),
      SubRevocations = (\<lambda>k. case SubRevocations old k of None \<Rightarrow> None
                            | Some e \<Rightarrow> if SubExpiresAt e > now then Some e else None)\<rparr>"

definition applyDelta ::
  "int \<Rightarrow> revocation_snapshot \<Rightarrow> token_revocation list \<Rightarrow> revocation_snapshot \<times> token_revocation list" where
  "applyDelta now old revs =
     (delta_loop now revs (drop_expired now old),
      filter (\<lambda>rv. \<not> Removed rv \<and> RevExpiresAt rv > now) revs)"

section \<open>The connection registry\<close>

type_synonym conn = nat

record connection_registry =
  bySubject :: "string \<rightharpoonup> conn set"
  byJTI :: "string \<rightharpoonup> conn"

definition NewConnectionRegistry :: connection_registry where
  "NewConnectionRegistry = \<lparr>bySubject = Map.empty, byJTI = Map.empty\<rparr>"

definition Register :: "connection_registry \<Rightarrow> conn \<Rightarrow> string \<Rightarrow> string \<Rightarrow> string \<Rightarrow> connection_registry" where
  "Register r c tenantID sub jti =
     (let r = (if jti \<noteq> [] then r\<lparr>byJTI := (byJTI r)(jti \<mapsto> c)\<rparr> else r)
      in if sub \<noteq> []
         then let key = sub_key tenantID sub;
                  conns = (case bySubject r key of None \<Rightarrow> {} | Some cs \<Rightarrow> cs)
              in r\<lparr>bySubject := (bySubject r)(key \<mapsto> insert c conns)\<rparr>
         else r)"

definition Unregister :: "connection_registry \<Rightarrow> conn \<Rightarrow> string \<Rightarrow> string \<Rightarrow> string \<Rightarrow> connection_registry" where
  "Unregister r c tenantID sub jti =
     (let r = (if jti \<noteq> [] then r\<lparr>byJTI := (byJTI r)(jti := None)\<rparr> else r)
      in if sub \<noteq> []
         then let key = sub_key tenantID sub
              in case bySubject r key of
                   None \<Rightarrow> r
                 | Some conns \<Rightarrow>
                     (if conns - {c} = {} then r\<lparr>bySubject := (bySubject r)(key := None)\<rparr>
                      else r\<lparr>bySubject := (bySubject r)(key \<mapsto> conns - {c})\<rparr>)
         else r)"

definition FindByJTI :: "connection_registry \<Rightarrow> string \<Rightarrow> conn option" where
  "FindByJTI r jti = byJTI r jti"

definition FindBySub :: "connection_registry \<Rightarrow> string \<Rightarrow> string \<Rightarrow> conn set" where
  "FindBySub r tenantID sub = (case bySubject r (sub_key tenantID sub) of None \<Rightarrow> {} | Some cs \<Rightarrow> cs)"

section \<open>The gateway's reaction\<close>

record conn_claims =
  ccTenant :: string
  ccSub :: string
  ccJti :: string
  ccIat :: int

text \<open>
  \<open>HandleRevocation\<close> asks the registry for the connections of an entry and then goes through
  them, reading the claims each one carries at that moment.
\<close>

definition HandleRevocation_find :: "connection_registry \<Rightarrow> token_revocation \<Rightarrow> conn set" where
  "HandleRevocation_find r e =
     (if RevType e = RevocationTypeToken then (case FindByJTI r (RevJti e) of None \<Rightarrow> {} | Some c \<Rightarrow> {c})
      else if RevType e = RevocationTypeUser then FindBySub r (RevTenantSlug e) (RevSub e)
      else {})"

definition HandleRevocation_closes :: "conn_claims \<Rightarrow> token_revocation \<Rightarrow> bool" where
  "HandleRevocation_closes cc e \<longleftrightarrow> (if RevType e = RevocationTypeUser then \<not> ccIat cc \<ge> RevokedAt e else True)"

datatype close_reason = CloseReasonTokenRevoked | CloseReasonUserRevoked

text \<open>\<open>None\<close> when the connection may stay; without a revocation registry nothing is checked.\<close>

definition recheckRevocationAfterRegister ::
  "revocation_snapshot option \<Rightarrow> conn_claims \<Rightarrow> close_reason option" where
  "recheckRevocationAfterRegister reg cc =
     (case reg of
        None \<Rightarrow> None
      | Some snap \<Rightarrow>
          (if \<not> IsRevoked snap (ccJti cc) (ccSub cc) (ccTenant cc) (ccIat cc) then None
           else if IsRevoked snap (ccJti cc) [] (ccTenant cc) (ccIat cc) then Some CloseReasonTokenRevoked
           else Some CloseReasonUserRevoked))"

section \<open>Interleaving\<close>

definition jti_revoked :: "revocation_snapshot \<Rightarrow> conn_claims \<Rightarrow> bool" where
  "jti_revoked m cc \<longleftrightarrow> ccJti cc \<noteq> [] \<and> (\<exists>e. JTIRevocations m (ccJti cc) = Some e \<and> JtiTenantID e = ccTenant cc)"

definition sub_revoked :: "revocation_snapshot \<Rightarrow> conn_claims \<Rightarrow> bool" where
  "sub_revoked m cc \<longleftrightarrow> ccSub cc \<noteq> []
     \<and> (\<exists>e. SubRevocations m (sub_key (ccTenant cc) (ccSub cc)) = Some e \<and> ccIat cc < SubRevokedAt e)"

text \<open>
  A connection that came with an API key alone runs without being registered (\<open>Unlisted\<close>).
  \<open>fanout\<close> is the entry being handled with the connections still to visit; \<open>claims_of\<close> are the
  claims each connection carries. \<open>renewed\<close> and \<open>strayed\<close> are traces: the connections whose token
  was refreshed, and those among them that were given a token of another subject or one
  that a user revocation already covered.
\<close>

datatype phase = Upgraded | Registered | Running | Unlisted | Gone

record rev_sys =
  snap :: revocation_snapshot
  pending :: "token_revocation list"
  fanout :: "(token_revocation \<times> conn set) option"
  reg :: connection_registry
  claims_of :: "conn \<Rightarrow> conn_claims"
  phase_of :: "conn \<Rightarrow> phase"
  closed :: "conn set"
  renewed :: "conn set"
  strayed :: "conn set"

definition init_sys :: "(conn \<Rightarrow> conn_claims) \<Rightarrow> rev_sys" where
  "init_sys ci = \<lparr>snap = empty_snapshot, pending = [], fanout = None, reg = NewConnectionRegistry, claims_of = ci,
     phase_of = (\<lambda>_. Upgraded), closed = {}, renewed = {}, strayed = {}\<rparr>"

text \<open>
  The stream stores a snapshot and then runs its callbacks one after the other; each handler
  registers under the claims \<open>ci\<close> it was opened with, re-checks in the same goroutine, and
  unregisters when its connection ends. A refresh replaces the claims: it keeps the tenant, and
  neither consults the revocations nor registers again.
\<close>

inductive rev_step :: "(conn \<Rightarrow> conn_claims) \<Rightarrow> rev_sys \<Rightarrow> rev_sys \<Rightarrow> bool" for ci where
  stream_snapshot: "pending s = [] \<Longrightarrow> fanout s = None \<Longrightarrow> applySnapshot now revs = (m, cbs) \<Longrightarrow>
     rev_step ci s (s\<lparr>snap := m, pending := cbs\<rparr>)"
| stream_delta: "pending s = [] \<Longrightarrow> fanout s = None \<Longrightarrow> applyDelta now (snap s) revs = (m, cbs) \<Longrightarrow>
     rev_step ci s (s\<lparr>snap := m, pending := cbs\<rparr>)"
| callback_find: "pending s = e # es \<Longrightarrow> fanout s = None \<Longrightarrow>
     rev_step ci s (s\<lparr>pending := es, fanout := Some (e, HandleRevocation_find (reg s) e)\<rparr>)"
| callback_visit: "fanout s = Some (e, conns) \<Longrightarrow> c \<in> conns \<Longrightarrow>
     rev_step ci s (s\<lparr>fanout := Some (e, conns - {c}),
                      closed := (if HandleRevocation_closes (claims_of s c) e then insert c (closed s) else closed s)\<rparr>)"
| callback_done: "fanout s = Some (e, {}) \<Longrightarrow> rev_step ci s (s\<lparr>fanout := None\<rparr>)"
| handler_register: "phase_of s c = Upgraded \<Longrightarrow> ccJti (ci c) \<noteq> [] \<Longrightarrow>
     rev_step ci s (s\<lparr>reg := Register (reg s) c (ccTenant (ci c)) (ccSub (ci c)) (ccJti (ci c)),
                      phase_of := (phase_of s)(c := Registered)\<rparr>)"
| handler_recheck: "phase_of s c = Registered \<Longrightarrow>
     rev_step ci s (s\<lparr>phase_of := (phase_of s)(c := Running),
                      closed := (case recheckRevocationAfterRegister (Some (snap s)) (claims_of s c) of
                                   None \<Rightarrow> closed s | Some _ \<Rightarrow> insert c (closed s))\<rparr>)"
| handler_unlisted: "phase_of s c = Upgraded \<Longrightarrow> ccJti (ci c) = [] \<Longrightarrow>
     rev_step ci s (s\<lparr>phase_of := (phase_of s)(c := Unlisted)\<rparr>)"
| token_refresh: "phase_of s c = Running \<or> phase_of s c = Unlisted \<Longrightarrow> ccTenant cc = ccTenant (claims_of s c) \<Longrightarrow>
     rev_step ci s (s\<lparr>claims_of := (claims_of s)(c := cc), renewed := insert c (renewed s),
                      strayed := (if ccSub cc \<noteq> ccSub (ci c) \<or> sub_revoked (snap s) cc then insert c (strayed s) else strayed s)\<rparr>)"
| handler_end: "phase_of s c = Running \<Longrightarrow>
     rev_step ci s (s\<lparr>reg := Unregister (reg s) c (ccTenant (ci c)) (ccSub (ci c)) (ccJti (ci c)),
                      phase_of := (phase_of s)(c := Gone)\<rparr>)"
| unlisted_end: "phase_of s c = Unlisted \<Longrightarrow> rev_step ci s (s\<lparr>phase_of := (phase_of s)(c := Gone)\<rparr>)"

definition reachable :: "(conn \<Rightarrow> conn_claims) \<Rightarrow> rev_sys \<Rightarrow> bool" where
  "reachable ci s \<longleftrightarrow> (rev_step ci)\<^sup>*\<^sup>* (init_sys ci) s"

section \<open>Lemmas\<close>

lemma IsRevoked_split:
  "IsRevoked m (ccJti cc) (ccSub cc) (ccTenant cc) (ccIat cc) \<longleftrightarrow> jti_revoked m cc \<or> sub_revoked m cc"
  by (auto simp: IsRevoked_def jti_revoked_def sub_revoked_def split: option.splits)

definition token_match :: "token_revocation \<Rightarrow> conn_claims \<Rightarrow> bool" where
  "token_match e cc \<longleftrightarrow> RevType e = ''token'' \<and> ccJti cc \<noteq> [] \<and> RevJti e = ccJti cc"

definition user_match :: "token_revocation \<Rightarrow> conn_claims \<Rightarrow> bool" where
  "user_match e cc \<longleftrightarrow> RevType e = ''user'' \<and> ccSub cc \<noteq> []
     \<and> sub_key (RevTenantSlug e) (RevSub e) = sub_key (ccTenant cc) (ccSub cc) \<and> ccIat cc < RevokedAt e"

subsection \<open>Where the entries of a stored snapshot come from\<close>

lemma snapshot_loop_sub:
  "SubRevocations (snapshot_loop now revs m) k = Some e \<Longrightarrow> SubRevocations m k = Some e \<or>
     (\<exists>rv\<in>set (filter (\<lambda>rv. RevExpiresAt rv > now) revs). RevType rv = ''user''
        \<and> sub_key (RevTenantSlug rv) (RevSub rv) = k \<and> e = rev_sub_entry rv)"
  by (induction now revs m rule: snapshot_loop.induct) (auto split: if_splits)

lemma snapshot_loop_jti:
  "JTIRevocations (snapshot_loop now revs m) k = Some e \<Longrightarrow> JTIRevocations m k = Some e \<or>
     (\<exists>rv\<in>set (filter (\<lambda>rv. RevExpiresAt rv > now) revs). RevType rv = ''token'' \<and> RevJti rv = k)"
  by (induction now revs m rule: snapshot_loop.induct) (auto split: if_splits)

lemma delta_loop_sub:
  "SubRevocations (delta_loop now revs m) k = Some e \<Longrightarrow> SubRevocations m k = Some e \<or>
     (\<exists>rv\<in>set (filter (\<lambda>rv. \<not> Removed rv \<and> RevExpiresAt rv > now) revs). RevType rv = ''user''
        \<and> sub_key (RevTenantSlug rv) (RevSub rv) = k \<and> e = rev_sub_entry rv)"
  by (induction now revs m rule: delta_loop.induct) (auto simp: Let_def split: if_splits)

lemma delta_loop_jti:
  "JTIRevocations (delta_loop now revs m) k = Some e \<Longrightarrow> JTIRevocations m k = Some e \<or>
     (\<exists>rv\<in>set (filter (\<lambda>rv. \<not> Removed rv \<and> RevExpiresAt rv > now) revs). RevType rv = ''token'' \<and> RevJti rv = k)"
  by (induction now revs m rule: delta_loop.induct) (auto simp: Let_def split: if_splits)

lemma drop_expired_Some:
  "JTIRevocations (drop_expired now m) k = Some e \<Longrightarrow> JTIRevocations m k = Some e"
  "SubRevocations (drop_expired now m) k = Some e' \<Longrightarrow> SubRevocations m k = Some e'"
  by (auto simp: drop_expired_def split: option.splits if_splits)

text \<open>A revocation visible after an update was visible before it or is announced by a callback.\<close>

lemma applySnapshot_announced:
  assumes "applySnapshot now revs = (m, cbs)"
  shows "sub_revoked m cc \<Longrightarrow> \<exists>e\<in>set cbs. user_match e cc" and "jti_revoked m cc \<Longrightarrow> \<exists>e\<in>set cbs. token_match e cc"
proof -
  have m: "m = snapshot_loop now revs empty_snapshot" and cbs: "cbs = filter (\<lambda>rv. RevExpiresAt rv > now) revs"
    using assms by (simp_all add: applySnapshot_def)
  show "\<exists>e\<in>set cbs. user_match e cc" if h: "sub_revoked m cc"
  proof -
    from h obtain e where "SubRevocations m (sub_key (ccTenant cc) (ccSub cc)) = Some e" "ccIat cc < SubRevokedAt e"
      "ccSub cc \<noteq> []" by (auto simp: sub_revoked_def)
    with snapshot_loop_sub [of now revs empty_snapshot "sub_key (ccTenant cc) (ccSub cc)" e] show ?thesis
      unfolding m cbs by (auto simp: empty_snapshot_def user_match_def rev_sub_entry_def)
  qed
  show "\<exists>e\<in>set cbs. token_match e cc" if h: "jti_revoked m cc"
  proof -
    from h obtain e where "JTIRevocations m (ccJti cc) = Some e" "ccJti cc \<noteq> []" by (auto simp: jti_revoked_def)
    with snapshot_loop_jti [of now revs empty_snapshot "ccJti cc" e] show ?thesis
      unfolding m cbs by (auto simp: empty_snapshot_def token_match_def)
  qed
qed

lemma applyDelta_announced:
  assumes "applyDelta now old revs = (m, cbs)"
  shows "sub_revoked m cc \<Longrightarrow> sub_revoked old cc \<or> (\<exists>e\<in>set cbs. user_match e cc)"
    and "jti_revoked m cc \<Longrightarrow> jti_revoked old cc \<or> (\<exists>e\<in>set cbs. token_match e cc)"
proof -
  have m: "m = delta_loop now revs (drop_expired now old)"
    and cbs: "cbs = filter (\<lambda>rv. \<not> Removed rv \<and> RevExpiresAt rv > now) revs"
    using assms by (simp_all add: applyDelta_def)
  show "sub_revoked old cc \<or> (\<exists>e\<in>set cbs. user_match e cc)" if h: "sub_revoked m cc"
  proof -
    let ?k = "sub_key (ccTenant cc) (ccSub cc)"
    from h obtain e where "SubRevocations m ?k = Some e" and e: "ccIat cc < SubRevokedAt e" "ccSub cc \<noteq> []"
      by (auto simp: sub_revoked_def)
    with delta_loop_sub [of now revs "drop_expired now old" ?k e] drop_expired_Some(2) [of now old ?k e]
    have "SubRevocations old ?k = Some e \<or> (\<exists>rv\<in>set cbs. RevType rv = ''user''
        \<and> sub_key (RevTenantSlug rv) (RevSub rv) = ?k \<and> e = rev_sub_entry rv)"
      unfolding m cbs by blast
    with e show ?thesis by (auto simp: sub_revoked_def user_match_def rev_sub_entry_def)
  qed
  show "jti_revoked old cc \<or> (\<exists>e\<in>set cbs. token_match e cc)" if h: "jti_revoked m cc"
  proof -
    from h obtain e where "JTIRevocations m (ccJti cc) = Some e" and e: "ccJti cc \<noteq> []" "JtiTenantID e = ccTenant cc"
      by (auto simp: jti_revoked_def)
    with delta_loop_jti [of now revs "drop_expired now old" "ccJti cc" e] drop_expired_Some(1) [of now old "ccJti cc" e]
    have "JTIRevocations old (ccJti cc) = Some e
        \<or> (\<exists>rv\<in>set cbs. RevType rv = ''token'' \<and> RevJti rv = ccJti cc)"
      unfolding m cbs by blast
    with e show ?thesis by (auto simp: jti_revoked_def token_match_def)
  qed
qed

subsection \<open>The registry\<close>

lemma FindBySub_Register:
  "FindBySub (Register r c t s j) t' s' =
     FindBySub r t' s' \<union> (if s \<noteq> [] \<and> sub_key t s = sub_key t' s' then {c} else {})"
  by (auto simp: FindBySub_def Register_def Let_def split: option.splits)

lemma FindBySub_Unregister:
  "FindBySub (Unregister r c t s j) t' s' =
     FindBySub r t' s' - (if s \<noteq> [] \<and> sub_key t s = sub_key t' s' then {c} else {})"
  by (auto simp: FindBySub_def Unregister_def Let_def split: option.splits)

lemma byJTI_Register: "byJTI (Register r c t s j) k = (if j \<noteq> [] \<and> k = j then Some c else byJTI r k)"
  by (auto simp: Register_def Let_def)

lemma byJTI_Unregister: "byJTI (Unregister r c t s j) k = (if j \<noteq> [] \<and> k = j then None else byJTI r k)"
  by (auto simp: Unregister_def Let_def split: option.splits)

definition in_registry :: "phase \<Rightarrow> bool" where
  "in_registry p \<longleftrightarrow> p = Registered \<or> p = Running"

text \<open>A matching entry is waiting, or is being handled and has not visited the connection yet.\<close>

definition awaited :: "(token_revocation \<Rightarrow> conn_claims \<Rightarrow> bool) \<Rightarrow> rev_sys \<Rightarrow> conn \<Rightarrow> bool" where
  "awaited matches s c \<longleftrightarrow> (\<exists>e\<in>set (pending s). matches e (claims_of s c))
     \<or> (\<exists>e conns. fanout s = Some (e, conns) \<and> c \<in> conns \<and> matches e (claims_of s c))"

lemma awaited_frame [simp]:
  "awaited m (s\<lparr>reg := r\<rparr>) c = awaited m s c" "awaited m (s\<lparr>phase_of := ph\<rparr>) c = awaited m s c" "awaited m (s\<lparr>closed := cl\<rparr>) c = awaited m s c"
  "awaited m (s\<lparr>renewed := x\<rparr>) c = awaited m s c" "awaited m (s\<lparr>strayed := x\<rparr>) c = awaited m s c"
  "d \<noteq> c \<Longrightarrow> awaited m (s\<lparr>claims_of := (claims_of s)(d := cc)\<rparr>) c = awaited m s c"
  by (simp_all add: awaited_def)

definition user_inv :: "(conn \<Rightarrow> conn_claims) \<Rightarrow> rev_sys \<Rightarrow> bool" where
  "user_inv ci s \<longleftrightarrow>
     (\<forall>c. ccTenant (claims_of s c) = ccTenant (ci c) \<and> (c \<notin> strayed s \<longrightarrow> ccSub (claims_of s c) = ccSub (ci c)))
     \<and> (\<forall>c. in_registry (phase_of s c) \<longrightarrow> ccSub (ci c) \<noteq> [] \<longrightarrow>
          c \<in> FindBySub (reg s) (ccTenant (ci c)) (ccSub (ci c)))
     \<and> (\<forall>c. phase_of s c = Running \<longrightarrow> c \<notin> closed s \<longrightarrow> c \<notin> strayed s \<longrightarrow> sub_revoked (snap s) (claims_of s c) \<longrightarrow>
            awaited user_match s c)"

definition token_inv :: "(conn \<Rightarrow> conn_claims) \<Rightarrow> rev_sys \<Rightarrow> bool" where
  "token_inv ci s \<longleftrightarrow>
     (\<forall>c. c \<notin> renewed s \<longrightarrow> claims_of s c = ci c)
     \<and> (\<forall>c. in_registry (phase_of s c) \<longrightarrow> ccJti (ci c) \<noteq> [] \<longrightarrow> byJTI (reg s) (ccJti (ci c)) = Some c)
     \<and> (\<forall>c. phase_of s c = Running \<longrightarrow> c \<notin> closed s \<longrightarrow> c \<notin> renewed s \<longrightarrow> jti_revoked (snap s) (claims_of s c) \<longrightarrow>
            awaited token_match s c)"

text \<open>No two connections present the same token.\<close>

definition tokens_distinct :: "(conn \<Rightarrow> conn_claims) \<Rightarrow> bool" where
  "tokens_distinct ci \<longleftrightarrow> (\<forall>c d. ccJti (ci c) = ccJti (ci d) \<longrightarrow> ccJti (ci c) \<noteq> [] \<longrightarrow> c = d)"

lemma recheck_None:
  "recheckRevocationAfterRegister (Some m) cc = None \<longleftrightarrow> \<not> jti_revoked m cc \<and> \<not> sub_revoked m cc"
  by (simp add: recheckRevocationAfterRegister_def IsRevoked_split)

lemma FindBySub_key: "sub_key t s = sub_key t' s' \<Longrightarrow> FindBySub r t s = FindBySub r t' s'"
  by (simp add: FindBySub_def)

lemma user_found:
  assumes "user_inv ci s" and "phase_of s c = Running" and "c \<notin> strayed s" and "user_match e (claims_of s c)"
  shows "c \<in> HandleRevocation_find (reg s) e"
proof -
  from assms(1,3) have own: "ccTenant (claims_of s c) = ccTenant (ci c)" "ccSub (claims_of s c) = ccSub (ci c)" by (simp_all add: user_inv_def)
  have "c \<in> FindBySub (reg s) (ccTenant (ci c)) (ccSub (ci c))"
    using assms(1,2,4) own by (simp add: user_inv_def user_match_def in_registry_def)
  then show ?thesis
    using assms(4) own FindBySub_key [of "RevTenantSlug e" "RevSub e" "ccTenant (ci c)" "ccSub (ci c)"]
    by (simp add: HandleRevocation_find_def user_match_def)
qed

lemma user_inv_step: "rev_step ci s s' \<Longrightarrow> user_inv ci s \<Longrightarrow> user_inv ci s'"
proof (induction rule: rev_step.induct)
  case (stream_snapshot s now revs m cbs)
  then show ?case using applySnapshot_announced(1) [OF stream_snapshot(3)] by (auto simp: user_inv_def awaited_def)
next
  case (stream_delta s now revs m cbs)
  then show ?case using applyDelta_announced(1) [OF stream_delta(3)] by (fastforce simp: user_inv_def awaited_def)
next
  case (callback_find s e es)
  then show ?case using user_found [OF callback_find(3)] by (fastforce simp: user_inv_def awaited_def)
next
  case (callback_visit s e conns c)
  have "HandleRevocation_closes (claims_of s c) e" if "user_match e (claims_of s c)"
    using that by (simp add: user_match_def HandleRevocation_closes_def)
  then show ?case using callback_visit by (auto simp: user_inv_def awaited_def)
next
  case (callback_done s e)
  then show ?case by (auto simp: user_inv_def awaited_def)
next
  case (handler_register s c)
  then show ?case by (auto simp: user_inv_def FindBySub_Register in_registry_def)
next
  case (handler_recheck s c)
  then show ?case
    using recheck_None [of "snap s" "claims_of s c"]
    by (auto simp: user_inv_def in_registry_def split: option.splits)
next
  case (token_refresh s c cc)
  then show ?case by (auto simp: user_inv_def)
next
  case (handler_end s c)
  then show ?case by (auto simp: user_inv_def FindBySub_Unregister in_registry_def)
qed (auto simp: user_inv_def in_registry_def)

lemma token_inv_step:
  assumes "tokens_distinct ci"
  shows "rev_step ci s s' \<Longrightarrow> token_inv ci s \<Longrightarrow> token_inv ci s'"
proof (induction rule: rev_step.induct)
  case (stream_snapshot s now revs m cbs)
  then show ?case using applySnapshot_announced(2) [OF stream_snapshot(3)] by (auto simp: token_inv_def awaited_def)
next
  case (stream_delta s now revs m cbs)
  then show ?case using applyDelta_announced(2) [OF stream_delta(3)] by (fastforce simp: token_inv_def awaited_def)
next
  case (callback_find s e es)
  have "c \<in> HandleRevocation_find (reg s) e"
    if "phase_of s c = Running" "c \<notin> renewed s" "token_match e (claims_of s c)" for c
    using that callback_find(3) by (auto simp: token_inv_def token_match_def HandleRevocation_find_def FindByJTI_def in_registry_def)
  then show ?case using callback_find by (fastforce simp: token_inv_def awaited_def)
next
  case (callback_visit s e conns c)
  have "HandleRevocation_closes (claims_of s c) e" if "token_match e (claims_of s c)"
    using that by (simp add: token_match_def HandleRevocation_closes_def)
  then show ?case using callback_visit by (auto simp: token_inv_def awaited_def)
next
  case (callback_done s e)
  then show ?case by (auto simp: token_inv_def awaited_def)
next
  case (handler_register s c)
  let ?r = "Register (reg s) c (ccTenant (ci c)) (ccSub (ci c)) (ccJti (ci c))"
  have "byJTI ?r (ccJti (ci d)) = Some d" if "in_registry (((phase_of s)(c := Registered)) d)" "ccJti (ci d) \<noteq> []" for d
    using that handler_register assms by (cases "d = c") (auto simp: token_inv_def byJTI_Register tokens_distinct_def)
  with handler_register show ?case by (auto simp: token_inv_def)
next
  case (handler_recheck s c)
  then show ?case
    using recheck_None [of "snap s" "claims_of s c"]
    by (auto simp: token_inv_def in_registry_def split: option.splits)
next
  case (token_refresh s c cc)
  then show ?case by (auto simp: token_inv_def)
next
  case (handler_end s c)
  let ?r = "Unregister (reg s) c (ccTenant (ci c)) (ccSub (ci c)) (ccJti (ci c))"
  have "byJTI ?r (ccJti (ci d)) = Some d" if "in_registry (((phase_of s)(c := Gone)) d)" "ccJti (ci d) \<noteq> []" for d
    using that handler_end assms by (cases "d = c") (auto simp: token_inv_def byJTI_Unregister tokens_distinct_def in_registry_def)
  with handler_end show ?case by (auto simp: token_inv_def)
qed (auto simp: token_inv_def in_registry_def)

lemma reachable_induct [consumes 1, case_names init step]:
  assumes "reachable ci s" and "P (init_sys ci)" and "\<And>s s'. rev_step ci s s' \<Longrightarrow> P s \<Longrightarrow> P s'"
  shows "P s"
  using assms(1) unfolding reachable_def by (induction rule: rtranclp_induct) (auto intro: assms(2,3))

lemma reachable_user_inv: "reachable ci s \<Longrightarrow> user_inv ci s"
proof (induction rule: reachable_induct)
  case init
  then show ?case by (simp add: user_inv_def init_sys_def in_registry_def)
next
  case (step s s')
  then show ?case by (blast intro: user_inv_step)
qed

lemma reachable_token_inv: "reachable ci s \<Longrightarrow> tokens_distinct ci \<Longrightarrow> token_inv ci s"
proof (induction rule: reachable_induct)
  case init
  then show ?case by (simp add: token_inv_def init_sys_def in_registry_def)
next
  case (step s s')
  then show ?case by (blast intro: token_inv_step)
qed

lemma reachable_more: "reachable ci s \<Longrightarrow> rev_step ci s s' \<Longrightarrow> reachable ci s'"
  unfolding reachable_def by (rule rtranclp.rtrancl_into_rtrancl)

section \<open>Properties\<close>

text \<open>C7: A user revocation misses no registered connection: however the stream, the connection by
  connection fan-out, the handlers and the token refreshes interleave, once the callbacks of the
  stored snapshot have run, every registered connection that is past its post-registration
  check and was not force-closed carries a token, the refreshed one if there was a refresh, that
  the snapshot's user revocations do not cover. Excepted are connections whose refresh presented a
  token of another subject or one that was already revoked: the refresh does not look.\<close>

theorem user_revocation_no_miss:
  assumes "reachable ci s" and "pending s = []" and "fanout s = None" and "phase_of s c = Running" and "c \<notin> closed s"
    and "c \<notin> strayed s"
  shows "\<not> IsRevoked (snap s) [] (ccSub (claims_of s c)) (ccTenant (claims_of s c)) (ccIat (claims_of s c))"
proof -
  have "\<not> sub_revoked (snap s) (claims_of s c)"
    using reachable_user_inv [OF assms(1)] assms(2-) by (auto simp: user_inv_def awaited_def)
  then show ?thesis by (auto simp: IsRevoked_def sub_revoked_def split: option.splits)
qed

text \<open>Two connections, registered and re-checked before anything is revoked.\<close>

definition two_running :: "string \<Rightarrow> string \<Rightarrow> (conn \<Rightarrow> conn_claims)" where
  "two_running j0 j1 c = \<lparr>ccTenant = ''acme'', ccSub = ''alice'', ccJti = (if c = 0 then j0 else j1), ccIat = 10\<rparr>"

definition after_two :: "(conn \<Rightarrow> conn_claims) \<Rightarrow> rev_sys" where
  "after_two ci = (init_sys ci)\<lparr>
     reg := Register (Register NewConnectionRegistry 0 (ccTenant (ci 0)) (ccSub (ci 0)) (ccJti (ci 0)))
             1 (ccTenant (ci 1)) (ccSub (ci 1)) (ccJti (ci 1)),
     phase_of := (\<lambda>_. Upgraded)(0 := Running, 1 := Running)\<rparr>"

lemma recheck_empty: "recheckRevocationAfterRegister (Some empty_snapshot) cc = None"
  by (simp add: recheck_None jti_revoked_def sub_revoked_def empty_snapshot_def)

lemma reachable_after_two:
  assumes "ccJti (ci 0) \<noteq> []" and "ccJti (ci 1) \<noteq> []"
  shows "reachable ci (after_two ci)"
proof -
  let ?r0 = "Register NewConnectionRegistry 0 (ccTenant (ci 0)) (ccSub (ci 0)) (ccJti (ci 0))"
  let ?s1 = "(init_sys ci)\<lparr>reg := ?r0, phase_of := (\<lambda>_. Upgraded)(0 := Registered)\<rparr>"
  let ?s2 = "(init_sys ci)\<lparr>reg := ?r0, phase_of := (\<lambda>_. Upgraded)(0 := Running)\<rparr>"
  let ?s3 = "(after_two ci)\<lparr>phase_of := (\<lambda>_. Upgraded)(0 := Running, 1 := Registered)\<rparr>"
  have "reachable ci (init_sys ci)" by (simp add: reachable_def)
  then have "reachable ci ?s1"
    by (rule reachable_more) (use assms rev_step.handler_register [of "init_sys ci" 0 ci] in \<open>simp add: init_sys_def\<close>)
  then have "reachable ci ?s2"
    by (rule reachable_more) (use rev_step.handler_recheck [of ?s1 0 ci] in \<open>simp add: init_sys_def recheck_empty\<close>)
  then have "reachable ci ?s3"
    by (rule reachable_more) (use assms rev_step.handler_register [of ?s2 1 ci] in \<open>simp add: init_sys_def after_two_def\<close>)
  then show ?thesis
    by (rule reachable_more) (use rev_step.handler_recheck [of ?s3 1 ci] in \<open>simp add: after_two_def init_sys_def recheck_empty\<close>)
qed

text \<open>The first connection refreshes its token, then the user's older tokens are revoked.\<close>

definition alice_revoked :: token_revocation where
  "alice_revoked = \<lparr>RevTenantSlug = ''acme'', RevType = ''user'', RevSub = ''alice'', RevJti = [], RevokedAt = 20,
     RevExpiresAt = 100, Removed = False\<rparr>"

definition fresh_claims :: conn_claims where
  "fresh_claims = \<lparr>ccTenant = ''acme'', ccSub = ''alice'', ccJti = ''j2'', ccIat = 30\<rparr>"

definition alice_snapshot :: revocation_snapshot where
  "alice_snapshot = fst (applyDelta 50 empty_snapshot [alice_revoked])"

definition alice_after :: rev_sys where
  "alice_after = (after_two (two_running ''j0'' ''j1''))\<lparr>claims_of := (two_running ''j0'' ''j1'')(0 := fresh_claims),
     renewed := {0}, snap := alice_snapshot, closed := {1}\<rparr>"

lemma alice_found: "HandleRevocation_find (reg (after_two (two_running ''j0'' ''j1''))) alice_revoked = {0, 1}"
  by (auto simp: HandleRevocation_find_def alice_revoked_def after_two_def two_running_def FindBySub_Register)
     (auto simp: FindBySub_def NewConnectionRegistry_def)

lemma reachable_alice: "reachable (two_running ''j0'' ''j1'') alice_after"
proof -
  let ?ci = "two_running ''j0'' ''j1''"
  let ?s0 = "after_two ?ci"
  let ?s1 = "?s0\<lparr>claims_of := ?ci(0 := fresh_claims), renewed := {0}, strayed := {}\<rparr>"
  let ?s2 = "?s1\<lparr>snap := alice_snapshot, pending := [alice_revoked]\<rparr>"
  let ?s3 = "?s2\<lparr>pending := [], fanout := Some (alice_revoked, {0, 1})\<rparr>"
  let ?s4 = "?s3\<lparr>fanout := Some (alice_revoked, {1}), closed := {}\<rparr>"
  let ?s5 = "?s4\<lparr>fanout := Some (alice_revoked, {}), closed := {1}\<rparr>"
  have f: "claims_of ?s0 = ?ci" "phase_of ?s0 0 = Running" "renewed ?s0 = {}" "strayed ?s0 = {}" "snap ?s0 = empty_snapshot"
    "pending ?s0 = []" "fanout ?s0 = None" "closed ?s0 = {}"
    by (simp_all add: after_two_def init_sys_def)
  have "\<not> sub_revoked empty_snapshot fresh_claims" by (simp add: sub_revoked_def empty_snapshot_def)
  then have st: "rev_step ?ci ?s0 ?s1"
    using rev_step.token_refresh [of ?s0 0 fresh_claims ?ci] f by (simp add: fresh_claims_def two_running_def)
  have "reachable ?ci ?s0" by (rule reachable_after_two) (simp_all add: two_running_def)
  then have "reachable ?ci ?s1" using st by (rule reachable_more)
  then have "reachable ?ci ?s2"
    by (rule reachable_more)
       (use rev_step.stream_delta [of ?s1 50 "[alice_revoked]" alice_snapshot "[alice_revoked]" ?ci] f in
         \<open>simp add: alice_snapshot_def applyDelta_def alice_revoked_def\<close>)
  then have "reachable ?ci ?s3"
    by (rule reachable_more) (use rev_step.callback_find [of ?s2 alice_revoked "[]" ?ci] f alice_found in simp)
  then have "reachable ?ci ?s4"
    by (rule reachable_more)
       (use rev_step.callback_visit [of ?s3 alice_revoked "{0, 1}" 0 ?ci] f in
         \<open>simp add: HandleRevocation_closes_def alice_revoked_def fresh_claims_def insert_Diff_if\<close>)
  then have "reachable ?ci ?s5"
    by (rule reachable_more)
       (use rev_step.callback_visit [of ?s4 alice_revoked "{1}" 1 ?ci] f in
         \<open>simp add: HandleRevocation_closes_def alice_revoked_def two_running_def\<close>)
  then have "reachable ?ci (?s5\<lparr>fanout := None\<rparr>)"
    by (rule reachable_more) (use rev_step.callback_done [of ?s5 alice_revoked ?ci] in simp)
  moreover have "?s5\<lparr>fanout := None\<rparr> = alice_after" by (simp add: alice_after_def after_two_def init_sys_def)
  ultimately show ?thesis by simp
qed

theorem user_revocation_no_miss_witness:
  "\<not> IsRevoked (snap alice_after) [] ''alice'' ''acme'' 30 \<and> IsRevoked (snap alice_after) [] ''alice'' ''acme'' 10 \<and> closed alice_after = {1}"
proof -
  have "\<not> IsRevoked (snap alice_after) [] (ccSub (claims_of alice_after 0)) (ccTenant (claims_of alice_after 0)) (ccIat (claims_of alice_after 0))"
    by (rule user_revocation_no_miss [OF reachable_alice]) (simp_all add: alice_after_def after_two_def init_sys_def)
  moreover have "IsRevoked (snap alice_after) [] ''alice'' ''acme'' 10"
    by (simp add: alice_after_def alice_snapshot_def applyDelta_def alice_revoked_def IsRevoked_def rev_sub_entry_def)
  ultimately show ?thesis by (simp add: alice_after_def fresh_claims_def)
qed

text \<open>A token revocation misses no connection as long as no two connections were opened with the
  same token: under that assumption the combined check, by token and by user, is false for every
  registered connection left running with the token it was opened with once the callbacks have run.\<close>

theorem token_revocation_no_miss:
  assumes "reachable ci s" and "tokens_distinct ci" and "pending s = []" and "fanout s = None"
    and "phase_of s c = Running" and "c \<notin> closed s" and "c \<notin> renewed s" and "c \<notin> strayed s"
  shows "\<not> IsRevoked (snap s) (ccJti (ci c)) (ccSub (ci c)) (ccTenant (ci c)) (ccIat (ci c))"
  using reachable_user_inv [OF assms(1)] reachable_token_inv [OF assms(1,2)] assms(3-)
  by (auto simp: IsRevoked_split user_inv_def token_inv_def awaited_def)

text \<open>Every connection has a token of its own.\<close>

definition own_tokens :: "conn \<Rightarrow> conn_claims" where
  "own_tokens c = \<lparr>ccTenant = ''acme'', ccSub = ''alice'', ccJti = replicate (Suc c) (CHR ''j''), ccIat = 10\<rparr>"

theorem token_revocation_no_miss_witness:
  "\<not> IsRevoked (snap (after_two own_tokens)) (ccJti (own_tokens 1)) (ccSub (own_tokens 1))
     (ccTenant (own_tokens 1)) (ccIat (own_tokens 1))"
proof (rule token_revocation_no_miss)
  show "reachable own_tokens (after_two own_tokens)" by (rule reachable_after_two) (simp_all add: own_tokens_def)
  show "tokens_distinct own_tokens"
    by (auto simp: tokens_distinct_def own_tokens_def dest: arg_cong [of _ _ length])
qed (simp_all add: after_two_def init_sys_def)

text \<open>The assumption is needed: the registry keeps one connection per token, so when two
  connections present the same token, revoking it closes only the one that registered last,
  and the other is left running with a revoked token.\<close>

definition token_j_revoked :: token_revocation where
  "token_j_revoked = \<lparr>RevTenantSlug = ''acme'', RevType = ''token'', RevSub = [], RevJti = ''j'', RevokedAt = 20,
     RevExpiresAt = 100, Removed = False\<rparr>"

definition token_j_snapshot :: revocation_snapshot where
  "token_j_snapshot = fst (applyDelta 50 empty_snapshot [token_j_revoked])"

lemma after_two_revoked:
  assumes "ccJti (ci 0) \<noteq> []" and "ccJti (ci 1) \<noteq> []" and "HandleRevocation_find (reg (after_two ci)) token_j_revoked = conns"
    and "conns = {} \<or> conns = {1}"
  shows "reachable ci ((after_two ci)\<lparr>snap := token_j_snapshot, closed := conns\<rparr>)"
proof -
  let ?s0 = "after_two ci"
  let ?s1 = "?s0\<lparr>snap := token_j_snapshot, pending := [token_j_revoked]\<rparr>"
  let ?s2 = "?s0\<lparr>snap := token_j_snapshot, pending := [], fanout := Some (token_j_revoked, conns)\<rparr>"
  let ?s3 = "?s0\<lparr>snap := token_j_snapshot, pending := [], fanout := Some (token_j_revoked, {}), closed := conns\<rparr>"
  have f: "snap ?s0 = empty_snapshot" "pending ?s0 = []" "fanout ?s0 = None" "closed ?s0 = {}"
    by (simp_all add: after_two_def init_sys_def)
  have "reachable ci ?s0" using assms(1,2) by (rule reachable_after_two)
  then have "reachable ci ?s1"
    by (rule reachable_more)
       (use rev_step.stream_delta [of ?s0 50 "[token_j_revoked]" token_j_snapshot "[token_j_revoked]" ci] f in
         \<open>simp add: token_j_snapshot_def applyDelta_def token_j_revoked_def\<close>)
  then have "reachable ci ?s2"
    by (rule reachable_more) (use rev_step.callback_find [of ?s1 token_j_revoked "[]" ci] f assms(3) in simp)
  moreover have "reachable ci ?s3" if "reachable ci ?s2" "conns = {1}"
    using that(1) by (rule reachable_more)
       (use rev_step.callback_visit [of ?s2 token_j_revoked "{1}" 1 ci] f that(2) in \<open>simp add: HandleRevocation_closes_def token_j_revoked_def\<close>)
  moreover have "?s2 = ?s3" if "conns = {}" using that by (simp add: after_two_def init_sys_def)
  ultimately have "reachable ci ?s3" using assms(4) by auto
  then have "reachable ci (?s3\<lparr>fanout := None\<rparr>)"
    by (rule reachable_more) (use rev_step.callback_done [of ?s3 token_j_revoked ci] in simp)
  moreover have "?s3\<lparr>fanout := None\<rparr> = ?s0\<lparr>snap := token_j_snapshot, closed := conns\<rparr>" by (simp add: after_two_def init_sys_def)
  ultimately show ?thesis by simp
qed

lemma token_j_is_revoked: "IsRevoked token_j_snapshot ''j'' sub ''acme'' iat"
  by (simp add: token_j_snapshot_def applyDelta_def token_j_revoked_def IsRevoked_def rev_jti_entry_def)

theorem shared_token_revocation_misses:
  "\<exists>s. reachable (two_running ''j'' ''j'') s \<and> pending s = [] \<and> fanout s = None \<and> phase_of s 0 = Running \<and> 0 \<notin> closed s
     \<and> IsRevoked (snap s) (ccJti (claims_of s 0)) (ccSub (claims_of s 0)) (ccTenant (claims_of s 0)) (ccIat (claims_of s 0))"
proof -
  let ?ci = "two_running ''j'' ''j''"
  have "HandleRevocation_find (reg (after_two ?ci)) token_j_revoked = {1}"
    by (simp add: HandleRevocation_find_def FindByJTI_def after_two_def byJTI_Register two_running_def token_j_revoked_def)
  then have "reachable ?ci ((after_two ?ci)\<lparr>snap := token_j_snapshot, closed := {1}\<rparr>)"
    by (intro after_two_revoked) (simp_all add: two_running_def)
  then show ?thesis
    by (rule_tac x = "(after_two ?ci)\<lparr>snap := token_j_snapshot, closed := {1}\<rparr>" in exI)
       (simp add: after_two_def init_sys_def two_running_def token_j_is_revoked)
qed

text \<open>A refreshed token escapes its revocation: the connection stays registered under the token it
  was opened with, so revoking the token it now carries finds nothing, even if no other
  connection carries it.\<close>

theorem refreshed_token_escapes:
  "\<exists>s. reachable (two_running ''j0'' ''j1'') s \<and> pending s = [] \<and> fanout s = None \<and> phase_of s 0 = Running \<and> closed s = {}
     \<and> ccSub (claims_of s 0) = ''alice'' \<and> IsRevoked (snap s) (ccJti (claims_of s 0)) [] (ccTenant (claims_of s 0)) (ccIat (claims_of s 0))"
proof -
  let ?ci = "two_running ''j0'' ''j1''"
  let ?s0 = "(after_two ?ci)\<lparr>snap := token_j_snapshot, closed := {}\<rparr>"
  let ?cc = "fresh_claims\<lparr>ccJti := ''j''\<rparr>"
  have "HandleRevocation_find (reg (after_two ?ci)) token_j_revoked = {}"
    by (simp add: HandleRevocation_find_def FindByJTI_def after_two_def byJTI_Register two_running_def token_j_revoked_def NewConnectionRegistry_def)
  then have r: "reachable ?ci ?s0" by (intro after_two_revoked) (simp_all add: two_running_def)
  have "\<not> sub_revoked token_j_snapshot ?cc" by (simp add: sub_revoked_def token_j_snapshot_def applyDelta_def token_j_revoked_def drop_expired_def empty_snapshot_def)
  then have "rev_step ?ci ?s0 (?s0\<lparr>claims_of := ?ci(0 := ?cc), renewed := {0}, strayed := {}\<rparr>)"
    using rev_step.token_refresh [of ?s0 0 ?cc ?ci] by (simp add: after_two_def init_sys_def fresh_claims_def two_running_def)
  with r have "reachable ?ci (?s0\<lparr>claims_of := ?ci(0 := ?cc), renewed := {0}, strayed := {}\<rparr>)" by (rule reachable_more)
  then show ?thesis
    by (rule_tac x = "?s0\<lparr>claims_of := ?ci(0 := ?cc), renewed := {0}, strayed := {}\<rparr>" in exI)
       (simp add: after_two_def init_sys_def fresh_claims_def token_j_is_revoked)
qed

text \<open>Token identifiers are not scoped by tenant: a tenant that revokes an identifier another
  tenant has already revoked makes the other tenant's token valid again.\<close>

theorem jti_revocation_overwritten:
  assumes "RevType rv = ''token''" and "\<not> Removed rv" and "now < RevExpiresAt rv" and "RevTenantSlug rv \<noteq> victim"
  shows "\<not> IsRevoked (fst (applyDelta now m [rv])) (RevJti rv) [] victim iat"
  using assms by (simp add: applyDelta_def IsRevoked_def rev_jti_entry_def)

theorem jti_revocation_overwritten_witness:
  "\<not> IsRevoked (fst (applyDelta 50 (fst (applyDelta 40 empty_snapshot
        [\<lparr>RevTenantSlug = ''acme'', RevType = ''token'', RevSub = [], RevJti = ''1'', RevokedAt = 20,
          RevExpiresAt = 100, Removed = False\<rparr>]))
        [\<lparr>RevTenantSlug = ''globex'', RevType = ''token'', RevSub = [], RevJti = ''1'', RevokedAt = 20,
          RevExpiresAt = 100, Removed = False\<rparr>]))
     (RevJti \<lparr>RevTenantSlug = ''globex'', RevType = ''token'', RevSub = [], RevJti = ''1'', RevokedAt = 20,
          RevExpiresAt = 100, Removed = False\<rparr>) [] ''acme'' 10"
  by (rule jti_revocation_overwritten) simp_all

end
