(* ===== verification/Authentication.thy ===== *)
theory Authentication
  imports Placeholders ConfigStream Revocation
begin

text \<open>
  JWT validation with tenant binding (\<open>shared/auth/jwt_core.go\<close>,
  \<open>shared/auth/jwt_multitenant.go\<close>), credential extraction (\<open>shared/httputil/request.go\<close>) and
  the gateway's request authentication (\<open>gateway/auth_request.go\<close>). The JWT library is the
  parameter \<open>jwt_lib\<close>: decoding without verification, and verification of signature, method
  and times with a given key. Key lookup and tenant resolution are functions. A nil
  pointer dereference is the outcome \<open>AuthPanic\<close>.
\<close>

section \<open>JWT validation\<close>

datatype json_field = FieldAbsent | FieldOther | FieldString string

record jwt_header =
  HdrKid :: json_field
  HdrAlg :: json_field

record signing_key =
  SkTenantID :: string
  SkAlgorithm :: string
  SkPublicKey :: string

datatype verify_result = VerifyOK | VerifyExpired | VerifyFailed

record jwt_lib =
  ParseUnverified :: "string \<Rightarrow> (jwt_header \<times> claims) option"
  VerifySignature :: "string list \<Rightarrow> int \<Rightarrow> string \<Rightarrow> string \<Rightarrow> verify_result"

datatype key_error = ErrKeyNotFound | ErrKeyRevoked | ErrKeyExpired | KeyLookupFailed

datatype invalid_cause =
    Unparsable
  | IssuerNotAllowed string
  | MissingKid
  | InvalidKid
  | MissingAlg
  | AlgNotAllowed string
  | KeyError key_error
  | AlgMismatch string string
  | BadSignature
  | LifetimeNeedsTimes
  | LifetimeExceeded
  | MissingClaim string
  | NoTenantResolver
  | KeyWithoutTenant

datatype jwt_error =
    ErrMissingToken
  | KeyResolverRequired
  | ErrTokenExpired
  | ErrInvalidToken invalid_cause
  | ResolveFailed lookup_error
  | TenantMismatchError string string string string

record validate_opts =
  KeyResolver :: "(string \<Rightarrow> key_error + signing_key) option"
  AllowedAlgorithms :: "string list"
  AllowedIssuers :: "string list"
  Leeway :: int
  MaxLifetime :: int
  RequireClaims :: "string list"
  TenantResolver :: "(string \<Rightarrow> lookup_error + string) option"
  DisableTenantBinding :: bool

definition resolvedAlgorithms :: "validate_opts \<Rightarrow> string list" where
  "resolvedAlgorithms opts =
     (if length (AllowedAlgorithms opts) > 0 then AllowedAlgorithms opts else [''ES256'', ''RS256'', ''EdDSA''])"

text \<open>The key function given to the parser.\<close>

definition jwt_keyfunc ::
  "(string \<Rightarrow> key_error + signing_key) \<Rightarrow> string list \<Rightarrow> jwt_header \<Rightarrow> invalid_cause + (string \<times> signing_key)" where
  "jwt_keyfunc getKey algos h =
     (case HdrKid h of
        FieldAbsent \<Rightarrow> Inl MissingKid
      | FieldOther \<Rightarrow> Inl InvalidKid
      | FieldString kid \<Rightarrow>
          if kid = [] then Inl InvalidKid
          else case HdrAlg h of
            FieldString alg \<Rightarrow>
              if alg \<notin> set algos then Inl (AlgNotAllowed alg)
              else (case getKey kid of
                      Inl e \<Rightarrow> Inl (KeyError e)
                    | Inr key \<Rightarrow> if SkAlgorithm key \<noteq> alg then Inl (AlgMismatch alg (SkAlgorithm key))
                                 else Inr (kid, key))
          | _ \<Rightarrow> Inl MissingAlg)"

definition missing_claim :: "claims \<Rightarrow> string \<Rightarrow> bool" where
  "missing_claim c name =
     (if name = ''tenant_id'' then TenantID c = []
      else if name = ''iss'' then Issuer c = []
      else if name = ''sub'' then Subject c = []
      else if name = ''exp'' then ExpiresAt c = None
      else if name = ''iat'' then IssuedAt c = None
      else if name = ''jti'' then TokenID c = []
      else False)"

definition check_lifetime :: "validate_opts \<Rightarrow> claims \<Rightarrow> invalid_cause option" where
  "check_lifetime opts c =
     (if MaxLifetime opts > 0
      then (case (IssuedAt c, ExpiresAt c) of
              (Some iat, Some exp) \<Rightarrow> if exp - iat > MaxLifetime opts then Some LifetimeExceeded else None
            | _ \<Rightarrow> Some LifetimeNeedsTimes)
      else None)"

definition bind_tenant :: "validate_opts \<Rightarrow> string \<Rightarrow> signing_key \<Rightarrow> claims \<Rightarrow> jwt_error + claims" where
  "bind_tenant opts kid key c =
     (if \<not> DisableTenantBinding opts \<and> TenantID c \<noteq> []
      then (case TenantResolver opts of
              None \<Rightarrow> Inl (ErrInvalidToken NoTenantResolver)
            | Some resolve \<Rightarrow>
                if SkTenantID key = [] then Inl (ErrInvalidToken KeyWithoutTenant)
                else case resolve (TenantID c) of
                  Inl e \<Rightarrow> Inl (ResolveFailed e)
                | Inr claimUUID \<Rightarrow>
                    if claimUUID = [] \<or> claimUUID \<noteq> SkTenantID key
                    then Inl (TenantMismatchError kid (TenantID c) claimUUID (SkTenantID key))
                    else Inr (c\<lparr>ResolvedTenantUUID := claimUUID\<rparr>))
      else Inr c)"

definition check_issuer :: "jwt_lib \<Rightarrow> validate_opts \<Rightarrow> string \<Rightarrow> jwt_error option" where
  "check_issuer lib opts tok =
     (if length (AllowedIssuers opts) > 0
      then (case ParseUnverified lib tok of
              None \<Rightarrow> Some (ErrInvalidToken Unparsable)
            | Some (_, c) \<Rightarrow>
                if Issuer c = [] \<or> Issuer c \<notin> set (AllowedIssuers opts)
                then Some (ErrInvalidToken (IssuerNotAllowed (Issuer c))) else None)
      else None)"

definition ValidateJWT :: "jwt_lib \<Rightarrow> validate_opts \<Rightarrow> string \<Rightarrow> jwt_error + claims" where
  "ValidateJWT lib opts tok =
     (if tok = [] then Inl ErrMissingToken
      else case KeyResolver opts of
        None \<Rightarrow> Inl KeyResolverRequired
      | Some getKey \<Rightarrow>
          (let allowedAlgos = resolvedAlgorithms opts
           in case check_issuer lib opts tok of
                Some e \<Rightarrow> Inl e
              | None \<Rightarrow>
                  (case ParseUnverified lib tok of
                     None \<Rightarrow> Inl (ErrInvalidToken Unparsable)
                   | Some (h, c) \<Rightarrow>
                       (case jwt_keyfunc getKey allowedAlgos h of
                          Inl e \<Rightarrow> Inl (ErrInvalidToken e)
                        | Inr (kid, key) \<Rightarrow>
                            (case VerifySignature lib allowedAlgos (Leeway opts) tok (SkPublicKey key) of
                               VerifyExpired \<Rightarrow> Inl ErrTokenExpired
                             | VerifyFailed \<Rightarrow> Inl (ErrInvalidToken BadSignature)
                             | VerifyOK \<Rightarrow>
                                 (case check_lifetime opts c of
                                    Some e \<Rightarrow> Inl (ErrInvalidToken e)
                                  | None \<Rightarrow>
                                      (case find (missing_claim c) (RequireClaims opts) of
                                         Some name \<Rightarrow> Inl (ErrInvalidToken (MissingClaim name))
                                       | None \<Rightarrow> bind_tenant opts kid key c)))))))"

record validator_config =
  VcKeyRegistry :: "(string \<Rightarrow> key_error + signing_key) option"
  VcRequireTenantID :: bool
  VcAllowedAlgorithms :: "string list"
  VcAllowedIssuers :: "string list"
  VcTenantResolver :: "(string \<Rightarrow> lookup_error + string) option"

datatype config_error = KeyRegistryRequired | TenantResolverRequired

definition NewMultiTenantValidator :: "validator_config \<Rightarrow> config_error + validate_opts" where
  "NewMultiTenantValidator cfg =
     (if VcKeyRegistry cfg = None then Inl KeyRegistryRequired
      else if VcTenantResolver cfg = None then Inl TenantResolverRequired
      else Inr \<lparr>KeyResolver = VcKeyRegistry cfg, AllowedAlgorithms = VcAllowedAlgorithms cfg,
                AllowedIssuers = VcAllowedIssuers cfg, Leeway = 0, MaxLifetime = 0,
                RequireClaims = (if VcRequireTenantID cfg then [''tenant_id''] else []),
                TenantResolver = VcTenantResolver cfg, DisableTenantBinding = False\<rparr>)"

datatype tenant_check_error = TokenInvalid jwt_error | ErrTenantMismatchClaims

definition ValidateTokenForTenant ::
  "jwt_lib \<Rightarrow> validate_opts \<Rightarrow> string \<Rightarrow> string \<Rightarrow> tenant_check_error + claims" where
  "ValidateTokenForTenant lib opts tok expectedTenant =
     (case ValidateJWT lib opts tok of
        Inl e \<Rightarrow> Inl (TokenInvalid e)
      | Inr c \<Rightarrow> if TenantID c \<noteq> expectedTenant then Inl ErrTenantMismatchClaims else Inr c)"

section \<open>Requests\<close>

record http_request =
  QueryToken :: string
  QueryAPIKey :: string
  AuthorizationHeader :: string
  APIKeyHeader :: string

definition ExtractBearerToken :: "http_request \<Rightarrow> string" where
  "ExtractBearerToken r =
     (if QueryToken r \<noteq> [] then QueryToken r
      else case CutPrefix (AuthorizationHeader r) ''Bearer '' of Some after \<Rightarrow> after | None \<Rightarrow> [])"

definition ExtractAPIKey :: "http_request \<Rightarrow> string" where
  "ExtractAPIKey r = (if QueryAPIKey r \<noteq> [] then QueryAPIKey r else APIKeyHeader r)"

datatype auth_error =
    ErrNoCredentials
  | ErrAuthInvalidToken
  | ErrInvalidAPIKey
  | ErrTenantMismatch
  | ErrTokenRevoked
  | ErrMissingJTI
  | ErrTenantUnavailable

record auth_result =
  ResClaims :: "claims option"
  Principal :: string
  ResTenantSlug :: string
  ResTenantUUID :: string
  APIKeyOnly :: bool
  APIKeyTenantID :: string
  AuthMethod :: string
  APIKeyID :: string
  UserID :: string

datatype auth_outcome = AuthOK auth_result | AuthErr auth_error | AuthPanic

definition authErrorResponse :: "auth_error \<Rightarrow> nat \<times> string" where
  "authErrorResponse e =
     (case e of
        ErrTenantMismatch \<Rightarrow> (403, ''FORBIDDEN'')
      | ErrTenantUnavailable \<Rightarrow> (503, ''SERVICE_UNAVAILABLE'')
      | _ \<Rightarrow> (401, ''UNAUTHORIZED''))"

text \<open>What the gateway holds: the token validator, the API key cache, the tenant resolver and the
  revocation snapshot (absent when revocation is not configured).\<close>

record gateway_auth =
  validator :: "string \<Rightarrow> jwt_error + claims"
  apiKeyRegistry :: "string \<rightharpoonup> api_key_info"
  tenantSlugResolver :: "rules_provider option"
  revocationRegistry :: "revocation_snapshot option"

definition resolveAPIKeyTenantSlug :: "gateway_auth \<Rightarrow> string \<Rightarrow> auth_error + string" where
  "resolveAPIKeyTenantSlug gw tenantUUID =
     (case tenantSlugResolver gw of
        None \<Rightarrow> Inl ErrTenantUnavailable
      | Some r \<Rightarrow>
          (case ResolveTenantSlug r tenantUUID of
             Inl _ \<Rightarrow> if \<not> tenantUUIDsPresent r then Inl ErrTenantUnavailable else Inl ErrTenantMismatch
           | Inr slug \<Rightarrow> if slug = [] then Inl ErrTenantUnavailable else Inr slug))"

text \<open>\<open>revocationRegistry.IsRevoked(ID, Subject, TenantID, IssuedAt.Unix())\<close>: the issue time is
  dereferenced before the call.\<close>

definition revocation_check :: "gateway_auth \<Rightarrow> claims \<Rightarrow> auth_outcome \<Rightarrow> auth_outcome" where
  "revocation_check gw c k =
     (case revocationRegistry gw of
        None \<Rightarrow> k
      | Some m \<Rightarrow>
          (case IssuedAt c of
             None \<Rightarrow> AuthPanic
           | Some iat \<Rightarrow> if IsRevoked m (TokenID c) (Subject c) (TenantID c) iat then AuthErr ErrTokenRevoked else k))"

definition authenticateRequest :: "gateway_auth \<Rightarrow> string \<Rightarrow> http_request \<Rightarrow> auth_outcome" where
  "authenticateRequest gw freshUUID r =
     (let token = ExtractBearerToken r; apiKey = ExtractAPIKey r
      in if token = [] \<and> apiKey = [] then AuthErr ErrNoCredentials
         else if apiKey \<noteq> [] \<and> token = [] then
           (case Lookup (apiKeyRegistry gw) apiKey of
              None \<Rightarrow> AuthErr ErrInvalidAPIKey
            | Some info \<Rightarrow>
                (case resolveAPIKeyTenantSlug gw (KeyTenantID info) of
                   Inl e \<Rightarrow> AuthErr e
                 | Inr slug \<Rightarrow>
                     AuthOK \<lparr>ResClaims = None, Principal = ''anon:'' @ freshUUID, ResTenantSlug = slug,
                             ResTenantUUID = KeyTenantID info, APIKeyOnly = True,
                             APIKeyTenantID = KeyTenantID info, AuthMethod = ''api_key'',
                             APIKeyID = KeyID info, UserID = []\<rparr>))
         else if token \<noteq> [] \<and> apiKey = [] then
           (case validator gw token of
              Inl (TenantMismatchError _ _ _ _) \<Rightarrow> AuthErr ErrTenantMismatch
            | Inl _ \<Rightarrow> AuthErr ErrAuthInvalidToken
            | Inr c \<Rightarrow>
                (if TokenID c = [] then AuthErr ErrMissingJTI
                 else revocation_check gw c
                   (AuthOK \<lparr>ResClaims = Some c, Principal = Subject c, ResTenantSlug = TenantID c,
                            ResTenantUUID = ResolvedTenantUUID c, APIKeyOnly = False, APIKeyTenantID = [],
                            AuthMethod = ''jwt'', APIKeyID = [], UserID = Subject c\<rparr>)))
         else
           (case Lookup (apiKeyRegistry gw) apiKey of
              None \<Rightarrow> AuthErr ErrInvalidAPIKey
            | Some info \<Rightarrow>
                (case validator gw token of
                   Inl _ \<Rightarrow> AuthErr ErrAuthInvalidToken
                 | Inr c \<Rightarrow>
                     (if \<not> MatchesTenantUUID c (KeyTenantID info) then AuthErr ErrTenantMismatch
                      else if TokenID c = [] then AuthErr ErrMissingJTI
                      else revocation_check gw c
                        (AuthOK \<lparr>ResClaims = Some c, Principal = Subject c, ResTenantSlug = TenantID c,
                                 ResTenantUUID = ResolvedTenantUUID c, APIKeyOnly = False,
                                 APIKeyTenantID = KeyTenantID info, AuthMethod = ''jwt+api_key'',
                                 APIKeyID = KeyID info, UserID = Subject c\<rparr>)))))"

section \<open>Lemmas\<close>

lemma ValidateJWT_OK:
  assumes "ValidateJWT lib opts tok = Inr c"
  obtains getKey h c0 kid key where "KeyResolver opts = Some getKey" "ParseUnverified lib tok = Some (h, c0)"
    "jwt_keyfunc getKey (resolvedAlgorithms opts) h = Inr (kid, key)"
    "VerifySignature lib (resolvedAlgorithms opts) (Leeway opts) tok (SkPublicKey key) = VerifyOK"
    "check_lifetime opts c0 = None" "find (missing_claim c0) (RequireClaims opts) = None"
    "bind_tenant opts kid key c0 = Inr c"
  using assms
  by (auto simp: ValidateJWT_def Let_def split: if_splits option.splits sum.splits prod.splits verify_result.splits)

lemma jwt_keyfunc_OK:
  "jwt_keyfunc getKey algos h = Inr (kid, key) \<Longrightarrow>
     HdrKid h = FieldString kid \<and> kid \<noteq> [] \<and> HdrAlg h = FieldString (SkAlgorithm key)
     \<and> SkAlgorithm key \<in> set algos \<and> getKey kid = Inr key"
  by (auto simp: jwt_keyfunc_def split: json_field.splits if_splits sum.splits)

lemma bind_tenant_OK:
  "bind_tenant opts kid key c0 = Inr c \<Longrightarrow> \<not> DisableTenantBinding opts \<Longrightarrow> TenantID c0 \<noteq> [] \<Longrightarrow>
     \<exists>resolve. TenantResolver opts = Some resolve \<and> resolve (TenantID c0) = Inr (SkTenantID key)
       \<and> SkTenantID key \<noteq> [] \<and> c = c0\<lparr>ResolvedTenantUUID := SkTenantID key\<rparr>"
  by (auto simp: bind_tenant_def split: option.splits if_splits sum.splits)

lemma bind_tenant_TenantID: "bind_tenant opts kid key c0 = Inr c \<Longrightarrow> TenantID c = TenantID c0"
  by (auto simp: bind_tenant_def split: option.splits if_splits sum.splits)

text \<open>What an accepted token with a tenant rests on.\<close>

lemma ValidateJWT_bound:
  assumes "NewMultiTenantValidator cfg = Inr opts" and "ValidateJWT lib opts tok = Inr c" and "TenantID c \<noteq> []"
  shows "\<exists>getKey resolve kid key. VcKeyRegistry cfg = Some getKey \<and> VcTenantResolver cfg = Some resolve
     \<and> getKey kid = Inr key \<and> SkAlgorithm key \<in> set (resolvedAlgorithms opts)
     \<and> VerifySignature lib (resolvedAlgorithms opts) 0 tok (SkPublicKey key) = VerifyOK
     \<and> resolve (TenantID c) = Inr (SkTenantID key) \<and> ResolvedTenantUUID c = SkTenantID key \<and> SkTenantID key \<noteq> []"
proof -
  have o: "KeyResolver opts = VcKeyRegistry cfg" "TenantResolver opts = VcTenantResolver cfg"
    "\<not> DisableTenantBinding opts" "Leeway opts = 0"
    using assms(1) by (auto simp: NewMultiTenantValidator_def split: if_splits)
  obtain getKey h c0 kid key where v: "KeyResolver opts = Some getKey"
    "jwt_keyfunc getKey (resolvedAlgorithms opts) h = Inr (kid, key)"
    "VerifySignature lib (resolvedAlgorithms opts) (Leeway opts) tok (SkPublicKey key) = VerifyOK"
    "bind_tenant opts kid key c0 = Inr c"
    using ValidateJWT_OK [OF assms(2)] by metis
  have "TenantID c0 \<noteq> []" using bind_tenant_TenantID [OF v(4)] assms(3) by simp
  from bind_tenant_OK [OF v(4) o(3) this] obtain resolve where
    "TenantResolver opts = Some resolve" "resolve (TenantID c0) = Inr (SkTenantID key)" "SkTenantID key \<noteq> []"
    "c = c0\<lparr>ResolvedTenantUUID := SkTenantID key\<rparr>" by blast
  then show ?thesis using v o jwt_keyfunc_OK [OF v(2)]
    by (intro exI [of _ getKey] exI [of _ resolve] exI [of _ kid] exI [of _ key]) simp
qed

lemma ValidateJWT_tenant:
  assumes "NewMultiTenantValidator cfg = Inr opts" and "VcRequireTenantID cfg" and "ValidateJWT lib opts tok = Inr c"
  shows "TenantID c \<noteq> []"
proof -
  have r: "RequireClaims opts = [''tenant_id'']" using assms(1,2) by (auto simp: NewMultiTenantValidator_def split: if_splits)
  obtain c0 kid key where "find (missing_claim c0) (RequireClaims opts) = None" "bind_tenant opts kid key c0 = Inr c"
    using ValidateJWT_OK [OF assms(3)] by metis
  then show ?thesis using r bind_tenant_TenantID by (fastforce simp: missing_claim_def split: if_splits)
qed

lemma revocation_check_OK:
  "revocation_check gw c k = AuthOK res \<longleftrightarrow> k = AuthOK res \<and>
     (case revocationRegistry gw of None \<Rightarrow> True
      | Some m \<Rightarrow> (\<exists>iat. IssuedAt c = Some iat \<and> \<not> IsRevoked m (TokenID c) (Subject c) (TenantID c) iat))"
  by (auto simp: revocation_check_def split: option.splits)

section \<open>Properties\<close>

text \<open>C5: Tenant binding: a token accepted by the multi-tenant validator that claims a tenant was
  verified with a registered key whose algorithm it names, and the claimed tenant resolves to
  the very tenant that owns that key.\<close>

theorem jwt_tenant_binding:
  assumes "NewMultiTenantValidator cfg = Inr opts" and "ValidateJWT lib opts tok = Inr c" and "TenantID c \<noteq> []"
  shows "\<exists>getKey resolve kid key. VcKeyRegistry cfg = Some getKey \<and> VcTenantResolver cfg = Some resolve
     \<and> getKey kid = Inr key \<and> SkAlgorithm key \<in> set (resolvedAlgorithms opts)
     \<and> VerifySignature lib (resolvedAlgorithms opts) 0 tok (SkPublicKey key) = VerifyOK
     \<and> resolve (TenantID c) = Inr (SkTenantID key) \<and> ResolvedTenantUUID c = SkTenantID key \<and> SkTenantID key \<noteq> []"
  using assms by (rule ValidateJWT_bound)

definition demo_claims :: claims where
  "demo_claims = \<lparr>Subject = ''alice'', TokenID = ''j1'', Issuer = [], IssuedAt = None, ExpiresAt = None,
     TenantID = ''acme'', Attributes = Map.empty, Roles = [], Groups = [], Scopes = [], ResolvedTenantUUID = ''u1''\<rparr>"

definition demo_lib :: jwt_lib where
  "demo_lib = \<lparr>ParseUnverified = (\<lambda>_. Some (\<lparr>HdrKid = FieldString ''k1'', HdrAlg = FieldString ''ES256''\<rparr>,
      demo_claims\<lparr>ResolvedTenantUUID := []\<rparr>)), VerifySignature = (\<lambda>_ _ _ _. VerifyOK)\<rparr>"

definition demo_config :: validator_config where
  "demo_config = \<lparr>VcKeyRegistry = Some (\<lambda>_. Inr \<lparr>SkTenantID = ''u1'', SkAlgorithm = ''ES256'', SkPublicKey = ''pk''\<rparr>),
     VcRequireTenantID = True, VcAllowedAlgorithms = [], VcAllowedIssuers = [], VcTenantResolver = Some (\<lambda>_. Inr ''u1'')\<rparr>"

definition demo_opts :: validate_opts where
  "demo_opts = \<lparr>KeyResolver = Some (\<lambda>_. Inr \<lparr>SkTenantID = ''u1'', SkAlgorithm = ''ES256'', SkPublicKey = ''pk''\<rparr>),
     AllowedAlgorithms = [], AllowedIssuers = [], Leeway = 0, MaxLifetime = 0, RequireClaims = [''tenant_id''],
     TenantResolver = Some (\<lambda>_. Inr ''u1''), DisableTenantBinding = False\<rparr>"

lemma demo_validates: "ValidateJWT demo_lib demo_opts ''tok'' = Inr demo_claims"
  by (simp add: ValidateJWT_def demo_lib_def demo_opts_def demo_claims_def check_issuer_def jwt_keyfunc_def
      resolvedAlgorithms_def check_lifetime_def missing_claim_def bind_tenant_def)

theorem jwt_tenant_binding_witness:
  "\<exists>getKey resolve kid key. VcKeyRegistry demo_config = Some getKey \<and> VcTenantResolver demo_config = Some resolve
     \<and> getKey kid = Inr key \<and> SkAlgorithm key \<in> set (resolvedAlgorithms demo_opts)
     \<and> VerifySignature demo_lib (resolvedAlgorithms demo_opts) 0 ''tok'' (SkPublicKey key) = VerifyOK
     \<and> resolve (TenantID demo_claims) = Inr (SkTenantID key) \<and> ResolvedTenantUUID demo_claims = SkTenantID key
     \<and> SkTenantID key \<noteq> []"
  by (rule jwt_tenant_binding [OF _ demo_validates])
     (simp_all add: NewMultiTenantValidator_def demo_config_def demo_opts_def demo_claims_def)

text \<open>The shape of an accepted request, whatever validates its token.\<close>

lemma authenticateRequest_OK:
  assumes "authenticateRequest gw u r = AuthOK res"
  shows "case ResClaims res of
      None \<Rightarrow> APIKeyOnly res \<and> ResTenantSlug res \<noteq> []
        \<and> (\<exists>info p. Lookup (apiKeyRegistry gw) (ExtractAPIKey r) = Some info \<and> tenantSlugResolver gw = Some p
             \<and> ResolveTenantSlug p (KeyTenantID info) = Inr (ResTenantSlug res) \<and> ResTenantUUID res = KeyTenantID info)
    | Some c \<Rightarrow> \<not> APIKeyOnly res \<and> validator gw (ExtractBearerToken r) = Inr c \<and> TokenID c \<noteq> []
        \<and> ResTenantSlug res = TenantID c \<and> ResTenantUUID res = ResolvedTenantUUID c \<and> Principal res = Subject c
        \<and> (ExtractAPIKey r = [] \<or> (\<exists>info. Lookup (apiKeyRegistry gw) (ExtractAPIKey r) = Some info
             \<and> ResolvedTenantUUID c = KeyTenantID info))
        \<and> (revocationRegistry gw = None \<or> (\<exists>m iat. revocationRegistry gw = Some m \<and> IssuedAt c = Some iat
             \<and> \<not> IsRevoked m (TokenID c) (Subject c) (TenantID c) iat))"
  using assms
  by (auto simp: authenticateRequest_def Let_def revocation_check_OK resolveAPIKeyTenantSlug_def
      MatchesTenantUUID_def split: if_splits option.splits sum.splits jwt_error.splits)

text \<open>C6: Every request the gateway accepts, with the multi-tenant validator and tenants required, has a tenant, and the tenant is proved by
  the credentials: with an API key alone it is the slug the key's owner resolves to; with a token, the token's signature verified with a
  registered key, and the tenant resolves to the owner of that key, which with both credentials is also the owner of the API key. A token has an
  identifier and, when revocation is configured, is not revoked.\<close>

theorem authenticated_identity:
  assumes "NewMultiTenantValidator cfg = Inr opts" and "VcRequireTenantID cfg" and "validator gw = ValidateJWT lib opts"
    and "authenticateRequest gw u r = AuthOK res"
  shows "ResTenantSlug res \<noteq> [] \<and>
    (case ResClaims res of
      None \<Rightarrow> APIKeyOnly res
        \<and> (\<exists>info p. Lookup (apiKeyRegistry gw) (ExtractAPIKey r) = Some info \<and> tenantSlugResolver gw = Some p
             \<and> ResolveTenantSlug p (KeyTenantID info) = Inr (ResTenantSlug res) \<and> ResTenantUUID res = KeyTenantID info)
    | Some c \<Rightarrow> \<not> APIKeyOnly res \<and> ResTenantSlug res = TenantID c \<and> Principal res = Subject c \<and> TokenID c \<noteq> []
        \<and> (\<exists>getKey resolve kid key. VcKeyRegistry cfg = Some getKey \<and> VcTenantResolver cfg = Some resolve \<and> getKey kid = Inr key
             \<and> VerifySignature lib (resolvedAlgorithms opts) 0 (ExtractBearerToken r) (SkPublicKey key) = VerifyOK
             \<and> SkTenantID key \<noteq> [] \<and> resolve (ResTenantSlug res) = Inr (SkTenantID key) \<and> ResTenantUUID res = SkTenantID key)
        \<and> (ExtractAPIKey r = [] \<or> (\<exists>info. Lookup (apiKeyRegistry gw) (ExtractAPIKey r) = Some info
             \<and> ResTenantUUID res = KeyTenantID info))
        \<and> (revocationRegistry gw = None \<or> (\<exists>m iat. revocationRegistry gw = Some m \<and> IssuedAt c = Some iat
             \<and> \<not> IsRevoked m (TokenID c) (Subject c) (TenantID c) iat)))"
proof (cases "ResClaims res")
  case None
  then show ?thesis using authenticateRequest_OK [OF assms(4)] by simp
next
  case (Some c)
  note a = authenticateRequest_OK [OF assms(4), unfolded Some option.case]
  from a have v: "ValidateJWT lib opts (ExtractBearerToken r) = Inr c" by (simp add: assms(3))
  note t = ValidateJWT_tenant [OF assms(1,2) v]
  show ?thesis using a t ValidateJWT_bound [OF assms(1) v t] unfolding Some option.case by fastforce
qed

definition demo_gateway :: gateway_auth where
  "demo_gateway = \<lparr>validator = ValidateJWT demo_lib demo_opts, apiKeyRegistry = Map.empty,
     tenantSlugResolver = None, revocationRegistry = None\<rparr>"

definition demo_request :: http_request where
  "demo_request = \<lparr>QueryToken = ''tok'', QueryAPIKey = [], AuthorizationHeader = [], APIKeyHeader = []\<rparr>"

definition demo_result :: auth_result where
  "demo_result = \<lparr>ResClaims = Some demo_claims, Principal = ''alice'', ResTenantSlug = ''acme'', ResTenantUUID = ''u1'',
     APIKeyOnly = False, APIKeyTenantID = [], AuthMethod = ''jwt'', APIKeyID = [], UserID = ''alice''\<rparr>"

lemma demo_authenticates: "authenticateRequest demo_gateway ''x'' demo_request = AuthOK demo_result"
  using demo_validates
  by (simp add: authenticateRequest_def demo_gateway_def demo_request_def demo_result_def ExtractBearerToken_def
      ExtractAPIKey_def revocation_check_def demo_claims_def)

theorem authenticated_identity_witness:
  "ResTenantSlug demo_result \<noteq> [] \<and>
    (case ResClaims demo_result of
      None \<Rightarrow> APIKeyOnly demo_result
        \<and> (\<exists>info p. Lookup (apiKeyRegistry demo_gateway) (ExtractAPIKey demo_request) = Some info \<and> tenantSlugResolver demo_gateway = Some p
             \<and> ResolveTenantSlug p (KeyTenantID info) = Inr (ResTenantSlug demo_result) \<and> ResTenantUUID demo_result = KeyTenantID info)
    | Some c \<Rightarrow> \<not> APIKeyOnly demo_result \<and> ResTenantSlug demo_result = TenantID c \<and> Principal demo_result = Subject c \<and> TokenID c \<noteq> []
        \<and> (\<exists>getKey resolve kid key. VcKeyRegistry demo_config = Some getKey \<and> VcTenantResolver demo_config = Some resolve \<and> getKey kid = Inr key
             \<and> VerifySignature demo_lib (resolvedAlgorithms demo_opts) 0 (ExtractBearerToken demo_request) (SkPublicKey key) = VerifyOK
             \<and> SkTenantID key \<noteq> [] \<and> resolve (ResTenantSlug demo_result) = Inr (SkTenantID key) \<and> ResTenantUUID demo_result = SkTenantID key)
        \<and> (ExtractAPIKey demo_request = [] \<or> (\<exists>info. Lookup (apiKeyRegistry demo_gateway) (ExtractAPIKey demo_request) = Some info
             \<and> ResTenantUUID demo_result = KeyTenantID info))
        \<and> (revocationRegistry demo_gateway = None \<or> (\<exists>m iat. revocationRegistry demo_gateway = Some m \<and> IssuedAt c = Some iat
             \<and> \<not> IsRevoked m (TokenID c) (Subject c) (TenantID c) iat)))"
proof (rule authenticated_identity [OF _ _ _ demo_authenticates])
  show "NewMultiTenantValidator demo_config = Inr demo_opts" by (simp add: NewMultiTenantValidator_def demo_config_def demo_opts_def)
qed (simp_all add: demo_config_def demo_gateway_def)

text \<open>A validated token without an issue time crashes the handler when revocation is
  configured: the issue time is dereferenced although no check requires it.\<close>

theorem missing_iat_panics:
  assumes "validator gw (ExtractBearerToken r) = Inr c" and "TokenID c \<noteq> []" and "IssuedAt c = None"
    and "revocationRegistry gw \<noteq> None" and "ExtractAPIKey r = []" and "ExtractBearerToken r \<noteq> []"
  shows "authenticateRequest gw u r = AuthPanic"
  using assms by (auto simp: authenticateRequest_def revocation_check_def)

theorem missing_iat_panics_witness:
  "authenticateRequest (demo_gateway\<lparr>revocationRegistry := Some empty_snapshot\<rparr>) ''x'' demo_request = AuthPanic"
  by (rule missing_iat_panics [of _ _ demo_claims])
     (simp_all add: demo_gateway_def demo_request_def ExtractBearerToken_def ExtractAPIKey_def demo_validates
        demo_claims_def)

end
