(* ===== verification/GatewayProxy.thy ===== *)
theory GatewayProxy
  imports Protocol GatewayPermissions Authentication
begin

text \<open>
  The gateway's WebSocket proxy (\<open>gateway/proxy.go\<close>, \<open>gateway/auth_protocol.go\<close>,
  \<open>gateway/close_reason.go\<close>): the two frame pumps between a client and a message server, the
  interception of subscribe, publish and auth messages, the tracking of acknowledged channels, the
  forced unsubscription after a token refresh, and force-close.

  A frame is taken after unmasking. What is written to a connection is the list of frames handed to
  it; network errors are arguments of the pump steps. The two rate limiters
  (\<open>golang.org/x/time/rate\<close>) are decisions passed in. A Go map is iterated in an unspecified
  order, which is the parameter \<open>pe_iter\<close>.
\<close>

section \<open>Frames\<close>

record ws_frame =
  fr_op :: nat
  fr_fin :: bool
  fr_masked :: bool
  fr_payload :: string

definition OpText :: nat where
  "OpText = 1"

definition OpClose :: nat where
  "OpClose = 8"

definition parseClosePayload :: "string \<Rightarrow> nat \<times> string" where
  "parseClosePayload s =
     (if length s \<ge> 2 then (byte (s ! 0) * 256 + byte (s ! 1), if length s > 2 then drop 2 s else []) else (0, []))"

text \<open>The close payload of \<open>ForceClose\<close> and of \<open>ws.NewCloseFrameBody\<close>: two bytes and the reason.\<close>

definition close_body :: "nat \<Rightarrow> string \<Rightarrow> string" where
  "close_body code reason = char_of (code div 256 mod 256) # char_of (code mod 256) # reason"

section \<open>The proxy\<close>

record proxy =
  px_claims :: "claims option"
  px_subscribed :: "string list"
  px_tenantID :: string
  px_apiKeyOnly :: bool
  px_apiKeyTenantID :: string
  px_maxPublishSize :: int
  px_maxFrameSize :: int
  px_closed :: bool
  px_closeReason :: string
  px_toBackend :: "ws_frame list"
  px_toClient :: "ws_frame list"

record proxy_env =
  pe_filter :: "string list \<Rightarrow> claims option \<Rightarrow> string list"
  pe_canPublish :: "claims option \<Rightarrow> string \<Rightarrow> bool"
  pe_validator :: "(string \<Rightarrow> jwt_error + claims) option"
  pe_iter :: "string list \<Rightarrow> string list"

text \<open>The closures that \<open>gateway.go\<close> passes to \<open>NewProxy\<close>.\<close>

definition gateway_env :: "rules_source option \<Rightarrow> string \<Rightarrow> (string \<Rightarrow> jwt_error + claims) option \<Rightarrow> (string list \<Rightarrow> string list) \<Rightarrow> proxy_env" where
  "gateway_env checker tenantID val it =
     \<lparr>pe_filter = (\<lambda>chs cl. fst (filterSubscribeChannels checker chs tenantID cl)),
      pe_canPublish = (\<lambda>cl ch. checkPublishAllowed checker tenantID cl ch), pe_validator = val, pe_iter = it\<rparr>"

definition NewProxy :: "claims option \<Rightarrow> string \<Rightarrow> bool \<Rightarrow> string \<Rightarrow> int \<Rightarrow> int \<Rightarrow> proxy" where
  "NewProxy cl tenantID keyOnly keyTenant maxPublish maxFrame =
     \<lparr>px_claims = cl, px_subscribed = [], px_tenantID = tenantID, px_apiKeyOnly = keyOnly, px_apiKeyTenantID = keyTenant,
      px_maxPublishSize = maxPublish, px_maxFrameSize = maxFrame, px_closed = False, px_closeReason = [],
      px_toBackend = [], px_toClient = []\<rparr>"

text \<open>Writing to a closed connection fails; the callers that ignore the error lose the frame.\<close>

definition sendToClient :: "nat \<Rightarrow> string \<Rightarrow> bool \<Rightarrow> proxy \<Rightarrow> proxy" where
  "sendToClient opc payload fin p =
     (if px_closed p then p
      else p\<lparr>px_toClient := px_toClient p @ [\<lparr>fr_op = opc, fr_fin = fin, fr_masked = False, fr_payload = payload\<rparr>]\<rparr>)"

definition forwardToBackend :: "nat \<Rightarrow> string \<Rightarrow> bool \<Rightarrow> proxy \<Rightarrow> proxy" where
  "forwardToBackend opc payload fin p =
     (if px_closed p then p
      else p\<lparr>px_toBackend := px_toBackend p @ [\<lparr>fr_op = opc, fr_fin = fin, fr_masked = True, fr_payload = payload\<rparr>]\<rparr>)"

definition sendCloseToClient :: "string \<Rightarrow> proxy \<Rightarrow> proxy" where
  "sendCloseToClient payload = sendToClient OpClose payload True"

definition forwardCloseFrame :: "string \<Rightarrow> proxy \<Rightarrow> proxy" where
  "forwardCloseFrame payload = forwardToBackend OpClose payload True"

section \<open>Subscribe\<close>

definition interceptSubscribe :: "proxy_env \<Rightarrow> ClientMessage \<Rightarrow> proxy \<Rightarrow> string option" where
  "interceptSubscribe env m p =
     (case decode_subscribe (cm_Data m) of
        None \<Rightarrow> marshal_client_message m
      | Some d \<Rightarrow>
          (let channels = pe_filter env (sd_Channels d) (px_claims p);
               dataBytes = marshal_subscribe \<lparr>sd_Channels = channels, sd_Channel = [], sd_History = None\<rparr>
           in marshal_client_message \<lparr>cm_Type = ''subscribe'', cm_Data = dataBytes\<rparr>))"

section \<open>Publish\<close>

definition sendPublishErrorToClient :: "string \<Rightarrow> proxy \<Rightarrow> proxy" where
  "sendPublishErrorToClient code =
     sendToClient OpText (json_obj [(''code'', json_string code), (''message'', json_string (PublishErrorMessage code)),
       (''type'', json_string ''publish_error'')]) True"

definition interceptPublish :: "proxy_env \<Rightarrow> bool \<Rightarrow> ClientMessage \<Rightarrow> proxy \<Rightarrow> proxy \<times> string option" where
  "interceptPublish env allowed m p =
     (if px_apiKeyOnly p then (sendPublishErrorToClient ''forbidden'' p, None)
      else if \<not> allowed then (sendPublishErrorToClient ''rate_limited'' p, None)
      else case decode_publish (cm_Data m) of
             None \<Rightarrow> (sendPublishErrorToClient ''invalid_request'' p, None)
           | Some (channel, data) \<Rightarrow>
               if int (length data) > px_maxPublishSize p then (sendPublishErrorToClient ''message_too_large'' p, None)
               else if length (Split channel ''.'') < MinInternalChannelParts then (sendPublishErrorToClient ''invalid_channel'' p, None)
               else if \<not> ValidateChannelTenant channel (px_tenantID p) then (sendPublishErrorToClient ''forbidden'' p, None)
               else if \<not> pe_canPublish env (px_claims p) channel then (sendPublishErrorToClient ''forbidden'' p, None)
               else (p, marshal_client_message m))"

section \<open>Token refresh\<close>

definition auth_data_field :: "string \<Rightarrow> string \<Rightarrow> string \<Rightarrow> string option" where
  "auth_data_field k v t = (if k = ''token'' then decode_text t v else Some t)"

definition decode_auth :: "string \<Rightarrow> string option" where
  "decode_auth = Unmarshal auth_data_field []"

definition AuthErrorMessages :: "(string \<times> string) list" where
  "AuthErrorMessages =
     [(''invalid_token'', ''Token validation failed''),
      (''token_expired'', ''Token has expired''),
      (''tenant_mismatch'', ''Token tenant does not match connection tenant''),
      (''rate_limited'', ''Auth refresh rate limit exceeded''),
      (''not_available'', ''Auth refresh is not available'')]"

definition sendAuthErrorToClient :: "string \<Rightarrow> proxy \<Rightarrow> proxy" where
  "sendAuthErrorToClient code =
     sendToClient OpText (json_obj [(''type'', json_string ''auth_error''),
       (''data'', json_obj [(''code'', json_string code),
          (''message'', json_string (case map_of AuthErrorMessages code of None \<Rightarrow> [] | Some m \<Rightarrow> m))])]) True"

definition refresh_error_code :: "jwt_error \<Rightarrow> string" where
  "refresh_error_code e =
     (case e of
        ErrTokenExpired \<Rightarrow> ''token_expired''
      | TenantMismatchError _ _ _ _ \<Rightarrow> ''tenant_mismatch''
      | _ \<Rightarrow> ''invalid_token'')"

text \<open>
  The refresh up to the snapshot of the tracked channels, taken under the lock: an error has been
  answered, or the new claims and the snapshot are kept for the rest. The backend pump may run
  between the two parts.
\<close>

definition auth_refresh_begin :: "proxy_env \<Rightarrow> bool \<Rightarrow> ClientMessage \<Rightarrow> proxy \<Rightarrow> proxy \<times> (claims \<times> string list) option" where
  "auth_refresh_begin env allowed m p =
     (if \<not> allowed then (sendAuthErrorToClient ''rate_limited'' p, None)
      else if decode_auth (cm_Data m) \<in> {None, Some []} then (sendAuthErrorToClient ''invalid_token'' p, None)
      else case pe_validator env of
             None \<Rightarrow> (sendAuthErrorToClient ''not_available'' p, None)
           | Some val \<Rightarrow>
               (case val (the (decode_auth (cm_Data m))) of
                  Inl e \<Rightarrow> (sendAuthErrorToClient (refresh_error_code e) p, None)
                | Inr c \<Rightarrow>
                    if TenantID c \<noteq> px_tenantID p then (sendAuthErrorToClient ''tenant_mismatch'' p, None)
                    else if px_apiKeyTenantID p \<noteq> [] \<and> \<not> MatchesTenantUUID c (px_apiKeyTenantID p)
                    then (sendAuthErrorToClient ''tenant_mismatch'' p, None)
                    else (p, Some (c, pe_iter env (px_subscribed p)))))"

definition forceUnsubscribeRevokedChannels :: "proxy_env \<Rightarrow> claims \<Rightarrow> string list \<Rightarrow> proxy \<Rightarrow> proxy" where
  "forceUnsubscribeRevokedChannels env newClaims subscribed p =
     (if subscribed = [] then p
      else
        let permitted = pe_filter env subscribed (Some newClaims);
            revoked = filter (\<lambda>ch. ch \<notin> set permitted) subscribed;
            p = p\<lparr>px_subscribed := filter (\<lambda>ch. ch \<notin> set revoked) (px_subscribed p)\<rparr>
        in if revoked = [] then p
           else
             let p = (case marshal_client_message
                          \<lparr>cm_Type = ''unsubscribe'',
                           cm_Data = marshal_subscribe \<lparr>sd_Channels = revoked, sd_Channel = [], sd_History = None\<rparr>\<rparr> of
                        None \<Rightarrow> p
                      | Some d \<Rightarrow> forwardToBackend OpText d True p)
             in sendToClient OpText (json_obj [(''forced'', ''true''), (''type'', json_string ''unsubscription_ack''),
                  (''unsubscribed'', json_strings revoked)]) True p)"

definition auth_refresh_finish :: "proxy_env \<Rightarrow> claims \<Rightarrow> string list \<Rightarrow> proxy \<Rightarrow> proxy" where
  "auth_refresh_finish env newClaims subscribed p =
     (let p = forceUnsubscribeRevokedChannels env newClaims subscribed p;
          p = p\<lparr>px_claims := Some newClaims, px_apiKeyOnly := False\<rparr>;
          exp = (case ExpiresAt newClaims of None \<Rightarrow> 0 | Some t \<Rightarrow> t)
      in sendToClient OpText (json_obj [(''type'', json_string ''auth_ack''), (''data'', json_obj [(''exp'', FormatInt exp)])]) True p)"

definition interceptAuthRefresh :: "proxy_env \<Rightarrow> bool \<Rightarrow> ClientMessage \<Rightarrow> proxy \<Rightarrow> proxy" where
  "interceptAuthRefresh env allowed m p =
     (case auth_refresh_begin env allowed m p of
        (p, None) \<Rightarrow> p
      | (p, Some (c, subscribed)) \<Rightarrow> auth_refresh_finish env c subscribed p)"

section \<open>Interception\<close>

text \<open>
  What becomes of a text message: it is forwarded, it was consumed, or a token refresh has reached
  its snapshot. \<open>publishOK\<close> and \<open>authOK\<close> are the limiters' answers, should they be asked.
\<close>

datatype intercepted = Forward string | Consumed | Refresh claims "string list"

definition interceptClientMessage :: "proxy_env \<Rightarrow> bool \<Rightarrow> bool \<Rightarrow> string \<Rightarrow> proxy \<Rightarrow> proxy \<times> intercepted" where
  "interceptClientMessage env publishOK authOK msg p =
     (let reply = (\<lambda>d. case d of None \<Rightarrow> Consumed | Some x \<Rightarrow> Forward x)
      in if px_tenantID p = [] then (p, Forward msg)
         else if length msg = 0 \<or> hd msg \<noteq> CHR ''{'' then (p, Forward msg)
         else case decode_client_message msg of
                None \<Rightarrow> (p, Forward msg)
              | Some m \<Rightarrow>
                  if cm_Type m = ''subscribe'' then (p, reply (interceptSubscribe env m p))
                  else if cm_Type m = ''publish'' then apsnd reply (interceptPublish env publishOK m p)
                  else if cm_Type m = ''auth''
                  then (case auth_refresh_begin env authOK m p of
                          (p, None) \<Rightarrow> (p, Consumed)
                        | (p, Some (c, subscribed)) \<Rightarrow> (p, Refresh c subscribed))
                  else (p, Forward msg))"

section \<open>Tracking acknowledgements\<close>

record tracked_ack =
  ta_Type :: string
  ta_Subscribed :: "string list option"
  ta_Unsubscribed :: "string list option"

definition tracked_ack_field :: "string \<Rightarrow> string \<Rightarrow> tracked_ack \<Rightarrow> tracked_ack option" where
  "tracked_ack_field k v a =
     (if k = ''type'' then map_option (\<lambda>t. a\<lparr>ta_Type := t\<rparr>) (decode_text (ta_Type a) v)
      else if k = ''subscribed'' then map_option (\<lambda>l. a\<lparr>ta_Subscribed := l\<rparr>) (decode_texts (ta_Subscribed a) v)
      else if k = ''unsubscribed'' then map_option (\<lambda>l. a\<lparr>ta_Unsubscribed := l\<rparr>) (decode_texts (ta_Unsubscribed a) v)
      else Some a)"

definition decode_ack :: "string \<Rightarrow> tracked_ack option" where
  "decode_ack = Unmarshal tracked_ack_field \<lparr>ta_Type = [], ta_Subscribed = None, ta_Unsubscribed = None\<rparr>"

definition subscriptionAckPrefixScanLen :: nat where
  "subscriptionAckPrefixScanLen = 80"

definition track_channel :: "string list \<Rightarrow> string \<Rightarrow> string list" where
  "track_channel chs ch = (if ch \<in> set chs then chs else chs @ [ch])"

definition trackSubscriptionResponse :: "string \<Rightarrow> proxy \<Rightarrow> proxy" where
  "trackSubscriptionResponse payload p =
     (if \<not> Contains (take (min subscriptionAckPrefixScanLen (length payload)) payload) ''_ack'' then p
      else case decode_ack payload of
             None \<Rightarrow> p
           | Some a \<Rightarrow>
               if ta_Type a = ''subscription_ack''
               then p\<lparr>px_subscribed := foldl track_channel (px_subscribed p) (case ta_Subscribed a of None \<Rightarrow> [] | Some l \<Rightarrow> l)\<rparr>
               else if ta_Type a = ''unsubscription_ack''
               then p\<lparr>px_subscribed := foldl (\<lambda>chs ch. removeAll ch chs) (px_subscribed p)
                        (case ta_Unsubscribed a of None \<Rightarrow> [] | Some l \<Rightarrow> l)\<rparr>
               else p)"

section \<open>Closing\<close>

text \<open>
  \<open>ForceClose\<close> sends the close frame under the write mutex and then enters \<open>closeOnce\<close>; other
  goroutines run in between.
\<close>

definition ForceClose_send :: "nat \<Rightarrow> string \<Rightarrow> proxy \<Rightarrow> proxy" where
  "ForceClose_send code reason p = sendCloseToClient (close_body code reason) p"

definition ForceClose_once :: "string \<Rightarrow> proxy \<Rightarrow> proxy" where
  "ForceClose_once reason p = (if px_closed p then p else p\<lparr>px_closed := True, px_closeReason := reason\<rparr>)"

text \<open>The teardown at the end of \<open>Run\<close>, through the same \<open>closeOnce\<close>: it stores no reason.\<close>

definition close_connections :: "proxy \<Rightarrow> proxy" where
  "close_connections p = p\<lparr>px_closed := True\<rparr>"

definition ConnectionClaims :: "proxy \<Rightarrow> string \<times> string \<times> int" where
  "ConnectionClaims p =
     (case px_claims p of
        None \<Rightarrow> ([], [], 0)
      | Some c \<Rightarrow> (Subject c, TokenID c, case IssuedAt c of None \<Rightarrow> 0 | Some t \<Rightarrow> t))"

definition resolveCloseReason :: "string \<Rightarrow> string \<Rightarrow> string" where
  "resolveCloseReason stored fallback =
     (if stored = ''token revoked'' then ''token_revoked''
      else if stored = ''user revoked'' then ''user_revoked''
      else if stored = [] then fallback
      else stored)"

definition disconnect_reason :: "proxy option \<Rightarrow> string \<Rightarrow> string" where
  "disconnect_reason px fallback =
     (case px of None \<Rightarrow> fallback | Some p \<Rightarrow> resolveCloseReason (px_closeReason p) fallback)"

section \<open>The pumps\<close>

text \<open>
  What a read from a connection gives: no header, a header whose payload (of the given length) could
  not be read, or a frame. A pump iteration goes on, waits in the middle of a token refresh, or ends
  with what it reports.
\<close>

datatype conn_read = HeaderError | PayloadError int | FrameRead ws_frame

datatype pump_error = NormalClose | ContextDone | ReadError | FrameTooLarge | WriteError

datatype pump = PumpOn | PumpRefresh claims "string list" | PumpEnd pump_error

definition client_too_large :: "proxy \<Rightarrow> proxy \<times> pump" where
  "client_too_large p = (sendCloseToClient (close_body 1009 ''Frame too large'') p, PumpEnd FrameTooLarge)"

definition proxyClientToBackend ::
  "proxy_env \<Rightarrow> bool \<Rightarrow> bool \<Rightarrow> bool \<Rightarrow> bool \<Rightarrow> conn_read \<Rightarrow> proxy \<Rightarrow> proxy \<times> pump" where
  "proxyClientToBackend env ctxDone writeOK publishOK authOK rd p =
     (case rd of
        HeaderError \<Rightarrow> (p, PumpEnd (if ctxDone then ContextDone else ReadError))
      | PayloadError n \<Rightarrow> if n > px_maxFrameSize p then client_too_large p else (p, PumpEnd ReadError)
      | FrameRead f \<Rightarrow>
          if int (length (fr_payload f)) > px_maxFrameSize p then client_too_large p
          else if fr_op f = OpClose then (forwardCloseFrame (fr_payload f) p, PumpEnd NormalClose)
          else
            let (p, r) = (if fr_op f = OpText then interceptClientMessage env publishOK authOK (fr_payload f) p
                          else (p, Forward (fr_payload f)))
            in case r of
                 Consumed \<Rightarrow> (p, PumpOn)
               | Refresh c chs \<Rightarrow> (p, PumpRefresh c chs)
               | Forward payload \<Rightarrow>
                   if writeOK \<and> \<not> px_closed p then (forwardToBackend (fr_op f) payload (fr_fin f) p, PumpOn)
                   else (p, PumpEnd WriteError))"

definition proxyBackendToClient :: "bool \<Rightarrow> bool \<Rightarrow> conn_read \<Rightarrow> proxy \<Rightarrow> proxy \<times> pump" where
  "proxyBackendToClient ctxDone writeOK rd p =
     (case rd of
        HeaderError \<Rightarrow> (p, PumpEnd (if ctxDone then ContextDone else ReadError))
      | PayloadError n \<Rightarrow> (p, PumpEnd (if n > px_maxFrameSize p then FrameTooLarge else ReadError))
      | FrameRead f \<Rightarrow>
          if int (length (fr_payload f)) > px_maxFrameSize p then (p, PumpEnd FrameTooLarge)
          else if fr_op f = OpClose then (sendCloseToClient (fr_payload f) p, PumpEnd NormalClose)
          else
            let p = (if fr_op f = OpText then trackSubscriptionResponse (fr_payload f) p else p)
            in if writeOK \<and> \<not> px_closed p then (sendToClient (fr_op f) (fr_payload f) (fr_fin f) p, PumpOn)
               else (p, PumpEnd WriteError))"

text \<open>
  \<open>Run\<close>: the two pumps, the two steps of each force-close from elsewhere, the cancellation of the
  context, and the teardown once a pump has ended or the context is done. \<open>pr_forcing\<close> are the
  reasons of the force-closes between their two steps. On a closed connection a read gives no
  frame.
\<close>

record proxy_run =
  pr_proxy :: proxy
  pr_client :: pump
  pr_backend :: pump
  pr_forcing :: "string list"
  pr_ctx :: bool

abbreviation ended_pump :: "pump \<Rightarrow> bool" where
  "ended_pump x \<equiv> (\<exists>e. x = PumpEnd e)"

definition readable :: "proxy \<Rightarrow> conn_read \<Rightarrow> bool" where
  "readable p rd \<longleftrightarrow> (px_closed p \<longrightarrow> rd = HeaderError)"

inductive proxy_step :: "proxy_env \<Rightarrow> proxy_run \<Rightarrow> proxy_run \<Rightarrow> bool" for env :: proxy_env where
  step_client:
  "pr_client s = PumpOn \<Longrightarrow> readable (pr_proxy s) rd \<Longrightarrow> proxyClientToBackend env (pr_ctx s) wok pok aok rd (pr_proxy s) = (p, r) \<Longrightarrow>
     proxy_step env s (s\<lparr>pr_proxy := p, pr_client := r\<rparr>)"
| step_refresh:
  "pr_client s = PumpRefresh c chs \<Longrightarrow>
     proxy_step env s (s\<lparr>pr_proxy := auth_refresh_finish env c chs (pr_proxy s), pr_client := PumpOn\<rparr>)"
| step_backend:
  "pr_backend s = PumpOn \<Longrightarrow> readable (pr_proxy s) rd \<Longrightarrow> proxyBackendToClient (pr_ctx s) wok rd (pr_proxy s) = (p, r) \<Longrightarrow>
     proxy_step env s (s\<lparr>pr_proxy := p, pr_backend := r\<rparr>)"
| step_force_send:
  "proxy_step env s (s\<lparr>pr_proxy := ForceClose_send code reason (pr_proxy s), pr_forcing := pr_forcing s @ [reason]\<rparr>)"
| step_force_once:
  "reason \<in> set (pr_forcing s) \<Longrightarrow>
     proxy_step env s (s\<lparr>pr_proxy := ForceClose_once reason (pr_proxy s), pr_forcing := remove1 reason (pr_forcing s)\<rparr>)"
| step_cancel: "proxy_step env s (s\<lparr>pr_ctx := True\<rparr>)"
| step_teardown:
  "ended_pump (pr_client s) \<or> ended_pump (pr_backend s) \<or> pr_ctx s \<Longrightarrow>
     proxy_step env s (s\<lparr>pr_proxy := close_connections (pr_proxy s)\<rparr>)"

definition start_run :: "proxy \<Rightarrow> proxy_run" where
  "start_run p = \<lparr>pr_proxy = p, pr_client = PumpOn, pr_backend = PumpOn, pr_forcing = [], pr_ctx = False\<rparr>"

inductive_cases proxy_stepE: "proxy_step env s s'"

section \<open>What the operations leave alone\<close>

lemma send_keeps [simp]:
  "px_claims (sendToClient x y z p) = px_claims p" "px_subscribed (sendToClient x y z p) = px_subscribed p"
  "px_tenantID (sendToClient x y z p) = px_tenantID p" "px_apiKeyOnly (sendToClient x y z p) = px_apiKeyOnly p"
  "px_apiKeyTenantID (sendToClient x y z p) = px_apiKeyTenantID p" "px_closed (sendToClient x y z p) = px_closed p"
  "px_closeReason (sendToClient x y z p) = px_closeReason p" "px_toBackend (sendToClient x y z p) = px_toBackend p"
  by (simp_all add: sendToClient_def)

lemma forward_keeps [simp]:
  "px_claims (forwardToBackend x y z p) = px_claims p" "px_subscribed (forwardToBackend x y z p) = px_subscribed p"
  "px_tenantID (forwardToBackend x y z p) = px_tenantID p" "px_apiKeyOnly (forwardToBackend x y z p) = px_apiKeyOnly p"
  "px_apiKeyTenantID (forwardToBackend x y z p) = px_apiKeyTenantID p" "px_closed (forwardToBackend x y z p) = px_closed p"
  "px_closeReason (forwardToBackend x y z p) = px_closeReason p" "px_toClient (forwardToBackend x y z p) = px_toClient p"
  by (simp_all add: forwardToBackend_def)

lemmas reply_unfolds = sendPublishErrorToClient_def sendAuthErrorToClient_def sendCloseToClient_def forwardCloseFrame_def

end
