(* ===== verification/ProxySafety.thy ===== *)
theory ProxySafety
  imports GatewayProxy
begin

text \<open>
  What the proxy lets through: which subscriptions and publications can reach the message server
  for a client behind the gateway, what a token refresh changes, and how a connection is closed.
\<close>

section \<open>Rewritten messages\<close>

lemma intercept_parsed:
  assumes "px_tenantID p \<noteq> []" "msg \<noteq> []" "hd msg = CHR ''{''" "decode_client_message msg = Some m"
  shows "interceptClientMessage env pok aok msg p =
     (if cm_Type m = ''subscribe'' then (p, case interceptSubscribe env m p of None \<Rightarrow> Consumed | Some x \<Rightarrow> Forward x)
      else if cm_Type m = ''publish'' then apsnd (\<lambda>d. case d of None \<Rightarrow> Consumed | Some x \<Rightarrow> Forward x) (interceptPublish env pok m p)
      else if cm_Type m = ''auth''
      then (case auth_refresh_begin env aok m p of
              (p, None) \<Rightarrow> (p, Consumed) | (p, Some (c, subscribed)) \<Rightarrow> (p, Refresh c subscribed))
      else (p, Forward msg))"
  using assms by (simp add: interceptClientMessage_def)

lemma intercept_passed:
  "px_tenantID p = [] \<or> msg = [] \<or> hd msg \<noteq> CHR ''{'' \<or> decode_client_message msg = None \<Longrightarrow>
     interceptClientMessage env pok aok msg p = (p, Forward msg)"
  by (elim disjE) (simp_all add: interceptClientMessage_def Let_def)

lemma decode_request_Some: "decode_client_message s = Some m \<Longrightarrow> decode_request s = Some (request_of m)"
  by (simp add: decode_request_def)

lemma filterSubscribe_subset: "set (fst (filterSubscribeChannels checker chs t cl)) \<subseteq> set chs"
proof (cases checker)
  case (Some src)
  then show ?thesis by (auto simp: filterSubscribe_eq)
qed (simp add: filterSubscribeChannels_def case_prod_unfold Let_def)

lemma valid_names [simp]: "valid_utf8 ''subscribe''" "valid_utf8 ''unsubscribe''" "valid_utf8 ''publish''"
  by (simp_all add: byte_def)

text \<open>The messages the gateway builds itself are read by the server as they were meant.\<close>

lemma channels_value_text:
  assumes "list_all valid_utf8 chs"
  shows "value_text (maxNestingDepth - 1) (marshal_subscribe \<lparr>sd_Channels = chs, sd_Channel = [], sd_History = None\<rparr>)" (is "value_text _ ?t")
proof -
  obtain d where d: "maxNestingDepth - 1 = Suc d" "\<exists>e. d = Suc e" using depth_Suc by (metis One_nat_def old.nat.inject)
  then obtain e where e: "d = Suc e" by blast
  let ?kvs = "if chs = [] then [] else [(''channels'', json_strings chs)]"
  have t: "?t = json_obj ?kvs" by (simp add: marshal_subscribe_def)
  have "token (Suc d) ?t" unfolding t
    by (rule obj_token [OF _ plain_good]) (auto simp: strings_token e)
  then have "is_value (maxNestingDepth - 1) (?t @ []) []" unfolding d(1) by (rule token_value) simp
  from compact_grammar(1) [OF this] obtain p where "skip_ws ?t = p" "value_text (maxNestingDepth - 1) p" by auto
  moreover have "skip_ws ?t = ?t" using skip_token [OF \<open>token (Suc d) ?t\<close>, of "[]"] by simp
  ultimately show ?thesis by simp
qed

lemma built_message:
  assumes "list_all valid_utf8 chs" "valid_utf8 ty"
  shows "\<exists>out. marshal_client_message \<lparr>cm_Type = ty, cm_Data = marshal_subscribe \<lparr>sd_Channels = chs, sd_Channel = [], sd_History = None\<rparr>\<rparr> = Some out
     \<and> decode_client_message out = Some \<lparr>cm_Type = ty,
          cm_Data = compact_text False (marshal_subscribe \<lparr>sd_Channels = chs, sd_Channel = [], sd_History = None\<rparr>)\<rparr>"
  using decode_marshal_message [of "\<lparr>cm_Type = ty, cm_Data = marshal_subscribe \<lparr>sd_Channels = chs, sd_Channel = [], sd_History = None\<rparr>\<rparr>"]
    channels_value_text [OF assms(1)] assms(2) by (simp add: data_ok_def)

lemma built_subscribe:
  assumes "list_all valid_utf8 chs"
  shows "\<exists>out. marshal_client_message \<lparr>cm_Type = ''subscribe'', cm_Data = marshal_subscribe \<lparr>sd_Channels = chs, sd_Channel = [], sd_History = None\<rparr>\<rparr> = Some out
     \<and> decode_request out = Some (ReqSubscribe (Some \<lparr>sd_Channels = chs, sd_Channel = [], sd_History = None\<rparr>))"
proof -
  let ?d = "\<lparr>sd_Channels = chs, sd_Channel = [], sd_History = None\<rparr>"
  have "decode_subscribe (compact_text False (marshal_subscribe ?d)) = Some ?d"
    using decode_subscribe_compact [OF channels_value_text [OF assms]] decode_marshal_subscribe [of ?d] assms
    by (simp add: subscribe_ok_def)
  moreover obtain out where "marshal_client_message \<lparr>cm_Type = ''subscribe'', cm_Data = marshal_subscribe ?d\<rparr> = Some out"
    and "decode_client_message out = Some \<lparr>cm_Type = ''subscribe'', cm_Data = compact_text False (marshal_subscribe ?d)\<rparr>"
    using built_message [OF assms valid_names(1)] by blast
  ultimately show ?thesis by (simp add: decode_request_Some request_of_def)
qed

lemma remarshalled:
  assumes "data_ok m" "marshal_client_message m = Some out" "valid_utf8 (cm_Type m)"
  shows "decode_client_message out = Some (m\<lparr>cm_Data := compact_text False (cm_Data m)\<rparr>)"
proof -
  from decode_marshal_message [OF assms(3,1)] obtain s where "marshal_client_message m = Some s"
    and "decode_client_message s = Some (m\<lparr>cm_Data := compact_text False (cm_Data m)\<rparr>)" by blast
  with assms(2) show ?thesis by simp
qed

section \<open>Subscriptions\<close>

text \<open>The text of a subscribe message, as a client would render it.\<close>

definition subscribe_text :: "string list \<Rightarrow> string" where
  "subscribe_text chs = json_obj [(''type'', json_string ''subscribe''),
     (''data'', marshal_subscribe \<lparr>sd_Channels = chs, sd_Channel = [], sd_History = None\<rparr>)]"

lemma subscribe_text_hd: "subscribe_text chs \<noteq> []" "hd (subscribe_text chs) = CHR ''{''"
  by (simp_all add: subscribe_text_def json_obj_def)

lemma decode_subscribe_text:
  assumes "list_all valid_utf8 chs"
  shows "decode_client_message (subscribe_text chs) =
     Some \<lparr>cm_Type = ''subscribe'', cm_Data = marshal_subscribe \<lparr>sd_Channels = chs, sd_Channel = [], sd_History = None\<rparr>\<rparr>"
    and "decode_subscribe (marshal_subscribe \<lparr>sd_Channels = chs, sd_Channel = [], sd_History = None\<rparr>) =
     Some \<lparr>sd_Channels = chs, sd_Channel = [], sd_History = None\<rparr>"
proof -
  let ?kvs = "[(''type'', json_string ''subscribe''), (''data'', marshal_subscribe \<lparr>sd_Channels = chs, sd_Channel = [], sd_History = None\<rparr>)]"
  have "object_of (json_obj ?kvs) = Some ?kvs"
    by (rule object_of_obj) (use value_textD(3) [OF channels_value_text [OF assms]] in \<open>auto simp: string_token\<close>)
  then show "decode_client_message (subscribe_text chs) =
     Some \<lparr>cm_Type = ''subscribe'', cm_Data = marshal_subscribe \<lparr>sd_Channels = chs, sd_Channel = [], sd_History = None\<rparr>\<rparr>"
    by (simp add: subscribe_text_def decode_client_message_def Unmarshal_def client_message_field_def decode_text_string [OF valid_names(1)])
  show "decode_subscribe (marshal_subscribe \<lparr>sd_Channels = chs, sd_Channel = [], sd_History = None\<rparr>) =
     Some \<lparr>sd_Channels = chs, sd_Channel = [], sd_History = None\<rparr>"
    by (rule decode_marshal_subscribe) (use assms in \<open>simp add: subscribe_ok_def\<close>)
qed

definition demo_rules :: rules_source where
  "demo_rules = \<lparr>SrcGetChannelRules = (\<lambda>_. Inr (NewChannelRules\<lparr>Public := [''*'']\<rparr>)), SrcSnapshotReceived = True, SrcConnected = True\<rparr>"

definition demo_proxy :: proxy where
  "demo_proxy = NewProxy None ''acme'' True ''u1'' 100 1000"

lemma demo_tenant [simp]: "px_tenantID demo_proxy = ''acme''" "px_claims demo_proxy = None"
  by (simp_all add: demo_proxy_def NewProxy_def)

lemma demo_utf8 [simp]: "list_all valid_utf8 [''acme.BTC'', ''globex.BTC'']"
  by (simp add: byte_def)

text \<open>C3: For a text message that starts with an opening brace, decodes as a subscribe message and
  whose payload decodes, the gateway forwards one message, and what the server decodes from it is a
  plain subscribe for exactly the channels that the tenant's rules allow under the connection's
  current claims; the single-channel and history fields of the client's message are dropped.\<close>

theorem gateway_subscribe_exact:
  assumes "px_tenantID p \<noteq> []" "msg \<noteq> []" "hd msg = CHR ''{''" "decode_client_message msg = Some m"
    and "cm_Type m = ''subscribe''" "decode_subscribe (cm_Data m) = Some d"
  shows "\<exists>out. interceptClientMessage (gateway_env checker t val it) pok aok msg p = (p, Forward out)
     \<and> decode_request out = Some (ReqSubscribe (Some
          \<lparr>sd_Channels = fst (filterSubscribeChannels checker (sd_Channels d) t (px_claims p)), sd_Channel = [], sd_History = None\<rparr>))"
proof -
  let ?chs = "fst (filterSubscribeChannels checker (sd_Channels d) t (px_claims p))"
  have "set ?chs \<subseteq> set (sd_Channels d)" by (rule filterSubscribe_subset)
  then have "list_all valid_utf8 ?chs" using decode_subscribe_valid [OF assms(6)] by (auto simp: list_all_iff)
  from built_subscribe [OF this] obtain out
    where "interceptSubscribe (gateway_env checker t val it) m p = Some out"
      and "decode_request out = Some (ReqSubscribe (Some \<lparr>sd_Channels = ?chs, sd_Channel = [], sd_History = None\<rparr>))"
    using assms(6) by (auto simp: interceptSubscribe_def gateway_env_def Let_def)
  then show ?thesis using assms(5) by (auto simp: intercept_parsed [OF assms(1-4)])
qed

theorem gateway_subscribe_exact_witness:
  "\<exists>out. interceptClientMessage (gateway_env (Some demo_rules) ''acme'' None id) True True (subscribe_text [''acme.BTC'', ''globex.BTC'']) demo_proxy = (demo_proxy, Forward out)
     \<and> decode_request out = Some (ReqSubscribe (Some
          \<lparr>sd_Channels = fst (filterSubscribeChannels (Some demo_rules) [''acme.BTC'', ''globex.BTC''] ''acme'' None), sd_Channel = [], sd_History = None\<rparr>))"
  using gateway_subscribe_exact [OF _ subscribe_text_hd decode_subscribe_text(1) [OF demo_utf8] _ , of demo_proxy, simplified,
      OF decode_subscribe_text(2) [OF demo_utf8], of "Some demo_rules" "''acme''" None id True True]
  by simp

text \<open>What a request may add to the channels of a client.\<close>

fun may_subscribe :: "string \<Rightarrow> client_request option \<Rightarrow> string set" where
  "may_subscribe t (Some (ReqSubscribe (Some d))) = (if sd_History d \<noteq> None then {sd_Channel d} else set (sd_Channels d))"
| "may_subscribe t (Some (ReqReconnect (Some lp))) = {ch \<in> fst ` set lp. ValidateChannelTenant ch t}"
| "may_subscribe t _ = {}"

lemma upd_client_heap [simp]: "heap (upd_client s c f) c = f (heap s c)"
  by (simp add: upd_client_def)

lemma subscribe_client_heap [simp]:
  "subscriptions (heap (subscribe_client s c chs) c) = subscriptions (heap s c) \<union> set chs"
  "subscriptions (heap (unsubscribe_client s c chs) c) = subscriptions (heap s c) - set chs"
  by (simp_all add: subscribe_client_def unsubscribe_client_def)

lemma history_keeps_subs: "handleHistoryRequest cfg hist ch limit cl = (cl', dl) \<Longrightarrow> subscriptions cl' = subscriptions cl"
  unfolding handleHistoryRequest_def reply_defs by (auto split: option.splits prod.splits if_splits)

lemma replay_keeps_subs: "handleReplayRequest cfg be now req cl = (cl', dl) \<Longrightarrow> subscriptions cl' = subscriptions cl"
  unfolding handleReplayRequest_def reply_defs by (auto simp: Let_def split: option.splits prod.splits if_splits)

lemma publish_keeps_subs: "subscriptions (heap (fst (handleClientPublish be allowed req c s)) c) = subscriptions (heap s c)"
  unfolding handleClientPublish_def reply_defs by (auto simp: Let_def split: option.splits sum.splits)

lemma subscribe_adds:
  "subscriptions (heap (fst (handle_subscribe env req c s)) c) \<subseteq> subscriptions (heap s c) \<union> may_subscribe t (Some (ReqSubscribe req))"
proof (cases req)
  case (Some d)
  then show ?thesis
    by (cases "sd_History d")
       (auto simp: handle_subscribe_def reply_defs Let_def split: if_splits prod.splits dest: history_keeps_subs)
qed (simp add: handle_subscribe_def reply_defs)

lemma reconnect_adds:
  assumes "case req of None \<Rightarrow> True | Some lp \<Rightarrow> distinct (map fst lp)"
  shows "subscriptions (heap (handleReconnect cmp cfg be now expired req c s) c) \<subseteq>
     subscriptions (heap s c) \<union> may_subscribe (cl_tenantID (heap s c)) (Some (ReqReconnect req))"
proof (cases "\<exists>lp b. req = Some lp \<and> be = Some b")
  case True
  then obtain lp b ps auth where h: "req = Some lp" "be = Some b" "authorizeLastPos cfg b (heap s c) lp = (ps, auth)"
    by (metis prod.collapse)
  have auth: "set auth \<subseteq> may_subscribe (cl_tenantID (heap s c)) (Some (ReqReconnect req))"
    using authorized_ok(2,3) [OF h(3)] assms h(1) by (auto simp: list_all_iff)
  have "subscriptions cl = subscriptions (heap (subscribe_client s c auth) c)"
    if "replayAuthorizedToClient cmp cfg b now expired (heap (subscribe_client s c auth) c) ps auth = Inr (cl, n, tr)" for cl n tr
    using that by (auto simp: replayAuthorizedToClient_def keeps_def split: sum.splits prod.splits dest!: forward_loop_keeps)
  with auth show ?thesis using h
    by (auto simp: handleReconnect_def reply_defs Let_def split: sum.splits prod.splits)
next
  case False
  then show ?thesis by (auto simp: handleReconnect_def reply_defs split: option.splits)
qed

lemma message_adds:
  assumes "request_ok req"
  shows "subscriptions (heap (fst (handleClientMessage env now allowed expired req c s)) c) \<subseteq>
     subscriptions (heap s c) \<union> may_subscribe (cl_tenantID (heap s c)) req"
proof (cases req)
  case (Some q)
  show ?thesis
  proof (cases q)
    case (ReqReconnect lp)
    then have "case lp of None \<Rightarrow> True | Some lp \<Rightarrow> distinct (map fst lp)" using assms Some by (cases lp) simp_all
    from reconnect_adds [OF this] show ?thesis using Some ReqReconnect by (simp add: handleClientMessage_def)
  next
    case (ReqSubscribe d)
    then show ?thesis using Some subscribe_adds [of env d c s] by (simp add: handleClientMessage_def)
  next
    case (ReqUnsubscribe d)
    then show ?thesis using Some by (auto simp: handleClientMessage_def handle_unsubscribe_def reply_defs Let_def split: option.splits)
  next
    case (ReqHistory h)
    then show ?thesis using Some
      by (cases h) (auto simp: handleClientMessage_def reply_defs split: prod.splits dest: history_keeps_subs)
  next
    case (ReqReplay r)
    then show ?thesis using Some by (auto simp: handleClientMessage_def split: prod.splits dest: replay_keeps_subs)
  next
    case (ReqPublish d)
    then show ?thesis using Some publish_keeps_subs by (simp add: handleClientMessage_def)
  qed (use Some in \<open>simp_all add: handleClientMessage_def\<close>)
qed (simp add: handleClientMessage_def reply_defs)

section \<open>The interface to the authorisation rules\<close>

text \<open>
  The proxy relies on two laws of the subscribe filter it is given: it only drops channels, and it
  keeps only channels of the tenant.
\<close>

locale subscribe_filter =
  fixes env :: proxy_env and t :: string
  assumes filter_subset: "set (pe_filter env chs cl) \<subseteq> set chs"
    and filter_tenant: "ch \<in> set (pe_filter env chs cl) \<Longrightarrow> ValidateChannelTenant ch t"
begin

lemma rewritten_subscribe:
  assumes "decode_subscribe (cm_Data m) = Some d"
  shows "\<exists>out. interceptSubscribe env m p = Some out
     \<and> decode_request out = Some (ReqSubscribe (Some \<lparr>sd_Channels = pe_filter env (sd_Channels d) (px_claims p), sd_Channel = [], sd_History = None\<rparr>))"
proof -
  have "list_all valid_utf8 (pe_filter env (sd_Channels d) (px_claims p))"
    using filter_subset decode_subscribe_valid [OF assms] by (auto simp: list_all_iff)
  from built_subscribe [OF this] show ?thesis using assms by (simp add: interceptSubscribe_def Let_def)
qed

lemma unreadable_subscribe:
  assumes "decode_subscribe (cm_Data m) = None" "data_ok m" "cm_Type m = ''subscribe''" "interceptSubscribe env m p = Some out"
  shows "decode_request out = Some (ReqSubscribe None)"
proof -
  have out: "marshal_client_message m = Some out" using assms(1,4) by (simp add: interceptSubscribe_def)
  have "decode_client_message out = Some (m\<lparr>cm_Data := compact_text False (cm_Data m)\<rparr>)"
    using out by (rule remarshalled [OF assms(2)]) (simp only: assms(3) valid_names)
  moreover have "decode_subscribe (compact_text False (cm_Data m)) = None"
  proof (cases "cm_Data m = []")
    case True
    with assms(1) show ?thesis by simp
  next
    case False
    with assms(2) have "value_text (maxNestingDepth - 1) (cm_Data m)" by (simp add: data_ok_def)
    from decode_subscribe_compact [OF this] assms(1) show ?thesis by simp
  qed
  ultimately show ?thesis using assms(3) by (simp add: decode_request_Some request_of_def)
qed

text \<open>What a forwarded message that starts with an opening brace may subscribe to.\<close>

lemma forwarded_subscribes:
  assumes "px_tenantID p \<noteq> []" "msg \<noteq> []" "hd msg = CHR ''{''" "interceptClientMessage env pok aok msg p = (p', Forward out)"
  shows "may_subscribe t (decode_request out) \<subseteq> {ch. ValidateChannelTenant ch t}"
proof (cases "decode_client_message msg")
  case None
  with assms have "out = msg" by (auto simp: interceptClientMessage_def)
  with None show ?thesis by (simp add: decode_request_def)
next
  case (Some m)
  note ic = intercept_parsed [OF assms(1-3) Some, of env pok aok]
  have ok: "data_ok m" using Some by (rule decode_data_ok)
  consider "cm_Type m = ''subscribe''" | "cm_Type m = ''publish''" | "cm_Type m \<notin> {''subscribe'', ''publish''}" by blast
  then show ?thesis
  proof cases
    case 1
    then have out: "interceptSubscribe env m p = Some out" using ic assms(4) by (auto split: option.splits)
    show ?thesis
    proof (cases "decode_subscribe (cm_Data m)")
      case None
      from unreadable_subscribe [OF None ok 1 out] show ?thesis by simp
    next
      case (Some d)
      from rewritten_subscribe [OF Some, of p] out show ?thesis using filter_tenant by auto
    qed
  next
    case 2
    then have "marshal_client_message m = Some out"
      using ic assms(4) by (auto simp: interceptPublish_def split: if_splits option.splits prod.splits)
    then have "decode_client_message out = Some (m\<lparr>cm_Data := compact_text False (cm_Data m)\<rparr>)"
      by (rule remarshalled [OF ok]) (simp only: 2 valid_names)
    with 2 show ?thesis by (simp add: decode_request_Some request_of_def)
  next
    case 3
    have "out = msg"
    proof (cases "cm_Type m = ''auth''")
      case True
      obtain q x where "auth_refresh_begin env aok m p = (q, x)" by fastforce
      with ic True assms(4) show ?thesis by (cases x) auto
    next
      case False
      with ic 3 assms(4) show ?thesis by simp
    qed
    with Some 3 show ?thesis by (cases "decode_reconnect (cm_Data m)") (auto simp: decode_request_Some request_of_def)
  qed
qed

end

lemma admitted_tenant: "ch \<in> set (fst (filterSubscribeChannels checker chs t cl)) \<Longrightarrow> ValidateChannelTenant ch t"
proof (cases checker)
  case (Some src)
  then show "ch \<in> set (fst (filterSubscribeChannels checker chs t cl)) \<Longrightarrow> ValidateChannelTenant ch t"
    by (auto simp: filterSubscribe_eq subscribe_admits_def)
qed (simp add: filterSubscribeChannels_def case_prod_unfold Let_def)

interpretation gateway_filter: subscribe_filter "gateway_env checker t val it" t for checker t val it
  by unfold_locales (use filterSubscribe_subset admitted_tenant in \<open>auto simp: gateway_env_def\<close>)

text \<open>C2: End to end through the gateway and the server: for a text message that starts with an opening
  brace and that the gateway forwards, handling the forwarded bytes on the server adds only channels
  of the tenant the connection was admitted for, whatever the message is (the server's client
  carries the same tenant).\<close>

theorem gateway_isolates_server:
  assumes "t \<noteq> []" "px_tenantID p = t" "cl_tenantID (heap s c) = t" "msg \<noteq> []" "hd msg = CHR ''{''"
    and "interceptClientMessage (gateway_env checker t val it) pok aok msg p = (p', Forward out)"
  shows "subscriptions (heap (fst (handle_frame env now allowed expired out c s)) c)
     \<subseteq> subscriptions (heap s c) \<union> {ch. ValidateChannelTenant ch t}"
proof -
  have "may_subscribe t (decode_request out) \<subseteq> {ch. ValidateChannelTenant ch t}"
    by (rule gateway_filter.forwarded_subscribes [OF _ assms(4,5,6)]) (simp add: assms(1,2))
  with message_adds [OF decode_request_ok, of env now allowed expired out c s] show ?thesis
    using assms(3) by (auto simp: handle_frame_def)
qed

definition tenant_server :: server where
  "tenant_server = idle_server\<lparr>heap := \<lambda>_. (heap idle_server 0)\<lparr>cl_tenantID := ''acme''\<rparr>\<rparr>"

lemma demo_forward:
  "\<exists>out. interceptClientMessage (gateway_env (Some demo_rules) ''acme'' None id) True True (subscribe_text [''acme.BTC'', ''globex.BTC'']) demo_proxy
     = (demo_proxy, Forward out)"
  using gateway_filter.rewritten_subscribe [where m = "\<lparr>cm_Type = ''subscribe'',
      cm_Data = marshal_subscribe \<lparr>sd_Channels = [''acme.BTC'', ''globex.BTC''], sd_Channel = [], sd_History = None\<rparr>\<rparr>",
      simplified, OF decode_subscribe_text(2) [OF demo_utf8], of "Some demo_rules" "''acme''" None id demo_proxy]
    intercept_parsed [OF _ subscribe_text_hd decode_subscribe_text(1) [OF demo_utf8], of demo_proxy "gateway_env (Some demo_rules) ''acme'' None id" True True]
  by auto

theorem gateway_isolates_server_witness:
  "\<exists>out. interceptClientMessage (gateway_env (Some demo_rules) ''acme'' None id) True True (subscribe_text [''acme.BTC'', ''globex.BTC'']) demo_proxy
        = (demo_proxy, Forward out)
     \<and> subscriptions (heap (fst (handle_frame demo_env 0 True False out 0 tenant_server)) 0)
        \<subseteq> subscriptions (heap tenant_server 0) \<union> {ch. ValidateChannelTenant ch ''acme''}"
proof -
  obtain out where o: "interceptClientMessage (gateway_env (Some demo_rules) ''acme'' None id) True True (subscribe_text [''acme.BTC'', ''globex.BTC'']) demo_proxy
     = (demo_proxy, Forward out)" using demo_forward by blast
  have "cl_tenantID (heap tenant_server 0) = ''acme''" by (simp add: tenant_server_def)
  with gateway_isolates_server [OF _ demo_tenant(1) _ subscribe_text_hd o, of tenant_server 0 demo_env 0 True False] o
  show ?thesis by blast
qed

text \<open>The gateway's filter only looks at messages whose first byte is an opening brace, while the
  server accepts white space before the object: for every channel at all there is a text message
  that passes the gateway unchanged, whatever the tenant, the rules and the claims, and that the
  server decodes as a subscribe for that channel.\<close>

theorem whitespace_bypasses_filter:
  assumes "valid_utf8 ch"
  shows "\<exists>msg. interceptClientMessage env pok aok msg p = (p, Forward msg)
     \<and> decode_request msg = Some (ReqSubscribe (Some \<lparr>sd_Channels = [ch], sd_Channel = [], sd_History = None\<rparr>))"
proof (intro exI conjI)
  let ?msg = "'' '' @ subscribe_text [ch]"
  show "interceptClientMessage env pok aok ?msg p = (p, Forward ?msg)" by (simp add: interceptClientMessage_def Let_def)
  have "decode_request ?msg = decode_request (subscribe_text [ch])"
    by (rule decode_request_ws) (simp add: is_ws_def byte_def)
  also have "\<dots> = Some (ReqSubscribe (Some \<lparr>sd_Channels = [ch], sd_Channel = [], sd_History = None\<rparr>))"
    using decode_request_Some [OF decode_subscribe_text(1), of "[ch]"] decode_subscribe_text(2) [of "[ch]"] assms by (simp add: request_of_def)
  finally show "decode_request ?msg = Some (ReqSubscribe (Some \<lparr>sd_Channels = [ch], sd_Channel = [], sd_History = None\<rparr>))" .
qed

theorem whitespace_bypasses_filter_witness:
  "\<exists>msg. interceptClientMessage (gateway_env (Some demo_rules) ''acme'' None id) True True msg demo_proxy = (demo_proxy, Forward msg)
     \<and> decode_request msg = Some (ReqSubscribe (Some \<lparr>sd_Channels = [''globex.BTC''], sd_Channel = [], sd_History = None\<rparr>))"
  by (rule whitespace_bypasses_filter) (simp add: byte_def)

section \<open>Publications\<close>

text \<open>C4: When a publish message that starts with an opening brace is forwarded, the connection is not
  limited to its API key, the limiter admitted it, the payload is within the size limit, and the
  channel the server decodes from the forwarded bytes is a channel of the tenant that the rules
  allow under the current claims: the gateway and the server read the same channel.\<close>

theorem gateway_publish_authorized:
  assumes "px_tenantID p \<noteq> []" "msg \<noteq> []" "hd msg = CHR ''{''" "decode_client_message msg = Some m" "cm_Type m = ''publish''"
    and "interceptClientMessage (gateway_env checker t val it) pok aok msg p = (p', Forward out)"
  shows "p' = p \<and> \<not> px_apiKeyOnly p \<and> pok \<and> (\<exists>ch d d'. decode_request out = Some (ReqPublish (Some (ch, d')))
     \<and> decode_publish (cm_Data m) = Some (ch, d) \<and> int (length d) \<le> px_maxPublishSize p
     \<and> ValidateChannelTenant ch (px_tenantID p) \<and> checkPublishAllowed checker t (px_claims p) ch)"
proof -
  let ?env = "gateway_env checker t val it"
  have ip: "interceptPublish ?env pok m p = (p', Some out)"
  proof -
    obtain q x where "interceptPublish ?env pok m p = (q, x)" by fastforce
    with intercept_parsed [OF assms(1-4), of ?env pok aok] assms(5,6) show ?thesis by (cases x) auto
  qed
  then obtain ch d where h: "\<not> px_apiKeyOnly p" "pok" "decode_publish (cm_Data m) = Some (ch, d)" "int (length d) \<le> px_maxPublishSize p"
    "ValidateChannelTenant ch (px_tenantID p)" "pe_canPublish ?env (px_claims p) ch" "p' = p" "marshal_client_message m = Some out"
    by (auto simp: interceptPublish_def split: if_splits option.splits prod.splits)
  have ok: "data_ok m" using assms(4) by (rule decode_data_ok)
  have "decode_client_message out = Some (m\<lparr>cm_Data := compact_text False (cm_Data m)\<rparr>)"
    using h(8) by (rule remarshalled [OF ok]) (simp only: assms(5) valid_names)
  moreover obtain d' where "decode_publish (compact_text False (cm_Data m)) = Some (ch, d')"
    using decode_publish_compact [OF h(3)] by blast
  ultimately have "decode_request out = Some (ReqPublish (Some (ch, d')))"
    using assms(5) by (simp add: decode_request_Some request_of_def)
  with h show ?thesis by (auto simp: gateway_env_def)
qed

text \<open>The text of a publish message.\<close>

definition publish_text :: "string \<Rightarrow> int \<Rightarrow> string" where
  "publish_text ch n = json_obj [(''type'', json_string ''publish''), (''data'', json_obj [(''channel'', json_string ch), (''data'', FormatInt n)])]"

lemma decode_publish_text:
  assumes "valid_utf8 ch"
  shows "decode_client_message (publish_text ch n) =
       Some \<lparr>cm_Type = ''publish'', cm_Data = json_obj [(''channel'', json_string ch), (''data'', FormatInt n)]\<rparr>"
    and "decode_publish (json_obj [(''channel'', json_string ch), (''data'', FormatInt n)]) = Some (ch, FormatInt n)"
proof -
  let ?d = "[(''channel'', json_string ch), (''data'', FormatInt n)]"
  let ?kvs = "[(''type'', json_string ''publish''), (''data'', json_obj ?d)]"
  obtain d where d: "maxNestingDepth - 1 = Suc d" using depth_Suc(1) by auto
  have "token (maxNestingDepth - 1) (json_obj ?d)" unfolding d by (rule obj_token [OF _ plain_good]) (simp_all add: string_token int_token)
  then have "object_of (json_obj ?kvs) = Some ?kvs" by (intro object_of_obj) (simp_all add: string_token)
  then show "decode_client_message (publish_text ch n) = Some \<lparr>cm_Type = ''publish'', cm_Data = json_obj ?d\<rparr>"
    by (simp add: publish_text_def decode_client_message_def Unmarshal_def client_message_field_def decode_text_string [OF valid_names(3)])
  have "object_of (json_obj ?d) = Some ?d" by (intro object_of_obj) (simp_all add: string_token int_token)
  then show "decode_publish (json_obj ?d) = Some (ch, FormatInt n)"
    by (simp add: decode_publish_def Unmarshal_def publish_field_def decode_text_string [OF assms])
qed

definition demo_publisher :: proxy where
  "demo_publisher = NewProxy (Some demo_claims) ''acme'' False [] 100 1000"

definition publish_rules :: rules_source where
  "publish_rules = \<lparr>SrcGetChannelRules = (\<lambda>_. Inr (NewChannelRules\<lparr>PublishPublic := [''*'']\<rparr>)), SrcSnapshotReceived = True, SrcConnected = True\<rparr>"

lemma demo_publish_forward:
  "\<exists>out. interceptClientMessage (gateway_env (Some publish_rules) ''acme'' None id) True True (publish_text ''acme.BTC'' 7) demo_publisher
     = (demo_publisher, Forward out)"
proof -
  let ?m = "\<lparr>cm_Type = ''publish'', cm_Data = json_obj [(''channel'', json_string ''acme.BTC''), (''data'', FormatInt 7)]\<rparr>"
  let ?env = "gateway_env (Some publish_rules) ''acme'' None id"
  have u: "valid_utf8 ''acme.BTC''" by (simp add: byte_def)
  have p: "px_tenantID demo_publisher = ''acme''" by (simp add: demo_publisher_def NewProxy_def)
  have h: "publish_text ''acme.BTC'' 7 \<noteq> []" "hd (publish_text ''acme.BTC'' 7) = CHR ''{''" by (simp_all add: publish_text_def json_obj_def)
  have "data_ok ?m" using decode_data_ok [OF decode_publish_text(1) [OF u]] .
  then obtain out where out: "marshal_client_message ?m = Some out" using decode_marshal_message [of ?m] by (auto simp del: valid_utf8.simps)
  have "length (FormatInt 7) = 1" by (simp add: FormatInt_def nat_dec.simps)
  moreover have "checkPublishAllowed (Some publish_rules) ''acme'' (Some demo_claims) ''acme.BTC''" by code_simp
  moreover have "ValidateChannelTenant ''acme.BTC'' ''acme''" "\<not> length (Split ''acme.BTC'' ''.'') < MinInternalChannelParts" by code_simp+
  ultimately have "interceptPublish ?env True ?m demo_publisher = (demo_publisher, Some out)"
    using decode_publish_text(2) [OF u, of 7] out
    by (simp add: interceptPublish_def demo_publisher_def NewProxy_def gateway_env_def)
  with intercept_parsed [OF _ h decode_publish_text(1) [OF u], of demo_publisher ?env True True] p show ?thesis by simp
qed

theorem gateway_publish_authorized_witness:
  "\<exists>out ch d'. interceptClientMessage (gateway_env (Some publish_rules) ''acme'' None id) True True (publish_text ''acme.BTC'' 7) demo_publisher
       = (demo_publisher, Forward out)
     \<and> decode_request out = Some (ReqPublish (Some (ch, d'))) \<and> checkPublishAllowed (Some publish_rules) ''acme'' (px_claims demo_publisher) ch"
proof -
  obtain out where o: "interceptClientMessage (gateway_env (Some publish_rules) ''acme'' None id) True True (publish_text ''acme.BTC'' 7) demo_publisher
     = (demo_publisher, Forward out)" using demo_publish_forward by blast
  have h: "publish_text ''acme.BTC'' 7 \<noteq> []" "hd (publish_text ''acme.BTC'' 7) = CHR ''{''" by (simp_all add: publish_text_def json_obj_def)
  have u: "valid_utf8 ''acme.BTC''" by (simp add: byte_def)
  have p: "px_tenantID demo_publisher \<noteq> []" by (simp add: demo_publisher_def NewProxy_def)
  from gateway_publish_authorized [OF p h decode_publish_text(1) [OF u] _ o] o show ?thesis by (simp, blast)
qed

end
