(* ===== verification/ProxyRun.thy ===== *)
theory ProxyRun
  imports ProxySafety
begin

text \<open>
  The proxy over time: what holds in every state that a run of the two pumps, the token refreshes
  and the force-closes can reach.
\<close>

section \<open>Identity\<close>

text \<open>The claims that a connection with these fields may carry.\<close>

definition bound_claims :: "string \<Rightarrow> string \<Rightarrow> claims \<Rightarrow> bool" where
  "bound_claims t k c \<longleftrightarrow> TenantID c = t \<and> (k \<noteq> [] \<longrightarrow> MatchesTenantUUID c k)"

definition identity_ok :: "string \<Rightarrow> string \<Rightarrow> proxy \<Rightarrow> bool" where
  "identity_ok t k p \<longleftrightarrow> px_tenantID p = t \<and> px_apiKeyTenantID p = k \<and> (\<forall>c. px_claims p = Some c \<longrightarrow> bound_claims t k c)
     \<and> (px_apiKeyOnly p \<longrightarrow> px_claims p = None) \<and> distinct (px_subscribed p) \<and> list_all valid_utf8 (px_subscribed p)"

definition run_ok :: "string \<Rightarrow> string \<Rightarrow> proxy_run \<Rightarrow> bool" where
  "run_ok t k s \<longleftrightarrow> identity_ok t k (pr_proxy s) \<and> (\<forall>c chs. pr_client s = PumpRefresh c chs \<longrightarrow> bound_claims t k c)"

lemma identity_send [simp]: "identity_ok t k (sendToClient x y z p) = identity_ok t k p" "identity_ok t k (forwardToBackend x y z p) = identity_ok t k p"
  by (simp_all add: identity_ok_def)

lemma identity_replies [simp]:
  "identity_ok t k (sendPublishErrorToClient c p) = identity_ok t k p" "identity_ok t k (sendAuthErrorToClient c p) = identity_ok t k p"
  "identity_ok t k (sendCloseToClient d p) = identity_ok t k p" "identity_ok t k (forwardCloseFrame d p) = identity_ok t k p"
  by (simp_all add: reply_unfolds)

lemma identity_force:
  assumes "identity_ok t k p" shows "identity_ok t k (forceUnsubscribeRevokedChannels env c chs p)"
proof -
  have "identity_ok t k (p\<lparr>px_subscribed := filter P (px_subscribed p)\<rparr>)" for P
    using assms by (auto simp: identity_ok_def list_all_iff)
  then show ?thesis using assms by (auto simp: forceUnsubscribeRevokedChannels_def Let_def split: option.split)
qed

lemma identity_finish:
  assumes "identity_ok t k p" "bound_claims t k c" shows "identity_ok t k (auth_refresh_finish env c chs p)"
  using identity_force [OF assms(1), of env c chs] assms(2) by (auto simp: auth_refresh_finish_def Let_def identity_ok_def)

lemma begin_bound:
  assumes "auth_refresh_begin env aok m p = (q, r)" "identity_ok t k p"
  shows "identity_ok t k q \<and> (\<forall>c chs. r = Some (c, chs) \<longrightarrow> bound_claims t k c \<and> q = p \<and> chs = pe_iter env (px_subscribed p))"
  using assms by (auto simp: auth_refresh_begin_def bound_claims_def split: if_splits option.splits sum.splits)
     (auto simp: identity_ok_def)

lemma publish_identity: "interceptPublish env pok m p = (q, r) \<Longrightarrow> identity_ok t k p \<Longrightarrow> identity_ok t k q"
  by (auto simp: interceptPublish_def split: if_splits option.splits prod.splits)

lemma intercept_identity:
  assumes "interceptClientMessage env pok aok msg p = (q, r)" "identity_ok t k p"
  shows "identity_ok t k q \<and> (\<forall>c chs. r = Refresh c chs \<longrightarrow> bound_claims t k c)"
proof (cases "px_tenantID p = [] \<or> msg = [] \<or> hd msg \<noteq> CHR ''{'' \<or> decode_client_message msg = None")
  case True
  from intercept_passed [OF True] assms show ?thesis by auto
next
  case False
  then obtain m where m: "px_tenantID p \<noteq> []" "msg \<noteq> []" "hd msg = CHR ''{''" "decode_client_message msg = Some m" by auto
  note ic = intercept_parsed [OF m, of env pok aok]
  consider "cm_Type m = ''subscribe''" | "cm_Type m = ''publish''" | "cm_Type m = ''auth''" | "cm_Type m \<notin> {''subscribe'', ''publish'', ''auth''}" by blast
  then show ?thesis
  proof cases
    case 1
    with ic assms show ?thesis by (auto split: option.splits)
  next
    case 2
    obtain q' x where x: "interceptPublish env pok m p = (q', x)" by fastforce
    with ic 2 assms(1) have "q = q'" "\<forall>c chs. r \<noteq> Refresh c chs" by (cases x; simp)+
    with publish_identity [OF x assms(2)] show ?thesis by blast
  next
    case 3
    obtain q' x where x: "auth_refresh_begin env aok m p = (q', x)" by fastforce
    with ic 3 assms(1) begin_bound [OF x assms(2)] show ?thesis by (cases x) auto
  next
    case 4
    with ic assms show ?thesis by simp
  qed
qed

lemma tracked_valid:
  assumes "decode_ack s = Some a"
  shows "case ta_Subscribed a of None \<Rightarrow> True | Some l \<Rightarrow> list_all valid_utf8 l"
proof -
  have "Unmarshal tracked_ack_field \<lparr>ta_Type = [], ta_Subscribed = None, ta_Unsubscribed = None\<rparr> s = Some a" using assms by (simp add: decode_ack_def)
  then show ?thesis
  proof (rule Unmarshal_inv [where P = "\<lambda>a. case ta_Subscribed a of None \<Rightarrow> True | Some l \<Rightarrow> list_all valid_utf8 l"])
    fix k v a b
    assume f: "tracked_ack_field k v a = Some b" and a: "case ta_Subscribed a of None \<Rightarrow> True | Some l \<Rightarrow> list_all valid_utf8 l"
    show "case ta_Subscribed b of None \<Rightarrow> True | Some l \<Rightarrow> list_all valid_utf8 l"
    proof (cases "k = ''subscribed''")
      case True
      with f obtain l where "decode_texts (ta_Subscribed a) v = Some l" "ta_Subscribed b = l" by (auto simp: tracked_ack_field_def)
      with a show ?thesis by (cases l) (auto dest: decode_texts_valid)
    qed (use f a in \<open>auto simp: tracked_ack_field_def split: if_splits\<close>)
  qed simp
qed

lemma track_channels: "distinct xs \<Longrightarrow> distinct (foldl track_channel xs chs)" "set (foldl track_channel xs chs) = set xs \<union> set chs"
  by (induction chs arbitrary: xs) (auto simp: track_channel_def)

lemma untrack_channels: "foldl (\<lambda>xs ch. removeAll ch xs) xs chs = filter (\<lambda>ch. ch \<notin> set chs) xs"
  by (induction chs arbitrary: xs) (auto simp: removeAll_filter_not_eq intro: filter_cong)

lemma track_identity:
  assumes "identity_ok t k p" shows "identity_ok t k (trackSubscriptionResponse d p)"
proof (cases "Contains (take (min subscriptionAckPrefixScanLen (length d)) d) ''_ack''")
  case True
  show ?thesis
  proof (cases "decode_ack d")
    case (Some a)
    let ?l = "case ta_Subscribed a of None \<Rightarrow> [] | Some l \<Rightarrow> l"
    have "list_all valid_utf8 ?l" using tracked_valid [OF Some] by (auto split: option.splits)
    then have "identity_ok t k (p\<lparr>px_subscribed := foldl track_channel (px_subscribed p) ?l\<rparr>)"
      using assms track_channels [of "px_subscribed p" ?l] by (auto simp: identity_ok_def list_all_iff)
    moreover have "identity_ok t k (p\<lparr>px_subscribed := foldl (\<lambda>xs ch. removeAll ch xs) (px_subscribed p) x\<rparr>)" for x
      using assms by (auto simp: identity_ok_def list_all_iff untrack_channels)
    ultimately show ?thesis using True Some assms by (simp add: trackSubscriptionResponse_def)
  qed (use True assms in \<open>simp add: trackSubscriptionResponse_def\<close>)
qed (use assms in \<open>simp add: trackSubscriptionResponse_def\<close>)

lemma client_step_ok:
  assumes "proxyClientToBackend env cx wok pok aok rd p = (q, r)" "identity_ok t k p"
  shows "identity_ok t k q \<and> (\<forall>c chs. r = PumpRefresh c chs \<longrightarrow> bound_claims t k c)"
proof (cases rd)
  case (FrameRead f)
  obtain q' x where x: "(if fr_op f = OpText then interceptClientMessage env pok aok (fr_payload f) p else (p, Forward (fr_payload f))) = (q', x)"
    by fastforce
  then have i: "identity_ok t k q' \<and> (\<forall>c chs. x = Refresh c chs \<longrightarrow> bound_claims t k c)"
    using intercept_identity assms(2) by (auto split: if_splits)
  show ?thesis
  proof (cases "int (length (fr_payload f)) > px_maxFrameSize p \<or> fr_op f = OpClose")
    case True
    with assms FrameRead show ?thesis by (auto simp: proxyClientToBackend_def client_too_large_def split: if_splits)
  next
    case False
    with assms(1) FrameRead x have "(case x of Consumed \<Rightarrow> (q', PumpOn) | Refresh c chs \<Rightarrow> (q', PumpRefresh c chs)
        | Forward payload \<Rightarrow> if wok \<and> \<not> px_closed q' then (forwardToBackend (fr_op f) payload (fr_fin f) q', PumpOn) else (q', PumpEnd WriteError)) = (q, r)"
      by (simp add: proxyClientToBackend_def)
    with i show ?thesis by (cases x) (auto split: if_splits)
  qed
qed (use assms in \<open>auto simp: proxyClientToBackend_def client_too_large_def split: if_splits\<close>)

lemma backend_step_ok:
  assumes "proxyBackendToClient cx wok rd p = (q, r)" "identity_ok t k p" shows "identity_ok t k q"
  using assms track_identity [OF assms(2)]
  by (cases rd) (auto simp: proxyBackendToClient_def Let_def split: if_splits)

lemma run_ok_step:
  assumes "proxy_step env s s'" "run_ok t k s" shows "run_ok t k s'"
  using assms
proof cases
  case (step_client rd wok pok aok p r)
  with assms(2) client_step_ok [OF step_client(4)] show ?thesis by (auto simp: run_ok_def)
next
  case (step_refresh c chs)
  with assms(2) show ?thesis by (auto simp: run_ok_def intro: identity_finish)
next
  case (step_backend rd wok p r)
  with assms(2) backend_step_ok [OF step_backend(4)] show ?thesis by (auto simp: run_ok_def)
next
  case (step_force_send code reason)
  with assms(2) show ?thesis by (auto simp: run_ok_def ForceClose_send_def)
next
  case (step_force_once reason)
  with assms(2) show ?thesis by (auto simp: run_ok_def ForceClose_once_def identity_ok_def)
next
  case step_teardown
  with assms(2) show ?thesis by (auto simp: run_ok_def close_connections_def identity_ok_def)
qed (auto simp: run_ok_def)

text \<open>C30: A connection keeps its identity: in every state a run can reach from a proxy that starts with
  claims of its tenant (and, when it was opened with an API key, of the key's tenant), the tenant is
  the same, any claims installed by a token refresh are of that tenant and of the key's tenant, and
  a connection that is still limited to its API key carries no claims.\<close>

theorem proxy_identity_fixed:
  assumes "(proxy_step env)\<^sup>*\<^sup>* (start_run (NewProxy cl t keyOnly k mp mf)) s"
    and "case cl of None \<Rightarrow> True | Some c \<Rightarrow> TenantID c = t \<and> (k \<noteq> [] \<longrightarrow> MatchesTenantUUID c k) \<and> \<not> keyOnly"
  shows "px_tenantID (pr_proxy s) = t \<and> (px_apiKeyOnly (pr_proxy s) \<longrightarrow> px_claims (pr_proxy s) = None)
     \<and> (\<forall>c. px_claims (pr_proxy s) = Some c \<longrightarrow> TenantID c = t \<and> (k \<noteq> [] \<longrightarrow> MatchesTenantUUID c k))"
proof -
  have "run_ok t k (start_run (NewProxy cl t keyOnly k mp mf))"
    using assms(2) by (auto simp: run_ok_def identity_ok_def bound_claims_def start_run_def NewProxy_def split: option.splits)
  with assms(1) have "run_ok t k s" by (induction rule: rtranclp_induct) (auto intro: run_ok_step)
  then show ?thesis by (auto simp: run_ok_def identity_ok_def bound_claims_def)
qed

section \<open>Closing\<close>

lemma closed_send [simp]: "px_closed p \<Longrightarrow> sendToClient x y z p = p" "px_closed p \<Longrightarrow> forwardToBackend x y z p = p"
  by (simp_all add: sendToClient_def forwardToBackend_def)












definition demo_run :: proxy_run where
  "demo_run = start_run demo_proxy"

theorem proxy_identity_fixed_witness:
  "px_tenantID (pr_proxy (demo_run\<lparr>pr_ctx := True\<rparr>)) = ''acme''
     \<and> px_claims (pr_proxy (demo_run\<lparr>pr_ctx := True\<rparr>)) = None"
proof -
  have "(proxy_step (gateway_env None ''acme'' None id))\<^sup>*\<^sup>* (start_run (NewProxy None ''acme'' True ''u1'' 100 1000)) (demo_run\<lparr>pr_ctx := True\<rparr>)"
    unfolding demo_run_def demo_proxy_def by (rule r_into_rtranclp) (rule step_cancel)
  from proxy_identity_fixed [OF this] show ?thesis by (simp add: demo_run_def start_run_def demo_proxy_def NewProxy_def)
qed




section \<open>Token refresh\<close>

lemma decode_unsubscribe_channels:
  assumes "list_all valid_utf8 chs" "chs \<noteq> []"
  shows "decode_unsubscribe (compact_text False (marshal_subscribe \<lparr>sd_Channels = chs, sd_Channel = [], sd_History = None\<rparr>)) = Some (Some chs)"
proof -
  let ?t = "marshal_subscribe \<lparr>sd_Channels = chs, sd_Channel = [], sd_History = None\<rparr>"
  have "object_of (json_obj [(''channels'', json_strings chs)]) = Some [(''channels'', json_strings chs)]"
    by (rule object_of_obj) (use strings_token_max in auto)
  then have "decode_unsubscribe ?t = Some (Some chs)"
    using assms by (simp add: decode_unsubscribe_def Unmarshal_def unsubscribe_field_def marshal_subscribe_def decode_texts_strings)
  moreover have "decode_unsubscribe (compact_text False ?t) = decode_unsubscribe ?t"
    unfolding decode_unsubscribe_def
    by (rule Unmarshal_compact [OF channels_value_text [OF assms(1)]]) (simp add: unsubscribe_field_def decode_texts_compact del: compact_text.simps)
  ultimately show ?thesis by simp
qed

lemma built_unsubscribe:
  assumes "list_all valid_utf8 chs" "chs \<noteq> []"
  shows "\<exists>out. marshal_client_message \<lparr>cm_Type = ''unsubscribe'', cm_Data = marshal_subscribe \<lparr>sd_Channels = chs, sd_Channel = [], sd_History = None\<rparr>\<rparr> = Some out
     \<and> decode_request out = Some (ReqUnsubscribe (Some (Some chs)))"
proof -
  obtain out where "marshal_client_message \<lparr>cm_Type = ''unsubscribe'', cm_Data = marshal_subscribe \<lparr>sd_Channels = chs, sd_Channel = [], sd_History = None\<rparr>\<rparr> = Some out"
    and "decode_client_message out = Some \<lparr>cm_Type = ''unsubscribe'',
       cm_Data = compact_text False (marshal_subscribe \<lparr>sd_Channels = chs, sd_Channel = [], sd_History = None\<rparr>)\<rparr>"
    using built_message [OF assms(1) valid_names(2)] by blast
  then show ?thesis using decode_unsubscribe_channels [OF assms] by (simp add: decode_request_Some request_of_def)
qed

lemma force_subscribed:
  "px_subscribed (forceUnsubscribeRevokedChannels env c chs p) =
     filter (\<lambda>ch. ch \<notin> set (filter (\<lambda>ch. ch \<notin> set (pe_filter env chs (Some c))) chs)) (px_subscribed p)"
proof -
  define R where "R = filter (\<lambda>ch. ch \<notin> set (pe_filter env chs (Some c))) chs"
  have "chs = [] \<Longrightarrow> R = []" by (simp add: R_def)
  then show ?thesis unfolding forceUnsubscribeRevokedChannels_def Let_def R_def [symmetric]
    by (cases "R = []") (auto split: option.split)
qed

text \<open>A token refresh that no acknowledgement interrupts leaves exactly the tracked channels that the
  rules allow under the new claims; when it drops some, the one frame it sends to the server decodes
  as an unsubscribe for exactly the dropped channels, and the connection then carries the new claims
  and may publish. (The channels are iterated in any order.)\<close>

theorem refresh_drops_forbidden:
  assumes "auth_refresh_begin (gateway_env checker t val it) aok m p = (p, Some (c, chs))"
    and "\<And>xs. set (it xs) = set xs" and "list_all valid_utf8 (px_subscribed p)" and "\<not> px_closed p"
    and "p' = interceptAuthRefresh (gateway_env checker t val it) aok m p"
  shows "px_claims p' = Some c \<and> \<not> px_apiKeyOnly p'
     \<and> px_subscribed p' = filter (\<lambda>ch. ch \<in> set (fst (filterSubscribeChannels checker chs t (Some c)))) (px_subscribed p)
     \<and> (if set (px_subscribed p') = set (px_subscribed p) then px_toBackend p' = px_toBackend p
        else \<exists>f dropped. px_toBackend p' = px_toBackend p @ [f] \<and> fr_op f = OpText
          \<and> decode_request (fr_payload f) = Some (ReqUnsubscribe (Some (Some dropped)))
          \<and> set dropped = set (px_subscribed p) - set (px_subscribed p'))"
proof -
  let ?env = "gateway_env checker t val it"
  let ?allowed = "fst (filterSubscribeChannels checker chs t (Some c))"
  define dropped where "dropped = filter (\<lambda>ch. ch \<notin> set ?allowed) chs"
  have chs: "set chs = set (px_subscribed p)"
    using assms(1,2) by (auto simp: auth_refresh_begin_def gateway_env_def split: if_splits option.splits sum.splits)
  have p': "p' = auth_refresh_finish ?env c chs p" using assms(1,5) by (simp add: interceptAuthRefresh_def)
  have sub: "set ?allowed \<subseteq> set chs" by (rule filterSubscribe_subset)
  have "px_subscribed p' = filter (\<lambda>ch. ch \<notin> set dropped) (px_subscribed p)"
    unfolding p' auth_refresh_finish_def Let_def dropped_def using force_subscribed [of ?env c chs p] by (simp add: gateway_env_def)
  also have "\<dots> = filter (\<lambda>ch. ch \<in> set ?allowed) (px_subscribed p)" using chs by (intro filter_cong) (auto simp: dropped_def)
  finally have kept: "px_subscribed p' = filter (\<lambda>ch. ch \<in> set ?allowed) (px_subscribed p)" .
  have drop: "set dropped = set (px_subscribed p) - set (px_subscribed p')" using chs sub by (auto simp: dropped_def kept)
  have same: "set (px_subscribed p') = set (px_subscribed p) \<longleftrightarrow> dropped = []"
    using drop kept by (auto simp: filter_empty_conv dropped_def chs)
  have "list_all valid_utf8 dropped" using assms(3) chs by (auto simp: dropped_def list_all_iff)
  then have out: "dropped \<noteq> [] \<Longrightarrow> \<exists>out. marshal_client_message \<lparr>cm_Type = ''unsubscribe'',
        cm_Data = marshal_subscribe \<lparr>sd_Channels = dropped, sd_Channel = [], sd_History = None\<rparr>\<rparr> = Some out
      \<and> decode_request out = Some (ReqUnsubscribe (Some (Some dropped)))" by (rule built_unsubscribe)
  have "if dropped = [] then px_toBackend p' = px_toBackend p
        else \<exists>f. px_toBackend p' = px_toBackend p @ [f] \<and> fr_op f = OpText \<and> decode_request (fr_payload f) = Some (ReqUnsubscribe (Some (Some dropped)))"
    using out assms(4) unfolding p' auth_refresh_finish_def forceUnsubscribeRevokedChannels_def dropped_def
    by (auto simp: Let_def gateway_env_def forwardToBackend_def)
  then show ?thesis using kept drop same unfolding p' by (auto simp: auth_refresh_finish_def Let_def)
qed

definition auth_message :: ClientMessage where
  "auth_message = \<lparr>cm_Type = ''auth'', cm_Data = json_obj [(''token'', json_string ''tok'')]\<rparr>"

definition btc_rules :: rules_source where
  "btc_rules = \<lparr>SrcGetChannelRules = (\<lambda>_. Inr (NewChannelRules\<lparr>Public := [''BTC'']\<rparr>)), SrcSnapshotReceived = True, SrcConnected = True\<rparr>"

abbreviation btc_env :: proxy_env where
  "btc_env \<equiv> gateway_env (Some btc_rules) ''acme'' (Some (\<lambda>_. Inr demo_claims)) id"

definition tracking_proxy :: proxy where
  "tracking_proxy = demo_proxy\<lparr>px_subscribed := [''acme.BTC'', ''acme.ETH'']\<rparr>"

lemma decode_auth_message: "decode_auth (cm_Data auth_message) = Some ''tok''"
proof -
  have u: "valid_utf8 ''tok''" by (simp add: byte_def)
  have "object_of (json_obj [(''token'', json_string ''tok'')]) = Some [(''token'', json_string ''tok'')]"
    by (rule object_of_obj) (simp_all add: string_token json_plain_def byte_def escape_ascii_def)
  moreover have "fold_key ''token'' = ''token''" by (simp add: lower_char_def byte_def)
  ultimately show ?thesis
    by (simp add: auth_message_def decode_auth_def Unmarshal_def auth_data_field_def decode_text_string [OF u] del: fold_key.simps)
qed

lemma demo_refresh: "px_tenantID p = ''acme'' \<Longrightarrow> px_apiKeyTenantID p = ''u1'' \<Longrightarrow>
    auth_refresh_begin btc_env True auth_message p = (p, Some (demo_claims, px_subscribed p))"
  by (simp add: auth_refresh_begin_def decode_auth_message gateway_env_def demo_claims_def MatchesTenantUUID_def)

lemma btc_filter: "fst (filterSubscribeChannels (Some btc_rules) [''acme.BTC'', ''acme.ETH''] ''acme'' (Some demo_claims)) = [''acme.BTC'']"
  "fst (filterSubscribeChannels (Some btc_rules) [''acme.ETH''] ''acme'' (Some demo_claims)) = []"
  by code_simp+

theorem refresh_drops_forbidden_witness:
  "px_subscribed (interceptAuthRefresh btc_env True auth_message tracking_proxy) = [''acme.BTC'']
   \<and> (\<exists>f dropped. px_toBackend (interceptAuthRefresh btc_env True auth_message tracking_proxy) = [f]
        \<and> decode_request (fr_payload f) = Some (ReqUnsubscribe (Some (Some dropped))) \<and> set dropped = {''acme.ETH''})"
proof -
  have b: "auth_refresh_begin btc_env True auth_message tracking_proxy = (tracking_proxy, Some (demo_claims, [''acme.BTC'', ''acme.ETH'']))"
    using demo_refresh [of tracking_proxy] by (simp add: tracking_proxy_def demo_proxy_def NewProxy_def)
  have u: "list_all valid_utf8 (px_subscribed tracking_proxy)" by (simp add: tracking_proxy_def byte_def)
  have c: "\<not> px_closed tracking_proxy" by (simp add: tracking_proxy_def demo_proxy_def NewProxy_def)
  show ?thesis using refresh_drops_forbidden [OF b _ u c refl]
    by (auto simp: btc_filter tracking_proxy_def demo_proxy_def NewProxy_def)
qed

text \<open>The snapshot of a refresh and its deletion are two steps, and the other pump runs between them:
  from any state in which a refresh has taken its snapshot, an acknowledgement from the server that
  is tracked before the refresh ends leaves its channels tracked after it, whether or not the new
  claims allow them.\<close>

theorem refresh_races_ack:
  assumes "pr_client s = PumpRefresh c chs" "pr_backend s = PumpOn" "\<not> px_closed (pr_proxy s)"
    and "int (length ack) \<le> px_maxFrameSize (pr_proxy s)"
    and "ch \<in> set (px_subscribed (trackSubscriptionResponse ack (pr_proxy s)))" "ch \<notin> set chs"
  shows "\<exists>s'. (proxy_step env)\<^sup>*\<^sup>* s s' \<and> pr_client s' = PumpOn \<and> px_claims (pr_proxy s') = Some c \<and> ch \<in> set (px_subscribed (pr_proxy s'))"
proof -
  let ?f = "\<lparr>fr_op = OpText, fr_fin = True, fr_masked = False, fr_payload = ack\<rparr>"
  let ?p = "trackSubscriptionResponse ack (pr_proxy s)"
  have open': "\<not> px_closed ?p" using assms(3) by (simp add: trackSubscriptionResponse_def split: option.split)
  let ?s1 = "s\<lparr>pr_proxy := sendToClient OpText ack True ?p, pr_backend := PumpOn\<rparr>"
  have "proxyBackendToClient (pr_ctx s) True (FrameRead ?f) (pr_proxy s) = (sendToClient OpText ack True ?p, PumpOn)"
    using assms(4) open' by (simp add: proxyBackendToClient_def OpText_def OpClose_def)
  then have 1: "proxy_step env s ?s1" using step_backend [OF assms(2)] assms(3) by (auto simp: readable_def)
  let ?s2 = "?s1\<lparr>pr_proxy := auth_refresh_finish env c chs (pr_proxy ?s1), pr_client := PumpOn\<rparr>"
  have 2: "proxy_step env ?s1 ?s2" by (rule step_refresh) (simp add: assms(1))
  have "(proxy_step env)\<^sup>*\<^sup>* s ?s2" using 1 2 by (meson converse_rtranclp_into_rtranclp rtranclp.rtrancl_refl)
  moreover have "ch \<in> set (px_subscribed (pr_proxy ?s2))" using assms(5,6) force_subscribed by (simp add: auth_refresh_finish_def Let_def)
  moreover have "px_claims (pr_proxy ?s2) = Some c" by (simp add: auth_refresh_finish_def Let_def)
  ultimately show ?thesis by (intro exI [of _ ?s2]) simp
qed

section \<open>Acknowledgements\<close>

text \<open>The acknowledgement that the server's subscribe handler sends.\<close>

definition subscription_ack :: "nat \<Rightarrow> string list \<Rightarrow> string" where
  "subscription_ack n chs = json_obj [(''count'', FormatInt (int n)), (''subscribed'', json_strings chs), (''type'', json_string ''subscription_ack'')]"

lemma ack_names: "list_all json_plain ''count''" "list_all json_plain ''subscribed''" "list_all json_plain ''type''"
  "fold_key ''count'' = ''count''" "fold_key ''subscribed'' = ''subscribed''" "fold_key ''type'' = ''type''"
  by (simp_all add: json_plain_def byte_def escape_ascii_def lower_char_def)

lemma decode_subscription_ack:
  assumes "list_all valid_utf8 chs"
  shows "decode_ack (subscription_ack n chs) = Some \<lparr>ta_Type = ''subscription_ack'', ta_Subscribed = Some chs, ta_Unsubscribed = None\<rparr>"
proof -
  let ?kvs = "[(''count'', FormatInt (int n)), (''subscribed'', json_strings chs), (''type'', json_string ''subscription_ack'')]"
  have u: "valid_utf8 ''subscription_ack''" by (simp add: byte_def)
  have "list_all (\<lambda>(k, v). token (maxNestingDepth - 1) v) ?kvs" using strings_token_max by (simp add: int_token string_token)
  moreover have "plain_keys ?kvs" by (simp add: json_plain_def byte_def escape_ascii_def)
  ultimately have "object_of (json_obj ?kvs) = Some ?kvs" by (rule object_of_obj)
  then show ?thesis
    by (simp add: subscription_ack_def decode_ack_def Unmarshal_def tracked_ack_field_def ack_names decode_texts_strings [OF assms]
        decode_text_string [OF u] del: fold_key.simps)
qed

lemma Contains_set: "Contains s sub \<Longrightarrow> set sub \<subseteq> set s"
  by (auto simp: Contains_def dest!: Cut_Some)

lemma plain_valid: "list_all json_plain s \<Longrightarrow> valid_utf8 s"
  by (induction s) (simp_all add: json_plain_def)

lemma json_plain_string: "list_all json_plain ch \<Longrightarrow> json_string ch = [CHR 0x22] @ ch @ [CHR 0x22]"
  by (simp add: json_string_def json_body_plain)

text \<open>The gateway looks for an acknowledgement only when the first 80 bytes of a message hold
  \<open>_ack\<close>, but the server renders the type last: the acknowledgement of one channel of 54 or more
  plain characters without an underscore is not tracked, so that a later refresh does not
  unsubscribe it.\<close>

theorem long_ack_untracked:
  assumes "list_all json_plain ch" "CHR ''_'' \<notin> set ch" "54 \<le> length ch"
  shows "trackSubscriptionResponse (subscription_ack n [ch]) p = p"
proof -
  define pre where "pre = ''{'' @ json_key ''count'' @ FormatInt (int n) @ '','' @ json_key ''subscribed'' @ ''['' @ [CHR 0x22] @ ch"
  obtain rest where ack: "subscription_ack n [ch] = pre @ rest"
    by (simp add: subscription_ack_def json_obj_def json_strings_def json_plain_string [OF assms(1)] pre_def)
  have len: "80 \<le> length pre"
    using assms(3) nat_dec_not_Nil [of n] by (cases "nat_dec n") (simp_all add: json_key_def FormatInt_def pre_def)
  have "list_all is_digit (FormatInt (int n))" using nat_dec_digits by (simp add: FormatInt_def)
  then have "CHR ''_'' \<notin> set (FormatInt (int n))" by (auto simp: list_all_iff is_digit_def)
  then have no: "CHR ''_'' \<notin> set pre" using assms(2) by (simp add: json_key_def pre_def)
  have "take (min subscriptionAckPrefixScanLen (length (subscription_ack n [ch]))) (subscription_ack n [ch]) = take 80 pre"
    using len unfolding ack by (simp add: subscriptionAckPrefixScanLen_def)
  moreover have "\<not> Contains (take 80 pre) ''_ack''" using no by (auto dest!: Contains_set in_set_takeD)
  ultimately show ?thesis by (simp add: trackSubscriptionResponse_def)
qed

definition long_channel :: string where
  "long_channel = ''acme.'' @ replicate 60 (CHR ''x'')"

theorem long_ack_untracked_witness:
  "trackSubscriptionResponse (subscription_ack 1 [long_channel]) demo_proxy = demo_proxy
     \<and> decode_ack (subscription_ack 1 [long_channel]) = Some \<lparr>ta_Type = ''subscription_ack'', ta_Subscribed = Some [long_channel], ta_Unsubscribed = None\<rparr>"
proof -
  have p: "list_all json_plain long_channel" by (simp add: long_channel_def json_plain_def byte_def escape_ascii_def list_all_iff)
  then have "valid_utf8 long_channel" by (rule plain_valid)
  then have "decode_ack (subscription_ack 1 [long_channel]) = Some \<lparr>ta_Type = ''subscription_ack'', ta_Subscribed = Some [long_channel], ta_Unsubscribed = None\<rparr>"
    by (intro decode_subscription_ack) simp
  moreover have "trackSubscriptionResponse (subscription_ack 1 [long_channel]) demo_proxy = demo_proxy"
    by (rule long_ack_untracked [OF p]) (auto simp: long_channel_def)
  ultimately show ?thesis by blast
qed

text \<open>A refresh that has taken an empty snapshot, and the acknowledgement that follows.\<close>

definition racing_run :: proxy_run where
  "racing_run = demo_run\<lparr>pr_client := PumpRefresh demo_claims []\<rparr>"

lemma short_ack_tracked: "px_subscribed (trackSubscriptionResponse (subscription_ack 1 [''acme.ETH'']) demo_proxy) = [''acme.ETH'']"
proof -
  have u: "list_all valid_utf8 [''acme.ETH'']" by (simp add: byte_def)
  have p: "list_all json_plain ''acme.ETH''" "list_all json_plain ''subscription_ack''" by (simp_all add: json_plain_def byte_def escape_ascii_def)
  have "Contains (take (min 80 (length (subscription_ack 1 [''acme.ETH'']))) (subscription_ack 1 [''acme.ETH''])) ''_ack''"
    unfolding subscription_ack_def json_strings_def list.map json_plain_string [OF p(1)] json_plain_string [OF p(2)] by code_simp
  then show ?thesis using decode_subscription_ack [OF u]
    by (simp add: trackSubscriptionResponse_def subscriptionAckPrefixScanLen_def demo_proxy_def NewProxy_def track_channel_def)
qed

theorem refresh_races_ack_witness:
  "\<exists>s'. (proxy_step btc_env)\<^sup>*\<^sup>* racing_run s' \<and> px_claims (pr_proxy s') = Some demo_claims \<and> ''acme.ETH'' \<in> set (px_subscribed (pr_proxy s'))
     \<and> fst (filterSubscribeChannels (Some btc_rules) [''acme.ETH''] ''acme'' (Some demo_claims)) = []"
proof -
  have "length (subscription_ack 1 [''acme.ETH'']) \<le> 1000"
    by (simp add: subscription_ack_def json_obj_def json_strings_def json_plain_string json_plain_def byte_def escape_ascii_def
        json_key_def FormatInt_def nat_dec.simps)
  then have "int (length (subscription_ack 1 [''acme.ETH''])) \<le> px_maxFrameSize (pr_proxy racing_run)"
    by (simp add: racing_run_def demo_run_def start_run_def demo_proxy_def NewProxy_def)
  with refresh_races_ack [of racing_run demo_claims "[]" "subscription_ack 1 [''acme.ETH'']" "''acme.ETH''" btc_env] short_ack_tracked btc_filter(2)
  show ?thesis by (auto simp: racing_run_def demo_run_def start_run_def) (auto simp: demo_proxy_def NewProxy_def)
qed

end
