(* ===== verification/FanoutRun.thy ===== *)
theory FanoutRun
  imports Broadcast
begin

text \<open>
  The message server under concurrency: every connection runs in its own goroutine, and so does every broadcast. The work of a
  connection handler (\<open>server/handlers_ws.go\<close>, \<open>server/client_lifecycle.go\<close>, \<open>server/grpc_service.go\<close>) is the list of its
  remaining actions, in the order of the source, each of them one access to the state the goroutines share: the slots, the pool, the map of clients, the
  counters, the subscription index, the send channel. A broadcast takes the snapshot of the subscribers in one step and serves one
  subscriber in each further step. All of these interleave freely.
\<close>

section \<open>Connections\<close>

datatype conn_action =
    TakeStruct | HookConnect | StoreClient | CountTotal | CountCurrent | PushConnect
  | Subscribing "string list" | Indexing "string list" | Unsubscribing "string list" | Unindexing "string list"
  | Serve
  | CloseTransport | CloseFailed | PushDisconnect | HookDisconnect | DeleteClient | UncountTotal | UncountCurrent
  | UnindexAll | CloseSend | PutStruct | ReleaseSlot | DropBucket

text \<open>The end of \<open>ReadLoop\<close> calls \<open>disconnectClient\<close>; the gRPC handler closes the send channel first. \<open>Serve\<close> is the time between.\<close>

definition ws_teardown :: "conn_action list" where
  "ws_teardown = [CloseTransport, PushDisconnect, HookDisconnect, DeleteClient, UncountCurrent, UnindexAll, CloseSend, PutStruct, ReleaseSlot, DropBucket]"

definition sse_teardown :: "conn_action list" where
  "sse_teardown = [CloseTransport, CloseSend, HookDisconnect, DeleteClient, UncountCurrent, UnindexAll, PutStruct, ReleaseSlot]"

definition ws_life :: "bool \<Rightarrow> conn_action list" where
  "ws_life upgraded =
     (if \<not> upgraded then [ReleaseSlot]
      else [TakeStruct, HookConnect, StoreClient, CountTotal, CountCurrent, PushConnect, Serve] @ ws_teardown)"

definition sse_life :: "string list \<Rightarrow> conn_action list" where
  "sse_life channels = [TakeStruct, StoreClient, CountTotal, CountCurrent] @ concat (map (\<lambda>ch. [Subscribing [ch], Indexing [ch]]) channels) @
     [HookConnect, Serve] @ sse_teardown"

text \<open>What is left to do when the tenant hook fails.\<close>

definition hook_failed :: "transport_type \<Rightarrow> conn_action list" where
  "hook_failed k =
     (case k of
        TransportWebSocket \<Rightarrow> [CloseFailed, PutStruct, ReleaseSlot]
      | TransportGRPCStream \<Rightarrow> [CloseTransport, CloseSend, DeleteClient, UncountTotal, UncountCurrent, UnindexAll, PutStruct, ReleaseSlot])"

record server_conn =
  co_ref :: cref
  co_kind :: transport_type
  co_remote :: string
  co_tenant :: string
  co_apiKey :: string
  co_user :: string
  co_uuid :: string
  co_todo :: "conn_action list"

definition conn_uuid :: "server_conn \<Rightarrow> server \<Rightarrow> string" where
  "conn_uuid k s = (if registryEnabled s then co_uuid k else [])"

definition set_up :: "server_conn \<Rightarrow> server \<Rightarrow> client \<Rightarrow> client" where
  "set_up k s cl =
     (case co_kind k of
        TransportWebSocket \<Rightarrow> cl\<lparr>transport := Some TransportWebSocket, remoteAddr := co_remote k, cl_tenantID := co_tenant k, apiKeyID := co_apiKey k,
          cl_userID := co_user k, connID := conn_uuid k s\<rparr>
      | TransportGRPCStream \<Rightarrow> cl\<lparr>transport := Some TransportGRPCStream, remoteAddr := co_remote k, cl_tenantID := co_tenant k\<rparr>)"

definition upd_heap :: "cref \<Rightarrow> (client \<Rightarrow> client) \<Rightarrow> server \<Rightarrow> server" where
  "upd_heap c f s = s\<lparr>heap := (heap s)(c := f (heap s c))\<rparr>"

text \<open>
  One action on the server. \<open>listed\<close> is the list \<open>subscriptions.List()\<close> returns, in the order of the map. The two hooks of
  a connect, which branch, and \<open>Serve\<close> are steps of their own.
\<close>

fun run_action :: "conn_action \<Rightarrow> server_conn \<Rightarrow> string list \<Rightarrow> server \<Rightarrow> server" where
  "run_action TakeStruct k listed s = take_client s (co_ref k) (set_up k s)"
| "run_action StoreClient k listed s = s\<lparr>clients := insert (co_ref k) (clients s)\<rparr>"
| "run_action CountTotal k listed s = s\<lparr>TotalConnections := i64 (TotalConnections s + 1)\<rparr>"
| "run_action CountCurrent k listed s = s\<lparr>CurrentConnections := i64 (CurrentConnections s + 1)\<rparr>"
| "run_action PushConnect k listed s =
     push_registry (conn_uuid k s) (RegConnect (conn_uuid k s) (co_tenant k) (co_apiKey k) (co_user k)) s"
| "run_action (Subscribing chs) k listed s = upd_heap (co_ref k) (\<lambda>cl. cl\<lparr>subscriptions := set_AddMultiple (subscriptions cl) chs\<rparr>) s"
| "run_action (Indexing chs) k listed s = s\<lparr>index := idx_AddMultiple (index s) chs (co_ref k)\<rparr>"
| "run_action (Unsubscribing chs) k listed s = upd_heap (co_ref k) (\<lambda>cl. cl\<lparr>subscriptions := set_RemoveMultiple (subscriptions cl) chs\<rparr>) s"
| "run_action (Unindexing chs) k listed s = s\<lparr>index := idx_RemoveMultiple (index s) chs (co_ref k)\<rparr>"
| "run_action CloseTransport k listed s = close_transport s (co_ref k)"
| "run_action CloseFailed k listed s = upd_heap (co_ref k) (\<lambda>cl. cl\<lparr>transportClosed := True\<rparr>) s"
| "run_action PushDisconnect k listed s =
     (let cl = heap s (co_ref k) in push_registry (connID cl) (RegDisconnect (connID cl) (cl_tenantID cl) (apiKeyID cl)) s)"
| "run_action HookDisconnect k listed s = tenant_disconnect (cl_tenantID (heap s (co_ref k))) s"
| "run_action DeleteClient k listed s = s\<lparr>clients := clients s - {co_ref k}\<rparr>"
| "run_action UncountTotal k listed s = s\<lparr>TotalConnections := i64 (TotalConnections s - 1)\<rparr>"
| "run_action UncountCurrent k listed s = s\<lparr>CurrentConnections := i64 (CurrentConnections s - 1)\<rparr>"
| "run_action UnindexAll k listed s = s\<lparr>index := idx_RemoveMultiple (index s) listed (co_ref k)\<rparr>"
| "run_action CloseSend k listed s = close_send_of s (co_ref k)"
| "run_action PutStruct k listed s = put_client s (co_ref k)"
| "run_action ReleaseSlot k listed s = release_slot s"
| "run_action DropBucket k listed s = RemoveClient (cl_id (heap s (co_ref k))) s"
| "run_action HookConnect k listed s = s"
| "run_action Serve k listed s = s"

text \<open>Run without interruption, the actions are the sequential operations.\<close>

lemma teardown_uninterrupted:
  "fold (\<lambda>a. run_action a k chs) ws_teardown s = disconnectClient s (co_ref k) chs"
  "fold (\<lambda>a. run_action a k chs) sse_teardown s = sse_cleanup s (co_ref k) chs"
  by (simp_all add: ws_teardown_def sse_teardown_def disconnectClient_def disconnect_unindex_def sse_cleanup_def sse_close_def delete_client_def
      close_transport_def close_once_def closeSend_def Let_def push_registry_def close_send_of_def put_client_def)

lemma connect_uninterrupted:
  assumes "acquire_slot s = Some s1" and "co_kind k = TransportWebSocket" and "co_todo k = ws_life True"
    and "tenant_connect (co_tenant k) ch (run_action TakeStruct k [] s1) = Some s2" and "registryEnabled s2 = registryEnabled s1"
  shows "connect_ws s (co_ref k) ch True (co_remote k) (co_tenant k) (co_apiKey k) (co_user k) (co_uuid k) =
     (fold (\<lambda>a. run_action a k []) [StoreClient, CountTotal, CountCurrent, PushConnect] s2, Connected)"
  using assms by (simp add: connect_ws_def Let_def set_up_def [abs_def] conn_uuid_def store_client_def)

section \<open>Broadcasts\<close>

text \<open>
  A broadcast under way: the subscribers it found, those still to be served, and what it did to each one served (the struct before and after). For the
  statements it keeps which connection had which struct when the snapshot was taken, and where it panicked.
\<close>

record broadcast_job =
  bj_channel :: string
  bj_message :: "string option"
  bj_pos :: string
  bj_mid :: string
  bj_now :: int
  bj_max :: int
  bj_snapshot :: "cref list"
  bj_todo :: "cref list"
  bj_done :: "(cref \<times> client \<times> client) list"
  bj_panic :: "(cref \<times> client) option"
  bj_held :: "(nat \<times> cref) set"

definition bj_env :: "broadcast_job \<Rightarrow> broadcast_envelope" where
  "bj_env j = NewBroadcastEnvelope (bj_channel j) (bj_now j) (bj_message j) (bj_pos j) (bj_mid j)"

definition serve_next :: "broadcast_job \<Rightarrow> client \<Rightarrow> panic + client" where
  "serve_next j cl = deliver_one (bj_max j) (bj_channel j) (bj_pos j) (bj_now j) (bj_env j) cl"

section \<open>The server\<close>

text \<open>Connections are numbered in the order they take a slot; a number without actions is no connection, or one that is gone.\<close>

record server_run =
  fo_srv :: server
  fo_conns :: "nat \<Rightarrow> server_conn"
  fo_next :: nat
  fo_jobs :: "nat \<Rightarrow> broadcast_job option"

definition todo :: "server_run \<Rightarrow> nat \<Rightarrow> conn_action list" where
  "todo s h = co_todo (fo_conns s h)"

text \<open>The struct a connection has taken from the pool and not yet put back.\<close>

definition uses_struct :: "server_run \<Rightarrow> nat \<Rightarrow> cref \<Rightarrow> bool" where
  "uses_struct s h c \<longleftrightarrow> co_ref (fo_conns s h) = c \<and> TakeStruct \<notin> set (todo s h) \<and> PutStruct \<in> set (todo s h)"

definition goes_on :: "nat \<Rightarrow> conn_action list \<Rightarrow> server_run \<Rightarrow> server_run" where
  "goes_on h acts s = s\<lparr>fo_conns := (fo_conns s)(h := (fo_conns s h)\<lparr>co_todo := acts\<rparr>)\<rparr>"

definition with_srv :: "server \<Rightarrow> server_run \<Rightarrow> server_run" where
  "with_srv srv s = s\<lparr>fo_srv := srv\<rparr>"

text \<open>What the pumps, the replays and the handlers of other messages do to the struct of a client: they fill and drain its channels and move its counters.\<close>

definition same_client_books :: "client \<Rightarrow> client \<Rightarrow> bool" where
  "same_client_books cl cl' \<longleftrightarrow> transport cl' = transport cl \<and> sendClosed cl' = sendClosed cl \<and> subscriptions cl' = subscriptions cl"

inductive fanout_step :: "server_run \<Rightarrow> server_run \<Rightarrow> bool" where
  arrives: "acquire_slot (fo_srv s) = Some srv \<Longrightarrow>
     (co_kind k = TransportWebSocket \<and> co_todo k = ws_life upgraded) \<or> (co_kind k = TransportGRPCStream \<and> co_todo k = sse_life channels) \<Longrightarrow>
     fanout_step s (s\<lparr>fo_srv := srv, fo_conns := (fo_conns s)(fo_next s := k), fo_next := Suc (fo_next s)\<rparr>)"
| takes: "todo s h = TakeStruct # rest \<Longrightarrow> \<forall>h'. \<not> uses_struct s h' c \<Longrightarrow> k = (fo_conns s h)\<lparr>co_ref := c, co_todo := rest\<rparr> \<Longrightarrow>
     fanout_step s (s\<lparr>fo_srv := run_action TakeStruct k [] (fo_srv s), fo_conns := (fo_conns s)(h := k)\<rparr>)"
| hooked: "todo s h = HookConnect # rest \<Longrightarrow> tenant_connect (co_tenant (fo_conns s h)) ch (fo_srv s) = Some srv \<Longrightarrow>
     fanout_step s (goes_on h rest (with_srv srv s))"
| not_hooked: "todo s h = HookConnect # rest \<Longrightarrow> tenant_connect (co_tenant (fo_conns s h)) ch (fo_srv s) = None \<Longrightarrow>
     fanout_step s (goes_on h (hook_failed (co_kind (fo_conns s h))) s)"
| acts: "todo s h = a # rest \<Longrightarrow> a \<notin> {TakeStruct, HookConnect, Serve} \<Longrightarrow>
     (a = UnindexAll \<longrightarrow> set listed = subscriptions (heap (fo_srv s) (co_ref (fo_conns s h)))) \<Longrightarrow>
     fanout_step s (goes_on h rest (with_srv (run_action a (fo_conns s h) listed (fo_srv s)) s))"
| subscribes_to: "todo s h = Serve # rest \<Longrightarrow> fanout_step s (goes_on h (Subscribing chs # Indexing chs # Serve # rest) s)"
| unsubscribes_from: "todo s h = Serve # rest \<Longrightarrow> fanout_step s (goes_on h (Unsubscribing chs # Unindexing chs # Serve # rest) s)"
| limited: "todo s h = Serve # rest \<Longrightarrow> fanout_step s (with_srv (CheckLimit_bucket (cl_id (heap (fo_srv s) (co_ref (fo_conns s h)))) (fo_srv s)) s)"
| stops: "todo s h = Serve # rest \<Longrightarrow> fanout_step s (goes_on h rest s)"
| pumps: "same_client_books (heap (fo_srv s) c) cl \<Longrightarrow> fanout_step s (with_srv (upd_heap c (\<lambda>_. cl) (fo_srv s)) s)"
| starts: "fo_jobs s b = None \<Longrightarrow> extractChannel subject = channel \<Longrightarrow> channel \<noteq> [] \<Longrightarrow> snapshot = idx_Get (index (fo_srv s)) channel \<Longrightarrow>
     j = \<lparr>bj_channel = channel, bj_message = msg, bj_pos = pos, bj_mid = mid, bj_now = now, bj_max = SlowClientMaxAttempts (fo_srv s),
       bj_snapshot = snapshot, bj_todo = snapshot, bj_done = [], bj_panic = None, bj_held = {(h, c). uses_struct s h c}\<rparr> \<Longrightarrow>
     fanout_step s (s\<lparr>fo_jobs := (fo_jobs s)(b \<mapsto> j)\<rparr>)"
| serves: "fo_jobs s b = Some j \<Longrightarrow> bj_panic j = None \<Longrightarrow> bj_todo j = c # cs \<Longrightarrow> serve_next j (heap (fo_srv s) c) = Inr cl \<Longrightarrow>
     fanout_step s (s\<lparr>fo_srv := upd_heap c (\<lambda>_. cl) (fo_srv s),
       fo_jobs := (fo_jobs s)(b \<mapsto> j\<lparr>bj_todo := cs, bj_done := bj_done j @ [(c, heap (fo_srv s) c, cl)]\<rparr>)\<rparr>)"
| panics: "fo_jobs s b = Some j \<Longrightarrow> bj_panic j = None \<Longrightarrow> bj_todo j = c # cs \<Longrightarrow> serve_next j (heap (fo_srv s) c) = Inl e \<Longrightarrow>
     fanout_step s (s\<lparr>fo_jobs := (fo_jobs s)(b \<mapsto> j\<lparr>bj_panic := Some (c, heap (fo_srv s) c)\<rparr>)\<rparr>)"

text \<open>A server as it starts: no connection, no broadcast, an empty index, nothing counted, and only unused structs.\<close>

definition fresh_fanout :: "server_run \<Rightarrow> bool" where
  "fresh_fanout s \<longleftrightarrow> (\<forall>h. todo s h = []) \<and> fo_next s = 0 \<and> (\<forall>b. fo_jobs s b = None) \<and> index (fo_srv s) = NewSubscriptionIndex \<and>
     clients (fo_srv s) = {} \<and> connectionsSem (fo_srv s) = 0 \<and> 0 \<le> maxConns (fo_srv s) \<and> CurrentConnections (fo_srv s) = 0 \<and>
     (\<forall>c. transport (heap (fo_srv s) c) = None)"

definition fanout_reachable :: "server_run \<Rightarrow> bool" where
  "fanout_reachable s \<longleftrightarrow> (\<exists>s0. fresh_fanout s0 \<and> fanout_step\<^sup>*\<^sup>* s0 s)"

end
