(* ===== verification/FanoutSafety.thy ===== *)
theory FanoutSafety
  imports FanoutRun
begin

text \<open>
  What is true of the message server in every interleaving of connections and broadcasts: the slots, the counters and the
  map of clients agree with the progress of the connections, the index lists only structs in use and exactly the subscriptions of
  every idle connection, and a broadcast serves each subscriber of its snapshot once.
\<close>

section \<open>The order of the actions\<close>

fun bookkeeping :: "conn_action \<Rightarrow> bool" where
  "bookkeeping (Subscribing chs) = True"
| "bookkeeping (Indexing chs) = True"
| "bookkeeping (Unsubscribing chs) = True"
| "bookkeeping (Unindexing chs) = True"
| "bookkeeping _ = False"

definition idle_rest :: "conn_action list \<Rightarrow> bool" where
  "idle_rest r \<longleftrightarrow> {DeleteClient, UncountCurrent, UnindexAll, CloseSend, PutStruct, ReleaseSlot} \<subseteq> set r \<and> StoreClient \<notin> set r \<and> CountCurrent \<notin> set r \<and>
     TakeStruct \<notin> set r \<and> (\<forall>a \<in> set r. \<not> bookkeeping a)"

text \<open>An action may come before these others.\<close>

definition follows :: "transport_type \<Rightarrow> conn_action \<Rightarrow> conn_action list \<Rightarrow> bool" where
  "follows k a r \<longleftrightarrow> TakeStruct \<notin> set r \<and>
     (a \<notin> {ReleaseSlot, DropBucket, PutStruct} \<longrightarrow> PutStruct \<in> set r) \<and>
     (a \<notin> {ReleaseSlot, DropBucket} \<longrightarrow> ReleaseSlot \<in> set r) \<and>
     (a = PutStruct \<longrightarrow> set r \<subseteq> {ReleaseSlot, DropBucket}) \<and> (a = ReleaseSlot \<longrightarrow> set r \<subseteq> {DropBucket}) \<and> (a = DropBucket \<longrightarrow> r = []) \<and>
     (a \<in> {StoreClient, CountCurrent, DeleteClient, UncountCurrent, CloseSend, UnindexAll} \<longrightarrow> a \<notin> set r) \<and>
     (StoreClient \<in> set r \<longrightarrow> a \<in> {TakeStruct, HookConnect}) \<and> (CountCurrent \<in> set r \<longrightarrow> a \<in> {TakeStruct, HookConnect, StoreClient, CountTotal}) \<and>
     (a = TakeStruct \<longrightarrow> StoreClient \<in> set r \<and> CountCurrent \<in> set r) \<and>
     (a = StoreClient \<longrightarrow> DeleteClient \<in> set r \<and> CountCurrent \<in> set r \<and> (\<forall>chs. Unindexing chs \<notin> set r)) \<and> (a = CountCurrent \<longrightarrow> UncountCurrent \<in> set r) \<and>
     (a = HookConnect \<longrightarrow> (if k = TransportWebSocket then StoreClient \<in> set r \<and> CountCurrent \<in> set r else idle_rest r)) \<and>
     (a = Serve \<longrightarrow> idle_rest r) \<and> (bookkeeping a \<longrightarrow> UnindexAll \<in> set r) \<and> (a = UnindexAll \<longrightarrow> (\<forall>x \<in> set r. \<not> bookkeeping x)) \<and>
     (\<forall>chs. a = Subscribing chs \<longleftrightarrow> r \<noteq> [] \<and> hd r = Indexing chs) \<and> (\<forall>chs. a = Unsubscribing chs \<longleftrightarrow> r \<noteq> [] \<and> hd r = Unindexing chs)"

fun well_ordered :: "transport_type \<Rightarrow> conn_action list \<Rightarrow> bool" where
  "well_ordered k [] = True"
| "well_ordered k (a # r) = (follows k a r \<and> well_ordered k r)"

lemma teardown_ordered: "well_ordered k ws_teardown" "well_ordered k sse_teardown" "well_ordered k (hook_failed k')"
  by (simp_all add: ws_teardown_def sse_teardown_def hook_failed_def follows_def split: transport_type.splits)

lemma teardown_idle: "idle_rest ws_teardown" "idle_rest sse_teardown"
  by (simp_all add: idle_rest_def ws_teardown_def sse_teardown_def)

lemma sse_rest_ordered:
  "well_ordered TransportGRPCStream (concat (map (\<lambda>ch. [Subscribing [ch], Indexing [ch]]) chs) @ [HookConnect, Serve] @ sse_teardown)"
proof (induction chs)
  case Nil
  then show ?case by (simp add: sse_teardown_def follows_def idle_rest_def)
next
  case (Cons ch chs)
  let ?r = "concat (map (\<lambda>ch. [Subscribing [ch], Indexing [ch]]) chs) @ [HookConnect, Serve] @ sse_teardown"
  have s: "set ?r \<subseteq> {a. bookkeeping a} \<union> {HookConnect, Serve} \<union> set sse_teardown" "set ([HookConnect, Serve] @ sse_teardown) \<subseteq> set ?r" by auto
  have h: "?r \<noteq> []" "hd ?r \<noteq> Indexing x" "hd ?r \<noteq> Unindexing x" for x by (cases chs; simp)+
  have "follows TransportGRPCStream (Indexing [ch]) ?r" "follows TransportGRPCStream (Subscribing [ch]) (Indexing [ch] # ?r)"
    using s h by (auto simp: follows_def sse_teardown_def)
  then show ?case using Cons by simp
qed

lemma life_ordered: "well_ordered TransportWebSocket (ws_life upgraded)" "well_ordered TransportGRPCStream (sse_life channels)"
proof -
  show "well_ordered TransportWebSocket (ws_life upgraded)" by (auto simp: ws_life_def ws_teardown_def follows_def idle_rest_def)
  let ?r = "concat (map (\<lambda>ch. [Subscribing [ch], Indexing [ch]]) channels) @ [HookConnect, Serve] @ sse_teardown"
  have s: "set ?r \<subseteq> {Subscribing [ch] | ch. True} \<union> {Indexing [ch] | ch. True} \<union> {HookConnect, Serve} \<union> set sse_teardown" "set ([HookConnect, Serve] @ sse_teardown) \<subseteq> set ?r" by auto
  have h: "?r \<noteq> []" "hd ?r \<noteq> Indexing x" "hd ?r \<noteq> Unindexing x" for x by (cases channels; simp)+
  have "follows TransportGRPCStream CountCurrent ?r" using s h by (auto simp: follows_def sse_teardown_def)
  moreover have "follows TransportGRPCStream CountTotal (CountCurrent # ?r)" using s by (auto simp: follows_def sse_teardown_def)
  moreover have "follows TransportGRPCStream StoreClient (CountTotal # CountCurrent # ?r)" using s by (auto simp: follows_def sse_teardown_def)
  moreover have "follows TransportGRPCStream TakeStruct (StoreClient # CountTotal # CountCurrent # ?r)" using s by (auto simp: follows_def sse_teardown_def)
  ultimately show "well_ordered TransportGRPCStream (sse_life channels)" using sse_rest_ordered [of channels] by (simp add: sse_life_def)
qed

section \<open>A connection and its struct\<close>

definition adding :: "conn_action list \<Rightarrow> string set" where
  "adding r = {ch. \<exists>chs. Indexing chs \<in> set r \<and> ch \<in> set chs}"

definition removing :: "conn_action list \<Rightarrow> string set" where
  "removing r = {ch. \<exists>chs. Unindexing chs \<in> set r \<and> ch \<in> set chs}"

lemma pending_simps [simp]:
  "adding [] = {}" "removing [] = {}"
  "adding (a # r) = (case a of Indexing chs \<Rightarrow> set chs \<union> adding r | _ \<Rightarrow> adding r)"
  "removing (a # r) = (case a of Unindexing chs \<Rightarrow> set chs \<union> removing r | _ \<Rightarrow> removing r)"
  by (auto simp: adding_def removing_def split: conn_action.splits)

lemma no_pending: "\<forall>a \<in> set r. \<not> bookkeeping a \<Longrightarrow> adding r = {} \<and> removing r = {}"
  by (auto simp: adding_def removing_def)

text \<open>The state of a struct in use by a connection that has these actions left: \<open>ls\<close> are the channels the index lists it for, \<open>st\<close> tells whether it is among the clients.\<close>

definition local_ok :: "conn_action list \<Rightarrow> client \<Rightarrow> string set \<Rightarrow> bool \<Rightarrow> bool" where
  "local_ok r cl ls st \<longleftrightarrow> transport cl \<noteq> None \<and> (CloseSend \<in> set r \<longrightarrow> \<not> sendClosed cl) \<and>
     ls \<subseteq> subscriptions cl \<union> removing r \<and> (UnindexAll \<in> set r \<longrightarrow> subscriptions cl \<subseteq> ls \<union> adding r) \<and> (UnindexAll \<notin> set r \<longrightarrow> ls = {}) \<and>
     (StoreClient \<in> set r \<longrightarrow> subscriptions cl = {}) \<and> (st \<longleftrightarrow> StoreClient \<notin> set r \<and> DeleteClient \<in> set r) \<and>
     (\<forall>chs. r \<noteq> [] \<and> hd r = Indexing chs \<longrightarrow> set chs \<subseteq> subscriptions cl) \<and> (\<forall>chs. r \<noteq> [] \<and> hd r = Unindexing chs \<longrightarrow> set chs \<inter> subscriptions cl = {})"

definition listed :: "server \<Rightarrow> cref \<Rightarrow> string set" where
  "listed srv c = {ch. c \<in> set (idx_Get (index srv) ch)}"

definition conn_local :: "conn_action list \<Rightarrow> server \<Rightarrow> cref \<Rightarrow> bool" where
  "conn_local r srv c \<longleftrightarrow> local_ok r (heap srv c) (listed srv c) (c \<in> clients srv)"

definition free_ok :: "server \<Rightarrow> cref \<Rightarrow> bool" where
  "free_ok srv c \<longleftrightarrow> transport (heap srv c) = None \<and> listed srv c = {} \<and> c \<notin> clients srv"

lemma listed_multiple:
  assumes "idx_inv (index srv)"
  shows "listed (srv\<lparr>index := idx_AddMultiple (index srv) chs c\<rparr>) d = listed srv d \<union> (if d = c then set chs else {})"
    and "listed (srv\<lparr>index := idx_RemoveMultiple (index srv) chs c\<rparr>) d = listed srv d - (if d = c then set chs else {})"
  using assms by (auto simp: listed_def idx_multiple idx.subs_adds idx.subs_removes split: if_splits)

lemma listed_cong: "index srv' = index srv \<Longrightarrow> listed srv' c = listed srv c"
  by (simp add: listed_def)

lemma listed_frame [simp]:
  "listed (upd_heap d f s) c = listed s c" "listed (s\<lparr>heap := hp\<rparr>) c = listed s c" "listed (s\<lparr>clients := cs\<rparr>) c = listed s c" "listed (s\<lparr>TotalConnections := n\<rparr>) c = listed s c"
  "listed (s\<lparr>CurrentConnections := n\<rparr>) c = listed s c" "listed (push_registry i e s) c = listed s c" "listed (tenant_disconnect u s) c = listed s c"
  "listed (close_transport s d) c = listed s c" "listed (close_send_of s d) c = listed s c" "listed (put_client s d) c = listed s c"
  "listed (release_slot s) c = listed s c" "listed (RemoveClient n s) c = listed s c" "listed (CheckLimit_bucket n s) c = listed s c" "listed (take_client s d g) c = listed s c"
  by (simp_all add: listed_def upd_heap_def close_transport_def close_send_of_def put_client_def take_client_def Let_def)

lemma action_inv:
  assumes "idx_inv (index srv)"
  shows "idx_inv (index (run_action a k ls srv))"
  using assms by (cases a) (simp_all add: upd_heap_def take_client_def close_transport_def close_send_of_def put_client_def idx_multiple idx.inv_adds idx.inv_removes Let_def)

text \<open>An action touches no struct but the connection's own.\<close>

lemma action_heap: "d \<noteq> co_ref k \<Longrightarrow> heap (run_action a k ls srv) d = heap srv d"
  by (cases a) (simp_all add: upd_heap_def take_client_def close_transport_def close_send_of_def put_client_def Let_def)

lemma action_clients: "d \<noteq> co_ref k \<Longrightarrow> d \<in> clients (run_action a k ls srv) \<longleftrightarrow> d \<in> clients srv"
  by (cases a) (simp_all add: upd_heap_def take_client_def close_transport_def close_send_of_def put_client_def Let_def)

lemma action_listed: "idx_inv (index srv) \<Longrightarrow> d \<noteq> co_ref k \<Longrightarrow> listed (run_action a k ls srv) d = listed srv d"
  by (cases a) (simp_all add: listed_multiple Let_def)

text \<open>What it does to the own struct.\<close>

fun subs_after :: "conn_action \<Rightarrow> string set \<Rightarrow> string set" where
  "subs_after (Subscribing chs) ss = ss \<union> set chs"
| "subs_after (Unsubscribing chs) ss = ss - set chs"
| "subs_after _ ss = ss"

fun listed_after :: "conn_action \<Rightarrow> string list \<Rightarrow> string set \<Rightarrow> string set" where
  "listed_after (Indexing chs) ls x = x \<union> set chs"
| "listed_after (Unindexing chs) ls x = x - set chs"
| "listed_after UnindexAll ls x = x - set ls"
| "listed_after _ ls x = x"

lemma action_own:
  assumes "a \<notin> {TakeStruct, PutStruct}"
  shows "transport (heap (run_action a k ls srv) (co_ref k)) = transport (heap srv (co_ref k))"
    and "sendClosed (heap (run_action a k ls srv) (co_ref k)) = (a = CloseSend \<or> sendClosed (heap srv (co_ref k)))"
    and "subscriptions (heap (run_action a k ls srv) (co_ref k)) = subs_after a (subscriptions (heap srv (co_ref k)))"
proof -
  show "transport (heap (run_action a k ls srv) (co_ref k)) = transport (heap srv (co_ref k))"
    using assms by (cases a) (simp_all add: upd_heap_def close_transport_def close_send_of_def Let_def)
  show "sendClosed (heap (run_action a k ls srv) (co_ref k)) = (a = CloseSend \<or> sendClosed (heap srv (co_ref k)))"
    using assms by (cases a) (simp_all add: upd_heap_def close_transport_def close_send_of_def Let_def)
  show "subscriptions (heap (run_action a k ls srv) (co_ref k)) = subs_after a (subscriptions (heap srv (co_ref k)))"
    using assms by (cases a) (simp_all add: upd_heap_def close_transport_def close_send_of_def Let_def)
qed

lemma action_own_listed: "idx_inv (index srv) \<Longrightarrow> listed (run_action a k ls srv) (co_ref k) = listed_after a ls (listed srv (co_ref k))"
  by (cases a) (simp_all add: listed_multiple Let_def)

lemma action_own_clients:
  "co_ref k \<in> clients (run_action a k ls srv) \<longleftrightarrow> a = StoreClient \<or> a \<noteq> DeleteClient \<and> co_ref k \<in> clients srv"
  by (cases a) (simp_all add: upd_heap_def take_client_def close_transport_def close_send_of_def put_client_def Let_def)

lemma hd_adding: "r \<noteq> [] \<Longrightarrow> hd r = Indexing chs \<Longrightarrow> set chs \<subseteq> adding r" "r \<noteq> [] \<Longrightarrow> hd r = Unindexing chs \<Longrightarrow> set chs \<subseteq> removing r"
  by (cases r; auto)+

lemma follows_facts:
  assumes "follows kd a r"
  shows "bookkeeping a \<Longrightarrow> UnindexAll \<in> set r \<and> StoreClient \<notin> set r"
    and "a = UnindexAll \<Longrightarrow> adding r = {} \<and> removing r = {} \<and> UnindexAll \<notin> set r \<and> StoreClient \<notin> set r"
    and "a = Subscribing chs \<longleftrightarrow> r \<noteq> [] \<and> hd r = Indexing chs" and "a = Unsubscribing chs \<longleftrightarrow> r \<noteq> [] \<and> hd r = Unindexing chs"
    and "a = StoreClient \<Longrightarrow> DeleteClient \<in> set r \<and> StoreClient \<notin> set r" and "a = DeleteClient \<Longrightarrow> DeleteClient \<notin> set r \<and> StoreClient \<notin> set r"
    and "a = CloseSend \<Longrightarrow> CloseSend \<notin> set r"
proof -
  note u = assms [unfolded follows_def]
  show "bookkeeping a \<Longrightarrow> UnindexAll \<in> set r \<and> StoreClient \<notin> set r" using u by (cases a) simp_all
  show "a = UnindexAll \<Longrightarrow> adding r = {} \<and> removing r = {} \<and> UnindexAll \<notin> set r \<and> StoreClient \<notin> set r" using u no_pending [of r] by simp
  show "a = Subscribing chs \<longleftrightarrow> r \<noteq> [] \<and> hd r = Indexing chs" "a = Unsubscribing chs \<longleftrightarrow> r \<noteq> [] \<and> hd r = Unindexing chs" using u by blast+
  show "a = StoreClient \<Longrightarrow> DeleteClient \<in> set r \<and> StoreClient \<notin> set r" using u by simp
  show "a = DeleteClient \<Longrightarrow> DeleteClient \<notin> set r \<and> StoreClient \<notin> set r" using u by simp
  show "a = CloseSend \<Longrightarrow> CloseSend \<notin> set r" using u by simp
qed

lemma follows_struct:
  assumes "follows kd a r"
  shows "TakeStruct \<notin> set r" and "a \<notin> {ReleaseSlot, DropBucket, PutStruct} \<Longrightarrow> PutStruct \<in> set r" and "a = PutStruct \<Longrightarrow> set r \<subseteq> {ReleaseSlot, DropBucket}"
    and "a \<in> {ReleaseSlot, DropBucket} \<Longrightarrow> PutStruct \<notin> set r"
proof -
  note u = assms [unfolded follows_def]
  show "TakeStruct \<notin> set r" using u by blast
  show "PutStruct \<in> set r" if "a \<notin> {ReleaseSlot, DropBucket, PutStruct}" using u that by blast
  show "set r \<subseteq> {ReleaseSlot, DropBucket}" if "a = PutStruct" using u that by blast
  show "PutStruct \<notin> set r" if "a \<in> {ReleaseSlot, DropBucket}"
  proof
    assume "PutStruct \<in> set r"
    moreover have "set r \<subseteq> {DropBucket}" using u that by (metis empty_set empty_subsetI insertE singletonD)
    ultimately show False by blast
  qed
qed

lemma local_intro:
  assumes "transport cl \<noteq> None" "CloseSend \<in> set r \<Longrightarrow> \<not> sendClosed cl" "ls \<subseteq> subscriptions cl \<union> removing r"
    "UnindexAll \<in> set r \<Longrightarrow> subscriptions cl \<subseteq> ls \<union> adding r" "UnindexAll \<notin> set r \<Longrightarrow> ls = {}"
    "StoreClient \<in> set r \<Longrightarrow> subscriptions cl = {}" "st \<longleftrightarrow> StoreClient \<notin> set r \<and> DeleteClient \<in> set r"
    "\<And>chs. r \<noteq> [] \<Longrightarrow> hd r = Indexing chs \<Longrightarrow> set chs \<subseteq> subscriptions cl" "\<And>chs. r \<noteq> [] \<Longrightarrow> hd r = Unindexing chs \<Longrightarrow> set chs \<inter> subscriptions cl = {}"
  shows "local_ok r cl ls st"
  unfolding local_ok_def using assms by blast

lemma local_elim:
  assumes "local_ok r cl ls st"
  shows "transport cl \<noteq> None" "CloseSend \<in> set r \<Longrightarrow> \<not> sendClosed cl" "ls \<subseteq> subscriptions cl \<union> removing r"
    "UnindexAll \<in> set r \<Longrightarrow> subscriptions cl \<subseteq> ls \<union> adding r" "UnindexAll \<notin> set r \<Longrightarrow> ls = {}"
    "StoreClient \<in> set r \<Longrightarrow> subscriptions cl = {}" "st \<longleftrightarrow> StoreClient \<notin> set r \<and> DeleteClient \<in> set r"
    "r \<noteq> [] \<Longrightarrow> hd r = Indexing chs \<Longrightarrow> set chs \<subseteq> subscriptions cl" "r \<noteq> [] \<Longrightarrow> hd r = Unindexing chs \<Longrightarrow> set chs \<inter> subscriptions cl = {}"
  using assms unfolding local_ok_def by blast+

lemma local_step:
  assumes "local_ok (a # r) cl ls st" and "follows kd a r" and "a \<notin> {TakeStruct, PutStruct, ReleaseSlot, DropBucket}" and "a = UnindexAll \<longrightarrow> set lst = subscriptions cl"
    and c: "transport cl' = transport cl" "sendClosed cl' = (a = CloseSend \<or> sendClosed cl)" "subscriptions cl' = subs_after a (subscriptions cl)"
  shows "local_ok r cl' (listed_after a lst ls) (a = StoreClient \<or> a \<noteq> DeleteClient \<and> st)"
proof (rule local_intro)
  note l = local_elim [OF assms(1)] and f = follows_facts [OF assms(2)]
  show "transport cl' \<noteq> None" using l(1) c(1) by simp
  show "\<not> sendClosed cl'" if "CloseSend \<in> set r" using that l(2) f(7) c(2) by auto
  show "listed_after a lst ls \<subseteq> subscriptions cl' \<union> removing r"
  proof (cases a)
    case (Indexing chs) then show ?thesis using l(3) l(8) [of chs] c(3) by auto
  next
    case (Unindexing chs) then show ?thesis using l(3) c(3) by auto
  next
    case (Unsubscribing chs) then show ?thesis using l(3) f(4) [of chs] hd_adding(2) [of r chs] c(3) by auto
  next
    case UnindexAll then show ?thesis using l(3) f(2) assms(4) c(3) by auto
  qed (use l(3) c(3) in auto)
  show "subscriptions cl' \<subseteq> listed_after a lst ls \<union> adding r" if "UnindexAll \<in> set r"
  proof (cases a)
    case (Subscribing chs) then show ?thesis using that l(4) f(3) [of chs] hd_adding(1) [of r chs] c(3) by auto
  next
    case (Unindexing chs) then show ?thesis using that l(4) l(9) [of chs] c(3) by auto
  next
    case UnindexAll then show ?thesis using that f(2) by simp
  qed (use that l(4) c(3) in auto)
  show "listed_after a lst ls = {}" if "UnindexAll \<notin> set r"
    using that l(3,5) f(1,2) assms(4) by (cases a) auto
  show "subscriptions cl' = {}" if "StoreClient \<in> set r"
    using that l(6) f(1) c(3) by (cases a) auto
  show "(a = StoreClient \<or> a \<noteq> DeleteClient \<and> st) = (StoreClient \<notin> set r \<and> DeleteClient \<in> set r)"
    using l(7) f(5,6) by auto
  show "set chs \<subseteq> subscriptions cl'" if "r \<noteq> []" "hd r = Indexing chs" for chs using f(3) [of chs] that c(3) by auto
  show "set chs \<inter> subscriptions cl' = {}" if "r \<noteq> []" "hd r = Unindexing chs" for chs using f(4) [of chs] that c(3) by auto
qed

lemma action_local:
  assumes "conn_local (a # r) srv (co_ref k)" and "follows kd a r" and "idx_inv (index srv)" and "a \<notin> {TakeStruct, PutStruct, ReleaseSlot, DropBucket}"
    and "a = UnindexAll \<longrightarrow> set ls = subscriptions (heap srv (co_ref k))"
  shows "conn_local r (run_action a k ls srv) (co_ref k)"
  using local_step [OF assms(1) [unfolded conn_local_def] assms(2,4,5)] action_own [of a k ls srv] assms(4)
  unfolding conn_local_def action_own_listed [OF assms(3)] action_own_clients by auto

section \<open>All structs\<close>

definition structs_ok :: "server_run \<Rightarrow> bool" where
  "structs_ok s \<longleftrightarrow> idx_inv (index (fo_srv s)) \<and> (\<forall>h. well_ordered (co_kind (fo_conns s h)) (todo s h)) \<and>
     (\<forall>h c. uses_struct s h c \<longrightarrow> conn_local (todo s h) (fo_srv s) c) \<and> (\<forall>c. (\<forall>h. \<not> uses_struct s h c) \<longrightarrow> free_ok (fo_srv s) c) \<and>
     (\<forall>h h' c. uses_struct s h c \<and> uses_struct s h' c \<longrightarrow> h = h')"

lemma structs_okD:
  assumes "structs_ok s"
  shows "idx_inv (index (fo_srv s))" "well_ordered (co_kind (fo_conns s h)) (todo s h)" "uses_struct s h c \<Longrightarrow> conn_local (todo s h) (fo_srv s) c"
    "(\<And>h. \<not> uses_struct s h c) \<Longrightarrow> free_ok (fo_srv s) c" "uses_struct s h c \<Longrightarrow> uses_struct s h' c \<Longrightarrow> h = h'"
  using assms unfolding structs_ok_def by blast+

lemma conn_local_cong:
  assumes "same_client_books (heap srv c) (heap srv' c)" "listed srv' c = listed srv c" "c \<in> clients srv' \<longleftrightarrow> c \<in> clients srv"
  shows "conn_local r srv' c = conn_local r srv c" "free_ok srv' c = free_ok srv c"
  using assms by (auto simp: conn_local_def local_ok_def free_ok_def same_client_books_def)

lemma same_client_books_refl [simp]: "same_client_books cl cl" by (simp add: same_client_books_def)

text \<open>A step that changes the struct of the connection that runs it, and no other.\<close>

lemma structs_own_step:
  assumes ok: "structs_ok s" and idx: "idx_inv (index srv)" and wo: "well_ordered (co_kind k) (co_todo k)"
    and s': "fo_conns s' = (fo_conns s)(h := k)" "fo_srv s' = srv"
    and own: "\<And>h'. h' \<noteq> h \<Longrightarrow> \<not> uses_struct s h' (co_ref k)" and held: "\<And>d. uses_struct s h d \<Longrightarrow> d = co_ref k"
    and frame: "\<And>d. d \<noteq> co_ref k \<Longrightarrow> heap srv d = heap (fo_srv s) d \<and> listed srv d = listed (fo_srv s) d \<and> (d \<in> clients srv \<longleftrightarrow> d \<in> clients (fo_srv s))"
    and new: "if uses_struct s' h (co_ref k) then conn_local (co_todo k) srv (co_ref k) else free_ok srv (co_ref k)"
  shows "structs_ok s'"
proof -
  have td: "todo s' h' = (if h' = h then co_todo k else todo s h')" for h' by (simp add: todo_def s')
  have hs: "uses_struct s' h' d \<longleftrightarrow> (if h' = h then d = co_ref k \<and> uses_struct s' h (co_ref k) else uses_struct s h' d)" for h' d
    by (auto simp: uses_struct_def td s')
  have keep: "conn_local r srv d = conn_local r (fo_srv s) d" "free_ok srv d = free_ok (fo_srv s) d" if "d \<noteq> co_ref k" for r d
    using conn_local_cong [of "fo_srv s" d srv] frame [OF that] by auto
  have 1: "conn_local (todo s' h') (fo_srv s') d" if "uses_struct s' h' d" for h' d
  proof (cases "h' = h")
    case True then show ?thesis using that new unfolding hs [of h'] td s' by simp
  next
    case False
    then have "uses_struct s h' d" using that unfolding hs [of h'] by simp
    moreover from this have "d \<noteq> co_ref k" using own [OF False] by blast
    ultimately show ?thesis using structs_okD(3) [OF ok] keep(1) False unfolding td s' by simp
  qed
  have 2: "free_ok (fo_srv s') d" if d: "\<And>h'. \<not> uses_struct s' h' d" for d
  proof (cases "d = co_ref k")
    case True then show ?thesis using new d [of h] unfolding s' by simp
  next
    case False
    have "\<not> uses_struct s h' d" for h' using d [of h'] held [of d] False unfolding hs [of h'] by (cases "h' = h") auto
    then show ?thesis using structs_okD(4) [OF ok] keep(2) [OF False] unfolding s' by simp
  qed
  have 3: "h' = h''" if "uses_struct s' h' d" "uses_struct s' h'' d" for h' h'' d
  proof -
    from that own [of h'] own [of h''] structs_okD(5) [OF ok, of h' d h''] show ?thesis unfolding hs [of h'] hs [of h''] by (auto split: if_splits)
  qed
  show ?thesis unfolding structs_ok_def using 1 2 3 idx wo structs_okD(2) [OF ok] by (auto simp: td s' todo_def)
qed

text \<open>A step that leaves the books of all structs alone.\<close>

lemma structs_same_step:
  assumes ok: "structs_ok s" and idx: "index (fo_srv s') = index (fo_srv s)" and cls: "clients (fo_srv s') = clients (fo_srv s)"
    and hp: "\<And>d. same_client_books (heap (fo_srv s) d) (heap (fo_srv s') d)" and s': "fo_conns s' = (fo_conns s)(h := k)"
    and wo: "well_ordered (co_kind k) (co_todo k)" and hs: "\<And>d. uses_struct s' h d \<longleftrightarrow> uses_struct s h d"
    and new: "\<And>d. uses_struct s h d \<Longrightarrow> conn_local (todo s h) (fo_srv s) d \<Longrightarrow> conn_local (co_todo k) (fo_srv s) d"
  shows "structs_ok s'"
proof -
  have td: "todo s' h' = (if h' = h then co_todo k else todo s h')" for h' by (simp add: todo_def s')
  have hs': "uses_struct s' h' d \<longleftrightarrow> uses_struct s h' d" for h' d
    using hs [of d] by (cases "h' = h") (simp_all add: uses_struct_def todo_def s')
  have l: "listed (fo_srv s') d = listed (fo_srv s) d" for d using idx by (rule listed_cong)
  have keep: "conn_local r (fo_srv s') d = conn_local r (fo_srv s) d" "free_ok (fo_srv s') d = free_ok (fo_srv s) d" for r d
    using conn_local_cong [OF hp l] cls by auto
  have "conn_local (todo s' h') (fo_srv s') d" if "uses_struct s' h' d" for h' d
    using that structs_okD(3) [OF ok, of h' d] new [of d] unfolding keep hs' td by auto
  moreover have "well_ordered (co_kind (fo_conns s' h')) (todo s' h')" for h' using wo structs_okD(2) [OF ok, of h'] by (simp add: td s')
  ultimately show ?thesis using ok unfolding structs_ok_def idx hs' keep by blast
qed

section \<open>The steps\<close>

lemma todo_goes_on [simp]: "todo (goes_on h acts s) h' = (if h' = h then acts else todo s h')"
  by (simp add: todo_def goes_on_def)

lemma goes_on_simps [simp]:
  "fo_srv (goes_on h acts s) = fo_srv s" "fo_next (goes_on h acts s) = fo_next s" "fo_jobs (goes_on h acts s) = fo_jobs s"
  "fo_conns (goes_on h acts s) = (fo_conns s)(h := (fo_conns s h)\<lparr>co_todo := acts\<rparr>)"
  "fo_srv (with_srv srv s) = srv" "fo_next (with_srv srv s) = fo_next s" "fo_jobs (with_srv srv s) = fo_jobs s" "fo_conns (with_srv srv s) = fo_conns s"
  "todo (with_srv srv s) h = todo s h" "uses_struct (with_srv srv s) h c = uses_struct s h c"
  by (simp_all add: goes_on_def with_srv_def todo_def uses_struct_def)

lemma uses_goes_on: "uses_struct (goes_on h acts s) h' c \<longleftrightarrow>
    (if h' = h then co_ref (fo_conns s h) = c \<and> TakeStruct \<notin> set acts \<and> PutStruct \<in> set acts else uses_struct s h' c)"
  by (simp add: uses_struct_def)

lemma store_no_removing: "well_ordered k r \<Longrightarrow> StoreClient \<in> set r \<Longrightarrow> removing r = {}"
proof (induction r)
  case (Cons a r)
  show ?case
  proof (cases "a = StoreClient")
    case True
    then have "Unindexing chs \<notin> set r" for chs using Cons.prems by (simp add: follows_def)
    then show ?thesis using True by (simp add: removing_def)
  next
    case False
    then have "StoreClient \<in> set r" using Cons.prems(2) by simp
    moreover have "follows k a r" using Cons.prems(1) by simp
    ultimately have "StoreClient \<in> set r" "a \<in> {TakeStruct, HookConnect}" unfolding follows_def by blast+
    then show ?thesis using Cons by auto
  qed
qed simp

lemma deliver_one_books: "deliver_one mx ch pos now env cl = Inr cl' \<Longrightarrow> same_client_books cl cl'"
  by (auto simp: deliver_one_def same_client_books_def try_send_def Let_def split: if_splits prod.splits send_result.splits)

lemma held_before:
  assumes "structs_ok s" and "todo s h = a # rest" and "a \<notin> {TakeStruct, PutStruct, ReleaseSlot, DropBucket}"
  shows "follows (co_kind (fo_conns s h)) a rest" "well_ordered (co_kind (fo_conns s h)) rest" "uses_struct s h (co_ref (fo_conns s h))"
    "PutStruct \<in> set rest" "TakeStruct \<notin> set rest" "conn_local (a # rest) (fo_srv s) (co_ref (fo_conns s h))"
proof -
  have "well_ordered (co_kind (fo_conns s h)) (a # rest)" using structs_okD(2) [OF assms(1), of h] assms(2) by simp
  then show f: "follows (co_kind (fo_conns s h)) a rest" "well_ordered (co_kind (fo_conns s h)) rest" by simp_all
  show p: "PutStruct \<in> set rest" "TakeStruct \<notin> set rest" using follows_struct(1,2) [OF f(1)] assms(3) by blast+
  show "uses_struct s h (co_ref (fo_conns s h))" using p assms by (auto simp: uses_struct_def)
  then show "conn_local (a # rest) (fo_srv s) (co_ref (fo_conns s h))" using structs_okD(3) [OF assms(1)] assms(2) by metis
qed

text \<open>The connection goes on without touching the server's books.\<close>

lemma structs_goes_on:
  assumes ok: "structs_ok s" and h: "todo s h = a # rest" "a \<notin> {TakeStruct, PutStruct, ReleaseSlot, DropBucket}"
    and srv: "index srv = index (fo_srv s)" "clients srv = clients (fo_srv s)" "heap srv = heap (fo_srv s)"
    and wo: "well_ordered (co_kind (fo_conns s h)) new" and p: "PutStruct \<in> set new" "TakeStruct \<notin> set new"
    and l: "conn_local (a # rest) (fo_srv s) (co_ref (fo_conns s h)) \<Longrightarrow> conn_local new (fo_srv s) (co_ref (fo_conns s h))"
  shows "structs_ok (goes_on h new (with_srv srv s))"
proof (rule structs_same_step [OF ok, where h = h and k = "(fo_conns s h)\<lparr>co_todo := new\<rparr>"])
  have hd: "uses_struct s h d \<longleftrightarrow> d = co_ref (fo_conns s h)" for d using held_before(3) [OF ok h] by (auto simp: uses_struct_def)
  show "uses_struct (goes_on h new (with_srv srv s)) h d \<longleftrightarrow> uses_struct s h d" for d using p by (auto simp: uses_goes_on hd)
  show "conn_local (co_todo ((fo_conns s h)\<lparr>co_todo := new\<rparr>)) (fo_srv s) d" if "uses_struct s h d" "conn_local (todo s h) (fo_srv s) d" for d
    using that l unfolding hd h(1) by simp
qed (use srv wo in simp_all)

lemma structs_books_step:
  assumes "structs_ok s" and "fo_conns s' = fo_conns s" and "index (fo_srv s') = index (fo_srv s)" "clients (fo_srv s') = clients (fo_srv s)"
    and "\<And>d. same_client_books (heap (fo_srv s) d) (heap (fo_srv s') d)"
  shows "structs_ok s'"
  by (rule structs_same_step [OF assms(1,3,4,5), where h = 0 and k = "fo_conns s 0"])
     (use assms(2) structs_okD(2) [OF assms(1), of 0] in \<open>simp_all add: todo_def uses_struct_def\<close>)

lemma structs_act:
  assumes ok: "structs_ok s" and h: "todo s h = a # rest" "a \<notin> {TakeStruct, HookConnect, Serve}"
    and u: "a = UnindexAll \<longrightarrow> set ls = subscriptions (heap (fo_srv s) (co_ref (fo_conns s h)))"
  shows "structs_ok (goes_on h rest (with_srv (run_action a (fo_conns s h) ls (fo_srv s)) s))"
proof -
  let ?k = "fo_conns s h" and ?srv = "run_action a (fo_conns s h) ls (fo_srv s)"
  let ?s = "goes_on h rest (with_srv ?srv s)"
  note i = structs_okD(1) [OF ok]
  have w: "follows (co_kind ?k) a rest" "well_ordered (co_kind ?k) rest" using structs_okD(2) [OF ok, of h] h(1) by simp_all
  have frame: "heap ?srv d = heap (fo_srv s) d \<and> listed ?srv d = listed (fo_srv s) d \<and> (d \<in> clients ?srv \<longleftrightarrow> d \<in> clients (fo_srv s))" if "d \<noteq> co_ref ?k" for d
    using action_heap [OF that] action_listed [OF i that] action_clients [OF that] by simp
  show ?thesis
  proof (cases "a \<in> {ReleaseSlot, DropBucket}")
    case True
    have n: "\<not> uses_struct s h d" "\<not> uses_struct ?s h d" for d using True follows_struct(4) [OF w(1)] h(1) by (auto simp: uses_struct_def)
    show ?thesis
      by (rule structs_same_step [OF ok, where h = h and k = "?k\<lparr>co_todo := rest\<rparr>"]) (use True w n in \<open>auto simp: RemoveClient_def release_slot_def\<close>)
  next
    case False
    then have held: "uses_struct s h (co_ref ?k)" using follows_struct(1,2) [OF w(1)] h by (auto simp: uses_struct_def)
    show ?thesis
    proof (rule structs_own_step [OF ok action_inv [OF i, of a ?k ls], where h = h and k = "?k\<lparr>co_todo := rest\<rparr>"])
      show "\<not> uses_struct s h' (co_ref (?k\<lparr>co_todo := rest\<rparr>))" if "h' \<noteq> h" for h' using structs_okD(5) [OF ok held] that by auto
      show "d = co_ref (?k\<lparr>co_todo := rest\<rparr>)" if "uses_struct s h d" for d using that by (simp add: uses_struct_def)
      show "if uses_struct ?s h (co_ref (?k\<lparr>co_todo := rest\<rparr>)) then conn_local (co_todo (?k\<lparr>co_todo := rest\<rparr>)) ?srv (co_ref (?k\<lparr>co_todo := rest\<rparr>))
        else free_ok ?srv (co_ref (?k\<lparr>co_todo := rest\<rparr>))"
      proof (cases "a = PutStruct")
        case True
        have r: "set rest \<subseteq> {ReleaseSlot, DropBucket}" using follows_struct(3) [OF w(1)] True by blast
        have "conn_local (a # rest) (fo_srv s) (co_ref ?k)" using structs_okD(3) [OF ok held] h(1) by simp
        then have "listed (fo_srv s) (co_ref ?k) = {}" "co_ref ?k \<notin> clients (fo_srv s)" using r True unfolding conn_local_def local_ok_def by auto
        moreover have "\<not> uses_struct ?s h (co_ref ?k)" using r by (auto simp: uses_goes_on)
        ultimately show ?thesis using True by (auto simp: free_ok_def put_client_def pool_Put_def)
      next
        case nput: False
        have x: "a \<notin> {TakeStruct, PutStruct, ReleaseSlot, DropBucket}" using False nput h(2) by auto
        note hb = held_before [OF ok h(1) x]
        show ?thesis using action_local [OF hb(6,1) i x u] hb(4,5) by (simp add: uses_goes_on)
      qed
    qed (use w frame in auto)
  qed
qed

lemma structs_take:
  assumes ok: "structs_ok s" and h: "todo s h = TakeStruct # rest" and fr: "\<forall>h'. \<not> uses_struct s h' c"
    and k: "k = (fo_conns s h)\<lparr>co_ref := c, co_todo := rest\<rparr>"
  shows "structs_ok (s\<lparr>fo_srv := run_action TakeStruct k [] (fo_srv s), fo_conns := (fo_conns s)(h := k)\<rparr>)"
proof -
  let ?srv = "run_action TakeStruct k [] (fo_srv s)"
  note i = structs_okD(1) [OF ok]
  have w: "follows (co_kind k) TakeStruct rest" "well_ordered (co_kind k) rest" using structs_okD(2) [OF ok, of h] h by (simp_all add: k)
  have c: "co_ref k = c" by (simp add: k)
  have free: "free_ok (fo_srv s) c" using structs_okD(4) [OF ok] fr by blast
  have st: "StoreClient \<in> set rest" "PutStruct \<in> set rest" "TakeStruct \<notin> set rest" using w(1) unfolding follows_def by blast+
  note f = follows_facts(3,4) [OF w(1)]
  have cl: "transport (heap ?srv c) \<noteq> None" "\<not> sendClosed (heap ?srv c)" "subscriptions (heap ?srv c) = {}" "clients ?srv = clients (fo_srv s)"
    by (simp_all add: take_client_def set_up_def pool_Get_def set_Clear_def c Let_def split: transport_type.splits)
  have ls: "listed ?srv c = listed (fo_srv s) c" by simp
  have new: "conn_local rest ?srv c" unfolding conn_local_def
    by (rule local_intro) (use cl ls st free f in \<open>auto simp: free_ok_def simp del: run_action.simps\<close>)
  show ?thesis
  proof (rule structs_own_step [OF ok action_inv [OF i, of TakeStruct k "[]"], where h = h and k = k])
    show "heap ?srv d = heap (fo_srv s) d \<and> listed ?srv d = listed (fo_srv s) d \<and> (d \<in> clients ?srv \<longleftrightarrow> d \<in> clients (fo_srv s))" if "d \<noteq> co_ref k" for d
      using action_heap [OF that] action_listed [OF i that] action_clients [OF that] by blast
    show "d = co_ref k" if "uses_struct s h d" for d using that h by (simp add: uses_struct_def)
    show "if uses_struct (s\<lparr>fo_srv := ?srv, fo_conns := (fo_conns s)(h := k)\<rparr>) h (co_ref k) then conn_local (co_todo k) ?srv (co_ref k) else free_ok ?srv (co_ref k)"
      using new st by (simp add: uses_struct_def todo_def k)
  qed (use w fr c in \<open>simp_all add: k\<close>)
qed

lemma idle_conn:
  assumes "structs_ok s" and "todo s h = Serve # rest"
  shows "idle_rest rest" "well_ordered (co_kind (fo_conns s h)) rest" "follows (co_kind (fo_conns s h)) Serve rest"
proof -
  show "follows (co_kind (fo_conns s h)) Serve rest" "well_ordered (co_kind (fo_conns s h)) rest" using held_before(1,2) [OF assms] by simp_all
  then show "idle_rest rest" unfolding follows_def by blast
qed

lemma structs_request:
  assumes ok: "structs_ok s" and h: "todo s h = Serve # rest"
    and new: "new = Subscribing chs # Indexing chs # Serve # rest \<or> new = Unsubscribing chs # Unindexing chs # Serve # rest"
  shows "structs_ok (goes_on h new s)"
proof -
  note d = idle_conn [OF ok h]
  have e: "set rest \<inter> {StoreClient, CountCurrent, TakeStruct} = {}" "{UnindexAll, PutStruct, ReleaseSlot} \<subseteq> set rest" using d(1) by (auto simp: idle_rest_def)
  have "well_ordered (co_kind (fo_conns s h)) new" using new d(2,3) e by (auto simp: follows_def)
  moreover have "conn_local new (fo_srv s) (co_ref (fo_conns s h))" if "conn_local (Serve # rest) (fo_srv s) (co_ref (fo_conns s h))"
    using that new e unfolding conn_local_def by (auto simp: local_ok_def)
  ultimately show ?thesis
    using structs_goes_on [OF ok h, of "fo_srv s" new] new e by (auto simp: with_srv_def)
qed

lemma structs_not_hooked:
  assumes ok: "structs_ok s" and h: "todo s h = HookConnect # rest"
  shows "structs_ok (goes_on h (hook_failed (co_kind (fo_conns s h))) s)"
proof -
  note b = held_before [OF ok h]
  let ?k = "fo_conns s h"
  have l: "conn_local (hook_failed (co_kind ?k)) (fo_srv s) (co_ref ?k)" if cl: "conn_local (HookConnect # rest) (fo_srv s) (co_ref ?k)"
  proof (cases "co_kind ?k")
    case TransportWebSocket
    then have "StoreClient \<in> set rest" using b(1) unfolding follows_def by simp
    moreover from this have "removing rest = {}" using store_no_removing b(2) by simp
    ultimately show ?thesis using cl TransportWebSocket unfolding conn_local_def by (auto simp: local_ok_def hook_failed_def)
  next
    case TransportGRPCStream
    then have r: "idle_rest rest" using b(1) unfolding follows_def by simp
    then have "adding rest = {}" "removing rest = {}" using no_pending [of rest] by (simp_all add: idle_rest_def)
    then show ?thesis using cl r TransportGRPCStream unfolding conn_local_def by (auto simp: local_ok_def hook_failed_def idle_rest_def)
  qed
  have "PutStruct \<in> set (hook_failed kd)" "TakeStruct \<notin> set (hook_failed kd)" for kd by (simp_all add: hook_failed_def split: transport_type.splits)
  then show ?thesis
    using structs_goes_on [OF ok h, of "fo_srv s" "hook_failed (co_kind ?k)"] teardown_ordered(3) l by (simp add: with_srv_def)
qed

definition unused_idle :: "server_run \<Rightarrow> bool" where
  "unused_idle s \<longleftrightarrow> (\<forall>h \<ge> fo_next s. todo s h = [])"

lemma structs_step:
  assumes "fanout_step s s'" and ok: "structs_ok s" and ids: "unused_idle s"
  shows "structs_ok s'"
  using assms(1)
proof cases
  case (arrives srv k upgraded channels)
  have srv: "index srv = index (fo_srv s)" "clients srv = clients (fo_srv s)" "heap srv = heap (fo_srv s)"
    using arrives(2) by (auto simp: acquire_slot_def split: if_splits)
  have w: "well_ordered (co_kind k) (co_todo k)" using arrives(3) life_ordered by auto
  have "TakeStruct \<in> set (co_todo k) \<or> PutStruct \<notin> set (co_todo k)" using arrives(3) by (cases upgraded) (auto simp: ws_life_def sse_life_def)
  then have n: "\<not> uses_struct s' (fo_next s) d" "\<not> uses_struct s (fo_next s) d" for d using ids unfolding arrives(1) by (auto simp: uses_struct_def todo_def unused_idle_def)
  show ?thesis
    by (rule structs_same_step [OF ok, where h = "fo_next s" and k = k]) (use srv w n in \<open>simp_all add: arrives(1)\<close>)
next
  case (takes h rest c k) then show ?thesis using structs_take [OF ok] by blast
next
  case (hooked h rest ch srv)
  note b = held_before [OF ok hooked(2)]
  have "conn_local rest (fo_srv s) (co_ref (fo_conns s h))" if "conn_local (HookConnect # rest) (fo_srv s) (co_ref (fo_conns s h))"
    using action_local [OF that b(1) structs_okD(1) [OF ok], of "[]"] by simp
  then show ?thesis unfolding hooked(1) using structs_goes_on [OF ok hooked(2), of srv rest] tenant_connect_frame [OF hooked(3)] b by simp
next
  case (not_hooked h rest ch) then show ?thesis using structs_not_hooked [OF ok] by blast
next
  case (acts h a rest ls) then show ?thesis using structs_act [OF ok] by blast
next
  case (subscribes_to h rest chs) then show ?thesis using structs_request [OF ok] by blast
next
  case (unsubscribes_from h rest chs) then show ?thesis using structs_request [OF ok] by blast
next
  case (limited h rest) then show ?thesis by (intro structs_books_step [OF ok]) simp_all
next
  case (stops h rest)
  note b = held_before [OF ok stops(2)]
  have "conn_local rest (fo_srv s) (co_ref (fo_conns s h))" if "conn_local (Serve # rest) (fo_srv s) (co_ref (fo_conns s h))"
    using action_local [OF that b(1) structs_okD(1) [OF ok], of "[]"] by simp
  then show ?thesis unfolding stops(1) using structs_goes_on [OF ok stops(2), of "fo_srv s" rest] b by (simp add: with_srv_def)
next
  case (pumps c cl) then show ?thesis by (intro structs_books_step [OF ok]) (simp_all add: upd_heap_def)
next
  case (starts b subject channel snapshot j msg pos mid now) then show ?thesis by (intro structs_books_step [OF ok]) simp_all
next
  case (serves b j c cs cl)
  have "same_client_books (heap (fo_srv s) c) cl" using serves(5) deliver_one_books unfolding serve_next_def by blast
  then show ?thesis unfolding serves(1) by (intro structs_books_step [OF ok]) (simp_all add: upd_heap_def)
next
  case (panics b j c cs e) then show ?thesis by (intro structs_books_step [OF ok]) simp_all
qed

section \<open>Slots and counters\<close>

definition counted :: "conn_action list \<Rightarrow> bool" where
  "counted r \<longleftrightarrow> CountCurrent \<notin> set r \<and> UncountCurrent \<in> set r"

definition slots_of :: "server_run \<Rightarrow> nat set" where
  "slots_of s = {h. ReleaseSlot \<in> set (todo s h)}"

definition counted_of :: "server_run \<Rightarrow> nat set" where
  "counted_of s = {h. counted (todo s h)}"

definition counts_ok :: "server_run \<Rightarrow> bool" where
  "counts_ok s \<longleftrightarrow> connectionsSem (fo_srv s) = int (card (slots_of s)) \<and> connectionsSem (fo_srv s) \<le> maxConns (fo_srv s) \<and>
     CurrentConnections (fo_srv s) = i64 (int (card (counted_of s)))"

lemma card_where_update:
  assumes "finite {h. P (f h)}"
  shows "int (card {h'. P (if h' = h then x else f h')}) = int (card {h. P (f h)}) + of_bool (P x) - of_bool (P (f h))"
proof -
  let ?S = "{h. P (f h)}"
  have "{h'. P (if h' = h then x else f h')} = (if P x then insert h ?S else ?S - {h})" by auto
  moreover have "card (insert h ?S) = (if P (f h) then card ?S else Suc (card ?S))" using assms by (auto simp: card_insert_if)
  moreover have "int (card (?S - {h})) = int (card ?S) - of_bool (P (f h))"
    using assms card_Suc_Diff1 [OF assms, of h] by (cases "P (f h)") auto
  ultimately show ?thesis by auto
qed

lemma finite_where: "unused_idle s \<Longrightarrow> \<not> P [] \<Longrightarrow> finite {h. P (todo s h)}"
proof -
  assume a: "unused_idle s" "\<not> P []"
  have "h < fo_next s" if "P (todo s h)" for h using that a unfolding unused_idle_def by (metis not_le)
  then have "{h. P (todo s h)} \<subseteq> {..<fo_next s}" by blast
  then show ?thesis using finite_subset by blast
qed

lemma i64_add: "i64 (i64 x + y) = i64 (x + y)"
proof -
  have "i64 x + y + 2 ^ 63 = (x + 2 ^ 63) mod 2 ^ 64 + y" by (simp add: i64_def)
  then show ?thesis unfolding i64_def [of "i64 x + y"] i64_def [of "x + y"] by (simp only: mod_add_left_eq) (simp only: ac_simps)
qed

text \<open>One connection changes its list of actions, and the slots and counters change with it.\<close>

lemma counts_update:
  assumes ok: "counts_ok s" and ids: "unused_idle s" and td: "\<And>h'. todo s' h' = (if h' = h then x else todo s h')"
    and sem: "connectionsSem (fo_srv s') = connectionsSem (fo_srv s) + of_bool (ReleaseSlot \<in> set x) - of_bool (ReleaseSlot \<in> set (todo s h))"
    and cur: "CurrentConnections (fo_srv s') = i64 (CurrentConnections (fo_srv s) + of_bool (counted x) - of_bool (counted (todo s h)))"
    and mx: "maxConns (fo_srv s') = maxConns (fo_srv s)" and le: "connectionsSem (fo_srv s') \<le> maxConns (fo_srv s)"
  shows "counts_ok s'"
proof -
  have f: "finite {h. ReleaseSlot \<in> set (todo s h)}" "finite {h. counted (todo s h)}"
    using finite_where [OF ids, of "\<lambda>r. ReleaseSlot \<in> set r"] finite_where [OF ids, of counted] by (auto simp: counted_def)
  have 1: "int (card (slots_of s')) = connectionsSem (fo_srv s')"
    using card_where_update [where P = "\<lambda>r. ReleaseSlot \<in> set r" and f = "todo s", OF f(1), of h x] ok sem by (simp add: slots_of_def td counts_ok_def)
  have 2: "int (card (counted_of s')) = int (card (counted_of s)) + of_bool (counted x) - of_bool (counted (todo s h))"
    using card_where_update [where P = counted and f = "todo s", OF f(2), of h x] by (simp add: counted_of_def td)
  have "CurrentConnections (fo_srv s') = i64 (int (card (counted_of s)) + of_bool (counted x) - of_bool (counted (todo s h)))"
    using ok cur i64_add [of "int (card (counted_of s))" "of_bool (counted x) - of_bool (counted (todo s h))"] unfolding counts_ok_def by (simp only: add_diff_eq)
  then show ?thesis using 1 mx le unfolding counts_ok_def 2 by simp
qed

lemma counts_same:
  assumes "counts_ok s" and "\<And>h. todo s' h = todo s h" and "connectionsSem (fo_srv s') = connectionsSem (fo_srv s)"
    and "maxConns (fo_srv s') = maxConns (fo_srv s)" and "CurrentConnections (fo_srv s') = CurrentConnections (fo_srv s)"
  shows "counts_ok s'"
  using assms by (simp add: counts_ok_def slots_of_def counted_of_def)

lemma follows_counts:
  assumes "follows kd a r"
  shows "ReleaseSlot \<in> set r \<longleftrightarrow> a \<noteq> ReleaseSlot \<and> ReleaseSlot \<in> set (a # r)"
    and "(of_bool (counted r) :: int) - of_bool (counted (a # r)) = of_bool (a = CountCurrent) - of_bool (a = UncountCurrent)"
proof -
  note u = assms [unfolded follows_def]
  have r: "a \<notin> {ReleaseSlot, DropBucket} \<Longrightarrow> ReleaseSlot \<in> set r" "a = ReleaseSlot \<Longrightarrow> set r \<subseteq> {DropBucket}" using u by blast+
  show "ReleaseSlot \<in> set r \<longleftrightarrow> a \<noteq> ReleaseSlot \<and> ReleaseSlot \<in> set (a # r)" using r by auto
  have c: "a = CountCurrent \<Longrightarrow> CountCurrent \<notin> set r \<and> UncountCurrent \<in> set r" "a = UncountCurrent \<Longrightarrow> UncountCurrent \<notin> set r \<and> CountCurrent \<notin> set r" using u by blast+
  show "(of_bool (counted r) :: int) - of_bool (counted (a # r)) = of_bool (a = CountCurrent) - of_bool (a = UncountCurrent)"
    using c by (auto simp: counted_def)
qed

lemma action_counters:
  "connectionsSem (run_action a k ls srv) = connectionsSem srv - of_bool (a = ReleaseSlot)" "maxConns (run_action a k ls srv) = maxConns srv"
  "CurrentConnections (run_action a k ls srv) =
     (if a = CountCurrent then i64 (CurrentConnections srv + 1) else if a = UncountCurrent then i64 (CurrentConnections srv - 1) else CurrentConnections srv)"
  by (cases a; simp add: upd_heap_def take_client_def close_transport_def close_send_of_def put_client_def push_registry_def tenant_disconnect_def
      release_slot_def RemoveClient_def Let_def split: option.splits)+

lemma i64_i64 [simp]: "i64 (i64 x) = i64 x"
  using i64_add [of x 0] by simp

lemma counts_current: "counts_ok s \<Longrightarrow> i64 (CurrentConnections (fo_srv s)) = CurrentConnections (fo_srv s)"
  by (simp add: counts_ok_def)

text \<open>The connection runs the action at the head of its list.\<close>

lemma counts_pop:
  assumes ok: "counts_ok s" and ids: "unused_idle s" and h: "todo s h = a # rest" and f: "follows kd a rest"
    and td: "\<And>h'. todo s' h' = (if h' = h then rest else todo s h')" and srv: "fo_srv s' = run_action a k ls (fo_srv s)"
  shows "counts_ok s'"
proof (rule counts_update [OF ok ids td])
  note c = follows_counts [OF f]
  have i: "(of_bool (counted rest) :: int) - of_bool (counted (todo s h)) = of_bool (a = CountCurrent) - of_bool (a = UncountCurrent)" using c(2) h by simp
  show "connectionsSem (fo_srv s') = connectionsSem (fo_srv s) + of_bool (ReleaseSlot \<in> set rest) - of_bool (ReleaseSlot \<in> set (todo s h))"
    using c(1) by (auto simp: srv action_counters h)
  have "CurrentConnections (fo_srv s') = i64 (CurrentConnections (fo_srv s) + (of_bool (a = CountCurrent) - of_bool (a = UncountCurrent)))"
    using counts_current [OF ok] by (auto simp: srv action_counters)
  then show "CurrentConnections (fo_srv s') = i64 (CurrentConnections (fo_srv s) + of_bool (counted rest) - of_bool (counted (todo s h)))"
    unfolding i [symmetric] by (simp only: add_diff_eq)
  show "maxConns (fo_srv s') = maxConns (fo_srv s)" by (simp add: srv action_counters)
  show "connectionsSem (fo_srv s') \<le> maxConns (fo_srv s)" using ok by (simp add: srv action_counters counts_ok_def)
qed

text \<open>The list of a connection changes, its part in the counters does not.\<close>

lemma counts_reorder:
  assumes ok: "counts_ok s" and ids: "unused_idle s" and td: "\<And>h'. todo s' h' = (if h' = h then x else todo s h')"
    and x: "ReleaseSlot \<in> set x \<longleftrightarrow> ReleaseSlot \<in> set (todo s h)" "counted x \<longleftrightarrow> counted (todo s h)"
    and srv: "connectionsSem (fo_srv s') = connectionsSem (fo_srv s)" "maxConns (fo_srv s') = maxConns (fo_srv s)" "CurrentConnections (fo_srv s') = CurrentConnections (fo_srv s)"
  shows "counts_ok s'"
  by (rule counts_update [OF ok ids td]) (use x srv ok counts_current [OF ok] in \<open>simp_all add: counts_ok_def\<close>)

lemma tenant_connect_current: "tenant_connect u ch srv = Some srv' \<Longrightarrow> CurrentConnections srv' = CurrentConnections srv"
  by (auto simp: tenant_connect_def split: option.splits prod.splits if_splits sum.splits)

lemma hook_failed_counts: "ReleaseSlot \<in> set (hook_failed k)" "counted (hook_failed k) \<longleftrightarrow> k = TransportGRPCStream"
  by (simp_all add: hook_failed_def counted_def split: transport_type.splits)

lemma counts_step:
  assumes "fanout_step s s'" and ok: "counts_ok s" and st: "structs_ok s" and ids: "unused_idle s"
  shows "counts_ok s'"
  using assms(1)
proof cases
  case (arrives srv k upgraded channels)
  have srv: "connectionsSem srv = connectionsSem (fo_srv s) + 1" "connectionsSem (fo_srv s) < maxConns (fo_srv s)" "maxConns srv = maxConns (fo_srv s)"
    "CurrentConnections srv = CurrentConnections (fo_srv s)"
    using arrives(2) by (auto simp: acquire_slot_def split: if_splits)
  have n: "todo s (fo_next s) = []" "\<not> counted []" using ids by (simp_all add: unused_idle_def counted_def)
  have k: "ReleaseSlot \<in> set (co_todo k)" "\<not> counted (co_todo k)"
    using arrives(3) by (cases upgraded; auto simp: ws_life_def sse_life_def ws_teardown_def sse_teardown_def counted_def)+
  show ?thesis
  proof (rule counts_update [OF ok ids, of s' "fo_next s" "co_todo k"])
    show "todo s' h' = (if h' = fo_next s then co_todo k else todo s h')" for h' by (simp add: arrives(1) todo_def)
  qed (use srv k n counts_current [OF ok] in \<open>simp_all add: arrives(1)\<close>)
next
  case (takes h rest c k)
  have "follows (co_kind (fo_conns s h)) TakeStruct rest" using structs_okD(2) [OF st, of h] takes(2) by simp
  then show ?thesis by (rule counts_pop [OF ok ids takes(2), where k = k and ls = "[]"]) (simp_all add: takes(1,4) todo_def)
next
  case (hooked h rest ch srv)
  note f = held_before(1) [OF st hooked(2)]
  show ?thesis
    by (rule counts_reorder [OF ok ids, of s' h rest])
       (use hooked follows_counts [OF f, simplified] tenant_connect_frame(5,6) [OF hooked(3)] tenant_connect_current [OF hooked(3)] in \<open>auto split: if_splits\<close>)
next
  case (not_hooked h rest ch)
  note f = held_before(1) [OF st not_hooked(2), simplified, unfolded follows_def]
  have "ReleaseSlot \<in> set rest" using f by blast
  moreover have "counted rest \<longleftrightarrow> co_kind (fo_conns s h) = TransportGRPCStream"
    using f by (cases "co_kind (fo_conns s h)") (auto simp: counted_def idle_rest_def)
  ultimately have "ReleaseSlot \<in> set (hook_failed (co_kind (fo_conns s h))) \<longleftrightarrow> ReleaseSlot \<in> set (todo s h)"
    "counted (hook_failed (co_kind (fo_conns s h))) \<longleftrightarrow> counted (todo s h)"
    unfolding hook_failed_counts(2) by (simp_all add: not_hooked(2) hook_failed_counts(1)) (simp add: counted_def)
  then show ?thesis by (intro counts_reorder [OF ok ids, of s' h "hook_failed (co_kind (fo_conns s h))"]) (simp_all add: not_hooked(1))
next
  case (acts h a rest ls)
  have "follows (co_kind (fo_conns s h)) a rest" using structs_okD(2) [OF st, of h] acts(2) by simp
  then show ?thesis by (rule counts_pop [OF ok ids acts(2), where k = "fo_conns s h" and ls = ls]) (simp_all add: acts(1))
next
  case (subscribes_to h rest chs)
  then show ?thesis by (intro counts_reorder [OF ok ids, of s' h "Subscribing chs # Indexing chs # Serve # rest"]) (simp_all add: counted_def)
next
  case (unsubscribes_from h rest chs)
  then show ?thesis by (intro counts_reorder [OF ok ids, of s' h "Unsubscribing chs # Unindexing chs # Serve # rest"]) (simp_all add: counted_def)
next
  case (limited h rest) then show ?thesis by (intro counts_same [OF ok]) (simp_all add: CheckLimit_bucket_def)
next
  case (stops h rest) then show ?thesis by (intro counts_reorder [OF ok ids, of s' h rest]) (simp_all add: counted_def)
next
  case (pumps c cl) then show ?thesis by (intro counts_same [OF ok]) (simp_all add: upd_heap_def)
next
  case (starts b subject channel snapshot j msg pos mid now) then show ?thesis by (intro counts_same [OF ok]) (simp_all add: todo_def)
next
  case (serves b j c cs cl) then show ?thesis by (intro counts_same [OF ok]) (simp_all add: upd_heap_def todo_def)
next
  case (panics b j c cs e) then show ?thesis by (intro counts_same [OF ok]) (simp_all add: todo_def)
qed

lemma ids_step: "fanout_step s s' \<Longrightarrow> unused_idle s \<Longrightarrow> unused_idle s'"
  by (cases rule: fanout_step.cases, assumption) (auto simp: unused_idle_def todo_def goes_on_def with_srv_def)

section \<open>Broadcasts under way\<close>

definition job_ok :: "server_run \<Rightarrow> broadcast_job \<Rightarrow> bool" where
  "job_ok s j \<longleftrightarrow> distinct (bj_snapshot j) \<and> map fst (bj_done j) @ bj_todo j = bj_snapshot j \<and>
     (\<forall>c cl cl'. (c, cl, cl') \<in> set (bj_done j) \<longrightarrow> serve_next j cl = Inr cl' \<and> (transport cl = None \<longrightarrow> (\<forall>h. (h, c) \<in> bj_held j \<longrightarrow> \<not> uses_struct s h c))) \<and>
     (\<forall>c cl. bj_panic j = Some (c, cl) \<longrightarrow> bj_todo j \<noteq> [] \<and> hd (bj_todo j) = c \<and> transport cl \<noteq> None \<and> sendClosed cl \<and>
        (\<forall>h. (h, c) \<in> bj_held j \<and> uses_struct s h c \<longrightarrow> CloseSend \<notin> set (todo s h))) \<and>
     (\<forall>h c. (h, c) \<in> bj_held j \<longrightarrow> TakeStruct \<notin> set (todo s h) \<and> h < fo_next s) \<and> (\<forall>c \<in> set (bj_snapshot j). \<exists>h. (h, c) \<in> bj_held j)"

definition jobs_ok :: "server_run \<Rightarrow> bool" where
  "jobs_ok s \<longleftrightarrow> (\<forall>b j. fo_jobs s b = Some j \<longrightarrow> job_ok s j)"

text \<open>A connection that has its struct only ever gives it back, and a closed send channel stays closed.\<close>

definition later :: "server_run \<Rightarrow> server_run \<Rightarrow> nat \<Rightarrow> bool" where
  "later s s' h \<longleftrightarrow> TakeStruct \<notin> set (todo s' h) \<and> h < fo_next s' \<and> (\<forall>c. uses_struct s' h c \<longrightarrow> uses_struct s h c) \<and> (CloseSend \<notin> set (todo s h) \<longrightarrow> CloseSend \<notin> set (todo s' h))"

lemma later_same: "todo s' h = todo s h \<Longrightarrow> co_ref (fo_conns s' h) = co_ref (fo_conns s h) \<Longrightarrow> fo_next s \<le> fo_next s' \<Longrightarrow>
    TakeStruct \<notin> set (todo s h) \<Longrightarrow> h < fo_next s \<Longrightarrow> later s s' h"
  by (simp add: later_def uses_struct_def)

lemma later_pop:
  assumes "todo s h = a # rest" and "TakeStruct \<notin> set (todo s h)" and "h < fo_next s"
  shows "later s (goes_on h rest (with_srv srv s)) h"
  using assms by (auto simp: later_def uses_goes_on uses_struct_def)

lemma later_step:
  assumes "fanout_step s s'" and st: "structs_ok s" and h: "TakeStruct \<notin> set (todo s h)" "h < fo_next s"
  shows "later s s' h"
  using assms(1)
proof cases
  case (not_hooked h' rest ch)
  show ?thesis
  proof (cases "h' = h")
    case True
    note f = held_before(1,4,5) [OF st not_hooked(2), simplified, unfolded follows_def True]
    have "CloseSend \<in> set rest" if "co_kind (fo_conns s h) \<noteq> TransportWebSocket" using f(1) that unfolding idle_rest_def by auto
    moreover have "CloseSend \<notin> set (hook_failed TransportWebSocket)" "TakeStruct \<notin> set (hook_failed kd)" for kd by (simp_all add: hook_failed_def split: transport_type.splits)
    ultimately show ?thesis using h not_hooked f(2) True by (cases "co_kind (fo_conns s h)") (auto simp: later_def uses_goes_on uses_struct_def)
  qed (use h not_hooked in \<open>intro later_same, simp_all\<close>)
next
  case (arrives srv k upgraded channels)
  then show ?thesis using h by (intro later_same) (simp_all add: todo_def)
next
  case (takes h' rest c k)
  then have "h' \<noteq> h" using h by auto
  then show ?thesis using takes(1) h by (intro later_same) (simp_all add: todo_def)
next
  case (hooked h' rest ch srv)
  then show ?thesis using later_pop [of s h HookConnect rest srv] h by (cases "h' = h") (auto intro!: later_same)
next
  case (acts h' a rest ls)
  then show ?thesis using later_pop [of s h a rest] h by (cases "h' = h") (auto intro!: later_same)
next
  case (stops h' rest)
  then show ?thesis using later_pop [of s h Serve rest "fo_srv s"] h by (cases "h' = h") (auto intro!: later_same simp: with_srv_def)
next
  case (subscribes_to h' rest chs)
  then show ?thesis using h by (cases "h' = h") (auto intro!: later_same simp: later_def uses_goes_on, simp add: uses_struct_def)
next
  case (unsubscribes_from h' rest chs)
  then show ?thesis using h by (cases "h' = h") (auto intro!: later_same simp: later_def uses_goes_on, simp add: uses_struct_def)
qed (use h in \<open>auto intro!: later_same simp: todo_def\<close>)

lemma job_later:
  assumes "job_ok s j" and "\<And>h. TakeStruct \<notin> set (todo s h) \<Longrightarrow> h < fo_next s \<Longrightarrow> later s s' h"
  shows "job_ok s' j"
proof -
  have "later s s' h" if "(h, c) \<in> bj_held j" for h c using assms that unfolding job_ok_def by blast
  then show ?thesis using assms(1) unfolding job_ok_def later_def by blast
qed

lemma deliver_one_Inl: "deliver_one mx ch pos now env cl = Inl e \<Longrightarrow> transport cl \<noteq> None \<and> sendClosed cl"
  by (auto simp: deliver_one_def try_send_def Let_def split: if_splits prod.splits send_result.splits)

lemma jobs_step:
  assumes "fanout_step s s'" and jb: "jobs_ok s" and st: "structs_ok s" and ids: "unused_idle s"
  shows "jobs_ok s'"
proof -
  have old: "job_ok s' j" if "fo_jobs s b = Some j" for b j
    using job_later later_step [OF assms(1) st] jb that unfolding jobs_ok_def by blast
  have held: "transport (heap (fo_srv s) c) \<noteq> None \<and> (sendClosed (heap (fo_srv s) c) \<longrightarrow> CloseSend \<notin> set (todo s h))" if "uses_struct s h c" for h c
    using structs_okD(3) [OF st that] unfolding conn_local_def local_ok_def by blast
  from assms(1) show ?thesis
  proof cases
    case (starts b subject channel snapshot j msg pos mid now)
    have same: "uses_struct s' = uses_struct s" "todo s' = todo s" "fo_next s' = fo_next s" unfolding starts(1) by (simp_all add: uses_struct_def todo_def fun_eq_iff)
    have "\<exists>h. uses_struct s h c" if "c \<in> set snapshot" for c
    proof (rule ccontr)
      assume "\<not> ?thesis"
      then have "free_ok (fo_srv s) c" using structs_okD(4) [OF st] by blast
      then show False using that starts(5) by (auto simp: free_ok_def listed_def)
    qed
    moreover have "TakeStruct \<notin> set (todo s h) \<and> h < fo_next s" if "uses_struct s h c" for h c
      using that ids unfolding uses_struct_def unused_idle_def by (metis empty_iff empty_set leI)
    moreover have "distinct snapshot" using starts(5) idx.subs_distinct structs_okD(1) [OF st] by simp
    ultimately have "job_ok s' j" unfolding job_ok_def same by (simp add: starts(6))
    then show ?thesis using old unfolding jobs_ok_def by (auto simp: starts(1))
  next
    case (serves b j c cs cl)
    let ?j = "j\<lparr>bj_todo := cs, bj_done := bj_done j @ [(c, heap (fo_srv s) c, cl)]\<rparr>"
    have same: "uses_struct s' = uses_struct s" unfolding serves(1) by (simp add: uses_struct_def todo_def fun_eq_iff)
    have "job_ok s' j" by (rule old [OF serves(2)])
    moreover have "serve_next ?j cl' = serve_next j cl'" for cl' by (simp add: serve_next_def bj_env_def)
    moreover have "\<not> uses_struct s h c" if "transport (heap (fo_srv s) c) = None" for h using held [of h c] that by blast
    ultimately have "job_ok s' ?j" using serves(3,4,5) unfolding job_ok_def same by auto
    then show ?thesis using old unfolding jobs_ok_def by (auto simp: serves(1))
  next
    case (panics b j c cs e)
    let ?j = "j\<lparr>bj_panic := Some (c, heap (fo_srv s) c)\<rparr>"
    have same: "uses_struct s' = uses_struct s" "todo s' = todo s" unfolding panics(1) by (simp_all add: uses_struct_def todo_def fun_eq_iff)
    have "job_ok s' j" by (rule old [OF panics(2)])
    moreover have "serve_next ?j cl' = serve_next j cl'" for cl' by (simp add: serve_next_def bj_env_def)
    moreover have "transport (heap (fo_srv s) c) \<noteq> None \<and> sendClosed (heap (fo_srv s) c)" using panics(5) deliver_one_Inl unfolding serve_next_def by blast
    ultimately have "job_ok s' ?j" using panics(4) held unfolding job_ok_def same by auto
    then show ?thesis using old unfolding jobs_ok_def by (auto simp: panics(1))
  qed (use old in \<open>simp_all add: jobs_ok_def\<close>)
qed

lemma fanout_invariants:
  assumes "fanout_reachable s"
  shows "structs_ok s" "unused_idle s" "counts_ok s" "jobs_ok s"
proof -
  obtain s0 where s0: "fresh_fanout s0" "fanout_step\<^sup>*\<^sup>* s0 s" using assms by (auto simp: fanout_reachable_def)
  have n: "\<not> uses_struct s0 h c" for h c using s0(1) by (simp add: fresh_fanout_def uses_struct_def)
  have "structs_ok s0" unfolding structs_ok_def using s0(1) n
    by (simp add: fresh_fanout_def idx_inv_new free_ok_def listed_def) (simp add: NewSubscriptionIndex_def idx_Get_def)
  moreover have "unused_idle s0" "jobs_ok s0" using s0(1) by (simp_all add: fresh_fanout_def unused_idle_def jobs_ok_def)
  moreover have "counts_ok s0" using s0(1) by (simp add: fresh_fanout_def counts_ok_def slots_of_def counted_of_def counted_def i64_id)
  ultimately have start: "structs_ok s0 \<and> unused_idle s0 \<and> counts_ok s0 \<and> jobs_ok s0" by blast
  from s0(2) have "structs_ok s \<and> unused_idle s \<and> counts_ok s \<and> jobs_ok s"
    by (induction rule: rtranclp_induct) (use start structs_step ids_step counts_step jobs_step in blast)+
  then show "structs_ok s" "unused_idle s" "counts_ok s" "jobs_ok s" by blast+
qed

end
