(* ===== verification/FanoutGuarantees.thy ===== *)
theory FanoutGuarantees
  imports FanoutSafety
begin

text \<open>
  The guarantees of the message server in every interleaving: what a broadcast does to each client of its snapshot, and how slots, counters, clients and index
  agree with the progress of the connections; with a run of one client as the example.
\<close>

section \<open>Idle servers\<close>

lemma serving_facts:
  assumes st: "structs_ok s" and h: "todo s h = Serve # rest"
  shows "uses_struct s h (co_ref (fo_conns s h))" "co_ref (fo_conns s h) \<in> clients (fo_srv s)" "transport (heap (fo_srv s) (co_ref (fo_conns s h))) \<noteq> None"
    "\<not> sendClosed (heap (fo_srv s) (co_ref (fo_conns s h)))" "listed (fo_srv s) (co_ref (fo_conns s h)) = subscriptions (heap (fo_srv s) (co_ref (fo_conns s h)))"
    "ReleaseSlot \<in> set (todo s h)" "counted (todo s h)"
proof -
  have d: "idle_rest rest" by (rule idle_conn(1) [OF st h])
  then have p: "adding rest = {}" "removing rest = {}" using no_pending [of rest] by (simp_all add: idle_rest_def)
  show u: "uses_struct s h (co_ref (fo_conns s h))" using held_before(3) [OF st h] by simp
  have l: "conn_local (Serve # rest) (fo_srv s) (co_ref (fo_conns s h))" using held_before(6) [OF st h] by simp
  from l show "co_ref (fo_conns s h) \<in> clients (fo_srv s)" "transport (heap (fo_srv s) (co_ref (fo_conns s h))) \<noteq> None"
    "\<not> sendClosed (heap (fo_srv s) (co_ref (fo_conns s h)))" "listed (fo_srv s) (co_ref (fo_conns s h)) = subscriptions (heap (fo_srv s) (co_ref (fo_conns s h)))"
    using d p unfolding conn_local_def local_ok_def idle_rest_def by auto
  show "ReleaseSlot \<in> set (todo s h)" "counted (todo s h)" using d by (auto simp: h idle_rest_def counted_def)
qed

lemma clients_iff:
  assumes "structs_ok s"
  shows "c \<in> clients (fo_srv s) \<longleftrightarrow> (\<exists>h. uses_struct s h c \<and> StoreClient \<notin> set (todo s h) \<and> DeleteClient \<in> set (todo s h))"
proof (cases "\<exists>h. uses_struct s h c")
  case True
  then obtain h where h: "uses_struct s h c" by blast
  have "c \<in> clients (fo_srv s) \<longleftrightarrow> StoreClient \<notin> set (todo s h) \<and> DeleteClient \<in> set (todo s h)"
    using structs_okD(3) [OF assms h] unfolding conn_local_def local_ok_def by simp
  then show ?thesis using h structs_okD(5) [OF assms h] by metis
next
  case False
  then show ?thesis using structs_okD(4) [OF assms] unfolding free_ok_def by blast
qed

text \<open>When every connection is idle or gone, the clients are the structs of the idle ones.\<close>

lemma idle_counts:
  assumes st: "structs_ok s" and idle: "\<And>h. todo s h = [] \<or> hd (todo s h) = Serve"
  shows "card (slots_of s) = card (clients (fo_srv s))" "card (counted_of s) = card (clients (fo_srv s))"
proof -
  let ?I = "{h. todo s h \<noteq> []}"
  have sv: "\<exists>rest. todo s h = Serve # rest" if "h \<in> ?I" for h using that idle [of h] by (cases "todo s h") auto
  have eq: "slots_of s = ?I" "counted_of s = ?I"
    using sv serving_facts(6,7) [OF st] by (auto simp: slots_of_def counted_of_def counted_def; force)+
  have "c \<in> (\<lambda>h. co_ref (fo_conns s h)) ` ?I" if "c \<in> clients (fo_srv s)" for c
    using that clients_iff [OF st, of c] by (auto simp: uses_struct_def)
  moreover have "co_ref (fo_conns s h) \<in> clients (fo_srv s)" if "h \<in> ?I" for h using sv [OF that] serving_facts(2) [OF st] by blast
  ultimately have img: "clients (fo_srv s) = (\<lambda>h. co_ref (fo_conns s h)) ` ?I" by blast
  have "inj_on (\<lambda>h. co_ref (fo_conns s h)) ?I"
    using sv serving_facts(1) [OF st] structs_okD(5) [OF st] by (metis (no_types, lifting) inj_onI)
  then show "card (slots_of s) = card (clients (fo_srv s))" "card (counted_of s) = card (clients (fo_srv s))" unfolding eq img by (simp_all add: card_image)
qed

section \<open>An example\<close>

text \<open>One WebSocket client connects to a server without tenant hooks, subscribes to a channel, and is served by a broadcast.\<close>

lemma reachable_step: "fanout_reachable s \<Longrightarrow> fanout_step s s' \<Longrightarrow> fanout_reachable s'"
  unfolding fanout_reachable_def by (meson rtranclp.rtrancl_into_rtrancl)

definition next_action :: "nat \<Rightarrow> server_run \<Rightarrow> server_run" where
  "next_action h s = goes_on h (tl (todo s h)) (with_srv (run_action (hd (todo s h)) (fo_conns s h) [] (fo_srv s)) s)"

lemma next_action_reachable:
  "fanout_reachable s \<Longrightarrow> todo s h = a # rest \<Longrightarrow> a \<notin> {TakeStruct, HookConnect, Serve, UnindexAll} \<Longrightarrow> fanout_reachable (next_action h s) \<and> todo (next_action h s) h = rest"
  using reachable_step [of s "next_action h s"] acts [of s h a rest "[]"] by (simp add: next_action_def)

definition demo_server_conn :: server_conn where
  "demo_server_conn = \<lparr>co_ref = 0, co_kind = TransportWebSocket, co_remote = ''10.0.0.1'', co_tenant = ''acme'', co_apiKey = [], co_user = ''alice'', co_uuid = [], co_todo = ws_life True\<rparr>"

definition demo_quiet :: server_run where
  "demo_quiet = \<lparr>fo_srv = idle_server\<lparr>hooks := None\<rparr>, fo_conns = (\<lambda>_. demo_server_conn\<lparr>co_todo := []\<rparr>), fo_next = 0, fo_jobs = (\<lambda>_. None)\<rparr>"

definition demo_arrived :: server_run where
  "demo_arrived = demo_quiet\<lparr>fo_srv := (fo_srv demo_quiet)\<lparr>connectionsSem := 1\<rparr>, fo_conns := (fo_conns demo_quiet)(0 := demo_server_conn), fo_next := 1\<rparr>"

definition demo_taken :: server_run where
  "demo_taken = (let k = demo_server_conn\<lparr>co_todo := tl (ws_life True)\<rparr>
     in demo_arrived\<lparr>fo_srv := run_action TakeStruct k [] (fo_srv demo_arrived), fo_conns := (fo_conns demo_arrived)(0 := k)\<rparr>)"

definition demo_hooked :: server_run where
  "demo_hooked = goes_on 0 (tl (tl (ws_life True))) demo_taken"

definition demo_serving :: server_run where
  "demo_serving = next_action 0 (next_action 0 (next_action 0 (next_action 0 demo_hooked)))"

definition demo_subscribed :: server_run where
  "demo_subscribed = next_action 0 (next_action 0 (goes_on 0 (Subscribing [''acme.BTC''] # Indexing [''acme.BTC''] # Serve # ws_teardown) demo_serving))"

lemma demo_serving_reachable: "fanout_reachable demo_serving" "todo demo_serving 0 = Serve # ws_teardown"
proof -
  have "fresh_fanout demo_quiet" by (simp add: fresh_fanout_def demo_quiet_def todo_def idle_server_def pool_New_def)
  then have q: "fanout_reachable demo_quiet" unfolding fanout_reachable_def by blast
  have "acquire_slot (fo_srv demo_quiet) = Some ((fo_srv demo_quiet)\<lparr>connectionsSem := 1\<rparr>)" by (simp add: demo_quiet_def acquire_slot_def idle_server_def)
  from arrives [OF this, of demo_server_conn True "[]"] have "fanout_step demo_quiet demo_arrived" by (simp add: demo_arrived_def demo_server_conn_def demo_quiet_def)
  note a = reachable_step [OF q this]
  have l: "ws_life True = TakeStruct # HookConnect # StoreClient # CountTotal # CountCurrent # PushConnect # Serve # ws_teardown" by (simp add: ws_life_def)
  have ta: "todo demo_arrived 0 = TakeStruct # tl (ws_life True)" "\<forall>h'. \<not> uses_struct demo_arrived h' 0"
    by (simp_all add: demo_arrived_def demo_quiet_def todo_def demo_server_conn_def uses_struct_def l)
  have "fanout_step demo_arrived demo_taken"
    using takes [OF ta refl] by (simp add: demo_taken_def demo_arrived_def demo_server_conn_def Let_def del: run_action.simps)
  note t = reachable_step [OF a this]
  have tt: "todo demo_taken 0 = HookConnect # tl (tl (ws_life True))" by (simp add: demo_taken_def todo_def l Let_def)
  have "tenant_connect (co_tenant (fo_conns demo_taken 0)) 0 (fo_srv demo_taken) = Some (fo_srv demo_taken)"
    by (simp add: tenant_connect_def demo_taken_def demo_arrived_def demo_quiet_def take_client_def Let_def)
  from hooked [OF tt this] have "fanout_step demo_taken demo_hooked" by (simp add: demo_hooked_def with_srv_def)
  note h = reachable_step [OF t this]
  have th: "todo demo_hooked 0 = StoreClient # CountTotal # CountCurrent # PushConnect # Serve # ws_teardown" by (simp add: demo_hooked_def l)
  have "fanout_reachable demo_serving \<and> todo demo_serving 0 = Serve # ws_teardown" unfolding demo_serving_def
    using next_action_reachable [OF h th] next_action_reachable [of "next_action 0 demo_hooked" 0] next_action_reachable [of "next_action 0 (next_action 0 demo_hooked)" 0]
      next_action_reachable [of "next_action 0 (next_action 0 (next_action 0 demo_hooked))" 0] by auto
  then show "fanout_reachable demo_serving" "todo demo_serving 0 = Serve # ws_teardown" by blast+
qed

lemma demo_subscribed_reachable: "fanout_reachable demo_subscribed" "todo demo_subscribed 0 = Serve # ws_teardown"
proof -
  let ?s = "goes_on 0 (Subscribing [''acme.BTC''] # Indexing [''acme.BTC''] # Serve # ws_teardown) demo_serving"
  have s: "fanout_reachable ?s" by (rule reachable_step [OF demo_serving_reachable(1) subscribes_to [OF demo_serving_reachable(2)]])
  have "fanout_reachable demo_subscribed \<and> todo demo_subscribed 0 = Serve # ws_teardown" unfolding demo_subscribed_def
    using next_action_reachable [OF s, of 0] next_action_reachable [of "next_action 0 ?s" 0] by auto
  then show "fanout_reachable demo_subscribed" "todo demo_subscribed 0 = Serve # ws_teardown" by blast+
qed

definition demo_broadcast_job :: broadcast_job where
  "demo_broadcast_job = \<lparr>bj_channel = ''acme.BTC'', bj_message = Some ''1'', bj_pos = [], bj_mid = [], bj_now = 1700, bj_max = 3,
     bj_snapshot = [0], bj_todo = [0], bj_done = [], bj_panic = None, bj_held = {(h, c). uses_struct demo_subscribed h c}\<rparr>"

definition demo_client_served :: client where
  "demo_client_served = (case serve_next demo_broadcast_job (heap (fo_srv demo_subscribed) 0) of Inl _ \<Rightarrow> heap (fo_srv demo_subscribed) 0 | Inr cl \<Rightarrow> cl)"

definition demo_served :: server_run where
  "demo_served = demo_subscribed\<lparr>fo_srv := upd_heap 0 (\<lambda>_. demo_client_served) (fo_srv demo_subscribed),
     fo_jobs := Map.empty(0 \<mapsto> demo_broadcast_job\<lparr>bj_todo := [], bj_done := [(0, heap (fo_srv demo_subscribed) 0, demo_client_served)]\<rparr>)\<rparr>"

lemma demo_subscribed_srv:
  "idx_Get (index (fo_srv demo_subscribed)) ''acme.BTC'' = [0]" "SlowClientMaxAttempts (fo_srv demo_subscribed) = 3"
  "transport (heap (fo_srv demo_subscribed) 0) = Some TransportWebSocket" "send (heap (fo_srv demo_subscribed) 0) = []" "sendCap (heap (fo_srv demo_subscribed) 0) = 2"
  "sendClosed (heap (fo_srv demo_subscribed) 0) = False" "counter (seqGen (heap (fo_srv demo_subscribed) 0)) = 0"
  "connectionsSem (fo_srv demo_subscribed) = 1" "CurrentConnections (fo_srv demo_subscribed) = 1"
  by code_simp+

lemma demo_subscribed_jobs: "fo_jobs demo_subscribed = Map.empty"
  by (simp add: demo_subscribed_def demo_serving_def next_action_def demo_hooked_def demo_taken_def demo_arrived_def demo_quiet_def Let_def)

lemma demo_served_reachable: "fanout_reachable demo_served"
proof -
  let ?s = "demo_subscribed\<lparr>fo_jobs := Map.empty(0 \<mapsto> demo_broadcast_job)\<rparr>"
  have "fanout_step demo_subscribed (demo_subscribed\<lparr>fo_jobs := (fo_jobs demo_subscribed)(0 \<mapsto> demo_broadcast_job)\<rparr>)"
    by (rule starts [where subject = "''acme.BTC''" and channel = "''acme.BTC''" and snapshot = "[0]"])
       (simp_all add: demo_subscribed_jobs demo_subscribed_srv extract_acme demo_broadcast_job_def)
  then have s: "fanout_reachable ?s" using reachable_step [OF demo_subscribed_reachable(1)] by (simp add: demo_subscribed_jobs)
  have "serve_next demo_broadcast_job (heap (fo_srv demo_subscribed) 0) = Inr demo_client_served"
    using deliver_one_room [of "heap (fo_srv demo_subscribed) 0"] by (simp add: demo_client_served_def serve_next_def demo_subscribed_srv)
  then have "fanout_step ?s demo_served"
    using serves [of ?s 0 demo_broadcast_job 0 "[]" demo_client_served] by (simp add: demo_served_def demo_broadcast_job_def)
  then show ?thesis by (rule reachable_step [OF s])
qed

section \<open>Properties\<close>

text \<open>C32: Every broadcast, whatever other goroutines connect, subscribe, unsubscribe, tear down and broadcast meanwhile, serves exactly the clients the index
  listed for its channel when it started, each once and in order, and can go on until it has served all or panicked. It gives a client the message
  under the client's next sequence number; a client whose buffer is full loses the message but uses up the number, is told of
  the gap while its gap buffer has room, and is closed exactly when its consecutive failures reach the limit. It skips a struct that is back in
  the pool, so never that of a connection that had it at the snapshot and still has it; and it panics only at a closed send channel, so never
  at a connection that had the struct at the snapshot, still has it, and has not yet closed its channel.\<close>

theorem broadcast_exact:
  assumes "fanout_reachable s" and "fo_jobs s b = Some j"
  shows "distinct (bj_snapshot j) \<and> map fst (bj_done j) @ bj_todo j = bj_snapshot j \<and>
    (\<forall>c cl cl'. (c, cl, cl') \<in> set (bj_done j) \<longrightarrow>
       (let n = i64 (counter (seqGen cl) + 1)
        in if transport cl = None then cl' = cl \<and> (\<forall>h. (h, c) \<in> bj_held j \<longrightarrow> \<not> uses_struct s h c)
           else if length (send cl) < sendCap cl
           then cl' = cl\<lparr>seqGen := \<lparr>counter = n\<rparr>, send := send cl @ [\<lparr>raw = None, envelope = Some (bj_env j), mseq = n\<rparr>], sendAttempts := 0\<rparr>
           else send cl' = send cl \<and> counter (seqGen cl') = n \<and> sendAttempts cl' = i32 (sendAttempts cl + 1)
             \<and> gapChan cl' = (if length (gapChan cl) < gapCap cl
                 then gapChan cl @ [\<lparr>GapChannel = bj_channel j, FromSeq = n, ToSeq = n, LastPos = bj_pos j, GapTs = bj_now j\<rparr>] else gapChan cl)
             \<and> transportClosed cl' = (transportClosed cl \<or> bj_max j \<le> i32 (sendAttempts cl + 1)))) \<and>
    (\<forall>c cl. bj_panic j = Some (c, cl) \<longrightarrow> hd (bj_todo j) = c \<and> sendClosed cl \<and>
       (\<forall>h. (h, c) \<in> bj_held j \<and> uses_struct s h c \<longrightarrow> CloseSend \<notin> set (todo s h))) \<and>
    (bj_todo j \<noteq> [] \<and> bj_panic j = None \<longrightarrow>
       (\<exists>s' j'. fanout_step s s' \<and> fo_jobs s' b = Some j' \<and> (bj_panic j' \<noteq> None \<or> bj_todo j' = tl (bj_todo j))))"
proof -
  have j: "job_ok s j" using fanout_invariants(4) [OF assms(1)] assms(2) by (simp add: jobs_ok_def)
  have progress: "\<exists>s' j'. fanout_step s s' \<and> fo_jobs s' b = Some j' \<and> (bj_panic j' \<noteq> None \<or> bj_todo j' = tl (bj_todo j))"
    if todo: "bj_todo j = c # cs" and p: "bj_panic j = None" for c cs
  proof (cases "serve_next j (heap (fo_srv s) c)")
    case (Inl e)
    show ?thesis using panics [OF assms(2) p todo Inl] by fastforce
  next
    case (Inr cl)
    show ?thesis using serves [OF assms(2) p todo Inr] todo by fastforce
  qed
  have entry: "let n = i64 (counter (seqGen cl) + 1)
        in if transport cl = None then cl' = cl \<and> (\<forall>h. (h, c) \<in> bj_held j \<longrightarrow> \<not> uses_struct s h c)
           else if length (send cl) < sendCap cl
           then cl' = cl\<lparr>seqGen := \<lparr>counter = n\<rparr>, send := send cl @ [\<lparr>raw = None, envelope = Some (bj_env j), mseq = n\<rparr>], sendAttempts := 0\<rparr>
           else send cl' = send cl \<and> counter (seqGen cl') = n \<and> sendAttempts cl' = i32 (sendAttempts cl + 1)
             \<and> gapChan cl' = (if length (gapChan cl) < gapCap cl
                 then gapChan cl @ [\<lparr>GapChannel = bj_channel j, FromSeq = n, ToSeq = n, LastPos = bj_pos j, GapTs = bj_now j\<rparr>] else gapChan cl)
             \<and> transportClosed cl' = (transportClosed cl \<or> bj_max j \<le> i32 (sendAttempts cl + 1))"
    if e: "(c, cl, cl') \<in> set (bj_done j)" for c cl cl'
  proof -
    have sn: "serve_next j cl = Inr cl'" and skip: "transport cl = None \<longrightarrow> (\<forall>h. (h, c) \<in> bj_held j \<longrightarrow> \<not> uses_struct s h c)"
      using j e unfolding job_ok_def by blast+
    note d = sn [unfolded serve_next_def]
    show ?thesis
    proof (cases "transport cl = None")
      case True then show ?thesis using d skip by (simp add: deliver_one_def Let_def)
    next
      case False
      moreover have "\<not> sendClosed cl" using d False by (auto simp: deliver_one_def try_send_def Let_def split: prod.splits)
      ultimately show ?thesis
        using d deliver_one_room [of cl] deliver_one_full [of cl "bj_max j" "bj_channel j" "bj_pos j" "bj_now j" "bj_env j" cl'] by (auto simp: Let_def)
    qed
  qed
  from j entry progress show ?thesis unfolding job_ok_def by (cases "bj_todo j") auto
qed

theorem broadcast_exact_witness:
  "map fst (bj_done (the (fo_jobs demo_served 0))) = [0] \<and> map (\<lambda>m. (envelope m, mseq m)) (send (heap (fo_srv demo_served) 0)) =
     [(Some (NewBroadcastEnvelope ''acme.BTC'' 1700 (Some ''1'') [] []), 1)]"
proof -
  let ?j = "demo_broadcast_job\<lparr>bj_todo := [], bj_done := [(0, heap (fo_srv demo_subscribed) 0, demo_client_served)]\<rparr>"
  have j: "fo_jobs demo_served 0 = Some ?j" by (simp add: demo_served_def)
  have e: "bj_env ?j = NewBroadcastEnvelope ''acme.BTC'' 1700 (Some ''1'') [] []" by (simp add: bj_env_def demo_broadcast_job_def)
  have "map fst (bj_done ?j) @ bj_todo ?j = bj_snapshot ?j" using broadcast_exact [OF demo_served_reachable j] by blast
  moreover have "(0, heap (fo_srv demo_subscribed) 0, demo_client_served) \<in> set (bj_done ?j)" by simp
  with broadcast_exact [OF demo_served_reachable j] have q: "demo_client_served = (heap (fo_srv demo_subscribed) 0)\<lparr>seqGen := \<lparr>counter = 1\<rparr>,
      send := [\<lparr>raw = None, envelope = Some (bj_env ?j), mseq = 1\<rparr>], sendAttempts := 0\<rparr>"
    by (auto simp: Let_def demo_subscribed_srv i64_id)
  have "send demo_client_served = [\<lparr>raw = None, envelope = Some (bj_env ?j), mseq = 1\<rparr>]" using arg_cong [OF q, of send] by simp
  moreover have "heap (fo_srv demo_served) 0 = demo_client_served" by (simp add: demo_served_def upd_heap_def)
  ultimately show ?thesis unfolding e by (simp add: j demo_broadcast_job_def)
qed

text \<open>C34: In every interleaving of connections, on both transports, and broadcasts: the slots taken are those of the connections that have not yet given theirs back,
  never more than the maximum; \<open>CurrentConnections\<close> counts those that have counted themselves and not yet uncounted; the map of clients
  has the structs stored and not yet deleted; the index lists only structs in use by a connection that has still to take them off it;
  and a connection that is serving is in the map, has a transport and an open send channel, and is listed for exactly the channels it is subscribed to. Whenever all
  connections are serving or gone, slots, counter and clients are the same number.\<close>

theorem server_state_consistent:
  assumes "fanout_reachable s"
  shows "connectionsSem (fo_srv s) = int (card {h. ReleaseSlot \<in> set (todo s h)}) \<and> connectionsSem (fo_srv s) \<le> maxConns (fo_srv s) \<and>
     CurrentConnections (fo_srv s) = i64 (int (card {h. CountCurrent \<notin> set (todo s h) \<and> UncountCurrent \<in> set (todo s h)})) \<and>
     (\<forall>c. c \<in> clients (fo_srv s) \<longleftrightarrow> (\<exists>h. uses_struct s h c \<and> StoreClient \<notin> set (todo s h) \<and> DeleteClient \<in> set (todo s h))) \<and>
     (\<forall>ch c. c \<in> set (idx_Get (index (fo_srv s)) ch) \<longrightarrow> (\<exists>h. uses_struct s h c \<and> UnindexAll \<in> set (todo s h))) \<and>
     (\<forall>h rest. todo s h = Serve # rest \<longrightarrow> (let c = co_ref (fo_conns s h); cl = heap (fo_srv s) c
        in c \<in> clients (fo_srv s) \<and> transport cl \<noteq> None \<and> \<not> sendClosed cl \<and> (\<forall>ch. c \<in> set (idx_Get (index (fo_srv s)) ch) \<longleftrightarrow> ch \<in> subscriptions cl))) \<and>
     ((\<forall>h. todo s h = [] \<or> hd (todo s h) = Serve) \<longrightarrow>
        connectionsSem (fo_srv s) = int (card (clients (fo_srv s))) \<and> CurrentConnections (fo_srv s) = i64 (int (card (clients (fo_srv s)))))"
proof -
  note st = fanout_invariants(1) [OF assms] and ct = fanout_invariants(3) [OF assms]
  have idx: "\<exists>h. uses_struct s h c \<and> UnindexAll \<in> set (todo s h)" if c: "c \<in> set (idx_Get (index (fo_srv s)) ch)" for c ch
  proof -
    have l: "ch \<in> listed (fo_srv s) c" using c by (simp add: listed_def)
    then obtain h where h: "uses_struct s h c" using structs_okD(4) [OF st, of c] unfolding free_ok_def by blast
    then show ?thesis using structs_okD(3) [OF st h] l unfolding conn_local_def local_ok_def by blast
  qed
  have serving: "let c = co_ref (fo_conns s h); cl = heap (fo_srv s) c
        in c \<in> clients (fo_srv s) \<and> transport cl \<noteq> None \<and> \<not> sendClosed cl \<and> (\<forall>ch. c \<in> set (idx_Get (index (fo_srv s)) ch) \<longleftrightarrow> ch \<in> subscriptions cl)"
    if "todo s h = Serve # rest" for h rest
    using serving_facts(2-5) [OF st that] unfolding Let_def listed_def by blast
  show ?thesis using ct [unfolded counts_ok_def slots_of_def counted_of_def counted_def] clients_iff [OF st] idx serving
      idle_counts [OF st, unfolded slots_of_def counted_of_def counted_def] by auto
qed

theorem server_state_consistent_witness:
  "connectionsSem (fo_srv demo_subscribed) = 1 \<and> (let c = co_ref (fo_conns demo_subscribed 0) in c \<in> clients (fo_srv demo_subscribed) \<and>
     (\<forall>ch. c \<in> set (idx_Get (index (fo_srv demo_subscribed)) ch) \<longleftrightarrow> ch \<in> subscriptions (heap (fo_srv demo_subscribed) c)))"
  using server_state_consistent [OF demo_subscribed_reachable(1)] demo_subscribed_reachable(2) demo_subscribed_srv(8) by (auto simp: Let_def)

end
