(* ===== verification/TopicRouting.thy ===== *)
theory TopicRouting
  imports ConfigStream
begin

text \<open>
  Topic routing rules as the control plane validates and reads them
  (\<^verbatim>\<open>internal/provisioning/topic_routing.go\<close>, the suffix check of service.go, shared/kafka/topic.go).
  A rule names one ingress topic, whose records the platform consumes and delivers, and egress topics,
  which it only writes. The record \<open>routing_rule\<close> of the stream is the same struct. Errors are the
  sentinels the API classifies by; the texts wrapped around them are left out.
\<close>

section \<open>The code\<close>

definition DeadLetterTopicSuffix :: string where "DeadLetterTopicSuffix = ''dead-letter''"

definition DefaultTopicSuffix :: string where "DefaultTopicSuffix = ''default''"

definition BuildTopicName :: "string \<Rightarrow> string \<Rightarrow> string \<Rightarrow> string" where
  "BuildTopicName namespace tenantID suffix = namespace @ ''.'' @ tenantID @ ''.'' @ suffix"

definition AllTopicSuffixes :: "routing_rule \<Rightarrow> string list" where
  "AllTopicSuffixes r = IngressTopic r # EgressTopics r"

definition MaxRoutingPatternLength :: nat where "MaxRoutingPatternLength = 256"

text \<open>The class \<open>[a-z0-9-]\<close>, and the anchored expression over it.\<close>

definition literal_char :: "char \<Rightarrow> bool" where
  "literal_char c \<longleftrightarrow> (let n = of_char c :: nat in 97 \<le> n \<and> n \<le> 122 \<or> 48 \<le> n \<and> n \<le> 57) \<or> c = CHR ''-''"

definition literalSegment :: "string \<Rightarrow> bool" where
  "literalSegment s \<longleftrightarrow> s \<noteq> [] \<and> list_all literal_char s"

datatype routing_rules_error =
    ErrEmptyRoutingRules | ErrTooManyRoutingRules | ErrEmptyRoutingPattern | ErrMissingIngressTopic
  | ErrReservedTopicSuffix | ErrTooManyTopics | ErrEgressIngressOverlap | ErrDuplicateEgressTopic
  | ErrDuplicateRoutingPattern | ErrDuplicatePriority | ErrInvalidRoutingPattern | ErrInvalidTopicSuffix

fun egress_loop :: "string \<Rightarrow> string list \<Rightarrow> string set \<Rightarrow> routing_rules_error option" where
  "egress_loop ingress [] seen = None"
| "egress_loop ingress (suffix # rest) seen =
     (if suffix = [] then Some ErrReservedTopicSuffix
      else if suffix = DefaultTopicSuffix \<or> suffix = DeadLetterTopicSuffix then Some ErrReservedTopicSuffix
      else if suffix = ingress then Some ErrEgressIngressOverlap
      else if suffix \<in> seen then Some ErrDuplicateEgressTopic
      else egress_loop ingress rest (insert suffix seen))"

definition validateRuleTopics :: "routing_rule \<Rightarrow> int \<Rightarrow> routing_rules_error option" where
  "validateRuleTopics rule maxTopicsPerRule =
     (if IngressTopic rule = [] then Some ErrMissingIngressTopic
      else if IngressTopic rule = DeadLetterTopicSuffix then Some ErrReservedTopicSuffix
      else
        let total = 1 + int (length (EgressTopics rule))
        in if maxTopicsPerRule > 0 \<and> total > maxTopicsPerRule then Some ErrTooManyTopics
           else egress_loop (IngressTopic rule) (EgressTopics rule) {})"

definition ValidateEgressDisjoint :: "routing_rule list \<Rightarrow> routing_rules_error option" where
  "ValidateEgressDisjoint rules =
     (let deliveries = set (map IngressTopic rules)
      in first_error (\<lambda>rule. first_error (\<lambda>suffix. if suffix \<in> deliveries then Some ErrEgressIngressOverlap else None)
            (EgressTopics rule)) rules)"

definition validateRoutingPattern :: "string \<Rightarrow> routing_rules_error option" where
  "validateRoutingPattern pattern =
     (if length pattern > MaxRoutingPatternLength then Some ErrInvalidRoutingPattern
      else case first_error (\<lambda>seg. if seg = ''*'' \<or> seg = ''**'' then None
                                   else if \<not> literalSegment seg then Some ErrInvalidRoutingPattern else None)
                  (Split pattern ''.'') of
             Some e \<Rightarrow> Some e
           | None \<Rightarrow> (case MatchRoutingPattern (NormalizePattern pattern) ''probe'' of
                        Inl _ \<Rightarrow> Some ErrInvalidRoutingPattern | Inr _ \<Rightarrow> None))"

fun validate_rules_loop ::
  "int \<Rightarrow> routing_rule list \<Rightarrow> string set \<Rightarrow> int set \<Rightarrow> routing_rules_error option" where
  "validate_rules_loop maxTopicsPerRule [] seenPatterns seenPriorities = None"
| "validate_rules_loop maxTopicsPerRule (rule # rules) seenPatterns seenPriorities =
     (if RulePattern rule = [] then Some ErrEmptyRoutingPattern
      else case validateRuleTopics rule maxTopicsPerRule of
             Some e \<Rightarrow> Some e
           | None \<Rightarrow>
               if RulePattern rule \<in> seenPatterns then Some ErrDuplicateRoutingPattern
               else if Priority rule \<in> seenPriorities then Some ErrDuplicatePriority
               else case validateRoutingPattern (RulePattern rule) of
                      Some e \<Rightarrow> Some e
                    | None \<Rightarrow> validate_rules_loop maxTopicsPerRule rules
                               (insert (RulePattern rule) seenPatterns) (insert (Priority rule) seenPriorities))"

definition ValidateRoutingRules :: "routing_rule list \<Rightarrow> int \<Rightarrow> int \<Rightarrow> routing_rules_error option" where
  "ValidateRoutingRules rules maxRules maxTopicsPerRule =
     (if rules = [] then Some ErrEmptyRoutingRules
      else if maxRules > 0 \<and> int (length rules) > maxRules then Some ErrTooManyRoutingRules
      else case validate_rules_loop maxTopicsPerRule rules {} {} of
             Some e \<Rightarrow> Some e
           | None \<Rightarrow> ValidateEgressDisjoint rules)"

fun consume_loop :: "routing_rule list \<Rightarrow> string set \<Rightarrow> string list" where
  "consume_loop [] seen = []"
| "consume_loop (rule # rules) seen =
     (if IngressTopic rule = [] then consume_loop rules seen
      else if IngressTopic rule \<in> seen then consume_loop rules seen
      else IngressTopic rule # consume_loop rules (insert (IngressTopic rule) seen))"

definition ConsumeTopicSuffixes :: "routing_rule list \<Rightarrow> string list" where
  "ConsumeTopicSuffixes rules = DefaultTopicSuffix # consume_loop rules {DefaultTopicSuffix}"

text \<open>The two nested loops over rules and their egress topics are one loop over all egress topics.\<close>

fun create_only_loop :: "string set \<Rightarrow> string list \<Rightarrow> string set \<Rightarrow> string list" where
  "create_only_loop consumed [] seen = []"
| "create_only_loop consumed (suffix # rest) seen =
     (if suffix = [] then create_only_loop consumed rest seen
      else if suffix \<in> consumed then create_only_loop consumed rest seen
      else if suffix \<in> seen then create_only_loop consumed rest seen
      else suffix # create_only_loop consumed rest (insert suffix seen))"

definition CreateOnlyTopicSuffixes :: "routing_rule list \<Rightarrow> string list" where
  "CreateOnlyTopicSuffixes rules =
     create_only_loop (set (ConsumeTopicSuffixes rules)) (concat (map EgressTopics rules)) {}"

definition maxTopicSuffixLength :: nat where "maxTopicSuffixLength = 200"

definition validateTopicSuffix :: "string \<Rightarrow> routing_rules_error option" where
  "validateTopicSuffix suffix =
     (if suffix = [] then Some ErrInvalidTopicSuffix
      else if suffix = DefaultTopicSuffix \<or> suffix = DeadLetterTopicSuffix then Some ErrReservedTopicSuffix
      else if length suffix > maxTopicSuffixLength then Some ErrInvalidTopicSuffix
      else if \<not> literalSegment suffix then Some ErrInvalidTopicSuffix
      else None)"

section \<open>What validation guarantees\<close>

text \<open>
  A set of rules is separated when no egress topic is ever consumed: neither another rule's ingress
  topic nor the default topic, and the dead-letter topic is on neither side.
\<close>

definition rule_topics_ok :: "routing_rule \<Rightarrow> bool" where
  "rule_topics_ok r \<longleftrightarrow> IngressTopic r \<noteq> [] \<and> IngressTopic r \<noteq> DeadLetterTopicSuffix \<and>
     DefaultTopicSuffix \<notin> set (EgressTopics r) \<and> DeadLetterTopicSuffix \<notin> set (EgressTopics r) \<and>
     [] \<notin> set (EgressTopics r) \<and> distinct (EgressTopics r)"

definition separated :: "routing_rule list \<Rightarrow> bool" where
  "separated rules \<longleftrightarrow> list_all rule_topics_ok rules \<and>
     (\<forall>r \<in> set rules. \<forall>r' \<in> set rules. IngressTopic r \<notin> set (EgressTopics r'))"

definition rules_keyed :: "routing_rule list \<Rightarrow> bool" where
  "rules_keyed rules \<longleftrightarrow> distinct (map RulePattern rules) \<and> distinct (map Priority rules)"

lemma egress_loop_None:
  "egress_loop ingress es seen = None \<longleftrightarrow> distinct es \<and> set es \<inter> seen = {} \<and>
     [] \<notin> set es \<and> DefaultTopicSuffix \<notin> set es \<and> DeadLetterTopicSuffix \<notin> set es \<and> ingress \<notin> set es"
  by (induction es arbitrary: seen) auto

lemma validateRuleTopics_None:
  "validateRuleTopics r mx = None \<longleftrightarrow> rule_topics_ok r \<and> IngressTopic r \<notin> set (EgressTopics r) \<and>
     (mx \<le> 0 \<or> 1 + int (length (EgressTopics r)) \<le> mx)"
  by (auto simp: validateRuleTopics_def Let_def egress_loop_None rule_topics_ok_def)

lemma ValidateEgressDisjoint_None:
  "ValidateEgressDisjoint rules = None \<longleftrightarrow>
     (\<forall>r \<in> set rules. \<forall>r' \<in> set rules. IngressTopic r \<notin> set (EgressTopics r'))"
  by (auto simp: ValidateEgressDisjoint_def Let_def)

lemma validateRoutingPattern_None:
  "validateRoutingPattern p = None \<longleftrightarrow> length p \<le> MaxRoutingPatternLength \<and>
     (\<forall>seg \<in> set (Split p ''.''). seg = ''*'' \<or> seg = ''**'' \<or> literalSegment seg) \<and>
     is_ok (MatchRoutingPattern (NormalizePattern p) ''probe'')"
  by (auto simp: validateRoutingPattern_def split: option.splits sum.splits if_splits)

lemma validate_rules_loop_None:
  "validate_rules_loop mx rules ps qs = None \<longleftrightarrow>
     (\<forall>r \<in> set rules. RulePattern r \<noteq> [] \<and> validateRuleTopics r mx = None \<and> validateRoutingPattern (RulePattern r) = None) \<and>
     distinct (map RulePattern rules) \<and> RulePattern ` set rules \<inter> ps = {} \<and>
     distinct (map Priority rules) \<and> Priority ` set rules \<inter> qs = {}"
  by (induction mx rules ps qs rule: validate_rules_loop.induct) (auto split: option.splits)

lemma ValidateRoutingRules_None:
  "ValidateRoutingRules rules mr mt = None \<longleftrightarrow>
     rules \<noteq> [] \<and> (mr \<le> 0 \<or> int (length rules) \<le> mr) \<and> separated rules \<and> rules_keyed rules \<and>
     (\<forall>r \<in> set rules. RulePattern r \<noteq> [] \<and> validateRoutingPattern (RulePattern r) = None \<and>
        (mt \<le> 0 \<or> 1 + int (length (EgressTopics r)) \<le> mt))"
  by (auto simp: ValidateRoutingRules_def validate_rules_loop_None ValidateEgressDisjoint_None validateRuleTopics_None
      separated_def rules_keyed_def list_all_iff split: option.splits)

section \<open>What the platform consumes\<close>

lemma consume_loop_set: "set (consume_loop rules seen) = (IngressTopic ` set rules - {[]}) - seen"
  by (induction rules arbitrary: seen) auto

lemma consume_loop_distinct: "distinct (consume_loop rules seen)"
  by (induction rules arbitrary: seen) (auto simp: consume_loop_set)

lemma create_only_loop_set: "set (create_only_loop cons es seen) = set es - {[]} - cons - seen"
  by (induction es arbitrary: seen) auto

lemma create_only_loop_distinct: "distinct (create_only_loop cons es seen)"
  by (induction es arbitrary: seen) (auto simp: create_only_loop_set)

lemma Consume_set: "set (ConsumeTopicSuffixes rules) = insert DefaultTopicSuffix (IngressTopic ` set rules - {[]})"
  by (auto simp: ConsumeTopicSuffixes_def consume_loop_set)

lemma CreateOnly_set:
  "set (CreateOnlyTopicSuffixes rules) = (\<Union>r \<in> set rules. set (EgressTopics r)) - {[]} - set (ConsumeTopicSuffixes rules)"
  by (auto simp: CreateOnlyTopicSuffixes_def create_only_loop_set)

lemma separated_egress:
  "separated rules \<Longrightarrow> r \<in> set rules \<Longrightarrow> e \<in> set (EgressTopics r) \<Longrightarrow> e \<notin> set (ConsumeTopicSuffixes rules)"
  by (auto simp: separated_def Consume_set list_all_iff rule_topics_ok_def)

lemma separated_dead_letter: "separated rules \<Longrightarrow> DeadLetterTopicSuffix \<notin> set (ConsumeTopicSuffixes rules)"
  by (auto simp: separated_def Consume_set list_all_iff rule_topics_ok_def DefaultTopicSuffix_def DeadLetterTopicSuffix_def)

lemma separated_Nil [simp]: "separated []" "rules_keyed []"
  by (simp_all add: separated_def rules_keyed_def)

lemma separated_subset: "separated rules \<Longrightarrow> set rules' \<subseteq> set rules \<Longrightarrow> separated rules'"
  by (auto simp: separated_def list_all_iff)

section \<open>Topic names\<close>

text \<open>Tenant slugs have no dot, so a topic name determines the tenant and the suffix.\<close>

lemma BuildTopicName_inj:
  assumes "BuildTopicName ns t s = BuildTopicName ns t' s'" "CHR ''.'' \<notin> set t" "CHR ''.'' \<notin> set t'"
  shows "t = t' \<and> s = s'"
proof -
  have "t @ CHR ''.'' # s = t' @ CHR ''.'' # s'" using assms(1) by (simp add: BuildTopicName_def)
  then have "Cut (t @ CHR ''.'' # s) [CHR ''.''] = Some (t', s')" using assms(3) by (simp add: Cut_char)
  moreover have "Cut (t @ CHR ''.'' # s) [CHR ''.''] = Some (t, s)" using assms(2) by (simp add: Cut_char)
  ultimately show ?thesis by simp
qed

end
