(* ===== verification/KafkaConsumer.thy ===== *)
theory KafkaConsumer
  imports TopicRouting Decimal
begin

text \<open>
  The Kafka consumer of the message server (\<^verbatim>\<open>internal/server/kafka/consumer.go\<close>): channel extraction,
  the three waits that hold a record (rate pacing, CPU brake, broadcast retry), delivery and marking, fetch
  errors, and replay from exact offsets.

  What the collaborators answer is a parameter: a record of functions of the tick, the number of answers the
  consumer has drawn so far (\<open>kafka_env\<close>): the resource guard, the context, the broadcast callback, the
  registry behind the tenant resolver and the room in the dead-letter queue. A wait that never ends is the
  value \<open>None\<close> of a \<^theory_text>\<open>partial_function\<close>. The consumer's state is the trace of what it asked of the
  Kafka client and of the bus, in order, with the counters it keeps. A nil byte slice is \<open>None\<close>. Logs
  and Prometheus metrics other than the retry counter are left out.
\<close>

section \<open>Records and configuration\<close>

record kafka_header =
  hdr_Key :: string
  hdr_Value :: "string option"

record kafka_record =
  rec_Topic :: string
  rec_Partition :: int
  rec_Offset :: int
  rec_Key :: "string option"
  rec_Value :: "string option"
  rec_Headers :: "kafka_header list"

definition HeaderChannel :: string where "HeaderChannel = ''x-sukko-channel''"
definition HeaderReason :: string where "HeaderReason = ''x-sukko-reason''"
definition ReasonMissingChannelHeader :: string where "ReasonMissingChannelHeader = ''missing_channel_header''"
definition ReasonTenantPrefixMismatch :: string where "ReasonTenantPrefixMismatch = ''tenant_prefix_mismatch''"
definition ReasonInvalidChannelKey :: string where "ReasonInvalidChannelKey = ''invalid_channel_key''"
definition ReasonUnknownTopic :: string where "ReasonUnknownTopic = ''unknown_topic''"

definition broadcastRetryInitialBackoff :: int where "broadcastRetryInitialBackoff = 100 * 1000000"
definition broadcastRetryMaxBackoff :: int where "broadcastRetryMaxBackoff = 5 * 1000000000"

text \<open>
  The configuration: a required interface or function is given by whether it is set, an optional registerer
  by which metric names it accepts. The resolver and the dead-letter queue of the consumer are present or not;
  what they answer is part of the environment.
\<close>

record consumer_config =
  cc_Brokers :: "string list"
  cc_ConsumerGroup :: string
  cc_Topics :: "string list"
  cc_Broadcast :: bool
  cc_ResourceGuard :: bool
  cc_Logger :: bool
  cc_ConsumerType :: string
  cc_CommitOnRevokeTimeout :: int
  cc_BatchSize :: int
  cc_BatchTimeout :: int
  cc_BackpressureCheckInterval :: int
  cc_ConsumeResetAfterMillis :: int
  cc_Namespace :: string
  cc_TenantResolver :: bool
  cc_DLQ :: bool
  cc_Registerer :: "(string \<Rightarrow> bool) option"

datatype reset_offset = AfterMilli int | AtEnd

record kafka_consumer =
  kc_topics :: "string list"
  kc_reset :: reset_offset
  kc_batchSize :: int
  kc_batchTimeout :: int
  kc_batchEnabled :: bool
  kc_backpressureCheckInterval :: int
  kc_broadcastRetryInitial :: int
  kc_broadcastRetryMax :: int
  kc_namespace :: string
  kc_tenantResolver :: bool
  kc_dlq :: bool

datatype consumer_error =
    BrokerRequired | ConsumerGroupRequired | TopicRequired | BroadcastRequired | ResourceGuardRequired
  | LoggerRequired | ConsumerTypeRequired | CommitTimeoutNotPositive | BatchTimeoutNotPositive
  | KafkaOptionsFailed | KafkaClientFailed | RegisterFailed string

definition consumeResetOffset :: "int \<Rightarrow> reset_offset" where
  "consumeResetOffset afterMillis = (if afterMillis > 0 then AfterMilli afterMillis else AtEnd)"

text \<open>With a registerer, the six metrics are registered in this order and the first failure is returned.\<close>

definition registered_metrics :: "string list" where
  "registered_metrics = [''ws_consumer_topic_deleted_total'', ''ws_consumer_revoke_commit_total'',
     ''ws_consumer_revoke_commit_duration_seconds'', ''ws_consumer_broadcast_retries_total'',
     ''ws_consumer_broadcast_blocked_seconds_total'', ''ws_consumer_rate_limit_paced_seconds_total'']"

definition register_metrics :: "(string \<Rightarrow> bool) option \<Rightarrow> consumer_error option" where
  "register_metrics reg = (case reg of
       None \<Rightarrow> None
     | Some accepts \<Rightarrow> first_error (\<lambda>m. if accepts m then None else Some (RegisterFailed m)) registered_metrics)"

definition NewConsumer :: "bool \<Rightarrow> bool \<Rightarrow> consumer_config \<Rightarrow> consumer_error + kafka_consumer" where
  "NewConsumer optsOk clientOk cfg =
     (if cc_Brokers cfg = [] then Inl BrokerRequired
      else if cc_ConsumerGroup cfg = [] then Inl ConsumerGroupRequired
      else if cc_Topics cfg = [] then Inl TopicRequired
      else if \<not> cc_Broadcast cfg then Inl BroadcastRequired
      else if \<not> cc_ResourceGuard cfg then Inl ResourceGuardRequired
      else if \<not> cc_Logger cfg then Inl LoggerRequired
      else if cc_ConsumerType cfg = [] then Inl ConsumerTypeRequired
      else if cc_CommitOnRevokeTimeout cfg \<le> 0 then Inl CommitTimeoutNotPositive
      else if cc_BatchSize cfg > 1 \<and> cc_BatchTimeout cfg \<le> 0 then Inl BatchTimeoutNotPositive
      else if \<not> optsOk then Inl KafkaOptionsFailed
      else if \<not> clientOk then Inl KafkaClientFailed
      else case register_metrics (cc_Registerer cfg) of
             Some e \<Rightarrow> Inl e
           | None \<Rightarrow> Inr \<lparr>kc_topics = cc_Topics cfg, kc_reset = consumeResetOffset (cc_ConsumeResetAfterMillis cfg),
               kc_batchSize = cc_BatchSize cfg, kc_batchTimeout = cc_BatchTimeout cfg,
               kc_batchEnabled = (cc_BatchSize cfg > 1),
               kc_backpressureCheckInterval = cc_BackpressureCheckInterval cfg,
               kc_broadcastRetryInitial = broadcastRetryInitialBackoff, kc_broadcastRetryMax = broadcastRetryMaxBackoff,
               kc_namespace = cc_Namespace cfg, kc_tenantResolver = cc_TenantResolver cfg, kc_dlq = cc_DLQ cfg\<rparr>)"

section \<open>The environment and the state\<close>

text \<open>
  \<open>ev_done t\<close>: the \<open>select\<close> at tick \<open>t\<close> takes the branch of the cancelled context; \<open>ev_err t\<close>: the context
  reports an error at tick \<open>t\<close>. \<open>ev_broadcast\<close> is true when the callback returns nil.
\<close>

record kafka_env =
  ev_allow :: "nat \<Rightarrow> bool \<times> int"
  ev_pause :: "nat \<Rightarrow> bool"
  ev_done :: "nat \<Rightarrow> bool"
  ev_err :: "nat \<Rightarrow> bool"
  ev_broadcast :: "nat \<Rightarrow> string \<Rightarrow> string option \<Rightarrow> kafka_record \<Rightarrow> bool"
  ev_resolver :: "nat \<Rightarrow> string \<Rightarrow> string option"
  ev_room :: "nat \<Rightarrow> bool"

text \<open>A dead-letter job, and the prepared message.\<close>

record dlq_job =
  job_record :: kafka_record
  job_tenant :: string
  job_reason :: string

record prepared_message =
  pm_topic :: string
  pm_subject :: string
  pm_message :: "string option"
  pm_record :: kafka_record

text \<open>
  The state: the tick; the records marked for commit, the messages the bus accepted with their subject, the
  records deliberately dropped and those dropped on a registry miss, each in order; the jobs handed to the
  dead-letter pool; the counters; the topics the client was told to consume and to pause.
\<close>

record kafka_state =
  kf_tick :: nat
  kf_marked :: "kafka_record list"
  kf_sent :: "(string \<times> kafka_record) list"
  kf_dropped :: "kafka_record list"
  kf_missed :: "kafka_record list"
  kf_dlq :: "dlq_job list"
  messagesProcessed :: nat
  messagesFailed :: nat
  batchesSent :: nat
  unknownTopicDrops :: nat
  broadcastRetries :: nat
  kf_added :: "string list"
  kf_paused :: "string list"

definition init_kafka :: kafka_state where
  "init_kafka = \<lparr>kf_tick = 0, kf_marked = [], kf_sent = [], kf_dropped = [], kf_missed = [], kf_dlq = [],
     messagesProcessed = 0, messagesFailed = 0, batchesSent = 0, unknownTopicDrops = 0, broadcastRetries = 0,
     kf_added = [], kf_paused = []\<rparr>"

definition MarkCommitRecords :: "kafka_record \<Rightarrow> kafka_state \<Rightarrow> kafka_state" where
  "MarkCommitRecords r s = s\<lparr>kf_marked := kf_marked s @ [r]\<rparr>"

definition incrementProcessed :: "kafka_state \<Rightarrow> kafka_state" where
  "incrementProcessed s = s\<lparr>messagesProcessed := messagesProcessed s + 1\<rparr>"

definition incrementFailed :: "kafka_state \<Rightarrow> kafka_state" where
  "incrementFailed s = s\<lparr>messagesFailed := messagesFailed s + 1\<rparr>"

definition incrementBatches :: "kafka_state \<Rightarrow> kafka_state" where
  "incrementBatches s = s\<lparr>batchesSent := batchesSent s + 1\<rparr>"

definition logUnknownTopicDrop :: "kafka_record \<Rightarrow> kafka_state \<Rightarrow> kafka_state" where
  "logUnknownTopicDrop r s = s\<lparr>unknownTopicDrops := unknownTopicDrops s + 1, kf_missed := kf_missed s @ [r]\<rparr>"

definition AddConsumeTopics :: "string list \<Rightarrow> kafka_state \<Rightarrow> kafka_state" where
  "AddConsumeTopics topics s = (if topics = [] then s else s\<lparr>kf_added := kf_added s @ topics\<rparr>)"

definition PauseFetchTopics :: "string list \<Rightarrow> kafka_state \<Rightarrow> kafka_state" where
  "PauseFetchTopics topics s = (if topics = [] then s else s\<lparr>kf_paused := kf_paused s @ topics\<rparr>)"

section \<open>The channel of a record\<close>

fun find_header :: "string \<Rightarrow> kafka_header list \<Rightarrow> string option" where
  "find_header key [] = None"
| "find_header key (h # hs) = (if hdr_Key h = key then hdr_Value h else find_header key hs)"

definition findHeader :: "kafka_record \<Rightarrow> string \<Rightarrow> string option" where
  "findHeader r key = find_header key (rec_Headers r)"

fun IndexByte :: "string \<Rightarrow> char \<Rightarrow> int" where
  "IndexByte [] c = -1"
| "IndexByte (x # xs) c = (if x = c then 0 else let i = IndexByte xs c in if i < 0 then -1 else i + 1)"

text \<open>The triple \<open>(channel, reason, tenant)\<close>.\<close>

definition extractChannel_kafka ::
  "kafka_consumer \<Rightarrow> (string \<Rightarrow> string option) \<Rightarrow> kafka_record \<Rightarrow> string \<times> string \<times> string" where
  "extractChannel_kafka c resolver r =
     (if \<not> kc_tenantResolver c then ([], ReasonUnknownTopic, [])
      else case resolver (rec_Topic r) of
             None \<Rightarrow> ([], ReasonUnknownTopic, [])
           | Some tn \<Rightarrow>
               (case findHeader r HeaderChannel of
                  None \<Rightarrow> ([], ReasonMissingChannelHeader, tn)
                | Some ch \<Rightarrow>
                    let dot = IndexByte ch (CHR ''.'')
                    in if dot \<le> 0 then ([], ReasonInvalidChannelKey, tn)
                       else if take (nat dot) ch \<noteq> tn then ([], ReasonTenantPrefixMismatch, tn)
                       else (ch, [], tn)))"

text \<open>The record is marked as deliberately dropped whether or not the dead-letter queue takes it.\<close>

definition routeToDLQ :: "kafka_consumer \<Rightarrow> kafka_env \<Rightarrow> kafka_record \<Rightarrow> string \<Rightarrow> string \<Rightarrow> kafka_state \<Rightarrow> kafka_state" where
  "routeToDLQ c e r tn reason s =
     (let s = s\<lparr>kf_dropped := kf_dropped s @ [r]\<rparr>
      in if \<not> kc_dlq c then s
         else
           let dlqRec = \<lparr>rec_Topic = BuildTopicName (kc_namespace c) tn DeadLetterTopicSuffix, rec_Partition = 0, rec_Offset = 0,
                  rec_Key = rec_Key r, rec_Value = rec_Value r,
                  rec_Headers = rec_Headers r @ [\<lparr>hdr_Key = HeaderReason, hdr_Value = Some reason\<rparr>]\<rparr>;
               s' = s\<lparr>kf_tick := Suc (kf_tick s)\<rparr>
           in if ev_room e (kf_tick s)
              then s'\<lparr>kf_dlq := kf_dlq s' @ [\<lparr>job_record = dlqRec, job_tenant = tn, job_reason = reason\<rparr>]\<rparr>
              else s')"

section \<open>The three waits\<close>

partial_function (option) pace_loop :: "kafka_consumer \<Rightarrow> kafka_env \<Rightarrow> nat \<Rightarrow> int \<Rightarrow> (bool \<times> nat \<times> int) option" where
  "pace_loop c e t paced =
     (if fst (ev_allow e t) then Some (True, Suc t, paced)
      else
        let waitDuration = (if snd (ev_allow e t) \<le> 0 then kc_backpressureCheckInterval c else snd (ev_allow e t))
        in if ev_done e t then Some (False, Suc t, paced) else pace_loop c e (Suc t) (paced + waitDuration))"

definition paceKafkaRate :: "kafka_consumer \<Rightarrow> kafka_env \<Rightarrow> kafka_state \<Rightarrow> (bool \<times> kafka_state) option" where
  "paceKafkaRate c e s = (case pace_loop c e (kf_tick s) 0 of
       None \<Rightarrow> None | Some (admitted, t, _) \<Rightarrow> Some (admitted, s\<lparr>kf_tick := t\<rparr>))"

partial_function (option) brake_loop :: "kafka_env \<Rightarrow> nat \<Rightarrow> (bool \<times> nat) option" where
  "brake_loop e t =
     (if \<not> ev_pause e t then Some (True, Suc t)
      else if ev_done e t then Some (False, Suc t) else brake_loop e (Suc t))"

text \<open>The brake is tested once before the loop that waits for it.\<close>

definition cpu_brake :: "kafka_env \<Rightarrow> kafka_state \<Rightarrow> (bool \<times> kafka_state) option" where
  "cpu_brake e s =
     (if \<not> ev_pause e (kf_tick s) then Some (True, s\<lparr>kf_tick := Suc (kf_tick s)\<rparr>)
      else case brake_loop e (Suc (kf_tick s)) of
             None \<Rightarrow> None | Some (released, t) \<Rightarrow> Some (released, s\<lparr>kf_tick := t\<rparr>))"

text \<open>The loop collects the waits it made between attempts.\<close>

partial_function (option) retry_loop ::
  "kafka_consumer \<Rightarrow> kafka_env \<Rightarrow> string \<Rightarrow> string option \<Rightarrow> kafka_record \<Rightarrow> nat \<Rightarrow> int \<Rightarrow> int list \<Rightarrow> (bool \<times> nat \<times> int list) option" where
  "retry_loop c e subject message r t backoff waits =
     (if ev_broadcast e t subject message r then Some (True, Suc t, waits)
      else if ev_done e t then Some (False, Suc t, waits)
      else retry_loop c e subject message r (Suc t) (min (i64 (backoff * 2)) (kc_broadcastRetryMax c)) (waits @ [backoff]))"

declare pace_loop.simps [code] brake_loop.simps [code] retry_loop.simps [code]

text \<open>Every failed attempt counts as a retry, the one the cancellation interrupted too.\<close>

definition broadcastWithRetry ::
  "kafka_consumer \<Rightarrow> kafka_env \<Rightarrow> string \<Rightarrow> string option \<Rightarrow> kafka_record \<Rightarrow> kafka_state \<Rightarrow> (bool \<times> kafka_state) option" where
  "broadcastWithRetry c e subject message r s =
     (case retry_loop c e subject message r (kf_tick s) (kc_broadcastRetryInitial c) [] of
        None \<Rightarrow> None
      | Some (delivered, t, waits) \<Rightarrow>
          let s = s\<lparr>kf_tick := t, broadcastRetries := broadcastRetries s + length waits + (if delivered then 0 else 1)\<rparr>
          in Some (delivered, if delivered then s\<lparr>kf_sent := kf_sent s @ [(subject, r)]\<rparr> else s))"

section \<open>Processing records\<close>

text \<open>A registry read is one tick.\<close>

definition resolve_record ::
  "kafka_consumer \<Rightarrow> kafka_env \<Rightarrow> kafka_record \<Rightarrow> kafka_state \<Rightarrow> (string \<times> string \<times> string) \<times> kafka_state" where
  "resolve_record c e r s = (extractChannel_kafka c (ev_resolver e (kf_tick s)) r, s\<lparr>kf_tick := Suc (kf_tick s)\<rparr>)"

text \<open>The pair \<open>(msg, noMark)\<close> with the state.\<close>

definition prepareMessage ::
  "kafka_consumer \<Rightarrow> kafka_env \<Rightarrow> kafka_record \<Rightarrow> kafka_state \<Rightarrow> (prepared_message option \<times> bool \<times> kafka_state) option" where
  "prepareMessage c e r s =
     (case paceKafkaRate c e s of
        None \<Rightarrow> None
      | Some (admitted, s) \<Rightarrow>
          if \<not> admitted then Some (None, True, s)
          else case cpu_brake e s of
                 None \<Rightarrow> None
               | Some (released, s) \<Rightarrow>
                   if \<not> released then Some (None, True, s)
                   else case resolve_record c e r s of
                          ((channel, reason, tn), s) \<Rightarrow>
                            if reason = ReasonUnknownTopic
                            then Some (None, True, logUnknownTopicDrop r (incrementFailed s))
                            else if reason \<noteq> []
                            then Some (None, False, incrementFailed (routeToDLQ c e r tn reason s))
                            else Some (Some \<lparr>pm_topic = rec_Topic r, pm_subject = channel, pm_message = rec_Value r,
                                            pm_record = r\<rparr>, False, s))"

fun deliverBatch :: "kafka_consumer \<Rightarrow> kafka_env \<Rightarrow> prepared_message list \<Rightarrow> kafka_state \<Rightarrow> (bool \<times> kafka_state) option" where
  "deliverBatch c e [] s = Some (True, s)"
| "deliverBatch c e (m # ms) s =
     (case broadcastWithRetry c e (pm_subject m) (pm_message m) (pm_record m) s of
        None \<Rightarrow> None
      | Some (delivered, s) \<Rightarrow>
          if \<not> delivered then Some (False, s)
          else deliverBatch c e ms (incrementProcessed (MarkCommitRecords (pm_record m) s)))"

text \<open>The result is \<open>abort\<close>.\<close>

definition processRecord :: "kafka_consumer \<Rightarrow> kafka_env \<Rightarrow> kafka_record \<Rightarrow> kafka_state \<Rightarrow> (bool \<times> kafka_state) option" where
  "processRecord c e r s =
     (case paceKafkaRate c e s of
        None \<Rightarrow> None
      | Some (admitted, s) \<Rightarrow>
          if \<not> admitted then Some (True, s)
          else case cpu_brake e s of
                 None \<Rightarrow> None
               | Some (released, s) \<Rightarrow>
                   if \<not> released then Some (True, s)
                   else case resolve_record c e r s of
                          ((channel, reason, tn), s) \<Rightarrow>
                            if reason = ReasonUnknownTopic
                            then Some (False, logUnknownTopicDrop r (incrementFailed s))
                            else if reason \<noteq> []
                            then Some (False, MarkCommitRecords r (incrementFailed (routeToDLQ c e r tn reason s)))
                            else case broadcastWithRetry c e channel (rec_Value r) r s of
                                   None \<Rightarrow> None
                                 | Some (delivered, s) \<Rightarrow>
                                     if \<not> delivered then Some (True, s)
                                     else Some (False, incrementProcessed (MarkCommitRecords r s)))"

text \<open>The callback is called for every record of the fetch and returns at once after an abort.\<close>

fun consume_records ::
  "kafka_consumer \<Rightarrow> kafka_env \<Rightarrow> kafka_record list \<Rightarrow> bool \<Rightarrow> kafka_state \<Rightarrow> (bool \<times> kafka_state) option" where
  "consume_records c e [] aborted s = Some (aborted, s)"
| "consume_records c e (r # rs) aborted s =
     (if aborted then consume_records c e rs aborted s
      else case processRecord c e r s of
             None \<Rightarrow> None
           | Some (aborted, s) \<Rightarrow> consume_records c e rs aborted s)"

definition consumeFetchRecords ::
  "kafka_consumer \<Rightarrow> kafka_env \<Rightarrow> kafka_record list \<Rightarrow> kafka_state \<Rightarrow> (bool \<times> kafka_state) option" where
  "consumeFetchRecords c e fetches s = consume_records c e fetches False s"

section \<open>Fetch errors and revocation\<close>

datatype fetch_error_kind = UnknownTopicOrPartition | OffsetOutOfRangeKind | OtherFetchError

record fetch_error =
  fe_Topic :: string
  fe_Partition :: int
  fe_Err :: fetch_error_kind

text \<open>
  The callback changes its owner's state, here \<open>'p\<close>; a callback that panics is recovered and leaves the state
  it had reached. The result is the paused topics with both states.
\<close>

fun fetch_errors_loop ::
  "(string \<Rightarrow> 'p \<Rightarrow> 'p) \<Rightarrow> fetch_error list \<Rightarrow> string set \<Rightarrow> string list \<Rightarrow> kafka_state \<Rightarrow> 'p \<Rightarrow> string list \<times> kafka_state \<times> 'p" where
  "fetch_errors_loop cb [] seen paused s p = (paused, s, p)"
| "fetch_errors_loop cb (fe # errs) seen paused s p =
     (if fe_Err fe = UnknownTopicOrPartition
      then if fe_Topic fe \<in> seen then fetch_errors_loop cb errs seen paused s p
           else fetch_errors_loop cb errs (insert (fe_Topic fe) seen) (paused @ [fe_Topic fe])
                  (PauseFetchTopics [fe_Topic fe] s) (cb (fe_Topic fe) p)
      else fetch_errors_loop cb errs seen paused s p)"

definition handleFetchErrors ::
  "(string \<Rightarrow> 'p \<Rightarrow> 'p) \<Rightarrow> fetch_error list \<Rightarrow> kafka_state \<Rightarrow> 'p \<Rightarrow> string list \<times> kafka_state \<times> 'p" where
  "handleFetchErrors cb errs s p = fetch_errors_loop cb errs {} [] s p"

end
