(* ===== verification/ConsumerRun.thy ===== *)
theory ConsumerRun
  imports KafkaConsumer
begin

text \<open>
  The consume loops as step relations, and at-least-once delivery. A session is one assignment of partitions:
  the poll returns records, and within a partition their offsets increase from poll to poll, which is what
  Kafka promises. The unbatched loop alternates polling and processing. The batched loop is two goroutines: a
  poller that feeds a bounded channel, and the loop that owns the batch and selects over the channel, the flush
  timer and the context.
\<close>

section \<open>The loops\<close>

definition same_partition :: "kafka_record \<Rightarrow> kafka_record \<Rightarrow> bool" where
  "same_partition a b \<longleftrightarrow> rec_Topic a = rec_Topic b \<and> rec_Partition a = rec_Partition b"

definition in_order :: "kafka_record list \<Rightarrow> bool" where
  "in_order rs \<longleftrightarrow> sorted_wrt (\<lambda>a b. same_partition a b \<longrightarrow> rec_Offset a < rec_Offset b) rs"

text \<open>The unbatched loop; \<open>un_fetched\<close> are all records of the session so far.\<close>

record unbatched_loop =
  un_state :: kafka_state
  un_fetched :: "kafka_record list"
  un_running :: bool

inductive unbatched_step :: "kafka_consumer \<Rightarrow> kafka_env \<Rightarrow> unbatched_loop \<Rightarrow> unbatched_loop \<Rightarrow> bool"
  for c :: kafka_consumer and e :: kafka_env where
  un_done: "un_running s \<Longrightarrow> unbatched_step c e s (s\<lparr>un_running := False\<rparr>)"
| un_poll: "un_running s \<Longrightarrow> in_order (un_fetched s @ rs) \<Longrightarrow>
     handleFetchErrors (\<lambda>_ u. u) errs (un_state s) () = (paused, k, ()) \<Longrightarrow>
     consumeFetchRecords c e rs k = Some (aborted, k') \<Longrightarrow>
     unbatched_step c e s \<lparr>un_state = k', un_fetched = un_fetched s @ rs, un_running = (\<not> aborted)\<rparr>"

definition unbatched_reachable :: "kafka_consumer \<Rightarrow> kafka_env \<Rightarrow> unbatched_loop \<Rightarrow> bool" where
  "unbatched_reachable c e s \<longleftrightarrow>
     (unbatched_step c e)\<^sup>*\<^sup>* \<lparr>un_state = init_kafka, un_fetched = [], un_running = True\<rparr> s"

text \<open>
  The batched loop: the fetch the poller is pushing, whether the poller still runs, the channel and the batch.
\<close>

record batched_loop =
  ba_state :: kafka_state
  ba_fetched :: "kafka_record list"
  ba_pushing :: "kafka_record list"
  ba_polling :: bool
  ba_recordCh :: "kafka_record list"
  ba_batch :: "prepared_message list"
  ba_running :: bool

definition flushBatch ::
  "kafka_consumer \<Rightarrow> kafka_env \<Rightarrow> prepared_message list \<Rightarrow> kafka_state \<Rightarrow> (bool \<times> kafka_state) option" where
  "flushBatch c e batch s =
     (if batch = [] then Some (True, s)
      else case deliverBatch c e batch s of
             None \<Rightarrow> None
           | Some (False, s) \<Rightarrow> Some (False, s)
           | Some (True, s) \<Rightarrow> Some (True, incrementBatches s))"

text \<open>The branch of the loop that receives a record: the new batch, whether the loop goes on, the state.\<close>

definition on_record ::
  "kafka_consumer \<Rightarrow> kafka_env \<Rightarrow> prepared_message list \<Rightarrow> kafka_record \<Rightarrow> kafka_state
     \<Rightarrow> (prepared_message list \<times> bool \<times> kafka_state) option" where
  "on_record c e batch r s =
     (case prepareMessage c e r s of
        None \<Rightarrow> None
      | Some (Some m, _, s) \<Rightarrow>
          let batch = batch @ [m]
          in if int (length batch) \<ge> kc_batchSize c
             then case flushBatch c e batch s of
                    None \<Rightarrow> None | Some (ok, s) \<Rightarrow> Some ([], ok, s)
             else Some (batch, True, s)
      | Some (None, True, s) \<Rightarrow>
          if ev_err e (kf_tick s)
          then case flushBatch c e batch (s\<lparr>kf_tick := Suc (kf_tick s)\<rparr>) of
                 None \<Rightarrow> None | Some (_, s) \<Rightarrow> Some ([], False, s)
          else Some (batch, True, s\<lparr>kf_tick := Suc (kf_tick s)\<rparr>)
      | Some (None, False, s) \<Rightarrow> Some (batch, True, MarkCommitRecords r s))"

inductive batched_step :: "kafka_consumer \<Rightarrow> kafka_env \<Rightarrow> batched_loop \<Rightarrow> batched_loop \<Rightarrow> bool"
  for c :: kafka_consumer and e :: kafka_env where
  ba_poll: "ba_polling s \<Longrightarrow> ba_pushing s = [] \<Longrightarrow> in_order (ba_fetched s @ rs) \<Longrightarrow>
     handleFetchErrors (\<lambda>_ u. u) errs (ba_state s) () = (paused, k, ()) \<Longrightarrow>
     batched_step c e s (s\<lparr>ba_pushing := rs, ba_fetched := ba_fetched s @ rs, ba_state := k\<rparr>)"
| ba_push: "ba_polling s \<Longrightarrow> ba_pushing s = r # rs \<Longrightarrow> int (length (ba_recordCh s)) < kc_batchSize c \<Longrightarrow>
     batched_step c e s (s\<lparr>ba_pushing := rs, ba_recordCh := ba_recordCh s @ [r]\<rparr>)"
| ba_poller_stop: "ba_polling s \<Longrightarrow> ev_err e (kf_tick (ba_state s)) \<Longrightarrow> batched_step c e s (s\<lparr>ba_polling := False\<rparr>)"
| ba_ctx_done: "ba_running s \<Longrightarrow> ev_done e (kf_tick (ba_state s)) \<Longrightarrow>
     flushBatch c e (ba_batch s) (ba_state s) = Some (ok, k) \<Longrightarrow>
     batched_step c e s (s\<lparr>ba_batch := [], ba_state := k, ba_running := False\<rparr>)"
| ba_timer: "ba_running s \<Longrightarrow> flushBatch c e (ba_batch s) (ba_state s) = Some (ok, k) \<Longrightarrow>
     batched_step c e s (s\<lparr>ba_batch := [], ba_state := k, ba_running := ok\<rparr>)"
| ba_record: "ba_running s \<Longrightarrow> ba_recordCh s = r # rest \<Longrightarrow>
     on_record c e (ba_batch s) r (ba_state s) = Some (batch, go, k) \<Longrightarrow>
     batched_step c e s (s\<lparr>ba_recordCh := rest, ba_batch := batch, ba_state := k, ba_running := go\<rparr>)"

definition batched_init :: batched_loop where
  "batched_init = \<lparr>ba_state = init_kafka, ba_fetched = [], ba_pushing = [], ba_polling = True, ba_recordCh = [],
     ba_batch = [], ba_running = True\<rparr>"

definition batched_reachable :: "kafka_consumer \<Rightarrow> kafka_env \<Rightarrow> batched_loop \<Rightarrow> bool" where
  "batched_reachable c e s \<longleftrightarrow> (batched_step c e)\<^sup>*\<^sup>* batched_init s"

section \<open>What the marks commit\<close>

text \<open>
  Marks are cumulative: committing the marks moves the group past every record of the partition up to the
  highest marked offset. A record is settled when the bus took it, when it was deliberately dropped, or when
  it was dropped because the registry did not know its topic.
\<close>

definition commit_covers :: "kafka_record list \<Rightarrow> kafka_record \<Rightarrow> bool" where
  "commit_covers ms r \<longleftrightarrow> (\<exists>m\<in>set ms. same_partition r m \<and> rec_Offset r \<le> rec_Offset m)"

definition settled :: "kafka_state \<Rightarrow> kafka_record \<Rightarrow> bool" where
  "settled s r \<longleftrightarrow> r \<in> snd ` set (kf_sent s) \<or> r \<in> set (kf_dropped s) \<or> r \<in> set (kf_missed s)"

section \<open>The waits\<close>

lemma pace_loop_result:
  assumes "pace_loop c e t p = Some (v, t', p')"
  shows "t < t' \<and> (\<not> v \<longrightarrow> ev_done e (t' - 1))"
proof -
  have "t < fst (snd y) \<and> (\<not> fst y \<longrightarrow> ev_done e (fst (snd y) - 1))" if "pace_loop c e t p = Some y" for y
    by (rule pace_loop.raw_induct [where P = "\<lambda>c e t p y. t < fst (snd y) \<and> (\<not> fst y \<longrightarrow> ev_done e (fst (snd y) - 1))", OF _ that])
      (fastforce simp: Let_def split: if_splits)
  from this [OF assms] show ?thesis by simp
qed

lemma brake_loop_result:
  assumes "brake_loop e t = Some (v, t')"
  shows "t < t' \<and> (\<not> v \<longrightarrow> ev_done e (t' - 1))"
proof -
  have "t < snd y \<and> (\<not> fst y \<longrightarrow> ev_done e (snd y - 1))" if "brake_loop e t = Some y" for y
    by (rule brake_loop.raw_induct [where P = "\<lambda>e t y. t < snd y \<and> (\<not> fst y \<longrightarrow> ev_done e (snd y - 1))", OF _ that])
      (fastforce split: if_splits)
  from this [OF assms] show ?thesis by simp
qed

lemma retry_loop_result:
  assumes "retry_loop c e sub msg r t b ws = Some (v, t', ws')"
  shows "t < t' \<and> (v \<longrightarrow> ev_broadcast e (t' - 1) sub msg r) \<and> (\<not> v \<longrightarrow> ev_done e (t' - 1))"
proof -
  have "t < fst (snd y) \<and> (fst y \<longrightarrow> ev_broadcast e (fst (snd y) - 1) sub msg r) \<and>
      (\<not> fst y \<longrightarrow> ev_done e (fst (snd y) - 1))" if "retry_loop c e sub msg r t b ws = Some y" for y
    by (rule retry_loop.raw_induct [where P = "\<lambda>c e sub msg r t b ws y. t < fst (snd y) \<and>
        (fst y \<longrightarrow> ev_broadcast e (fst (snd y) - 1) sub msg r) \<and> (\<not> fst y \<longrightarrow> ev_done e (fst (snd y) - 1))", OF _ that])
      (fastforce split: if_splits)
  from this [OF assms] show ?thesis by simp
qed


section \<open>What one record does to the books\<close>

definition books :: "kafka_state \<Rightarrow> kafka_record list \<times> (string \<times> kafka_record) list \<times> kafka_record list \<times> kafka_record list" where
  "books s = (kf_marked s, kf_sent s, kf_dropped s, kf_missed s)"

lemma books_frame [simp]:
  "books (s\<lparr>kf_tick := t\<rparr>) = books s" "books (s\<lparr>broadcastRetries := n\<rparr>) = books s"
  "books (incrementProcessed s) = books s" "books (incrementFailed s) = books s"
  "books (incrementBatches s) = books s" "books (PauseFetchTopics ts s) = books s"
  by (simp_all add: books_def incrementProcessed_def incrementFailed_def incrementBatches_def PauseFetchTopics_def)

lemma books_mark: "books (MarkCommitRecords r s) = (kf_marked s @ [r], kf_sent s, kf_dropped s, kf_missed s)"
  by (simp add: books_def MarkCommitRecords_def)

lemma settled_books: "books s = books s' \<Longrightarrow> settled s = settled s'"
  by (auto simp: books_def settled_def fun_eq_iff)

lemma pace_books: "paceKafkaRate c e s = Some (v, s') \<Longrightarrow> books s' = books s"
  by (auto simp: paceKafkaRate_def split: option.splits)

lemma brake_books: "cpu_brake e s = Some (v, s') \<Longrightarrow> books s' = books s"
  by (auto simp: cpu_brake_def split: option.splits if_splits)

lemma broadcast_books:
  "broadcastWithRetry c e sub msg r s = Some (v, s') \<Longrightarrow>
     books s' = (kf_marked s, (if v then kf_sent s @ [(sub, r)] else kf_sent s), kf_dropped s, kf_missed s)"
  by (auto simp: broadcastWithRetry_def books_def Let_def split: option.splits)

lemma fetch_errors_books: "fetch_errors_loop cb errs seen paused s p = (ts, s', p') \<Longrightarrow> books s' = books s"
  by (induction cb errs seen paused s p rule: fetch_errors_loop.induct) (auto split: if_splits)

lemma dlq_books: "books (routeToDLQ c e r tn reason s) = (kf_marked s, kf_sent s, kf_dropped s @ [r], kf_missed s)"
  by (simp add: routeToDLQ_def books_def Let_def)

lemma reasons_nonempty [simp]:
  "ReasonUnknownTopic \<noteq> []" "ReasonMissingChannelHeader \<noteq> []" "ReasonInvalidChannelKey \<noteq> []" "ReasonTenantPrefixMismatch \<noteq> []"
  by (simp_all add: ReasonUnknownTopic_def ReasonMissingChannelHeader_def ReasonInvalidChannelKey_def ReasonTenantPrefixMismatch_def)

text \<open>The channels a record may be broadcast on: those the resolver accepts at some tick.\<close>

definition accepted_channel :: "kafka_consumer \<Rightarrow> kafka_env \<Rightarrow> kafka_record \<Rightarrow> string \<Rightarrow> bool" where
  "accepted_channel c e r ch \<longleftrightarrow> (\<exists>t tn. extractChannel_kafka c (ev_resolver e t) r = (ch, [], tn))"

definition cancelled_at :: "kafka_env \<Rightarrow> kafka_state \<Rightarrow> bool" where
  "cancelled_at e s \<longleftrightarrow> (\<exists>t. kf_tick s = Suc t \<and> ev_done e t)"

lemma pace_cancelled: "paceKafkaRate c e s = Some (False, s') \<Longrightarrow> cancelled_at e s'"
proof -
  assume "paceKafkaRate c e s = Some (False, s')"
  then obtain t p where "pace_loop c e (kf_tick s) 0 = Some (False, t, p)" "s' = s\<lparr>kf_tick := t\<rparr>"
    by (auto simp: paceKafkaRate_def split: option.splits)
  with pace_loop_result [OF this(1)] show ?thesis unfolding cancelled_at_def by (cases t) auto
qed

lemma brake_cancelled: "cpu_brake e s = Some (False, s') \<Longrightarrow> cancelled_at e s'"
proof -
  assume "cpu_brake e s = Some (False, s')"
  then obtain t where "brake_loop e (Suc (kf_tick s)) = Some (False, t)" "s' = s\<lparr>kf_tick := t\<rparr>"
    by (auto simp: cpu_brake_def split: option.splits if_splits)
  with brake_loop_result [OF this(1)] show ?thesis unfolding cancelled_at_def by (cases t) auto
qed

lemma broadcast_cancelled: "broadcastWithRetry c e sub msg r s = Some (False, s') \<Longrightarrow> cancelled_at e s'"
proof -
  assume "broadcastWithRetry c e sub msg r s = Some (False, s')"
  then obtain t ws where "retry_loop c e sub msg r (kf_tick s) (kc_broadcastRetryInitial c) [] = Some (False, t, ws)" "kf_tick s' = t"
    by (auto simp: broadcastWithRetry_def Let_def split: option.splits if_splits)
  with retry_loop_result [OF this(1)] show ?thesis unfolding cancelled_at_def by (cases t) auto
qed

text \<open>How far a record gets: held back by a cancelled wait, or through to channel extraction.\<close>

lemma wait_cases:
  assumes "paceKafkaRate c e s \<noteq> None" and "\<And>s1. paceKafkaRate c e s = Some (True, s1) \<Longrightarrow> cpu_brake e s1 \<noteq> None"
  obtains (paced) s1 where "paceKafkaRate c e s = Some (False, s1)" "books s1 = books s" "cancelled_at e s1"
    | (braked) s1 s2 where "paceKafkaRate c e s = Some (True, s1)" "cpu_brake e s1 = Some (False, s2)"
        "books s2 = books s" "cancelled_at e s2"
    | (resolved) s1 s2 ch reason tn where "paceKafkaRate c e s = Some (True, s1)" "cpu_brake e s1 = Some (True, s2)"
        "books s2 = books s" "extractChannel_kafka c (ev_resolver e (kf_tick s2)) r = (ch, reason, tn)"
proof -
  obtain a s1 where p: "paceKafkaRate c e s = Some (a, s1)" using assms(1) by auto
  show thesis
  proof (cases a)
    case False then show thesis using p paced [of s1] pace_books [OF p] pace_cancelled [of c e s s1] by simp
  next
    case True
    then obtain b s2 where b: "cpu_brake e s1 = Some (b, s2)" using assms(2) p by fastforce
    have bk: "books s2 = books s" using pace_books [OF p] brake_books [OF b] by simp
    obtain ch reason tn where x: "extractChannel_kafka c (ev_resolver e (kf_tick s2)) r = (ch, reason, tn)"
      by (metis prod_cases3)
    show thesis
    proof (cases b)
      case True then show thesis using resolved [of s1 s2] p b bk x \<open>a\<close> by simp
    next
      case False then show thesis using braked [of s1 s2] p b bk brake_cancelled \<open>a\<close> by simp
    qed
  qed
qed

lemma prepare_books:
  assumes "prepareMessage c e r s = Some (m, noMark, s')"
  obtains (ready) ch where "m = Some \<lparr>pm_topic = rec_Topic r, pm_subject = ch, pm_message = rec_Value r, pm_record = r\<rparr>"
      "accepted_channel c e r ch" "books s' = books s"
    | (missed) "m = None" "noMark" "books s' = (kf_marked s, kf_sent s, kf_dropped s, kf_missed s @ [r])"
    | (cancelled) "m = None" "noMark" "books s' = books s" "cancelled_at e s'"
    | (dropped) "m = None" "\<not> noMark" "books s' = (kf_marked s, kf_sent s, kf_dropped s @ [r], kf_missed s)"
proof -
  have nn: "paceKafkaRate c e s \<noteq> None" "\<And>s1. paceKafkaRate c e s = Some (True, s1) \<Longrightarrow> cpu_brake e s1 \<noteq> None"
    using assms by (auto simp: prepareMessage_def split: option.splits)
  show thesis
  proof (rule wait_cases [where r = r, OF nn])
    fix s1 assume "paceKafkaRate c e s = Some (False, s1)" "books s1 = books s" "cancelled_at e s1"
    then show thesis using assms cancelled by (simp add: prepareMessage_def)
  next
    fix s1 s2 assume "paceKafkaRate c e s = Some (True, s1)" "cpu_brake e s1 = Some (False, s2)" "books s2 = books s" "cancelled_at e s2"
    then show thesis using assms cancelled by (simp add: prepareMessage_def)
  next
    fix s1 s2 ch reason tn
    assume 3: "paceKafkaRate c e s = Some (True, s1)" "cpu_brake e s1 = Some (True, s2)" "books s2 = books s"
      "extractChannel_kafka c (ev_resolver e (kf_tick s2)) r = (ch, reason, tn)"
    have sel: "kf_marked s2 = kf_marked s" "kf_sent s2 = kf_sent s" "kf_dropped s2 = kf_dropped s" "kf_missed s2 = kf_missed s"
      using 3(3) by (simp_all add: books_def)
    have r: "(if reason = ReasonUnknownTopic
        then Some (None, True, logUnknownTopicDrop r (incrementFailed (s2\<lparr>kf_tick := Suc (kf_tick s2)\<rparr>)))
        else if reason \<noteq> [] then Some (None, False, incrementFailed (routeToDLQ c e r tn reason (s2\<lparr>kf_tick := Suc (kf_tick s2)\<rparr>)))
        else Some (Some \<lparr>pm_topic = rec_Topic r, pm_subject = ch, pm_message = rec_Value r, pm_record = r\<rparr>, False,
               s2\<lparr>kf_tick := Suc (kf_tick s2)\<rparr>)) = Some (m, noMark, s')"
      using assms 3 by (simp add: prepareMessage_def resolve_record_def)
    consider (u) "reason = ReasonUnknownTopic" | (d) "reason \<noteq> ReasonUnknownTopic" "reason \<noteq> []" | (a) "reason = []"
      by blast
    then show thesis
    proof cases
      case u then show thesis using missed r sel by (auto simp: books_def logUnknownTopicDrop_def incrementFailed_def)
    next
      case d then show thesis using dropped r sel by (auto simp: dlq_books)
    next
      case a
      then have "accepted_channel c e r ch" using 3(4) by (auto simp: accepted_channel_def)
      then show thesis using ready r a 3(3) by (auto simp: reasons_nonempty(1) [symmetric])
    qed
  qed
qed

lemma process_books:
  assumes "processRecord c e r s = Some (ab, s')"
  obtains (kept) "ab" "books s' = books s" "cancelled_at e s'"
    | (missed) "\<not> ab" "books s' = (kf_marked s, kf_sent s, kf_dropped s, kf_missed s @ [r])"
    | (dropped) "\<not> ab" "books s' = (kf_marked s @ [r], kf_sent s, kf_dropped s @ [r], kf_missed s)"
    | (delivered) ch where "\<not> ab" "accepted_channel c e r ch"
        "books s' = (kf_marked s @ [r], kf_sent s @ [(ch, r)], kf_dropped s, kf_missed s)"
proof -
  have nn: "paceKafkaRate c e s \<noteq> None" "\<And>s1. paceKafkaRate c e s = Some (True, s1) \<Longrightarrow> cpu_brake e s1 \<noteq> None"
    using assms by (auto simp: processRecord_def split: option.splits)
  show thesis
  proof (rule wait_cases [where r = r, OF nn])
    fix s1 assume "paceKafkaRate c e s = Some (False, s1)" "books s1 = books s" "cancelled_at e s1"
    then show thesis using assms kept by (simp add: processRecord_def)
  next
    fix s1 s2 assume "paceKafkaRate c e s = Some (True, s1)" "cpu_brake e s1 = Some (False, s2)" "books s2 = books s" "cancelled_at e s2"
    then show thesis using assms kept by (simp add: processRecord_def)
  next
    fix s1 s2 ch reason tn
    assume 3: "paceKafkaRate c e s = Some (True, s1)" "cpu_brake e s1 = Some (True, s2)" "books s2 = books s"
      "extractChannel_kafka c (ev_resolver e (kf_tick s2)) r = (ch, reason, tn)"
    have sel: "kf_marked s2 = kf_marked s" "kf_sent s2 = kf_sent s" "kf_dropped s2 = kf_dropped s" "kf_missed s2 = kf_missed s"
      using 3(3) by (simp_all add: books_def)
    let ?s = "s2\<lparr>kf_tick := Suc (kf_tick s2)\<rparr>"
    have r: "(if reason = ReasonUnknownTopic then Some (False, logUnknownTopicDrop r (incrementFailed ?s))
        else if reason \<noteq> [] then Some (False, MarkCommitRecords r (incrementFailed (routeToDLQ c e r tn reason ?s)))
        else case broadcastWithRetry c e ch (rec_Value r) r ?s of None \<Rightarrow> None
           | Some (delivered, s) \<Rightarrow> if \<not> delivered then Some (True, s)
               else Some (False, incrementProcessed (MarkCommitRecords r s))) = Some (ab, s')"
      using assms 3 by (simp add: processRecord_def resolve_record_def)
    consider (u) "reason = ReasonUnknownTopic" | (d) "reason \<noteq> ReasonUnknownTopic" "reason \<noteq> []" | (a) "reason = []"
      by blast
    then show thesis
    proof cases
      case u then show thesis using missed r sel by (auto simp: books_def logUnknownTopicDrop_def incrementFailed_def)
    next
      case d
      have "books (routeToDLQ c e r tn reason ?s) = (kf_marked s, kf_sent s, kf_dropped s @ [r], kf_missed s)"
        using sel by (simp add: dlq_books)
      then show thesis using dropped r d by (auto simp: books_def MarkCommitRecords_def incrementFailed_def)
    next
      case a
      then have ch: "accepted_channel c e r ch" using 3(4) by (auto simp: accepted_channel_def)
      obtain v s3 where b: "broadcastWithRetry c e ch (rec_Value r) r ?s = Some (v, s3)"
        using r a by (auto simp: reasons_nonempty(1) [symmetric] split: option.splits)
      have bk: "books s3 = (kf_marked s, (if v then kf_sent s @ [(ch, r)] else kf_sent s), kf_dropped s, kf_missed s)"
        using broadcast_books [OF b] sel by simp
      have "\<not> v \<Longrightarrow> cancelled_at e s3" by (rule broadcast_cancelled) (use b in simp)
      then show thesis using r a b bk ch kept delivered
        by (cases v) (auto simp: reasons_nonempty(1) [symmetric] books_def MarkCommitRecords_def incrementProcessed_def)
    qed
  qed
qed


section \<open>The unbatched loop\<close>

lemma settled_simp:
  "books s = (m, sn, d, mi) \<Longrightarrow> settled s r \<longleftrightarrow> r \<in> snd ` set sn \<or> r \<in> set d \<or> r \<in> set mi"
  by (simp add: books_def settled_def)

lemma books_sel:
  "books s = (m, sn, d, mi) \<Longrightarrow> kf_marked s = m \<and> kf_sent s = sn \<and> kf_dropped s = d \<and> kf_missed s = mi"
  by (simp add: books_def)

lemma books_self: "books s = (kf_marked s, kf_sent s, kf_dropped s, kf_missed s)"
  by (simp add: books_def)

lemma in_order_commit:
  assumes "in_order (d @ rest)" and "set ms \<subseteq> set d" and "r \<in> set (d @ rest)" and "commit_covers ms r"
  shows "r \<in> set d"
proof (rule ccontr)
  assume "r \<notin> set d"
  with assms(3) have "r \<in> set rest" by simp
  obtain m where m: "m \<in> set d" "same_partition r m" "rec_Offset r \<le> rec_Offset m"
    using assms(2,4) by (auto simp: commit_covers_def)
  have "same_partition m r \<longrightarrow> rec_Offset m < rec_Offset r"
    using assms(1) m(1) \<open>r \<in> set rest\<close> by (auto simp: in_order_def sorted_wrt_append)
  with m show False by (auto simp: same_partition_def)
qed

lemma process_settles:
  assumes "processRecord c e r s = Some (ab, s')"
  shows "(\<not> ab \<longrightarrow> settled s' r) \<and> (settled s x \<longrightarrow> settled s' x) \<and>
    set (kf_marked s') \<subseteq> set (kf_marked s) \<union> (if ab then {} else {r})"
  using assms
  by (cases rule: process_books)
    (auto dest!: books_sel simp: settled_def image_Un books_def)

lemma consume_settles:
  "consume_records c e rs False s = Some (ab, s') \<Longrightarrow>
     \<exists>d rest. rs = d @ rest \<and> (\<forall>r\<in>set d. settled s' r) \<and> set (kf_marked s') \<subseteq> set (kf_marked s) \<union> set d \<and>
       (\<not> ab \<longrightarrow> rest = []) \<and> (\<forall>x. settled s x \<longrightarrow> settled s' x)"
proof (induction rs arbitrary: s)
  case Nil then show ?case by simp
next
  case (Cons r rs)
  obtain a s1 where p: "processRecord c e r s = Some (a, s1)"
    using Cons.prems by (auto split: option.splits)
  note st = process_settles [OF p]
  have aborted: "consume_records c e xs True s1 = Some (True, s1)" for xs by (induction xs) simp_all
  show ?case
  proof (cases a)
    case True
    then have "ab" "s' = s1" using Cons.prems p aborted by auto
    then show ?thesis using st True by (intro exI [of _ "[]"] exI [of _ "r # rs"]) auto
  next
    case False
    then have "consume_records c e rs False s1 = Some (ab, s')" using Cons.prems p by simp
    from Cons.IH [OF this] obtain d rest where ih: "rs = d @ rest" "\<forall>x\<in>set d. settled s' x"
        "set (kf_marked s') \<subseteq> set (kf_marked s1) \<union> set d" "\<not> ab \<longrightarrow> rest = []" "\<forall>x. settled s1 x \<longrightarrow> settled s' x" by blast
    have "set (kf_marked s1) \<subseteq> insert r (set (kf_marked s))" "settled s1 r" using st False by auto
    then have "\<forall>x\<in>set (r # d). settled s' x" "set (kf_marked s') \<subseteq> set (kf_marked s) \<union> set (r # d)"
      "\<forall>x. settled s x \<longrightarrow> settled s' x" using ih st by auto
    then show ?thesis using ih(1,4) by (intro exI [of _ "r # d"] exI [of _ rest]) simp
  qed
qed



definition unbatched_inv :: "unbatched_loop \<Rightarrow> bool" where
  "unbatched_inv s \<longleftrightarrow> in_order (un_fetched s) \<and>
     (\<exists>d rest. un_fetched s = d @ rest \<and> (\<forall>r\<in>set d. settled (un_state s) r) \<and> set (kf_marked (un_state s)) \<subseteq> set d \<and>
        (un_running s \<longrightarrow> rest = []))"

lemma unbatched_inv_step: "unbatched_step c e s s' \<Longrightarrow> unbatched_inv s \<Longrightarrow> unbatched_inv s'"
proof (induction rule: unbatched_step.induct)
  case (un_done s) then show ?case by (auto simp: unbatched_inv_def)
next
  case (un_poll s rs errs paused k aborted k')
  have bk: "books k = books (un_state s)" using un_poll(3) fetch_errors_books by (auto simp: handleFetchErrors_def)
  have old: "\<forall>r\<in>set (un_fetched s). settled k r" "set (kf_marked k) \<subseteq> set (un_fetched s)"
    using un_poll(1,5) settled_books [OF bk] bk by (auto simp: unbatched_inv_def books_def)
  from consume_settles [of c e rs k] un_poll(4) obtain d rest where d: "rs = d @ rest" "\<forall>r\<in>set d. settled k' r"
      "set (kf_marked k') \<subseteq> set (kf_marked k) \<union> set d" "\<not> aborted \<longrightarrow> rest = []" "\<forall>x. settled k x \<longrightarrow> settled k' x"
    by (auto simp: consumeFetchRecords_def)
  have "\<forall>r\<in>set (un_fetched s @ d). settled k' r" "set (kf_marked k') \<subseteq> set (un_fetched s @ d)" using d old by auto
  moreover have "un_fetched s @ rs = (un_fetched s @ d) @ rest" using d(1) by simp
  ultimately show ?case using un_poll(2) d(4) unfolding unbatched_inv_def by (metis unbatched_loop.select_convs)
qed

lemma unbatched_inv_init: "unbatched_inv \<lparr>un_state = init_kafka, un_fetched = [], un_running = True\<rparr>"
  by (simp add: unbatched_inv_def in_order_def init_kafka_def)

lemma unbatched_reachable_inv: "unbatched_reachable c e s \<Longrightarrow> unbatched_inv s"
  unfolding unbatched_reachable_def
  by (induction rule: rtranclp_induct) (auto intro: unbatched_inv_step unbatched_inv_init)

section \<open>The batched loop\<close>

lemma filter_append_split:
  "filter P xs = as @ bs \<Longrightarrow> \<exists>us vs. xs = us @ vs \<and> filter P us = as \<and> filter P vs = bs"
proof (induction xs arbitrary: as)
  case Nil then show ?case by simp
next
  case (Cons x xs)
  show ?case
  proof (cases "P x \<and> as \<noteq> []")
    case True
    with Cons.prems obtain as' where "as = x # as'" "filter P xs = as' @ bs" by (cases as) auto
    with Cons.IH [of as'] True show ?thesis by (metis append_Cons filter.simps(2))
  next
    case False
    then consider "as = []" | "\<not> P x" by blast
    then show ?thesis
    proof cases
      case 1 with Cons.prems show ?thesis by (intro exI [of _ "[]"] exI [of _ "x # xs"]) simp
    next
      case 2
      with Cons.prems Cons.IH [of as] obtain us vs where "xs = us @ vs" "filter P us = as" "filter P vs = bs" by auto
      with 2 show ?thesis by (intro exI [of _ "x # us"] exI [of _ vs]) simp
    qed
  qed
qed

lemma deliver_books:
  "deliverBatch c e ms s = Some (ok, s') \<Longrightarrow>
     \<exists>d rest. ms = d @ rest \<and> (ok \<longrightarrow> rest = []) \<and>
       books s' = (kf_marked s @ map pm_record d, kf_sent s @ map (\<lambda>m. (pm_subject m, pm_record m)) d, kf_dropped s, kf_missed s)"
proof (induction c e ms s rule: deliverBatch.induct)
  case (1 c e s) then show ?case by (simp add: books_def)
next
  case (2 c e m ms s)
  obtain v s1 where b: "broadcastWithRetry c e (pm_subject m) (pm_message m) (pm_record m) s = Some (v, s1)"
    using 2(2) by (auto split: option.splits)
  note bk = broadcast_books [OF b]
  show ?case
  proof (cases v)
    case False
    then have "\<not> ok" "s' = s1" using 2(2) b by auto
    then show ?thesis using bk False by (intro exI [of _ "[]"] exI [of _ "m # ms"]) simp
  next
    case True
    let ?s = "incrementProcessed (MarkCommitRecords (pm_record m) s1)"
    have "deliverBatch c e ms ?s = Some (ok, s')" using 2(2) b True by simp
    with 2(1) [OF b refl] True obtain d rest where d: "ms = d @ rest" "ok \<longrightarrow> rest = []"
        "books s' = (kf_marked ?s @ map pm_record d, kf_sent ?s @ map (\<lambda>m. (pm_subject m, pm_record m)) d, kf_dropped ?s, kf_missed ?s)"
      by blast
    have "books ?s = (kf_marked s @ [pm_record m], kf_sent s @ [(pm_subject m, pm_record m)], kf_dropped s, kf_missed s)"
      using bk True by (auto simp: books_def MarkCommitRecords_def incrementProcessed_def)
    then show ?thesis using d books_sel [of ?s] by (intro exI [of _ "m # d"] exI [of _ rest]) auto
  qed
qed

lemma flush_books:
  assumes "flushBatch c e ms s = Some (ok, s')"
  shows "\<exists>d rest. ms = d @ rest \<and> (ok \<longrightarrow> rest = []) \<and>
     books s' = (kf_marked s @ map pm_record d, kf_sent s @ map (\<lambda>m. (pm_subject m, pm_record m)) d, kf_dropped s, kf_missed s)"
proof (cases "ms = []")
  case True then show ?thesis using assms by (auto simp: flushBatch_def books_def)
next
  case False
  then obtain s1 where "deliverBatch c e ms s = Some (ok, s1)" "books s' = books s1"
    using assms by (auto simp: flushBatch_def split: option.splits prod.splits bool.splits)
  with deliver_books [OF this(1)] show ?thesis by simp
qed

text \<open>
  The queue of a session whose records were consumed: \<open>d\<close> settled, then the classified records \<open>cl\<close> of which
  those flagged wait in the batch, in order, and the others are settled.
\<close>

definition session_ok :: "kafka_state \<Rightarrow> kafka_record list \<Rightarrow> (kafka_record \<times> bool) list \<Rightarrow> prepared_message list \<Rightarrow> bool" where
  "session_ok k d cl batch \<longleftrightarrow> (\<forall>r\<in>set d. settled k r) \<and> set (kf_marked k) \<subseteq> set d \<and>
     map pm_record batch = map fst (filter snd cl) \<and> (\<forall>p\<in>set cl. \<not> snd p \<longrightarrow> settled k (fst p))"

lemma settled_deliver:
  "books k' = (kf_marked k @ ms, kf_sent k @ map (\<lambda>m. (pm_subject m, pm_record m)) b, kf_dropped k, kf_missed k) \<Longrightarrow>
     settled k' r \<longleftrightarrow> settled k r \<or> r \<in> pm_record ` set b"
  by (auto simp: settled_def books_def image_Un image_image)

lemma session_flush:
  assumes "session_ok k d cl batch" and "flushBatch c e batch k = Some (ok, k')"
  shows "\<exists>d' cl'. d @ map fst cl = d' @ map fst (cl' :: (kafka_record \<times> bool) list) \<and> (\<forall>r\<in>set d'. settled k' r) \<and> set (kf_marked k') \<subseteq> set d' \<and>
     (ok \<longrightarrow> cl' = [])"
proof -
  obtain b rest where b: "batch = b @ rest" "ok \<longrightarrow> rest = []"
      "books k' = (kf_marked k @ map pm_record b, kf_sent k @ map (\<lambda>m. (pm_subject m, pm_record m)) b, kf_dropped k, kf_missed k)"
    using flush_books [OF assms(2)] by blast
  have "map fst (filter snd cl) = map pm_record b @ map pm_record rest"
    using assms(1) b(1) by (simp add: session_ok_def)
  then obtain f1 f2 where f: "filter snd cl = f1 @ f2" "map fst f1 = map pm_record b" "map fst f2 = map pm_record rest"
    by (auto simp: map_eq_append_conv)
  obtain c1 c2 where c: "cl = c1 @ c2" "filter snd c1 = f1" "filter snd c2 = f2" using filter_append_split [OF f(1)] by blast
  note new = settled_deliver [OF b(3)]
  have recs: "pm_record ` set b = fst ` set f1" using f(2) by (metis list.set_map)
  have "settled k' r" if "(r, w) \<in> set c1" for r w
  proof (cases w)
    case True
    then have "(r, w) \<in> set f1" using that c(2) by auto
    then show ?thesis using recs new by force
  next
    case False
    have "(r, w) \<in> set cl" using that c(1) by simp
    then have "settled k r" using False assms(1) unfolding session_ok_def by fastforce
    then show ?thesis using new by blast
  qed
  then have "\<forall>r\<in>set (map fst c1). settled k' r" by auto
  moreover have "\<forall>r\<in>set d. settled k' r" using assms(1) new by (simp add: session_ok_def)
  ultimately have s1: "\<forall>r\<in>set (d @ map fst c1). settled k' r" by auto
  have m1: "set (kf_marked k') \<subseteq> set (d @ map fst c1)"
  proof -
    have "set (kf_marked k') = set (kf_marked k) \<union> fst ` set f1" using b(3) recs by (simp add: books_def)
    moreover have "fst ` set f1 \<subseteq> fst ` set c1" using c(2) by (intro image_mono) auto
    ultimately show ?thesis using assms(1) by (auto simp: session_ok_def)
  qed
  show ?thesis
  proof (cases ok)
    case False then show ?thesis using s1 m1 c(1) by (intro exI [of _ "d @ map fst c1"] exI [of _ c2]) simp
  next
    case True
    then have "f2 = []" using b(2) f(3) by simp
    then have "\<forall>p\<in>set c2. \<not> snd p" using c(3) by (simp add: filter_empty_conv)
    moreover have "\<forall>p\<in>set c2. \<not> snd p \<longrightarrow> settled k (fst p)" using assms(1) c(1) by (simp add: session_ok_def)
    ultimately have "\<forall>r\<in>set (map fst c2). settled k' r" using new by simp
    then show ?thesis using s1 m1 c(1) by (intro exI [of _ "d @ map fst c1 @ map fst c2"] exI [of _ "[]"]) auto
  qed
qed


definition context_sound :: "kafka_env \<Rightarrow> bool" where
  "context_sound e \<longleftrightarrow> (\<forall>t u. ev_done e t \<longrightarrow> t \<le> u \<longrightarrow> ev_err e u)"

definition stopped_ok :: "kafka_state \<Rightarrow> kafka_record list \<Rightarrow> bool" where
  "stopped_ok k d \<longleftrightarrow> (\<forall>r\<in>set d. settled k r) \<and> set (kf_marked k) \<subseteq> set d"

lemma session_books: "books k = books k' \<Longrightarrow> session_ok k d cl batch = session_ok k' d cl batch"
  using settled_books [of k k'] by (simp add: session_ok_def books_def)

lemma session_stopped: "session_ok k d cl batch \<Longrightarrow> stopped_ok k d"
  by (simp add: session_ok_def stopped_ok_def)

lemma flush_stops:
  assumes "session_ok k d cl batch" and "flushBatch c e batch k = Some (ok, k')"
  shows "\<exists>d' cl'. d @ map fst cl = d' @ map fst cl' \<and> (if ok then session_ok k' d' cl' [] else stopped_ok k' d') \<and> stopped_ok k' d'"
proof -
  obtain d' and cl' :: "(kafka_record \<times> bool) list" where "d @ map fst cl = d' @ map fst cl'" "\<forall>r\<in>set d'. settled k' r" "set (kf_marked k') \<subseteq> set d'" "ok \<longrightarrow> cl' = []"
    using session_flush [OF assms] by blast
  then have "(if ok then session_ok k' d' cl' [] else stopped_ok k' d') \<and> stopped_ok k' d'"
    by (simp add: session_ok_def stopped_ok_def)
  with \<open>d @ map fst cl = d' @ map fst cl'\<close> show ?thesis by blast
qed

lemma session_wait: "session_ok k d cl batch \<Longrightarrow> session_ok k d (cl @ [(pm_record m, True)]) (batch @ [m])"
  by (simp add: session_ok_def)

lemma session_missed:
  assumes "session_ok k d cl batch" and "books s = (kf_marked k, kf_sent k, kf_dropped k, kf_missed k @ [r])"
  shows "session_ok s d (cl @ [(r, False)]) batch"
proof -
  have "settled s x \<longleftrightarrow> settled k x \<or> x = r" for x using settled_simp [OF assms(2)] by (auto simp: settled_def)
  then show ?thesis using assms books_sel [OF assms(2)] by (simp add: session_ok_def)
qed

lemma on_record_ok:
  assumes "on_record c e batch r k = Some (batch', go, k')" and "session_ok k d cl batch" and "kf_dropped k' = []" and "context_sound e"
  shows "\<exists>d' cl'. d @ map fst cl @ [r] = d' @ map fst cl' \<and> (if go then session_ok k' d' cl' batch' else stopped_ok k' d')"
proof -
  obtain m noMark s where p: "prepareMessage c e r k = Some (m, noMark, s)"
    using assms(1) by (auto simp: on_record_def split: option.splits)
  from p show ?thesis
  proof (cases rule: prepare_books)
    case (ready ch)
    let ?m = "\<lparr>pm_topic = rec_Topic r, pm_subject = ch, pm_message = rec_Value r, pm_record = r\<rparr>"
    have so: "session_ok s d (cl @ [(r, True)]) (batch @ [?m])"
      using session_wait [OF assms(2), of ?m] session_books [OF ready(3)] by simp
    show ?thesis
    proof (cases "int (length (batch @ [?m])) \<ge> kc_batchSize c")
      case True
      then obtain ok where f: "flushBatch c e (batch @ [?m]) s = Some (ok, k')" "batch' = []" "go = ok"
        using assms(1) p ready(1) by (auto simp: on_record_def Let_def split: option.splits)
      from flush_stops [OF so f(1)] f(2,3) show ?thesis by (auto split: if_splits)
    next
      case False
      then have "batch' = batch @ [?m]" "go" "k' = s" using assms(1) p ready(1) by (auto simp: on_record_def Let_def)
      then show ?thesis using so by (intro exI [of _ d] exI [of _ "cl @ [(r, True)]"]) simp
    qed
  next
    case missed
    have so: "session_ok s d (cl @ [(r, False)]) batch"
      by (rule session_missed [OF assms(2) missed(3)])
    show ?thesis
    proof (cases "ev_err e (kf_tick s)")
      case True
      then obtain ok where f: "flushBatch c e batch (s\<lparr>kf_tick := Suc (kf_tick s)\<rparr>) = Some (ok, k')" "batch' = []" "\<not> go"
        using assms(1) p missed(1,2) by (auto simp: on_record_def split: option.splits)
      have "session_ok (s\<lparr>kf_tick := Suc (kf_tick s)\<rparr>) d (cl @ [(r, False)]) batch"
        using so session_books [OF books_frame(1)] by simp
      from flush_stops [OF this f(1)] f(3) show ?thesis by auto
    next
      case False
      then have "batch' = batch" "go" "k' = s\<lparr>kf_tick := Suc (kf_tick s)\<rparr>"
        using assms(1) p missed(1,2) by (auto simp: on_record_def)
      then show ?thesis using so session_books [OF books_frame(1)]
        by (intro exI [of _ d] exI [of _ "cl @ [(r, False)]"]) simp
    qed
  next
    case cancelled
    then have "ev_err e (kf_tick s)" using assms(4) unfolding cancelled_at_def context_sound_def by (metis le_SucI order_refl)
    then obtain ok where f: "flushBatch c e batch (s\<lparr>kf_tick := Suc (kf_tick s)\<rparr>) = Some (ok, k')" "\<not> go"
      using assms(1) p cancelled(1,2) by (auto simp: on_record_def split: option.splits)
    have "session_ok (s\<lparr>kf_tick := Suc (kf_tick s)\<rparr>) d cl batch"
      by (rule session_books [THEN iffD2, OF _ assms(2)]) (simp add: cancelled(3))
    from flush_stops [OF this f(1)] obtain d' and cl' :: "(kafka_record \<times> bool) list"
      where eq: "d @ map fst cl = d' @ map fst cl'" and st: "stopped_ok k' d'" by blast
    have "(d @ map fst cl) @ [r] = (d' @ map fst cl') @ [r]" by (simp only: eq)
    then have "d @ map fst cl @ [r] = d' @ map fst (cl' @ [(r, False)])" by simp
    then show ?thesis using f(2) st by (intro exI [of _ d'] exI [of _ "cl' @ [(r, False)]"] conjI) simp_all
  next
    case dropped
    then have "k' = MarkCommitRecords r s" using assms(1) p by (auto simp: on_record_def)
    then have False using dropped(3) assms(3) by (simp add: books_def MarkCommitRecords_def)
    then show ?thesis ..
  qed
qed


text \<open>The records the loop has taken from the channel, while it runs and after it stopped.\<close>

definition loop_ok :: "kafka_state \<Rightarrow> bool \<Rightarrow> prepared_message list \<Rightarrow> kafka_record list \<Rightarrow> bool" where
  "loop_ok k running batch q \<longleftrightarrow>
     (\<exists>d cl. q = d @ map fst cl \<and> (if running then session_ok k d cl batch else stopped_ok k d))"

lemma loop_ok_books: "books k = books k' \<Longrightarrow> loop_ok k running batch q = loop_ok k' running batch q"
  using settled_books [of k k'] by (simp add: loop_ok_def session_ok_def stopped_ok_def books_def)

lemma loop_flush:
  assumes "loop_ok k True batch q" and "flushBatch c e batch k = Some (ok, k')"
  shows "loop_ok k' ok [] q" "loop_ok k' False b q"
proof -
  obtain d cl where i: "q = d @ map fst cl" "session_ok k d cl batch" using assms(1) by (auto simp: loop_ok_def)
  obtain d' and cl' :: "(kafka_record \<times> bool) list" where f: "d @ map fst cl = d' @ map fst cl'"
      "if ok then session_ok k' d' cl' [] else stopped_ok k' d'" "stopped_ok k' d'"
    using flush_stops [OF i(2) assms(2)] by blast
  have "q = d' @ map fst cl'" using i(1) f(1) by simp
  then show "loop_ok k' ok [] q" "loop_ok k' False b q"
    using f(2,3) unfolding loop_ok_def by (intro exI [of _ d'] exI [of _ cl'] conjI; simp)+
qed

lemma loop_record:
  assumes "loop_ok k True batch q" and "on_record c e batch r k = Some (batch', go, k')" and "kf_dropped k' = []" and "context_sound e"
  shows "loop_ok k' go batch' (q @ [r])"
proof -
  obtain d cl where i: "q = d @ map fst cl" "session_ok k d cl batch" using assms(1) by (auto simp: loop_ok_def)
  from on_record_ok [OF assms(2) i(2) assms(3,4)] show ?thesis unfolding loop_ok_def i(1) append_assoc .
qed

definition batched_inv :: "batched_loop \<Rightarrow> bool" where
  "batched_inv s \<longleftrightarrow> in_order (ba_fetched s) \<and>
     (kf_dropped (ba_state s) = [] \<longrightarrow>
        (\<exists>q. ba_fetched s = q @ ba_recordCh s @ ba_pushing s \<and> loop_ok (ba_state s) (ba_running s) (ba_batch s) q))"

lemma flush_dropped: "flushBatch c e ms s = Some (ok, s') \<Longrightarrow> kf_dropped s' = kf_dropped s"
  using flush_books [of c e ms s ok s'] by (auto simp: books_def)

lemma on_record_dropped:
  assumes "on_record c e batch r k = Some (batch', go, k')" and "kf_dropped k' = []"
  shows "kf_dropped k = []"
proof -
  obtain m noMark s where p: "prepareMessage c e r k = Some (m, noMark, s)"
    using assms(1) by (auto simp: on_record_def split: option.splits)
  have "kf_dropped k' = kf_dropped s"
    using assms(1) p
    by (auto simp: on_record_def Let_def MarkCommitRecords_def split: option.splits if_splits bool.splits dest!: flush_dropped)
  then have "kf_dropped s = []" using assms(2) by simp
  with p show ?thesis by (cases rule: prepare_books) (auto simp: books_def)
qed

lemma batched_inv_step:
  assumes "batched_step c e s s'" and "batched_inv s" and "context_sound e"
  shows "batched_inv s'"
  using assms
proof (induction rule: batched_step.induct)
  case (ba_poll s rs errs paused k)
  have bk: "books k = books (ba_state s)" using ba_poll(4) fetch_errors_books by (auto simp: handleFetchErrors_def)
  then have "kf_dropped k = kf_dropped (ba_state s)" by (simp add: books_def)
  then show ?case using ba_poll(2,3,5) loop_ok_books [OF bk] by (auto simp: batched_inv_def)
next
  case (ba_push s r rs) then show ?case by (auto simp: batched_inv_def)
next
  case (ba_poller_stop s) then show ?case by (auto simp: batched_inv_def)
next
  case (ba_ctx_done s ok k)
  then show ?case using loop_flush(2) [OF _ ba_ctx_done(3)] flush_dropped [OF ba_ctx_done(3)] by (auto simp: batched_inv_def)
next
  case (ba_timer s ok k)
  then show ?case using loop_flush(1) [OF _ ba_timer(2)] flush_dropped [OF ba_timer(2)] by (auto simp: batched_inv_def)
next
  case (ba_record s r rest batch go k)
  show ?case
  proof (cases "kf_dropped k = []")
    case True
    then obtain q where q: "ba_fetched s = q @ ba_recordCh s @ ba_pushing s" "loop_ok (ba_state s) True (ba_batch s) q"
      using ba_record(1,4) on_record_dropped [OF ba_record(3)] by (auto simp: batched_inv_def)
    from loop_record [OF q(2) ba_record(3) True ba_record(5)] q(1) show ?thesis
      using ba_record(2,4) unfolding batched_inv_def by (auto intro!: exI [of _ "q @ [r]"])
  next
    case False then show ?thesis using ba_record(4) by (simp add: batched_inv_def)
  qed
qed

lemma batched_inv_init: "batched_inv batched_init"
  by (simp add: batched_inv_def batched_init_def in_order_def init_kafka_def loop_ok_def session_ok_def)

lemma batched_reachable_inv: "batched_reachable c e s \<Longrightarrow> context_sound e \<Longrightarrow> batched_inv s"
  unfolding batched_reachable_def
  by (induction rule: rtranclp_induct) (auto intro: batched_inv_step batched_inv_init)


section \<open>Accepted channels\<close>

definition sent_ok :: "kafka_consumer \<Rightarrow> kafka_env \<Rightarrow> kafka_state \<Rightarrow> bool" where
  "sent_ok c e k \<longleftrightarrow> (\<forall>p\<in>set (kf_sent k). accepted_channel c e (snd p) (fst p))"

definition batch_ok :: "kafka_consumer \<Rightarrow> kafka_env \<Rightarrow> prepared_message list \<Rightarrow> bool" where
  "batch_ok c e batch \<longleftrightarrow> (\<forall>m\<in>set batch. accepted_channel c e (pm_record m) (pm_subject m))"

lemma sent_ok_books: "books k = books k' \<Longrightarrow> sent_ok c e k = sent_ok c e k'"
  by (simp add: sent_ok_def books_def)

lemma flush_sent: "flushBatch c e ms k = Some (ok, k') \<Longrightarrow> sent_ok c e k \<Longrightarrow> batch_ok c e ms \<Longrightarrow> sent_ok c e k'"
  using flush_books [of c e ms k ok k'] by (fastforce simp: sent_ok_def batch_ok_def books_def)

lemma process_sent:
  assumes "processRecord c e r k = Some (ab, k')" and "sent_ok c e k"
  shows "sent_ok c e k'"
  using assms(1) by (cases rule: process_books) (use assms(2) in \<open>auto simp: sent_ok_def books_def\<close>)

lemma consume_sent: "consume_records c e rs ab k = Some (ab', k') \<Longrightarrow> sent_ok c e k \<Longrightarrow> sent_ok c e k'"
proof (induction rs arbitrary: ab k)
  case (Cons r rs)
  show ?case
  proof (cases ab)
    case False
    then obtain a s where "processRecord c e r k = Some (a, s)" "consume_records c e rs a s = Some (ab', k')"
      using Cons.prems(1) by (auto split: option.splits)
    then show ?thesis using Cons.IH process_sent Cons.prems(2) by blast
  qed (use Cons in simp)
qed simp

lemma on_record_sent:
  assumes "on_record c e batch r k = Some (batch', go, k')" and "sent_ok c e k" and "batch_ok c e batch"
  shows "sent_ok c e k' \<and> batch_ok c e batch'"
proof -
  obtain m noMark s where p: "prepareMessage c e r k = Some (m, noMark, s)"
    using assms(1) by (auto simp: on_record_def split: option.splits)
  have s: "sent_ok c e s" "\<And>n. sent_ok c e (s\<lparr>kf_tick := n\<rparr>)" "sent_ok c e (MarkCommitRecords r s)"
    using p assms(2) by (cases rule: prepare_books; auto simp: sent_ok_def books_def MarkCommitRecords_def)+
  have m: "m = Some x \<Longrightarrow> batch_ok c e (batch @ [x])" for x
    using p by (cases rule: prepare_books) (use assms(3) in \<open>auto simp: batch_ok_def\<close>)
  have nil: "batch_ok c e []" by (simp add: batch_ok_def)
  show ?thesis
  proof (cases m)
    case (Some x)
    then show ?thesis using assms(1) p s m nil flush_sent [OF _ s(1) m [OF Some]]
      by (auto simp: on_record_def Let_def split: option.splits if_splits)
  next
    case None
    then show ?thesis using assms(1,3) p s nil flush_sent [OF _ s(2) assms(3)]
      by (auto simp: on_record_def split: option.splits if_splits bool.splits)
  qed
qed

lemma batched_sent_step:
  "batched_step c e s s' \<Longrightarrow> sent_ok c e (ba_state s) \<and> batch_ok c e (ba_batch s) \<Longrightarrow> sent_ok c e (ba_state s') \<and> batch_ok c e (ba_batch s')"
proof (induction rule: batched_step.induct)
  case (ba_poll s rs errs paused k)
  have "books k = books (ba_state s)" using ba_poll(4) fetch_errors_books by (auto simp: handleFetchErrors_def)
  from sent_ok_books [OF this] show ?case using ba_poll(5) by simp
next
  case (ba_record s r rest batch go k) then show ?case using on_record_sent by auto
qed (auto simp: batch_ok_def intro: flush_sent [unfolded batch_ok_def])

lemma batched_reachable_sent: "batched_reachable c e s \<Longrightarrow> sent_ok c e (ba_state s) \<and> batch_ok c e (ba_batch s)"
  unfolding batched_reachable_def
proof (induction rule: rtranclp_induct)
  case base show ?case by (simp add: sent_ok_def batch_ok_def batched_init_def init_kafka_def)
next
  case step then show ?case using batched_sent_step by blast
qed

lemma unbatched_reachable_sent: "unbatched_reachable c e s \<Longrightarrow> sent_ok c e (un_state s)"
  unfolding unbatched_reachable_def
proof (induction rule: rtranclp_induct)
  case base show ?case by (simp add: sent_ok_def init_kafka_def)
next
  case (step s s')
  from step(2,3) show ?case
  proof (induction rule: unbatched_step.induct)
    case (un_poll s rs errs paused k aborted k')
    have "books k = books (un_state s)" using un_poll(3) fetch_errors_books by (auto simp: handleFetchErrors_def)
    from sent_ok_books [OF this] show ?case using un_poll(4,5) consume_sent by (simp add: consumeFetchRecords_def)
  qed simp
qed

text \<open>An accepted channel starts with the tenant the resolver gave for the topic, then a dot.\<close>

lemma IndexByte_prefix: "IndexByte s c = int n \<Longrightarrow> s = take n s @ c # drop (Suc n) s"
proof (induction s arbitrary: n)
  case (Cons x xs)
  show ?case
  proof (cases "x = c")
    case False
    then have "IndexByte xs c \<ge> 0" "n = Suc (nat (IndexByte xs c))" using Cons.prems by (auto simp: Let_def split: if_splits)
    then have "xs = take (n - 1) xs @ c # drop n xs" using Cons.IH [of "n - 1"] by simp
    then show ?thesis using \<open>n = _\<close> by (cases n) auto
  qed (use Cons.prems in auto)
qed simp

lemma accepted_prefix:
  assumes "accepted_channel c e r ch"
  shows "\<exists>t tn. ev_resolver e t (rec_Topic r) = Some tn \<and> tn \<noteq> [] \<and> HasPrefix ch (tn @ ''.'')"
proof -
  obtain t tn where x: "extractChannel_kafka c (ev_resolver e t) r = (ch, [], tn)" using assms by (auto simp: accepted_channel_def)
  then have r: "ev_resolver e t (rec_Topic r) = Some tn" "IndexByte ch (CHR ''.'') > 0" "take (nat (IndexByte ch (CHR ''.''))) ch = tn"
    by (auto simp: extractChannel_kafka_def Let_def split: if_splits option.splits)
  have "ch = tn @ CHR ''.'' # drop (Suc (nat (IndexByte ch (CHR ''.'')))) ch"
    using IndexByte_prefix [of ch "CHR ''.''" "nat (IndexByte ch (CHR ''.''))"] r by simp
  moreover have "tn \<noteq> []"
  proof
    assume "tn = []"
    with r(2,3) have "ch = []" by simp
    with r(2) show False by simp
  qed
  ultimately show ?thesis using r(1) by (metis HasPrefix_iff append_Cons append_Nil append_assoc)
qed

section \<open>The backoff\<close>

lemma retry_loop_waits:
  assumes "\<And>u. t \<le> u \<Longrightarrow> u < t + n \<Longrightarrow> \<not> ev_broadcast e u sub msg r \<and> \<not> ev_done e u" and "ev_broadcast e (t + n) sub msg r"
    and "0 \<le> b" and "b \<le> m" and "kc_broadcastRetryMax c = m" and "m < 2 ^ 62"
  shows "retry_loop c e sub msg r t b ws = Some (True, Suc (t + n), ws @ map (\<lambda>i. min (b * 2 ^ i) m) [0..<n])"
  using assms
proof (induction n arbitrary: t b ws)
  case 0 then show ?case by (simp add: retry_loop.simps)
next
  case (Suc n)
  have i: "i64 (b * 2) = b * 2" using Suc.prems(3,4,6) by (intro i64_id) auto
  have "retry_loop c e sub msg r t b ws = retry_loop c e sub msg r (Suc t) (min (b * 2) m) (ws @ [b])"
    using Suc.prems(1) [of t] Suc.prems(5) i by (subst retry_loop.simps) simp
  also have "\<dots> = Some (True, Suc (Suc t + n), (ws @ [b]) @ map (\<lambda>i. min (min (b * 2) m * 2 ^ i) m) [0..<n])"
    by (rule Suc.IH) (use Suc.prems in auto)
  also have "map (\<lambda>i. min (min (b * 2) m * 2 ^ i) m) [0..<n] = map (\<lambda>i. min (b * 2 ^ Suc i) m) [0..<n]"
  proof (rule map_cong [OF refl])
    fix i
    have "m \<le> m * 2 ^ i" using Suc.prems(3,4) by (simp add: mult_le_cancel_left1)
    then show "min (min (b * 2) m * 2 ^ i) m = min (b * 2 ^ Suc i) m"
      by (simp add: min_mult_distrib_right mult.assoc)
  qed
  also have "(ws @ [b]) @ map (\<lambda>i. min (b * 2 ^ Suc i) m) [0..<n] = ws @ map (\<lambda>i. min (b * 2 ^ i) m) [0..<Suc n]"
    using Suc.prems(4) by (simp add: upt_conv_Cons map_Suc_upt [symmetric] o_def del: upt_Suc)
  finally show ?case by simp
qed

end
