(* ===== verification/KafkaReplay.thy ===== *)
theory KafkaReplay
  imports ConsumerRun Replay
begin

text \<open>
  Replay from exact offsets (\<^verbatim>\<open>ReplayFromOffsets\<close> of \<^verbatim>\<open>server/kafka/consumer.go\<close>) and its conversion for the
  message handlers (\<^verbatim>\<open>backend/kafkabackend/kafkabackend.go\<close>, \<^verbatim>\<open>shared/kafka/mid.go\<close>). The temporary client is
  a parameter: the listed end offsets, and what each poll returns. The positions, a Go map, are the list of
  their entries in the order the loops visit them. The registry may change between two records, so the
  resolver depends on the poll and on the record's place in it.
\<close>

section \<open>The code\<close>

record kafka_replay_message =
  rp_Topic :: string
  rp_Partition :: int
  rp_Offset :: int
  rp_Subject :: string
  rp_Data :: "string option"
  rp_Pos :: string

record kafka_fetch =
  ft_closed :: bool
  ft_errors :: "fetch_error list"
  ft_records :: "kafka_record list"

record replay_env =
  rv_brokers :: bool
  rv_opts :: bool
  rv_client :: bool
  rv_ends :: "(string \<times> int \<Rightarrow> (unit + int) option) option"
  rv_done :: "nat \<Rightarrow> bool"
  rv_poll :: "nat \<Rightarrow> kafka_fetch"
  rv_resolver :: "nat \<Rightarrow> nat \<Rightarrow> string \<Rightarrow> string option"

datatype kafka_replay_error =
    NoTopicOffset | NoBrokerAddresses | ReplayOptionsFailed | ReplayClientFailed | ListEndOffsetsFailed
  | NoEndOffset string int | EndOffsetFailed string int | OutOfRange | ReplayCanceled | ReplayIncomplete int

record replay_progress =
  pr_pending :: "string \<times> int \<rightharpoonup> int"
  pr_pendingCount :: int
  pr_messages :: "kafka_replay_message list"
  pr_read :: int

text \<open>The captured end of each requested partition; a cursor at the end leaves nothing pending.\<close>

fun pending_loop ::
  "(string \<times> int \<Rightarrow> (unit + int) option) \<Rightarrow> ((string \<times> int) \<times> int) list \<Rightarrow> (string \<times> int \<rightharpoonup> int) \<Rightarrow> int
     \<Rightarrow> kafka_replay_error + (string \<times> int \<rightharpoonup> int) \<times> int" where
  "pending_loop ends [] pending count = Inr (pending, count)"
| "pending_loop ends ((tp, start) # rest) pending count =
     (case ends tp of
        None \<Rightarrow> Inl (NoEndOffset (fst tp) (snd tp))
      | Some (Inl _) \<Rightarrow> Inl (EndOffsetFailed (fst tp) (snd tp))
      | Some (Inr endOffset) \<Rightarrow>
          if start > endOffset then Inl OutOfRange
          else if start = endOffset then pending_loop ends rest pending count
          else pending_loop ends rest (pending(tp \<mapsto> endOffset)) (count + 1))"

text \<open>The callback of one record: the bookkeeping first, then the cap, the channel and the subscriptions.\<close>

definition replay_record ::
  "kafka_consumer \<Rightarrow> (string \<Rightarrow> string option) \<Rightarrow> int \<Rightarrow> string set \<Rightarrow> kafka_record \<Rightarrow> replay_progress \<Rightarrow> replay_progress" where
  "replay_record c resolver maxMessages subSet r p =
     (let tp = (rec_Topic r, rec_Partition r);
          p = (case pr_pending p tp of
                 Some endOffset \<Rightarrow>
                   if rec_Offset r \<ge> i64 (endOffset - 1)
                   then p\<lparr>pr_pending := (pr_pending p)(tp := None), pr_pendingCount := pr_pendingCount p - 1\<rparr> else p
               | None \<Rightarrow> p)
      in if pr_read p \<ge> maxMessages then p
         else case extractChannel_kafka c resolver r of
                (channel, reason, _) \<Rightarrow>
                  if reason \<noteq> [] then p
                  else if channel \<notin> subSet then p
                  else p\<lparr>pr_messages := pr_messages p @ [\<lparr>rp_Topic = rec_Topic r, rp_Partition = rec_Partition r,
                           rp_Offset = rec_Offset r, rp_Subject = channel, rp_Data = rec_Value r,
                           rp_Pos = EncodePos (rec_Partition r) (rec_Offset r)\<rparr>],
                         pr_read := pr_read p + 1\<rparr>)"

fun replay_records ::
  "kafka_consumer \<Rightarrow> (nat \<Rightarrow> string \<Rightarrow> string option) \<Rightarrow> int \<Rightarrow> string set \<Rightarrow> nat \<Rightarrow> kafka_record list \<Rightarrow> replay_progress \<Rightarrow> replay_progress" where
  "replay_records c resolver maxMessages subSet i [] p = p"
| "replay_records c resolver maxMessages subSet i (r # rs) p =
     replay_records c resolver maxMessages subSet (Suc i) rs (replay_record c (resolver i) maxMessages subSet r p)"

datatype poll_exit = PollDone | PollCanceled | PollOutOfRange

partial_function (option) replay_loop ::
  "kafka_consumer \<Rightarrow> replay_env \<Rightarrow> int \<Rightarrow> string set \<Rightarrow> nat \<Rightarrow> replay_progress \<Rightarrow> (poll_exit \<times> replay_progress) option" where
  "replay_loop c v maxMessages subSet n p =
     (if \<not> (pr_read p < maxMessages \<and> pr_pendingCount p > 0) then Some (PollDone, p)
      else if rv_done v n then Some (PollCanceled, p)
      else
        let fetches = rv_poll v n
        in if ft_closed fetches then Some (PollDone, p)
           else if list_ex (\<lambda>fe. fe_Err fe = OffsetOutOfRangeKind) (ft_errors fetches) then Some (PollOutOfRange, p)
           else if ft_records fetches = [] then Some (PollDone, p)
           else replay_loop c v maxMessages subSet (Suc n)
                  (replay_records c (rv_resolver v n) maxMessages subSet 0 (ft_records fetches) p))"

declare replay_loop.simps [code]

definition ReplayFromOffsets ::
  "kafka_consumer \<Rightarrow> replay_env \<Rightarrow> ((string \<times> int) \<times> int) list \<Rightarrow> int \<Rightarrow> string list
     \<Rightarrow> (kafka_replay_message list \<times> kafka_replay_error option) option" where
  "ReplayFromOffsets c v positions maxMessages subs =
     (if positions = [] then Some ([], Some NoTopicOffset)
      else if \<not> rv_brokers v then Some ([], Some NoBrokerAddresses)
      else if \<not> rv_opts v then Some ([], Some ReplayOptionsFailed)
      else if \<not> rv_client v then Some ([], Some ReplayClientFailed)
      else case rv_ends v of
             None \<Rightarrow> Some ([], Some ListEndOffsetsFailed)
           | Some ends \<Rightarrow>
               (case pending_loop ends positions Map.empty 0 of
                  Inl e \<Rightarrow> Some ([], Some e)
                | Inr (pending, pendingCount) \<Rightarrow>
                    if pendingCount = 0 then Some ([], None)
                    else case replay_loop c v maxMessages (set subs) 0
                                \<lparr>pr_pending = pending, pr_pendingCount = pendingCount, pr_messages = [], pr_read = 0\<rparr> of
                           None \<Rightarrow> None
                         | Some (PollCanceled, p) \<Rightarrow> Some (pr_messages p, Some ReplayCanceled)
                         | Some (PollOutOfRange, p) \<Rightarrow> Some ([], Some OutOfRange)
                         | Some (PollDone, p) \<Rightarrow>
                             if pr_pendingCount p > 0 \<and> pr_read p < maxMessages
                             then Some (pr_messages p, Some (ReplayIncomplete (pr_pendingCount p)))
                             else Some (pr_messages p, None)))"

section \<open>Message identity and the backend\<close>

definition fnv1a64 :: "string \<Rightarrow> nat" where
  "fnv1a64 s = foldl (\<lambda>h c. (semiring_bit_operations_class.xor h (of_char c) * 1099511628211) mod 2 ^ 64) 14695981039346656037 s"

fun hex_nat :: "nat \<Rightarrow> string" where
  "hex_nat n = (if n < 16 then [hex_digit n] else hex_nat (n div 16) @ [hex_digit (n mod 16)])"

definition MessageID :: "string \<Rightarrow> int \<Rightarrow> int \<Rightarrow> string" where
  "MessageID topic part offset = hex_nat (fnv1a64 topic) @ ''-'' @ FormatInt part @ ''-'' @ FormatInt offset"

definition convertReplayMessages :: "kafka_replay_message list \<Rightarrow> replay_message list" where
  "convertReplayMessages ms = map (\<lambda>m. \<lparr>rm_Subject = rp_Subject m, rm_Data = rp_Data m, rm_Pos = rp_Pos m,
      rm_Mid = MessageID (rp_Topic m) (rp_Partition m) (rp_Offset m)\<rparr>) ms"

text \<open>
  The replay of the backend, through the shared consumer of the pool if there is one. A partial result of a
  replay that failed is discarded. Whether it returns is the question whether the poll loop does.
\<close>

definition KafkaBackend_Replay ::
  "kafka_consumer option \<Rightarrow> replay_env \<Rightarrow> ((string \<times> int) \<times> int) list \<Rightarrow> int \<Rightarrow> string list
     \<Rightarrow> (replay_error + replay_message list) option" where
  "KafkaBackend_Replay shared v positions maxMessages subs =
     (case shared of
        None \<Rightarrow> Some (Inl ErrOtherReplay)
      | Some c \<Rightarrow>
          (case ReplayFromOffsets c v positions maxMessages subs of
             None \<Rightarrow> None
           | Some (_, Some OutOfRange) \<Rightarrow> Some (Inl OffsetOutOfRange)
           | Some (_, Some _) \<Rightarrow> Some (Inl ErrOtherReplay)
           | Some (ms, None) \<Rightarrow> Some (Inr (convertReplayMessages ms))))"

section \<open>What a replay returns\<close>

text \<open>The records of the first \<open>N\<close> polls with their places, and what the callback makes of one.\<close>

definition polled :: "replay_env \<Rightarrow> nat \<Rightarrow> (nat \<times> nat \<times> kafka_record) list" where
  "polled v N = concat (map (\<lambda>n. map (Pair n) (enumerate 0 (ft_records (rv_poll v n)))) [0..<N])"

definition replayable ::
  "kafka_consumer \<Rightarrow> replay_env \<Rightarrow> string set \<Rightarrow> nat \<times> nat \<times> kafka_record \<Rightarrow> kafka_replay_message option" where
  "replayable c v subSet x = (case x of (n, i, r) \<Rightarrow>
     (case extractChannel_kafka c (rv_resolver v n i) r of
        (channel, reason, _) \<Rightarrow>
          if reason \<noteq> [] \<or> channel \<notin> subSet then None
          else Some \<lparr>rp_Topic = rec_Topic r, rp_Partition = rec_Partition r, rp_Offset = rec_Offset r, rp_Subject = channel,
                 rp_Data = rec_Value r, rp_Pos = EncodePos (rec_Partition r) (rec_Offset r)\<rparr>))"

definition caught_up :: "(nat \<times> nat \<times> kafka_record) list \<Rightarrow> string \<times> int \<Rightarrow> int \<Rightarrow> bool" where
  "caught_up xs tp endOffset \<longleftrightarrow>
     (\<exists>(n, i, r)\<in>set xs. (rec_Topic r, rec_Partition r) = tp \<and> rec_Offset r \<ge> i64 (endOffset - 1))"

text \<open>
  The progress after the records \<open>xs\<close>, when the replay started with the partitions \<open>P\<close> pending: the messages
  are the replayable records in order up to the cap, and a partition is no longer pending when it is caught up.
\<close>

definition progress_ok ::
  "kafka_consumer \<Rightarrow> replay_env \<Rightarrow> int \<Rightarrow> string set \<Rightarrow> (string \<times> int \<rightharpoonup> int) \<Rightarrow> (nat \<times> nat \<times> kafka_record) list \<Rightarrow> replay_progress \<Rightarrow> bool" where
  "progress_ok c v mx subSet P xs p \<longleftrightarrow>
     pr_messages p = take (nat mx) (List.map_filter (replayable c v subSet) xs) \<and>
     pr_read p = int (length (pr_messages p)) \<and>
     finite (dom (pr_pending p)) \<and> pr_pendingCount p = int (card (dom (pr_pending p))) \<and>
     (\<forall>tp endOffset. P tp = Some endOffset \<longrightarrow> pr_pending p tp = Some endOffset \<or> caught_up xs tp endOffset) \<and>
     (\<forall>tp. pr_pending p tp = None \<or> pr_pending p tp = P tp)"

lemma map_filter_snoc: "List.map_filter f (xs @ [x]) = List.map_filter f xs @ (case f x of None \<Rightarrow> [] | Some y \<Rightarrow> [y])"
  by (induction xs) (auto simp: List.map_filter_simps split: option.splits)

lemma caught_up_snoc: "caught_up xs tp e \<Longrightarrow> caught_up (xs @ ys) tp e"
  by (auto simp: caught_up_def)

lemma progress_record:
  assumes "progress_ok c v mx subSet P xs p"
  shows "progress_ok c v mx subSet P (xs @ [(n, i, r)]) (replay_record c (rv_resolver v n i) mx subSet r p)"
proof -
  let ?tp = "(rec_Topic r, rec_Partition r)"
  define q where "q = (case pr_pending p ?tp of
                 Some endOffset \<Rightarrow>
                   if rec_Offset r \<ge> i64 (endOffset - 1)
                   then p\<lparr>pr_pending := (pr_pending p)(?tp := None), pr_pendingCount := pr_pendingCount p - 1\<rparr> else p
               | None \<Rightarrow> p)"
  have mono: "P tp = Some e \<Longrightarrow> pr_pending p tp = Some e \<or> caught_up (xs @ [(n, i, r)]) tp e" for tp e
    using assms caught_up_snoc unfolding progress_ok_def by blast
  have q: "finite (dom (pr_pending q)) \<and> pr_pendingCount q = int (card (dom (pr_pending q))) \<and>
      (\<forall>tp e. P tp = Some e \<longrightarrow> pr_pending q tp = Some e \<or> caught_up (xs @ [(n, i, r)]) tp e) \<and>
      (\<forall>tp. pr_pending q tp = None \<or> pr_pending q tp = P tp) \<and> pr_messages q = pr_messages p \<and> pr_read q = pr_read p"
  proof (cases "\<exists>e. pr_pending p ?tp = Some e \<and> rec_Offset r \<ge> i64 (e - 1)")
    case True
    then obtain e where e: "pr_pending p ?tp = Some e" "rec_Offset r \<ge> i64 (e - 1)" by blast
    then have qq: "q = p\<lparr>pr_pending := (pr_pending p)(?tp := None), pr_pendingCount := pr_pendingCount p - 1\<rparr>" by (simp add: q_def)
    have Pe: "P ?tp = Some e" using assms e(1) by (metis (no_types, lifting) option.distinct(1) progress_ok_def)
    have fin: "finite (dom (pr_pending p))" "?tp \<in> dom (pr_pending p)" using assms e(1) by (auto simp: progress_ok_def)
    then have "card (dom (pr_pending p)) > 0" by (auto simp: card_gt_0_iff)
    then have "int (card (dom (pr_pending p) - {?tp})) = int (card (dom (pr_pending p))) - 1" using fin by (simp add: card_Diff_singleton of_nat_diff)
    moreover have "caught_up (xs @ [(n, i, r)]) ?tp e" using e(2) by (auto simp: caught_up_def)
    ultimately show ?thesis using assms mono Pe fin(1) unfolding qq by (auto simp: progress_ok_def)
  next
    case False
    then have "q = p" by (auto simp: q_def split: option.splits)
    then show ?thesis using assms mono by (auto simp: progress_ok_def)
  qed
  obtain channel reason tn where x: "extractChannel_kafka c (rv_resolver v n i) r = (channel, reason, tn)" by (metis prod_cases3)
  have rec: "replay_record c (rv_resolver v n i) mx subSet r p =
      (if pr_read q \<ge> mx then q else case replayable c v subSet (n, i, r) of None \<Rightarrow> q
         | Some m \<Rightarrow> q\<lparr>pr_messages := pr_messages q @ [m], pr_read := pr_read q + 1\<rparr>)"
    unfolding replay_record_def Let_def q_def [symmetric] by (simp add: x replayable_def)
  have len: "length (pr_messages p) = min (length (List.map_filter (replayable c v subSet) xs)) (nat mx)"
    using assms by (simp add: progress_ok_def)
  show ?thesis
  proof (cases "pr_read q \<ge> mx")
    case True
    then have "int (length (pr_messages p)) \<ge> mx" using q assms by (simp add: progress_ok_def)
    then have "length (List.map_filter (replayable c v subSet) xs) \<ge> nat mx" using len by simp
    then show ?thesis using True q assms rec
      by (auto simp: progress_ok_def map_filter_snoc split: option.splits)
  next
    case False
    then have "int (length (pr_messages p)) < mx" using q assms by (simp add: progress_ok_def)
    then have "length (List.map_filter (replayable c v subSet) xs) < nat mx" using len by linarith
    then show ?thesis using False q assms rec
      by (auto simp: progress_ok_def map_filter_snoc split: option.splits)
  qed
qed

lemma progress_records:
  "progress_ok c v mx subSet P xs p \<Longrightarrow>
     progress_ok c v mx subSet P (xs @ map (Pair n) (enumerate i rs)) (replay_records c (rv_resolver v n) mx subSet i rs p)"
proof (induction rs arbitrary: i xs p)
  case (Cons r rs)
  from Cons.IH [OF progress_record [OF Cons.prems, of n i r], of "Suc i"] show ?case by simp
qed simp

lemma polled_Suc: "polled v (Suc N) = polled v N @ map (Pair N) (enumerate 0 (ft_records (rv_poll v N)))"
  by (simp add: polled_def)

text \<open>Partial correctness of the poll loop.\<close>

definition loop_spec ::
  "kafka_consumer \<Rightarrow> replay_env \<Rightarrow> int \<Rightarrow> string set \<Rightarrow> nat \<Rightarrow> replay_progress \<Rightarrow> poll_exit \<times> replay_progress \<Rightarrow> bool" where
  "loop_spec c v mx subSet n p res \<longleftrightarrow>
     (\<forall>P. progress_ok c v mx subSet P (polled v n) p \<longrightarrow> (\<exists>N. progress_ok c v mx subSet P (polled v N) (snd res)))"

lemma replay_loop_spec:
  assumes "replay_loop c v mx subSet n p = Some res"
  shows "loop_spec c v mx subSet n p res"
proof (rule replay_loop.raw_induct [where P = loop_spec, OF _ assms])
  fix loop c v mx subSet n p res
  assume IH: "\<And>c v mx subSet n p res. loop c v mx subSet n p = Some res \<Longrightarrow> loop_spec c v mx subSet n p res"
    and st: "(if \<not> (pr_read p < mx \<and> 0 < pr_pendingCount p) then Some (PollDone, p)
      else if rv_done v n then Some (PollCanceled, p)
      else let fetches = rv_poll v n in
        if ft_closed fetches then Some (PollDone, p)
        else if list_ex (\<lambda>fe. fe_Err fe = OffsetOutOfRangeKind) (ft_errors fetches) then Some (PollOutOfRange, p)
        else if ft_records fetches = [] then Some (PollDone, p)
        else loop c v mx subSet (Suc n) (replay_records c (rv_resolver v n) mx subSet 0 (ft_records fetches) p)) = Some res"
  have "snd res = p \<or> loop c v mx subSet (Suc n) (replay_records c (rv_resolver v n) mx subSet 0 (ft_records (rv_poll v n)) p) = Some res"
    using st by (auto simp: Let_def split: if_splits)
  then show "loop_spec c v mx subSet n p res"
  proof
    assume "snd res = p" then show ?thesis by (auto simp: loop_spec_def)
  next
    assume "loop c v mx subSet (Suc n) (replay_records c (rv_resolver v n) mx subSet 0 (ft_records (rv_poll v n)) p) = Some res"
    from IH [OF this] show ?thesis
      using progress_records [where i = 0 and rs = "ft_records (rv_poll v n)"] by (auto simp: loop_spec_def polled_Suc)
  qed
qed


lemma pending_loop_spec:
  "pending_loop ends positions P0 n0 = Inr (P, n) \<Longrightarrow> distinct (map fst positions) \<Longrightarrow>
   finite (dom P0) \<Longrightarrow> n0 = int (card (dom P0)) \<Longrightarrow> \<forall>tp\<in>fst ` set positions. P0 tp = None \<Longrightarrow>
   finite (dom P) \<and> n = int (card (dom P)) \<and> (\<forall>tp. P0 tp \<noteq> None \<longrightarrow> P tp = P0 tp) \<and>
   (\<forall>p\<in>set positions. \<exists>e. ends (fst p) = Some (Inr e) \<and> snd p \<le> e \<and> (snd p < e \<longrightarrow> P (fst p) = Some e))"
proof (induction ends positions P0 n0 rule: pending_loop.induct)
  case (1 ends P0 n0) then show ?case by auto
next
  case (2 ends tp start rest P0 n0)
  obtain e where e: "ends tp = Some (Inr e)" "start \<le> e"
    using 2(3) by (auto split: option.splits sum.splits if_splits)
  have fresh: "\<forall>tp'\<in>fst ` set rest. tp' \<noteq> tp" using 2(4) by auto
  show ?case
  proof (cases "start = e")
    case True
    then have "pending_loop ends rest P0 n0 = Inr (P, n)" using 2(3) e by simp
    with 2(1) [OF e(1) refl] True e 2(4-7) show ?thesis by simp
  next
    case False
    then have r: "pending_loop ends rest (P0(tp \<mapsto> e)) (n0 + 1) = Inr (P, n)" using 2(3) e by simp
    have "P0 tp = None" using 2(7) by simp
    then have "card (dom (P0(tp \<mapsto> e))) = card (dom P0) + 1" using 2(5) by (simp add: card_insert_if domIff)
    then have ih: "finite (dom P) \<and> n = int (card (dom P)) \<and> (\<forall>x. (P0(tp \<mapsto> e)) x \<noteq> None \<longrightarrow> P x = (P0(tp \<mapsto> e)) x) \<and>
       (\<forall>p\<in>set rest. \<exists>e. ends (fst p) = Some (Inr e) \<and> snd p \<le> e \<and> (snd p < e \<longrightarrow> P (fst p) = Some e))"
    proof -
      have "finite (dom (P0(tp \<mapsto> e)))" "n0 + 1 = int (card (dom (P0(tp \<mapsto> e))))"
        using 2(5,6) \<open>card (dom (P0(tp \<mapsto> e))) = card (dom P0) + 1\<close> by simp_all
      moreover have "\<forall>x\<in>fst ` set rest. (P0(tp \<mapsto> e)) x = None" using 2(7) fresh by auto
      moreover have "\<not> e < start" "distinct (map fst rest)" using e(2) 2(4) by simp_all
      ultimately show ?thesis using 2(2) [OF e(1) refl _ False r] by blast
    qed
    moreover have "P tp = Some e" using ih by (metis fun_upd_same option.distinct(1))
    moreover have "\<forall>x. P0 x \<noteq> None \<longrightarrow> P x = P0 x" using ih \<open>P0 tp = None\<close> by (metis fun_upd_other)
    ultimately show ?thesis using e by simp
  qed
qed

lemma replayable_subscribed: "replayable c v S x = Some m \<Longrightarrow> rp_Subject m \<in> S"
  by (auto simp: replayable_def split: prod.splits if_splits)

lemma map_filter_all: "(\<And>x y. f x = Some y \<Longrightarrow> Q y) \<Longrightarrow> list_all Q (take n (List.map_filter f xs))"
proof -
  assume "\<And>x y. f x = Some y \<Longrightarrow> Q y"
  then have "\<forall>y\<in>set (List.map_filter f xs). Q y" by (induction xs) (auto simp: List.map_filter_simps split: option.splits)
  then show ?thesis using set_take_subset by (fastforce simp: list_all_iff)
qed

text \<open>A replay whose context expires returns, whatever the polls deliver.\<close>

lemma replay_loop_returns:
  "rv_done v (n + k) \<Longrightarrow> replay_loop c v mx S n p \<noteq> None"
proof (induction k arbitrary: n p)
  case 0 then show ?case by (subst replay_loop.simps) simp
next
  case (Suc k)
  have "replay_loop c v mx S (Suc n) q \<noteq> None" for q using Suc.IH [of "Suc n"] Suc.prems by simp
  then show ?case by (subst replay_loop.simps) (simp add: Let_def)
qed

section \<open>Properties\<close>

text \<open>C16: A replay that reports success returns, in the order the polls delivered them, the first records up to
  the cap that carry a valid channel of their topic's tenant and one of the subscribed channels, so nothing for an
  empty subscription; and when the cap is not reached, every requested partition was read up to the end of its log
  at the time of the call.\<close>

theorem replay_exact:
  assumes "ReplayFromOffsets c v positions mx subs = Some (ms, None)" and "distinct (map fst positions)"
  shows "\<exists>N. ms = take (nat mx) (List.map_filter (replayable c v (set subs)) (polled v N)) \<and>
     list_all (\<lambda>m. rp_Subject m \<in> set subs) ms \<and>
     (length ms < nat mx \<longrightarrow> (\<exists>ends. rv_ends v = Some ends \<and>
        (\<forall>p\<in>set positions. \<exists>e. ends (fst p) = Some (Inr e) \<and> snd p \<le> e \<and> (snd p < e \<longrightarrow> caught_up (polled v N) (fst p) e))))"
proof -
  obtain ends P n where i: "rv_ends v = Some ends" "pending_loop ends positions Map.empty 0 = Inr (P, n)"
    using assms(1) by (auto simp: ReplayFromOffsets_def split: if_splits option.splits sum.splits)
  have P: "finite (dom P)" "n = int (card (dom P))"
    "\<forall>p\<in>set positions. \<exists>e. ends (fst p) = Some (Inr e) \<and> snd p \<le> e \<and> (snd p < e \<longrightarrow> P (fst p) = Some e)"
    using pending_loop_spec [OF i(2) assms(2)] by auto
  have sub: "list_all (\<lambda>m. rp_Subject m \<in> set subs) (take k (List.map_filter (replayable c v (set subs)) xs))" for k xs
    by (rule map_filter_all) (rule replayable_subscribed)
  show ?thesis
  proof (cases "n = 0")
    case True
    then have "dom P = {}" "ms = []" using P assms(1) i by (auto simp: ReplayFromOffsets_def split: if_splits)
    then show ?thesis using P(3) i(1) by (intro exI [of _ 0]) (fastforce simp: polled_def List.map_filter_simps)
  next
    case False
    let ?p = "\<lparr>pr_pending = P, pr_pendingCount = n, pr_messages = [], pr_read = 0\<rparr>"
    obtain q where q: "replay_loop c v mx (set subs) 0 ?p = Some (PollDone, q)" "ms = pr_messages q"
        "\<not> (pr_pendingCount q > 0 \<and> pr_read q < mx)"
      using assms(1) i False by (auto simp: ReplayFromOffsets_def split: if_splits option.splits poll_exit.splits)
    have "progress_ok c v mx (set subs) P (polled v 0) ?p" using P(1,2) by (simp add: progress_ok_def polled_def List.map_filter_simps)
    then obtain N where N: "progress_ok c v mx (set subs) P (polled v N) q"
      using replay_loop_spec [OF q(1)] by (auto simp: loop_spec_def)
    have "caught_up (polled v N) tp e" if "length ms < nat mx" "P tp = Some e" for tp e
    proof -
      have "pr_pendingCount q \<le> 0" using q(2,3) N that(1) by (auto simp: progress_ok_def)
      then have "dom (pr_pending q) = {}" using N by (simp add: progress_ok_def)
      then have "pr_pending q tp = None" by auto
      then show ?thesis using N that(2) unfolding progress_ok_def by fastforce
    qed
    then have "length ms < nat mx \<longrightarrow> (\<forall>p\<in>set positions. \<exists>e. ends (fst p) = Some (Inr e) \<and> snd p \<le> e \<and> (snd p < e \<longrightarrow> caught_up (polled v N) (fst p) e))"
      using P(3) by blast
    moreover have "ms = take (nat mx) (List.map_filter (replayable c v (set subs)) (polled v N))" using N q(2) by (simp add: progress_ok_def)
    ultimately show ?thesis using sub i(1) by blast
  qed
qed


definition demo_record :: "int \<Rightarrow> string \<Rightarrow> kafka_record" where
  "demo_record offset channel = \<lparr>rec_Topic = ''prod.acme.default'', rec_Partition = 0, rec_Offset = offset, rec_Key = None,
     rec_Value = Some ''{}'', rec_Headers = [\<lparr>hdr_Key = HeaderChannel, hdr_Value = Some channel\<rparr>]\<rparr>"

definition demo_consumer_config :: consumer_config where
  "demo_consumer_config = \<lparr>cc_Brokers = [''kafka:9092''], cc_ConsumerGroup = ''prod-shared-consumer'', cc_Topics = [''prod.acme.default''],
     cc_Broadcast = True, cc_ResourceGuard = True, cc_Logger = True, cc_ConsumerType = ''shared'', cc_CommitOnRevokeTimeout = 5000000000,
     cc_BatchSize = 50, cc_BatchTimeout = 10000000, cc_BackpressureCheckInterval = 100000000, cc_ConsumeResetAfterMillis = 0,
     cc_Namespace = ''prod'', cc_TenantResolver = True, cc_DLQ = False, cc_Registerer = None\<rparr>"

definition demo_consumer :: kafka_consumer where
  "demo_consumer = (case NewConsumer True True demo_consumer_config of Inr c \<Rightarrow> c
     | Inl _ \<Rightarrow> \<lparr>kc_topics = [], kc_reset = AtEnd, kc_batchSize = 0, kc_batchTimeout = 0, kc_batchEnabled = False,
          kc_backpressureCheckInterval = 0, kc_broadcastRetryInitial = 0, kc_broadcastRetryMax = 0, kc_namespace = [],
          kc_tenantResolver = False, kc_dlq = False\<rparr>)"

definition demo_resolver :: "string \<Rightarrow> string option" where
  "demo_resolver topic = (if topic = ''prod.acme.default'' then Some ''acme'' else None)"

definition demo_replay_env :: replay_env where
  "demo_replay_env = \<lparr>rv_brokers = True, rv_opts = True, rv_client = True, rv_ends = Some (\<lambda>_. Some (Inr 3)), rv_done = (\<lambda>n. n \<ge> 5),
     rv_poll = (\<lambda>_. \<lparr>ft_closed = False, ft_errors = [], ft_records = [demo_record 0 ''acme.BTC.trade'', demo_record 1 ''acme.ETH.trade'',
        demo_record 2 ''evil.BTC.trade'']\<rparr>), rv_resolver = (\<lambda>_ _. demo_resolver)\<rparr>"

definition demo_replayed :: "kafka_replay_message list" where
  "demo_replayed = [\<lparr>rp_Topic = ''prod.acme.default'', rp_Partition = 0, rp_Offset = 0, rp_Subject = ''acme.BTC.trade'', rp_Data = Some ''{}'',
     rp_Pos = ''1-0''\<rparr>]"

theorem replay_exact_witness:
  "\<exists>N. demo_replayed = take 10 (List.map_filter (replayable demo_consumer demo_replay_env {''acme.BTC.trade''}) (polled demo_replay_env N)) \<and>
     list_all (\<lambda>m. rp_Subject m \<in> {''acme.BTC.trade''}) demo_replayed"
proof -
  have r: "ReplayFromOffsets demo_consumer demo_replay_env [((''prod.acme.default'', 0), 0)] 10 [''acme.BTC.trade''] = Some (demo_replayed, None)"
    by code_simp
  show ?thesis using replay_exact [OF r] by auto
qed

text \<open>C17: A replay returns: however the polls go, once its context has expired the loop ends.\<close>

theorem replay_returns: "\<exists>n. rv_done v n \<Longrightarrow> \<exists>res. ReplayFromOffsets c v positions mx subs = Some res"
proof -
  assume "\<exists>n. rv_done v n"
  then have l: "replay_loop c v mx S 0 p \<noteq> None" for S p using replay_loop_returns [of v 0 _ c mx S p] by auto
  show ?thesis
  proof (cases "\<exists>ends P n. rv_ends v = Some ends \<and> pending_loop ends positions Map.empty 0 = Inr (P, n)")
    case True
    then obtain ends P n where i: "rv_ends v = Some ends" "pending_loop ends positions Map.empty 0 = Inr (P, n)" by blast
    obtain x q where "replay_loop c v mx (set subs) 0 \<lparr>pr_pending = P, pr_pendingCount = n, pr_messages = [], pr_read = 0\<rparr> = Some (x, q)"
      using l by fastforce
    then show ?thesis using i by (simp add: ReplayFromOffsets_def split: poll_exit.split)
  next
    case False
    then show ?thesis by (auto simp: ReplayFromOffsets_def split: option.splits sum.splits)
  qed
qed

theorem replay_returns_witness:
  "\<exists>res. ReplayFromOffsets demo_consumer demo_replay_env [((''prod.acme.default'', 0), 0)] 10 [] = Some res"
proof (rule replay_returns)
  show "\<exists>n. rv_done demo_replay_env n" by (intro exI [of _ 5]) (simp add: demo_replay_env_def)
qed

end
