(* ===== verification/KafkaProducer.thy ===== *)
theory KafkaProducer
  imports KafkaReplay
begin

text \<open>
  The publishing side of the Kafka backend: resolution of a channel to its topics, the produce of the ingress
  record and its egress copies (\<^verbatim>\<open>server/kafka/producer.go\<close>), the fan-out pool (\<^verbatim>\<open>fanout_worker.go\<close>), the
  dead-letter pool (\<^verbatim>\<open>dlq_worker.go\<close>), and the two message backends (\<^verbatim>\<open>backend/kafkabackend\<close>,
  \<^verbatim>\<open>backend/directbackend\<close>). What the broker answers, and whether the circuit breaker lets a call through, are
  arguments; the outcomes the breaker is told are part of the state. Counters are the traces of what they count.
\<close>

section \<open>Resolving the target topics\<close>

record rules_source =
  rs_received :: bool
  rs_snapshot :: "string \<Rightarrow> routing_rule list option"

record produce_plan =
  pl_ingressTopic :: string
  pl_egressTopics :: "string list"

record producer =
  pd_namespace :: string
  pd_rules :: "rules_source option"
  pd_fanout :: bool

definition ExtractTenant :: "string \<Rightarrow> string option" where
  "ExtractTenant channel =
     (let dot = IndexByte channel (CHR ''.'')
      in if dot \<le> 0 then None
         else let tn = take (nat dot) channel in if tn = [] then None else Some tn)"

text \<open>The egress topics of a rule: reserved suffixes, the ingress topic and repetitions are skipped.\<close>

fun egress_targets :: "string \<Rightarrow> string \<Rightarrow> string list \<Rightarrow> string set \<Rightarrow> string list" where
  "egress_targets namespace tn [] seen = []"
| "egress_targets namespace tn (suffix # rest) seen =
     (if suffix = [] then egress_targets namespace tn rest seen
      else if suffix = DefaultTopicSuffix \<or> suffix = DeadLetterTopicSuffix then egress_targets namespace tn rest seen
      else
        let name = BuildTopicName namespace tn suffix
        in if name \<in> seen then egress_targets namespace tn rest seen
           else name # egress_targets namespace tn rest (insert name seen))"

text \<open>The first rule whose pattern matches and that has an ingress topic.\<close>

fun resolve_rules :: "string \<Rightarrow> string \<Rightarrow> string \<Rightarrow> routing_rule list \<Rightarrow> produce_plan option" where
  "resolve_rules namespace tn channel [] = None"
| "resolve_rules namespace tn channel (rule # rules) =
     (case MatchRoutingPattern (RulePattern rule) channel of
        Inl _ \<Rightarrow> resolve_rules namespace tn channel rules
      | Inr matched \<Rightarrow>
          if \<not> matched then resolve_rules namespace tn channel rules
          else if IngressTopic rule = [] then resolve_rules namespace tn channel rules
          else
            let delivery = BuildTopicName namespace tn (IngressTopic rule)
            in Some \<lparr>pl_ingressTopic = delivery,
                     pl_egressTopics = egress_targets namespace tn (EgressTopics rule) {delivery}\<rparr>)"

definition resolveTargets :: "producer \<Rightarrow> string \<Rightarrow> string \<Rightarrow> publish_error + produce_plan" where
  "resolveTargets p channel tn =
     (case pd_rules p of
        None \<Rightarrow> Inl ErrPublishNotRoutable
      | Some src \<Rightarrow>
          if \<not> rs_received src then Inl ErrServiceUnavailable
          else case rs_snapshot src tn of
                 None \<Rightarrow> Inl ErrPublishNotRoutable
               | Some rules \<Rightarrow>
                   if rules = [] then Inl ErrPublishNotRoutable
                   else case resolve_rules (pd_namespace p) tn channel rules of
                          None \<Rightarrow> Inl ErrNoMatchingRoute
                        | Some plan \<Rightarrow> Inr plan)"

section \<open>The dead-letter pool\<close>

datatype produce_error_kind = ProducerClosed | ContextCanceled | UnknownTopic | TopicUnauthorized | OtherProduceError

record produce_error =
  pe_kind :: produce_error_kind
  pe_nonRetriable :: bool
  pe_text :: string

record fanout_job =
  fj_topic :: string
  fj_record :: kafka_record
  fj_tenant :: string

text \<open>
  The two pools: the queues, the jobs workers hold, and what became of the others. \<open>fo_dropped\<close>, \<open>fo_writeFailed\<close>,
  \<open>dq_dropped\<close> and \<open>dq_writeFailed\<close> are the jobs the four counters of the code count.
\<close>

record pools =
  po_namespace :: string
  fo_handoff :: "fanout_job list"
  fo_queueSize :: int
  fo_closed :: bool
  fo_busy :: "fanout_job list"
  fo_written :: "fanout_job list"
  fo_dropped :: "(fanout_job \<times> string) list"
  fo_writeFailed :: "fanout_job list"
  dq_jobs :: "dlq_job list"
  dq_size :: int
  dq_busy :: "dlq_job list"
  dq_written :: "dlq_job list"
  dq_writeFailed :: "dlq_job list"
  dq_dropped :: "dlq_job list"

record dlq_config =
  dl_MaxRetries :: int
  dl_BaseDelay :: int
  dl_MaxDelay :: int

definition dlqQueueDepthPerWorker :: int where "dlqQueueDepthPerWorker = 16"

definition TrySubmit :: "dlq_job \<Rightarrow> pools \<Rightarrow> bool \<times> pools" where
  "TrySubmit job s = (if int (length (dq_jobs s)) < dq_size s then (True, s\<lparr>dq_jobs := dq_jobs s @ [job]\<rparr>) else (False, s))"

text \<open>The delay before the next attempt, in 64 bits: both the shift and the product wrap.\<close>

definition dlq_delay :: "dlq_config \<Rightarrow> int \<Rightarrow> int" where
  "dlq_delay cfg attempt = min (i64 (dl_BaseDelay cfg * i64 (2 ^ nat attempt))) (dl_MaxDelay cfg)"

datatype dlq_outcome = DlqWritten | DlqExhausted | DlqAborted | DlqNotTried

text \<open>
  The attempts of one job with the waits between them: \<open>ok a\<close> tells whether attempt \<open>a\<close> is written,
  \<open>ctxDone a\<close> whether the context ends the wait after it.
\<close>

function dlq_attempts :: "dlq_config \<Rightarrow> (int \<Rightarrow> bool) \<Rightarrow> (int \<Rightarrow> bool) \<Rightarrow> int \<Rightarrow> int list \<Rightarrow> dlq_outcome \<times> int list" where
  "dlq_attempts cfg ok ctxDone attempt waits =
     (if attempt > dl_MaxRetries cfg then (DlqNotTried, waits)
      else if ok attempt then (DlqWritten, waits)
      else if attempt = dl_MaxRetries cfg then (DlqExhausted, waits)
      else if ctxDone attempt then (DlqAborted, waits)
      else dlq_attempts cfg ok ctxDone (attempt + 1) (waits @ [dlq_delay cfg attempt]))"
  by pat_completeness auto
termination
  by (relation "measure (\<lambda>(cfg, _, _, attempt, _). nat (dl_MaxRetries cfg + 1 - attempt))") auto

text \<open>A worker takes a job, and finishes it with the outcome of its attempts.\<close>

definition dlq_take :: "pools \<Rightarrow> pools option" where
  "dlq_take s = (case dq_jobs s of [] \<Rightarrow> None | job # rest \<Rightarrow> Some (s\<lparr>dq_jobs := rest, dq_busy := dq_busy s @ [job]\<rparr>))"

definition process_dlq :: "dlq_job \<Rightarrow> dlq_outcome \<Rightarrow> pools \<Rightarrow> pools" where
  "process_dlq job outcome s =
     (let s = s\<lparr>dq_busy := remove1 job (dq_busy s)\<rparr>
      in case outcome of
           DlqWritten \<Rightarrow> s\<lparr>dq_written := dq_written s @ [job]\<rparr>
         | DlqExhausted \<Rightarrow> s\<lparr>dq_writeFailed := dq_writeFailed s @ [job]\<rparr>
         | DlqAborted \<Rightarrow> s\<lparr>dq_writeFailed := dq_writeFailed s @ [job]\<rparr>
         | DlqNotTried \<Rightarrow> s)"

definition drainAbandoned :: "pools \<Rightarrow> pools" where
  "drainAbandoned s = s\<lparr>dq_jobs := [], dq_writeFailed := dq_writeFailed s @ dq_jobs s\<rparr>"

section \<open>The fan-out pool\<close>

definition HeaderFailedTopics :: string where "HeaderFailedTopics = ''x-sukko-failed-topics''"
definition HeaderFailureKind :: string where "HeaderFailureKind = ''x-sukko-failure-kind''"
definition HeaderFailureCause :: string where "HeaderFailureCause = ''x-sukko-failure-cause''"
definition FailureKindRetriesExhausted :: string where "FailureKindRetriesExhausted = ''retries_exhausted''"
definition FailureKindNonRetryable :: string where "FailureKindNonRetryable = ''non_retryable''"
definition FailureKindNotAttempted :: string where "FailureKindNotAttempted = ''not_attempted''"
definition ReasonFanoutTopicWriteFailed :: string where "ReasonFanoutTopicWriteFailed = ''fanout_topic_write_failed''"
definition FanoutDropReasonQueueFull :: string where "FanoutDropReasonQueueFull = ''queue_full''"
definition FanoutDropReasonShutdown :: string where "FanoutDropReasonShutdown = ''shutdown_undrained''"
definition FanoutDropReasonPostShutdown :: string where "FanoutDropReasonPostShutdown = ''post_shutdown''"
definition maxFailureCauseLen :: nat where "maxFailureCauseLen = 256"

definition egressFailureKind :: "produce_error \<Rightarrow> string" where
  "egressFailureKind err = (if pe_nonRetriable err then FailureKindNonRetryable else FailureKindRetriesExhausted)"

definition dead_letter_record :: "string \<Rightarrow> fanout_job \<Rightarrow> string \<Rightarrow> produce_error option \<Rightarrow> kafka_record" where
  "dead_letter_record namespace job kind cause =
     (let headers = rec_Headers (fj_record job) @
            [\<lparr>hdr_Key = HeaderReason, hdr_Value = Some ReasonFanoutTopicWriteFailed\<rparr>,
             \<lparr>hdr_Key = HeaderFailedTopics, hdr_Value = Some (fj_topic job)\<rparr>,
             \<lparr>hdr_Key = HeaderFailureKind, hdr_Value = Some kind\<rparr>];
          headers = (case cause of
                       None \<Rightarrow> headers
                     | Some e \<Rightarrow> headers @ [\<lparr>hdr_Key = HeaderFailureCause,
                          hdr_Value = Some (if length (pe_text e) > maxFailureCauseLen then take maxFailureCauseLen (pe_text e) else pe_text e)\<rparr>])
      in \<lparr>rec_Topic = BuildTopicName namespace (fj_tenant job) DeadLetterTopicSuffix, rec_Partition = 0, rec_Offset = 0,
          rec_Key = rec_Key (fj_record job), rec_Value = rec_Value (fj_record job), rec_Headers = headers\<rparr>)"

text \<open>\<open>NewProducer\<close> builds the two pools together, so the dead-letter pool is always there.\<close>

definition deadLetter :: "fanout_job \<Rightarrow> string \<Rightarrow> produce_error option \<Rightarrow> pools \<Rightarrow> pools" where
  "deadLetter job kind cause s =
     (let j = \<lparr>job_record = dead_letter_record (po_namespace s) job kind cause, job_tenant = fj_tenant job,
               job_reason = ReasonFanoutTopicWriteFailed\<rparr>
      in case TrySubmit j s of
           (True, s) \<Rightarrow> s
         | (False, s) \<Rightarrow> s\<lparr>dq_dropped := dq_dropped s @ [j]\<rparr>)"

definition Submit :: "fanout_job \<Rightarrow> pools \<Rightarrow> pools" where
  "Submit job s =
     (if fo_closed s then s\<lparr>fo_dropped := fo_dropped s @ [(job, FanoutDropReasonPostShutdown)]\<rparr>
      else if int (length (fo_handoff s)) < fo_queueSize s then s\<lparr>fo_handoff := fo_handoff s @ [job]\<rparr>
      else deadLetter job FailureKindNotAttempted None (s\<lparr>fo_dropped := fo_dropped s @ [(job, FanoutDropReasonQueueFull)]\<rparr>))"

definition fanout_take :: "pools \<Rightarrow> pools option" where
  "fanout_take s = (case fo_handoff s of [] \<Rightarrow> None | job # rest \<Rightarrow> Some (s\<lparr>fo_handoff := rest, fo_busy := fo_busy s @ [job]\<rparr>))"

text \<open>The copy a worker writes, and what it does with the broker's answer.\<close>

definition egress_record :: "fanout_job \<Rightarrow> kafka_record" where
  "egress_record job = \<lparr>rec_Topic = fj_topic job, rec_Partition = 0, rec_Offset = 0, rec_Key = rec_Key (fj_record job),
     rec_Value = rec_Value (fj_record job), rec_Headers = rec_Headers (fj_record job)\<rparr>"

definition process_fanout :: "fanout_job \<Rightarrow> produce_error option \<Rightarrow> pools \<Rightarrow> pools" where
  "process_fanout job err s =
     (let s = s\<lparr>fo_busy := remove1 job (fo_busy s)\<rparr>
      in case err of
           None \<Rightarrow> s\<lparr>fo_written := fo_written s @ [job]\<rparr>
         | Some e \<Rightarrow> deadLetter job (egressFailureKind e) (Some e) (s\<lparr>fo_writeFailed := fo_writeFailed s @ [job]\<rparr>))"

text \<open>\<open>Shutdown\<close> closes the queue and waits; when the wait times out the rest of the queue is counted as dropped.\<close>

definition Shutdown_close :: "pools \<Rightarrow> pools" where
  "Shutdown_close s = s\<lparr>fo_closed := True\<rparr>"

definition Shutdown_undrained :: "pools \<Rightarrow> pools \<times> nat" where
  "Shutdown_undrained s =
     (s\<lparr>fo_handoff := [], fo_dropped := fo_dropped s @ map (\<lambda>job. (job, FanoutDropReasonShutdown)) (fo_handoff s)\<rparr>, length (fo_handoff s))"

section \<open>Publishing\<close>

record publish_env =
  pv_breakerOpen :: bool
  pv_produce :: "kafka_record \<Rightarrow> produce_error + int \<times> int"
  pv_nowMillis :: int

text \<open>\<open>pb_breaker\<close> are the outcomes reported to the circuit breaker, \<open>pb_ingress\<close> the records acknowledged by the broker.\<close>

record producer_state =
  pb_closed :: bool
  pb_published :: nat
  pb_failed :: nat
  pb_breaker :: "bool list"
  pb_ingress :: "kafka_record list"
  pb_pools :: pools

definition HeaderClientID :: string where "HeaderClientID = ''client_id''"
definition HeaderSource :: string where "HeaderSource = ''source''"
definition HeaderTimestamp :: string where "HeaderTimestamp = ''timestamp''"
definition SourceWSClient :: string where "SourceWSClient = ''ws-client''"

definition isBreakerNeutralErr :: "produce_error \<Rightarrow> bool" where
  "isBreakerNeutralErr err \<longleftrightarrow> pe_kind err \<in> {ProducerClosed, ContextCanceled, UnknownTopic, TopicUnauthorized}"

definition base_record :: "publish_env \<Rightarrow> int \<Rightarrow> string \<Rightarrow> string option \<Rightarrow> kafka_record" where
  "base_record v clientID channel data = \<lparr>rec_Topic = [], rec_Partition = 0, rec_Offset = 0, rec_Key = Some channel, rec_Value = data,
     rec_Headers = [\<lparr>hdr_Key = HeaderClientID, hdr_Value = Some (FormatInt clientID)\<rparr>,
       \<lparr>hdr_Key = HeaderSource, hdr_Value = Some SourceWSClient\<rparr>,
       \<lparr>hdr_Key = HeaderTimestamp, hdr_Value = Some (FormatInt (pv_nowMillis v))\<rparr>,
       \<lparr>hdr_Key = HeaderChannel, hdr_Value = Some channel\<rparr>]\<rparr>"

definition doProduce ::
  "publish_env \<Rightarrow> int \<Rightarrow> string \<Rightarrow> string \<Rightarrow> produce_plan \<Rightarrow> string option \<Rightarrow> producer_state \<Rightarrow> (produce_error + string) \<times> producer_state" where
  "doProduce v clientID channel tn plan data s =
     (let baseRecord = base_record v clientID channel data;
          rec = baseRecord\<lparr>rec_Topic := pl_ingressTopic plan\<rparr>
      in case pv_produce v rec of
           Inl e \<Rightarrow> (Inl e, s\<lparr>pb_failed := pb_failed s + 1\<rparr>)
         | Inr (part, offset) \<Rightarrow>
             let rec = rec\<lparr>rec_Partition := part, rec_Offset := offset\<rparr>;
                 s = s\<lparr>pb_published := pb_published s + 1, pb_ingress := pb_ingress s @ [rec]\<rparr>;
                 jobs = map (\<lambda>topic. \<lparr>fj_topic = topic, fj_record = baseRecord, fj_tenant = tn\<rparr>) (pl_egressTopics plan)
             in (Inr (MessageID (rec_Topic rec) part offset), s\<lparr>pb_pools := fold Submit jobs (pb_pools s)\<rparr>))"

text \<open>The breaker either refuses the call or runs it and is told whether it succeeded.\<close>

definition Publish_producer ::
  "producer \<Rightarrow> publish_env \<Rightarrow> int \<Rightarrow> string \<Rightarrow> string option \<Rightarrow> producer_state \<Rightarrow> (publish_error + string) \<times> producer_state" where
  "Publish_producer p v clientID channel data s =
     (if pb_closed s then (Inl ErrOtherPublish, s)
      else case ExtractTenant channel of
             None \<Rightarrow> (Inl ErrInvalidChannel, s)
           | Some tn \<Rightarrow>
               (case resolveTargets p channel tn of
                  Inl e \<Rightarrow> (Inl e, s)
                | Inr plan \<Rightarrow>
                    if pl_egressTopics plan \<noteq> [] \<and> \<not> pd_fanout p
                    then (Inl ErrOtherPublish, s\<lparr>pb_failed := pb_failed s + 1\<rparr>)
                    else if pv_breakerOpen v then (Inl ErrServiceUnavailable, s)
                    else case doProduce v clientID channel tn plan data s of
                           (Inl e, s) \<Rightarrow> (Inl ErrOtherPublish, s\<lparr>pb_breaker := pb_breaker s @ [isBreakerNeutralErr e]\<rparr>)
                         | (Inr mid, s) \<Rightarrow> (Inr mid, s\<lparr>pb_breaker := pb_breaker s @ [True]\<rparr>)))"

section \<open>The backends\<close>

record kafka_backend =
  kb_pool :: bool
  kb_producer :: "producer option"
  kb_rules :: "rules_source option"
  kb_namespace :: string

definition KafkaBackend_Publish ::
  "kafka_backend \<Rightarrow> publish_env \<Rightarrow> int \<Rightarrow> string \<Rightarrow> string option \<Rightarrow> producer_state \<Rightarrow> (publish_error + string) \<times> producer_state" where
  "KafkaBackend_Publish kb v clientID channel data s =
     (if channel = [] then (Inl ErrOtherPublish, s)
      else case kb_producer kb of
             None \<Rightarrow> (Inl ErrOtherPublish, s)
           | Some p \<Rightarrow> Publish_producer p v clientID channel data s)"

fun channel_topic_rules :: "string \<Rightarrow> string \<Rightarrow> string \<Rightarrow> routing_rule list \<Rightarrow> string option" where
  "channel_topic_rules namespace tn channel [] = None"
| "channel_topic_rules namespace tn channel (rule # rules) =
     (case MatchRoutingPattern (RulePattern rule) channel of
        Inl _ \<Rightarrow> channel_topic_rules namespace tn channel rules
      | Inr matched \<Rightarrow>
          if \<not> matched then channel_topic_rules namespace tn channel rules
          else if IngressTopic rule = [] then channel_topic_rules namespace tn channel rules
          else Some (BuildTopicName namespace tn (IngressTopic rule)))"

definition KafkaBackend_ChannelTopic :: "kafka_backend \<Rightarrow> string \<Rightarrow> string option" where
  "KafkaBackend_ChannelTopic kb channel =
     (case kb_rules kb of
        None \<Rightarrow> None
      | Some src \<Rightarrow>
          if \<not> kb_pool kb \<or> \<not> rs_received src then None
          else case ExtractTenant channel of
                 None \<Rightarrow> None
               | Some tn \<Rightarrow>
                   (case (case rs_snapshot src tn of None \<Rightarrow> None | Some rules \<Rightarrow> channel_topic_rules (kb_namespace kb) tn channel rules) of
                      Some topic \<Rightarrow> Some topic
                    | None \<Rightarrow> Some (BuildTopicName (kb_namespace kb) tn DefaultTopicSuffix)))"

text \<open>Ready when the topic registry, if there is one, has its snapshot.\<close>

definition KafkaBackend_Ready :: "bool option \<Rightarrow> bool" where
  "KafkaBackend_Ready registrySnapshot = (case registrySnapshot of None \<Rightarrow> True | Some received \<Rightarrow> received)"

text \<open>The direct backend publishes to the bus; \<open>mid\<close> is the freshly minted identity.\<close>

definition DirectBackend_message :: "string \<Rightarrow> string \<Rightarrow> string \<Rightarrow> string \<Rightarrow> bus_message" where
  "DirectBackend_message mid tenantID channel data =
     \<lparr>Subject = channel, Payload = data, MsgTenantID = tenantID, MsgPos = [], MsgMid = mid, MsgChannel = []\<rparr>"

definition DirectBackend_Publish ::
  "int \<Rightarrow> publish_reply \<Rightarrow> string \<Rightarrow> string \<Rightarrow> string \<Rightarrow> string \<Rightarrow> bus \<Rightarrow> (publish_error + string) \<times> bus" where
  "DirectBackend_Publish now reply mid tenantID channel data b =
     (if channel = [] then (Inl ErrOtherPublish, b)
      else if tenantID = [] then (Inl ErrOtherPublish, b)
      else case Publish now (DirectBackend_message mid tenantID channel data) reply b of
             (b, None) \<Rightarrow> (Inr mid, b)
           | (b, Some ErrPublishUnavailable) \<Rightarrow> (Inl ErrBusUnavailable, b)
           | (b, Some _) \<Rightarrow> (Inl ErrOtherPublish, b))"

end
