(* ===== verification/ConsumerPool.thy ===== *)
theory ConsumerPool
  imports KafkaProducer "HOL-Library.AList"
begin

text \<open>
  The pool of Kafka consumers (\<^verbatim>\<open>server/orchestration/multitenant_pool.go\<close>): one consumer for all shared tenants,
  one for each dedicated tenant, kept in step with the topic registry by refreshes. The order in which Go ranges over
  a map has no effect on what is modelled, so maps are lists of their keys. A refresh holds the pool's lock but
  releases the lock of the topic sets between its sections; what the polling goroutines of the consumers report in
  these gaps is an argument.
\<close>

section \<open>The pool\<close>

definition ConsumerTypeKindShared :: string where "ConsumerTypeKindShared = ''shared''"
definition ConsumerTypeKindDedicated :: string where "ConsumerTypeKindDedicated = ''dedicated''"

record pool_consumer =
  pk_ConsumerGroup :: string
  pk_ConsumerType :: string
  pk_Topics :: "string list"
  pk_state :: kafka_state

text \<open>
  \<open>mp_autoRemoved\<close> is the log of \<open>handleBrokerDeletedTopic\<close>, with the branch it took; \<open>mp_stopped\<close> the consumers
  that were stopped. \<open>mp_topicTenants\<close> is \<open>None\<close> before the first refresh.
\<close>

record consumer_pool =
  mp_Environment :: string
  mp_sharedConsumer :: "pool_consumer option"
  mp_sharedTopics :: "string list"
  mp_blockedSharedTopics :: "string list"
  mp_dedicatedConsumers :: "(string \<times> pool_consumer) list"
  mp_dedicatedTopics :: "(string \<times> string) list"
  mp_topicTenants :: "(string \<rightharpoonup> string) option"
  mp_refreshPending :: bool
  mp_cancelled :: bool
  messagesRouted :: nat
  messagesDropped :: nat
  topicsSubscribed :: nat
  dedicatedCount :: nat
  refreshCount :: nat
  refreshErrors :: nat
  mp_autoRemoved :: "(string \<times> string \<times> bool) list"
  mp_stopped :: "string list"

definition NewMultiTenantConsumerPool :: "nat \<Rightarrow> string \<Rightarrow> bool \<Rightarrow> bool \<Rightarrow> bool \<Rightarrow> string \<Rightarrow> string + consumer_pool" where
  "NewMultiTenantConsumerPool brokers namespace registry bus guard environment =
     (if brokers = 0 then Inl ''at least one broker is required''
      else if namespace = [] then Inl ''namespace is required''
      else if \<not> registry then Inl ''tenant registry is required''
      else if \<not> bus then Inl ''broadcast bus is required''
      else if \<not> guard then Inl ''resource guard is required''
      else Inr \<lparr>mp_Environment = (if environment = [] then namespace else environment), mp_sharedConsumer = None, mp_sharedTopics = [],
        mp_blockedSharedTopics = [], mp_dedicatedConsumers = [], mp_dedicatedTopics = [], mp_topicTenants = None,
        mp_refreshPending = False, mp_cancelled = False, messagesRouted = 0, messagesDropped = 0, topicsSubscribed = 0,
        dedicatedCount = 0, refreshCount = 0, refreshErrors = 0, mp_autoRemoved = [], mp_stopped = []\<rparr>)"

text \<open>
  What a consumer fetches: the topics it was created with and those added, less the paused ones. A pause persists
  until the consumer restarts; adding a topic does not end it.
\<close>

definition fetches :: "pool_consumer \<Rightarrow> string \<Rightarrow> bool" where
  "fetches c topic \<longleftrightarrow> topic \<in> set (pk_Topics c @ kf_added (pk_state c)) \<and> topic \<notin> set (kf_paused (pk_state c))"

section \<open>Topics deleted at the broker\<close>

definition handleBrokerDeletedTopic :: "string \<Rightarrow> string \<Rightarrow> consumer_pool \<Rightarrow> consumer_pool" where
  "handleBrokerDeletedTopic consumerType topic p =
     (let p = p\<lparr>mp_autoRemoved := mp_autoRemoved p @ [(topic, consumerType, topic \<in> set (mp_sharedTopics p))]\<rparr>
      in if topic \<in> set (mp_sharedTopics p)
         then p\<lparr>mp_sharedTopics := removeAll topic (mp_sharedTopics p),
                mp_blockedSharedTopics := List.insert topic (mp_blockedSharedTopics p)\<rparr>
         else p\<lparr>mp_dedicatedTopics := filter (\<lambda>e. fst e \<noteq> topic) (mp_dedicatedTopics p)\<rparr>)"

text \<open>The errors of a consumer's fetch are handled by its own goroutine, with the pool's callback.\<close>

definition consumer_errors :: "pool_consumer \<Rightarrow> fetch_error list \<Rightarrow> consumer_pool \<Rightarrow> pool_consumer \<times> consumer_pool" where
  "consumer_errors c errs p =
     (case handleFetchErrors (handleBrokerDeletedTopic (pk_ConsumerType c)) errs (pk_state c) p of
        (_, k, p) \<Rightarrow> (c\<lparr>pk_state := k\<rparr>, p))"

text \<open>Who reports: the shared consumer, the consumer of a tenant, or a dedicated one that the pool no longer holds.\<close>

datatype reporter = SharedReports | TenantReports string | DetachedReports

fun report :: "reporter \<times> fetch_error list \<Rightarrow> consumer_pool \<Rightarrow> consumer_pool" where
  "report (SharedReports, errs) p =
     (case mp_sharedConsumer p of
        None \<Rightarrow> p
      | Some c \<Rightarrow> case consumer_errors c errs p of (c, p) \<Rightarrow> p\<lparr>mp_sharedConsumer := Some c\<rparr>)"
| "report (TenantReports tn, errs) p =
     (case map_of (mp_dedicatedConsumers p) tn of
        None \<Rightarrow> p
      | Some c \<Rightarrow> case consumer_errors c errs p of (c, p) \<Rightarrow> p\<lparr>mp_dedicatedConsumers := AList.update tn c (mp_dedicatedConsumers p)\<rparr>)"
| "report (DetachedReports, errs) p =
     snd (consumer_errors \<lparr>pk_ConsumerGroup = [], pk_ConsumerType = ConsumerTypeKindDedicated, pk_Topics = [], pk_state = init_kafka\<rparr> errs p)"

section \<open>The shared consumer\<close>

text \<open>
  The outcome of a refresh: what the three reads of the registry return, which consumers can be created and started,
  what the consumers report in the gap after each section, and what a new consumer reports before the pool
  records its topics.
\<close>

record refresh_env =
  re_shared :: "string list option"
  re_dedicated :: "(string \<times> string list) list option"
  re_tenants :: "(string \<rightharpoonup> string) option"
  re_created :: "string \<Rightarrow> bool"
  re_started :: "string \<Rightarrow> bool"
  re_newErrs :: "string \<Rightarrow> fetch_error list"
  re_gap :: "nat \<Rightarrow> (reporter \<times> fetch_error list) list"

definition gap :: "refresh_env \<Rightarrow> nat \<Rightarrow> consumer_pool \<Rightarrow> consumer_pool" where
  "gap v i p = fold report (re_gap v i) p"

definition new_consumer :: "string \<Rightarrow> string \<Rightarrow> string list \<Rightarrow> pool_consumer" where
  "new_consumer cgroup ctype topics = \<lparr>pk_ConsumerGroup = cgroup, pk_ConsumerType = ctype, pk_Topics = topics, pk_state = init_kafka\<rparr>"

definition shared_group :: "consumer_pool \<Rightarrow> string" where
  "shared_group p = mp_Environment p @ ''-shared-consumer''"

text \<open>The first section drops blocks of topics that are gone and computes the wanted topics.\<close>

definition shared_snapshot :: "string list \<Rightarrow> consumer_pool \<Rightarrow> consumer_pool \<times> string list" where
  "shared_snapshot topics p =
     (let p = p\<lparr>mp_blockedSharedTopics := filter (\<lambda>t. t \<in> set topics) (mp_blockedSharedTopics p)\<rparr>
      in (p, filter (\<lambda>t. t \<notin> set (mp_blockedSharedTopics p)) (remdups topics)))"

definition shared_create :: "refresh_env \<Rightarrow> string list \<Rightarrow> consumer_pool \<Rightarrow> bool \<times> consumer_pool" where
  "shared_create v newTopics p =
     (if \<not> re_created v (shared_group p) then (False, p)
      else if \<not> re_started v (shared_group p) then (False, p)
      else case consumer_errors (new_consumer (shared_group p) ConsumerTypeKindShared newTopics) (re_newErrs v (shared_group p)) p of
             (c, p) \<Rightarrow> (True, (gap v 2 (p\<lparr>mp_sharedConsumer := Some c\<rparr>))\<lparr>mp_sharedTopics := newTopics\<rparr>))"

definition with_shared :: "(kafka_state \<Rightarrow> kafka_state) \<Rightarrow> consumer_pool \<Rightarrow> consumer_pool" where
  "with_shared f p = p\<lparr>mp_sharedConsumer := map_option (\<lambda>c. c\<lparr>pk_state := f (pk_state c)\<rparr>) (mp_sharedConsumer p)\<rparr>"

definition shared_commit :: "string list \<Rightarrow> consumer_pool \<Rightarrow> consumer_pool" where
  "shared_commit toAdd p =
     p\<lparr>mp_sharedTopics := mp_sharedTopics p @ filter (\<lambda>t. t \<notin> set (mp_blockedSharedTopics p) \<and> t \<notin> set (mp_sharedTopics p)) toAdd\<rparr>"

definition shared_add :: "refresh_env \<Rightarrow> string list \<Rightarrow> consumer_pool \<Rightarrow> consumer_pool" where
  "shared_add v toAdd p =
     (if toAdd = [] then p else shared_commit toAdd (gap v 2 (with_shared (AddConsumeTopics toAdd) p)))"

definition shared_remove :: "refresh_env \<Rightarrow> string list \<Rightarrow> consumer_pool \<Rightarrow> consumer_pool" where
  "shared_remove v toRemove p =
     (if toRemove = [] then p
      else let p = gap v 4 (with_shared (PauseFetchTopics toRemove) p)
           in p\<lparr>mp_sharedTopics := filter (\<lambda>t. t \<notin> set toRemove) (mp_sharedTopics p)\<rparr>)"

definition updateSharedConsumer :: "refresh_env \<Rightarrow> string list \<Rightarrow> consumer_pool \<Rightarrow> bool \<times> consumer_pool" where
  "updateSharedConsumer v topics p =
     (case shared_snapshot topics p of
        (p, newTopics) \<Rightarrow>
          let currentTopics = mp_sharedTopics p;
              toAdd = filter (\<lambda>t. t \<notin> set currentTopics) newTopics;
              toRemove = filter (\<lambda>t. t \<notin> set newTopics) currentTopics;
              p = gap v 1 p
          in if mp_sharedConsumer p = None \<and> newTopics = [] \<and> topics \<noteq> [] then (True, p)
             else if mp_sharedConsumer p = None \<and> newTopics \<noteq> [] then shared_create v newTopics p
             else (True, shared_remove v toRemove (gap v 3 (shared_add v toAdd p))))"

section \<open>The dedicated consumers\<close>

definition dedicated_group :: "consumer_pool \<Rightarrow> string \<Rightarrow> string" where
  "dedicated_group p tn = mp_Environment p @ ''-'' @ tn @ ''-consumer''"

text \<open>Consumers of tenants that are gone leave the pool and are stopped after the locks are released.\<close>

definition drop_dedicated :: "string list \<Rightarrow> consumer_pool \<Rightarrow> consumer_pool \<times> (string \<times> pool_consumer) list" where
  "drop_dedicated activeTenants p =
     (p\<lparr>mp_dedicatedConsumers := filter (\<lambda>e. fst e \<in> set activeTenants) (mp_dedicatedConsumers p),
        mp_dedicatedTopics := filter (\<lambda>e. snd e \<notin> fst ` set (filter (\<lambda>e. fst e \<notin> set activeTenants) (mp_dedicatedConsumers p))) (mp_dedicatedTopics p)\<rparr>,
      filter (\<lambda>e. fst e \<notin> set activeTenants) (mp_dedicatedConsumers p))"

fun create_dedicated :: "refresh_env \<Rightarrow> nat \<Rightarrow> (string \<times> string list) list \<Rightarrow> consumer_pool \<Rightarrow> consumer_pool" where
  "create_dedicated v i [] p = p"
| "create_dedicated v i ((tn, topics) # tenants) p =
     (if map_of (mp_dedicatedConsumers p) tn \<noteq> None then create_dedicated v i tenants p
      else if topics = [] then create_dedicated v i tenants p
      else if \<not> re_created v (dedicated_group p tn) then create_dedicated v i tenants p
      else if \<not> re_started v (dedicated_group p tn) then create_dedicated v i tenants p
      else case consumer_errors (new_consumer (dedicated_group p tn) ConsumerTypeKindDedicated topics) (re_newErrs v (dedicated_group p tn)) p of
             (c, p) \<Rightarrow>
               let p = gap v i (p\<lparr>mp_dedicatedConsumers := AList.update tn c (mp_dedicatedConsumers p)\<rparr>)
               in create_dedicated v (i + 1) tenants
                    (p\<lparr>mp_dedicatedTopics := fold (\<lambda>t. AList.update t tn) topics (mp_dedicatedTopics p)\<rparr>))"

definition updateDedicatedConsumers ::
  "refresh_env \<Rightarrow> (string \<times> string list) list \<Rightarrow> consumer_pool \<Rightarrow> consumer_pool \<times> (string \<times> pool_consumer) list" where
  "updateDedicatedConsumers v tenants p =
     (case drop_dedicated (map fst tenants) (gap v 5 p) of
        (p, toStop) \<Rightarrow> (create_dedicated v 6 tenants p, toStop))"

section \<open>Refreshing\<close>

datatype refresh_error = SharedTopicsFailed | DedicatedTenantsFailed | TopicTenantsFailed | SharedConsumerFailed

definition refreshTopics :: "refresh_env \<Rightarrow> consumer_pool \<Rightarrow> refresh_error option \<times> consumer_pool" where
  "refreshTopics v p =
     (let p = p\<lparr>refreshCount := refreshCount p + 1\<rparr>
      in case re_shared v of
           None \<Rightarrow> (Some SharedTopicsFailed, p)
         | Some topics \<Rightarrow>
             (case re_dedicated v of
                None \<Rightarrow> (Some DedicatedTenantsFailed, p)
              | Some tenants \<Rightarrow>
                  (case re_tenants v of
                     None \<Rightarrow> (Some TopicTenantsFailed, p)
                   | Some owners \<Rightarrow>
                       (case updateSharedConsumer v topics (gap v 0 (p\<lparr>mp_topicTenants := Some owners\<rparr>)) of
                          (False, p) \<Rightarrow> (Some SharedConsumerFailed, p)
                        | (True, p) \<Rightarrow>
                            (case updateDedicatedConsumers v tenants p of
                               (p, toStop) \<Rightarrow>
                                 (None, p\<lparr>mp_stopped := mp_stopped p @ map (pk_ConsumerGroup \<circ> snd) toStop,
                                          topicsSubscribed := length (mp_sharedTopics p),
                                          dedicatedCount := length (mp_dedicatedConsumers p)\<rparr>))))))"

definition RefreshTopics :: "consumer_pool \<Rightarrow> consumer_pool" where
  "RefreshTopics p = p\<lparr>mp_refreshPending := True\<rparr>"

text \<open>One turn of the loop, on the ticker or on the signal, which it takes before it refreshes.\<close>

definition refreshLoop_turn :: "bool \<Rightarrow> refresh_env \<Rightarrow> consumer_pool \<Rightarrow> consumer_pool option" where
  "refreshLoop_turn tick v p =
     (if mp_cancelled p \<or> \<not> tick \<and> \<not> mp_refreshPending p then None
      else case refreshTopics v (if tick then p else p\<lparr>mp_refreshPending := False\<rparr>) of
             (None, p) \<Rightarrow> Some p
           | (Some e, p) \<Rightarrow> Some (p\<lparr>refreshErrors := refreshErrors p + 1\<rparr>))"

definition Stop_pool :: "consumer_pool \<Rightarrow> consumer_pool" where
  "Stop_pool p = p\<lparr>mp_cancelled := True, mp_stopped := mp_stopped p @
     (case mp_sharedConsumer p of None \<Rightarrow> [] | Some c \<Rightarrow> [pk_ConsumerGroup c]) @ map (pk_ConsumerGroup \<circ> snd) (mp_dedicatedConsumers p)\<rparr>"

section \<open>Routing\<close>

definition resolveTenant :: "consumer_pool \<Rightarrow> string \<Rightarrow> string option" where
  "resolveTenant p topic = (case mp_topicTenants p of None \<Rightarrow> None | Some m \<Rightarrow> m topic)"

definition route_message :: "string option \<Rightarrow> string \<Rightarrow> string \<Rightarrow> string \<Rightarrow> int \<Rightarrow> int \<Rightarrow> bus_message" where
  "route_message owner subject message topicName part offset =
     (let tenantID = (case owner of None \<Rightarrow> [] | Some tn \<Rightarrow> tn)
      in \<lparr>Subject = subject, Payload = message, MsgTenantID = tenantID, MsgPos = EncodePos part offset,
          MsgMid = MessageID topicName part offset, MsgChannel = TrimPrefix subject (tenantID @ ''.'')\<rparr>)"

text \<open>The result tells whether the consumer may go on: only an unavailable bus is an error.\<close>

definition routeMessage ::
  "int \<Rightarrow> publish_reply \<Rightarrow> string \<Rightarrow> string \<Rightarrow> string \<Rightarrow> int \<Rightarrow> int \<Rightarrow> consumer_pool \<Rightarrow> bus \<Rightarrow> bool \<times> consumer_pool \<times> bus" where
  "routeMessage now reply subject message topicName part offset p b =
     (case Publish now (route_message (resolveTenant p topicName) subject message topicName part offset) reply b of
        (b, Some ErrPublishUnavailable) \<Rightarrow> (False, p, b)
      | (b, Some _) \<Rightarrow> (True, p\<lparr>messagesDropped := messagesDropped p + 1\<rparr>, b)
      | (b, None) \<Rightarrow> (True, p\<lparr>messagesRouted := messagesRouted p + 1\<rparr>, b))"

end
