(* ===== verification/HistoryWriter.thy ===== *)
theory HistoryWriter
  imports ConsumerPool Pump ServerHandlers
begin

text \<open>
  The writer of the message history (\<^verbatim>\<open>server/history/writer.go\<close>): every pod relays the messages of the bus into a
  work queue, the pod that holds the writer lock stores them in one Valkey stream for each channel, the others drop
  them. The replies of Valkey are arguments; the lock scripts of \<^verbatim>\<open>history/constants.go\<close> and \<^verbatim>\<open>SET NX PX\<close> act on a
  lock with an owner and an expiry. Counters are the traces of what they count.
\<close>

section \<open>The writer\<close>

record writer_config =
  hc_env :: string
  hc_PodID :: string
  hc_WriterBuffer :: nat
  hc_PipelineBatch :: nat
  hc_BufferDepth :: int
  hc_TTLSeconds :: int
  hc_LockTTLMs :: int
  hc_MaxConsecutiveLockFailures :: int
  hc_RestartInitialBackoff :: int
  hc_RestartMaxBackoff :: int

record history_writer =
  isActiveWriter :: bool
  hw_workChan :: "bus_message list"
  hw_notify :: bool
  hw_lockFailures :: int
  hw_droppedFull :: "bus_message list"
  hw_droppedPassive :: "bus_message list"
  hw_droppedEmptyMeta :: "bus_message list"
  hw_failed :: "bus_message list"
  hw_stored :: "bus_message list"
  hw_expireFailures :: nat
  hw_lockFailuresTotal :: nat

definition new_writer :: history_writer where
  "new_writer = \<lparr>isActiveWriter = False, hw_workChan = [], hw_notify = False, hw_lockFailures = 0, hw_droppedFull = [],
     hw_droppedPassive = [], hw_droppedEmptyMeta = [], hw_failed = [], hw_stored = [], hw_expireFailures = 0, hw_lockFailuresTotal = 0\<rparr>"

text \<open>The relay hands a message over without blocking and signals the main loop.\<close>

definition relay :: "writer_config \<Rightarrow> bus_message \<Rightarrow> history_writer \<Rightarrow> history_writer" where
  "relay cfg msg h =
     (if length (hw_workChan h) < hc_WriterBuffer cfg then h\<lparr>hw_workChan := hw_workChan h @ [msg], hw_notify := True\<rparr>
      else h\<lparr>hw_droppedFull := hw_droppedFull h @ [msg]\<rparr>)"

section \<open>Storing a batch\<close>

datatype history_command = Xadd string int "(string \<times> string) list" | Expire string int

definition storable :: "bus_message \<Rightarrow> bool" where
  "storable msg \<longleftrightarrow> \<not> (MsgTenantID msg = [] \<or> Subject msg = [] \<or> MsgChannel msg = [])"

definition store_commands :: "writer_config \<Rightarrow> bus_message \<Rightarrow> history_command list" where
  "store_commands cfg msg =
     (let streamKey = StreamKey (hc_env cfg) (MsgTenantID msg) (MsgChannel msg);
          coordVal = (if MsgPos msg \<noteq> [] then MsgPos msg else HistoryCoordAuto);
          fields = [(''payload'', Payload msg), (''tenant_id'', MsgTenantID msg), (''channel'', MsgChannel msg), (''subject'', Subject msg), (''coord'', coordVal)]
      in [Xadd streamKey (hc_BufferDepth cfg) (if MsgMid msg \<noteq> [] then fields @ [(''mid'', MsgMid msg)] else fields),
          Expire streamKey (hc_TTLSeconds cfg)])"

text \<open>The results of the pipeline in order: \<open>ok j\<close> for the \<open>j\<close>-th command.\<close>

fun record_results :: "(nat \<Rightarrow> bool) \<Rightarrow> nat \<Rightarrow> bus_message list \<Rightarrow> history_writer \<Rightarrow> int \<Rightarrow> int \<times> history_writer" where
  "record_results ok j [] h processed = (processed, h)"
| "record_results ok j (msg # msgs) h processed =
     (if \<not> ok (2 * j) then record_results ok (j + 1) msgs (h\<lparr>hw_failed := hw_failed h @ [msg]\<rparr>) processed
      else record_results ok (j + 1) msgs
             (h\<lparr>hw_stored := hw_stored h @ [msg], hw_expireFailures := hw_expireFailures h + (if ok (2 * j + 1) then 0 else 1)\<rparr>) (processed + 1))"

definition flushBatch_history ::
  "writer_config \<Rightarrow> (nat \<Rightarrow> bool) \<Rightarrow> history_writer \<Rightarrow> int \<times> history_command list \<times> history_writer" where
  "flushBatch_history cfg ok h =
     (let wasActive = isActiveWriter h;
          msgs = take (hc_PipelineBatch cfg) (hw_workChan h);
          h = h\<lparr>hw_workChan := drop (hc_PipelineBatch cfg) (hw_workChan h)\<rparr>
      in if msgs = [] then (0, [], h)
         else if \<not> wasActive then (0, [], h\<lparr>hw_droppedPassive := hw_droppedPassive h @ msgs\<rparr>)
         else
           let valid = filter storable msgs;
               h = h\<lparr>hw_droppedEmptyMeta := hw_droppedEmptyMeta h @ filter (\<lambda>m. \<not> storable m) msgs\<rparr>;
               cmds = concat (map (store_commands cfg) valid)
           in if cmds = [] then (0, [], h)
              else case record_results ok 0 valid h 0 of (processed, h) \<Rightarrow> (processed, cmds, h))"

section \<open>The lock\<close>

text \<open>The owner of the lock and when it expires.\<close>

type_synonym writer_lock = "(string \<times> int) option"

definition lock_owner :: "int \<Rightarrow> writer_lock \<Rightarrow> string option" where
  "lock_owner now lk = (case lk of None \<Rightarrow> None | Some (pod, expires) \<Rightarrow> if now < expires then Some pod else None)"

definition set_nx_px :: "string \<Rightarrow> int \<Rightarrow> int \<Rightarrow> writer_lock \<Rightarrow> bool \<times> writer_lock" where
  "set_nx_px pod ttl now lk = (if lock_owner now lk = None then (True, Some (pod, now + ttl)) else (False, lk))"

definition lock_renew_script :: "string \<Rightarrow> int \<Rightarrow> int \<Rightarrow> writer_lock \<Rightarrow> bool \<times> writer_lock" where
  "lock_renew_script pod ttl now lk = (if lock_owner now lk = Some pod then (True, Some (pod, now + ttl)) else (False, lk))"

definition lock_release_script :: "string \<Rightarrow> int \<Rightarrow> writer_lock \<Rightarrow> bool \<times> writer_lock" where
  "lock_release_script pod now lk = (if lock_owner now lk = Some pod then (True, None) else (False, lk))"

text \<open>A command is answered, or its reply is lost after or before it took effect.\<close>

datatype command_fate = Answered | LostAfter | LostBefore

fun run_command :: "command_fate \<Rightarrow> (writer_lock \<Rightarrow> bool \<times> writer_lock) \<Rightarrow> writer_lock \<Rightarrow> bool option \<times> writer_lock" where
  "run_command Answered f lk = (Some (fst (f lk)), snd (f lk))"
| "run_command LostAfter f lk = (None, snd (f lk))"
| "run_command LostBefore f lk = (None, lk)"

definition tryAcquireLock :: "bool option \<Rightarrow> history_writer \<Rightarrow> history_writer" where
  "tryAcquireLock acquired h = h\<lparr>isActiveWriter := (acquired = Some True)\<rparr>"

text \<open>
  A tick of the heartbeat: the reply of the renewal when active, of the acquisition when passive. The first
  component tells whether the writer must restart.
\<close>

definition lock_failure :: "writer_config \<Rightarrow> bool \<Rightarrow> history_writer \<Rightarrow> bool \<times> history_writer" where
  "lock_failure cfg ctxDone h =
     (if ctxDone then (False, h)
      else let h = h\<lparr>hw_lockFailuresTotal := hw_lockFailuresTotal h + 1, hw_lockFailures := hw_lockFailures h + 1\<rparr>
           in (hw_lockFailures h \<ge> hc_MaxConsecutiveLockFailures cfg, h))"

definition handleHeartbeatTick :: "writer_config \<Rightarrow> bool \<Rightarrow> bool \<Rightarrow> bool option \<Rightarrow> history_writer \<Rightarrow> bool \<times> history_writer" where
  "handleHeartbeatTick cfg busHealthy ctxDone reply h =
     (if \<not> busHealthy then (True, h)
      else if isActiveWriter h
      then case reply of
             None \<Rightarrow> lock_failure cfg ctxDone h
           | Some False \<Rightarrow> (False, h\<lparr>isActiveWriter := False, hw_lockFailures := 0\<rparr>)
           | Some True \<Rightarrow> (False, h\<lparr>hw_lockFailures := 0\<rparr>)
      else case reply of
             None \<Rightarrow> lock_failure cfg ctxDone h
           | Some False \<Rightarrow> (False, h)
           | Some True \<Rightarrow> (False, h\<lparr>hw_lockFailures := 0, isActiveWriter := True\<rparr>))"

section \<open>Restarting\<close>

text \<open>The backoff after a run that processed a number of messages, and the delay with the jitter \<open>r\<close>, a number below the jitter base.\<close>

definition next_backoff :: "writer_config \<Rightarrow> int \<Rightarrow> int \<Rightarrow> int" where
  "next_backoff cfg processed backoff =
     (if processed > 0 then hc_RestartInitialBackoff cfg
      else let b = i64 (backoff * 2) in if b > hc_RestartMaxBackoff cfg then hc_RestartMaxBackoff cfg else b)"

definition jitter_base :: "writer_config \<Rightarrow> int \<Rightarrow> int" where
  "jitter_base cfg backoff = min backoff (go_quot (hc_RestartMaxBackoff cfg) 2)"

definition jittered_delay :: "writer_config \<Rightarrow> int \<Rightarrow> int \<Rightarrow> int" where
  "jittered_delay cfg r backoff =
     (let d = (if jitter_base cfg backoff > 0 then i64 (backoff + r) else backoff)
      in if d > hc_RestartMaxBackoff cfg then hc_RestartMaxBackoff cfg else d)"

end
