(* ===== verification/PoolRun.thy ===== *)
theory PoolRun
  imports ConsumerPool
begin

text \<open>
  The consumer pool over time: what the consumers' reports change, the invariant of the pool and that every section of a
  refresh keeps it whatever is reported in between, the step relation of the pool, and what a run keeps of the shared and of the
  dedicated consumers.
\<close>

section \<open>What reports change\<close>

text \<open>A consumer keeps its topics and never resumes a paused one.\<close>

definition same_consumer :: "pool_consumer \<Rightarrow> pool_consumer \<Rightarrow> bool" where
  "same_consumer c c' \<longleftrightarrow> pk_ConsumerGroup c' = pk_ConsumerGroup c \<and> pk_ConsumerType c' = pk_ConsumerType c \<and> pk_Topics c' = pk_Topics c \<and>
     kf_added (pk_state c') = kf_added (pk_state c) \<and> set (kf_paused (pk_state c)) \<subseteq> set (kf_paused (pk_state c'))"

text \<open>A dedicated consumer has reported a topic that the pool held for the shared one.\<close>

definition crossed :: "consumer_pool \<Rightarrow> bool" where
  "crossed p = list_ex (\<lambda>(topic, consumerType, wasShared). consumerType \<noteq> ConsumerTypeKindShared \<and> wasShared) (mp_autoRemoved p)"

definition same_tenants :: "consumer_pool \<Rightarrow> consumer_pool \<Rightarrow> bool" where
  "same_tenants p p' \<longleftrightarrow> (\<forall>tn. rel_option same_consumer (map_of (mp_dedicatedConsumers p) tn) (map_of (mp_dedicatedConsumers p') tn))"

text \<open>Between two sections of a refresh, topics only move from the subscribed to the blocked ones.\<close>

definition moved :: "consumer_pool \<Rightarrow> consumer_pool \<Rightarrow> bool" where
  "moved p p' \<longleftrightarrow> set (mp_sharedTopics p') \<subseteq> set (mp_sharedTopics p) \<and> set (mp_blockedSharedTopics p) \<subseteq> set (mp_blockedSharedTopics p') \<and>
     set (mp_sharedTopics p) \<union> set (mp_blockedSharedTopics p) = set (mp_sharedTopics p') \<union> set (mp_blockedSharedTopics p') \<and>
     (crossed p \<longrightarrow> crossed p') \<and> mp_topicTenants p' = mp_topicTenants p \<and> mp_Environment p' = mp_Environment p"

lemma same_consumer_refl [simp]: "same_consumer c c" by (simp add: same_consumer_def)

lemma same_consumer_trans: "same_consumer a b \<Longrightarrow> same_consumer b c \<Longrightarrow> same_consumer a c" by (auto simp: same_consumer_def)

lemma moved_refl [simp]: "moved p p" by (simp add: moved_def)

lemma moved_trans: "moved p q \<Longrightarrow> moved q r \<Longrightarrow> moved p r" by (auto simp: moved_def)

lemma moved_frame [simp]:
  "moved p (q\<lparr>mp_sharedConsumer := x\<rparr>) = moved p q" "moved (p\<lparr>mp_sharedConsumer := x\<rparr>) q = moved p q"
  "moved p (q\<lparr>mp_dedicatedConsumers := y\<rparr>) = moved p q" "moved (p\<lparr>mp_dedicatedConsumers := y\<rparr>) q = moved p q"
  "moved p (q\<lparr>mp_dedicatedTopics := z\<rparr>) = moved p q" "moved (p\<lparr>mp_dedicatedTopics := z\<rparr>) q = moved p q"
  by (auto simp: moved_def crossed_def)

lemma rel_option_same_refl [simp]: "rel_option same_consumer x x" by (cases x) simp_all

lemma rel_option_same_trans: "rel_option same_consumer x y \<Longrightarrow> rel_option same_consumer y z \<Longrightarrow> rel_option same_consumer x z"
  by (cases x; cases y; cases z) (auto intro: same_consumer_trans)

lemma handleBrokerDeletedTopic_moved:
  "moved p (handleBrokerDeletedTopic ctype topic p)"
  "mp_sharedConsumer (handleBrokerDeletedTopic ctype topic p) = mp_sharedConsumer p"
  "mp_dedicatedConsumers (handleBrokerDeletedTopic ctype topic p) = mp_dedicatedConsumers p"
  by (auto simp: handleBrokerDeletedTopic_def moved_def crossed_def Let_def)

text \<open>Whatever one report keeps, handling the errors of a fetch keeps.\<close>

lemma fetch_errors_keep:
  assumes "\<And>t k p. I k p \<Longrightarrow> I (PauseFetchTopics [t] k) (cb t p)"
  shows "I k p \<Longrightarrow> fetch_errors_loop cb errs seen paused k p = (ps, k', p') \<Longrightarrow> I k' p'"
  by (induction errs arbitrary: seen paused k p) (auto split: if_splits, use assms in blast)

lemma consumer_errors_keep:
  assumes "consumer_errors c errs p = (c', p')" and "\<And>t k q. I k q \<Longrightarrow> I (PauseFetchTopics [t] k) (handleBrokerDeletedTopic (pk_ConsumerType c) t q)"
    and "I (pk_state c) p"
  shows "I (pk_state c') p'"
  using assms(1) fetch_errors_keep [of I, OF assms(2,3)] by (auto simp: consumer_errors_def handleFetchErrors_def split: prod.splits)

lemma consumer_errors_frame:
  assumes "consumer_errors c errs p = (c', p')"
  shows "same_consumer c c'" and "moved p p'" and "mp_sharedConsumer p' = mp_sharedConsumer p" and "mp_dedicatedConsumers p' = mp_dedicatedConsumers p"
proof -
  have "kf_added (pk_state c') = kf_added (pk_state c) \<and> set (kf_paused (pk_state c)) \<subseteq> set (kf_paused (pk_state c')) \<and>
      moved p p' \<and> mp_sharedConsumer p' = mp_sharedConsumer p \<and> mp_dedicatedConsumers p' = mp_dedicatedConsumers p"
    by (rule consumer_errors_keep [OF assms, where I = "\<lambda>k q. kf_added k = kf_added (pk_state c) \<and> set (kf_paused (pk_state c)) \<subseteq> set (kf_paused k) \<and>
        moved p q \<and> mp_sharedConsumer q = mp_sharedConsumer p \<and> mp_dedicatedConsumers q = mp_dedicatedConsumers p"])
      (auto simp: PauseFetchTopics_def handleBrokerDeletedTopic_moved intro: moved_trans)
  moreover have "pk_ConsumerGroup c' = pk_ConsumerGroup c" "pk_ConsumerType c' = pk_ConsumerType c" "pk_Topics c' = pk_Topics c"
    using assms by (auto simp: consumer_errors_def split: prod.splits)
  ultimately show "same_consumer c c'" "moved p p'" "mp_sharedConsumer p' = mp_sharedConsumer p" "mp_dedicatedConsumers p' = mp_dedicatedConsumers p"
    by (simp_all add: same_consumer_def)
qed

lemma report_frame:
  "moved p (report r p)" "rel_option same_consumer (mp_sharedConsumer p) (mp_sharedConsumer (report r p))" "same_tenants p (report r p)"
proof -
  have "moved p (report r p) \<and> rel_option same_consumer (mp_sharedConsumer p) (mp_sharedConsumer (report r p)) \<and> same_tenants p (report r p)"
  proof (cases "(r, p)" rule: report.cases)
    case (1 errs q)
    then show ?thesis by (auto simp: same_tenants_def dest: consumer_errors_frame split: option.splits prod.splits)
  next
    case (2 tn errs q)
    then show ?thesis
      by (auto simp: same_tenants_def update_conv dest: consumer_errors_frame split: option.splits prod.splits)
  next
    case (3 errs q)
    let ?c = "\<lparr>pk_ConsumerGroup = [], pk_ConsumerType = ConsumerTypeKindDedicated, pk_Topics = [], pk_state = init_kafka\<rparr>"
    obtain c' q' where "consumer_errors ?c errs q = (c', q')" by fastforce
    from consumer_errors_frame [OF this] 3 this show ?thesis by (simp add: same_tenants_def)
  qed
  then show "moved p (report r p)" "rel_option same_consumer (mp_sharedConsumer p) (mp_sharedConsumer (report r p))" "same_tenants p (report r p)"
    by simp_all
qed

lemma same_tenants_trans: "same_tenants p q \<Longrightarrow> same_tenants q r \<Longrightarrow> same_tenants p r"
  by (meson rel_option_same_trans same_tenants_def)

lemma gap_keep: "(\<And>r q. I q \<Longrightarrow> I (report r q)) \<Longrightarrow> I p \<Longrightarrow> I (gap v i p)"
  unfolding gap_def by (rule fold_invariant [where Q = "\<lambda>_. True" and P = I]) auto

lemma gap_frame:
  "moved p (gap v i p)" "rel_option same_consumer (mp_sharedConsumer p) (mp_sharedConsumer (gap v i p))" "same_tenants p (gap v i p)"
  by (rule gap_keep [where I = "moved p"], metis report_frame(1) moved_trans, simp)
    (rule gap_keep [where I = "\<lambda>q. rel_option same_consumer (mp_sharedConsumer p) (mp_sharedConsumer q)"], metis report_frame(2) rel_option_same_trans, simp,
     rule gap_keep [where I = "same_tenants p"], metis report_frame(3) same_tenants_trans, simp add: same_tenants_def)

section \<open>The invariant of the pool\<close>

text \<open>
  What the pool holds of a shared consumer: it knows every subscribed topic and, unless a dedicated consumer has reported
  a shared topic, it fetches nothing but subscribed topics, or those of a refresh in progress, and has paused every blocked one.
\<close>

definition shared_ok :: "string set \<Rightarrow> pool_consumer \<Rightarrow> consumer_pool \<Rightarrow> bool" where
  "shared_ok pending c p \<longleftrightarrow> pk_ConsumerType c = ConsumerTypeKindShared \<and>
     set (mp_sharedTopics p) \<subseteq> set (pk_Topics c @ kf_added (pk_state c)) \<and>
     (crossed p \<or> (\<forall>t. fetches c t \<longrightarrow> t \<in> set (mp_sharedTopics p) \<union> pending) \<and>
        set (mp_blockedSharedTopics p) \<subseteq> set (kf_paused (pk_state c)))"

definition disjoint_topics :: "consumer_pool \<Rightarrow> bool" where
  "disjoint_topics p \<longleftrightarrow> set (mp_sharedTopics p) \<inter> set (mp_blockedSharedTopics p) = {}"

definition topics_ok :: "string set \<Rightarrow> consumer_pool \<Rightarrow> bool" where
  "topics_ok pending p \<longleftrightarrow> disjoint_topics p \<and>
     (case mp_sharedConsumer p of
        None \<Rightarrow> mp_sharedTopics p = [] \<and> mp_blockedSharedTopics p = []
      | Some c \<Rightarrow> shared_ok pending c p)"

definition dedicated_ok :: "consumer_pool \<Rightarrow> bool" where
  "dedicated_ok p \<longleftrightarrow> (\<forall>c\<in>snd ` set (mp_dedicatedConsumers p). pk_ConsumerType c = ConsumerTypeKindDedicated)"

definition pool_ok :: "string set \<Rightarrow> consumer_pool \<Rightarrow> bool" where
  "pool_ok pending p \<longleftrightarrow> topics_ok pending p \<and> dedicated_ok p"

lemma shared_ok_frame [simp]:
  "shared_ok X c (p\<lparr>mp_dedicatedConsumers := y\<rparr>) = shared_ok X c p" "shared_ok X c (p\<lparr>mp_dedicatedTopics := z\<rparr>) = shared_ok X c p"
  "shared_ok X c (p\<lparr>mp_sharedConsumer := x\<rparr>) = shared_ok X c p" "shared_ok X c (p\<lparr>mp_topicTenants := m\<rparr>) = shared_ok X c p"
  by (simp_all add: shared_ok_def crossed_def)

lemma disjoint_frame [simp]:
  "disjoint_topics (p\<lparr>mp_dedicatedConsumers := y\<rparr>) = disjoint_topics p" "disjoint_topics (p\<lparr>mp_dedicatedTopics := z\<rparr>) = disjoint_topics p"
  "disjoint_topics (p\<lparr>mp_sharedConsumer := x\<rparr>) = disjoint_topics p" "disjoint_topics (p\<lparr>mp_topicTenants := m\<rparr>) = disjoint_topics p"
  by (simp_all add: disjoint_topics_def)

lemma topics_ok_frame [simp]:
  "topics_ok X (p\<lparr>mp_dedicatedConsumers := y\<rparr>) = topics_ok X p" "topics_ok X (p\<lparr>mp_dedicatedTopics := z\<rparr>) = topics_ok X p"
  "topics_ok X (p\<lparr>mp_topicTenants := m\<rparr>) = topics_ok X p"
  by (simp_all add: topics_ok_def split: option.splits)

lemma dedicated_ok_frame [simp]:
  "dedicated_ok (p\<lparr>mp_sharedConsumer := x\<rparr>) = dedicated_ok p" "dedicated_ok (p\<lparr>mp_dedicatedTopics := z\<rparr>) = dedicated_ok p"
  "dedicated_ok (p\<lparr>mp_sharedTopics := y\<rparr>) = dedicated_ok p" "dedicated_ok (p\<lparr>mp_topicTenants := m\<rparr>) = dedicated_ok p"
  by (simp_all add: dedicated_ok_def)

lemma kinds [simp]: "ConsumerTypeKindDedicated \<noteq> ConsumerTypeKindShared"
  by (simp add: ConsumerTypeKindShared_def ConsumerTypeKindDedicated_def)

lemma handleBrokerDeletedTopic_disjoint: "disjoint_topics p \<Longrightarrow> disjoint_topics (handleBrokerDeletedTopic ctype topic p)"
  by (auto simp: disjoint_topics_def handleBrokerDeletedTopic_def Let_def)

lemma shared_report_ok:
  assumes "shared_ok X c p" and "consumer_errors c errs p = (c', p')"
  shows "shared_ok X c' p'"
proof -
  have ty: "pk_ConsumerType c = ConsumerTypeKindShared" using assms(1) by (simp add: shared_ok_def)
  have "shared_ok X (c\<lparr>pk_state := pk_state c'\<rparr>) p'"
    by (rule consumer_errors_keep [OF assms(2), where I = "\<lambda>k q. shared_ok X (c\<lparr>pk_state := k\<rparr>) q"])
      (use assms(1) in \<open>auto simp: shared_ok_def PauseFetchTopics_def handleBrokerDeletedTopic_def crossed_def fetches_def ty Let_def\<close>)
  moreover have "c' = c\<lparr>pk_state := pk_state c'\<rparr>" using assms(2) by (auto simp: consumer_errors_def split: prod.splits)
  ultimately show ?thesis by simp
qed

lemma other_report_ok:
  assumes "shared_ok X s p" and "pk_ConsumerType c = ConsumerTypeKindDedicated" and "consumer_errors c errs p = (c', p')"
  shows "shared_ok X s p'"
  by (rule consumer_errors_keep [OF assms(3), where I = "\<lambda>k q. shared_ok X s q"])
    (use assms(1,2) in \<open>auto simp: shared_ok_def handleBrokerDeletedTopic_def crossed_def Let_def\<close>)

lemma errors_disjoint: "disjoint_topics p \<Longrightarrow> consumer_errors c errs p = (c', p') \<Longrightarrow> disjoint_topics p'"
  by (rule consumer_errors_keep [where I = "\<lambda>k q. disjoint_topics q"]) (auto intro: handleBrokerDeletedTopic_disjoint)

lemma set_alist_update: "set (AList.update k v al) \<subseteq> insert (k, v) (set al)"
  by (induction al) auto

lemma other_topics_ok:
  assumes "topics_ok X p" and "pk_ConsumerType c = ConsumerTypeKindDedicated" and "consumer_errors c errs p = (c', p')"
  shows "topics_ok X p'"
proof (cases "mp_sharedConsumer p")
  case None
  then show ?thesis using assms(1) consumer_errors_frame [OF assms(3)] by (auto simp: topics_ok_def moved_def disjoint_topics_def)
next
  case (Some s)
  then show ?thesis
    using assms(1) consumer_errors_frame(3) [OF assms(3)] other_report_ok [OF _ assms(2,3)] errors_disjoint [OF _ assms(3)] by (simp add: topics_ok_def)
qed

lemma dedicated_ok_update: "dedicated_ok p \<Longrightarrow> pk_ConsumerType c = ConsumerTypeKindDedicated \<Longrightarrow>
    dedicated_ok (p\<lparr>mp_dedicatedConsumers := AList.update tn c (mp_dedicatedConsumers p)\<rparr>)"
  using set_alist_update [of tn c "mp_dedicatedConsumers p"] by (fastforce simp: dedicated_ok_def)

lemma report_ok:
  assumes "pool_ok X p"
  shows "pool_ok X (report r p)"
proof (cases "(r, p)" rule: report.cases)
  case (1 errs q)
  then show ?thesis
  proof (cases "mp_sharedConsumer p")
    case (Some c)
    obtain c' p' where e: "consumer_errors c errs p = (c', p')" by fastforce
    have ok: "shared_ok X c p" "disjoint_topics p" using assms Some by (simp_all add: pool_ok_def topics_ok_def)
    from shared_report_ok [OF ok(1) e] errors_disjoint [OF ok(2) e] consumer_errors_frame(4) [OF e] 1 Some e assms
    show ?thesis by (simp add: pool_ok_def topics_ok_def dedicated_ok_def)
  qed (use assms in simp)
next
  case (2 tn errs q)
  show ?thesis
  proof (cases "map_of (mp_dedicatedConsumers p) tn")
    case (Some c)
    have ty: "pk_ConsumerType c = ConsumerTypeKindDedicated" using map_of_SomeD [OF Some] assms by (force simp: pool_ok_def dedicated_ok_def)
    obtain c' p' where e: "consumer_errors c errs p = (c', p')" by fastforce
    note fr = consumer_errors_frame [OF e]
    have "dedicated_ok p'" "pk_ConsumerType c' = ConsumerTypeKindDedicated" using assms fr ty by (simp_all add: pool_ok_def dedicated_ok_def same_consumer_def)
    then have "pool_ok X (p'\<lparr>mp_dedicatedConsumers := AList.update tn c' (mp_dedicatedConsumers p')\<rparr>)"
      using assms other_topics_ok [OF _ ty e] dedicated_ok_update by (simp add: pool_ok_def)
    then show ?thesis using 2 Some e by simp
  qed (use 2 assms in simp)
next
  case (3 errs q)
  let ?c = "\<lparr>pk_ConsumerGroup = [], pk_ConsumerType = ConsumerTypeKindDedicated, pk_Topics = [], pk_state = init_kafka\<rparr>"
  obtain c' p' where e: "consumer_errors ?c errs p = (c', p')" by fastforce
  show ?thesis using 3 e consumer_errors_frame(4) [OF e] assms other_topics_ok [OF _ _ e] by (simp add: pool_ok_def dedicated_ok_def)
qed

lemma gap_ok: "pool_ok X p \<Longrightarrow> pool_ok X (gap v i p)"
  by (rule gap_keep [where I = "pool_ok X"]) (rule report_ok)

section \<open>The sections of a refresh\<close>

definition grows :: "pool_consumer \<Rightarrow> pool_consumer \<Rightarrow> bool" where
  "grows c c' \<longleftrightarrow> pk_Topics c' = pk_Topics c \<and> set (kf_added (pk_state c)) \<subseteq> set (kf_added (pk_state c')) \<and>
     set (kf_paused (pk_state c)) \<subseteq> set (kf_paused (pk_state c'))"

lemma grows_refl [simp]: "grows c c" by (simp add: grows_def)

lemma grows_trans: "grows a b \<Longrightarrow> grows b c \<Longrightarrow> grows a c" by (auto simp: grows_def)

lemma same_grows: "same_consumer c c' \<Longrightarrow> grows c c'" by (simp add: grows_def same_consumer_def)

lemma gap_consumer:
  assumes "mp_sharedConsumer p = Some c"
  obtains c' where "mp_sharedConsumer (gap v i p) = Some c'" and "same_consumer c c'"
  using gap_frame(2) [of p v i] assms by (auto simp: option_rel_Some1)

lemma pool_ok_Some: "pool_ok X p \<Longrightarrow> mp_sharedConsumer p = Some c \<Longrightarrow> shared_ok X c p \<and> disjoint_topics p"
  by (simp add: pool_ok_def topics_ok_def)

lemma shared_remove_post:
  assumes ok: "pool_ok {} p" and c: "mp_sharedConsumer p = Some c"
  obtains c' where "pool_ok {} (shared_remove v toRemove p)" "mp_sharedConsumer (shared_remove v toRemove p) = Some c'" "grows c c'"
    "set toRemove \<subseteq> set (kf_paused (pk_state c'))" "set (mp_sharedTopics (shared_remove v toRemove p)) \<subseteq> set (mp_sharedTopics p) - set toRemove"
    "crossed p \<longrightarrow> crossed (shared_remove v toRemove p)"
proof (cases "toRemove = []")
  case True then show ?thesis using that [of c] assms by (simp add: shared_remove_def)
next
  case False
  let ?q = "with_shared (PauseFetchTopics toRemove) p" and ?c = "c\<lparr>pk_state := PauseFetchTopics toRemove (pk_state c)\<rparr>"
  have qc: "mp_sharedConsumer ?q = Some ?c" using c by (simp add: with_shared_def)
  have "pool_ok {} ?q" using ok c False
    by (auto simp: pool_ok_def topics_ok_def shared_ok_def with_shared_def PauseFetchTopics_def fetches_def crossed_def disjoint_topics_def dedicated_ok_def)
  then have g: "pool_ok {} (gap v 4 ?q)" by (rule gap_ok)
  obtain c' where c': "mp_sharedConsumer (gap v 4 ?q) = Some c'" "same_consumer ?c c'" using gap_consumer [OF qc] .
  let ?r = "shared_remove v toRemove p"
  have r: "?r = (gap v 4 ?q)\<lparr>mp_sharedTopics := filter (\<lambda>t. t \<notin> set toRemove) (mp_sharedTopics (gap v 4 ?q))\<rparr>"
    using False by (simp add: shared_remove_def Let_def)
  have paused: "set toRemove \<subseteq> set (kf_paused (pk_state c'))" using c'(2) False by (auto simp: same_consumer_def PauseFetchTopics_def)
  have m: "moved p (gap v 4 ?q)" using gap_frame(1) [of ?q v 4] by (simp add: with_shared_def)
  have "shared_ok {} c' ?r" using pool_ok_Some [OF g c'(1)] paused by (auto simp: r shared_ok_def crossed_def fetches_def)
  then have "pool_ok {} ?r" using g c' by (auto simp: r pool_ok_def topics_ok_def disjoint_topics_def)
  moreover have "grows c c'" using c'(2) False by (auto simp: grows_def same_consumer_def PauseFetchTopics_def)
  moreover have "crossed p \<longrightarrow> crossed ?r" using m by (simp add: r moved_def crossed_def)
  moreover have "set (mp_sharedTopics ?r) \<subseteq> set (mp_sharedTopics p) - set toRemove" using m by (auto simp: r moved_def)
  ultimately show ?thesis using that [of c'] paused c'(1) r by simp
qed

lemma shared_commit_fresh:
  assumes "set toAdd \<inter> (set (mp_sharedTopics p) \<union> set (mp_blockedSharedTopics p)) = {}"
  shows "shared_commit toAdd p = p\<lparr>mp_sharedTopics := mp_sharedTopics p @ toAdd\<rparr>"
proof -
  have "filter (\<lambda>t. t \<notin> set (mp_blockedSharedTopics p) \<and> t \<notin> set (mp_sharedTopics p)) toAdd = toAdd" by (rule filter_True) (use assms in auto)
  then show ?thesis by (simp only: shared_commit_def)
qed

text \<open>The topics added are never blocked when they are committed: the second check of the block list has no effect.\<close>

lemma shared_add_post:
  assumes ok: "pool_ok {} p" and c: "mp_sharedConsumer p = Some c"
    and new: "set toAdd \<inter> (set (mp_sharedTopics p) \<union> set (mp_blockedSharedTopics p)) = {}"
  obtains c' where "pool_ok {} (shared_add v toAdd p)" "mp_sharedConsumer (shared_add v toAdd p) = Some c'" "grows c c'"
    "set toAdd \<subseteq> set (kf_added (pk_state c'))" "set (mp_sharedTopics (shared_add v toAdd p)) \<subseteq> set (mp_sharedTopics p) \<union> set toAdd"
    "crossed p \<longrightarrow> crossed (shared_add v toAdd p)" "set toAdd \<subseteq> set (mp_sharedTopics (shared_add v toAdd p))"
proof (cases "toAdd = []")
  case True then show ?thesis using that [of c] assms by (simp add: shared_add_def)
next
  case False
  let ?q = "with_shared (AddConsumeTopics toAdd) p" and ?c = "c\<lparr>pk_state := AddConsumeTopics toAdd (pk_state c)\<rparr>"
  have qc: "mp_sharedConsumer ?q = Some ?c" using c by (simp add: with_shared_def)
  have "pool_ok (set toAdd) ?q" using ok c False
    by (auto simp: pool_ok_def topics_ok_def shared_ok_def with_shared_def AddConsumeTopics_def fetches_def crossed_def disjoint_topics_def dedicated_ok_def)
  then have g: "pool_ok (set toAdd) (gap v 2 ?q)" by (rule gap_ok)
  obtain c' where c': "mp_sharedConsumer (gap v 2 ?q) = Some c'" "same_consumer ?c c'" using gap_consumer [OF qc] .
  have m: "moved p (gap v 2 ?q)" using gap_frame(1) [of ?q v 2] by (simp add: with_shared_def)
  have fresh: "set toAdd \<inter> (set (mp_sharedTopics (gap v 2 ?q)) \<union> set (mp_blockedSharedTopics (gap v 2 ?q))) = {}" using m new by (auto simp: moved_def)
  let ?r = "shared_add v toAdd p"
  have r: "?r = (gap v 2 ?q)\<lparr>mp_sharedTopics := mp_sharedTopics (gap v 2 ?q) @ toAdd\<rparr>"
    using False shared_commit_fresh [OF fresh] by (simp add: shared_add_def)
  have added: "set toAdd \<subseteq> set (kf_added (pk_state c'))" using c'(2) False by (simp add: same_consumer_def AddConsumeTopics_def)
  have "shared_ok {} c' ?r" using pool_ok_Some [OF g c'(1)] added by (auto simp: r shared_ok_def crossed_def)
  then have "pool_ok {} ?r" using g c' fresh by (auto simp: r pool_ok_def topics_ok_def disjoint_topics_def)
  moreover have "grows c c'" using c'(2) False by (auto simp: grows_def same_consumer_def AddConsumeTopics_def)
  moreover have "crossed p \<longrightarrow> crossed ?r" using m by (simp add: r moved_def crossed_def)
  moreover have "set (mp_sharedTopics ?r) \<subseteq> set (mp_sharedTopics p) \<union> set toAdd" using m by (auto simp: r moved_def)
  ultimately show ?thesis using that [of c'] added c'(1) r by simp
qed

lemma shared_create_post:
  assumes ok: "pool_ok {} p" and n: "mp_sharedConsumer p = None" and cr: "shared_create v newTopics p = (b, p')"
  shows "pool_ok {} p' \<and> (if b then mp_sharedTopics p' = newTopics \<and> (\<exists>c. mp_sharedConsumer p' = Some c \<and> pk_Topics c = newTopics)
           else p' = p) \<and> (crossed p \<longrightarrow> crossed p')"
proof (cases "re_created v (shared_group p) \<and> re_started v (shared_group p)")
  case False then show ?thesis using ok cr by (auto simp: shared_create_def split: if_splits)
next
  case True
  let ?c = "new_consumer (shared_group p) ConsumerTypeKindShared newTopics"
  obtain c1 p1 where e: "consumer_errors ?c (re_newErrs v (shared_group p)) p = (c1, p1)" by fastforce
  let ?q = "gap v 2 (p1\<lparr>mp_sharedConsumer := Some c1\<rparr>)"
  have p': "p' = ?q\<lparr>mp_sharedTopics := newTopics\<rparr>" "b" using True cr e by (auto simp: shared_create_def)
  note fr = consumer_errors_frame [OF e]
  have z: "mp_sharedTopics p = []" "mp_blockedSharedTopics p = []" "disjoint_topics p" using ok n by (auto simp: pool_ok_def topics_ok_def)
  have "shared_ok (set newTopics) ?c p" using z by (auto simp: shared_ok_def new_consumer_def fetches_def init_kafka_def)
  from shared_report_ok [OF this e] have "pool_ok (set newTopics) (p1\<lparr>mp_sharedConsumer := Some c1\<rparr>)"
    using errors_disjoint [OF z(3) e] ok fr(4) by (simp add: pool_ok_def topics_ok_def dedicated_ok_def)
  then have g: "pool_ok (set newTopics) ?q" by (rule gap_ok)
  obtain c2 where c2: "mp_sharedConsumer ?q = Some c2" "same_consumer c1 c2"
    using gap_consumer [where p = "p1\<lparr>mp_sharedConsumer := Some c1\<rparr>" and c = c1] by auto
  have m: "moved p ?q" using moved_trans [OF fr(2)] gap_frame(1) [of "p1\<lparr>mp_sharedConsumer := Some c1\<rparr>" v 2] by simp
  have zq: "mp_sharedTopics ?q = []" "mp_blockedSharedTopics ?q = []" using m z by (auto simp: moved_def)
  have t: "pk_Topics c2 = newTopics" using fr(1) c2(2) by (simp add: same_consumer_def new_consumer_def)
  have "shared_ok {} c2 p'" using pool_ok_Some [OF g c2(1)] zq t by (auto simp: p' shared_ok_def crossed_def)
  then have "pool_ok {} p'" using g c2 zq by (auto simp: p' pool_ok_def topics_ok_def disjoint_topics_def)
  then show ?thesis using p' c2 t m by (auto simp: moved_def crossed_def)
qed

lemma shared_snapshot_post:
  assumes "pool_ok {} p" and "shared_snapshot topics p = (q, newTopics)"
  shows "pool_ok {} q" and "set newTopics = set topics - set (mp_blockedSharedTopics p)" and "mp_sharedTopics q = mp_sharedTopics p"
    and "mp_sharedConsumer q = mp_sharedConsumer p" and "crossed q = crossed p" and "set newTopics \<inter> set (mp_blockedSharedTopics q) = {}"
proof -
  have q: "q = p\<lparr>mp_blockedSharedTopics := filter (\<lambda>t. t \<in> set topics) (mp_blockedSharedTopics p)\<rparr>"
    "newTopics = filter (\<lambda>t. t \<notin> set (mp_blockedSharedTopics q)) (remdups topics)"
    using assms(2) by (auto simp: shared_snapshot_def Let_def)
  show "pool_ok {} q" using assms(1)
    by (auto simp: q(1) pool_ok_def topics_ok_def disjoint_topics_def shared_ok_def dedicated_ok_def crossed_def split: option.splits)
  show "set newTopics = set topics - set (mp_blockedSharedTopics p)" "set newTopics \<inter> set (mp_blockedSharedTopics q) = {}"
    by (auto simp: q)
  show "mp_sharedTopics q = mp_sharedTopics p" "mp_sharedConsumer q = mp_sharedConsumer p" "crossed q = crossed p" by (simp_all add: q(1) crossed_def)
qed

text \<open>An update of an existing shared consumer.\<close>

lemma update_existing:
  assumes ok: "pool_ok {} p" and c: "mp_sharedConsumer p = Some c" and u: "updateSharedConsumer v topics p = (b, p')"
  obtains c' where "b" "pool_ok {} p'" "mp_sharedConsumer p' = Some c'" "grows c c'" "crossed p \<longrightarrow> crossed p'"
    "set (mp_sharedTopics p') \<subseteq> set topics" "set (mp_sharedTopics p) - set topics \<subseteq> set (kf_paused (pk_state c'))"
    "set topics - set (mp_blockedSharedTopics p) \<subseteq> set (pk_Topics c' @ kf_added (pk_state c'))"
proof -
  obtain q newTopics where sn: "shared_snapshot topics p = (q, newTopics)" by fastforce
  note s = shared_snapshot_post [OF ok sn]
  let ?add = "filter (\<lambda>t. t \<notin> set (mp_sharedTopics q)) newTopics" and ?rem = "filter (\<lambda>t. t \<notin> set newTopics) (mp_sharedTopics q)"
  let ?q1 = "gap v 1 q" and ?q3 = "gap v 3 (shared_add v ?add (gap v 1 q))"
  obtain c1 where c1: "mp_sharedConsumer ?q1 = Some c1" "same_consumer c c1" using gap_consumer [of q c v 1] s(4) c by auto
  have m1: "moved q ?q1" by (rule gap_frame(1))
  have fresh: "set ?add \<inter> (set (mp_sharedTopics ?q1) \<union> set (mp_blockedSharedTopics ?q1)) = {}" using m1 s(6) by (auto simp: moved_def)
  obtain c2 where a: "pool_ok {} (shared_add v ?add ?q1)" "mp_sharedConsumer (shared_add v ?add ?q1) = Some c2" "grows c1 c2"
      "set ?add \<subseteq> set (kf_added (pk_state c2))" "set (mp_sharedTopics (shared_add v ?add ?q1)) \<subseteq> set (mp_sharedTopics ?q1) \<union> set ?add"
      "crossed ?q1 \<longrightarrow> crossed (shared_add v ?add ?q1)"
    by (rule shared_add_post [OF gap_ok [OF s(1)] c1(1) fresh, of v]) blast
  obtain c3 where c3: "mp_sharedConsumer ?q3 = Some c3" "same_consumer c2 c3" using gap_consumer [OF a(2)] .
  have m3: "moved (shared_add v ?add ?q1) ?q3" by (rule gap_frame(1))
  have p': "b" "p' = shared_remove v ?rem ?q3" using u c1 by (auto simp: updateSharedConsumer_def sn Let_def)
  obtain c' where r: "pool_ok {} p'" "mp_sharedConsumer p' = Some c'" "grows c3 c'" "set ?rem \<subseteq> set (kf_paused (pk_state c'))"
      "set (mp_sharedTopics p') \<subseteq> set (mp_sharedTopics ?q3) - set ?rem" "crossed ?q3 \<longrightarrow> crossed p'"
    unfolding p'(2) by (rule shared_remove_post [OF gap_ok [OF a(1)] c3(1), of v ?rem]) blast
  have gr: "grows c c'" "grows c2 c'"
    using grows_trans [OF grows_trans [OF same_grows [OF c1(2)] a(3)] grows_trans [OF same_grows [OF c3(2)] r(3)]] grows_trans [OF same_grows [OF c3(2)] r(3)] .
  have "crossed p \<longrightarrow> crossed p'" using s(5) m1 a(6) m3 r(6) by (auto simp: moved_def)
  moreover have "set (mp_sharedTopics p') \<subseteq> set topics"
  proof -
    have "set (mp_sharedTopics ?q3) \<subseteq> set (mp_sharedTopics q) \<union> set newTopics" using m3 m1 a(5) unfolding moved_def by (auto dest!: subsetD)
    then have "set (mp_sharedTopics p') \<subseteq> set newTopics" using r(5) by auto
    then show ?thesis using s(2) by blast
  qed
  moreover have "set (mp_sharedTopics p) - set topics \<subseteq> set (kf_paused (pk_state c'))" using r(4) s(2,3) by auto
  moreover have "set topics - set (mp_blockedSharedTopics p) \<subseteq> set (pk_Topics c' @ kf_added (pk_state c'))"
  proof
    fix t assume "t \<in> set topics - set (mp_blockedSharedTopics p)"
    then have "t \<in> set (mp_sharedTopics p) \<or> t \<in> set ?add" using s(2,3) by auto
    then show "t \<in> set (pk_Topics c' @ kf_added (pk_state c'))"
      using pool_ok_Some [OF ok c] a(4) gr by (auto simp: shared_ok_def grows_def)
  qed
  ultimately show thesis using that [OF p'(1) r(1,2) gr(1)] by blast
qed

text \<open>The first update that has topics creates the shared consumer.\<close>

lemma update_first:
  assumes ok: "pool_ok {} p" and n: "mp_sharedConsumer p = None" and u: "updateSharedConsumer v topics p = (b, p')"
  shows "pool_ok {} p' \<and> (crossed p \<longrightarrow> crossed p') \<and>
     (b \<longrightarrow> set (mp_sharedTopics p') \<subseteq> set topics \<and>
        (case mp_sharedConsumer p' of None \<Rightarrow> topics = [] | Some c \<Rightarrow> set topics \<subseteq> set (pk_Topics c @ kf_added (pk_state c))))"
proof -
  obtain q newTopics where sn: "shared_snapshot topics p = (q, newTopics)" by fastforce
  note s = shared_snapshot_post [OF ok sn]
  have z: "mp_sharedTopics p = []" "mp_blockedSharedTopics p = []" using ok n by (auto simp: pool_ok_def topics_ok_def)
  have nq: "mp_sharedConsumer (gap v 1 q) = None" using gap_frame(2) [of q v 1] s(4) n by simp
  have m: "crossed p \<longrightarrow> crossed (gap v 1 q)" "mp_sharedTopics (gap v 1 q) = []" using gap_frame(1) [of q v 1] s(3,5) z by (auto simp: moved_def)
  show ?thesis
  proof (cases "newTopics = []")
    case True
    then have t: "topics = []" using s(2) z by simp
    have "p' = gap v 3 (gap v 1 q)" using u nq True s(3) z t unfolding updateSharedConsumer_def sn
      by (simp add: Let_def shared_add_def shared_remove_def)
    moreover have "crossed (gap v 1 q) \<longrightarrow> crossed (gap v 3 (gap v 1 q))" "mp_sharedTopics (gap v 3 (gap v 1 q)) = []"
      "mp_sharedConsumer (gap v 3 (gap v 1 q)) = None"
      using gap_frame(1) [of "gap v 1 q" v 3] m gap_frame(2) [of "gap v 1 q" v 3] nq by (auto simp: moved_def)
    ultimately show ?thesis using t m gap_ok [OF gap_ok [OF s(1)], of v 3 v 1] by simp
  next
    case False
    then have "shared_create v newTopics (gap v 1 q) = (b, p')" using u nq by (simp add: updateSharedConsumer_def sn Let_def)
    from shared_create_post [OF gap_ok [OF s(1)] nq this] show ?thesis using m s(2) z by (auto split: if_splits)
  qed
qed

section \<open>A whole refresh\<close>

lemma pool_ok_frame [simp]:
  "pool_ok X (p\<lparr>mp_topicTenants := m\<rparr>) = pool_ok X p" "pool_ok X (p\<lparr>refreshCount := n\<rparr>) = pool_ok X p" "pool_ok X (p\<lparr>refreshErrors := n\<rparr>) = pool_ok X p"
  "pool_ok X (p\<lparr>mp_refreshPending := b\<rparr>) = pool_ok X p" "pool_ok X (p\<lparr>messagesRouted := n\<rparr>) = pool_ok X p" "pool_ok X (p\<lparr>messagesDropped := n\<rparr>) = pool_ok X p"
  "pool_ok X (p\<lparr>mp_stopped := st, topicsSubscribed := n, dedicatedCount := n'\<rparr>) = pool_ok X p" "pool_ok X (p\<lparr>mp_cancelled := b, mp_stopped := st\<rparr>) = pool_ok X p"
  by (simp_all add: pool_ok_def topics_ok_def shared_ok_def dedicated_ok_def disjoint_topics_def crossed_def split: option.splits)

lemma crossed_frame [simp]:
  "crossed (p\<lparr>mp_topicTenants := m\<rparr>) = crossed p" "crossed (p\<lparr>refreshCount := n\<rparr>) = crossed p" "crossed (p\<lparr>refreshErrors := n\<rparr>) = crossed p"
  "crossed (p\<lparr>mp_refreshPending := b\<rparr>) = crossed p" "crossed (p\<lparr>mp_stopped := st, topicsSubscribed := n, dedicatedCount := n'\<rparr>) = crossed p"
  by (simp_all add: crossed_def)

text \<open>What the update of the dedicated consumers keeps, of the shared one and of the tenants that stay.\<close>

definition undisturbed :: "string set \<Rightarrow> consumer_pool \<Rightarrow> consumer_pool \<Rightarrow> bool" where
  "undisturbed S p p' \<longleftrightarrow> pool_ok {} p' \<and> moved p p' \<and> rel_option same_consumer (mp_sharedConsumer p) (mp_sharedConsumer p') \<and>
     (\<forall>tn\<in>S. \<forall>c. map_of (mp_dedicatedConsumers p) tn = Some c \<longrightarrow> (\<exists>c'. map_of (mp_dedicatedConsumers p') tn = Some c' \<and> same_consumer c c'))"

lemma undisturbed_trans: "undisturbed S p q \<Longrightarrow> undisturbed S q r \<Longrightarrow> undisturbed S p r"
  unfolding undisturbed_def by (meson moved_trans rel_option_same_trans same_consumer_trans)

lemma undisturbed_gap: "pool_ok {} p \<Longrightarrow> undisturbed S p (gap v i p)"
proof -
  assume "pool_ok {} p"
  moreover have "\<exists>c'. map_of (mp_dedicatedConsumers (gap v i p)) tn = Some c' \<and> same_consumer c c'" if "map_of (mp_dedicatedConsumers p) tn = Some c" for tn c
    using gap_frame(3) [of p v i] that unfolding same_tenants_def by (metis option_rel_Some1)
  ultimately show ?thesis using gap_frame [of p v i] gap_ok [of "{}" p v i] by (simp add: undisturbed_def)
qed

lemma undisturbed_new:
  assumes ok: "pool_ok {} p" and "map_of (mp_dedicatedConsumers p) tn = None" and "pk_ConsumerType c = ConsumerTypeKindDedicated"
    and e: "consumer_errors c errs p = (c', p')"
  shows "undisturbed S p (p'\<lparr>mp_dedicatedConsumers := AList.update tn c' (mp_dedicatedConsumers p')\<rparr>)"
proof -
  note fr = consumer_errors_frame [OF e]
  have "pk_ConsumerType c' = ConsumerTypeKindDedicated" using fr(1) assms(3) by (simp add: same_consumer_def)
  moreover have "dedicated_ok p'" using ok fr(4) by (simp add: pool_ok_def dedicated_ok_def)
  ultimately have "pool_ok {} (p'\<lparr>mp_dedicatedConsumers := AList.update tn c' (mp_dedicatedConsumers p')\<rparr>)"
    using ok other_topics_ok [OF _ assms(3) e] dedicated_ok_update by (simp add: pool_ok_def)
  then show ?thesis using fr assms(2) by (auto simp: undisturbed_def update_conv)
qed

lemma undisturbed_topics [simp]: "undisturbed S p (q\<lparr>mp_dedicatedTopics := z\<rparr>) = undisturbed S p q"
  by (simp add: undisturbed_def pool_ok_def)

lemma create_dedicated_post: "pool_ok {} p \<Longrightarrow> undisturbed S p (create_dedicated v i tenants p)"
proof (induction v i tenants p rule: create_dedicated.induct)
  case (1 v i p) then show ?case by (simp add: undisturbed_def)
next
  case (2 v i tn topics tenants p)
  let ?skip = "map_of (mp_dedicatedConsumers p) tn \<noteq> None \<or> topics = [] \<or> \<not> re_created v (dedicated_group p tn) \<or> \<not> re_started v (dedicated_group p tn)"
  show ?case
  proof (cases ?skip)
    case True then show ?thesis using 2 by auto
  next
    case False
    let ?c = "new_consumer (dedicated_group p tn) ConsumerTypeKindDedicated topics"
    obtain c q where e: "consumer_errors ?c (re_newErrs v (dedicated_group p tn)) p = (c, q)" by fastforce
    let ?q = "q\<lparr>mp_dedicatedConsumers := AList.update tn c (mp_dedicatedConsumers q)\<rparr>"
    let ?r = "(gap v i ?q)\<lparr>mp_dedicatedTopics := fold (\<lambda>t. AList.update t tn) topics (mp_dedicatedTopics (gap v i ?q))\<rparr>"
    have a: "undisturbed S p ?q" by (rule undisturbed_new [OF 2(6) _ _ e]) (use False in \<open>simp_all add: new_consumer_def\<close>)
    then have "pool_ok {} ?q" by (simp add: undisturbed_def)
    then have b: "undisturbed S p ?r" using undisturbed_trans [OF a undisturbed_gap] by simp
    then have "pool_ok {} ?r" by (simp add: undisturbed_def)
    then have "undisturbed S ?r (create_dedicated v (i + 1) tenants ?r)" using 2(5) [OF _ _ _ _ e [symmetric] refl] False by simp
    with b have "undisturbed S p (create_dedicated v (i + 1) tenants ?r)" by (rule undisturbed_trans)
    then show ?thesis using False e by (simp add: Let_def)
  qed
qed

lemma map_of_filter_keys: "map_of (filter (\<lambda>e. fst e \<in> S) al) k = (if k \<in> S then map_of al k else None)"
  by (induction al) auto

lemma updateDedicated_post:
  assumes ok: "pool_ok {} p" and u: "updateDedicatedConsumers v tenants p = (p', toStop)"
  shows "undisturbed (fst ` set tenants) p p'"
proof -
  let ?q = "fst (drop_dedicated (map fst tenants) (gap v 5 p))"
  have "pool_ok {} (gap v 5 p)" by (rule gap_ok [OF ok])
  then have "undisturbed (fst ` set tenants) (gap v 5 p) ?q"
    by (auto simp: undisturbed_def drop_dedicated_def pool_ok_def dedicated_ok_def map_of_filter_keys)
  then have a: "undisturbed (fst ` set tenants) p ?q" using undisturbed_trans [OF undisturbed_gap [OF ok]] by blast
  then have "pool_ok {} ?q" by (simp add: undisturbed_def)
  from undisturbed_trans [OF a create_dedicated_post [OF this]] show ?thesis
    using u by (auto simp: updateDedicatedConsumers_def split: prod.splits)
qed

definition refresh_begin :: "refresh_env \<Rightarrow> (string \<rightharpoonup> string) \<Rightarrow> consumer_pool \<Rightarrow> consumer_pool" where
  "refresh_begin v owners p = gap v 0 (p\<lparr>refreshCount := refreshCount p + 1, mp_topicTenants := Some owners\<rparr>)"

lemma refreshTopics_None:
  assumes "refreshTopics v p = (None, p')"
  obtains topics tenants owners q r toStop where "re_shared v = Some topics" "re_dedicated v = Some tenants" "re_tenants v = Some owners"
    "updateSharedConsumer v topics (refresh_begin v owners p) = (True, q)" "updateDedicatedConsumers v tenants q = (r, toStop)"
    "mp_sharedConsumer p' = mp_sharedConsumer r" "crossed p' = crossed r" "pool_ok {} p' = pool_ok {} r"
    "mp_sharedTopics p' = mp_sharedTopics r" "mp_dedicatedConsumers p' = mp_dedicatedConsumers r" "mp_topicTenants p' = mp_topicTenants r"
proof -
  obtain topics tenants owners where e: "re_shared v = Some topics" "re_dedicated v = Some tenants" "re_tenants v = Some owners"
    using assms by (auto simp: refreshTopics_def Let_def split: option.splits)
  obtain b q where u: "updateSharedConsumer v topics (refresh_begin v owners p) = (b, q)" by fastforce
  obtain r toStop where d: "updateDedicatedConsumers v tenants q = (r, toStop)" by fastforce
  have "b" "p' = r\<lparr>mp_stopped := mp_stopped r @ map (pk_ConsumerGroup \<circ> snd) toStop, topicsSubscribed := length (mp_sharedTopics r),
      dedicatedCount := length (mp_dedicatedConsumers r)\<rparr>"
    using assms e u d by (auto simp: refreshTopics_def refresh_begin_def Let_def split: bool.splits)
  then show thesis using that [OF e] u d by simp
qed

text \<open>After a refresh the shared consumer fetches exactly the registered topics it has not paused.\<close>

lemma refresh_post:
  assumes ok: "pool_ok {} p" and r: "refreshTopics v p = (None, p')" and sh: "re_shared v = Some topics" and nc: "\<not> crossed p'"
  shows "case mp_sharedConsumer p' of
           None \<Rightarrow> topics = []
         | Some c \<Rightarrow> \<forall>t. fetches c t \<longleftrightarrow> t \<in> set topics \<and> t \<notin> set (kf_paused (pk_state c))"
proof -
  obtain tenants owners q r toStop where u: "updateSharedConsumer v topics (refresh_begin v owners p) = (True, q)"
      and d: "updateDedicatedConsumers v tenants q = (r, toStop)" and p': "mp_sharedConsumer p' = mp_sharedConsumer r" "crossed p' = crossed r"
        "pool_ok {} p' = pool_ok {} r" "mp_sharedTopics p' = mp_sharedTopics r"
    by (rule refreshTopics_None [OF r]) (use sh in auto)
  let ?p0 = "refresh_begin v owners p"
  have ok0: "pool_ok {} ?p0" unfolding refresh_begin_def by (rule gap_ok) (use ok in simp)
  have qok: "pool_ok {} q" "crossed ?p0 \<longrightarrow> crossed q" "set (mp_sharedTopics q) \<subseteq> set topics"
    using update_existing [OF ok0 _ u] update_first [OF ok0 _ u] by (metis option.exhaust)+
  note un = updateDedicated_post [OF qok(1) d]
  have ok': "pool_ok {} p'" "moved q r" using un p' by (simp_all add: undisturbed_def)
  show ?thesis
  proof (cases "mp_sharedConsumer q")
    case None
    then have n: "mp_sharedConsumer p' = None" using un p'(1) by (auto simp: undisturbed_def)
    have "mp_sharedConsumer ?p0 = None" using None update_existing [OF ok0 _ u] by (metis option.distinct(1) option.exhaust)
    then show ?thesis using update_first [OF ok0 _ u] None n by simp
  next
    case (Some c1)
    then obtain c where c: "mp_sharedConsumer p' = Some c" "same_consumer c1 c" using un p'(1) by (auto simp: undisturbed_def option_rel_Some1)
    have sub: "set (mp_sharedTopics p') \<subseteq> set topics" using qok(3) ok'(2) p'(4) by (auto simp: moved_def)
    have known: "t \<in> set (pk_Topics c1 @ kf_added (pk_state c1)) \<or> t \<in> set (kf_paused (pk_state c))" if t: "t \<in> set topics" for t
    proof (cases "mp_sharedConsumer ?p0")
      case None with update_first [OF ok0 None u] Some t show ?thesis by auto
    next
      case (Some c0)
      obtain c2 where c2: "mp_sharedConsumer q = Some c2" "grows c0 c2" "set topics - set (mp_blockedSharedTopics ?p0) \<subseteq> set (pk_Topics c2 @ kf_added (pk_state c2))"
        using update_existing [OF ok0 Some u] by metis
      have "\<not> crossed ?p0" using nc p'(2) ok'(2) qok(2) by (auto simp: moved_def)
      then have "set (mp_blockedSharedTopics ?p0) \<subseteq> set (kf_paused (pk_state c0))" using pool_ok_Some [OF ok0 Some] by (simp add: shared_ok_def)
      moreover have "c1 = c2" "set (kf_paused (pk_state c0)) \<subseteq> set (kf_paused (pk_state c))"
        using c2 \<open>mp_sharedConsumer q = Some c1\<close> c(2) by (auto simp: grows_def same_consumer_def)
      ultimately show ?thesis using c2(3) t by blast
    qed
    have "\<forall>t. fetches c t \<longrightarrow> t \<in> set (mp_sharedTopics p')" using pool_ok_Some [OF ok'(1) c(1)] nc by (simp add: shared_ok_def)
    then have "fetches c t \<longleftrightarrow> t \<in> set topics \<and> t \<notin> set (kf_paused (pk_state c))" for t
      using sub known [of t] c(2) by (auto simp: fetches_def same_consumer_def)
    then show ?thesis using c(1) by simp
  qed
qed

text \<open>A refresh, failed or not, keeps the invariant, keeps the shared consumer and resumes nothing.\<close>

lemma refresh_keeps:
  assumes ok: "pool_ok {} p" and r: "refreshTopics v p = (e, p')"
  shows "pool_ok {} p'" and "mp_sharedConsumer p = Some c \<Longrightarrow> \<exists>c'. mp_sharedConsumer p' = Some c' \<and> grows c c'"
    and "crossed p \<longrightarrow> crossed p'"
proof -
  have "pool_ok {} p' \<and> (crossed p \<longrightarrow> crossed p') \<and> (\<forall>c. mp_sharedConsumer p = Some c \<longrightarrow> (\<exists>c'. mp_sharedConsumer p' = Some c' \<and> grows c c'))"
  proof (cases "\<exists>topics tenants owners. re_shared v = Some topics \<and> re_dedicated v = Some tenants \<and> re_tenants v = Some owners")
    case False
    then have "p' = p\<lparr>refreshCount := refreshCount p + 1\<rparr>" using r by (auto simp: refreshTopics_def Let_def split: option.splits)
    then show ?thesis using ok by simp
  next
    case True
    then obtain topics tenants owners where v: "re_shared v = Some topics" "re_dedicated v = Some tenants" "re_tenants v = Some owners" by blast
    let ?p0 = "refresh_begin v owners p"
    obtain b q where u: "updateSharedConsumer v topics ?p0 = (b, q)" by fastforce
    obtain d toStop where d: "updateDedicatedConsumers v tenants q = (d, toStop)" by fastforce
    have m0: "pool_ok {} ?p0" "crossed p \<longrightarrow> crossed ?p0" "rel_option same_consumer (mp_sharedConsumer p) (mp_sharedConsumer ?p0)"
      using gap_ok [of "{}" "p\<lparr>refreshCount := refreshCount p + 1, mp_topicTenants := Some owners\<rparr>" v 0] ok
        gap_frame(1,2) [of "p\<lparr>refreshCount := refreshCount p + 1, mp_topicTenants := Some owners\<rparr>" v 0] by (auto simp: refresh_begin_def moved_def)
    have q: "pool_ok {} q" "crossed ?p0 \<longrightarrow> crossed q" using update_existing [OF m0(1) _ u] update_first [OF m0(1) _ u] by (metis option.exhaust)+
    have qc: "\<exists>c'. mp_sharedConsumer q = Some c' \<and> grows c c'" if pc: "mp_sharedConsumer p = Some c" for c
    proof -
      obtain c0 where c0: "mp_sharedConsumer ?p0 = Some c0" "same_consumer c c0" using m0(3) unfolding pc by (auto simp: option_rel_Some1)
      obtain c' where "mp_sharedConsumer q = Some c'" "grows c0 c'" using update_existing [OF m0(1) c0(1) u] by metis
      then show ?thesis using grows_trans [OF same_grows [OF c0(2)]] by blast
    qed
    note un = updateDedicated_post [OF q(1) d, unfolded undisturbed_def]
    show ?thesis
    proof (cases b)
      case False
      then have "p' = q" using r v u by (auto simp: refreshTopics_def refresh_begin_def Let_def)
      then show ?thesis using q m0(2) qc by blast
    next
      case True
      then have p': "p' = d\<lparr>mp_stopped := mp_stopped d @ map (pk_ConsumerGroup \<circ> snd) toStop, topicsSubscribed := length (mp_sharedTopics d),
          dedicatedCount := length (mp_dedicatedConsumers d)\<rparr>" using r v u d by (auto simp: refreshTopics_def refresh_begin_def Let_def)
      have "\<exists>c'. mp_sharedConsumer d = Some c' \<and> grows c c'" if "mp_sharedConsumer p = Some c" for c
        using qc [OF that] un by (metis grows_trans option_rel_Some1 same_grows)
      then show ?thesis using un q(2) m0(2) by (auto simp: p' moved_def)
    qed
  qed
  then show "pool_ok {} p'" "mp_sharedConsumer p = Some c \<Longrightarrow> \<exists>c'. mp_sharedConsumer p' = Some c' \<and> grows c c'" "crossed p \<longrightarrow> crossed p'" by blast+
qed

section \<open>The pool over time\<close>

text \<open>
  The steps: refreshes whose environment satisfies \<open>Q\<close>, the first of them in \<open>Start\<close> and the others in the loop, reports of the consumers,
  refresh requests, messages, and the end.
\<close>

inductive pool_step :: "(refresh_env \<Rightarrow> bool) \<Rightarrow> consumer_pool \<Rightarrow> consumer_pool \<Rightarrow> bool" for Q where
  pool_start: "Q v \<Longrightarrow> refreshTopics v p = (e, p') \<Longrightarrow> pool_step Q p p'"
| pool_turn: "Q v \<Longrightarrow> refreshLoop_turn tick v p = Some p' \<Longrightarrow> pool_step Q p p'"
| pool_report: "pool_step Q p (report r p)"
| pool_request: "pool_step Q p (RefreshTopics p)"
| pool_route: "routeMessage now reply subject message topicName part offset p b = (go, p', b') \<Longrightarrow> pool_step Q p p'"
| pool_stop: "pool_step Q p (Stop_pool p)"

definition pool_reachable :: "consumer_pool \<Rightarrow> bool" where
  "pool_reachable p \<longleftrightarrow> (\<exists>brokers namespace environment p0. NewMultiTenantConsumerPool brokers namespace True True True environment = Inr p0 \<and>
     (pool_step (\<lambda>_. True))\<^sup>*\<^sup>* p0 p)"

lemma routeMessage_pool:
  assumes "routeMessage now reply subject message topicName part offset p b = (go, p', b')"
  shows "\<exists>n m. p' = p\<lparr>messagesRouted := n, messagesDropped := m\<rparr>"
proof -
  have "p' \<in> {p, p\<lparr>messagesDropped := messagesDropped p + 1\<rparr>, p\<lparr>messagesRouted := messagesRouted p + 1\<rparr>}"
    using assms by (auto simp: routeMessage_def split: prod.splits option.splits bus_error.splits)
  then show ?thesis
    by (elim insertE) (rule exI [of _ "messagesRouted p'"], rule exI [of _ "messagesDropped p'"], simp)+
qed

lemma pool_step_keeps:
  assumes "pool_step Q p p'" and "pool_ok {} p"
  shows "pool_ok {} p' \<and> (crossed p \<longrightarrow> crossed p') \<and> (\<forall>c. mp_sharedConsumer p = Some c \<longrightarrow> (\<exists>c'. mp_sharedConsumer p' = Some c' \<and> grows c c'))"
  using assms
proof cases
  case (pool_start v e)
  then show ?thesis using refresh_keeps [OF assms(2) pool_start(2)] by blast
next
  case (pool_turn v tick)
  obtain e q where r: "refreshTopics v (if tick then p else p\<lparr>mp_refreshPending := False\<rparr>) = (e, q)" by fastforce
  have "p' = q \<or> p' = q\<lparr>refreshErrors := refreshErrors q + 1\<rparr>" using pool_turn(2) r by (auto simp: refreshLoop_turn_def split: if_splits option.splits)
  moreover have "pool_ok {} (if tick then p else p\<lparr>mp_refreshPending := False\<rparr>)" using assms(2) by simp
  moreover have "crossed (if tick then p else p\<lparr>mp_refreshPending := False\<rparr>) = crossed p"
    "mp_sharedConsumer (if tick then p else p\<lparr>mp_refreshPending := False\<rparr>) = mp_sharedConsumer p" by simp_all
  ultimately show ?thesis using refresh_keeps [OF _ r] by (auto simp del: if_split)
next
  case (pool_report r)
  have "\<exists>c'. mp_sharedConsumer (report r p) = Some c' \<and> grows c c'" if "mp_sharedConsumer p = Some c" for c
    using report_frame(2) [of p r] same_grows unfolding that by (auto simp: option_rel_Some1)
  then show ?thesis using report_ok [OF assms(2)] report_frame(1) [of p r] pool_report by (auto simp: moved_def)
next
  case pool_request then show ?thesis using assms(2) by (simp add: RefreshTopics_def)
next
  case (pool_route now reply subject message topicName part offset b go b')
  then show ?thesis using routeMessage_pool [OF pool_route] assms(2) by (auto simp: crossed_def)
next
  case pool_stop then show ?thesis using assms(2) by (simp add: Stop_pool_def crossed_def)
qed

lemma pool_run_keeps:
  assumes "(pool_step Q)\<^sup>*\<^sup>* p p'" and "pool_ok {} p"
  shows "pool_ok {} p' \<and> (crossed p \<longrightarrow> crossed p') \<and> (\<forall>c. mp_sharedConsumer p = Some c \<longrightarrow> (\<exists>c'. mp_sharedConsumer p' = Some c' \<and> grows c c'))"
  using assms
proof (induction rule: rtranclp_induct)
  case base then show ?case by auto
next
  case (step q r) then show ?case using pool_step_keeps [OF step(2)] by (meson grows_trans)
qed

lemma pool_reachable_ok: "pool_reachable p \<Longrightarrow> pool_ok {} p"
proof -
  assume "pool_reachable p"
  then obtain brokers namespace environment p0 where "NewMultiTenantConsumerPool brokers namespace True True True environment = Inr p0" "(pool_step (\<lambda>_. True))\<^sup>*\<^sup>* p0 p"
    by (auto simp: pool_reachable_def)
  moreover have "pool_ok {} p0" using calculation(1)
    by (auto simp: NewMultiTenantConsumerPool_def pool_ok_def topics_ok_def disjoint_topics_def dedicated_ok_def split: if_splits)
  ultimately show ?thesis using pool_run_keeps by blast
qed

section \<open>Dedicated tenants\<close>

lemma same_tenants_refl [simp]: "same_tenants p p" by (simp add: same_tenants_def)

lemma same_tenants_frame [simp]:
  "same_tenants p (q\<lparr>mp_sharedConsumer := x\<rparr>) = same_tenants p q" "same_tenants p (q\<lparr>mp_sharedTopics := y\<rparr>) = same_tenants p q"
  "same_tenants (p\<lparr>mp_blockedSharedTopics := z\<rparr>) q = same_tenants p q" "same_tenants p (with_shared f q) = same_tenants p q"
  "same_tenants p (shared_commit ts q) = same_tenants p q"
  by (simp_all add: same_tenants_def with_shared_def shared_commit_def)

lemma same_tenants_gap: "same_tenants p q \<Longrightarrow> same_tenants p (gap v i q)"
  using gap_frame(3) same_tenants_trans by blast

lemma updateShared_tenants:
  assumes "updateSharedConsumer v topics p = (b, p')"
  shows "same_tenants p p'"
proof -
  obtain q newTopics where sn: "shared_snapshot topics p = (q, newTopics)" by fastforce
  have q: "same_tenants p q" using sn by (auto simp: shared_snapshot_def Let_def same_tenants_def)
  have cr: "same_tenants r r'" if cr: "shared_create v newTopics r = (b, r')" for r b r'
  proof (cases "re_created v (shared_group r) \<and> re_started v (shared_group r)")
    case False then show ?thesis using cr by (auto simp: shared_create_def split: if_splits)
  next
    case True
    obtain c1 r1 where e: "consumer_errors (new_consumer (shared_group r) ConsumerTypeKindShared newTopics) (re_newErrs v (shared_group r)) r = (c1, r1)" by fastforce
    have "same_tenants r r1" using consumer_errors_frame(4) [OF e] by (simp add: same_tenants_def)
    then show ?thesis using cr True e same_tenants_gap [of r "r1\<lparr>mp_sharedConsumer := Some c1\<rparr>"] by (auto simp: shared_create_def)
  qed
  have add: "same_tenants p r \<Longrightarrow> same_tenants p (shared_add v ts r)" and rm: "same_tenants p r \<Longrightarrow> same_tenants p (shared_remove v ts r)" for r ts
    by (simp_all add: shared_add_def shared_remove_def Let_def same_tenants_gap)
  have g: "same_tenants p (gap v 1 q)" by (rule same_tenants_gap [OF q])
  consider "p' = gap v 1 q" | "shared_create v newTopics (gap v 1 q) = (b, p')"
    | ts ts' where "p' = shared_remove v ts (gap v 3 (shared_add v ts' (gap v 1 q)))"
    using assms unfolding updateSharedConsumer_def sn by (auto simp: Let_def split: if_splits)
  then show ?thesis
  proof cases
    case 2 then show ?thesis using same_tenants_trans [OF g] cr by blast
  qed (use g rm [OF same_tenants_gap [OF add [OF g]]] in simp_all)
qed

definition still_lists :: "string \<Rightarrow> refresh_env \<Rightarrow> bool" where
  "still_lists tn v \<longleftrightarrow> (case re_dedicated v of None \<Rightarrow> True | Some tenants \<Rightarrow> tn \<in> fst ` set tenants)"

lemma refresh_tenant:
  assumes ok: "pool_ok {} p" and r: "refreshTopics v p = (e, p')" and l: "still_lists tn v" and c: "map_of (mp_dedicatedConsumers p) tn = Some c"
  shows "\<exists>c'. map_of (mp_dedicatedConsumers p') tn = Some c' \<and> same_consumer c c'"
proof (cases "\<exists>topics tenants owners. re_shared v = Some topics \<and> re_dedicated v = Some tenants \<and> re_tenants v = Some owners")
  case False
  then have "p' = p\<lparr>refreshCount := refreshCount p + 1\<rparr>" using r by (auto simp: refreshTopics_def Let_def split: option.splits)
  then show ?thesis using c by simp
next
  case True
  then obtain topics tenants owners where v: "re_shared v = Some topics" "re_dedicated v = Some tenants" "re_tenants v = Some owners" by blast
  obtain b q where u: "updateSharedConsumer v topics (refresh_begin v owners p) = (b, q)" by fastforce
  obtain d toStop where d: "updateDedicatedConsumers v tenants q = (d, toStop)" by fastforce
  have ok0: "pool_ok {} (refresh_begin v owners p)" unfolding refresh_begin_def by (rule gap_ok) (use ok in simp)
  have q: "pool_ok {} q" using update_existing [OF ok0 _ u] update_first [OF ok0 _ u] by (metis option.exhaust)
  have "same_tenants p (refresh_begin v owners p)" unfolding refresh_begin_def by (rule same_tenants_gap) (simp add: same_tenants_def)
  from same_tenants_trans [OF this updateShared_tenants [OF u]] c
  obtain c1 where c1: "map_of (mp_dedicatedConsumers q) tn = Some c1" "same_consumer c c1" unfolding same_tenants_def by (metis option_rel_Some1)
  moreover have "tn \<in> fst ` set tenants" using l v by (simp add: still_lists_def)
  ultimately obtain c2 where c2: "map_of (mp_dedicatedConsumers d) tn = Some c2" "same_consumer c1 c2"
    using updateDedicated_post [OF q d] unfolding undisturbed_def by blast
  have "map_of (mp_dedicatedConsumers p') tn = map_of (mp_dedicatedConsumers q) tn \<or> map_of (mp_dedicatedConsumers p') tn = map_of (mp_dedicatedConsumers d) tn"
    using r v u d by (cases b) (auto simp: refreshTopics_def refresh_begin_def Let_def)
  then show ?thesis using c1 c2 same_consumer_trans by metis
qed

lemma pool_step_tenant:
  assumes "pool_step (still_lists tn) p p'" and "pool_ok {} p" and "map_of (mp_dedicatedConsumers p) tn = Some c"
  shows "\<exists>c'. map_of (mp_dedicatedConsumers p') tn = Some c' \<and> same_consumer c c'"
  using assms(1)
proof cases
  case (pool_start v e) then show ?thesis using refresh_tenant [OF assms(2)] assms(3) by blast
next
  case (pool_turn v tick)
  let ?p = "if tick then p else p\<lparr>mp_refreshPending := False\<rparr>"
  obtain e q where r: "refreshTopics v ?p = (e, q)" by fastforce
  have "pool_ok {} ?p" "map_of (mp_dedicatedConsumers ?p) tn = Some c" using assms by simp_all
  from refresh_tenant [OF this(1) r pool_turn(1) this(2)] pool_turn(2) r show ?thesis
    by (auto simp: refreshLoop_turn_def split: if_splits option.splits)
next
  case (pool_report r) then show ?thesis using report_frame(3) [of p r] assms(3) unfolding same_tenants_def by (metis option_rel_Some1)
next
  case pool_request then show ?thesis using assms(3) by (simp add: RefreshTopics_def)
next
  case (pool_route now reply subject message topicName part offset b go b')
  then show ?thesis using routeMessage_pool [OF pool_route] assms(3) by auto
next
  case pool_stop then show ?thesis using assms(3) by (simp add: Stop_pool_def)
qed

lemma pool_run_tenant:
  assumes "(pool_step (still_lists tn))\<^sup>*\<^sup>* p p'" and "pool_ok {} p" and "map_of (mp_dedicatedConsumers p) tn = Some c"
  shows "\<exists>c'. map_of (mp_dedicatedConsumers p') tn = Some c' \<and> same_consumer c c'"
  using assms(1)
proof (induction rule: rtranclp_induct)
  case base then show ?case using assms(3) by auto
next
  case (step q r)
  then show ?case using pool_step_tenant [OF step(2)] pool_run_keeps [OF step(1) assms(2)] same_consumer_trans by meson
qed

end
