(* ===== verification/Licensing.thy ===== *)
theory Licensing
  imports GoStrings
begin

text \<open>
  Editions, limits and licence reloads (\<^verbatim>\<open>internal/shared/license\<close>: edition.go, limits.go, features.go,
  license.go, manager.go, reload.go). Base64 decoding, ECDSA verification and the JSON decoding of the
  claims are parameters (the record \<open>license_lib\<close>), and so is the clock; everything the package decides
  itself is defined here. The manager's atomic pointers become one record: every writer holds \<open>reloadMu\<close>,
  so the sequence of reloads is a sequence of whole updates.
\<close>

section \<open>Editions\<close>

type_synonym Edition = string

definition Community :: Edition where "Community = ''community''"

definition Pro :: Edition where "Pro = ''pro''"

definition Enterprise :: Edition where "Enterprise = ''enterprise''"

lemmas edition_defs = Community_def Pro_def Enterprise_def

definition normalize :: "Edition \<Rightarrow> Edition" where
  "normalize e = (if e = [] then Community else e)"

text \<open>A missing key of the Go map reads as 0.\<close>

definition editionRank :: "Edition \<Rightarrow> nat" where
  "editionRank e = (if e = Enterprise then 2 else if e = Pro then 1 else 0)"

definition IsAtLeast :: "Edition \<Rightarrow> Edition \<Rightarrow> bool" where
  "IsAtLeast e other \<longleftrightarrow> editionRank (normalize e) \<ge> editionRank (normalize other)"

section \<open>Limits\<close>

record limits =
  lim_Edition :: Edition
  MaxTenants :: int
  MaxTotalConnections :: int
  MaxShards :: int
  MaxTopicsPerTenant :: int
  MaxRoutingRulesPerTenant :: int

definition DefaultLimits :: "Edition \<Rightarrow> limits" where
  "DefaultLimits edition =
     (let e = normalize edition
      in if e = Pro
         then \<lparr>lim_Edition = Pro, MaxTenants = 50, MaxTotalConnections = 10000, MaxShards = 8,
               MaxTopicsPerTenant = 50, MaxRoutingRulesPerTenant = 100\<rparr>
         else if e = Enterprise
         then \<lparr>lim_Edition = Enterprise, MaxTenants = 0, MaxTotalConnections = 0, MaxShards = 0,
               MaxTopicsPerTenant = 0, MaxRoutingRulesPerTenant = 0\<rparr>
         else \<lparr>lim_Edition = Community, MaxTenants = 3, MaxTotalConnections = 500, MaxShards = 1,
               MaxTopicsPerTenant = 10, MaxRoutingRulesPerTenant = 10\<rparr>)"

definition IsUnlimited :: "int \<Rightarrow> bool" where
  "IsUnlimited val \<longleftrightarrow> val = 0"

datatype edition_error =
    EditionLimitError string int int Edition
  | EditionFeatureError string Edition Edition

definition checkCount :: "limits \<Rightarrow> string \<Rightarrow> int \<Rightarrow> int \<Rightarrow> edition_error option" where
  "checkCount l dimension current limit =
     (if IsUnlimited limit then None
      else if current \<ge> limit then Some (EditionLimitError dimension current limit (lim_Edition l)) else None)"

definition checkValue :: "limits \<Rightarrow> string \<Rightarrow> int \<Rightarrow> int \<Rightarrow> edition_error option" where
  "checkValue l dimension current limit =
     (if IsUnlimited limit then None
      else if current > limit then Some (EditionLimitError dimension current limit (lim_Edition l)) else None)"

definition CheckTenants :: "limits \<Rightarrow> int \<Rightarrow> edition_error option" where
  "CheckTenants l current = checkCount l ''tenants'' current (MaxTenants l)"

definition CheckTotalConnections :: "limits \<Rightarrow> int \<Rightarrow> edition_error option" where
  "CheckTotalConnections l current = checkValue l ''total_connections'' current (MaxTotalConnections l)"

definition CheckShards :: "limits \<Rightarrow> int \<Rightarrow> edition_error option" where
  "CheckShards l current = checkValue l ''shards'' current (MaxShards l)"

definition CheckTopicsPerTenant :: "limits \<Rightarrow> int \<Rightarrow> edition_error option" where
  "CheckTopicsPerTenant l current = checkCount l ''topics_per_tenant'' current (MaxTopicsPerTenant l)"

definition CheckRoutingRulesPerTenant :: "limits \<Rightarrow> int \<Rightarrow> edition_error option" where
  "CheckRoutingRulesPerTenant l current =
     checkValue l ''routing_rules_per_tenant'' current (MaxRoutingRulesPerTenant l)"

definition dimensionCovers :: "int \<Rightarrow> int \<Rightarrow> bool" where
  "dimensionCovers have want \<longleftrightarrow>
     (if IsUnlimited have then True else if IsUnlimited want then False else have \<ge> want)"

definition CoversAtLeast :: "limits \<Rightarrow> limits \<Rightarrow> bool" where
  "CoversAtLeast l other \<longleftrightarrow>
     dimensionCovers (MaxTenants l) (MaxTenants other) \<and>
     dimensionCovers (MaxTotalConnections l) (MaxTotalConnections other) \<and>
     dimensionCovers (MaxShards l) (MaxShards other) \<and>
     dimensionCovers (MaxTopicsPerTenant l) (MaxTopicsPerTenant other) \<and>
     dimensionCovers (MaxRoutingRulesPerTenant l) (MaxRoutingRulesPerTenant other)"

section \<open>Features\<close>

text \<open>The table \<open>featureEditions\<close>; a feature it does not list is Community.\<close>

definition featureEditions :: "(string \<times> Edition) list" where
  "featureEditions =
     map (\<lambda>f. (f, Community)) [''CHANNEL_RULES'', ''MESSAGE_BACKEND=kafka'', ''message history'',
       ''live gap recovery'', ''REST publish'', ''CHANNEL_TOPIC_ROUTING''] @
     map (\<lambda>f. (f, Pro)) [''TENANT_CONNECTION_LIMIT_ENABLED'', ''ALERT_ENABLED'',
       ''per-tenant configurable quotas'', ''tenant lifecycle manager'', ''connection tracing'',
       ''SSE transport'', ''real-time analytics'', ''admin UI'', ''token revocation'', ''webhook delivery'',
       ''connections management API'', ''web push notifications'', ''real-time analytics for push'',
       ''egress topics'', ''channel patterns (CEL)'', ''delta compression''] @
     map (\<lambda>f. (f, Enterprise)) [''audit logging'', ''mobile push notifications (FCM + APNs)'',
       ''per-tenant IP allowlisting'', ''priority message routing'', ''custom quota policies'']"

definition EgressTopicsFeature :: string where "EgressTopicsFeature = ''egress topics''"

definition RequiredEdition :: "string \<Rightarrow> Edition" where
  "RequiredEdition feature = (case map_of featureEditions feature of Some e \<Rightarrow> e | None \<Rightarrow> Community)"

definition EditionHasFeature :: "Edition \<Rightarrow> string \<Rightarrow> bool" where
  "EditionHasFeature edition feature = IsAtLeast edition (RequiredEdition feature)"

definition NewFeatureError :: "string \<Rightarrow> Edition \<Rightarrow> edition_error" where
  "NewFeatureError feature currentEdition =
     EditionFeatureError feature (RequiredEdition feature) currentEdition"

section \<open>Licence keys\<close>

record license_claims =
  lc_Edition :: Edition
  lc_Org :: string
  lc_Exp :: int
  lc_Iat :: int
  lc_Nodes :: int
  lc_Limits :: limits

record license_lib =
  ll_base64 :: "string \<Rightarrow> string option"
  ll_verify :: "string \<Rightarrow> string \<Rightarrow> string \<Rightarrow> bool"
  ll_unmarshal :: "string \<Rightarrow> license_claims option"

datatype license_error =
    ErrNoLicense | ErrLicenseExpired | ErrLicenseInvalidSignature | ErrLicenseInvalidFormat
  | ErrReplayDetected | ErrLicenseUnchanged

definition rawSigLen :: nat where "rawSigLen = 64"

definition IsExpired :: "int \<Rightarrow> license_claims \<Rightarrow> bool" where
  "IsExpired now c \<longleftrightarrow> now > lc_Exp c"

definition verifyRawSignature :: "license_lib \<Rightarrow> string \<Rightarrow> string \<Rightarrow> string \<Rightarrow> bool" where
  "verifyRawSignature lib key payload sig =
     (if length sig \<noteq> rawSigLen then False else ll_verify lib key payload sig)"

fun verifyAnyKey :: "license_lib \<Rightarrow> string list \<Rightarrow> string \<Rightarrow> string \<Rightarrow> bool" where
  "verifyAnyKey lib [] payload sig = False"
| "verifyAnyKey lib (k # ks) payload sig =
     (if verifyRawSignature lib k payload sig then True else verifyAnyKey lib ks payload sig)"

text \<open>
  \<open>SplitN(key, ".", 3)\<close> has two parts exactly when \<open>Split\<close> has, so the test on the number of parts is
  stated with \<open>Split\<close>.
\<close>

definition parseAndVerify :: "license_lib \<Rightarrow> string list \<Rightarrow> int \<Rightarrow> string \<Rightarrow> license_error + license_claims" where
  "parseAndVerify lib pubKeys now key =
     (case Split key ''.'' of
        [p, s] \<Rightarrow>
          (case ll_base64 lib p of
             None \<Rightarrow> Inl ErrLicenseInvalidFormat
           | Some payload \<Rightarrow>
               (case ll_base64 lib s of
                  None \<Rightarrow> Inl ErrLicenseInvalidFormat
                | Some sig \<Rightarrow>
                    if length sig \<noteq> rawSigLen then Inl ErrLicenseInvalidFormat
                    else if \<not> verifyAnyKey lib pubKeys payload sig then Inl ErrLicenseInvalidSignature
                    else case ll_unmarshal lib payload of
                           None \<Rightarrow> Inl ErrLicenseInvalidFormat
                         | Some c \<Rightarrow> if IsExpired now c then Inl ErrLicenseExpired else Inr c))
      | _ \<Rightarrow> Inl ErrLicenseInvalidFormat)"

section \<open>The manager\<close>

record license_manager =
  lm_edition :: Edition
  lm_limits :: limits
  lm_claims :: "license_claims option"

definition resolveLimits :: "Edition \<Rightarrow> limits \<Rightarrow> limits" where
  "resolveLimits edition c =
     (let d = DefaultLimits edition;
          d = (if MaxTenants c > 0 then d\<lparr>MaxTenants := MaxTenants c\<rparr> else d);
          d = (if MaxTotalConnections c > 0 then d\<lparr>MaxTotalConnections := MaxTotalConnections c\<rparr> else d);
          d = (if MaxShards c > 0 then d\<lparr>MaxShards := MaxShards c\<rparr> else d);
          d = (if MaxTopicsPerTenant c > 0 then d\<lparr>MaxTopicsPerTenant := MaxTopicsPerTenant c\<rparr> else d)
      in (if MaxRoutingRulesPerTenant c > 0
          then d\<lparr>MaxRoutingRulesPerTenant := MaxRoutingRulesPerTenant c\<rparr> else d))"

definition apply_claims :: "license_claims \<Rightarrow> license_manager" where
  "apply_claims c =
     (let edition = normalize (lc_Edition c)
      in \<lparr>lm_edition = edition, lm_limits = resolveLimits edition (lc_Limits c), lm_claims = Some c\<rparr>)"

definition NewManager :: "license_lib \<Rightarrow> string list \<Rightarrow> int \<Rightarrow> string \<Rightarrow> license_error + license_manager" where
  "NewManager lib pubKeys now key =
     (if key = [] then Inl ErrNoLicense
      else case parseAndVerify lib pubKeys now key of
             Inl e \<Rightarrow> Inl e
           | Inr c \<Rightarrow> Inr (apply_claims c))"

definition HasFeature :: "license_manager \<Rightarrow> string \<Rightarrow> bool" where
  "HasFeature m feature = EditionHasFeature (lm_edition m) feature"

definition claimsEqual :: "license_claims \<Rightarrow> license_claims \<Rightarrow> bool" where
  "claimsEqual a b \<longleftrightarrow> a = b"

definition classifyReplay :: "license_claims option \<Rightarrow> license_claims \<Rightarrow> license_error option" where
  "classifyReplay current incoming =
     (case current of
        None \<Rightarrow> None
      | Some c \<Rightarrow>
          if lc_Iat c = 0 then None
          else if lc_Iat incoming > lc_Iat c then None
          else if lc_Iat incoming = lc_Iat c \<and> claimsEqual c incoming then Some ErrLicenseUnchanged
          else Some ErrReplayDetected)"

definition parseAndCheckReplay ::
  "license_lib \<Rightarrow> string list \<Rightarrow> int \<Rightarrow> license_manager \<Rightarrow> string \<Rightarrow> license_error + license_claims" where
  "parseAndCheckReplay lib pubKeys now m key =
     (case parseAndVerify lib pubKeys now key of
        Inl e \<Rightarrow> Inl e
      | Inr c \<Rightarrow> (case classifyReplay (lm_claims m) c of Some e \<Rightarrow> Inl e | None \<Rightarrow> Inr c))"

definition Reload ::
  "license_lib \<Rightarrow> string list \<Rightarrow> int \<Rightarrow> string \<Rightarrow> license_manager \<Rightarrow> license_error option \<times> license_manager" where
  "Reload lib pubKeys now key m =
     (case parseAndCheckReplay lib pubKeys now m key of
        Inl e \<Rightarrow> (Some e, m)
      | Inr c \<Rightarrow> (None, apply_claims c))"

definition ReloadNoDowngrade ::
  "license_lib \<Rightarrow> string list \<Rightarrow> int \<Rightarrow> string \<Rightarrow> license_manager \<Rightarrow> (license_error + bool) \<times> license_manager" where
  "ReloadNoDowngrade lib pubKeys now key m =
     (case parseAndCheckReplay lib pubKeys now m key of
        Inl e \<Rightarrow> (Inl e, m)
      | Inr c \<Rightarrow>
          (let newEdition = normalize (lc_Edition c);
               newLimits = resolveLimits newEdition (lc_Limits c)
           in if \<not> IsAtLeast newEdition (lm_edition m) \<or> \<not> CoversAtLeast newLimits (lm_limits m)
              then (Inr False, m)
              else (Inr True, apply_claims c)))"

definition PreviewReload :: "license_manager \<Rightarrow> license_claims \<Rightarrow> license_error option" where
  "PreviewReload m c = classifyReplay (lm_claims m) c"

section \<open>Capacity as an order\<close>

text \<open>
  What a licence grants is compared dimension by dimension; unlimited is the top. The interface is a
  preorder on grants, and a manager that moves only upwards in it keeps everything it booted with.
\<close>

locale capacity_order =
  fixes covers :: "'g \<Rightarrow> 'g \<Rightarrow> bool"
  assumes covers_refl: "covers g g"
    and covers_trans: "covers g h \<Longrightarrow> covers h k \<Longrightarrow> covers g k"
begin

lemma covers_rtrancl: "(\<lambda>a b. b = a \<or> covers b a)\<^sup>*\<^sup>* g h \<Longrightarrow> covers h g"
  by (induction rule: rtranclp_induct) (auto intro: covers_refl covers_trans)

end

lemma dimensionCovers_trans: "dimensionCovers a b \<Longrightarrow> dimensionCovers b c \<Longrightarrow> dimensionCovers a c"
  by (auto simp: dimensionCovers_def split: if_splits)

definition grant_covers :: "Edition \<times> limits \<Rightarrow> Edition \<times> limits \<Rightarrow> bool" where
  "grant_covers g h \<longleftrightarrow> IsAtLeast (fst g) (fst h) \<and> CoversAtLeast (snd g) (snd h)"

interpretation grants: capacity_order grant_covers
proof
  fix g h k :: "Edition \<times> limits"
  show "grant_covers g g" by (simp add: grant_covers_def IsAtLeast_def CoversAtLeast_def dimensionCovers_def)
  assume "grant_covers g h" "grant_covers h k"
  then show "grant_covers g k"
    unfolding grant_covers_def IsAtLeast_def CoversAtLeast_def
    by (meson dimensionCovers_trans le_trans)
qed

definition granted :: "license_manager \<Rightarrow> Edition \<times> limits" where
  "granted m = (lm_edition m, lm_limits m)"

text \<open>The reload requests a running server handles, each with the clock at its arrival.\<close>

fun reload_all :: "license_lib \<Rightarrow> string list \<Rightarrow> (int \<times> string) list \<Rightarrow> license_manager \<Rightarrow> license_manager" where
  "reload_all lib pubKeys [] m = m"
| "reload_all lib pubKeys ((now, key) # rs) m =
     reload_all lib pubKeys rs (snd (ReloadNoDowngrade lib pubKeys now key m))"

lemma ReloadNoDowngrade_covers:
  "granted (snd (ReloadNoDowngrade lib pks now key m)) = granted m
   \<or> grant_covers (granted (snd (ReloadNoDowngrade lib pks now key m))) (granted m)"
  by (auto simp: ReloadNoDowngrade_def granted_def grant_covers_def apply_claims_def Let_def split: sum.splits)

lemma reload_all_covers: "grant_covers (granted (reload_all lib pks rs m)) (granted m)"
proof -
  have "(\<lambda>a b. b = a \<or> grant_covers b a)\<^sup>*\<^sup>* (granted m) (granted (reload_all lib pks rs m))"
  proof (induction rs arbitrary: m)
    case (Cons r rs)
    then show ?case using ReloadNoDowngrade_covers [of lib pks "fst r" "snd r" m]
      by (cases r) (auto intro: converse_rtranclp_into_rtranclp)
  qed simp
  then show ?thesis by (rule grants.covers_rtrancl)
qed

lemma checkValue_mono:
  "dimensionCovers b a \<Longrightarrow> checkValue l d n a = None \<Longrightarrow> checkValue l' d n b = None"
  by (auto simp: checkValue_def dimensionCovers_def split: if_splits)

lemma checkCount_mono:
  "dimensionCovers b a \<Longrightarrow> checkCount l d n a = None \<Longrightarrow> checkCount l' d n b = None"
  by (auto simp: checkCount_def dimensionCovers_def split: if_splits)

section \<open>Replay protection\<close>

lemma classifyReplay_newer:
  assumes "classifyReplay (Some c0) c = None" "0 < lc_Iat c0"
  shows "lc_Iat c0 < lc_Iat c"
  using assms by (simp add: classifyReplay_def split: if_splits)

lemma parseAndCheckReplay_newer:
  assumes "parseAndCheckReplay lib pks now m key = Inr c" "lm_claims m = Some c0" "0 < lc_Iat c0"
  shows "lc_Iat c0 < lc_Iat c"
proof (rule classifyReplay_newer [OF _ assms(3)])
  show "classifyReplay (Some c0) c = None"
    using assms(1,2) unfolding parseAndCheckReplay_def by (auto split: sum.splits option.splits)
qed

datatype reload_request = CallReload int string | CallReloadNoDowngrade int string

fun reload_call :: "license_lib \<Rightarrow> string list \<Rightarrow> reload_request \<Rightarrow> license_manager \<Rightarrow> license_manager" where
  "reload_call lib pks (CallReload now key) m = snd (Reload lib pks now key m)"
| "reload_call lib pks (CallReloadNoDowngrade now key) m = snd (ReloadNoDowngrade lib pks now key m)"

lemma reload_call_iat:
  assumes "lm_claims m = Some c" "0 < lc_Iat c"
  shows "reload_call lib pks r m = m \<or> (\<exists>c'. lm_claims (reload_call lib pks r m) = Some c' \<and> lc_Iat c < lc_Iat c')"
  using assms
  by (cases r) (auto simp: Reload_def ReloadNoDowngrade_def apply_claims_def Let_def split: sum.splits
      dest: parseAndCheckReplay_newer)

lemma fold_reload_iat:
  assumes "lm_claims m = Some c" "0 < lc_Iat c"
  shows "fold (reload_call lib pks) rs m = m
     \<or> (\<exists>c'. lm_claims (fold (reload_call lib pks) rs m) = Some c' \<and> lc_Iat c < lc_Iat c')"
  using assms
proof (induction rs arbitrary: m c)
  case (Cons r rs)
  let ?m = "reload_call lib pks r m"
  consider "?m = m" | c' where "lm_claims ?m = Some c'" "lc_Iat c < lc_Iat c'"
    using reload_call_iat [OF Cons.prems] by blast
  then show ?case
  proof cases
    case 1
    then show ?thesis using Cons by simp
  next
    case (2 c')
    with Cons.prems have "0 < lc_Iat c'" by simp
    from Cons.IH [OF 2(1) this] 2 show ?thesis by force
  qed
qed simp

section \<open>Properties\<close>

text \<open>A running server never loses capacity: whatever licence keys are pushed to it, in any order,
  the edition, every limit and every feature stay at least those it booted with, so a value that
  passed an edition check keeps passing it.\<close>

theorem license_never_downgrades:
  "IsAtLeast (lm_edition (reload_all lib pks rs m)) (lm_edition m)
   \<and> CoversAtLeast (lm_limits (reload_all lib pks rs m)) (lm_limits m)
   \<and> (HasFeature m f \<longrightarrow> HasFeature (reload_all lib pks rs m) f)
   \<and> (CheckTopicsPerTenant (lm_limits m) n = None \<longrightarrow> CheckTopicsPerTenant (lm_limits (reload_all lib pks rs m)) n = None)
   \<and> (CheckRoutingRulesPerTenant (lm_limits m) n = None \<longrightarrow>
        CheckRoutingRulesPerTenant (lm_limits (reload_all lib pks rs m)) n = None)
   \<and> (CheckTenants (lm_limits m) n = None \<longrightarrow> CheckTenants (lm_limits (reload_all lib pks rs m)) n = None)"
  using reload_all_covers [of lib pks rs m]
  by (auto simp: grant_covers_def granted_def HasFeature_def EditionHasFeature_def IsAtLeast_def CoversAtLeast_def
      CheckTopicsPerTenant_def CheckRoutingRulesPerTenant_def CheckTenants_def
      intro: checkCount_mono checkValue_mono)

definition demo_license :: "string \<Rightarrow> int \<Rightarrow> license_claims" where
  "demo_license e iat = \<lparr>lc_Edition = e, lc_Org = ''acme'', lc_Exp = 2000, lc_Iat = iat, lc_Nodes = 1,
     lc_Limits = \<lparr>lim_Edition = [], MaxTenants = 0, MaxTotalConnections = 0, MaxShards = 0,
                  MaxTopicsPerTenant = 0, MaxRoutingRulesPerTenant = 0\<rparr>\<rparr>"

text \<open>A library that accepts two payloads, \<open>p\<close> and \<open>e\<close>, under any signature of the right length.\<close>

definition demo_license_lib :: license_lib where
  "demo_license_lib = \<lparr>ll_base64 = (\<lambda>s. if s = ''s'' then Some (replicate 64 (CHR ''x'')) else Some s),
     ll_verify = (\<lambda>k p s. True),
     ll_unmarshal = (\<lambda>p. if p = ''p'' then Some (demo_license ''pro'' 10) else if p = ''e'' then Some (demo_license ''enterprise'' 20) else None)\<rparr>"

text \<open>\<open>normalize\<close> and the defaults on the two demo editions.\<close>

lemma demo_parses:
  "parseAndVerify demo_license_lib [''k''] 100 ''p.s'' = Inr (demo_license ''pro'' 10)"
  "parseAndVerify demo_license_lib [''k''] 100 ''e.s'' = Inr (demo_license ''enterprise'' 20)"
  by code_simp+

theorem license_never_downgrades_witness:
  "CheckTenants (lm_limits (apply_claims (demo_license ''enterprise'' 20))) 49 = None
   \<and> lm_edition (reload_all demo_license_lib [''k''] [(100, ''p.s'')] (apply_claims (demo_license ''enterprise'' 20))) = ''enterprise''
   \<and> CheckTenants (lm_limits (reload_all demo_license_lib [''k''] [(100, ''p.s'')] (apply_claims (demo_license ''enterprise'' 20)))) 49 = None"
proof -
  let ?m = "apply_claims (demo_license ''enterprise'' 20)"
  have 1: "CheckTenants (lm_limits ?m) 49 = None" by code_simp
  have 2: "lm_edition (reload_all demo_license_lib [''k''] [(100, ''p.s'')] ?m) = ''enterprise''" by code_simp
  from license_never_downgrades [of demo_license_lib "[''k'']" "[(100, ''p.s'')]" ?m f 49] 1 2
  show ?thesis by blast
qed

text \<open>Replay protection: once a key with an issue time is loaded, every later state of the manager
  holds that key or one issued strictly later, so a superseded key never comes back, whichever of the two
  reload operations the pushes use.\<close>

theorem license_replay_protected:
  assumes "lm_claims m = Some c" "0 < lc_Iat c"
    and "lm_claims (fold (reload_call lib pks) rs m) = Some c'" "c' \<noteq> c"
  shows "lc_Iat c < lc_Iat c' \<and> classifyReplay (Some c') c = Some ErrReplayDetected"
  using fold_reload_iat [OF assms(1,2), of lib pks rs] assms
  by (auto simp: classifyReplay_def)

theorem license_replay_protected_witness:
  "lc_Iat (demo_license ''pro'' 10) < lc_Iat (demo_license ''enterprise'' 20)
   \<and> classifyReplay (Some (demo_license ''enterprise'' 20)) (demo_license ''pro'' 10) = Some ErrReplayDetected"
proof (rule license_replay_protected)
  show "lm_claims (apply_claims (demo_license ''pro'' 10)) = Some (demo_license ''pro'' 10)" by code_simp
  show "0 < lc_Iat (demo_license ''pro'' 10)" by code_simp
  show "lm_claims (fold (reload_call demo_license_lib [''k'']) [CallReloadNoDowngrade 100 ''e.s'']
      (apply_claims (demo_license ''pro'' 10))) = Some (demo_license ''enterprise'' 20)" by code_simp
  show "demo_license ''enterprise'' 20 \<noteq> demo_license ''pro'' 10" by (simp add: demo_license_def)
qed

end
