(* ===== verification/ProvisioningStore.thy ===== *)
theory ProvisioningStore
  imports TopicRouting Licensing
begin

text \<open>
  The control plane's database (\<^verbatim>\<open>internal/provisioning\<close>: types.go, repository/tenant.go, key.go, api_key.go,
  routing_rules.go, topics.go, quota.go, channel_rules.go, audit.go) with the constraints of
  \<^verbatim>\<open>shared/migrations/postgres\<close>. A table is the list of its rows; each repository method is one SQL statement
  or one transaction, so it is one function of the database: a new database or an error that leaves the
  old one. \<open>pv_fault\<close> says which calls fail at the driver (lost connection, timeout), \<open>pv_now\<close> is the time of
  the operation and \<open>pv_newID\<close> the identifier the database or the service generates in it. Rows of a query
  without ORDER BY come in table order.
\<close>

section \<open>Rows\<close>

datatype tenant_status = StatusActive | StatusSuspended | StatusDeprovisioning | StatusDeleted

datatype slug_rename_state = SlugRenameStatePending | SlugRenameStateComplete

type_synonym metadata = "(string \<times> string) list"

record tenant =
  tn_ID :: string
  tn_Slug :: string
  tn_Name :: string
  tn_Status :: tenant_status
  tn_ConsumerType :: string
  tn_Metadata :: metadata
  tn_PreviousSlug :: "string option"
  tn_RenameState :: "slug_rename_state option"
  tn_RenamedAt :: "int option"
  tn_CreatedAt :: int
  tn_UpdatedAt :: int
  tn_SuspendedAt :: "int option"
  tn_DeprovisionAt :: "int option"
  tn_DeletedAt :: "int option"

record tenant_key =
  tk_KeyID :: string
  tk_TenantID :: string
  tk_Algorithm :: string
  tk_PublicKey :: string
  tk_IsActive :: bool
  tk_CreatedAt :: int
  tk_ExpiresAt :: "int option"
  tk_RevokedAt :: "int option"

record api_key =
  ak_KeyID :: string
  ak_TenantID :: string
  ak_Name :: string
  ak_IsActive :: bool
  ak_CreatedAt :: int
  ak_RevokedAt :: "int option"

record tenant_quota =
  tq_TenantID :: string
  tq_MaxTopics :: int
  tq_MaxPartitions :: int
  tq_MaxStorageBytes :: int
  tq_ProducerByteRate :: int
  tq_ConsumerByteRate :: int
  tq_MaxConnections :: int
  tq_UpdatedAt :: int

record topic_row =
  tr_TenantID :: string
  tr_Suffix :: string
  tr_CreatedAt :: int

record audit_entry =
  ae_TenantID :: string
  ae_Action :: string
  ae_Actor :: string
  ae_ActorType :: string
  ae_CreatedAt :: int

record database =
  db_tenants :: "tenant list"
  db_keys :: "tenant_key list"
  db_apiKeys :: "api_key list"
  db_rules :: "(string \<times> routing_rule) list"
  db_topics :: "topic_row list"
  db_quotas :: "tenant_quota list"
  db_channelRules :: "(string \<times> channel_rules) list"
  db_audit :: "audit_entry list"

definition empty_database :: database where
  "empty_database = \<lparr>db_tenants = [], db_keys = [], db_apiKeys = [], db_rules = [], db_topics = [], db_quotas = [],
     db_channelRules = [], db_audit = []\<rparr>"

section \<open>Errors, calls and the environment of an operation\<close>

datatype prov_error =
    ErrTenantDeleted | ErrTenantNotActive | ErrTenantNotFound | ErrQuotaNotFound | ErrProvKeyNotFound
  | ErrKeyNotOwnedByTenant | ErrInvalidQuota | ErrChannelRulesNotConfigured | ErrRoutingRulesNotConfigured
  | ErrNameInvalid | ErrConsumerTypeInvalid | ErrKeyInvalid | ErrSlugAlreadyTaken | ErrKeyAlreadyExists
  | ErrSlugReserved | ErrSlugInvalid | ErrSlugUnchanged | ErrSlugRenameInProgress | ErrSlugImmutableViaPatch
  | ErrCASFailed | ErrTopicAlreadyExists | ErrTopicNotFound | ErrTopicQuotaExceeded | ErrTopicReferencedByRule
  | ErrTopicNotProvisioned | ErrAPIKeyNotFound | ErrAPIKeyNotOwnedByTenant | ErrNoChannelRules
  | RoutingError routing_rules_error | RulesError rules_error | EditionError edition_error
  | KafkaError | DBError

datatype store_call =
    TenantCreate | TenantGetBySlug string | TenantUpdate | TenantUpdateSlug | TenantSetRenameState
  | TenantClearRenameState | TenantUpdateStatus string | TenantSetDeprovisionAt | TenantForDeletion
  | TenantCount | TenantCountActive | TenantListPending | TenantList
  | KeyCreate | KeyGet | KeyRevoke | KeyRevokeAll | KeyGetActive
  | APIKeyCreate | APIKeyGet | APIKeyList | APIKeyRevoke string | APIKeyGetActive
  | RulesList | RulesAdd | RulesReplace | RulesDeleteAll string | RulesGetAll string
  | TopicExists string | TopicCreate | TopicList | TopicDelete | TopicCount
  | QuotaGet | QuotaCreate | QuotaUpdate
  | ChannelRulesGet string | ChannelRulesUpdate | ChannelRulesDelete
  | AuditLog string

datatype kafka_call =
    KCreateTopic string int int | KDeleteTopic string | KSetTopicConfig string int | KDeleteACL string string string
  | KSetQuota string int int | KCreateTopicACLs string | KDeleteTopicACLs string | KDeleteQuota string

datatype kafka_answer = KOk | KTopicAlreadyExists | KFail

record prov_env =
  pv_fault :: "store_call \<Rightarrow> bool"
  pv_kafka :: "kafka_call \<Rightarrow> kafka_answer"
  pv_uuid :: "string \<Rightarrow> bool"
  pv_now :: int
  pv_newID :: string
  pv_actor :: string
  pv_actorType :: string

section \<open>Validation of the rows\<close>

definition slug_letter :: "char \<Rightarrow> bool" where
  "slug_letter c \<longleftrightarrow> (let n = of_char c :: nat in 97 \<le> n \<and> n \<le> 122)"

text \<open>The expression \<open>^[a-z][a-z0-9-]{2,62}$\<close> of slugs and key identifiers.\<close>

definition slug_pattern :: "string \<Rightarrow> bool" where
  "slug_pattern s \<longleftrightarrow> 3 \<le> length s \<and> length s \<le> 63 \<and> slug_letter (hd s) \<and> list_all literal_char (tl s)"

definition ValidateSlug :: "string \<Rightarrow> prov_error option" where
  "ValidateSlug slug = (if \<not> slug_pattern slug then Some ErrSlugInvalid else None)"

definition ConsumerType_IsValid :: "string \<Rightarrow> bool" where
  "ConsumerType_IsValid c \<longleftrightarrow> c = ''shared'' \<or> c = ''dedicated''"

definition ValidateTenant :: "tenant \<Rightarrow> prov_error option" where
  "ValidateTenant t =
     (case ValidateSlug (tn_Slug t) of
        Some e \<Rightarrow> Some e
      | None \<Rightarrow>
          if tn_Name t = [] then Some ErrNameInvalid
          else if length (tn_Name t) > 256 then Some ErrNameInvalid
          else if \<not> ConsumerType_IsValid (tn_ConsumerType t) then Some ErrConsumerTypeInvalid
          else None)"

definition Algorithm_IsValid :: "string \<Rightarrow> bool" where
  "Algorithm_IsValid a \<longleftrightarrow> a = ''ES256'' \<or> a = ''RS256'' \<or> a = ''EdDSA''"

definition ValidateKeyInput :: "string \<Rightarrow> string \<Rightarrow> string \<Rightarrow> prov_error option" where
  "ValidateKeyInput keyID algorithm publicKey =
     (if \<not> slug_pattern keyID then Some ErrKeyInvalid
      else if \<not> Algorithm_IsValid algorithm then Some ErrKeyInvalid
      else if publicKey = [] then Some ErrKeyInvalid
      else if length publicKey < 50 then Some ErrKeyInvalid
      else None)"

definition ValidateKey :: "prov_env \<Rightarrow> tenant_key \<Rightarrow> prov_error option" where
  "ValidateKey env k =
     (case ValidateKeyInput (tk_KeyID k) (tk_Algorithm k) (tk_PublicKey k) of
        Some e \<Rightarrow> Some e
      | None \<Rightarrow> if \<not> pv_uuid env (tk_TenantID k) then Some DBError else None)"

section \<open>Tenants\<close>

definition update_where :: "('r \<Rightarrow> bool) \<Rightarrow> ('r \<Rightarrow> 'r) \<Rightarrow> 'r list \<Rightarrow> 'r list" where
  "update_where P f rows = map (\<lambda>r. if P r then f r else r) rows"

text \<open>The CHECK constraints of the table; they precede the unique index.\<close>

definition tenant_check :: "tenant \<Rightarrow> bool" where
  "tenant_check t \<longleftrightarrow> slug_pattern (tn_Slug t) \<and> tn_Name t \<noteq> [] \<and> ConsumerType_IsValid (tn_ConsumerType t)"

definition Tenant_Create :: "prov_env \<Rightarrow> database \<Rightarrow> tenant \<Rightarrow> prov_error + (database \<times> tenant)" where
  "Tenant_Create env d t =
     (let t = t\<lparr>tn_ID := pv_newID env, tn_CreatedAt := pv_now env, tn_UpdatedAt := pv_now env\<rparr>
      in if pv_fault env TenantCreate then Inl DBError
         else if \<not> tenant_check t then Inl DBError
         else if list_ex (\<lambda>r. tn_Slug r = tn_Slug t \<or> tn_ID r = tn_ID t) (db_tenants d) then Inl ErrSlugAlreadyTaken
         else Inr (d\<lparr>db_tenants := db_tenants d @ [t]\<rparr>, t))"

definition GetBySlug :: "prov_env \<Rightarrow> database \<Rightarrow> string \<Rightarrow> prov_error + tenant" where
  "GetBySlug env d slug =
     (if pv_fault env (TenantGetBySlug slug) then Inl DBError
      else case find (\<lambda>r. tn_Slug r = slug \<and> tn_DeletedAt r = None) (db_tenants d) of
             None \<Rightarrow> Inl ErrTenantNotFound
           | Some t \<Rightarrow> Inr t)"

definition in_grace :: "int \<Rightarrow> string \<Rightarrow> tenant \<Rightarrow> bool" where
  "in_grace cutoff slug r \<longleftrightarrow> tn_PreviousSlug r = Some slug \<and> tn_Status r = StatusActive \<and>
     tn_RenameState r = Some SlugRenameStateComplete \<and>
     (case tn_RenamedAt r of None \<Rightarrow> False | Some at \<Rightarrow> at > cutoff)"

definition GetIDBySlugWithGrace :: "prov_env \<Rightarrow> database \<Rightarrow> string \<Rightarrow> int \<Rightarrow> prov_error + string" where
  "GetIDBySlugWithGrace env d slug holdPeriod =
     (case find (\<lambda>r. tn_DeletedAt r = None \<and> (tn_Slug r = slug \<or> in_grace (pv_now env - holdPeriod) slug r)) (db_tenants d) of
        None \<Rightarrow> Inl ErrTenantNotFound
      | Some t \<Rightarrow> Inr (tn_ID t))"

definition Tenant_Update :: "prov_env \<Rightarrow> database \<Rightarrow> tenant \<Rightarrow> prov_error + database" where
  "Tenant_Update env d t =
     (let P = (\<lambda>r. tn_ID r = tn_ID t \<and> tn_Status r \<noteq> StatusDeleted)
      in if pv_fault env TenantUpdate then Inl DBError
         else if \<not> list_ex P (db_tenants d) then Inl ErrTenantNotFound
         else Inr (d\<lparr>db_tenants := update_where P (\<lambda>r. r\<lparr>tn_Name := tn_Name t, tn_ConsumerType := tn_ConsumerType t,
                tn_Metadata := tn_Metadata t, tn_UpdatedAt := pv_now env\<rparr>) (db_tenants d)\<rparr>))"

definition UpdateSlug :: "prov_env \<Rightarrow> database \<Rightarrow> string \<Rightarrow> string \<Rightarrow> prov_error + database" where
  "UpdateSlug env d uuid newSlug =
     (let P = (\<lambda>r. tn_ID r = uuid)
      in if pv_fault env TenantUpdateSlug then Inl DBError
         else if \<not> list_ex P (db_tenants d) then Inl ErrTenantNotFound
         else if \<not> slug_pattern newSlug then Inl DBError
         else if list_ex (\<lambda>r. tn_Slug r = newSlug \<and> tn_ID r \<noteq> uuid) (db_tenants d) then Inl ErrSlugAlreadyTaken
         else Inr (d\<lparr>db_tenants := update_where P (\<lambda>r. r\<lparr>tn_Slug := newSlug, tn_RenameState := Some SlugRenameStateComplete,
                tn_PreviousSlug := Some (tn_Slug r), tn_RenamedAt := Some (pv_now env), tn_UpdatedAt := pv_now env\<rparr>) (db_tenants d)\<rparr>))"

definition SetRenameState ::
  "prov_env \<Rightarrow> database \<Rightarrow> string \<Rightarrow> slug_rename_state \<Rightarrow> string \<Rightarrow> prov_error + database" where
  "SetRenameState env d uuid state previousSlug =
     (let P = (\<lambda>r. tn_ID r = uuid \<and> (tn_RenameState r = None \<or> tn_RenameState r = Some SlugRenameStateComplete))
      in if pv_fault env TenantSetRenameState then Inl DBError
         else if \<not> list_ex P (db_tenants d) then Inl ErrCASFailed
         else Inr (d\<lparr>db_tenants := update_where P (\<lambda>r. r\<lparr>tn_RenameState := Some state,
                tn_PreviousSlug := Some previousSlug, tn_UpdatedAt := pv_now env\<rparr>) (db_tenants d)\<rparr>))"

definition ClearRenameState :: "prov_env \<Rightarrow> database \<Rightarrow> string \<Rightarrow> prov_error + database" where
  "ClearRenameState env d uuid =
     (if pv_fault env TenantClearRenameState then Inl DBError
      else Inr (d\<lparr>db_tenants := update_where (\<lambda>r. tn_ID r = uuid) (\<lambda>r. r\<lparr>tn_RenameState := None,
             tn_PreviousSlug := None, tn_RenamedAt := None, tn_UpdatedAt := pv_now env\<rparr>) (db_tenants d)\<rparr>))"

definition ListPendingRenames :: "prov_env \<Rightarrow> database \<Rightarrow> prov_error + tenant list" where
  "ListPendingRenames env d =
     (if pv_fault env TenantListPending then Inl DBError
      else Inr (filter (\<lambda>r. tn_RenameState r = Some SlugRenameStatePending
              \<or> tn_RenameState r = Some SlugRenameStateComplete \<and> tn_PreviousSlug r \<noteq> None) (db_tenants d)))"

definition Tenant_List :: "prov_env \<Rightarrow> database \<Rightarrow> tenant_status option \<Rightarrow> int \<Rightarrow> int \<Rightarrow> prov_error + (tenant list \<times> nat)" where
  "Tenant_List env d status limit offset =
     (if pv_fault env TenantList then Inl DBError
      else
        let rows = filter (\<lambda>r. tn_Status r \<noteq> StatusDeleted \<and> (case status of None \<Rightarrow> True | Some st \<Rightarrow> tn_Status r = st)) (db_tenants d);
            limit = (if limit \<le> 0 then 50 else limit);
            ordered = rev (sort_key tn_CreatedAt rows)
        in Inr (take (nat limit) (drop (nat (max offset 0)) ordered), length rows))"

text \<open>The statement that each target status runs: which rows it accepts and what it sets.\<close>

fun status_source :: "tenant_status \<Rightarrow> tenant_status set" where
  "status_source StatusSuspended = {StatusActive}"
| "status_source StatusActive = {StatusSuspended}"
| "status_source StatusDeprovisioning = {StatusActive, StatusSuspended}"
| "status_source StatusDeleted = {StatusActive, StatusSuspended, StatusDeprovisioning}"

fun status_set :: "int \<Rightarrow> tenant_status \<Rightarrow> tenant \<Rightarrow> tenant" where
  "status_set now StatusSuspended r = r\<lparr>tn_Status := StatusSuspended, tn_SuspendedAt := Some now, tn_UpdatedAt := now\<rparr>"
| "status_set now StatusActive r = r\<lparr>tn_Status := StatusActive, tn_SuspendedAt := None, tn_UpdatedAt := now\<rparr>"
| "status_set now StatusDeprovisioning r = r\<lparr>tn_Status := StatusDeprovisioning, tn_UpdatedAt := now\<rparr>"
| "status_set now StatusDeleted r = r\<lparr>tn_Status := StatusDeleted, tn_DeletedAt := Some now, tn_UpdatedAt := now\<rparr>"

definition UpdateStatus :: "prov_env \<Rightarrow> database \<Rightarrow> string \<Rightarrow> tenant_status \<Rightarrow> prov_error + database" where
  "UpdateStatus env d tenantID status =
     (let P = (\<lambda>r. tn_ID r = tenantID \<and> tn_Status r \<in> status_source status)
      in if pv_fault env (TenantUpdateStatus tenantID) then Inl DBError
         else if \<not> list_ex P (db_tenants d) then Inl ErrTenantNotFound
         else Inr (d\<lparr>db_tenants := update_where P (status_set (pv_now env) status) (db_tenants d)\<rparr>))"

definition SetDeprovisionAt :: "prov_env \<Rightarrow> database \<Rightarrow> string \<Rightarrow> int \<Rightarrow> prov_error + database" where
  "SetDeprovisionAt env d tenantID deprovisionAt =
     (let P = (\<lambda>r. tn_ID r = tenantID \<and> tn_Status r = StatusDeprovisioning)
      in if pv_fault env TenantSetDeprovisionAt then Inl DBError
         else if \<not> list_ex P (db_tenants d) then Inl ErrTenantNotFound
         else Inr (d\<lparr>db_tenants := update_where P
                (\<lambda>r. r\<lparr>tn_DeprovisionAt := Some deprovisionAt, tn_UpdatedAt := pv_now env\<rparr>) (db_tenants d)\<rparr>))"

definition GetTenantsForDeletion :: "prov_env \<Rightarrow> database \<Rightarrow> prov_error + tenant list" where
  "GetTenantsForDeletion env d =
     (if pv_fault env TenantForDeletion then Inl DBError
      else Inr (filter (\<lambda>r. tn_Status r = StatusDeprovisioning \<and>
              (case tn_DeprovisionAt r of None \<Rightarrow> False | Some at \<Rightarrow> at \<le> pv_now env)) (db_tenants d)))"

definition Tenant_Count :: "prov_env \<Rightarrow> database \<Rightarrow> prov_error + nat" where
  "Tenant_Count env d =
     (if pv_fault env TenantCount then Inl DBError
      else Inr (length (filter (\<lambda>r. tn_Status r \<noteq> StatusDeleted) (db_tenants d))))"

definition CountActive :: "prov_env \<Rightarrow> database \<Rightarrow> prov_error + nat" where
  "CountActive env d =
     (if pv_fault env TenantCountActive then Inl DBError
      else Inr (length (filter (\<lambda>r. tn_Status r = StatusActive) (db_tenants d))))"

section \<open>Keys\<close>

definition tenant_exists :: "database \<Rightarrow> string \<Rightarrow> bool" where
  "tenant_exists d tid \<longleftrightarrow> list_ex (\<lambda>r. tn_ID r = tid) (db_tenants d)"

definition key_check :: "tenant_key \<Rightarrow> bool" where
  "key_check k \<longleftrightarrow> slug_pattern (tk_KeyID k) \<and> Algorithm_IsValid (tk_Algorithm k) \<and> tk_PublicKey k \<noteq> []"

definition Key_Create :: "prov_env \<Rightarrow> database \<Rightarrow> tenant_key \<Rightarrow> prov_error + database" where
  "Key_Create env d k =
     (if pv_fault env KeyCreate then Inl DBError
      else if \<not> key_check k then Inl DBError
      else if list_ex (\<lambda>r. tk_KeyID r = tk_KeyID k) (db_keys d) then Inl ErrKeyAlreadyExists
      else if \<not> tenant_exists d (tk_TenantID k) then Inl DBError
      else Inr (d\<lparr>db_keys := db_keys d @ [k\<lparr>tk_IsActive := True, tk_CreatedAt := pv_now env\<rparr>]\<rparr>))"

definition Key_Get :: "prov_env \<Rightarrow> database \<Rightarrow> string \<Rightarrow> prov_error + tenant_key" where
  "Key_Get env d keyID =
     (if pv_fault env KeyGet then Inl DBError
      else case find (\<lambda>r. tk_KeyID r = keyID) (db_keys d) of None \<Rightarrow> Inl ErrProvKeyNotFound | Some k \<Rightarrow> Inr k)"

definition Key_Revoke :: "prov_env \<Rightarrow> database \<Rightarrow> string \<Rightarrow> prov_error + database" where
  "Key_Revoke env d keyID =
     (let P = (\<lambda>r. tk_KeyID r = keyID \<and> tk_IsActive r)
      in if pv_fault env KeyRevoke then Inl DBError
         else if \<not> list_ex P (db_keys d) then Inl ErrProvKeyNotFound
         else Inr (d\<lparr>db_keys := update_where P (\<lambda>r. r\<lparr>tk_IsActive := False, tk_RevokedAt := Some (pv_now env)\<rparr>) (db_keys d)\<rparr>))"

definition RevokeAllForTenant :: "prov_env \<Rightarrow> database \<Rightarrow> string \<Rightarrow> prov_error + database" where
  "RevokeAllForTenant env d tenantID =
     (if pv_fault env KeyRevokeAll then Inl DBError
      else Inr (d\<lparr>db_keys := update_where (\<lambda>r. tk_TenantID r = tenantID \<and> tk_IsActive r)
             (\<lambda>r. r\<lparr>tk_IsActive := False, tk_RevokedAt := Some (pv_now env)\<rparr>) (db_keys d)\<rparr>))"

definition GetActiveKeys :: "prov_env \<Rightarrow> database \<Rightarrow> prov_error + tenant_key list" where
  "GetActiveKeys env d =
     (if pv_fault env KeyGetActive then Inl DBError
      else Inr (filter (\<lambda>r. tk_IsActive r \<and> tk_RevokedAt r = None \<and>
              (case tk_ExpiresAt r of None \<Rightarrow> True | Some at \<Rightarrow> at > pv_now env)) (db_keys d)))"

section \<open>API keys\<close>

definition APIKey_Create :: "prov_env \<Rightarrow> database \<Rightarrow> api_key \<Rightarrow> prov_error + database" where
  "APIKey_Create env d k =
     (if pv_fault env APIKeyCreate then Inl DBError
      else if list_ex (\<lambda>r. ak_KeyID r = ak_KeyID k) (db_apiKeys d) then Inl DBError
      else if \<not> tenant_exists d (ak_TenantID k) then Inl DBError
      else Inr (d\<lparr>db_apiKeys := db_apiKeys d @ [k\<lparr>ak_IsActive := True, ak_CreatedAt := pv_now env\<rparr>]\<rparr>))"

definition APIKey_Get :: "prov_env \<Rightarrow> database \<Rightarrow> string \<Rightarrow> prov_error + api_key" where
  "APIKey_Get env d keyID =
     (if pv_fault env APIKeyGet then Inl DBError
      else case find (\<lambda>r. ak_KeyID r = keyID) (db_apiKeys d) of None \<Rightarrow> Inl ErrAPIKeyNotFound | Some k \<Rightarrow> Inr k)"

definition APIKey_ListByTenant :: "prov_env \<Rightarrow> database \<Rightarrow> string \<Rightarrow> nat \<Rightarrow> nat \<Rightarrow> prov_error + (api_key list \<times> nat)" where
  "APIKey_ListByTenant env d tenantID limit offset =
     (if pv_fault env APIKeyList then Inl DBError
      else
        let rows = filter (\<lambda>r. ak_TenantID r = tenantID) (db_apiKeys d)
        in Inr (take limit (drop offset (rev (sort_key ak_CreatedAt rows))), length rows))"

definition APIKey_Revoke :: "prov_env \<Rightarrow> database \<Rightarrow> string \<Rightarrow> prov_error + database" where
  "APIKey_Revoke env d keyID =
     (let P = (\<lambda>r. ak_KeyID r = keyID \<and> ak_IsActive r)
      in if pv_fault env (APIKeyRevoke keyID) then Inl DBError
         else if \<not> list_ex P (db_apiKeys d) then Inl ErrAPIKeyNotFound
         else Inr (d\<lparr>db_apiKeys := update_where P (\<lambda>r. r\<lparr>ak_IsActive := False, ak_RevokedAt := Some (pv_now env)\<rparr>) (db_apiKeys d)\<rparr>))"

definition GetActiveAPIKeys :: "prov_env \<Rightarrow> database \<Rightarrow> prov_error + api_key list" where
  "GetActiveAPIKeys env d =
     (if pv_fault env APIKeyGetActive then Inl DBError
      else Inr (filter (\<lambda>r. ak_IsActive r \<and> ak_RevokedAt r = None) (db_apiKeys d)))"

section \<open>Routing rules\<close>

text \<open>\<open>scanRows\<close> normalises each stored pattern and skips the rows whose pattern does not match.\<close>

fun scanRows :: "routing_rule list \<Rightarrow> routing_rule list" where
  "scanRows [] = []"
| "scanRows (r # rs) =
     (let normalized = NormalizePattern (RulePattern r)
      in if \<not> is_ok (MatchRoutingPattern normalized ''probe'') then scanRows rs
         else r\<lparr>RulePattern := normalized\<rparr> # scanRows rs)"

definition tenant_rules :: "database \<Rightarrow> string \<Rightarrow> routing_rule list" where
  "tenant_rules d tenantID = map snd (filter (\<lambda>r. fst r = tenantID) (db_rules d))"

definition getAll :: "database \<Rightarrow> string \<Rightarrow> routing_rule list" where
  "getAll d tenantID = scanRows (sort_key Priority (tenant_rules d tenantID))"

definition Rules_GetAll :: "prov_env \<Rightarrow> database \<Rightarrow> string \<Rightarrow> prov_error + routing_rule list" where
  "Rules_GetAll env d tenantID = (if pv_fault env (RulesGetAll tenantID) then Inl DBError else Inr (getAll d tenantID))"

definition Rules_List :: "prov_env \<Rightarrow> database \<Rightarrow> string \<Rightarrow> nat \<Rightarrow> nat \<Rightarrow> prov_error + (routing_rule list \<times> nat)" where
  "Rules_List env d tenantID limit offset =
     (if pv_fault env RulesList then Inl DBError
      else
        let rows = tenant_rules d tenantID
        in if rows = [] then Inr ([], 0)
           else Inr (scanRows (take limit (drop offset (sort_key Priority rows))), length rows))"

text \<open>One INSERT: the column type, the CHECKs, the two unique constraints and the foreign key.\<close>

definition rule_insert :: "database \<Rightarrow> string \<Rightarrow> routing_rule \<Rightarrow> prov_error + database" where
  "rule_insert d tenantID rule =
     (if Priority rule < - (2 ^ 31) \<or> 2 ^ 31 \<le> Priority rule then Inl DBError
      else if IngressTopic rule = [] \<or> IngressTopic rule = DeadLetterTopicSuffix then Inl DBError
      else if list_ex (\<lambda>r. Priority r = Priority rule) (tenant_rules d tenantID) then Inl (RoutingError ErrDuplicatePriority)
      else if list_ex (\<lambda>r. RulePattern r = RulePattern rule) (tenant_rules d tenantID) then Inl (RoutingError ErrDuplicateRoutingPattern)
      else if \<not> tenant_exists d tenantID then Inl DBError
      else Inr (d\<lparr>db_rules := db_rules d @ [(tenantID, rule)]\<rparr>))"

definition Rules_Add :: "prov_env \<Rightarrow> database \<Rightarrow> string \<Rightarrow> routing_rule \<Rightarrow> prov_error + database" where
  "Rules_Add env d tenantID rule =
     (if pv_fault env RulesAdd then Inl DBError
      else case ValidateEgressDisjoint (getAll d tenantID @ [rule]) of
             Some e \<Rightarrow> Inl (RoutingError e)
           | None \<Rightarrow> rule_insert d tenantID rule)"

definition delete_rules :: "database \<Rightarrow> string \<Rightarrow> database" where
  "delete_rules d tenantID = d\<lparr>db_rules := filter (\<lambda>r. fst r \<noteq> tenantID) (db_rules d)\<rparr>"

fun insert_rules :: "database \<Rightarrow> string \<Rightarrow> routing_rule list \<Rightarrow> prov_error + database" where
  "insert_rules d tenantID [] = Inr d"
| "insert_rules d tenantID (r # rs) =
     (case rule_insert d tenantID r of Inl e \<Rightarrow> Inl e | Inr d' \<Rightarrow> insert_rules d' tenantID rs)"

definition Rules_Replace :: "prov_env \<Rightarrow> database \<Rightarrow> string \<Rightarrow> routing_rule list \<Rightarrow> prov_error + database" where
  "Rules_Replace env d tenantID rules =
     (if pv_fault env RulesReplace then Inl DBError else insert_rules (delete_rules d tenantID) tenantID rules)"

definition Rules_DeleteAll :: "prov_env \<Rightarrow> database \<Rightarrow> string \<Rightarrow> prov_error + database" where
  "Rules_DeleteAll env d tenantID =
     (if pv_fault env (RulesDeleteAll tenantID) then Inl DBError else Inr (delete_rules d tenantID))"

section \<open>Topics, quotas, channel rules, audit\<close>

definition topic_provisioned :: "database \<Rightarrow> string \<Rightarrow> string \<Rightarrow> bool" where
  "topic_provisioned d tenantID suffix \<longleftrightarrow> list_ex (\<lambda>r. tr_TenantID r = tenantID \<and> tr_Suffix r = suffix) (db_topics d)"

definition Topic_Exists :: "prov_env \<Rightarrow> database \<Rightarrow> string \<Rightarrow> string \<Rightarrow> prov_error + bool" where
  "Topic_Exists env d tenantID suffix =
     (if pv_fault env (TopicExists suffix) then Inl DBError else Inr (topic_provisioned d tenantID suffix))"

definition Topic_Create :: "prov_env \<Rightarrow> database \<Rightarrow> string \<Rightarrow> string \<Rightarrow> prov_error + database" where
  "Topic_Create env d tenantID suffix =
     (if pv_fault env TopicCreate then Inl DBError
      else if suffix = [] \<or> suffix = DefaultTopicSuffix \<or> suffix = DeadLetterTopicSuffix then Inl DBError
      else if topic_provisioned d tenantID suffix then Inl ErrTopicAlreadyExists
      else if \<not> tenant_exists d tenantID then Inl DBError
      else Inr (d\<lparr>db_topics := db_topics d @ [\<lparr>tr_TenantID = tenantID, tr_Suffix = suffix, tr_CreatedAt = pv_now env\<rparr>]\<rparr>))"

definition Topic_Delete :: "prov_env \<Rightarrow> database \<Rightarrow> string \<Rightarrow> string \<Rightarrow> prov_error + database" where
  "Topic_Delete env d tenantID suffix =
     (if pv_fault env TopicDelete then Inl DBError
      else if \<not> topic_provisioned d tenantID suffix then Inl ErrTopicNotFound
      else Inr (d\<lparr>db_topics := filter (\<lambda>r. \<not> (tr_TenantID r = tenantID \<and> tr_Suffix r = suffix)) (db_topics d)\<rparr>))"

definition Topic_Count :: "prov_env \<Rightarrow> database \<Rightarrow> string \<Rightarrow> prov_error + nat" where
  "Topic_Count env d tenantID =
     (if pv_fault env TopicCount then Inl DBError
      else Inr (length (filter (\<lambda>r. tr_TenantID r = tenantID) (db_topics d))))"

definition quota_check :: "tenant_quota \<Rightarrow> bool" where
  "quota_check q \<longleftrightarrow> tq_MaxTopics q \<ge> 1 \<and> tq_MaxPartitions q \<ge> 1 \<and> tq_MaxStorageBytes q \<ge> 0 \<and>
     tq_ProducerByteRate q \<ge> 0 \<and> tq_ConsumerByteRate q \<ge> 0"

definition Quota_Get :: "prov_env \<Rightarrow> database \<Rightarrow> string \<Rightarrow> prov_error + tenant_quota" where
  "Quota_Get env d tenantID =
     (if pv_fault env QuotaGet then Inl DBError
      else case find (\<lambda>q. tq_TenantID q = tenantID) (db_quotas d) of None \<Rightarrow> Inl ErrQuotaNotFound | Some q \<Rightarrow> Inr q)"

definition Quota_Create :: "prov_env \<Rightarrow> database \<Rightarrow> tenant_quota \<Rightarrow> prov_error + database" where
  "Quota_Create env d q =
     (if pv_fault env QuotaCreate then Inl DBError
      else if \<not> quota_check q then Inl DBError
      else if list_ex (\<lambda>r. tq_TenantID r = tq_TenantID q) (db_quotas d) then Inl DBError
      else if \<not> tenant_exists d (tq_TenantID q) then Inl DBError
      else Inr (d\<lparr>db_quotas := db_quotas d @ [q\<lparr>tq_UpdatedAt := pv_now env\<rparr>]\<rparr>))"

definition Quota_Update :: "prov_env \<Rightarrow> database \<Rightarrow> tenant_quota \<Rightarrow> prov_error + database" where
  "Quota_Update env d q =
     (if pv_fault env QuotaUpdate then Inl DBError
      else if \<not> list_ex (\<lambda>r. tq_TenantID r = tq_TenantID q) (db_quotas d) then Inl ErrQuotaNotFound
      else if \<not> quota_check q then Inl DBError
      else Inr (d\<lparr>db_quotas := update_where (\<lambda>r. tq_TenantID r = tq_TenantID q) (\<lambda>r. q\<lparr>tq_UpdatedAt := pv_now env\<rparr>) (db_quotas d)\<rparr>))"

definition ChannelRules_Get :: "prov_env \<Rightarrow> database \<Rightarrow> string \<Rightarrow> prov_error + channel_rules" where
  "ChannelRules_Get env d tenantID =
     (if pv_fault env (ChannelRulesGet tenantID) then Inl DBError
      else case map_of (db_channelRules d) tenantID of None \<Rightarrow> Inl ErrNoChannelRules | Some r \<Rightarrow> Inr r)"

definition ChannelRules_Update :: "prov_env \<Rightarrow> database \<Rightarrow> string \<Rightarrow> channel_rules \<Rightarrow> prov_error + database" where
  "ChannelRules_Update env d tenantID rules =
     (if pv_fault env ChannelRulesUpdate then Inl DBError
      else if \<not> tenant_exists d tenantID then Inl DBError
      else Inr (d\<lparr>db_channelRules := (tenantID, rules) # filter (\<lambda>r. fst r \<noteq> tenantID) (db_channelRules d)\<rparr>))"

definition ChannelRules_Delete :: "prov_env \<Rightarrow> database \<Rightarrow> string \<Rightarrow> prov_error + database" where
  "ChannelRules_Delete env d tenantID =
     (if pv_fault env ChannelRulesDelete then Inl DBError
      else if map_of (db_channelRules d) tenantID = None then Inl ErrNoChannelRules
      else Inr (d\<lparr>db_channelRules := filter (\<lambda>r. fst r \<noteq> tenantID) (db_channelRules d)\<rparr>))"

definition Audit_Log :: "prov_env \<Rightarrow> database \<Rightarrow> audit_entry \<Rightarrow> prov_error + database" where
  "Audit_Log env d e =
     (if pv_fault env (AuditLog (ae_Action e)) then Inl DBError
      else if ae_Action e = [] \<or> ae_Actor e = [] \<or> ae_ActorType e \<notin> {''user'', ''system'', ''api_key'', ''admin''} then Inl DBError
      else Inr (d\<lparr>db_audit := db_audit d @ [e\<lparr>ae_CreatedAt := pv_now env\<rparr>]\<rparr>))"

end
