(* ===== verification/ProvisioningService.thy ===== *)
theory ProvisioningService
  imports ProvisioningStore
begin

text \<open>
  The provisioning service (\<^verbatim>\<open>internal/provisioning/service.go\<close>) and the lifecycle manager (lifecycle.go): every
  operation that changes state, on the database, the log of Kafka administration calls, the events published
  on the event bus and the gauge of active tenants. \<open>pv_kafka\<close> gives the broker's answer to each call; every
  call is logged, whatever the answer. An operation runs as one step: the reads of an operation and its writes
  are not interleaved with those of another one. Responses carry what the later components use; log lines and
  request metrics are left out.
\<close>

section \<open>State and configuration\<close>

datatype event_type = KeysChanged | TenantConfigChanged | TopicsChanged | APIKeysChanged | PushConfigChanged | AdminKeysChanged
  | LicenseChanged | TokenRevocationsChanged

record prov_state =
  ps_db :: database
  ps_kafka :: "kafka_call list"
  ps_events :: "event_type list"
  ps_gauge :: int

record prov_config =
  TopicNamespace :: string
  DefaultPartitions :: int
  DefaultRetentionMs :: int
  DeadLetterTopicPartitions :: int
  DeadLetterTopicRetentionMs :: int
  cfg_MaxTopicsPerTenant :: int
  MaxStorageBytes :: int
  DefaultProducerRate :: int
  DefaultConsumerRate :: int
  DeprovisionGraceDays :: int
  cfg_MaxRoutingRulesPerTenant :: int
  MaxTopicsPerRule :: int
  SlugRenameTopicHoldPeriod :: int
  routingRulesConfigured :: bool
  channelRulesConfigured :: bool
  editionManager :: "license_manager option"

definition init_prov :: prov_state where
  "init_prov = \<lparr>ps_db = empty_database, ps_kafka = [], ps_events = [], ps_gauge = 0\<rparr>"

definition emitEvent :: "event_type \<Rightarrow> prov_state \<Rightarrow> prov_state" where
  "emitEvent e s = s\<lparr>ps_events := ps_events s @ [e]\<rparr>"

definition IncActiveTenants :: "prov_state \<Rightarrow> prov_state" where
  "IncActiveTenants s = s\<lparr>ps_gauge := ps_gauge s + 1\<rparr>"

definition DecActiveTenants :: "prov_state \<Rightarrow> prov_state" where
  "DecActiveTenants s = s\<lparr>ps_gauge := ps_gauge s - 1\<rparr>"

definition admin :: "prov_env \<Rightarrow> kafka_call \<Rightarrow> prov_state \<Rightarrow> kafka_answer \<times> prov_state" where
  "admin env call s = (pv_kafka env call, s\<lparr>ps_kafka := ps_kafka s @ [call]\<rparr>)"

text \<open>A write whose failure is only logged.\<close>

definition attempt :: "(prov_error + database) \<Rightarrow> prov_state \<Rightarrow> prov_state" where
  "attempt r s = (case r of Inl _ \<Rightarrow> s | Inr d \<Rightarrow> s\<lparr>ps_db := d\<rparr>)"

definition auditLog :: "prov_env \<Rightarrow> string \<Rightarrow> string \<Rightarrow> prov_state \<Rightarrow> prov_state" where
  "auditLog env tenantID action s =
     attempt (Audit_Log env (ps_db s) \<lparr>ae_TenantID = tenantID, ae_Action = action, ae_Actor = pv_actor env,
       ae_ActorType = pv_actorType env, ae_CreatedAt = pv_now env\<rparr>) s"

definition infraTopicSpecs :: "prov_config \<Rightarrow> (string \<times> int \<times> int) list" where
  "infraTopicSpecs cfg =
     [(DeadLetterTopicSuffix, DeadLetterTopicPartitions cfg, DeadLetterTopicRetentionMs cfg),
      (DefaultTopicSuffix, DefaultPartitions cfg, DefaultRetentionMs cfg)]"

definition reservedSlugs :: "string list" where
  "reservedSlugs = [''admin'', ''api'', ''health'', ''ready'', ''metrics'', ''version'', ''edition'', ''config'', ''debug'',
     ''internal'', ''system'', ''sukko'', ''keys'', ''api-keys'', ''routing-rules'', ''quotas'', ''audit'', ''channel-rules'',
     ''tokens'', ''suspend'', ''reactivate'', ''rename'', ''test-access'']"

definition isReservedSlug :: "string \<Rightarrow> bool" where
  "isReservedSlug s = List.member reservedSlugs s"

section \<open>Creating a tenant\<close>

record create_key_request =
  ck_KeyID :: string
  ck_Algorithm :: string
  ck_PublicKey :: string
  ck_ExpiresAt :: "int option"

record create_tenant_request =
  cr_Slug :: string
  cr_Name :: string
  cr_ConsumerType :: string
  cr_Metadata :: metadata
  cr_PublicKey :: "create_key_request option"

definition new_tenant :: "create_tenant_request \<Rightarrow> tenant" where
  "new_tenant req =
     \<lparr>tn_ID = [], tn_Slug = cr_Slug req, tn_Name = cr_Name req, tn_Status = StatusActive,
      tn_ConsumerType = (if cr_ConsumerType req = [] then ''shared'' else cr_ConsumerType req),
      tn_Metadata = cr_Metadata req, tn_PreviousSlug = None, tn_RenameState = None, tn_RenamedAt = None,
      tn_CreatedAt = 0, tn_UpdatedAt = 0, tn_SuspendedAt = None, tn_DeprovisionAt = None, tn_DeletedAt = None\<rparr>"

definition new_key :: "string \<Rightarrow> create_key_request \<Rightarrow> tenant_key" where
  "new_key tenantID req =
     \<lparr>tk_KeyID = ck_KeyID req, tk_TenantID = tenantID, tk_Algorithm = ck_Algorithm req, tk_PublicKey = ck_PublicKey req,
      tk_IsActive = False, tk_CreatedAt = 0, tk_ExpiresAt = ck_ExpiresAt req, tk_RevokedAt = None\<rparr>"

text \<open>The checks before the first side effect.\<close>

definition create_checks :: "prov_config \<Rightarrow> prov_env \<Rightarrow> create_tenant_request \<Rightarrow> database \<Rightarrow> prov_error option" where
  "create_checks cfg env req d =
     (case ValidateTenant (new_tenant req) of
        Some e \<Rightarrow> Some e
      | None \<Rightarrow>
          (case (case cr_PublicKey req of
                   None \<Rightarrow> None
                 | Some k \<Rightarrow> ValidateKeyInput (ck_KeyID k) (ck_Algorithm k) (ck_PublicKey k)) of
             Some e \<Rightarrow> Some e
           | None \<Rightarrow>
               if isReservedSlug (cr_Slug req) then Some ErrSlugReserved
               else case editionManager cfg of
                      None \<Rightarrow> None
                    | Some m \<Rightarrow>
                        (case Tenant_Count env d of
                           Inl e \<Rightarrow> Some e
                         | Inr n \<Rightarrow> (case CheckTenants (lm_limits m) (int n) of
                                       Some e \<Rightarrow> Some (EditionError e) | None \<Rightarrow> None))))"

text \<open>The topic saga: the two infrastructure topics, then the row; a failure deletes what this call created.\<close>

definition delete_if :: "prov_env \<Rightarrow> bool \<Rightarrow> string \<Rightarrow> prov_state \<Rightarrow> prov_state" where
  "delete_if env createdHere topic s = (if createdHere then snd (admin env (KDeleteTopic topic) s) else s)"

definition create_saga :: "prov_config \<Rightarrow> prov_env \<Rightarrow> tenant \<Rightarrow> prov_state \<Rightarrow> (prov_error + tenant) \<times> prov_state" where
  "create_saga cfg env t s =
     (let deadLetterName = BuildTopicName (TopicNamespace cfg) (tn_Slug t) DeadLetterTopicSuffix;
          defaultName = BuildTopicName (TopicNamespace cfg) (tn_Slug t) DefaultTopicSuffix;
          (a1, s) = admin env (KCreateTopic deadLetterName (DeadLetterTopicPartitions cfg) (DeadLetterTopicRetentionMs cfg)) s
      in if a1 = KFail then (Inl KafkaError, s)
         else
           let dlqCreatedHere = (a1 = KOk);
               (a2, s) = admin env (KCreateTopic defaultName (DefaultPartitions cfg) (DefaultRetentionMs cfg)) s
           in if a2 = KFail then (Inl KafkaError, delete_if env dlqCreatedHere deadLetterName s)
              else
                let defaultCreatedHere = (a2 = KOk)
                in case Tenant_Create env (ps_db s) t of
                     Inl e \<Rightarrow> (Inl e, delete_if env dlqCreatedHere deadLetterName (delete_if env defaultCreatedHere defaultName s))
                   | Inr (d, t) \<Rightarrow> (Inr t, s\<lparr>ps_db := d\<rparr>))"

definition default_quota :: "prov_config \<Rightarrow> string \<Rightarrow> tenant_quota" where
  "default_quota cfg tenantID =
     \<lparr>tq_TenantID = tenantID, tq_MaxTopics = cfg_MaxTopicsPerTenant cfg,
      tq_MaxPartitions = cfg_MaxTopicsPerTenant cfg * DefaultPartitions cfg, tq_MaxStorageBytes = MaxStorageBytes cfg,
      tq_ProducerByteRate = DefaultProducerRate cfg, tq_ConsumerByteRate = DefaultConsumerRate cfg,
      tq_MaxConnections = 0, tq_UpdatedAt = 0\<rparr>"

definition CreateTenant ::
  "prov_config \<Rightarrow> prov_env \<Rightarrow> create_tenant_request \<Rightarrow> prov_state \<Rightarrow> (prov_error + tenant) \<times> prov_state" where
  "CreateTenant cfg env req s =
     (case create_checks cfg env req (ps_db s) of
        Some e \<Rightarrow> (Inl e, s)
      | None \<Rightarrow>
          (case create_saga cfg env (new_tenant req) s of
             (Inl e, s) \<Rightarrow> (Inl e, s)
           | (Inr t, s) \<Rightarrow>
               (let s = IncActiveTenants s;
                    s = attempt (Quota_Create env (ps_db s) (default_quota cfg (tn_ID t))) s;
                    finish = (\<lambda>s. emitEvent TenantConfigChanged (emitEvent TopicsChanged (auditLog env (tn_ID t) ''create_tenant'' s)))
                in case cr_PublicKey req of
                     None \<Rightarrow> (Inr t, finish s)
                   | Some k \<Rightarrow>
                       (case ValidateKey env (new_key (tn_ID t) k) of
                          Some e \<Rightarrow> (Inl e, s)
                        | None \<Rightarrow>
                            (case Key_Create env (ps_db s) (new_key (tn_ID t) k) of
                               Inl e \<Rightarrow> (Inl e, s)
                             | Inr d \<Rightarrow> (Inr t, finish (s\<lparr>ps_db := d\<rparr>)))))))"

section \<open>Updating and status changes\<close>

record update_tenant_request =
  ur_Name :: "string option"
  ur_ConsumerType :: "string option"
  ur_Metadata :: "metadata option"
  ur_Slug :: "string option"

definition upd_opt :: "('a \<Rightarrow> 'r \<Rightarrow> 'r) \<Rightarrow> 'a option \<Rightarrow> 'r \<Rightarrow> 'r" where
  "upd_opt f v r = (case v of None \<Rightarrow> r | Some x \<Rightarrow> f x r)"

definition UpdateTenant ::
  "prov_env \<Rightarrow> string \<Rightarrow> update_tenant_request \<Rightarrow> prov_state \<Rightarrow> prov_error option \<times> prov_state" where
  "UpdateTenant env slug req s =
     (case GetBySlug env (ps_db s) slug of
        Inl e \<Rightarrow> (Some e, s)
      | Inr t \<Rightarrow>
          if tn_Status t = StatusDeleted then (Some ErrTenantDeleted, s)
          else if ur_Slug req \<noteq> None then (Some ErrSlugImmutableViaPatch, s)
          else
            let t = upd_opt (\<lambda>v r. r\<lparr>tn_Name := v\<rparr>) (ur_Name req) t;
                t = upd_opt (\<lambda>v r. r\<lparr>tn_ConsumerType := v\<rparr>) (ur_ConsumerType req) t;
                t = upd_opt (\<lambda>v r. r\<lparr>tn_Metadata := v\<rparr>) (ur_Metadata req) t
            in case ValidateTenant t of
                 Some e \<Rightarrow> (Some e, s)
               | None \<Rightarrow>
                   (case Tenant_Update env (ps_db s) t of
                      Inl e \<Rightarrow> (Some e, s)
                    | Inr d \<Rightarrow> (None, emitEvent TenantConfigChanged (auditLog env (tn_ID t) ''update_tenant'' (s\<lparr>ps_db := d\<rparr>)))))"

definition SuspendTenant :: "prov_env \<Rightarrow> string \<Rightarrow> prov_state \<Rightarrow> prov_error option \<times> prov_state" where
  "SuspendTenant env slug s =
     (case GetBySlug env (ps_db s) slug of
        Inl e \<Rightarrow> (Some e, s)
      | Inr t \<Rightarrow>
          if tn_Status t = StatusDeleted then (Some ErrTenantDeleted, s)
          else if tn_Status t \<noteq> StatusActive then (Some ErrTenantNotActive, s)
          else case UpdateStatus env (ps_db s) (tn_ID t) StatusSuspended of
                 Inl e \<Rightarrow> (Some e, s)
               | Inr d \<Rightarrow> (None, emitEvent TenantConfigChanged (emitEvent TopicsChanged
                           (auditLog env (tn_ID t) ''suspend_tenant'' (DecActiveTenants (s\<lparr>ps_db := d\<rparr>))))))"

fun create_topics :: "prov_env \<Rightarrow> string \<Rightarrow> string \<Rightarrow> (string \<times> int \<times> int) list \<Rightarrow> prov_state \<Rightarrow> prov_state" where
  "create_topics env ns slug [] s = s"
| "create_topics env ns slug ((suffix, partitions, retention) # specs) s =
     create_topics env ns slug specs (snd (admin env (KCreateTopic (BuildTopicName ns slug suffix) partitions retention) s))"

definition ReactivateTenant :: "prov_config \<Rightarrow> prov_env \<Rightarrow> string \<Rightarrow> prov_state \<Rightarrow> prov_error option \<times> prov_state" where
  "ReactivateTenant cfg env slug s =
     (case GetBySlug env (ps_db s) slug of
        Inl e \<Rightarrow> (Some e, s)
      | Inr t \<Rightarrow>
          if tn_Status t = StatusDeleted then (Some ErrTenantDeleted, s)
          else if tn_Status t \<noteq> StatusSuspended then (Some ErrTenantNotActive, s)
          else
            let s = create_topics env (TopicNamespace cfg) (tn_Slug t) (infraTopicSpecs cfg) s
            in case UpdateStatus env (ps_db s) (tn_ID t) StatusActive of
                 Inl e \<Rightarrow> (Some e, s)
               | Inr d \<Rightarrow> (None, emitEvent TenantConfigChanged (emitEvent TopicsChanged
                           (auditLog env (tn_ID t) ''reactivate_tenant'' (IncActiveTenants (s\<lparr>ps_db := d\<rparr>))))))"

section \<open>Deprovisioning and deletion\<close>

text \<open>The topic suffixes of a rule set, each once, in the order of the rules.\<close>

definition rule_suffixes :: "routing_rule list \<Rightarrow> string list" where
  "rule_suffixes rules = dedup_loop {} (concat (map AllTopicSuffixes rules))"

fun revoke_api_keys :: "prov_env \<Rightarrow> api_key list \<Rightarrow> prov_state \<Rightarrow> bool \<Rightarrow> prov_state \<times> bool" where
  "revoke_api_keys env [] s anyRevoked = (s, anyRevoked)"
| "revoke_api_keys env (k # ks) s anyRevoked =
     (if ak_IsActive k
      then (case APIKey_Revoke env (ps_db s) (ak_KeyID k) of
              Inl _ \<Rightarrow> revoke_api_keys env ks s anyRevoked
            | Inr d \<Rightarrow> revoke_api_keys env ks (s\<lparr>ps_db := d\<rparr>) True)
      else revoke_api_keys env ks s anyRevoked)"

fun admin_all :: "prov_env \<Rightarrow> kafka_call list \<Rightarrow> prov_state \<Rightarrow> prov_state" where
  "admin_all env [] s = s"
| "admin_all env (c # cs) s = admin_all env cs (snd (admin env c s))"

definition revoke_signing_keys :: "prov_env \<Rightarrow> string \<Rightarrow> prov_state \<Rightarrow> prov_state" where
  "revoke_signing_keys env tenantID s =
     (case RevokeAllForTenant env (ps_db s) tenantID of
        Inl _ \<Rightarrow> s
      | Inr d \<Rightarrow> emitEvent KeysChanged (s\<lparr>ps_db := d\<rparr>))"

definition revoke_tenant_api_keys :: "prov_env \<Rightarrow> string \<Rightarrow> prov_state \<Rightarrow> prov_state" where
  "revoke_tenant_api_keys env tenantID s =
     (case APIKey_ListByTenant env (ps_db s) tenantID 10000 0 of
        Inl _ \<Rightarrow> s
      | Inr (keys, _) \<Rightarrow>
          (case revoke_api_keys env keys s False of (s, anyRevoked) \<Rightarrow> if anyRevoked then emitEvent KeysChanged s else s))"

definition forceDeleteTenant :: "prov_config \<Rightarrow> prov_env \<Rightarrow> tenant \<Rightarrow> prov_state \<Rightarrow> prov_error option \<times> prov_state" where
  "forceDeleteTenant cfg env t s =
     (let topicSuffixes = (if routingRulesConfigured cfg
                           then (case Rules_GetAll env (ps_db s) (tn_ID t) of Inl _ \<Rightarrow> [] | Inr rules \<Rightarrow> rule_suffixes rules)
                           else [])
      in case UpdateStatus env (ps_db s) (tn_ID t) StatusDeleted of
           Inl e \<Rightarrow> (Some e, s)
         | Inr d \<Rightarrow>
             (let s = revoke_tenant_api_keys env (tn_ID t) (revoke_signing_keys env (tn_ID t) (s\<lparr>ps_db := d\<rparr>));
                  s = (if routingRulesConfigured cfg then attempt (Rules_DeleteAll env (ps_db s) (tn_ID t)) s else s);
                  s = (if channelRulesConfigured cfg then attempt (ChannelRules_Delete env (ps_db s) (tn_ID t)) s else s);
                  s = admin_all env (map (\<lambda>suffix. KDeleteTopic (BuildTopicName (TopicNamespace cfg) (tn_Slug t) suffix)) topicSuffixes) s;
                  s = auditLog env (tn_ID t) ''deprovision_tenant'' s
              in (None, emitEvent TenantConfigChanged (emitEvent TopicsChanged s))))"

definition msPerDay :: int where "msPerDay = 24 * 60 * 60 * 1000"

definition DeprovisionTenant ::
  "prov_config \<Rightarrow> prov_env \<Rightarrow> string \<Rightarrow> bool \<Rightarrow> prov_state \<Rightarrow> prov_error option \<times> prov_state" where
  "DeprovisionTenant cfg env slug force s =
     (case GetBySlug env (ps_db s) slug of
        Inl e \<Rightarrow> (Some e, s)
      | Inr t \<Rightarrow>
          if tn_Status t = StatusDeleted then (Some ErrTenantDeleted, s)
          else if \<not> force \<and> tn_Status t = StatusDeprovisioning then (Some ErrTenantNotActive, s)
          else if force
          then (case forceDeleteTenant cfg env t s of
                  (Some e, s) \<Rightarrow> (Some e, s)
                | (None, s) \<Rightarrow> (None, if tn_Status t = StatusActive then DecActiveTenants s else s))
          else case UpdateStatus env (ps_db s) (tn_ID t) StatusDeprovisioning of
                 Inl e \<Rightarrow> (Some e, s)
               | Inr d \<Rightarrow>
                   (let s = s\<lparr>ps_db := d\<rparr>;
                        s = (if tn_Status t = StatusActive then DecActiveTenants s else s);
                        s = revoke_signing_keys env (tn_ID t) s;
                        graceMs = DeprovisionGraceDays cfg * msPerDay;
                        s = attempt (SetDeprovisionAt env (ps_db s) (tn_ID t) (pv_now env + graceMs)) s;
                        s = (if routingRulesConfigured cfg
                             then (case Rules_GetAll env (ps_db s) (tn_ID t) of
                                     Inl _ \<Rightarrow> s
                                   | Inr rules \<Rightarrow> admin_all env (map (\<lambda>suffix. KSetTopicConfig
                                        (BuildTopicName (TopicNamespace cfg) (tn_Slug t) suffix) graceMs) (rule_suffixes rules)) s)
                             else s);
                        s = auditLog env (tn_ID t) ''deprovision_tenant'' s
                    in (None, emitEvent TenantConfigChanged (emitEvent TopicsChanged s))))"

text \<open>The lifecycle manager's deletion of one tenant past its deadline, and a whole cycle.\<close>

definition deleteTenant :: "prov_config \<Rightarrow> prov_env \<Rightarrow> tenant \<Rightarrow> prov_state \<Rightarrow> prov_error option \<times> prov_state" where
  "deleteTenant cfg env t s =
     (let s = (if routingRulesConfigured cfg
               then let s = (case Rules_GetAll env (ps_db s) (tn_ID t) of
                               Inl _ \<Rightarrow> s
                             | Inr rules \<Rightarrow> admin_all env (map (\<lambda>suffix. KDeleteTopic
                                  (BuildTopicName (TopicNamespace cfg) (tn_Slug t) suffix)) (rule_suffixes rules)) s)
                    in attempt (Rules_DeleteAll env (ps_db s) (tn_ID t)) s
               else s);
          s = admin_all env [KDeleteACL (''User:'' @ tn_Slug t) ''TOPIC'' (TopicNamespace cfg @ ''.'' @ tn_Slug t),
                             KDeleteACL (''User:'' @ tn_Slug t) ''GROUP'' (tn_Slug t)] s;
          s = attempt (Audit_Log env (ps_db s) \<lparr>ae_TenantID = tn_ID t, ae_Action = ''delete_tenant'', ae_Actor = ''system'',
                ae_ActorType = ''system'', ae_CreatedAt = pv_now env\<rparr>) s
      in case UpdateStatus env (ps_db s) (tn_ID t) StatusDeleted of
           Inl e \<Rightarrow> (Some e, s)
         | Inr d \<Rightarrow> (None, s\<lparr>ps_db := d\<rparr>))"

definition processDeletions :: "prov_config \<Rightarrow> prov_env \<Rightarrow> prov_state \<Rightarrow> prov_state" where
  "processDeletions cfg env s =
     (case GetTenantsForDeletion env (ps_db s) of
        Inl _ \<Rightarrow> s
      | Inr tenants \<Rightarrow> fold (\<lambda>t s. snd (deleteTenant cfg env t s)) tenants s)"

section \<open>Keys\<close>

definition CreateKey :: "prov_env \<Rightarrow> string \<Rightarrow> create_key_request \<Rightarrow> prov_state \<Rightarrow> prov_error option \<times> prov_state" where
  "CreateKey env slug req s =
     (case GetBySlug env (ps_db s) slug of
        Inl e \<Rightarrow> (Some e, s)
      | Inr t \<Rightarrow>
          if tn_Status t \<noteq> StatusActive then (Some ErrTenantNotActive, s)
          else
            let key = new_key (tn_ID t) req
            in case ValidateKey env key of
                 Some e \<Rightarrow> (Some e, s)
               | None \<Rightarrow>
                   (case Key_Create env (ps_db s) key of
                      Inl e \<Rightarrow> (Some e, s)
                    | Inr d \<Rightarrow> (None, emitEvent KeysChanged (auditLog env (tn_ID t) ''create_key'' (s\<lparr>ps_db := d\<rparr>)))))"

definition RevokeKey :: "prov_env \<Rightarrow> string \<Rightarrow> string \<Rightarrow> prov_state \<Rightarrow> prov_error option \<times> prov_state" where
  "RevokeKey env slug keyID s =
     (case GetBySlug env (ps_db s) slug of
        Inl e \<Rightarrow> (Some e, s)
      | Inr t \<Rightarrow>
          (case Key_Get env (ps_db s) keyID of
             Inl e \<Rightarrow> (Some e, s)
           | Inr key \<Rightarrow>
               if tk_TenantID key \<noteq> tn_ID t then (Some ErrKeyNotOwnedByTenant, s)
               else case Key_Revoke env (ps_db s) keyID of
                      Inl e \<Rightarrow> (Some e, s)
                    | Inr d \<Rightarrow> (None, emitEvent KeysChanged (auditLog env (tn_ID t) ''revoke_key'' (s\<lparr>ps_db := d\<rparr>)))))"

definition new_api_key :: "string \<Rightarrow> string \<Rightarrow> string \<Rightarrow> api_key" where
  "new_api_key keyID tenantID name =
     \<lparr>ak_KeyID = keyID, ak_TenantID = tenantID, ak_Name = name, ak_IsActive = False, ak_CreatedAt = 0, ak_RevokedAt = None\<rparr>"

definition CreateAPIKey :: "prov_env \<Rightarrow> string \<Rightarrow> string \<Rightarrow> prov_state \<Rightarrow> prov_error option \<times> prov_state" where
  "CreateAPIKey env slug name s =
     (case GetBySlug env (ps_db s) slug of
        Inl e \<Rightarrow> (Some e, s)
      | Inr t \<Rightarrow>
          if tn_Status t \<noteq> StatusActive then (Some ErrTenantNotActive, s)
          else case APIKey_Create env (ps_db s) (new_api_key (''pk_live_'' @ pv_newID env) (tn_ID t) name) of
                 Inl e \<Rightarrow> (Some e, s)
               | Inr d \<Rightarrow> (None, emitEvent APIKeysChanged (auditLog env (tn_ID t) ''create_api_key'' (s\<lparr>ps_db := d\<rparr>))))"

definition RevokeAPIKey :: "prov_env \<Rightarrow> string \<Rightarrow> string \<Rightarrow> prov_state \<Rightarrow> prov_error option \<times> prov_state" where
  "RevokeAPIKey env slug keyID s =
     (case GetBySlug env (ps_db s) slug of
        Inl e \<Rightarrow> (Some e, s)
      | Inr t \<Rightarrow>
          (case APIKey_Get env (ps_db s) keyID of
             Inl e \<Rightarrow> (Some e, s)
           | Inr key \<Rightarrow>
               if ak_TenantID key \<noteq> tn_ID t then (Some ErrAPIKeyNotOwnedByTenant, s)
               else case APIKey_Revoke env (ps_db s) keyID of
                      Inl e \<Rightarrow> (Some e, s)
                    | Inr d \<Rightarrow> (None, emitEvent APIKeysChanged (auditLog env (tn_ID t) ''revoke_api_key'' (s\<lparr>ps_db := d\<rparr>)))))"

section \<open>Quotas and channel rules\<close>

record update_quota_request =
  uq_MaxTopics :: "int option"
  uq_MaxPartitions :: "int option"
  uq_MaxStorageBytes :: "int option"
  uq_ProducerByteRate :: "int option"
  uq_ConsumerByteRate :: "int option"
  uq_MaxConnections :: "int option"

definition apply_quota :: "update_quota_request \<Rightarrow> tenant_quota \<Rightarrow> tenant_quota" where
  "apply_quota req q =
     upd_opt (\<lambda>v q. q\<lparr>tq_MaxConnections := v\<rparr>) (uq_MaxConnections req)
     (upd_opt (\<lambda>v q. q\<lparr>tq_ConsumerByteRate := v\<rparr>) (uq_ConsumerByteRate req)
     (upd_opt (\<lambda>v q. q\<lparr>tq_ProducerByteRate := v\<rparr>) (uq_ProducerByteRate req)
     (upd_opt (\<lambda>v q. q\<lparr>tq_MaxStorageBytes := v\<rparr>) (uq_MaxStorageBytes req)
     (upd_opt (\<lambda>v q. q\<lparr>tq_MaxPartitions := v\<rparr>) (uq_MaxPartitions req)
     (upd_opt (\<lambda>v q. q\<lparr>tq_MaxTopics := v\<rparr>) (uq_MaxTopics req) q)))))"

definition UpdateQuota :: "prov_env \<Rightarrow> string \<Rightarrow> update_quota_request \<Rightarrow> prov_state \<Rightarrow> prov_error option \<times> prov_state" where
  "UpdateQuota env slug req s =
     (case GetBySlug env (ps_db s) slug of
        Inl e \<Rightarrow> (Some e, s)
      | Inr t \<Rightarrow>
          (case Quota_Get env (ps_db s) (tn_ID t) of
             Inl e \<Rightarrow> (Some e, s)
           | Inr q \<Rightarrow>
               (let q = apply_quota req q
                in if tq_MaxTopics q < 0 \<or> tq_MaxPartitions q < 0 \<or> tq_MaxStorageBytes q < 0 \<or>
                      tq_ProducerByteRate q < 0 \<or> tq_ConsumerByteRate q < 0 \<or> tq_MaxConnections q < 0
                   then (Some ErrInvalidQuota, s)
                   else case Quota_Update env (ps_db s) q of
                          Inl e \<Rightarrow> (Some e, s)
                        | Inr d \<Rightarrow> (None, auditLog env (tn_ID t) ''update_quota''
                            (snd (admin env (KSetQuota (tn_Slug t) (tq_ProducerByteRate q) (tq_ConsumerByteRate q)) (s\<lparr>ps_db := d\<rparr>)))))))"

definition SetChannelRules :: "prov_config \<Rightarrow> prov_env \<Rightarrow> string \<Rightarrow> channel_rules \<Rightarrow> prov_state \<Rightarrow> prov_error option \<times> prov_state" where
  "SetChannelRules cfg env slug rules s =
     (if \<not> channelRulesConfigured cfg then (Some ErrChannelRulesNotConfigured, s)
      else case GetBySlug env (ps_db s) slug of
             Inl e \<Rightarrow> (Some e, s)
           | Inr t \<Rightarrow>
               if tn_Status t \<noteq> StatusActive then (Some ErrTenantNotActive, s)
               else case ValidateRules rules of
                      Some e \<Rightarrow> (Some (RulesError e), s)
                    | None \<Rightarrow>
                        (case ChannelRules_Update env (ps_db s) (tn_ID t) rules of
                           Inl e \<Rightarrow> (Some e, s)
                         | Inr d \<Rightarrow> (None, emitEvent TenantConfigChanged (auditLog env (tn_ID t) ''set_channel_rules'' (s\<lparr>ps_db := d\<rparr>)))))"

definition DeleteChannelRules :: "prov_config \<Rightarrow> prov_env \<Rightarrow> string \<Rightarrow> prov_state \<Rightarrow> prov_error option \<times> prov_state" where
  "DeleteChannelRules cfg env slug s =
     (if \<not> channelRulesConfigured cfg then (Some ErrChannelRulesNotConfigured, s)
      else case GetBySlug env (ps_db s) slug of
             Inl e \<Rightarrow> (Some e, s)
           | Inr t \<Rightarrow>
               (case ChannelRules_Get env (ps_db s) (tn_ID t) of
                  Inl e \<Rightarrow> (Some e, s)
                | Inr _ \<Rightarrow>
                    (case ChannelRules_Delete env (ps_db s) (tn_ID t) of
                       Inl e \<Rightarrow> (Some e, s)
                     | Inr d \<Rightarrow> (None, emitEvent TenantConfigChanged (auditLog env (tn_ID t) ''delete_channel_rules'' (s\<lparr>ps_db := d\<rparr>))))))"

section \<open>Routing rules and topics\<close>

definition checkEgressTopicsAllowed :: "prov_config \<Rightarrow> routing_rule list \<Rightarrow> prov_error option" where
  "checkEgressTopicsAllowed cfg rules =
     (case editionManager cfg of
        None \<Rightarrow> None
      | Some m \<Rightarrow>
          if list_ex (\<lambda>r. EgressTopics r \<noteq> []) rules \<and> \<not> HasFeature m EgressTopicsFeature
          then Some (EditionError (NewFeatureError EgressTopicsFeature (lm_edition m))) else None)"

definition ensureTopicProvisioned :: "prov_env \<Rightarrow> database \<Rightarrow> string \<Rightarrow> string \<Rightarrow> prov_error option" where
  "ensureTopicProvisioned env d tenantID suffix =
     (if suffix = DefaultTopicSuffix then None
      else case Topic_Exists env d tenantID suffix of
             Inl e \<Rightarrow> Some e
           | Inr found \<Rightarrow> if \<not> found then Some ErrTopicNotProvisioned else None)"

definition normalize_rule :: "routing_rule \<Rightarrow> routing_rule" where
  "normalize_rule r = r\<lparr>RulePattern := NormalizePattern (RulePattern r)\<rparr>"

text \<open>A chain of checks: the first that fails decides.\<close>

definition check_all :: "prov_error option list \<Rightarrow> prov_error option" where
  "check_all cs = first_error (\<lambda>c. c) cs"

definition replace_checks :: "prov_config \<Rightarrow> prov_env \<Rightarrow> tenant \<Rightarrow> routing_rule list \<Rightarrow> database \<Rightarrow> prov_error option" where
  "replace_checks cfg env t rules d =
     (if tn_Status t \<noteq> StatusActive then Some ErrTenantNotActive
      else check_all
        [case editionManager cfg of
           None \<Rightarrow> None
         | Some m \<Rightarrow> map_option EditionError (CheckRoutingRulesPerTenant (lm_limits m) (int (length rules))),
         map_option RoutingError (ValidateRoutingRules (map normalize_rule rules) (cfg_MaxRoutingRulesPerTenant cfg) (MaxTopicsPerRule cfg)),
         checkEgressTopicsAllowed cfg (map normalize_rule rules),
         first_error (ensureTopicProvisioned env d (tn_ID t)) (rule_suffixes (map normalize_rule rules))])"

definition ReplaceRoutingRules ::
  "prov_config \<Rightarrow> prov_env \<Rightarrow> string \<Rightarrow> routing_rule list \<Rightarrow> prov_state \<Rightarrow> prov_error option \<times> prov_state" where
  "ReplaceRoutingRules cfg env slug rules s =
     (if \<not> routingRulesConfigured cfg then (Some ErrRoutingRulesNotConfigured, s)
      else case GetBySlug env (ps_db s) slug of
             Inl e \<Rightarrow> (Some e, s)
           | Inr t \<Rightarrow>
               (case replace_checks cfg env t rules (ps_db s) of
                  Some e \<Rightarrow> (Some e, s)
                | None \<Rightarrow>
                    (case Rules_Replace env (ps_db s) (tn_ID t) (map normalize_rule rules) of
                       Inl e \<Rightarrow> (Some e, s)
                     | Inr d \<Rightarrow> (None, emitEvent TopicsChanged (emitEvent TenantConfigChanged
                                 (auditLog env (tn_ID t) ''replace_routing_rules'' (s\<lparr>ps_db := d\<rparr>)))))))"

definition add_count_check :: "prov_config \<Rightarrow> prov_env \<Rightarrow> string \<Rightarrow> database \<Rightarrow> prov_error option" where
  "add_count_check cfg env tenantID d =
     (if cfg_MaxRoutingRulesPerTenant cfg > 0 \<or> editionManager cfg \<noteq> None
      then (case Rules_List env d tenantID 1 0 of
              Inl e \<Rightarrow> Some e
            | Inr (_, n) \<Rightarrow>
                if cfg_MaxRoutingRulesPerTenant cfg > 0 \<and> int n \<ge> cfg_MaxRoutingRulesPerTenant cfg
                then Some (RoutingError ErrTooManyRoutingRules)
                else case editionManager cfg of
                       None \<Rightarrow> None
                     | Some m \<Rightarrow> map_option EditionError (CheckRoutingRulesPerTenant (lm_limits m) (int n + 1)))
      else None)"

definition add_checks :: "prov_config \<Rightarrow> prov_env \<Rightarrow> tenant \<Rightarrow> routing_rule \<Rightarrow> database \<Rightarrow> prov_error option" where
  "add_checks cfg env t rule d =
     (if tn_Status t \<noteq> StatusActive then Some ErrTenantNotActive
      else check_all
        [map_option RoutingError (ValidateRoutingRules [rule] 0 (MaxTopicsPerRule cfg)),
         checkEgressTopicsAllowed cfg [rule],
         add_count_check cfg env (tn_ID t) d,
         (case Rules_GetAll env d (tn_ID t) of
            Inl e \<Rightarrow> Some e
          | Inr existing \<Rightarrow> map_option RoutingError (ValidateEgressDisjoint (existing @ [rule]))),
         first_error (ensureTopicProvisioned env d (tn_ID t)) (AllTopicSuffixes rule)])"

definition AddRoutingRule ::
  "prov_config \<Rightarrow> prov_env \<Rightarrow> string \<Rightarrow> routing_rule \<Rightarrow> prov_state \<Rightarrow> prov_error option \<times> prov_state" where
  "AddRoutingRule cfg env slug rule s =
     (if \<not> routingRulesConfigured cfg then (Some ErrRoutingRulesNotConfigured, s)
      else case GetBySlug env (ps_db s) slug of
             Inl e \<Rightarrow> (Some e, s)
           | Inr t \<Rightarrow>
               (case add_checks cfg env t (normalize_rule rule) (ps_db s) of
                  Some e \<Rightarrow> (Some e, s)
                | None \<Rightarrow>
                    (case Rules_Add env (ps_db s) (tn_ID t) (normalize_rule rule) of
                       Inl e \<Rightarrow> (Some e, s)
                     | Inr d \<Rightarrow> (None, emitEvent TopicsChanged (emitEvent TenantConfigChanged
                                 (auditLog env (tn_ID t) ''add_routing_rule'' (s\<lparr>ps_db := d\<rparr>)))))))"

definition DeleteRoutingRules :: "prov_config \<Rightarrow> prov_env \<Rightarrow> string \<Rightarrow> prov_state \<Rightarrow> prov_error option \<times> prov_state" where
  "DeleteRoutingRules cfg env slug s =
     (if \<not> routingRulesConfigured cfg then (Some ErrRoutingRulesNotConfigured, s)
      else case GetBySlug env (ps_db s) slug of
             Inl e \<Rightarrow> (Some e, s)
           | Inr t \<Rightarrow>
               (case Rules_DeleteAll env (ps_db s) (tn_ID t) of
                  Inl e \<Rightarrow> (Some e, s)
                | Inr d \<Rightarrow> (None, emitEvent TopicsChanged (emitEvent TenantConfigChanged
                            (auditLog env (tn_ID t) ''delete_routing_rules'' (s\<lparr>ps_db := d\<rparr>))))))"

text \<open>\<open>Inl\<close> when the quota row could not be read for another reason than being absent.\<close>

definition topic_quota :: "prov_config \<Rightarrow> prov_env \<Rightarrow> string \<Rightarrow> database \<Rightarrow> prov_error + int" where
  "topic_quota cfg env tenantID d =
     (case Quota_Get env d tenantID of
        Inr q \<Rightarrow> Inr (tq_MaxTopics q)
      | Inl e \<Rightarrow> if e = ErrQuotaNotFound then Inr (cfg_MaxTopicsPerTenant cfg) else Inl e)"

definition topic_checks :: "prov_config \<Rightarrow> prov_env \<Rightarrow> tenant \<Rightarrow> string \<Rightarrow> database \<Rightarrow> prov_error option" where
  "topic_checks cfg env t suffix d =
     (if tn_Status t \<noteq> StatusActive then Some ErrTenantNotActive
      else case validateTopicSuffix suffix of
             Some e \<Rightarrow> Some (RoutingError e)
           | None \<Rightarrow>
               (case Topic_Count env d (tn_ID t) of
                  Inl e \<Rightarrow> Some e
                | Inr count \<Rightarrow>
                    (case topic_quota cfg env (tn_ID t) d of
                       Inl e \<Rightarrow> Some e
                     | Inr maxTopics \<Rightarrow>
                         if maxTopics > 0 \<and> int count + 1 > maxTopics then Some ErrTopicQuotaExceeded
                         else case editionManager cfg of
                                None \<Rightarrow> None
                              | Some m \<Rightarrow> map_option EditionError (CheckTopicsPerTenant (lm_limits m) (int count)))))"

definition CreateTopic :: "prov_config \<Rightarrow> prov_env \<Rightarrow> string \<Rightarrow> string \<Rightarrow> prov_state \<Rightarrow> prov_error option \<times> prov_state" where
  "CreateTopic cfg env slug suffix s =
     (case GetBySlug env (ps_db s) slug of
        Inl e \<Rightarrow> (Some e, s)
      | Inr t \<Rightarrow>
          (case topic_checks cfg env t suffix (ps_db s) of
             Some e \<Rightarrow> (Some e, s)
           | None \<Rightarrow>
               (case Topic_Create env (ps_db s) (tn_ID t) suffix of
                  Inl e \<Rightarrow> (Some e, s)
                | Inr d \<Rightarrow> (None, emitEvent TopicsChanged (auditLog env (tn_ID t) ''create_topic'' (s\<lparr>ps_db := d\<rparr>))))))"

definition topic_referenced :: "prov_config \<Rightarrow> prov_env \<Rightarrow> string \<Rightarrow> string \<Rightarrow> database \<Rightarrow> prov_error option" where
  "topic_referenced cfg env tenantID suffix d =
     (if \<not> routingRulesConfigured cfg then None
      else case Rules_GetAll env d tenantID of
             Inl e \<Rightarrow> Some e
           | Inr rules \<Rightarrow>
               if list_ex (\<lambda>r. List.member (AllTopicSuffixes r) suffix) rules then Some ErrTopicReferencedByRule else None)"

definition DeleteTopic :: "prov_config \<Rightarrow> prov_env \<Rightarrow> string \<Rightarrow> string \<Rightarrow> prov_state \<Rightarrow> prov_error option \<times> prov_state" where
  "DeleteTopic cfg env slug suffix s =
     (case GetBySlug env (ps_db s) slug of
        Inl e \<Rightarrow> (Some e, s)
      | Inr t \<Rightarrow>
          if suffix = DefaultTopicSuffix \<or> suffix = DeadLetterTopicSuffix then (Some (RoutingError ErrReservedTopicSuffix), s)
          else case topic_referenced cfg env (tn_ID t) suffix (ps_db s) of
                 Some e \<Rightarrow> (Some e, s)
               | None \<Rightarrow>
                   (case Topic_Delete env (ps_db s) (tn_ID t) suffix of
                      Inl e \<Rightarrow> (Some e, s)
                    | Inr d \<Rightarrow> (None, emitEvent TopicsChanged (auditLog env (tn_ID t) ''delete_topic'' (s\<lparr>ps_db := d\<rparr>)))))"

section \<open>Renaming\<close>

text \<open>The checks before the lock: \<open>Inr\<close> is the tenant, and the state in which an expired hold was cleared.\<close>

definition rename_checks ::
  "prov_config \<Rightarrow> prov_env \<Rightarrow> string \<Rightarrow> string \<Rightarrow> prov_state \<Rightarrow> (prov_error + tenant) \<times> prov_state" where
  "rename_checks cfg env slug newSlug s =
     (case ValidateSlug newSlug of
        Some e \<Rightarrow> (Inl e, s)
      | None \<Rightarrow>
          if isReservedSlug newSlug then (Inl ErrSlugReserved, s)
          else case GetBySlug env (ps_db s) slug of
                 Inl e \<Rightarrow> (Inl e, s)
               | Inr t \<Rightarrow>
                   if tn_Status t \<noteq> StatusActive then (Inl ErrTenantNotActive, s)
                   else if newSlug = tn_Slug t then (Inl ErrSlugUnchanged, s)
                   else case tn_RenamedAt t of
                          None \<Rightarrow> (Inr t, s)
                        | Some at \<Rightarrow>
                            if pv_now env - at \<ge> SlugRenameTopicHoldPeriod cfg
                            then (Inr t, attempt (ClearRenameState env (ps_db s) (tn_ID t)) s)
                            else (Inl ErrSlugRenameInProgress, s))"

text \<open>Creating the infrastructure topics of the new slug stops at the first failure.\<close>

fun rename_topics :: "prov_env \<Rightarrow> string \<Rightarrow> string \<Rightarrow> (string \<times> int \<times> int) list \<Rightarrow> prov_state \<Rightarrow> bool \<times> prov_state" where
  "rename_topics env ns slug [] s = (True, s)"
| "rename_topics env ns slug ((suffix, partitions, retention) # specs) s =
     (case admin env (KCreateTopic (BuildTopicName ns slug suffix) partitions retention) s of
        (a, s) \<Rightarrow> if a = KFail then (False, s) else rename_topics env ns slug specs s)"

definition rename_compensate :: "prov_config \<Rightarrow> prov_env \<Rightarrow> string \<Rightarrow> string \<Rightarrow> prov_state \<Rightarrow> prov_state" where
  "rename_compensate cfg env tenantID newSlug s =
     (let s = snd (admin env (KDeleteTopicACLs newSlug) s);
          s = admin_all env (map (\<lambda>spec. KDeleteTopic (BuildTopicName (TopicNamespace cfg) newSlug (fst spec))) (infraTopicSpecs cfg)) s
      in attempt (ClearRenameState env (ps_db s) tenantID) s)"

definition rename_quota :: "prov_env \<Rightarrow> tenant \<Rightarrow> string \<Rightarrow> prov_state \<Rightarrow> prov_state" where
  "rename_quota env t newSlug s =
     (case Quota_Get env (ps_db s) (tn_ID t) of
        Inl _ \<Rightarrow> s
      | Inr q \<Rightarrow> admin_all env [KDeleteQuota (tn_Slug t), KSetQuota newSlug (tq_ProducerByteRate q) (tq_ConsumerByteRate q)] s)"

definition rename_saga :: "prov_config \<Rightarrow> prov_env \<Rightarrow> tenant \<Rightarrow> string \<Rightarrow> prov_state \<Rightarrow> prov_error option \<times> prov_state" where
  "rename_saga cfg env t newSlug s =
     (case SetRenameState env (ps_db s) (tn_ID t) SlugRenameStatePending (tn_Slug t) of
        Inl e \<Rightarrow> (Some (if e = ErrCASFailed then ErrSlugRenameInProgress else e), s)
      | Inr d \<Rightarrow>
          (case admin env (KCreateTopicACLs newSlug) (s\<lparr>ps_db := d\<rparr>) of
             (a, s) \<Rightarrow>
               if a \<noteq> KOk then (Some KafkaError, s)
               else case rename_topics env (TopicNamespace cfg) newSlug (infraTopicSpecs cfg) s of
                      (False, s) \<Rightarrow> (Some KafkaError, s)
                    | (True, s) \<Rightarrow>
                        (case UpdateSlug env (ps_db s) (tn_ID t) newSlug of
                           Inl e \<Rightarrow> if e = ErrSlugAlreadyTaken
                                     then (Some ErrSlugAlreadyTaken, rename_compensate cfg env (tn_ID t) newSlug s)
                                     else (Some e, s)
                         | Inr d \<Rightarrow>
                             (let s = auditLog env (tn_ID t) ''rename_tenant'' (s\<lparr>ps_db := d\<rparr>);
                                  s = snd (admin env (KDeleteTopicACLs (tn_Slug t)) s);
                                  s = rename_quota env t newSlug s
                              in (None, emitEvent TenantConfigChanged s)))))"

definition RenameTenant ::
  "prov_config \<Rightarrow> prov_env \<Rightarrow> string \<Rightarrow> string \<Rightarrow> prov_state \<Rightarrow> prov_error option \<times> prov_state" where
  "RenameTenant cfg env slug newSlug s =
     (case rename_checks cfg env slug newSlug s of
        (Inl e, s) \<Rightarrow> (Some e, s)
      | (Inr t, s) \<Rightarrow>
          (case GetBySlug env (ps_db s) newSlug of
             Inr other \<Rightarrow> if tn_Status other \<noteq> StatusDeleted then (Some ErrSlugAlreadyTaken, s)
                          else rename_saga cfg env t newSlug s
           | Inl _ \<Rightarrow> rename_saga cfg env t newSlug s))"

section \<open>Startup\<close>

definition Start :: "prov_env \<Rightarrow> prov_state \<Rightarrow> prov_state" where
  "Start env s =
     (case ListPendingRenames env (ps_db s) of
        Inl _ \<Rightarrow> s
      | Inr tenants \<Rightarrow>
          (let s = fold (\<lambda>t s. if tn_RenameState t = Some SlugRenameStateComplete
                                   \<and> tn_PreviousSlug t \<noteq> None \<and> tn_PreviousSlug t \<noteq> Some []
                                then emitEvent TenantConfigChanged s else s) tenants s
           in case CountActive env (ps_db s) of
                Inl _ \<Rightarrow> s
              | Inr n \<Rightarrow> s\<lparr>ps_gauge := int n\<rparr>))"

end
