(* ===== verification/EventBus.thy ===== *)
theory EventBus
  imports ProvisioningService
begin

text \<open>
  The in-process event bus of the provisioning service (\<^verbatim>\<open>internal/provisioning/eventbus/bus.go\<close>): a map from
  subscriber identifiers to bounded channels. \<open>Publish\<close> ranges over the map in Go's unspecified order, but the
  channels are independent, so the result does not depend on it. Metrics and log lines are left out.
\<close>

definition subscriberBufferSize :: nat where
  "subscriberBufferSize = 16"

record event_bus =
  subscribers :: "nat \<rightharpoonup> event_type list"
  bus_nextID :: nat

definition New_bus :: event_bus where
  "New_bus = \<lparr>subscribers = Map.empty, bus_nextID = 0\<rparr>"

definition Subscribe_bus :: "event_bus \<Rightarrow> nat \<times> event_bus" where
  "Subscribe_bus b = (bus_nextID b, b\<lparr>subscribers := (subscribers b)(bus_nextID b \<mapsto> []), bus_nextID := bus_nextID b + 1\<rparr>)"

definition Unsubscribe_bus :: "nat \<Rightarrow> event_bus \<Rightarrow> event_bus" where
  "Unsubscribe_bus i b = (case subscribers b i of None \<Rightarrow> b | Some _ \<Rightarrow> b\<lparr>subscribers := (subscribers b)(i := None)\<rparr>)"

text \<open>A non-blocking send: a full buffer drops the event.\<close>

definition bus_offer :: "event_type \<Rightarrow> event_type list \<Rightarrow> event_type list" where
  "bus_offer e ch = (if length ch < subscriberBufferSize then ch @ [e] else ch)"

definition Publish_bus :: "event_type \<Rightarrow> event_bus \<Rightarrow> event_bus" where
  "Publish_bus e b = b\<lparr>subscribers := map_option (bus_offer e) \<circ> subscribers b\<rparr>"

text \<open>A receive by the owner of the channel.\<close>

definition receive_bus :: "nat \<Rightarrow> event_bus \<Rightarrow> (event_type \<times> event_bus) option" where
  "receive_bus i b =
     (case subscribers b i of
        Some (e # q) \<Rightarrow> Some (e, b\<lparr>subscribers := (subscribers b)(i \<mapsto> q)\<rparr>)
      | _ \<Rightarrow> None)"

definition publish_all :: "event_type list \<Rightarrow> event_bus \<Rightarrow> event_bus" where
  "publish_all es b = fold Publish_bus es b"

section \<open>Lemmas\<close>

definition bus_ok :: "event_bus \<Rightarrow> bool" where
  "bus_ok b \<longleftrightarrow> (\<forall>i ch. subscribers b i = Some ch \<longrightarrow> length ch \<le> subscriberBufferSize \<and> i < bus_nextID b)"

lemma bus_ok_New: "bus_ok New_bus"
  by (simp add: bus_ok_def New_bus_def)

lemma bus_ok_Subscribe: "bus_ok b \<Longrightarrow> bus_ok (snd (Subscribe_bus b))"
  by (auto simp: bus_ok_def Subscribe_bus_def less_Suc_eq)

lemma bus_ok_Unsubscribe: "bus_ok b \<Longrightarrow> bus_ok (Unsubscribe_bus i b)"
  by (auto simp: bus_ok_def Unsubscribe_bus_def split: option.splits)

lemma bus_ok_Publish: "bus_ok b \<Longrightarrow> bus_ok (Publish_bus e b)"
  by (fastforce simp: bus_ok_def Publish_bus_def bus_offer_def)

lemma bus_ok_receive: "bus_ok b \<Longrightarrow> receive_bus i b = Some (e, b') \<Longrightarrow> bus_ok b'"
proof -
  assume ok: "bus_ok b" and "receive_bus i b = Some (e, b')"
  then obtain q where q: "subscribers b i = Some (e # q)" "b' = b\<lparr>subscribers := (subscribers b)(i \<mapsto> q)\<rparr>"
    by (auto simp: receive_bus_def split: option.splits list.splits)
  then have "length (e # q) \<le> subscriberBufferSize" "i < bus_nextID b" using ok q(1) unfolding bus_ok_def by blast+
  then show "bus_ok b'" using ok q by (auto simp: bus_ok_def)
qed

lemma bus_ok_publish_all: "bus_ok b \<Longrightarrow> bus_ok (publish_all es b)"
  unfolding publish_all_def by (induction es arbitrary: b) (auto simp: bus_ok_Publish)

lemmas bus_ok_intros = bus_ok_New bus_ok_Subscribe bus_ok_Unsubscribe bus_ok_Publish bus_ok_receive bus_ok_publish_all

text \<open>A fresh identifier has no subscriber, so a subscription never takes over another channel.\<close>

lemma Subscribe_fresh: "bus_ok b \<Longrightarrow> subscribers b (bus_nextID b) = None"
  by (cases "subscribers b (bus_nextID b)") (auto simp: bus_ok_def)

lemma bus_offer_prefix: "\<exists>r. bus_offer e ch = ch @ r \<and> set r \<subseteq> {e}"
  by (auto simp: bus_offer_def)

text \<open>What a subscriber's channel holds after publications: what it held, then a subsequence of the events.\<close>

fun bus_offer_all :: "event_type list \<Rightarrow> event_type list \<Rightarrow> event_type list" where
  "bus_offer_all [] ch = ch"
| "bus_offer_all (e # es) ch = bus_offer_all es (bus_offer e ch)"

lemma publish_all_channel: "subscribers (publish_all es b) i = map_option (bus_offer_all es) (subscribers b i)"
  unfolding publish_all_def by (induction es arbitrary: b) (simp_all add: Publish_bus_def map_option_case split: option.split)

lemma bus_offer_all_room: "length ch + length es \<le> subscriberBufferSize \<Longrightarrow> bus_offer_all es ch = ch @ es"
  by (induction es arbitrary: ch) (auto simp: bus_offer_def)

end
