(* ===== verification/ProvisioningSteps.thy ===== *)
theory ProvisioningSteps
  imports ProvisioningService
begin

text \<open>
  Every operation of the provisioning service as a sequence of guarded writes of one tenant's rows. The
  relation \<open>db_step\<close> lists the writes together with what the service has checked before it issues them; the
  lemmas show that each operation runs through such steps only, whatever fails in between. Invariants of the
  database are then proved once, on the steps.
\<close>

section \<open>Guarded writes\<close>

definition live :: "database \<Rightarrow> string \<Rightarrow> bool" where
  "live d tid \<longleftrightarrow> (\<exists>t \<in> set (db_tenants d). tn_ID t = tid \<and> tn_DeletedAt t = None)"

definition active :: "database \<Rightarrow> string \<Rightarrow> bool" where
  "active d tid \<longleftrightarrow> (\<exists>t \<in> set (db_tenants d). tn_ID t = tid \<and> tn_Status t = StatusActive)"

definition provisioned :: "database \<Rightarrow> string \<Rightarrow> string \<Rightarrow> bool" where
  "provisioned d tid suffix \<longleftrightarrow> suffix = DefaultTopicSuffix \<or> topic_provisioned d tid suffix"

definition rule_wf :: "routing_rule \<Rightarrow> bool" where
  "rule_wf r \<longleftrightarrow> rule_topics_ok r \<and> NormalizePattern (RulePattern r) = RulePattern r \<and>
     is_ok (MatchRoutingPattern (RulePattern r) ''probe'')"

inductive db_step :: "prov_config \<Rightarrow> string \<Rightarrow> database \<Rightarrow> database \<Rightarrow> bool" for cfg where
  tenant_create: "Tenant_Create env d t = Inr (d', t') \<Longrightarrow> tn_Status t = StatusActive \<Longrightarrow> tn_DeletedAt t = None \<Longrightarrow>
     db_step cfg (tn_ID t') d d'"
| tenant_update: "Tenant_Update env d t = Inr d' \<Longrightarrow> ValidateTenant t = None \<Longrightarrow> db_step cfg (tn_ID t) d d'"
| tenant_status: "UpdateStatus env d tid st = Inr d' \<Longrightarrow> db_step cfg tid d d'"
| tenant_deadline: "SetDeprovisionAt env d tid at = Inr d' \<Longrightarrow> db_step cfg tid d d'"
| rename_lock: "SetRenameState env d tid st prev = Inr d' \<Longrightarrow> live d tid \<Longrightarrow> db_step cfg tid d d'"
| rename_clear: "ClearRenameState env d tid = Inr d' \<Longrightarrow> live d tid \<Longrightarrow> db_step cfg tid d d'"
| rename_commit: "UpdateSlug env d tid slug = Inr d' \<Longrightarrow> live d tid \<Longrightarrow> db_step cfg tid d d'"
| key_create: "Key_Create env d k = Inr d' \<Longrightarrow> active d (tk_TenantID k) \<Longrightarrow> tk_RevokedAt k = None \<Longrightarrow>
     db_step cfg (tk_TenantID k) d d'"
| key_revoke: "Key_Revoke env d kid = Inr d' \<Longrightarrow> Key_Get env' d kid = Inr k \<Longrightarrow> db_step cfg (tk_TenantID k) d d'"
| key_revoke_all: "RevokeAllForTenant env d tid = Inr d' \<Longrightarrow> db_step cfg tid d d'"
| api_key_create: "APIKey_Create env d k = Inr d' \<Longrightarrow> active d (ak_TenantID k) \<Longrightarrow> ak_RevokedAt k = None \<Longrightarrow>
     db_step cfg (ak_TenantID k) d d'"
| api_key_revoke: "APIKey_Revoke env d kid = Inr d' \<Longrightarrow> \<forall>k \<in> set (db_apiKeys d). ak_KeyID k = kid \<longrightarrow> ak_TenantID k = tid \<Longrightarrow>
     db_step cfg tid d d'"
| rules_add: "Rules_Add env d tid r = Inr d' \<Longrightarrow> routingRulesConfigured cfg \<Longrightarrow> rule_wf r \<Longrightarrow> \<forall>x \<in> set (AllTopicSuffixes r). provisioned d tid x \<Longrightarrow>
     db_step cfg tid d d'"
| rules_replace: "Rules_Replace env d tid rs = Inr d' \<Longrightarrow> routingRulesConfigured cfg \<Longrightarrow> separated rs \<Longrightarrow> list_all rule_wf rs \<Longrightarrow>
     \<forall>r \<in> set rs. \<forall>x \<in> set (AllTopicSuffixes r). provisioned d tid x \<Longrightarrow> db_step cfg tid d d'"
| rules_delete: "Rules_DeleteAll env d tid = Inr d' \<Longrightarrow> db_step cfg tid d d'"
| topic_create: "Topic_Create env d tid suffix = Inr d' \<Longrightarrow> db_step cfg tid d d'"
| topic_delete: "Topic_Delete env d tid suffix = Inr d' \<Longrightarrow>
     (routingRulesConfigured cfg \<Longrightarrow> \<forall>r \<in> set (getAll d tid). suffix \<notin> set (AllTopicSuffixes r)) \<Longrightarrow> db_step cfg tid d d'"
| quota_create: "Quota_Create env d q = Inr d' \<Longrightarrow> db_step cfg (tq_TenantID q) d d'"
| quota_update: "Quota_Update env d q = Inr d' \<Longrightarrow> db_step cfg (tq_TenantID q) d d'"
| channel_rules_set: "ChannelRules_Update env d tid r = Inr d' \<Longrightarrow> ValidateRules r = None \<Longrightarrow> db_step cfg tid d d'"
| channel_rules_delete: "ChannelRules_Delete env d tid = Inr d' \<Longrightarrow> db_step cfg tid d d'"
| audit: "Audit_Log env d e = Inr d' \<Longrightarrow> ae_TenantID e = tid \<Longrightarrow> db_step cfg tid d d'"

text \<open>A run of guarded writes of the rows of one tenant.\<close>

definition db_run :: "prov_config \<Rightarrow> string \<Rightarrow> database \<Rightarrow> database \<Rightarrow> bool" where
  "db_run cfg tid = (db_step cfg tid)\<^sup>*\<^sup>*"

named_theorems run_intros

lemma db_run_refl [run_intros]: "db_run cfg tid d d"
  by (simp add: db_run_def)

lemma db_run_step: "db_run cfg tid d d' \<Longrightarrow> db_step cfg tid d' d'' \<Longrightarrow> db_run cfg tid d d''"
  by (auto simp: db_run_def intro: rtranclp.rtrancl_into_rtrancl)

lemma db_run_trans: "db_run cfg tid d d' \<Longrightarrow> db_run cfg tid d' d'' \<Longrightarrow> db_run cfg tid d d''"
  by (auto simp: db_run_def intro: rtranclp_trans)

section \<open>The parts that leave the database alone\<close>

named_theorems db_frame

lemma emitEvent_db [simp, db_frame]: "ps_db (emitEvent e s) = ps_db s"
  by (simp add: emitEvent_def)

lemma gauge_db [simp, db_frame]: "ps_db (IncActiveTenants s) = ps_db s" "ps_db (DecActiveTenants s) = ps_db s"
  by (simp_all add: IncActiveTenants_def DecActiveTenants_def)

lemma admin_db [simp, db_frame]: "ps_db (snd (admin env c s)) = ps_db s"
  by (simp add: admin_def)

lemma admin_all_db [simp, db_frame]: "ps_db (admin_all env cs s) = ps_db s"
  by (induction cs arbitrary: s) auto

lemma create_topics_db [simp, db_frame]: "ps_db (create_topics env ns slug specs s) = ps_db s"
  by (induction env ns slug specs s rule: create_topics.induct) auto

lemma rename_topics_db: "rename_topics env ns slug specs s = (b, s') \<Longrightarrow> ps_db s' = ps_db s"
  by (induction env ns slug specs s rule: rename_topics.induct) (auto simp: admin_def split: if_splits)

lemma delete_if_db [simp, db_frame]: "ps_db (delete_if env b t s) = ps_db s"
  by (simp add: delete_if_def)

lemma rename_quota_db [simp, db_frame]: "ps_db (rename_quota env t newSlug s) = ps_db s"
  by (simp add: rename_quota_def split: sum.splits)

section \<open>The parts that write\<close>

lemma attempt_run:
  assumes "db_run cfg tid d (ps_db s)" "\<And>d'. r = Inr d' \<Longrightarrow> db_step cfg tid (ps_db s) d'"
  shows "db_run cfg tid d (ps_db (attempt r s))"
  using assms by (auto simp: attempt_def split: sum.splits intro: db_run_step)

lemma auditLog_run [run_intros]: "db_run cfg tid d (ps_db s) \<Longrightarrow> db_run cfg tid d (ps_db (auditLog env tid a s))"
  unfolding auditLog_def by (rule attempt_run) (auto intro: db_step.audit)

lemma revoke_signing_run [run_intros]:
  "db_run cfg tid d (ps_db s) \<Longrightarrow> db_run cfg tid d (ps_db (revoke_signing_keys env tid s))"
  unfolding revoke_signing_keys_def by (auto split: sum.splits intro: db_run_step db_step.key_revoke_all)

lemma find_in: "find P xs = Some x \<Longrightarrow> x \<in> set xs \<and> P x"
  by (induction xs) (auto split: if_splits)

lemma GetBySlug_live: "GetBySlug env d slug = Inr t \<Longrightarrow> t \<in> set (db_tenants d) \<and> tn_Slug t = slug \<and> tn_DeletedAt t = None"
  by (auto simp: GetBySlug_def split: if_splits option.splits dest: find_in)

lemma GetBySlug_active: "GetBySlug env d slug = Inr t \<Longrightarrow> tn_Status t = StatusActive \<Longrightarrow> active d (tn_ID t)"
  by (auto simp: active_def dest: GetBySlug_live)

text \<open>Unique key identifiers are needed to know whose key a revocation touches.\<close>

definition api_keys_unique :: "database \<Rightarrow> bool" where
  "api_keys_unique d \<longleftrightarrow> distinct (map ak_KeyID (db_apiKeys d))"

lemma update_where_map: "(\<And>r. g (f r) = g r) \<Longrightarrow> map g (update_where P f rows) = map g rows"
  by (auto simp: update_where_def)

lemma set_update_where: "r \<in> set (update_where P f rows) \<longleftrightarrow> (\<exists>x \<in> set rows. r = (if P x then f x else x))"
  by (auto simp: update_where_def)

lemma unique_key: "distinct (map g xs) \<Longrightarrow> x \<in> set xs \<Longrightarrow> y \<in> set xs \<Longrightarrow> g x = g y \<Longrightarrow> x = y"
  by (auto simp: distinct_map inj_on_def)

lemma api_revoke_unique: "APIKey_Revoke env d kid = Inr d' \<Longrightarrow> api_keys_unique d \<Longrightarrow> api_keys_unique d'"
  by (auto simp: APIKey_Revoke_def api_keys_unique_def Let_def update_where_map split: if_splits)

lemma api_revoke_keeps:
  assumes "APIKey_Revoke env d kid = Inr d'" "x \<in> set (db_apiKeys d)"
  shows "\<exists>y \<in> set (db_apiKeys d'). ak_KeyID y = ak_KeyID x \<and> ak_TenantID y = ak_TenantID x"
proof -
  let ?y = "if ak_KeyID x = kid \<and> ak_IsActive x then x\<lparr>ak_IsActive := False, ak_RevokedAt := Some (pv_now env)\<rparr> else x"
  have "?y \<in> set (db_apiKeys d')"
    using assms by (auto simp: APIKey_Revoke_def Let_def set_update_where split: if_splits)
  then show ?thesis by (auto intro!: bexI [of _ ?y])
qed

lemma revoke_api_keys_run:
  assumes "revoke_api_keys env ks s b = (s', b')" "api_keys_unique (ps_db s)"
    and "\<forall>k \<in> set ks. ak_TenantID k = tid \<and> (\<exists>x \<in> set (db_apiKeys (ps_db s)). ak_KeyID x = ak_KeyID k \<and> ak_TenantID x = tid)"
  shows "db_run cfg tid (ps_db s) (ps_db s')"
  using assms
proof (induction env ks s b arbitrary: s' b' rule: revoke_api_keys.induct)
  case (2 env k ks s b)
  show ?case
  proof (cases "ak_IsActive k \<and> is_ok (APIKey_Revoke env (ps_db s) (ak_KeyID k))")
    case True
    then obtain d where d: "APIKey_Revoke env (ps_db s) (ak_KeyID k) = Inr d" by (auto simp: is_ok_iff)
    obtain x where x: "x \<in> set (db_apiKeys (ps_db s))" "ak_KeyID x = ak_KeyID k" "ak_TenantID x = tid" using "2.prems"(3) by auto
    have own: "\<forall>y \<in> set (db_apiKeys (ps_db s)). ak_KeyID y = ak_KeyID k \<longrightarrow> ak_TenantID y = tid"
      using "2.prems"(2) x by (auto simp: api_keys_unique_def dest: unique_key)
    have step: "db_run cfg tid (ps_db s) d" by (rule db_run_step [OF db_run_refl db_step.api_key_revoke [OF d own]])
    have keep: "\<forall>k' \<in> set ks. \<exists>x \<in> set (db_apiKeys d). ak_KeyID x = ak_KeyID k' \<and> ak_TenantID x = tid"
      using "2.prems"(3) api_revoke_keeps [OF d] by (metis list.set_intros(2))
    have "db_run cfg tid d (ps_db s')"
      using "2.IH"(2) [of d s' b'] True "2.prems" d keep api_revoke_unique [OF d] by auto
    then show ?thesis by (rule db_run_trans [OF step])
  next
    case False
    then consider "\<not> ak_IsActive k" | e where "ak_IsActive k" "APIKey_Revoke env (ps_db s) (ak_KeyID k) = Inl e"
      by (cases "APIKey_Revoke env (ps_db s) (ak_KeyID k)") auto
    then show ?thesis
    proof cases
      case 1
      then show ?thesis using "2.IH"(3) [of s' b'] "2.prems" by auto
    next
      case (2 e)
      then show ?thesis using "2.IH"(1) [of e s' b'] "2.prems" by auto
    qed
  qed
qed (auto intro: db_run_refl)

lemma revoke_tenant_api_keys_run:
  assumes "db_run cfg tid d (ps_db s)" "api_keys_unique (ps_db s)"
  shows "db_run cfg tid d (ps_db (revoke_tenant_api_keys env tid s))"
proof (cases "APIKey_ListByTenant env (ps_db s) tid 10000 0")
  case (Inr r)
  obtain keys n where r: "r = (keys, n)" by (cases r)
  obtain s' b where rv: "revoke_api_keys env keys s False = (s', b)" by (cases "revoke_api_keys env keys s False")
  have "set keys \<subseteq> {k \<in> set (db_apiKeys (ps_db s)). ak_TenantID k = tid}"
    using Inr r by (auto simp: APIKey_ListByTenant_def Let_def split: if_splits dest: in_set_takeD)
  then have "db_run cfg tid (ps_db s) (ps_db s')" by (intro revoke_api_keys_run [OF rv assms(2)]) auto
  then show ?thesis using Inr r rv db_run_trans [OF assms(1)] by (auto simp: revoke_tenant_api_keys_def)
qed (use assms in \<open>simp add: revoke_tenant_api_keys_def\<close>)

end
