(* ===== verification/ProvisioningRun.thy ===== *)
theory ProvisioningRun
  imports ProvisioningSteps
begin

text \<open>
  Each operation of the service as a run of guarded writes, and the reachable states of the service: any
  sequence of operations with any arguments, any failing database calls and any answers of the broker.
\<close>

section \<open>Operations are runs\<close>

text \<open>The rows an operation on \<open>slug\<close> may change are those of the live tenant with that slug.\<close>

definition scoped :: "prov_config \<Rightarrow> string \<Rightarrow> prov_state \<Rightarrow> prov_state \<Rightarrow> bool" where
  "scoped cfg slug s s' \<longleftrightarrow> ps_db s' = ps_db s \<or>
     (\<exists>t \<in> set (db_tenants (ps_db s)). tn_Slug t = slug \<and> tn_DeletedAt t = None \<and> db_run cfg (tn_ID t) (ps_db s) (ps_db s'))"

lemma scopedI:
  assumes "\<And>t. GetBySlug env (ps_db s) slug = Inr t \<Longrightarrow> db_run cfg (tn_ID t) (ps_db s) (ps_db s')"
    and "\<And>e. GetBySlug env (ps_db s) slug = Inl e \<Longrightarrow> ps_db s' = ps_db s"
  shows "scoped cfg slug s s'"
  using assms GetBySlug_live [of env "ps_db s" slug] unfolding scoped_def by (cases "GetBySlug env (ps_db s) slug") fast+

lemma run_write:
  assumes "db_step cfg tid (ps_db s) d"
  shows "db_run cfg tid (ps_db s) (ps_db (auditLog env tid a (s\<lparr>ps_db := d\<rparr>)))"
  by (rule auditLog_run) (simp add: db_run_step [OF db_run_refl assms])

lemma UpdateTenant_scoped: "scoped cfg slug s (snd (UpdateTenant env slug req s))"
proof (rule scopedI)
  fix t assume t: "GetBySlug env (ps_db s) slug = Inr t"
  let ?t = "upd_opt (\<lambda>v r. r\<lparr>tn_Metadata := v\<rparr>) (ur_Metadata req) (upd_opt (\<lambda>v r. r\<lparr>tn_ConsumerType := v\<rparr>)
      (ur_ConsumerType req) (upd_opt (\<lambda>v r. r\<lparr>tn_Name := v\<rparr>) (ur_Name req) t))"
  have id: "tn_ID ?t = tn_ID t" by (simp add: upd_opt_def split: option.splits)
  show "db_run cfg (tn_ID t) (ps_db s) (ps_db (snd (UpdateTenant env slug req s)))"
    using run_write [OF db_step.tenant_update [of env "ps_db s" ?t _ cfg], unfolded id]
    by (auto simp: UpdateTenant_def t Let_def id db_run_refl split: option.splits sum.splits)
qed (simp add: UpdateTenant_def)

lemma SuspendTenant_scoped: "scoped cfg slug s (snd (SuspendTenant env slug s))"
proof (rule scopedI)
  fix t assume t: "GetBySlug env (ps_db s) slug = Inr t"
  have *: "db_run cfg (tn_ID t) (ps_db s) (ps_db (auditLog env (tn_ID t) a (DecActiveTenants (s\<lparr>ps_db := d\<rparr>))))"
    if "UpdateStatus env (ps_db s) (tn_ID t) StatusSuspended = Inr d" for d a
    by (rule auditLog_run) (simp add: db_run_step [OF db_run_refl db_step.tenant_status [OF that]])
  show "db_run cfg (tn_ID t) (ps_db s) (ps_db (snd (SuspendTenant env slug s)))"
    by (auto simp: SuspendTenant_def t db_run_refl * split: sum.splits)
qed (simp add: SuspendTenant_def)

lemma ReactivateTenant_scoped: "scoped cfg slug s (snd (ReactivateTenant cfg env slug s))"
proof (rule scopedI)
  fix t assume t: "GetBySlug env (ps_db s) slug = Inr t"
  let ?s = "create_topics env (TopicNamespace cfg) (tn_Slug t) (infraTopicSpecs cfg) s"
  have *: "db_run cfg (tn_ID t) (ps_db s) (ps_db (auditLog env (tn_ID t) a (IncActiveTenants (?s\<lparr>ps_db := d\<rparr>))))"
    if "UpdateStatus env (ps_db s) (tn_ID t) StatusActive = Inr d" for d a
    by (rule auditLog_run) (simp add: db_run_step [OF db_run_refl db_step.tenant_status [OF that]])
  show "db_run cfg (tn_ID t) (ps_db s) (ps_db (snd (ReactivateTenant cfg env slug s)))"
    by (auto simp: ReactivateTenant_def t Let_def db_run_refl * split: sum.splits)
qed (simp add: ReactivateTenant_def)

lemma CreateKey_scoped: "scoped cfg slug s (snd (CreateKey env slug req s))"
proof (rule scopedI)
  fix t assume t: "GetBySlug env (ps_db s) slug = Inr t"
  have *: "db_run cfg (tn_ID t) (ps_db s) (ps_db (auditLog env (tn_ID t) a (s\<lparr>ps_db := d\<rparr>)))"
    if "Key_Create env (ps_db s) (new_key (tn_ID t) req) = Inr d" "tn_Status t = StatusActive" for d a
    using run_write [OF db_step.key_create [OF that(1)]] GetBySlug_active [OF t that(2)] by (simp add: new_key_def)
  show "db_run cfg (tn_ID t) (ps_db s) (ps_db (snd (CreateKey env slug req s)))"
    by (auto simp: CreateKey_def t Let_def db_run_refl * split: option.splits sum.splits)
qed (simp add: CreateKey_def)

lemma RevokeKey_scoped: "scoped cfg slug s (snd (RevokeKey env slug kid s))"
proof (rule scopedI)
  fix t assume t: "GetBySlug env (ps_db s) slug = Inr t"
  have *: "db_run cfg (tn_ID t) (ps_db s) (ps_db (auditLog env (tn_ID t) a (s\<lparr>ps_db := d\<rparr>)))"
    if "Key_Revoke env (ps_db s) kid = Inr d" "Key_Get env (ps_db s) kid = Inr k" "tk_TenantID k = tn_ID t" for d a k
    using run_write [OF db_step.key_revoke [OF that(1,2)]] that(3) by simp
  show "db_run cfg (tn_ID t) (ps_db s) (ps_db (snd (RevokeKey env slug kid s)))"
    by (auto simp: RevokeKey_def t db_run_refl * split: sum.splits)
qed (simp add: RevokeKey_def)

lemma CreateAPIKey_scoped: "scoped cfg slug s (snd (CreateAPIKey env slug name s))"
proof (rule scopedI)
  fix t assume t: "GetBySlug env (ps_db s) slug = Inr t"
  have *: "db_run cfg (tn_ID t) (ps_db s) (ps_db (auditLog env (tn_ID t) a (s\<lparr>ps_db := d\<rparr>)))"
    if "APIKey_Create env (ps_db s) (new_api_key kid (tn_ID t) name) = Inr d" "tn_Status t = StatusActive" for d a kid
    using run_write [OF db_step.api_key_create [OF that(1)]] GetBySlug_active [OF t that(2)] by (simp add: new_api_key_def)
  show "db_run cfg (tn_ID t) (ps_db s) (ps_db (snd (CreateAPIKey env slug name s)))"
    by (auto simp: CreateAPIKey_def t db_run_refl * split: sum.splits)
qed (simp add: CreateAPIKey_def)

lemma RevokeAPIKey_scoped:
  assumes "api_keys_unique (ps_db s)"
  shows "scoped cfg slug s (snd (RevokeAPIKey env slug kid s))"
proof (rule scopedI)
  fix t assume t: "GetBySlug env (ps_db s) slug = Inr t"
  have own: "\<forall>y \<in> set (db_apiKeys (ps_db s)). ak_KeyID y = kid \<longrightarrow> ak_TenantID y = ak_TenantID k"
    if "APIKey_Get env (ps_db s) kid = Inr k" for k
    using that assms by (auto simp: APIKey_Get_def api_keys_unique_def split: if_splits option.splits dest!: find_in dest: unique_key)
  have *: "db_run cfg (tn_ID t) (ps_db s) (ps_db (auditLog env (tn_ID t) a (s\<lparr>ps_db := d\<rparr>)))"
    if "APIKey_Revoke env (ps_db s) kid = Inr d" "APIKey_Get env (ps_db s) kid = Inr k" "ak_TenantID k = tn_ID t" for d a k
    using run_write [OF db_step.api_key_revoke [OF that(1) own [OF that(2)]]] that(3) by simp
  show "db_run cfg (tn_ID t) (ps_db s) (ps_db (snd (RevokeAPIKey env slug kid s)))"
    by (auto simp: RevokeAPIKey_def t db_run_refl * split: sum.splits)
qed (simp add: RevokeAPIKey_def)

lemma apply_quota_tenant [simp]: "tq_TenantID (apply_quota req q) = tq_TenantID q"
  by (simp add: apply_quota_def upd_opt_def split: option.splits)

lemma Quota_Get_tenant: "Quota_Get env d tid = Inr q \<Longrightarrow> tq_TenantID q = tid"
  by (auto simp: Quota_Get_def split: if_splits option.splits dest: find_in)

lemma UpdateQuota_scoped: "scoped cfg slug s (snd (UpdateQuota env slug req s))"
proof (rule scopedI)
  fix t assume t: "GetBySlug env (ps_db s) slug = Inr t"
  have *: "db_run cfg (tn_ID t) (ps_db s) (ps_db (auditLog env (tn_ID t) a (snd (admin env c (s\<lparr>ps_db := d\<rparr>)))))"
    if "Quota_Update env (ps_db s) (apply_quota req q) = Inr d" "Quota_Get env (ps_db s) (tn_ID t) = Inr q" for d a q c
    using db_run_step [OF db_run_refl db_step.quota_update [OF that(1)]] Quota_Get_tenant [OF that(2)]
    by (intro auditLog_run) simp
  show "db_run cfg (tn_ID t) (ps_db s) (ps_db (snd (UpdateQuota env slug req s)))"
    by (auto simp: UpdateQuota_def t Let_def db_run_refl * split: sum.splits)
qed (simp add: UpdateQuota_def)

lemma SetChannelRules_scoped: "scoped cfg slug s (snd (SetChannelRules cfg env slug rules s))"
proof (rule scopedI)
  fix t assume t: "GetBySlug env (ps_db s) slug = Inr t"
  show "db_run cfg (tn_ID t) (ps_db s) (ps_db (snd (SetChannelRules cfg env slug rules s)))"
    using run_write [OF db_step.channel_rules_set [of env "ps_db s" "tn_ID t" rules]]
    by (auto simp: SetChannelRules_def t db_run_refl split: sum.splits option.splits)
qed (simp add: SetChannelRules_def)

lemma DeleteChannelRules_scoped: "scoped cfg slug s (snd (DeleteChannelRules cfg env slug s))"
proof (rule scopedI)
  fix t assume t: "GetBySlug env (ps_db s) slug = Inr t"
  show "db_run cfg (tn_ID t) (ps_db s) (ps_db (snd (DeleteChannelRules cfg env slug s)))"
    using run_write [OF db_step.channel_rules_delete [of env "ps_db s" "tn_ID t"]]
    by (auto simp: DeleteChannelRules_def t db_run_refl split: sum.splits)
qed (simp add: DeleteChannelRules_def)

lemma DeleteRoutingRules_scoped: "scoped cfg slug s (snd (DeleteRoutingRules cfg env slug s))"
proof (rule scopedI)
  fix t assume t: "GetBySlug env (ps_db s) slug = Inr t"
  show "db_run cfg (tn_ID t) (ps_db s) (ps_db (snd (DeleteRoutingRules cfg env slug s)))"
    using run_write [OF db_step.rules_delete [of env "ps_db s" "tn_ID t"]]
    by (auto simp: DeleteRoutingRules_def t db_run_refl split: sum.splits)
qed (simp add: DeleteRoutingRules_def)

lemma CreateTopic_scoped: "scoped cfg slug s (snd (CreateTopic cfg env slug suffix s))"
proof (rule scopedI)
  fix t assume t: "GetBySlug env (ps_db s) slug = Inr t"
  show "db_run cfg (tn_ID t) (ps_db s) (ps_db (snd (CreateTopic cfg env slug suffix s)))"
    using run_write [OF db_step.topic_create [of env "ps_db s" "tn_ID t" suffix]]
    by (auto simp: CreateTopic_def t db_run_refl split: sum.splits option.splits)
qed (simp add: CreateTopic_def)

lemma topic_referenced_None:
  "topic_referenced cfg env tid suffix d = None \<Longrightarrow> routingRulesConfigured cfg \<Longrightarrow>
     \<forall>r \<in> set (getAll d tid). suffix \<notin> set (AllTopicSuffixes r)"
  by (auto simp: topic_referenced_def Rules_GetAll_def list_ex_iff split: if_splits)

lemma DeleteTopic_scoped: "scoped cfg slug s (snd (DeleteTopic cfg env slug suffix s))"
proof (rule scopedI)
  fix t assume t: "GetBySlug env (ps_db s) slug = Inr t"
  show "db_run cfg (tn_ID t) (ps_db s) (ps_db (snd (DeleteTopic cfg env slug suffix s)))"
    using run_write [OF db_step.topic_delete [of env "ps_db s" "tn_ID t" suffix _ cfg, OF _ topic_referenced_None [of cfg env "tn_ID t" suffix "ps_db s"]]]
    by (auto simp: DeleteTopic_def t db_run_refl split: sum.splits option.splits)
qed (simp add: DeleteTopic_def)

subsection \<open>Routing rules\<close>

lemma validated_wf: "validateRoutingPattern p = None \<Longrightarrow> NormalizePattern p = p \<Longrightarrow> is_ok (MatchRoutingPattern p ''probe'')"
  by (auto simp: validateRoutingPattern_None)

lemma normalize_rule_normal [simp]: "NormalizePattern (RulePattern (normalize_rule r)) = RulePattern (normalize_rule r)"
  by (simp add: normalize_rule_def NormalizePattern_idem)

lemma validated_rules_wf:
  assumes "ValidateRoutingRules rs mr mt = None" "\<forall>r \<in> set rs. NormalizePattern (RulePattern r) = RulePattern r"
  shows "separated rs" "list_all rule_wf rs"
  using assms by (auto simp: ValidateRoutingRules_None separated_def list_all_iff rule_wf_def intro!: validated_wf)

lemma ensure_provisioned: "ensureTopicProvisioned env d tid x = None \<Longrightarrow> provisioned d tid x"
  by (auto simp: ensureTopicProvisioned_def provisioned_def Topic_Exists_def split: if_splits)

lemma rule_suffixes_set: "set (rule_suffixes rs) = (\<Union>r \<in> set rs. set (AllTopicSuffixes r))"
  by (simp add: rule_suffixes_def dedup_loop_set)

lemma check_all_None [simp]: "check_all cs = None \<longleftrightarrow> (\<forall>c \<in> set cs. c = None)"
  by (simp add: check_all_def)

lemma replace_checks_None:
  assumes "replace_checks cfg env t rules d = None"
  shows "separated (map normalize_rule rules)" "list_all rule_wf (map normalize_rule rules)"
    and "\<forall>r \<in> set (map normalize_rule rules). \<forall>x \<in> set (AllTopicSuffixes r). provisioned d (tn_ID t) x"
    and "tn_Status t = StatusActive"
proof -
  have v: "ValidateRoutingRules (map normalize_rule rules) (cfg_MaxRoutingRulesPerTenant cfg) (MaxTopicsPerRule cfg) = None"
    and e: "\<forall>x \<in> set (rule_suffixes (map normalize_rule rules)). ensureTopicProvisioned env d (tn_ID t) x = None"
    and "tn_Status t = StatusActive"
    using assms by (auto simp: replace_checks_def split: if_splits)
  then show "tn_Status t = StatusActive" by simp
  show "separated (map normalize_rule rules)" "list_all rule_wf (map normalize_rule rules)"
    by (rule validated_rules_wf [OF v], simp)+
  show "\<forall>r \<in> set (map normalize_rule rules). \<forall>x \<in> set (AllTopicSuffixes r). provisioned d (tn_ID t) x"
    using e by (auto simp: rule_suffixes_set intro: ensure_provisioned)
qed

lemma ReplaceRoutingRules_scoped: "scoped cfg slug s (snd (ReplaceRoutingRules cfg env slug rules s))"
proof (rule scopedI)
  fix t assume t: "GetBySlug env (ps_db s) slug = Inr t"
  have *: "db_run cfg (tn_ID t) (ps_db s) (ps_db (auditLog env (tn_ID t) a (s\<lparr>ps_db := d\<rparr>)))"
    if "routingRulesConfigured cfg" "replace_checks cfg env t rules (ps_db s) = None" "Rules_Replace env (ps_db s) (tn_ID t) (map normalize_rule rules) = Inr d" for d a
    by (rule run_write [OF db_step.rules_replace [OF that(3,1) replace_checks_None(1-3) [OF that(2)]]])
  show "db_run cfg (tn_ID t) (ps_db s) (ps_db (snd (ReplaceRoutingRules cfg env slug rules s)))"
    by (auto simp: ReplaceRoutingRules_def t db_run_refl * split: sum.splits option.splits)
qed (simp add: ReplaceRoutingRules_def)

lemma add_checks_None:
  assumes "add_checks cfg env t r d = None" "NormalizePattern (RulePattern r) = RulePattern r"
  shows "rule_wf r" "\<forall>x \<in> set (AllTopicSuffixes r). provisioned d (tn_ID t) x"
proof -
  have v: "ValidateRoutingRules [r] 0 (MaxTopicsPerRule cfg) = None"
    and e: "\<forall>x \<in> set (AllTopicSuffixes r). ensureTopicProvisioned env d (tn_ID t) x = None"
    using assms(1) by (auto simp: add_checks_def split: if_splits)
  show "rule_wf r" using validated_rules_wf(2) [OF v] assms(2) by simp
  show "\<forall>x \<in> set (AllTopicSuffixes r). provisioned d (tn_ID t) x" using e by (auto intro: ensure_provisioned)
qed

lemma AddRoutingRule_scoped: "scoped cfg slug s (snd (AddRoutingRule cfg env slug rule s))"
proof (rule scopedI)
  fix t assume t: "GetBySlug env (ps_db s) slug = Inr t"
  have *: "db_run cfg (tn_ID t) (ps_db s) (ps_db (auditLog env (tn_ID t) a (s\<lparr>ps_db := d\<rparr>)))"
    if "routingRulesConfigured cfg" "add_checks cfg env t (normalize_rule rule) (ps_db s) = None"
      "Rules_Add env (ps_db s) (tn_ID t) (normalize_rule rule) = Inr d" for d a
    by (rule run_write [OF db_step.rules_add [OF that(3,1) add_checks_None [OF that(2) normalize_rule_normal]]])
  show "db_run cfg (tn_ID t) (ps_db s) (ps_db (snd (AddRoutingRule cfg env slug rule s)))"
    by (auto simp: AddRoutingRule_def t db_run_refl * split: sum.splits option.splits)
qed (simp add: AddRoutingRule_def)

subsection \<open>Deletion\<close>

lemma UpdateStatus_apiKeys: "UpdateStatus env d tid st = Inr d' \<Longrightarrow> db_apiKeys d' = db_apiKeys d"
  by (auto simp: UpdateStatus_def Let_def split: if_splits)

lemma revoke_signing_apiKeys [simp]: "db_apiKeys (ps_db (revoke_signing_keys env tid s)) = db_apiKeys (ps_db s)"
  by (auto simp: revoke_signing_keys_def RevokeAllForTenant_def split: sum.splits if_splits)

lemma forceDelete_run:
  assumes "api_keys_unique (ps_db s)"
  shows "db_run cfg (tn_ID t) (ps_db s) (ps_db (snd (forceDeleteTenant cfg env t s)))"
proof (cases "UpdateStatus env (ps_db s) (tn_ID t) StatusDeleted")
  case (Inr d)
  let ?s1 = "revoke_tenant_api_keys env (tn_ID t) (revoke_signing_keys env (tn_ID t) (s\<lparr>ps_db := d\<rparr>))"
  have 1: "db_run cfg (tn_ID t) (ps_db s) (ps_db (revoke_signing_keys env (tn_ID t) (s\<lparr>ps_db := d\<rparr>)))"
    by (rule revoke_signing_run) (simp add: db_run_step [OF db_run_refl db_step.tenant_status [OF Inr]])
  have 2: "db_run cfg (tn_ID t) (ps_db s) (ps_db ?s1)"
    by (rule revoke_tenant_api_keys_run [OF 1]) (use assms UpdateStatus_apiKeys [OF Inr] in \<open>simp add: api_keys_unique_def\<close>)
  have 3: "db_run cfg (tn_ID t) (ps_db s) (ps_db (attempt (Rules_DeleteAll env (ps_db ?s1) (tn_ID t)) ?s1))"
    by (rule attempt_run [OF 2]) (rule db_step.rules_delete)
  have 4: "db_run cfg (tn_ID t) (ps_db s) (ps_db (attempt (ChannelRules_Delete env (ps_db s') (tn_ID t)) s'))"
    if "db_run cfg (tn_ID t) (ps_db s) (ps_db s')" for s'
    by (rule attempt_run [OF that]) (rule db_step.channel_rules_delete)
  show ?thesis using Inr 2 3 by (auto simp: forceDeleteTenant_def Let_def intro!: auditLog_run 4)
qed (simp add: forceDeleteTenant_def Let_def db_run_refl)

lemma DeprovisionTenant_scoped:
  assumes "api_keys_unique (ps_db s)"
  shows "scoped cfg slug s (snd (DeprovisionTenant cfg env slug force s))"
proof (rule scopedI)
  fix t assume t: "GetBySlug env (ps_db s) slug = Inr t"
  note fd = forceDelete_run [OF assms, of cfg t env]
  show "db_run cfg (tn_ID t) (ps_db s) (ps_db (snd (DeprovisionTenant cfg env slug force s)))"
  proof (cases force)
    case True
    then show ?thesis using fd by (auto simp: DeprovisionTenant_def t db_run_refl split: prod.splits option.splits)
  next
    case False
    show ?thesis
    proof (cases "UpdateStatus env (ps_db s) (tn_ID t) StatusDeprovisioning")
      case (Inr d)
      let ?s1 = "if tn_Status t = StatusActive then DecActiveTenants (s\<lparr>ps_db := d\<rparr>) else s\<lparr>ps_db := d\<rparr>"
      let ?s2 = "revoke_signing_keys env (tn_ID t) ?s1"
      let ?s3 = "attempt (SetDeprovisionAt env (ps_db ?s2) (tn_ID t) (pv_now env + DeprovisionGraceDays cfg * msPerDay)) ?s2"
      have "db_run cfg (tn_ID t) (ps_db s) (ps_db ?s2)"
        by (rule revoke_signing_run) (simp add: db_run_step [OF db_run_refl db_step.tenant_status [OF Inr]])
      then have "db_run cfg (tn_ID t) (ps_db s) (ps_db ?s3)"
        by (rule attempt_run) (rule db_step.tenant_deadline)
      moreover have "ps_db (if routingRulesConfigured cfg then case Rules_GetAll env (ps_db ?s3) (tn_ID t) of Inl _ \<Rightarrow> ?s3
          | Inr rules \<Rightarrow> admin_all env (f rules) ?s3 else ?s3) = ps_db ?s3" for f
        by (simp split: sum.splits)
      ultimately show ?thesis using False Inr
        unfolding DeprovisionTenant_def t Let_def by (simp add: db_run_refl auditLog_run)
    qed (use False in \<open>simp add: DeprovisionTenant_def t db_run_refl\<close>)
  qed
qed (simp add: DeprovisionTenant_def)

lemma status_run:
  "db_run cfg tid d (ps_db s) \<Longrightarrow> db_run cfg tid d (ps_db (snd (case UpdateStatus env (ps_db s) tid st of
     Inl e \<Rightarrow> (Some e, s) | Inr d' \<Rightarrow> (None, s\<lparr>ps_db := d'\<rparr>))))"
  by (auto split: sum.split intro: db_run_step db_step.tenant_status)

lemma deleteTenant_run: "db_run cfg (tn_ID t) (ps_db s) (ps_db (snd (deleteTenant cfg env t s)))"
proof -
  let ?s1 = "case Rules_GetAll env (ps_db s) (tn_ID t) of Inl _ \<Rightarrow> s
     | Inr rules \<Rightarrow> admin_all env (map (\<lambda>suffix. KDeleteTopic (BuildTopicName (TopicNamespace cfg) (tn_Slug t) suffix)) (rule_suffixes rules)) s"
  let ?s2 = "if routingRulesConfigured cfg then attempt (Rules_DeleteAll env (ps_db ?s1) (tn_ID t)) ?s1 else s"
  have 1: "ps_db ?s1 = ps_db s" by (simp split: sum.splits)
  have 2: "db_run cfg (tn_ID t) (ps_db s) (ps_db ?s2)"
    using attempt_run [of cfg "tn_ID t" "ps_db s" ?s1 "Rules_DeleteAll env (ps_db ?s1) (tn_ID t)"] 1
    by (auto simp: db_run_refl intro: db_step.rules_delete)
  let ?s3 = "\<lambda>cs e. attempt (Audit_Log env (ps_db (admin_all env cs ?s2)) e) (admin_all env cs ?s2)"
  have 3: "db_run cfg (tn_ID t) (ps_db s) (ps_db (?s3 cs e))" if "ae_TenantID e = tn_ID t" for cs e
    by (rule attempt_run) (use 2 that in \<open>auto intro: db_step.audit\<close>)
  show ?thesis
    unfolding deleteTenant_def Let_def
    by (rule status_run, rule 3) simp
qed

subsection \<open>Renaming\<close>

lemma live_update:
  assumes "live d tid" "\<And>r. tn_ID (f r) = tn_ID r \<and> tn_DeletedAt (f r) = tn_DeletedAt r"
  shows "live (d\<lparr>db_tenants := update_where P f (db_tenants d)\<rparr>) tid"
proof -
  obtain t where t: "t \<in> set (db_tenants d)" "tn_ID t = tid" "tn_DeletedAt t = None" using assms(1) by (auto simp: live_def)
  let ?t = "if P t then f t else t"
  have "?t \<in> set (update_where P f (db_tenants d))" using t(1) by (auto simp: set_update_where)
  moreover have "tn_ID ?t = tid \<and> tn_DeletedAt ?t = None" using t assms(2) [of t] by auto
  ultimately show ?thesis by (auto simp: live_def)
qed

lemma rename_live:
  "SetRenameState env d u st prev = Inr d' \<Longrightarrow> live d tid \<Longrightarrow> live d' tid"
  "ClearRenameState env d u = Inr d' \<Longrightarrow> live d tid \<Longrightarrow> live d' tid"
  by (auto simp: SetRenameState_def ClearRenameState_def Let_def split: if_splits intro!: live_update)

definition live_run :: "prov_config \<Rightarrow> string \<Rightarrow> database \<Rightarrow> database \<Rightarrow> bool" where
  "live_run cfg tid d d' \<longleftrightarrow> db_run cfg tid d d' \<and> live d' tid"

lemma clear_live_run:
  "live_run cfg tid d (ps_db s) \<Longrightarrow> live_run cfg tid d (ps_db (attempt (ClearRenameState env (ps_db s) tid) s))"
  by (auto simp: live_run_def attempt_def split: sum.splits intro: rename_live db_run_step db_step.rename_clear)

lemma rename_checks_run:
  assumes "rename_checks cfg env slug newSlug s = (Inr t, s')"
  shows "GetBySlug env (ps_db s) slug = Inr t \<and> live_run cfg (tn_ID t) (ps_db s) (ps_db s')"
proof -
  have t: "GetBySlug env (ps_db s) slug = Inr t" and s': "s' = s \<or> s' = attempt (ClearRenameState env (ps_db s) (tn_ID t)) s"
    using assms by (auto simp: rename_checks_def split: option.splits if_splits sum.splits)
  have "live_run cfg (tn_ID t) (ps_db s) (ps_db s)"
    using GetBySlug_live [OF t] by (auto simp: live_run_def live_def db_run_refl)
  with s' clear_live_run show ?thesis using t by blast
qed

lemma rename_checks_fail: "rename_checks cfg env slug newSlug s = (Inl e, s') \<Longrightarrow> s' = s"
  by (auto simp: rename_checks_def split: option.splits if_splits sum.splits)

lemma rename_saga_run:
  assumes "live_run cfg (tn_ID t) d (ps_db s)"
  shows "db_run cfg (tn_ID t) d (ps_db (snd (rename_saga cfg env t newSlug s)))"
proof (cases "SetRenameState env (ps_db s) (tn_ID t) SlugRenameStatePending (tn_Slug t)")
  case (Inr d1)
  have l1: "live_run cfg (tn_ID t) d d1"
    using assms Inr by (auto simp: live_run_def intro: rename_live db_run_step db_step.rename_lock)
  obtain b s2 where top: "rename_topics env (TopicNamespace cfg) newSlug (infraTopicSpecs cfg)
      (s\<lparr>ps_db := d1, ps_kafka := ps_kafka s @ [KCreateTopicACLs newSlug]\<rparr>) = (b, s2)" by fastforce
  have s2: "ps_db s2 = d1" using rename_topics_db [OF top] by simp
  have comp: "db_run cfg (tn_ID t) d (ps_db (rename_compensate cfg env (tn_ID t) newSlug s2))"
    using clear_live_run [of cfg "tn_ID t" d "admin_all env cs (snd (admin env c s2))" env for cs c] l1 s2
    by (simp add: rename_compensate_def Let_def live_run_def)
  have commit: "db_run cfg (tn_ID t) d d2" if "UpdateSlug env d1 (tn_ID t) newSlug = Inr d2" for d2
    using l1 that by (auto simp: live_run_def intro: db_run_step db_step.rename_commit)
  show ?thesis
  proof (cases "pv_kafka env (KCreateTopicACLs newSlug) = KOk \<and> b")
    case True
    then show ?thesis using Inr top s2 comp l1 commit
      by (cases "UpdateSlug env d1 (tn_ID t) newSlug")
        (auto simp: rename_saga_def admin_def Let_def live_run_def intro!: auditLog_run)
  next
    case False
    then show ?thesis using Inr top s2 l1 by (auto simp: rename_saga_def admin_def live_run_def split: bool.splits)
  qed
qed (use assms in \<open>simp add: rename_saga_def live_run_def\<close>)

lemma RenameTenant_scoped: "scoped cfg slug s (snd (RenameTenant cfg env slug newSlug s))"
proof (cases "rename_checks cfg env slug newSlug s")
  case (Pair r s')
  show ?thesis
  proof (cases r)
    case (Inl e)
    then show ?thesis using Pair rename_checks_fail [of cfg env slug newSlug s e s'] by (simp add: RenameTenant_def scoped_def)
  next
    case (Inr t)
    have l: "GetBySlug env (ps_db s) slug = Inr t" "live_run cfg (tn_ID t) (ps_db s) (ps_db s')"
      using rename_checks_run Pair Inr by auto
    have "db_run cfg (tn_ID t) (ps_db s) (ps_db (snd (RenameTenant cfg env slug newSlug s)))"
      using l(2) rename_saga_run [OF l(2)] Pair Inr by (auto simp: RenameTenant_def live_run_def split: sum.splits)
    then show ?thesis using GetBySlug_live [OF l(1)] by (auto simp: scoped_def)
  qed
qed

subsection \<open>Creating\<close>

lemma create_saga_db:
  "create_saga cfg env t s = (Inl e, s') \<Longrightarrow> ps_db s' = ps_db s"
  "create_saga cfg env t s = (Inr t', s') \<Longrightarrow> Tenant_Create env (ps_db s) t = Inr (ps_db s', t')"
  by (auto simp: create_saga_def Let_def admin_def split: if_splits sum.splits)

lemma Tenant_Create_id: "Tenant_Create env d t = Inr (d', t') \<Longrightarrow> tn_ID t' = pv_newID env \<and> t' \<in> set (db_tenants d')
   \<and> tn_Status t' = tn_Status t \<and> db_tenants d' = db_tenants d @ [t'] \<and> pv_newID env \<notin> tn_ID ` set (db_tenants d)"
  by (auto simp: Tenant_Create_def Let_def list_ex_iff split: if_splits)

lemma Quota_Create_tenants: "db_tenants (ps_db (attempt (Quota_Create env d q) s)) = (if is_ok (Quota_Create env d q) then db_tenants d else db_tenants (ps_db s))"
  by (auto simp: attempt_def Quota_Create_def split: sum.splits if_splits)

lemma CreateTenant_run: "db_run cfg (pv_newID env) (ps_db s) (ps_db (snd (CreateTenant cfg env req s)))"
proof (cases "create_checks cfg env req (ps_db s)")
  case None
  obtain r s1 where sg: "create_saga cfg env (new_tenant req) s = (r, s1)" by fastforce
  show ?thesis
  proof (cases r)
    case (Inl e)
    then show ?thesis using None sg create_saga_db(1) by (auto simp: CreateTenant_def db_run_refl)
  next
    case (Inr t)
    have cr: "Tenant_Create env (ps_db s) (new_tenant req) = Inr (ps_db s1, t)" using create_saga_db(2) sg Inr by auto
    note tid = Tenant_Create_id [OF cr]
    let ?s2 = "attempt (Quota_Create env (ps_db s1) (default_quota cfg (tn_ID t))) (IncActiveTenants s1)"
    have "db_run cfg (pv_newID env) (ps_db s) (ps_db s1)"
      using db_run_step [OF db_run_refl db_step.tenant_create [OF cr]] tid by (simp add: new_tenant_def)
    then have r2: "db_run cfg (pv_newID env) (ps_db s) (ps_db ?s2)"
      using attempt_run [of cfg "pv_newID env" "ps_db s" "IncActiveTenants s1"] tid db_step.quota_create [of env "ps_db s1" "default_quota cfg (tn_ID t)"]
      by (simp add: default_quota_def)
    have act: "active (ps_db ?s2) (pv_newID env)"
      using tid by (auto simp: active_def Quota_Create_tenants new_tenant_def)
    have r3: "db_run cfg (pv_newID env) (ps_db s) d" if "Key_Create env (ps_db ?s2) (new_key (tn_ID t) k) = Inr d" for d k
      using db_run_step [OF r2] db_step.key_create [OF that] act tid by (simp add: new_key_def)
    have fin: "db_run cfg (pv_newID env) (ps_db s) (ps_db (auditLog env (pv_newID env) a s'))"
      if "db_run cfg (pv_newID env) (ps_db s) (ps_db s')" for a s' by (rule auditLog_run [OF that])
    show ?thesis
    proof (cases "cr_PublicKey req")
      case None
      with \<open>create_checks cfg env req (ps_db s) = None\<close> show ?thesis
        using sg Inr r2 tid by (simp add: CreateTenant_def Let_def fin)
    next
      case (Some k)
      with \<open>create_checks cfg env req (ps_db s) = None\<close> show ?thesis
        using sg Inr r2 r3 tid by (auto simp: CreateTenant_def Let_def fin split: option.split sum.split)
    qed
  qed
qed (simp add: CreateTenant_def db_run_refl)

section \<open>Reachable states\<close>

datatype prov_op =
    OpCreateTenant create_tenant_request | OpUpdateTenant string update_tenant_request
  | OpSuspendTenant string | OpReactivateTenant string | OpDeprovisionTenant string bool | OpProcessDeletions
  | OpCreateKey string create_key_request | OpRevokeKey string string
  | OpCreateAPIKey string string | OpRevokeAPIKey string string
  | OpUpdateQuota string update_quota_request
  | OpSetChannelRules string channel_rules | OpDeleteChannelRules string
  | OpReplaceRoutingRules string "routing_rule list" | OpAddRoutingRule string routing_rule | OpDeleteRoutingRules string
  | OpCreateTopic string string | OpDeleteTopic string string
  | OpRenameTenant string string | OpStart

fun run_op :: "prov_config \<Rightarrow> prov_env \<Rightarrow> prov_op \<Rightarrow> prov_state \<Rightarrow> prov_state" where
  "run_op cfg env (OpCreateTenant req) s = snd (CreateTenant cfg env req s)"
| "run_op cfg env (OpUpdateTenant slug req) s = snd (UpdateTenant env slug req s)"
| "run_op cfg env (OpSuspendTenant slug) s = snd (SuspendTenant env slug s)"
| "run_op cfg env (OpReactivateTenant slug) s = snd (ReactivateTenant cfg env slug s)"
| "run_op cfg env (OpDeprovisionTenant slug force) s = snd (DeprovisionTenant cfg env slug force s)"
| "run_op cfg env OpProcessDeletions s = processDeletions cfg env s"
| "run_op cfg env (OpCreateKey slug req) s = snd (CreateKey env slug req s)"
| "run_op cfg env (OpRevokeKey slug kid) s = snd (RevokeKey env slug kid s)"
| "run_op cfg env (OpCreateAPIKey slug name) s = snd (CreateAPIKey env slug name s)"
| "run_op cfg env (OpRevokeAPIKey slug kid) s = snd (RevokeAPIKey env slug kid s)"
| "run_op cfg env (OpUpdateQuota slug req) s = snd (UpdateQuota env slug req s)"
| "run_op cfg env (OpSetChannelRules slug rules) s = snd (SetChannelRules cfg env slug rules s)"
| "run_op cfg env (OpDeleteChannelRules slug) s = snd (DeleteChannelRules cfg env slug s)"
| "run_op cfg env (OpReplaceRoutingRules slug rules) s = snd (ReplaceRoutingRules cfg env slug rules s)"
| "run_op cfg env (OpAddRoutingRule slug rule) s = snd (AddRoutingRule cfg env slug rule s)"
| "run_op cfg env (OpDeleteRoutingRules slug) s = snd (DeleteRoutingRules cfg env slug s)"
| "run_op cfg env (OpCreateTopic slug suffix) s = snd (CreateTopic cfg env slug suffix s)"
| "run_op cfg env (OpDeleteTopic slug suffix) s = snd (DeleteTopic cfg env slug suffix s)"
| "run_op cfg env (OpRenameTenant slug newSlug) s = snd (RenameTenant cfg env slug newSlug s)"
| "run_op cfg env OpStart s = Start env s"

text \<open>The slug an operation addresses; the sweep and the startup scan address none.\<close>

fun op_slug :: "prov_op \<Rightarrow> string option" where
  "op_slug (OpCreateTenant req) = None"
| "op_slug (OpUpdateTenant slug req) = Some slug"
| "op_slug (OpSuspendTenant slug) = Some slug"
| "op_slug (OpReactivateTenant slug) = Some slug"
| "op_slug (OpDeprovisionTenant slug force) = Some slug"
| "op_slug OpProcessDeletions = None"
| "op_slug (OpCreateKey slug req) = Some slug"
| "op_slug (OpRevokeKey slug kid) = Some slug"
| "op_slug (OpCreateAPIKey slug name) = Some slug"
| "op_slug (OpRevokeAPIKey slug kid) = Some slug"
| "op_slug (OpUpdateQuota slug req) = Some slug"
| "op_slug (OpSetChannelRules slug rules) = Some slug"
| "op_slug (OpDeleteChannelRules slug) = Some slug"
| "op_slug (OpReplaceRoutingRules slug rules) = Some slug"
| "op_slug (OpAddRoutingRule slug rule) = Some slug"
| "op_slug (OpDeleteRoutingRules slug) = Some slug"
| "op_slug (OpCreateTopic slug suffix) = Some slug"
| "op_slug (OpDeleteTopic slug suffix) = Some slug"
| "op_slug (OpRenameTenant slug newSlug) = Some slug"
| "op_slug OpStart = None"

inductive prov_reachable :: "prov_config \<Rightarrow> prov_state \<Rightarrow> bool" for cfg where
  prov_init: "prov_reachable cfg init_prov"
| prov_op: "prov_reachable cfg s \<Longrightarrow> prov_reachable cfg (run_op cfg env op s)"

lemma run_op_scoped: "op_slug op = Some slug \<Longrightarrow> api_keys_unique (ps_db s) \<Longrightarrow> scoped cfg slug s (run_op cfg env op s)"
  by (cases op) (auto intro: UpdateTenant_scoped SuspendTenant_scoped ReactivateTenant_scoped DeprovisionTenant_scoped
      CreateKey_scoped RevokeKey_scoped CreateAPIKey_scoped RevokeAPIKey_scoped UpdateQuota_scoped SetChannelRules_scoped
      DeleteChannelRules_scoped ReplaceRoutingRules_scoped AddRoutingRule_scoped DeleteRoutingRules_scoped CreateTopic_scoped
      DeleteTopic_scoped RenameTenant_scoped)

lemma Start_db: "ps_db (Start env s) = ps_db s"
proof -
  have "ps_db (fold (\<lambda>t s. if f t then emitEvent e s else s) ts s) = ps_db s" for ts f e
    by (induction ts arbitrary: s) auto
  then show ?thesis by (auto simp: Start_def Let_def split: sum.splits)
qed

subsection \<open>Invariants of the database\<close>

text \<open>
  A predicate that every guarded write keeps is kept by every operation. When the empty database has it too,
  it is an invariant: it holds in every reachable state of the service.
\<close>

locale write_stable =
  fixes cfg :: prov_config and I :: "database \<Rightarrow> bool"
  assumes step_keeps: "I d \<Longrightarrow> db_step cfg tid d d' \<Longrightarrow> I d'"
    and keys_unique: "I d \<Longrightarrow> api_keys_unique d"
begin

lemma run_keeps: "db_run cfg tid d d' \<Longrightarrow> I d \<Longrightarrow> I d'"
  unfolding db_run_def by (induction rule: rtranclp_induct) (auto intro: step_keeps)

lemma deletions_keep: "I (ps_db s) \<Longrightarrow> I (ps_db (processDeletions cfg env s))"
proof -
  have "I (ps_db s) \<Longrightarrow> I (ps_db (fold (\<lambda>t s. snd (deleteTenant cfg env t s)) ts s))" for ts
    by (induction ts arbitrary: s) (auto intro: run_keeps [OF deleteTenant_run])
  then show "I (ps_db s) \<Longrightarrow> I (ps_db (processDeletions cfg env s))"
    by (auto simp: processDeletions_def split: sum.splits)
qed

lemma op_keeps:
  assumes "I (ps_db s)"
  shows "I (ps_db (run_op cfg env op s))"
proof (cases "op_slug op")
  case (Some slug)
  then show ?thesis using run_op_scoped [OF Some keys_unique [OF assms], of cfg env] assms
    by (auto simp: scoped_def intro: run_keeps)
next
  case None
  then show ?thesis
    by (cases op) (use assms in \<open>auto simp: Start_db intro: deletions_keep run_keeps [OF CreateTenant_run]\<close>)
qed

lemma ops_keep: "I (ps_db s) \<Longrightarrow> I (ps_db (fold (\<lambda>(env, op). run_op cfg env op) ops s))"
  by (induction ops arbitrary: s) (auto simp: op_keeps)

end

locale database_invariant = write_stable +
  assumes holds_empty: "I empty_database"
begin

lemma reachable_holds: "prov_reachable cfg s \<Longrightarrow> I (ps_db s)"
  by (induction rule: prov_reachable.induct) (auto simp: init_prov_def holds_empty op_keeps)

end

end
