(* ===== verification/ProvisioningSafety.thy ===== *)
theory ProvisioningSafety
  imports ProvisioningRun
begin

text \<open>
  The invariants of the control plane's database and what follows from them: every reachable database
  satisfies the schema and its foreign keys, an egress topic is never consumed, an operation on one tenant
  leaves every other tenant's rows alone, deletion is final, and the gauge counts the active tenants.
\<close>

section \<open>The well-formed database\<close>

definition tenants_ok :: "database \<Rightarrow> bool" where
  "tenants_ok d \<longleftrightarrow> distinct (map tn_ID (db_tenants d)) \<and> distinct (map tn_Slug (db_tenants d)) \<and>
     list_all tenant_check (db_tenants d) \<and>
     list_all (\<lambda>t. tn_DeletedAt t = None \<longleftrightarrow> tn_Status t \<noteq> StatusDeleted) (db_tenants d)"

definition owned :: "('r \<Rightarrow> string) \<Rightarrow> database \<Rightarrow> 'r list \<Rightarrow> bool" where
  "owned tid d rows \<longleftrightarrow> list_all (\<lambda>r. tenant_exists d (tid r)) rows"

definition keys_ok :: "database \<Rightarrow> bool" where
  "keys_ok d \<longleftrightarrow> distinct (map tk_KeyID (db_keys d)) \<and> list_all key_check (db_keys d) \<and> owned tk_TenantID d (db_keys d) \<and>
     list_all (\<lambda>k. tk_IsActive k \<longleftrightarrow> tk_RevokedAt k = None) (db_keys d)"

definition api_keys_ok :: "database \<Rightarrow> bool" where
  "api_keys_ok d \<longleftrightarrow> api_keys_unique d \<and> owned ak_TenantID d (db_apiKeys d) \<and>
     list_all (\<lambda>k. ak_IsActive k \<longleftrightarrow> ak_RevokedAt k = None) (db_apiKeys d)"

definition rules_of_ok :: "database \<Rightarrow> string \<Rightarrow> bool" where
  "rules_of_ok d tid \<longleftrightarrow> separated (tenant_rules d tid) \<and> rules_keyed (tenant_rules d tid) \<and> list_all rule_wf (tenant_rules d tid) \<and>
     (\<forall>r \<in> set (tenant_rules d tid). \<forall>x \<in> set (AllTopicSuffixes r). provisioned d tid x)"

definition routing_ok :: "prov_config \<Rightarrow> database \<Rightarrow> bool" where
  "routing_ok cfg d \<longleftrightarrow> (\<forall>tid. rules_of_ok d tid) \<and> owned fst d (db_rules d) \<and>
     (\<not> routingRulesConfigured cfg \<longrightarrow> db_rules d = [])"

definition topics_ok :: "database \<Rightarrow> bool" where
  "topics_ok d \<longleftrightarrow> owned tr_TenantID d (db_topics d) \<and> distinct (map (\<lambda>r. (tr_TenantID r, tr_Suffix r)) (db_topics d)) \<and>
     list_all (\<lambda>r. tr_Suffix r \<notin> {[], DefaultTopicSuffix, DeadLetterTopicSuffix}) (db_topics d)"

definition quotas_ok :: "database \<Rightarrow> bool" where
  "quotas_ok d \<longleftrightarrow> owned tq_TenantID d (db_quotas d) \<and> list_all quota_check (db_quotas d) \<and> distinct (map tq_TenantID (db_quotas d))"

definition channel_rules_ok :: "database \<Rightarrow> bool" where
  "channel_rules_ok d \<longleftrightarrow> owned fst d (db_channelRules d) \<and> list_all (\<lambda>r. ValidateRules (snd r) = None) (db_channelRules d) \<and>
     distinct (map fst (db_channelRules d))"

definition db_ok :: "prov_config \<Rightarrow> database \<Rightarrow> bool" where
  "db_ok cfg d \<longleftrightarrow> tenants_ok d \<and> keys_ok d \<and> api_keys_ok d \<and> routing_ok cfg d \<and> topics_ok d \<and> quotas_ok d \<and> channel_rules_ok d"

section \<open>Effects of the writes\<close>

lemmas store_defs = Tenant_Create_def Tenant_Update_def UpdateStatus_def SetDeprovisionAt_def SetRenameState_def
  ClearRenameState_def UpdateSlug_def Key_Create_def Key_Revoke_def RevokeAllForTenant_def APIKey_Create_def APIKey_Revoke_def
  Rules_DeleteAll_def delete_rules_def Topic_Create_def Topic_Delete_def Quota_Create_def Quota_Update_def
  ChannelRules_Update_def ChannelRules_Delete_def Audit_Log_def

lemma update_where_image [simp]: "(\<And>r. g (f r) = g r) \<Longrightarrow> g ` set (update_where P f rows) = g ` set rows"
  using update_where_map [of g f P rows] by (metis list.set_map)

lemma rule_insert_effect:
  "rule_insert d tid r = Inr d' \<Longrightarrow> d' = d\<lparr>db_rules := db_rules d @ [(tid, r)]\<rparr> \<and> tenant_exists d tid \<and>
     Priority r \<notin> Priority ` set (tenant_rules d tid) \<and> RulePattern r \<notin> RulePattern ` set (tenant_rules d tid)"
  by (auto simp: rule_insert_def list_ex_iff split: if_splits)

lemma tenant_rules_snoc: "tenant_rules (d\<lparr>db_rules := db_rules d @ [(tid, r)]\<rparr>) tid' =
   (if tid' = tid then tenant_rules d tid @ [r] else tenant_rules d tid')"
  by (simp add: tenant_rules_def)

lemma insert_rules_effect:
  "insert_rules d tid rs = Inr d' \<Longrightarrow> rules_keyed (tenant_rules d tid) \<Longrightarrow>
     d' = d\<lparr>db_rules := db_rules d @ map (Pair tid) rs\<rparr> \<and> rules_keyed (tenant_rules d tid @ rs) \<and> (rs \<noteq> [] \<longrightarrow> tenant_exists d tid)"
proof (induction d tid rs rule: insert_rules.induct)
  case (2 d tid r rs)
  then obtain d1 where d1: "rule_insert d tid r = Inr d1" "insert_rules d1 tid rs = Inr d'" by (auto split: sum.splits)
  note e = rule_insert_effect [OF d1(1)]
  have "rules_keyed (tenant_rules d1 tid)" using e "2.prems"(2) by (auto simp: tenant_rules_snoc rules_keyed_def)
  from "2.IH" [OF d1 this] e show ?case by (auto simp: tenant_rules_snoc)
qed simp

lemma Rules_Add_effect:
  "Rules_Add env d tid r = Inr d' \<Longrightarrow> rule_insert d tid r = Inr d' \<and> ValidateEgressDisjoint (getAll d tid @ [r]) = None"
  by (auto simp: Rules_Add_def split: if_splits option.splits)

lemma tenant_rules_delete: "tenant_rules (delete_rules d tid) tid' = (if tid' = tid then [] else tenant_rules d tid')"
  by (auto simp: tenant_rules_def delete_rules_def intro!: arg_cong [of _ _ "map snd"] filter_cong)

lemma Rules_Replace_effect:
  assumes "Rules_Replace env d tid rs = Inr d'"
  shows "d' = d\<lparr>db_rules := db_rules (delete_rules d tid) @ map (Pair tid) rs\<rparr> \<and> rules_keyed rs \<and> (rs \<noteq> [] \<longrightarrow> tenant_exists d tid)"
proof -
  have "insert_rules (delete_rules d tid) tid rs = Inr d'" using assms by (simp add: Rules_Replace_def split: if_splits)
  from insert_rules_effect [OF this] show ?thesis
    by (simp add: tenant_rules_delete) (simp add: delete_rules_def tenant_exists_def)
qed

lemma status_set_fields [simp]:
  "tn_ID (status_set now st r) = tn_ID r" "tn_Slug (status_set now st r) = tn_Slug r" "tn_Name (status_set now st r) = tn_Name r"
  "tn_ConsumerType (status_set now st r) = tn_ConsumerType r" "tn_Status (status_set now st r) = st"
  by (cases st; simp)+

lemma status_set_deleted: "tn_DeletedAt (status_set now st r) = (if st = StatusDeleted then Some now else tn_DeletedAt r)"
  by (cases st) simp_all

lemma tenant_exists_iff: "tenant_exists d tid \<longleftrightarrow> tid \<in> set (map tn_ID (db_tenants d))"
  by (auto simp: tenant_exists_def list_ex_iff)

text \<open>No write removes a tenant, so foreign keys stay valid.\<close>

lemma step_tenant_ids: "db_step cfg tid d d' \<Longrightarrow> set (map tn_ID (db_tenants d)) \<subseteq> set (map tn_ID (db_tenants d'))"
proof (induction rule: db_step.induct)
  case (rules_add env d tid r d')
  then show ?case using Rules_Add_effect rule_insert_effect by fastforce
next
  case (rules_replace env d tid rs d')
  then show ?case using Rules_Replace_effect by fastforce
qed (auto simp: store_defs Let_def split: if_splits)

lemma owned_mono: "db_step cfg tid d d' \<Longrightarrow> owned f d rows \<Longrightarrow> owned f d' rows"
  using step_tenant_ids by (fastforce simp: owned_def list_all_iff tenant_exists_iff)

section \<open>Every write keeps the database well formed\<close>

lemma list_all_update_where:
  "list_all Q rows \<Longrightarrow> (\<And>r. Q r \<Longrightarrow> P r \<Longrightarrow> Q (f r)) \<Longrightarrow> list_all Q (update_where P f rows)"
  by (auto simp: update_where_def list_all_iff)

lemma distinct_update_slug:
  assumes "distinct (map tn_ID rows)" "distinct (map tn_Slug rows)"
    and "\<forall>r \<in> set rows. tn_Slug r = slug \<longrightarrow> tn_ID r = u" "\<And>r. tn_Slug (f r) = slug"
  shows "distinct (map tn_Slug (update_where (\<lambda>r. tn_ID r = u) f rows))"
  using assms by (induction rows) (auto simp: update_where_def image_iff)

lemma rules_frame:
  "Rules_Add env d tid r = Inr d' \<Longrightarrow> \<exists>rs. d' = d\<lparr>db_rules := rs\<rparr>"
  "Rules_Replace env d tid rs = Inr d' \<Longrightarrow> \<exists>rs. d' = d\<lparr>db_rules := rs\<rparr>"
  using Rules_Add_effect rule_insert_effect Rules_Replace_effect by blast+

lemma ValidateTenant_None: "ValidateTenant t = None \<Longrightarrow> tn_Name t \<noteq> [] \<and> ConsumerType_IsValid (tn_ConsumerType t)"
  by (auto simp: ValidateTenant_def split: option.splits if_splits)

lemma tenants_ok_step: "db_step cfg tid d d' \<Longrightarrow> tenants_ok d \<Longrightarrow> tenants_ok d'"
proof (induction rule: db_step.induct)
  case (tenant_create env d t d' t')
  then show ?case by (auto simp: tenants_ok_def Tenant_Create_def Let_def list_ex_iff split: if_splits) blast+
next
  case (tenant_update env d t d')
  then show ?case using ValidateTenant_None [OF tenant_update(2)]
    by (auto simp: tenants_ok_def Tenant_Update_def Let_def update_where_map tenant_check_def split: if_splits intro!: list_all_update_where)
next
  case (tenant_status env d tid st d')
  then show ?case
    by (auto simp: tenants_ok_def UpdateStatus_def Let_def update_where_map tenant_check_def status_set_deleted
        split: if_splits intro!: list_all_update_where) (cases st; simp)
next
  case (rename_commit env d tid slug d')
  then show ?case
    by (auto simp: tenants_ok_def UpdateSlug_def Let_def update_where_map tenant_check_def list_ex_iff
        split: if_splits intro!: list_all_update_where distinct_update_slug)
next
  case (rules_add env d tid r d')
  then show ?case using rules_frame(1) [OF rules_add(1)] by (auto simp: tenants_ok_def)
next
  case (rules_replace env d tid rs d')
  then show ?case using rules_frame(2) [OF rules_replace(1)] by (auto simp: tenants_ok_def)
qed (auto simp: tenants_ok_def store_defs Let_def update_where_map tenant_check_def split: if_splits intro!: list_all_update_where)

lemma owned_snoc: "owned f d (rows @ [r]) \<longleftrightarrow> owned f d rows \<and> tenant_exists d (f r)"
  by (simp add: owned_def)

lemma owned_update: "(\<And>r. tid (f r) = tid r) \<Longrightarrow> owned tid d rows \<Longrightarrow> owned tid d (update_where P f rows)"
  by (auto simp: owned_def intro!: list_all_update_where)

lemma owned_filter: "owned f d rows \<Longrightarrow> owned f d (filter P rows)"
  by (auto simp: owned_def list_all_iff)

lemma owned_cong: "db_tenants d' = db_tenants d \<Longrightarrow> owned f d' rows = owned f d rows"
  by (simp add: owned_def tenant_exists_def)

lemmas owned_rules = owned_snoc owned_update owned_filter

lemma owned_keys_step: "db_step cfg tid d d' \<Longrightarrow> owned tk_TenantID d (db_keys d) \<Longrightarrow> owned tk_TenantID d' (db_keys d')"
proof -
  assume st: "db_step cfg tid d d'" and ow: "owned tk_TenantID d (db_keys d)"
  from st have "owned tk_TenantID d (db_keys d) \<Longrightarrow> owned tk_TenantID d (db_keys d')"
  proof (induction rule: db_step.induct)
    case (rules_add env d tid r d')
    then show ?case using rules_frame(1) [OF rules_add(1)] by auto
  next
    case (rules_replace env d tid rs d')
    then show ?case using rules_frame(2) [OF rules_replace(1)] by auto
  qed (auto simp: store_defs Let_def owned_snoc split: if_splits intro!: owned_update)
  then show ?thesis using ow owned_mono [OF st] by blast
qed

lemma keys_ok_step: "db_step cfg tid d d' \<Longrightarrow> keys_ok d \<Longrightarrow> keys_ok d'"
proof -
  assume st: "db_step cfg tid d d'" and ok: "keys_ok d"
  let ?K = "\<lambda>d. distinct (map tk_KeyID (db_keys d)) \<and> list_all key_check (db_keys d) \<and>
     list_all (\<lambda>k. tk_IsActive k \<longleftrightarrow> tk_RevokedAt k = None) (db_keys d)"
  from st have "?K d \<Longrightarrow> ?K d'"
  proof (induction rule: db_step.induct)
    case (key_create env d k d')
    then show ?case by (auto simp: Key_Create_def list_ex_iff key_check_def split: if_splits) blast+
  next
    case (key_revoke env d kid d' env' k)
    then show ?case by (auto simp: Key_Revoke_def Let_def update_where_map key_check_def split: if_splits intro!: list_all_update_where)
  next
    case (key_revoke_all env d tid d')
    then show ?case by (auto simp: RevokeAllForTenant_def update_where_map key_check_def split: if_splits intro!: list_all_update_where)
  next
    case (rules_add env d tid r d')
    then show ?case using rules_frame(1) [OF rules_add(1)] by auto
  next
    case (rules_replace env d tid rs d')
    then show ?case using rules_frame(2) [OF rules_replace(1)] by auto
  qed (auto simp: store_defs Let_def split: if_splits)
  then show ?thesis using ok owned_keys_step [OF st] by (simp add: keys_ok_def)
qed

lemma api_keys_ok_step: "db_step cfg tid d d' \<Longrightarrow> api_keys_ok d \<Longrightarrow> api_keys_ok d'"
proof -
  assume st: "db_step cfg tid d d'" and ok: "api_keys_ok d"
  let ?K = "\<lambda>e d. distinct (map ak_KeyID (db_apiKeys d)) \<and> owned ak_TenantID e (db_apiKeys d) \<and>
     list_all (\<lambda>k. ak_IsActive k \<longleftrightarrow> ak_RevokedAt k = None) (db_apiKeys d)"
  from st have "?K d d \<Longrightarrow> ?K d d'"
  proof (induction rule: db_step.induct)
    case (api_key_create env d k d')
    then show ?case by (auto simp: APIKey_Create_def list_ex_iff owned_snoc split: if_splits) blast+
  next
    case (api_key_revoke env d kid d' tid)
    then show ?case
      by (auto simp: APIKey_Revoke_def Let_def update_where_map owned_update split: if_splits intro!: list_all_update_where)
  next
    case (rules_add env d tid r d')
    then show ?case using rules_frame(1) [OF rules_add(1)] by auto
  next
    case (rules_replace env d tid rs d')
    then show ?case using rules_frame(2) [OF rules_replace(1)] by auto
  qed (auto simp: store_defs Let_def split: if_splits)
  then show ?thesis using ok owned_mono [OF st] by (auto simp: api_keys_ok_def api_keys_unique_def)
qed

subsection \<open>Routing rules\<close>

lemma scanRows_wf: "list_all rule_wf rs \<Longrightarrow> scanRows rs = rs"
  by (induction rs) (auto simp: rule_wf_def Let_def)

lemma getAll_wf: "list_all rule_wf (tenant_rules d tid) \<Longrightarrow> getAll d tid = sort_key Priority (tenant_rules d tid)"
  unfolding getAll_def by (rule scanRows_wf) (simp add: list_all_iff)

lemma getAll_set: "list_all rule_wf (tenant_rules d tid) \<Longrightarrow> set (getAll d tid) = set (tenant_rules d tid)"
  by (simp add: getAll_wf)

lemma separated_snoc:
  assumes "separated rs" "rule_topics_ok r" "ValidateEgressDisjoint (rs' @ [r]) = None" "set rs' = set rs"
  shows "separated (rs @ [r])"
  using assms by (auto simp: separated_def ValidateEgressDisjoint_None)

lemma provisioned_mono:
  "(\<And>x. topic_provisioned d tid x \<Longrightarrow> topic_provisioned d' tid x) \<Longrightarrow> provisioned d tid x \<Longrightarrow> provisioned d' tid x"
  by (auto simp: provisioned_def)

lemma topic_provisioned_rules [simp]: "topic_provisioned (d\<lparr>db_rules := rs\<rparr>) = topic_provisioned d"
  by (intro ext) (simp add: topic_provisioned_def)

lemma rules_of_ok_cong:
  "db_rules d' = db_rules d \<Longrightarrow> db_topics d' = db_topics d \<Longrightarrow> rules_of_ok d' tid = rules_of_ok d tid"
  by (simp add: rules_of_ok_def tenant_rules_def provisioned_def topic_provisioned_def)

lemma rules_of_ok_frame [simp]:
  "rules_of_ok (d\<lparr>db_tenants := a\<rparr>) u = rules_of_ok d u" "rules_of_ok (d\<lparr>db_keys := b\<rparr>) u = rules_of_ok d u"
  "rules_of_ok (d\<lparr>db_apiKeys := c\<rparr>) u = rules_of_ok d u" "rules_of_ok (d\<lparr>db_quotas := q\<rparr>) u = rules_of_ok d u"
  "rules_of_ok (d\<lparr>db_channelRules := e\<rparr>) u = rules_of_ok d u" "rules_of_ok (d\<lparr>db_audit := f\<rparr>) u = rules_of_ok d u"
  by (rule rules_of_ok_cong; simp)+

lemma rules_of_ok_add:
  assumes "Rules_Add env d tid r = Inr d'" "rule_wf r" "\<forall>x \<in> set (AllTopicSuffixes r). provisioned d tid x" "\<And>u. rules_of_ok d u"
  shows "rules_of_ok d' u"
proof -
  note e = Rules_Add_effect [OF assms(1)]
  note i = rule_insert_effect [OF e [THEN conjunct1]]
  have wf: "list_all rule_wf (tenant_rules d tid)" and sep: "separated (tenant_rules d tid)"
    using assms(4) [of tid] by (auto simp: rules_of_ok_def)
  have "separated (tenant_rules d tid @ [r])"
    by (rule separated_snoc [OF sep _ e [THEN conjunct2] getAll_set [OF wf]]) (use assms(2) in \<open>simp add: rule_wf_def\<close>)
  moreover have "topic_provisioned d' = topic_provisioned d" using i by simp
  ultimately show ?thesis
    using assms(2,3) assms(4) [of u] i by (auto simp: rules_of_ok_def tenant_rules_snoc rules_keyed_def provisioned_def)
qed

lemma rules_of_ok_replace:
  assumes "Rules_Replace env d tid rs = Inr d'" "separated rs" "list_all rule_wf rs"
    and "\<forall>r \<in> set rs. \<forall>x \<in> set (AllTopicSuffixes r). provisioned d tid x" "\<And>u. rules_of_ok d u"
  shows "rules_of_ok d' u"
proof -
  note e = Rules_Replace_effect [OF assms(1)]
  have tr: "tenant_rules d' u = (if u = tid then rs else tenant_rules d u)"
    using e by (auto simp: tenant_rules_def delete_rules_def comp_def intro!: arg_cong [of _ _ "map snd"] filter_cong)
  have "topic_provisioned d' = topic_provisioned d" using e by simp
  then show ?thesis using assms(2-4) assms(5) [of u] e [THEN conjunct2, THEN conjunct1] by (auto simp: rules_of_ok_def tr provisioned_def)
qed

lemma rules_of_ok_delete:
  assumes "Rules_DeleteAll env d tid = Inr d'" "\<And>u. rules_of_ok d u"
  shows "rules_of_ok d' u"
proof -
  have d': "d' = delete_rules d tid" using assms(1) by (auto simp: Rules_DeleteAll_def split: if_splits)
  have "topic_provisioned (delete_rules d tid) = topic_provisioned d" by (simp add: delete_rules_def)
  then show ?thesis using assms(2) [of u] by (auto simp: d' rules_of_ok_def tenant_rules_delete provisioned_def)
qed

lemma rules_of_ok_topic:
  assumes "Topic_Delete env d tid suffix = Inr d'" "\<And>u. rules_of_ok d u"
    and "\<forall>r \<in> set (getAll d tid). suffix \<notin> set (AllTopicSuffixes r)"
  shows "rules_of_ok d' u"
proof -
  have wf: "list_all rule_wf (tenant_rules d tid)" using assms(2) [of tid] by (simp add: rules_of_ok_def)
  have t: "topic_provisioned d' u x \<longleftrightarrow> topic_provisioned d u x \<and> \<not> (u = tid \<and> x = suffix)" for u x
    using assms(1) by (auto simp: Topic_Delete_def topic_provisioned_def list_ex_iff split: if_splits)
  have "tenant_rules d' = tenant_rules d" using assms(1) by (auto simp: Topic_Delete_def tenant_rules_def split: if_splits)
  then show ?thesis using assms(2) [of u] assms(3) by (auto simp: rules_of_ok_def provisioned_def t getAll_set [OF wf])
qed

lemma routing_ok_step: "db_step cfg tid d d' \<Longrightarrow> routing_ok cfg d \<Longrightarrow> routing_ok cfg d'"
proof -
  assume st: "db_step cfg tid d d'" and ok: "routing_ok cfg d"
  then have rok: "rules_of_ok d u" for u by (simp add: routing_ok_def)
  let ?R = "\<lambda>d d'. (\<forall>u. rules_of_ok d' u) \<and> owned fst d (db_rules d') \<and> (\<not> routingRulesConfigured cfg \<longrightarrow> db_rules d' = [])"
  from st ok have "?R d d'"
  proof (induction rule: db_step.induct)
    case (rules_add env d tid r d')
    then show ?case using rules_of_ok_add [OF rules_add(1,3,4)] rule_insert_effect [OF Rules_Add_effect [OF rules_add(1), THEN conjunct1]]
      by (auto simp: routing_ok_def owned_snoc)
  next
    case (rules_replace env d tid rs d')
    then show ?case using rules_of_ok_replace [OF rules_replace(1,3,4,5)] Rules_Replace_effect [OF rules_replace(1)]
      by (auto simp: routing_ok_def owned_def delete_rules_def list_all_iff)
  next
    case (rules_delete env d tid d')
    then show ?case using rules_of_ok_delete [OF rules_delete(1)]
      by (auto simp: routing_ok_def Rules_DeleteAll_def delete_rules_def owned_filter split: if_splits)
  next
    case (topic_create env d tid suffix d')
    then have "tenant_rules d' = tenant_rules d" "db_rules d' = db_rules d"
      and "\<And>u x. provisioned d u x \<Longrightarrow> provisioned d' u x"
      by (auto simp: Topic_Create_def tenant_rules_def provisioned_def topic_provisioned_def split: if_splits)
    then show ?case using topic_create(2) by (simp add: routing_ok_def rules_of_ok_def)
  next
    case (topic_delete env d tid suffix d')
    have none: "\<forall>r \<in> set (getAll d tid). suffix \<notin> set (AllTopicSuffixes r)"
      using topic_delete by (cases "routingRulesConfigured cfg") (auto simp: routing_ok_def getAll_def tenant_rules_def)
    have "db_rules d' = db_rules d" using topic_delete(1) by (auto simp: Topic_Delete_def split: if_splits)
    then show ?case using rules_of_ok_topic [OF topic_delete(1) _ none] topic_delete(3) by (auto simp: routing_ok_def)
  qed (auto simp: routing_ok_def store_defs Let_def split: if_splits)
  then show ?thesis using owned_mono [OF st] by (auto simp: routing_ok_def)
qed

subsection \<open>Topics, quotas and channel rules\<close>

lemma topics_ok_step: "db_step cfg tid d d' \<Longrightarrow> topics_ok d \<Longrightarrow> topics_ok d'"
proof -
  assume st: "db_step cfg tid d d'" and ok: "topics_ok d"
  let ?T = "\<lambda>d d'. owned tr_TenantID d (db_topics d') \<and> distinct (map (\<lambda>r. (tr_TenantID r, tr_Suffix r)) (db_topics d')) \<and>
     list_all (\<lambda>r. tr_Suffix r \<notin> {[], DefaultTopicSuffix, DeadLetterTopicSuffix}) (db_topics d')"
  from st have "?T d d \<Longrightarrow> ?T d d'"
  proof (induction rule: db_step.induct)
    case (topic_create env d tid suffix d')
    then show ?case by (auto simp: Topic_Create_def topic_provisioned_def list_ex_iff owned_snoc split: if_splits)
  next
    case (topic_delete env d tid suffix d')
    then show ?case by (auto simp: Topic_Delete_def owned_filter list_all_iff split: if_splits intro: distinct_map_filter)
  next
    case (rules_add env d tid r d')
    then show ?case using rules_frame(1) [OF rules_add(1)] by auto
  next
    case (rules_replace env d tid rs d')
    then show ?case using rules_frame(2) [OF rules_replace(1)] by auto
  qed (auto simp: store_defs Let_def split: if_splits)
  then show ?thesis using ok owned_mono [OF st] by (auto simp: topics_ok_def)
qed

lemma quotas_ok_step: "db_step cfg tid d d' \<Longrightarrow> quotas_ok d \<Longrightarrow> quotas_ok d'"
proof -
  assume st: "db_step cfg tid d d'" and ok: "quotas_ok d"
  let ?Q = "\<lambda>d d'. owned tq_TenantID d (db_quotas d') \<and> list_all quota_check (db_quotas d') \<and> distinct (map tq_TenantID (db_quotas d'))"
  from st have "?Q d d \<Longrightarrow> ?Q d d'"
  proof (induction rule: db_step.induct)
    case (quota_create env d q d')
    then show ?case by (auto simp: Quota_Create_def quota_check_def list_ex_iff owned_snoc split: if_splits) blast
  next
    case (quota_update env d q d')
    have "map tq_TenantID (update_where (\<lambda>r. tq_TenantID r = tq_TenantID q) (\<lambda>r. q\<lparr>tq_UpdatedAt := pv_now env\<rparr>) rows) = map tq_TenantID rows" for rows
      by (auto simp: update_where_def)
    then show ?case using quota_update
      by (auto simp: Quota_Update_def quota_check_def owned_def split: if_splits intro!: list_all_update_where)
  next
    case (rules_add env d tid r d')
    then show ?case using rules_frame(1) [OF rules_add(1)] by auto
  next
    case (rules_replace env d tid rs d')
    then show ?case using rules_frame(2) [OF rules_replace(1)] by auto
  qed (auto simp: store_defs Let_def split: if_splits)
  then show ?thesis using ok owned_mono [OF st] by (auto simp: quotas_ok_def)
qed

lemma channel_rules_ok_step: "db_step cfg tid d d' \<Longrightarrow> channel_rules_ok d \<Longrightarrow> channel_rules_ok d'"
proof -
  assume st: "db_step cfg tid d d'" and ok: "channel_rules_ok d"
  let ?C = "\<lambda>d d'. owned fst d (db_channelRules d') \<and> list_all (\<lambda>r. ValidateRules (snd r) = None) (db_channelRules d') \<and>
     distinct (map fst (db_channelRules d'))"
  from st have "?C d d \<Longrightarrow> ?C d d'"
  proof (induction rule: db_step.induct)
    case (channel_rules_set env d tid r d')
    then show ?case by (auto simp: ChannelRules_Update_def owned_def list_all_iff split: if_splits intro: distinct_map_filter)
  next
    case (channel_rules_delete env d tid d')
    then show ?case by (auto simp: ChannelRules_Delete_def owned_filter list_all_iff split: if_splits intro: distinct_map_filter)
  next
    case (rules_add env d tid r d')
    then show ?case using rules_frame(1) [OF rules_add(1)] by auto
  next
    case (rules_replace env d tid rs d')
    then show ?case using rules_frame(2) [OF rules_replace(1)] by auto
  qed (auto simp: store_defs Let_def split: if_splits)
  then show ?thesis using ok owned_mono [OF st] by (auto simp: channel_rules_ok_def)
qed

lemma db_ok_step: "db_ok cfg d \<Longrightarrow> db_step cfg tid d d' \<Longrightarrow> db_ok cfg d'"
  unfolding db_ok_def
  using tenants_ok_step keys_ok_step api_keys_ok_step routing_ok_step topics_ok_step quotas_ok_step channel_rules_ok_step
  by meson

lemma db_ok_empty: "db_ok cfg empty_database"
  by (simp add: db_ok_def tenants_ok_def keys_ok_def api_keys_ok_def api_keys_unique_def routing_ok_def rules_of_ok_def
      topics_ok_def quotas_ok_def channel_rules_ok_def owned_def empty_database_def tenant_rules_def)

interpretation schema: database_invariant cfg "db_ok cfg" for cfg
proof
  show "db_ok cfg empty_database" by (rule db_ok_empty)
  show "db_ok cfg d \<Longrightarrow> db_step cfg tid d d' \<Longrightarrow> db_ok cfg d'" for d tid d' by (rule db_ok_step)
  show "db_ok cfg d \<Longrightarrow> api_keys_unique d" for d by (simp add: db_ok_def api_keys_ok_def)
qed

section \<open>Tenant scope\<close>

record tenant_rows =
  row_tenant :: "tenant list"
  row_keys :: "tenant_key list"
  row_apiKeys :: "api_key list"
  row_rules :: "routing_rule list"
  row_topics :: "topic_row list"
  row_quotas :: "tenant_quota list"
  row_channelRules :: "channel_rules list"

text \<open>All rows that belong to one tenant.\<close>

definition rows_of :: "database \<Rightarrow> string \<Rightarrow> tenant_rows" where
  "rows_of d tid =
     \<lparr>row_tenant = filter (\<lambda>r. tn_ID r = tid) (db_tenants d), row_keys = filter (\<lambda>r. tk_TenantID r = tid) (db_keys d),
      row_apiKeys = filter (\<lambda>r. ak_TenantID r = tid) (db_apiKeys d), row_rules = tenant_rules d tid,
      row_topics = filter (\<lambda>r. tr_TenantID r = tid) (db_topics d), row_quotas = filter (\<lambda>r. tq_TenantID r = tid) (db_quotas d),
      row_channelRules = map snd (filter (\<lambda>r. fst r = tid) (db_channelRules d))\<rparr>"

lemma filter_update_where:
  "(\<And>r. r \<in> set rows \<Longrightarrow> P r \<Longrightarrow> \<not> Q r \<and> \<not> Q (f r)) \<Longrightarrow> filter Q (update_where P f rows) = filter Q rows"
  by (induction rows) (auto simp: update_where_def)

lemma filter_of_filter: "(\<And>r. Q r \<Longrightarrow> R r) \<Longrightarrow> filter Q (filter R rows) = filter Q rows"
  by (induction rows) auto

lemma tenant_rules_frame [simp]:
  "tenant_rules (d\<lparr>db_tenants := a\<rparr>) u = tenant_rules d u" "tenant_rules (d\<lparr>db_keys := b\<rparr>) u = tenant_rules d u"
  "tenant_rules (d\<lparr>db_apiKeys := c\<rparr>) u = tenant_rules d u" "tenant_rules (d\<lparr>db_quotas := q\<rparr>) u = tenant_rules d u"
  "tenant_rules (d\<lparr>db_channelRules := e\<rparr>) u = tenant_rules d u" "tenant_rules (d\<lparr>db_audit := f\<rparr>) u = tenant_rules d u"
  "tenant_rules (d\<lparr>db_topics := g\<rparr>) u = tenant_rules d u"
  by (simp_all add: tenant_rules_def)

lemma step_scope:
  assumes "db_step cfg tid d d'" "db_ok cfg d" "u \<noteq> tid"
  shows "rows_of d' u = rows_of d u"
  using assms
proof (induction rule: db_step.induct)
  case (key_revoke env d kid d' env' k)
  have k: "k \<in> set (db_keys d)" "tk_KeyID k = kid" using key_revoke(2) by (auto simp: Key_Get_def split: if_splits option.splits dest: find_in)
  have "tk_TenantID r = tk_TenantID k" if "r \<in> set (db_keys d)" "tk_KeyID r = kid" for r
    using key_revoke(3) k that by (auto simp: db_ok_def keys_ok_def dest: unique_key)
  then show ?case using key_revoke(1,4) by (auto simp: Key_Revoke_def Let_def rows_of_def split: if_splits intro!: filter_update_where)
next
  case (rules_add env d tid r d')
  then show ?case using rule_insert_effect [OF Rules_Add_effect [OF rules_add(1), THEN conjunct1]]
    by (auto simp: rows_of_def tenant_rules_snoc)
next
  case (rules_replace env d tid rs d')
  have "tenant_rules d' u = tenant_rules d u"
    using Rules_Replace_effect [OF rules_replace(1)] rules_replace(7)
    by (auto simp: tenant_rules_def delete_rules_def comp_def intro!: arg_cong [of _ _ "map snd"] filter_cong)
  then show ?case using rules_frame(2) [OF rules_replace(1)] by (auto simp: rows_of_def)
next
  case (rules_delete env d tid d')
  have "d' = delete_rules d tid" using rules_delete(1) by (auto simp: Rules_DeleteAll_def split: if_splits)
  then show ?case using rules_delete(3) tenant_rules_delete [of d tid u] by (simp add: rows_of_def) (simp add: delete_rules_def)
next
  case (quota_update env d q d')
  then show ?case by (auto simp: Quota_Update_def rows_of_def split: if_splits intro!: filter_update_where)
next
  case (api_key_revoke env d kid d' tid)
  then show ?case by (auto simp: APIKey_Revoke_def Let_def rows_of_def split: if_splits intro!: filter_update_where)
next
  case (tenant_create env d t d' t')
  then show ?case by (auto simp: Tenant_Create_def Let_def rows_of_def split: if_splits)
next
  case (topic_delete env d tid suffix d')
  then show ?case by (auto simp: Topic_Delete_def rows_of_def simp del: filter_filter split: if_splits intro!: filter_of_filter)
next
  case (channel_rules_set env d tid r d')
  then show ?case by (auto simp: ChannelRules_Update_def rows_of_def simp del: filter_filter split: if_splits intro!: arg_cong [of _ _ "map snd"] filter_of_filter)
next
  case (channel_rules_delete env d tid d')
  then show ?case by (auto simp: ChannelRules_Delete_def rows_of_def simp del: filter_filter split: if_splits intro!: arg_cong [of _ _ "map snd"] filter_of_filter)
qed (auto simp: store_defs Let_def rows_of_def split: if_splits intro!: filter_update_where)

lemma run_scope: "db_run cfg tid d d' \<Longrightarrow> db_ok cfg d \<Longrightarrow> u \<noteq> tid \<Longrightarrow> rows_of d' u = rows_of d u \<and> db_ok cfg d'"
  unfolding db_run_def by (induction rule: rtranclp_induct) (auto simp: step_scope intro: db_ok_step)

section \<open>Deletion is final\<close>

text \<open>A deleted row never changes again, and its tenant gains no active credential.\<close>

definition credentials :: "database \<Rightarrow> string \<Rightarrow> string set" where
  "credentials d tid = tk_KeyID ` {k \<in> set (db_keys d). tk_TenantID k = tid \<and> tk_IsActive k}
     \<union> ak_KeyID ` {k \<in> set (db_apiKeys d). ak_TenantID k = tid \<and> ak_IsActive k}"

lemma deleted_not_live:
  assumes "tenants_ok d" "t \<in> set (db_tenants d)" "tn_Status t = StatusDeleted"
  shows "\<not> live d (tn_ID t)" "\<not> active d (tn_ID t)"
  using assms by (auto simp: tenants_ok_def live_def active_def list_all_iff dest: unique_key)

lemma in_update_where: "t \<in> set rows \<Longrightarrow> \<not> P t \<Longrightarrow> t \<in> set (update_where P f rows)"
  by (auto simp: set_update_where)

lemma step_frozen:
  assumes "db_step cfg tid d d'" "tenants_ok d" "t \<in> set (db_tenants d)" "tn_Status t = StatusDeleted"
  shows "t \<in> set (db_tenants d') \<and> credentials d' (tn_ID t) \<subseteq> credentials d (tn_ID t)"
  using assms
proof (induction rule: db_step.induct)
  case (tenant_status env d tid st d')
  then show ?case by (cases st) (auto simp: UpdateStatus_def Let_def credentials_def split: if_splits intro!: in_update_where)
next
  case (rename_lock env d tid st prev d')
  then have "tn_ID t \<noteq> tid" using deleted_not_live(1) by blast
  with rename_lock show ?case by (auto simp: SetRenameState_def Let_def credentials_def split: if_splits intro!: in_update_where)
next
  case (rename_clear env d tid d')
  then have "tn_ID t \<noteq> tid" using deleted_not_live(1) by blast
  with rename_clear show ?case by (auto simp: ClearRenameState_def Let_def credentials_def split: if_splits intro!: in_update_where)
next
  case (rename_commit env d tid slug d')
  then have "tn_ID t \<noteq> tid" using deleted_not_live(1) by blast
  with rename_commit show ?case by (auto simp: UpdateSlug_def Let_def credentials_def split: if_splits intro!: in_update_where)
next
  case (key_create env d k d')
  then have "tn_ID t \<noteq> tk_TenantID k" using deleted_not_live(2) by metis
  with key_create show ?case by (auto simp: Key_Create_def credentials_def split: if_splits)
next
  case (api_key_create env d k d')
  then have "tn_ID t \<noteq> ak_TenantID k" using deleted_not_live(2) by metis
  with api_key_create show ?case by (auto simp: APIKey_Create_def credentials_def split: if_splits)
next
  case (rules_add env d tid r d')
  then show ?case using rules_frame(1) [OF rules_add(1)] by (auto simp: credentials_def)
next
  case (rules_replace env d tid rs d')
  then show ?case using rules_frame(2) [OF rules_replace(1)] by (auto simp: credentials_def)
next
  case (key_revoke env d kid d' env' k)
  then show ?case by (auto simp: Key_Revoke_def Let_def credentials_def set_update_where split: if_splits)
next
  case (key_revoke_all env d tid d')
  then show ?case by (auto simp: RevokeAllForTenant_def credentials_def set_update_where split: if_splits)
next
  case (api_key_revoke env d kid d' tid)
  then show ?case by (auto simp: APIKey_Revoke_def Let_def credentials_def set_update_where split: if_splits)
qed (auto simp: store_defs Let_def credentials_def split: if_splits intro!: in_update_where)

end
