(* ===== verification/ConfigFeed.thy ===== *)
theory ConfigFeed
  imports EventBus ProvisioningSafety
begin

text \<open>
  The streams that carry the control plane's database to the gateways and servers: the Watch handlers and the
  conversions of \<^verbatim>\<open>internal/provisioning/grpcserver/server.go\<close>, the signing-key registry of
  \<^verbatim>\<open>shared/provapi/key_registry.go\<close> and the topic registry of \<^verbatim>\<open>shared/provapi/topic_registry.go\<close>; the other two
  registries are in the configuration stream. A protobuf message is the value its getters return.
\<close>

section \<open>Reads of the service\<close>

definition GetChannelRules_service :: "prov_config \<Rightarrow> prov_env \<Rightarrow> string \<Rightarrow> database \<Rightarrow> prov_error + channel_rules" where
  "GetChannelRules_service cfg env slug d =
     (if \<not> channelRulesConfigured cfg then Inl ErrChannelRulesNotConfigured
      else case GetBySlug env d slug of
             Inl e \<Rightarrow> Inl e
           | Inr t \<Rightarrow> ChannelRules_Get env d (tn_ID t))"

definition GetRoutingRules :: "prov_config \<Rightarrow> prov_env \<Rightarrow> string \<Rightarrow> database \<Rightarrow> prov_error + routing_rule list" where
  "GetRoutingRules cfg env slug d =
     (if \<not> routingRulesConfigured cfg then Inl ErrRoutingRulesNotConfigured
      else case GetBySlug env d slug of
             Inl e \<Rightarrow> Inl e
           | Inr t \<Rightarrow> Rules_GetAll env d (tn_ID t))"

section \<open>Conversions\<close>

text \<open>Times are in milliseconds, Unix times in seconds. Go's conversion to \<open>int32\<close> keeps the low 32 bits.\<close>

definition to_int32 :: "int \<Rightarrow> int" where
  "to_int32 n = (n + 2 ^ 31) mod 2 ^ 32 - 2 ^ 31"

record key_msg =
  km_KeyId :: string
  km_TenantUuid :: string
  km_Algorithm :: string
  km_PublicKeyPem :: string
  km_IsActive :: bool
  km_ExpiresAtUnix :: int

definition convertKeys :: "tenant_key list \<Rightarrow> key_msg list" where
  "convertKeys keys =
     map (\<lambda>k. \<lparr>km_KeyId = tk_KeyID k, km_TenantUuid = tk_TenantID k, km_Algorithm = tk_Algorithm k,
       km_PublicKeyPem = tk_PublicKey k, km_IsActive = (tk_RevokedAt k = None),
       km_ExpiresAtUnix = (case tk_ExpiresAt k of None \<Rightarrow> 0 | Some at \<Rightarrow> at div 1000)\<rparr>) keys"

definition convertRoutingRules :: "routing_rule list \<Rightarrow> routing_rule list" where
  "convertRoutingRules rules = map (\<lambda>r. r\<lparr>Priority := to_int32 (Priority r)\<rparr>) rules"

definition convertAPIKeys :: "api_key list \<Rightarrow> api_key_info list" where
  "convertAPIKeys keys =
     map (\<lambda>k. \<lparr>KeyID = ak_KeyID k, KeyTenantID = ak_TenantID k, KeyName = ak_Name k, IsActive = ak_IsActive k\<rparr>) keys"

definition convertChannelRules :: "channel_rules \<Rightarrow> proto_channel_rules" where
  "convertChannelRules rules =
     \<lparr>PublicChannels = Public rules,
      ProtoGroupMappings = (if length (GroupMappings rules) > 0 then GroupMappings rules else []),
      DefaultChannels = DefaultPatterns rules,
      PublishPublicChannels = PublishPublic rules,
      ProtoPublishGroupMappings = (if length (PublishGroupMappings rules) > 0 then PublishGroupMappings rules else []),
      PublishDefaultChannels = PublishDefault rules\<rparr>"

section \<open>Loads\<close>

record feed_config =
  fc_prov :: prov_config
  maxTenantsFetchLimit :: int
  slugRenameHoldPeriod :: int

text \<open>The previous slug is announced during the hold window.\<close>

definition held_slug :: "feed_config \<Rightarrow> prov_env \<Rightarrow> tenant \<Rightarrow> string" where
  "held_slug fc env t =
     (if slugRenameHoldPeriod fc > 0 \<and> tn_RenameState t = Some SlugRenameStateComplete \<and>
         (case tn_RenamedAt t of None \<Rightarrow> False | Some at \<Rightarrow> pv_now env - at < slugRenameHoldPeriod fc)
      then (case tn_PreviousSlug t of None \<Rightarrow> [] | Some prev \<Rightarrow> prev) else [])"

definition tenant_config_of :: "feed_config \<Rightarrow> prov_env \<Rightarrow> database \<Rightarrow> tenant \<Rightarrow> tenant_config" where
  "tenant_config_of fc env d t =
     \<lparr>TenantSlug = tn_Slug t, TenantUuid = tn_ID t, PreviousSlug = held_slug fc env t,
      ProtoChannelRules = (case GetChannelRules_service (fc_prov fc) env (tn_Slug t) d of
                             Inl _ \<Rightarrow> None | Inr rules \<Rightarrow> Some (convertChannelRules rules)),
      RoutingRules = (case GetRoutingRules (fc_prov fc) env (tn_Slug t) d of
                        Inl _ \<Rightarrow> [] | Inr rules \<Rightarrow> convertRoutingRules rules)\<rparr>"

definition loadTenantConfigs :: "feed_config \<Rightarrow> prov_env \<Rightarrow> database \<Rightarrow> prov_error + tenant_config list" where
  "loadTenantConfigs fc env d =
     (case Tenant_List env d None (maxTenantsFetchLimit fc) 0 of
        Inl e \<Rightarrow> Inl e
      | Inr (tenants, _) \<Rightarrow> Inr (map (tenant_config_of fc env d) (filter (\<lambda>t. tn_Status t = StatusActive) tenants)))"

record topics_msg =
  tm_IsSnapshot :: bool
  tm_SharedTopics :: "string list"
  tm_SharedTopicTenants :: "(string \<times> string) list"
  tm_DedicatedTenants :: "(string \<times> string list) list"
  tm_CreateOnlyTopics :: "string list"

definition empty_topics :: topics_msg where
  "empty_topics = \<lparr>tm_IsSnapshot = False, tm_SharedTopics = [], tm_SharedTopicTenants = [], tm_DedicatedTenants = [], tm_CreateOnlyTopics = []\<rparr>"

text \<open>The body of the loop over the tenants: a tenant whose rules cannot be read contributes its default topic.\<close>

definition add_topics :: "feed_config \<Rightarrow> prov_env \<Rightarrow> string \<Rightarrow> database \<Rightarrow> tenant \<Rightarrow> topics_msg \<Rightarrow> topics_msg" where
  "add_topics fc env namespace d t m =
     (if tn_Status t \<noteq> StatusActive then m
      else
        let rules = (case GetRoutingRules (fc_prov fc) env (tn_Slug t) d of Inl _ \<Rightarrow> [] | Inr rules \<Rightarrow> rules);
            topics = map (BuildTopicName namespace (tn_Slug t)) (ConsumeTopicSuffixes rules);
            m = m\<lparr>tm_CreateOnlyTopics := tm_CreateOnlyTopics m @ map (BuildTopicName namespace (tn_Slug t)) (CreateOnlyTopicSuffixes rules)\<rparr>
        in if tn_ConsumerType t = ''dedicated''
           then m\<lparr>tm_DedicatedTenants := tm_DedicatedTenants m @ [(tn_Slug t, topics)]\<rparr>
           else m\<lparr>tm_SharedTopics := tm_SharedTopics m @ topics,
                  tm_SharedTopicTenants := tm_SharedTopicTenants m @ map (\<lambda>topic. (tn_Slug t, topic)) topics\<rparr>)"

definition loadTopicsUpdate :: "feed_config \<Rightarrow> prov_env \<Rightarrow> string \<Rightarrow> database \<Rightarrow> prov_error + topics_msg" where
  "loadTopicsUpdate fc env namespace d =
     (case Tenant_List env d None (maxTenantsFetchLimit fc) 0 of
        Inl e \<Rightarrow> Inl e
      | Inr (tenants, _) \<Rightarrow> Inr (fold (add_topics fc env namespace d) tenants empty_topics))"

section \<open>The Watch handlers\<close>

text \<open>
  The handlers share one shape: load and send a snapshot, subscribe to the bus, then for every event of the
  handler's type reload and send a delta; a failed reload is skipped. \<open>w_load\<close> builds the message.
\<close>

record 'm watch =
  w_event :: event_type
  w_load :: "prov_env \<Rightarrow> bool \<Rightarrow> database \<Rightarrow> prov_error + 'm"

record keys_response =
  kr_IsSnapshot :: bool
  kr_RemovedKeyIds :: "string list"
  kr_Keys :: "key_msg list"

definition WatchKeys :: "keys_response watch" where
  "WatchKeys = \<lparr>w_event = KeysChanged, w_load = (\<lambda>env snap d. case GetActiveKeys env d of
     Inl e \<Rightarrow> Inl e | Inr keys \<Rightarrow> Inr \<lparr>kr_IsSnapshot = snap, kr_RemovedKeyIds = [], kr_Keys = convertKeys keys\<rparr>)\<rparr>"

definition WatchAPIKeys :: "api_keys_response watch" where
  "WatchAPIKeys = \<lparr>w_event = APIKeysChanged, w_load = (\<lambda>env snap d. case GetActiveAPIKeys env d of
     Inl e \<Rightarrow> Inl e | Inr keys \<Rightarrow> Inr \<lparr>KeysIsSnapshot = snap, RemovedKeyIds = [], ApiKeys = convertAPIKeys keys\<rparr>)\<rparr>"

definition WatchTenantConfig :: "feed_config \<Rightarrow> tenant_config_response watch" where
  "WatchTenantConfig fc = \<lparr>w_event = TenantConfigChanged, w_load = (\<lambda>env snap d. case loadTenantConfigs fc env d of
     Inl e \<Rightarrow> Inl e | Inr tcs \<Rightarrow> Inr \<lparr>IsSnapshot = snap, RemovedTenantSlugs = [], Tenants = tcs\<rparr>)\<rparr>"

definition WatchTopics :: "feed_config \<Rightarrow> string \<Rightarrow> topics_msg watch" where
  "WatchTopics fc namespace = \<lparr>w_event = TopicsChanged, w_load = (\<lambda>env snap d. case loadTopicsUpdate fc env namespace d of
     Inl e \<Rightarrow> Inl e | Inr m \<Rightarrow> Inr (m\<lparr>tm_IsSnapshot := snap\<rparr>))\<rparr>"

definition watch_event :: "'m watch \<Rightarrow> prov_env \<Rightarrow> event_type \<Rightarrow> database \<Rightarrow> 'm option" where
  "watch_event w env e d =
     (if e \<noteq> w_event w then None
      else case w_load w env False d of Inl _ \<Rightarrow> None | Inr m \<Rightarrow> Some m)"

section \<open>The signing-key registry\<close>

record reg_key =
  rk_KeyID :: string
  rk_TenantID :: string
  rk_Algorithm :: string
  rk_PublicKeyPEM :: string
  rk_IsActive :: bool
  rk_RevokedAt :: "int option"
  rk_ExpiresAt :: "int option"

record key_registry =
  keysByID :: "string \<rightharpoonup> reg_key"
  keysByTenant :: "string \<Rightarrow> reg_key list"

definition empty_registry :: key_registry where
  "empty_registry = \<lparr>keysByID = Map.empty, keysByTenant = (\<lambda>_. [])\<rparr>"

datatype registry_error = ErrKeyNotFound | ErrKeyRevoked | ErrKeyExpired

definition GetKey_registry :: "int \<Rightarrow> key_registry \<Rightarrow> string \<Rightarrow> registry_error + reg_key" where
  "GetKey_registry now r keyID =
     (case keysByID r keyID of
        None \<Rightarrow> Inl ErrKeyNotFound
      | Some key \<Rightarrow>
          if \<not> rk_IsActive key then Inl ErrKeyNotFound
          else if rk_RevokedAt key \<noteq> None then Inl ErrKeyRevoked
          else if (case rk_ExpiresAt key of None \<Rightarrow> False | Some at \<Rightarrow> at < now) then Inl ErrKeyExpired
          else Inr key)"

definition GetKeysByTenantUUID :: "int \<Rightarrow> key_registry \<Rightarrow> string \<Rightarrow> reg_key list" where
  "GetKeysByTenantUUID now r tenantUUID =
     filter (\<lambda>k. rk_IsActive k \<and> rk_RevokedAt k = None \<and> (case rk_ExpiresAt k of None \<Rightarrow> True | Some at \<Rightarrow> at > now)) (keysByTenant r tenantUUID)"

text \<open>\<open>parse\<close> says whether the public key parses under its algorithm.\<close>

definition protoToKeyInfo :: "(string \<Rightarrow> string \<Rightarrow> bool) \<Rightarrow> key_msg \<Rightarrow> reg_key option" where
  "protoToKeyInfo parse ki =
     (if \<not> parse (km_PublicKeyPem ki) (km_Algorithm ki) then None
      else Some \<lparr>rk_KeyID = km_KeyId ki, rk_TenantID = km_TenantUuid ki, rk_Algorithm = km_Algorithm ki,
             rk_PublicKeyPEM = km_PublicKeyPem ki, rk_IsActive = km_IsActive ki, rk_RevokedAt = None,
             rk_ExpiresAt = (if km_ExpiresAtUnix ki > 0 then Some (km_ExpiresAtUnix ki * 1000) else None)\<rparr>)"

fun drop_key :: "string \<Rightarrow> reg_key list \<Rightarrow> reg_key list" where
  "drop_key kid [] = []"
| "drop_key kid (k # ks) = (if rk_KeyID k = kid then ks else k # drop_key kid ks)"

fun put_key :: "reg_key \<Rightarrow> reg_key list \<Rightarrow> reg_key list" where
  "put_key key [] = [key]"
| "put_key key (k # ks) = (if rk_KeyID k = rk_KeyID key then key # ks else k # put_key key ks)"

fun remove_keys :: "string list \<Rightarrow> key_registry \<Rightarrow> key_registry" where
  "remove_keys [] r = r"
| "remove_keys (kid # kids) r =
     (case keysByID r kid of
        None \<Rightarrow> remove_keys kids r
      | Some ex \<Rightarrow> remove_keys kids (r\<lparr>keysByID := (keysByID r)(kid := None),
            keysByTenant := (keysByTenant r)(rk_TenantID ex := drop_key kid (keysByTenant r (rk_TenantID ex)))\<rparr>))"

fun insert_keys :: "(string \<Rightarrow> string \<Rightarrow> bool) \<Rightarrow> bool \<Rightarrow> key_msg list \<Rightarrow> key_registry \<Rightarrow> key_registry" where
  "insert_keys parse snap [] r = r"
| "insert_keys parse snap (ki # kis) r =
     (case protoToKeyInfo parse ki of
        None \<Rightarrow> insert_keys parse snap kis r
      | Some key \<Rightarrow>
          insert_keys parse snap kis (r\<lparr>keysByID := (keysByID r)(rk_KeyID key \<mapsto> key),
            keysByTenant := (keysByTenant r)(rk_TenantID key :=
              (if snap then keysByTenant r (rk_TenantID key) @ [key] else put_key key (keysByTenant r (rk_TenantID key))))\<rparr>))"

definition updateKeys_registry :: "(string \<Rightarrow> string \<Rightarrow> bool) \<Rightarrow> key_registry \<Rightarrow> keys_response \<Rightarrow> key_registry" where
  "updateKeys_registry parse r resp =
     insert_keys parse (kr_IsSnapshot resp) (kr_Keys resp)
       (remove_keys (kr_RemovedKeyIds resp) (if kr_IsSnapshot resp then empty_registry else r))"

section \<open>The topic registry\<close>

record topic_registry =
  sharedTopics :: "string list"
  dedicatedTenants :: "(string \<times> string list) list"
  createOnlyTopics :: "string list"
  topicTenants :: "string \<rightharpoonup> string"
  topicsSnapshotReceived :: bool

definition empty_topic_registry :: topic_registry where
  "empty_topic_registry = \<lparr>sharedTopics = [], dedicatedTenants = [], createOnlyTopics = [], topicTenants = Map.empty,
     topicsSnapshotReceived = False\<rparr>"

text \<open>The maps of the two loops: shared topics first, then the topics of the dedicated tenants.\<close>

definition topic_owners :: "(string \<times> string) list \<Rightarrow> (string \<times> string list) list \<Rightarrow> string \<rightharpoonup> string" where
  "topic_owners shared dedicated =
     fold (\<lambda>dt m. fold (\<lambda>topic m. m(topic \<mapsto> fst dt)) (snd dt) m) dedicated
       (fold (\<lambda>st m. m(snd st \<mapsto> fst st)) shared Map.empty)"

definition applyTopicUpdate :: "topic_registry \<Rightarrow> topics_msg \<Rightarrow> topic_registry" where
  "applyTopicUpdate r m =
     \<lparr>sharedTopics = tm_SharedTopics m, dedicatedTenants = tm_DedicatedTenants m, createOnlyTopics = tm_CreateOnlyTopics m,
      topicTenants = topic_owners (tm_SharedTopicTenants m) (tm_DedicatedTenants m),
      topicsSnapshotReceived = (tm_IsSnapshot m \<or> topicsSnapshotReceived r)\<rparr>"

definition consumed_topics :: "topic_registry \<Rightarrow> string set" where
  "consumed_topics r = set (sharedTopics r) \<union> (\<Union>dt \<in> set (dedicatedTenants r). set (snd dt))"

end
