(* ===== verification/ProvisioningGuarantees.thy ===== *)
theory ProvisioningGuarantees
  imports ProvisioningSafety
begin

text \<open>
  What the control plane guarantees in every reachable state: a well-formed database, no egress topic that
  the platform consumes, operations confined to the tenant they address, final deletion, an exact gauge of
  active tenants, and a creation saga that takes back exactly what it made.
\<close>

section \<open>The gauge\<close>

definition statuses :: "database \<Rightarrow> tenant_status list" where
  "statuses d = map tn_Status (db_tenants d)"

definition num_active :: "database \<Rightarrow> int" where
  "num_active d = int (length (filter (\<lambda>st. st = StatusActive) (statuses d)))"

text \<open>The gauge is \<open>k\<close> too high.\<close>

definition gauge_off :: "int \<Rightarrow> prov_state \<Rightarrow> bool" where
  "gauge_off k s \<longleftrightarrow> ps_gauge s = num_active (ps_db s) + k"

text \<open>A part that changes neither the gauge nor the status of a tenant.\<close>

definition quiet :: "prov_state \<Rightarrow> prov_state \<Rightarrow> bool" where
  "quiet s s' \<longleftrightarrow> ps_gauge s' = ps_gauge s \<and> statuses (ps_db s') = statuses (ps_db s)"

lemma quiet_gauge: "quiet s s' \<Longrightarrow> gauge_off k s' \<longleftrightarrow> gauge_off k s"
  by (simp add: quiet_def gauge_off_def num_active_def)

lemma quiet_refl [simp]: "quiet s s"
  by (simp add: quiet_def)

lemma quiet_trans: "quiet s s' \<Longrightarrow> quiet s' s'' \<Longrightarrow> quiet s s''"
  by (simp add: quiet_def)

text \<open>The writes that keep every status.\<close>

definition keeps_status :: "database \<Rightarrow> prov_error + database \<Rightarrow> bool" where
  "keeps_status d r \<longleftrightarrow> (case r of Inl _ \<Rightarrow> True | Inr d' \<Rightarrow> statuses d' = statuses d)"

lemma statuses_update: "(\<And>r. tn_Status (f r) = tn_Status r) \<Longrightarrow>
    statuses (d\<lparr>db_tenants := update_where P f (db_tenants d)\<rparr>) = statuses d"
  by (simp add: statuses_def update_where_map)

lemma statuses_frame [simp]:
  "statuses (d\<lparr>db_keys := b\<rparr>) = statuses d" "statuses (d\<lparr>db_apiKeys := c\<rparr>) = statuses d"
  "statuses (d\<lparr>db_quotas := q\<rparr>) = statuses d" "statuses (d\<lparr>db_channelRules := e\<rparr>) = statuses d"
  "statuses (d\<lparr>db_audit := f\<rparr>) = statuses d" "statuses (d\<lparr>db_topics := g\<rparr>) = statuses d"
  "statuses (d\<lparr>db_rules := h\<rparr>) = statuses d"
  by (simp_all add: statuses_def)

lemma keeps_status_writes [simp]:
  "keeps_status d (Tenant_Update env d t)" "keeps_status d (SetDeprovisionAt env d tid at)"
  "keeps_status d (SetRenameState env d tid rs prev)" "keeps_status d (ClearRenameState env d tid)"
  "keeps_status d (UpdateSlug env d tid slug)" "keeps_status d (Key_Create env d k)" "keeps_status d (Key_Revoke env d kid)"
  "keeps_status d (RevokeAllForTenant env d tid)" "keeps_status d (APIKey_Create env d ak)" "keeps_status d (APIKey_Revoke env d kid)"
  "keeps_status d (Rules_DeleteAll env d tid)" "keeps_status d (Topic_Create env d tid suffix)"
  "keeps_status d (Topic_Delete env d tid suffix)" "keeps_status d (Quota_Create env d q)" "keeps_status d (Quota_Update env d q)"
  "keeps_status d (ChannelRules_Update env d tid cr)" "keeps_status d (ChannelRules_Delete env d tid)" "keeps_status d (Audit_Log env d e)"
  by (auto simp: keeps_status_def store_defs Let_def statuses_update)

lemma keeps_status_rules [simp]: "keeps_status d (Rules_Add env d tid r)" "keeps_status d (Rules_Replace env d tid rs)"
  using rules_frame by (fastforce simp: keeps_status_def split: sum.splits)+

lemma write_status: "r = Inr d' \<Longrightarrow> keeps_status d r \<Longrightarrow> statuses d' = statuses d"
  by (simp add: keeps_status_def)

lemma quiet_attempt: "keeps_status (ps_db s) r \<Longrightarrow> quiet s (attempt r s)"
  by (auto simp: attempt_def quiet_def keeps_status_def split: sum.splits)

lemma quiet_write: "r = Inr d' \<Longrightarrow> keeps_status (ps_db s) r \<Longrightarrow> quiet s (s\<lparr>ps_db := d'\<rparr>)"
  by (auto simp: quiet_def keeps_status_def)

lemma quiet_audit: "quiet s (auditLog env tid a s)"
  unfolding auditLog_def by (rule quiet_attempt) simp

lemma quiet_event [simp]: "quiet s (emitEvent e s') \<longleftrightarrow> quiet s s'"
  by (simp add: quiet_def emitEvent_def)

lemma quiet_audited: "quiet s s' \<Longrightarrow> quiet s (auditLog env tid a s')"
  using quiet_audit quiet_trans by blast

lemma quiet_admin [simp]: "quiet s (snd (admin env c s')) \<longleftrightarrow> quiet s s'"
  by (simp add: admin_def quiet_def)

lemma quiet_admin_all [simp]: "quiet s (admin_all env cs s') \<longleftrightarrow> quiet s s'"
  by (induction cs arbitrary: s') auto

lemma quiet_create_topics [simp]: "quiet s (create_topics env ns slug specs s') \<longleftrightarrow> quiet s s'"
  by (induction env ns slug specs s' rule: create_topics.induct) auto

lemma quiet_rename_topics: "rename_topics env ns slug specs s = (b, s') \<Longrightarrow> quiet s s'"
  by (induction env ns slug specs s rule: rename_topics.induct) (auto simp: admin_def quiet_def split: if_splits)

lemma quiet_revoke_signing: "quiet s (revoke_signing_keys env tid s)"
  by (auto simp: revoke_signing_keys_def intro: quiet_write [OF _ keeps_status_writes(8)] split: sum.splits)

lemma quiet_revoke_api_keys: "revoke_api_keys env ks s b = (s', b') \<Longrightarrow> quiet s s'"
proof (induction env ks s b arbitrary: s' b' rule: revoke_api_keys.induct)
  case (2 env k ks s b)
  have "quiet (s\<lparr>ps_db := d\<rparr>) s' \<Longrightarrow> quiet s s'" if "APIKey_Revoke env (ps_db s) (ak_KeyID k) = Inr d" for d
    using quiet_trans [OF quiet_write [OF that]] by simp
  with 2 show ?case by (auto split: if_splits sum.splits)
qed simp

lemma quiet_revoke_tenant: "quiet s (revoke_tenant_api_keys env tid s)"
  by (auto simp: revoke_tenant_api_keys_def split: sum.splits prod.splits intro: quiet_revoke_api_keys)

lemmas quiet_intros = quiet_audited quiet_write keeps_status_writes keeps_status_rules

subsection \<open>The operations that change no status\<close>

lemma quiet_ops:
  "quiet s (snd (UpdateTenant env slug req s))" "quiet s (snd (CreateKey env slug kreq s))" "quiet s (snd (RevokeKey env slug kid s))"
  "quiet s (snd (CreateAPIKey env slug name s))" "quiet s (snd (RevokeAPIKey env slug kid s))"
  "quiet s (snd (SetChannelRules cfg env slug rules s))" "quiet s (snd (DeleteChannelRules cfg env slug s))"
  by (auto simp: UpdateTenant_def CreateKey_def RevokeKey_def CreateAPIKey_def RevokeAPIKey_def SetChannelRules_def
      DeleteChannelRules_def Let_def split: sum.splits option.splits intro: quiet_intros)

lemma quiet_rule_ops:
  "quiet s (snd (ReplaceRoutingRules cfg env slug rules s))" "quiet s (snd (AddRoutingRule cfg env slug rule s))"
  "quiet s (snd (DeleteRoutingRules cfg env slug s))" "quiet s (snd (CreateTopic cfg env slug suffix s))"
  "quiet s (snd (DeleteTopic cfg env slug suffix s))"
  by (auto simp: ReplaceRoutingRules_def AddRoutingRule_def DeleteRoutingRules_def CreateTopic_def DeleteTopic_def
      split: sum.splits option.splits intro: quiet_intros)

lemma quiet_quota: "quiet s (snd (UpdateQuota env slug req s))"
  by (auto simp: UpdateQuota_def Let_def split: sum.splits intro!: quiet_audited quiet_write [OF _ keeps_status_writes(15)])

lemma quiet_rename_saga: "quiet s (snd (rename_saga cfg env t newSlug s))"
proof (cases "SetRenameState env (ps_db s) (tn_ID t) SlugRenameStatePending (tn_Slug t)")
  case (Inr d)
  obtain a s1 where a: "admin env (KCreateTopicACLs newSlug) (s\<lparr>ps_db := d\<rparr>) = (a, s1)" by fastforce
  obtain b s2 where top: "rename_topics env (TopicNamespace cfg) newSlug (infraTopicSpecs cfg) s1 = (b, s2)" by fastforce
  have 1: "quiet s s1" using quiet_write [OF Inr] quiet_admin [of s env "KCreateTopicACLs newSlug" "s\<lparr>ps_db := d\<rparr>"] a by simp
  have 2: "quiet s s2" by (rule quiet_trans [OF 1 quiet_rename_topics [OF top]])
  have 3: "quiet s (rename_compensate cfg env (tn_ID t) newSlug s2)"
    unfolding rename_compensate_def Let_def by (rule quiet_trans [OF _ quiet_attempt]) (simp_all add: 2)
  have 4: "quiet s (rename_quota env t newSlug s')" if "quiet s s'" for s'
    using that by (auto simp: rename_quota_def simp del: admin_all.simps split: sum.splits)
  have 5: "quiet s (s2\<lparr>ps_db := d2\<rparr>)" if "UpdateSlug env (ps_db s2) (tn_ID t) newSlug = Inr d2" for d2
    by (rule quiet_trans [OF 2 quiet_write [OF that]]) simp
  show ?thesis
    using Inr a top 1 2 3
    by (cases b; cases "UpdateSlug env (ps_db s2) (tn_ID t) newSlug")
      (auto simp: rename_saga_def Let_def intro!: 4 quiet_audited 5)
qed (simp add: rename_saga_def)

lemma quiet_rename: "quiet s (snd (RenameTenant cfg env slug newSlug s))"
proof -
  obtain r s1 where c: "rename_checks cfg env slug newSlug s = (r, s1)" by fastforce
  have "quiet s s1" using c
    by (auto simp: rename_checks_def split: option.splits if_splits sum.splits intro: quiet_attempt)
  with c show ?thesis using quiet_trans [OF _ quiet_rename_saga]
    by (auto simp: RenameTenant_def split: sum.splits)
qed

subsection \<open>The operations that do\<close>

lemma update_where_Cons: "update_where P f (r # rows) = (if P r then f r else r) # update_where P f rows"
  by (simp add: update_where_def)

lemma num_active_update:
  assumes "distinct (map tn_ID rows)" "t \<in> set rows"
  shows "length (filter (\<lambda>st. st = StatusActive) (map tn_Status
      (update_where (\<lambda>r. tn_ID r = tn_ID t \<and> tn_Status r \<in> status_source st) (status_set now st) rows))) +
      (if tn_Status t \<in> status_source st \<and> tn_Status t = StatusActive then 1 else 0) =
    length (filter (\<lambda>st. st = StatusActive) (map tn_Status rows)) +
      (if tn_Status t \<in> status_source st \<and> st = StatusActive then 1 else 0)"
  using assms
proof (induction rows)
  case (Cons r rows)
  show ?case
  proof (cases "r = t")
    case True
    have "tn_ID x \<noteq> tn_ID t" if "x \<in> set rows" for x
      using Cons.prems True that by (metis distinct.simps(2) image_eqI list.set_map list.simps(9))
    then have "update_where (\<lambda>r. tn_ID r = tn_ID t \<and> tn_Status r \<in> status_source st) (status_set now st) rows = rows"
      by (auto simp: update_where_def intro!: map_idI)
    then show ?thesis using True by (auto simp: update_where_Cons simp del: status_source.simps)
  next
    case False
    then have "tn_ID r \<noteq> tn_ID t" "t \<in> set rows" using Cons.prems by auto
    then show ?thesis using Cons by (auto simp: update_where_Cons simp del: status_source.simps)
  qed
qed simp

lemma UpdateStatus_rows: "UpdateStatus env d tid st = Inr d' \<Longrightarrow> d' = d\<lparr>db_tenants :=
    update_where (\<lambda>r. tn_ID r = tid \<and> tn_Status r \<in> status_source st) (status_set (pv_now env) st) (db_tenants d)\<rparr>"
  by (auto simp: UpdateStatus_def Let_def split: if_splits)

lemma UpdateStatus_active:
  assumes "UpdateStatus env d (tn_ID t) st = Inr d'" "distinct (map tn_ID (db_tenants d))" "t \<in> set (db_tenants d)"
  shows "num_active d' = num_active d + (if st = StatusActive then 1 else 0) - (if tn_Status t = StatusActive then 1 else 0)"
proof -
  have ex: "tn_Status t \<in> status_source st"
    using assms by (auto simp: UpdateStatus_def Let_def list_ex_iff split: if_splits dest: unique_key)
  show ?thesis
    using UpdateStatus_rows [OF assms(1)] num_active_update [OF assms(2,3), of st "pv_now env"] ex by (cases st; auto simp: num_active_def statuses_def)
qed

definition ids_ok :: "prov_state \<Rightarrow> bool" where
  "ids_ok s \<longleftrightarrow> distinct (map tn_ID (db_tenants (ps_db s)))"

lemma status_off:
  assumes "GetBySlug env (ps_db s) slug = Inr t" "UpdateStatus env' (ps_db s) (tn_ID t) st = Inr d" "ids_ok s" "gauge_off 0 s"
  shows "gauge_off ((if tn_Status t = StatusActive then 1 else 0) - (if st = StatusActive then 1 else 0)) (s\<lparr>ps_db := d\<rparr>)"
  using UpdateStatus_active [OF assms(2)] assms(3,4) GetBySlug_live [OF assms(1)] by (simp add: ids_ok_def gauge_off_def)

lemma gauge_off_parts [simp]:
  "gauge_off k (emitEvent e s) \<longleftrightarrow> gauge_off k s" "gauge_off k (auditLog env tid a s) \<longleftrightarrow> gauge_off k s"
  "gauge_off k (admin_all env cs s) \<longleftrightarrow> gauge_off k s" "gauge_off k (create_topics env ns slug specs s) \<longleftrightarrow> gauge_off k s"
  "gauge_off k (revoke_signing_keys env tid s) \<longleftrightarrow> gauge_off k s" "gauge_off k (revoke_tenant_api_keys env tid s) \<longleftrightarrow> gauge_off k s"
  "gauge_off k (IncActiveTenants s) \<longleftrightarrow> gauge_off (k - 1) s" "gauge_off k (DecActiveTenants s) \<longleftrightarrow> gauge_off (k + 1) s"
  by (auto intro!: quiet_gauge quiet_audit quiet_revoke_signing quiet_revoke_tenant)
    (auto simp: gauge_off_def IncActiveTenants_def DecActiveTenants_def)

lemma gauge_off_attempt [simp]: "keeps_status (ps_db s) r \<Longrightarrow> gauge_off k (attempt r s) \<longleftrightarrow> gauge_off k s"
  by (rule quiet_gauge [OF quiet_attempt])

lemma SuspendTenant_gauge: "ids_ok s \<Longrightarrow> gauge_off 0 s \<Longrightarrow> gauge_off 0 (snd (SuspendTenant env slug s))"
  by (auto simp: SuspendTenant_def split: sum.splits dest: status_off)

lemma ReactivateTenant_gauge:
  assumes "ids_ok s" "gauge_off 0 s"
  shows "gauge_off 0 (snd (ReactivateTenant cfg env slug s))"
proof (cases "GetBySlug env (ps_db s) slug")
  case (Inr t)
  let ?s = "create_topics env (TopicNamespace cfg) (tn_Slug t) (infraTopicSpecs cfg) s"
  have "gauge_off (- 1) (?s\<lparr>ps_db := d\<rparr>)" if "UpdateStatus env (ps_db s) (tn_ID t) StatusActive = Inr d" "tn_Status t \<noteq> StatusActive" for d
    using status_off [of env ?s slug t env StatusActive d] Inr that assms by (simp add: ids_ok_def)
  then show ?thesis using Inr assms(2) by (auto simp: ReactivateTenant_def Let_def split: sum.splits)
qed (use assms in \<open>simp add: ReactivateTenant_def\<close>)

lemma forceDelete_gauge:
  assumes "GetBySlug env (ps_db s) slug = Inr t" "ids_ok s" "gauge_off 0 s" "forceDeleteTenant cfg env t s = (None, s')"
  shows "gauge_off (if tn_Status t = StatusActive then 1 else 0) s'"
proof (cases "UpdateStatus env (ps_db s) (tn_ID t) StatusDeleted")
  case (Inr d)
  have "gauge_off (if tn_Status t = StatusActive then 1 else 0) (s\<lparr>ps_db := d\<rparr>)" (is "gauge_off ?k _")
    using status_off [OF assms(1) Inr assms(2,3)] by simp
  moreover have "gauge_off ?k s' = gauge_off ?k (s\<lparr>ps_db := d\<rparr>)"
    using assms(4) Inr
    by (cases "routingRulesConfigured cfg"; cases "channelRulesConfigured cfg") (auto simp: forceDeleteTenant_def Let_def)
  ultimately show ?thesis by simp
qed (use assms(4) in \<open>simp add: forceDeleteTenant_def\<close>)

lemma forceDelete_error: "forceDeleteTenant cfg env t s = (Some e, s') \<Longrightarrow> s' = s"
  by (auto simp: forceDeleteTenant_def Let_def split: sum.splits)

lemma DeprovisionTenant_gauge:
  assumes "ids_ok s" "gauge_off 0 s"
  shows "gauge_off 0 (snd (DeprovisionTenant cfg env slug force s))"
proof (cases "GetBySlug env (ps_db s) slug")
  case (Inr t)
  obtain e s1 where f: "forceDeleteTenant cfg env t s = (e, s1)" by fastforce
  have 1: "gauge_off 0 (if tn_Status t = StatusActive then DecActiveTenants s1 else s1)" if "e = None"
    using forceDelete_gauge [OF Inr assms, of cfg s1] f that by auto
  have 2: "gauge_off 0 (if tn_Status t = StatusActive then DecActiveTenants (s\<lparr>ps_db := d\<rparr>) else s\<lparr>ps_db := d\<rparr>)"
    if "UpdateStatus env (ps_db s) (tn_ID t) StatusDeprovisioning = Inr d" for d
    using status_off [OF Inr that assms] by (simp split: if_splits)
  show ?thesis
    using Inr f 1 2 assms(2) forceDelete_error [of cfg env t s]
    by (auto simp: DeprovisionTenant_def Let_def split: sum.splits option.splits)
qed (use assms in \<open>simp add: DeprovisionTenant_def\<close>)


text \<open>The sweep deletes tenants in the \<open>deprovisioning\<close> state, which are not counted.\<close>

definition uncounted :: "string \<Rightarrow> database \<Rightarrow> bool" where
  "uncounted tid d \<longleftrightarrow> (\<forall>r \<in> set (db_tenants d). tn_ID r = tid \<longrightarrow> tn_Status r \<noteq> StatusActive)"

lemma uncounted_update:
  assumes "\<forall>r \<in> set rows. P r \<longrightarrow> tn_Status r \<noteq> StatusActive"
  shows "filter (\<lambda>st. st = StatusActive) (map tn_Status (update_where P (status_set now StatusDeleted) rows)) =
    filter (\<lambda>st. st = StatusActive) (map tn_Status rows)"
  using assms by (induction rows) (auto simp: update_where_Cons, simp add: update_where_def)

lemma UpdateStatus_uncounted:
  assumes "UpdateStatus env d tid StatusDeleted = Inr d'" "uncounted tid d"
  shows "num_active d' = num_active d"
proof -
  let ?P = "\<lambda>r. tn_ID r = tid \<and> tn_Status r \<in> status_source StatusDeleted"
  have "\<forall>r \<in> set (db_tenants d). ?P r \<longrightarrow> tn_Status r \<noteq> StatusActive" using assms(2) by (simp add: uncounted_def)
  from uncounted_update [OF this] show ?thesis
    unfolding UpdateStatus_rows [OF assms(1)] num_active_def statuses_def by simp
qed

lemma gauge_frame [simp]:
  "ps_gauge (admin_all env cs s) = ps_gauge s" "ps_gauge (attempt r s) = ps_gauge s"
  by (induction cs arbitrary: s) (auto simp: admin_def attempt_def split: sum.splits)

lemma tenants_frame [simp]:
  "db_tenants d = db_tenants (ps_db s) \<Longrightarrow> db_tenants (ps_db (attempt (Rules_DeleteAll env d tid) s)) = db_tenants (ps_db s)"
  "db_tenants d = db_tenants (ps_db s) \<Longrightarrow> db_tenants (ps_db (attempt (Audit_Log env d e) s)) = db_tenants (ps_db s)"
  by (auto simp: attempt_def Rules_DeleteAll_def delete_rules_def Audit_Log_def)

text \<open>What precedes the status update of a deletion touches neither the tenants nor the gauge.\<close>

lemma deleteTenant_prefix:
  "\<exists>s3. db_tenants (ps_db s3) = db_tenants (ps_db s) \<and> ps_gauge s3 = ps_gauge s \<and>
     deleteTenant cfg env t s = (case UpdateStatus env (ps_db s3) (tn_ID t) StatusDeleted of
        Inl e \<Rightarrow> (Some e, s3) | Inr d \<Rightarrow> (None, s3\<lparr>ps_db := d\<rparr>))"
proof -
  let ?s1 = "case Rules_GetAll env (ps_db s) (tn_ID t) of Inl _ \<Rightarrow> s
      | Inr rules \<Rightarrow> admin_all env (map (\<lambda>suffix. KDeleteTopic (BuildTopicName (TopicNamespace cfg) (tn_Slug t) suffix)) (rule_suffixes rules)) s"
  let ?s2 = "if routingRulesConfigured cfg then attempt (Rules_DeleteAll env (ps_db ?s1) (tn_ID t)) ?s1 else s"
  have "db_tenants (ps_db ?s2) = db_tenants (ps_db s)" "ps_gauge ?s2 = ps_gauge s" by (simp_all split: sum.split)
  then show ?thesis unfolding deleteTenant_def Let_def 
    by - (rule exI, rule conjI [rotated], rule conjI [rotated], rule refl, simp_all del: admin_all.simps)
qed

lemma deleteTenant_gauge:
  assumes "gauge_off 0 s" "uncounted (tn_ID t) (ps_db s)"
  shows "gauge_off 0 (snd (deleteTenant cfg env t s))"
proof -
  obtain s3 where s3: "db_tenants (ps_db s3) = db_tenants (ps_db s)" "ps_gauge s3 = ps_gauge s"
    "deleteTenant cfg env t s = (case UpdateStatus env (ps_db s3) (tn_ID t) StatusDeleted of
        Inl e \<Rightarrow> (Some e, s3) | Inr d \<Rightarrow> (None, s3\<lparr>ps_db := d\<rparr>))" using deleteTenant_prefix by metis
  have "uncounted (tn_ID t) (ps_db s3)" "num_active (ps_db s3) = num_active (ps_db s)"
    using assms(2) s3(1) by (simp_all add: uncounted_def num_active_def statuses_def)
  then show ?thesis using s3 assms(1) UpdateStatus_uncounted by (fastforce simp: gauge_off_def split: sum.splits)
qed


lemma deleteTenant_keeps_uncounted:
  assumes "uncounted u (ps_db s)"
  shows "uncounted u (ps_db (snd (deleteTenant cfg env t s)))"
proof -
  obtain s3 where s3: "db_tenants (ps_db s3) = db_tenants (ps_db s)"
    "deleteTenant cfg env t s = (case UpdateStatus env (ps_db s3) (tn_ID t) StatusDeleted of
        Inl e \<Rightarrow> (Some e, s3) | Inr d \<Rightarrow> (None, s3\<lparr>ps_db := d\<rparr>))" using deleteTenant_prefix by metis
  then show ?thesis using assms
    by (auto simp: uncounted_def set_update_where split: sum.splits if_splits dest!: UpdateStatus_rows)
qed

lemma processDeletions_gauge:
  assumes "ids_ok s" "gauge_off 0 s"
  shows "gauge_off 0 (processDeletions cfg env s)"
proof -
  have fold: "gauge_off 0 (fold (\<lambda>t s. snd (deleteTenant cfg env t s)) ts s)"
    if "gauge_off 0 s" "\<forall>t \<in> set ts. uncounted (tn_ID t) (ps_db s)" for ts s
    using that by (induction ts arbitrary: s) (auto simp: deleteTenant_gauge deleteTenant_keeps_uncounted)
  have "uncounted (tn_ID t) (ps_db s)" if "t \<in> set (db_tenants (ps_db s))" "tn_Status t = StatusDeprovisioning" for t
    using assms(1) that unique_key [of tn_ID "db_tenants (ps_db s)" _ t] by (fastforce simp: uncounted_def ids_ok_def)
  then show ?thesis using assms(2) by (auto simp: processDeletions_def GetTenantsForDeletion_def split: sum.splits if_splits intro!: fold)
qed

lemma CreateTenant_gauge:
  assumes "gauge_off 0 s"
  shows "gauge_off 0 (snd (CreateTenant cfg env req s))"
proof (cases "create_checks cfg env req (ps_db s)")
  case None
  obtain r s1 where sg: "create_saga cfg env (new_tenant req) s = (r, s1)" by fastforce
  have g: "ps_gauge s1 = ps_gauge s" using sg
    by (auto simp: create_saga_def Let_def admin_def delete_if_def split: if_splits sum.splits)
  show ?thesis
  proof (cases r)
    case (Inl e)
    then show ?thesis using None sg g assms create_saga_db(1) [of cfg env "new_tenant req" s e s1]
      by (simp add: CreateTenant_def gauge_off_def)
  next
    case (Inr t)
    have cr: "Tenant_Create env (ps_db s) (new_tenant req) = Inr (ps_db s1, t)" using create_saga_db(2) sg Inr by auto
    have "gauge_off (- 1) s1" using Tenant_Create_id [OF cr] assms g
      by (simp add: gauge_off_def num_active_def statuses_def new_tenant_def)
    then have g2: "gauge_off 0 (attempt (Quota_Create env (ps_db s1) q) (IncActiveTenants s1))" for q
      using gauge_off_attempt [of "IncActiveTenants s1"] by simp
    show ?thesis
      using None sg Inr g2 quiet_gauge [OF quiet_write [OF _ keeps_status_writes(6)], of env]
      by (auto simp: CreateTenant_def Let_def split: option.splits sum.splits)
  qed
qed (simp add: CreateTenant_def assms)

lemma Start_gauge:
  assumes "gauge_off 0 s"
  shows "gauge_off 0 (Start env s)"
proof -
  have "gauge_off 0 s \<Longrightarrow> gauge_off 0 (fold (\<lambda>t s. if f t then emitEvent e s else s) ts s)" for ts :: "tenant list" and f e s
    by (induction ts arbitrary: s) auto
  then show ?thesis using assms
    by (auto simp: Start_def Let_def CountActive_def split: sum.splits if_splits)
      (auto simp: gauge_off_def num_active_def statuses_def filter_map comp_def)
qed

lemma op_gauge:
  assumes "ids_ok s" "gauge_off 0 s"
  shows "gauge_off 0 (run_op cfg env op s)"
  by (cases op) (use assms in \<open>auto simp: quiet_gauge [OF quiet_ops(1)] quiet_gauge [OF quiet_ops(2)] quiet_gauge [OF quiet_ops(3)]
      quiet_gauge [OF quiet_ops(4)] quiet_gauge [OF quiet_ops(5)] quiet_gauge [OF quiet_ops(6)] quiet_gauge [OF quiet_ops(7)]
      quiet_gauge [OF quiet_rule_ops(1)] quiet_gauge [OF quiet_rule_ops(2)] quiet_gauge [OF quiet_rule_ops(3)]
      quiet_gauge [OF quiet_rule_ops(4)] quiet_gauge [OF quiet_rule_ops(5)] quiet_gauge [OF quiet_quota] quiet_gauge [OF quiet_rename]
      SuspendTenant_gauge ReactivateTenant_gauge DeprovisionTenant_gauge processDeletions_gauge CreateTenant_gauge Start_gauge\<close>)

lemma reachable_gauge: "prov_reachable cfg s \<Longrightarrow> gauge_off 0 s"
proof (induction rule: prov_reachable.induct)
  case prov_init
  then show ?case by (simp add: gauge_off_def init_prov_def num_active_def statuses_def empty_database_def)
next
  case (prov_op s env op)
  then show ?case using schema.reachable_holds [OF prov_op(1)]
    by (auto intro!: op_gauge simp: ids_ok_def db_ok_def tenants_ok_def)
qed

section \<open>Sequences of operations\<close>

definition run_ops :: "prov_config \<Rightarrow> (prov_env \<times> prov_op) list \<Rightarrow> prov_state \<Rightarrow> prov_state" where
  "run_ops cfg ops s = fold (\<lambda>(env, op). run_op cfg env op) ops s"

lemma run_ops_reachable: "prov_reachable cfg s \<Longrightarrow> prov_reachable cfg (run_ops cfg ops s)"
  unfolding run_ops_def by (induction ops arbitrary: s) (auto intro: prov_reachable.prov_op)

lemma run_ops_init: "prov_reachable cfg (run_ops cfg ops init_prov)"
  by (rule run_ops_reachable [OF prov_reachable.prov_init])

lemma reachable_ok: "prov_reachable cfg s \<Longrightarrow> db_ok cfg (ps_db s)"
  by (rule schema.reachable_holds)

subsection \<open>A sample deployment\<close>

definition demo_prov_config :: prov_config where
  "demo_prov_config =
     \<lparr>TopicNamespace = ''prod'', DefaultPartitions = 3, DefaultRetentionMs = 86400, DeadLetterTopicPartitions = 1,
      DeadLetterTopicRetentionMs = 86400, cfg_MaxTopicsPerTenant = 10, MaxStorageBytes = 1000, DefaultProducerRate = 10,
      DefaultConsumerRate = 10, DeprovisionGraceDays = 30, cfg_MaxRoutingRulesPerTenant = 5, MaxTopicsPerRule = 3,
      SlugRenameTopicHoldPeriod = 100, routingRulesConfigured = True, channelRulesConfigured = True, editionManager = None\<rparr>"

definition demo_prov_env :: "string \<Rightarrow> int \<Rightarrow> prov_env" where
  "demo_prov_env uuid now =
     \<lparr>pv_fault = (\<lambda>_. False), pv_kafka = (\<lambda>_. KOk), pv_uuid = (\<lambda>_. True), pv_now = now, pv_newID = uuid,
      pv_actor = ''ops'', pv_actorType = ''user''\<rparr>"

definition demo_create :: "string \<Rightarrow> prov_op" where
  "demo_create slug = OpCreateTenant \<lparr>cr_Slug = slug, cr_Name = slug, cr_ConsumerType = [], cr_Metadata = [], cr_PublicKey = None\<rparr>"

definition demo_rule :: routing_rule where
  "demo_rule = \<lparr>RulePattern = ''orders.**'', IngressTopic = ''orders'', EgressTopics = [''audit''], Priority = 1\<rparr>"

definition demo_ops :: "(prov_env \<times> prov_op) list" where
  "demo_ops =
     [(demo_prov_env ''u1'' 1, demo_create ''acme''), (demo_prov_env ''u2'' 2, demo_create ''globex''),
      (demo_prov_env ''u3'' 3, OpCreateTopic ''acme'' ''orders''), (demo_prov_env ''u4'' 4, OpCreateTopic ''acme'' ''audit''),
      (demo_prov_env ''u5'' 5, OpAddRoutingRule ''acme'' demo_rule), (demo_prov_env ''u6'' 6, OpCreateAPIKey ''globex'' ''web'')]"

definition demo_prov :: prov_state where
  "demo_prov = run_ops demo_prov_config demo_ops init_prov"

lemma demo_prov_reachable: "prov_reachable demo_prov_config demo_prov"
  unfolding demo_prov_def by (rule run_ops_init)

lemma demo_rules: "getAll (ps_db demo_prov) ''u1'' = [demo_rule]"
  by code_simp

subsection \<open>A deleted tenant\<close>

definition frozen :: "prov_config \<Rightarrow> tenant \<Rightarrow> string set \<Rightarrow> database \<Rightarrow> bool" where
  "frozen cfg t creds d \<longleftrightarrow> db_ok cfg d \<and> t \<in> set (db_tenants d) \<and> tn_Status t = StatusDeleted \<and> credentials d (tn_ID t) \<subseteq> creds"

interpretation frozen: write_stable cfg "frozen cfg t creds" for cfg t creds
proof
  show "frozen cfg t creds d \<Longrightarrow> db_step cfg tid d d' \<Longrightarrow> frozen cfg t creds d'" for d tid d'
    using step_frozen [of cfg tid d d' t] db_ok_step [of cfg d tid d'] by (auto simp: frozen_def db_ok_def)
  show "frozen cfg t creds d \<Longrightarrow> api_keys_unique d" for d by (simp add: frozen_def db_ok_def api_keys_ok_def)
qed

subsection \<open>The calls of the creation saga\<close>

fun deleted_topic :: "kafka_call \<Rightarrow> string list" where
  "deleted_topic (KDeleteTopic n) = [n]"
| "deleted_topic _ = []"

fun created_topic :: "kafka_call \<Rightarrow> string list" where
  "created_topic (KCreateTopic n _ _) = [n]"
| "created_topic _ = []"

definition topics_deleted :: "kafka_call list \<Rightarrow> string set" where
  "topics_deleted calls = set (concat (map deleted_topic calls))"

definition topics_created :: "prov_env \<Rightarrow> kafka_call list \<Rightarrow> string set" where
  "topics_created env calls = set (concat (map created_topic (filter (\<lambda>c. pv_kafka env c = KOk) calls)))"

definition topics_present :: "prov_env \<Rightarrow> kafka_call list \<Rightarrow> string set" where
  "topics_present env calls = set (concat (map created_topic (filter (\<lambda>c. pv_kafka env c \<noteq> KFail) calls)))"

lemma topics_Nil [simp]: "topics_deleted [] = {}" "topics_created env [] = {}" "topics_present env [] = {}"
  by (simp_all add: topics_deleted_def topics_created_def topics_present_def)

lemma topics_Cons [simp]:
  "topics_deleted (c # cs) = set (deleted_topic c) \<union> topics_deleted cs"
  "topics_created env (c # cs) = (if pv_kafka env c = KOk then set (created_topic c) \<union> topics_created env cs else topics_created env cs)"
  "topics_present env (c # cs) = (if pv_kafka env c = KFail then topics_present env cs else set (created_topic c) \<union> topics_present env cs)"
  by (simp_all add: topics_deleted_def topics_created_def topics_present_def)

lemma create_saga_calls:
  "create_saga cfg env t s = (Inl e, s') \<Longrightarrow>
     \<exists>calls. ps_kafka s' = ps_kafka s @ calls \<and> topics_deleted calls = topics_created env calls"
  "create_saga cfg env t s = (Inr t', s') \<Longrightarrow>
     \<exists>calls. ps_kafka s' = ps_kafka s @ calls \<and> topics_deleted calls = {} \<and>
       topics_present env calls = {BuildTopicName (TopicNamespace cfg) (tn_Slug t) DeadLetterTopicSuffix,
                                   BuildTopicName (TopicNamespace cfg) (tn_Slug t) DefaultTopicSuffix}"
  by (auto simp: create_saga_def Let_def admin_def delete_if_def split: if_splits sum.splits)

lemma quota_frame [simp]:
  "db_tenants d = db_tenants (ps_db s) \<Longrightarrow> db_tenants (ps_db (attempt (Quota_Create env d q) s)) = db_tenants (ps_db s)"
  by (auto simp: attempt_def Quota_Create_def)

lemma kafka_frame [simp]: "ps_kafka (attempt r s) = ps_kafka s" "ps_kafka (emitEvent e s) = ps_kafka s"
  "ps_kafka (auditLog env tid a s) = ps_kafka s" "ps_kafka (IncActiveTenants s) = ps_kafka s"
  by (auto simp: attempt_def emitEvent_def auditLog_def IncActiveTenants_def split: sum.splits)

lemma audit_tenants [simp]: "db_tenants (ps_db (auditLog env tid a s)) = db_tenants (ps_db s)"
  by (simp add: auditLog_def)

text \<open>What follows the saga calls the broker no more and keeps the rows of tenants.\<close>

lemma after_saga:
  assumes "create_checks cfg env req (ps_db s) = None" "create_saga cfg env (new_tenant req) s = (Inr t, s1)"
  shows "ps_kafka (snd (CreateTenant cfg env req s)) = ps_kafka s1 \<and>
    db_tenants (ps_db (snd (CreateTenant cfg env req s))) = db_tenants (ps_db s1)"
proof -
  have "db_tenants d = db_tenants d'" if "Key_Create env d' k = Inr d" for d d' k
    using that by (auto simp: Key_Create_def split: if_splits)
  then show ?thesis using assms by (auto simp: CreateTenant_def Let_def split: option.splits sum.splits)
qed

section \<open>Properties\<close>

text \<open>C8: In every state the service can reach, whatever database calls failed and whatever the broker
  answered, the database is well typed: the CHECK constraints hold, identifiers and slugs are unique, foreign
  keys point to tenants, a key is active exactly until it is revoked, and every tenant's rules are separated,
  normalised and over provisioned topics.\<close>

theorem database_always_well_formed:
  assumes "prov_reachable cfg s"
  shows "db_ok cfg (ps_db s)"
  using assms by (rule reachable_ok)

theorem database_always_well_formed_witness:
  "db_ok demo_prov_config (ps_db demo_prov) \<and> map tn_Slug (db_tenants (ps_db demo_prov)) = [''acme'', ''globex'']"
proof (rule conjI)
  show "db_ok demo_prov_config (ps_db demo_prov)" by (rule database_always_well_formed [OF demo_prov_reachable])
  show "map tn_Slug (db_tenants (ps_db demo_prov)) = [''acme'', ''globex'']" by code_simp
qed

text \<open>An egress topic of any rule of a tenant is never among the topics the platform consumes for
  that tenant, so a message written to it cannot loop back; nor is the dead-letter topic. The egress topics that
  are announced are exactly those, and every topic a rule names is provisioned.\<close>

theorem egress_never_consumed:
  assumes "prov_reachable cfg s" and "r \<in> set (getAll (ps_db s) tid)" and "e \<in> set (EgressTopics r)"
  shows "e \<notin> set (ConsumeTopicSuffixes (getAll (ps_db s) tid)) \<and>
     DeadLetterTopicSuffix \<notin> set (ConsumeTopicSuffixes (getAll (ps_db s) tid)) \<and>
     e \<in> set (CreateOnlyTopicSuffixes (getAll (ps_db s) tid)) \<and>
     IngressTopic r \<in> set (ConsumeTopicSuffixes (getAll (ps_db s) tid)) \<and>
     provisioned (ps_db s) tid e \<and> provisioned (ps_db s) tid (IngressTopic r)"
proof -
  have ok: "rules_of_ok (ps_db s) tid" using reachable_ok [OF assms(1)] by (simp add: db_ok_def routing_ok_def)
  then have g: "set (getAll (ps_db s) tid) = set (tenant_rules (ps_db s) tid)" by (auto simp: rules_of_ok_def getAll_set)
  have sep: "separated (getAll (ps_db s) tid)"
    using ok separated_subset [of "tenant_rules (ps_db s) tid"] g by (auto simp: rules_of_ok_def)
  have top: "rule_topics_ok r" using sep assms(2) by (auto simp: separated_def list_all_iff)
  have "\<forall>x \<in> set (AllTopicSuffixes r). provisioned (ps_db s) tid x" using ok assms(2) g by (auto simp: rules_of_ok_def)
  then show ?thesis
    using separated_egress [OF sep assms(2,3)] separated_dead_letter [OF sep] assms(2,3) top
    by (auto simp: CreateOnly_set Consume_set AllTopicSuffixes_def rule_topics_ok_def)
qed

theorem egress_never_consumed_witness:
  "''audit'' \<notin> set (ConsumeTopicSuffixes (getAll (ps_db demo_prov) ''u1'')) \<and>
     DeadLetterTopicSuffix \<notin> set (ConsumeTopicSuffixes (getAll (ps_db demo_prov) ''u1'')) \<and>
     ''audit'' \<in> set (CreateOnlyTopicSuffixes (getAll (ps_db demo_prov) ''u1'')) \<and>
     IngressTopic demo_rule \<in> set (ConsumeTopicSuffixes (getAll (ps_db demo_prov) ''u1'')) \<and>
     provisioned (ps_db demo_prov) ''u1'' ''audit'' \<and> provisioned (ps_db demo_prov) ''u1'' (IngressTopic demo_rule)"
  by (rule egress_never_consumed [OF demo_prov_reachable]) (simp_all add: demo_rules, simp add: demo_rule_def)

text \<open>C9: An operation on one tenant leaves every row of every other tenant unchanged, whether it
  succeeds or fails at any point.\<close>

theorem operation_confined_to_tenant:
  assumes "prov_reachable cfg s" and "op_slug op = Some slug" and "t \<in> set (db_tenants (ps_db s))" and "tn_Slug t \<noteq> slug"
  shows "rows_of (ps_db (run_op cfg env op s)) (tn_ID t) = rows_of (ps_db s) (tn_ID t)"
proof -
  have ok: "db_ok cfg (ps_db s)" by (rule reachable_ok [OF assms(1)])
  then have "scoped cfg slug s (run_op cfg env op s)"
    using run_op_scoped [OF assms(2)] by (simp add: db_ok_def api_keys_ok_def)
  then consider "ps_db (run_op cfg env op s) = ps_db s"
    | u where "u \<in> set (db_tenants (ps_db s))" "tn_Slug u = slug" "db_run cfg (tn_ID u) (ps_db s) (ps_db (run_op cfg env op s))"
    by (auto simp: scoped_def)
  then show ?thesis
  proof cases
    case 2
    have "tn_ID t \<noteq> tn_ID u"
      using ok assms(3,4) 2(1,2) unique_key [of tn_ID "db_tenants (ps_db s)" t u] by (auto simp: db_ok_def tenants_ok_def)
    then show ?thesis using run_scope [OF 2(3) ok] by blast
  qed simp
qed

theorem operation_confined_to_tenant_witness:
  "rows_of (ps_db (run_op demo_prov_config (demo_prov_env ''u7'' 7) (OpDeprovisionTenant ''acme'' True) demo_prov))
      (tn_ID (db_tenants (ps_db demo_prov) ! 1)) = rows_of (ps_db demo_prov) (tn_ID (db_tenants (ps_db demo_prov) ! 1))
   \<and> tn_Slug (db_tenants (ps_db demo_prov) ! 1) = ''globex''"
proof
  have g: "tn_Slug (db_tenants (ps_db demo_prov) ! 1) = ''globex''" "length (db_tenants (ps_db demo_prov)) = 2" by code_simp+
  show "rows_of (ps_db (run_op demo_prov_config (demo_prov_env ''u7'' 7) (OpDeprovisionTenant ''acme'' True) demo_prov))
      (tn_ID (db_tenants (ps_db demo_prov) ! 1)) = rows_of (ps_db demo_prov) (tn_ID (db_tenants (ps_db demo_prov) ! 1))"
    by (rule operation_confined_to_tenant [OF demo_prov_reachable, where slug = "''acme''"]) (simp_all add: g [unfolded One_nat_def])
  show "tn_Slug (db_tenants (ps_db demo_prov) ! 1) = ''globex''" by (rule g(1))
qed

text \<open>C29: Deletion is final: once a tenant is deleted, no sequence of operations changes its row or
  gives it an active signing or API key that it did not have.\<close>

theorem deletion_is_final:
  assumes "prov_reachable cfg s" and "t \<in> set (db_tenants (ps_db s))" and "tn_Status t = StatusDeleted"
  shows "t \<in> set (db_tenants (ps_db (run_ops cfg ops s))) \<and>
     credentials (ps_db (run_ops cfg ops s)) (tn_ID t) \<subseteq> credentials (ps_db s) (tn_ID t)"
  using frozen.ops_keep [where cfg = cfg and t = t and creds = "credentials (ps_db s) (tn_ID t)" and s = s and ops = ops] assms reachable_ok [OF assms(1)]
  by (auto simp: frozen_def run_ops_def)

theorem deletion_is_final_witness:
  "db_tenants (ps_db (run_ops demo_prov_config [(demo_prov_env ''u7'' 7, OpDeprovisionTenant ''acme'' True)] demo_prov)) ! 0
     \<in> set (db_tenants (ps_db (run_ops demo_prov_config [(demo_prov_env ''u8'' 8, OpReactivateTenant ''acme'')]
         (run_ops demo_prov_config [(demo_prov_env ''u7'' 7, OpDeprovisionTenant ''acme'' True)] demo_prov))))"
proof -
  let ?s = "run_ops demo_prov_config [(demo_prov_env ''u7'' 7, OpDeprovisionTenant ''acme'' True)] demo_prov"
  have "tn_Status (db_tenants (ps_db ?s) ! 0) = StatusDeleted" "length (db_tenants (ps_db ?s)) = 2" by code_simp+
  then show ?thesis
    by (intro deletion_is_final [OF run_ops_reachable [OF demo_prov_reachable], THEN conjunct1]) simp_all
qed

text \<open>The gauge of active tenants is exact in every reachable state: creation, suspension,
  reactivation, both ways of deprovisioning and the sweep each change it by what they changed in the table.\<close>

theorem gauge_counts_active_tenants:
  assumes "prov_reachable cfg s"
  shows "ps_gauge s = int (length (filter (\<lambda>t. tn_Status t = StatusActive) (db_tenants (ps_db s))))"
  using reachable_gauge [OF assms] by (simp add: gauge_off_def num_active_def statuses_def filter_map comp_def)

theorem gauge_counts_active_tenants_witness:
  "ps_gauge demo_prov = int (length (filter (\<lambda>t. tn_Status t = StatusActive) (db_tenants (ps_db demo_prov)))) \<and> ps_gauge demo_prov = 2"
  using gauge_counts_active_tenants [OF demo_prov_reachable] by (rule conjI) code_simp

text \<open>The creation saga compensates exactly: when no tenant row is written, the topics that are
  deleted are those this call created, never one that was there before; when the row is written nothing is deleted,
  and both infrastructure topics were created or already existed.\<close>

theorem create_compensates_exactly:
  "\<exists>calls. ps_kafka (snd (CreateTenant cfg env req s)) = ps_kafka s @ calls \<and>
     (let written = (db_tenants (ps_db (snd (CreateTenant cfg env req s))) \<noteq> db_tenants (ps_db s))
      in topics_deleted calls = (if written then {} else topics_created env calls) \<and>
         (if written
          then topics_present env calls = {BuildTopicName (TopicNamespace cfg) (cr_Slug req) DeadLetterTopicSuffix,
                                           BuildTopicName (TopicNamespace cfg) (cr_Slug req) DefaultTopicSuffix}
          else True))"
proof (cases "create_checks cfg env req (ps_db s)")
  case None
  obtain r s1 where sg: "create_saga cfg env (new_tenant req) s = (r, s1)" by fastforce
  show ?thesis
  proof (cases r)
    case (Inl e)
    then show ?thesis using None sg create_saga_calls(1) [of cfg env "new_tenant req" s e s1] create_saga_db(1) [of cfg env "new_tenant req" s e s1]
      by (auto simp: CreateTenant_def)
  next
    case (Inr t)
    have cr: "Tenant_Create env (ps_db s) (new_tenant req) = Inr (ps_db s1, t)" using create_saga_db(2) sg Inr by auto
    have "db_tenants (ps_db s1) = db_tenants (ps_db s) @ [t]" using Tenant_Create_id [OF cr] by simp
    then have "db_tenants (ps_db (snd (CreateTenant cfg env req s))) = db_tenants (ps_db s) @ [t]"
      and "ps_kafka (snd (CreateTenant cfg env req s)) = ps_kafka s1"
      using after_saga [OF None sg [unfolded Inr]] by auto
    then show ?thesis using create_saga_calls(2) [of cfg env "new_tenant req" s t s1] sg Inr by (auto simp: new_tenant_def)
  qed
qed (auto simp: CreateTenant_def topics_deleted_def topics_created_def)

end
