(* ===== verification/FeedSafety.thy ===== *)
theory FeedSafety
  imports ConfigFeed ProvisioningGuarantees
begin

text \<open>
  The control plane and one connected client as a state machine: operations of the service publish their
  events, the Watch handler sends its snapshot, subscribes and turns events into deltas, the client applies
  what arrives in order, and a stream may break at any time. What the clients then know of the database.
\<close>

section \<open>The machine\<close>

datatype stream_phase = NotConnected | SnapshotSent | Watching nat

record ('m, 'c) feed_state =
  fs_prov :: prov_state
  fs_bus :: event_bus
  fs_phase :: stream_phase
  fs_wire :: "'m list"
  fs_client :: 'c

definition new_events :: "prov_state \<Rightarrow> prov_state \<Rightarrow> event_type list" where
  "new_events s s' = drop (length (ps_events s)) (ps_events s')"

definition feed_close :: "('m, 'c) feed_state \<Rightarrow> ('m, 'c) feed_state" where
  "feed_close s =
     (case fs_phase s of
        Watching i \<Rightarrow> s\<lparr>fs_phase := NotConnected, fs_wire := [], fs_bus := Unsubscribe_bus i (fs_bus s)\<rparr>
      | _ \<Rightarrow> s\<lparr>fs_phase := NotConnected, fs_wire := []\<rparr>)"

text \<open>\<open>upd\<close> is the client's update of its cache. The flag of a step says that it opens a stream.\<close>

inductive feed_step ::
  "prov_config \<Rightarrow> 'm watch \<Rightarrow> ('c \<Rightarrow> 'm \<Rightarrow> 'c) \<Rightarrow> bool \<Rightarrow> ('m, 'c) feed_state \<Rightarrow> ('m, 'c) feed_state \<Rightarrow> bool"
  for cfg w upd where
  feed_op: "s' = run_op cfg env op (fs_prov s) \<Longrightarrow>
     feed_step cfg w upd False s (s\<lparr>fs_prov := s', fs_bus := publish_all (new_events (fs_prov s) s') (fs_bus s)\<rparr>)"
| feed_open: "fs_phase s = NotConnected \<Longrightarrow> w_load w env True (ps_db (fs_prov s)) = Inr m \<Longrightarrow>
     feed_step cfg w upd True s (s\<lparr>fs_phase := SnapshotSent, fs_wire := [m]\<rparr>)"
| feed_subscribe: "fs_phase s = SnapshotSent \<Longrightarrow> Subscribe_bus (fs_bus s) = (i, b) \<Longrightarrow>
     feed_step cfg w upd False s (s\<lparr>fs_phase := Watching i, fs_bus := b\<rparr>)"
| feed_skip: "fs_phase s = Watching i \<Longrightarrow> receive_bus i (fs_bus s) = Some (e, b) \<Longrightarrow>
     watch_event w env e (ps_db (fs_prov s)) = None \<Longrightarrow> feed_step cfg w upd False s (s\<lparr>fs_bus := b\<rparr>)"
| feed_delta: "fs_phase s = Watching i \<Longrightarrow> receive_bus i (fs_bus s) = Some (e, b) \<Longrightarrow>
     watch_event w env e (ps_db (fs_prov s)) = Some m \<Longrightarrow>
     feed_step cfg w upd False s (s\<lparr>fs_bus := b, fs_wire := fs_wire s @ [m]\<rparr>)"
| feed_recv: "fs_wire s = m # ms \<Longrightarrow> feed_step cfg w upd False s (s\<lparr>fs_wire := ms, fs_client := upd (fs_client s) m\<rparr>)"
| feed_break: "feed_step cfg w upd False s (feed_close s)"

inductive feed_reachable :: "prov_config \<Rightarrow> 'm watch \<Rightarrow> ('c \<Rightarrow> 'm \<Rightarrow> 'c) \<Rightarrow> 'c \<Rightarrow> ('m, 'c) feed_state \<Rightarrow> bool"
  for cfg w upd c0 where
  feed_init: "feed_reachable cfg w upd c0 \<lparr>fs_prov = init_prov, fs_bus = New_bus, fs_phase = NotConnected, fs_wire = [], fs_client = c0\<rparr>"
| feed_next: "feed_reachable cfg w upd c0 s \<Longrightarrow> feed_step cfg w upd b s s' \<Longrightarrow> feed_reachable cfg w upd c0 s'"

inductive_cases feed_stepE: "feed_step cfg w upd b s s'"

section \<open>Clients that only know what was loaded\<close>

text \<open>
  A property of messages that every load from a well-formed database has, and a property of caches that the
  updates with such messages keep.
\<close>

locale fed_client =
  fixes cfg :: prov_config and w :: "'m watch" and upd :: "'c \<Rightarrow> 'm \<Rightarrow> 'c" and c0 :: 'c
    and M :: "'m \<Rightarrow> bool" and C :: "'c \<Rightarrow> bool"
  assumes load_sound: "db_ok cfg d \<Longrightarrow> w_load w env snap d = Inr m \<Longrightarrow> M m"
    and start_sound: "C c0"
    and update_sound: "C c \<Longrightarrow> M m \<Longrightarrow> C (upd c m)"
begin

lemma step_prov: "feed_step cfg w upd b s s' \<Longrightarrow> prov_reachable cfg (fs_prov s) \<Longrightarrow> prov_reachable cfg (fs_prov s')"
  by (auto elim!: feed_stepE intro: prov_reachable.prov_op simp: feed_close_def split: stream_phase.splits)

lemma reachable_prov: "feed_reachable cfg w upd c0 s \<Longrightarrow> prov_reachable cfg (fs_prov s)"
  by (induction rule: feed_reachable.induct) (auto intro: prov_reachable.prov_init step_prov)

lemma watch_event_sound: "db_ok cfg d \<Longrightarrow> watch_event w env e d = Some m \<Longrightarrow> M m"
  by (auto simp: watch_event_def split: if_splits sum.splits intro: load_sound)

lemma step_sound:
  assumes "feed_step cfg w upd b s s'" "prov_reachable cfg (fs_prov s)" "C (fs_client s) \<and> list_all M (fs_wire s)"
  shows "C (fs_client s') \<and> list_all M (fs_wire s')"
  using assms reachable_ok [OF assms(2)]
  by (auto elim!: feed_stepE simp: feed_close_def split: stream_phase.splits intro: load_sound watch_event_sound update_sound)

lemma reachable_sound: "feed_reachable cfg w upd c0 s \<Longrightarrow> C (fs_client s) \<and> list_all M (fs_wire s)"
proof (induction rule: feed_reachable.induct)
  case (feed_next s b s')
  then show ?case using step_sound reachable_prov by blast
qed (simp add: start_sound)

end

section \<open>The topics of the servers\<close>

definition message_topics :: "topics_msg \<Rightarrow> (string \<times> string) set" where
  "message_topics m = set (tm_SharedTopicTenants m) \<union> (\<Union>dt \<in> set (tm_DedicatedTenants m). Pair (fst dt) ` set (snd dt))"

text \<open>
  A sound message: consumed topics carry their owner's slug in their name, are never dead-letter topics and
  never create-only; the list of shared topics is that of their owners.
\<close>

definition owned_topic :: "string \<Rightarrow> string list \<Rightarrow> string \<Rightarrow> string \<Rightarrow> bool" where
  "owned_topic ns createOnly slug topic \<longleftrightarrow> slug_pattern slug \<and> topic \<notin> set createOnly \<and>
     (\<exists>suffix. topic = BuildTopicName ns slug suffix \<and> suffix \<noteq> DeadLetterTopicSuffix)"

definition topics_msg_ok :: "string \<Rightarrow> topics_msg \<Rightarrow> bool" where
  "topics_msg_ok ns m \<longleftrightarrow> tm_SharedTopics m = map snd (tm_SharedTopicTenants m) \<and>
     (\<forall>slug topic. (slug, topic) \<in> message_topics m \<longrightarrow> owned_topic ns (tm_CreateOnlyTopics m) slug topic)"

lemma topics_msg_ok_flag [simp]: "topics_msg_ok ns (m\<lparr>tm_IsSnapshot := b\<rparr>) \<longleftrightarrow> topics_msg_ok ns m"
  by (simp add: topics_msg_ok_def message_topics_def)

definition rules_read :: "feed_config \<Rightarrow> prov_env \<Rightarrow> database \<Rightarrow> string \<Rightarrow> routing_rule list" where
  "rules_read fc env d slug = (case GetRoutingRules (fc_prov fc) env slug d of Inl _ \<Rightarrow> [] | Inr rules \<Rightarrow> rules)"

lemma rules_read_separated: "db_ok cfg d \<Longrightarrow> separated (rules_read fc env d slug)"
proof (cases "GetRoutingRules (fc_prov fc) env slug d")
  case (Inr rules)
  assume ok: "db_ok cfg d"
  have "\<exists>tid. rules = getAll d tid"
    using Inr by (auto simp: GetRoutingRules_def Rules_GetAll_def split: if_splits sum.splits)
  then obtain tid where r: "rules = getAll d tid" ..
  have o: "rules_of_ok d tid" using ok by (simp add: db_ok_def routing_ok_def)
  then have "set rules = set (tenant_rules d tid)" using r getAll_set by (simp add: rules_of_ok_def)
  then show ?thesis using o separated_subset [of "tenant_rules d tid" rules] Inr by (simp add: rules_of_ok_def rules_read_def)
qed (simp add: rules_read_def)

lemma add_topics_one:
  "set (tm_CreateOnlyTopics (add_topics fc env ns d t m)) = set (tm_CreateOnlyTopics m) \<union>
     (if tn_Status t = StatusActive then BuildTopicName ns (tn_Slug t) ` set (CreateOnlyTopicSuffixes (rules_read fc env d (tn_Slug t))) else {})"
  "message_topics (add_topics fc env ns d t m) = message_topics m \<union>
     (if tn_Status t = StatusActive
      then (\<lambda>x. (tn_Slug t, BuildTopicName ns (tn_Slug t) x)) ` set (ConsumeTopicSuffixes (rules_read fc env d (tn_Slug t))) else {})"
  "tm_SharedTopics m = map snd (tm_SharedTopicTenants m) \<Longrightarrow>
     tm_SharedTopics (add_topics fc env ns d t m) = map snd (tm_SharedTopicTenants (add_topics fc env ns d t m))"
  by (auto simp: add_topics_def Let_def rules_read_def message_topics_def comp_def)

lemma add_topics_fold:
  "set (tm_CreateOnlyTopics (fold (add_topics fc env ns d) ts m)) = set (tm_CreateOnlyTopics m) \<union>
     (\<Union>t \<in> {t \<in> set ts. tn_Status t = StatusActive}. BuildTopicName ns (tn_Slug t) ` set (CreateOnlyTopicSuffixes (rules_read fc env d (tn_Slug t))))"
  "message_topics (fold (add_topics fc env ns d) ts m) = message_topics m \<union>
     (\<Union>t \<in> {t \<in> set ts. tn_Status t = StatusActive}.
        (\<lambda>x. (tn_Slug t, BuildTopicName ns (tn_Slug t) x)) ` set (ConsumeTopicSuffixes (rules_read fc env d (tn_Slug t))))"
  "tm_SharedTopics m = map snd (tm_SharedTopicTenants m) \<Longrightarrow>
     tm_SharedTopics (fold (add_topics fc env ns d) ts m) = map snd (tm_SharedTopicTenants (fold (add_topics fc env ns d) ts m))"
  by (induction ts arbitrary: m) (auto simp: add_topics_one)

lemma slug_no_dot: "slug_pattern s \<Longrightarrow> CHR ''.'' \<notin> set s"
  by (cases s) (auto simp: slug_pattern_def slug_letter_def literal_char_def list_all_iff)

lemma Tenant_List_rows: "Tenant_List env d st limit off = Inr (ts, n) \<Longrightarrow> set ts \<subseteq> set (db_tenants d)"
  by (auto simp: Tenant_List_def Let_def split: if_splits dest!: in_set_takeD in_set_dropD)

lemma load_topics_ok:
  assumes "db_ok cfg d" "loadTopicsUpdate fc env ns d = Inr m"
  shows "topics_msg_ok ns m"
proof -
  obtain ts n where ts: "Tenant_List env d None (maxTenantsFetchLimit fc) 0 = Inr (ts, n)"
    and m: "m = fold (add_topics fc env ns d) ts empty_topics"
    using assms(2) by (auto simp: loadTopicsUpdate_def split: sum.splits)
  have slug: "slug_pattern (tn_Slug t)" if "t \<in> set ts" for t
    using Tenant_List_rows [OF ts] that assms(1) by (auto simp: db_ok_def tenants_ok_def list_all_iff tenant_check_def)
  note sep = rules_read_separated [OF assms(1)]
  have shared: "tm_SharedTopics m = map snd (tm_SharedTopicTenants m)"
    unfolding m by (rule add_topics_fold(3)) (simp add: empty_topics_def)
  have "owned_topic ns (tm_CreateOnlyTopics m) s topic"
    if st: "(s, topic) \<in> message_topics m" for s topic
  proof -
    obtain t x where t: "t \<in> set ts" "s = tn_Slug t" "topic = BuildTopicName ns s x" "x \<in> set (ConsumeTopicSuffixes (rules_read fc env d s))"
      using st unfolding m add_topics_fold(2) by (auto simp: message_topics_def empty_topics_def)
    have "topic \<notin> set (tm_CreateOnlyTopics m)"
    proof
      assume "topic \<in> set (tm_CreateOnlyTopics m)"
      then obtain t' y where t': "t' \<in> set ts" "topic = BuildTopicName ns (tn_Slug t') y"
          "y \<in> set (CreateOnlyTopicSuffixes (rules_read fc env d (tn_Slug t')))"
        unfolding m add_topics_fold(1) by (auto simp: empty_topics_def)
      have "s = tn_Slug t' \<and> x = y"
        by (rule BuildTopicName_inj [of ns]) (use t t' slug slug_no_dot in auto)
      then show False using t(4) t'(3) by (auto simp: CreateOnly_set)
    qed
    then show ?thesis using t slug separated_dead_letter [OF sep, of fc env s] by (auto simp: owned_topic_def)
  qed
  then show ?thesis using shared by (auto simp: topics_msg_ok_def)
qed

subsection \<open>The registry\<close>

lemma fold_owner: "fold (\<lambda>topic m. m(topic \<mapsto> (s :: string))) ts m k = (if k \<in> set ts then Some s else m k)"
  by (induction ts arbitrary: m) auto

lemma shared_owner_Some: "fold (\<lambda>st m. m(snd st \<mapsto> fst st)) sh m k = Some (s :: string) \<Longrightarrow> (s, k) \<in> set sh \<or> m k = Some s"
  by (induction sh arbitrary: m) (force split: if_splits)+

lemma shared_owner_None: "fold (\<lambda>st m. m(snd st \<mapsto> (fst st :: string))) sh m k = None \<longleftrightarrow> m k = None \<and> k \<notin> snd ` set sh"
  by (induction sh arbitrary: m) auto

lemma ded_owner_Some:
  "fold (\<lambda>dt m. fold (\<lambda>topic m. m(topic \<mapsto> fst dt)) (snd dt) m) ded m k = Some (s :: string) \<Longrightarrow>
     (\<exists>dt \<in> set ded. fst dt = s \<and> k \<in> set (snd dt)) \<or> m k = Some s"
  by (induction ded arbitrary: m) (force simp: fold_owner split: if_splits)+

lemma ded_owner_None:
  "fold (\<lambda>dt m. fold (\<lambda>topic m. m(topic \<mapsto> (fst dt :: string))) (snd dt) m) ded m k = None \<longleftrightarrow>
     m k = None \<and> (\<forall>dt \<in> set ded. k \<notin> set (snd dt))"
  by (induction ded arbitrary: m) (auto simp: fold_owner)

lemma topic_owners_Some: "topic_owners sh ded k = Some s \<Longrightarrow> (s, k) \<in> set sh \<or> (\<exists>dt \<in> set ded. fst dt = s \<and> k \<in> set (snd dt))"
  unfolding topic_owners_def by (auto dest!: ded_owner_Some shared_owner_Some)

lemma topic_owners_None: "topic_owners sh ded k = None \<longleftrightarrow> k \<notin> snd ` set sh \<and> (\<forall>dt \<in> set ded. k \<notin> set (snd dt))"
  unfolding topic_owners_def ded_owner_None shared_owner_None by simp

definition topic_registry_ok :: "string \<Rightarrow> topic_registry \<Rightarrow> bool" where
  "topic_registry_ok ns r \<longleftrightarrow>
     (\<forall>topic. topic \<in> consumed_topics r \<longleftrightarrow> topicTenants r topic \<noteq> None) \<and>
     (\<forall>topic slug. topicTenants r topic = Some slug \<longrightarrow> owned_topic ns (createOnlyTopics r) slug topic)"

lemma applyTopicUpdate_ok:
  assumes "topics_msg_ok ns m"
  shows "topic_registry_ok ns (applyTopicUpdate r m)"
proof -
  have "(slug, topic) \<in> message_topics m" if "topicTenants (applyTopicUpdate r m) topic = Some slug" for slug topic
    using topic_owners_Some [of "tm_SharedTopicTenants m" "tm_DedicatedTenants m" topic slug] that
    by (force simp: applyTopicUpdate_def message_topics_def)
  moreover have "topic \<in> consumed_topics (applyTopicUpdate r m) \<longleftrightarrow> topicTenants (applyTopicUpdate r m) topic \<noteq> None" for topic
    using assms by (auto simp: applyTopicUpdate_def consumed_topics_def topic_owners_None topics_msg_ok_def)
  moreover have "createOnlyTopics (applyTopicUpdate r m) = tm_CreateOnlyTopics m" by (simp add: applyTopicUpdate_def)
  ultimately show ?thesis using assms by (auto simp: topic_registry_ok_def topics_msg_ok_def)
qed

interpretation topics_feed: fed_client cfg "WatchTopics fc ns" applyTopicUpdate empty_topic_registry "topics_msg_ok ns" "topic_registry_ok ns"
  for cfg fc ns
proof
  show "db_ok cfg d \<Longrightarrow> w_load (WatchTopics fc ns) env snap d = Inr m \<Longrightarrow> topics_msg_ok ns m" for d env snap m
    using load_topics_ok by (auto simp: WatchTopics_def split: sum.splits)
  show "topic_registry_ok ns empty_topic_registry"
    by (simp add: topic_registry_ok_def empty_topic_registry_def consumed_topics_def)
qed (rule applyTopicUpdate_ok)

section \<open>The keys and rules of the gateways\<close>

text \<open>What the database says of an API key and of a tenant's configuration.\<close>

definition api_key_view :: "database \<Rightarrow> string \<Rightarrow> api_key_info option" where
  "api_key_view d k =
     (case find (\<lambda>r. ak_KeyID r = k \<and> ak_IsActive r) (db_apiKeys d) of
        None \<Rightarrow> None
      | Some r \<Rightarrow> Some \<lparr>KeyID = ak_KeyID r, KeyTenantID = ak_TenantID r, KeyName = ak_Name r, IsActive = True\<rparr>)"

definition active_tenant :: "database \<Rightarrow> string \<Rightarrow> tenant option" where
  "active_tenant d slug = find (\<lambda>t. tn_Slug t = slug \<and> tn_Status t = StatusActive) (db_tenants d)"

definition channel_rules_view :: "prov_config \<Rightarrow> database \<Rightarrow> string \<Rightarrow> lookup_error + channel_rules" where
  "channel_rules_view cfg d slug =
     (case active_tenant d slug of
        None \<Rightarrow> Inl ErrChannelRulesNotFound
      | Some t \<Rightarrow>
          if \<not> channelRulesConfigured cfg then Inl ErrChannelRulesNotFound
          else case map_of (db_channelRules d) (tn_ID t) of None \<Rightarrow> Inl ErrChannelRulesNotFound | Some r \<Rightarrow> Inr r)"

definition routing_view :: "prov_config \<Rightarrow> database \<Rightarrow> string \<Rightarrow> routing_rule list option" where
  "routing_view cfg d slug =
     (case active_tenant d slug of
        None \<Rightarrow> None
      | Some t \<Rightarrow> Some (if routingRulesConfigured cfg then convertRoutingRules (getAll d (tn_ID t)) else []))"

subsection \<open>API keys\<close>

lemma find_map: "find P (map f xs) = map_option f (find (\<lambda>x. P (f x)) xs)"
  by (induction xs) auto

lemma find_filter: "find P (filter Q xs) = find (\<lambda>x. P x \<and> Q x) xs"
  by (induction xs) auto

lemma find_absent: "k \<notin> g ` set xs \<Longrightarrow> find (\<lambda>x. g x = k) xs = None"
  by (induction xs) auto

lemma find_unique:
  assumes "distinct (map g xs)" "x \<in> set xs" "P x" "\<And>y. y \<in> set xs \<Longrightarrow> P y \<Longrightarrow> g y = g x"
  shows "find P xs = Some x"
proof (cases "find P xs")
  case None
  then show ?thesis using assms(2,3) by (auto simp: find_None_iff)
next
  case (Some y)
  then show ?thesis using find_in [OF Some] assms(4) unique_key [OF assms(1) _ assms(2)] by blast
qed

lemma find_rev_unique:
  assumes "distinct (map g xs)"
  shows "find (\<lambda>x. g x = k \<and> Q x) (rev xs) = find (\<lambda>x. g x = k \<and> Q x) xs"
proof (cases "\<exists>x \<in> set xs. g x = k \<and> Q x")
  case True
  then obtain x where x: "x \<in> set xs" "g x = k" "Q x" by blast
  have "find (\<lambda>x. g x = k \<and> Q x) xs = Some x" using assms x by (intro find_unique [of g]) auto
  moreover have "find (\<lambda>x. g x = k \<and> Q x) (rev xs) = Some x" using assms x by (intro find_unique [of g]) (auto simp flip: rev_map)
  ultimately show ?thesis by simp
next
  case False
  then have "find (\<lambda>x. g x = k \<and> Q x) xs = None" "find (\<lambda>x. g x = k \<and> Q x) (rev xs) = None" by (auto simp: find_None_iff)
  then show ?thesis by simp
qed

lemma api_load_view:
  assumes "db_ok cfg d" "w_load WatchAPIKeys env snap d = Inr m"
  shows "KeysIsSnapshot m = snap" "RemovedKeyIds m = []"
    and "find (\<lambda>ki. KeyID ki = k) (rev (ApiKeys m)) = api_key_view d k"
proof -
  have m: "m = \<lparr>KeysIsSnapshot = snap, RemovedKeyIds = [], ApiKeys = convertAPIKeys (filter (\<lambda>r. ak_IsActive r \<and> ak_RevokedAt r = None) (db_apiKeys d))\<rparr>"
    using assms(2) by (auto simp: WatchAPIKeys_def GetActiveAPIKeys_def split: if_splits)
  show "KeysIsSnapshot m = snap" "RemovedKeyIds m = []" by (simp_all add: m)
  have act: "ak_RevokedAt r = None \<longleftrightarrow> ak_IsActive r" if "r \<in> set (db_apiKeys d)" for r
    using assms(1) that by (auto simp: db_ok_def api_keys_ok_def list_all_iff)
  then have "filter (\<lambda>r. ak_IsActive r \<and> ak_RevokedAt r = None) (db_apiKeys d) = filter ak_IsActive (db_apiKeys d)"
    by (auto intro: filter_cong)
  then have "find (\<lambda>ki. KeyID ki = k) (rev (ApiKeys m)) = map_option
      (\<lambda>k. \<lparr>KeyID = ak_KeyID k, KeyTenantID = ak_TenantID k, KeyName = ak_Name k, IsActive = ak_IsActive k\<rparr>)
      (find (\<lambda>r. ak_KeyID r = k \<and> ak_IsActive r) (rev (db_apiKeys d)))"
    by (simp add: m convertAPIKeys_def rev_map rev_filter find_map find_filter)
  also have "find (\<lambda>r. ak_KeyID r = k \<and> ak_IsActive r) (rev (db_apiKeys d)) = find (\<lambda>r. ak_KeyID r = k \<and> ak_IsActive r) (db_apiKeys d)"
    using assms(1) by (intro find_rev_unique) (simp add: db_ok_def api_keys_ok_def api_keys_unique_def)
  finally show "find (\<lambda>ki. KeyID ki = k) (rev (ApiKeys m)) = api_key_view d k"
    by (auto simp: api_key_view_def split: option.splits dest: find_in)
qed

lemma api_key_view_active: "api_key_view d k = Some i \<Longrightarrow> IsActive i"
  by (auto simp: api_key_view_def split: option.splits)

lemma Lookup_update: "Lookup (updateKeys c m) k =
   (case find (\<lambda>ki. KeyID ki = k) (rev (ApiKeys m)) of
      Some ki \<Rightarrow> if IsActive ki then Some ki else None
    | None \<Rightarrow> if KeysIsSnapshot m \<or> k \<in> set (RemovedKeyIds m) then None else Lookup c k)"
  by (auto simp: Lookup_def updateKeys_def add_keys_apply split: option.splits)

lemma api_update_view:
  assumes "db_ok cfg d" "w_load WatchAPIKeys env snap d = Inr m"
  shows "Lookup (updateKeys c m) k = (case api_key_view d k of Some i \<Rightarrow> Some i | None \<Rightarrow> if snap then None else Lookup c k)"
  by (auto simp: Lookup_update api_load_view [OF assms] split: option.splits dest: api_key_view_active)

subsection \<open>Tenant configuration\<close>

lemma convert_channel_rules [simp]: "protoToChannelRules (convertChannelRules r) = r"
  by (simp add: protoToChannelRules_def convertChannelRules_def)

lemma convert_rules_wf: "list_all rule_wf rs \<Longrightarrow> convert_rules (convertRoutingRules rs) = convertRoutingRules rs"
  by (induction rs) (auto simp: convertRoutingRules_def rule_wf_def MatchRoutingPattern_ok rule_topics_ok_def Let_def)

text \<open>Reads that do not fail.\<close>

definition reads_ok :: "prov_env \<Rightarrow> bool" where
  "reads_ok env \<longleftrightarrow> pv_fault env = (\<lambda>_. False)"

lemma GetBySlug_active_tenant:
  assumes "db_ok cfg d" "reads_ok env" "t \<in> set (db_tenants d)" "tn_Status t = StatusActive"
  shows "GetBySlug env d (tn_Slug t) = Inr t"
proof -
  have u: "distinct (map tn_Slug (db_tenants d))" "tn_DeletedAt t = None"
    using assms by (auto simp: db_ok_def tenants_ok_def list_all_iff)
  then have "find (\<lambda>r. tn_Slug r = tn_Slug t \<and> tn_DeletedAt r = None) (db_tenants d) = Some t"
    using assms(3) by (intro find_unique [of tn_Slug]) auto
  then show ?thesis using assms(2) by (simp add: GetBySlug_def reads_ok_def)
qed

lemma active_tenant_Some:
  "db_ok cfg d \<Longrightarrow> active_tenant d slug = Some t \<longleftrightarrow> t \<in> set (db_tenants d) \<and> tn_Slug t = slug \<and> tn_Status t = StatusActive"
  unfolding active_tenant_def
  by (auto simp: db_ok_def tenants_ok_def dest: find_in intro: find_unique [of tn_Slug])

lemma last_rules_distinct:
  "distinct (map TenantSlug tcs) \<Longrightarrow> last_rules s tcs = Option.bind (find (\<lambda>tc. TenantSlug tc = s) tcs) ProtoChannelRules"
proof (induction tcs)
  case (Cons tc tcs)
  have "find (\<lambda>tc. TenantSlug tc = s) tcs = None" if "TenantSlug tc = s" using Cons.prems that by (auto intro: find_absent)
  then show ?case using Cons by (auto simp: last_rules_Cons split: option.splits)
qed simp

lemma set_snapshots_distinct:
  "distinct (map TenantSlug tcs) \<Longrightarrow> set_snapshots tcs m s =
     (case find (\<lambda>tc. TenantSlug tc = s) tcs of Some tc \<Rightarrow> Some (convert_rules (RoutingRules tc)) | None \<Rightarrow> m s)"
proof (induction tcs arbitrary: m)
  case (Cons tc tcs)
  have "find (\<lambda>tc. TenantSlug tc = s) tcs = None" if "TenantSlug tc = s" using Cons.prems that by (auto intro: find_absent)
  then show ?case using Cons by (auto split: option.splits)
qed simp

text \<open>The tenants a load covers, when the limit is large enough.\<close>

lemma Tenant_List_all:
  assumes "db_ok cfg d" "reads_ok env" "int (length (db_tenants d)) \<le> limit" "0 < limit"
  obtains ts n where "Tenant_List env d None limit 0 = Inr (ts, n)" "distinct (map tn_Slug ts)"
    "set ts = {t \<in> set (db_tenants d). tn_Status t \<noteq> StatusDeleted}"
proof -
  let ?rows = "filter (\<lambda>r. tn_Status r \<noteq> StatusDeleted) (db_tenants d)"
  let ?ts = "rev (sort_key tn_CreatedAt ?rows)"
  have len: "length ?rows \<le> nat limit" using length_filter_le [of "\<lambda>r. tn_Status r \<noteq> StatusDeleted" "db_tenants d"] assms(3,4) by linarith
  have l: "Tenant_List env d None limit 0 = Inr (?ts, length ?rows)"
    using assms(2,4) len by (simp add: Tenant_List_def Let_def reads_ok_def)
  have "distinct (map tn_Slug ?rows)" using assms(1) by (auto simp: db_ok_def tenants_ok_def distinct_map inj_on_def)
  then have "distinct (map tn_Slug ?ts)" by (simp add: distinct_map)
  with l show ?thesis by (intro that [of ?ts]) auto
qed

lemma find_active_tenant:
  assumes "db_ok cfg d" "distinct (map tn_Slug ts)" "set ts = {t \<in> set (db_tenants d). tn_Status t \<noteq> StatusDeleted}"
  shows "find (\<lambda>t. tn_Slug t = slug) (filter (\<lambda>t. tn_Status t = StatusActive) ts) = active_tenant d slug"
proof (cases "active_tenant d slug")
  case None
  then have "find (\<lambda>t. tn_Slug t = slug \<and> tn_Status t = StatusActive) ts = None"
    unfolding active_tenant_def find_None_iff using assms(3) by auto
  then show ?thesis using None by (simp add: find_filter)
next
  case (Some t)
  then have "t \<in> set (db_tenants d) \<and> tn_Slug t = slug \<and> tn_Status t = StatusActive" using active_tenant_Some [OF assms(1)] by blast
  then have "find (\<lambda>t. tn_Slug t = slug \<and> tn_Status t = StatusActive) ts = Some t"
    using assms(2,3) by (intro find_unique [of tn_Slug]) auto
  then show ?thesis using Some by (simp add: find_filter)
qed

lemma tenant_config_of_read:
  assumes "db_ok cfg d" "fc_prov fc = cfg" "reads_ok env" "t \<in> set (db_tenants d)" "tn_Status t = StatusActive"
  shows "ProtoChannelRules (tenant_config_of fc env d t) =
      (if channelRulesConfigured cfg then map_option convertChannelRules (map_of (db_channelRules d) (tn_ID t)) else None)"
    and "convert_rules (RoutingRules (tenant_config_of fc env d t)) =
      (if routingRulesConfigured cfg then convertRoutingRules (getAll d (tn_ID t)) else [])"
proof -
  note g = GetBySlug_active_tenant [OF assms(1,3,4,5)]
  have "list_all rule_wf (tenant_rules d (tn_ID t))" using assms(1) by (simp add: db_ok_def routing_ok_def rules_of_ok_def)
  then have wf: "list_all rule_wf (getAll d (tn_ID t))" using getAll_set by (simp add: list_all_iff)
  have f: "\<not> pv_fault env c" for c using assms(3) by (simp add: reads_ok_def)
  show "ProtoChannelRules (tenant_config_of fc env d t) =
      (if channelRulesConfigured cfg then map_option convertChannelRules (map_of (db_channelRules d) (tn_ID t)) else None)"
    using assms(2) f by (auto simp: tenant_config_of_def GetChannelRules_service_def g ChannelRules_Get_def split: option.splits)
  show "convert_rules (RoutingRules (tenant_config_of fc env d t)) =
      (if routingRulesConfigured cfg then convertRoutingRules (getAll d (tn_ID t)) else [])"
    using assms(2) f by (auto simp: tenant_config_of_def GetRoutingRules_def g Rules_GetAll_def convert_rules_wf [OF wf])
qed

lemma config_snapshot_view:
  assumes "db_ok cfg d" "fc_prov fc = cfg" "reads_ok env" "int (length (db_tenants d)) \<le> maxTenantsFetchLimit fc" "0 < maxTenantsFetchLimit fc"
  shows "\<exists>m. w_load (WatchTenantConfig fc) env True d = Inr m \<and>
     GetChannelRules (updateTenantConfigs c m) slug = channel_rules_view cfg d slug \<and>
     GetRoutingSnapshot (updateTenantConfigs c m) slug = routing_view cfg d slug"
proof -
  obtain ts n where ts: "Tenant_List env d None (maxTenantsFetchLimit fc) 0 = Inr (ts, n)" "distinct (map tn_Slug ts)"
    "set ts = {t \<in> set (db_tenants d). tn_Status t \<noteq> StatusDeleted}" by (rule Tenant_List_all [OF assms(1,3-5)])
  let ?tcs = "map (tenant_config_of fc env d) (filter (\<lambda>t. tn_Status t = StatusActive) ts)"
  let ?m = "\<lparr>IsSnapshot = True, RemovedTenantSlugs = [], Tenants = ?tcs\<rparr>"
  have m: "w_load (WatchTenantConfig fc) env True d = Inr ?m" by (simp add: WatchTenantConfig_def loadTenantConfigs_def ts(1))
  have "map TenantSlug ?tcs = map tn_Slug (filter (\<lambda>t. tn_Status t = StatusActive) ts)" by (simp add: tenant_config_of_def comp_def)
  then have d: "distinct (map TenantSlug ?tcs)" using ts(2) by (simp add: distinct_map inj_on_def)
  have f: "find (\<lambda>tc. TenantSlug tc = slug) ?tcs = map_option (tenant_config_of fc env d) (active_tenant d slug)"
    using find_active_tenant [OF assms(1) ts(2,3)] by (simp add: find_map tenant_config_of_def)
  note r = tenant_config_of_read [OF assms(1-3)]
  have t: "t \<in> set (db_tenants d)" "tn_Status t = StatusActive" if "active_tenant d slug = Some t" for t
    using active_tenant_Some [OF assms(1)] that by auto
  have 1: "GetChannelRules (updateTenantConfigs c ?m) slug = channel_rules_view cfg d slug"
    using t by (auto simp: GetChannelRules_def updateTenantConfigs_channelRules last_rules_distinct [OF d] f channel_rules_view_def
        r split: option.splits)
  have 2: "GetRoutingSnapshot (updateTenantConfigs c ?m) slug = routing_view cfg d slug"
    using t by (auto simp: GetRoutingSnapshot_def updateTenantConfigs_snapshots set_snapshots_distinct [OF d] f routing_view_def
        r split: option.splits)
  show ?thesis using m 1 2 by blast
qed

subsection \<open>Stored routing rules\<close>

text \<open>The rows of the active tenant in the order of their priorities, as they are in the table.\<close>

definition stored_routing_rules :: "prov_config \<Rightarrow> database \<Rightarrow> string \<Rightarrow> routing_rule list option" where
  "stored_routing_rules cfg d slug =
     map_option (\<lambda>t. if routingRulesConfigured cfg then sort_key Priority (tenant_rules d (tn_ID t)) else []) (active_tenant d slug)"

text \<open>The priority column has 32 bits, so the conversion to the message loses nothing.\<close>

definition priorities_ok :: "database \<Rightarrow> bool" where
  "priorities_ok d \<longleftrightarrow> list_all (\<lambda>r. - (2 ^ 31) \<le> Priority (snd r) \<and> Priority (snd r) < 2 ^ 31) (db_rules d)"

lemma priorities_insert:
  assumes "rule_insert d tid r = Inr d'" and "priorities_ok d"
  shows "priorities_ok d'"
proof -
  have "- (2 ^ 31) \<le> Priority r \<and> Priority r < 2 ^ 31" using assms(1) by (auto simp: rule_insert_def split: if_splits)
  then show ?thesis using rule_insert_effect [OF assms(1)] assms(2) by (simp add: priorities_ok_def)
qed

lemma priorities_inserts: "insert_rules d tid rs = Inr d' \<Longrightarrow> priorities_ok d \<Longrightarrow> priorities_ok d'"
  by (induction d tid rs rule: insert_rules.induct) (auto split: sum.splits intro: priorities_insert)

lemma priorities_delete: "priorities_ok d \<Longrightarrow> priorities_ok (delete_rules d tid)"
  by (auto simp: priorities_ok_def delete_rules_def list_all_iff)

lemma priorities_step: "db_step cfg tid d d' \<Longrightarrow> priorities_ok d \<Longrightarrow> priorities_ok d'"
proof (induction rule: db_step.induct)
  case (rules_add env d tid r d')
  then show ?case using Rules_Add_effect priorities_insert by blast
next
  case (rules_replace env d tid rs d')
  then have "insert_rules (delete_rules d tid) tid rs = Inr d'" by (simp add: Rules_Replace_def split: if_splits)
  then show ?case using priorities_inserts priorities_delete rules_replace.prems by blast
next
  case (rules_delete env d tid d')
  then show ?case using priorities_delete by (auto simp: Rules_DeleteAll_def split: if_splits)
qed (auto simp: priorities_ok_def store_defs Let_def split: if_splits option.splits)

interpretation priority_column: database_invariant cfg "\<lambda>d. db_ok cfg d \<and> priorities_ok d" for cfg
proof
  show "db_ok cfg empty_database \<and> priorities_ok empty_database" using db_ok_empty by (simp add: priorities_ok_def empty_database_def)
  show "db_ok cfg d' \<and> priorities_ok d'" if "db_ok cfg d \<and> priorities_ok d" "db_step cfg tid d d'" for d tid d'
    using that db_ok_step priorities_step by blast
  show "api_keys_unique d" if "db_ok cfg d \<and> priorities_ok d" for d using that by (simp add: db_ok_def api_keys_ok_def)
qed

lemma to_int32_id: "- (2 ^ 31) \<le> n \<Longrightarrow> n < 2 ^ 31 \<Longrightarrow> to_int32 n = n"
  by (simp add: to_int32_def)

lemma routing_view_stored:
  assumes "prov_reachable cfg s"
  shows "routing_view cfg (ps_db s) slug = stored_routing_rules cfg (ps_db s) slug"
proof -
  have ok: "db_ok cfg (ps_db s)" "priorities_ok (ps_db s)" using priority_column.reachable_holds [OF assms] by blast+
  have wf: "list_all rule_wf (tenant_rules (ps_db s) tid)" for tid using ok(1) by (simp add: db_ok_def routing_ok_def rules_of_ok_def)
  have "convertRoutingRules rs = rs" if "set rs \<subseteq> set (tenant_rules (ps_db s) tid)" for rs tid
    unfolding convertRoutingRules_def
  proof (rule map_idI)
    fix r assume "r \<in> set rs"
    with that have "r \<in> set (tenant_rules (ps_db s) tid)" by blast
    then obtain x where "(x, r) \<in> set (db_rules (ps_db s))" by (auto simp: tenant_rules_def)
    then have "- (2 ^ 31) \<le> Priority r" "Priority r < 2 ^ 31" using ok(2) by (force simp: priorities_ok_def list_all_iff)+
    then show "r\<lparr>Priority := to_int32 (Priority r)\<rparr> = r" by (simp add: to_int32_id del: power_numeral)
  qed
  from this [of "sort_key Priority (tenant_rules (ps_db s) tid)" tid for tid]
  show ?thesis by (simp add: routing_view_def stored_routing_rules_def getAll_wf [OF wf] split: option.splits)
qed

section \<open>Deltas never take anything away\<close>

text \<open>
  A client whose accepted identifiers survive every message that is not a snapshot: nothing it accepts is
  ever withdrawn while the stream stays up.
\<close>

locale additive_client =
  fixes cfg :: prov_config and w :: "'m watch" and upd :: "'c \<Rightarrow> 'm \<Rightarrow> 'c" and delta :: "'m \<Rightarrow> bool" and accepts :: "'c \<Rightarrow> bool"
  assumes loads_delta: "w_load w env False d = Inr m \<Longrightarrow> delta m"
    and keeps: "accepts c \<Longrightarrow> delta m \<Longrightarrow> accepts (upd c m)"
begin

lemma step_keeps_accepted:
  assumes "feed_step cfg w upd False s s'" "accepts (fs_client s) \<and> list_all delta (fs_wire s)"
  shows "accepts (fs_client s') \<and> list_all delta (fs_wire s')"
  using assms
  by (auto elim!: feed_stepE simp: feed_close_def watch_event_def split: stream_phase.splits sum.splits if_splits
      intro: loads_delta keeps)

lemma run_keeps_accepted:
  "(feed_step cfg w upd False)\<^sup>*\<^sup>* s s' \<Longrightarrow> accepts (fs_client s) \<and> list_all delta (fs_wire s) \<Longrightarrow>
     accepts (fs_client s') \<and> list_all delta (fs_wire s')"
  by (induction rule: rtranclp_induct) (auto dest: step_keeps_accepted)

end

definition api_delta :: "api_keys_response \<Rightarrow> bool" where
  "api_delta m \<longleftrightarrow> \<not> KeysIsSnapshot m \<and> RemovedKeyIds m = [] \<and> list_all IsActive (ApiKeys m)"

interpretation api_additive: additive_client cfg WatchAPIKeys updateKeys api_delta "\<lambda>c. Lookup c k \<noteq> None" for cfg k
proof
  show "w_load WatchAPIKeys env False d = Inr m \<Longrightarrow> api_delta m" for env d m
    by (auto simp: WatchAPIKeys_def GetActiveAPIKeys_def api_delta_def convertAPIKeys_def list_all_iff split: sum.splits if_splits)
  show "Lookup c k \<noteq> None \<Longrightarrow> api_delta m \<Longrightarrow> Lookup (updateKeys c m) k \<noteq> None" for c m
    by (auto simp: Lookup_update api_delta_def list_all_iff split: option.splits dest!: find_in)
qed

definition key_delta :: "keys_response \<Rightarrow> bool" where
  "key_delta m \<longleftrightarrow> \<not> kr_IsSnapshot m \<and> kr_RemovedKeyIds m = [] \<and> list_all km_IsActive (kr_Keys m)"

definition key_known :: "string \<Rightarrow> key_registry \<Rightarrow> bool" where
  "key_known kid r \<longleftrightarrow> (\<exists>key. keysByID r kid = Some key \<and> rk_IsActive key)"

lemma insert_keys_known:
  "list_all km_IsActive kis \<Longrightarrow> key_known kid r \<Longrightarrow> key_known kid (insert_keys parse b kis r)"
  by (induction parse b kis r rule: insert_keys.induct)
    (auto simp: key_known_def protoToKeyInfo_def split: option.splits if_splits)

interpretation key_additive: additive_client cfg WatchKeys "updateKeys_registry parse" key_delta "key_known kid" for cfg parse kid
proof
  show "w_load WatchKeys env False d = Inr m \<Longrightarrow> key_delta m" for env d m
    by (auto simp: WatchKeys_def GetActiveKeys_def key_delta_def convertKeys_def list_all_iff split: sum.splits if_splits)
  show "key_known kid c \<Longrightarrow> key_delta m \<Longrightarrow> key_known kid (updateKeys_registry parse c m)" for c m
    by (auto simp: updateKeys_registry_def key_delta_def insert_keys_known)
qed

definition config_delta :: "tenant_config_response \<Rightarrow> bool" where
  "config_delta m \<longleftrightarrow> \<not> IsSnapshot m \<and> RemovedTenantSlugs m = []"

definition resolves :: "string \<Rightarrow> rules_provider \<Rightarrow> bool" where
  "resolves slug r \<longleftrightarrow> (\<exists>uuid. tenantUUIDBySlug r slug = Some uuid \<and> uuid \<noteq> [])"

lemma resolves_iff: "resolves slug r \<longleftrightarrow> is_ok (ResolveTenantUUID r slug)"
  by (auto simp: resolves_def ResolveTenantUUID_def split: option.splits)

lemma add_tenants_resolves: "resolves slug r \<Longrightarrow> resolves slug (fst (add_tenants tcs (r, b)))"
proof (induction tcs arbitrary: r b)
  case (Cons tc tcs)
  let ?r = "case ProtoChannelRules tc of None \<Rightarrow> r
      | Some cr \<Rightarrow> r\<lparr>channelRules := (channelRules r)(TenantSlug tc \<mapsto> protoToChannelRules cr)\<rparr>"
  have 1: "resolves slug ?r" using Cons.prems by (simp add: resolves_def split: option.splits)
  let ?r2 = "?r\<lparr>tenantUUIDBySlug := (tenantUUIDBySlug ?r)(TenantSlug tc \<mapsto> TenantUuid tc), slugByUUID := (slugByUUID ?r)(TenantUuid tc \<mapsto> TenantSlug tc)\<rparr>"
  have 2: "resolves slug ?r2" if "TenantUuid tc \<noteq> []" using 1 that by (auto simp: resolves_def)
  then have 3: "resolves slug (?r2\<lparr>tenantUUIDBySlug := (tenantUUIDBySlug ?r2)(PreviousSlug tc \<mapsto> TenantUuid tc)\<rparr>)" if "TenantUuid tc \<noteq> []"
    using that by (auto simp: resolves_def)
  show ?case unfolding add_tenants.simps Let_def using Cons.IH [OF 1] Cons.IH [OF 2] Cons.IH [OF 3] by simp
qed simp

interpretation config_additive: additive_client cfg "WatchTenantConfig fc" updateTenantConfigs config_delta
    "resolves slug" for cfg fc slug
proof
  show "w_load (WatchTenantConfig fc) env False d = Inr m \<Longrightarrow> config_delta m" for env d m
    by (auto simp: WatchTenantConfig_def config_delta_def split: sum.splits)
  show "resolves slug c \<Longrightarrow> config_delta m \<Longrightarrow> resolves slug (updateTenantConfigs c m)" for c m
    using add_tenants_resolves [of slug c "Tenants m" False] by (simp add: config_delta_def resolves_def update_slug)
qed

section \<open>Changes that are not announced\<close>

lemma events_frame [simp]:
  "ps_events (attempt r s) = ps_events s" "ps_events (auditLog env tid a s) = ps_events s" "ps_events (snd (admin env c s)) = ps_events s"
  by (auto simp: attempt_def auditLog_def admin_def split: sum.splits)

lemma admin_all_events [simp]: "ps_events (admin_all env cs s) = ps_events s"
  by (induction cs arbitrary: s) auto

lemma rename_topics_events: "rename_topics env ns slug specs s = (b, s') \<Longrightarrow> ps_events s' = ps_events s"
  by (induction env ns slug specs s rule: rename_topics.induct) (auto simp: admin_def split: if_splits)

lemma rename_saga_events:
  "ps_events (snd (rename_saga cfg env t newSlug s)) \<in> {ps_events s, ps_events s @ [TenantConfigChanged]}"
proof (cases "SetRenameState env (ps_db s) (tn_ID t) SlugRenameStatePending (tn_Slug t)")
  case (Inr d)
  obtain a s1 where a: "admin env (KCreateTopicACLs newSlug) (s\<lparr>ps_db := d\<rparr>) = (a, s1)" by fastforce
  obtain b s2 where top: "rename_topics env (TopicNamespace cfg) newSlug (infraTopicSpecs cfg) s1 = (b, s2)" by fastforce
  have 1: "ps_events s1 = ps_events s" using events_frame(3) [of env "KCreateTopicACLs newSlug" "s\<lparr>ps_db := d\<rparr>"] a by simp
  have 2: "ps_events s2 = ps_events s" using rename_topics_events [OF top] 1 by simp
  show ?thesis
    using Inr a top 1 2
    by (cases b; cases "UpdateSlug env (ps_db s2) (tn_ID t) newSlug")
      (auto simp: rename_saga_def Let_def rename_compensate_def rename_quota_def emitEvent_def simp del: admin_all.simps split: sum.splits)
qed (simp add: rename_saga_def)

lemma rename_events:
  "ps_events (snd (RenameTenant cfg env slug newSlug s)) \<in> {ps_events s, ps_events s @ [TenantConfigChanged]}"
proof -
  obtain r s1 where c: "rename_checks cfg env slug newSlug s = (r, s1)" by fastforce
  have "ps_events s1 = ps_events s" using c by (auto simp: rename_checks_def split: option.splits if_splits sum.splits)
  with c show ?thesis using rename_saga_events [of cfg env _ newSlug s1] by (auto simp: RenameTenant_def split: sum.splits)
qed

lemma rename_not_announced: "TopicsChanged \<notin> set (new_events s (snd (RenameTenant cfg env slug newSlug s)))"
  using rename_events [of cfg env slug newSlug s] by (auto simp: new_events_def)

lemma update_not_announced: "TopicsChanged \<notin> set (new_events s (snd (UpdateTenant env slug req s)))"
  by (auto simp: UpdateTenant_def new_events_def emitEvent_def Let_def split: sum.splits option.splits)

text \<open>Both change the topics the servers are to consume.\<close>

definition demo_feed_config :: feed_config where
  "demo_feed_config = \<lparr>fc_prov = demo_prov_config, maxTenantsFetchLimit = 100, slugRenameHoldPeriod = 50\<rparr>"

definition shared_topics_of :: "prov_state \<Rightarrow> string list" where
  "shared_topics_of s = (case loadTopicsUpdate demo_feed_config (demo_prov_env ''u9'' 9) ''prod'' (ps_db s) of
     Inl _ \<Rightarrow> [] | Inr m \<Rightarrow> tm_SharedTopics m)"

lemma rename_changes_topics:
  "shared_topics_of demo_prov = [''prod.globex.default'', ''prod.acme.default'', ''prod.acme.orders'']"
  "shared_topics_of (run_op demo_prov_config (demo_prov_env ''u7'' 7) (OpRenameTenant ''acme'' ''initech'') demo_prov) =
     [''prod.globex.default'', ''prod.initech.default'', ''prod.initech.orders'']"
  by code_simp+

section \<open>Reaching a state of the machine\<close>

lemma feed_after_ops:
  "feed_reachable cfg w upd c0 s \<Longrightarrow> \<exists>b. feed_reachable cfg w upd c0 (s\<lparr>fs_prov := run_ops cfg ops (fs_prov s), fs_bus := b\<rparr>)"
proof (induction ops arbitrary: s)
  case Nil
  then show ?case by (intro exI [of _ "fs_bus s"]) (simp add: run_ops_def)
next
  case (Cons o' ops)
  obtain env op where o': "o' = (env, op)" by (cases o')
  let ?p = "run_op cfg env op (fs_prov s)"
  have "feed_reachable cfg w upd c0 (s\<lparr>fs_prov := ?p, fs_bus := publish_all (new_events (fs_prov s) ?p) (fs_bus s)\<rparr>)"
    by (rule feed_next [OF Cons.prems feed_op]) (rule refl)
  from Cons.IH [OF this] show ?case by (simp add: run_ops_def o')
qed

lemma feed_after_snapshot:
  assumes "w_load w env True (ps_db (run_ops cfg ops init_prov)) = Inr m"
  shows "\<exists>s. feed_reachable cfg w upd c0 s \<and> fs_prov s = run_ops cfg ops init_prov \<and> fs_client s = upd c0 m"
proof -
  let ?i = "\<lparr>fs_prov = init_prov, fs_bus = New_bus, fs_phase = NotConnected, fs_wire = [], fs_client = c0\<rparr>"
  obtain b where r: "feed_reachable cfg w upd c0 (?i\<lparr>fs_prov := run_ops cfg ops init_prov, fs_bus := b\<rparr>)" (is "feed_reachable _ _ _ _ ?s")
    using feed_after_ops [OF feed_init, of cfg w upd c0 ops] by auto
  have o: "feed_step cfg w upd True ?s (?s\<lparr>fs_phase := SnapshotSent, fs_wire := [m]\<rparr>)"
    by (rule feed_open [where env = env]) (simp_all add: assms)
  have "feed_step cfg w upd False (?s\<lparr>fs_phase := SnapshotSent, fs_wire := [m]\<rparr>)
      (?s\<lparr>fs_phase := SnapshotSent, fs_wire := [m]\<rparr>\<lparr>fs_wire := [], fs_client := upd (fs_client (?s\<lparr>fs_phase := SnapshotSent, fs_wire := [m]\<rparr>)) m\<rparr>)"
    by (rule feed_recv) simp
  from feed_next [OF feed_next [OF r o] this] show ?thesis by (intro exI conjI; assumption?) simp_all
qed

text \<open>The one owner of a topic that a registry attributes.\<close>

lemma attributed_topic:
  assumes "feed_reachable cfg (WatchTopics fc ns) applyTopicUpdate empty_topic_registry s"
    and "topicTenants (fs_client s) topic = Some slug"
  shows "\<exists>suffix. topic = BuildTopicName ns slug suffix \<and> suffix \<noteq> DeadLetterTopicSuffix \<and>
     topic \<notin> set (createOnlyTopics (fs_client s)) \<and>
     (\<forall>slug' suffix'. CHR ''.'' \<notin> set slug' \<and> topic = BuildTopicName ns slug' suffix' \<longrightarrow> slug' = slug)"
proof -
  have "topic_registry_ok ns (fs_client s)" using topics_feed.reachable_sound [OF assms(1)] by blast
  then have "owned_topic ns (createOnlyTopics (fs_client s)) slug topic" using assms(2) by (auto simp: topic_registry_ok_def)
  then obtain suffix where x: "topic = BuildTopicName ns slug suffix" "suffix \<noteq> DeadLetterTopicSuffix"
      "topic \<notin> set (createOnlyTopics (fs_client s))" "slug_pattern slug" by (auto simp: owned_topic_def)
  have "slug' = slug" if "CHR ''.'' \<notin> set slug'" "topic = BuildTopicName ns slug' suffix'" for slug' suffix'
  proof -
    have "BuildTopicName ns slug' suffix' = BuildTopicName ns slug suffix" by (rule trans [OF that(2) [symmetric] x(1)])
    from BuildTopicName_inj [OF this that(1) slug_no_dot [OF x(4)]] show ?thesis ..
  qed
  then show ?thesis using x by blast
qed

section \<open>Properties\<close>

text \<open>C10: Whatever operations ran, whichever reads failed and however often the stream broke, every topic
  that a server consumes belongs to exactly one tenant, which is the one its registry attributes the topic's
  messages to; it is never a dead-letter topic and never an egress topic that is only created.\<close>

theorem topic_attribution_sound:
  assumes "feed_reachable cfg (WatchTopics fc ns) applyTopicUpdate empty_topic_registry s"
    and "topic \<in> consumed_topics (fs_client s)"
  shows "\<exists>slug suffix. topicTenants (fs_client s) topic = Some slug \<and> topic = BuildTopicName ns slug suffix \<and>
     suffix \<noteq> DeadLetterTopicSuffix \<and> topic \<notin> set (createOnlyTopics (fs_client s)) \<and>
     (\<forall>slug' suffix'. CHR ''.'' \<notin> set slug' \<and> topic = BuildTopicName ns slug' suffix' \<longrightarrow> slug' = slug)"
proof -
  have "topic_registry_ok ns (fs_client s)" using topics_feed.reachable_sound [OF assms(1)] by blast
  then obtain slug where slug: "topicTenants (fs_client s) topic = Some slug"
    using assms(2) by (auto simp: topic_registry_ok_def)
  from attributed_topic [OF assms(1) slug] slug show ?thesis by blast
qed

definition demo_topics :: topics_msg where
  "demo_topics = (case w_load (WatchTopics demo_feed_config ''prod'') (demo_prov_env ''u9'' 9) True (ps_db demo_prov) of
     Inl _ \<Rightarrow> empty_topics | Inr m \<Rightarrow> m)"

theorem topic_attribution_sound_witness:
  "\<exists>slug suffix. topicTenants (applyTopicUpdate empty_topic_registry demo_topics) ''prod.acme.orders'' = Some slug \<and>
     ''prod.acme.orders'' = BuildTopicName ''prod'' slug suffix \<and> suffix \<noteq> DeadLetterTopicSuffix"
proof -
  have "is_ok (w_load (WatchTopics demo_feed_config ''prod'') (demo_prov_env ''u9'' 9) True (ps_db demo_prov))" by code_simp
  then have "w_load (WatchTopics demo_feed_config ''prod'') (demo_prov_env ''u9'' 9) True (ps_db demo_prov) = Inr demo_topics"
    by (auto simp: demo_topics_def is_ok_iff)
  from feed_after_snapshot [OF this [unfolded demo_prov_def], of applyTopicUpdate empty_topic_registry]
  obtain s where s: "feed_reachable demo_prov_config (WatchTopics demo_feed_config ''prod'') applyTopicUpdate empty_topic_registry s"
      "fs_client s = applyTopicUpdate empty_topic_registry demo_topics" by blast
  have "List.member (tm_SharedTopics demo_topics) ''prod.acme.orders''" by code_simp
  then have "''prod.acme.orders'' \<in> consumed_topics (fs_client s)" by (simp add: s(2) consumed_topics_def applyTopicUpdate_def)
  from topic_attribution_sound [OF s(1) this] show ?thesis unfolding s(2) by blast
qed

text \<open>C11: A snapshot refines the database: when all reads of the provisioning service succeed and the tenants are no more than the fetch limit, then whatever a
  gateway had cached, after applying a snapshot of a reachable database the channel rules it answers with are, for every slug, those stored for the active
  tenant with that slug, the routing rules are that tenant's rows in the order of their priorities, and there are none for any other slug.\<close>

theorem gateway_snapshot_refines:
  assumes "prov_reachable (fc_prov fc) s" and "reads_ok env"
    and "int (length (db_tenants (ps_db s))) \<le> maxTenantsFetchLimit fc" and "0 < maxTenantsFetchLimit fc"
  shows "\<exists>m. w_load (WatchTenantConfig fc) env True (ps_db s) = Inr m \<and>
     GetChannelRules (updateTenantConfigs c m) slug = channel_rules_view (fc_prov fc) (ps_db s) slug \<and>
     GetRoutingSnapshot (updateTenantConfigs c m) slug = stored_routing_rules (fc_prov fc) (ps_db s) slug"
  unfolding routing_view_stored [OF assms(1), symmetric] by (rule config_snapshot_view [OF reachable_ok [OF assms(1)] refl assms(2-4)])

theorem gateway_snapshot_refines_witness:
  "\<exists>m. w_load (WatchTenantConfig demo_feed_config) (demo_prov_env ''u9'' 9) True (ps_db demo_prov) = Inr m \<and>
     GetChannelRules (updateTenantConfigs NewStreamChannelRulesProvider m) ''acme'' =
       channel_rules_view (fc_prov demo_feed_config) (ps_db demo_prov) ''acme'' \<and>
     GetRoutingSnapshot (updateTenantConfigs NewStreamChannelRulesProvider m) ''acme'' =
       stored_routing_rules (fc_prov demo_feed_config) (ps_db demo_prov) ''acme''"
proof (rule gateway_snapshot_refines)
  show "prov_reachable (fc_prov demo_feed_config) demo_prov" using demo_prov_reachable by (simp add: demo_feed_config_def)
  show "reads_ok (demo_prov_env ''u9'' 9)" by (simp add: reads_ok_def demo_prov_env_def)
  show "int (length (db_tenants (ps_db demo_prov))) \<le> maxTenantsFetchLimit demo_feed_config"
    "0 < maxTenantsFetchLimit demo_feed_config" by code_simp+
qed

text \<open>The API keys a gateway accepts after a message: a snapshot makes them exactly the active keys of
  the database; a delta adds the active keys and keeps everything the gateway accepted before.\<close>

theorem api_key_feed_exact:
  assumes "prov_reachable cfg s" and "w_load WatchAPIKeys env snap (ps_db s) = Inr m"
  shows "Lookup (updateKeys c m) k =
     (case api_key_view (ps_db s) k of Some i \<Rightarrow> Some i | None \<Rightarrow> if snap then None else Lookup c k)"
  by (rule api_update_view [OF reachable_ok [OF assms(1)] assms(2)])

text \<open>C40: A revoked API key stays accepted: as long as a gateway's stream stays up, no operation of the
  service and no message withdraws a key that the gateway accepts.\<close>

theorem revocation_not_streamed:
  assumes "(feed_step cfg WatchAPIKeys updateKeys False)\<^sup>*\<^sup>* s s'" and "list_all api_delta (fs_wire s)"
    and "Lookup (fs_client s) k \<noteq> None"
  shows "Lookup (fs_client s') k \<noteq> None"
  using api_additive.run_keeps_accepted [OF assms(1)] assms(2,3) by blast

definition demo_key_snapshot :: api_keys_response where
  "demo_key_snapshot = (case w_load WatchAPIKeys (demo_prov_env ''u9'' 9) True (ps_db demo_prov) of
     Inl _ \<Rightarrow> \<lparr>KeysIsSnapshot = True, RemovedKeyIds = [], ApiKeys = []\<rparr> | Inr m \<Rightarrow> m)"

lemma demo_key_load: "w_load WatchAPIKeys (demo_prov_env ''u9'' 9) True (ps_db demo_prov) = Inr demo_key_snapshot"
proof -
  have "is_ok (w_load WatchAPIKeys (demo_prov_env ''u9'' 9) True (ps_db demo_prov))" by code_simp
  then show ?thesis by (auto simp: demo_key_snapshot_def is_ok_iff)
qed

theorem api_key_feed_exact_witness:
  "Lookup (updateKeys Map.empty demo_key_snapshot) ''pk_live_u6'' =
     (case api_key_view (ps_db demo_prov) ''pk_live_u6'' of Some i \<Rightarrow> Some i | None \<Rightarrow> if True then None else Lookup Map.empty ''pk_live_u6'')
   \<and> api_key_view (ps_db demo_prov) ''pk_live_u6'' = Some \<lparr>KeyID = ''pk_live_u6'', KeyTenantID = ''u2'', KeyName = ''web'', IsActive = True\<rparr>"
  using api_key_feed_exact [OF demo_prov_reachable demo_key_load] by (rule conjI) code_simp

text \<open>The stream of a gateway that has the snapshot, and the revocation of the key it accepts.\<close>

definition demo_feed :: "(api_keys_response, string \<rightharpoonup> api_key_info) feed_state" where
  "demo_feed = \<lparr>fs_prov = demo_prov, fs_bus = snd (Subscribe_bus New_bus), fs_phase = Watching 0, fs_wire = [],
     fs_client = updateKeys Map.empty demo_key_snapshot\<rparr>"

definition demo_revoked :: prov_state where
  "demo_revoked = run_op demo_prov_config (demo_prov_env ''u7'' 7) (OpRevokeAPIKey ''globex'' ''pk_live_u6'') demo_prov"

theorem revocation_not_streamed_witness:
  "\<exists>s'. (feed_step demo_prov_config WatchAPIKeys updateKeys False)\<^sup>*\<^sup>* demo_feed s' \<and>
     fs_prov s' = demo_revoked \<and> api_key_view (ps_db demo_revoked) ''pk_live_u6'' = None \<and>
     Lookup (fs_client s') ''pk_live_u6'' \<noteq> None"
proof -
  let ?s = "demo_feed\<lparr>fs_prov := demo_revoked, fs_bus := publish_all (new_events (fs_prov demo_feed) demo_revoked) (fs_bus demo_feed)\<rparr>"
  have "feed_step demo_prov_config WatchAPIKeys updateKeys False demo_feed ?s"
    by (rule feed_op [where env = "demo_prov_env ''u7'' 7" and op = "OpRevokeAPIKey ''globex'' ''pk_live_u6''"])
      (simp add: demo_revoked_def demo_feed_def)
  then have r: "(feed_step demo_prov_config WatchAPIKeys updateKeys False)\<^sup>*\<^sup>* demo_feed ?s" by (rule r_into_rtranclp)
  have "\<not> Option.is_none (Lookup (updateKeys Map.empty demo_key_snapshot) ''pk_live_u6'')" by code_simp
  then have k: "Lookup (fs_client demo_feed) ''pk_live_u6'' \<noteq> None" by (auto simp: demo_feed_def Option.is_none_def)
  have "Option.is_none (api_key_view (ps_db demo_revoked) ''pk_live_u6'')" by code_simp
  then have v: "api_key_view (ps_db demo_revoked) ''pk_live_u6'' = None" by (simp add: Option.is_none_def)
  have w: "list_all api_delta (fs_wire demo_feed)" by (simp add: demo_feed_def)
  show ?thesis using r v revocation_not_streamed [OF r w k] by (intro exI [of _ ?s]) simp
qed

end
