(* ===== verification/ConsumerSafety.thy ===== *)
theory ConsumerSafety
  imports KafkaReplay FeedSafety
begin

text \<open>
  What the consume loops guarantee: at-least-once delivery of the unbatched loop and, as long as nothing is
  deliberately dropped, of the batched loop; the counterexample a deliberate drop gives; tenant isolation of
  everything broadcast, composed with the topic registry that the provisioning service feeds; and the bounded
  backoff of the delivery retry.
\<close>

section \<open>Executing the batched loop\<close>

datatype loop_action = APoll "kafka_record list" | APush | ARecord | ATimer | ADone

fun do_action :: "kafka_consumer \<Rightarrow> kafka_env \<Rightarrow> loop_action \<Rightarrow> batched_loop \<Rightarrow> batched_loop option" where
  "do_action c e (APoll rs) s =
     (if ba_polling s \<and> ba_pushing s = [] \<and> in_order (ba_fetched s @ rs)
      then Some (s\<lparr>ba_pushing := rs, ba_fetched := ba_fetched s @ rs\<rparr>) else None)"
| "do_action c e APush s =
     (case ba_pushing s of
        r # rs \<Rightarrow> if ba_polling s \<and> int (length (ba_recordCh s)) < kc_batchSize c
                  then Some (s\<lparr>ba_pushing := rs, ba_recordCh := ba_recordCh s @ [r]\<rparr>) else None
      | [] \<Rightarrow> None)"
| "do_action c e ARecord s =
     (case ba_recordCh s of
        r # rest \<Rightarrow> if \<not> ba_running s then None
                    else (case on_record c e (ba_batch s) r (ba_state s) of
                            None \<Rightarrow> None
                          | Some (batch, go, k) \<Rightarrow> Some (s\<lparr>ba_recordCh := rest, ba_batch := batch, ba_state := k, ba_running := go\<rparr>))
      | [] \<Rightarrow> None)"
| "do_action c e ATimer s =
     (if \<not> ba_running s then None
      else (case flushBatch c e (ba_batch s) (ba_state s) of
              None \<Rightarrow> None | Some (ok, k) \<Rightarrow> Some (s\<lparr>ba_batch := [], ba_state := k, ba_running := ok\<rparr>)))"
| "do_action c e ADone s =
     (if \<not> ba_running s \<or> \<not> ev_done e (kf_tick (ba_state s)) then None
      else (case flushBatch c e (ba_batch s) (ba_state s) of
              None \<Rightarrow> None | Some (ok, k) \<Rightarrow> Some (s\<lparr>ba_batch := [], ba_state := k, ba_running := False\<rparr>)))"

fun do_actions :: "kafka_consumer \<Rightarrow> kafka_env \<Rightarrow> loop_action list \<Rightarrow> batched_loop \<Rightarrow> batched_loop option" where
  "do_actions c e [] s = Some s"
| "do_actions c e (a # as) s = (case do_action c e a s of None \<Rightarrow> None | Some s \<Rightarrow> do_actions c e as s)"

lemma do_action_step: "do_action c e a s = Some s' \<Longrightarrow> batched_step c e s s'"
proof (cases a)
  case (APoll rs)
  assume "do_action c e a s = Some s'"
  then have g: "ba_polling s" "ba_pushing s = []" "in_order (ba_fetched s @ rs)"
      "s' = s\<lparr>ba_pushing := rs, ba_fetched := ba_fetched s @ rs\<rparr>" using APoll by (auto split: if_splits)
  have "handleFetchErrors (\<lambda>_ u. u) [] (ba_state s) () = ([], ba_state s, ())" by (simp add: handleFetchErrors_def)
  from batched_step.ba_poll [OF g(1-3) this] show ?thesis using g(4) by simp
qed (auto split: list.splits if_splits option.splits intro: batched_step.intros)

lemma do_actions_reachable:
  "do_actions c e as s = Some s' \<Longrightarrow> batched_reachable c e s \<Longrightarrow> batched_reachable c e s'"
proof (induction as arbitrary: s)
  case (Cons a as)
  then obtain t where "do_action c e a s = Some t" "do_actions c e as t = Some s'" by (auto split: option.splits)
  then show ?case using Cons do_action_step unfolding batched_reachable_def by (metis rtranclp.rtrancl_into_rtrancl)
qed simp

lemma do_actions_init: "do_actions c e as batched_init = Some s \<Longrightarrow> batched_reachable c e s"
  by (erule do_actions_reachable) (simp add: batched_reachable_def)

definition run_loop :: "kafka_consumer \<Rightarrow> kafka_env \<Rightarrow> loop_action list \<Rightarrow> batched_loop" where
  "run_loop c e as = (case do_actions c e as batched_init of Some s \<Rightarrow> s | None \<Rightarrow> batched_init)"

lemma run_loop_reachable: "batched_reachable c e (run_loop c e as)"
  using do_actions_init [of c e as] by (auto simp: run_loop_def batched_reachable_def split: option.split)

section \<open>Sample runs\<close>

text \<open>A bus that accepts from tick \<open>up\<close> on, and a context cancelled from tick \<open>stop\<close> on.\<close>

definition demo_kafka_env :: "nat \<Rightarrow> nat \<Rightarrow> kafka_env" where
  "demo_kafka_env up stop = \<lparr>ev_allow = (\<lambda>_. (True, 0)), ev_pause = (\<lambda>_. False), ev_done = (\<lambda>t. stop \<le> t), ev_err = (\<lambda>t. stop \<le> t),
     ev_broadcast = (\<lambda>t _ _ _. up \<le> t), ev_resolver = (\<lambda>_. demo_resolver), ev_room = (\<lambda>_. True)\<rparr>"

lemma demo_context_sound: "context_sound (demo_kafka_env up stop)"
  by (auto simp: context_sound_def demo_kafka_env_def)

definition demo_delivered :: batched_loop where
  "demo_delivered = run_loop demo_consumer (demo_kafka_env 0 100)
     [APoll [demo_record 0 ''acme.BTC.trade'', demo_record 1 ''acme.ETH.trade''], APush, APush, ARecord, ARecord, ATimer]"

definition demo_lost :: batched_loop where
  "demo_lost = run_loop demo_consumer (demo_kafka_env 1000 6)
     [APoll [demo_record 0 ''acme.BTC.trade'', demo_record 1 ''evil.BTC.trade''], APush, APush, ARecord, ARecord, ADone]"

definition demo_unbatched :: unbatched_loop where
  "demo_unbatched = (case consumeFetchRecords demo_consumer (demo_kafka_env 0 100)
       [demo_record 0 ''acme.BTC.trade'', demo_record 1 ''evil.BTC.trade''] init_kafka of
     Some (aborted, k) \<Rightarrow> \<lparr>un_state = k, un_fetched = [demo_record 0 ''acme.BTC.trade'', demo_record 1 ''evil.BTC.trade''], un_running = (\<not> aborted)\<rparr>
   | None \<Rightarrow> \<lparr>un_state = init_kafka, un_fetched = [], un_running = True\<rparr>)"

lemma demo_delivered_reachable: "batched_reachable demo_consumer (demo_kafka_env 0 100) demo_delivered"
  unfolding demo_delivered_def by (rule run_loop_reachable)

lemma demo_lost_reachable: "batched_reachable demo_consumer (demo_kafka_env 1000 6) demo_lost"
  unfolding demo_lost_def by (rule run_loop_reachable)

lemma demo_unbatched_reachable: "unbatched_reachable demo_consumer (demo_kafka_env 0 100) demo_unbatched"
proof -
  let ?rs = "[demo_record 0 ''acme.BTC.trade'', demo_record 1 ''evil.BTC.trade'']"
  let ?s = "\<lparr>un_state = init_kafka, un_fetched = [], un_running = True\<rparr>"
  have "\<not> Option.is_none (consumeFetchRecords demo_consumer (demo_kafka_env 0 100) ?rs init_kafka)" by code_simp
  then obtain a k where k: "consumeFetchRecords demo_consumer (demo_kafka_env 0 100) ?rs init_kafka = Some (a, k)"
    by (auto simp: Option.is_none_def)
  have "unbatched_step demo_consumer (demo_kafka_env 0 100) ?s \<lparr>un_state = k, un_fetched = un_fetched ?s @ ?rs, un_running = (\<not> a)\<rparr>"
  proof (rule unbatched_step.un_poll)
    show "in_order (un_fetched ?s @ ?rs)" by (simp add: in_order_def demo_record_def)
    show "handleFetchErrors (\<lambda>_ u. u) [] (un_state ?s) () = ([], init_kafka, ())" by (simp add: handleFetchErrors_def)
    show "consumeFetchRecords demo_consumer (demo_kafka_env 0 100) ?rs init_kafka = Some (a, k)" by (rule k)
  qed simp
  then show ?thesis unfolding unbatched_reachable_def demo_unbatched_def k by (auto intro: r_into_rtranclp)
qed

section \<open>Properties\<close>

text \<open>C12: The unbatched loop delivers at least once: at every moment of a session, a fetched record that the
  cumulative marks would commit was taken by the broadcast callback, was deliberately dropped (to the dead-letter
  queue), or was dropped because the registry did not know its topic; in particular a record abandoned in a wait when
  the context was cancelled is never committed past.\<close>

theorem unbatched_at_least_once:
  assumes "unbatched_reachable c e s" and "r \<in> set (un_fetched s)" and "commit_covers (kf_marked (un_state s)) r"
  shows "settled (un_state s) r"
proof -
  obtain d rest where i: "in_order (un_fetched s)" "un_fetched s = d @ rest" "\<forall>r\<in>set d. settled (un_state s) r"
      "set (kf_marked (un_state s)) \<subseteq> set d"
    using unbatched_reachable_inv [OF assms(1)] unfolding unbatched_inv_def by blast
  then show ?thesis using in_order_commit [of d rest "kf_marked (un_state s)" r] assms(2,3) by simp
qed

theorem unbatched_at_least_once_witness:
  "settled (un_state demo_unbatched) (demo_record 0 ''acme.BTC.trade'')"
proof (rule unbatched_at_least_once [OF demo_unbatched_reachable])
  show "demo_record 0 ''acme.BTC.trade'' \<in> set (un_fetched demo_unbatched)" by code_simp
  show "commit_covers (kf_marked (un_state demo_unbatched)) (demo_record 0 ''acme.BTC.trade'')" by code_simp
qed

text \<open>C13: The batched loop delivers at least once while no record has been deliberately dropped: whatever the
  interleaving of poller, timer, channel and cancellation, a fetched record that the marks would commit was taken by the
  callback or dropped on a registry miss.\<close>

theorem batched_at_least_once:
  assumes "batched_reachable c e s" and "context_sound e" and "kf_dropped (ba_state s) = []"
    and "r \<in> set (ba_fetched s)" and "commit_covers (kf_marked (ba_state s)) r"
  shows "settled (ba_state s) r"
proof -
  have inv: "batched_inv s" by (rule batched_reachable_inv [OF assms(1,2)])
  then obtain q where q: "in_order (ba_fetched s)" "ba_fetched s = q @ ba_recordCh s @ ba_pushing s"
      "loop_ok (ba_state s) (ba_running s) (ba_batch s) q" using assms(3) by (auto simp: batched_inv_def)
  obtain d and cl :: "(kafka_record \<times> bool) list" where d: "q = d @ map fst cl" "stopped_ok (ba_state s) d"
    using q(3) session_stopped unfolding loop_ok_def by (metis (full_types))
  have "r \<in> set d" using in_order_commit [of d "map fst cl @ ba_recordCh s @ ba_pushing s" "kf_marked (ba_state s)" r] q(1,2) d assms(4,5)
    by (simp add: stopped_ok_def)
  then show ?thesis using d(2) by (simp add: stopped_ok_def)
qed

theorem batched_at_least_once_witness:
  "settled (ba_state demo_delivered) (demo_record 1 ''acme.ETH.trade'')"
proof (rule batched_at_least_once [OF demo_delivered_reachable demo_context_sound])
  show "kf_dropped (ba_state demo_delivered) = []" by code_simp
  show "demo_record 1 ''acme.ETH.trade'' \<in> set (ba_fetched demo_delivered)" by code_simp
  show "commit_covers (kf_marked (ba_state demo_delivered)) (demo_record 1 ''acme.ETH.trade'')" by code_simp
qed

text \<open>C14: A deliberate drop breaks at-least-once delivery in the batched loop: the drop is marked at once, while
  earlier records of the partition still wait in the batch, so a session exists that ends with a record that was never
  broadcast, dropped or missed, and that the marks commit past.\<close>

theorem drop_mark_loses_pending:
  "\<exists>c e s r. NewConsumer True True demo_consumer_config = Inr c \<and> context_sound e \<and> batched_reachable c e s \<and> \<not> ba_running s \<and>
     r \<in> set (ba_fetched s) \<and> commit_covers (kf_marked (ba_state s)) r \<and> \<not> settled (ba_state s) r"
proof (intro exI conjI)
  show "NewConsumer True True demo_consumer_config = Inr demo_consumer" by code_simp
  show "context_sound (demo_kafka_env 1000 6)" by (rule demo_context_sound)
  show "batched_reachable demo_consumer (demo_kafka_env 1000 6) demo_lost" by (rule demo_lost_reachable)
  show "\<not> ba_running demo_lost" by code_simp
  show "demo_record 0 ''acme.BTC.trade'' \<in> set (ba_fetched demo_lost)" by code_simp
  show "commit_covers (kf_marked (ba_state demo_lost)) (demo_record 0 ''acme.BTC.trade'')" by code_simp
  show "\<not> settled (ba_state demo_lost) (demo_record 0 ''acme.BTC.trade'')" by code_simp
qed

text \<open>C15: Everything the consumer broadcasts stays with its tenant: when the resolver answers from the topic
  registry that the provisioning service feeds, a record is only ever broadcast on channels of the one tenant whose name
  its topic carries, and never from a dead-letter topic.\<close>

theorem consumer_isolation:
  assumes "batched_reachable c e s \<and> k = ba_state s \<or> unbatched_reachable c e u \<and> k = un_state u"
    and "\<And>t. \<exists>f. feed_reachable cfg (WatchTopics fc ns) applyTopicUpdate empty_topic_registry f \<and> ev_resolver e t = topicTenants (fs_client f)"
    and "(ch, r) \<in> set (kf_sent k)"
  shows "\<exists>slug suffix. rec_Topic r = BuildTopicName ns slug suffix \<and> suffix \<noteq> DeadLetterTopicSuffix \<and> HasPrefix ch (slug @ ''.'') \<and>
     (\<forall>slug' suffix'. CHR ''.'' \<notin> set slug' \<and> rec_Topic r = BuildTopicName ns slug' suffix' \<longrightarrow> slug' = slug)"
proof -
  have "sent_ok c e k" using assms(1) batched_reachable_sent unbatched_reachable_sent by blast
  then have "accepted_channel c e r ch" using assms(3) by (force simp: sent_ok_def)
  then obtain t tn where t: "ev_resolver e t (rec_Topic r) = Some tn" "HasPrefix ch (tn @ ''.'')" using accepted_prefix by blast
  obtain f where "feed_reachable cfg (WatchTopics fc ns) applyTopicUpdate empty_topic_registry f" "ev_resolver e t = topicTenants (fs_client f)"
    using assms(2) by blast
  with attributed_topic [OF this(1), of "rec_Topic r" tn] t show ?thesis by auto
qed


definition demo_fed_env :: kafka_env where
  "demo_fed_env = (demo_kafka_env 0 100)\<lparr>ev_resolver := (\<lambda>_. topicTenants (applyTopicUpdate empty_topic_registry demo_topics))\<rparr>"

definition demo_order :: kafka_record where
  "demo_order = (demo_record 0 ''acme.BTC.trade'')\<lparr>rec_Topic := ''prod.acme.orders''\<rparr>"

definition demo_fed :: batched_loop where
  "demo_fed = run_loop demo_consumer demo_fed_env [APoll [demo_order], APush, ARecord, ATimer]"

theorem consumer_isolation_witness:
  "\<exists>slug suffix. rec_Topic demo_order = BuildTopicName ''prod'' slug suffix \<and> suffix \<noteq> DeadLetterTopicSuffix \<and>
     HasPrefix ''acme.BTC.trade'' (slug @ ''.'')"
proof -
  have ok: "is_ok (w_load (WatchTopics demo_feed_config ''prod'') (demo_prov_env ''u9'' 9) True (ps_db demo_prov))" by code_simp
  then have "w_load (WatchTopics demo_feed_config ''prod'') (demo_prov_env ''u9'' 9) True (ps_db demo_prov) = Inr demo_topics"
    by (auto simp: demo_topics_def is_ok_iff)
  from feed_after_snapshot [OF this [unfolded demo_prov_def], of applyTopicUpdate empty_topic_registry]
  have f: "\<exists>f. feed_reachable demo_prov_config (WatchTopics demo_feed_config ''prod'') applyTopicUpdate empty_topic_registry f \<and>
      ev_resolver demo_fed_env t = topicTenants (fs_client f)" for t
    by (auto simp: demo_fed_env_def)
  have r: "batched_reachable demo_consumer demo_fed_env demo_fed \<and> ba_state demo_fed = ba_state demo_fed \<or>
      unbatched_reachable demo_consumer demo_fed_env u \<and> ba_state demo_fed = un_state u" for u
    by (simp add: demo_fed_def run_loop_reachable)
  have "List.member (kf_sent (ba_state demo_fed)) (''acme.BTC.trade'', demo_order)" by code_simp
  then have "(''acme.BTC.trade'', demo_order) \<in> set (kf_sent (ba_state demo_fed))" by simp
  from consumer_isolation [OF r f this] show ?thesis by blast
qed

text \<open>C18: The delivery retry neither gives up nor loses: when the bus is down for \<open>n\<close> attempts and then accepts,
  without a cancellation in between, the record is delivered once, after waits that double from 100 ms and never exceed
  5 s, and no other part of the state changes.\<close>

theorem retry_delivers:
  assumes "NewConsumer True True cfg = Inr c"
    and "\<And>t. kf_tick s \<le> t \<Longrightarrow> t < kf_tick s + n \<Longrightarrow> \<not> ev_broadcast e t subject message r \<and> \<not> ev_done e t"
    and "ev_broadcast e (kf_tick s + n) subject message r"
  shows "broadcastWithRetry c e subject message r s =
       Some (True, s\<lparr>kf_tick := Suc (kf_tick s + n), broadcastRetries := broadcastRetries s + n, kf_sent := kf_sent s @ [(subject, r)]\<rparr>) \<and>
     retry_loop c e subject message r (kf_tick s) (kc_broadcastRetryInitial c) [] =
       Some (True, Suc (kf_tick s + n), map (\<lambda>i. min (100000000 * 2 ^ i) 5000000000) [0..<n])"
proof -
  have c: "kc_broadcastRetryInitial c = 100000000" "kc_broadcastRetryMax c = 5000000000"
    using assms(1) by (auto simp: NewConsumer_def broadcastRetryInitialBackoff_def broadcastRetryMaxBackoff_def split: if_splits option.splits)
  have "retry_loop c e subject message r (kf_tick s) 100000000 [] =
      Some (True, Suc (kf_tick s + n), [] @ map (\<lambda>i. min (100000000 * 2 ^ i) 5000000000) [0..<n])"
    by (rule retry_loop_waits) (use assms(2,3) c in auto)
  then show ?thesis using c by (simp add: broadcastWithRetry_def)
qed

theorem retry_delivers_witness:
  "broadcastWithRetry demo_consumer (demo_kafka_env 3 100) ''acme.BTC.trade'' None demo_order init_kafka =
     Some (True, init_kafka\<lparr>kf_tick := 4, broadcastRetries := 3, kf_sent := [(''acme.BTC.trade'', demo_order)]\<rparr>)"
proof -
  have c: "NewConsumer True True demo_consumer_config = Inr demo_consumer" by code_simp
  have "broadcastWithRetry demo_consumer (demo_kafka_env 3 100) ''acme.BTC.trade'' None demo_order init_kafka =
      Some (True, init_kafka\<lparr>kf_tick := Suc (kf_tick init_kafka + 3), broadcastRetries := broadcastRetries init_kafka + 3,
        kf_sent := kf_sent init_kafka @ [(''acme.BTC.trade'', demo_order)]\<rparr>)"
    by (rule retry_delivers [OF c, THEN conjunct1]) (auto simp: demo_kafka_env_def init_kafka_def)
  then show ?thesis by (simp add: init_kafka_def)
qed

end
