(* ===== verification/PublishSafety.thy ===== *)
theory PublishSafety
  imports KafkaProducer ConsumerSafety
begin

text \<open>
  What publishing through Kafka guarantees. From end to end: a published record lies on a topic that the servers
  consume for the publisher's tenant, the consumer reads the channel back from it, and the replay looks for it on
  the same topic, while its egress copies lie on topics nobody consumes. The pools: every egress copy is accounted
  for under every interleaving of publishers, workers and shutdown. The breaker: only failures of the broker count.
\<close>

section \<open>Resolution\<close>

lemma resolve_channel_topic:
  "resolve_rules ns tn ch rules = Some plan \<Longrightarrow> channel_topic_rules ns tn ch rules = Some (pl_ingressTopic plan)"
  by (induction rules) (auto simp: Let_def split: sum.splits if_splits)

lemma egress_targets_set:
  "topic \<in> set (egress_targets ns tn es seen) \<Longrightarrow> \<exists>e\<in>set es. e \<noteq> [] \<and> topic = BuildTopicName ns tn e"
  by (induction es arbitrary: seen) (auto simp: Let_def split: if_splits)

lemma resolve_rules_rule:
  "resolve_rules ns tn ch rules = Some plan \<Longrightarrow>
     \<exists>rule\<in>set rules. IngressTopic rule \<noteq> [] \<and> pl_ingressTopic plan = BuildTopicName ns tn (IngressTopic rule) \<and>
       (\<forall>topic\<in>set (pl_egressTopics plan). \<exists>e\<in>set (EgressTopics rule). e \<noteq> [] \<and> topic = BuildTopicName ns tn e)"
  by (induction rules) (auto simp: Let_def egress_targets_set split: sum.splits if_splits)

lemma ExtractTenant_take:
  "ExtractTenant ch = Some tn \<longleftrightarrow> IndexByte ch (CHR ''.'') > 0 \<and> take (nat (IndexByte ch (CHR ''.''))) ch = tn \<and> tn \<noteq> []"
  by (auto simp: ExtractTenant_def Let_def)

lemma extract_published:
  assumes "kc_tenantResolver c" and "resolver (rec_Topic r) = Some tn" and "findHeader r HeaderChannel = Some ch" and "ExtractTenant ch = Some tn"
  shows "extractChannel_kafka c resolver r = (ch, [], tn)"
  using assms by (auto simp: extractChannel_kafka_def Let_def ExtractTenant_take)

lemma base_record_channel: "findHeader ((base_record v n ch d)\<lparr>rec_Topic := t, rec_Partition := p, rec_Offset := off\<rparr>) HeaderChannel = Some ch"
  by (simp add: findHeader_def base_record_def HeaderClientID_def HeaderSource_def HeaderTimestamp_def HeaderChannel_def)

text \<open>The topics message of a database, for an active tenant and its stored rules.\<close>

lemma topics_of_rules:
  assumes ok: "db_ok cfg d" and fc: "fc_prov fc = cfg" "routingRulesConfigured cfg" and rd: "reads_ok env"
    and lim: "int (length (db_tenants d)) \<le> maxTenantsFetchLimit fc" "0 < maxTenantsFetchLimit fc"
    and t: "t \<in> set (db_tenants d)" "tn_Status t = StatusActive"
    and m: "w_load (WatchTopics fc ns) env True d = Inr m" and r: "rule \<in> set (getAll d (tn_ID t))"
  shows "IngressTopic rule \<noteq> [] \<Longrightarrow> (tn_Slug t, BuildTopicName ns (tn_Slug t) (IngressTopic rule)) \<in> message_topics m"
    and "e \<in> set (EgressTopics rule) \<Longrightarrow> e \<noteq> [] \<Longrightarrow> BuildTopicName ns (tn_Slug t) e \<in> set (tm_CreateOnlyTopics m)"
proof -
  obtain ts n where ts: "Tenant_List env d None (maxTenantsFetchLimit fc) 0 = Inr (ts, n)"
    "set ts = {t \<in> set (db_tenants d). tn_Status t \<noteq> StatusDeleted}" by (rule Tenant_List_all [OF ok rd lim])
  let ?m = "fold (add_topics fc env ns d) ts empty_topics"
  have mm: "m = ?m\<lparr>tm_IsSnapshot := True\<rparr>" using m ts(1) by (simp add: WatchTopics_def loadTopicsUpdate_def)
  have tt: "t \<in> {t \<in> set ts. tn_Status t = StatusActive}" using ts(2) t by simp
  have f: "\<not> pv_fault env x" for x using rd by (simp add: reads_ok_def)
  have rr: "rules_read fc env d (tn_Slug t) = getAll d (tn_ID t)"
    using fc f by (simp add: rules_read_def GetRoutingRules_def Rules_GetAll_def GetBySlug_active_tenant [OF ok rd t])
  have sep: "separated (getAll d (tn_ID t))" using rules_read_separated [OF ok, of fc env "tn_Slug t"] rr by simp
  show "(tn_Slug t, BuildTopicName ns (tn_Slug t) (IngressTopic rule)) \<in> message_topics m" if "IngressTopic rule \<noteq> []"
  proof -
    have "IngressTopic rule \<in> set (ConsumeTopicSuffixes (rules_read fc env d (tn_Slug t)))" using that r rr by (simp add: Consume_set)
    then have "(tn_Slug t, BuildTopicName ns (tn_Slug t) (IngressTopic rule)) \<in> message_topics ?m"
      unfolding add_topics_fold(2) using tt by blast
    then show ?thesis by (simp add: mm message_topics_def)
  qed
  show "BuildTopicName ns (tn_Slug t) e \<in> set (tm_CreateOnlyTopics m)" if "e \<in> set (EgressTopics rule)" "e \<noteq> []"
  proof -
    have "e \<in> set (CreateOnlyTopicSuffixes (rules_read fc env d (tn_Slug t)))"
      using that r rr separated_egress [OF sep r that(1)] by (auto simp: CreateOnly_set)
    then have "BuildTopicName ns (tn_Slug t) e \<in> set (tm_CreateOnlyTopics ?m)" unfolding add_topics_fold(1) using tt by blast
    then show ?thesis by (simp add: mm)
  qed
qed

lemma registry_owner:
  "topic_registry_ok ns r \<Longrightarrow> topicTenants r topic = Some slug \<Longrightarrow> owned_topic ns (createOnlyTopics r) slug topic"
  by (simp add: topic_registry_ok_def)

text \<open>A topic of a sound message is consumed, for the tenant the message names.\<close>

lemma registry_topic:
  assumes "topics_msg_ok ns m" and "(slug, topic) \<in> message_topics m"
  shows "topicTenants (applyTopicUpdate r m) topic = Some slug" and "topic \<in> consumed_topics (applyTopicUpdate r m)"
proof -
  have ok: "topic_registry_ok ns (applyTopicUpdate r m)" by (rule applyTopicUpdate_ok [OF assms(1)])
  have "topic \<in> consumed_topics (applyTopicUpdate r m)"
    using assms by (auto simp: message_topics_def applyTopicUpdate_def consumed_topics_def topics_msg_ok_def image_iff) force+
  then show "topic \<in> consumed_topics (applyTopicUpdate r m)" .
  then obtain s where s: "topicTenants (applyTopicUpdate r m) topic = Some s" using ok by (auto simp: topic_registry_ok_def)
  obtain a where a: "slug_pattern s" "topic = BuildTopicName ns s a" using registry_owner [OF ok s] by (auto simp: owned_topic_def)
  obtain b where b: "slug_pattern slug" "topic = BuildTopicName ns slug b" using assms by (auto simp: topics_msg_ok_def owned_topic_def)
  have "BuildTopicName ns s a = BuildTopicName ns slug b" using a(2) b(2) by (rule subst)
  from BuildTopicName_inj [OF this slug_no_dot [OF a(1)] slug_no_dot [OF b(1)]] s
  show "topicTenants (applyTopicUpdate r m) topic = Some slug" by simp
qed

lemma Publish_producer_Inr:
  assumes "Publish_producer p v n ch data st = (Inr mid, st')"
  obtains tn plan part offset where "ExtractTenant ch = Some tn" "resolveTargets p ch tn = Inr plan"
    "pb_ingress st' = pb_ingress st @ [(base_record v n ch data)\<lparr>rec_Topic := pl_ingressTopic plan, rec_Partition := part, rec_Offset := offset\<rparr>]"
    "mid = MessageID (pl_ingressTopic plan) part offset"
    "pb_pools st' = fold Submit (map (\<lambda>topic. \<lparr>fj_topic = topic, fj_record = base_record v n ch data, fj_tenant = tn\<rparr>) (pl_egressTopics plan)) (pb_pools st)"
proof -
  obtain tn plan where r: "ExtractTenant ch = Some tn" "resolveTargets p ch tn = Inr plan"
    using assms by (auto simp: Publish_producer_def split: if_splits option.splits sum.splits)
  then obtain s where d: "doProduce v n ch tn plan data st = (Inr mid, s)" "st' = s\<lparr>pb_breaker := pb_breaker s @ [True]\<rparr>"
    using assms by (auto simp: Publish_producer_def split: if_splits option.splits sum.splits prod.splits)
  from d(1) obtain part offset where "pv_produce v ((base_record v n ch data)\<lparr>rec_Topic := pl_ingressTopic plan\<rparr>) = Inr (part, offset)"
    by (auto simp: doProduce_def Let_def split: sum.splits)
  then show thesis using that [where part = part and offset = offset, OF r] d by (auto simp: doProduce_def Let_def)
qed


section \<open>Accounting\<close>

text \<open>How many entries of a list belong to a tenant, the label of every counter.\<close>

definition of_tenant :: "('a \<Rightarrow> string) \<Rightarrow> string \<Rightarrow> 'a list \<Rightarrow> nat" where
  "of_tenant f tn xs = length (filter (\<lambda>x. f x = tn) xs)"

lemma of_tenant_simps [simp]:
  "of_tenant f tn [] = 0" "of_tenant f tn (x # xs) = (if f x = tn then 1 else 0) + of_tenant f tn xs"
  "of_tenant f tn (xs @ ys) = of_tenant f tn xs + of_tenant f tn ys"
  by (simp_all add: of_tenant_def)

lemma of_tenant_map [simp]: "of_tenant f tn (map g xs) = of_tenant (\<lambda>x. f (g x)) tn xs"
  by (simp add: of_tenant_def filter_map comp_def)

lemma of_tenant_remove1: "x \<in> set xs \<Longrightarrow> of_tenant f tn xs = (if f x = tn then 1 else 0) + of_tenant f tn (remove1 x xs)"
  by (induction xs) auto

definition queue_full :: "(fanout_job \<times> string) list \<Rightarrow> (fanout_job \<times> string) list" where
  "queue_full = filter (\<lambda>d. snd d = FanoutDropReasonQueueFull)"

definition accounted :: "fanout_job list \<Rightarrow> pools \<Rightarrow> bool" where
  "accounted submitted s \<longleftrightarrow> (\<forall>tn.
     of_tenant fj_tenant tn submitted =
       of_tenant fj_tenant tn (fo_handoff s) + of_tenant fj_tenant tn (fo_busy s) + of_tenant fj_tenant tn (fo_written s) +
       of_tenant (\<lambda>d. fj_tenant (fst d)) tn (fo_dropped s) + of_tenant fj_tenant tn (fo_writeFailed s) \<and>
     of_tenant (\<lambda>d. fj_tenant (fst d)) tn (queue_full (fo_dropped s)) + of_tenant fj_tenant tn (fo_writeFailed s) =
       of_tenant job_tenant tn (dq_jobs s) + of_tenant job_tenant tn (dq_busy s) + of_tenant job_tenant tn (dq_written s) +
       of_tenant job_tenant tn (dq_writeFailed s) + of_tenant job_tenant tn (dq_dropped s))"

text \<open>
  The steps of the pools: a publisher submits, a worker takes a job and finishes it with the broker's answer, a
  dead-letter worker does the same after its attempts, the producer closes the pool, a timed-out shutdown and a
  stopping dead-letter worker empty the queues. The state carries the copies submitted so far.
\<close>

inductive pools_step :: "dlq_config \<Rightarrow> fanout_job list \<times> pools \<Rightarrow> fanout_job list \<times> pools \<Rightarrow> bool" for cfg where
  "pools_step cfg (js, s) (js @ [job], Submit job s)"
| "fanout_take s = Some s' \<Longrightarrow> pools_step cfg (js, s) (js, s')"
| "job \<in> set (fo_busy s) \<Longrightarrow> pools_step cfg (js, s) (js, process_fanout job err s)"
| "dlq_take s = Some s' \<Longrightarrow> pools_step cfg (js, s) (js, s')"
| "job \<in> set (dq_busy s) \<Longrightarrow> dlq_attempts cfg ok ctxDone 0 [] = (outcome, waits) \<Longrightarrow>
     pools_step cfg (js, s) (js, process_dlq job outcome s)"
| "pools_step cfg (js, s) (js, Shutdown_close s)"
| "pools_step cfg (js, s) (js, fst (Shutdown_undrained s))"
| "pools_step cfg (js, s) (js, drainAbandoned s)"

definition new_pools :: "string \<Rightarrow> int \<Rightarrow> int \<Rightarrow> pools" where
  "new_pools namespace queueSize workers = \<lparr>po_namespace = namespace, fo_handoff = [], fo_queueSize = queueSize, fo_closed = False,
     fo_busy = [], fo_written = [], fo_dropped = [], fo_writeFailed = [], dq_jobs = [], dq_size = workers * dlqQueueDepthPerWorker,
     dq_busy = [], dq_written = [], dq_writeFailed = [], dq_dropped = []\<rparr>"

lemma dlq_attempts_tried: "n \<le> dl_MaxRetries cfg \<Longrightarrow> fst (dlq_attempts cfg ok ctxDone n waits) \<noteq> DlqNotTried"
  by (induction cfg ok ctxDone n waits rule: dlq_attempts.induct) auto

declare dlq_attempts.simps [simp del]

lemma drop_reasons [simp]:
  "FanoutDropReasonPostShutdown \<noteq> FanoutDropReasonQueueFull" "FanoutDropReasonShutdown \<noteq> FanoutDropReasonQueueFull"
  by (simp_all add: FanoutDropReasonPostShutdown_def FanoutDropReasonQueueFull_def FanoutDropReasonShutdown_def)

lemma queue_full_simps [simp]:
  "queue_full (xs @ ys) = queue_full xs @ queue_full ys" "queue_full [] = []"
  "queue_full [(job, reason)] = (if reason = FanoutDropReasonQueueFull then [(job, reason)] else [])"
  "queue_full (map (\<lambda>job. (job, FanoutDropReasonShutdown)) js) = []"
  by (auto simp: queue_full_def filter_empty_conv)

text \<open>A dead-lettered copy is queued or counted; nothing else of the pools changes.\<close>

lemma deadLetter_effect:
  "\<exists>j. job_tenant j = fj_tenant job \<and>
     (deadLetter job kind cause s = s\<lparr>dq_jobs := dq_jobs s @ [j]\<rparr> \<or> deadLetter job kind cause s = s\<lparr>dq_dropped := dq_dropped s @ [j]\<rparr>)"
  by (rule exI [of _ "\<lparr>job_record = dead_letter_record (po_namespace s) job kind cause, job_tenant = fj_tenant job,
        job_reason = ReasonFanoutTopicWriteFailed\<rparr>"]) (simp add: deadLetter_def TrySubmit_def Let_def)

lemma accounted_step:
  assumes "pools_step cfg (js, s) (js', s')" and "accounted js s" and "0 \<le> dl_MaxRetries cfg"
  shows "accounted js' s'"
  using assms(1)
proof (cases rule: pools_step.cases)
  case (1 job)
  show ?thesis
  proof (cases "fo_closed s \<or> int (length (fo_handoff s)) < fo_queueSize s")
    case True then show ?thesis using assms(2) 1 by (auto simp: accounted_def Submit_def)
  next
    case False
    let ?s = "s\<lparr>fo_dropped := fo_dropped s @ [(job, FanoutDropReasonQueueFull)]\<rparr>"
    have "s' = deadLetter job FailureKindNotAttempted None ?s" using 1 False by (simp add: Submit_def)
    with deadLetter_effect [of job FailureKindNotAttempted None ?s] assms(2) 1(1) show ?thesis by (auto simp: accounted_def)
  qed
next
  case 2 then show ?thesis using assms(2) by (auto simp: accounted_def fanout_take_def split: list.splits)
next
  case (3 job err)
  have r: "of_tenant fj_tenant tn (fo_busy s) = (if fj_tenant job = tn then 1 else 0) + of_tenant fj_tenant tn (remove1 job (fo_busy s))" for tn
    by (rule of_tenant_remove1 [OF 3(3)])
  show ?thesis
  proof (cases err)
    case None then show ?thesis using assms(2) 3 r by (simp add: accounted_def process_fanout_def)
  next
    case (Some e)
    let ?s = "s\<lparr>fo_busy := remove1 job (fo_busy s), fo_writeFailed := fo_writeFailed s @ [job]\<rparr>"
    have "s' = deadLetter job (egressFailureKind e) (Some e) ?s" using 3 Some by (simp add: process_fanout_def)
    with deadLetter_effect [of job "egressFailureKind e" "Some e" ?s] assms(2) 3(1) r show ?thesis by (auto simp: accounted_def)
  qed
next
  case 4 then show ?thesis using assms(2) by (auto simp: accounted_def dlq_take_def split: list.splits)
next
  case (5 job ok ctxDone outcome waits)
  have r: "of_tenant job_tenant tn (dq_busy s) = (if job_tenant job = tn then 1 else 0) + of_tenant job_tenant tn (remove1 job (dq_busy s))" for tn
    by (rule of_tenant_remove1 [OF 5(3)])
  have "outcome \<noteq> DlqNotTried" using dlq_attempts_tried [OF assms(3), of ok ctxDone "[]"] 5(4) by simp
  then show ?thesis using assms(2) 5 r by (cases outcome) (simp_all add: accounted_def process_dlq_def)
next
  case 6 then show ?thesis using assms(2) by (simp add: accounted_def Shutdown_close_def)
next
  case 7 then show ?thesis using assms(2) by (simp add: accounted_def Shutdown_undrained_def)
next
  case 8 then show ?thesis using assms(2) by (simp add: accounted_def drainAbandoned_def)
qed


lemma accounted_run:
  "(pools_step cfg)\<^sup>*\<^sup>* a b \<Longrightarrow> 0 \<le> dl_MaxRetries cfg \<Longrightarrow> accounted (fst a) (snd a) \<Longrightarrow> accounted (fst b) (snd b)"
proof (induction rule: rtranclp_induct)
  case (step y z)
  then show ?case using accounted_step [of cfg "fst y" "snd y" "fst z" "snd z"] by simp
qed

section \<open>The breaker\<close>

lemma Publish_breaker:
  "pb_breaker (snd (Publish_producer p v n ch data st)) = pb_breaker st \<or>
   (\<exists>tn plan. ExtractTenant ch = Some tn \<and> resolveTargets p ch tn = Inr plan \<and> \<not> pv_breakerOpen v \<and>
      pb_breaker (snd (Publish_producer p v n ch data st)) = pb_breaker st @
        [case pv_produce v ((base_record v n ch data)\<lparr>rec_Topic := pl_ingressTopic plan\<rparr>) of Inl e \<Rightarrow> isBreakerNeutralErr e | Inr _ \<Rightarrow> True])"
  by (auto simp: Publish_producer_def doProduce_def Let_def split: option.splits sum.splits)

section \<open>Properties\<close>

text \<open>C19: A published message comes back. When the producer routes by a snapshot of the tenant configuration and
  the servers consume by a snapshot of the topics, both of one reachable database, every acknowledged publish wrote a
  record whose identity is the acknowledged one, on a topic that is consumed and attributed to the publisher's tenant; the
  consumer reads the channel back from it and does not dead-letter it; the replay resolves the channel to that very topic;
  and no egress copy goes to a consumed topic.\<close>

theorem published_is_consumed:
  assumes "prov_reachable (fc_prov fc) s" and "reads_ok env"
    and "int (length (db_tenants (ps_db s))) \<le> maxTenantsFetchLimit fc" and "0 < maxTenantsFetchLimit fc"
    and "w_load (WatchTenantConfig fc) env True (ps_db s) = Inr m" and "w_load (WatchTopics fc ns) env True (ps_db s) = Inr tm"
    and "pd_namespace p = ns" and "pd_rules p = Some \<lparr>rs_received = True, rs_snapshot = GetRoutingSnapshot (updateTenantConfigs c0 m)\<rparr>"
    and "Publish_producer p v clientID channel data st = (Inr mid, st')" and "kc_tenantResolver c"
  shows "\<exists>tn plan r. resolveTargets p channel tn = Inr plan \<and> pb_ingress st' = pb_ingress st @ [r] \<and>
     mid = MessageID (rec_Topic r) (rec_Partition r) (rec_Offset r) \<and>
     rec_Topic r \<in> consumed_topics (applyTopicUpdate reg tm) \<and>
     extractChannel_kafka c (topicTenants (applyTopicUpdate reg tm)) r = (channel, [], tn) \<and>
     KafkaBackend_ChannelTopic \<lparr>kb_pool = True, kb_producer = Some p, kb_rules = pd_rules p, kb_namespace = ns\<rparr> channel = Some (rec_Topic r) \<and>
     set (pl_egressTopics plan) \<inter> consumed_topics (applyTopicUpdate reg tm) = {}"
proof -
  let ?d = "ps_db s" and ?reg = "applyTopicUpdate reg tm"
  have ok: "db_ok (fc_prov fc) ?d" by (rule reachable_ok [OF assms(1)])
  obtain tn plan part offset where pb: "ExtractTenant channel = Some tn" "resolveTargets p channel tn = Inr plan"
    "pb_ingress st' = pb_ingress st @ [(base_record v clientID channel data)\<lparr>rec_Topic := pl_ingressTopic plan, rec_Partition := part, rec_Offset := offset\<rparr>]"
    "mid = MessageID (pl_ingressTopic plan) part offset" using Publish_producer_Inr [OF assms(9)] by metis
  obtain rules where rules: "GetRoutingSnapshot (updateTenantConfigs c0 m) tn = Some rules" "rules \<noteq> []" "resolve_rules ns tn channel rules = Some plan"
    using pb(2) assms(7,8) by (auto simp: resolveTargets_def split: option.splits if_splits)
  have view: "routing_view (fc_prov fc) ?d tn = Some rules"
    using config_snapshot_view [OF ok refl assms(2-4), of c0 tn] assms(5) rules(1) by auto
  then obtain t where t: "t \<in> set (db_tenants ?d)" "tn_Slug t = tn" "tn_Status t = StatusActive"
      "routingRulesConfigured (fc_prov fc)" "rules = convertRoutingRules (getAll ?d (tn_ID t))"
    using rules(2) active_tenant_Some [OF ok, of tn] by (auto simp: routing_view_def split: option.splits if_splits)
  obtain rule where rule: "rule \<in> set (getAll ?d (tn_ID t))" "IngressTopic rule \<noteq> []"
      "pl_ingressTopic plan = BuildTopicName ns tn (IngressTopic rule)"
      "\<forall>topic\<in>set (pl_egressTopics plan). \<exists>e\<in>set (EgressTopics rule). e \<noteq> [] \<and> topic = BuildTopicName ns tn e"
    using resolve_rules_rule [OF rules(3)] t(5) by (auto simp: convertRoutingRules_def)
  note tops = topics_of_rules [OF ok refl t(4) assms(2-4) t(1,3) assms(6) rule(1), unfolded t(2)]
  have mok: "topics_msg_ok ns tm" by (rule topics_feed.load_sound [OF ok assms(6)])
  note reg = registry_topic [OF mok tops(1) [OF rule(2)], of reg]
  let ?r = "(base_record v clientID channel data)\<lparr>rec_Topic := pl_ingressTopic plan, rec_Partition := part, rec_Offset := offset\<rparr>"
  have tr: "topicTenants ?reg (rec_Topic ?r) = Some tn" using reg(1) rule(3) by simp
  have "KafkaBackend_ChannelTopic \<lparr>kb_pool = True, kb_producer = Some p, kb_rules = pd_rules p, kb_namespace = ns\<rparr> channel = Some (rec_Topic ?r)"
    using assms(8) pb(1) rules(1) resolve_channel_topic [OF rules(3)] by (simp add: KafkaBackend_ChannelTopic_def)
  moreover have "topic \<notin> consumed_topics ?reg" if "topic \<in> set (pl_egressTopics plan)" for topic
  proof -
    have "topic \<in> set (createOnlyTopics ?reg)" using that rule(4) tops(2) by (auto simp: applyTopicUpdate_def)
    then have "topicTenants ?reg topic \<noteq> Some x" for x
      using registry_owner [OF applyTopicUpdate_ok [OF mok], of reg topic x] by (auto simp: owned_topic_def)
    then show ?thesis using applyTopicUpdate_ok [OF mok, of reg] by (simp add: topic_registry_ok_def)
  qed
  moreover have "extractChannel_kafka c (topicTenants ?reg) ?r = (channel, [], tn)"
    by (rule extract_published) (rule assms(10), rule tr, rule base_record_channel, rule pb(1))
  moreover have "rec_Topic ?r \<in> consumed_topics ?reg" using reg(2) rule(3) by simp
  ultimately show ?thesis using pb(2-4) by (intro exI [of _ tn] exI [of _ plan] exI [of _ ?r]) auto
qed

definition demo_routed :: prov_state where
  "demo_routed = run_op demo_prov_config (demo_prov_env ''u8'' 8)
     (OpAddRoutingRule ''acme'' \<lparr>RulePattern = ''acme.**'', IngressTopic = ''orders'', EgressTopics = [''audit''], Priority = 2\<rparr>) demo_prov"

definition demo_tenant_config :: tenant_config_response where
  "demo_tenant_config = (case w_load (WatchTenantConfig demo_feed_config) (demo_prov_env ''u9'' 9) True (ps_db demo_routed) of
     Inr m \<Rightarrow> m | Inl _ \<Rightarrow> undefined)"

definition demo_routed_topics :: topics_msg where
  "demo_routed_topics = (case w_load (WatchTopics demo_feed_config ''prod'') (demo_prov_env ''u9'' 9) True (ps_db demo_routed) of
     Inr m \<Rightarrow> m | Inl _ \<Rightarrow> undefined)"

definition demo_producer :: producer where
  "demo_producer = \<lparr>pd_namespace = ''prod'', pd_rules = Some \<lparr>rs_received = True,
     rs_snapshot = GetRoutingSnapshot (updateTenantConfigs NewStreamChannelRulesProvider demo_tenant_config)\<rparr>, pd_fanout = True\<rparr>"

definition demo_publish_env :: publish_env where
  "demo_publish_env = \<lparr>pv_breakerOpen = False, pv_produce = (\<lambda>_. Inr (3, 41)), pv_nowMillis = 1700\<rparr>"

definition new_producer :: "pools \<Rightarrow> producer_state" where
  "new_producer s = \<lparr>pb_closed = False, pb_published = 0, pb_failed = 0, pb_breaker = [], pb_ingress = [], pb_pools = s\<rparr>"

definition demo_published :: "(publish_error + string) \<times> producer_state" where
  "demo_published = Publish_producer demo_producer demo_publish_env 7 ''acme.orders.new'' (Some ''hello'') (new_producer (new_pools ''prod'' 8 2))"

lemma demo_routed_reachable: "prov_reachable demo_prov_config demo_routed"
  unfolding demo_routed_def by (rule prov_op [OF demo_prov_reachable])

lemma demo_snapshot:
  "GetRoutingSnapshot (updateTenantConfigs NewStreamChannelRulesProvider demo_tenant_config) ''acme'' =
     Some [demo_rule, \<lparr>RulePattern = ''acme.**'', IngressTopic = ''orders'', EgressTopics = [''audit''], Priority = 2\<rparr>]"
  by code_simp

lemma demo_resolved:
  "resolve_rules ''prod'' ''acme'' ''acme.orders.new'' [demo_rule, \<lparr>RulePattern = ''acme.**'', IngressTopic = ''orders'', EgressTopics = [''audit''], Priority = 2\<rparr>] =
     Some \<lparr>pl_ingressTopic = ''prod.acme.orders'', pl_egressTopics = [''prod.acme.audit'']\<rparr>"
  by code_simp

lemma demo_target: "resolveTargets demo_producer ''acme.orders.new'' ''acme'' = Inr \<lparr>pl_ingressTopic = ''prod.acme.orders'', pl_egressTopics = [''prod.acme.audit'']\<rparr>"
  by (simp only: resolveTargets_def demo_producer_def producer.simps rules_source.simps option.case demo_snapshot demo_resolved list.distinct if_False not_True_eq_False)

lemma demo_accepted: "fst demo_published = Inr (MessageID ''prod.acme.orders'' 3 41)"
proof -
  have "ExtractTenant ''acme.orders.new'' = Some ''acme''" by code_simp
  moreover have "pd_fanout demo_producer" by (simp add: demo_producer_def)
  ultimately show ?thesis
    by (simp add: demo_published_def Publish_producer_def demo_target doProduce_def demo_publish_env_def new_producer_def Let_def)
qed

theorem published_is_consumed_witness:
  "\<exists>tn plan r. resolveTargets demo_producer ''acme.orders.new'' tn = Inr plan \<and> pb_ingress (snd demo_published) = [r] \<and>
     fst demo_published = Inr (MessageID (rec_Topic r) (rec_Partition r) (rec_Offset r)) \<and>
     extractChannel_kafka demo_consumer (topicTenants (applyTopicUpdate empty_topic_registry demo_routed_topics)) r = (''acme.orders.new'', [], tn) \<and>
     set (pl_egressTopics plan) \<inter> consumed_topics (applyTopicUpdate empty_topic_registry demo_routed_topics) = {}"
proof -
  have r: "prov_reachable (fc_prov demo_feed_config) demo_routed" using demo_routed_reachable by (simp add: demo_feed_config_def)
  have e: "reads_ok (demo_prov_env ''u9'' 9)" by (simp add: reads_ok_def demo_prov_env_def)
  have l: "int (length (db_tenants (ps_db demo_routed))) \<le> maxTenantsFetchLimit demo_feed_config" "0 < maxTenantsFetchLimit demo_feed_config" by code_simp+
  have "is_ok (w_load (WatchTenantConfig demo_feed_config) (demo_prov_env ''u9'' 9) True (ps_db demo_routed))" by code_simp
  then have m: "w_load (WatchTenantConfig demo_feed_config) (demo_prov_env ''u9'' 9) True (ps_db demo_routed) = Inr demo_tenant_config"
    by (auto simp: demo_tenant_config_def is_ok_iff)
  have "is_ok (w_load (WatchTopics demo_feed_config ''prod'') (demo_prov_env ''u9'' 9) True (ps_db demo_routed))" by code_simp
  then have tm: "w_load (WatchTopics demo_feed_config ''prod'') (demo_prov_env ''u9'' 9) True (ps_db demo_routed) = Inr demo_routed_topics"
    by (auto simp: demo_routed_topics_def is_ok_iff)
  have p: "pd_namespace demo_producer = ''prod''" "pd_rules demo_producer = Some \<lparr>rs_received = True,
      rs_snapshot = GetRoutingSnapshot (updateTenantConfigs NewStreamChannelRulesProvider demo_tenant_config)\<rparr>"
    by (simp_all add: demo_producer_def)
  note f = demo_accepted
  then have pub: "Publish_producer demo_producer demo_publish_env 7 ''acme.orders.new'' (Some ''hello'') (new_producer (new_pools ''prod'' 8 2)) =
      (Inr (MessageID ''prod.acme.orders'' 3 41), snd demo_published)"
    by (intro prod_eqI) (simp_all only: demo_published_def fst_conv snd_conv)
  have c: "kc_tenantResolver demo_consumer" by code_simp
  have "pb_ingress (new_producer (new_pools ''prod'' 8 2)) = []" by (simp add: new_producer_def)
  note pic = published_is_consumed [OF r e l m tm p pub c, of empty_topic_registry, unfolded this append_Nil]
  show ?thesis unfolding f sum.inject using pic by blast
qed

text \<open>C22: No egress copy is lost silently. Under every interleaving of publishers, fan-out workers, dead-letter
  workers and shutdown, and for every tenant, the copies submitted are exactly the ones queued, in work, written, dropped with
  a reason or failed, and those that failed or found the queue full are exactly the dead letters queued, in work, written, given
  up or dropped: each counter of the code accounts for what it says.\<close>

theorem egress_accounted:
  assumes "(pools_step cfg)\<^sup>*\<^sup>* ([], new_pools ns queueSize workers) (js, s)" and "0 \<le> dl_MaxRetries cfg"
  shows "of_tenant fj_tenant tn js =
       of_tenant fj_tenant tn (fo_handoff s) + of_tenant fj_tenant tn (fo_busy s) + of_tenant fj_tenant tn (fo_written s) +
       of_tenant (\<lambda>d. fj_tenant (fst d)) tn (fo_dropped s) + of_tenant fj_tenant tn (fo_writeFailed s) \<and>
     of_tenant (\<lambda>d. fj_tenant (fst d)) tn (queue_full (fo_dropped s)) + of_tenant fj_tenant tn (fo_writeFailed s) =
       of_tenant job_tenant tn (dq_jobs s) + of_tenant job_tenant tn (dq_busy s) + of_tenant job_tenant tn (dq_written s) +
       of_tenant job_tenant tn (dq_writeFailed s) + of_tenant job_tenant tn (dq_dropped s)"
proof -
  have "accounted [] (new_pools ns queueSize workers)" by (simp add: accounted_def new_pools_def)
  then have "accounted js s" using accounted_run [OF assms] by simp
  then show ?thesis by (simp add: accounted_def)
qed

definition demo_job :: fanout_job where
  "demo_job = \<lparr>fj_topic = ''prod.acme.audit'', fj_record = \<lparr>rec_Topic = [], rec_Partition = 0, rec_Offset = 0, rec_Key = Some ''acme.orders.new'',
     rec_Value = Some ''hello'', rec_Headers = []\<rparr>, fj_tenant = ''acme''\<rparr>"

definition demo_pools :: pools where
  "demo_pools = process_fanout demo_job (Some \<lparr>pe_kind = OtherProduceError, pe_nonRetriable = False, pe_text = ''timed out''\<rparr>)
     (the (fanout_take (Submit demo_job (Submit demo_job (new_pools ''prod'' 1 0)))))"

theorem egress_accounted_witness:
  "of_tenant fj_tenant ''acme'' [demo_job, demo_job] = 2 \<and>
   of_tenant job_tenant ''acme'' (dq_dropped demo_pools) = 2 \<and>
   of_tenant (\<lambda>d. fj_tenant (fst d)) ''acme'' (fo_dropped demo_pools) + of_tenant fj_tenant ''acme'' (fo_writeFailed demo_pools) = 2"
proof -
  let ?cfg = "\<lparr>dl_MaxRetries = 3, dl_BaseDelay = 100000000, dl_MaxDelay = 5000000000\<rparr>" and ?s = "new_pools ''prod'' 1 0"
  have t: "fanout_take (Submit demo_job (Submit demo_job ?s)) = Some (the (fanout_take (Submit demo_job (Submit demo_job ?s))))"
    by (simp add: Submit_def fanout_take_def new_pools_def deadLetter_def TrySubmit_def Let_def)
  have b: "List.member (fo_busy (the (fanout_take (Submit demo_job (Submit demo_job ?s))))) demo_job" by code_simp
  have "(pools_step ?cfg)\<^sup>*\<^sup>* ([], ?s) ([] @ [demo_job], Submit demo_job ?s)" by (rule r_into_rtranclp) (rule pools_step.intros(1))
  then have "(pools_step ?cfg)\<^sup>*\<^sup>* ([], ?s) (([] @ [demo_job]) @ [demo_job], Submit demo_job (Submit demo_job ?s))"
    by (rule rtranclp.rtrancl_into_rtrancl) (rule pools_step.intros(1))
  then have "(pools_step ?cfg)\<^sup>*\<^sup>* ([], ?s) (([] @ [demo_job]) @ [demo_job], the (fanout_take (Submit demo_job (Submit demo_job ?s))))"
    by (rule rtranclp.rtrancl_into_rtrancl) (rule pools_step.intros(2) [OF t])
  then have "(pools_step ?cfg)\<^sup>*\<^sup>* ([], ?s) (([] @ [demo_job]) @ [demo_job], demo_pools)" unfolding demo_pools_def
    by (rule rtranclp.rtrancl_into_rtrancl) (rule pools_step.intros(3) [OF b [unfolded List.member_iff]])
  from egress_accounted [OF this, of "''acme''"] have "of_tenant fj_tenant ''acme'' [demo_job, demo_job] = 
      of_tenant fj_tenant ''acme'' (fo_handoff demo_pools) + of_tenant fj_tenant ''acme'' (fo_busy demo_pools) + of_tenant fj_tenant ''acme'' (fo_written demo_pools) +
       of_tenant (\<lambda>d. fj_tenant (fst d)) ''acme'' (fo_dropped demo_pools) + of_tenant fj_tenant ''acme'' (fo_writeFailed demo_pools)" by simp
  moreover have "fo_handoff demo_pools = []" "fo_busy demo_pools = []" "fo_written demo_pools = []" by code_simp+
  moreover have "of_tenant fj_tenant ''acme'' [demo_job, demo_job] = 2" "of_tenant job_tenant ''acme'' (dq_dropped demo_pools) = 2" by code_simp+
  ultimately show ?thesis by simp
qed

end
