(* ===== verification/PoolSafety.thy ===== *)
theory PoolSafety
  imports PoolRun PublishSafety
begin

text \<open>
  What the consumer pool guarantees: it follows the registry, a message it routes stays with its tenant and is counted once;
  and where it stays behind: a topic once removed is never fetched again, a dedicated tenant keeps the topics it started with,
  and the block of a deleted topic can be missed.
\<close>

lemma attributed_slug:
  "feed_reachable cfg (WatchTopics fc ns) applyTopicUpdate empty_topic_registry s \<Longrightarrow> topicTenants (fs_client s) topic = Some slug \<Longrightarrow> CHR ''.'' \<notin> set slug"
  using topics_feed.reachable_sound [of cfg fc ns s] slug_no_dot [of slug] by (auto simp: topic_registry_ok_def owned_topic_def)

section \<open>A deployment\<close>

definition demo_refresh :: "string list \<Rightarrow> (string \<times> string list) list \<Rightarrow> refresh_env" where
  "demo_refresh topics tenants = \<lparr>re_shared = Some topics, re_dedicated = Some tenants, re_tenants = Some Map.empty, re_created = (\<lambda>_. True),
     re_started = (\<lambda>_. True), re_newErrs = (\<lambda>_. []), re_gap = (\<lambda>_. [])\<rparr>"

definition demo_new_pool :: consumer_pool where
  "demo_new_pool = (case NewMultiTenantConsumerPool 1 ''prod'' True True True [] of Inr p \<Rightarrow> p | Inl _ \<Rightarrow> undefined)"

definition demo_pool :: consumer_pool where
  "demo_pool = snd (refreshTopics (demo_refresh (shared_topics_of demo_prov) [(''initech'', [''prod.initech.default''])]) demo_new_pool)"

lemma demo_new_reachable: "pool_reachable demo_new_pool"
  unfolding pool_reachable_def
  by (rule exI [of _ 1], rule exI [of _ "''prod''"], rule exI [of _ "[]"], rule exI [of _ demo_new_pool])
    (simp add: demo_new_pool_def NewMultiTenantConsumerPool_def)

lemma refresh_run: "Q v \<Longrightarrow> (pool_step Q)\<^sup>*\<^sup>* p (snd (refreshTopics v p))"
  by (rule r_into_rtranclp, rule pool_start [where Q = Q and v = v and e = "fst (refreshTopics v p)"]) simp_all

lemma pool_reachable_refresh: "pool_reachable p \<Longrightarrow> pool_reachable (snd (refreshTopics v p))"
  unfolding pool_reachable_def using refresh_run [of "\<lambda>_. True" v p] by (meson rtranclp_trans)

lemma demo_pool_reachable: "pool_reachable demo_pool"
  unfolding demo_pool_def by (rule pool_reachable_refresh [OF demo_new_reachable])

definition demo_shared :: "consumer_pool \<Rightarrow> pool_consumer" where
  "demo_shared p = (case mp_sharedConsumer p of Some c \<Rightarrow> c | None \<Rightarrow> new_consumer [] [] [])"

definition demo_suspended :: prov_state where
  "demo_suspended = run_op demo_prov_config (demo_prov_env ''u7'' 7) (OpSuspendTenant ''acme'') demo_prov"

definition demo_reactivated :: prov_state where
  "demo_reactivated = run_op demo_prov_config (demo_prov_env ''u8'' 8) (OpReactivateTenant ''acme'') demo_suspended"

definition demo_paused :: consumer_pool where
  "demo_paused = snd (refreshTopics (demo_refresh (shared_topics_of demo_suspended) []) demo_pool)"

definition demo_resumed :: consumer_pool where
  "demo_resumed = snd (refreshTopics (demo_refresh (shared_topics_of demo_reactivated) []) demo_paused)"

section \<open>Properties\<close>

text \<open>C20: The pool follows the registry. After every successful refresh of a reachable pool, whatever the consumers report
  while it runs, the shared consumer fetches exactly the topics the registry listed, less those it has paused; there is no shared
  consumer only when the registry listed no topic. The one exception is a dedicated consumer that reports a shared topic
  as deleted.\<close>

theorem pool_follows_registry:
  assumes "pool_reachable p" and "refreshTopics v p = (None, p')" and "re_shared v = Some topics" and "\<not> crossed p'"
  shows "case mp_sharedConsumer p' of
           None \<Rightarrow> topics = []
         | Some c \<Rightarrow> \<forall>t. fetches c t \<longleftrightarrow> t \<in> set topics \<and> t \<notin> set (kf_paused (pk_state c))"
  by (rule refresh_post [OF pool_reachable_ok [OF assms(1)] assms(2-4)])

theorem pool_follows_registry_witness:
  "\<exists>c. mp_sharedConsumer demo_pool = Some c \<and> kf_paused (pk_state c) = [] \<and> (\<forall>t. fetches c t \<longleftrightarrow> t \<in> set (shared_topics_of demo_prov))"
proof -
  let ?v = "demo_refresh (shared_topics_of demo_prov) [(''initech'', [''prod.initech.default''])]"
  have "Option.is_none (fst (refreshTopics ?v demo_new_pool))" by code_simp
  then have r: "refreshTopics ?v demo_new_pool = (None, demo_pool)" by (simp add: demo_pool_def Option.is_none_def prod_eq_iff)
  have "\<not> crossed demo_pool" by code_simp
  note f = pool_follows_registry [OF demo_new_reachable r _ this, of "shared_topics_of demo_prov"]
  have "\<not> Option.is_none (mp_sharedConsumer demo_pool)" "kf_paused (pk_state (demo_shared demo_pool)) = []" by code_simp+
  then show ?thesis using f by (auto simp: demo_refresh_def demo_shared_def Option.is_none_def)
qed

text \<open>C26: A topic once removed is never fetched again. When a refresh drops a topic that the shared consumer fetches, as the
  suspension of its tenant does, no later step of the pool makes the shared consumer fetch it, though the registry lists it
  again, because nothing resumes a paused topic.\<close>

theorem removed_topic_never_resumes:
  assumes "pool_reachable p" and "mp_sharedConsumer p = Some c" and "fetches c t"
    and "refreshTopics v p = (None, p')" and "re_shared v = Some topics" and "t \<notin> set topics" and "\<not> crossed p'"
    and "(pool_step Q)\<^sup>*\<^sup>* p' p''"
  shows "\<exists>c''. mp_sharedConsumer p'' = Some c'' \<and> t \<in> set (pk_Topics c'' @ kf_added (pk_state c'')) \<and> \<not> fetches c'' t"
proof -
  note ok = pool_reachable_ok [OF assms(1)]
  obtain c' where c': "mp_sharedConsumer p' = Some c'" "grows c c'" using refresh_keeps(2) [OF ok assms(4,2)] by blast
  have "\<not> fetches c' t" using refresh_post [OF ok assms(4,5,7)] c'(1) assms(6) by simp
  then have p: "t \<in> set (pk_Topics c' @ kf_added (pk_state c'))" "t \<in> set (kf_paused (pk_state c'))"
    using assms(3) c'(2) by (auto simp: fetches_def grows_def)
  obtain c'' where "mp_sharedConsumer p'' = Some c''" "grows c' c''"
    using pool_run_keeps [OF assms(8) refresh_keeps(1) [OF ok assms(4)]] c'(1) by blast
  then show ?thesis using p by (auto simp: fetches_def grows_def)
qed

theorem removed_topic_never_resumes_witness:
  "List.member (shared_topics_of demo_reactivated) ''prod.acme.orders'' \<and>
   (\<exists>c. mp_sharedConsumer demo_resumed = Some c \<and> \<not> fetches c ''prod.acme.orders'')"
proof -
  let ?v = "demo_refresh (shared_topics_of demo_suspended) []"
  have s: "mp_sharedConsumer demo_pool = Some (demo_shared demo_pool)" by code_simp
  have f: "fetches (demo_shared demo_pool) ''prod.acme.orders''" by code_simp
  have "Option.is_none (fst (refreshTopics ?v demo_pool))" by code_simp
  then have r: "refreshTopics ?v demo_pool = (None, demo_paused)" by (simp add: demo_paused_def Option.is_none_def prod_eq_iff)
  have v: "re_shared ?v = Some (shared_topics_of demo_suspended)" by (simp add: demo_refresh_def)
  have t: "''prod.acme.orders'' \<notin> set (shared_topics_of demo_suspended)" by code_simp
  have x: "\<not> crossed demo_paused" by code_simp
  have run: "(pool_step (\<lambda>_. True))\<^sup>*\<^sup>* demo_paused demo_resumed"
    unfolding demo_resumed_def by (rule refresh_run) simp
  have "List.member (shared_topics_of demo_reactivated) ''prod.acme.orders''" by code_simp
  then show ?thesis using removed_topic_never_resumes [OF demo_pool_reachable s f r v t x run] by blast
qed

text \<open>C27: A dedicated tenant keeps the topics it started with: as long as the registry lists the tenant, no step of the
  pool makes its consumer fetch a topic that it was not created with, so a topic added to the tenant later is not consumed.\<close>

theorem dedicated_topics_frozen:
  assumes "pool_reachable p" and "map_of (mp_dedicatedConsumers p) tn = Some c"
    and "(pool_step (still_lists tn))\<^sup>*\<^sup>* p p'" and "t \<notin> set (pk_Topics c @ kf_added (pk_state c))"
  shows "\<exists>c'. map_of (mp_dedicatedConsumers p') tn = Some c' \<and> pk_Topics c' = pk_Topics c \<and> \<not> fetches c' t"
proof -
  obtain c' where "map_of (mp_dedicatedConsumers p') tn = Some c'" "same_consumer c c'"
    using pool_run_tenant [OF assms(3) pool_reachable_ok [OF assms(1)] assms(2)] by blast
  then show ?thesis using assms(4) by (auto simp: same_consumer_def fetches_def)
qed

definition demo_tenant_grown :: refresh_env where
  "demo_tenant_grown = demo_refresh (shared_topics_of demo_prov) [(''initech'', [''prod.initech.default'', ''prod.initech.orders''])]"

theorem dedicated_topics_frozen_witness:
  "\<exists>c. map_of (mp_dedicatedConsumers (snd (refreshTopics demo_tenant_grown demo_pool))) ''initech'' = Some c \<and> \<not> fetches c ''prod.initech.orders''"
proof -
  define c where "c = new_consumer ''prod-initech-consumer'' ConsumerTypeKindDedicated [''prod.initech.default'']"
  have c: "map_of (mp_dedicatedConsumers demo_pool) ''initech'' = Some c" unfolding c_def by code_simp
  have l: "still_lists ''initech'' demo_tenant_grown" by code_simp
  have run: "(pool_step (still_lists ''initech''))\<^sup>*\<^sup>* demo_pool (snd (refreshTopics demo_tenant_grown demo_pool))"
    by (rule refresh_run) (rule l)
  have t: "''prod.initech.orders'' \<notin> set (pk_Topics c @ kf_added (pk_state c))" unfolding c_def by code_simp
  from dedicated_topics_frozen [OF demo_pool_reachable c run t] show ?thesis by blast
qed

text \<open>C21: What the pool routes stays with its tenant and is counted once. When the consumer accepted a record's
  channel by one state of the fed registry and the pool routes it by another, the published message either names the tenant whose
  channel it is, with the rest of the channel as its bare channel and the identity and position of the record, or names no tenant,
  and then the bus refuses it and the pool counts it as dropped. Every message is counted exactly when the consumer may go on.\<close>

theorem routed_message_isolated:
  assumes "feed_reachable cfg (WatchTopics fc ns) applyTopicUpdate empty_topic_registry f"
    and "feed_reachable cfg (WatchTopics fc ns) applyTopicUpdate empty_topic_registry f'"
    and "extractChannel_kafka c (topicTenants (fs_client f)) r = (ch, [], tn)" and "mp_topicTenants p = Some (topicTenants (fs_client f'))"
    and "routeMessage now reply ch message (rec_Topic r) (rec_Partition r) (rec_Offset r) p b = (go, p', b')"
    and "m = route_message (resolveTenant p (rec_Topic r)) ch message (rec_Topic r) (rec_Partition r) (rec_Offset r)"
  shows "messagesRouted p' + messagesDropped p' = messagesRouted p + messagesDropped p + (if go then 1 else 0) \<and>
     MsgMid m = MessageID (rec_Topic r) (rec_Partition r) (rec_Offset r) \<and> MsgPos m = EncodePos (rec_Partition r) (rec_Offset r) \<and>
     (MsgTenantID m = tn \<and> ch = tn @ ''.'' @ MsgChannel m \<or> MsgTenantID m = [] \<and> go \<and> messagesDropped p' = messagesDropped p + 1 \<and> b' = b)"
proof -
  have r: "topicTenants (fs_client f) (rec_Topic r) = Some tn" "IndexByte ch (CHR ''.'') > 0" "take (nat (IndexByte ch (CHR ''.''))) ch = tn"
    using assms(3) by (auto simp: extractChannel_kafka_def ReasonUnknownTopic_def ReasonMissingChannelHeader_def ReasonInvalidChannelKey_def
        ReasonTenantPrefixMismatch_def Let_def split: if_splits option.splits)
  have ch: "ch = tn @ CHR ''.'' # drop (Suc (nat (IndexByte ch (CHR ''.'')))) ch"
    using IndexByte_prefix [of ch "CHR ''.''" "nat (IndexByte ch (CHR ''.''))"] r by simp
  have count: "messagesRouted p' + messagesDropped p' = messagesRouted p + messagesDropped p + (if go then 1 else 0)"
    using assms(5) by (auto simp: routeMessage_def split: prod.splits option.splits bus_error.splits)
  have id: "MsgMid m = MessageID (rec_Topic r) (rec_Partition r) (rec_Offset r)" "MsgPos m = EncodePos (rec_Partition r) (rec_Offset r)"
    by (simp_all add: assms(6) route_message_def Let_def)
  show ?thesis
  proof (cases "topicTenants (fs_client f') (rec_Topic r)")
    case None
    then have "MsgTenantID m = []" by (simp add: assms(4,6) resolveTenant_def route_message_def)
    moreover have "go \<and> messagesDropped p' = messagesDropped p + 1 \<and> b' = b"
      using assms(5) calculation by (auto simp: routeMessage_def assms(6) [symmetric] Publish_def)
    ultimately show ?thesis using count id by blast
  next
    case (Some tn')
    have "tn' = tn"
      using attributed_topic [OF assms(1) r(1)] attributed_topic [OF assms(2) Some] attributed_slug [OF assms(2) Some] by metis
    then have "MsgTenantID m = tn \<and> MsgChannel m = TrimPrefix ch (tn @ ''.'')" using Some by (simp add: assms(4,6) resolveTenant_def route_message_def)
    moreover have "TrimPrefix ch (tn @ ''.'') = drop (Suc (nat (IndexByte ch (CHR ''.'')))) ch"
      by (subst (1) ch) (simp add: TrimPrefix_def HasPrefix_def)
    ultimately show ?thesis using count id ch by simp
  qed
qed

definition demo_route_pool :: consumer_pool where
  "demo_route_pool = demo_new_pool\<lparr>mp_topicTenants := Some (topicTenants (applyTopicUpdate empty_topic_registry demo_topics))\<rparr>"

definition demo_routed_message :: bus_message where
  "demo_routed_message = route_message (resolveTenant demo_route_pool (rec_Topic demo_order)) ''acme.BTC.trade'' ''hi'' (rec_Topic demo_order)
     (rec_Partition demo_order) (rec_Offset demo_order)"

theorem routed_message_isolated_witness:
  "MsgTenantID demo_routed_message = ''acme'' \<and> ''acme.BTC.trade'' = ''acme.'' @ MsgChannel demo_routed_message"
proof -
  have "is_ok (w_load (WatchTopics demo_feed_config ''prod'') (demo_prov_env ''u9'' 9) True (ps_db demo_prov))" by code_simp
  then have "w_load (WatchTopics demo_feed_config ''prod'') (demo_prov_env ''u9'' 9) True (ps_db demo_prov) = Inr demo_topics"
    by (auto simp: demo_topics_def is_ok_iff)
  from feed_after_snapshot [OF this [unfolded demo_prov_def], of applyTopicUpdate empty_topic_registry]
  obtain f where f: "feed_reachable demo_prov_config (WatchTopics demo_feed_config ''prod'') applyTopicUpdate empty_topic_registry f"
      "fs_client f = applyTopicUpdate empty_topic_registry demo_topics" by blast
  have x: "extractChannel_kafka demo_consumer (topicTenants (fs_client f)) demo_order = (''acme.BTC.trade'', [], ''acme'')" unfolding f(2) by code_simp
  have p: "mp_topicTenants demo_route_pool = Some (topicTenants (fs_client f))" by (simp add: demo_route_pool_def f(2))
  obtain go p' b' where r: "routeMessage 0 PubFailed ''acme.BTC.trade'' ''hi'' (rec_Topic demo_order) (rec_Partition demo_order) (rec_Offset demo_order)
      demo_route_pool undefined = (go, p', b')" using prod_cases3 by blast
  have "topicTenants (fs_client f) (rec_Topic demo_order) = Some ''acme''" unfolding f(2) by code_simp
  then have "MsgTenantID demo_routed_message \<noteq> []" using p by (simp add: demo_routed_message_def route_message_def resolveTenant_def Let_def)
  with routed_message_isolated [OF f(1) f(1) x p r demo_routed_message_def] show ?thesis by auto
qed

text \<open>The block of a deleted topic can be missed: there is a reachable pool and a refresh during which the shared consumer
  reports a topic it is being given as deleted at the broker, after which the pool holds the topic as subscribed and not as blocked,
  although the consumer has paused it. The block list is checked again before the topics are recorded, but a topic that is not yet
  recorded is never put on it.\<close>

theorem deleted_topic_stays_subscribed:
  "\<exists>p v p' t. pool_reachable p \<and> refreshTopics v p = (None, p') \<and> (t, ConsumerTypeKindShared, False) \<in> set (mp_autoRemoved p') \<and>
     t \<in> set (mp_sharedTopics p') \<and> t \<notin> set (mp_blockedSharedTopics p') \<and> (\<exists>c. mp_sharedConsumer p' = Some c \<and> \<not> fetches c t)"
proof -
  let ?e = "\<lparr>fe_Topic = ''prod.acme.audit'', fe_Partition = 0, fe_Err = UnknownTopicOrPartition\<rparr>"
  let ?v = "(demo_refresh (shared_topics_of demo_prov @ [''prod.acme.audit'']) [])\<lparr>re_gap := (\<lambda>i. if i = 2 then [(SharedReports, [?e])] else [])\<rparr>"
  let ?p = "snd (refreshTopics ?v demo_pool)"
  have "Option.is_none (fst (refreshTopics ?v demo_pool))" by code_simp
  then have r: "refreshTopics ?v demo_pool = (None, ?p)" by (simp add: Option.is_none_def prod_eq_iff)
  have "List.member (mp_autoRemoved ?p) (''prod.acme.audit'', ConsumerTypeKindShared, False)" "List.member (mp_sharedTopics ?p) ''prod.acme.audit''"
    "\<not> List.member (mp_blockedSharedTopics ?p) ''prod.acme.audit''" by code_simp+
  moreover have "mp_sharedConsumer ?p = Some (demo_shared ?p)" "\<not> fetches (demo_shared ?p) ''prod.acme.audit''" by code_simp+
  ultimately show ?thesis using demo_pool_reachable r unfolding List.member_iff by blast
qed

end
