(* ===== verification/HistorySafety.thy ===== *)
theory HistorySafety
  imports HistoryWriter PoolSafety "HOL-Library.Multiset"
begin

text \<open>
  The history writers of a cluster: at most one of them that has renewed its lock in time is active, every
  message is accounted for, a message is stored under the very key the history handler reads, and never under a
  key of another tenant or channel. Messages of the direct backend are never stored.
\<close>

section \<open>The cluster\<close>

text \<open>
  The pods share the lock. Each pod is in a phase of \<open>runOnce\<close>: not running, waiting for the answer of its acquisition
  (\<open>Acquiring\<close>) or of its heartbeat (\<open>Beating\<close>), with the answer under way and the time its command took effect, in its loop, out of it
  with the relay still running (\<open>Leaving\<close>), and after its release of the lock took effect (\<open>Released\<close>), when the
  flag of an active writer is still up until the release returns. Time passes and other pods act between any two of these.
  \<open>cu_confirmed\<close> is when the last lock command took effect whose success the pod has seen,
  \<open>cu_received\<close> what the bus gave to the pod's relay. A command takes effect, if it does, before its pod goes on.
\<close>

datatype pod_phase = Stopped | Acquiring "bool option" int | InLoop | Beating "bool option" int | Leaving | Released

record cluster =
  cu_now :: int
  cu_lock :: writer_lock
  cu_pods :: "string \<Rightarrow> history_writer"
  cu_phase :: "string \<Rightarrow> pod_phase"
  cu_confirmed :: "string \<Rightarrow> int"
  cu_received :: "string \<Rightarrow> bus_message list"

definition start_cluster :: cluster where
  "start_cluster = \<lparr>cu_now = 0, cu_lock = None, cu_pods = (\<lambda>_. new_writer), cu_phase = (\<lambda>_. Stopped), cu_confirmed = (\<lambda>_. 0), cu_received = (\<lambda>_. [])\<rparr>"

definition set_pod :: "string \<Rightarrow> history_writer \<Rightarrow> pod_phase \<Rightarrow> cluster \<Rightarrow> cluster" where
  "set_pod pod h ph s = s\<lparr>cu_pods := (cu_pods s)(pod := h), cu_phase := (cu_phase s)(pod := ph)\<rparr>"

definition command_sent :: "string \<Rightarrow> pod_phase \<Rightarrow> writer_lock \<Rightarrow> cluster \<Rightarrow> cluster" where
  "command_sent pod ph lk s = s\<lparr>cu_lock := lk, cu_phase := (cu_phase s)(pod := ph)\<rparr>"

definition confirm_lock :: "string \<Rightarrow> bool option \<Rightarrow> int \<Rightarrow> cluster \<Rightarrow> cluster" where
  "confirm_lock pod reply t s = (if reply = Some True then s\<lparr>cu_confirmed := (cu_confirmed s)(pod := t)\<rparr> else s)"

definition heartbeat_command :: "writer_config \<Rightarrow> string \<Rightarrow> cluster \<Rightarrow> writer_lock \<Rightarrow> bool \<times> writer_lock" where
  "heartbeat_command cfg pod s =
     (if isActiveWriter (cu_pods s pod) then lock_renew_script pod (hc_LockTTLMs cfg) (cu_now s) else set_nx_px pod (hc_LockTTLMs cfg) (cu_now s))"

fun relaying :: "pod_phase \<Rightarrow> bool" where
  "relaying InLoop = True"
| "relaying (Beating reply t) = True"
| "relaying Leaving = True"
| "relaying _ = False"

text \<open>
  When \<open>SubscribeAll\<close> fails after the acquisition, \<open>runOnce\<close> returns without releasing the lock or lowering the flag
  (\<open>acquire_answered\<close> with the phase \<open>Stopped\<close>). A tick that finds the bus unhealthy sends no command and leaves the loop.
\<close>

inductive cluster_step :: "writer_config \<Rightarrow> cluster \<Rightarrow> cluster \<Rightarrow> bool" for cfg where
  passes: "cu_now s \<le> t \<Longrightarrow> cluster_step cfg s (s\<lparr>cu_now := t\<rparr>)"
| acquire_sent: "cu_phase s pod = Stopped \<Longrightarrow> run_command fate (set_nx_px pod (hc_LockTTLMs cfg) (cu_now s)) (cu_lock s) = (reply, lk) \<Longrightarrow>
     cluster_step cfg s (command_sent pod (Acquiring reply (cu_now s)) lk s)"
| acquire_answered: "cu_phase s pod = Acquiring reply t \<Longrightarrow> ph = InLoop \<or> ph = Stopped \<Longrightarrow>
     cluster_step cfg s (confirm_lock pod reply t (set_pod pod ((tryAcquireLock reply (cu_pods s pod))\<lparr>hw_lockFailures := 0\<rparr>) ph s))"
| beat_sent: "cu_phase s pod = InLoop \<Longrightarrow> run_command fate (heartbeat_command cfg pod s) (cu_lock s) = (reply, lk) \<Longrightarrow>
     cluster_step cfg s (command_sent pod (Beating reply (cu_now s)) lk s)"
| beat_answered: "cu_phase s pod = Beating reply t \<Longrightarrow> handleHeartbeatTick cfg True ctxDone reply (cu_pods s pod) = (restart, h) \<Longrightarrow>
     cluster_step cfg s (confirm_lock pod reply t (set_pod pod h (if restart then Leaving else InLoop) s))"
| relays: "relaying (cu_phase s pod) \<Longrightarrow>
     cluster_step cfg s ((set_pod pod (relay cfg msg (cu_pods s pod)) (cu_phase s pod) s)\<lparr>cu_received := (cu_received s)(pod := cu_received s pod @ [msg])\<rparr>)"
| flushes: "cu_phase s pod = InLoop \<Longrightarrow> flushBatch_history cfg ok ((cu_pods s pod)\<lparr>hw_notify := notified\<rparr>) = (processed, cmds, h) \<Longrightarrow>
     cluster_step cfg s (set_pod pod h InLoop s)"
| leaves: "cu_phase s pod = InLoop \<Longrightarrow> cluster_step cfg s (command_sent pod Leaving (cu_lock s) s)"
| releases: "cu_phase s pod = Leaving \<Longrightarrow> run_command fate (lock_release_script pod (cu_now s)) (cu_lock s) = (reply, lk) \<Longrightarrow>
     cluster_step cfg s (command_sent pod Released (if isActiveWriter (cu_pods s pod) then lk else cu_lock s) s)"
| ends: "cu_phase s pod = Released \<Longrightarrow> cluster_step cfg s (set_pod pod ((cu_pods s pod)\<lparr>isActiveWriter := False\<rparr>) Stopped s)"

definition cluster_reachable :: "writer_config \<Rightarrow> cluster \<Rightarrow> bool" where
  "cluster_reachable cfg s \<longleftrightarrow> (cluster_step cfg)\<^sup>*\<^sup>* start_cluster s"

section \<open>The lock\<close>

text \<open>The lock was taken or renewed at \<open>t\<close> by the pod, and is still the pod's until its time to live is over.\<close>

definition held :: "int \<Rightarrow> cluster \<Rightarrow> string \<Rightarrow> int \<Rightarrow> bool" where
  "held ttl s pod t \<longleftrightarrow> t \<le> cu_now s \<and> (cu_now s < t + ttl \<longrightarrow> (\<exists>expires. cu_lock s = Some (pod, expires) \<and> t + ttl \<le> expires))"

fun under_way :: "pod_phase \<Rightarrow> int option" where
  "under_way (Acquiring reply t) = (if reply = Some True then Some t else None)"
| "under_way (Beating reply t) = (if reply = Some True then Some t else None)"
| "under_way _ = None"

definition lock_ok :: "int \<Rightarrow> cluster \<Rightarrow> bool" where
  "lock_ok ttl s \<longleftrightarrow> (\<forall>pod. (isActiveWriter (cu_pods s pod) \<and> cu_phase s pod \<noteq> Released \<longrightarrow> held ttl s pod (cu_confirmed s pod)) \<and>
     (\<forall>t. under_way (cu_phase s pod) = Some t \<longrightarrow> held ttl s pod t))"

lemma record_results_active: "record_results ok j msgs h n = (m, h') \<Longrightarrow> isActiveWriter h' = isActiveWriter h"
  by (induction ok j msgs h n rule: record_results.induct) (auto split: if_splits)

lemma flush_active: "flushBatch_history cfg ok h = (processed, cmds, h') \<Longrightarrow> isActiveWriter h' = isActiveWriter h"
  by (auto simp: flushBatch_history_def Let_def dest: record_results_active split: if_splits prod.splits)

lemma relay_active [simp]: "isActiveWriter (relay cfg msg h) = isActiveWriter h"
  by (simp add: relay_def)

lemma tick_active:
  "handleHeartbeatTick cfg True ctxDone reply h = (restart, h') \<Longrightarrow>
     isActiveWriter h' = (if reply = None then isActiveWriter h else reply = Some True)"
  by (auto simp: handleHeartbeatTick_def lock_failure_def Let_def split: if_splits option.splits bool.splits)

text \<open>A command of a pod never takes the lock away from another pod that holds it.\<close>

lemma command_keeps_other:
  assumes "run_command fate f lk = (reply, lk')" and "lk = Some (pod', e)" and "now < e" and "pod' \<noteq> pod"
    and "f = set_nx_px pod ttl now \<or> f = lock_renew_script pod ttl now \<or> f = lock_release_script pod now"
  shows "lk' = lk"
  using assms by (cases fate) (auto simp: set_nx_px_def lock_renew_script_def lock_release_script_def lock_owner_def)

text \<open>What a pod's own acquisition or renewal leaves: it holds the lock when it succeeds, and keeps it when it held it.\<close>

lemma command_own:
  assumes "run_command fate f lk = (reply, lk')" and "f = set_nx_px pod ttl now \<or> f = lock_renew_script pod ttl now"
  shows "reply = Some True \<Longrightarrow> lk' = Some (pod, now + ttl)"
    and "lk = Some (pod, e) \<Longrightarrow> now < e \<Longrightarrow> lk' = Some (pod, e) \<or> lk' = Some (pod, now + ttl)"
  using assms by (cases fate; auto simp: set_nx_px_def lock_renew_script_def lock_owner_def split: if_splits)+

lemma set_pod_simps [simp]:
  "cu_now (set_pod pod h ph s) = cu_now s" "cu_lock (set_pod pod h ph s) = cu_lock s" "cu_confirmed (set_pod pod h ph s) = cu_confirmed s"
  "cu_pods (set_pod pod h ph s) = (cu_pods s)(pod := h)" "cu_received (set_pod pod h ph s) = cu_received s"
  "cu_phase (set_pod pod h ph s) = (cu_phase s)(pod := ph)"
  by (simp_all add: set_pod_def)

lemma command_sent_simps [simp]:
  "cu_now (command_sent pod ph lk s) = cu_now s" "cu_lock (command_sent pod ph lk s) = lk" "cu_confirmed (command_sent pod ph lk s) = cu_confirmed s"
  "cu_pods (command_sent pod ph lk s) = cu_pods s" "cu_received (command_sent pod ph lk s) = cu_received s"
  "cu_phase (command_sent pod ph lk s) = (cu_phase s)(pod := ph)"
  by (simp_all add: command_sent_def)

lemma confirm_lock_simps [simp]:
  "cu_now (confirm_lock pod reply t s) = cu_now s" "cu_lock (confirm_lock pod reply t s) = cu_lock s" "cu_pods (confirm_lock pod reply t s) = cu_pods s"
  "cu_received (confirm_lock pod reply t s) = cu_received s" "cu_phase (confirm_lock pod reply t s) = cu_phase s"
  "cu_confirmed (confirm_lock pod reply t s) = (if reply = Some True then (cu_confirmed s)(pod := t) else cu_confirmed s)"
  by (simp_all add: confirm_lock_def)

lemma held_frame: "cu_now s' = cu_now s \<Longrightarrow> cu_lock s' = cu_lock s \<Longrightarrow> held ttl s' pod t = held ttl s pod t"
  by (simp add: held_def)

text \<open>No acquisition or renewal of any pod takes a held lock away, and no release of another pod.\<close>

lemma held_command:
  assumes h: "held ttl s q t" and r: "run_command fate f (cu_lock s) = (reply, lk)" and n: "cu_now s' = cu_now s" "cu_lock s' = lk"
    and f: "f = set_nx_px pod ttl (cu_now s) \<or> f = lock_renew_script pod ttl (cu_now s) \<or> f = lock_release_script pod (cu_now s) \<and> q \<noteq> pod"
  shows "held ttl s' q t"
proof (cases "cu_now s < t + ttl")
  case True
  then obtain e where e: "cu_lock s = Some (q, e)" "t + ttl \<le> e" "cu_now s < e" using h by (auto simp: held_def)
  have "lk = Some (q, e) \<or> lk = Some (q, cu_now s + ttl)"
  proof (cases "q = pod")
    case True then show ?thesis using command_own(2) [OF r _ _ e(3)] f e(1) by auto
  next
    case False then show ?thesis using command_keeps_other [OF r e(1,3) False, of ttl] f e(1) by auto
  qed
  then show ?thesis using h e(2) n by (auto simp: held_def)
qed (use h n in \<open>simp add: held_def\<close>)

lemma held_sent:
  assumes "run_command fate f (cu_lock s) = (Some True, lk)" and "f = set_nx_px pod ttl (cu_now s) \<or> f = lock_renew_script pod ttl (cu_now s)"
    and "cu_now s' = cu_now s" "cu_lock s' = lk"
  shows "held ttl s' pod (cu_now s)"
  using command_own(1) [OF assms(1,2) refl] assms(3,4) by (simp add: held_def)

text \<open>Sending an acquisition or a renewal keeps the invariant, and so does its answer.\<close>

lemma lock_ok_sent:
  assumes ok: "lock_ok ttl s" and r: "run_command fate f (cu_lock s) = (reply, lk)" and ph: "cu_phase s pod \<noteq> Released"
    and f: "f = set_nx_px pod ttl (cu_now s) \<or> f = lock_renew_script pod ttl (cu_now s)" and ph': "ph = Acquiring reply (cu_now s) \<or> ph = Beating reply (cu_now s)"
  shows "lock_ok ttl (command_sent pod ph lk s)"
proof -
  have keep: "held ttl (command_sent pod ph lk s) q t" if "held ttl s q t" for q t
    by (rule held_command [OF that r]) (use f in auto)
  have own: "held ttl (command_sent pod ph lk s) pod (cu_now s)" if "reply = Some True"
    by (rule held_sent [OF r [unfolded that] f]) simp_all
  show ?thesis using ok ph ph' keep own unfolding lock_ok_def by (auto split: if_splits)
qed

lemma lock_ok_answered:
  assumes ok: "lock_ok ttl s" and ph: "cu_phase s pod = Acquiring reply t \<or> cu_phase s pod = Beating reply t"
    and h: "isActiveWriter h \<longrightarrow> reply = Some True \<or> isActiveWriter (cu_pods s pod)" and ph': "under_way ph' = None"
  shows "lock_ok ttl (confirm_lock pod reply t (set_pod pod h ph' s))"
proof -
  have fr: "held ttl (confirm_lock pod reply t (set_pod pod h ph' s)) q u = held ttl s q u" for q u by (rule held_frame) simp_all
  have "held ttl s pod t" if "reply = Some True" using ok ph that unfolding lock_ok_def by auto
  then show ?thesis using ok ph ph' h unfolding lock_ok_def fr by auto
qed

lemma lock_ok_same:
  assumes "lock_ok ttl s" and "cu_phase s pod \<noteq> Released" and "isActiveWriter h \<longrightarrow> isActiveWriter (cu_pods s pod)" and "ph = cu_phase s pod \<or> under_way ph = None"
    and "cu_now s' = cu_now s" "cu_lock s' = cu_lock s" "cu_pods s' = (cu_pods s)(pod := h)" "cu_phase s' = (cu_phase s)(pod := ph)" "cu_confirmed s' = cu_confirmed s"
  shows "lock_ok ttl s'"
proof -
  have fr: "held ttl s' q u = held ttl s q u" for q u by (rule held_frame) (simp_all add: assms)
  show ?thesis using assms(1-4) unfolding lock_ok_def fr by (auto simp: assms(5-9))
qed

lemma lock_ok_step:
  assumes "cluster_step cfg s s'" and ok: "lock_ok (hc_LockTTLMs cfg) s"
  shows "lock_ok (hc_LockTTLMs cfg) s'"
  using assms(1)
proof cases
  case (passes t)
  have "held (hc_LockTTLMs cfg) s' q u" if "held (hc_LockTTLMs cfg) s q u" for q u using that passes by (auto simp: held_def)
  then show ?thesis using ok unfolding passes(1) lock_ok_def by auto
next
  case (acquire_sent pod fate reply lk) then show ?thesis using lock_ok_sent [OF ok acquire_sent(3)] by simp
next
  case (acquire_answered pod reply t ph)
  then show ?thesis unfolding acquire_answered(1) by (intro lock_ok_answered [OF ok]) (auto simp: tryAcquireLock_def)
next
  case (beat_sent pod fate reply lk) then show ?thesis using lock_ok_sent [OF ok beat_sent(3)] by (simp add: heartbeat_command_def)
next
  case (beat_answered pod reply t ctxDone restart h)
  then show ?thesis unfolding beat_answered(1) using tick_active [OF beat_answered(3)]
    by (intro lock_ok_answered [OF ok]) (auto split: if_splits)
next
  case (relays pod msg)
  show ?thesis by (rule lock_ok_same [OF ok, of pod "relay cfg msg (cu_pods s pod)" "cu_phase s pod"]) (use relays in auto)
next
  case (flushes pod ok' notified processed cmds h)
  show ?thesis by (rule lock_ok_same [OF ok, of pod h InLoop]) (use flushes flush_active [OF flushes(3)] in auto)
next
  case (leaves pod)
  show ?thesis by (rule lock_ok_same [OF ok, of pod "cu_pods s pod" Leaving]) (use leaves in auto)
next
  case (releases pod fate reply lk)
  have "held (hc_LockTTLMs cfg) s' q t" if "held (hc_LockTTLMs cfg) s q t" "q \<noteq> pod" for q t
  proof (cases "isActiveWriter (cu_pods s pod)")
    case True show ?thesis by (rule held_command [OF that(1) releases(3)]) (use that True releases(1) in auto)
  next
    case False then show ?thesis using that held_frame [of s' s] releases(1) by simp
  qed
  then show ?thesis using ok unfolding lock_ok_def releases(1) by auto
next
  case (ends pod)
  have fr: "held ttl s' q u = held ttl s q u" for ttl q u by (rule held_frame) (simp_all add: ends(1))
  show ?thesis using ok unfolding lock_ok_def fr by (simp add: ends(1))
qed

section \<open>Accounting\<close>

definition written_off :: "history_writer \<Rightarrow> bus_message multiset" where
  "written_off h = mset (hw_droppedFull h) + mset (hw_droppedPassive h) + mset (hw_droppedEmptyMeta h) + mset (hw_failed h) + mset (hw_stored h)"

definition all_storable :: "history_writer \<Rightarrow> bool" where
  "all_storable h = list_all storable (hw_stored h)"

lemma record_results_account:
  "record_results ok j msgs h n = (m, h') \<Longrightarrow> list_all storable msgs \<Longrightarrow>
     written_off h' = written_off h + mset msgs \<and> hw_workChan h' = hw_workChan h \<and> (all_storable h \<longrightarrow> all_storable h')"
  by (induction ok j msgs h n rule: record_results.induct) (auto simp: written_off_def all_storable_def split: if_splits)

lemma flush_account:
  assumes "flushBatch_history cfg ok h = (processed, cmds, h')"
  shows "mset (hw_workChan h') + written_off h' = mset (hw_workChan h) + written_off h" and "all_storable h \<Longrightarrow> all_storable h'"
proof -
  let ?msgs = "take (hc_PipelineBatch cfg) (hw_workChan h)" and ?h = "h\<lparr>hw_workChan := drop (hc_PipelineBatch cfg) (hw_workChan h)\<rparr>"
  have work: "mset (hw_workChan h) = mset ?msgs + mset (drop (hc_PipelineBatch cfg) (hw_workChan h))" by (metis append_take_drop_id mset_append)
  have split: "mset ?msgs = mset (filter storable ?msgs) + mset (filter (\<lambda>m. \<not> storable m) ?msgs)" by (simp add: multiset_partition)
  have nil: "filter storable ?msgs = []" if "concat (map (store_commands cfg) (filter storable ?msgs)) = []"
    using that by (cases "filter storable ?msgs") (auto simp: store_commands_def Let_def)
  let ?e = "?h\<lparr>hw_droppedEmptyMeta := hw_droppedEmptyMeta h @ filter (\<lambda>m. \<not> storable m) ?msgs\<rparr>"
  obtain p r where r: "record_results ok 0 (filter storable ?msgs) ?e 0 = (p, r)" by fastforce
  note a = record_results_account [OF r]
  have "mset (hw_workChan h') + written_off h' = mset (hw_workChan h) + written_off h \<and> (all_storable h \<longrightarrow> all_storable h')"
  proof (cases "?msgs = []")
    case True
    then have "h' = ?h" using assms unfolding flushBatch_history_def Let_def by simp
    then show ?thesis unfolding work using True by (simp add: written_off_def all_storable_def)
  next
    case msgs: False
    show ?thesis
    proof (cases "isActiveWriter h")
      case False
      then have "h' = ?h\<lparr>hw_droppedPassive := hw_droppedPassive h @ ?msgs\<rparr>" using assms msgs unfolding flushBatch_history_def Let_def by simp
      then show ?thesis unfolding work by (simp add: written_off_def all_storable_def)
    next
      case active: True
      show ?thesis
      proof (cases "concat (map (store_commands cfg) (filter storable ?msgs)) = []")
        case True
        then have "h' = ?e" using assms msgs active unfolding flushBatch_history_def Let_def by simp
        then show ?thesis unfolding work split using nil [OF True] by (simp add: written_off_def all_storable_def)
      next
        case False
        then have "h' = r" using assms msgs active r unfolding flushBatch_history_def Let_def
          by (simp del: concat_eq_Nil_conv)
        moreover have "list_all storable (filter storable ?msgs)" by (simp add: list_all_iff)
        ultimately show ?thesis unfolding work split using a by (simp add: written_off_def all_storable_def)
      qed
    qed
  qed
  then show "mset (hw_workChan h') + written_off h' = mset (hw_workChan h) + written_off h" "all_storable h \<Longrightarrow> all_storable h'" by blast+
qed

definition history_ok :: "cluster \<Rightarrow> bool" where
  "history_ok s \<longleftrightarrow> (\<forall>pod. mset (cu_received s pod) = mset (hw_workChan (cu_pods s pod)) + written_off (cu_pods s pod) \<and> all_storable (cu_pods s pod))"

lemma tick_account:
  "handleHeartbeatTick cfg True ctxDone reply h = (restart, h') \<Longrightarrow>
     hw_workChan h' = hw_workChan h \<and> written_off h' = written_off h \<and> all_storable h' = all_storable h"
  by (auto simp: handleHeartbeatTick_def lock_failure_def written_off_def all_storable_def Let_def split: if_splits option.splits bool.splits)

lemma history_ok_step:
  assumes "cluster_step cfg s s'" and "history_ok s"
  shows "history_ok s'"
  using assms(1)
proof cases
  case (passes t) then show ?thesis using assms(2) by (simp add: history_ok_def)
next
  case (acquire_sent pod fate reply lk) then show ?thesis using assms(2) by (simp add: history_ok_def)
next
  case (acquire_answered pod reply t ph)
  then show ?thesis using assms(2) by (auto simp: history_ok_def tryAcquireLock_def written_off_def all_storable_def)
next
  case (beat_sent pod fate reply lk) then show ?thesis using assms(2) by (simp add: history_ok_def)
next
  case (beat_answered pod reply t ctxDone restart h)
  then show ?thesis using assms(2) tick_account [OF beat_answered(3)] by (auto simp: history_ok_def)
next
  case (relays pod msg) then show ?thesis using assms(2) by (auto simp: history_ok_def relay_def written_off_def all_storable_def)
next
  case (flushes pod ok notified processed cmds h)
  have "mset (hw_workChan h) + written_off h = mset (hw_workChan (cu_pods s pod)) + written_off (cu_pods s pod)"
    "all_storable (cu_pods s pod) \<Longrightarrow> all_storable h"
    using flush_account [OF flushes(3)] by (simp_all add: written_off_def all_storable_def)
  then show ?thesis using assms(2) flushes(1) by (auto simp: history_ok_def)
next
  case (leaves pod) then show ?thesis using assms(2) by (simp add: history_ok_def)
next
  case (releases pod fate reply lk) then show ?thesis using assms(2) by (simp add: history_ok_def)
next
  case (ends pod) then show ?thesis using assms(2) by (auto simp: history_ok_def written_off_def all_storable_def)
qed

lemma lock_ok_start: "lock_ok ttl start_cluster" by (simp add: lock_ok_def start_cluster_def new_writer_def)

lemma cluster_invariants:
  assumes "cluster_reachable cfg s"
  shows "history_ok s" and "lock_ok (hc_LockTTLMs cfg) s"
proof -
  have run: "(cluster_step cfg)\<^sup>*\<^sup>* start_cluster s" using assms by (simp add: cluster_reachable_def)
  show "history_ok s" using run
    by (induction rule: rtranclp_induct) (auto simp: history_ok_def start_cluster_def new_writer_def written_off_def all_storable_def dest: history_ok_step [unfolded history_ok_def])
  show "lock_ok (hc_LockTTLMs cfg) s" using run
    by (induction rule: rtranclp_induct) (use lock_ok_start in \<open>auto dest: lock_ok_step\<close>)
qed

section \<open>Restarting\<close>

text \<open>The delay before a restart is positive and never above the maximum, and so is the backoff kept for the next one.\<close>

lemma restart_delay_bounded:
  assumes "0 < hc_RestartInitialBackoff cfg" and "hc_RestartInitialBackoff cfg < 2 ^ 62" and "0 < hc_RestartMaxBackoff cfg" and "hc_RestartMaxBackoff cfg < 2 ^ 62"
    and "0 < backoff" and "backoff < 2 ^ 62" and "0 \<le> r" and "r < max 1 (jitter_base cfg backoff)"
  shows "0 < next_backoff cfg processed backoff" and "next_backoff cfg processed backoff < 2 ^ 62"
    and "0 < jittered_delay cfg r backoff" and "jittered_delay cfg r backoff \<le> hc_RestartMaxBackoff cfg"
proof -
  have r: "r \<le> backoff" using assms(5,7,8) by (auto simp: jitter_base_def)
  then have "i64 (backoff * 2) = backoff * 2" "i64 (backoff + r) = backoff + r" using assms(5,6,7) by (auto intro!: i64_id)
  then show "0 < next_backoff cfg processed backoff" "next_backoff cfg processed backoff < 2 ^ 62"
    "0 < jittered_delay cfg r backoff" "jittered_delay cfg r backoff \<le> hc_RestartMaxBackoff cfg"
    using assms by (auto simp: next_backoff_def jittered_delay_def Let_def)
qed

section \<open>Properties\<close>

text \<open>A pod that writes: it takes itself for the active writer, has not released the lock, and its last confirmed acquisition or
  renewal took effect less than the time to live ago.\<close>

definition fresh_writer :: "writer_config \<Rightarrow> cluster \<Rightarrow> string \<Rightarrow> bool" where
  "fresh_writer cfg s pod \<longleftrightarrow> isActiveWriter (cu_pods s pod) \<and> cu_phase s pod \<noteq> Released \<and> cu_now s < cu_confirmed s pod + hc_LockTTLMs cfg"

definition demo_writer_config :: writer_config where
  "demo_writer_config = \<lparr>hc_env = ''prod'', hc_PodID = ''a'', hc_WriterBuffer = 4, hc_PipelineBatch = 2, hc_BufferDepth = 1000, hc_TTLSeconds = 3600,
     hc_LockTTLMs = 10000, hc_MaxConsecutiveLockFailures = 3, hc_RestartInitialBackoff = 500000000, hc_RestartMaxBackoff = 30000000000\<rparr>"

text \<open>A pod acquires the free lock and enters its loop.\<close>

definition demo_acquires :: "string \<Rightarrow> cluster \<Rightarrow> cluster" where
  "demo_acquires pod s = confirm_lock pod (Some True) (cu_now s)
     (set_pod pod (new_writer\<lparr>isActiveWriter := True\<rparr>) InLoop (command_sent pod (Acquiring (Some True) (cu_now s)) (Some (pod, cu_now s + 10000)) s))"

lemma demo_acquires_reachable:
  assumes "cluster_reachable demo_writer_config s" and "cu_lock s = None" and "cu_phase s pod = Stopped" and "cu_pods s pod = new_writer"
  shows "cluster_reachable demo_writer_config (demo_acquires pod s)"
proof -
  let ?m = "command_sent pod (Acquiring (Some True) (cu_now s)) (Some (pod, cu_now s + 10000)) s"
  have "run_command Answered (set_nx_px pod (hc_LockTTLMs demo_writer_config) (cu_now s)) (cu_lock s) = (Some True, Some (pod, cu_now s + 10000))"
    by (simp add: set_nx_px_def lock_owner_def assms(2) demo_writer_config_def)
  then have 1: "cluster_step demo_writer_config s ?m" by (rule acquire_sent [OF assms(3)])
  have "cluster_step demo_writer_config ?m (demo_acquires pod s)"
    using acquire_answered [of ?m pod "Some True" "cu_now s" InLoop demo_writer_config] assms(4)
    by (simp add: demo_acquires_def tryAcquireLock_def new_writer_def)
  then show ?thesis using assms(1) 1 unfolding cluster_reachable_def by (meson rtranclp.rtrancl_into_rtrancl)
qed

definition demo_cluster :: cluster where
  "demo_cluster = demo_acquires ''a'' start_cluster"

lemma demo_cluster_reachable: "cluster_reachable demo_writer_config demo_cluster"
  unfolding demo_cluster_def by (rule demo_acquires_reachable) (simp_all add: cluster_reachable_def start_cluster_def)

text \<open>Pod \<open>a\<close> leaves its loop and its release takes effect; before the release returns, pod \<open>b\<close> acquires the lock.\<close>

definition demo_handover :: cluster where
  "demo_handover = demo_acquires ''b'' (command_sent ''a'' Released None (command_sent ''a'' Leaving (cu_lock demo_cluster) demo_cluster))"

lemma demo_handover_reachable: "cluster_reachable demo_writer_config demo_handover"
proof -
  let ?l = "command_sent ''a'' Leaving (cu_lock demo_cluster) demo_cluster"
  have 1: "cluster_step demo_writer_config demo_cluster ?l" by (rule leaves) (simp add: demo_cluster_def demo_acquires_def)
  have ph: "cu_phase ?l ''a'' = Leaving" by simp
  have r: "run_command Answered (lock_release_script ''a'' (cu_now ?l)) (cu_lock ?l) = (Some True, None)"
    by (simp add: demo_cluster_def demo_acquires_def start_cluster_def lock_release_script_def lock_owner_def)
  have "isActiveWriter (cu_pods ?l ''a'')" by (simp add: demo_cluster_def demo_acquires_def)
  with releases [OF ph r] have 2: "cluster_step demo_writer_config ?l (command_sent ''a'' Released None ?l)" by simp
  have "cluster_reachable demo_writer_config (command_sent ''a'' Released None ?l)"
    using demo_cluster_reachable 1 2 unfolding cluster_reachable_def by (meson rtranclp.rtrancl_into_rtrancl)
  then show ?thesis unfolding demo_handover_def
    by (rule demo_acquires_reachable) (simp_all add: demo_cluster_def demo_acquires_def start_cluster_def)
qed

text \<open>The flag alone does not single out a pod: while its release returns, a pod that gave the lock away still has its flag up, and the
  next pod is already an active writer.\<close>

lemma releasing_flag_overlaps:
  "isActiveWriter (cu_pods demo_handover ''a'')" "cu_phase demo_handover ''a'' = Released" "cu_now demo_handover < cu_confirmed demo_handover ''a'' + 10000"
  "fresh_writer demo_writer_config demo_handover ''b''"
  by (simp_all add: demo_handover_def demo_acquires_def demo_cluster_def start_cluster_def fresh_writer_def demo_writer_config_def)

text \<open>C24: One history writer at a time: in a cluster of pods, whatever replies are lost or late, a pod that takes itself for the active
  writer, has not yet released the lock and had its last confirmed acquisition or renewal less than the time to live ago owns the
  unexpired lock, and no other pod is such a writer. (A pod whose release took effect writes nothing more, though its flag is lowered only
  when the release has returned.)\<close>

theorem single_fresh_writer:
  assumes "cluster_reachable cfg s" and "fresh_writer cfg s p"
  shows "lock_owner (cu_now s) (cu_lock s) = Some p \<and> (\<forall>q. fresh_writer cfg s q \<longrightarrow> q = p)"
proof -
  have own: "\<exists>e. cu_lock s = Some (q, e) \<and> cu_now s < e" if "fresh_writer cfg s q" for q
    using cluster_invariants(2) [OF assms(1)] that unfolding lock_ok_def held_def fresh_writer_def by (meson order_less_le_trans)
  obtain e where "cu_lock s = Some (p, e)" "cu_now s < e" using own [OF assms(2)] by blast
  then show ?thesis using own by (fastforce simp: lock_owner_def)
qed

theorem single_fresh_writer_witness:
  "lock_owner (cu_now demo_handover) (cu_lock demo_handover) = Some ''b'' \<and> \<not> fresh_writer demo_writer_config demo_handover ''a''"
  using single_fresh_writer [OF demo_handover_reachable releasing_flag_overlaps(4)] by auto

text \<open>C25: The history writer loses nothing silently: what the bus gave to a pod is exactly what waits in its queue, was
  dropped with the queue full, while passive or for lack of metadata, failed at the store, or was stored, each as often as it
  came; and only messages with a tenant, a subject and a channel are ever stored.\<close>

theorem history_accounted:
  assumes "cluster_reachable cfg s"
  shows "mset (cu_received s pod) = mset (hw_workChan (cu_pods s pod)) + mset (hw_droppedFull (cu_pods s pod)) + mset (hw_droppedPassive (cu_pods s pod)) +
       mset (hw_droppedEmptyMeta (cu_pods s pod)) + mset (hw_failed (cu_pods s pod)) + mset (hw_stored (cu_pods s pod)) \<and>
     list_all (\<lambda>m. MsgTenantID m \<noteq> [] \<and> Subject m \<noteq> [] \<and> MsgChannel m \<noteq> []) (hw_stored (cu_pods s pod))"
proof -
  have "history_ok s" by (rule cluster_invariants(1) [OF assms])
  then have a: "mset (cu_received s pod) = mset (hw_workChan (cu_pods s pod)) + written_off (cu_pods s pod)" "all_storable (cu_pods s pod)"
    unfolding history_ok_def by blast+
  from a(1) have "mset (cu_received s pod) = mset (hw_workChan (cu_pods s pod)) + mset (hw_droppedFull (cu_pods s pod)) + mset (hw_droppedPassive (cu_pods s pod)) +
       mset (hw_droppedEmptyMeta (cu_pods s pod)) + mset (hw_failed (cu_pods s pod)) + mset (hw_stored (cu_pods s pod))" by (simp add: written_off_def ac_simps)
  with a(2) show ?thesis by (simp add: all_storable_def storable_def list_all_iff)
qed

definition demo_direct :: bus_message where
  "demo_direct = DirectBackend_message ''m1'' ''acme'' ''acme.BTC.trade'' ''hi''"

definition demo_kafka_message :: bus_message where
  "demo_kafka_message = \<lparr>Subject = ''acme.BTC.trade'', Payload = ''hi'', MsgTenantID = ''acme'', MsgPos = ''1-7'', MsgMid = ''m2'', MsgChannel = ''BTC.trade''\<rparr>"

definition demo_relay :: "bus_message \<Rightarrow> cluster \<Rightarrow> cluster" where
  "demo_relay msg s = (set_pod ''a'' (relay demo_writer_config msg (cu_pods s ''a'')) (cu_phase s ''a'') s)
     \<lparr>cu_received := (cu_received s)(''a'' := cu_received s ''a'' @ [msg])\<rparr>"

lemma demo_relay_reachable:
  assumes "cluster_reachable demo_writer_config s" and "cu_phase s ''a'' = InLoop"
  shows "cluster_reachable demo_writer_config (demo_relay msg s)" and "cu_phase (demo_relay msg s) ''a'' = InLoop"
proof -
  have "cluster_step demo_writer_config s (demo_relay msg s)" unfolding demo_relay_def by (rule relays) (simp add: assms(2))
  then show "cluster_reachable demo_writer_config (demo_relay msg s)" using assms(1) by (simp add: cluster_reachable_def)
  show "cu_phase (demo_relay msg s) ''a'' = InLoop" using assms(2) by (simp add: demo_relay_def)
qed

definition demo_relayed :: cluster where
  "demo_relayed = demo_relay demo_kafka_message (demo_relay demo_direct demo_cluster)"

definition demo_flushed :: cluster where
  "demo_flushed = set_pod ''a'' (snd (snd (flushBatch_history demo_writer_config (\<lambda>_. True) ((cu_pods demo_relayed ''a'')\<lparr>hw_notify := False\<rparr>))))
     InLoop demo_relayed"

lemma demo_flushed_reachable: "cluster_reachable demo_writer_config demo_flushed"
proof -
  have "cu_phase demo_cluster ''a'' = InLoop" by (simp add: demo_cluster_def demo_acquires_def)
  note 1 = demo_relay_reachable [OF demo_cluster_reachable this, of demo_direct]
  note r = demo_relay_reachable [OF 1, of demo_kafka_message, folded demo_relayed_def]
  let ?f = "flushBatch_history demo_writer_config (\<lambda>_. True) ((cu_pods demo_relayed ''a'')\<lparr>hw_notify := False\<rparr>)"
  have "?f = (fst ?f, fst (snd ?f), snd (snd ?f))" by simp
  then have "cluster_step demo_writer_config demo_relayed demo_flushed" unfolding demo_flushed_def by (rule flushes [OF r(2)])
  then show ?thesis using r(1) by (simp add: cluster_reachable_def)
qed

theorem history_accounted_witness:
  "mset (cu_received demo_flushed ''a'') = mset [demo_direct, demo_kafka_message] \<and> hw_stored (cu_pods demo_flushed ''a'') = [demo_kafka_message] \<and>
   mset (hw_droppedEmptyMeta (cu_pods demo_flushed ''a'')) + mset (hw_stored (cu_pods demo_flushed ''a'')) = mset [demo_direct, demo_kafka_message]"
proof -
  have e: "cu_received demo_flushed ''a'' = [demo_direct, demo_kafka_message]" "hw_stored (cu_pods demo_flushed ''a'') = [demo_kafka_message]"
    "hw_workChan (cu_pods demo_flushed ''a'') = []" "hw_droppedFull (cu_pods demo_flushed ''a'') = []"
    "hw_droppedPassive (cu_pods demo_flushed ''a'') = []" "hw_failed (cu_pods demo_flushed ''a'') = []" by code_simp+
  from history_accounted [OF demo_flushed_reachable, of "''a''"] show ?thesis unfolding e by simp
qed

text \<open>C28: What the direct backend publishes is never stored: no history writer of any cluster ever stores one of its messages,
  because they carry no bare channel; so they have no history copy that could share the identity of the live one.\<close>

theorem direct_never_stored:
  assumes "cluster_reachable cfg s"
  shows "DirectBackend_message mid tenantID channel data \<notin> set (hw_stored (cu_pods s pod))"
proof -
  have "history_ok s" by (rule cluster_invariants(1) [OF assms])
  then have "all_storable (cu_pods s pod)" unfolding history_ok_def by blast
  then show ?thesis by (auto simp: all_storable_def storable_def list_all_iff DirectBackend_message_def)
qed

theorem direct_never_stored_witness:
  "isActiveWriter (cu_pods demo_flushed ''a'') \<and> List.member (cu_received demo_flushed ''a'') (DirectBackend_message ''m1'' ''acme'' ''acme.BTC.trade'' ''hi'') \<and>
   DirectBackend_message ''m1'' ''acme'' ''acme.BTC.trade'' ''hi'' \<notin> set (hw_stored (cu_pods demo_flushed ''a''))"
proof -
  have "isActiveWriter (cu_pods demo_flushed ''a'')" "List.member (cu_received demo_flushed ''a'') (DirectBackend_message ''m1'' ''acme'' ''acme.BTC.trade'' ''hi'')"
    by code_simp+
  then show ?thesis using direct_never_stored [OF demo_flushed_reachable] by blast
qed

lemma StreamKey_inj:
  assumes "StreamKey env tn ch = StreamKey env tn' ch'" and "CHR '':'' \<notin> set tn" and "CHR '':'' \<notin> set tn'"
  shows "tn = tn' \<and> ch = ch'"
proof -
  have "tn @ CHR '':'' # ch = tn' @ CHR '':'' # ch'" using assms(1) by (simp add: StreamKey_def)
  then have "Cut (tn @ CHR '':'' # ch) '':'' = Some (tn', ch')" using assms(3) by (simp add: Cut_char)
  moreover have "Cut (tn @ CHR '':'' # ch) '':'' = Some (tn, ch)" using assms(2) by (simp add: Cut_char)
  ultimately show ?thesis by simp
qed

lemma slug_no_colon: "slug_pattern s \<Longrightarrow> CHR '':'' \<notin> set s"
  by (cases s) (auto simp: slug_pattern_def slug_letter_def literal_char_def list_all_iff)

text \<open>C23: History is read where it was written: for a channel of a tenant, the history handler fetches the very stream under
  which the writer stores what the consumer pool routes on that channel, and no message of another tenant or channel is ever
  stored under it.\<close>

theorem history_read_where_written:
  assumes "slug_pattern tn" and "handleHistoryRequest hcfg (Some st) (tn @ ''.'' @ bare) limit c = (c', Some d)" and "hs_env st = hc_env cfg"
    and "m = route_message (Some tn) (tn @ ''.'' @ bare) payload topicName part offset"
  shows "\<exists>key fields. d = HistoryFetch (tn @ ''.'' @ bare) key limit \<and> storable m \<and>
     store_commands cfg m = [Xadd key (hc_BufferDepth cfg) fields, Expire key (hc_TTLSeconds cfg)] \<and>
     (\<forall>m' depth fields' e. slug_pattern (MsgTenantID m') \<and> store_commands cfg m' = [Xadd key depth fields', e] \<longrightarrow> MsgTenantID m' = tn \<and> MsgChannel m' = bare)"
proof -
  have cut: "Cut (tn @ ''.'' @ bare) ''.'' = Some (tn, bare)" using slug_no_dot [OF assms(1)] by (simp add: Cut_char)
  let ?key = "StreamKey (hc_env cfg) tn bare"
  have d: "d = HistoryFetch (tn @ ''.'' @ bare) ?key limit" "bare \<noteq> []"
    using assms(2,3) unfolding handleHistoryRequest_def cut by (auto split: if_splits option.splits)
  have m: "MsgTenantID m = tn" "MsgChannel m = bare" "Subject m \<noteq> []" by (simp_all add: assms(4) route_message_def TrimPrefix_def HasPrefix_def)
  then have s: "storable m" using d(2) assms(1) by (auto simp: storable_def slug_pattern_def)
  obtain fields where f: "store_commands cfg m = [Xadd ?key (hc_BufferDepth cfg) fields, Expire ?key (hc_TTLSeconds cfg)]"
    using m by (simp add: store_commands_def Let_def)
  have "MsgTenantID m' = tn \<and> MsgChannel m' = bare" if "slug_pattern (MsgTenantID m')" "store_commands cfg m' = [Xadd ?key depth fields' , e]" for m' depth fields' e
    using StreamKey_inj [of "hc_env cfg" "MsgTenantID m'" "MsgChannel m'" tn bare] that slug_no_colon assms(1) by (simp add: store_commands_def Let_def)
  then show ?thesis using d(1) s f by blast
qed

theorem history_read_where_written_witness:
  "\<exists>key fields. snd (handleHistoryRequest demo_config (Some \<lparr>hs_env = ''prod'', hs_head = (\<lambda>_. None), hs_range = (\<lambda>_ _ _. None)\<rparr>) ''acme.BTC'' 5
       (demo_client\<lparr>subscriptions := {''acme.BTC''}\<rparr>)) = Some (HistoryFetch ''acme.BTC'' key 5) \<and>
     store_commands demo_writer_config (route_message (Some ''acme'') ''acme.BTC'' ''hi'' ''prod.acme.orders'' 0 7) = [Xadd key 1000 fields, Expire key 3600]"
proof -
  let ?st = "\<lparr>hs_env = ''prod'', hs_head = (\<lambda>_. None), hs_range = (\<lambda>_ _ _. None)\<rparr> :: history_store" and ?c = "demo_client\<lparr>subscriptions := {''acme.BTC''}\<rparr>"
  have p: "slug_pattern ''acme''" by code_simp
  have "\<exists>c' d. handleHistoryRequest demo_config (Some ?st) (''acme'' @ ''.'' @ ''BTC'') 5 ?c = (c', Some d)"
    by (simp add: handleHistoryRequest_def demo_config_def demo_client_def pool_New_def set_Has_def HasPrefix_def)
  then obtain c' d where h: "handleHistoryRequest demo_config (Some ?st) (''acme'' @ ''.'' @ ''BTC'') 5 ?c = (c', Some d)" by blast
  have e: "hs_env ?st = hc_env demo_writer_config" by (simp add: demo_writer_config_def)
  have ch: "''acme'' @ ''.'' @ ''BTC'' = ''acme.BTC''" by simp
  from history_read_where_written [OF p h e refl, of "''hi''" "''prod.acme.orders''" 0 7] h show ?thesis
    unfolding ch by (auto simp: demo_writer_config_def)
qed

end
