(* ===== verification/LoadBalancer.thy ===== *)
theory LoadBalancer
  imports Prelude
begin

text \<open>
  The load balancer in front of the shards (\<^verbatim>\<open>server/orchestration/loadbalancer.go\<close>): a new connection goes to the first of
  the shards with the fewest connections among those that have room. A shard is seen through the two numbers of the
  interface \<^verbatim>\<open>ShardMetrics\<close>.
\<close>

record shard_metrics =
  GetCurrentConnections :: int
  GetMaxConnections :: int

fun select_loop :: "int \<Rightarrow> shard_metrics list \<Rightarrow> int \<Rightarrow> int \<Rightarrow> int" where
  "select_loop i [] leastConnections selectedIndex = selectedIndex"
| "select_loop i (shard # shards) leastConnections selectedIndex =
     (if GetCurrentConnections shard \<ge> GetMaxConnections shard then select_loop (i + 1) shards leastConnections selectedIndex
      else if GetCurrentConnections shard < leastConnections then select_loop (i + 1) shards (GetCurrentConnections shard) i
      else select_loop (i + 1) shards leastConnections selectedIndex)"

definition SelectShardByMetrics :: "shard_metrics list \<Rightarrow> int" where
  "SelectShardByMetrics shards = select_loop 0 shards (2 ^ 63 - 1) (- 1)"

text \<open>The answer to an upgrade request: the shard whose proxy serves it, or 503.\<close>

definition handleWebSocket_lb :: "shard_metrics list \<Rightarrow> nat option" where
  "handleWebSocket_lb shards = (let idx = SelectShardByMetrics shards in if idx < 0 then None else Some (nat idx))"

text \<open>The reported totals; the capacity is capped by the limit of the edition, which admits nothing by itself.\<close>

definition aggregateMetrics :: "int option \<Rightarrow> shard_metrics list \<Rightarrow> int \<times> int" where
  "aggregateMetrics editionMax shards =
     (let total = fold (\<lambda>s n. i64 (n + GetCurrentConnections s)) shards 0;
          maxTotal = fold (\<lambda>s n. i64 (n + GetMaxConnections s)) shards 0
      in (total, case editionMax of
                   None \<Rightarrow> maxTotal
                 | Some m \<Rightarrow> if m > 0 \<and> maxTotal > m then m else maxTotal))"

section \<open>The choice\<close>

definition open_shard :: "shard_metrics \<Rightarrow> bool" where
  "open_shard s \<longleftrightarrow> GetCurrentConnections s < GetMaxConnections s"

text \<open>
  The loop over the rest of the shards returns what it has when none of them is open with fewer connections, and else the
  first of the open ones with the fewest.
\<close>

lemma select_loop_spec:
  "(\<forall>s\<in>set shards. open_shard s \<longrightarrow> least \<le> GetCurrentConnections s) \<and> select_loop i shards least sel = sel \<or>
   (\<exists>k<length shards. select_loop i shards least sel = i + int k \<and> open_shard (shards ! k) \<and> GetCurrentConnections (shards ! k) < least \<and>
      (\<forall>j<length shards. open_shard (shards ! j) \<longrightarrow> GetCurrentConnections (shards ! k) \<le> GetCurrentConnections (shards ! j) \<and>
         (j < k \<longrightarrow> GetCurrentConnections (shards ! k) < GetCurrentConnections (shards ! j))))"
proof (induction shards arbitrary: i least sel)
  case (Cons shard shards)
  let ?better = "open_shard shard \<and> GetCurrentConnections shard < least"
  let ?least = "if ?better then GetCurrentConnections shard else least" and ?sel = "if ?better then i else sel"
  have step: "select_loop i (shard # shards) least sel = select_loop (i + 1) shards ?least ?sel" by (simp add: open_shard_def)
  have IH: "(\<forall>s\<in>set shards. open_shard s \<longrightarrow> ?least \<le> GetCurrentConnections s) \<and> select_loop (i + 1) shards ?least ?sel = ?sel \<or>
    (\<exists>k<length shards. select_loop (i + 1) shards ?least ?sel = i + 1 + int k \<and> open_shard (shards ! k) \<and> GetCurrentConnections (shards ! k) < ?least \<and>
      (\<forall>j<length shards. open_shard (shards ! j) \<longrightarrow> GetCurrentConnections (shards ! k) \<le> GetCurrentConnections (shards ! j) \<and>
         (j < k \<longrightarrow> GetCurrentConnections (shards ! k) < GetCurrentConnections (shards ! j))))"
    by (rule Cons)
  from IH show ?case
  proof
    assume none: "(\<forall>s\<in>set shards. open_shard s \<longrightarrow> ?least \<le> GetCurrentConnections s) \<and> select_loop (i + 1) shards ?least ?sel = ?sel"
    show ?thesis
    proof (cases ?better)
      case True
      then have "\<forall>j<length (shard # shards). open_shard ((shard # shards) ! j) \<longrightarrow> GetCurrentConnections shard \<le> GetCurrentConnections ((shard # shards) ! j)"
        using none by (auto simp: less_Suc_eq_0_disj)
      then show ?thesis using True none step by (intro disjI2 exI [of _ 0]) auto
    next
      case False then show ?thesis using none step by auto
    qed
  next
    assume "\<exists>k<length shards. select_loop (i + 1) shards ?least ?sel = i + 1 + int k \<and> open_shard (shards ! k) \<and> GetCurrentConnections (shards ! k) < ?least \<and>
      (\<forall>j<length shards. open_shard (shards ! j) \<longrightarrow> GetCurrentConnections (shards ! k) \<le> GetCurrentConnections (shards ! j) \<and>
         (j < k \<longrightarrow> GetCurrentConnections (shards ! k) < GetCurrentConnections (shards ! j)))"
    then obtain k where k: "k < length shards" "select_loop (i + 1) shards ?least ?sel = i + 1 + int k" "open_shard (shards ! k)"
        "GetCurrentConnections (shards ! k) < ?least"
        "\<forall>j<length shards. open_shard (shards ! j) \<longrightarrow> GetCurrentConnections (shards ! k) \<le> GetCurrentConnections (shards ! j) \<and>
           (j < k \<longrightarrow> GetCurrentConnections (shards ! k) < GetCurrentConnections (shards ! j))" by blast
    have lt: "GetCurrentConnections (shards ! k) < least" "open_shard shard \<Longrightarrow> GetCurrentConnections (shards ! k) < GetCurrentConnections shard"
      using k(4) by (auto split: if_splits)
    have "\<forall>j<length (shard # shards). open_shard ((shard # shards) ! j) \<longrightarrow>
        GetCurrentConnections ((shard # shards) ! Suc k) \<le> GetCurrentConnections ((shard # shards) ! j) \<and>
        (j < Suc k \<longrightarrow> GetCurrentConnections ((shard # shards) ! Suc k) < GetCurrentConnections ((shard # shards) ! j))"
    proof (intro allI impI)
      fix j assume "j < length (shard # shards)" "open_shard ((shard # shards) ! j)"
      then show "GetCurrentConnections ((shard # shards) ! Suc k) \<le> GetCurrentConnections ((shard # shards) ! j) \<and>
          (j < Suc k \<longrightarrow> GetCurrentConnections ((shard # shards) ! Suc k) < GetCurrentConnections ((shard # shards) ! j))"
        using lt(2) k(5) by (cases j) auto
    qed
    then show ?thesis using k lt(1) step by (intro disjI2 exI [of _ "Suc k"]) auto
  qed
qed simp

section \<open>Property\<close>

text \<open>The load balancer chooses the least loaded shard: a connection is refused exactly when every shard is full, and
  otherwise goes to a shard with room, with no more connections than any other that has room, and with fewer than every
  earlier one.\<close>

theorem least_loaded_shard:
  assumes "\<forall>s\<in>set shards. GetMaxConnections s < 2 ^ 63"
  shows "case handleWebSocket_lb shards of
           None \<Rightarrow> \<forall>s\<in>set shards. GetMaxConnections s \<le> GetCurrentConnections s
         | Some k \<Rightarrow> k < length shards \<and> GetCurrentConnections (shards ! k) < GetMaxConnections (shards ! k) \<and>
             (\<forall>j<length shards. GetCurrentConnections (shards ! j) < GetMaxConnections (shards ! j) \<longrightarrow>
                GetCurrentConnections (shards ! k) \<le> GetCurrentConnections (shards ! j) \<and>
                (j < k \<longrightarrow> GetCurrentConnections (shards ! k) < GetCurrentConnections (shards ! j)))"
  using select_loop_spec [of shards "2 ^ 63 - 1" 0 "- 1"]
proof
  assume n: "(\<forall>s\<in>set shards. open_shard s \<longrightarrow> 2 ^ 63 - 1 \<le> GetCurrentConnections s) \<and> select_loop 0 shards (2 ^ 63 - 1) (- 1) = - 1"
  then have "handleWebSocket_lb shards = None" by (simp add: handleWebSocket_lb_def SelectShardByMetrics_def)
  moreover have "\<forall>s\<in>set shards. GetMaxConnections s \<le> GetCurrentConnections s" using n assms by (force simp: open_shard_def)
  ultimately show ?thesis by simp
next
  assume "\<exists>k<length shards. select_loop 0 shards (2 ^ 63 - 1) (- 1) = 0 + int k \<and> open_shard (shards ! k) \<and> GetCurrentConnections (shards ! k) < 2 ^ 63 - 1 \<and>
      (\<forall>j<length shards. open_shard (shards ! j) \<longrightarrow> GetCurrentConnections (shards ! k) \<le> GetCurrentConnections (shards ! j) \<and>
         (j < k \<longrightarrow> GetCurrentConnections (shards ! k) < GetCurrentConnections (shards ! j)))"
  then obtain k where k: "k < length shards" "select_loop 0 shards (2 ^ 63 - 1) (- 1) = int k" "open_shard (shards ! k)"
      "\<forall>j<length shards. open_shard (shards ! j) \<longrightarrow> GetCurrentConnections (shards ! k) \<le> GetCurrentConnections (shards ! j) \<and>
         (j < k \<longrightarrow> GetCurrentConnections (shards ! k) < GetCurrentConnections (shards ! j))" by auto
  then have "handleWebSocket_lb shards = Some k" by (simp add: handleWebSocket_lb_def SelectShardByMetrics_def)
  then show ?thesis using k by (simp add: open_shard_def)
qed

theorem least_loaded_shard_witness:
  "handleWebSocket_lb [\<lparr>GetCurrentConnections = 5, GetMaxConnections = 5\<rparr>, \<lparr>GetCurrentConnections = 3, GetMaxConnections = 9\<rparr>, \<lparr>GetCurrentConnections = 3, GetMaxConnections = 5\<rparr>] = Some 1 \<and>
   (1::nat) < length [\<lparr>GetCurrentConnections = 5, GetMaxConnections = 5\<rparr>, \<lparr>GetCurrentConnections = 3, GetMaxConnections = 9\<rparr>, \<lparr>GetCurrentConnections = (3::int), GetMaxConnections = (5::int)\<rparr>]"
proof -
  let ?s = "[\<lparr>GetCurrentConnections = 5, GetMaxConnections = 5\<rparr>, \<lparr>GetCurrentConnections = 3, GetMaxConnections = 9\<rparr>, \<lparr>GetCurrentConnections = 3, GetMaxConnections = 5\<rparr>]"
  have e: "handleWebSocket_lb ?s = Some 1" by (simp add: handleWebSocket_lb_def SelectShardByMetrics_def)
  have m: "\<forall>s\<in>set ?s. GetMaxConnections s < 2 ^ 63" by simp
  from least_loaded_shard [OF m] show ?thesis unfolding e option.case using e by blast
qed

end
