(* ===== verification/Spec2Isabelle.thy ===== *)
theory Spec2Isabelle
  imports TenantIsolation TenantConnections Pump ProxyRun FanoutGuarantees HistorySafety LoadBalancer
begin

text \<open>
  \<^bold>\<open>A verification of Sukko, a multi-tenant WebSocket distribution platform.\<close>

  \<^bold>\<open>The program.\<close> Clients connect to a \<^emph>\<open>gateway\<close> (\<^verbatim>\<open>src/ws/internal/gateway\<close>), which authenticates them, filters what
  they subscribe to and publish, and proxies frames to a \<^emph>\<open>server\<close> (\<^verbatim>\<open>src/ws/internal/server\<close>). A server keeps
  connections and subscriptions, receives messages from Kafka and from a \<^emph>\<open>broadcast bus\<close> on Valkey, fans
  them out, and replays missed ones. The \<^emph>\<open>control plane\<close> (\<^verbatim>\<open>src/ws/internal/provisioning\<close>) owns tenants, keys, rules
  and topics in PostgreSQL, administers the broker and streams its state to gateways and servers over gRPC;
  the clients of these streams are in \<^verbatim>\<open>src/ws/internal/shared/provapi\<close>. File names below are relative to
  \<^verbatim>\<open>src/ws/internal\<close>.

  \<^bold>\<open>Foundations.\<close>
  \<^item> \<open>Prelude\<close>, \<open>GoStrings\<close>, \<open>Decimal\<close>: generic lemmas; the functions of Go's \<open>strings\<close>, \<open>strconv\<close> and \<open>slices\<close> the
    source uses, on strings as lists of bytes; \<open>server/history/codec.go\<close>.
  \<^item> \<open>Json\<close>, \<open>JsonText\<close>, \<open>JsonCompact\<close>, \<open>JsonRoundTrip\<close>: the parts of \<open>encoding/json\<close> that decide what gateway and
    server read in the same bytes: scanner, compaction, string quoting, struct and map encoding. The scanner
    recurses on fuel; \<open>scan_fuel\<close> shows that the length of the text is always enough. \<open>JsonCompact\<close> also settles for which
    payloads the precomputed envelope of a broadcast has the bytes of \<open>Serialize\<close>.

  \<^bold>\<open>Names, patterns and permissions.\<close>
  \<^item> \<open>Channels\<close>: \<open>shared/auth/channel.go\<close>, \<open>pattern.go\<close>. \<open>RoutingPatterns\<close>: \<open>shared/routing/constants.go\<close>, with the
    matcher proved equal to a declarative meaning of the wildcards.
  \<^item> \<open>ChannelRules\<close>, \<open>Placeholders\<close>: \<open>shared/types/channel_rules.go\<close>, \<open>shared/auth/claims.go\<close>, \<open>placeholders.go\<close>.
  \<^item> \<open>TenantIsolation\<close>: \<open>shared/auth/tenant.go\<close>, \<open>topic.go\<close>. \<open>TenantConnections\<close>: \<open>gateway/tenant_connections.go\<close> as a
    step relation on its atomic operations.

  \<^bold>\<open>Gateway.\<close>
  \<^item> \<open>ConfigStream\<close>: \<open>shared/provapi/channel_rules_provider.go\<close>, \<open>api_key_registry.go\<close>.
  \<^item> \<open>Authentication\<close>: \<open>shared/auth/jwt_core.go\<close>, \<open>jwt_multitenant.go\<close>, \<open>gateway/auth_request.go\<close>.
  \<^item> \<open>GatewayPermissions\<close>: \<open>gateway/permissions_tenant.go\<close>, \<open>channel_filter.go\<close>.
  \<^item> \<open>Revocation\<close>: \<open>shared/provapi/revocation_stream.go\<close>, \<open>gateway/connection_registry.go\<close> and the re-check of \<open>gateway.go\<close>,
    interleaved: stream updates, the fan-out connection by connection, the handlers, and the refreshes that change a connection's claims.
  \<^item> \<open>GatewayProxy\<close>, \<open>ProxySafety\<close>, \<open>ProxyRun\<close>: \<open>gateway/proxy.go\<close>: interception of a frame's bytes, composed with the
    server's decoder; the two pumps, a token refresh and the parts of \<open>ForceClose\<close> as a step relation.

  \<^bold>\<open>Server.\<close>
  \<^item> \<open>Protocol\<close>, \<open>Messaging\<close>: \<open>shared/protocol\<close>, \<open>server/protocol.go\<close>, \<open>server/messaging\<close>.
  \<^item> \<open>Subscriptions\<close>, \<open>Broadcast\<close>: \<open>server/connection.go\<close>, \<open>broadcast.go\<close>, \<open>client_lifecycle.go\<close>, \<open>handlers_ws.go\<close>,
    \<open>grpc_service.go\<close>, each operation from its start to its end. \<open>FanoutRun\<close>: the same operations cut at every access to shared
    state; a connection is the list of its remaining actions, a broadcast a snapshot and then one subscriber at a time, and all of
    them interleave. \<open>FanoutSafety\<close>: the invariants of these runs; \<open>FanoutGuarantees\<close>: what a broadcast does to each client of its
    snapshot, and how slots, counters, clients and index agree. \<open>Pump\<close>: \<open>server/pump.go\<close>.
  \<^item> \<open>ServerHandlers\<close>, \<open>Replay\<close>, \<open>Deliveries\<close>: \<open>server/handlers_message.go\<close>, \<open>handlers_publish.go\<close>, \<open>handler_replay.go\<close>,
    \<open>handler_history.go\<close>, \<open>replay_shared.go\<close>; deliveries run as steps beside requests and broadcasts.
  \<^item> \<open>BroadcastBus\<close>, \<open>Shard\<close>: \<open>server/broadcast/valkey.go\<close> and \<open>server/orchestration/shard.go\<close>, with the callers and the
    management loop interleaved. \<open>LoadBalancer\<close>: the choice of a shard in \<open>server/orchestration/loadbalancer.go\<close>.

  \<^bold>\<open>Kafka.\<close>
  \<^item> \<open>KafkaConsumer\<close>: \<open>server/kafka/consumer.go\<close>: channel extraction, pacing, CPU brake, delivery with retry, marking. The
    waiting loops are partial functions; \<open>retry_delivers\<close> and the lemmas beside it show when they return. \<open>ConsumerRun\<close>: the
    unbatched and the batched loop as step relations and their invariants; \<open>ConsumerSafety\<close>: at-least-once delivery, what
    breaks it, isolation. \<open>KafkaReplay\<close>: \<open>ReplayFromOffsets\<close>, \<open>shared/kafka/mid.go\<close> and the replay of \<open>server/backend/kafkabackend\<close>.
  \<^item> \<open>KafkaProducer\<close>: \<open>server/kafka/producer.go\<close>, \<open>fanout_worker.go\<close>, \<open>dlq_worker.go\<close> and the two message backends;
    \<open>PublishSafety\<close>: publish and consume composed over the control plane, and the accounting of egress copies.
  \<^item> \<open>ConsumerPool\<close>: \<open>server/orchestration/multitenant_pool.go\<close>, a refresh with what the consumers report in every gap between
    its locks; \<open>PoolRun\<close>: its invariant and step relation; \<open>PoolSafety\<close>: what the pool fetches and routes.
  \<^item> \<open>HistoryWriter\<close>: \<open>server/history/writer.go\<close> and the lock scripts; \<open>HistorySafety\<close>: a cluster of writers in the
    phases of \<open>runOnce\<close>, with lost and late replies; a lock command takes effect, if it does, before its pod goes on.

  \<^bold>\<open>Control plane.\<close>
  \<^item> \<open>Licensing\<close>: \<open>shared/license\<close>: editions, limits, key verification, reloads.
  \<^item> \<open>TopicRouting\<close>: \<open>provisioning/topic_routing.go\<close>, \<open>shared/kafka/topic.go\<close>.
  \<^item> \<open>ProvisioningStore\<close>: \<open>provisioning/repository\<close>, each statement a function of a record of tables with the
    constraints of the migrations. \<open>ProvisioningService\<close>: \<open>provisioning/service.go\<close>, \<open>lifecycle.go\<close>: every operation that
    changes state, on the database, the log of broker calls, the published events and the gauge.
  \<^item> \<open>ProvisioningSteps\<close>, \<open>ProvisioningRun\<close>: operations as runs of guarded writes and the reachable states;
    \<open>ProvisioningSafety\<close>, \<open>ProvisioningGuarantees\<close>: invariants and what follows from them.
  \<^item> \<open>EventBus\<close>, \<open>ConfigFeed\<close>, \<open>FeedSafety\<close>: \<open>provisioning/eventbus\<close>, \<open>provisioning/grpcserver/server.go\<close>,
    \<open>shared/provapi/key_registry.go\<close>, \<open>topic_registry.go\<close>: one stream with its client as a step relation.

  \<^bold>\<open>Interfaces.\<close> A locale states each contract that several operations or components share, and an
  interpretation discharges it for the code's definitions: capacity orders of licences (\<open>capacity_order\<close>),
  predicates kept by guarded writes and invariants of the database (\<open>write_stable\<close>, \<open>database_invariant\<close>), clients
  that only know what was loaded and clients that never forget (\<open>fed_client\<close>, \<open>additive_client\<close>), and those of the
  earlier theories.

  \<^bold>\<open>What the theorems show.\<close> Isolation: what a client subscribes to, publishes to, replays and receives belongs
  to the tenant its credentials prove, through gateway and server, and topics are attributed to the tenant
  that owns them. A revocation reaches every connection it covers, whatever interleaves, save one whose refresh brought another
  subject or a token that was already revoked. Fan-out, write loop, replay and
  history are exact. The bus and the shards neither lose nor leak subscriptions. The consumer commits no record of a
  partition that was not delivered or deliberately dropped, a published message is consumed for its tenant under
  its own identity, the pool fetches what the registry lists, and every egress copy and every history message is
  accounted for. The database of the control
  plane is well formed in every reachable state, operations are confined to their tenant, deletion is final,
  creation compensates exactly, licences never shrink on a non-downgrading reload, and a snapshot refines the
  database. Some theorems state that the code does \<^emph>\<open>not\<close> do what it means to; they are named in the findings.

  \<^bold>\<open>Parameters and abstractions.\<close> Code that is not in the repository is an argument: the JWT library and the
  signature check, rate limiters, the message backend and the history store where requests meet them, Valkey replies and
  network results, the Kafka client's polls, produce results and its documented pause of topics, failing database calls and
  the broker's answers, public-key parsing. The iteration order of Go maps
  is an argument where it matters. Mutexes make a critical section one step; where the code runs goroutines in
  parallel the steps are interleaved, with these units: one operation of the provisioning service; in \<open>FanoutRun\<close> one access of a connection
  handler to shared state and the service of one subscriber by a broadcast; one publish of the bus; one flush of a history writer;
  and in \<open>Deliveries\<close> a whole broadcast of \<open>Broadcast\<close> beside the steps of a delivery. Times
  are integers. Loops are structural recursions, have a termination proof, or are partial functions whose result is
  proved to exist where a theorem needs it.

  \<^bold>\<open>Not modelled.\<close> Logging, metrics, tracing, alerts and analytics, which do not feed back; HTTP routing and
  encoding, and the SSE endpoint of the gateway, which wrap the modelled checks; configuration parsing; the Kafka client, push
  and webhook delivery, which call third-party services; floating-point token buckets, percentages and CPU sampling; start-up,
  rebalancing and the timed waits of shutdown; the policy engine, which no service uses; command-line tools, tests and
  generated code.
\<close>

end
